(* ===== verification/Prelude.thy ===== *)
theory Prelude
  imports Main
begin

text \<open>
  Shared vocabulary of the development: bytes and the ASCII classification the C++ sources use,
  decimal and hexadecimal rendering of numbers (\<^verbatim>\<open>std::to_string\<close>, \<^verbatim>\<open>snprintf\<close>), decimal
  reading (\<^verbatim>\<open>strtoll\<close>), results that may fail, and the generic lemmas on lists and bits that the
  component theories share.

  A C++ \<^verbatim>\<open>std::string\<close> is a list of bytes and is modelled by HOL's \<^typ>\<open>string\<close>: a \<^typ>\<open>char\<close> of HOL
  is exactly one byte, and \<open>byte c\<close> is its value as an unsigned char.
\<close>

unbundle bit_operations_syntax

named_theorems byte_simps \<open>arithmetic readings of the masks and shifts on bytes\<close>

section \<open>Bytes\<close>

abbreviation byte :: "char \<Rightarrow> nat" where
  "byte c \<equiv> of_char c"

abbreviation chr :: "nat \<Rightarrow> char" where
  "chr n \<equiv> char_of n"

lemma byte_less [simp]: "byte c < 256"
  by (metis nat_of_char_less_256)

lemma byte_chr: "n < 256 \<Longrightarrow> byte (chr n) = n"
  by (simp add: of_char_of)

lemma byte_inject: "byte c = byte d \<longleftrightarrow> c = d"
  by (simp add: of_char_eq_iff)

lemma byte_eqI: "byte c = n \<Longrightarrow> c = chr n"
  by auto

text \<open>The ctype functions of the "C" locale, which the program never changes.\<close>

definition isdigit :: "char \<Rightarrow> bool" where
  "isdigit c \<longleftrightarrow> 48 \<le> byte c \<and> byte c \<le> 57"

definition isalpha :: "char \<Rightarrow> bool" where
  "isalpha c \<longleftrightarrow> (65 \<le> byte c \<and> byte c \<le> 90) \<or> (97 \<le> byte c \<and> byte c \<le> 122)"

definition isalnum :: "char \<Rightarrow> bool" where
  "isalnum c \<longleftrightarrow> isalpha c \<or> isdigit c"

lemmas ctype_defs = isdigit_def isalpha_def isalnum_def

text \<open>The value of a hexadecimal digit, as the three hand-written decoders of the sources
  compute it (lexer, regular expressions, JSON).\<close>

definition hexValue :: "char \<Rightarrow> nat option" where
  "hexValue c =
     (if 48 \<le> byte c \<and> byte c \<le> 57 then Some (byte c - 48)
      else if 97 \<le> byte c \<and> byte c \<le> 102 then Some (byte c - 97 + 10)
      else if 65 \<le> byte c \<and> byte c \<le> 70 then Some (byte c - 65 + 10)
      else None)"

lemma hexValue_less: "hexValue c = Some d \<Longrightarrow> d < 16"
  by (auto simp: hexValue_def split: if_splits)

section \<open>Bit masks as arithmetic\<close>

lemma and_push_mask: "(n::nat) AND push_bit k (mask m) = 2 ^ k * ((n div 2 ^ k) mod 2 ^ m)"
proof -
  have "n AND push_bit k (mask m) = push_bit k (take_bit m (drop_bit k n))"
    by (rule bit_eqI)
      (auto simp: bit_and_iff bit_push_bit_iff bit_take_bit_iff bit_drop_bit_eq bit_mask_iff)
  then show ?thesis by (simp add: take_bit_eq_mod drop_bit_eq_div push_bit_eq_mult mult.commute)
qed

lemma and_high_mask:
  "n < 2 ^ k * 2 ^ m \<Longrightarrow> (n::nat) AND push_bit k (mask m) = 2 ^ k * (n div 2 ^ k)"
  using and_push_mask [of n k m] by (simp add: less_mult_imp_div_less mult.commute)

lemma mask_c0 [byte_simps]: "n < 256 \<Longrightarrow> (n::nat) AND 192 = 128 \<longleftrightarrow> 128 \<le> n \<and> n < 192"
  using and_high_mask [of n 6 2] by (auto simp: mask_eq_exp_minus_1 push_bit_eq_mult)

lemma mask_e0 [byte_simps]: "n < 256 \<Longrightarrow> (n::nat) AND 224 = 192 \<longleftrightarrow> 192 \<le> n \<and> n < 224"
  using and_high_mask [of n 5 3] by (auto simp: mask_eq_exp_minus_1 push_bit_eq_mult)

lemma mask_f0 [byte_simps]: "n < 256 \<Longrightarrow> (n::nat) AND 240 = 224 \<longleftrightarrow> 224 \<le> n \<and> n < 240"
  using and_high_mask [of n 4 4] by (auto simp: mask_eq_exp_minus_1 push_bit_eq_mult)

lemma mask_f8 [byte_simps]: "n < 256 \<Longrightarrow> (n::nat) AND 248 = 240 \<longleftrightarrow> 240 \<le> n \<and> n < 248"
  using and_high_mask [of n 3 5] by (auto simp: mask_eq_exp_minus_1 push_bit_eq_mult)

lemma and_low_mask: "(n::nat) AND mask k = n mod 2 ^ k"
  by (simp only: take_bit_eq_mask [symmetric] take_bit_eq_mod)

lemma and_63 [byte_simps]: "(n::nat) AND 63 = n mod 64"
  using and_low_mask [of n 6] by (simp add: mask_eq_exp_minus_1)

lemma and_31 [byte_simps]: "(n::nat) AND 31 = n mod 32"
  using and_low_mask [of n 5] by (simp add: mask_eq_exp_minus_1)

lemma and_15 [byte_simps]: "(n::nat) AND 15 = n mod 16"
  using and_low_mask [of n 4] by (simp add: mask_eq_exp_minus_1)

lemma and_7 [byte_simps]: "(n::nat) AND 7 = n mod 8"
  using and_low_mask [of n 3] by (simp add: mask_eq_exp_minus_1)

lemma push_bit_or_low: "b < 2 ^ k \<Longrightarrow> push_bit k (v::nat) OR b = v * 2 ^ k + b"
proof -
  assume "b < 2 ^ k"
  have "push_bit k v AND take_bit k b = 0"
    by (rule bit_eqI) (auto simp: bit_and_iff bit_push_bit_iff bit_take_bit_iff)
  then have "push_bit k v OR take_bit k b = push_bit k v + take_bit k b"
    by (simp add: disjunctive_add_eq_or)
  with \<open>b < 2 ^ k\<close> show ?thesis by (simp add: take_bit_eq_mod push_bit_eq_mult)
qed

lemma push_bit_or_mod_64 [byte_simps]: "push_bit 6 (v::nat) OR (b mod 64) = v * 64 + b mod 64"
  using push_bit_or_low [of "b mod 64" 6 v] by simp

lemma lead_c0_or [byte_simps]: "(x::nat) < 32 \<Longrightarrow> 192 OR x = 192 + x"
  using push_bit_or_low [of x 5 6] by (simp add: push_bit_eq_mult)

lemma lead_e0_or [byte_simps]: "(x::nat) < 16 \<Longrightarrow> 224 OR x = 224 + x"
  using push_bit_or_low [of x 4 14] by (simp add: push_bit_eq_mult)

lemma lead_f0_or [byte_simps]: "(x::nat) < 8 \<Longrightarrow> 240 OR x = 240 + x"
  using push_bit_or_low [of x 3 30] by (simp add: push_bit_eq_mult)

lemma cont_80_or [byte_simps]: "128 OR ((x::nat) mod 64) = 128 + x mod 64"
  using push_bit_or_low [of "x mod 64" 6 2] by (simp add: push_bit_eq_mult)

section \<open>Numbers as text\<close>

text \<open>\<^verbatim>\<open>std::to_string\<close> of an unsigned and of a signed number.\<close>

fun dec :: "nat \<Rightarrow> string" where
  "dec n = (if n < 10 then [chr (48 + n)] else dec (n div 10) @ [chr (48 + n mod 10)])"

declare dec.simps [simp del]

definition int_dec :: "int \<Rightarrow> string" where
  "int_dec i = (if i < 0 then CHR ''-'' # dec (nat (- i)) else dec (nat i))"

text \<open>The value of a run of decimal digits.\<close>

definition digit_value :: "char \<Rightarrow> nat" where
  "digit_value c = byte c - 48"

definition dec_value :: "string \<Rightarrow> nat" where
  "dec_value s = foldl (\<lambda>v c. v * 10 + digit_value c) 0 s"

lemma dec_value_Nil [simp]: "dec_value [] = 0"
  by (simp add: dec_value_def)

lemma dec_value_snoc [simp]: "dec_value (s @ [c]) = dec_value s * 10 + digit_value c"
  by (simp add: dec_value_def)

lemma digit_value_chr [simp]: "d < 10 \<Longrightarrow> digit_value (chr (48 + d)) = d"
  by (simp add: digit_value_def byte_chr)

lemma isdigit_chr [simp]: "d < 10 \<Longrightarrow> isdigit (chr (48 + d))"
  by (simp add: isdigit_def byte_chr)

lemma dec_value_dec [simp]: "dec_value (dec n) = n"
proof (induction n rule: dec.induct)
  case (1 n)
  show ?case
  proof (cases "n < 10")
    case True
    then show ?thesis
      using dec_value_snoc [of "[]" "chr (48 + n)"] by (simp add: dec.simps [of n])
  next
    case False
    with 1 show ?thesis by (simp add: dec.simps [of n])
  qed
qed

lemma dec_digits: "c \<in> set (dec n) \<Longrightarrow> isdigit c"
proof (induction n rule: dec.induct)
  case (1 n)
  then show ?case by (cases "n < 10") (auto simp: dec.simps [of n])
qed

lemma dec_nonempty [simp]: "dec n \<noteq> []"
  by (subst dec.simps) simp

text \<open>Hexadecimal rendering: lower and upper case digits, as \<^verbatim>\<open>%x\<close> and \<^verbatim>\<open>%X\<close> print them, and a
  field of fixed width padded with zeroes.\<close>

definition hex_lower :: "nat \<Rightarrow> char" where
  "hex_lower d = (if d < 10 then chr (48 + d) else chr (87 + d))"

definition hex_upper :: "nat \<Rightarrow> char" where
  "hex_upper d = (if d < 10 then chr (48 + d) else chr (55 + d))"

fun hex :: "(nat \<Rightarrow> char) \<Rightarrow> nat \<Rightarrow> string" where
  "hex h n = (if n < 16 then [h n] else hex h (n div 16) @ [h (n mod 16)])"

declare hex.simps [simp del]

definition pad_left :: "nat \<Rightarrow> char \<Rightarrow> string \<Rightarrow> string" where
  "pad_left w c s = replicate (w - length s) c @ s"

lemma hexValue_lower [simp]: "d < 16 \<Longrightarrow> hexValue (hex_lower d) = Some d"
  by (auto simp: hexValue_def hex_lower_def byte_chr)

lemma hexValue_upper [simp]: "d < 16 \<Longrightarrow> hexValue (hex_upper d) = Some d"
  by (auto simp: hexValue_def hex_upper_def byte_chr)

section \<open>Results that may fail\<close>

text \<open>A C++ function that may throw answers \<open>Inl\<close> the error or \<open>Inr\<close> its value; \<open>bindE\<close> runs the
  next step only when the previous one returned, as an exception would have skipped it.\<close>

definition bindE :: "'e + 'a \<Rightarrow> ('a \<Rightarrow> 'e + 'b) \<Rightarrow> 'e + 'b" where
  "bindE m f = (case m of Inl e \<Rightarrow> Inl e | Inr a \<Rightarrow> f a)"

lemma bindE_simps [simp]:
  "bindE (Inl e) f = Inl e"
  "bindE (Inr a) f = f a"
  by (simp_all add: bindE_def)

lemma bindE_Inr_iff: "bindE m f = Inr b \<longleftrightarrow> (\<exists>a. m = Inr a \<and> f a = Inr b)"
  by (cases m) auto

lemma bindE_Inl_iff: "bindE m f = Inl e \<longleftrightarrow> m = Inl e \<or> (\<exists>a. m = Inr a \<and> f a = Inl e)"
  by (cases m) auto

lemma bindE_cong [fundef_cong]:
  "m = m' \<Longrightarrow> (\<And>a. m' = Inr a \<Longrightarrow> f a = f' a) \<Longrightarrow> bindE m f = bindE m' f'"
  by (cases m') auto

section \<open>Lists\<close>

text \<open>Reading past the end of an input never happens in the sources; a run of bytes that satisfy
  a predicate is taken with its remainder, as the scanning loops do.\<close>

lemma takeWhile_append_stop:
  "(\<forall>x\<in>set xs. P x) \<Longrightarrow> (ys = [] \<or> \<not> P (hd ys)) \<Longrightarrow> takeWhile P (xs @ ys) = xs"
  by (induction xs) (auto simp: neq_Nil_conv takeWhile_eq_Nil_iff)

lemma dropWhile_append_stop:
  "(\<forall>x\<in>set xs. P x) \<Longrightarrow> (ys = [] \<or> \<not> P (hd ys)) \<Longrightarrow> dropWhile P (xs @ ys) = ys"
  by (induction xs) (auto simp: neq_Nil_conv dropWhile_eq_self_iff)

end
