(* ===== verification/Utf8.thy ===== *)
theory Utf8
  imports Prelude
begin

text \<open>
  The UTF-8 layer: the strict decoder of the lexer (\<^verbatim>\<open>decodeUtf8\<close>, src/reader/Lexer.cpp), the
  encoder shared by the lexer and the JSON parser (\<^verbatim>\<open>appendUtf8\<close>, Lexer.cpp and Json.cpp), and the
  lenient length table of the regular expressions (\<^verbatim>\<open>utf8Length\<close>, \<^verbatim>\<open>nextCharacter\<close>, Regex.cpp).

  The lemmas show that the decoder accepts exactly the encodings of the Unicode scalar values:
  it inverts the encoder, and whatever it accepts is the encoder's output, so overlong forms,
  surrogates, truncated and stray bytes are all refused.
\<close>

section \<open>Decoding\<close>

text \<open>The loop over the continuation bytes: \<open>k\<close> of them are still to be read. The case of an
  input that ends early is excluded by the length test before the loop.\<close>

fun decodeCont :: "nat \<Rightarrow> string \<Rightarrow> nat \<Rightarrow> nat option" where
  "decodeCont 0 s value = Some value"
| "decodeCont (Suc k) [] value = None"
| "decodeCont (Suc k) (b # s) value =
     (if byte b AND 0xC0 \<noteq> 0x80 then None
      else decodeCont k s (push_bit 6 value OR (byte b AND 0x3F)))"

text \<open>\<^verbatim>\<open>decodeUtf8(s, pos, &cp)\<close>: \<open>s\<close> is the source from \<open>pos\<close> on, which every caller has checked
  not to be at the end; \<open>Some (cp, len)\<close> stands for a length \<open>len > 0\<close>, \<open>None\<close> for the answer 0.\<close>

definition decodeUtf8 :: "string \<Rightarrow> (nat \<times> nat) option" where
  "decodeUtf8 s =
     (case s of
        [] \<Rightarrow> None
      | c # rest \<Rightarrow>
          let b0 = byte c in
          if b0 < 0x80 then Some (b0, 1)
          else
            let start =
              (if b0 AND 0xE0 = 0xC0 then Some (2, b0 AND 0x1F, 0x80)
               else if b0 AND 0xF0 = 0xE0 then Some (3, b0 AND 0x0F, 0x800)
               else if b0 AND 0xF8 = 0xF0 then Some (4, b0 AND 0x07, 0x10000)
               else None)
            in case start of
                 None \<Rightarrow> None
               | Some (len, value, minimum) \<Rightarrow>
                   if len > length s then None
                   else case decodeCont (len - 1) rest value of
                          None \<Rightarrow> None
                        | Some v \<Rightarrow>
                            if v < minimum \<or> v > 0x10FFFF \<or> (v \<ge> 0xD800 \<and> v \<le> 0xDFFF)
                            then None
                            else Some (v, len))"

section \<open>Encoding\<close>

definition appendUtf8 :: "nat \<Rightarrow> string" where
  "appendUtf8 cp =
     (if cp < 0x80 then [chr cp]
      else if cp < 0x800 then
        [chr (0xC0 OR drop_bit 6 cp), chr (0x80 OR (cp AND 0x3F))]
      else if cp < 0x10000 then
        [chr (0xE0 OR drop_bit 12 cp), chr (0x80 OR (drop_bit 6 cp AND 0x3F)),
         chr (0x80 OR (cp AND 0x3F))]
      else
        [chr (0xF0 OR drop_bit 18 cp), chr (0x80 OR (drop_bit 12 cp AND 0x3F)),
         chr (0x80 OR (drop_bit 6 cp AND 0x3F)), chr (0x80 OR (cp AND 0x3F))])"

section \<open>The lenient lengths of the regular expressions\<close>

definition utf8Length :: "char \<Rightarrow> nat" where
  "utf8Length lead =
     (if byte lead < 0xC0 then 1
      else if byte lead < 0xE0 then 2
      else if byte lead < 0xF0 then 3
      else if byte lead < 0xF8 then 4
      else 1)"

text \<open>\<^verbatim>\<open>nextCharacter(s, pos)\<close>: the loop checks the \<open>len - 1\<close> bytes after the lead byte.\<close>

definition nextCharacter :: "string \<Rightarrow> nat \<Rightarrow> nat" where
  "nextCharacter s pos =
     (if pos \<ge> length s then pos + 1
      else let len = utf8Length (s ! pos) in
        if pos + len > length s then pos + 1
        else if list_ex (\<lambda>k. byte (s ! (pos + k)) AND 0xC0 \<noteq> 0x80) [1..<len] then pos + 1
        else pos + len)"

section \<open>Lemmas\<close>

text \<open>The code points an UTF-8 string can hold: the Unicode scalar values.\<close>

definition scalar :: "nat \<Rightarrow> bool" where
  "scalar cp \<longleftrightarrow> cp \<le> 0x10FFFF \<and> \<not> (0xD800 \<le> cp \<and> cp \<le> 0xDFFF)"

lemma appendUtf8_arith:
  "scalar cp \<Longrightarrow> appendUtf8 cp =
     (if cp < 0x80 then [chr cp]
      else if cp < 0x800 then [chr (192 + cp div 64), chr (128 + cp mod 64)]
      else if cp < 0x10000 then
        [chr (224 + cp div 4096), chr (128 + cp div 64 mod 64), chr (128 + cp mod 64)]
      else
        [chr (240 + cp div 262144), chr (128 + cp div 4096 mod 64),
         chr (128 + cp div 64 mod 64), chr (128 + cp mod 64)])"
proof -
  assume "scalar cp"
  then have "cp < 8 * 262144" by (auto simp: scalar_def)
  then have "cp div 262144 < 8" by (rule less_mult_imp_div_less)
  then show ?thesis unfolding appendUtf8_def
    by (simp add: drop_bit_eq_div byte_simps)
qed

lemma decodeCont_arith:
  "decodeCont (Suc k) (b # s) value =
     (if 128 \<le> byte b \<and> byte b < 192 then decodeCont k s (value * 64 + byte b mod 64) else None)"
  by (simp add: byte_simps)

lemma decodeUtf8_Cons:
  "decodeUtf8 (c # rest) =
     (let b0 = byte c in
      if b0 < 128 then Some (b0, 1)
      else if b0 < 192 \<or> 248 \<le> b0 then None
      else
        let (len, value, minimum) =
          (if b0 < 224 then (2, b0 mod 32, 0x80)
           else if b0 < 240 then (3, b0 mod 16, 0x800) else (4, b0 mod 8, 0x10000))
        in if len > Suc (length rest) then None
           else case decodeCont (len - 1) rest value of
                  None \<Rightarrow> None
                | Some v \<Rightarrow> if v < minimum \<or> \<not> scalar v then None else Some (v, len))"
  by (auto simp: decodeUtf8_def byte_simps scalar_def Let_def not_le not_less split: option.split)

text \<open>The multi-byte forms, by the six-bit digits of the code point.\<close>

lemma mod_above: "x < m \<Longrightarrow> (q * m + x) mod m = (x::nat)"
  by simp

lemmas lead_digits = mod_above [of _ 32 6, simplified] mod_above [of _ 16 14, simplified]
  mod_above [of _ 8 30, simplified] mod_above [of _ 64 2, simplified]

lemma decodeUtf8_2:
  assumes "a < 32" "x < 64"
  shows "decodeUtf8 (chr (192 + a) # chr (128 + x) # rest) =
    (if a * 64 + x < 0x80 then None else Some (a * 64 + x, 2))"
proof -
  have "(192 + a) mod 32 = a" "(128 + x) mod 64 = x"
    using assms lead_digits by blast+
  with assms show ?thesis
    by (simp add: decodeUtf8_Cons byte_chr decodeCont_arith scalar_def numeral_2_eq_2
        del: decodeCont.simps(3))
qed

lemma decodeUtf8_3:
  assumes "a < 16" "y < 64" "x < 64"
  shows "decodeUtf8 (chr (224 + a) # chr (128 + y) # chr (128 + x) # rest) =
    (let v = (a * 64 + y) * 64 + x in if v < 0x800 \<or> \<not> scalar v then None else Some (v, 3))"
proof -
  have "(224 + a) mod 16 = a" "(128 + y) mod 64 = y" "(128 + x) mod 64 = x"
    using assms lead_digits by blast+
  with assms show ?thesis
    by (simp add: decodeUtf8_Cons byte_chr decodeCont_arith numeral_2_eq_2 numeral_3_eq_3 Let_def
        del: decodeCont.simps(3))
qed

lemma decodeUtf8_4:
  assumes "a < 8" "z < 64" "y < 64" "x < 64"
  shows "decodeUtf8 (chr (240 + a) # chr (128 + z) # chr (128 + y) # chr (128 + x) # rest) =
    (let v = ((a * 64 + z) * 64 + y) * 64 + x
     in if v < 0x10000 \<or> \<not> scalar v then None else Some (v, 4))"
proof -
  have "(240 + a) mod 8 = a" "(128 + z) mod 64 = z" "(128 + y) mod 64 = y" "(128 + x) mod 64 = x"
    using assms lead_digits by blast+
  with assms show ?thesis
    by (simp add: decodeUtf8_Cons byte_chr decodeCont_arith numeral_2_eq_2 numeral_3_eq_3
        eval_nat_numeral(3) [of "num.Bit1 num.One"] Let_def del: decodeCont.simps(3))
qed

lemma six_bit_digits:
  "(cp::nat) div 64 * 64 + cp mod 64 = cp"
  "(cp::nat) div 4096 * 64 + cp div 64 mod 64 = cp div 64"
  "(cp::nat) div 262144 * 64 + cp div 4096 mod 64 = cp div 4096"
  using div_mult_mod_eq [of cp 64] div_mult_mod_eq [of "cp div 64" 64]
    div_mult_mod_eq [of "cp div 4096" 64]
  by (simp_all only: div_mult2_eq [symmetric]) simp_all

lemma appendUtf8_decode:
  assumes "scalar cp"
  shows "decodeUtf8 (appendUtf8 cp @ rest) = Some (cp, length (appendUtf8 cp))"
proof -
  have "cp < 8 * 262144" using assms by (auto simp: scalar_def)
  then have "cp div 262144 < 8" by (rule less_mult_imp_div_less)
  consider "cp < 0x80" | "0x80 \<le> cp" "cp < 0x800" | "0x800 \<le> cp" "cp < 0x10000"
    | "0x10000 \<le> cp" by linarith
  then show ?thesis
  proof cases
    case 1
    then show ?thesis unfolding appendUtf8_arith [OF assms]
      by (simp add: decodeUtf8_Cons byte_chr)
  next
    case 2
    then show ?thesis unfolding appendUtf8_arith [OF assms]
      using decodeUtf8_2 [of "cp div 64" "cp mod 64" rest] by (simp add: six_bit_digits)
  next
    case 3
    then show ?thesis unfolding appendUtf8_arith [OF assms]
      using decodeUtf8_3 [of "cp div 4096" "cp div 64 mod 64" "cp mod 64" rest] assms
      by (simp add: six_bit_digits Let_def)
  next
    case 4
    then show ?thesis unfolding appendUtf8_arith [OF assms]
      using decodeUtf8_4 [of "cp div 262144" "cp div 4096 mod 64" "cp div 64 mod 64" "cp mod 64" rest]
        assms \<open>cp div 262144 < 8\<close>
      by (simp add: six_bit_digits Let_def)
  qed
qed

lemma decodeCont_SomeE:
  assumes "decodeCont (Suc k) s v = Some w"
  obtains x s' where "s = chr (128 + x) # s'" "x < 64" "decodeCont k s' (v * 64 + x) = Some w"
proof -
  from assms obtain b s' where s: "s = b # s'" by (cases s) auto
  with assms have b: "128 \<le> byte b" "byte b < 192" and
    w: "decodeCont k s' (v * 64 + byte b mod 64) = Some w"
    by (auto simp: decodeCont_arith simp del: decodeCont.simps(3) split: if_splits)
  define x where "x = byte b - 128"
  have x: "byte b = 128 + x" "x < 64" using b by (simp_all add: x_def)
  have "b = chr (128 + x)" using x(1) by (rule byte_eqI)
  moreover have "byte b mod 64 = x" using x lead_digits(4) by simp
  ultimately show ?thesis using that [of x s'] s w x(2) by simp
qed

text \<open>The encoder by the same digits.\<close>

lemma digits_div_mod: "x < 64 \<Longrightarrow> (h * 64 + x) div 64 = h" "x < 64 \<Longrightarrow> (h * 64 + x) mod 64 = (x::nat)"
  by auto

lemma appendUtf8_2:
  assumes "x < 64" "0x80 \<le> a * 64 + x" "a * 64 + x < 0x800"
  shows "appendUtf8 (a * 64 + x) = [chr (192 + a), chr (128 + x)]"
  using assms appendUtf8_arith [of "a * 64 + x"] by (simp add: scalar_def digits_div_mod)

lemma appendUtf8_3:
  assumes "scalar cp" "cp = (a * 64 + y) * 64 + x" "y < 64" "x < 64" "0x800 \<le> cp" "cp < 0x10000"
  shows "appendUtf8 cp = [chr (224 + a), chr (128 + y), chr (128 + x)]"
proof -
  have "cp div 64 = a * 64 + y" "cp mod 64 = x" using assms digits_div_mod by blast+
  moreover have "cp div 4096 = cp div 64 div 64" by (simp add: div_mult2_eq [symmetric])
  ultimately show ?thesis using assms by (simp add: appendUtf8_arith digits_div_mod)
qed

lemma appendUtf8_4:
  assumes "scalar cp" "cp = ((a * 64 + z) * 64 + y) * 64 + x" "z < 64" "y < 64" "x < 64"
    "0x10000 \<le> cp"
  shows "appendUtf8 cp = [chr (240 + a), chr (128 + z), chr (128 + y), chr (128 + x)]"
proof -
  have d1: "cp div 64 = (a * 64 + z) * 64 + y" "cp mod 64 = x" using assms digits_div_mod by blast+
  have "cp div 4096 = cp div 64 div 64" by (simp add: div_mult2_eq [symmetric])
  then have d2: "cp div 4096 = a * 64 + z" "cp div 64 mod 64 = y"
    using d1(1) digits_div_mod \<open>y < 64\<close> by metis+
  have "cp div 262144 = cp div 4096 div 64" by (simp add: div_mult2_eq [symmetric])
  then have d3: "cp div 262144 = a" "cp div 4096 mod 64 = z"
    using d2(1) digits_div_mod \<open>z < 64\<close> by metis+
  show ?thesis
    unfolding appendUtf8_arith [OF assms(1)] d3(1) d3(2) d2(2) d1(2) using assms(6) by simp
qed

lemma decode_lead:
  assumes "byte c = q * m + a" "a < m"
  shows "c = chr (q * m + a)" "byte c mod m = a"
  using assms by (auto dest: byte_eqI)

lemma decodeUtf8_lead_range:
  "decodeUtf8 (c # rest) = Some (cp, n) \<Longrightarrow> byte c < 128 \<or> 192 \<le> byte c \<and> byte c < 248"
  by (auto simp: decodeUtf8_Cons Let_def split: if_splits)

lemma decodeUtf8_sound_2:
  assumes "decodeUtf8 (c # rest) = Some (cp, n)" "192 \<le> byte c" "byte c < 224"
  shows "scalar cp \<and> (\<exists>t. c # rest = appendUtf8 cp @ t) \<and> n = length (appendUtf8 cp)"
proof -
  define a where "a = byte c - 192"
  have a: "byte c = 192 + a" "a < 32" using assms by (simp_all add: a_def)
  note c = decode_lead [of c 6 32 a, simplified, OF a]
  from assms c have dc: "decodeCont (Suc 0) rest a = Some cp" "128 \<le> cp" "scalar cp" "n = 2"
    by (auto simp: decodeUtf8_Cons Let_def split: if_splits option.splits)
  from dc(1) obtain x t where x: "rest = chr (128 + x) # t" "x < 64" "cp = a * 64 + x"
    by (auto elim!: decodeCont_SomeE)
  then have "appendUtf8 cp = [chr (192 + a), chr (128 + x)]"
    using a dc(2) by (simp add: appendUtf8_2)
  with dc c x show ?thesis by simp
qed

lemma decodeUtf8_sound_3:
  assumes "decodeUtf8 (c # rest) = Some (cp, n)" "224 \<le> byte c" "byte c < 240"
  shows "scalar cp \<and> (\<exists>t. c # rest = appendUtf8 cp @ t) \<and> n = length (appendUtf8 cp)"
proof -
  define a where "a = byte c - 224"
  have a: "byte c = 224 + a" "a < 16" using assms by (simp_all add: a_def)
  note c = decode_lead [of c 14 16 a, simplified, OF a]
  from assms c have dc: "decodeCont (Suc (Suc 0)) rest a = Some cp" "2048 \<le> cp" "scalar cp" "n = 3"
    by (auto simp: decodeUtf8_Cons Let_def numeral_2_eq_2 split: if_splits option.splits)
  from dc(1) obtain y x t where x: "rest = chr (128 + y) # chr (128 + x) # t" "y < 64" "x < 64"
    "cp = (a * 64 + y) * 64 + x"
    by (auto elim!: decodeCont_SomeE)
  have "cp < 65536" using x a by simp
  with x dc have "appendUtf8 cp = [chr (224 + a), chr (128 + y), chr (128 + x)]"
    by (intro appendUtf8_3) auto
  with dc c x show ?thesis by simp
qed

lemma decodeUtf8_sound_4:
  assumes "decodeUtf8 (c # rest) = Some (cp, n)" "240 \<le> byte c" "byte c < 248"
  shows "scalar cp \<and> (\<exists>t. c # rest = appendUtf8 cp @ t) \<and> n = length (appendUtf8 cp)"
proof -
  define a where "a = byte c - 240"
  have a: "byte c = 240 + a" "a < 8" using assms by (simp_all add: a_def)
  note c = decode_lead [of c 30 8 a, simplified, OF a]
  from assms c have dc: "decodeCont (Suc (Suc (Suc 0))) rest a = Some cp" "65536 \<le> cp"
    "scalar cp" "n = 4"
    by (auto simp: decodeUtf8_Cons Let_def numeral_3_eq_3 split: if_splits option.splits)
  from dc(1) obtain z y x t where
    x: "rest = chr (128 + z) # chr (128 + y) # chr (128 + x) # t" "z < 64" "y < 64" "x < 64"
      "cp = ((a * 64 + z) * 64 + y) * 64 + x"
    by (auto elim!: decodeCont_SomeE)
  with dc have "appendUtf8 cp = [chr (240 + a), chr (128 + z), chr (128 + y), chr (128 + x)]"
    by (intro appendUtf8_4) auto
  with dc c x show ?thesis by simp
qed

lemma decodeUtf8_sound:
  assumes "decodeUtf8 s = Some (cp, n)"
  shows "scalar cp \<and> (\<exists>t. s = appendUtf8 cp @ t) \<and> n = length (appendUtf8 cp)"
proof (cases s)
  case Nil
  with assms show ?thesis by (simp add: decodeUtf8_def)
next
  case (Cons c rest)
  with assms decodeUtf8_lead_range [of c rest cp n]
  consider "byte c < 128" | "192 \<le> byte c" "byte c < 224" | "224 \<le> byte c" "byte c < 240"
    | "240 \<le> byte c" "byte c < 248" by force
  then show ?thesis
  proof cases
    case 1
    with assms Cons show ?thesis by (auto simp: decodeUtf8_Cons scalar_def appendUtf8_def)
  qed (use assms Cons decodeUtf8_sound_2 decodeUtf8_sound_3 decodeUtf8_sound_4 in blast)+
qed

lemma appendUtf8_nonempty [simp]: "appendUtf8 cp \<noteq> []"
  by (simp add: appendUtf8_def)

lemma decodeUtf8_length_le: "decodeUtf8 s = Some (cp, n) \<Longrightarrow> 0 < n \<and> n \<le> length s"
  using decodeUtf8_sound by fastforce

lemma appendUtf8_shape:
  assumes "scalar cp"
  shows "utf8Length (hd (appendUtf8 cp)) = length (appendUtf8 cp)"
    and "\<forall>b\<in>set (tl (appendUtf8 cp)). byte b AND 0xC0 = 0x80"
proof -
  have "cp < 8 * 262144" using assms by (auto simp: scalar_def)
  then have d: "cp div 262144 < 8" by (rule less_mult_imp_div_less)
  have d': "cp < 0x800 \<Longrightarrow> cp div 64 < 32" "cp < 0x10000 \<Longrightarrow> cp div 4096 < 16" by simp_all
  show "utf8Length (hd (appendUtf8 cp)) = length (appendUtf8 cp)"
    unfolding appendUtf8_arith [OF assms] using d d'
    by (auto simp: utf8Length_def byte_chr)
  show "\<forall>b\<in>set (tl (appendUtf8 cp)). byte b AND 0xC0 = 0x80"
    unfolding appendUtf8_arith [OF assms]
    by (auto simp: mask_c0 byte_chr)
qed

lemma nextCharacter_progress: "pos < nextCharacter s pos"
  by (auto simp: nextCharacter_def utf8Length_def Let_def)

lemma nextCharacter_bound: "nextCharacter s pos \<le> max (pos + 1) (length s)"
  by (auto simp: nextCharacter_def Let_def)

lemma nextCharacter_decode:
  assumes "decodeUtf8 (drop pos s) = Some (cp, n)"
  shows "nextCharacter s pos = pos + n"
proof -
  from decodeUtf8_sound [OF assms] obtain t where
    cp: "scalar cp" and t: "drop pos s = appendUtf8 cp @ t" and n: "n = length (appendUtf8 cp)" by auto
  have len: "pos + n \<le> length s" "pos < length s"
    using arg_cong [OF t, of length] n by (cases "pos < length s"; simp; simp)+
  have nth: "k < n \<Longrightarrow> s ! (pos + k) = appendUtf8 cp ! k" for k
    using t len n by (metis nth_append nth_drop order_less_imp_le)
  have u: "utf8Length (s ! pos) = n"
    using appendUtf8_shape(1) [OF cp] nth [of 0] n by (simp add: hd_conv_nth)
  have "\<not> list_ex (\<lambda>k. byte (s ! (pos + k)) AND 0xC0 \<noteq> 0x80) [1..<n]"
  proof -
    have "byte (s ! (pos + k)) AND 0xC0 = 0x80" if "1 \<le> k" "k < n" for k
    proof -
      have "appendUtf8 cp ! k \<in> set (tl (appendUtf8 cp))"
        using that n by (metis Suc_diff_1 Suc_le_D diff_Suc_1 in_set_conv_nth length_tl nth_tl
            less_Suc_eq_le not_less_eq One_nat_def Suc_pred)
      with appendUtf8_shape(2) [OF cp] nth that show ?thesis by simp
    qed
    then show ?thesis by (auto simp: list_ex_iff)
  qed
  with len u show ?thesis by (simp add: nextCharacter_def Let_def)
qed

section \<open>Properties\<close>

text \<open>C29. The lexer's UTF-8 decoder accepts exactly the encodings of the Unicode scalar values: it
  answers a code point and a length if and only if the input starts with the encoder's output for
  that code point, so overlong encodings, surrogates, values beyond U+10FFFF, truncated sequences
  and stray continuation bytes are all refused.\<close>

theorem decodeUtf8_iff:
  "decodeUtf8 s = Some (cp, n) \<longleftrightarrow>
     scalar cp \<and> (\<exists>t. s = appendUtf8 cp @ t) \<and> n = length (appendUtf8 cp)"
  using decodeUtf8_sound appendUtf8_decode by auto

text \<open>The step over one character that a search makes after an empty match always moves forward,
  never past the end of the subject except by the one position that ends the search, and over a
  well-formed character it moves by exactly that character's bytes.\<close>

theorem nextCharacter_spec:
  "pos < nextCharacter s pos \<and> nextCharacter s pos \<le> max (pos + 1) (length s) \<and>
   (decodeUtf8 (drop pos s) = Some (cp, n) \<longrightarrow> nextCharacter s pos = pos + n)"
  using nextCharacter_progress nextCharacter_bound nextCharacter_decode by blast

theorem nextCharacter_spec_witness:
  "decodeUtf8 (drop 1 [CHR ''a'', chr 0xC3, chr 0xB1]) = Some (0xF1, 2) \<and>
   nextCharacter [CHR ''a'', chr 0xC3, chr 0xB1] 1 = 3"
proof -
  have h: "decodeUtf8 (drop 1 [CHR ''a'', chr 0xC3, chr 0xB1]) = Some (0xF1, 2)"
    using decodeUtf8_2 [of 3 49 "[]"] by simp
  show ?thesis using h nextCharacter_spec [of 1 "[CHR ''a'', chr 0xC3, chr 0xB1]" "0xF1" 2] by simp
qed

end
