(* ===== verification/Lexer.thy ===== *)
theory Lexer
  imports Utf8 UnicodeLetters
begin

text \<open>
  The lexer (src/reader/Token.h, Lexer.h, Lexer.cpp). A \<open>cursor\<close> is the source from \<^verbatim>\<open>pos_\<close> on with
  the line and column; every scanning loop of the source is a recursion that moves the cursor with
  \<open>advance\<close>, and each \<^verbatim>\<open>lex...\<close> member is a function from the cursor to its token and the cursor
  after it. \<open>nextTok\<close> and \<open>peekTok\<close> are \<^verbatim>\<open>Lexer::next\<close> and \<^verbatim>\<open>Lexer::peek\<close> on the lexer's state.

  Lines and columns are unbounded naturals (the source's are \<^verbatim>\<open>int\<close>: a source of less than
  2 to the 31 lines). The double a float token holds is named by the text given to \<^verbatim>\<open>strtod\<close>; the
  rounding itself is the C library's.

  The lemmas show that every token moves the cursor along the source (so positions are those of the
  characters consumed), that each token consumes input, so that lexing any source ends, and that
  the printed forms of strings and integers lex back to their values.
\<close>

named_theorems moves \<open>the functions of the lexer only move the cursor\<close>

section \<open>Tokens\<close>

datatype TokenKind =
    TkInteger | TkFloat | TkRatio | TkString | TkChar | TkSymbol | TkKeyword | TkNil | TkTrue | TkFalse
  | TkLParen | TkRParen | TkLBracket | TkRBracket | TkLBrace | TkRBrace | TkHashLBrace | TkHashLParen
  | TkRegex | TkQuote | TkBacktick | TkTilde | TkTildeAt | TkHashUnderscore | TkHashApostrophe
  | TkCaret | TkAt | TkEndOfFile | TkError

text \<open>The doubles a token can hold: what \<^verbatim>\<open>strtod\<close> reads from a text, and the symbolic values.\<close>

datatype cdouble = Strtod string | PosInf | NegInf | QuietNaN

record Token =
  kind :: TokenKind
  lexeme :: string
  intValue :: int
  fitsLong :: bool
  doubleValue :: cdouble
  tline :: nat
  tcolumn :: nat

fun tokenKindName :: "TokenKind \<Rightarrow> string" where
  "tokenKindName TkInteger = ''Integer''"
| "tokenKindName TkFloat = ''Float''"
| "tokenKindName TkRatio = ''Ratio''"
| "tokenKindName TkString = ''String''"
| "tokenKindName TkChar = ''Char''"
| "tokenKindName TkSymbol = ''Symbol''"
| "tokenKindName TkKeyword = ''Keyword''"
| "tokenKindName TkNil = ''Nil''"
| "tokenKindName TkTrue = ''True''"
| "tokenKindName TkFalse = ''False''"
| "tokenKindName TkLParen = ''LParen''"
| "tokenKindName TkRParen = ''RParen''"
| "tokenKindName TkLBracket = ''LBracket''"
| "tokenKindName TkRBracket = ''RBracket''"
| "tokenKindName TkLBrace = ''LBrace''"
| "tokenKindName TkRBrace = ''RBrace''"
| "tokenKindName TkHashLBrace = ''HashLBrace''"
| "tokenKindName TkHashLParen = ''HashLParen''"
| "tokenKindName TkRegex = ''Regex''"
| "tokenKindName TkQuote = ''Quote''"
| "tokenKindName TkBacktick = ''Backtick''"
| "tokenKindName TkTilde = ''Tilde''"
| "tokenKindName TkTildeAt = ''TildeAt''"
| "tokenKindName TkHashUnderscore = ''HashUnderscore''"
| "tokenKindName TkHashApostrophe = ''HashApostrophe''"
| "tokenKindName TkCaret = ''Caret''"
| "tokenKindName TkAt = ''At''"
| "tokenKindName TkEndOfFile = ''EOF''"
| "tokenKindName TkError = ''Error''"

text \<open>A token of the given kind and text at a position, the other fields at their defaults.\<close>

definition tokenAt :: "TokenKind \<Rightarrow> string \<Rightarrow> nat \<times> nat \<Rightarrow> Token" where
  "tokenAt k s p =
     \<lparr>kind = k, lexeme = s, intValue = 0, fitsLong = True, doubleValue = Strtod ''0'',
      tline = fst p, tcolumn = snd p\<rparr>"

definition makeError :: "string \<Rightarrow> nat \<times> nat \<Rightarrow> Token" where
  "makeError msg p = tokenAt TkError msg p"

section \<open>The cursor\<close>

record cursor =
  rest :: string
  line :: nat
  column :: nat

abbreviation at :: "cursor \<Rightarrow> nat \<times> nat" where
  "at cu \<equiv> (line cu, column cu)"

abbreviation eof :: "cursor \<Rightarrow> bool" where
  "eof cu \<equiv> rest cu = []"

text \<open>\<^verbatim>\<open>current()\<close>, read only where the end has been excluded, and \<^verbatim>\<open>lookahead()\<close>, which is the
  NUL byte at the end.\<close>

definition current :: "cursor \<Rightarrow> char" where
  "current cu = (case rest cu of [] \<Rightarrow> CHR 0x00 | c # _ \<Rightarrow> c)"

definition lookahead :: "cursor \<Rightarrow> char" where
  "lookahead cu = (case rest cu of _ # d # _ \<Rightarrow> d | _ \<Rightarrow> CHR 0x00)"

abbreviation newline :: char where "newline \<equiv> CHR 0x0A"
abbreviation dquote :: char where "dquote \<equiv> CHR 0x22"
abbreviation squote :: char where "squote \<equiv> CHR 0x27"
abbreviation backslash :: char where "backslash \<equiv> CHR 0x5C"
abbreviation backquote :: char where "backquote \<equiv> CHR 0x60"

definition advance :: "cursor \<Rightarrow> cursor" where
  "advance cu =
     (case rest cu of
        [] \<Rightarrow> cu
      | c # cs \<Rightarrow>
          if c = newline then cu\<lparr>rest := cs, line := line cu + 1, column := 1\<rparr>
          else if byte c AND 0xC0 \<noteq> 0x80 then cu\<lparr>rest := cs, column := column cu + 1\<rparr>
          else cu\<lparr>rest := cs\<rparr>)"

definition advanceBy :: "nat \<Rightarrow> cursor \<Rightarrow> cursor" where
  "advanceBy n cu = (advance ^^ n) cu"

lemma rest_advance [simp]: "rest (advance cu) = tl (rest cu)"
  by (cases "rest cu") (auto simp: advance_def)

lemma rest_advanceBy [simp]: "rest (advanceBy n cu) = drop n (rest cu)"
  by (induction n arbitrary: cu) (auto simp: advanceBy_def drop_Suc tl_drop)

text \<open>The loop \<^verbatim>\<open>while (!eof() && p(current())) { out += current(); advance(); }\<close>: what it appends
  and where it stops.\<close>

function scanWhile :: "(char \<Rightarrow> bool) \<Rightarrow> cursor \<Rightarrow> string \<times> cursor" where
  "scanWhile p cu =
     (if \<not> eof cu \<and> p (current cu)
      then let (s, cu') = scanWhile p (advance cu) in (current cu # s, cu')
      else ([], cu))"
  by pat_completeness auto
termination
  by (relation "measure (\<lambda>(p, cu). length (rest cu))") auto

declare scanWhile.simps [simp del]

text \<open>The loop that appends whole characters, their byte length given by \<open>len\<close> (0 stops it);
  \<open>started\<close> is whether something was appended before.\<close>

function scanChars :: "(bool \<Rightarrow> string \<Rightarrow> nat) \<Rightarrow> bool \<Rightarrow> cursor \<Rightarrow> string \<times> cursor" where
  "scanChars len started cu =
     (if eof cu then ([], cu)
      else let n = len started (rest cu) in
        if n = 0 then ([], cu)
        else let (s, cu') = scanChars len True (advanceBy n cu) in (take n (rest cu) @ s, cu'))"
  by pat_completeness auto
termination
  by (relation "measure (\<lambda>(len, st, cu). length (rest cu))") auto

declare scanChars.simps [simp del]

section \<open>Whitespace and comments\<close>

function skipWhitespaceAndComments :: "cursor \<Rightarrow> cursor" where
  "skipWhitespaceAndComments cu =
     (if eof cu then cu
      else let c = current cu in
        if c = CHR '' '' \<or> c = CHR 0x09 \<or> c = CHR 0x0D \<or> c = newline \<or> c = CHR '',''
        then skipWhitespaceAndComments (advance cu)
        else if c = CHR '';'' \<or> (c = CHR ''#'' \<and> lookahead cu = CHR ''!'')
        then skipWhitespaceAndComments (snd (scanWhile (\<lambda>d. d \<noteq> newline) cu))
        else cu)"
  by pat_completeness auto

lemma scanWhile_rest [simp]: "rest (snd (scanWhile p cu)) = dropWhile p (rest cu)"
proof (induction p cu rule: scanWhile.induct)
  case (1 p cu)
  then show ?case
    by (cases "rest cu")
      (auto simp: scanWhile.simps [of p cu] current_def split: prod.split)
qed

lemma scanWhile_text [simp]: "fst (scanWhile p cu) = takeWhile p (rest cu)"
proof (induction p cu rule: scanWhile.induct)
  case (1 p cu)
  then show ?case
    by (cases "rest cu")
      (auto simp: scanWhile.simps [of p cu] current_def split: prod.split)
qed

lemma dropWhile_shorter: "xs \<noteq> [] \<Longrightarrow> p (hd xs) \<Longrightarrow> length (dropWhile p xs) < length xs"
  by (cases xs) (auto simp: le_imp_less_Suc length_dropWhile_le)

lemma hd_current: "\<not> eof cu \<Longrightarrow> hd (rest cu) = current cu"
  by (cases "rest cu") (simp_all add: current_def)

lemma advance_shorter: "\<not> eof cu \<Longrightarrow> length (rest (advance cu)) < length (rest cu)"
  by simp

lemma scanWhile_shorter:
  "\<not> eof cu \<Longrightarrow> p (current cu) \<Longrightarrow> length (rest (snd (scanWhile p cu))) < length (rest cu)"
  by (simp add: dropWhile_shorter hd_current)

termination skipWhitespaceAndComments
proof (relation "measure (\<lambda>cu. length (rest cu))")
  fix cu c
  assume "\<not> eof cu" "c = current cu"
    "\<not> (c = CHR '' '' \<or> c = CHR 0x09 \<or> c = CHR 0x0D \<or> c = newline \<or> c = CHR '','')"
  then show "(snd (scanWhile (\<lambda>d. d \<noteq> newline) cu), cu) \<in> measure (\<lambda>cu. length (rest cu))"
    using scanWhile_shorter [of cu "\<lambda>d. d \<noteq> newline"] by simp
qed (simp_all add: advance_shorter)

declare skipWhitespaceAndComments.simps [simp del]

section \<open>Symbol characters\<close>

definition isAsciiSymbolChar :: "char \<Rightarrow> bool" where
  "isAsciiSymbolChar c \<longleftrightarrow>
     isalnum c \<or> c \<in> set ''*+!-_?<>=./:&$%'' \<or> c = squote"

text \<open>\<^verbatim>\<open>symbolCharLength(pos)\<close>, on the source from \<^verbatim>\<open>pos\<close> on.\<close>

definition symbolCharLength :: "string \<Rightarrow> nat" where
  "symbolCharLength s =
     (case s of
        [] \<Rightarrow> 0
      | c # _ \<Rightarrow>
          if byte c < 0x80 then (if isAsciiSymbolChar c then 1 else 0)
          else case decodeUtf8 s of
                 None \<Rightarrow> 0
               | Some (cp, len) \<Rightarrow> if isSymbolLetter cp then len else 0)"

definition trailLength :: "string \<Rightarrow> nat" where
  "trailLength s =
     (case s of
        [] \<Rightarrow> 0
      | c # _ \<Rightarrow>
          if byte c \<ge> 0x80 then symbolCharLength s
          else if isalnum c \<or> c = CHR ''_'' \<or> c = CHR ''.'' then 1 else 0)"

section \<open>Numbers\<close>

text \<open>\<^verbatim>\<open>strtoll\<close> on an optional minus and digits; \<open>None\<close> is \<^verbatim>\<open>ERANGE\<close>.\<close>

definition strtoll :: "string \<Rightarrow> int option" where
  "strtoll s =
     (let v = (case s of
                 [] \<Rightarrow> 0
               | c # ds \<Rightarrow> if c = CHR ''-'' then - int (dec_value ds) else int (dec_value s))
      in if - (2 ^ 63) \<le> v \<and> v < 2 ^ 63 then Some v else None)"

text \<open>The fraction: a point followed by digits, or nothing.\<close>

definition fractionPart :: "cursor \<Rightarrow> string \<times> cursor" where
  "fractionPart cu =
     (if \<not> eof cu \<and> current cu = CHR ''.'' \<and> isdigit (lookahead cu)
      then let (ds, cu') = scanWhile isdigit (advance cu) in (CHR ''.'' # ds, cu')
      else ([], cu))"

text \<open>The exponent: its text, whether it is complete, and the cursor after it.\<close>

definition exponentPart :: "cursor \<Rightarrow> string \<times> bool \<times> cursor" where
  "exponentPart cu =
     (if \<not> eof cu \<and> (current cu = CHR ''e'' \<or> current cu = CHR ''E'')
      then
        let e = current cu;
            cu1 = advance cu;
            signed = (\<not> eof cu1 \<and> (current cu1 = CHR ''+'' \<or> current cu1 = CHR ''-''));
            ex = (if signed then [e, current cu1] else [e]);
            cu2 = (if signed then advance cu1 else cu1)
        in if eof cu2 \<or> \<not> isdigit (current cu2) then (ex, False, cu2)
           else let (ds, cu3) = scanWhile isdigit cu2 in (ex @ ds, True, cu3)
      else ([], True, cu))"

definition numberToken :: "string \<Rightarrow> bool \<Rightarrow> nat \<times> nat \<Rightarrow> Token" where
  "numberToken digits isFloat start =
     (if isFloat then (tokenAt TkFloat digits start)\<lparr>doubleValue := Strtod digits\<rparr>
      else case strtoll digits of
             None \<Rightarrow> (tokenAt TkInteger digits start)\<lparr>fitsLong := False\<rparr>
           | Some v \<Rightarrow> (tokenAt TkInteger digits start)\<lparr>intValue := v\<rparr>)"

definition lexNumber :: "bool \<Rightarrow> cursor \<Rightarrow> Token \<times> cursor" where
  "lexNumber negative cu =
     (let start = at cu;
          (ds, cu1) = scanWhile isdigit cu;
          (frac, cu2) = fractionPart cu1;
          (ex, complete, cu3) = exponentPart cu2;
          digits = (if negative then ''-'' else []) @ ds @ frac @ ex;
          isFloat = (frac \<noteq> [] \<or> ex \<noteq> [])
      in if \<not> complete then
           (makeError (''malformed number literal: '' @ digits @ ''(missing exponent digits)'') start, cu3)
         else
           let bigSuffix = (\<not> isFloat \<and> \<not> eof cu3 \<and> current cu3 = CHR ''N'');
               cu4 = (if bigSuffix then advance cu3 else cu3)
           in if \<not> eof cu4 \<and> trailLength (rest cu4) > 0 then
                let (trail, cu5) = scanChars (\<lambda>_. trailLength) False cu4
                in (makeError (''malformed number literal: '' @ digits @
                      (if bigSuffix then ''N'' else []) @ trail) start, cu5)
              else (numberToken digits isFloat start, cu4))"

section \<open>Strings\<close>

text \<open>The lambda \<^verbatim>\<open>hex4\<close>: \<open>k\<close> digits are still to be read; \<open>None\<close> is its answer -1.\<close>

fun hexDigits :: "nat \<Rightarrow> nat \<Rightarrow> cursor \<Rightarrow> nat option \<times> cursor" where
  "hexDigits 0 v cu = (Some v, cu)"
| "hexDigits (Suc k) v cu =
     (if eof cu then (None, cu)
      else case hexValue (current cu) of
             None \<Rightarrow> (None, cu)
           | Some d \<Rightarrow> hexDigits k (v * 16 + d) (advance cu))"

definition hex4 :: "cursor \<Rightarrow> nat option \<times> cursor" where
  "hex4 cu = hexDigits 4 0 cu"

text \<open>The escape \<^verbatim>\<open>\u\<close>, the cursor at the \<^verbatim>\<open>u\<close>: the text it appends or the error.\<close>

definition unicodeEscape :: "cursor \<Rightarrow> (Token + string) \<times> cursor" where
  "unicodeEscape cu =
     (let esc = at cu;
          unpaired = makeError (''Invalid unicode escape: unpaired surrogate '' @
                       ''(UTF-8 strings cannot hold one)'') esc
      in case hex4 (advance cu) of
           (None, cu1) \<Rightarrow>
             (Inl (makeError (''Invalid unicode escape: '' @ [backslash] @
                ''u needs four hexadecimal digits'') esc), cu1)
         | (Some cp, cu1) \<Rightarrow>
             if cp \<ge> 0xD800 \<and> cp \<le> 0xDBFF then
               if \<not> eof cu1 \<and> current cu1 = backslash \<and> lookahead cu1 = CHR ''u'' then
                 (case hex4 (advance (advance cu1)) of
                    (None, cu2) \<Rightarrow> (Inl unpaired, cu2)
                  | (Some lo, cu2) \<Rightarrow>
                      if lo < 0xDC00 \<or> lo > 0xDFFF then (Inl unpaired, cu2)
                      else (Inr (appendUtf8 (0x10000 + push_bit 10 (cp - 0xD800) + (lo - 0xDC00))), cu2))
               else (Inl unpaired, cu1)
             else if cp \<ge> 0xDC00 \<and> cp \<le> 0xDFFF then (Inl unpaired, cu1)
             else (Inr (appendUtf8 cp), cu1))"

definition isoctal :: "char \<Rightarrow> bool" where
  "isoctal c \<longleftrightarrow> 48 \<le> byte c \<and> byte c \<le> 55"

text \<open>The loop of an octal escape: at most \<open>k\<close> more digits.\<close>

fun octalDigits :: "nat \<Rightarrow> nat \<Rightarrow> cursor \<Rightarrow> nat \<times> cursor" where
  "octalDigits 0 v cu = (v, cu)"
| "octalDigits (Suc k) v cu =
     (if \<not> eof cu \<and> isoctal (current cu)
      then octalDigits k (v * 8 + (byte (current cu) - 48)) (advance cu)
      else (v, cu))"

text \<open>The \<^verbatim>\<open>switch\<close> on the character after a backslash, which \<open>cu\<close> is at.\<close>

definition lexEscape :: "cursor \<Rightarrow> (Token + string) \<times> cursor" where
  "lexEscape cu =
     (let esc = current cu in
      if esc = CHR ''n'' then (Inr [newline], advance cu)
      else if esc = CHR ''t'' then (Inr [CHR 0x09], advance cu)
      else if esc = CHR ''r'' then (Inr [CHR 0x0D], advance cu)
      else if esc = CHR ''b'' then (Inr [CHR 0x08], advance cu)
      else if esc = CHR ''f'' then (Inr [CHR 0x0C], advance cu)
      else if esc = backslash then (Inr [backslash], advance cu)
      else if esc = dquote then (Inr [dquote], advance cu)
      else if esc = CHR ''u'' then unicodeEscape cu
      else if isoctal esc then
        (let (v, cu1) = octalDigits 3 0 cu in
         if v > 255
         then (Inl (makeError ''Octal escape sequence must be in range [0, 377]'' (at cu)), cu1)
         else (Inr (appendUtf8 v), cu1))
      else (Inl (makeError (''Unsupported escape character: '' @ [backslash, esc]) (at cu)), cu))"

subsection \<open>Movement\<close>

text \<open>Every function of the lexer only moves its cursor along the source. The relation and its
  lemmas, in the collection \<open>moves\<close>, give the termination of the loops below and the positions.\<close>

definition moves :: "cursor \<Rightarrow> cursor \<Rightarrow> bool" where
  "moves cu cu' \<longleftrightarrow> (\<exists>n. cu' = advanceBy n cu)"

lemma moves_refl [simp, moves]: "moves cu cu"
  unfolding moves_def by (rule exI [of _ 0]) (simp add: advanceBy_def)

lemma moves_advance [moves]: "moves cu (advance cu)"
  unfolding moves_def by (rule exI [of _ 1]) (simp add: advanceBy_def)

lemma moves_advanceBy [moves]: "moves cu (advanceBy n cu)"
  by (auto simp: moves_def)

lemma moves_trans [trans]: "moves a b \<Longrightarrow> moves b c \<Longrightarrow> moves a c"
  unfolding moves_def advanceBy_def by (metis funpow_add o_apply)

lemma moves_advance_trans [moves]:
  "moves (advance cu) cu' \<Longrightarrow> moves cu cu'"
  "moves (advance (advance cu)) cu' \<Longrightarrow> moves cu cu'"
  by (blast intro: moves_trans moves_advance)+

lemma moves_then_advance: "moves cu cu' \<Longrightarrow> moves cu (advance cu')"
  by (blast intro: moves_trans moves_advance)

lemma moves_length: "moves cu cu' \<Longrightarrow> length (rest cu') \<le> length (rest cu)"
  by (auto simp: moves_def)

lemma moves_scanWhile [moves]: "moves cu (snd (scanWhile p cu))"
proof (induction p cu rule: scanWhile.induct)
  case (1 p cu)
  then show ?case
    by (auto simp: scanWhile.simps [of p cu] split: prod.split intro: moves_trans moves_advance)
qed

lemma moves_scanChars [moves]: "moves cu (snd (scanChars len st cu))"
proof (induction len st cu rule: scanChars.induct)
  case (1 len st cu)
  then show ?case
    by (auto simp: scanChars.simps [of len st cu] Let_def split: prod.split
        intro: moves_trans moves_advanceBy)
qed

lemma moves_skipWhitespace [moves]: "moves cu (skipWhitespaceAndComments cu)"
proof (induction cu rule: skipWhitespaceAndComments.induct)
  case (1 cu)
  show ?case
    by (subst skipWhitespaceAndComments.simps)
      (auto simp: Let_def intro: moves_trans [OF moves_advance 1(1)] moves_trans [OF moves_scanWhile 1(2)])
qed

lemma moves_hexDigits [moves]: "moves cu (snd (hexDigits k v cu))"
  by (induction k v cu rule: hexDigits.induct) (auto split: option.split intro: moves_advance_trans)

lemma moves_hex4 [moves]: "moves cu (snd (hex4 cu))"
  unfolding hex4_def by (rule moves_hexDigits)

lemma moves_octalDigits [moves]: "moves cu (snd (octalDigits k v cu))"
  by (induction k v cu rule: octalDigits.induct) (auto intro: moves_advance_trans)

text \<open>The same for a result that is given as a pair.\<close>

lemma moves_pair:
  "hex4 cu = (r, cu1) \<Longrightarrow> moves cu cu1"
  "octalDigits k v cu = (n, cu1) \<Longrightarrow> moves cu cu1"
  "scanWhile p cu = (s, cu1) \<Longrightarrow> moves cu cu1"
  "scanChars len st cu = (s, cu1) \<Longrightarrow> moves cu cu1"
  using moves_hex4 [of cu] moves_octalDigits [of cu k v] moves_scanWhile [of cu p]
    moves_scanChars [of cu len st] by auto

lemma moves_unicodeEscape [moves]: "moves (advance cu) (snd (unicodeEscape cu))"
  unfolding unicodeEscape_def Let_def
  by (auto split: prod.split option.split dest!: moves_pair intro: moves_trans moves_advance_trans)

lemma moves_lexEscape [moves]: "moves cu (snd (lexEscape cu))"
  using moves_advance_trans(1) [OF moves_unicodeEscape [of cu]]
  by (auto simp: lexEscape_def Let_def moves_advance split: prod.split dest!: moves_pair)

lemma moves_lexEscape_pair: "lexEscape cu = (r, cu1) \<Longrightarrow> moves cu cu1"
  using moves_lexEscape [of cu] by simp

subsection \<open>The string literal\<close>

text \<open>The loop of \<^verbatim>\<open>lexString\<close> and what follows it; \<open>out\<close> is the text built so far.\<close>

function stringBody :: "nat \<times> nat \<Rightarrow> string \<Rightarrow> cursor \<Rightarrow> Token \<times> cursor" where
  "stringBody start out cu =
     (if \<not> eof cu \<and> current cu \<noteq> dquote then
        if current cu = backslash then
          if eof (advance cu) then (makeError ''unterminated string escape'' start, advance cu)
          else (case lexEscape (advance cu) of
                  (Inl err, cu1) \<Rightarrow> (err, cu1)
                | (Inr s, cu1) \<Rightarrow> stringBody start (out @ s) cu1)
        else stringBody start (out @ [current cu]) (advance cu)
      else if eof cu then (makeError ''unterminated string literal'' start, cu)
      else (tokenAt TkString out start, advance cu))"
  by pat_completeness auto
termination
proof (relation "measure (\<lambda>(start, out, cu). length (rest cu))")
  fix start out cu r cu1 s
  assume "\<not> eof cu \<and> current cu \<noteq> dquote" "(r, cu1) = lexEscape (advance cu)"
  then have "length (rest cu1) \<le> length (rest (advance cu))" "rest cu \<noteq> []"
    by (metis moves_length moves_lexEscape_pair, simp)
  then show "((start, out @ s, cu1), start, out, cu) \<in> measure (\<lambda>(start, out, cu). length (rest cu))"
    by (cases "rest cu") simp_all
qed simp_all

declare stringBody.simps [simp del]

definition lexString :: "cursor \<Rightarrow> Token \<times> cursor" where
  "lexString cu = stringBody (at cu) [] (advance cu)"

text \<open>The loop of \<^verbatim>\<open>lexRegex\<close>: a backslash and the character after it are both kept; the source may
  end right after a backslash.\<close>

function regexBody :: "string \<Rightarrow> cursor \<Rightarrow> string \<times> cursor" where
  "regexBody out cu =
     (if \<not> eof cu \<and> current cu \<noteq> dquote then
        if current cu = backslash then
          if eof (advance cu) then (out @ [backslash], advance cu)
          else regexBody (out @ [backslash, current (advance cu)]) (advance (advance cu))
        else regexBody (out @ [current cu]) (advance cu)
      else (out, cu))"
  by pat_completeness auto
termination
  by (relation "measure (\<lambda>(out, cu). length (rest cu))") (auto simp: less_diff_conv)

declare regexBody.simps [simp del]

definition lexRegex :: "cursor \<Rightarrow> Token \<times> cursor" where
  "lexRegex cu =
     (let start = at cu;
          (out, cu1) = regexBody [] (advance (advance cu))
      in if eof cu1 then (makeError ''unterminated regular expression literal'' start, cu1)
         else (tokenAt TkRegex out start, advance cu1))"

section \<open>Symbols and punctuation\<close>

definition lexSymbolicValue :: "cursor \<Rightarrow> Token \<times> cursor" where
  "lexSymbolicValue cu =
     (let start = at cu;
          (name, cu1) = scanChars (\<lambda>_. symbolCharLength) False
                          (skipWhitespaceAndComments (advance (advance cu)));
          float = tokenAt TkFloat (''##'' @ name) start
      in (if name = [] \<or> hd name = CHR '':'' \<or> isdigit (hd name)
          then makeError (''Invalid token: ##'' @ name) start
          else if name = ''Inf'' then float\<lparr>doubleValue := PosInf\<rparr>
          else if name = ''-Inf'' then float\<lparr>doubleValue := NegInf\<rparr>
          else if name = ''NaN'' then float\<lparr>doubleValue := QuietNaN\<rparr>
          else makeError (''Unknown symbolic value: '' @ name) start,
          cu1))"

definition reserved :: "string \<Rightarrow> nat \<times> nat \<Rightarrow> Token" where
  "reserved name p = makeError (''reserved-for-later token: '' @ name) p"

text \<open>The branch of \<^verbatim>\<open>lexSymbolOrPunct\<close> for a \<^verbatim>\<open>#\<close>.\<close>

definition lexHash :: "cursor \<Rightarrow> Token \<times> cursor" where
  "lexHash cu =
     (let la = lookahead cu; start = at cu; cu2 = advance (advance cu) in
      if la = CHR ''#'' then lexSymbolicValue cu
      else if la = CHR ''{'' then (tokenAt TkHashLBrace ''#{'' start, cu2)
      else if la = dquote then lexRegex cu
      else if la = CHR ''('' then (tokenAt TkHashLParen ''#('' start, cu2)
      else if la = CHR ''_'' then (tokenAt TkHashUnderscore ''#_'' start, cu2)
      else if la = squote then (reserved [CHR ''#'', squote] start, cu2)
      else if isalpha la then
        (let (tag, cu1) = scanChars (\<lambda>_. symbolCharLength) False (advance cu)
         in (makeError (''No reader function for tag '' @ tag) start, cu1))
      else (reserved ''#'' start, advance cu))"

text \<open>The branch for a character that cannot start a symbol.\<close>

definition lexBadChar :: "cursor \<Rightarrow> Token \<times> cursor" where
  "lexBadChar cu =
     (case decodeUtf8 (rest cu) of
        None \<Rightarrow>
          (makeError (''invalid UTF-8 byte 0x'' @
             pad_left 2 (CHR ''0'') (hex hex_upper (byte (current cu)))) (at cu), advance cu)
      | Some (cp, len) \<Rightarrow>
          (makeError (''unexpected character: '' @ take len (rest cu) @
             (if len > 1
              then '' (U+'' @ pad_left 4 (CHR ''0'') (hex hex_upper cp) @ '')'' else [])) (at cu),
           advanceBy len cu))"

text \<open>The bytes the symbol loop takes next: a \<^verbatim>\<open>#\<close> continues a symbol that has begun.\<close>

definition symbolStep :: "bool \<Rightarrow> string \<Rightarrow> nat" where
  "symbolStep started s =
     (if started \<and> s \<noteq> [] \<and> hd s = CHR ''#'' then 1 else symbolCharLength s)"

definition lexSymbolOrPunct :: "cursor \<Rightarrow> Token \<times> cursor" where
  "lexSymbolOrPunct cu =
     (let start = at cu; c = current cu; cu1 = advance cu in
      if c = squote then (tokenAt TkQuote [squote] start, cu1)
      else if c = backquote then (tokenAt TkBacktick [backquote] start, cu1)
      else if c = CHR ''~'' then
        (if \<not> eof cu1 \<and> current cu1 = CHR ''@'' then (tokenAt TkTildeAt ''~@'' start, advance cu1)
         else (tokenAt TkTilde ''~'' start, cu1))
      else if c = CHR ''^'' then (reserved ''^'' start, cu1)
      else if c = CHR ''#'' then lexHash cu
      else if symbolCharLength (rest cu) = 0 then lexBadChar cu
      else let (s, cu2) = scanChars symbolStep False cu in (tokenAt TkSymbol s start, cu2))"

section \<open>The lexer\<close>

record lexer =
  cursor :: cursor
  prevReturnedKind :: TokenKind
  peekTok :: "Token option"

fun prevEndsOperand :: "TokenKind \<Rightarrow> bool" where
  "prevEndsOperand k \<longleftrightarrow>
     k \<in> {TkInteger, TkFloat, TkRatio, TkString, TkChar, TkSymbol, TkKeyword, TkNil, TkTrue, TkFalse,
          TkRParen, TkRBracket, TkRBrace}"

text \<open>The punctuation of one character.\<close>

definition singleKind :: "char \<Rightarrow> TokenKind option" where
  "singleKind c =
     (if c = CHR ''('' then Some TkLParen else if c = CHR '')'' then Some TkRParen
      else if c = CHR ''['' then Some TkLBracket else if c = CHR '']'' then Some TkRBracket
      else if c = CHR ''{'' then Some TkLBrace else if c = CHR ''}'' then Some TkRBrace
      else if c = CHR ''@'' then Some TkAt else None)"

text \<open>\<^verbatim>\<open>nextImpl_\<close> when no token is peeked: the token at the cursor, given the kind returned before.\<close>

definition lexToken :: "TokenKind \<Rightarrow> cursor \<Rightarrow> Token \<times> cursor" where
  "lexToken prev cu0 =
     (let cu = skipWhitespaceAndComments cu0 in
      if eof cu then (tokenAt TkEndOfFile [] (at cu), cu)
      else
        let spaceBefore = (length (rest cu) \<noteq> length (rest cu0));
            c = current cu
        in case singleKind c of
             Some k \<Rightarrow> (tokenAt k [c] (at cu), advance cu)
           | None \<Rightarrow>
               if c = dquote then lexString cu
               else if isdigit c then lexNumber False cu
               else if c = CHR ''-'' \<and> isdigit (lookahead cu) \<and> (\<not> prevEndsOperand prev \<or> spaceBefore)
               then lexNumber True (advance cu)
               else lexSymbolOrPunct cu)"

definition nextImpl :: "lexer \<Rightarrow> Token \<times> lexer" where
  "nextImpl lx =
     (case peekTok lx of
        Some t \<Rightarrow> (t, lx\<lparr>peekTok := None\<rparr>)
      | None \<Rightarrow>
          let (t, cu) = lexToken (prevReturnedKind lx) (cursor lx) in (t, lx\<lparr>cursor := cu\<rparr>))"

definition nextTok :: "lexer \<Rightarrow> Token \<times> lexer" where
  "nextTok lx = (let (t, lx') = nextImpl lx in (t, lx'\<lparr>prevReturnedKind := kind t\<rparr>))"

definition peek :: "lexer \<Rightarrow> Token \<times> lexer" where
  "peek lx =
     (case peekTok lx of
        Some t \<Rightarrow> (t, lx)
      | None \<Rightarrow> let (t, lx') = nextTok lx in (t, lx'\<lparr>peekTok := Some t\<rparr>))"

definition startCursor :: "string \<Rightarrow> cursor" where
  "startCursor src = \<lparr>rest = src, line = 1, column = 1\<rparr>"

definition newLexer :: "string \<Rightarrow> lexer" where
  "newLexer src = \<lparr>cursor = startCursor src, prevReturnedKind = TkEndOfFile, peekTok = None\<rparr>"

section \<open>Every token moves the cursor, and forward\<close>

lemma moves_fractionPart: "fractionPart cu = (s, cu1) \<Longrightarrow> moves cu cu1"
  by (auto simp: fractionPart_def split: if_splits prod.splits dest!: moves_pair
      intro: moves_advance_trans)

lemma moves_exponentPart: "exponentPart cu = (s, b, cu1) \<Longrightarrow> moves cu cu1"
  by (auto simp: exponentPart_def Let_def moves_advance split: if_splits prod.splits
      dest!: moves_pair intro: moves_advance_trans)

lemma moves_lexNumber [moves]: "moves (snd (scanWhile isdigit cu)) (snd (lexNumber neg cu))"
  unfolding lexNumber_def Let_def
  by (auto split: prod.split intro: moves_trans moves_then_advance
      dest!: moves_pair(4) moves_fractionPart moves_exponentPart moves_advance_trans(1))

lemma moves_stringBody [moves]: "moves cu (snd (stringBody start out cu))"
proof (induction start out cu rule: stringBody.induct)
  case (1 start out cu)
  have "moves cu (snd (stringBody start (out @ s) cu1))"
    if "\<not> eof cu" "current cu = backslash" "\<not> eof (advance cu)" "lexEscape (advance cu) = (Inr s, cu1)"
    for s cu1
    using that 1(1) [of "Inr s" cu1 s] moves_advance_trans(1) [OF moves_lexEscape_pair [OF that(4)]]
    by (auto intro: moves_trans)
  with 1(2) show ?case
    by (subst stringBody.simps)
      (auto split: prod.split sum.split intro: moves_advance moves_advance_trans moves_lexEscape_pair)
qed

lemma moves_regexBody [moves]: "moves cu (snd (regexBody out cu))"
proof (induction out cu rule: regexBody.induct)
  case (1 out cu)
  then show ?case
    by (subst regexBody.simps) (auto intro: moves_trans moves_advance moves_advance_trans)
qed

lemma moves_regexBody_pair: "regexBody out cu = (s, cu1) \<Longrightarrow> moves cu cu1"
  using moves_regexBody [of cu out] by simp

lemma moves_lexString [moves]: "moves (advance cu) (snd (lexString cu))"
  unfolding lexString_def by (rule moves_stringBody)

lemma moves_lexRegex [moves]: "moves (advance cu) (snd (lexRegex cu))"
  unfolding lexRegex_def Let_def
  by (auto split: prod.split dest!: moves_regexBody_pair
      intro: moves_then_advance moves_advance_trans)

lemma moves_lexSymbolicValue [moves]: "moves (advance cu) (snd (lexSymbolicValue cu))"
  unfolding lexSymbolicValue_def Let_def
  by (auto split: prod.split dest!: moves_pair(4)
      intro: moves_advance_trans moves_trans [OF moves_skipWhitespace])

lemma moves_lexHash [moves]: "moves (advance cu) (snd (lexHash cu))"
  unfolding lexHash_def Let_def
  by (auto split: prod.split dest!: moves_pair(4) intro: moves)

lemma advanceBy_positive: "0 < n \<Longrightarrow> moves (advance cu) (advanceBy n cu)"
  by (cases n) (auto simp: moves_def advanceBy_def funpow_swap1)

lemma moves_lexBadChar [moves]: "moves (advance cu) (snd (lexBadChar cu))"
  unfolding lexBadChar_def
  by (auto split: option.split dest!: decodeUtf8_length_le intro: advanceBy_positive)

lemma scanChars_first:
  "\<not> eof cu \<Longrightarrow> len st (rest cu) > 0 \<Longrightarrow> moves (advance cu) (snd (scanChars len st cu))"
  by (subst scanChars.simps)
    (auto simp: Let_def split: prod.split dest!: moves_pair(4) intro: moves_trans advanceBy_positive)

lemma symbolStep_start [simp]: "symbolStep False s = symbolCharLength s"
  by (simp add: symbolStep_def)

lemma symbolCharLength_Nil [simp]: "symbolCharLength [] = 0"
  by (simp add: symbolCharLength_def)

lemma moves_lexSymbolOrPunct [moves]: "moves (advance cu) (snd (lexSymbolOrPunct cu))"
proof -
  have "moves (advance cu) (snd (scanChars symbolStep False cu))" if "symbolCharLength (rest cu) \<noteq> 0"
    by (rule scanChars_first) (use that in auto)
  then show ?thesis
    unfolding lexSymbolOrPunct_def Let_def by (auto split: prod.split intro: moves)
qed

lemma moves_scan_digits:
  "\<not> eof cu \<Longrightarrow> p (current cu) \<Longrightarrow> moves (advance cu) (snd (scanWhile p cu))"
  by (subst scanWhile.simps) (auto split: prod.split dest!: moves_pair(3))

lemma moves_lexNumber_digit:
  "\<not> eof cu \<Longrightarrow> isdigit (current cu) \<Longrightarrow> moves (advance cu) (snd (lexNumber neg cu))"
  using moves_trans [OF moves_scan_digits moves_lexNumber] .

text \<open>Past the whitespace, a token that is not the end of the source takes at least one byte.\<close>

lemma lexToken_advances:
  assumes "\<not> eof (skipWhitespaceAndComments cu)"
  shows "moves (advance (skipWhitespaceAndComments cu)) (snd (lexToken prev cu))"
proof -
  let ?cu = "skipWhitespaceAndComments cu"
  have "moves (advance ?cu) (snd (lexNumber True (advance ?cu)))"
    by (rule moves_trans [OF moves_scanWhile moves_lexNumber])
  with assms show ?thesis
    unfolding lexToken_def Let_def
    by (auto split: option.split intro: moves moves_lexNumber_digit)
qed

lemma moves_lexToken: "moves cu (snd (lexToken prev cu))"
proof (cases "eof (skipWhitespaceAndComments cu)")
  case True
  then show ?thesis using moves_skipWhitespace [of cu] by (simp add: lexToken_def Let_def)
next
  case False
  from lexToken_advances [OF this] show ?thesis
    by (rule moves_trans [OF moves_skipWhitespace moves_advance_trans(1)])
qed

text \<open>Lexing ends: every call takes at least a byte, until none is left.\<close>

lemma lexToken_eof: "eof cu \<Longrightarrow> kind (fst (lexToken prev cu)) = TkEndOfFile"
  by (simp add: lexToken_def skipWhitespaceAndComments.simps tokenAt_def Let_def)

lemma lexToken_shorter: "length (rest (snd (lexToken prev cu))) \<le> length (rest cu) - 1"
proof (cases "eof (skipWhitespaceAndComments cu)")
  case True
  then show ?thesis by (simp add: lexToken_def Let_def)
next
  case False
  have "length (rest (snd (lexToken prev cu))) \<le> length (rest (skipWhitespaceAndComments cu)) - 1"
    using moves_length [OF lexToken_advances [OF False]] by simp
  also have "\<dots> \<le> length (rest cu) - 1"
    using moves_length [OF moves_skipWhitespace [of cu]] by (rule diff_le_mono)
  finally show ?thesis .
qed

text \<open>The lexer after \<open>n\<close> calls of \<^verbatim>\<open>next\<close>.\<close>

definition lexerAfter :: "nat \<Rightarrow> string \<Rightarrow> lexer" where
  "lexerAfter n src = ((snd \<circ> nextTok) ^^ n) (newLexer src)"

lemma lexerAfter_simps [simp]:
  "lexerAfter 0 src = newLexer src"
  "lexerAfter (Suc n) src = snd (nextTok (lexerAfter n src))"
  by (simp_all add: lexerAfter_def)

lemma peekTok_lexerAfter [simp]: "peekTok (lexerAfter n src) = None"
  by (induction n) (auto simp: newLexer_def nextTok_def nextImpl_def split: prod.split option.split)

lemma nextTok_unpeeked:
  "peekTok lx = None \<Longrightarrow>
   fst (nextTok lx) = fst (lexToken (prevReturnedKind lx) (cursor lx)) \<and>
   cursor (snd (nextTok lx)) = snd (lexToken (prevReturnedKind lx) (cursor lx))"
  by (auto simp: nextTok_def nextImpl_def split: prod.split)

lemma lexerAfter_length: "length (rest (cursor (lexerAfter n src))) \<le> length src - n"
proof (induction n)
  case 0
  then show ?case by (simp add: newLexer_def startCursor_def)
next
  case (Suc n)
  let ?lx = "lexerAfter n src"
  have "length (rest (cursor (snd (nextTok ?lx)))) \<le> length (rest (cursor ?lx)) - 1"
    using nextTok_unpeeked [of ?lx] lexToken_shorter by simp
  with Suc show ?case by simp
qed

section \<open>Positions\<close>

text \<open>The line and column after a text: a column is a code point of the last line.\<close>

definition posAfter :: "string \<Rightarrow> nat \<times> nat" where
  "posAfter s =
     (1 + length (filter (\<lambda>c. c = newline) s),
      1 + length (filter (\<lambda>c. byte c AND 0xC0 \<noteq> 0x80) (takeWhile (\<lambda>c. c \<noteq> newline) (rev s))))"

lemma byte_newline: "byte newline = 10"
  by simp

lemma advance_from_start:
  "k \<le> length src \<Longrightarrow> rest (advanceBy k (startCursor src)) = drop k src \<and>
     at (advanceBy k (startCursor src)) = posAfter (take k src)"
proof (induction k)
  case 0
  then show ?case by (simp add: advanceBy_def startCursor_def posAfter_def)
next
  case (Suc k)
  let ?cu = "advanceBy k (startCursor src)"
  from Suc have k: "k < length src" and IH: "rest ?cu = drop k src" "at ?cu = posAfter (take k src)"
    by simp_all
  then have cons: "rest ?cu = src ! k # drop (Suc k) src" by (simp add: Cons_nth_drop_Suc)
  have "advanceBy (Suc k) (startCursor src) = advance ?cu" by (simp add: advanceBy_def)
  with cons IH(2) k show ?case
    by (auto simp: advance_def take_Suc_conv_app_nth posAfter_def split: if_splits)
qed

lemma moves_from_start:
  assumes "moves (startCursor src) cu"
  obtains k where "k \<le> length src" "rest cu = drop k src" "at cu = posAfter (take k src)"
proof -
  from assms obtain n where n: "cu = advanceBy n (startCursor src)" by (auto simp: moves_def)
  have beyond: "advanceBy (length src + d) (startCursor src) = advanceBy (length src) (startCursor src)" for d
  proof (induction d)
    case (Suc d)
    have "advance (advanceBy (length src) (startCursor src)) = advanceBy (length src) (startCursor src)"
      using advance_from_start [of "length src" src] by (simp add: advance_def)
    with Suc show ?case by (simp add: advanceBy_def)
  qed simp
  have "cu = advanceBy (min n (length src)) (startCursor src)"
    using n beyond [of "n - length src"] by (cases "n \<le> length src") (auto simp: min_def)
  then show ?thesis
    using that [of "min n (length src)"] advance_from_start [of "min n (length src)" src] by simp
qed

definition tokpos :: "Token \<Rightarrow> nat \<times> nat" where
  "tokpos t = (tline t, tcolumn t)"

lemma tokpos_simps [simp]:
  "tokpos (tokenAt k s p) = p" "tokpos (makeError m p) = p" "tokpos (reserved m p) = p"
  "tokpos (t\<lparr>doubleValue := d\<rparr>) = tokpos t" "tokpos (numberToken ds fl p) = p"
  by (auto simp: tokpos_def tokenAt_def makeError_def reserved_def numberToken_def split: option.split)

lemma kind_simps [simp]:
  "kind (tokenAt k s p) = k" "kind (makeError m p) = TkError" "kind (reserved m p) = TkError"
  "kind (numberToken ds fl p) = (if fl then TkFloat else TkInteger)"
  by (auto simp: tokenAt_def makeError_def reserved_def numberToken_def split: option.split)

text \<open>A token's position is the cursor's at its start; an error inside a string literal is placed
  at the escape.\<close>

definition positioned :: "cursor \<Rightarrow> Token \<times> cursor \<Rightarrow> bool" where
  "positioned cu r \<longleftrightarrow>
     (kind (fst r) \<noteq> TkError \<longrightarrow> tokpos (fst r) = at cu) \<and>
     (\<exists>cu'. moves cu cu' \<and> moves cu' (snd r) \<and> tokpos (fst r) = at cu')"

lemma positioned_at_start: "tokpos (fst r) = at cu \<Longrightarrow> moves cu (snd r) \<Longrightarrow> positioned cu r"
  unfolding positioned_def using moves_refl by blast

lemma tokpos_lexNumber: "tokpos (fst (lexNumber neg cu)) = at cu"
  by (simp add: lexNumber_def Let_def split: prod.split)

lemma tokpos_lexSymbolicValue: "tokpos (fst (lexSymbolicValue cu)) = at cu"
  by (simp add: lexSymbolicValue_def Let_def split: prod.split)

lemma tokpos_lexRegex: "tokpos (fst (lexRegex cu)) = at cu"
  by (simp add: lexRegex_def Let_def split: prod.split)

lemma tokpos_lexHash: "tokpos (fst (lexHash cu)) = at cu"
  by (simp add: lexHash_def Let_def tokpos_lexSymbolicValue tokpos_lexRegex split: prod.split)

lemma tokpos_lexBadChar: "tokpos (fst (lexBadChar cu)) = at cu"
  by (simp add: lexBadChar_def split: option.split)

lemma tokpos_lexSymbolOrPunct: "tokpos (fst (lexSymbolOrPunct cu)) = at cu"
  by (simp add: lexSymbolOrPunct_def Let_def tokpos_lexHash tokpos_lexBadChar split: prod.split)

lemma lexEscape_error: "lexEscape cu = (Inl t, cu1) \<Longrightarrow> kind t = TkError \<and> tokpos t = at cu"
  by (auto simp: lexEscape_def unicodeEscape_def Let_def split: if_splits prod.splits option.splits)

lemma positioned_stringBody:
  "moves cu0 cu \<Longrightarrow> positioned cu0 (stringBody (at cu0) out cu)"
proof (induction "at cu0" out cu rule: stringBody.induct)
  case (1 out cu)
  have esc: "positioned cu0 (t, cu1)" if "lexEscape (advance cu) = (Inl t, cu1)" for t cu1
    using lexEscape_error [OF that] moves_lexEscape_pair [OF that] moves_then_advance [OF 1(3)]
    by (auto simp: positioned_def)
  have rec: "positioned cu0 (stringBody (at cu0) (out @ s) cu1)"
    if "\<not> eof cu" "current cu = backslash" "\<not> eof (advance cu)" "lexEscape (advance cu) = (Inr s, cu1)"
    for s cu1
    using that 1(1) [of "Inr s" cu1 s] moves_lexEscape_pair [OF that(4)] moves_then_advance [OF 1(3)]
    by (auto intro: moves_trans)
  have stop: "positioned cu0 (t, cu)" "positioned cu0 (t, advance cu)" if "tokpos t = at cu0" for t
    using that 1(3) moves_then_advance [OF 1(3)] by (simp_all add: positioned_at_start)
  have char: "positioned cu0 (stringBody (at cu0) (out @ [current cu]) (advance cu))"
    if "\<not> eof cu" "current cu \<noteq> dquote" "current cu \<noteq> backslash"
    using that 1(2) moves_then_advance [OF 1(3)] by blast
  show ?case
    by (subst stringBody.simps) (auto split: prod.split sum.split simp: esc rec stop char)
qed

lemma positioned_lexString: "positioned cu (lexString cu)"
  unfolding lexString_def by (rule positioned_stringBody [OF moves_advance])

lemmas tokpos_lex = tokpos_lexNumber tokpos_lexSymbolOrPunct

text \<open>The position of a token: that of the first character past the whitespace, except that a
  negative number is placed at its first digit.\<close>

lemma lexToken_position:
  fixes prev cu
  defines "start \<equiv> skipWhitespaceAndComments cu" and "r \<equiv> lexToken prev cu"
  shows "positioned start r \<or> current start = CHR ''-'' \<and> positioned (advance start) r"
proof -
  have num: "positioned c (lexNumber neg c)" for neg c
    by (rule positioned_at_start)
      (auto simp: tokpos_lex intro: moves_trans [OF moves_scanWhile moves_lexNumber])
  have sym: "positioned c (lexSymbolOrPunct c)" for c
    by (rule positioned_at_start) (auto simp: tokpos_lex intro: moves_advance_trans moves_lexSymbolOrPunct)
  have one: "positioned c (tokenAt k s (at c), advance c)" "positioned c (tokenAt k s (at c), c)" for c k s
    by (simp_all add: positioned_at_start moves_advance)
  show ?thesis
    unfolding r_def lexToken_def Let_def start_def [symmetric]
    by (auto split: option.split simp: num sym one positioned_lexString)
qed

lemma moves_lexerAfter: "moves (startCursor src) (cursor (lexerAfter n src))"
proof (induction n)
  case 0
  show ?case by (simp add: newLexer_def)
next
  case (Suc n)
  then show ?case using nextTok_unpeeked [of "lexerAfter n src"] by (auto intro: moves_trans moves_lexToken)
qed

text \<open>Indices into the source, from the length of what is left.\<close>

lemma index_from_start:
  assumes "moves (startCursor src) cu"
  shows "rest cu = drop (length src - length (rest cu)) src"
    and "at cu = posAfter (take (length src - length (rest cu)) src)"
  using assms by (auto elim!: moves_from_start)

lemma token_position_index:
  assumes start: "moves (startCursor src) cu" and r: "positioned cu r"
  shows "\<exists>k. length src - length (rest cu) \<le> k \<and> k \<le> length src - length (rest (snd r)) \<and>
    tokpos (fst r) = posAfter (take k src) \<and>
    (kind (fst r) = TkError \<or> k = length src - length (rest cu))"
proof (cases "kind (fst r) = TkError")
  case True
  from r obtain cu' where "moves cu cu'" "moves cu' (snd r)" "tokpos (fst r) = at cu'"
    by (auto simp: positioned_def)
  with True start show ?thesis
    using index_from_start(2) [OF moves_trans [OF start]] by (metis diff_le_mono2 moves_length)
next
  case False
  moreover have "moves cu (snd r)" using r by (auto simp: positioned_def intro: moves_trans)
  ultimately show ?thesis
    using r index_from_start(2) [OF start] by (metis diff_le_mono2 moves_length positioned_def order_refl)
qed

section \<open>Reading back what was written\<close>

lemma current_Cons [simp]: "rest cu = c # t \<Longrightarrow> current cu = c"
  by (simp add: current_def)

lemma lookahead_Cons [simp]: "rest cu = c # d # t \<Longrightarrow> lookahead cu = d"
  by (simp add: lookahead_def)

definition blank :: "char \<Rightarrow> bool" where
  "blank c \<longleftrightarrow> c = CHR '' '' \<or> c = CHR 0x09 \<or> c = CHR 0x0D \<or> c = newline \<or> c = CHR '',''"

lemma skip_none:
  "rest cu = c # t \<Longrightarrow> \<not> blank c \<Longrightarrow> c \<noteq> CHR '';'' \<Longrightarrow> c \<noteq> CHR ''#'' \<Longrightarrow>
   skipWhitespaceAndComments cu = cu"
  by (simp add: skipWhitespaceAndComments.simps [of cu] blank_def)

lemma digit_char:
  assumes "isdigit c"
  shows "\<not> blank c" "c \<noteq> CHR '';''" "c \<noteq> CHR ''#''" "c \<noteq> CHR ''-''" "c \<noteq> dquote"
    "singleKind c = None"
proof -
  have neq: "c \<noteq> d" if "\<not> isdigit d" for d using that assms by auto
  show "\<not> blank c" "c \<noteq> CHR '';''" "c \<noteq> CHR ''#''" "c \<noteq> CHR ''-''" "c \<noteq> dquote" "singleKind c = None"
    by (simp_all add: neq isdigit_def blank_def singleKind_def)
qed

subsection \<open>Integers\<close>

lemma trailLength_stop:
  assumes "trailLength r = 0"
  shows "r = [] \<or> \<not> isdigit (hd r) \<and> hd r \<notin> {CHR ''.'', CHR ''e'', CHR ''E'', CHR ''N''}"
proof (cases r)
  case (Cons c t)
  have "isdigit c \<Longrightarrow> byte c < 128" by (simp add: isdigit_def)
  with assms Cons show ?thesis
    by (auto simp: trailLength_def isalnum_def isalpha_def split: if_splits)
qed simp

lemma lexNumber_digits:
  assumes "rest cu = ds @ r" "\<forall>c\<in>set ds. isdigit c" "trailLength r = 0"
  shows "fst (lexNumber neg cu) = numberToken ((if neg then ''-'' else []) @ ds) False (at cu)"
    and "rest (snd (lexNumber neg cu)) = r"
proof -
  note stop = trailLength_stop [OF assms(3)]
  obtain cu1 where cu1: "scanWhile isdigit cu = (ds, cu1)" "rest cu1 = r"
    using assms(1) scanWhile_text [of isdigit cu] scanWhile_rest [of isdigit cu]
      takeWhile_append_stop [OF assms(2), of r] dropWhile_append_stop [OF assms(2), of r] stop
    by (cases "scanWhile isdigit cu") auto
  have "fractionPart cu1 = ([], cu1)" "exponentPart cu1 = ([], True, cu1)"
    using cu1 stop by (auto simp: fractionPart_def exponentPart_def current_def split: list.splits)
  moreover have "\<not> (\<not> eof cu1 \<and> current cu1 = CHR ''N'')"
    using cu1 stop by (auto simp: current_def split: list.splits)
  ultimately show
    "fst (lexNumber neg cu) = numberToken ((if neg then ''-'' else []) @ ds) False (at cu)"
    "rest (snd (lexNumber neg cu)) = r"
    using cu1 assms(3) by (auto simp: lexNumber_def Let_def)
qed

lemma strtoll_int_dec:
  "strtoll (int_dec i) = (if - (2 ^ 63) \<le> i \<and> i < 2 ^ 63 then Some i else None)"
proof (cases "i < 0")
  case True
  then show ?thesis by (simp add: strtoll_def int_dec_def)
next
  case False
  obtain c ds where d: "dec (nat i) = c # ds" by (cases "dec (nat i)") simp_all
  then have "c \<noteq> CHR ''-''" using dec_digits [of c "nat i"] by (auto simp: isdigit_def)
  with d False dec_value_dec [of "nat i"] show ?thesis by (simp add: strtoll_def int_dec_def)
qed

lemma lexToken_int_dec:
  assumes "rest cu = int_dec i @ r" "trailLength r = 0" "\<not> prevEndsOperand prev"
  shows "\<exists>p. fst (lexToken prev cu) = numberToken (int_dec i) False p"
    and "rest (snd (lexToken prev cu)) = r"
proof -
  obtain c ds where d: "dec (nat \<bar>i\<bar>) = c # ds" by (cases "dec (nat \<bar>i\<bar>)") simp_all
  then have c: "isdigit c" "\<forall>x\<in>set (c # ds). isdigit x" using dec_digits [of _ "nat \<bar>i\<bar>"] by auto
  have "(\<exists>p. fst (lexToken prev cu) = numberToken (int_dec i) False p) \<and>
    rest (snd (lexToken prev cu)) = r"
  proof (cases "i < 0")
    case True
    then have r: "rest cu = CHR ''-'' # c # ds @ r" using assms d by (simp add: int_dec_def)
    have "lexToken prev cu = lexNumber True (advance cu)"
      using r c(1) assms(3)
      by (simp add: lexToken_def Let_def skip_none [OF r] blank_def singleKind_def isdigit_def
          del: prevEndsOperand.simps)
    then show ?thesis
      using lexNumber_digits [of "advance cu" "c # ds" r True] r c(2) assms(2) True d
      by (auto simp: int_dec_def)
  next
    case False
    then have r: "rest cu = c # ds @ r" using assms d by (simp add: int_dec_def)
    have "lexToken prev cu = lexNumber False cu"
      using r c digit_char [OF c(1)] by (simp add: lexToken_def Let_def skip_none [OF r])
    then show ?thesis
      using lexNumber_digits [of cu "c # ds" r False] r c(2) assms(2) False d
      by (auto simp: int_dec_def)
  qed
  then show "\<exists>p. fst (lexToken prev cu) = numberToken (int_dec i) False p"
    "rest (snd (lexToken prev cu)) = r" by blast+
qed

section \<open>Properties\<close>

text \<open>C30. Lexing always ends: whatever the bytes of the source, a lexer that has returned as many
  tokens as the source has bytes returns the end of the source from then on. (Every token before
  it, error tokens included, consumes at least one byte.)\<close>

theorem lexing_ends:
  "length src \<le> n \<Longrightarrow> kind (fst (nextTok (lexerAfter n src))) = TkEndOfFile"
  using lexerAfter_length [of n src] nextTok_unpeeked [of "lexerAfter n src"]
  by (simp add: lexToken_eof)

theorem lexing_ends_witness: "kind (fst (nextTok (lexerAfter 4 ''(a'' ))) = TkEndOfFile"
  by (rule lexing_ends) simp

text \<open>Positions: every token the lexer returns carries the line and the column (in code points)
  of a position of the source inside the token's own text, at or after its first character and not
  past its last; a token that is not an error is placed exactly at its first character, or just
  after the minus sign of a negative number.\<close>

theorem token_position:
  "\<exists>first k last.
     first \<le> k \<and> k \<le> last \<and> last \<le> length src \<and>
     drop first src = rest (skipWhitespaceAndComments (cursor (lexerAfter n src))) \<and>
     drop last src = rest (cursor (lexerAfter (Suc n) src)) \<and>
     tokpos (fst (nextTok (lexerAfter n src))) = posAfter (take k src) \<and>
     (kind (fst (nextTok (lexerAfter n src))) = TkError \<or> k = first \<or>
      k = first + 1 \<and> src ! first = CHR ''-'')"
proof -
  let ?lx = "lexerAfter n src"
  define start where "start = skipWhitespaceAndComments (cursor ?lx)"
  define r where "r = lexToken (prevReturnedKind ?lx) (cursor ?lx)"
  have start: "moves (startCursor src) start"
    unfolding start_def by (rule moves_trans [OF moves_lexerAfter moves_skipWhitespace])
  have r: "fst (nextTok ?lx) = fst r" "cursor (lexerAfter (Suc n) src) = snd r"
    using nextTok_unpeeked [of ?lx] by (simp_all add: r_def)
  have last: "drop (length src - length (rest (snd r))) src = rest (snd r)"
    using index_from_start(1) [OF moves_lexerAfter [of src "Suc n"]] unfolding r(2) by simp
  note first = index_from_start(1) [OF start, symmetric]
  from lexToken_position [of "cursor ?lx" "prevReturnedKind ?lx", folded start_def r_def]
  show ?thesis
  proof
    assume "positioned start r"
    from token_position_index [OF start this] last first show ?thesis
      unfolding r start_def [symmetric] by (metis diff_le_self)
  next
    assume minus: "current start = CHR ''-'' \<and> positioned (advance start) r"
    then have ne: "rest start \<noteq> []" by (auto simp: current_def)
    have len: "length (rest start) \<le> length src" using moves_length [OF start] by (simp add: startCursor_def)
    let ?first = "length src - length (rest start)"
    have "src ! ?first = CHR ''-''"
      using minus ne first len by (metis current_def hd_current hd_drop_conv_nth drop_eq_Nil not_le)
    moreover have "length src - length (rest (advance start)) = ?first + 1"
      using ne len by (cases "rest start") auto
    ultimately show ?thesis
      using token_position_index [OF moves_then_advance [OF start] conjunct2 [OF minus]] last first
      unfolding r start_def [symmetric] by (metis add_leD1 diff_le_self)
  qed
qed

text \<open>Looking ahead is transparent: \<^verbatim>\<open>peek\<close> answers the token that \<^verbatim>\<open>next\<close> would return, a second
  \<^verbatim>\<open>peek\<close> answers it again, and the \<^verbatim>\<open>next\<close> after it returns that token and leaves the lexer exactly
  as it would be without the \<^verbatim>\<open>peek\<close>.\<close>

theorem peek_transparent:
  "fst (peek lx) = fst (nextTok lx) \<and> peek (snd (peek lx)) = peek lx \<and>
   nextTok (snd (peek lx)) = nextTok lx"
  by (auto simp: peek_def nextTok_def nextImpl_def split: option.split prod.split)

text \<open>Integer literals: the decimal text of any integer, followed by a character that cannot
  continue a number, lexes in primary position to one Integer token that keeps the exact digits;
  its value is that integer when it fits 64 bits, and otherwise the token says it does not fit.\<close>

theorem lex_integer_roundtrip:
  assumes "rest cu = int_dec i @ r" "trailLength r = 0" "\<not> prevEndsOperand prev"
  shows "kind (fst (lexToken prev cu)) = TkInteger \<and> lexeme (fst (lexToken prev cu)) = int_dec i \<and>
    rest (snd (lexToken prev cu)) = r \<and>
    (if - (2 ^ 63) \<le> i \<and> i < 2 ^ 63
     then fitsLong (fst (lexToken prev cu)) \<and> intValue (fst (lexToken prev cu)) = i
     else \<not> fitsLong (fst (lexToken prev cu)))"
  using lexToken_int_dec [OF assms] by (auto simp: numberToken_def strtoll_int_dec tokenAt_def)

theorem lex_integer_roundtrip_witness:
  "fitsLong (fst (lexToken TkLParen (startCursor ''-5)''))) \<and>
   intValue (fst (lexToken TkLParen (startCursor ''-5)''))) = - 5"
proof -
  have "int_dec (- 5) = ''-5''" by (simp add: int_dec_def dec.simps char_of_def bit_Suc_0_iff)
  then show ?thesis
    using lex_integer_roundtrip [of "startCursor ''-5)''" "- 5" "'')''" TkLParen]
    by (simp add: startCursor_def trailLength_def ctype_defs)
qed

end
