(* ===== verification/Bytecode.thy ===== *)
theory Bytecode
  imports Prelude "HOL-Library.Word"
begin

text \<open>
  Bytecode modules (src/runtime/Opcodes.h, BytecodeModule.h, BytecodeModule.cpp): the instruction
  words, the constant pool with one index per kind of constant, the emission and patching of
  instructions, and the flow analysis \<^verbatim>\<open>computeMaxStack\<close>, which gives a frame the capacity of its
  operand stack.

  An instruction is a 32-bit word. A module refers to its blocks (the bodies of the functions it
  defines) by pointer, as the source's \<^verbatim>\<open>unique_ptr\<close>s do; what the analysis needs of a block, its
  number of captures, is an argument. An interned value of protoCore is an address. A double is its
  bit pattern, which is what the pool compares.

  The lemmas show that an emitted instruction decodes to its opcode and operand and that patching
  changes nothing else, that the pool holds each constant once and never moves one, and that
  \<^verbatim>\<open>computeMaxStack\<close> ends on every body of known opcodes and answers exactly the deepest point of the
  paths through it, unless a path leaves the range of \<^verbatim>\<open>int\<close>, the type of its depths.
\<close>

section \<open>Instructions\<close>

datatype Op =
    NOP | PUSH_CONST | PUSH_VAR | CALL | POP | RETURN | STORE_GLOBAL | JUMP | JUMP_IF_FALSE |
    PUSH_NIL | PUSH_TRUE | PUSH_FALSE | PUSH_LOCAL | STORE_LOCAL | MAKE_FN | JUMP_BACK |
    CALL_APPLY | DUP | JUMP_IF_TRUE | MAKE_FN_MULTI | ADD | SUB | MUL | LT | LE | GT | GE | EQ |
    CALL_KW | TRY_BEGIN | TRY_END | THROW | EXC_MATCH | RETHROW | EXC_MATCH_TYPE |
    RESOLVE_CLASS | GET_MEMBER | CALL_MEMBER | STORE_CAUGHT | PUSH_LOCAL_CLEAR | LINE

primrec opcode :: "Op \<Rightarrow> nat" where
  "opcode NOP = 0"
| "opcode PUSH_CONST = 1"
| "opcode PUSH_VAR = 2"
| "opcode CALL = 3"
| "opcode POP = 4"
| "opcode RETURN = 5"
| "opcode STORE_GLOBAL = 6"
| "opcode JUMP = 7"
| "opcode JUMP_IF_FALSE = 8"
| "opcode PUSH_NIL = 9"
| "opcode PUSH_TRUE = 10"
| "opcode PUSH_FALSE = 11"
| "opcode PUSH_LOCAL = 12"
| "opcode STORE_LOCAL = 13"
| "opcode MAKE_FN = 14"
| "opcode JUMP_BACK = 15"
| "opcode CALL_APPLY = 16"
| "opcode DUP = 17"
| "opcode JUMP_IF_TRUE = 18"
| "opcode MAKE_FN_MULTI = 19"
| "opcode ADD = 20"
| "opcode SUB = 21"
| "opcode MUL = 22"
| "opcode LT = 23"
| "opcode LE = 24"
| "opcode GT = 25"
| "opcode GE = 26"
| "opcode EQ = 27"
| "opcode CALL_KW = 28"
| "opcode TRY_BEGIN = 29"
| "opcode TRY_END = 30"
| "opcode THROW = 31"
| "opcode EXC_MATCH = 32"
| "opcode RETHROW = 33"
| "opcode EXC_MATCH_TYPE = 34"
| "opcode RESOLVE_CLASS = 35"
| "opcode GET_MEMBER = 36"
| "opcode CALL_MEMBER = 37"
| "opcode STORE_CAUGHT = 38"
| "opcode PUSH_LOCAL_CLEAR = 39"
| "opcode LINE = 40"

primrec opName :: "Op \<Rightarrow> string" where
  "opName NOP = ''NOP''"
| "opName PUSH_CONST = ''PUSH_CONST''"
| "opName PUSH_VAR = ''PUSH_VAR''"
| "opName CALL = ''CALL''"
| "opName POP = ''POP''"
| "opName RETURN = ''RETURN''"
| "opName STORE_GLOBAL = ''STORE_GLOBAL''"
| "opName JUMP = ''JUMP''"
| "opName JUMP_IF_FALSE = ''JUMP_IF_FALSE''"
| "opName PUSH_NIL = ''PUSH_NIL''"
| "opName PUSH_TRUE = ''PUSH_TRUE''"
| "opName PUSH_FALSE = ''PUSH_FALSE''"
| "opName PUSH_LOCAL = ''PUSH_LOCAL''"
| "opName STORE_LOCAL = ''STORE_LOCAL''"
| "opName MAKE_FN = ''MAKE_FN''"
| "opName JUMP_BACK = ''JUMP_BACK''"
| "opName CALL_APPLY = ''CALL_APPLY''"
| "opName DUP = ''DUP''"
| "opName JUMP_IF_TRUE = ''JUMP_IF_TRUE''"
| "opName MAKE_FN_MULTI = ''MAKE_FN_MULTI''"
| "opName ADD = ''ADD''"
| "opName SUB = ''SUB''"
| "opName MUL = ''MUL''"
| "opName LT = ''LT''"
| "opName LE = ''LE''"
| "opName GT = ''GT''"
| "opName GE = ''GE''"
| "opName EQ = ''EQ''"
| "opName CALL_KW = ''CALL_KW''"
| "opName TRY_BEGIN = ''TRY_BEGIN''"
| "opName TRY_END = ''TRY_END''"
| "opName THROW = ''THROW''"
| "opName EXC_MATCH = ''EXC_MATCH''"
| "opName RETHROW = ''RETHROW''"
| "opName EXC_MATCH_TYPE = ''EXC_MATCH_TYPE''"
| "opName RESOLVE_CLASS = ''RESOLVE_CLASS''"
| "opName GET_MEMBER = ''GET_MEMBER''"
| "opName CALL_MEMBER = ''CALL_MEMBER''"
| "opName STORE_CAUGHT = ''STORE_CAUGHT''"
| "opName PUSH_LOCAL_CLEAR = ''PUSH_LOCAL_CLEAR''"
| "opName LINE = ''LINE''"

definition allOps :: "Op list" where
  "allOps = [
     NOP, PUSH_CONST, PUSH_VAR, CALL, POP, RETURN, STORE_GLOBAL, JUMP, JUMP_IF_FALSE, PUSH_NIL,
     PUSH_TRUE, PUSH_FALSE, PUSH_LOCAL, STORE_LOCAL, MAKE_FN, JUMP_BACK, CALL_APPLY, DUP,
     JUMP_IF_TRUE, MAKE_FN_MULTI, ADD, SUB, MUL, LT, LE, GT, GE, EQ, CALL_KW, TRY_BEGIN,
     TRY_END, THROW, EXC_MATCH, RETHROW, EXC_MATCH_TYPE, RESOLVE_CLASS, GET_MEMBER, CALL_MEMBER,
     STORE_CAUGHT, PUSH_LOCAL_CLEAR, LINE]"

text \<open>The opcode a byte stands for; \<open>None\<close> is a value no enumerator has, which every \<^verbatim>\<open>switch\<close> of the
  source sends to its \<^verbatim>\<open>default\<close>.\<close>

definition opOf :: "nat \<Rightarrow> Op option" where
  "opOf n = (if n < length allOps then Some (allOps ! n) else None)"

type_synonym Instr = "32 word"

definition kOperandShift :: nat where
  "kOperandShift = 8"

definition kMaxOperand :: nat where
  "kMaxOperand = 2 ^ 24 - 1"

definition encodeInstr :: "Op \<Rightarrow> 32 word \<Rightarrow> Instr" where
  "encodeInstr op checked = push_bit kOperandShift checked OR word_of_nat (opcode op)"

definition instrOp :: "Instr \<Rightarrow> Op option" where
  "instrOp word = opOf (unat (word AND 0xFF))"

definition instrOperand :: "Instr \<Rightarrow> nat" where
  "instrOperand word = unat (drop_bit kOperandShift word)"

datatype error = LengthError string | OutOfRange string

definition checkedOperand :: "Op \<Rightarrow> nat \<Rightarrow> error + 32 word" where
  "checkedOperand op operand =
     (if operand > kMaxOperand
      then Inl (LengthError (opName op @ '' operand '' @ dec operand @
             '' exceeds the bytecode limit of '' @ dec kMaxOperand @
             '' (constants, locals, functions, arguments or instructions '' @
             ''jumped over in one function body)''))
      else Inr (word_of_nat operand))"

section \<open>Modules\<close>

datatype ConstKind = CkLong | CkDouble | CkString | CkSymbol | CkNamed | CkBigInteger | CkDatum

text \<open>The address of a protoCore object, and of a module.\<close>

type_synonym obj = nat
type_synonym modptr = nat

record Const =
  ckind :: ConstKind
  ival :: int
  dval :: "64 word"
  sval :: string
  named :: "obj option"

record KwKey =
  kname :: string
  klocalSlot :: nat
  kwObj :: obj

record CaptureSpec =
  parentSlot :: nat
  clocalSlot :: nat

record BytecodeModule =
  code :: "Instr list"
  pool :: "Const list"
  longIndex :: "int \<rightharpoonup> nat"
  doubleIndex :: "64 word \<rightharpoonup> nat"
  bigIntegerIndex :: "string \<rightharpoonup> nat"
  stringIndex :: "string \<rightharpoonup> nat"
  symbolIndex :: "string \<rightharpoonup> nat"
  namedIndex :: "string \<rightharpoonup> nat"
  datumIndex :: "obj \<rightharpoonup> nat"
  datumRoots :: "obj list"
  blocks :: "modptr list"
  arityGroups :: "nat list list"
  captureSpecs :: "CaptureSpec list"
  arity :: nat
  localCount :: nat
  isVariadic :: bool
  hasHandlers :: bool
  isKwBased :: bool
  asSlot :: "nat option"
  kwKeys :: "KwKey list"

definition emptyModule :: BytecodeModule where
  "emptyModule =
     \<lparr>code = [], pool = [], longIndex = Map.empty, doubleIndex = Map.empty,
      bigIntegerIndex = Map.empty, stringIndex = Map.empty, symbolIndex = Map.empty,
      namedIndex = Map.empty, datumIndex = Map.empty, datumRoots = [], blocks = [],
      arityGroups = [], captureSpecs = [], arity = 0, localCount = 0, isVariadic = False,
      hasHandlers = False, isKwBased = False, asSlot = None, kwKeys = []\<rparr>"

definition captureCount :: "BytecodeModule \<Rightarrow> nat" where
  "captureCount m = length (captureSpecs m)"

definition addBlock :: "modptr \<Rightarrow> BytecodeModule \<Rightarrow> nat \<times> BytecodeModule" where
  "addBlock sub m = (let m' = m\<lparr>blocks := blocks m @ [sub]\<rparr> in (length (blocks m') - 1, m'))"

definition addArityGroup :: "nat list \<Rightarrow> BytecodeModule \<Rightarrow> nat \<times> BytecodeModule" where
  "addArityGroup blockIndices m =
     (let m' = m\<lparr>arityGroups := arityGroups m @ [blockIndices]\<rparr> in (length (arityGroups m') - 1, m'))"

definition addCapture :: "nat \<Rightarrow> nat \<Rightarrow> BytecodeModule \<Rightarrow> BytecodeModule" where
  "addCapture ps ls m =
     m\<lparr>captureSpecs := captureSpecs m @ [\<lparr>parentSlot = ps, clocalSlot = ls\<rparr>]\<rparr>"

definition addKwKey :: "string \<Rightarrow> nat \<Rightarrow> obj \<Rightarrow> BytecodeModule \<Rightarrow> BytecodeModule" where
  "addKwKey n ls kw m =
     m\<lparr>kwKeys := kwKeys m @ [\<lparr>kname = n, klocalSlot = ls, kwObj = kw\<rparr>]\<rparr>"

section \<open>The constant pool\<close>

definition findOrAdd ::
  "('k \<rightharpoonup> nat) \<Rightarrow> 'k \<Rightarrow> Const list \<Rightarrow> Const \<Rightarrow> nat \<times> ('k \<rightharpoonup> nat) \<times> Const list" where
  "findOrAdd index key cs c =
     (case index key of
        Some i \<Rightarrow> (i, index, cs)
      | None \<Rightarrow> (length cs, index(key \<mapsto> length cs), cs @ [c]))"

definition constOf :: "ConstKind \<Rightarrow> int \<Rightarrow> 64 word \<Rightarrow> string \<Rightarrow> obj option \<Rightarrow> Const" where
  "constOf k i d s n = \<lparr>ckind = k, ival = i, dval = d, sval = s, named = n\<rparr>"

definition addLong :: "int \<Rightarrow> BytecodeModule \<Rightarrow> nat \<times> BytecodeModule" where
  "addLong v m =
     (let (i, ix, cs) = findOrAdd (longIndex m) v (pool m) (constOf CkLong v 0 [] None)
      in (i, m\<lparr>longIndex := ix, pool := cs\<rparr>))"

definition addBigInteger :: "string \<Rightarrow> BytecodeModule \<Rightarrow> nat \<times> BytecodeModule" where
  "addBigInteger digits m =
     (let (i, ix, cs) = findOrAdd (bigIntegerIndex m) digits (pool m)
                          (constOf CkBigInteger 0 0 digits None)
      in (i, m\<lparr>bigIntegerIndex := ix, pool := cs\<rparr>))"

definition addDouble :: "64 word \<Rightarrow> BytecodeModule \<Rightarrow> nat \<times> BytecodeModule" where
  "addDouble bits m =
     (let (i, ix, cs) = findOrAdd (doubleIndex m) bits (pool m) (constOf CkDouble 0 bits [] None)
      in (i, m\<lparr>doubleIndex := ix, pool := cs\<rparr>))"

definition addString :: "string \<Rightarrow> BytecodeModule \<Rightarrow> nat \<times> BytecodeModule" where
  "addString s m =
     (let (i, ix, cs) = findOrAdd (stringIndex m) s (pool m) (constOf CkString 0 0 s None)
      in (i, m\<lparr>stringIndex := ix, pool := cs\<rparr>))"

text \<open>\<open>internSymbol\<close> is protoCore's interning of a symbol (\<^verbatim>\<open>createSymbol\<close>), called for a new one only.\<close>

definition addSymbol :: "(string \<Rightarrow> obj) \<Rightarrow> string \<Rightarrow> BytecodeModule \<Rightarrow> nat \<times> BytecodeModule" where
  "addSymbol internSymbol s m =
     (case symbolIndex m s of
        Some i \<Rightarrow> (i, m)
      | None \<Rightarrow>
          let key = internSymbol s;
              (i, ix, cs) = findOrAdd (symbolIndex m) s (pool m)
                              (constOf CkSymbol 0 0 s (Some key))
          in (i, m\<lparr>symbolIndex := ix, pool := cs\<rparr>))"

definition addNamed :: "string \<Rightarrow> obj \<Rightarrow> BytecodeModule \<Rightarrow> nat \<times> BytecodeModule" where
  "addNamed spelling v m =
     (let (i, ix, cs) = findOrAdd (namedIndex m) spelling (pool m)
                          (constOf CkNamed 0 0 spelling (Some v))
      in (i, m\<lparr>namedIndex := ix, pool := cs\<rparr>))"

definition addDatum :: "obj \<Rightarrow> BytecodeModule \<Rightarrow> nat \<times> BytecodeModule" where
  "addDatum v m =
     (case datumIndex m v of
        Some i \<Rightarrow> (i, m)
      | None \<Rightarrow>
          let idx = length (pool m)
          in (idx, m\<lparr>datumRoots := datumRoots m @ [v],
                     pool := pool m @ [constOf CkDatum 0 0 [] (Some v)],
                     datumIndex := (datumIndex m)(v \<mapsto> idx)\<rparr>))"

section \<open>Emitting\<close>

definition emit :: "Op \<Rightarrow> nat \<Rightarrow> BytecodeModule \<Rightarrow> error + nat \<times> BytecodeModule" where
  "emit op operand m =
     bindE (checkedOperand op operand) (\<lambda>checked.
       let m' = m\<lparr>code := code m @ [encodeInstr op checked],
                  hasHandlers := hasHandlers m \<or> op = TRY_BEGIN\<rparr>
       in Inr (length (code m') - 1, m'))"

text \<open>The opcode byte of the word at \<open>at\<close> was written by \<open>emit\<close> or \<open>patchOp\<close>, so it is an enumerator;
  its name only serves the error.\<close>

definition patchOperand :: "nat \<Rightarrow> nat \<Rightarrow> BytecodeModule \<Rightarrow> error + BytecodeModule" where
  "patchOperand at operand m =
     (if at \<ge> length (code m)
      then Inl (OutOfRange (''patchOperand: no instruction at '' @ dec at))
      else
        let low = code m ! at AND 0xFF;
            op = (case opOf (unat low) of Some op \<Rightarrow> op | None \<Rightarrow> NOP)
        in bindE (checkedOperand op operand) (\<lambda>checked.
             Inr (m\<lparr>code := (code m)[at := push_bit kOperandShift checked OR low]\<rparr>)))"

definition patchOp :: "nat \<Rightarrow> Op \<Rightarrow> BytecodeModule \<Rightarrow> BytecodeModule" where
  "patchOp at op m =
     m\<lparr>code := (code m)[at := (code m ! at AND NOT 0xFF) OR word_of_nat (opcode op)]\<rparr>"

section \<open>Instruction words\<close>

lemma opcode_less [simp]: "opcode op < 256"
  by (cases op) simp_all

lemma opOf_opcode [simp]: "opOf (opcode op) = Some op"
  by (cases op) (simp_all add: opOf_def allOps_def)

lemma opcode_inject: "opcode a = opcode b \<longleftrightarrow> a = b"
  using opOf_opcode by (metis option.inject)

lemma low_byte: "k < 256 \<Longrightarrow> (push_bit kOperandShift x OR word_of_nat k) AND (0xFF :: Instr) = word_of_nat k"
proof -
  assume k: "k < 256"
  have "take_bit 8 (push_bit 8 x OR word_of_nat k) = (word_of_nat k :: Instr)"
    using k by (simp add: take_bit_or take_bit_push_bit take_bit_of_nat take_bit_nat_eq_self)
  moreover have "(0xFF :: Instr) = mask 8" by (simp add: mask_eq_exp_minus_1)
  ultimately show ?thesis by (simp add: take_bit_eq_mask kOperandShift_def)
qed

lemma high_bits:
  assumes "k < 256" "unat x < 2 ^ 24"
  shows "drop_bit kOperandShift (push_bit kOperandShift x OR word_of_nat k) = (x :: Instr)"
proof -
  have k: "unat (word_of_nat k :: Instr) = k" using assms(1) by (simp add: unat_of_nat)
  have "unat (drop_bit 8 (word_of_nat k :: Instr)) = 0"
    unfolding unsigned_drop_bit_eq k using assms(1)
    by (simp add: drop_bit_eq_div take_bit_nat_eq_self)
  then have "drop_bit 8 (word_of_nat k :: Instr) = 0" by (simp add: unat_eq_0 del: drop_bit_eq_div)
  moreover have "drop_bit 8 (push_bit 8 x) = x"
  proof -
    have "unat (push_bit 8 x) = unat x * 256"
      using assms(2) by (simp add: push_bit_eq_mult unat_word_ariths)
    then have "unat (drop_bit 8 (push_bit 8 x)) = unat x"
      unfolding unsigned_drop_bit_eq using assms(2) by (simp add: drop_bit_eq_div take_bit_nat_eq_self)
    then show ?thesis by (rule unsigned_word_eqI)
  qed
  ultimately show ?thesis by (simp add: drop_bit_or kOperandShift_def)
qed

lemma instr_decode:
  assumes "n \<le> kMaxOperand"
  shows "instrOp (encodeInstr op (word_of_nat n)) = Some op"
    and "instrOperand (encodeInstr op (word_of_nat n)) = n"
proof -
  have n: "unat (word_of_nat n :: 32 word) = n" using assms by (simp add: unat_of_nat kMaxOperand_def)
  have o: "unat (word_of_nat (opcode op) :: 32 word) = opcode op"
    using order_less_trans [OF opcode_less [of op]] by (simp add: unat_of_nat)
  show "instrOp (encodeInstr op (word_of_nat n)) = Some op"
    by (simp add: instrOp_def encodeInstr_def low_byte o)
  show "instrOperand (encodeInstr op (word_of_nat n)) = n"
    using n assms high_bits [of "opcode op" "word_of_nat n"]
    by (simp only: instrOperand_def encodeInstr_def) (simp add: kMaxOperand_def)
qed

text \<open>A patched word keeps its other part.\<close>

lemma patch_operand_word:
  assumes "n \<le> kMaxOperand"
  shows "instrOp (push_bit kOperandShift (word_of_nat n) OR (w AND 0xFF)) = instrOp w"
    and "instrOperand (push_bit kOperandShift (word_of_nat n) OR (w AND 0xFF)) = n"
proof -
  let ?k = "unat (w AND 0xFF)"
  have w: "w AND 0xFF = word_of_nat ?k" by simp
  have "w AND 0xFF \<le> 0xFF" by (rule word_and_le1)
  then have k: "?k < 256" by (simp add: word_le_nat_alt)
  have n: "unat (word_of_nat n :: 32 word) = n" using assms by (simp add: unat_of_nat kMaxOperand_def)
  show "instrOp (push_bit kOperandShift (word_of_nat n) OR (w AND 0xFF)) = instrOp w"
    using low_byte [OF k, of "word_of_nat n"] by (simp add: instrOp_def)
  show "instrOperand (push_bit kOperandShift (word_of_nat n) OR (w AND 0xFF)) = n"
    using high_bits [OF k, of "word_of_nat n"] n assms
    by (simp only: instrOperand_def w [symmetric]) (simp add: kMaxOperand_def)
qed

lemma patch_op_word:
  "instrOp ((w AND NOT 0xFF) OR word_of_nat (opcode op)) = Some op"
  "instrOperand ((w AND NOT 0xFF) OR word_of_nat (opcode op)) = instrOperand w"
proof -
  have m: "(0xFF :: Instr) = mask 8" by (simp add: mask_eq_exp_minus_1)
  have w: "w AND NOT 0xFF = push_bit kOperandShift (drop_bit kOperandShift w)"
    unfolding kOperandShift_def m by (rule bit_eqI) (auto simp: bit_simps)
  have d: "unat (drop_bit kOperandShift w) < 2 ^ 24"
    unfolding unsigned_drop_bit_eq kOperandShift_def
    by (simp add: drop_bit_eq_div take_bit_eq_mod div_less_iff_less_mult)
  have o: "unat (word_of_nat (opcode op) :: 32 word) = opcode op"
    using order_less_trans [OF opcode_less [of op]] by (simp add: unat_of_nat)
  show "instrOp ((w AND NOT 0xFF) OR word_of_nat (opcode op)) = Some op"
    unfolding w instrOp_def by (simp add: low_byte o)
  show "instrOperand ((w AND NOT 0xFF) OR word_of_nat (opcode op)) = instrOperand w"
    unfolding w instrOperand_def high_bits [OF opcode_less d] ..
qed

section \<open>The constant pool holds each constant once\<close>

text \<open>The constants a call adds, by kind.\<close>

abbreviation mkLong :: "int \<Rightarrow> Const" where "mkLong v \<equiv> constOf CkLong v 0 [] None"
abbreviation mkDouble :: "64 word \<Rightarrow> Const" where "mkDouble b \<equiv> constOf CkDouble 0 b [] None"
abbreviation mkBigInteger :: "string \<Rightarrow> Const" where
  "mkBigInteger s \<equiv> constOf CkBigInteger 0 0 s None"
abbreviation mkString :: "string \<Rightarrow> Const" where "mkString s \<equiv> constOf CkString 0 0 s None"
abbreviation mkSymbol :: "(string \<Rightarrow> obj) \<Rightarrow> string \<Rightarrow> Const" where
  "mkSymbol intern s \<equiv> constOf CkSymbol 0 0 s (Some (intern s))"
abbreviation mkNamed :: "(string \<Rightarrow> obj) \<Rightarrow> string \<Rightarrow> Const" where
  "mkNamed intern s \<equiv> constOf CkNamed 0 0 s (Some (intern s))"
abbreviation mkDatum :: "obj \<Rightarrow> Const" where "mkDatum v \<equiv> constOf CkDatum 0 0 [] (Some v)"

text \<open>An index of a kind is exact: it answers a position just when the constant is there.\<close>

definition indexed :: "('k \<rightharpoonup> nat) \<Rightarrow> ('k \<Rightarrow> Const) \<Rightarrow> Const list \<Rightarrow> bool" where
  "indexed ix mk cs \<longleftrightarrow> (\<forall>k i. ix k = Some i \<longleftrightarrow> i < length cs \<and> cs ! i = mk k)"

lemma indexed_append:
  "indexed ix mk cs \<Longrightarrow> (\<And>k. mk k \<noteq> c) \<Longrightarrow> indexed ix mk (cs @ [c])"
  unfolding indexed_def by (metis length_append_singleton less_Suc_eq nth_append nth_append_length)

lemma indexed_fresh:
  assumes "indexed ix mk cs" "ix k = None" "\<And>k'. mk k' = mk k \<Longrightarrow> k' = k"
  shows "indexed (ix(k \<mapsto> length cs)) mk (cs @ [mk k])"
  using assms unfolding indexed_def by (auto simp: nth_append less_Suc_eq) (metis option.distinct(1))

text \<open>What the seven \<^verbatim>\<open>add...\<close> members promise the compiler, once: \<open>add\<close> of a key with its index and the
  constant it stands for.\<close>

locale const_kind =
  fixes add :: "'k \<Rightarrow> BytecodeModule \<Rightarrow> nat \<times> BytecodeModule"
    and index :: "BytecodeModule \<Rightarrow> 'k \<rightharpoonup> nat"
    and mk :: "'k \<Rightarrow> Const"
  assumes known: "index m k = Some i \<Longrightarrow> add k m = (i, m)"
    and fresh: "index m k = None \<Longrightarrow> fst (add k m) = length (pool m) \<and>
      pool (snd (add k m)) = pool m @ [mk k] \<and>
      index (snd (add k m)) = (index m)(k \<mapsto> length (pool m))"
    and mk_inject: "mk k = mk k' \<Longrightarrow> k = k'"
begin

lemma add_indexed:
  assumes "indexed (index m) mk (pool m)"
  shows "indexed (index (snd (add k m))) mk (pool (snd (add k m)))"
  using assms known fresh [of m k] indexed_fresh [of "index m" mk "pool m" k] mk_inject
  by (cases "index m k") auto

lemma add_stored:
  assumes "indexed (index m) mk (pool m)"
  shows "fst (add k m) < length (pool (snd (add k m))) \<and> pool (snd (add k m)) ! fst (add k m) = mk k"
  using assms known fresh [of m k] unfolding indexed_def by (cases "index m k") auto

lemma add_keeps: "\<exists>cs. pool (snd (add k m)) = pool m @ cs"
  using known fresh [of m k] by (cases "index m k") auto

lemma add_present:
  assumes "indexed (index m) mk (pool m)" "i < length (pool m)" "pool m ! i = mk k"
  shows "add k m = (i, m)"
  using assms known unfolding indexed_def by blast

lemma add_again:
  assumes "indexed (index m) mk (pool m)"
  shows "add k (snd (add k m)) = (fst (add k m), snd (add k m))"
  using add_present [OF add_indexed [OF assms]] add_stored [OF assms] by blast

lemma add_other:
  assumes "indexed ix mk' (pool m)" "\<And>k'. mk' k' \<noteq> mk k"
  shows "indexed ix mk' (pool (snd (add k m)))"
  using assms known fresh [of m k] by (cases "index m k") (auto intro: indexed_append)

end

lemmas add_defs = addLong_def addDouble_def addBigInteger_def addString_def addSymbol_def
  addNamed_def addDatum_def findOrAdd_def constOf_def

interpretation longs: const_kind addLong longIndex mkLong
  by unfold_locales (auto simp: add_defs Let_def)

interpretation doubles: const_kind addDouble doubleIndex mkDouble
  by unfold_locales (auto simp: add_defs Let_def)

interpretation bigIntegers: const_kind addBigInteger bigIntegerIndex mkBigInteger
  by unfold_locales (auto simp: add_defs Let_def)

interpretation strings: const_kind addString stringIndex mkString
  by unfold_locales (auto simp: add_defs Let_def)

interpretation symbols: const_kind "addSymbol intern" symbolIndex "mkSymbol intern" for intern
  by unfold_locales (auto simp: add_defs Let_def)

interpretation nameds: const_kind "\<lambda>s. addNamed s (intern s)" namedIndex "mkNamed intern" for intern
  by unfold_locales (auto simp: add_defs Let_def)

interpretation datums: const_kind addDatum datumIndex mkDatum
  by unfold_locales (auto simp: add_defs Let_def)

text \<open>The constants a module can hold.\<close>

definition wfConst :: "(string \<Rightarrow> obj) \<Rightarrow> (string \<Rightarrow> obj) \<Rightarrow> Const \<Rightarrow> bool" where
  "wfConst isym inam c \<longleftrightarrow>
     (case ckind c of
        CkLong \<Rightarrow> c = mkLong (ival c)
      | CkDouble \<Rightarrow> c = mkDouble (dval c)
      | CkBigInteger \<Rightarrow> c = mkBigInteger (sval c)
      | CkString \<Rightarrow> c = mkString (sval c)
      | CkSymbol \<Rightarrow> c = mkSymbol isym (sval c)
      | CkNamed \<Rightarrow> c = mkNamed inam (sval c)
      | CkDatum \<Rightarrow> c = mkDatum (the (named c)))"

lemma wfConst_mk [simp]:
  "wfConst isym inam (mkLong v)" "wfConst isym inam (mkDouble b)" "wfConst isym inam (mkBigInteger s)"
  "wfConst isym inam (mkString s)" "wfConst isym inam (mkSymbol isym s)"
  "wfConst isym inam (mkNamed inam s)" "wfConst isym inam (mkDatum w)"
  by (simp_all add: wfConst_def constOf_def)

text \<open>The invariant of a module: every index is exact, and the pool holds nothing else.\<close>

definition pool_ok :: "(string \<Rightarrow> obj) \<Rightarrow> (string \<Rightarrow> obj) \<Rightarrow> BytecodeModule \<Rightarrow> bool" where
  "pool_ok isym inam m \<longleftrightarrow>
     indexed (longIndex m) mkLong (pool m) \<and> indexed (doubleIndex m) mkDouble (pool m) \<and>
     indexed (bigIntegerIndex m) mkBigInteger (pool m) \<and> indexed (stringIndex m) mkString (pool m) \<and>
     indexed (symbolIndex m) (mkSymbol isym) (pool m) \<and> indexed (namedIndex m) (mkNamed inam) (pool m) \<and>
     indexed (datumIndex m) mkDatum (pool m) \<and> (\<forall>c\<in>set (pool m). wfConst isym inam c)"

lemma pool_ok_indexed:
  assumes "pool_ok isym inam m"
  shows "indexed (longIndex m) mkLong (pool m)" "indexed (doubleIndex m) mkDouble (pool m)"
     "indexed (bigIntegerIndex m) mkBigInteger (pool m)" "indexed (stringIndex m) mkString (pool m)"
     "indexed (symbolIndex m) (mkSymbol isym) (pool m)" "indexed (namedIndex m) (mkNamed inam) (pool m)"
     "indexed (datumIndex m) mkDatum (pool m)"
  using assms unfolding pool_ok_def by blast+

lemma indexed_position: "indexed ix mk cs \<Longrightarrow> i < length cs \<Longrightarrow> j < length cs \<Longrightarrow>
    cs ! i = mk k \<Longrightarrow> cs ! j = mk k \<Longrightarrow> i = j"
  unfolding indexed_def by (metis option.inject)

lemma pool_ok_distinct:
  assumes "pool_ok isym inam m"
  shows "distinct (pool m)"
proof -
  have "i = j" if ij: "i < length (pool m)" "j < length (pool m)" "pool m ! i = pool m ! j" for i j
  proof -
    have step: "i = j" if "indexed ix mk (pool m)" "pool m ! i = mk k" for ix and mk :: "'k \<Rightarrow> Const" and k
      using indexed_position [OF that(1) ij(1,2), of k] that(2) ij(3) by simp
    have "pool m ! i \<in> set (pool m)" using ij by simp
    then have wf: "wfConst isym inam (pool m ! i)" using assms by (simp add: pool_ok_def)
    note at_kind = wf [unfolded wfConst_def]
    show ?thesis
    proof (cases "ckind (pool m ! i)")
      case CkLong
      show ?thesis by (rule step [OF pool_ok_indexed(1) [OF assms] at_kind [unfolded CkLong ConstKind.case]])
    next
      case CkDouble
      show ?thesis by (rule step [OF pool_ok_indexed(2) [OF assms] at_kind [unfolded CkDouble ConstKind.case]])
    next
      case CkBigInteger
      show ?thesis by (rule step [OF pool_ok_indexed(3) [OF assms] at_kind [unfolded CkBigInteger ConstKind.case]])
    next
      case CkString
      show ?thesis by (rule step [OF pool_ok_indexed(4) [OF assms] at_kind [unfolded CkString ConstKind.case]])
    next
      case CkSymbol
      show ?thesis by (rule step [OF pool_ok_indexed(5) [OF assms] at_kind [unfolded CkSymbol ConstKind.case]])
    next
      case CkNamed
      show ?thesis by (rule step [OF pool_ok_indexed(6) [OF assms] at_kind [unfolded CkNamed ConstKind.case]])
    next
      case CkDatum
      show ?thesis by (rule step [OF pool_ok_indexed(7) [OF assms] at_kind [unfolded CkDatum ConstKind.case]])
    qed
  qed
  then show ?thesis by (auto simp: distinct_conv_nth)
qed

lemma other_index [simp]:
  "doubleIndex (snd (addLong v m)) = doubleIndex m" "bigIntegerIndex (snd (addLong v m)) = bigIntegerIndex m"
  "stringIndex (snd (addLong v m)) = stringIndex m" "symbolIndex (snd (addLong v m)) = symbolIndex m"
  "namedIndex (snd (addLong v m)) = namedIndex m" "datumIndex (snd (addLong v m)) = datumIndex m"
  "longIndex (snd (addDouble b m)) = longIndex m" "bigIntegerIndex (snd (addDouble b m)) = bigIntegerIndex m"
  "stringIndex (snd (addDouble b m)) = stringIndex m" "symbolIndex (snd (addDouble b m)) = symbolIndex m"
  "namedIndex (snd (addDouble b m)) = namedIndex m" "datumIndex (snd (addDouble b m)) = datumIndex m"
  "longIndex (snd (addBigInteger s m)) = longIndex m" "doubleIndex (snd (addBigInteger s m)) = doubleIndex m"
  "stringIndex (snd (addBigInteger s m)) = stringIndex m" "symbolIndex (snd (addBigInteger s m)) = symbolIndex m"
  "namedIndex (snd (addBigInteger s m)) = namedIndex m" "datumIndex (snd (addBigInteger s m)) = datumIndex m"
  "longIndex (snd (addString s m)) = longIndex m" "doubleIndex (snd (addString s m)) = doubleIndex m"
  "bigIntegerIndex (snd (addString s m)) = bigIntegerIndex m" "symbolIndex (snd (addString s m)) = symbolIndex m"
  "namedIndex (snd (addString s m)) = namedIndex m" "datumIndex (snd (addString s m)) = datumIndex m"
  "longIndex (snd (addSymbol f s m)) = longIndex m" "doubleIndex (snd (addSymbol f s m)) = doubleIndex m"
  "bigIntegerIndex (snd (addSymbol f s m)) = bigIntegerIndex m" "stringIndex (snd (addSymbol f s m)) = stringIndex m"
  "namedIndex (snd (addSymbol f s m)) = namedIndex m" "datumIndex (snd (addSymbol f s m)) = datumIndex m"
  "longIndex (snd (addNamed s w m)) = longIndex m" "doubleIndex (snd (addNamed s w m)) = doubleIndex m"
  "bigIntegerIndex (snd (addNamed s w m)) = bigIntegerIndex m" "stringIndex (snd (addNamed s w m)) = stringIndex m"
  "symbolIndex (snd (addNamed s w m)) = symbolIndex m" "datumIndex (snd (addNamed s w m)) = datumIndex m"
  "longIndex (snd (addDatum w m)) = longIndex m" "doubleIndex (snd (addDatum w m)) = doubleIndex m"
  "bigIntegerIndex (snd (addDatum w m)) = bigIntegerIndex m" "stringIndex (snd (addDatum w m)) = stringIndex m"
  "symbolIndex (snd (addDatum w m)) = symbolIndex m" "namedIndex (snd (addDatum w m)) = namedIndex m"
  by (auto simp: add_defs Let_def split: option.split)

lemma other_kind:
  "k \<noteq> k' \<Longrightarrow> constOf k i d s n \<noteq> constOf k' i' d' s' n'"
  by (simp add: constOf_def)

lemma pool_added:
  "set (pool (snd (addLong v m))) \<subseteq> insert (mkLong v) (set (pool m))"
  "set (pool (snd (addDouble b m))) \<subseteq> insert (mkDouble b) (set (pool m))"
  "set (pool (snd (addBigInteger s m))) \<subseteq> insert (mkBigInteger s) (set (pool m))"
  "set (pool (snd (addString s m))) \<subseteq> insert (mkString s) (set (pool m))"
  "set (pool (snd (addSymbol isym s m))) \<subseteq> insert (mkSymbol isym s) (set (pool m))"
  "set (pool (snd (addNamed s (inam s) m))) \<subseteq> insert (mkNamed inam s) (set (pool m))"
  "set (pool (snd (addDatum w m))) \<subseteq> insert (mkDatum w) (set (pool m))"
  by (auto simp: add_defs Let_def split: option.splits)

lemmas add_others = longs.add_other doubles.add_other bigIntegers.add_other strings.add_other
  symbols.add_other nameds.add_other datums.add_other
lemmas adds_indexed = longs.add_indexed doubles.add_indexed bigIntegers.add_indexed strings.add_indexed
  symbols.add_indexed nameds.add_indexed datums.add_indexed

lemma pool_okI:
  assumes "pool_ok isym inam m"
    and "indexed (longIndex m') mkLong (pool m')" "indexed (doubleIndex m') mkDouble (pool m')"
      "indexed (bigIntegerIndex m') mkBigInteger (pool m')" "indexed (stringIndex m') mkString (pool m')"
      "indexed (symbolIndex m') (mkSymbol isym) (pool m')" "indexed (namedIndex m') (mkNamed inam) (pool m')"
      "indexed (datumIndex m') mkDatum (pool m')"
    and "set (pool m') \<subseteq> insert c (set (pool m))" "wfConst isym inam c"
  shows "pool_ok isym inam m'"
  using assms unfolding pool_ok_def by blast

lemma pool_ok_addLong: "pool_ok isym inam m \<Longrightarrow> pool_ok isym inam (snd (addLong v m))"
  by (rule pool_okI [OF _ _ _ _ _ _ _ _ pool_added(1)])
    (auto intro!: longs.add_indexed longs.add_other simp: pool_ok_indexed other_kind)

lemma pool_ok_addDouble: "pool_ok isym inam m \<Longrightarrow> pool_ok isym inam (snd (addDouble v m))"
  by (rule pool_okI [OF _ _ _ _ _ _ _ _ pool_added(2)])
    (auto intro!: doubles.add_indexed doubles.add_other simp: pool_ok_indexed other_kind)

lemma pool_ok_addBigInteger: "pool_ok isym inam m \<Longrightarrow> pool_ok isym inam (snd (addBigInteger v m))"
  by (rule pool_okI [OF _ _ _ _ _ _ _ _ pool_added(3)])
    (auto intro!: bigIntegers.add_indexed bigIntegers.add_other simp: pool_ok_indexed other_kind)

lemma pool_ok_addString: "pool_ok isym inam m \<Longrightarrow> pool_ok isym inam (snd (addString v m))"
  by (rule pool_okI [OF _ _ _ _ _ _ _ _ pool_added(4)])
    (auto intro!: strings.add_indexed strings.add_other simp: pool_ok_indexed other_kind)

lemma pool_ok_addSymbol: "pool_ok isym inam m \<Longrightarrow> pool_ok isym inam (snd (addSymbol isym v m))"
  by (rule pool_okI [OF _ _ _ _ _ _ _ _ pool_added(5)])
    (auto intro!: symbols.add_indexed symbols.add_other simp: pool_ok_indexed other_kind)

lemma pool_ok_addNamed: "pool_ok isym inam m \<Longrightarrow> pool_ok isym inam (snd (addNamed v (inam v) m))"
  by (rule pool_okI [OF _ _ _ _ _ _ _ _ pool_added(6)])
    (auto intro!: nameds.add_indexed nameds.add_other simp: pool_ok_indexed other_kind)

lemma pool_ok_addDatum: "pool_ok isym inam m \<Longrightarrow> pool_ok isym inam (snd (addDatum v m))"
  by (rule pool_okI [OF _ _ _ _ _ _ _ _ pool_added(7)])
    (auto intro!: datums.add_indexed datums.add_other simp: pool_ok_indexed other_kind)

section \<open>Modules as the compiler builds them\<close>

text \<open>The modules some sequence of the members produces; \<open>patchOp\<close> never writes a \<open>TRY_BEGIN\<close> (the
  compiler uses it for locals clearing only).\<close>

inductive built :: "(string \<Rightarrow> obj) \<Rightarrow> (string \<Rightarrow> obj) \<Rightarrow> BytecodeModule \<Rightarrow> bool"
  for isym :: "string \<Rightarrow> obj" and inam :: "string \<Rightarrow> obj" where
  built_empty: "built isym inam emptyModule"
| built_addLong: "built isym inam m \<Longrightarrow> built isym inam (snd (addLong v m))"
| built_addDouble: "built isym inam m \<Longrightarrow> built isym inam (snd (addDouble b m))"
| built_addBigInteger: "built isym inam m \<Longrightarrow> built isym inam (snd (addBigInteger s m))"
| built_addString: "built isym inam m \<Longrightarrow> built isym inam (snd (addString s m))"
| built_addSymbol: "built isym inam m \<Longrightarrow> built isym inam (snd (addSymbol isym s m))"
| built_addNamed: "built isym inam m \<Longrightarrow> built isym inam (snd (addNamed s (inam s) m))"
| built_addDatum: "built isym inam m \<Longrightarrow> built isym inam (snd (addDatum w m))"
| built_emit: "built isym inam m \<Longrightarrow> emit op n m = Inr (at, m') \<Longrightarrow> built isym inam m'"
| built_patchOperand: "built isym inam m \<Longrightarrow> patchOperand at n m = Inr m' \<Longrightarrow> built isym inam m'"
| built_patchOp: "built isym inam m \<Longrightarrow> at < length (code m) \<Longrightarrow> op \<noteq> TRY_BEGIN \<Longrightarrow>
    built isym inam (patchOp at op m)"
| built_addBlock: "built isym inam m \<Longrightarrow> built isym inam (snd (addBlock p m))"
| built_addArityGroup: "built isym inam m \<Longrightarrow> built isym inam (snd (addArityGroup g m))"
| built_addCapture: "built isym inam m \<Longrightarrow> built isym inam (addCapture ps ls m)"
| built_addKwKey: "built isym inam m \<Longrightarrow> built isym inam (addKwKey kn ls kw m)"
| built_set: "built isym inam m \<Longrightarrow>
    built isym inam (m\<lparr>arity := a, localCount := l, isVariadic := v, isKwBased := k, asSlot := as\<rparr>)"

definition code_ok :: "BytecodeModule \<Rightarrow> bool" where
  "code_ok m \<longleftrightarrow> (\<forall>w\<in>set (code m). instrOp w \<noteq> None \<and> (instrOp w = Some TRY_BEGIN \<longrightarrow> hasHandlers m))"

lemma adds_code [simp]:
  "code (snd (addLong v m)) = code m" "code (snd (addDouble b m)) = code m"
  "code (snd (addBigInteger s m)) = code m" "code (snd (addString s m)) = code m"
  "code (snd (addSymbol f s m)) = code m" "code (snd (addNamed s w m)) = code m"
  "code (snd (addDatum w m)) = code m"
  "hasHandlers (snd (addLong v m)) = hasHandlers m" "hasHandlers (snd (addDouble b m)) = hasHandlers m"
  "hasHandlers (snd (addBigInteger s m)) = hasHandlers m" "hasHandlers (snd (addString s m)) = hasHandlers m"
  "hasHandlers (snd (addSymbol f s m)) = hasHandlers m" "hasHandlers (snd (addNamed s w m)) = hasHandlers m"
  "hasHandlers (snd (addDatum w m)) = hasHandlers m"
  by (auto simp: add_defs Let_def split: option.split)

lemma emit_eq:
  "emit op n m =
     (if n > kMaxOperand then Inl (projl (checkedOperand op n))
      else Inr (length (code m), m\<lparr>code := code m @ [encodeInstr op (word_of_nat n)],
                                   hasHandlers := hasHandlers m \<or> op = TRY_BEGIN\<rparr>))"
  by (simp add: emit_def checkedOperand_def Let_def)

lemma patchOperand_eq:
  "at < length (code m) \<Longrightarrow> n \<le> kMaxOperand \<Longrightarrow>
   patchOperand at n m =
     Inr (m\<lparr>code := (code m)[at := push_bit kOperandShift (word_of_nat n) OR (code m ! at AND 0xFF)]\<rparr>)"
  by (simp add: patchOperand_def checkedOperand_def Let_def)

lemma patchOperand_Inr:
  "patchOperand at n m = Inr m' \<Longrightarrow> at < length (code m) \<and> n \<le> kMaxOperand"
  by (auto simp: patchOperand_def checkedOperand_def Let_def split: if_splits)

lemma pool_ok_code [simp]: "pool_ok isym inam (m\<lparr>code := c\<rparr>) = pool_ok isym inam m"
  "pool_ok isym inam (m\<lparr>code := c, hasHandlers := h\<rparr>) = pool_ok isym inam m"
  "pool_ok isym inam (m\<lparr>blocks := bs\<rparr>) = pool_ok isym inam m"
  "pool_ok isym inam (m\<lparr>arityGroups := gs\<rparr>) = pool_ok isym inam m"
  "pool_ok isym inam (m\<lparr>captureSpecs := cs\<rparr>) = pool_ok isym inam m"
  "pool_ok isym inam (m\<lparr>kwKeys := ks\<rparr>) = pool_ok isym inam m"
  "pool_ok isym inam (m\<lparr>arity := a, localCount := l, isVariadic := v, isKwBased := k, asSlot := as\<rparr>)
     = pool_ok isym inam m"
  by (simp_all add: pool_ok_def)

lemma built_pool_ok: "built isym inam m \<Longrightarrow> pool_ok isym inam m"
proof (induction rule: built.induct)
  case built_empty
  show ?case by (simp add: pool_ok_def emptyModule_def indexed_def)
next
  case (built_patchOperand m at n m')
  then show ?case using patchOperand_Inr [of at n m m'] by (auto simp: patchOperand_eq)
qed (auto simp: pool_ok_addLong pool_ok_addDouble pool_ok_addBigInteger pool_ok_addString
    pool_ok_addSymbol pool_ok_addNamed pool_ok_addDatum emit_eq patchOp_def addBlock_def
    addArityGroup_def addCapture_def addKwKey_def Let_def split: if_splits)

lemma code_ok_update:
  assumes "code_ok m" "at < length (code m)" "instrOp w = instrOp (code m ! at) \<or> (\<exists>op. instrOp w = Some op \<and> op \<noteq> TRY_BEGIN)"
  shows "code_ok (m\<lparr>code := (code m)[at := w]\<rparr>)"
proof -
  have old: "instrOp v \<noteq> None \<and> (instrOp v = Some TRY_BEGIN \<longrightarrow> hasHandlers m)" if "v \<in> set (code m)" for v
    using assms(1) that by (simp add: code_ok_def)
  have new: "instrOp w \<noteq> None \<and> (instrOp w = Some TRY_BEGIN \<longrightarrow> hasHandlers m)"
    using assms(3) old [OF nth_mem [OF assms(2)]] by auto
  have "v = w \<or> v \<in> set (code m)" if "v \<in> set ((code m)[at := w])" for v
    using that set_update_subset_insert [of "code m" at w] by blast
  with old new show ?thesis by (auto simp: code_ok_def)
qed

lemma built_code_ok: "built isym inam m \<Longrightarrow> code_ok m"
proof (induction rule: built.induct)
  case (built_emit m op n at m')
  then show ?case by (auto simp: emit_eq code_ok_def instr_decode split: if_splits)
next
  case (built_patchOperand m at n m')
  note p = patchOperand_Inr [OF built_patchOperand.hyps(2)]
  have "m' = m\<lparr>code := (code m)[at := push_bit kOperandShift (word_of_nat n) OR (code m ! at AND 0xFF)]\<rparr>"
    using p patchOperand_eq [of at m n] built_patchOperand.hyps(2) by simp
  then show ?case using built_patchOperand.IH p by (simp add: code_ok_update patch_operand_word)
next
  case (built_patchOp m at op)
  then show ?case unfolding patchOp_def
    by (intro code_ok_update disjI2 exI [of _ op]) (simp_all only: patch_op_word, simp_all)
qed (auto simp: code_ok_def emptyModule_def addBlock_def addArityGroup_def addCapture_def addKwKey_def
    Let_def)

section \<open>The depth of the operand stack\<close>

text \<open>What the analysis does with an instruction reached at depth \<open>d\<close>: an opcode it does not know, the
  jumps of an instruction that does not fall through, or the jumps and the depth after it.\<close>

datatype flow = FlowUnknown | FlowEnds "(nat \<times> int) list" | FlowFalls "(nat \<times> int) list" int

definition groupCaptures :: "(modptr \<Rightarrow> nat) \<Rightarrow> BytecodeModule \<Rightarrow> nat \<Rightarrow> nat" where
  "groupCaptures caps m g =
     (if g < length (arityGroups m)
      then sum_list (map (\<lambda>b. caps (blocks m ! b)) (filter (\<lambda>b. b < length (blocks m)) (arityGroups m ! g)))
      else 0)"

text \<open>The \<^verbatim>\<open>switch\<close> of \<^verbatim>\<open>computeMaxStack\<close>; \<open>caps\<close> gives the number of captures of a block.\<close>

definition flowOf :: "(modptr \<Rightarrow> nat) \<Rightarrow> BytecodeModule \<Rightarrow> nat \<Rightarrow> int \<Rightarrow> flow" where
  "flowOf caps m i d =
     (let operand = instrOperand (code m ! i); next = i + 1 in
      case instrOp (code m ! i) of
        None \<Rightarrow> FlowUnknown
      | Some op \<Rightarrow>
          if op \<in> {PUSH_CONST, PUSH_VAR, PUSH_NIL, PUSH_TRUE, PUSH_FALSE, PUSH_LOCAL, PUSH_LOCAL_CLEAR,
                   DUP, RESOLVE_CLASS} then FlowFalls [] (d + 1)
          else if op \<in> {POP, STORE_LOCAL, STORE_CAUGHT, ADD, SUB, MUL, LT, LE, GT, GE, EQ, CALL_APPLY,
                   EXC_MATCH_TYPE} then FlowFalls [] (d - 1)
          else if op \<in> {NOP, STORE_GLOBAL, TRY_END, EXC_MATCH, GET_MEMBER, LINE} then FlowFalls [] d
          else if op \<in> {CALL, CALL_KW, CALL_MEMBER} then FlowFalls [] (d - int operand)
          else if op = MAKE_FN then
            FlowFalls [] (d + 1 - int (if operand < length (blocks m) then caps (blocks m ! operand) else 0))
          else if op = MAKE_FN_MULTI then FlowFalls [] (d + 1 - int (groupCaptures caps m operand))
          else if op = JUMP then FlowEnds [(next + operand, d)]
          else if op = JUMP_BACK then FlowEnds (if operand \<le> next then [(next - operand, d)] else [])
          else if op = JUMP_IF_FALSE \<or> op = JUMP_IF_TRUE then FlowFalls [(next + operand, d - 1)] (d - 1)
          else if op = TRY_BEGIN then FlowFalls [(next + operand, d + 1)] d
          else FlowEnds [])"

text \<open>The lambda \<^verbatim>\<open>reach\<close> on the depths and the work list (its last element first).\<close>

fun reach :: "nat \<times> int \<Rightarrow> int list \<times> nat list \<Rightarrow> int list \<times> nat list" where
  "reach (at, d) (depth, work) =
     (if at \<ge> length depth \<or> d < 0 then (depth, work)
      else if d \<le> depth ! at then (depth, work)
      else (depth[at := d], at # work))"

text \<open>The depths, the captures and their sum are values of \<^verbatim>\<open>int\<close>. Only an instruction that pushes raises
  the depth, by one; past the greatest \<^verbatim>\<open>int\<close> the result of the addition is undefined. (An operand has
  24 bits, so no subtraction leaves the range.)\<close>

definition intMax :: int where
  "intMax = 2 ^ 31 - 1"

definition raises :: "BytecodeModule \<Rightarrow> nat \<Rightarrow> int" where
  "raises m i =
     (case instrOp (code m ! i) of
        None \<Rightarrow> 0
      | Some op \<Rightarrow>
          if op \<in> {PUSH_CONST, PUSH_VAR, PUSH_NIL, PUSH_TRUE, PUSH_FALSE, PUSH_LOCAL, PUSH_LOCAL_CLEAR,
                   DUP, RESOLVE_CLASS, MAKE_FN, MAKE_FN_MULTI, TRY_BEGIN} then 1
          else 0)"

definition capturesAt :: "(modptr \<Rightarrow> nat) \<Rightarrow> BytecodeModule \<Rightarrow> nat \<Rightarrow> nat" where
  "capturesAt caps m i =
     (let operand = instrOperand (code m ! i) in
      if instrOp (code m ! i) = Some MAKE_FN then (if operand < length (blocks m) then caps (blocks m ! operand) else 0)
      else if instrOp (code m ! i) = Some MAKE_FN_MULTI then groupCaptures caps m operand
      else 0)"

definition overflows :: "(modptr \<Rightarrow> nat) \<Rightarrow> BytecodeModule \<Rightarrow> nat \<Rightarrow> int \<Rightarrow> bool" where
  "overflows caps m i d \<longleftrightarrow> intMax < d + raises m i \<or> intMax < int (capturesAt caps m i)"

lemma flowOf_range:
  assumes "\<not> overflows caps m i d"
  shows "flowOf caps m i d = FlowEnds js \<Longrightarrow> (j, e) \<in> set js \<Longrightarrow> e \<le> intMax"
    "flowOf caps m i d = FlowFalls js x \<Longrightarrow> (j, e) \<in> set js \<or> e = x \<Longrightarrow> e \<le> intMax"
  using assms
  by (auto simp: flowOf_def overflows_def raises_def Let_def split: option.splits if_splits)

text \<open>The loop ends: each time it puts an instruction back on its list it has raised a depth, which stays in range.\<close>

definition weight :: "int \<Rightarrow> int list \<times> nat list \<Rightarrow> nat" where
  "weight B s = 3 * (\<Sum>x\<leftarrow>fst s. nat (B + 1 - x)) + length (snd s)"

lemma sum_list_update_less:
  "j < length xs \<Longrightarrow> xs ! j < e \<Longrightarrow> e \<le> B \<Longrightarrow>
     (\<Sum>x\<leftarrow>xs[j := e]. nat (B + 1 - x)) + 1 \<le> (\<Sum>x\<leftarrow>xs. nat (B + 1 - (x::int)))"
proof (induction xs arbitrary: j)
  case (Cons x xs)
  then show ?case by (cases j) fastforce+
qed simp

lemma reach_weight: "snd p \<le> B \<Longrightarrow> weight B (reach p s) \<le> weight B s"
proof -
  assume B: "snd p \<le> B"
  obtain j e depth work where p: "p = (j, e)" and s: "s = (depth, work)" by (cases p; cases s) blast
  show ?thesis
    using sum_list_update_less [of j depth e B] B by (auto simp: p s weight_def)
qed

lemma fold_reach_weight:
  "(\<And>j e. (j, e) \<in> set ts \<Longrightarrow> e \<le> B) \<Longrightarrow> weight B (fold reach ts s) \<le> weight B s"
proof (induction ts arbitrary: s)
  case (Cons t ts)
  have "weight B (reach t s) \<le> weight B s" by (rule reach_weight) (use Cons.prems in \<open>cases t; auto\<close>)
  moreover have "weight B (fold reach ts (reach t s)) \<le> weight B (reach t s)"
    by (rule Cons.IH) (use Cons.prems in auto)
  ultimately show ?case by simp
qed simp

text \<open>The loop; \<open>None\<close> when an addition leaves the range of \<^verbatim>\<open>int\<close>, which leaves the result undefined.\<close>

function (sequential) maxStackLoop ::
  "(modptr \<Rightarrow> nat) \<Rightarrow> BytecodeModule \<Rightarrow> int list \<Rightarrow> nat list \<Rightarrow> int \<Rightarrow> int option" where
  "maxStackLoop caps m depth [] deepest = Some deepest"
| "maxStackLoop caps m depth (i # work') deepest =
     (if overflows caps m i (depth ! i) then None
      else
        (case flowOf caps m i (depth ! i) of
           FlowUnknown \<Rightarrow> Some 64
         | FlowEnds js \<Rightarrow>
             let (depth'', work'') = fold reach js (depth, work')
             in maxStackLoop caps m depth'' work'' (max deepest (depth ! i))
         | FlowFalls js after \<Rightarrow>
             let (depth'', work'') = reach (i + 1, after) (fold reach js (depth, work'))
             in maxStackLoop caps m depth'' work'' (max (max deepest (depth ! i)) after)))"
  by pat_completeness auto
termination
proof (relation "measure (\<lambda>(caps, m, depth, work, deepest). weight intMax (depth, work))", simp, goal_cases)
  case (1 caps m depth i work' deepest js x depth'' work'')
  have "weight intMax (fold reach js (depth, work')) \<le> weight intMax (depth, work')"
    by (rule fold_reach_weight) (use flowOf_range(1) [OF 1(1,2)] in blast)
  moreover have "fold reach js (depth, work') = (depth'', work'')" using 1(3,4) by simp
  ultimately show ?case by (simp add: weight_def)
next
  case (2 caps m depth i work' deepest js after x depth'' work'')
  have "weight intMax (fold reach js (depth, work')) \<le> weight intMax (depth, work')"
    by (rule fold_reach_weight) (use flowOf_range(2) [OF 2(1,2)] in blast)
  moreover have "weight intMax (reach (i + 1, after) (fold reach js (depth, work'))) \<le>
      weight intMax (fold reach js (depth, work'))"
    by (rule reach_weight) (use flowOf_range(2) [OF 2(1,2)] in auto)
  moreover have "reach (i + 1, after) (fold reach js (depth, work')) = (depth'', work'')" using 2(3,4) by simp
  ultimately show ?case by (simp add: weight_def)
qed

definition computeMaxStack :: "(modptr \<Rightarrow> nat) \<Rightarrow> BytecodeModule \<Rightarrow> nat option" where
  "computeMaxStack caps m =
     (let (depth, work) = reach (0, 0) (replicate (length (code m)) (- 1), [])
      in map_option nat (maxStackLoop caps m depth work 0))"

subsection \<open>Paths\<close>

definition succs :: "(modptr \<Rightarrow> nat) \<Rightarrow> BytecodeModule \<Rightarrow> nat \<Rightarrow> int \<Rightarrow> (nat \<times> int) list" where
  "succs caps m i d =
     (case flowOf caps m i d of
        FlowUnknown \<Rightarrow> [] | FlowEnds js \<Rightarrow> js | FlowFalls js after \<Rightarrow> js @ [(i + 1, after)])"

definition afterOf :: "(modptr \<Rightarrow> nat) \<Rightarrow> BytecodeModule \<Rightarrow> nat \<Rightarrow> int \<Rightarrow> int option" where
  "afterOf caps m i d = (case flowOf caps m i d of FlowFalls js after \<Rightarrow> Some after | _ \<Rightarrow> None)"

text \<open>The depths at which the paths through the code reach each instruction.\<close>

inductive flows :: "(modptr \<Rightarrow> nat) \<Rightarrow> BytecodeModule \<Rightarrow> nat \<Rightarrow> int \<Rightarrow> bool"
  for caps :: "modptr \<Rightarrow> nat" and m :: BytecodeModule where
  flows_start: "0 < length (code m) \<Longrightarrow> flows caps m 0 0"
| flows_step: "flows caps m i d \<Longrightarrow> (j, e) \<in> set (succs caps m i d) \<Longrightarrow> j < length (code m) \<Longrightarrow>
    0 \<le> e \<Longrightarrow> flows caps m j e"

text \<open>The points whose depth counts: an instruction that is reached, and the end of one that falls
  through, which may be the end of the code.\<close>

definition deepAt :: "(modptr \<Rightarrow> nat) \<Rightarrow> BytecodeModule \<Rightarrow> int \<Rightarrow> bool" where
  "deepAt caps m x \<longleftrightarrow>
     x = 0 \<or> (\<exists>i d. flows caps m i d \<and> (x = d \<or> afterOf caps m i d = Some x))"

lemma flows_range: "flows caps m i d \<Longrightarrow> i < length (code m) \<and> 0 \<le> d"
  by (induction rule: flows.induct) auto

text \<open>The depth after an instruction moves with the depth before it.\<close>

lemma succs_shift: "succs caps m i (d + k) = map (\<lambda>(j, e). (j, e + k)) (succs caps m i d)"
  by (auto simp: succs_def flowOf_def Let_def split: option.split)

lemma succs_mono:
  assumes "(j, e) \<in> set (succs caps m i d)" "d \<le> d'"
  shows "(j, e + (d' - d)) \<in> set (succs caps m i d')"
  using assms succs_shift [of caps m i d "d' - d"] by force

lemma afterOf_shift: "afterOf caps m i (d + k) = map_option (\<lambda>e. e + k) (afterOf caps m i d)"
  by (auto simp: afterOf_def flowOf_def Let_def split: option.split)

lemma afterOf_mono:
  "afterOf caps m i d = Some x \<Longrightarrow> d \<le> d' \<Longrightarrow> \<exists>x'. afterOf caps m i d' = Some x' \<and> x \<le> x'"
  using afterOf_shift [of caps m i d "d' - d"] by auto

subsection \<open>The work list\<close>

lemma reach_length [simp]: "length (fst (reach p s)) = length (fst s)"
  by (cases p; cases s) auto

lemma reach_grows: "i < length (fst s) \<Longrightarrow> fst s ! i \<le> fst (reach p s) ! i"
  by (cases p; cases s) (auto simp: nth_list_update)

lemma reach_covers: "j < length (fst s) \<Longrightarrow> 0 \<le> e \<Longrightarrow> e \<le> fst (reach (j, e) s) ! j"
  by (cases s) auto

lemma reach_work:
  "set (snd s) \<subseteq> set (snd (reach p s))"
  "i \<in> set (snd (reach p s)) \<Longrightarrow>
     i \<in> set (snd s) \<or> i = fst p \<and> i < length (fst s) \<and> 0 \<le> snd p \<and> fst (reach p s) ! i = snd p"
  by (cases p; cases s; auto split: if_splits)+

lemma reach_changed:
  "i < length (fst s) \<Longrightarrow> fst (reach p s) ! i \<noteq> fst s ! i \<Longrightarrow>
     i \<in> set (snd (reach p s)) \<and> i = fst p \<and> 0 \<le> snd p \<and> fst (reach p s) ! i = snd p"
  by (cases p; cases s) (auto simp: nth_list_update split: if_splits)

lemma fold_reach_length [simp]: "length (fst (fold reach ts s)) = length (fst s)"
  by (induction ts arbitrary: s) auto

lemma fold_reach_grows: "i < length (fst s) \<Longrightarrow> fst s ! i \<le> fst (fold reach ts s) ! i"
proof (induction ts arbitrary: s)
  case (Cons t ts)
  from Cons.IH [of "reach t s"] reach_grows [of i s t] Cons.prems show ?case by simp
qed simp

lemma fold_reach_covers:
  "(j, e) \<in> set ts \<Longrightarrow> j < length (fst s) \<Longrightarrow> 0 \<le> e \<Longrightarrow> e \<le> fst (fold reach ts s) ! j"
proof (induction ts arbitrary: s)
  case (Cons t ts)
  show ?case
  proof (cases "t = (j, e)")
    case True
    then show ?thesis
      using Cons.prems reach_covers [of j s e] fold_reach_grows [of j "reach t s" ts] by simp
  next
    case False
    then show ?thesis using Cons.IH [of "reach t s"] Cons.prems by simp
  qed
qed simp

lemma fold_reach_kept: "set (snd s) \<subseteq> set (snd (fold reach ts s))"
proof (induction ts arbitrary: s)
  case (Cons t ts)
  then show ?case using reach_work(1) [of s t] by fastforce
qed simp

lemma fold_reach_work:
  "i \<in> set (snd (fold reach ts s)) \<Longrightarrow>
     i \<in> set (snd s) \<or> i < length (fst s) \<and> 0 \<le> fst (fold reach ts s) ! i"
proof (induction ts arbitrary: s)
  case (Cons t ts)
  then have "i \<in> set (snd (reach t s)) \<or> i < length (fst s) \<and> 0 \<le> fst (fold reach (t # ts) s) ! i"
    by fastforce
  then show ?case
    using reach_work(2) [of i t s] fold_reach_grows [of i "reach t s" ts] by force
qed simp

lemma fold_reach_changed:
  "i < length (fst s) \<Longrightarrow> fst (fold reach ts s) ! i \<noteq> fst s ! i \<Longrightarrow>
     i \<in> set (snd (fold reach ts s)) \<and> (i, fst (fold reach ts s) ! i) \<in> set ts \<and>
     0 \<le> fst (fold reach ts s) ! i"
proof (induction ts arbitrary: s)
  case (Cons t ts)
  show ?case
  proof (cases "fst (fold reach ts (reach t s)) ! i = fst (reach t s) ! i")
    case True
    then have "fst (reach t s) ! i \<noteq> fst s ! i" using Cons.prems(2) by simp
    note c = reach_changed [OF Cons.prems(1) this]
    then have "(i, fst (fold reach (t # ts) s) ! i) = t" using True by (cases t) simp
    then show ?thesis using True c fold_reach_kept [of "reach t s" ts] by (cases t) auto
  next
    case False
    with Cons.IH [of "reach t s"] Cons.prems show ?thesis by simp
  qed
qed simp

subsection \<open>The invariant of the loop\<close>

text \<open>An instruction off the work list is accounted for at the depth it is known at.\<close>

definition settled ::
  "(modptr \<Rightarrow> nat) \<Rightarrow> BytecodeModule \<Rightarrow> int list \<Rightarrow> int \<Rightarrow> nat \<Rightarrow> bool" where
  "settled caps m depth deepest i \<longleftrightarrow>
     depth ! i \<le> deepest \<and> \<not> overflows caps m i (depth ! i) \<and> (\<forall>x. afterOf caps m i (depth ! i) = Some x \<longrightarrow> x \<le> deepest) \<and>
     (\<forall>(j, e)\<in>set (succs caps m i (depth ! i)). j < length depth \<longrightarrow> 0 \<le> e \<longrightarrow> e \<le> depth ! j)"

definition loop_inv ::
  "(modptr \<Rightarrow> nat) \<Rightarrow> BytecodeModule \<Rightarrow> int list \<times> nat list \<Rightarrow> int \<Rightarrow> bool" where
  "loop_inv caps m s deepest \<longleftrightarrow>
     length (fst s) = length (code m) \<and>
     (\<forall>i\<in>set (snd s). i < length (code m) \<and> 0 \<le> fst s ! i) \<and>
     (\<forall>i<length (code m). 0 \<le> fst s ! i \<longrightarrow> flows caps m i (fst s ! i)) \<and>
     (0 < length (code m) \<longrightarrow> 0 \<le> fst s ! 0) \<and>
     (\<forall>i<length (code m). 0 \<le> fst s ! i \<longrightarrow> i \<notin> set (snd s) \<longrightarrow> settled caps m (fst s) deepest i) \<and>
     deepAt caps m deepest"

definition deepen :: "(modptr \<Rightarrow> nat) \<Rightarrow> BytecodeModule \<Rightarrow> nat \<Rightarrow> int \<Rightarrow> int \<Rightarrow> int" where
  "deepen caps m i d deepest =
     (case afterOf caps m i d of None \<Rightarrow> max deepest d | Some x \<Rightarrow> max (max deepest d) x)"

lemma settled_mono:
  assumes "settled caps m depth deepest i" "i < length depth" "depth' ! i = depth ! i"
    "length depth' = length depth" "deepest \<le> deepest'"
    "\<And>j. j < length depth \<Longrightarrow> depth ! j \<le> depth' ! j"
  shows "settled caps m depth' deepest' i"
proof -
  have "e \<le> depth' ! j" if "(j, e) \<in> set (succs caps m i (depth ! i))" "j < length depth" "0 \<le> e" for j e
    using assms(1,6) that unfolding settled_def by fastforce
  moreover have "x \<le> deepest'" if "afterOf caps m i (depth ! i) = Some x" for x
    using assms(1,5) that unfolding settled_def by fastforce
  ultimately show ?thesis using assms unfolding settled_def by auto
qed

lemma loop_inv_step:
  assumes inv: "loop_inv caps m (depth, i # work) deepest" and ok: "\<not> overflows caps m i (depth ! i)"
  defines "s' \<equiv> fold reach (succs caps m i (depth ! i)) (depth, work)"
    and "d' \<equiv> deepen caps m i (depth ! i) deepest"
  shows "loop_inv caps m s' d'"
proof -
  let ?n = "length (code m)"
  note I = inv [unfolded loop_inv_def, simplified]
  have i: "i < ?n" "0 \<le> depth ! i" "flows caps m i (depth ! i)" using I by auto
  have len: "length (fst s') = ?n" using I by (simp add: s'_def)
  have grows: "depth ! j \<le> fst s' ! j" if "j < ?n" for j
    using fold_reach_grows [of j "(depth, work)"] that I by (simp add: s'_def)
  have changed: "j \<in> set (snd s') \<and> (j, fst s' ! j) \<in> set (succs caps m i (depth ! i)) \<and> 0 \<le> fst s' ! j"
    if "j < ?n" "fst s' ! j \<noteq> depth ! j" for j
    using fold_reach_changed [of j "(depth, work)"] that I by (simp add: s'_def)
  have w: "j < ?n \<and> 0 \<le> fst s' ! j" if "j \<in> set (snd s')" for j
  proof -
    have "j \<in> set work \<or> j < ?n \<and> 0 \<le> fst s' ! j"
      using fold_reach_work [of j "succs caps m i (depth ! i)" "(depth, work)"] that I by (simp add: s'_def)
    then show ?thesis using I grows [of j] by auto
  qed
  have fl: "flows caps m j (fst s' ! j)" if "j < ?n" "0 \<le> fst s' ! j" for j
    using that I changed [of j] flows_step [OF i(3), of j "fst s' ! j"]
    by (cases "fst s' ! j = depth ! j") auto
  have d': "deepest \<le> d'" "depth ! i \<le> d'" "\<And>x. afterOf caps m i (depth ! i) = Some x \<Longrightarrow> x \<le> d'"
    by (auto simp: d'_def deepen_def split: option.split)
  have deep: "deepAt caps m d'"
  proof -
    have "deepAt caps m deepest" using I by blast
    moreover have "deepAt caps m (depth ! i)" using i(3) unfolding deepAt_def by blast
    moreover have "deepAt caps m x" if "afterOf caps m i (depth ! i) = Some x" for x
      using that i(3) by (auto simp: deepAt_def)
    ultimately show ?thesis by (simp add: d'_def deepen_def max_def split: option.split)
  qed
  have self: "settled caps m (fst s') d' i" if "i \<notin> set (snd s')"
  proof -
    have "fst s' ! i = depth ! i" using that changed i(1) by blast
    moreover have "e \<le> fst s' ! j"
      if "(j, e) \<in> set (succs caps m i (depth ! i))" "j < ?n" "0 \<le> e" for j e
      using fold_reach_covers [of j e _ "(depth, work)"] that I by (simp add: s'_def)
    ultimately show ?thesis using d' len ok by (auto simp: settled_def)
  qed
  have "settled caps m (fst s') d' j" if "j < ?n" "0 \<le> fst s' ! j" "j \<notin> set (snd s')" for j
  proof (cases "j = i")
    case False
    have "j \<notin> set work" using that(3) fold_reach_kept [of "(depth, work)"] by (auto simp: s'_def)
    moreover have "fst s' ! j = depth ! j" using changed that by blast
    ultimately show ?thesis
      using I that False len d'(1) grows settled_mono [of caps m depth deepest j "fst s'" d'] by auto
  qed (use self that in simp)
  then show ?thesis
    unfolding loop_inv_def using len w fl deep I grows [of 0] by (auto intro: order_trans)
qed

lemma maxStackLoop_step:
  assumes "instrOp (code m ! i) \<noteq> None"
  shows "maxStackLoop caps m depth (i # work) deepest =
    (if overflows caps m i (depth ! i) then None
     else let (depth', work') = fold reach (succs caps m i (depth ! i)) (depth, work)
       in maxStackLoop caps m depth' work' (deepen caps m i (depth ! i) deepest))"
proof -
  obtain op where "instrOp (code m ! i) = Some op" using assms by blast
  then have "flowOf caps m i (depth ! i) \<noteq> FlowUnknown" by (simp add: flowOf_def Let_def)
  then show ?thesis
    by (auto simp: succs_def deepen_def afterOf_def Let_def split: flow.split prod.split)
qed

declare maxStackLoop.simps(2) [simp del]

lemma succs_range: "\<not> overflows caps m i d \<Longrightarrow> (j, e) \<in> set (succs caps m i d) \<Longrightarrow> e \<le> intMax"
  using flowOf_range [of caps m i d] by (auto simp: succs_def split: flow.splits)

text \<open>The loop ends at a list that accounts for every instruction it reached, unless a path overflows.\<close>

lemma maxStackLoop_ends:
  assumes "loop_inv caps m s deepest" "\<And>w. w \<in> set (code m) \<Longrightarrow> instrOp w \<noteq> None"
  shows "case maxStackLoop caps m (fst s) (snd s) deepest of
      None \<Rightarrow> \<exists>i d. flows caps m i d \<and> overflows caps m i d
    | Some r \<Rightarrow> \<exists>depth. loop_inv caps m (depth, []) r"
  using assms(1)
proof (induction "weight intMax s" arbitrary: s deepest rule: less_induct)
  case less
  obtain depth work where s: "s = (depth, work)" by (cases s)
  show ?case
  proof (cases work)
    case Nil
    then show ?thesis using less.prems by (auto simp: s)
  next
    case (Cons i work')
    let ?s = "fold reach (succs caps m i (depth ! i)) (depth, work')"
    have i: "i < length (code m)" "flows caps m i (depth ! i)"
      using less.prems by (auto simp: s Cons loop_inv_def)
    note step = maxStackLoop_step [OF assms(2) [OF nth_mem [OF i(1)]], of caps depth work' deepest]
    show ?thesis
    proof (cases "overflows caps m i (depth ! i)")
      case True
      with i(2) show ?thesis by (auto simp: s Cons step)
    next
      case False
      have "weight intMax ?s \<le> weight intMax (depth, work')"
        by (rule fold_reach_weight) (use succs_range [OF False] in blast)
      also have "\<dots> < weight intMax s" by (simp add: s Cons weight_def)
      finally have "weight intMax ?s < weight intMax s" .
      from less.hyps [OF this loop_inv_step [OF less.prems [unfolded s Cons] False]]
      show ?thesis using False by (simp add: s Cons step case_prod_beta)
    qed
  qed
qed

lemma loop_inv_final:
  assumes "loop_inv caps m (depth, []) r"
  shows "flows caps m i d \<Longrightarrow> d \<le> depth ! i \<and> depth ! i \<le> r"
proof (induction rule: flows.induct)
  case flows_start
  then show ?case using assms by (auto simp: loop_inv_def settled_def)
next
  case (flows_step i d j e)
  note I = assms [unfolded loop_inv_def, simplified]
  have i: "i < length (code m)" "0 \<le> depth ! i"
    using flows_range [OF flows_step.hyps(1)] flows_step.IH by auto
  let ?e = "e + (depth ! i - d)"
  have "(j, ?e) \<in> set (succs caps m i (depth ! i))"
    using succs_mono [OF flows_step.hyps(2)] flows_step.IH by simp
  moreover have "settled caps m depth r i" using I i by simp
  ultimately have "?e \<le> depth ! j"
    using I flows_step.hyps flows_step.IH unfolding settled_def by fastforce
  then have "e \<le> depth ! j" "0 \<le> depth ! j" using flows_step.IH flows_step.hyps(4) by auto
  then show ?case using I flows_step.hyps(3) by (simp add: settled_def)
qed

lemma loop_inv_deepest:
  assumes "loop_inv caps m (depth, []) r" "deepAt caps m x"
  shows "x \<le> r"
proof -
  note I = assms(1) [unfolded loop_inv_def, simplified]
  have ge: "0 \<le> r" 
  proof (cases "0 < length (code m)")
    case True
    then show ?thesis using loop_inv_final [OF assms(1) flows_start] I by auto
  next
    case False
    then have "\<not> flows caps m i d" for i d using flows_range [of caps m i d] by auto
    then show ?thesis using I by (simp add: deepAt_def)
  qed
  have "x \<le> r" if f: "flows caps m i d" "afterOf caps m i d = Some x" for i d
  proof -
    have i: "i < length (code m)" "0 \<le> depth ! i" "d \<le> depth ! i"
      using flows_range [OF f(1)] loop_inv_final [OF assms(1) f(1)] by auto
    then have "settled caps m depth r i" using I by simp
    with afterOf_mono [OF f(2) i(3)] show ?thesis by (auto simp: settled_def)
  qed
  with ge loop_inv_final [OF assms(1)] assms(2) show ?thesis unfolding deepAt_def by fastforce
qed

lemma loop_inv_init: "loop_inv caps m (reach (0, 0) (replicate (length (code m)) (- 1), [])) 0"
  by (auto simp: loop_inv_def deepAt_def nth_list_update flows_start)

lemma overflows_mono: "overflows caps m i d \<Longrightarrow> d \<le> d' \<Longrightarrow> overflows caps m i d'"
  by (auto simp: overflows_def)

lemma computeMaxStack_cases:
  assumes "\<And>w. w \<in> set (code m) \<Longrightarrow> instrOp w \<noteq> None"
  shows "case computeMaxStack caps m of
      None \<Rightarrow> \<exists>i d. flows caps m i d \<and> overflows caps m i d
    | Some r \<Rightarrow> \<not> (\<exists>i d. flows caps m i d \<and> overflows caps m i d) \<and> deepAt caps m (int r) \<and>
        (\<forall>x. deepAt caps m x \<longrightarrow> x \<le> int r)"
proof -
  let ?s = "reach (0, 0) (replicate (length (code m)) (- 1), [])"
  have eq: "computeMaxStack caps m = map_option nat (maxStackLoop caps m (fst ?s) (snd ?s) 0)"
    by (simp only: computeMaxStack_def Let_def case_prod_beta)
  note ends = maxStackLoop_ends [OF loop_inv_init [of caps m] assms]
  show ?thesis
  proof (cases "maxStackLoop caps m (fst ?s) (snd ?s) 0")
    case None
    with ends eq show ?thesis by (simp del: reach.simps)
  next
    case (Some r)
    obtain depth where r: "loop_inv caps m (depth, []) r" using ends by (auto simp: Some simp del: reach.simps)
    have "\<not> overflows caps m i d" if f: "flows caps m i d" for i d
    proof -
      have i: "i < length (code m)" "d \<le> depth ! i" "0 \<le> depth ! i"
        using flows_range [OF f] loop_inv_final [OF r f] by auto
      then have "settled caps m depth r i" using r by (simp add: loop_inv_def)
      with overflows_mono [OF _ i(2)] show ?thesis by (auto simp: settled_def)
    qed
    moreover have "deepAt caps m r" using r by (simp add: loop_inv_def)
    moreover have "0 \<le> r" using loop_inv_deepest [OF r, of 0] by (simp add: deepAt_def)
    ultimately show ?thesis using loop_inv_deepest [OF r] by (auto simp: eq Some simp del: reach.simps)
  qed
qed

lemma computeMaxStack_bounds:
  assumes "computeMaxStack caps m = Some r" "\<And>w. w \<in> set (code m) \<Longrightarrow> instrOp w \<noteq> None"
  shows "deepAt caps m x \<Longrightarrow> x \<le> int r" "flows caps m i d \<Longrightarrow> d \<le> int r"
proof -
  show deep: "x \<le> int r" if "deepAt caps m x" for x
    using computeMaxStack_cases [of m caps] assms that by auto
  show "d \<le> int r" if "flows caps m i d" using deep [of d] that by (auto simp: deepAt_def)
qed

section \<open>Properties\<close>

text \<open>Emitting: an operand beyond 24 bits is refused, and otherwise the new instruction stands last,
  decodes to its opcode and its exact operand, and leaves the code before it as it was; a
  \<open>TRY_BEGIN\<close> marks the module as having handlers.\<close>

theorem emit_decodes:
  "if n > kMaxOperand then \<exists>msg. emit op n m = Inl (LengthError msg)
   else \<exists>w. emit op n m = Inr (length (code m), m\<lparr>code := code m @ [w],
               hasHandlers := hasHandlers m \<or> op = TRY_BEGIN\<rparr>) \<and>
             instrOp w = Some op \<and> instrOperand w = n"
  using instr_decode [of n op] by (auto simp: emit_eq checkedOperand_def)

text \<open>Back-patching: patching the operand of an emitted instruction with a value of at most 24 bits
  succeeds, sets that operand, and changes no opcode and no other instruction; patching an
  instruction that was never emitted is refused.\<close>

theorem patchOperand_spec:
  "(at \<ge> length (code m) \<longrightarrow> (\<exists>msg. patchOperand at n m = Inl (OutOfRange msg))) \<and>
   (at < length (code m) \<and> n \<le> kMaxOperand \<longrightarrow>
     (\<exists>m'. patchOperand at n m = Inr m' \<and> map instrOp (code m') = map instrOp (code m) \<and>
       map instrOperand (code m') = (map instrOperand (code m))[at := n] \<and>
       (\<forall>j. j \<noteq> at \<longrightarrow> code m' ! j = code m ! j)))"
proof -
  have "map instrOp ((code m)[at := push_bit kOperandShift (word_of_nat n) OR (code m ! at AND 0xFF)])
      = map instrOp (code m)" if "at < length (code m)" "n \<le> kMaxOperand"
    using that by (simp add: map_update patch_operand_word list_update_same_conv)
  then show ?thesis
    by (auto simp: patchOperand_eq map_update patch_operand_word) (simp add: patchOperand_def)
qed

theorem patchOperand_spec_witness:
  "\<exists>m'. patchOperand 0 7 (emptyModule\<lparr>code := [encodeInstr JUMP 0]\<rparr>) = Inr m' \<and>
     map instrOperand (code m') = [7]"
  using patchOperand_spec [of "emptyModule\<lparr>code := [encodeInstr JUMP 0]\<rparr>" 0 7]
  by (auto simp: kMaxOperand_def)

text \<open>C34. The module invariant: in every module the compiler can build, the constant pool holds each
  constant once, each of the seven indices answers exactly the position of the constant a key stands
  for, every instruction has an opcode of the set, and a module with a \<open>TRY_BEGIN\<close> is marked as having
  handlers.\<close>

theorem module_invariant:
  assumes "built isym inam m"
  shows "distinct (pool m) \<and> pool_ok isym inam m \<and> code_ok m"
  using built_pool_ok [OF assms] built_code_ok [OF assms] pool_ok_distinct by blast

theorem module_invariant_witness:
  "distinct (pool (snd (addLong 1 (snd (addString ''a'' (snd (addLong 1 emptyModule)))))))"
  using module_invariant [OF built_addLong [OF built_addString [OF built_addLong
      [OF built_empty [of "\<lambda>_. 0" "\<lambda>_. 0"]]]]] by blast

text \<open>Adding a constant: the index answered holds that constant, no constant already in the pool
  moves, and adding it again answers the same index and changes nothing.\<close>

theorem addString_spec:
  assumes "pool_ok isym inam m"
  shows "pool (snd (addString s m)) ! fst (addString s m) = mkString s \<and>
    (\<exists>cs. pool (snd (addString s m)) = pool m @ cs) \<and>
    addString s (snd (addString s m)) = (fst (addString s m), snd (addString s m))"
  using strings.add_stored [OF pool_ok_indexed(4) [OF assms]] strings.add_keeps
    strings.add_again [OF pool_ok_indexed(4) [OF assms]] by blast

theorem addString_spec_witness:
  "addString ''a'' (snd (addString ''a'' emptyModule)) = (0, snd (addString ''a'' emptyModule))"
  using addString_spec [OF built_pool_ok [OF built_empty [of "\<lambda>_. 0" "\<lambda>_. 0"]], of "''a''"]
  by (simp add: addString_def findOrAdd_def emptyModule_def)

text \<open>C10. The operand-stack analysis is exact: on a body of known opcodes, \<^verbatim>\<open>computeMaxStack\<close> ends. When
  every path through the body keeps its depth in the range of \<^verbatim>\<open>int\<close>, the answer is the depth of some point
  of some path and at least the depth of every point of every path; a path that leaves the range leaves it
  undefined.\<close>

theorem maxStack_exact:
  assumes "\<forall>w\<in>set (code m). instrOp w \<noteq> None"
  shows "if \<exists>i d. flows caps m i d \<and> overflows caps m i d then computeMaxStack caps m = None
    else \<exists>r. computeMaxStack caps m = Some r \<and> deepAt caps m (int r) \<and>
      (\<forall>x. deepAt caps m x \<longrightarrow> x \<le> int r)"
  using computeMaxStack_cases [of m caps] assms by (auto split: option.splits)

lemma decode_zero [simp]:
  "instrOp (encodeInstr op 0) = Some op" "instrOperand (encodeInstr op 0) = 0"
  using instr_decode [of 0 op] by simp_all

theorem maxStack_exact_witness:
  "\<exists>r. computeMaxStack (\<lambda>_. 0) (emptyModule\<lparr>code := [encodeInstr PUSH_NIL 0, encodeInstr RETURN 0]\<rparr>) = Some r \<and>
     1 \<le> r"
proof -
  let ?m = "emptyModule\<lparr>code := [encodeInstr PUSH_NIL 0, encodeInstr RETURN 0]\<rparr>"
  have b: "(i, d) \<in> {(0, 0), (1, 1)}" if "flows (\<lambda>_. 0) ?m i d" for i d
    using that by (induction rule: flows.induct) (auto simp: succs_def flowOf_def)
  have f: "flows (\<lambda>_. 0) ?m 0 0" by (rule flows_start) simp
  have deep: "deepAt (\<lambda>_. 0) ?m 1"
    unfolding deepAt_def using f by (intro disjI2 exI [of _ 0]) (simp add: afterOf_def flowOf_def)
  have "\<not> overflows (\<lambda>_. 0) ?m i d" if "flows (\<lambda>_. 0) ?m i d" for i d
    using b [OF that] by (auto simp: overflows_def raises_def capturesAt_def intMax_def)
  then have "\<not> (\<exists>i d. flows (\<lambda>_. 0) ?m i d \<and> overflows (\<lambda>_. 0) ?m i d)" by blast
  moreover have "\<forall>w\<in>set (code ?m). instrOp w \<noteq> None" by simp
  ultimately obtain r where "computeMaxStack (\<lambda>_. 0) ?m = Some r" "\<forall>x. deepAt (\<lambda>_. 0) ?m x \<longrightarrow> x \<le> int r"
    using maxStack_exact [of ?m "\<lambda>_. 0"] by (simp only: if_False) blast
  with deep show ?thesis by fastforce
qed

end
