(* ===== verification/SmallInt.thy ===== *)
theory SmallInt
  imports Prelude "HOL-Library.Word"
begin

text \<open>
  Tagged small integers and the fast path of the arithmetic opcodes (src/runtime/ExecutionEngine.cpp:
  \<^verbatim>\<open>isSmallIntFast\<close>, \<^verbatim>\<open>smallIntValueFast\<close>, \<^verbatim>\<open>smallIntFromLong\<close>, \<^verbatim>\<open>smallIntFitsLong\<close> and the cases \<^verbatim>\<open>ADD\<close> to
  \<^verbatim>\<open>EQ\<close> of the dispatch loop). A value is a 64-bit pointer; a small integer holds its value in the
  upper 54 bits and a tag in the lower ten. C++'s \<^verbatim>\<open>long long\<close> is a 64-bit word read as signed, so
  the wrap-around of the machine is in the model.

  The lemmas show that tagging and untagging are inverse on the range the code checks, and that the
  inlined arithmetic is exact: whenever an opcode answers without calling protoCore, its answer is
  the mathematical result, never a wrapped one.
\<close>

section \<open>Tagging\<close>

type_synonym val = "64 word"

definition kSmallIntTagMask :: val where
  "kSmallIntTagMask = 0x3FF"

definition kSmallIntTagValue :: val where
  "kSmallIntTagValue = 0x001"

definition isSmallIntFast :: "val \<Rightarrow> bool" where
  "isSmallIntFast v \<longleftrightarrow> v AND kSmallIntTagMask = kSmallIntTagValue"

text \<open>The arithmetic right shift of a signed 64-bit integer.\<close>

definition smallIntValueFast :: "val \<Rightarrow> 64 word" where
  "smallIntValueFast v = signed_drop_bit 10 v"

definition smallIntFromLong :: "64 word \<Rightarrow> val" where
  "smallIntFromLong v = push_bit 10 v OR kSmallIntTagValue"

definition smallIntFitsLong :: "64 word \<Rightarrow> bool" where
  "smallIntFitsLong v \<longleftrightarrow> - (2 ^ 53) \<le> sint v \<and> sint v \<le> 2 ^ 53 - 1"

section \<open>The fast path\<close>

datatype arith = ArAdd | ArSub | ArMul

datatype order = OrdLt | OrdLe | OrdGt | OrdGe | OrdEq

text \<open>The inlined arithmetic: \<open>Some\<close> the tagged result, or \<open>None\<close> when the code calls protoCore's
  promoting operation instead.\<close>

definition fastArith :: "arith \<Rightarrow> val \<Rightarrow> val \<Rightarrow> val option" where
  "fastArith op a b =
     (let av = smallIntValueFast a;
          bv = smallIntValueFast b;
          fits = (\<lambda>s. if smallIntFitsLong s then Some (smallIntFromLong s) else None)
      in case op of
           ArAdd \<Rightarrow> fits (av + bv)
         | ArSub \<Rightarrow> fits (av - bv)
         | ArMul \<Rightarrow>
             if sint av \<le> - (2 ^ 26) \<or> sint av \<ge> 2 ^ 26 \<or> sint bv \<le> - (2 ^ 26) \<or> sint bv \<ge> 2 ^ 26
             then None
             else fits (av * bv))"

definition fastOrder :: "order \<Rightarrow> val \<Rightarrow> val \<Rightarrow> bool" where
  "fastOrder op a b =
     (let av = sint (smallIntValueFast a); bv = sint (smallIntValueFast b) in
      case op of
        OrdLt \<Rightarrow> av < bv | OrdLe \<Rightarrow> av \<le> bv | OrdGt \<Rightarrow> av > bv | OrdGe \<Rightarrow> av \<ge> bv | OrdEq \<Rightarrow> av = bv)"

section \<open>Lemmas\<close>

text \<open>The integer a tagged pointer stands for.\<close>

definition smallInt :: "val \<Rightarrow> int" where
  "smallInt v = sint (smallIntValueFast v)"

definition small_range :: "int \<Rightarrow> bool" where
  "small_range i \<longleftrightarrow> - (2 ^ 53) \<le> i \<and> i < 2 ^ 53"

fun arithInt :: "arith \<Rightarrow> int \<Rightarrow> int \<Rightarrow> int" where
  "arithInt ArAdd x y = x + y"
| "arithInt ArSub x y = x - y"
| "arithInt ArMul x y = x * y"

lemma smallInt_eq: "smallInt v = sint v div 1024"
  by (simp add: smallInt_def smallIntValueFast_def sint_signed_drop_bit_eq drop_bit_eq_div)

lemma smallInt_range: "small_range (smallInt v)"
proof -
  have "- (2 ^ 63) \<le> sint v" "sint v < 2 ^ 63" using sint_range_size [of v] by (simp_all add: word_size)
  moreover have "sint v = sint v div 1024 * 1024 + sint v mod 1024" by simp
  moreover have "0 \<le> sint v mod 1024" "sint v mod 1024 < 1024" by simp_all
  ultimately show ?thesis unfolding smallInt_eq small_range_def by simp linarith
qed

lemma sint_exact: "- (2 ^ 63) \<le> i \<Longrightarrow> i < 2 ^ 63 \<Longrightarrow> sint (word_of_int i :: 64 word) = i"
  by (simp add: sint_sbintrunc' signed_take_bit_int_eq_self)

lemma sint_from_small:
  assumes "small_range i"
  shows "sint (smallIntFromLong (word_of_int i)) = i * 1024 + 1"
    and "isSmallIntFast (smallIntFromLong (word_of_int i))"
proof -
  have "push_bit 10 (word_of_int i) OR (1 :: 64 word) = word_of_int (i * 1024 + 1)"
  proof -
    have "push_bit 10 (i::int) OR 1 = i * 1024 + 1"
    proof -
      have "push_bit 10 i AND 1 = 0" by (simp add: push_bit_eq_mult and_one_eq)
      then show ?thesis by (simp add: disjunctive_add_eq_or [symmetric] push_bit_eq_mult)
    qed
    then have "word_of_int (push_bit 10 i OR 1) = (word_of_int (i * 1024 + 1) :: 64 word)" by simp
    moreover have "word_of_int (push_bit 10 i OR 1) = push_bit 10 (word_of_int i) OR (1 :: 64 word)"
      by (rule bit_eqI) (auto simp: bit_simps)
    ultimately show ?thesis by simp
  qed
  then have w: "smallIntFromLong (word_of_int i) = word_of_int (i * 1024 + 1)"
    by (simp add: smallIntFromLong_def kSmallIntTagValue_def)
  show "sint (smallIntFromLong (word_of_int i)) = i * 1024 + 1"
    unfolding w by (rule sint_exact) (use assms in \<open>simp_all add: small_range_def\<close>)
  show "isSmallIntFast (smallIntFromLong (word_of_int i))"
  proof -
    have "take_bit 10 (word_of_int k :: 64 word) = word_of_int (take_bit 10 k)" for k
      by (rule bit_eqI) (auto simp: bit_simps)
    then have "take_bit 10 (word_of_int (i * 1024 + 1) :: 64 word) = word_of_int (take_bit 10 (i * 1024 + 1))" .
    also have "take_bit 10 (i * 1024 + 1) = 1" by (simp add: take_bit_eq_mod)
    finally have "take_bit 10 (word_of_int (i * 1024 + 1) :: 64 word) = 1" by simp
    moreover have "(0x3FF :: 64 word) = mask 10" by (simp add: mask_eq_exp_minus_1)
    ultimately show ?thesis
      unfolding w isSmallIntFast_def kSmallIntTagMask_def kSmallIntTagValue_def
      by (simp add: take_bit_eq_mask)
  qed
qed

lemma smallInt_tag: "small_range i \<Longrightarrow> smallInt (smallIntFromLong (word_of_int i)) = i"
  by (simp add: smallInt_eq sint_from_small(1))

text \<open>A 64-bit result that was computed exactly, tagged when it fits.\<close>

lemma fits_exact:
  assumes "sint s = i"
  shows "smallIntFitsLong s \<longleftrightarrow> small_range i"
    and "small_range i \<Longrightarrow> isSmallIntFast (smallIntFromLong s) \<and> smallInt (smallIntFromLong s) = i"
proof -
  have s: "s = word_of_int i" using assms by auto
  show "smallIntFitsLong s \<longleftrightarrow> small_range i"
    using assms by (auto simp: smallIntFitsLong_def small_range_def)
  show "small_range i \<Longrightarrow> isSmallIntFast (smallIntFromLong s) \<and> smallInt (smallIntFromLong s) = i"
    unfolding s by (simp add: sint_from_small(2) smallInt_tag)
qed

lemma sint_add_exact: "small_range (sint a) \<Longrightarrow> small_range (sint b) \<Longrightarrow> sint (a + b) = sint a + sint (b :: 64 word)"
  using sint_exact [of "sint a + sint b"] by (simp add: small_range_def)

lemma sint_sub_exact: "small_range (sint a) \<Longrightarrow> small_range (sint b) \<Longrightarrow> sint (a - b) = sint a - sint (b :: 64 word)"
  using sint_exact [of "sint a - sint b"] by (simp add: small_range_def)

lemma half_product:
  assumes "- (2 ^ 26) < x" "x < 2 ^ 26" "- (2 ^ 26) < y" "y < (2 ^ 26 :: int)"
  shows "\<bar>x * y\<bar> < 2 ^ 52"
proof -
  have "\<bar>x * y\<bar> \<le> (2 ^ 26 - 1) * (2 ^ 26 - 1)"
    unfolding abs_mult using assms by (intro mult_mono) auto
  then show ?thesis by simp
qed

lemma sint_mul_exact:
  assumes "\<bar>sint a * sint b\<bar> < 2 ^ 52"
  shows "sint (a * b) = sint a * sint (b :: 64 word)"
  using sint_exact [of "sint a * sint b"] assms by simp

section \<open>Properties\<close>

text \<open>C28. The inlined integer arithmetic is exact: when an arithmetic opcode answers on its fast path,
  the answer is a tagged small integer whose value is the mathematical sum, difference or product of
  the operands, so no result ever wraps around; it declines only when the exact result is no small
  integer, or for a product with an operand of magnitude \<open>2 ^ 26\<close> or more.\<close>

theorem fastArith_exact:
  "(fastArith op a b = Some r \<longrightarrow>
      isSmallIntFast r \<and> smallInt r = arithInt op (smallInt a) (smallInt b)) \<and>
   (fastArith op a b = None \<longrightarrow>
      \<not> small_range (arithInt op (smallInt a) (smallInt b)) \<or>
      op = ArMul \<and> (\<bar>smallInt a\<bar> \<ge> 2 ^ 26 \<or> \<bar>smallInt b\<bar> \<ge> 2 ^ 26))"
proof -
  let ?a = "smallIntValueFast a" and ?b = "smallIntValueFast b"
  have r: "small_range (sint ?a)" "small_range (sint ?b)"
    using smallInt_range [of a] smallInt_range [of b] by (simp_all add: smallInt_def)
  show ?thesis
  proof (cases op)
    case ArAdd
    then show ?thesis
      using fits_exact [OF sint_add_exact [OF r]] by (auto simp: fastArith_def smallInt_def split: if_splits)
  next
    case ArSub
    then show ?thesis
      using fits_exact [OF sint_sub_exact [OF r]] by (auto simp: fastArith_def smallInt_def split: if_splits)
  next
    case ArMul
    show ?thesis
    proof (cases "\<bar>smallInt a\<bar> < 2 ^ 26 \<and> \<bar>smallInt b\<bar> < 2 ^ 26")
      case True
      then have "\<bar>sint ?a * sint ?b\<bar> < 2 ^ 52" by (intro half_product) (auto simp: smallInt_def)
      from fits_exact [OF sint_mul_exact [OF this]] show ?thesis
        using True ArMul by (auto simp: fastArith_def smallInt_def Let_def split: if_splits)
    next
      case False
      then show ?thesis using ArMul by (auto simp: fastArith_def smallInt_def Let_def)
    qed
  qed
qed

theorem fastArith_exact_witness:
  "fastArith ArAdd (smallIntFromLong (word_of_int 2)) (smallIntFromLong (word_of_int 3)) =
     Some (smallIntFromLong (word_of_int 5)) \<and> smallInt (smallIntFromLong (word_of_int 5)) = 5"
proof -
  let ?two = "smallIntFromLong (word_of_int 2)" and ?three = "smallIntFromLong (word_of_int 3)"
  have sum: "fastArith ArAdd ?two ?three = Some (smallIntFromLong (word_of_int 5))"
    by (simp add: fastArith_def smallIntFromLong_def smallIntValueFast_def smallIntFitsLong_def kSmallIntTagValue_def)
  then have "smallInt (smallIntFromLong (word_of_int 5)) = arithInt ArAdd (smallInt ?two) (smallInt ?three)"
    using fastArith_exact by blast
  then show ?thesis using sum smallInt_tag [of 2] smallInt_tag [of 3] by (simp add: small_range_def)
qed

end
