(* ===== verification/VM.thy ===== *)
theory VM
  imports Bytecode SmallInt
begin

text \<open>
  The execution engine (src/runtime/ExecutionEngine.cpp): calls, frames, the dispatch loop with every
  opcode, and exception handlers.

  A value is a 64-bit pointer (\<^verbatim>\<open>const ProtoObject*\<close>). The objects behind the pointers belong to
  protoCore and to the primitives, which the engine only calls: the record \<open>kernel\<close> holds those
  functions, acting on a \<open>world\<close> whose heap is opaque, and every definition takes it as an argument.
  The one piece of process-wide state of the engine itself, the set of redefined operators, is a
  field of the world.

  A frame has its local slots, its operand stack (top first; its capacity is \<open>cap\<close>), the position of
  the next instruction, the active handlers (innermost first) and the exceptions its catch slots
  hold. An action on a frame answers a value, raises a C++ exception, or meets one of two outcomes
  the source has no branch for: \<open>Fault\<close>, a read or write outside the slots the frame owns (a push
  beyond the capacity, a local beyond the locals), and \<open>NoFuel\<close>, a nested call that was not run to
  its end. A nested call is an argument \<open>call\<close> of the dispatch loop; \<open>execute\<close> closes the recursion
  with fuel.

  The lemmas show that no instruction of a well-formed body faults: the stack never passes the
  capacity \<^verbatim>\<open>computeMaxStack\<close> gives it, although no push tests it; that an exception resumes at the
  innermost handler with the stack cut back to it; that a rethrow raises the very exception caught;
  and which calls the arity rules accept.
\<close>

section \<open>Values, exceptions and the kernel\<close>

text \<open>A C++ exception: a \<^verbatim>\<open>ProtoException\<close> with its value and whatever its runtime subclass adds, or
  another \<^verbatim>\<open>std::exception\<close> with its \<^verbatim>\<open>what()\<close>.\<close>

datatype exn = ProtoException val string | StdException string

record 'h world =
  heap :: 'h
  coreOperatorRedefined :: "32 word"

type_synonym ('h, 'a) native = "'h world \<Rightarrow> (exn + 'a) \<times> 'h world"

text \<open>One entry of a multi-arity function's \<^verbatim>\<open>__arities__\<close>.\<close>

record AritySpec =
  specArity :: int
  specModule :: modptr
  specVariadic :: bool
  specCaptures :: val

text \<open>What the engine calls: constants and queries of protoCore, and the functions of the runtime's
  other parts (maps, sets, vectors, primitives, exception values).\<close>

record 'h kernel =
  PROTO_NONE :: val
  PROTO_TRUE :: val
  PROTO_FALSE :: val
  fnSingleProto :: val
  fnMultiProto :: val
  namedMarker :: val
  setProto :: val
  moduleAt :: "modptr \<Rightarrow> BytecodeModule"
  getPrototype :: "'h \<Rightarrow> val \<Rightarrow> val"
  bytecodeOf :: "'h \<Rightarrow> val \<Rightarrow> modptr option"
  capturesOf :: "'h \<Rightarrow> val \<Rightarrow> val"
  aritiesOf :: "'h \<Rightarrow> val \<Rightarrow> AritySpec list"
  newListK :: "val list \<Rightarrow> ('h, val) native"
  newFn :: "modptr \<Rightarrow> val option \<Rightarrow> ('h, val) native"
  newMultiFn :: "AritySpec list \<Rightarrow> ('h, val) native"
  listElems :: "'h \<Rightarrow> val \<Rightarrow> val list option"
  listFromArray :: "val list \<Rightarrow> ('h, val) native"
  spreadItems :: "val \<Rightarrow> ('h, val list option) native"
  isMapK :: "'h \<Rightarrow> val \<Rightarrow> bool"
  isSetK :: "'h \<Rightarrow> val \<Rightarrow> bool"
  isVectorK :: "'h \<Rightarrow> val \<Rightarrow> bool"
  mapGetK :: "val \<Rightarrow> val \<Rightarrow> ('h, val option) native"
  setGetK :: "val \<Rightarrow> val \<Rightarrow> ('h, val option) native"
  mapAssocPairsK :: "val option \<Rightarrow> val list \<Rightarrow> ('h, val) native"
  vectorItemsK :: "'h \<Rightarrow> val \<Rightarrow> val list"
  isIntegerK :: "'h \<Rightarrow> val \<Rightarrow> bool"
  asLongK :: "'h \<Rightarrow> val \<Rightarrow> int"
  isMethodK :: "'h \<Rightarrow> val \<Rightarrow> bool"
  asMethodSelf :: "'h \<Rightarrow> val \<Rightarrow> val"
  callMethod :: "val \<Rightarrow> val \<Rightarrow> val list \<Rightarrow> ('h, val) native"
  fastPrimitiveCall :: "val \<Rightarrow> val list \<Rightarrow> bool \<Rightarrow> ('h, val option) native"
  namedSpelling :: "'h \<Rightarrow> val \<Rightarrow> string"
  createSymbol :: "string \<Rightarrow> obj"
  getGlobal :: "'h \<Rightarrow> obj \<Rightarrow> val option"
  setGlobal :: "obj \<Rightarrow> val \<Rightarrow> 'h \<Rightarrow> 'h"
  getAttribute :: "'h \<Rightarrow> val \<Rightarrow> obj \<Rightarrow> val option"
  hasAttribute :: "'h \<Rightarrow> val \<Rightarrow> obj \<Rightarrow> bool"
  arithK :: "arith \<Rightarrow> val \<Rightarrow> val \<Rightarrow> ('h, val) native"
  partialCompareK :: "'h \<Rightarrow> val \<Rightarrow> val \<Rightarrow> int option"
  isNumberK :: "'h \<Rightarrow> val \<Rightarrow> bool"
  valuesEqualK :: "val \<Rightarrow> val \<Rightarrow> ('h, bool) native"
  notANumberK :: "string \<Rightarrow> val \<Rightarrow> 'h world \<Rightarrow> exn \<times> 'h world"
  errorK :: "string \<Rightarrow> 'h world \<Rightarrow> exn \<times> 'h world"
  classedK :: "string \<Rightarrow> string \<Rightarrow> 'h world \<Rightarrow> exn \<times> 'h world"
  throwExceptionK :: "val \<Rightarrow> 'h world \<Rightarrow> exn \<times> 'h world"
  fromErrorK :: "string \<Rightarrow> 'h world \<Rightarrow> val \<times> 'h world"
  isThrowableK :: "'h \<Rightarrow> val \<Rightarrow> bool"
  isExceptionK :: "'h \<Rightarrow> val \<Rightarrow> bool"
  isForeignObjectK :: "'h \<Rightarrow> val \<Rightarrow> bool"
  valueTypeNameK :: "'h \<Rightarrow> val \<Rightarrow> string"
  valueIsInstanceOfK :: "'h \<Rightarrow> val \<Rightarrow> val \<Rightarrow> bool"
  exceptionMatchesK :: "'h \<Rightarrow> val \<Rightarrow> nat \<Rightarrow> bool"
  fromLongK :: "int \<Rightarrow> ('h, val) native"
  fromDoubleK :: "64 word \<Rightarrow> ('h, val) native"
  fromUtf8K :: "string \<Rightarrow> ('h, val) native"
  fromDigitsK :: "string \<Rightarrow> ('h, val) native"
  objVal :: "obj \<Rightarrow> val"

section \<open>Frames and actions\<close>

record 'h vm =
  locals :: "val list"
  stack :: "val list"
  cap :: nat
  ip :: nat
  handlers :: "(nat \<times> nat) list"
  caught :: "exn option list"
  justCaught :: "exn option"
  dline :: nat
  world :: "'h world"

datatype 'a res = Ok 'a | Raise exn | Fault | NoFuel

type_synonym ('h, 'a) act = "'h vm \<Rightarrow> 'a res \<times> 'h vm"

definition retA :: "'a \<Rightarrow> ('h, 'a) act" where
  "retA a s = (Ok a, s)"

definition bindA :: "('h, 'a) act \<Rightarrow> ('a \<Rightarrow> ('h, 'b) act) \<Rightarrow> ('h, 'b) act" where
  "bindA m f s =
     (case m s of
        (Ok a, s') \<Rightarrow> f a s'
      | (Raise e, s') \<Rightarrow> (Raise e, s')
      | (Fault, s') \<Rightarrow> (Fault, s')
      | (NoFuel, s') \<Rightarrow> (NoFuel, s'))"

abbreviation thenA :: "('h, 'a) act \<Rightarrow> ('h, 'b) act \<Rightarrow> ('h, 'b) act" where
  "thenA m n \<equiv> bindA m (\<lambda>_. n)"

text \<open>A native function run by the frame, and a raise.\<close>

definition nativeA :: "('h, 'a) native \<Rightarrow> ('h, 'a) act" where
  "nativeA f s =
     (case f (world s) of
        (Inl e, w) \<Rightarrow> (Raise e, s\<lparr>world := w\<rparr>)
      | (Inr a, w) \<Rightarrow> (Ok a, s\<lparr>world := w\<rparr>))"

definition raiseA :: "('h world \<Rightarrow> exn \<times> 'h world) \<Rightarrow> ('h, 'a) act" where
  "raiseA f s = (let (e, w) = f (world s) in (Raise e, s\<lparr>world := w\<rparr>))"

definition throwError :: "'h kernel \<Rightarrow> string \<Rightarrow> ('h, 'a) act" where
  "throwError K msg = raiseA (errorK K msg)"

definition throwClassed :: "'h kernel \<Rightarrow> string \<Rightarrow> string \<Rightarrow> ('h, 'a) act" where
  "throwClassed K cls msg = raiseA (classedK K cls msg)"

definition heapA :: "('h \<Rightarrow> 'a) \<Rightarrow> ('h, 'a) act" where
  "heapA f s = (Ok (f (heap (world s))), s)"

definition pushVal :: "val \<Rightarrow> ('h, unit) act" where
  "pushVal v s =
     (if length (stack s) < cap s then (Ok (), s\<lparr>stack := v # stack s\<rparr>) else (Fault, s))"

definition popVal :: "'h kernel \<Rightarrow> ('h, val) act" where
  "popVal K s =
     (case stack s of
        [] \<Rightarrow> throwError K ''VM: operand-stack underflow'' s
      | v # vs \<Rightarrow> (Ok v, s\<lparr>stack := vs\<rparr>))"

definition peekAt :: "nat \<Rightarrow> ('h, val) act" where
  "peekAt d s = (if d < length (stack s) then (Ok (stack s ! d), s) else (Fault, s))"

text \<open>\<^verbatim>\<open>sp -= n\<close>, and the \<open>n\<close> topmost values in the order they were pushed.\<close>

definition dropVals :: "nat \<Rightarrow> ('h, unit) act" where
  "dropVals n s = (if n \<le> length (stack s) then (Ok (), s\<lparr>stack := drop n (stack s)\<rparr>) else (Fault, s))"

definition topVals :: "nat \<Rightarrow> ('h, val list) act" where
  "topVals n s = (if n \<le> length (stack s) then (Ok (rev (take n (stack s))), s) else (Fault, s))"

definition depthA :: "('h, nat) act" where
  "depthA s = (Ok (length (stack s)), s)"

definition reserveStack :: "nat \<Rightarrow> ('h, unit) act" where
  "reserveStack extra s =
     (if length (stack s) + extra \<le> cap s then (Ok (), s)
      else (Ok (), s\<lparr>cap := length (stack s) + extra\<rparr>))"

definition getLocal :: "nat \<Rightarrow> ('h, val) act" where
  "getLocal i s = (if i < length (locals s) then (Ok (locals s ! i), s) else (Fault, s))"

definition setLocal :: "nat \<Rightarrow> val \<Rightarrow> ('h, unit) act" where
  "setLocal i v s =
     (if i < length (locals s) then (Ok (), s\<lparr>locals := (locals s)[i := v]\<rparr>) else (Fault, s))"

definition jumpTo :: "nat \<Rightarrow> ('h, unit) act" where
  "jumpTo t s = (Ok (), s\<lparr>ip := t\<rparr>)"

section \<open>Calls\<close>

definition kMaxBoundParameters :: nat where
  "kMaxBoundParameters = 17"

definition kTagMethod :: val where
  "kTagMethod = 12"

text \<open>\<^verbatim>\<open>pickArity\<close>: the first index of the list that satisfies a pass's test, pass after pass.\<close>

definition exactArity :: "nat \<Rightarrow> AritySpec \<Rightarrow> bool" where
  "exactArity argc spec \<longleftrightarrow> \<not> specVariadic spec \<and> specArity spec = int argc"

definition variadicArity :: "nat \<Rightarrow> AritySpec \<Rightarrow> bool" where
  "variadicArity argc spec \<longleftrightarrow> specVariadic spec \<and> int argc \<ge> specArity spec"

definition kwArity :: "'h kernel \<Rightarrow> nat \<Rightarrow> AritySpec \<Rightarrow> bool" where
  "kwArity K argc spec \<longleftrightarrow>
     (let sub = moduleAt K (specModule spec); extra = int argc - int (arity sub)
      in isKwBased sub \<and> extra \<ge> 0 \<and> (extra mod 2 = 0 \<or> extra = 1))"

fun firstIndex :: "('a \<Rightarrow> bool) \<Rightarrow> 'a list \<Rightarrow> nat option" where
  "firstIndex p [] = None"
| "firstIndex p (x # xs) = (if p x then Some 0 else map_option Suc (firstIndex p xs))"

definition pickArity :: "'h kernel \<Rightarrow> AritySpec list \<Rightarrow> nat \<Rightarrow> nat option" where
  "pickArity K specs argc =
     (case firstIndex (exactArity argc) specs of
        Some k \<Rightarrow> Some k
      | None \<Rightarrow>
          (case firstIndex (variadicArity argc) specs of
             Some k \<Rightarrow> Some k
           | None \<Rightarrow> firstIndex (kwArity K argc) specs))"

definition acceptsArgCount :: "'h kernel \<Rightarrow> 'h \<Rightarrow> val \<Rightarrow> nat \<Rightarrow> bool" where
  "acceptsArgCount K h callable argc =
     (if callable = 0 \<or> callable = PROTO_NONE K then True
      else if getPrototype K h callable = fnMultiProto K then pickArity K (aritiesOf K h callable) argc \<noteq> None
      else if getPrototype K h callable \<noteq> fnSingleProto K then True
      else case bytecodeOf K h callable of
             None \<Rightarrow> True
           | Some p \<Rightarrow>
               let sub = moduleAt K p; fixed = arity sub in
               if isKwBased sub then argc = fixed \<or> argc = fixed + 1
               else if isVariadic sub then argc \<ge> fixed
               else argc = fixed)"

text \<open>\<^verbatim>\<open>extractKwVals\<close>: the values of the declared keys; no map means nil for each.\<close>

fun lookupKeys :: "'h kernel \<Rightarrow> val \<Rightarrow> KwKey list \<Rightarrow> ('h, val list) act" where
  "lookupKeys K mp [] = retA []"
| "lookupKeys K mp (k # ks) =
     bindA (nativeA (mapGetK K mp (objVal K (kwObj k)))) (\<lambda>r.
     bindA (lookupKeys K mp ks) (\<lambda>vs.
       retA ((case r of Some v \<Rightarrow> v | None \<Rightarrow> PROTO_NONE K) # vs)))"

definition extractKwVals :: "'h kernel \<Rightarrow> BytecodeModule \<Rightarrow> val \<Rightarrow> ('h, val list) act" where
  "extractKwVals K sub maybeMap =
     bindA (heapA (\<lambda>h. isMapK K h maybeMap)) (\<lambda>ismap.
       if \<not> ismap then retA (map (\<lambda>_. PROTO_NONE K) (kwKeys sub))
       else lookupKeys K maybeMap (kwKeys sub))"

text \<open>\<^verbatim>\<open>foldKeywordPairs\<close>, in chunks of 256 items; \<open>acc\<close> is the map built so far.\<close>

function foldKeywordPairs :: "'h kernel \<Rightarrow> val option \<Rightarrow> val list \<Rightarrow> ('h, val option) act" where
  "foldKeywordPairs K acc items =
     (if items = [] then retA acc
      else bindA (nativeA (mapAssocPairsK K acc (take 256 items))) (\<lambda>mp.
             foldKeywordPairs K (Some mp) (drop 256 items)))"
  by pat_completeness auto
termination
  by (relation "measure (\<lambda>(K, acc, items). length items)") auto

declare foldKeywordPairs.simps [simp del]

definition callLookup ::
  "'h kernel \<Rightarrow> val \<Rightarrow> bool \<Rightarrow> val list \<Rightarrow> ('h, val) act" where
  "callLookup K callable callableIsMap args =
     (let argc = length args in
      if argc \<noteq> 1 \<and> argc \<noteq> 2 then
        bindA (heapA (\<lambda>h.
          if callableIsMap then (if isSetK K h callable then ''a set'' else ''a map'')
          else let sp = namedSpelling K h callable
               in (if sp \<noteq> [] \<and> hd sp = CHR '':'' then ''keyword '' else ''symbol '') @ sp)) (\<lambda>what.
          throwError K (''VM: '' @ what @
            '' called as a function expects 1 or 2 arguments, got '' @ dec argc))
      else
        let m = (if callableIsMap then callable else args ! 0);
            key = (if callableIsMap then args ! 0 else callable);
            notFound = (if argc = 2 then args ! 1 else PROTO_NONE K);
            found = (\<lambda>r. retA (case r of Some v \<Rightarrow> v | None \<Rightarrow> notFound))
        in bindA (heapA (\<lambda>h. (isSetK K h m, isMapK K h m))) (\<lambda>(isset, ismap).
             if isset then bindA (nativeA (setGetK K m key)) found
             else if \<not> callableIsMap \<and> \<not> ismap then retA notFound
             else bindA (nativeA (mapGetK K m key)) found))"

definition callVector :: "'h kernel \<Rightarrow> val \<Rightarrow> val list \<Rightarrow> ('h, val) act" where
  "callVector K v args =
     (if length args \<noteq> 1 then
        throwClassed K ''ArityException''
          (''Wrong number of args ('' @ dec (length args) @ '') passed to: a vector'')
      else
        let i = args ! 0 in
        bindA (heapA (\<lambda>h. i \<noteq> 0 \<and> i \<noteq> PROTO_NONE K \<and> isIntegerK K h i)) (\<lambda>isint.
          if \<not> isint then throwClassed K ''IllegalArgumentException'' ''Key must be integer''
          else
            bindA (heapA (\<lambda>h. (vectorItemsK K h v, asLongK K h i))) (\<lambda>(items, k).
              if k < 0 \<or> k \<ge> int (length items)
              then throwClassed K ''IndexOutOfBoundsException'' (int_dec k)
              else retA (items ! nat k))))"

text \<open>A nested call of a module: its arguments, its captures, its \<^verbatim>\<open>:keys\<close> values and the \<^verbatim>\<open>:as\<close> map.\<close>

record invocation =
  callee :: modptr
  callArgs :: "val list"
  captures :: val
  kwVals :: "val list"
  kwMap :: val

type_synonym 'h caller = "invocation \<Rightarrow> 'h world \<Rightarrow> val res \<times> 'h world"

definition callA :: "'h caller \<Rightarrow> invocation \<Rightarrow> ('h, val) act" where
  "callA call iv s = (let (r, w) = call iv (world s) in (r, s\<lparr>world := w\<rparr>))"

text \<open>The module and the captures a function wrapper stands for, given \<open>argc\<close> arguments: of the arity
  picked for a multi-arity one; nullptr when the body captures nothing.\<close>

definition resolveCallee :: "'h kernel \<Rightarrow> string \<Rightarrow> val \<Rightarrow> nat \<Rightarrow> ('h, modptr \<times> val) act" where
  "resolveCallee K who callable argc =
     bindA (heapA (\<lambda>h. (getPrototype K h callable = fnMultiProto K, aritiesOf K h callable,
                        bytecodeOf K h callable, capturesOf K h callable))) (\<lambda>(multi, specs, bc, caps).
       if multi then
         (case pickArity K specs argc of
            None \<Rightarrow> throwError K (''VM: '' @ who @ ''no matching arity for argc='' @ dec argc)
          | Some k \<Rightarrow> retA (specModule (specs ! k), specCaptures (specs ! k)))
       else
         (case bc of
            None \<Rightarrow> throwError K (''VM: '' @ who @ ''malformed fn-wrapper'')
          | Some p \<Rightarrow> retA (p, if captureCount (moduleAt K p) > 0 then caps else 0)))"

text \<open>The arguments a callee binds, from its positional arguments and the rest list.\<close>

definition boundArgs :: "BytecodeModule \<Rightarrow> val list \<Rightarrow> nat \<Rightarrow> val \<Rightarrow> val list" where
  "boundArgs sub args posArgc restList =
     take (arity sub) args @
     (if isVariadic sub then [restList]
      else if \<not> isKwBased sub then drop (arity sub) (take posArgc args) else [])"

definition tooManyParameters :: string where
  "tooManyParameters =
     ''VM: a call may bind at most 17 parameters (a variadic fn binds its rest arguments as one)''"

text \<open>From the positional arguments to the invocation: the limit on bound parameters, the rest list, the
  \<^verbatim>\<open>:keys\<close> values. \<open>args\<close> are all the arguments, the first \<open>posArgc\<close> of them positional.\<close>

definition prepareCall ::
  "'h kernel \<Rightarrow> modptr \<Rightarrow> val \<Rightarrow> val list \<Rightarrow> nat \<Rightarrow> val \<Rightarrow> ('h, invocation) act" where
  "prepareCall K p caps args posArgc kwArgsMap =
     (let sub = moduleAt K p;
          fixed = arity sub;
          passArgc = (if isVariadic sub then fixed + 1 else posArgc)
      in if passArgc > kMaxBoundParameters then throwError K tooManyParameters
         else
           bindA (if isVariadic sub \<and> fixed < posArgc
                  then nativeA (listFromArray K (drop fixed (take posArgc args)))
                  else retA (PROTO_NONE K)) (\<lambda>restList.
           bindA (if isKwBased sub
                  then if length (kwKeys sub) > 16
                       then throwError K ''VM: a function may declare at most 16 :keys parameters''
                       else extractKwVals K sub kwArgsMap
                  else retA []) (\<lambda>kvs.
             retA \<lparr>callee = p, callArgs = boundArgs sub args posArgc restList, captures = caps,
                   kwVals = kvs, kwMap = (if isKwBased sub then kwArgsMap else 0)\<rparr>)))"

text \<open>The branch of \<^verbatim>\<open>dispatchCall\<close> for a function wrapper.\<close>

definition dispatchFn :: "'h kernel \<Rightarrow> 'h caller \<Rightarrow> val \<Rightarrow> nat \<Rightarrow> ('h, unit) act" where
  "dispatchFn K call callable argc0 =
     bindA (resolveCallee K [] callable argc0) (\<lambda>(p, caps).
       let sub = moduleAt K p; fixed = arity sub in
       bindA (if isKwBased sub \<and> argc0 > fixed + 1 \<and> (argc0 - fixed) mod 2 = 0
              then let kv = argc0 - fixed in
                   bindA (topVals kv) (\<lambda>items.
                   bindA (foldKeywordPairs K None items) (\<lambda>mp.
                   thenA (dropVals kv) (
                   thenA (pushVal (case mp of Some x \<Rightarrow> x | None \<Rightarrow> 0)) (
                     retA (fixed + 1)))))
              else retA argc0) (\<lambda>argc.
       bindA (if isKwBased sub then
                if argc = fixed + 1 then bindA (peekAt 0) (\<lambda>mp. retA (mp, argc - 1))
                else if argc \<noteq> fixed then
                  throwError K (''VM: kw-based fn expects '' @ dec fixed @
                    '' positionals (+ optional trailing map), got '' @ dec argc)
                else retA (0, argc)
              else if \<not> isVariadic sub \<and> fixed \<noteq> argc then
                throwError K (''VM: fn arity mismatch (expected '' @ dec fixed @ '', got '' @ dec argc @ '')'')
              else if isVariadic sub \<and> argc < fixed then
                throwError K (''VM: variadic fn needs at least '' @ dec fixed @ '' args, got '' @ dec argc)
              else retA (0, argc)) (\<lambda>(kwArgsMap, posArgc).
       bindA (topVals argc) (\<lambda>args.
       bindA (prepareCall K p caps args posArgc kwArgsMap) (\<lambda>iv.
       thenA (dropVals (argc + 1)) (
       bindA (callA call iv) pushVal))))))"

text \<open>A callable that is no function wrapper: a keyword, a symbol, a map or a set looks a key up, a vector
  is indexed, a primitive is called; \<open>proto\<close> is its prototype.\<close>

definition callValue :: "'h kernel \<Rightarrow> string \<Rightarrow> val \<Rightarrow> val \<Rightarrow> val list \<Rightarrow> ('h, val) act" where
  "callValue K notCallable callable proto args =
     bindA (heapA (\<lambda>h. (isMapK K h callable, isVectorK K h callable,
                       isMethodK K h callable, asMethodSelf K h callable)))
       (\<lambda>(ismap, isvector, ismethod, self).
       let callableIsNamed = (proto = namedMarker K);
           callableIsMap = (\<not> callableIsNamed \<and> (ismap \<or> proto \<noteq> 0 \<and> proto = setProto K))
       in if callableIsNamed \<or> callableIsMap then callLookup K callable callableIsMap args
          else if \<not> ismethod \<and> isvector then callVector K callable args
          else if \<not> ismethod then throwError K notCallable
          else nativeA (callMethod K callable self args))"

definition dispatchCall :: "'h kernel \<Rightarrow> 'h caller \<Rightarrow> nat \<Rightarrow> ('h, unit) act" where
  "dispatchCall K call argc =
     (let answer = (\<lambda>r. thenA (dropVals (argc + 1)) (pushVal r)) in
      bindA (peekAt argc) (\<lambda>callable.
      bindA (topVals argc) (\<lambda>args.
      bindA (if callable AND 0x3F = kTagMethod then nativeA (fastPrimitiveCall K callable args True)
             else retA None) (\<lambda>fast.
        case fast of
          Some r \<Rightarrow> answer r
        | None \<Rightarrow>
            bindA (heapA (\<lambda>h. getPrototype K h callable)) (\<lambda>proto.
              if proto = fnSingleProto K \<or> proto = fnMultiProto K then dispatchFn K call callable argc
              else bindA (callValue K ''VM: value is not callable in CALL'' callable proto args) answer)))))"

text \<open>\<^verbatim>\<open>invoke\<close>, which a primitive calls with the arguments in an array.\<close>

definition invokeFn :: "'h kernel \<Rightarrow> 'h caller \<Rightarrow> val \<Rightarrow> val list \<Rightarrow> ('h, val) act" where
  "invokeFn K call callable args =
     (let argc = length args in
      bindA (resolveCallee K ''invoke: '' callable argc) (\<lambda>(p, caps).
        let sub = moduleAt K p; fixed = arity sub in
        bindA (if isKwBased sub then
                 if argc > fixed + 1 \<and> (argc - fixed) mod 2 = 0 then
                   bindA (nativeA (mapAssocPairsK K None (drop fixed args))) (\<lambda>mp. retA (mp, fixed))
                 else if argc = fixed + 1 then retA (args ! (argc - 1), argc - 1)
                 else if argc \<noteq> fixed then
                   throwError K (''VM: invoke: kw-based fn expects '' @ dec fixed @
                     '' positionals (+ optional trailing map), got '' @ dec argc)
                 else retA (0, argc)
               else if \<not> isVariadic sub \<and> fixed \<noteq> argc then throwError K ''VM: invoke: fn arity mismatch''
               else if isVariadic sub \<and> argc < fixed then throwError K ''VM: invoke: variadic underflow''
               else retA (0, argc)) (\<lambda>(kwArgsMap, posArgc).
        bindA (prepareCall K p caps args posArgc kwArgsMap) (callA call))))"

definition invoke :: "'h kernel \<Rightarrow> 'h caller \<Rightarrow> val \<Rightarrow> val list \<Rightarrow> ('h, val) act" where
  "invoke K call callable args =
     bindA (if callable AND 0x3F = kTagMethod then nativeA (fastPrimitiveCall K callable args False)
            else retA None) (\<lambda>fast.
       case fast of
         Some r \<Rightarrow> retA r
       | None \<Rightarrow>
           bindA (heapA (\<lambda>h. getPrototype K h callable)) (\<lambda>proto.
             if proto = fnSingleProto K \<or> proto = fnMultiProto K then invokeFn K call callable args
             else callValue K ''VM: invoke: value is not callable'' callable proto args))"

end
