(* ===== verification/Dispatch.thy ===== *)
theory Dispatch
  imports VM
begin

text \<open>
  The dispatch loop of a frame (src/runtime/ExecutionEngine.cpp, \<^verbatim>\<open>executeFrame\<close>): one function per
  group of opcodes, \<open>step\<close> for one instruction, \<open>frameStep\<close> for an instruction with the handlers of
  the frame, \<open>runFrame\<close> for the loop, and \<open>execute\<close>, which binds a call's arguments and runs the body.
\<close>

section \<open>Operators the compiler inlines\<close>

definition kCoreOperatorNames :: "string list" where
  "kCoreOperatorNames = [''+'', ''-'', ''*'', ''<'', ''<='', ''>'', ''>='', ''='']"

fun binaryOpName :: "Op \<Rightarrow> string" where
  "binaryOpName ADD = ''+''"
| "binaryOpName SUB = ''-''"
| "binaryOpName MUL = ''*''"
| "binaryOpName LT = ''<''"
| "binaryOpName LE = ''<=''"
| "binaryOpName GT = ''>''"
| "binaryOpName GE = ''>=''"
| "binaryOpName EQ = ''=''"
| "binaryOpName _ = ''operator''"

text \<open>\<^verbatim>\<open>redefinedOperator\<close>: \<open>None\<close> is its nullptr.\<close>

definition redefinedOperator :: "'h kernel \<Rightarrow> Op \<Rightarrow> nat \<Rightarrow> ('h, val option) act" where
  "redefinedOperator K op operand s =
     (let bitNo = opcode op - opcode ADD in
      if odd operand \<or> \<not> bit (coreOperatorRedefined (world s)) bitNo then retA None s
      else case getGlobal K (heap (world s)) (createSymbol K (kCoreOperatorNames ! bitNo)) of
             None \<Rightarrow> throwError K (''VM: unable to resolve symbol: '' @ kCoreOperatorNames ! bitNo) s
           | Some f \<Rightarrow> retA (Some f) s)"

text \<open>The store of a global: the bit of an operator's name tells whether it holds something else than
  the built-in, which stays reachable under its \<^verbatim>\<open>clojure.core/\<close> name. The comparison is by pointer; a
  missing built-in is nullptr.\<close>

definition noteGlobalStore :: "'h kernel \<Rightarrow> string \<Rightarrow> val \<Rightarrow> 'h world \<Rightarrow> 'h world" where
  "noteGlobalStore K name v w =
     (case firstIndex (\<lambda>n. n = name) kCoreOperatorNames of
        None \<Rightarrow> w
      | Some i \<Rightarrow>
          let core = (case getGlobal K (heap w) (createSymbol K (''clojure.core/'' @ name)) of
                        None \<Rightarrow> 0 | Some c \<Rightarrow> c)
          in if v \<noteq> core
             then w\<lparr>coreOperatorRedefined := set_bit i (coreOperatorRedefined w)\<rparr>
             else w\<lparr>coreOperatorRedefined := unset_bit i (coreOperatorRedefined w)\<rparr>)"

definition boolVal :: "'h kernel \<Rightarrow> bool \<Rightarrow> val" where
  "boolVal K b = (if b then PROTO_TRUE K else PROTO_FALSE K)"

fun arithOf :: "Op \<Rightarrow> arith option" where
  "arithOf ADD = Some ArAdd"
| "arithOf SUB = Some ArSub"
| "arithOf MUL = Some ArMul"
| "arithOf _ = None"

fun orderOf :: "Op \<Rightarrow> order" where
  "orderOf LT = OrdLt"
| "orderOf LE = OrdLe"
| "orderOf GT = OrdGt"
| "orderOf GE = OrdGe"
| "orderOf _ = OrdEq"

text \<open>The comparisons of the slow path, on what protoCore's \<^verbatim>\<open>partialCompare\<close> answers; every comparison
  with an unordered operand is false.\<close>

definition slowOrder :: "order \<Rightarrow> int option \<Rightarrow> bool" where
  "slowOrder ord c =
     (case c of
        None \<Rightarrow> False
      | Some i \<Rightarrow> (case ord of OrdLt \<Rightarrow> i < 0 | OrdLe \<Rightarrow> i \<le> 0 | OrdGt \<Rightarrow> i > 0 | OrdGe \<Rightarrow> i \<ge> 0 | OrdEq \<Rightarrow> i = 0))"

text \<open>The fast and the slow path of an operator on its two operands.\<close>

definition computeBinary :: "'h kernel \<Rightarrow> Op \<Rightarrow> val \<Rightarrow> val \<Rightarrow> ('h, val) act" where
  "computeBinary K op a b =
     (if isSmallIntFast a \<and> isSmallIntFast b then
        (case arithOf op of
           Some ar \<Rightarrow> (case fastArith ar a b of
                        Some r \<Rightarrow> retA r
                      | None \<Rightarrow> nativeA (arithK K ar a b))
         | None \<Rightarrow> retA (boolVal K (fastOrder (orderOf op) a b)))
      else
        (case arithOf op of
           Some ar \<Rightarrow> nativeA (arithK K ar a b)
         | None \<Rightarrow>
             if op = EQ then bindA (nativeA (valuesEqualK K a b)) (\<lambda>r. retA (boolVal K r))
             else bindA (heapA (\<lambda>h. partialCompareK K h a b)) (\<lambda>c.
                    retA (boolVal K (slowOrder (orderOf op) c)))))"

definition execBinary :: "'h kernel \<Rightarrow> 'h caller \<Rightarrow> Op \<Rightarrow> nat \<Rightarrow> ('h, unit) act" where
  "execBinary K call op operand =
     bindA depthA (\<lambda>sp.
       if sp < 2 then throwError K ''VM: binop underflow''
       else
         bindA (redefinedOperator K op operand) (\<lambda>f.
           bindA (peekAt 1) (\<lambda>a.
           bindA (peekAt 0) (\<lambda>b.
             case f of
               Some fn \<Rightarrow>
                 thenA (reserveStack 1) (
                 thenA (dropVals 2) (
                 thenA (pushVal fn) (
                 thenA (pushVal a) (
                 thenA (pushVal b) (
                   dispatchCall K call 2)))))
             | None \<Rightarrow>
                 bindA (heapA (\<lambda>h. (isNumberK K h a, isNumberK K h b))) (\<lambda>(na, nb).
                   if \<not> (isSmallIntFast a \<and> isSmallIntFast b) \<and> op \<noteq> EQ \<and> \<not> (na \<and> nb)
                   then raiseA (notANumberK K (binaryOpName op) (if na then b else a))
                   else
                     thenA (dropVals 2) (
                     bindA (computeBinary K op a b) pushVal))))))"

section \<open>Constants, globals and members\<close>

definition materialise :: "'h kernel \<Rightarrow> Const \<Rightarrow> ('h, val) act" where
  "materialise K c =
     (let named_val = (case named c of Some v \<Rightarrow> objVal K v | None \<Rightarrow> 0) in
      case ckind c of
        CkLong \<Rightarrow> nativeA (fromLongK K (ival c))
      | CkDouble \<Rightarrow> nativeA (fromDoubleK K (dval c))
      | CkString \<Rightarrow> nativeA (fromUtf8K K (sval c))
      | CkNamed \<Rightarrow> retA named_val
      | CkDatum \<Rightarrow> retA named_val
      | CkBigInteger \<Rightarrow> nativeA (fromDigitsK K (sval c))
      | CkSymbol \<Rightarrow> throwError K (''VM: PUSH_CONST of a global name: '' @ sval c))"

definition constKey :: "Const \<Rightarrow> obj" where
  "constKey c = (case named c of Some k \<Rightarrow> k | None \<Rightarrow> 0)"

definition execPushVar :: "'h kernel \<Rightarrow> BytecodeModule \<Rightarrow> nat \<Rightarrow> ('h, unit) act" where
  "execPushVar K m operand =
     (if operand \<ge> length (pool m) then throwError K ''VM: PUSH_VAR out-of-range''
      else
        let c = pool m ! operand in
        if ckind c \<noteq> CkSymbol then throwError K ''VM: PUSH_VAR const is not a symbol''
        else
          bindA (heapA (\<lambda>h. getGlobal K h (constKey c))) (\<lambda>v.
            case v of
              None \<Rightarrow> throwError K (''VM: unable to resolve symbol: '' @ sval c)
            | Some v \<Rightarrow> pushVal v))"

definition storeGlobalW :: "'h kernel \<Rightarrow> Const \<Rightarrow> val \<Rightarrow> 'h world \<Rightarrow> 'h world" where
  "storeGlobalW K c v w =
     (let w' = w\<lparr>heap := setGlobal K (constKey c) v (heap w)\<rparr>
      in if length (sval c) \<le> 2 then noteGlobalStore K (sval c) v w' else w')"

definition execStoreGlobal :: "'h kernel \<Rightarrow> BytecodeModule \<Rightarrow> nat \<Rightarrow> ('h, unit) act" where
  "execStoreGlobal K m operand =
     (if operand \<ge> length (pool m) then throwError K ''VM: STORE_GLOBAL out-of-range''
      else
        let c = pool m ! operand in
        if ckind c \<noteq> CkSymbol then throwError K ''VM: STORE_GLOBAL key not a symbol''
        else
          bindA depthA (\<lambda>sp.
            if sp = 0 then throwError K ''VM: STORE_GLOBAL with empty stack''
            else bindA (peekAt 0) (\<lambda>v. (\<lambda>s. (Ok (), s\<lparr>world := storeGlobalW K c v (world s)\<rparr>)))))"

text \<open>\<^verbatim>\<open>readMember\<close>: \<open>Some\<close> the value when it answers true.\<close>

definition readMember :: "'h kernel \<Rightarrow> 'h \<Rightarrow> val \<Rightarrow> obj \<Rightarrow> val option" where
  "readMember K h ob key =
     (if ob = 0 \<or> ob = PROTO_NONE K \<or> ob AND 0x3F \<noteq> 0 then None
      else case getAttribute K h ob key of
             Some v \<Rightarrow>
               if v \<noteq> 0 \<and> v \<noteq> PROTO_NONE K then Some v
               else if hasAttribute K h ob key then Some (PROTO_NONE K) else None
           | None \<Rightarrow> if hasAttribute K h ob key then Some (PROTO_NONE K) else None)"

definition getMember :: "'h kernel \<Rightarrow> val \<Rightarrow> obj \<Rightarrow> string \<Rightarrow> ('h, val) act" where
  "getMember K ob key name =
     bindA (heapA (\<lambda>h. (readMember K h ob key, valueTypeNameK K h ob))) (\<lambda>(r, tyname).
       case r of
         Some v \<Rightarrow> retA v
       | None \<Rightarrow> throwClassed K ''RuntimeException'' (''No such member: '' @ name @ '' ('' @ tyname @ '')''))"

definition splitQualified :: "string \<Rightarrow> string \<times> string" where
  "splitQualified name =
     (takeWhile (\<lambda>c. c \<noteq> CHR ''/'') name, tl (dropWhile (\<lambda>c. c \<noteq> CHR ''/'') name))"

definition resolveCatchType :: "'h kernel \<Rightarrow> string \<Rightarrow> ('h, val) act" where
  "resolveCatchType K name =
     bindA (heapA (\<lambda>h.
       if CHR ''/'' \<in> set name \<and> length name > 2 then
         let (prefix, member) = splitQualified name in
         case getGlobal K h (createSymbol K prefix) of
           None \<Rightarrow> None
         | Some owner \<Rightarrow> readMember K h owner (createSymbol K member)
       else getGlobal K h (createSymbol K name))) (\<lambda>r.
       case r of
         Some v \<Rightarrow> retA v
       | None \<Rightarrow> throwClassed K ''RuntimeException'' (''Unable to resolve classname: '' @ name))"

definition matchCatchType :: "'h kernel \<Rightarrow> val \<Rightarrow> val \<Rightarrow> string \<Rightarrow> ('h, bool) act" where
  "matchCatchType K v ty name =
     bindA (heapA (\<lambda>h. (isForeignObjectK K h ty \<or> isExceptionK K h ty, valueTypeNameK K h ty,
                       valueIsInstanceOfK K h v ty))) (\<lambda>(ok, tyname, matches).
       if \<not> ok
       then throwClassed K ''IllegalArgumentException''
              (''catch: '' @ name @ '' is '' @ tyname @ '', not an exception type'')
       else retA matches)"

text \<open>A C++ exception that is not a \<^verbatim>\<open>ProtoException\<close> becomes a RuntimeException at the native call.\<close>

definition translateStd :: "'h kernel \<Rightarrow> ('h, val) act \<Rightarrow> ('h, val) act" where
  "translateStd K m s =
     (case m s of
        (Raise (StdException msg), s') \<Rightarrow> throwClassed K ''RuntimeException'' msg s'
      | r \<Rightarrow> r)"

definition callMember :: "'h kernel \<Rightarrow> 'h caller \<Rightarrow> val \<Rightarrow> Const \<Rightarrow> val list \<Rightarrow> ('h, val) act" where
  "callMember K call receiver c args =
     bindA (getMember K receiver (constKey c) (sval c)) (\<lambda>member.
     bindA (heapA (\<lambda>h. isMethodK K h member)) (\<lambda>ismethod.
       if \<not> ismethod then invoke K call member args
       else translateStd K (nativeA (callMethod K member receiver args))))"

section \<open>Functions, calls and handlers\<close>

definition execMakeFn :: "'h kernel \<Rightarrow> BytecodeModule \<Rightarrow> nat \<Rightarrow> ('h, unit) act" where
  "execMakeFn K m operand =
     (if operand \<ge> length (blocks m) then throwError K ''VM: MAKE_FN out-of-range''
      else
        let p = blocks m ! operand; nCaps = captureCount (moduleAt K p) in
        bindA depthA (\<lambda>sp.
          if sp < nCaps then throwError K ''VM: MAKE_FN underflow on captures''
          else
            bindA (topVals nCaps) (\<lambda>caps.
            bindA (nativeA (newListK K caps)) (\<lambda>capsList.
            thenA (dropVals nCaps) (
            bindA (nativeA (newFn K p (if nCaps > 0 then Some capsList else None))) pushVal)))))"

text \<open>The \<^verbatim>\<open>__arities__\<close> list of a multi-arity function; \<open>caps\<close> are the captured values of all its
  arities, first arity first.\<close>

fun buildArities :: "'h kernel \<Rightarrow> modptr list \<Rightarrow> val list \<Rightarrow> ('h, AritySpec list) act" where
  "buildArities K [] caps = retA []"
| "buildArities K (p # ps) caps =
     (let sub = moduleAt K p; nCaps = captureCount sub in
      bindA (nativeA (newListK K (take nCaps caps))) (\<lambda>capsList.
      bindA (buildArities K ps (drop nCaps caps)) (\<lambda>specs.
        retA (\<lparr>specArity = int (arity sub), specModule = p, specVariadic = isVariadic sub,
               specCaptures = capsList\<rparr> # specs))))"

definition execMakeFnMulti :: "'h kernel \<Rightarrow> BytecodeModule \<Rightarrow> nat \<Rightarrow> ('h, unit) act" where
  "execMakeFnMulti K m operand =
     (if operand \<ge> length (arityGroups m) then throwError K ''VM: MAKE_FN_MULTI out-of-range''
      else if \<exists>b\<in>set (arityGroups m ! operand). b \<ge> length (blocks m) then (\<lambda>s. (Fault, s))
      else
        let ps = map (\<lambda>b. blocks m ! b) (arityGroups m ! operand);
            totalCaps = sum_list (map (\<lambda>p. captureCount (moduleAt K p)) ps)
        in bindA depthA (\<lambda>sp.
             if sp < totalCaps then throwError K ''VM: MAKE_FN_MULTI underflow''
             else
               bindA (topVals totalCaps) (\<lambda>caps.
               bindA (buildArities K ps caps) (\<lambda>specs.
               thenA (dropVals totalCaps) (
               bindA (nativeA (newMultiFn K specs)) pushVal)))))"

fun pushAll :: "val list \<Rightarrow> ('h, unit) act" where
  "pushAll [] = retA ()"
| "pushAll (v # vs) = thenA (pushVal v) (pushAll vs)"

definition execCallApply :: "'h kernel \<Rightarrow> 'h caller \<Rightarrow> ('h, unit) act" where
  "execCallApply K call =
     bindA depthA (\<lambda>sp.
       if sp < 2 then throwError K ''VM: CALL_APPLY underflow''
       else
         bindA (popVal K) (\<lambda>listObj.
         bindA (nativeA (spreadItems K listObj)) (\<lambda>items.
           case items of
             None \<Rightarrow> throwError K ''VM: CALL_APPLY: not a list''
           | Some vs \<Rightarrow>
               thenA (reserveStack (length vs)) (
               thenA (pushAll vs) (
                 dispatchCall K call (length vs))))))"

text \<open>The module of a single-arity keyword-based callee of \<^verbatim>\<open>CALL_KW\<close>, if it is one.\<close>

definition kwModule :: "'h kernel \<Rightarrow> val \<Rightarrow> 'h \<Rightarrow> BytecodeModule option" where
  "kwModule K callable h =
     (if getPrototype K h callable = fnSingleProto K then
        (case bytecodeOf K h callable of
           Some p \<Rightarrow> if isKwBased (moduleAt K p) then Some (moduleAt K p) else None
         | None \<Rightarrow> None)
      else None)"

definition execCallKw :: "'h kernel \<Rightarrow> 'h caller \<Rightarrow> nat \<Rightarrow> ('h, unit) act" where
  "execCallKw K call argc =
     bindA depthA (\<lambda>sp.
       if sp < argc + 1 then throwError K ''VM: CALL_KW with insufficient stack''
       else
         bindA (peekAt argc) (\<lambda>callable.
         bindA (heapA (kwModule K callable)) (\<lambda>kwMod.
           case kwMod of
             None \<Rightarrow> dispatchCall K call argc
           | Some sub \<Rightarrow>
               let fixed = arity sub in
               if argc < fixed \<or> (argc - fixed) mod 2 \<noteq> 0 then
                 throwError K (''VM: keyword-argument fn expects '' @ dec fixed @
                   '' positional arguments followed by key/value pairs, got '' @ dec argc @ '' arguments'')
               else
                 let kvItems = argc - fixed in
                 if kvItems > 0 then
                   bindA (topVals kvItems) (\<lambda>items.
                   bindA (foldKeywordPairs K None items) (\<lambda>mp.
                   thenA (dropVals kvItems) (
                   thenA (pushVal (case mp of Some x \<Rightarrow> x | None \<Rightarrow> 0)) (
                     dispatchCall K call (fixed + 1)))))
                 else dispatchCall K call fixed)))"

definition throwValue :: "'h kernel \<Rightarrow> val \<Rightarrow> ('h, 'a) act" where
  "throwValue K v =
     bindA (heapA (\<lambda>h. (isThrowableK K h v, valueTypeNameK K h v))) (\<lambda>(ok, tyname).
       if \<not> ok then throwClassed K ''ClassCastException'' (''throw expects an exception, got '' @ tyname)
       else raiseA (throwExceptionK K v))"

text \<open>\<^verbatim>\<open>rethrowValue\<close>: a plain \<^verbatim>\<open>ProtoException\<close>, with nothing a runtime subclass would add.\<close>

definition rethrowValue :: "val \<Rightarrow> ('h, 'a) act" where
  "rethrowValue v s = (Raise (ProtoException v []), s)"

definition storeCaught :: "nat \<Rightarrow> ('h, unit) act" where
  "storeCaught slot s =
     (let grown = (if length (caught s) \<le> slot
                   then caught s @ replicate (slot + 1 - length (caught s)) None else caught s)
      in (Ok (), s\<lparr>caught := grown[slot := justCaught s], justCaught := None\<rparr>))"

definition execRethrow :: "nat \<Rightarrow> ('h, unit) act" where
  "execRethrow slot s =
     (if slot < length (caught s)
      then case caught s ! slot of
             Some e \<Rightarrow> (Raise e, s)
           | None \<Rightarrow> bindA (getLocal slot) rethrowValue s
      else bindA (getLocal slot) rethrowValue s)"

text \<open>\<^verbatim>\<open>constAt\<close> of an operand the loop does not check.\<close>

definition constA :: "BytecodeModule \<Rightarrow> nat \<Rightarrow> ('h, Const) act" where
  "constA m i s = (if i < length (pool m) then (Ok (pool m ! i), s) else (Fault, s))"

definition execCallMember :: "'h kernel \<Rightarrow> 'h caller \<Rightarrow> BytecodeModule \<Rightarrow> nat \<Rightarrow> ('h, unit) act" where
  "execCallMember K call m operand =
     bindA (\<lambda>s. if ip s < length (code m) then (Ok (instrOperand (code m ! ip s)), s\<lparr>ip := ip s + 1\<rparr>)
                else (Fault, s)) (\<lambda>idx.
     bindA (constA m idx) (\<lambda>c.
     bindA (peekAt operand) (\<lambda>receiver.
     bindA (topVals operand) (\<lambda>args.
     bindA (callMember K call receiver c args) (\<lambda>r.
     thenA (dropVals (operand + 1)) (pushVal r))))))"

definition truthy :: "'h kernel \<Rightarrow> val \<Rightarrow> bool" where
  "truthy K v \<longleftrightarrow> v \<noteq> PROTO_NONE K \<and> v \<noteq> PROTO_FALSE K"

section \<open>One instruction\<close>

text \<open>The \<^verbatim>\<open>switch\<close> of the dispatch loop, the opcode and the operand read and \<open>ip\<close> already past the
  word. \<open>Some v\<close> is the return of the frame.\<close>

abbreviation goOn :: "('h, unit) act \<Rightarrow> ('h, val option) act" where
  "goOn a \<equiv> thenA a (retA None)"

definition stepOp ::
  "'h kernel \<Rightarrow> 'h caller \<Rightarrow> BytecodeModule \<Rightarrow> Op \<Rightarrow> nat \<Rightarrow> ('h, val option) act" where
  "stepOp K call m op operand =
     (case op of
        NOP \<Rightarrow> retA None
      | PUSH_CONST \<Rightarrow> goOn (
          if operand \<ge> length (pool m) then throwError K ''VM: PUSH_CONST out-of-range''
          else bindA (materialise K (pool m ! operand)) pushVal)
      | PUSH_VAR \<Rightarrow> goOn (execPushVar K m operand)
      | CALL \<Rightarrow> goOn (bindA depthA (\<lambda>sp.
          if sp < operand + 1 then throwError K ''VM: CALL with insufficient stack''
          else dispatchCall K call operand))
      | POP \<Rightarrow> goOn (bindA depthA (\<lambda>sp.
          if sp = 0 then throwError K ''VM: POP on empty stack'' else dropVals 1))
      | RETURN \<Rightarrow> bindA depthA (\<lambda>sp.
          if sp = 0 then retA (Some (PROTO_NONE K)) else bindA (peekAt 0) (\<lambda>v. retA (Some v)))
      | STORE_GLOBAL \<Rightarrow> goOn (execStoreGlobal K m operand)
      | JUMP \<Rightarrow> goOn (\<lambda>s. jumpTo (ip s + operand) s)
      | JUMP_IF_FALSE \<Rightarrow> goOn (bindA (popVal K) (\<lambda>v s.
          if truthy K v then (Ok (), s) else jumpTo (ip s + operand) s))
      | PUSH_NIL \<Rightarrow> goOn (pushVal (PROTO_NONE K))
      | PUSH_TRUE \<Rightarrow> goOn (pushVal (PROTO_TRUE K))
      | PUSH_FALSE \<Rightarrow> goOn (pushVal (PROTO_FALSE K))
      | PUSH_LOCAL \<Rightarrow> goOn (bindA (getLocal operand) pushVal)
      | STORE_LOCAL \<Rightarrow> goOn (bindA depthA (\<lambda>sp.
          if sp = 0 then throwError K ''VM: STORE_LOCAL with empty stack''
          else bindA (popVal K) (setLocal operand)))
      | MAKE_FN \<Rightarrow> goOn (execMakeFn K m operand)
      | JUMP_BACK \<Rightarrow> goOn (\<lambda>s. if operand \<le> ip s then jumpTo (ip s - operand) s else (Fault, s))
      | CALL_APPLY \<Rightarrow> goOn (execCallApply K call)
      | DUP \<Rightarrow> goOn (bindA depthA (\<lambda>sp.
          if sp = 0 then throwError K ''VM: DUP on empty stack'' else bindA (peekAt 0) pushVal))
      | JUMP_IF_TRUE \<Rightarrow> goOn (bindA (popVal K) (\<lambda>v s.
          if truthy K v then jumpTo (ip s + operand) s else (Ok (), s)))
      | MAKE_FN_MULTI \<Rightarrow> goOn (execMakeFnMulti K m operand)
      | ADD \<Rightarrow> goOn (execBinary K call op operand)
      | SUB \<Rightarrow> goOn (execBinary K call op operand)
      | MUL \<Rightarrow> goOn (execBinary K call op operand)
      | LT \<Rightarrow> goOn (execBinary K call op operand)
      | LE \<Rightarrow> goOn (execBinary K call op operand)
      | GT \<Rightarrow> goOn (execBinary K call op operand)
      | GE \<Rightarrow> goOn (execBinary K call op operand)
      | EQ \<Rightarrow> goOn (execBinary K call op operand)
      | CALL_KW \<Rightarrow> goOn (execCallKw K call operand)
      | TRY_BEGIN \<Rightarrow> goOn (
          if hasHandlers m then (\<lambda>s. (Ok (), s\<lparr>handlers := (ip s + operand, length (stack s)) # handlers s\<rparr>))
          else throwError K ''VM: TRY_BEGIN in a frame without handlers'')
      | TRY_END \<Rightarrow> goOn (\<lambda>s.
          case handlers s of
            [] \<Rightarrow> throwError K ''VM: TRY_END without a handler'' s
          | _ # hs \<Rightarrow> (Ok (), s\<lparr>handlers := hs\<rparr>))
      | THROW \<Rightarrow> bindA depthA (\<lambda>sp.
          if sp = 0 then throwError K ''VM: THROW on empty stack'' else bindA (peekAt 0) (throwValue K))
      | EXC_MATCH \<Rightarrow> goOn (bindA (popVal K) (\<lambda>v.
          bindA (heapA (\<lambda>h. exceptionMatchesK K h v operand)) (\<lambda>b. pushVal (boolVal K b))))
      | RETHROW \<Rightarrow> goOn (execRethrow operand)
      | EXC_MATCH_TYPE \<Rightarrow> goOn (bindA (constA m operand) (\<lambda>c.
          bindA (peekAt 1) (\<lambda>v.
          bindA (peekAt 0) (\<lambda>ty.
          bindA (matchCatchType K v ty (sval c)) (\<lambda>b.
          thenA (dropVals 2) (pushVal (boolVal K b)))))))
      | RESOLVE_CLASS \<Rightarrow> goOn (bindA (constA m operand) (\<lambda>c. bindA (resolveCatchType K (sval c)) pushVal))
      | GET_MEMBER \<Rightarrow> goOn (bindA (constA m operand) (\<lambda>c.
          bindA (peekAt 0) (\<lambda>ob.
          bindA (getMember K ob (constKey c) (sval c)) (\<lambda>v.
          thenA (dropVals 1) (pushVal v)))))
      | CALL_MEMBER \<Rightarrow> goOn (execCallMember K call m operand)
      | STORE_CAUGHT \<Rightarrow> goOn (
          if hasHandlers m then thenA (storeCaught operand) (bindA (popVal K) (setLocal operand))
          else throwError K ''VM: STORE_CAUGHT in a frame without handlers'')
      | PUSH_LOCAL_CLEAR \<Rightarrow> goOn (bindA (getLocal operand) (\<lambda>v. thenA (pushVal v) (setLocal operand 0)))
      | LINE \<Rightarrow> goOn (\<lambda>s. (Ok (), s\<lparr>dline := operand\<rparr>)))"

definition step :: "'h kernel \<Rightarrow> 'h caller \<Rightarrow> BytecodeModule \<Rightarrow> ('h, val option) act" where
  "step K call m s =
     (let word = code m ! ip s; s' = s\<lparr>ip := ip s + 1\<rparr> in
      case instrOp word of
        None \<Rightarrow> throwError K ''VM: unknown opcode'' s'
      | Some op \<Rightarrow> stepOp K call m op (instrOperand word) s')"

section \<open>The frame\<close>

datatype status = Running | Done val | Escaped exn | Faulted | OutOfFuel

text \<open>The \<^verbatim>\<open>catch\<close> clauses of the loop: the innermost handler takes the exception. A stack that has been
  popped below the handler's depth would expose stale slots.\<close>

definition catchExn :: "'h kernel \<Rightarrow> exn \<Rightarrow> nat \<Rightarrow> nat \<Rightarrow> (nat \<times> nat) list \<Rightarrow> 'h vm \<Rightarrow> status \<times> 'h vm" where
  "catchExn K e target depth hs s =
     (if length (stack s) < depth then (Faulted, s)
      else
        let (v, w) = (case e of
                        ProtoException v _ \<Rightarrow> (v, world s)
                      | StdException msg \<Rightarrow> fromErrorK K msg (world s));
            s' = s\<lparr>handlers := hs, stack := drop (length (stack s) - depth) (stack s), world := w\<rparr>
        in case pushVal v s' of
             (Ok _, s'') \<Rightarrow>
               (Running, s''\<lparr>ip := target,
                  justCaught := (case e of ProtoException _ _ \<Rightarrow> Some e | StdException _ \<Rightarrow> None)\<rparr>)
           | (_, s'') \<Rightarrow> (Faulted, s''))"

definition frameStep :: "'h kernel \<Rightarrow> 'h caller \<Rightarrow> BytecodeModule \<Rightarrow> 'h vm \<Rightarrow> status \<times> 'h vm" where
  "frameStep K call m s =
     (if ip s \<ge> length (code m)
      then (Done (case stack s of [] \<Rightarrow> PROTO_NONE K | v # _ \<Rightarrow> v), s)
      else case step K call m s of
             (Ok None, s') \<Rightarrow> (Running, s')
           | (Ok (Some v), s') \<Rightarrow> (Done v, s')
           | (Raise e, s') \<Rightarrow>
               (if \<not> hasHandlers m then (Escaped e, s')
                else case handlers s' of
                       [] \<Rightarrow> (Escaped e, s')
                     | (target, depth) # hs \<Rightarrow> catchExn K e target depth hs s')
           | (Fault, s') \<Rightarrow> (Faulted, s')
           | (NoFuel, s') \<Rightarrow> (OutOfFuel, s'))"

fun runFrame :: "nat \<Rightarrow> 'h kernel \<Rightarrow> 'h caller \<Rightarrow> BytecodeModule \<Rightarrow> 'h vm \<Rightarrow> status \<times> 'h vm" where
  "runFrame 0 K call m s = (OutOfFuel, s)"
| "runFrame (Suc n) K call m s =
     (case frameStep K call m s of
        (Running, s') \<Rightarrow> runFrame n K call m s'
      | r \<Rightarrow> r)"

text \<open>The prologue of \<^verbatim>\<open>executeFrame\<close>: the arguments, the \<^verbatim>\<open>:keys\<close> slots, the \<^verbatim>\<open>:as\<close> slot and the
  captures are bound to the locals, which start out as nullptr.\<close>

fun setLocals :: "(nat \<times> val) list \<Rightarrow> ('h, unit) act" where
  "setLocals [] = retA ()"
| "setLocals ((i, v) # bs) = thenA (setLocal i v) (setLocals bs)"

definition kwBindings :: "'h kernel \<Rightarrow> BytecodeModule \<Rightarrow> invocation \<Rightarrow> (nat \<times> val) list" where
  "kwBindings K m iv =
     (if isKwBased m then
        map (\<lambda>i. (klocalSlot (kwKeys m ! i), if i < length (kwVals iv) then kwVals iv ! i else PROTO_NONE K))
          [0..<length (kwKeys m)] @
        (case asSlot m of
           None \<Rightarrow> []
         | Some slot \<Rightarrow> [(slot, if kwMap iv \<noteq> 0 then kwMap iv else PROTO_NONE K)])
      else [])"

definition bindCaptures :: "'h kernel \<Rightarrow> BytecodeModule \<Rightarrow> val \<Rightarrow> ('h, unit) act" where
  "bindCaptures K m caps =
     (if captureSpecs m = [] then retA ()
      else if caps = 0 \<or> caps = PROTO_NONE K
      then throwError K ''VM: fn expects captures but none were provided''
      else
        bindA (heapA (\<lambda>h. listElems K h caps)) (\<lambda>clist.
          case clist of
            None \<Rightarrow> throwError K ''VM: captures list size mismatch with body captureSpecs''
          | Some vs \<Rightarrow>
              if length vs \<noteq> length (captureSpecs m)
              then throwError K ''VM: captures list size mismatch with body captureSpecs''
              else setLocals (zip (map clocalSlot (captureSpecs m)) vs)))"

definition bindFrame :: "'h kernel \<Rightarrow> BytecodeModule \<Rightarrow> invocation \<Rightarrow> ('h, unit) act" where
  "bindFrame K m iv =
     thenA (setLocals (enumerate 0 (callArgs iv))) (
     thenA (setLocals (kwBindings K m iv)) (
       bindCaptures K m (captures iv)))"

definition newFrame :: "BytecodeModule \<Rightarrow> nat \<Rightarrow> 'h world \<Rightarrow> 'h vm" where
  "newFrame m maxStack w =
     \<lparr>locals = replicate (arity m + localCount m) 0, stack = [], cap = maxStack, ip = 0, handlers = [],
      caught = [], justCaught = None, dline = 0, world = w\<rparr>"

text \<open>\<^verbatim>\<open>execute\<close>: \<open>fuel\<close> bounds the nesting and the instructions of each frame; \<open>depth\<close> is the number of
  frames on the native stack, and \<open>stackOk\<close> is \<^verbatim>\<open>checkNativeStack\<close>, which raises a
  StackOverflowError. Where the arithmetic of \<^verbatim>\<open>computeMaxStack\<close> leaves the range of \<^verbatim>\<open>int\<close> what
  the code does is undefined, and the run is cut off there as at the end of the fuel.\<close>

fun execute :: "nat \<Rightarrow> (nat \<Rightarrow> exn option) \<Rightarrow> nat \<Rightarrow> 'h kernel \<Rightarrow> 'h caller" where
  "execute 0 stackOk depth K iv w = (NoFuel, w)"
| "execute (Suc fuel) stackOk depth K iv w =
     (case stackOk depth of
        Some e \<Rightarrow> (Raise e, w)
      | None \<Rightarrow>
          let m = moduleAt K (callee iv) in
          case computeMaxStack (\<lambda>p. captureCount (moduleAt K p)) m of
            None \<Rightarrow> (NoFuel, w)
          | Some maxStack \<Rightarrow>
              (case bindFrame K m iv (newFrame m maxStack w) of
                 (Ok _, s) \<Rightarrow>
                   (case runFrame fuel K (execute fuel stackOk (depth + 1) K) m s of
                      (Done v, s') \<Rightarrow> (Ok v, world s')
                    | (Escaped e, s') \<Rightarrow> (Raise e, world s')
                    | (Faulted, s') \<Rightarrow> (Fault, world s')
                    | (_, s') \<Rightarrow> (NoFuel, world s'))
               | (Raise e, s) \<Rightarrow> (Raise e, world s)
               | (Fault, s) \<Rightarrow> (Fault, world s)
               | (NoFuel, s) \<Rightarrow> (NoFuel, world s)))"

end
