(* ===== verification/StackEffects.thy ===== *)
theory StackEffects
  imports Dispatch
begin

text \<open>
  Weakest preconditions of the actions on a frame, the effect of every opcode on the depth of its
  operand stack, what a well-formed body is, and the lemma that one instruction of it stays within
  its slots.
\<close>

named_theorems wp \<open>weakest preconditions of the actions\<close>

section \<open>Weakest preconditions\<close>

text \<open>\<open>wpA a E Q s\<close>: run from \<open>s\<close>, the action does not fault, a value satisfies \<open>Q\<close> and a raise
  leaves a state that satisfies \<open>E\<close>.\<close>

definition wpA :: "('h, 'a) act \<Rightarrow> ('h vm \<Rightarrow> bool) \<Rightarrow> ('a \<Rightarrow> 'h vm \<Rightarrow> bool) \<Rightarrow> 'h vm \<Rightarrow> bool" where
  "wpA a E Q s =
     (case a s of (Ok v, s') \<Rightarrow> Q v s' | (Raise e, s') \<Rightarrow> E s' | (Fault, s') \<Rightarrow> False | (NoFuel, s') \<Rightarrow> True)"

lemma wp_ret [wp]: "wpA (retA v) E Q = Q v"
  by (rule ext) (simp add: wpA_def retA_def)

lemma wp_bind [wp]: "wpA (bindA a f) E Q s = wpA a E (\<lambda>v. wpA (f v) E Q) s"
  by (simp add: wpA_def bindA_def split: prod.split res.split)

lemma wp_if [wp]: "wpA (if b then a else a') E Q s = (if b then wpA a E Q s else wpA a' E Q s)"
  by simp

lemma wp_mono:
  "wpA a E Q s \<Longrightarrow> (\<And>s'. E s' \<Longrightarrow> E' s') \<Longrightarrow> (\<And>v s'. Q v s' \<Longrightarrow> Q' v s') \<Longrightarrow> wpA a E' Q' s"
  by (auto simp: wpA_def split: prod.splits res.splits)

lemma wp_depth [wp]: "wpA depthA E Q s = Q (length (stack s)) s"
  by (simp add: wpA_def depthA_def)

lemma wp_heap [wp]: "wpA (heapA f) E Q s = Q (f (heap (world s))) s"
  by (simp add: wpA_def heapA_def)

lemma wp_push [wp]:
  "wpA (pushVal v) E Q s \<longleftrightarrow> length (stack s) < cap s \<and> Q () (s\<lparr>stack := v # stack s\<rparr>)"
  by (simp add: wpA_def pushVal_def)

lemma wp_peek [wp]: "wpA (peekAt d) E Q s \<longleftrightarrow> d < length (stack s) \<and> Q (stack s ! d) s"
  by (simp add: wpA_def peekAt_def)

lemma wp_drop [wp]:
  "wpA (dropVals n) E Q s \<longleftrightarrow> n \<le> length (stack s) \<and> Q () (s\<lparr>stack := drop n (stack s)\<rparr>)"
  by (simp add: wpA_def dropVals_def)

lemma wp_top [wp]:
  "wpA (topVals n) E Q s \<longleftrightarrow> n \<le> length (stack s) \<and> Q (rev (take n (stack s))) s"
  by (simp add: wpA_def topVals_def)

lemma wp_getLocal [wp]: "wpA (getLocal i) E Q s \<longleftrightarrow> i < length (locals s) \<and> Q (locals s ! i) s"
  by (simp add: wpA_def getLocal_def)

lemma wp_setLocal [wp]:
  "wpA (setLocal i v) E Q s \<longleftrightarrow> i < length (locals s) \<and> Q () (s\<lparr>locals := (locals s)[i := v]\<rparr>)"
  by (simp add: wpA_def setLocal_def)

lemma wp_const [wp]: "wpA (constA m i) E Q s \<longleftrightarrow> i < length (pool m) \<and> Q (pool m ! i) s"
  by (simp add: wpA_def constA_def)

lemma wp_jump [wp]: "wpA (jumpTo t) E Q s = Q () (s\<lparr>ip := t\<rparr>)"
  by (simp add: wpA_def jumpTo_def)

section \<open>What the actions keep\<close>

text \<open>The fields of a frame that only its own instructions change, compared with those of \<open>t\<close>: a frame
  condition for everything that runs native code or a nested call. The world is not compared.\<close>

definition same :: "'h vm \<Rightarrow> 'h vm \<Rightarrow> bool" where
  "same t s \<longleftrightarrow>
     length (locals s) = length (locals t) \<and> handlers s = handlers t \<and> cap t \<le> cap s \<and> ip s = ip t"

text \<open>An action that leaves the stack alone: it may raise or change the world, nothing else.\<close>

definition quiet :: "('h, 'a) act \<Rightarrow> bool" where
  "quiet a \<longleftrightarrow> (\<forall>s. fst (a s) \<noteq> Fault \<and> (\<exists>w. snd (a s) = s\<lparr>world := w\<rparr>))"

lemma quietD:
  assumes "quiet a" "\<And>w. E (s\<lparr>world := w\<rparr>)" "\<And>v w. Q v (s\<lparr>world := w\<rparr>)"
  shows "wpA a E Q s"
proof -
  obtain w where "fst (a s) \<noteq> Fault" "snd (a s) = s\<lparr>world := w\<rparr>" using assms(1) by (auto simp: quiet_def)
  then show ?thesis using assms(2,3) by (cases "a s") (auto simp: wpA_def split: res.split)
qed

lemma same_world: "\<exists>w. s = s\<lparr>world := w\<rparr>"
  by (rule exI [of _ "world s"]) simp

lemma quiet_ret [intro!]: "quiet (retA v)"
  by (simp add: quiet_def retA_def same_world)

lemma quiet_bind [intro!]:
  assumes "quiet a" "\<And>v. quiet (f v)"
  shows "quiet (bindA a f)"
  unfolding quiet_def
proof
  fix s
  obtain r w where r: "a s = (r, s\<lparr>world := w\<rparr>)" "r \<noteq> Fault"
    using assms(1) unfolding quiet_def by (metis prod.collapse)
  show "fst (bindA a f s) \<noteq> Fault \<and> (\<exists>w. snd (bindA a f s) = s\<lparr>world := w\<rparr>)"
  proof (cases r)
    case (Ok v)
    then show ?thesis using r assms(2) [of v, unfolded quiet_def, rule_format, of "s\<lparr>world := w\<rparr>"]
      by (auto simp: bindA_def)
  qed (use r in \<open>auto simp: bindA_def\<close>)
qed

lemma quiet_native [intro!]: "quiet (nativeA f)"
  by (auto simp: quiet_def nativeA_def split: prod.split sum.split)

lemma quiet_raise [intro!]: "quiet (raiseA f)"
  by (auto simp: quiet_def raiseA_def split: prod.split)

lemma quiet_heap [intro!]: "quiet (heapA f)"
  by (simp add: quiet_def heapA_def same_world)

lemma quiet_if [intro!]: "(b \<Longrightarrow> quiet a) \<Longrightarrow> (\<not> b \<Longrightarrow> quiet a') \<Longrightarrow> quiet (if b then a else a')"
  by simp

lemma quiet_prod [intro!]: "(\<And>x y. quiet (f x y)) \<Longrightarrow> quiet (case p of (x, y) \<Rightarrow> f x y)"
  by (cases p) simp

lemma quiet_option [intro!]:
  "quiet a \<Longrightarrow> (\<And>x. quiet (f x)) \<Longrightarrow> quiet (case r of None \<Rightarrow> a | Some x \<Rightarrow> f x)"
  by (cases r) simp_all

lemma quiet_throw [intro!]: "quiet (throwError K msg)" "quiet (throwClassed K cls msg)"
  by (auto simp: throwError_def throwClassed_def)

text \<open>An invocation binds no more arguments than the callee has parameters. A nested call that never faults
  on those leaves this frame's fields alone.\<close>

definition wellBound :: "'h kernel \<Rightarrow> invocation \<Rightarrow> bool" where
  "wellBound K iv \<longleftrightarrow>
     (let m = moduleAt K (callee iv) in length (callArgs iv) \<le> arity m + (if isVariadic m then 1 else 0))"

definition calm :: "'h kernel \<Rightarrow> 'h caller \<Rightarrow> bool" where
  "calm K call \<longleftrightarrow> (\<forall>iv w. wellBound K iv \<longrightarrow> fst (call iv w) \<noteq> Fault)"

lemma quiet_call [intro]: "calm K call \<Longrightarrow> wellBound K iv \<Longrightarrow> quiet (callA call iv)"
  by (auto simp: quiet_def calm_def callA_def split: prod.split) (metis fst_conv)

lemma quiet_bind_result:
  assumes "quiet a" "\<And>s v s'. a s = (Ok v, s') \<Longrightarrow> quiet (f v)"
  shows "quiet (bindA a f)"
proof -
  have "bindA a f = bindA a (\<lambda>v. if \<exists>s s'. a s = (Ok v, s') then f v else retA undefined)"
  proof
    fix s show "bindA a f s = bindA a (\<lambda>v. if \<exists>s s'. a s = (Ok v, s') then f v else retA undefined) s"
      by (cases "a s"; cases "fst (a s)") (auto simp: bindA_def)
  qed
  moreover have "quiet (bindA a (\<lambda>v. if \<exists>s s'. a s = (Ok v, s') then f v else retA undefined))"
    by (rule quiet_bind [OF assms(1)]) (use assms(2) in auto)
  ultimately show ?thesis by simp
qed

lemma quietD_result:
  assumes "quiet a" "\<And>w. E (s\<lparr>world := w\<rparr>)" "\<And>v w s'. a s = (Ok v, s') \<Longrightarrow> Q v (s\<lparr>world := w\<rparr>)"
  shows "wpA a E Q s"
proof -
  obtain w where "fst (a s) \<noteq> Fault" "snd (a s) = s\<lparr>world := w\<rparr>" using assms(1) by (auto simp: quiet_def)
  then show ?thesis using assms(2,3) by (cases "a s") (auto simp: wpA_def split: res.split)
qed

lemma quiet_lookupKeys [intro!]: "quiet (lookupKeys K mp ks)"
  by (induction ks) auto

lemma quiet_extractKwVals [intro!]: "quiet (extractKwVals K sub mp)"
  by (auto simp: extractKwVals_def)

lemma quiet_foldKeywordPairs [intro!]: "quiet (foldKeywordPairs K acc items)"
proof (induction K acc items rule: foldKeywordPairs.induct)
  case (1 K acc items)
  then show ?case by (subst foldKeywordPairs.simps) auto
qed

lemma quiet_callLookup [intro!]: "quiet (callLookup K callable b args)"
  by (auto simp: callLookup_def Let_def)

lemma quiet_callVector [intro!]: "quiet (callVector K v args)"
  by (auto simp: callVector_def Let_def)

lemma quiet_resolveCallee [intro!]: "quiet (resolveCallee K who callable argc)"
  by (auto simp: resolveCallee_def)

lemma quiet_prepareCall [intro!]: "quiet (prepareCall K p caps args n mp)"
  by (auto simp: prepareCall_def Let_def)

lemma prepareCall_bound:
  assumes "prepareCall K p caps args posArgc mp s = (Ok iv, s')"
    "isVariadic (moduleAt K p) \<or> isKwBased (moduleAt K p) \<or> posArgc \<le> arity (moduleAt K p)"
  shows "wellBound K iv"
proof -
  have "callee iv = p \<and> (\<exists>r. callArgs iv = boundArgs (moduleAt K p) args posArgc r)"
    using assms(1) by (auto simp: prepareCall_def Let_def bindA_def retA_def throwError_def raiseA_def split: if_splits prod.splits res.splits)
  with assms(2) show ?thesis by (auto simp: wellBound_def boundArgs_def Let_def)
qed

lemma quiet_prepared:
  "calm K call \<Longrightarrow> isVariadic (moduleAt K p) \<or> isKwBased (moduleAt K p) \<or> posArgc \<le> arity (moduleAt K p) \<Longrightarrow>
   quiet (bindA (prepareCall K p caps args posArgc mp) (callA call))"
  by (rule quiet_bind_result) (blast dest: prepareCall_bound)+

lemma quiet_invokeFn [intro]:
  assumes "calm K call"
  shows "quiet (invokeFn K call callable args)"
  unfolding invokeFn_def Let_def
proof (rule quiet_bind [OF quiet_resolveCallee], rule quiet_prod, rule quiet_bind_result, goal_cases)
  case (2 p caps s v s')
  then show ?case
    by (auto simp: bindA_def retA_def nativeA_def throwError_def raiseA_def split: if_splits prod.splits sum.splits
        intro!: quiet_prepared [OF assms])
qed auto

lemma quiet_callValue [intro!]: "quiet (callValue K msg callable proto args)"
  by (auto simp: callValue_def Let_def)

lemma quiet_invoke [intro]: "calm K call \<Longrightarrow> quiet (invoke K call callable args)"
  by (auto simp: invoke_def)

lemma quiet_pointwise:
  assumes "\<And>s. \<exists>b. quiet b \<and> a s = b s"
  shows "quiet a"
  unfolding quiet_def using assms by (metis quiet_def)

lemma quiet_redefinedOperator [intro!]: "quiet (redefinedOperator K op n)"
proof (rule quiet_pointwise)
  fix s :: "'a vm"
  show "\<exists>b. quiet b \<and> redefinedOperator K op n s = b s"
    unfolding redefinedOperator_def Let_def
    by (cases "getGlobal K (heap (world s)) (createSymbol K (kCoreOperatorNames ! (opcode op - opcode ADD)))")
      (use quiet_ret quiet_throw(1) in \<open>auto\<close>)
qed

lemma quiet_computeBinary [intro!]: "quiet (computeBinary K op a b)"
  by (auto simp: computeBinary_def)

lemma quiet_materialise [intro!]: "quiet (materialise K c)"
  by (auto simp: materialise_def Let_def split: ConstKind.split)

lemma quiet_getMember [intro!]: "quiet (getMember K ob key nm)"
  by (auto simp: getMember_def)

lemma quiet_resolveCatchType [intro!]: "quiet (resolveCatchType K nm)"
  by (auto simp: resolveCatchType_def)

lemma quiet_matchCatchType [intro!]: "quiet (matchCatchType K v ty nm)"
  by (auto simp: matchCatchType_def)

lemma quiet_translateStd [intro]:
  assumes "quiet a"
  shows "quiet (translateStd K a)"
  unfolding quiet_def
proof
  fix s
  obtain r w where r: "a s = (r, s\<lparr>world := w\<rparr>)" "r \<noteq> Fault"
    using assms unfolding quiet_def by (metis prod.collapse)
  have t: "fst (throwClassed K cls msg (s\<lparr>world := w\<rparr>)) \<noteq> Fault"
    "\<exists>w'. snd (throwClassed K cls msg (s\<lparr>world := w\<rparr>)) = s\<lparr>world := w'\<rparr>" for cls msg
    using quiet_throw(2) [of K cls msg, unfolded quiet_def, rule_format, of "s\<lparr>world := w\<rparr>"] by auto
  show "fst (translateStd K a s) \<noteq> Fault \<and> (\<exists>w. snd (translateStd K a s) = s\<lparr>world := w\<rparr>)"
    using r t by (auto simp: translateStd_def split: res.split exn.split)
qed

lemma quiet_callMember [intro]: "calm K call \<Longrightarrow> quiet (callMember K call r c args)"
  by (auto simp: callMember_def)

lemma quiet_throwValue [intro!]: "quiet (throwValue K v)"
  by (auto simp: throwValue_def)

lemma quiet_buildArities [intro!]: "quiet (buildArities K ps caps)"
  by (induction K ps caps rule: buildArities.induct) (auto simp: Let_def)

section \<open>The effect of the opcodes on the stack\<close>

text \<open>From a stack of depth \<open>d\<close> within the capacity: the depth after, and the least depth at which the
  action may raise.\<close>

definition effect :: "('h, 'a) act \<Rightarrow> nat \<Rightarrow> nat \<Rightarrow> nat \<Rightarrow> bool" where
  "effect a d lo d' \<longleftrightarrow>
     (\<forall>s. length (stack s) = d \<longrightarrow> d \<le> cap s \<longrightarrow> d' \<le> cap s \<longrightarrow>
        wpA a (\<lambda>s'. same s s' \<and> lo \<le> length (stack s')) (\<lambda>_ s'. same s s' \<and> length (stack s') = d') s)"

lemma effectI:
  assumes "\<And>s. length (stack s) = d \<Longrightarrow> d \<le> cap s \<Longrightarrow> d' \<le> cap s \<Longrightarrow>
    wpA a (\<lambda>s'. same s s' \<and> lo \<le> length (stack s')) (\<lambda>_ s'. same s s' \<and> length (stack s') = d') s"
  shows "effect a d lo d'"
  using assms by (simp add: effect_def)

text \<open>Proofs: push the precondition through the action, quiet parts by \<open>quietD\<close>.\<close>

lemma same_simps [simp]:
  "same s s" "same s (s'\<lparr>world := w\<rparr>) = same s s'" "same s (s'\<lparr>stack := st\<rparr>) = same s s'"
  "same (s\<lparr>world := w\<rparr>) s' = same s s'" "same (s\<lparr>stack := st\<rparr>) s' = same s s'"
  by (simp_all add: same_def)

lemma same_trans: "same a b \<Longrightarrow> same b c \<Longrightarrow> same a c"
  by (auto simp: same_def)

lemma wp_raise [wp]: "wpA (raiseA f) E Q s = E (s\<lparr>world := snd (f (world s))\<rparr>)"
  by (simp add: wpA_def raiseA_def split: prod.split)

lemma wp_throw [wp]:
  "wpA (throwError K msg) E Q s = E (s\<lparr>world := snd (errorK K msg (world s))\<rparr>)"
  "wpA (throwClassed K cls msg) E Q s = E (s\<lparr>world := snd (classedK K cls msg (world s))\<rparr>)"
  by (simp_all add: throwError_def throwClassed_def wp_raise)

lemmas quiet_wp = quietD [OF quiet_native] quietD [OF quiet_lookupKeys] quietD [OF quiet_extractKwVals]
  quietD [OF quiet_foldKeywordPairs] quietD [OF quiet_callLookup] quietD [OF quiet_callVector]
  quietD [OF quiet_resolveCallee] quietD [OF quiet_redefinedOperator]
  quietD [OF quiet_computeBinary] quietD [OF quiet_materialise] quietD [OF quiet_getMember]
  quietD [OF quiet_resolveCatchType] quietD [OF quiet_matchCatchType]
  quietD [OF quiet_buildArities] quietD [OF quiet_callValue]

lemma wp_prepareCall:
  assumes "isVariadic (moduleAt K p) \<or> isKwBased (moduleAt K p) \<or> posArgc \<le> arity (moduleAt K p)"
    "\<And>w. E (s\<lparr>world := w\<rparr>)" "\<And>iv w. wellBound K iv \<Longrightarrow> Q iv (s\<lparr>world := w\<rparr>)"
  shows "wpA (prepareCall K p caps args posArgc mp) E Q s"
  by (rule quietD_result [OF quiet_prepareCall]) (use assms prepareCall_bound in blast)+

lemma effect_dispatchFn:
  assumes "calm K call" "argc < d"
  shows "effect (dispatchFn K call callable argc) d (d - (argc + 1)) (d - argc)"
  unfolding dispatchFn_def Let_def
  by (rule effectI)
    (use assms(2) in \<open>auto simp: wp split: prod.split
        intro!: quiet_wp wp_prepareCall quietD [OF quiet_call [OF assms(1)]]; arith\<close>)

lemma effect_dispatchCall:
  assumes "calm K call" "argc < d"
  shows "effect (dispatchCall K call argc) d (d - (argc + 1)) (d - argc)"
proof (rule effectI)
  fix s :: "'a vm"
  assume d: "length (stack s) = d" "d \<le> cap s" "d - argc \<le> cap s"
  let ?E = "\<lambda>s'. same s s' \<and> length (stack s) - Suc argc \<le> length (stack s')"
  let ?Q = "\<lambda>_ s'. same s s' \<and> length (stack s') = length (stack s) - argc"
  have fn: "wpA (dispatchFn K call c argc) ?E ?Q (s\<lparr>world := w\<rparr>)" for c w
    using effect_dispatchFn [OF assms, of c, unfolded effect_def, rule_format, of "s\<lparr>world := w\<rparr>"] d
    by simp
  have fn0: "wpA (dispatchFn K call c argc) ?E ?Q s" for c
    using fn [of c "world s"] by simp
  have answer: "wpA (thenA (dropVals (argc + 1)) (pushVal r)) ?E ?Q (s\<lparr>world := w\<rparr>)" for r w
    using d assms(2) by (simp add: wp; arith)
  have rest: "wpA (case fast of Some r \<Rightarrow> thenA (dropVals (argc + 1)) (pushVal r)
      | None \<Rightarrow> bindA (heapA (\<lambda>h. getPrototype K h c)) (\<lambda>proto.
          if proto = fnSingleProto K \<or> proto = fnMultiProto K then dispatchFn K call c argc
          else bindA (callValue K msg c proto args) (\<lambda>r. thenA (dropVals (argc + 1)) (pushVal r))))
      ?E ?Q (s\<lparr>world := w\<rparr>)" for fast c msg args w
    by (cases fast) (use fn in \<open>auto simp: answer wp_bind [of "heapA f" for f] wp_heap
      wp_bind [of "callValue K msg c p args" for p] intro!: quietD [OF quiet_callValue] answer simp del: One_nat_def\<close>)
  have s_world: "s\<lparr>world := world s\<rparr> = s" by simp
  note rest0 = rest [of _ _ _ None "world s", unfolded s_world option.case]
  have "wpA (dispatchCall K call argc) ?E ?Q s"
    unfolding dispatchCall_def Let_def wp_bind [of "peekAt argc"] wp_peek wp_bind [of "topVals argc"] wp_top
      wp_bind [of "if b then a else a'" for b a a'] wp_if
  proof (intro conjI)
    show "argc < length (stack s)" "argc \<le> length (stack s)" using d assms(2) by simp_all
  qed (auto intro!: quietD [OF quiet_native] rest rest0 simp only: wp_ret option.case split: if_splits,
      simp_all)
  then show "wpA (dispatchCall K call argc) (\<lambda>s'. same s s' \<and> d - (argc + 1) \<le> length (stack s'))
    (\<lambda>_ s'. same s s' \<and> length (stack s') = d - argc) s"
    using d by simp
qed

lemma effect_wp:
  assumes "effect a (length (stack s)) lo d'" "length (stack s) \<le> cap s" "d' \<le> cap s"
    "\<And>s'. same s s' \<Longrightarrow> lo \<le> length (stack s') \<Longrightarrow> E s'"
    "\<And>v s'. same s s' \<Longrightarrow> length (stack s') = d' \<Longrightarrow> Q v s'"
  shows "wpA a E Q s"
  using assms(1) unfolding effect_def
  by (rule allE [of _ s]) (use assms(2-5) in \<open>auto elim!: wp_mono\<close>)

lemma wp_reserve [wp]:
  "wpA (reserveStack n) E Q s = Q () (s\<lparr>cap := max (cap s) (length (stack s) + n)\<rparr>)"
proof -
  have "length (stack s) + n \<le> cap s \<Longrightarrow> s\<lparr>cap := max (cap s) (length (stack s) + n)\<rparr> = s"
    by (simp add: max_absorb1)
  then show ?thesis by (auto simp: wpA_def reserveStack_def max_def)
qed

lemma wp_pop [wp]:
  "stack s \<noteq> [] \<Longrightarrow> wpA (popVal K) E Q s = Q (hd (stack s)) (s\<lparr>stack := tl (stack s)\<rparr>)"
  by (cases "stack s") (simp_all add: wpA_def popVal_def)

lemma same_cap [simp]: "cap s \<le> c \<Longrightarrow> same s (s\<lparr>cap := c\<rparr>)"
  by (simp add: same_def)

lemma same_capI: "same (s\<lparr>cap := c\<rparr>) s' \<Longrightarrow> cap s \<le> c \<Longrightarrow> same s s'"
  by (auto simp: same_def)

lemma wp_pushAll:
  "length (stack s) + length vs \<le> cap s \<Longrightarrow>
   wpA (pushAll vs) E Q s = Q () (s\<lparr>stack := rev vs @ stack s\<rparr>)"
  by (induction vs arbitrary: s) (simp_all add: wp)

lemma effect_binary:
  assumes "calm K call" "2 \<le> d"
  shows "effect (execBinary K call op operand) d (d - 2) (d - 1)"
proof (rule effectI)
  fix s :: "'a vm"
  assume d: "length (stack s) = d" "d \<le> cap s" "d - 1 \<le> cap s"
  obtain a b st where st: "stack s = b # a # st" using d(1) assms(2) by (cases "stack s"; cases "tl (stack s)") auto
  let ?E = "\<lambda>s'. same s s' \<and> length st \<le> length (stack s')"
  let ?Q = "\<lambda>_ s'. same s s' \<and> length (stack s') = Suc (length st)"
  have call: "wpA (dispatchCall K call 2) ?E ?Q
      (s\<lparr>world := w, cap := c, stack := b # a # fn # st\<rparr>)" if "cap s \<le> c" "3 + length st \<le> c" for w c fn
    by (rule effect_wp [OF effect_dispatchCall [OF assms(1)]]) (use that in \<open>auto simp: same_def\<close>)
  have "wpA (execBinary K call op operand) ?E ?Q s"
    unfolding execBinary_def using d st
    by (auto simp: wp intro!: quiet_wp call split: option.split)
  then show "wpA (execBinary K call op operand) (\<lambda>s'. same s s' \<and> d - 2 \<le> length (stack s'))
      (\<lambda>_ s'. same s s' \<and> length (stack s') = d - 1) s"
    using d st by auto
qed

lemma effect_callApply:
  assumes "calm K call" "2 \<le> d"
  shows "effect (execCallApply K call) d (d - 2) (d - 1)"
proof (rule effectI)
  fix s :: "'a vm"
  assume d: "length (stack s) = d" "d \<le> cap s" "d - 1 \<le> cap s"
  obtain v f st where st: "stack s = v # f # st" using d(1) assms(2) by (cases "stack s"; cases "tl (stack s)") auto
  let ?E = "\<lambda>s'. same s s' \<and> length st \<le> length (stack s')"
  let ?Q = "\<lambda>_ s'. same s s' \<and> length (stack s') = Suc (length st)"
  have call: "wpA (dispatchCall K call (length vs)) ?E ?Q (s\<lparr>world := w, cap := c, stack := rev vs @ f # st\<rparr>)"
    if "cap s \<le> c" "Suc (length vs + length st) \<le> c" for w c vs
    by (rule effect_wp [OF effect_dispatchCall [OF assms(1)]]) (use that in \<open>auto simp: same_def\<close>)
  have "wpA (execCallApply K call) ?E ?Q s"
    unfolding execCallApply_def using d st
    by (auto simp: wp wp_pushAll add.commute intro!: quiet_wp call split: option.split)
  then show "wpA (execCallApply K call) (\<lambda>s'. same s s' \<and> d - 2 \<le> length (stack s'))
      (\<lambda>_ s'. same s s' \<and> length (stack s') = d - 1) s"
    using d st by auto
qed

lemma split_stack:
  assumes "n \<le> length xs"
  obtains us vs where "xs = us @ vs" "length us = n"
  using assms append_take_drop_id [of n xs] length_take [of n xs] by (metis min.absorb2)

lemma effect_callKw:
  assumes "calm K call" "argc < d"
  shows "effect (execCallKw K call argc) d (d - (argc + 1)) (d - argc)"
proof (rule effectI)
  fix s :: "'a vm"
  assume d: "length (stack s) = d" "d \<le> cap s" "d - argc \<le> cap s"
  obtain us st where st: "stack s = us @ st" "length us = argc + 1"
    using split_stack [of "argc + 1" "stack s"] d(1) assms(2) by auto
  let ?E = "\<lambda>s'. same s s' \<and> length st \<le> length (stack s')"
  let ?Q = "\<lambda>_ s'. same s s' \<and> length (stack s') = Suc (length st)"
  have call: "wpA (dispatchCall K call n) ?E ?Q s'"
    if "same s s'" "length (stack s') = n + 1 + length st" "length (stack s') \<le> cap s'" for n s'
    by (rule effect_wp [OF effect_dispatchCall [OF assms(1)]])
      (use that same_trans [OF that(1)] in auto)
  have "wpA (execCallKw K call argc) ?E ?Q s"
    unfolding execCallKw_def using d st
    by (auto simp: wp Let_def intro!: quiet_wp call split: option.split)
  then show "wpA (execCallKw K call argc) (\<lambda>s'. same s s' \<and> d - (argc + 1) \<le> length (stack s'))
      (\<lambda>_ s'. same s s' \<and> length (stack s') = d - argc) s"
    using d st by auto
qed

lemma effect_makeFn:
  assumes "n = captureCount (moduleAt K (blocks m ! operand))" "operand < length (blocks m)" "n \<le> d"
  shows "effect (execMakeFn K m operand) d (d - n) (d + 1 - n)"
  unfolding execMakeFn_def Let_def
  by (rule effectI) (use assms in \<open>auto simp: wp intro!: quiet_wp; arith\<close>)

lemma effect_makeFnMulti:
  assumes "operand < length (arityGroups m)" "\<forall>b\<in>set (arityGroups m ! operand). b < length (blocks m)"
    "n = groupCaptures (\<lambda>p. captureCount (moduleAt K p)) m operand" "n \<le> d"
  shows "effect (execMakeFnMulti K m operand) d (d - n) (d + 1 - n)"
proof -
  have "n = (\<Sum>p\<leftarrow>map (\<lambda>b. blocks m ! b) (arityGroups m ! operand). captureCount (moduleAt K p))"
    using assms(1-3) by (simp add: groupCaptures_def comp_def)
  then show ?thesis
    unfolding execMakeFnMulti_def Let_def
    by (intro effectI) (use assms(1,2,4) in \<open>auto simp: wp comp_def not_le intro!: quiet_wp; arith\<close>)
qed

section \<open>Well-formed bodies\<close>

text \<open>The values an opcode takes off the stack before anything else of it can raise.\<close>

definition popsOf :: "(modptr \<Rightarrow> nat) \<Rightarrow> BytecodeModule \<Rightarrow> Op \<Rightarrow> nat \<Rightarrow> nat" where
  "popsOf caps m op operand =
     (if op \<in> {CALL, CALL_KW, CALL_MEMBER} then operand + 1
      else if op \<in> {CALL_APPLY, ADD, SUB, MUL, LT, LE, GT, GE, EQ, EXC_MATCH_TYPE} then 2
      else if op \<in> {POP, STORE_LOCAL, STORE_CAUGHT, JUMP_IF_FALSE, JUMP_IF_TRUE, EXC_MATCH, GET_MEMBER} then 1
      else if op = MAKE_FN then caps (blocks m ! operand)
      else if op = MAKE_FN_MULTI then groupCaptures caps m operand
      else 0)"

text \<open>What an instruction reached at depth \<open>d\<close> under the handlers \<open>hs\<close> needs: its pops are there and are
  not the values below the innermost handler, and its operand is in range.\<close>

definition instr_ok ::
  "(modptr \<Rightarrow> nat) \<Rightarrow> BytecodeModule \<Rightarrow> nat \<Rightarrow> nat \<Rightarrow> (nat \<times> nat) list \<Rightarrow> bool" where
  "instr_ok caps m pc d hs \<longleftrightarrow>
     (let operand = instrOperand (code m ! pc) in
      case instrOp (code m ! pc) of
        None \<Rightarrow> False
      | Some op \<Rightarrow>
          popsOf caps m op operand \<le> d \<and>
          (hs \<noteq> [] \<longrightarrow> snd (hd hs) \<le> d - popsOf caps m op operand) \<and>
          (op \<in> {PUSH_LOCAL, PUSH_LOCAL_CLEAR, STORE_LOCAL, STORE_CAUGHT, RETHROW} \<longrightarrow>
             operand < arity m + localCount m) \<and>
          (op \<in> {EXC_MATCH_TYPE, RESOLVE_CLASS, GET_MEMBER} \<longrightarrow> operand < length (pool m)) \<and>
          (op = CALL_MEMBER \<longrightarrow> pc + 1 < length (code m) \<and> instrOp (code m ! (pc + 1)) = Some NOP \<and>
             instrOperand (code m ! (pc + 1)) < length (pool m)) \<and>
          (op = JUMP_BACK \<longrightarrow> operand \<le> pc + 1) \<and>
          (op = TRY_BEGIN \<longrightarrow> hasHandlers m \<and> pc + 1 + operand < length (code m)) \<and>
          (op = TRY_END \<longrightarrow> hs \<noteq> []) \<and>
          (op = MAKE_FN \<longrightarrow> operand < length (blocks m)) \<and>
          (op = MAKE_FN_MULTI \<longrightarrow> operand < length (arityGroups m) \<and>
             (\<forall>b\<in>set (arityGroups m ! operand). b < length (blocks m))))"

text \<open>The handlers after an instruction that falls through.\<close>

definition handlersAfter :: "BytecodeModule \<Rightarrow> nat \<Rightarrow> nat \<Rightarrow> (nat \<times> nat) list \<Rightarrow> (nat \<times> nat) list" where
  "handlersAfter m pc d hs =
     (if instrOp (code m ! pc) = Some TRY_BEGIN then (pc + 1 + instrOperand (code m ! pc), d) # hs
      else if instrOp (code m ! pc) = Some TRY_END then tl hs
      else hs)"

text \<open>An assignment of a depth and of a handler stack to each instruction, such that control flow keeps
  it: what a bytecode verifier would check. A handler's code starts one deeper than its \<open>TRY_BEGIN\<close>,
  under the handlers outside it.\<close>

definition well_formed ::
  "(modptr \<Rightarrow> nat) \<Rightarrow> BytecodeModule \<Rightarrow> (nat \<Rightarrow> nat \<times> (nat \<times> nat) list) \<Rightarrow> bool" where
  "well_formed caps m H \<longleftrightarrow>
     (0 < length (code m) \<longrightarrow> H 0 = (0, [])) \<and>
     (\<forall>pc<length (code m). flows caps m pc (int (fst (H pc))) \<longrightarrow>
        instr_ok caps m pc (fst (H pc)) (snd (H pc)) \<and>
        (\<forall>(j, e)\<in>set (succs caps m pc (int (fst (H pc)))). j < length (code m) \<longrightarrow>
           int (fst (H j)) = e \<and>
           snd (H j) =
             (if instrOp (code m ! pc) = Some TRY_BEGIN \<and> e = int (fst (H pc)) + 1 then snd (H pc)
              else handlersAfter m pc (fst (H pc)) (snd (H pc)))))"

section \<open>One instruction of a well-formed body\<close>

definition lands :: "(modptr \<Rightarrow> nat) \<Rightarrow> BytecodeModule \<Rightarrow> nat \<Rightarrow> nat \<Rightarrow> nat \<Rightarrow> nat \<Rightarrow> bool" where
  "lands caps m pc d j e \<longleftrightarrow>
     (j, int e) \<in> set (succs caps m pc (int d)) \<and> (instrOp (code m ! pc) = Some TRY_BEGIN \<longrightarrow> e = d) \<or>
     instrOp (code m ! pc) = Some CALL_MEMBER \<and> j = pc + 2 \<and> e + instrOperand (code m ! pc) = d"

definition landed ::
  "(modptr \<Rightarrow> nat) \<Rightarrow> BytecodeModule \<Rightarrow> nat \<Rightarrow> nat \<Rightarrow> 'h vm \<Rightarrow> val option \<Rightarrow> 'h vm \<Rightarrow> bool" where
  "landed caps m pc d s r s' \<longleftrightarrow>
     r = None \<longrightarrow>
       length (locals s') = length (locals s) \<and> cap s \<le> cap s' \<and>
       handlers s' = handlersAfter m pc d (handlers s) \<and> lands caps m pc d (ip s') (length (stack s'))"

definition raised :: "nat \<Rightarrow> 'h vm \<Rightarrow> 'h vm \<Rightarrow> bool" where
  "raised lo s s' \<longleftrightarrow>
     length (locals s') = length (locals s) \<and> cap s \<le> cap s' \<and> handlers s' = handlers s \<and>
     lo \<le> length (stack s')"

text \<open>An instruction that falls through at the depth the analysis gives it.\<close>

lemma landed_falls:
  assumes "flowOf caps m pc (int d) = FlowFalls js (int e)" "same s s'" "length (stack s') = e" "ip s = pc + 1"
    "instrOp (code m ! pc) \<noteq> Some TRY_BEGIN" "instrOp (code m ! pc) \<noteq> Some TRY_END"
  shows "landed caps m pc d s r s'"
  using assms by (auto simp: landed_def lands_def succs_def same_def handlersAfter_def)

lemma effect_step:
  assumes "effect a d lo e" "flowOf caps m pc (int d) = FlowFalls js (int e)" "ip s = pc + 1"
    "instrOp (code m ! pc) \<noteq> Some TRY_BEGIN" "instrOp (code m ! pc) \<noteq> Some TRY_END"
    "length (stack s) = d" "d \<le> cap s" "e \<le> cap s"
  shows "wpA (goOn a) (raised lo s) (landed caps m pc d s) s"
proof -
  have "wpA a (raised lo s) (\<lambda>_. landed caps m pc d s None) s"
    by (rule effect_wp [of _ _ lo e])
      (use assms landed_falls [OF assms(2) _ _ assms(3-5)] in \<open>auto simp: same_def raised_def\<close>)
  then show ?thesis by (simp add: wp)
qed

lemma flow_calls:
  assumes "instrOp (code m ! pc) = Some op" "op \<in> {CALL, CALL_KW, CALL_MEMBER}" "instrOperand (code m ! pc) \<le> d"
  shows "flowOf caps m pc (int d) = FlowFalls [] (int (d - instrOperand (code m ! pc)))"
  using assms by (auto simp: flowOf_def Let_def of_nat_diff)

lemma flow_binary:
  assumes "instrOp (code m ! pc) = Some op" "op \<in> {CALL_APPLY, ADD, SUB, MUL, LT, LE, GT, GE, EQ}" "2 \<le> d"
  shows "flowOf caps m pc (int d) = FlowFalls [] (int (d - 1))"
  using assms by (auto simp: flowOf_def Let_def of_nat_diff)

lemma step_binary:
  assumes "calm K call" "instrOp (code m ! pc) = Some op" "op \<in> {ADD, SUB, MUL, LT, LE, GT, GE, EQ}" "2 \<le> d"
    "ip s = pc + 1" "length (stack s) = d" "d \<le> cap s"
  shows "wpA (goOn (execBinary K call op n)) (raised (d - 2) s) (landed caps m pc d s) s"
  by (rule effect_step [OF effect_binary [OF assms(1,4)] flow_binary [OF assms(2)]]) (use assms in auto)

lemma step_call:
  assumes "calm K call" "instrOp (code m ! pc) = Some CALL" "instrOperand (code m ! pc) = n" "n < d"
    "ip s = pc + 1" "length (stack s) = d" "d \<le> cap s"
  shows "wpA (goOn (dispatchCall K call n)) (raised (d - (n + 1)) s) (landed caps m pc d s) s"
  by (rule effect_step [OF effect_dispatchCall [OF assms(1,4)] flow_calls [OF assms(2), of d caps, unfolded assms(3)]])
    (use assms in auto)

lemma step_callKw:
  assumes "calm K call" "instrOp (code m ! pc) = Some CALL_KW" "instrOperand (code m ! pc) = n" "n < d"
    "ip s = pc + 1" "length (stack s) = d" "d \<le> cap s"
  shows "wpA (goOn (execCallKw K call n)) (raised (d - (n + 1)) s) (landed caps m pc d s) s"
  by (rule effect_step [OF effect_callKw [OF assms(1,4)] flow_calls [OF assms(2), of d caps, unfolded assms(3)]])
    (use assms in auto)

lemma step_callApply:
  assumes "calm K call" "instrOp (code m ! pc) = Some CALL_APPLY" "2 \<le> d"
    "ip s = pc + 1" "length (stack s) = d" "d \<le> cap s"
  shows "wpA (goOn (execCallApply K call)) (raised (d - 2) s) (landed caps m pc d s) s"
  by (rule effect_step [OF effect_callApply [OF assms(1,3)] flow_binary [OF assms(2)]]) (use assms in auto)

lemma step_callMember:
  assumes "calm K call" "instrOp (code m ! pc) = Some CALL_MEMBER" "instrOperand (code m ! pc) = n" "n < d"
    "pc + 1 < length (code m)" "instrOperand (code m ! (pc + 1)) < length (pool m)"
    "ip s = pc + 1" "length (stack s) = d" "d \<le> cap s"
  shows "wpA (goOn (execCallMember K call m n)) (raised (d - (n + 1)) s) (landed caps m pc d s) s"
proof -
  have word: "wpA (\<lambda>s. if ip s < length (code m) then (Ok (instrOperand (code m ! ip s)), s\<lparr>ip := ip s + 1\<rparr>)
      else (Fault, s)) E Q s = Q (instrOperand (code m ! (pc + 1))) (s\<lparr>ip := pc + 2\<rparr>)" for E Q
    using assms(5,7) by (simp add: wpA_def)
  show ?thesis
    unfolding execCallMember_def wp_bind word using assms
    by (auto simp: wp raised_def landed_def lands_def handlersAfter_def
        intro!: quietD [OF quiet_callMember [OF assms(1)]])
qed

lemma wp_fun:
  "a s = (Ok v, s') \<Longrightarrow> wpA a E Q s = Q v s'" "a s = (Raise e, s') \<Longrightarrow> wpA a E Q s = E s'"
  by (simp_all add: wpA_def)

lemma wp_popVal:
  "wpA (popVal K) E Q s =
     (case stack s of [] \<Rightarrow> E (s\<lparr>world := snd (errorK K ''VM: operand-stack underflow'' (world s))\<rparr>)
      | v # vs \<Rightarrow> Q v (s\<lparr>stack := vs\<rparr>))"
  by (cases "stack s") (simp_all add: wpA_def popVal_def throwError_def raiseA_def split: prod.split)

lemmas flow_step = succs_def flowOf_def Let_def

lemmas step_defs = raised_def landed_def lands_def handlersAfter_def same_def

lemma step_makeFn:
  assumes "instrOp (code m ! pc) = Some MAKE_FN" "instrOperand (code m ! pc) = n" "n < length (blocks m)"
    "captureCount (moduleAt K (blocks m ! n)) \<le> d" "ip s = pc + 1" "length (stack s) = d" "d \<le> cap s"
    "caps = (\<lambda>p. captureCount (moduleAt K p))" "d + 1 - caps (blocks m ! n) \<le> cap s"
  shows "wpA (goOn (execMakeFn K m n)) (raised (d - caps (blocks m ! n)) s) (landed caps m pc d s) s"
proof -
  have f: "flowOf caps m pc (int d) = FlowFalls [] (int (d + 1 - caps (blocks m ! n)))"
    using assms by (simp add: flowOf_def Let_def of_nat_diff)
  show ?thesis
    by (rule effect_step [OF effect_makeFn [OF _ assms(3)] f]) (use assms in auto)
qed

lemma step_makeFnMulti:
  assumes "instrOp (code m ! pc) = Some MAKE_FN_MULTI" "instrOperand (code m ! pc) = n"
    "n < length (arityGroups m)" "\<forall>b\<in>set (arityGroups m ! n). b < length (blocks m)"
    "groupCaptures caps m n \<le> d" "ip s = pc + 1" "length (stack s) = d" "d \<le> cap s"
    "caps = (\<lambda>p. captureCount (moduleAt K p))" "d + 1 - groupCaptures caps m n \<le> cap s"
  shows "wpA (goOn (execMakeFnMulti K m n)) (raised (d - groupCaptures caps m n) s) (landed caps m pc d s) s"
proof -
  have f: "flowOf caps m pc (int d) = FlowFalls [] (int (d + 1 - groupCaptures caps m n))"
    using assms by (simp add: flowOf_def Let_def of_nat_diff)
  show ?thesis
    by (rule effect_step [OF effect_makeFnMulti [OF assms(3,4)] f]) (use assms in auto)
qed

lemma effect_throw: "lo \<le> d \<Longrightarrow> effect (throwError K msg) d lo e"
  by (rule effectI) (simp add: wp)

lemma effect_if: "(b \<Longrightarrow> effect a d lo e) \<Longrightarrow> (\<not> b \<Longrightarrow> effect a' d lo e) \<Longrightarrow> effect (if b then a else a') d lo e"
  by simp

lemma effect_push:
  assumes "quiet a"
  shows "effect (bindA a pushVal) d d (d + 1)"
  by (rule effectI) (auto simp: wp intro!: quietD [OF assms])

lemma effect_pushVal: "effect (pushVal v) d d (d + 1)"
  by (rule effectI) (simp add: wp)

lemma effect_pushVar: "effect (execPushVar K m n) d d (d + 1)"
  unfolding execPushVar_def Let_def
  by (intro effect_if effect_throw order_refl, rule effectI) (auto simp: wp split: option.split)

lemma effect_dup: "effect (bindA depthA (\<lambda>sp. if sp = 0 then throwError K msg else bindA (peekAt 0) pushVal)) d d (d + 1)"
  by (rule effectI) (simp add: wp)

lemma effect_storeGlobal: "effect (execStoreGlobal K m n) d d d"
  unfolding execStoreGlobal_def Let_def
  by (intro effect_if effect_throw order_refl, rule effectI) (auto simp: wp wp_fun)

lemma effect_excMatch:
  "1 \<le> d \<Longrightarrow> effect (bindA (popVal K) (\<lambda>v. bindA (heapA (f v)) (\<lambda>b. pushVal (g b)))) d (d - 1) d"
  by (rule effectI) (auto simp: wp_popVal wp split: list.split)

lemma effect_ret: "effect (retA v) d d d"
  by (rule effectI) (simp add: wp)

lemma effect_pushConst:
  "effect (if length (pool m) \<le> n then throwError K msg else bindA (materialise K (pool m ! n)) pushVal) d d (d + 1)"
  by (intro effect_if effect_throw order_refl effect_push quiet_materialise)

lemma effect_pop:
  "effect (bindA depthA (\<lambda>sp. if sp = 0 then throwError K msg else dropVals 1)) d (d - 1) (d - 1)"
  by (rule effectI) (auto simp: wp)

lemma effect_line: "effect (\<lambda>s. (Ok (), s\<lparr>dline := x\<rparr>)) d d d"
  by (rule effectI) (simp add: wp_fun same_def)

lemma effect_excMatchType:
  "n < length (pool m) \<Longrightarrow> 2 \<le> d \<Longrightarrow>
   effect (bindA (constA m n) (\<lambda>c. bindA (peekAt 1) (\<lambda>v. bindA (peekAt 0) (\<lambda>ty.
     bindA (matchCatchType K v ty (sval c)) (\<lambda>b. thenA (dropVals 2) (pushVal (boolVal K b))))))) d (d - 2) (d - 1)"
  by (rule effectI) (auto simp: wp intro!: quiet_wp)

lemma effect_getMember:
  "n < length (pool m) \<Longrightarrow> 1 \<le> d \<Longrightarrow>
   effect (bindA (constA m n) (\<lambda>c. bindA (peekAt 0) (\<lambda>ob. bindA (getMember K ob (constKey c) (sval c)) (\<lambda>v.
     thenA (dropVals 1) (pushVal v))))) d (d - 1) d"
  by (rule effectI) (auto simp: wp intro!: quiet_wp)

lemma flow_push:
  assumes "instrOp (code m ! pc) = Some op"
    "op \<in> {PUSH_CONST, PUSH_VAR, PUSH_NIL, PUSH_TRUE, PUSH_FALSE, PUSH_LOCAL, PUSH_LOCAL_CLEAR, DUP, RESOLVE_CLASS}"
  shows "flowOf caps m pc (int d) = FlowFalls [] (int (d + 1))"
  using assms by (auto simp: flowOf_def Let_def)

lemma flow_pop:
  assumes "instrOp (code m ! pc) = Some op" "op \<in> {POP, STORE_LOCAL, STORE_CAUGHT, EXC_MATCH_TYPE}" "1 \<le> d"
  shows "flowOf caps m pc (int d) = FlowFalls [] (int (d - 1))"
  using assms by (auto simp: flowOf_def Let_def of_nat_diff)

lemma flow_keep:
  assumes "instrOp (code m ! pc) = Some op" "op \<in> {NOP, STORE_GLOBAL, EXC_MATCH, GET_MEMBER, LINE, TRY_END}"
  shows "flowOf caps m pc (int d) = FlowFalls [] (int d)"
  using assms by (auto simp: flowOf_def Let_def)

lemma step_pushes:
  assumes "instrOp (code m ! pc) = Some op"
    "op \<in> {PUSH_CONST, PUSH_VAR, PUSH_NIL, PUSH_TRUE, PUSH_FALSE, PUSH_LOCAL, PUSH_LOCAL_CLEAR, DUP, RESOLVE_CLASS}"
    "effect a d d (d + 1)" "ip s = pc + 1" "length (stack s) = d" "d + 1 \<le> cap s"
  shows "wpA (goOn a) (raised d s) (landed caps m pc d s) s"
  by (rule effect_step [OF assms(3) flow_push [OF assms(1,2)]]) (use assms in auto)

lemma step_pushLocal:
  assumes "instrOp (code m ! pc) = Some op" "op \<in> {PUSH_LOCAL, PUSH_LOCAL_CLEAR}"
    "ip s = pc + 1" "length (stack s) = d" "d + 1 \<le> cap s" "n < length (locals s)"
  shows "wpA (goOn (bindA (getLocal n) pushVal)) (raised d s) (landed caps m pc d s) s"
    "wpA (goOn (bindA (getLocal n) (\<lambda>v. thenA (pushVal v) (setLocal n 0)))) (raised d s) (landed caps m pc d s) s"
  using assms flow_push [OF assms(1), of caps d]
  by (auto simp: wp landed_def lands_def succs_def handlersAfter_def)

lemma step_storeLocal:
  assumes "instrOp (code m ! pc) = Some op" "op \<in> {STORE_LOCAL, STORE_CAUGHT}"
    "ip s = pc + 1" "length (stack s) = d" "1 \<le> d" "n < length (locals s)"
  shows "wpA (goOn (bindA (popVal K) (setLocal n))) (raised (d - 1) s) (landed caps m pc d s) s"
  using assms flow_pop [OF assms(1), of d caps]
  by (auto simp: wp wp_popVal landed_def lands_def succs_def handlersAfter_def split: list.split)

lemma step_storeCaught:
  assumes "instrOp (code m ! pc) = Some STORE_CAUGHT"
    "ip s = pc + 1" "length (stack s) = d" "1 \<le> d" "n < length (locals s)"
  shows "wpA (goOn (thenA (storeCaught n) (bindA (popVal K) (setLocal n)))) (raised (d - 1) s) (landed caps m pc d s) s"
  using assms flow_pop [OF assms(1), of d caps]
  by (auto simp: wp wp_popVal wp_fun storeCaught_def landed_def lands_def succs_def handlersAfter_def Let_def
      split: list.split)

lemma step_jumps:
  assumes "instrOp (code m ! pc) = Some op" "instrOperand (code m ! pc) = n" "ip s = pc + 1" "length (stack s) = d"
  shows "op = JUMP \<Longrightarrow> wpA (goOn (\<lambda>s. jumpTo (ip s + n) s)) (raised d s) (landed caps m pc d s) s"
    "op = JUMP_BACK \<Longrightarrow> n \<le> pc + 1 \<Longrightarrow>
       wpA (goOn (\<lambda>s. if n \<le> ip s then jumpTo (ip s - n) s else (Fault, s))) (raised d s) (landed caps m pc d s) s"
    "op = JUMP_IF_FALSE \<Longrightarrow> 1 \<le> d \<Longrightarrow>
       wpA (goOn (bindA (popVal K) (\<lambda>v s. if truthy K v then (Ok (), s) else jumpTo (ip s + n) s)))
         (raised (d - 1) s) (landed caps m pc d s) s"
    "op = JUMP_IF_TRUE \<Longrightarrow> 1 \<le> d \<Longrightarrow>
       wpA (goOn (bindA (popVal K) (\<lambda>v s. if truthy K v then jumpTo (ip s + n) s else (Ok (), s))))
         (raised (d - 1) s) (landed caps m pc d s) s"
  using assms
  by (cases "stack s"; simp add: wpA_def bindA_def retA_def popVal_def jumpTo_def landed_def lands_def
      handlersAfter_def flow_step; force)+

lemma step_keeps:
  assumes "instrOp (code m ! pc) = Some op" "op \<in> {NOP, STORE_GLOBAL, EXC_MATCH, GET_MEMBER, LINE}"
    "effect a d lo d" "ip s = pc + 1" "length (stack s) = d" "d \<le> cap s"
  shows "wpA (goOn a) (raised lo s) (landed caps m pc d s) s"
  by (rule effect_step [OF assms(3) flow_keep [OF assms(1)]]) (use assms in auto)

lemma step_pop:
  assumes "instrOp (code m ! pc) = Some op" "op \<in> {POP, EXC_MATCH_TYPE}"
    "effect a d lo (d - 1)" "1 \<le> d" "ip s = pc + 1" "length (stack s) = d" "d \<le> cap s"
  shows "wpA (goOn a) (raised lo s) (landed caps m pc d s) s"
  by (rule effect_step [OF assms(3) flow_pop [OF assms(1) _ assms(4)]]) (use assms in auto)

lemma effect_dropPush: "1 \<le> n \<Longrightarrow> n \<le> d \<Longrightarrow> effect (thenA (dropVals n) (pushVal v)) d (d - n) (d + 1 - n)"
  by (rule effectI) (auto simp: wp; arith)

lemma step_return:
  "length (stack s) = d \<Longrightarrow>
   wpA (bindA depthA (\<lambda>sp. if sp = 0 then retA (Some x) else bindA (peekAt 0) (\<lambda>v. retA (Some v)))) E
     (landed caps m pc d s) s"
  by (auto simp: wp landed_def)

lemma step_throw:
  "length (stack s) = d \<Longrightarrow>
   wpA (bindA depthA (\<lambda>sp. if sp = 0 then throwError K msg else bindA (peekAt 0) (throwValue K)))
     (raised d s) Q s"
  by (auto simp: wp raised_def throwValue_def)

lemma step_error: "lo \<le> length (stack s) \<Longrightarrow> wpA (goOn (throwError K msg)) (raised lo s) Q s"
  by (simp add: wp raised_def)

lemma step_rethrow:
  "n < length (locals s) \<Longrightarrow> wpA (goOn (execRethrow n)) (raised (length (stack s)) s) Q s"
  by (auto simp: wp_bind wpA_def execRethrow_def bindA_def getLocal_def rethrowValue_def raised_def
      split: option.split)

lemma step_try:
  assumes "length (stack s) = d" "ip s = pc + 1" "instrOperand (code m ! pc) = n"
  shows "instrOp (code m ! pc) = Some TRY_BEGIN \<Longrightarrow>
      wpA (goOn (\<lambda>s. (Ok (), s\<lparr>handlers := (ip s + n, length (stack s)) # handlers s\<rparr>))) (raised d s)
        (landed caps m pc d s) s"
    "instrOp (code m ! pc) = Some TRY_END \<Longrightarrow> handlers s \<noteq> [] \<Longrightarrow>
      wpA (goOn (\<lambda>s. case handlers s of [] \<Rightarrow> throwError K msg s | _ # hs \<Rightarrow> (Ok (), s\<lparr>handlers := hs\<rparr>)))
        (raised d s) (landed caps m pc d s) s"
  using assms
  by (cases "handlers s"; simp add: wpA_def bindA_def retA_def landed_def lands_def handlersAfter_def flow_step)+

text \<open>The effect of an instruction of a well-formed body, opcode by opcode.\<close>

lemma stepOp_safe:
  fixes K :: "'h kernel"
  assumes call: "calm K call"
    and op: "instrOp (code m ! pc) = Some op" "instrOperand (code m ! pc) = n"
    and ok: "instr_ok (\<lambda>p. captureCount (moduleAt K p)) m pc d (handlers s)"
    and s: "length (stack s) = d" "ip s = pc + 1" "d \<le> cap s" "length (locals s) = arity m + localCount m"
    and deep: "\<And>x. afterOf (\<lambda>p. captureCount (moduleAt K p)) m pc (int d) = Some x \<Longrightarrow> x \<le> int (cap s)"
  shows "wpA (stepOp K call m op n) (raised (d - popsOf (\<lambda>p. captureCount (moduleAt K p)) m op n) s)
    (landed (\<lambda>p. captureCount (moduleAt K p)) m pc d s) s"
proof -
  let ?caps = "\<lambda>p. captureCount (moduleAt K p)"
  have need: "popsOf ?caps m op n \<le> d" using ok op by (simp add: instr_ok_def Let_def)
  have up: "d + 1 \<le> cap s"
    if "op \<in> {PUSH_CONST, PUSH_VAR, PUSH_NIL, PUSH_TRUE, PUSH_FALSE, PUSH_LOCAL, PUSH_LOCAL_CLEAR, DUP, RESOLVE_CLASS}"
    using deep flow_push [OF op(1) that, of ?caps d] by (simp add: afterOf_def)
  have mk: "d + 1 - ?caps (blocks m ! n) \<le> cap s" if "op = MAKE_FN"
    using deep [of "int d + 1 - int (?caps (blocks m ! n))"] op that ok need
    by (simp add: afterOf_def flowOf_def instr_ok_def popsOf_def Let_def)
  have mkm: "d + 1 - groupCaptures ?caps m n \<le> cap s" if "op = MAKE_FN_MULTI"
    using deep [of "int d + 1 - int (groupCaptures ?caps m n)"] op that need
    by (simp add: afterOf_def flowOf_def popsOf_def Let_def)
  note I = ok [unfolded instr_ok_def Let_def op option.case]
  show ?thesis
  proof (cases op)
    case NOP
    then show ?thesis using step_keeps [OF op(1) _ effect_ret s(2,1,3)] by (simp add: stepOp_def popsOf_def wp)
  next
    case PUSH_CONST
    then show ?thesis using step_pushes [OF op(1) _ effect_pushConst s(2,1) up]
      by (simp add: stepOp_def popsOf_def split del: if_split)
  next
    case PUSH_VAR
    then show ?thesis using step_pushes [OF op(1) _ effect_pushVar s(2,1) up] by (simp add: stepOp_def popsOf_def)
  next
    case PUSH_NIL
    then show ?thesis using step_pushes [OF op(1) _ effect_pushVal s(2,1) up] by (simp add: stepOp_def popsOf_def)
  next
    case PUSH_TRUE
    then show ?thesis using step_pushes [OF op(1) _ effect_pushVal s(2,1) up] by (simp add: stepOp_def popsOf_def)
  next
    case PUSH_FALSE
    then show ?thesis using step_pushes [OF op(1) _ effect_pushVal s(2,1) up] by (simp add: stepOp_def popsOf_def)
  next
    case DUP
    then show ?thesis using step_pushes [OF op(1) _ effect_dup s(2,1) up] by (simp add: stepOp_def popsOf_def)
  next
    case RESOLVE_CLASS
    then show ?thesis using step_pushes [OF op(1) _ effect_push [OF quiet_resolveCatchType] s(2,1) up] I by (simp add: stepOp_def popsOf_def wp)
  next
    case CALL
    then show ?thesis using step_call [OF call _ op(2) _ s(2,1,3)] op(1) need s(1) by (simp add: stepOp_def popsOf_def wp)
  next
    case CALL_KW
    then show ?thesis using step_callKw [OF call _ op(2) _ s(2,1,3)] op(1) need by (simp add: stepOp_def popsOf_def)
  next
    case CALL_MEMBER
    then show ?thesis using step_callMember [OF call _ op(2) _ _ _ s(2,1,3)] op(1) need I by (simp add: stepOp_def popsOf_def)
  next
    case CALL_APPLY
    then show ?thesis using step_callApply [OF call _ _ s(2,1,3)] op(1) need by (simp add: stepOp_def popsOf_def)
  next
    case ADD
    then show ?thesis using step_binary [OF call op(1) _ _ s(2,1,3)] need by (simp add: stepOp_def popsOf_def)
  next
    case SUB
    then show ?thesis using step_binary [OF call op(1) _ _ s(2,1,3)] need by (simp add: stepOp_def popsOf_def)
  next
    case MUL
    then show ?thesis using step_binary [OF call op(1) _ _ s(2,1,3)] need by (simp add: stepOp_def popsOf_def)
  next
    case LT
    then show ?thesis using step_binary [OF call op(1) _ _ s(2,1,3)] need by (simp add: stepOp_def popsOf_def)
  next
    case LE
    then show ?thesis using step_binary [OF call op(1) _ _ s(2,1,3)] need by (simp add: stepOp_def popsOf_def)
  next
    case GT
    then show ?thesis using step_binary [OF call op(1) _ _ s(2,1,3)] need by (simp add: stepOp_def popsOf_def)
  next
    case GE
    then show ?thesis using step_binary [OF call op(1) _ _ s(2,1,3)] need by (simp add: stepOp_def popsOf_def)
  next
    case EQ
    then show ?thesis using step_binary [OF call op(1) _ _ s(2,1,3)] need by (simp add: stepOp_def popsOf_def)
  next
    case POP
    then show ?thesis using step_pop [OF op(1) _ effect_pop _ s(2,1,3)] need by (simp add: stepOp_def popsOf_def)
  next
    case RETURN
    then show ?thesis using step_return [OF s(1)] by (simp add: stepOp_def popsOf_def)
  next
    case STORE_GLOBAL
    then show ?thesis using step_keeps [OF op(1) _ effect_storeGlobal s(2,1,3)] by (simp add: stepOp_def popsOf_def)
  next
    case JUMP
    then show ?thesis using step_jumps(1) [OF op s(2,1)] by (simp add: stepOp_def popsOf_def)
  next
    case JUMP_BACK
    then show ?thesis using step_jumps(2) [OF op s(2,1)] I by (simp add: stepOp_def popsOf_def)
  next
    case JUMP_IF_FALSE
    then show ?thesis using step_jumps(3) [OF op s(2,1)] need by (simp add: stepOp_def popsOf_def)
  next
    case JUMP_IF_TRUE
    then show ?thesis using step_jumps(4) [OF op s(2,1)] need by (simp add: stepOp_def popsOf_def)
  next
    case PUSH_LOCAL
    then show ?thesis using step_pushLocal(1) [OF op(1) _ s(2,1) up] I s(4) by (simp add: stepOp_def popsOf_def)
  next
    case PUSH_LOCAL_CLEAR
    then show ?thesis using step_pushLocal(2) [OF op(1) _ s(2,1) up] I s(4) by (simp add: stepOp_def popsOf_def)
  next
    case STORE_LOCAL
    then show ?thesis using step_storeLocal [OF op(1) _ s(2,1)] need I s(1,4) by (simp add: stepOp_def popsOf_def wp)
  next
    case STORE_CAUGHT
    then show ?thesis using step_storeCaught [OF _ s(2,1)] step_error [of "d - 1" s] op(1) need I s(1,4)
      by (simp add: stepOp_def popsOf_def)
  next
    case MAKE_FN
    then show ?thesis using step_makeFn [OF _ op(2) _ _ s(2,1,3) refl] op(1) need I mk by (simp add: stepOp_def popsOf_def)
  next
    case MAKE_FN_MULTI
    then show ?thesis using step_makeFnMulti [OF _ op(2) _ _ _ s(2,1,3) refl] op(1) need I mkm by (simp add: stepOp_def popsOf_def)
  next
    case TRY_BEGIN
    then show ?thesis using step_try(1) [OF s(1,2) op(2)] op(1) I by (simp add: stepOp_def popsOf_def)
  next
    case TRY_END
    then show ?thesis using step_try(2) [OF s(1,2) op(2)] op(1) I by (simp add: stepOp_def popsOf_def)
  next
    case THROW
    then show ?thesis using step_throw [OF s(1)] by (simp add: stepOp_def popsOf_def)
  next
    case EXC_MATCH
    then show ?thesis using step_keeps [OF op(1) _ effect_excMatch s(2,1,3)] need by (simp add: stepOp_def popsOf_def)
  next
    case RETHROW
    then show ?thesis using step_rethrow [of n s] I s(1,4) by (simp add: stepOp_def popsOf_def)
  next
    case EXC_MATCH_TYPE
    then show ?thesis using step_pop [OF op(1) _ effect_excMatchType _ s(2,1,3)] need I by (simp add: stepOp_def popsOf_def)
  next
    case GET_MEMBER
    then show ?thesis using step_keeps [OF op(1) _ effect_getMember s(2,1,3)] need I by (simp add: stepOp_def popsOf_def)
  next
    case LINE
    then show ?thesis using step_keeps [OF op(1) _ effect_line s(2,1,3)] by (simp add: stepOp_def popsOf_def)
  qed
qed

end
