(* ===== verification/StackSafety.thy ===== *)
theory StackSafety
  imports StackEffects
begin

text \<open>
  The frames of well-formed bodies: the invariant of the dispatch loop, with its handlers, and the
  properties of the engine that rest on it. The stack stays within the capacity \<^verbatim>\<open>computeMaxStack\<close> gave
  it on every path, exceptional paths included, although no push of the loop tests the capacity.
\<close>

section \<open>The frame\<close>

text \<open>The invariant of a frame that runs a well-formed body with the capacity \<open>r\<close> of its analysis.\<close>

fun handlers_ok ::
  "(modptr \<Rightarrow> nat) \<Rightarrow> BytecodeModule \<Rightarrow> (nat \<Rightarrow> nat \<times> (nat \<times> nat) list) \<Rightarrow> (nat \<times> nat) list \<Rightarrow> bool" where
  "handlers_ok caps m H [] = True"
| "handlers_ok caps m H ((t, d) # hs) \<longleftrightarrow>
     t < length (code m) \<and> flows caps m t (int d + 1) \<and> H t = (d + 1, hs) \<and> handlers_ok caps m H hs"

definition frame_ok ::
  "(modptr \<Rightarrow> nat) \<Rightarrow> BytecodeModule \<Rightarrow> (nat \<Rightarrow> nat \<times> (nat \<times> nat) list) \<Rightarrow> nat \<Rightarrow> 'h vm \<Rightarrow> bool" where
  "frame_ok caps m H r s \<longleftrightarrow>
     length (locals s) = arity m + localCount m \<and> r \<le> cap s \<and> length (stack s) \<le> r \<and>
     handlers_ok caps m H (handlers s) \<and>
     (ip s < length (code m) \<longrightarrow>
        flows caps m (ip s) (int (length (stack s))) \<and> H (ip s) = (length (stack s), handlers s))"

lemma well_formedD:
  assumes "well_formed caps m H" "flows caps m pc (int d)" "H pc = (d, hs)"
  shows "instr_ok caps m pc d hs"
    and "(j, e) \<in> set (succs caps m pc (int d)) \<Longrightarrow> j < length (code m) \<Longrightarrow>
      int (fst (H j)) = e \<and> snd (H j) = (if instrOp (code m ! pc) = Some TRY_BEGIN \<and> e = int d + 1 then hs
        else handlersAfter m pc d hs)"
proof -
  have pc: "pc < length (code m)" using flows_range [OF assms(2)] by simp
  show "instr_ok caps m pc d hs" using assms pc unfolding well_formed_def by fastforce
  show "(j, e) \<in> set (succs caps m pc (int d)) \<Longrightarrow> j < length (code m) \<Longrightarrow>
      int (fst (H j)) = e \<and> snd (H j) = (if instrOp (code m ! pc) = Some TRY_BEGIN \<and> e = int d + 1 then hs
        else handlersAfter m pc d hs)"
    using assms pc unfolding well_formed_def by fastforce
qed

lemma handlersAfter_ok:
  assumes "well_formed caps m H" "flows caps m pc (int d)" "H pc = (d, hs)" "handlers_ok caps m H hs"
  shows "handlers_ok caps m H (handlersAfter m pc d hs)"
proof -
  let ?n = "instrOperand (code m ! pc)"
  note ok = well_formedD(1) [OF assms(1-3)] and succ = well_formedD(2) [OF assms(1-3)]
  show ?thesis
  proof (cases "instrOp (code m ! pc) = Some TRY_BEGIN")
    case True
    let ?t = "pc + 1 + ?n"
    have t: "?t < length (code m)" using ok True by (simp add: instr_ok_def Let_def)
    have s: "(?t, int d + 1) \<in> set (succs caps m pc (int d))" using True by (simp add: flow_step)
    have "flows caps m ?t (int d + 1)" by (rule flows_step [OF assms(2) s t]) simp
    moreover have "H ?t = (d + 1, hs)" using succ [OF s t] True by (cases "H ?t") auto
    ultimately show ?thesis using True t assms(4) by (simp add: handlersAfter_def)
  next
    case False
    then show ?thesis using assms(4) by (cases hs) (auto simp: handlersAfter_def)
  qed
qed

lemma succs_depth:
  "(j, e) \<in> set (succs caps m pc d) \<Longrightarrow>
     afterOf caps m pc d = Some e \<or> e \<le> d \<or> instrOp (code m ! pc) = Some TRY_BEGIN \<and> e = d + 1"
  by (auto simp: afterOf_def flow_step split: option.splits if_splits)

text \<open>A normal step keeps the flow, the assignment and the handlers together.\<close>

lemma succ_typed:
  assumes "well_formed caps m H" "flows caps m pc (int d)" "H pc = (d, hs)"
    "(j, int e) \<in> set (succs caps m pc (int d))" "instrOp (code m ! pc) = Some TRY_BEGIN \<longrightarrow> e = d"
    "j < length (code m)"
  shows "flows caps m j (int e) \<and> H j = (e, handlersAfter m pc d hs)"
  using flows_step [OF assms(2,4,6)] well_formedD(2) [OF assms(1-4,6)] assms(5) by (cases "H j") auto

lemma call_member_typed:
  assumes wf: "well_formed caps m H" "flows caps m pc (int d)" "H pc = (d, hs)"
    and op: "instrOp (code m ! pc) = Some CALL_MEMBER" "e + instrOperand (code m ! pc) = d"
    and pc2: "pc + 2 < length (code m)"
  shows "flows caps m (pc + 2) (int e) \<and> H (pc + 2) = (e, hs)"
proof -
  have "instrOp (code m ! (pc + 1)) = Some NOP" "pc + 1 < length (code m)"
    using well_formedD(1) [OF wf] op(1) by (simp_all add: instr_ok_def Let_def)
  moreover have "flows caps m (pc + 1) (int e) \<and> H (pc + 1) = (e, handlersAfter m pc d hs)"
    by (rule succ_typed [OF wf]) (use op pc2 in \<open>auto simp: flow_step\<close>)
  moreover have "handlersAfter m pc d hs = hs" using op(1) by (simp add: handlersAfter_def)
  ultimately show ?thesis
    using succ_typed [OF wf(1), of "pc + 1" e hs "pc + 2" e] pc2
    by (simp add: flow_step handlersAfter_def)
qed

lemma landed_frame_ok:
  assumes wf: "well_formed caps m H" and r: "\<And>x. deepAt caps m x \<Longrightarrow> x \<le> int r"
    and s: "frame_ok caps m H r s" "ip s = pc" "pc < length (code m)" "length (stack s) = d"
    and l: "lands caps m pc d (ip s') (length (stack s'))"
    and s': "length (locals s') = length (locals s)" "cap s \<le> cap s'"
      "handlers s' = handlersAfter m pc d (handlers s)"
  shows "frame_ok caps m H r s'"
proof -
  have f: "flows caps m pc (int d)" "H pc = (d, handlers s)" "handlers_ok caps m H (handlers s)" "d \<le> r"
    using s by (auto simp: frame_ok_def)
  have hs: "handlers_ok caps m H (handlers s')"
    using handlersAfter_ok [OF wf f(1-3)] s'(3) by simp
  have le: "length (stack s') \<le> r"
  proof (cases "instrOp (code m ! pc) = Some CALL_MEMBER \<and> length (stack s') + instrOperand (code m ! pc) = d")
    case False
    then have succ: "(ip s', int (length (stack s'))) \<in> set (succs caps m pc (int d))"
      "instrOp (code m ! pc) = Some TRY_BEGIN \<longrightarrow> length (stack s') = d" using l by (auto simp: lands_def)
    have "deepAt caps m (int (length (stack s')))" if "afterOf caps m pc (int d) = Some (int (length (stack s')))"
      using that f(1) by (auto simp: deepAt_def)
    then show ?thesis using succs_depth [OF succ(1)] succ(2) r f(4) by fastforce
  qed (use f(4) in auto)
  have "flows caps m (ip s') (int (length (stack s'))) \<and> H (ip s') = (length (stack s'), handlers s')"
    if "ip s' < length (code m)"
    using l [unfolded lands_def] that s'(3) succ_typed [OF wf f(1,2)] call_member_typed [OF wf f(1,2)]
    by (auto simp: handlersAfter_def)
  with hs le s(1) s'(1,2) show ?thesis by (simp add: frame_ok_def)
qed

lemma catch_frame_ok:
  assumes r: "\<And>x. deepAt caps m x \<Longrightarrow> x \<le> int r"
    and s: "length (locals s) = arity m + localCount m" "r \<le> cap s" "d \<le> length (stack s)"
    and h: "handlers_ok caps m H ((t, d) # hs)"
  shows "\<exists>s'. catchExn K e t d hs s = (Running, s') \<and> frame_ok caps m H r s'"
proof -
  have "deepAt caps m (int d + 1)" using h by (auto simp: deepAt_def)
  then have "d < r" using r by fastforce
  with s h show ?thesis
    by (auto simp: catchExn_def Let_def pushVal_def frame_ok_def add.commute split: prod.split)
qed

lemma frameStep_safe:
  fixes K :: "'h kernel"
  defines "caps \<equiv> \<lambda>p. captureCount (moduleAt K p)"
  assumes wf: "well_formed caps m H" and call: "calm K call"
    and r: "\<And>x. deepAt caps m x \<Longrightarrow> x \<le> int r" and s: "frame_ok caps m H r s"
  shows "case frameStep K call m s of (Running, s') \<Rightarrow> frame_ok caps m H r s' | (Faulted, s') \<Rightarrow> False | _ \<Rightarrow> True"
proof (cases "ip s < length (code m)")
  case False
  then show ?thesis by (simp add: frameStep_def)
next
  case True
  define pc d where "pc = ip s" and "d = length (stack s)"
  let ?s = "s\<lparr>ip := pc + 1\<rparr>"
  have f: "flows caps m pc (int d)" "H pc = (d, handlers s)" "d \<le> r" "r \<le> cap s"
    "length (locals s) = arity m + localCount m" "handlers_ok caps m H (handlers s)"
    using s True by (auto simp: frame_ok_def pc_def d_def)
  note ok = well_formedD(1) [OF wf f(1,2)]
  obtain op where op: "instrOp (code m ! pc) = Some op"
    using ok by (auto simp: instr_ok_def Let_def split: option.splits)
  let ?n = "instrOperand (code m ! pc)"
  have deep: "x \<le> int (cap ?s)" if "afterOf caps m pc (int d) = Some x" for x
  proof -
    have "deepAt caps m x" using that f(1) by (auto simp: deepAt_def)
    then show ?thesis using r f(4) by fastforce
  qed
  have step: "step K call m s = stepOp K call m op ?n ?s"
    using op by (simp add: step_def pc_def Let_def)
  have wp: "wpA (stepOp K call m op ?n) (raised (d - popsOf caps m op ?n) ?s) (landed caps m pc d ?s) ?s"
    unfolding caps_def
    by (rule stepOp_safe [OF call op refl]) (use ok f deep in \<open>auto simp: caps_def d_def\<close>)
  show ?thesis
  proof (cases "stepOp K call m op ?n ?s")
    case (Pair res s')
    show ?thesis
    proof (cases res)
      case (Ok v)
      then have l: "landed caps m pc d ?s v s'" using wp Pair by (simp add: wpA_def)
      show ?thesis
      proof (cases v)
        case None
        have "frame_ok caps m H r s'"
          by (rule landed_frame_ok [OF wf r s]) (use l None True in \<open>auto simp: landed_def pc_def d_def\<close>)
        then show ?thesis using True step Pair Ok None by (simp add: frameStep_def)
      qed (use True step Pair Ok in \<open>simp add: frameStep_def\<close>)
    next
      case (Raise e)
      then have raised: "raised (d - popsOf caps m op ?n) ?s s'" using wp Pair by (simp add: wpA_def)
      show ?thesis
      proof (cases "hasHandlers m \<and> handlers s \<noteq> []")
        case False
        then show ?thesis using True step Pair Raise raised by (auto simp: frameStep_def raised_def)
      next
        case hs: True
        then obtain t dh hs' where h: "handlers s = (t, dh) # hs'" by (cases "handlers s") auto
        have "dh \<le> d - popsOf caps m op ?n" using ok op h by (simp add: instr_ok_def Let_def)
        then have "\<exists>s''. catchExn K e t dh hs' s' = (Running, s'') \<and> frame_ok caps m H r s''"
          by (intro catch_frame_ok [OF r]) (use raised f h in \<open>auto simp: raised_def\<close>)
        then show ?thesis using True step Pair Raise raised h hs by (auto simp: frameStep_def raised_def)
      qed
    next
      case Fault
      then show ?thesis using wp Pair by (simp add: wpA_def)
    next
      case NoFuel
      then show ?thesis using True step Pair by (simp add: frameStep_def)
    qed
  qed
qed

lemma runFrame_safe:
  fixes K :: "'h kernel"
  defines "caps \<equiv> \<lambda>p. captureCount (moduleAt K p)"
  assumes wf: "well_formed caps m H" and call: "calm K call"
    and r: "\<And>x. deepAt caps m x \<Longrightarrow> x \<le> int r"
  shows "frame_ok caps m H r s \<Longrightarrow> fst (runFrame fuel K call m s) \<noteq> Faulted"
proof (induction fuel arbitrary: s)
  case (Suc fuel)
  have "case frameStep K call m s of (Running, s') \<Rightarrow> frame_ok caps m H r s' | (Faulted, s') \<Rightarrow> False | _ \<Rightarrow> True"
    unfolding caps_def
    by (rule frameStep_safe [OF wf [unfolded caps_def] call]) (use r Suc.prems in \<open>auto simp: caps_def\<close>)
  then show ?case using Suc.IH by (auto split: prod.splits status.splits)
qed simp

text \<open>Each instruction of a well-formed body is reached at one depth, and a path passes every depth below
  the one it reaches: so no depth reaches the number of instructions, and the arithmetic of the analysis
  stays in range.\<close>

lemma well_formed_depth: "well_formed caps m H \<Longrightarrow> flows caps m pc e \<Longrightarrow> e = int (fst (H pc))"
proof -
  assume wf: "well_formed caps m H"
  show "flows caps m pc e \<Longrightarrow> e = int (fst (H pc))"
  proof (induction rule: flows.induct)
    case flows_start
    then show ?case using wf by (simp add: well_formed_def)
  next
    case (flows_step i d j e)
    then have "flows caps m i (int (fst (H i)))" by simp
    with wf flows_step show ?case
      using well_formedD(2) [OF wf, of i "fst (H i)" "snd (H i)" j e] by simp
  qed
qed

lemma succs_rise: "(j, e) \<in> set (succs caps m i d) \<Longrightarrow> e \<le> d + 1"
  by (auto simp: flow_step split: option.splits if_splits)

lemma flows_below: "flows caps m i d \<Longrightarrow> 0 \<le> k \<Longrightarrow> k \<le> d \<Longrightarrow> \<exists>j. flows caps m j k"
proof (induction rule: flows.induct)
  case flows_start
  then show ?case using flows.flows_start [of m caps] by auto
next
  case (flows_step i d j e)
  then have "flows caps m j e" by (blast intro: flows.flows_step)
  moreover have "k \<le> d \<or> k = e" using flows_step.prems succs_rise [OF flows_step.hyps(2)] by linarith
  ultimately show ?case using flows_step by blast
qed

lemma well_formed_low: "well_formed caps m H \<Longrightarrow> flows caps m i d \<Longrightarrow> d < int (length (code m))"
proof -
  assume wf: "well_formed caps m H" and f: "flows caps m i d"
  have "{0..d} \<subseteq> (\<lambda>pc. int (fst (H pc))) ` {..<length (code m)}"
  proof
    fix k assume "k \<in> {0..d}"
    then obtain j where "flows caps m j k" using flows_below [OF f] by auto
    then show "k \<in> (\<lambda>pc. int (fst (H pc))) ` {..<length (code m)}"
      using well_formed_depth [OF wf] flows_range by blast
  qed
  from card_mono [OF _ this] card_image_le [of "{..<length (code m)}" "\<lambda>pc. int (fst (H pc))"]
  show ?thesis using flows_range [OF f] by simp
qed

lemma well_formed_maxStack:
  assumes "well_formed caps m H" "code_ok m" "length (code m) < 2 ^ 31"
  shows "\<exists>r. computeMaxStack caps m = Some r"
proof -
  have "\<not> overflows caps m i d" if f: "flows caps m i d" for i d
  proof -
    have i: "i < length (code m)" "0 \<le> d" "d = int (fst (H i))" "d < int (length (code m))"
      using flows_range [OF f] well_formed_depth [OF assms(1) f] well_formed_low [OF assms(1) f] by auto
    moreover have "int (length (code m)) \<le> intMax" using assms(3) by (simp add: intMax_def)
    moreover have "raises m i \<le> 1" by (simp add: raises_def split: option.split)
    moreover have "capturesAt caps m i \<le> fst (H i)"
      using well_formedD(1) [OF assms(1), of i "fst (H i)" "snd (H i)"] f i(3) by (auto simp: instr_ok_def popsOf_def capturesAt_def Let_def)
    ultimately show ?thesis by (simp add: overflows_def)
  qed
  then show ?thesis using computeMaxStack_cases [of m caps] assms(2) by (auto simp: code_ok_def split: option.splits)
qed

lemma bindFrame_keeps:
  assumes "bindFrame K m iv s = (Ok u, s')"
  shows "length (locals s') = length (locals s) \<and> cap s' = cap s \<and> stack s' = stack s \<and>
    handlers s' = handlers s \<and> ip s' = ip s"
proof -
  let ?I = "\<lambda>t. length (locals t) = length (locals s) \<and> cap t = cap s \<and> stack t = stack s \<and>
    handlers t = handlers s \<and> ip t = ip s"
  have locals: "setLocals bs t = (Ok u', t') \<Longrightarrow> ?I t \<Longrightarrow> ?I t'" for bs t t' u'
    by (induction bs arbitrary: t) (auto simp: retA_def bindA_def setLocal_def split: if_splits prod.splits)
  have caps: "bindCaptures K m c t = (Ok u', t') \<Longrightarrow> ?I t \<Longrightarrow> ?I t'" for c t t' u'
    using locals
    by (auto simp: bindCaptures_def retA_def bindA_def heapA_def throwError_def raiseA_def
        split: if_splits option.splits prod.splits)
  obtain u1 t1 u2 t2 where "setLocals (enumerate 0 (callArgs iv)) s = (Ok u1, t1)"
    "setLocals (kwBindings K m iv) t1 = (Ok u2, t2)" "bindCaptures K m (captures iv) t2 = (Ok u, s')"
    using assms by (auto simp: bindFrame_def bindA_def split: prod.splits res.splits)
  then show ?thesis using locals caps by metis
qed

lemma well_formed_runs:
  assumes "well_formed (\<lambda>p. captureCount (moduleAt K p)) m H" "code_ok m" "calm K call"
    "computeMaxStack (\<lambda>p. captureCount (moduleAt K p)) m = Some r" "bindFrame K m iv (newFrame m r w) = (Ok u, s)"
  shows "fst (runFrame fuel K call m s) \<noteq> Faulted"
proof -
  let ?caps = "\<lambda>p. captureCount (moduleAt K p)"
  have r: "\<And>x. deepAt ?caps m x \<Longrightarrow> x \<le> int r"
    using computeMaxStack_bounds(1) [OF assms(4)] assms(2) by (auto simp: code_ok_def)
  show ?thesis
  proof (rule runFrame_safe [OF assms(1,3) r])
    have "H 0 = (0, [])" if "0 < length (code m)" using assms(1) that by (simp add: well_formed_def)
    then show "frame_ok ?caps m H r s"
      using bindFrame_keeps [OF assms(5)] flows_start [of m ?caps] by (auto simp: newFrame_def frame_ok_def)
  qed
qed

text \<open>A body with a \<^verbatim>\<open>try\<close> whose handler stores the exception and answers nil.\<close>

definition tryBody :: BytecodeModule where
  "tryBody = emptyModule\<lparr>localCount := 1, hasHandlers := True,
     code := [encodeInstr TRY_BEGIN 3, encodeInstr PUSH_NIL 0, encodeInstr TRY_END 0, encodeInstr RETURN 0,
              encodeInstr STORE_CAUGHT 0, encodeInstr PUSH_NIL 0, encodeInstr RETURN 0]\<rparr>"

definition tryBodyMap :: "nat \<Rightarrow> nat \<times> (nat \<times> nat) list" where
  "tryBodyMap pc = [(0, []), (0, [(4, 0)]), (1, [(4, 0)]), (1, []), (1, []), (0, []), (1, [])] ! pc"

lemma decode_three [simp]: "instrOp (encodeInstr op 3) = Some op" "instrOperand (encodeInstr op 3) = 3"
  using instr_decode [of 3 op] by (simp_all add: kMaxOperand_def)

lemma tryBody_code [simp]:
  "code tryBody = [encodeInstr TRY_BEGIN 3, encodeInstr PUSH_NIL 0, encodeInstr TRY_END 0, encodeInstr RETURN 0,
     encodeInstr STORE_CAUGHT 0, encodeInstr PUSH_NIL 0, encodeInstr RETURN 0]"
  "localCount tryBody = 1" "hasHandlers tryBody"
  by (simp_all add: tryBody_def)

lemma tryBody_pc: "pc < length (code tryBody) \<Longrightarrow> pc = 0 \<or> pc = 1 \<or> pc = 2 \<or> pc = 3 \<or> pc = 4 \<or> pc = 5 \<or> pc = 6"
  by simp arith

lemma tryBody_well_formed: "well_formed caps tryBody tryBodyMap" "code_ok tryBody"
proof -
  have "instr_ok caps tryBody pc (fst (tryBodyMap pc)) (snd (tryBodyMap pc)) \<and>
      (\<forall>(j, e)\<in>set (succs caps tryBody pc (int (fst (tryBodyMap pc)))). j < length (code tryBody) \<longrightarrow>
         int (fst (tryBodyMap j)) = e \<and>
         snd (tryBodyMap j) =
           (if instrOp (code tryBody ! pc) = Some TRY_BEGIN \<and> e = int (fst (tryBodyMap pc)) + 1 then snd (tryBodyMap pc)
            else handlersAfter tryBody pc (fst (tryBodyMap pc)) (snd (tryBodyMap pc))))"
    if "pc < length (code tryBody)" for pc
    using tryBody_pc [OF that]
    by (elim disjE; simp add: instr_ok_def popsOf_def tryBodyMap_def flow_step handlersAfter_def)
  then show "well_formed caps tryBody tryBodyMap" by (simp add: well_formed_def tryBodyMap_def)
  show "code_ok tryBody" by (simp add: code_ok_def tryBody_def)
qed

section \<open>Properties\<close>

text \<open>C3. The operand stack is safe: for every body that a bytecode verifier would accept, the analysis
  \<^verbatim>\<open>computeMaxStack\<close> ends, its arithmetic in the range of \<^verbatim>\<open>int\<close> while the body has fewer than \<open>2 ^ 31\<close>
  instructions, and a frame given the capacity it answers never writes past it and never reads or writes
  outside its own slots, however long it runs, whatever the values, the primitives and the nested
  calls do, and whichever exceptions its handlers catch. (The dispatch loop tests no push.)\<close>

theorem frame_never_faults:
  fixes K :: "'h kernel"
  assumes "well_formed (\<lambda>p. captureCount (moduleAt K p)) m H" "code_ok m" "calm K call"
  shows "(length (code m) < 2 ^ 31 \<longrightarrow> (\<exists>r. computeMaxStack (\<lambda>p. captureCount (moduleAt K p)) m = Some r)) \<and>
    (\<forall>r iv w u s fuel. computeMaxStack (\<lambda>p. captureCount (moduleAt K p)) m = Some r \<longrightarrow>
       bindFrame K m iv (newFrame m r w) = (Ok u, s) \<longrightarrow> fst (runFrame fuel K call m s) \<noteq> Faulted)"
  using well_formed_maxStack [OF assms(1,2)] well_formed_runs [OF assms] by blast

theorem frame_never_faults_witness:
  "\<forall>K :: unit kernel. \<exists>r. computeMaxStack (\<lambda>p. captureCount (moduleAt K p)) tryBody = Some r \<and>
     fst (runFrame 10 K (\<lambda>iv w. (Ok 0, w)) tryBody
       (newFrame tryBody r \<lparr>heap = (), coreOperatorRedefined = 0\<rparr>)) \<noteq> Faulted"
proof
  fix K :: "unit kernel"
  have bind: "bindFrame K tryBody \<lparr>callee = 0, callArgs = [], captures = 0, kwVals = [], kwMap = 0\<rparr> s = (Ok (), s)" for s
    by (simp add: bindFrame_def kwBindings_def bindCaptures_def bindA_def retA_def tryBody_def emptyModule_def)
  have "calm K (\<lambda>iv (w :: unit world). (Ok 0, w))" by (simp add: calm_def)
  moreover have "length (code tryBody) < 2 ^ 31" by simp
  ultimately have "\<exists>r. computeMaxStack (\<lambda>p. captureCount (moduleAt K p)) tryBody = Some r \<and>
      (\<forall>iv w u s fuel. bindFrame K tryBody iv (newFrame tryBody r w) = (Ok u, s) \<longrightarrow>
         fst (runFrame fuel K (\<lambda>iv (w :: unit world). (Ok 0, w)) tryBody s) \<noteq> Faulted)"
    using frame_never_faults [OF tryBody_well_formed] by blast
  with bind
  show "\<exists>r. computeMaxStack (\<lambda>p. captureCount (moduleAt K p)) tryBody = Some r \<and>
     fst (runFrame 10 K (\<lambda>iv w. (Ok 0, w)) tryBody
       (newFrame tryBody r \<lparr>heap = (), coreOperatorRedefined = 0\<rparr>)) \<noteq> Faulted" by blast
qed

end
