(* ===== verification/Engine.thy ===== *)
theory Engine
  imports StackSafety
begin

text \<open>
  Properties of calls and exceptions of the execution engine (src/runtime/ExecutionEngine.cpp): which
  arity of a function a call picks, which argument counts a function accepts, what a rethrow raises,
  and that the set of redefined operators tells the truth about the globals.
\<close>

section \<open>Which arity a call picks\<close>

lemma firstIndex_Some_iff:
  "firstIndex p xs = Some k \<longleftrightarrow> k < length xs \<and> p (xs ! k) \<and> (\<forall>j<k. \<not> p (xs ! j))"
proof (induction xs arbitrary: k)
  case (Cons x xs)
  then show ?case by (cases k) (auto simp: All_less_Suc2)
qed simp

lemma firstIndex_None_iff: "firstIndex p xs = None \<longleftrightarrow> (\<forall>j<length xs. \<not> p (xs ! j))"
  by (induction xs) (auto simp: All_less_Suc2)

text \<open>How well an arity fits: an exact fixed arity first, then a variadic one, then one that takes
  keyword arguments; 3 when it does not fit.\<close>

definition arityRank :: "'h kernel \<Rightarrow> nat \<Rightarrow> AritySpec \<Rightarrow> nat" where
  "arityRank K argc spec =
     (if exactArity argc spec then 0 else if variadicArity argc spec then 1
      else if kwArity K argc spec then 2 else 3)"

lemma arityRank_iff [simp]:
  "arityRank K argc spec = 0 \<longleftrightarrow> exactArity argc spec"
  "arityRank K argc spec = Suc 0 \<longleftrightarrow> \<not> exactArity argc spec \<and> variadicArity argc spec"
  "arityRank K argc spec = 2 \<longleftrightarrow> \<not> exactArity argc spec \<and> \<not> variadicArity argc spec \<and> kwArity K argc spec"
  by (simp_all add: arityRank_def)

lemma exact_not_variadic: "exactArity argc spec \<Longrightarrow> \<not> variadicArity argc spec"
  by (simp add: exactArity_def variadicArity_def)

lemma rank_bounds:
  "arityRank K argc spec < 3 \<longleftrightarrow> exactArity argc spec \<or> variadicArity argc spec \<or> kwArity K argc spec"
  "Suc 0 \<le> arityRank K argc spec \<longleftrightarrow> \<not> exactArity argc spec"
  "Suc 0 < arityRank K argc spec \<longleftrightarrow> \<not> exactArity argc spec \<and> \<not> variadicArity argc spec"
  "2 \<le> arityRank K argc spec \<longleftrightarrow> \<not> exactArity argc spec \<and> \<not> variadicArity argc spec"
  "2 < arityRank K argc spec \<longleftrightarrow> \<not> exactArity argc spec \<and> \<not> variadicArity argc spec \<and> \<not> kwArity K argc spec"
  by (simp_all add: arityRank_def)

text \<open>\<open>k\<close> is the first of the arities with the best rank \<open>r\<close>.\<close>

definition bestAt :: "'h kernel \<Rightarrow> AritySpec list \<Rightarrow> nat \<Rightarrow> nat \<Rightarrow> bool" where
  "bestAt K specs argc k \<longleftrightarrow>
     k < length specs \<and> arityRank K argc (specs ! k) < 3 \<and>
     (\<forall>j<length specs. arityRank K argc (specs ! k) \<le> arityRank K argc (specs ! j)) \<and>
     (\<forall>j<k. arityRank K argc (specs ! k) < arityRank K argc (specs ! j))"

lemma bestAt_unique: "bestAt K specs argc k \<Longrightarrow> bestAt K specs argc k' \<Longrightarrow> k = k'"
  unfolding bestAt_def by (metis linorder_neqE_nat not_le)

lemma firstIndex_bestAt:
  assumes "firstIndex p specs = Some k" "\<And>spec. spec \<in> set specs \<Longrightarrow> p spec \<longleftrightarrow> arityRank K argc spec = r"
    "\<And>spec. spec \<in> set specs \<Longrightarrow> r \<le> arityRank K argc spec" "r < 3"
  shows "bestAt K specs argc k"
proof -
  have k: "k < length specs" "arityRank K argc (specs ! k) = r" "\<forall>j<k. arityRank K argc (specs ! j) \<noteq> r"
    using assms(1,2) unfolding firstIndex_Some_iff by auto
  have "r < arityRank K argc (specs ! j)" if "j < k" for j
    using assms(3) [of "specs ! j"] k that by (auto simp: le_less)
  then show ?thesis using k assms(3,4) by (simp add: bestAt_def)
qed

lemma pickArity_best: "pickArity K specs argc = Some k \<Longrightarrow> bestAt K specs argc k"
proof (cases "firstIndex (exactArity argc) specs")
  case (Some j)
  moreover assume "pickArity K specs argc = Some k"
  ultimately show ?thesis by (intro firstIndex_bestAt [where r = 0 and p = "exactArity argc"]) (auto simp: pickArity_def)
next
  case none: None
  then have exact: "\<not> exactArity argc spec" if "spec \<in> set specs" for spec
    using that by (metis firstIndex_None_iff in_set_conv_nth)
  assume pick: "pickArity K specs argc = Some k"
  show ?thesis
  proof (cases "firstIndex (variadicArity argc) specs")
    case (Some j)
    then show ?thesis using none pick exact
      by (intro firstIndex_bestAt [where r = 1 and p = "variadicArity argc"]) (auto simp: pickArity_def rank_bounds)
  next
    case None
    then have "\<not> variadicArity argc spec" if "spec \<in> set specs" for spec
      using that by (metis firstIndex_None_iff in_set_conv_nth)
    then show ?thesis using none None pick exact
      by (intro firstIndex_bestAt [where r = 2 and p = "kwArity K argc"]) (auto simp: pickArity_def rank_bounds)
  qed
qed

lemma pickArity_None:
  "pickArity K specs argc = None \<longleftrightarrow> (\<forall>j<length specs. \<not> arityRank K argc (specs ! j) < 3)"
  by (auto simp: pickArity_def firstIndex_None_iff firstIndex_Some_iff rank_bounds split: option.split)

text \<open>A call of a multi-arity function picks the first of its arities of the best kind: an arity with
  exactly that many parameters, else a variadic one with no more, else one that takes keyword
  arguments; and it picks none only when no arity fits.\<close>

theorem pickArity_spec: "pickArity K specs argc = Some k \<longleftrightarrow> bestAt K specs argc k"
proof
  assume best: "bestAt K specs argc k"
  then obtain k' where "pickArity K specs argc = Some k'"
    using pickArity_None [of K specs argc] unfolding bestAt_def by (metis not_None_eq)
  then show "pickArity K specs argc = Some k" using best pickArity_best bestAt_unique by metis
qed (rule pickArity_best)

section \<open>Which argument counts a function accepts\<close>

text \<open>A single-arity function of the heap, with its body.\<close>

definition singleFn :: "'h kernel \<Rightarrow> 'h \<Rightarrow> val \<Rightarrow> modptr \<Rightarrow> bool" where
  "singleFn K h callable p \<longleftrightarrow>
     callable \<noteq> 0 \<and> callable \<noteq> PROTO_NONE K \<and> fnSingleProto K \<noteq> fnMultiProto K \<and>
     getPrototype K h callable = fnSingleProto K \<and> bytecodeOf K h callable = Some p"

definition fnCaptures :: "'h kernel \<Rightarrow> 'h \<Rightarrow> val \<Rightarrow> modptr \<Rightarrow> val" where
  "fnCaptures K h callable p = (if captureCount (moduleAt K p) > 0 then capturesOf K h callable else 0)"

lemma resolve_single:
  assumes "singleFn K (heap (world s)) callable p"
  shows "resolveCallee K who callable argc s = (Ok (p, fnCaptures K (heap (world s)) callable p), s)"
  using assms by (simp add: resolveCallee_def singleFn_def fnCaptures_def bindA_def heapA_def retA_def)

lemma accepts_single:
  assumes "singleFn K h callable p"
  shows "acceptsArgCount K h callable argc \<longleftrightarrow>
    (if isKwBased (moduleAt K p) then argc = arity (moduleAt K p) \<or> argc = arity (moduleAt K p) + 1
     else if isVariadic (moduleAt K p) then arity (moduleAt K p) \<le> argc
     else argc = arity (moduleAt K p))"
  using assms by (auto simp: acceptsArgCount_def singleFn_def Let_def)

text \<open>A kernel with one function: its wrapper is any value and its body the given module.\<close>

definition oneFunction :: "unit kernel \<Rightarrow> BytecodeModule \<Rightarrow> unit kernel" where
  "oneFunction K m = K\<lparr>PROTO_NONE := 3, fnSingleProto := 1, fnMultiProto := 2, moduleAt := \<lambda>_. m,
     getPrototype := \<lambda>_ _. 1, bytecodeOf := \<lambda>_ _. Some 0\<rparr>"

lemma oneFunction_single: "singleFn (oneFunction K m) h 5 0"
  by (simp add: singleFn_def oneFunction_def)

lemma oneFunction_module [simp]: "moduleAt (oneFunction K m) p = m"
  by (simp add: oneFunction_def)

text \<open>\<^verbatim>\<open>acceptsArgCount\<close> tells the truth about a function without keyword parameters: when it says
  yes, \<^verbatim>\<open>invoke\<close> goes on to bind the arguments and run the body; when it says no, \<^verbatim>\<open>invoke\<close> raises an
  arity error and nothing runs.\<close>

theorem accepts_iff_invokes:
  assumes "singleFn K (heap (world s)) callable p" "\<not> isKwBased (moduleAt K p)"
  shows "invokeFn K call callable args s =
    (if acceptsArgCount K (heap (world s)) callable (length args)
     then bindA (prepareCall K p (fnCaptures K (heap (world s)) callable p) args (length args) 0) (callA call) s
     else throwError K (if isVariadic (moduleAt K p) then ''VM: invoke: variadic underflow''
                        else ''VM: invoke: fn arity mismatch'') s)"
  using assms
  by (auto simp: invokeFn_def Let_def bindA_def [of "resolveCallee K q c n" for q c n] resolve_single
      accepts_single retA_def bindA_def throwError_def raiseA_def split: prod.split res.split)

theorem accepts_iff_invokes_witness:
  "\<forall>K call s. \<not> acceptsArgCount (oneFunction K (emptyModule\<lparr>arity := 1\<rparr>)) (heap (world s)) 5 0 \<and>
     invokeFn (oneFunction K (emptyModule\<lparr>arity := 1\<rparr>)) call 5 [] s =
       throwError (oneFunction K (emptyModule\<lparr>arity := 1\<rparr>)) ''VM: invoke: fn arity mismatch'' s"
  using accepts_iff_invokes [OF oneFunction_single [where m = "emptyModule\<lparr>arity := 1\<rparr>"], where args = "[]"]
  by (simp add: accepts_single [OF oneFunction_single] emptyModule_def)

text \<open>With keyword parameters it does not: a function of one arity called with its positional arguments
  and two or more trailing key/value pairs is refused by \<^verbatim>\<open>acceptsArgCount\<close>, and yet \<^verbatim>\<open>invoke\<close> folds
  the pairs into the map and binds it.\<close>

theorem accepts_refuses_pairs:
  assumes "singleFn K (heap (world s)) callable p" "isKwBased (moduleAt K p)"
    "length args = arity (moduleAt K p) + 2 * n" "0 < n"
  shows "\<not> acceptsArgCount K (heap (world s)) callable (length args) \<and>
    invokeFn K call callable args s =
      bindA (nativeA (mapAssocPairsK K None (drop (arity (moduleAt K p)) args))) (\<lambda>mp.
      bindA (prepareCall K p (fnCaptures K (heap (world s)) callable p) args (arity (moduleAt K p)) mp) (callA call)) s"
  using assms
  by (auto simp: invokeFn_def Let_def bindA_def [of "resolveCallee K q c n" for q c n] resolve_single
      accepts_single retA_def bindA_def split: prod.split res.split)

lemma keyed_module: "isKwBased (emptyModule\<lparr>isKwBased := True\<rparr>)" "arity (emptyModule\<lparr>isKwBased := True\<rparr>) = 0"
  by (simp_all add: emptyModule_def)

theorem accepts_refuses_pairs_witness:
  "\<forall>K. \<forall>s :: unit vm. \<not> acceptsArgCount (oneFunction K (emptyModule\<lparr>isKwBased := True\<rparr>)) (heap (world s)) 5
     (length [7 :: nat, 9])"
  using accepts_refuses_pairs [OF oneFunction_single [where m = "emptyModule\<lparr>isKwBased := True\<rparr>"],
      where args = "[7, 9]" and n = 1, THEN conjunct1]
  by (simp add: keyed_module)

section \<open>What a rethrow raises\<close>

text \<open>An action that leaves the caught exceptions of its frame alone.\<close>

definition keepsCaught :: "('h, 'a) act \<Rightarrow> bool" where
  "keepsCaught a \<longleftrightarrow> (\<forall>s. caught (snd (a s)) = caught s)"

lemma keepsI: "(\<And>s. caught (snd (a s)) = caught s) \<Longrightarrow> keepsCaught a"
  by (simp add: keepsCaught_def)

lemma keeps_bind [intro!]: "keepsCaught a \<Longrightarrow> (\<And>v. keepsCaught (f v)) \<Longrightarrow> keepsCaught (bindA a f)"
  unfolding keepsCaught_def bindA_def by (auto split: prod.split res.split) (metis snd_conv)+

lemma keeps_if [intro!]:
  "(b \<Longrightarrow> keepsCaught a) \<Longrightarrow> (\<not> b \<Longrightarrow> keepsCaught a') \<Longrightarrow> keepsCaught (if b then a else a')"
  by simp

lemma keeps_prod [intro!]: "(\<And>x y. keepsCaught (f x y)) \<Longrightarrow> keepsCaught (case p of (x, y) \<Rightarrow> f x y)"
  by (cases p) simp

lemma keeps_option [intro!]:
  "keepsCaught a \<Longrightarrow> (\<And>x. keepsCaught (f x)) \<Longrightarrow> keepsCaught (case r of None \<Rightarrow> a | Some x \<Rightarrow> f x)"
  by (cases r) simp_all

lemma keeps_quiet: "quiet a \<Longrightarrow> keepsCaught a"
  unfolding keepsCaught_def quiet_def by (metis vm.select_convs vm.simps vm.surjective)

lemma keeps_basic [intro!]:
  "keepsCaught (pushVal v)" "keepsCaught (popVal K)" "keepsCaught (peekAt d)" "keepsCaught (dropVals n)"
  "keepsCaught (topVals n)" "keepsCaught depthA" "keepsCaught (reserveStack n)" "keepsCaught (getLocal i)"
  "keepsCaught (setLocal i v)" "keepsCaught (jumpTo t)" "keepsCaught (constA m i)" "keepsCaught (callA call iv)"
  "keepsCaught (\<lambda>s. (Fault, s))" "keepsCaught (rethrowValue v)"
  by (auto intro!: keepsI simp: pushVal_def popVal_def throwError_def raiseA_def peekAt_def dropVals_def topVals_def
      depthA_def reserveStack_def getLocal_def setLocal_def jumpTo_def constA_def callA_def rethrowValue_def
      split: list.split prod.split)

lemmas keeps_natives [intro!] =
  keeps_quiet [OF quiet_ret] keeps_quiet [OF quiet_native] keeps_quiet [OF quiet_raise] keeps_quiet [OF quiet_heap]
  keeps_quiet [OF quiet_throw(1)] keeps_quiet [OF quiet_throw(2)] keeps_quiet [OF quiet_foldKeywordPairs]
  keeps_quiet [OF quiet_resolveCallee] keeps_quiet [OF quiet_prepareCall] keeps_quiet [OF quiet_callValue]
  keeps_quiet [OF quiet_redefinedOperator] keeps_quiet [OF quiet_computeBinary] keeps_quiet [OF quiet_materialise]
  keeps_quiet [OF quiet_getMember] keeps_quiet [OF quiet_resolveCatchType] keeps_quiet [OF quiet_matchCatchType]
  keeps_quiet [OF quiet_throwValue] keeps_quiet [OF quiet_buildArities]

lemma keeps_invoke [intro!]: "keepsCaught (invoke K call callable args)"
  by (auto simp: invoke_def invokeFn_def Let_def)

lemma keeps_translate [intro!]:
  assumes "keepsCaught a"
  shows "keepsCaught (translateStd K a)"
proof (rule keepsI)
  fix s
  obtain r s' where r: "a s = (r, s')" by (cases "a s")
  then have "caught s' = caught s" using assms unfolding keepsCaught_def by (metis snd_conv)
  with r show "caught (snd (translateStd K a s)) = caught s"
    by (auto simp: translateStd_def throwClassed_def raiseA_def split: res.split exn.split prod.split)
qed

lemma keeps_callMember [intro!]: "keepsCaught (callMember K call r c args)"
  by (auto simp: callMember_def)

lemma keeps_dispatchFn [intro!]: "keepsCaught (dispatchFn K call callable argc)"
  by (auto simp: dispatchFn_def Let_def)

lemma keeps_dispatchCall [intro!]: "keepsCaught (dispatchCall K call argc)"
  by (auto simp: dispatchCall_def Let_def)

lemma keeps_pushAll [intro!]: "keepsCaught (pushAll vs)"
  by (induction vs) auto

lemma keeps_exec [intro!]:
  "keepsCaught (execBinary K call op n)" "keepsCaught (execPushVar K m n)"
  "keepsCaught (execMakeFn K m n)" "keepsCaught (execMakeFnMulti K m n)" "keepsCaught (execCallApply K call)"
  "keepsCaught (execCallKw K call n)"
  by (auto simp: execBinary_def execPushVar_def execMakeFn_def execMakeFnMulti_def execCallApply_def
      execCallKw_def Let_def)

lemma keeps_storeGlobal [intro!]: "keepsCaught (execStoreGlobal K m n)"
  by (auto simp: execStoreGlobal_def Let_def keepsCaught_def [of "\<lambda>s. (Ok (), s\<lparr>world := f s\<rparr>)" for f])

lemma keeps_callMemberOp [intro!]: "keepsCaught (execCallMember K call m n)"
  unfolding execCallMember_def by (intro keeps_bind keeps_basic keeps_callMember) (simp add: keepsCaught_def)

lemma keeps_rethrow [intro!]: "keepsCaught (execRethrow slot)"
  by (intro keepsI) (auto simp: execRethrow_def bindA_def getLocal_def rethrowValue_def split: option.split)

lemma keeps_handlers [intro!]:
  "keepsCaught (\<lambda>s. (Ok (), s\<lparr>handlers := g s\<rparr>))" "keepsCaught (\<lambda>s. (Ok (), s\<lparr>dline := n\<rparr>))"
  "keepsCaught (\<lambda>s. jumpTo (f s) s)" "keepsCaught (\<lambda>s. if b s then jumpTo (f s) s else (Fault, s))"
  "keepsCaught (\<lambda>s. if t then (Ok (), s) else jumpTo (f s) s)"
  "keepsCaught (\<lambda>s. if t then jumpTo (f s) s else (Ok (), s))"
  "keepsCaught (\<lambda>s. case handlers s of [] \<Rightarrow> throwError K msg s | h # hs \<Rightarrow> (Ok (), s\<lparr>handlers := hs\<rparr>))"
  by (auto intro!: keepsI simp: jumpTo_def throwError_def raiseA_def split: list.split prod.split)

lemma stepOp_keepsCaught: "op \<noteq> STORE_CAUGHT \<Longrightarrow> keepsCaught (stepOp K call m op n)"
  by (cases op; simp add: stepOp_def;
      (intro conjI impI keeps_bind keeps_natives keeps_basic keeps_exec keeps_if keeps_storeGlobal keeps_callMemberOp keeps_rethrow
         keeps_dispatchCall keeps_handlers)?)

lemma step_keepsCaught:
  assumes "instrOp (code m ! ip s) \<noteq> Some STORE_CAUGHT"
  shows "caught (snd (step K call m s)) = caught s"
  using assms stepOp_keepsCaught [unfolded keepsCaught_def, rule_format, of _ K call m "instrOperand (code m ! ip s)"]
  by (auto simp: step_def Let_def throwError_def raiseA_def split: option.split prod.split)

lemma catchExn_keepsCaught: "caught (snd (catchExn K e t d hs s)) = caught s"
  by (auto simp: catchExn_def pushVal_def Let_def split: exn.split prod.split)

text \<open>The frame goes from one state to another by instructions none of which stores a caught exception in
  the given slot.\<close>

inductive leavesSlot :: "'h kernel \<Rightarrow> 'h caller \<Rightarrow> BytecodeModule \<Rightarrow> nat \<Rightarrow> 'h vm \<Rightarrow> 'h vm \<Rightarrow> bool"
  for K call m slot where
  leaves_refl: "leavesSlot K call m slot s s"
| leaves_step: "leavesSlot K call m slot s t \<Longrightarrow> frameStep K call m t = (Running, u) \<Longrightarrow>
    \<not> (instrOp (code m ! ip t) = Some STORE_CAUGHT \<and> instrOperand (code m ! ip t) = slot) \<Longrightarrow>
    leavesSlot K call m slot s u"

definition holds :: "exn \<Rightarrow> nat \<Rightarrow> 'h vm \<Rightarrow> bool" where
  "holds e slot s \<longleftrightarrow> slot < length (caught s) \<and> caught s ! slot = Some e"

lemma setLocal_caught [simp]: "caught (snd (setLocal i v s)) = caught s"
  by (simp add: setLocal_def)

lemma storeCaught_caught:
  assumes "hasHandlers m"
  shows "caught (snd (stepOp K call m STORE_CAUGHT k s)) =
    (caught s @ replicate (k + 1 - length (caught s)) None)[k := justCaught s]"
proof -
  have "keepsCaught (goOn (bindA (popVal K) (setLocal k)))" by auto
  then have "caught (snd (goOn (bindA (popVal K) (setLocal k)) t)) = caught t" for t
    unfolding keepsCaught_def by blast
  moreover have "stepOp K call m STORE_CAUGHT k s =
      goOn (bindA (popVal K) (setLocal k)) (snd (storeCaught k s))"
    using assms by (simp add: stepOp_def bindA_def storeCaught_def Let_def)
  ultimately show ?thesis by (simp add: storeCaught_def Let_def)
qed

lemma frameStep_caught:
  assumes "frameStep K call m t = (Running, u)"
  shows "caught u = caught (snd (step K call m t))"
proof -
  obtain r s' where r: "step K call m t = (r, s')" by (cases "step K call m t")
  have c: "catchExn K e tg d hs s' = (Running, u) \<Longrightarrow> caught u = caught s'" for e tg d hs
    by (metis catchExn_keepsCaught snd_conv)
  show ?thesis
  proof (cases r)
    case (Ok x)
    then show ?thesis using assms r by (cases x) (auto simp: frameStep_def split: if_splits)
  qed (use assms r c in \<open>auto simp: frameStep_def split: if_splits list.splits\<close>)
qed

lemma step_other_slot:
  assumes "holds e slot s" "\<not> (instrOp (code m ! ip s) = Some STORE_CAUGHT \<and> instrOperand (code m ! ip s) = slot)"
    "hasHandlers m"
  shows "holds e slot (snd (step K call m s))"
proof (cases "instrOp (code m ! ip s) = Some STORE_CAUGHT")
  case True
  then show ?thesis using assms
    by (auto simp: step_def Let_def holds_def storeCaught_caught nth_append)
qed (use assms in \<open>simp add: holds_def step_keepsCaught\<close>)

lemma leaves_holds:
  assumes "leavesSlot K call m slot s s'" "holds e slot s" "hasHandlers m"
  shows "holds e slot s'"
  using assms
proof induction
  case (leaves_step s t u)
  then have "holds e slot (snd (step K call m t))" by (intro step_other_slot)
  then show ?case using leaves_step(2) by (simp add: holds_def frameStep_caught)
qed

text \<open>C19. A caught exception is rethrown as it was: when an instruction raises an exception of the runtime, its
  handler stores it with \<^verbatim>\<open>STORE_CAUGHT slot\<close>, and the frame goes on, catching and storing whatever
  else it meets in other slots, then \<^verbatim>\<open>RETHROW slot\<close> raises that very exception, its message and
  runtime subclass included (the end of a \<^verbatim>\<open>finally\<close>, and a \<^verbatim>\<open>try\<close> none of whose catches match).\<close>

theorem rethrow_same:
  assumes raise: "step K call m s0 = (Raise (ProtoException v x), s0')" "hasHandlers m" "handlers s0' \<noteq> []"
    and caught: "frameStep K call m s0 = (Running, s)" "ip s < length (code m)"
      "instrOp (code m ! ip s) = Some STORE_CAUGHT" "instrOperand (code m ! ip s) = slot"
    and stored: "frameStep K call m s = (Running, s1)" "leavesSlot K call m slot s1 s2"
    and rethrow: "instrOp (code m ! ip s2) = Some RETHROW" "instrOperand (code m ! ip s2) = slot"
  shows "fst (step K call m s2) = Raise (ProtoException v x)"
proof -
  have just: "justCaught s = Some (ProtoException v x)"
    using raise caught(1)
    by (auto simp: frameStep_def catchExn_def Let_def pushVal_def split: if_splits list.splits)
  have "holds (ProtoException v x) slot (snd (step K call m s))"
    using just caught(2-) raise(2) by (simp add: step_def Let_def holds_def storeCaught_caught nth_append)
  then have "holds (ProtoException v x) slot s1"
    using stored(1) by (simp add: holds_def frameStep_caught)
  then have "holds (ProtoException v x) slot s2" using leaves_holds stored(2) raise(2) by blast
  then show ?thesis using rethrow
    by (simp add: step_def Let_def stepOp_def execRethrow_def holds_def bindA_def)
qed

definition rethrower :: BytecodeModule where
  "rethrower = emptyModule\<lparr>localCount := 1, hasHandlers := True,
     code := [encodeInstr RETHROW 0, encodeInstr STORE_CAUGHT 0, encodeInstr RETHROW 0]\<rparr>"

definition inTry :: "unit vm" where
  "inTry = \<lparr>locals = [8], stack = [], cap = 1, ip = 0, handlers = [(1, 0)], caught = [], justCaught = None,
     dline = 0, world = \<lparr>heap = (), coreOperatorRedefined = 0\<rparr>\<rparr>"

theorem rethrow_same_witness:
  "\<forall>K call. fst (step K call rethrower
     (inTry\<lparr>ip := 2, handlers := [], caught := [Some (ProtoException 8 [])]\<rparr>)) = Raise (ProtoException 8 [])"
proof (intro allI)
  fix K :: "unit kernel" and call :: "unit caller"
  let ?s = "inTry\<lparr>ip := 1, handlers := [], stack := [8], justCaught := Some (ProtoException 8 [])\<rparr>"
  let ?s1 = "inTry\<lparr>ip := 2, handlers := [], caught := [Some (ProtoException 8 [])]\<rparr>"
  have raise: "step K call rethrower inTry = (Raise (ProtoException 8 []), inTry\<lparr>ip := 1\<rparr>)"
    by (simp add: step_def rethrower_def inTry_def stepOp_def execRethrow_def bindA_def getLocal_def rethrowValue_def)
  then have catch: "frameStep K call rethrower inTry = (Running, ?s)"
    by (simp add: frameStep_def catchExn_def pushVal_def rethrower_def inTry_def)
  have store: "frameStep K call rethrower ?s = (Running, ?s1)"
    by (simp add: frameStep_def step_def stepOp_def rethrower_def inTry_def bindA_def storeCaught_def popVal_def
        setLocal_def retA_def)
  show "fst (step K call rethrower ?s1) = Raise (ProtoException 8 [])"
    using rethrow_same [OF raise _ _ catch _ _ _ store leaves_refl] by (simp add: rethrower_def inTry_def)
qed

section \<open>Redefined operators\<close>

text \<open>What protoCore documents of the table of globals, and of symbols: interning is injective.\<close>

definition globals_law :: "'h kernel \<Rightarrow> bool" where
  "globals_law K \<longleftrightarrow>
     (\<forall>k v h. getGlobal K (setGlobal K k v h) k = Some v) \<and>
     (\<forall>k k' v h. k \<noteq> k' \<longrightarrow> getGlobal K (setGlobal K k v h) k' = getGlobal K h k') \<and>
     inj (createSymbol K)"

definition globalValue :: "'h kernel \<Rightarrow> 'h \<Rightarrow> string \<Rightarrow> val" where
  "globalValue K h name = (case getGlobal K h (createSymbol K name) of None \<Rightarrow> 0 | Some v \<Rightarrow> v)"

text \<open>The bit of every operator tells whether its global holds something else than the built-in.\<close>

definition truthful :: "'h kernel \<Rightarrow> 'h world \<Rightarrow> bool" where
  "truthful K w \<longleftrightarrow>
     (\<forall>i<length kCoreOperatorNames.
        bit (coreOperatorRedefined w) i \<longleftrightarrow>
        globalValue K (heap w) (kCoreOperatorNames ! i) \<noteq>
        globalValue K (heap w) (''clojure.core/'' @ kCoreOperatorNames ! i))"

lemma globalValue_set:
  "globals_law K \<Longrightarrow>
   globalValue K (setGlobal K (createSymbol K name) v h) n = (if n = name then v else globalValue K h n)"
  unfolding globals_law_def globalValue_def by (simp add: inj_eq)

lemma operatorNames_distinct:
  "i < length kCoreOperatorNames \<Longrightarrow> j < length kCoreOperatorNames \<Longrightarrow>
   kCoreOperatorNames ! i = kCoreOperatorNames ! j \<longleftrightarrow> i = j"
  by (intro nth_eq_iff_index_eq) (simp_all add: kCoreOperatorNames_def)

lemma operatorNames_short: "n \<in> set kCoreOperatorNames \<Longrightarrow> length n \<le> 2"
  by (auto simp: kCoreOperatorNames_def)

lemma noteGlobalStore_bit:
  assumes "i < length kCoreOperatorNames"
  shows "bit (coreOperatorRedefined (noteGlobalStore K name v w)) i \<longleftrightarrow>
    (if kCoreOperatorNames ! i = name then v \<noteq> globalValue K (heap w) (''clojure.core/'' @ name)
     else bit (coreOperatorRedefined w) i)"
proof (cases "firstIndex (\<lambda>n. n = name) kCoreOperatorNames")
  case None
  then have "kCoreOperatorNames ! i \<noteq> name" using assms by (simp add: firstIndex_None_iff)
  then show ?thesis using None by (simp add: noteGlobalStore_def)
next
  case (Some j)
  then have j: "j < length kCoreOperatorNames" "kCoreOperatorNames ! j = name" by (simp_all add: firstIndex_Some_iff)
  then have "kCoreOperatorNames ! i = name \<longleftrightarrow> i = j" using operatorNames_distinct [OF assms j(1)] by auto
  moreover have "i < 32" using assms by (simp add: kCoreOperatorNames_def)
  ultimately show ?thesis using Some
    by (auto simp: noteGlobalStore_def globalValue_def Let_def bit_set_bit_iff bit_unset_bit_iff)
qed

text \<open>A table of globals as a map, over symbols numbered by their spelling.\<close>

fun spellingNumber :: "string \<Rightarrow> obj" where
  "spellingNumber [] = 0"
| "spellingNumber (c # cs) = Suc (of_char c) + 257 * spellingNumber cs"

lemma spellingNumber_inj: "inj spellingNumber"
proof (rule injI)
  fix x y
  show "spellingNumber x = spellingNumber y \<Longrightarrow> x = y"
  proof (induction x arbitrary: y)
    case Nil
    then show ?case by (cases y) auto
  next
    case (Cons c cs)
    then obtain d ds where y: "y = d # ds" by (cases y) auto
    have digit: "(Suc (of_char a :: nat) + 257 * n) mod 257 = Suc (of_char a)"
      "(Suc (of_char a :: nat) + 257 * n) div 257 = n" for a :: char and n
      using nat_of_char_less_256 [of a] by (simp, intro div_nat_eqI) simp_all
    have "Suc (of_char c :: nat) = Suc (of_char d)" "spellingNumber cs = spellingNumber ds"
      using Cons.prems digit [of c "spellingNumber cs"] digit [of d "spellingNumber ds"] by (auto simp: y)
    then show ?case using Cons.IH [of ds] y by (simp add: of_char_eq_iff)
  qed
qed

definition mapGlobals :: "(obj \<rightharpoonup> val) kernel \<Rightarrow> (obj \<rightharpoonup> val) kernel" where
  "mapGlobals K = K\<lparr>getGlobal := \<lambda>h k. h k, setGlobal := \<lambda>k v h. h(k \<mapsto> v), createSymbol := spellingNumber\<rparr>"

lemma mapGlobals_law: "globals_law (mapGlobals K)"
  by (simp add: globals_law_def mapGlobals_def spellingNumber_inj)

lemma mapGlobals_truthful: "truthful (mapGlobals K) \<lparr>heap = Map.empty, coreOperatorRedefined = 0\<rparr>"
  by (simp add: truthful_def globalValue_def mapGlobals_def)

text \<open>C35. The set of redefined operators tells the truth: a store into any global but the built-ins' own
  qualified names keeps, for every inlined operator, its bit set exactly when the global of that name
  holds something else than the built-in function.\<close>

theorem operators_truthful:
  assumes "globals_law K" "truthful K w" "constKey c = createSymbol K (sval c)"
    "\<forall>n\<in>set kCoreOperatorNames. sval c \<noteq> ''clojure.core/'' @ n"
  shows "truthful K (storeGlobalW K c v w)"
proof -
  have own: "sval c \<noteq> ''clojure.core/'' @ kCoreOperatorNames ! i" if "i < length kCoreOperatorNames" for i
    using assms(4) nth_mem [OF that] by blast
  have short: "length (sval c) \<le> 2" if "i < length kCoreOperatorNames" "kCoreOperatorNames ! i = sval c" for i
    using operatorNames_short nth_mem [OF that(1)] that(2) by metis
  have heap_note: "heap (noteGlobalStore K n v w') = heap w'" for n w'
    by (simp add: noteGlobalStore_def Let_def split: option.split)
  show ?thesis unfolding truthful_def
  proof (intro allI impI)
    fix i
    assume i: "i < length kCoreOperatorNames"
    then have "bit (coreOperatorRedefined w) i \<longleftrightarrow> globalValue K (heap w) (kCoreOperatorNames ! i) \<noteq>
        globalValue K (heap w) (''clojure.core/'' @ kCoreOperatorNames ! i)"
      using assms(2) by (simp add: truthful_def)
    then show "bit (coreOperatorRedefined (storeGlobalW K c v w)) i \<longleftrightarrow>
        globalValue K (heap (storeGlobalW K c v w)) (kCoreOperatorNames ! i) \<noteq>
        globalValue K (heap (storeGlobalW K c v w)) (''clojure.core/'' @ kCoreOperatorNames ! i)"
      using short [OF i] own [OF i] assms(1,3)
      by (auto simp: storeGlobalW_def Let_def heap_note globalValue_set noteGlobalStore_bit [OF i])
  qed
qed

definition plusConst :: "nat \<Rightarrow> Const" where
  "plusConst key = \<lparr>ckind = CkSymbol, ival = 0, dval = 0, sval = ''+'', named = Some key\<rparr>"

theorem operators_truthful_witness:
  "\<forall>K. truthful (mapGlobals K)
     (storeGlobalW (mapGlobals K) (plusConst (spellingNumber ''+'')) 42
       \<lparr>heap = Map.empty, coreOperatorRedefined = 0\<rparr>)"
  using operators_truthful [OF mapGlobals_law mapGlobals_truthful, of "plusConst (spellingNumber ''+'')"]
  by (simp add: plusConst_def constKey_def mapGlobals_def kCoreOperatorNames_def)

text \<open>An instruction for an operator asks the global exactly when it has been redefined (and the source did
  not write the qualified name, which the operand's low bit records).\<close>

lemma opcode_operator:
  assumes "op \<in> {ADD, SUB, MUL, LT, LE, GT, GE, EQ}"
  shows "opcode op - opcode ADD < length kCoreOperatorNames"
    "kCoreOperatorNames ! (opcode op - opcode ADD) = binaryOpName op"
  using assms by (auto simp: kCoreOperatorNames_def)

text \<open>An inlined operator is a call of the user's function exactly when the user redefined it: in a world
  whose bits tell the truth, the instruction calls the global of its name when that differs from the
  built-in and the source did not write the qualified name, and otherwise runs the built-in.\<close>

theorem redefinedOperator_spec:
  assumes "truthful K (world s)" "op \<in> {ADD, SUB, MUL, LT, LE, GT, GE, EQ}"
    "getGlobal K (heap (world s)) (createSymbol K (binaryOpName op)) = Some f"
  shows "redefinedOperator K op operand s =
    (Ok (if even operand \<and> f \<noteq> globalValue K (heap (world s)) (''clojure.core/'' @ binaryOpName op)
         then Some f else None), s)"
proof -
  have "bit (coreOperatorRedefined (world s)) (opcode op - opcode ADD) \<longleftrightarrow>
      f \<noteq> globalValue K (heap (world s)) (''clojure.core/'' @ binaryOpName op)"
    using assms(1,3) opcode_operator [OF assms(2)] by (simp add: truthful_def globalValue_def)
  then show ?thesis
    using assms(3) opcode_operator [OF assms(2)] by (auto simp: redefinedOperator_def Let_def retA_def)
qed

theorem redefinedOperator_spec_witness:
  "\<forall>K s. redefinedOperator (mapGlobals K) ADD 0
     (s\<lparr>world := \<lparr>heap = [spellingNumber ''+'' \<mapsto> 42, spellingNumber ''clojure.core/+'' \<mapsto> 42], coreOperatorRedefined = 0\<rparr>\<rparr>) =
     (Ok None, s\<lparr>world := \<lparr>heap = [spellingNumber ''+'' \<mapsto> 42, spellingNumber ''clojure.core/+'' \<mapsto> 42], coreOperatorRedefined = 0\<rparr>\<rparr>)"
  (is "\<forall>K s. _ K (?s s) = _ s")
proof (intro allI)
  fix K :: "(obj \<rightharpoonup> val) kernel" and s :: "(obj \<rightharpoonup> val) vm"
  have eq: "spellingNumber x = spellingNumber y \<longleftrightarrow> x = y" for x y using spellingNumber_inj by (simp add: inj_eq)
  have "truthful (mapGlobals K) (world (?s s))"
    by (simp add: truthful_def globalValue_def mapGlobals_def eq kCoreOperatorNames_def less_Suc_eq numeral_eq_Suc
        del: spellingNumber.simps)
  then show "redefinedOperator (mapGlobals K) ADD 0 (?s s) = (Ok None, ?s s)"
    using redefinedOperator_spec [of "mapGlobals K" "?s s" ADD 42 0]
    by (simp add: mapGlobals_def globalValue_def eq del: spellingNumber.simps)
qed

end
