(* ===== verification/Actors.thy ===== *)
theory Actors
  imports Prelude SmallInt
begin

text \<open>
  The actor scheduler (src/runtime/ActorScheduler.cpp) with the primitives that send to it
  (src/runtime/Primitives.cpp): three mailboxes per actor, the claim flag, the three ready queues, the
  worker threads and the shutdown.

  Every thread has a program counter and the threads interleave: one rule of \<open>sched_step\<close> is one
  operation that other threads see as a whole, an atomic access or a section under \<^verbatim>\<open>queueMtx_\<close>. The
  handler of a message is arbitrary code: the relation \<open>invokes f args r\<close> holds of the outcomes \<open>r\<close>
  its call may have (\<open>None\<close>, it raised). What a handler sends is sent by some sender thread.

  A worker drops its claim with a release store and then looks at the mailboxes with relaxed loads, an
  order in which the store may become visible to the other threads after those loads (a store
  buffer does that). So the store is either visible at once (\<open>release\<close>) or late (\<open>release_late\<close>, then
  \<open>become_visible\<close> at any later moment). A compare-and-set acts on the value all threads see, after the
  thread's own stores to it.

  The lemmas show the single-method invariant (an actor is queued or handled at most once at a time),
  that a message can be left behind by a late store and cannot when the stores are in order, that each
  band of an actor is handled in the order it was sent, how the arguments of a call are made, and how
  many workers there are; and that a shutdown can wait for ever for a worker that misses its notification.
\<close>

section \<open>Messages and actors\<close>

datatype ActorPriority = High | Medium | Low

primrec bandOf :: "ActorPriority \<Rightarrow> nat" where
  "bandOf High = 0"
| "bandOf Medium = 1"
| "bandOf Low = 2"

lemma bandOf_less [simp]: "bandOf p < 3"
  by (cases p) simp_all

text \<open>One send: the function, its extra arguments (\<open>None\<close> is nil) and the promise (0 is nil).\<close>

record message =
  kFn :: val
  kArgs :: "val list option"
  kPromise :: val

definition newMessage :: "val \<Rightarrow> val \<Rightarrow> val list option \<Rightarrow> val option \<Rightarrow> message" where
  "newMessage nil fn args promise =
     \<lparr>kFn = (if fn \<noteq> 0 then fn else nil), kArgs = args, kPromise = (case promise of Some p \<Rightarrow> p | None \<Rightarrow> nil)\<rparr>"

text \<open>\<^verbatim>\<open>sendCore\<close>: the message of \<^verbatim>\<open>(send actor f & args)\<close>, given all its arguments and a fresh promise;
  the argument checks before it raise when there are fewer than two.\<close>

definition sendMessage :: "val \<Rightarrow> val list \<Rightarrow> val \<Rightarrow> message option" where
  "sendMessage nil args promise =
     (if length args < 2 then None
      else Some (newMessage nil (args ! 1) (if length args > 2 then Some (drop 2 args) else None) (Some promise)))"

text \<open>The arguments a worker calls the message's function with: the actor's value and at most 15 of
  the message's own.\<close>

definition turnArgs :: "val \<Rightarrow> val \<Rightarrow> message \<Rightarrow> val list" where
  "turnArgs nil value m =
     (if value \<noteq> 0 then value else nil) # (case kArgs m of None \<Rightarrow> [] | Some args \<Rightarrow> take 15 args)"

text \<open>The number of workers: \<open>env\<close> is the value \<^verbatim>\<open>atoi\<close> reads from the environment variable, \<open>None\<close>
  when it is unset or empty.\<close>

definition configuredWorkerCount :: "int option \<Rightarrow> nat \<Rightarrow> nat" where
  "configuredWorkerCount env hardware =
     (let hc = (if hardware = 0 then 4 else hardware);
          n = (if hc > 2 then hc - 2 else 2);
          automatic = (if n > 16 then 16 else n)
      in case env of
           Some e \<Rightarrow> if e \<ge> 1 \<and> e \<le> 64 then nat e else automatic
         | None \<Rightarrow> automatic)"

section \<open>The state\<close>

type_synonym aid = nat

text \<open>A thread in \<^verbatim>\<open>send\<close>: before the push, before the compare-and-set of the claim, before
  \<^verbatim>\<open>enqueueReady_\<close>.\<close>

datatype sender = SIdle | SPush aid nat message | SClaim aid nat | SEnqueue aid nat

text \<open>A worker: at the top of \<^verbatim>\<open>popReady_\<close>, before the wait's lock, holding it with the predicate found
  false, asleep; taking the batches of an actor (\<open>WTake a b batch\<close>: bands below \<open>b\<close> are taken),
  handling them, in the call of a message, before dropping the claim, reading the mailboxes after it,
  before the compare-and-set that takes the claim back, choosing the band, before \<^verbatim>\<open>enqueueReady_\<close>;
  gone.\<close>

datatype worker =
  WTop | WPark | WBlocking | WAsleep
| WTake aid nat "(nat \<times> message) list"
| WRun aid "(nat \<times> message) list"
| WCall aid "val list" nat message "(nat \<times> message) list"
| WRelease aid
| WCheck aid nat
| WReclaim aid
| WPick aid nat
| WEnqueue aid nat
| WDone

datatype closer = CIdle | CNotify | CJoin | CDone

record sched =
  mailbox :: "aid \<Rightarrow> nat \<Rightarrow> message list"
  claimed :: "aid \<Rightarrow> bool"
  actorValue :: "aid \<Rightarrow> val"
  ready :: "nat \<Rightarrow> aid list"
  queueMtx :: bool
  shuttingDown :: bool
  messagesProcessed :: nat
  promises :: "val \<rightharpoonup> val"
  senders :: "sender list"
  workers :: "worker list"
  closer :: closer
  late :: "(nat \<times> aid) list"
  sent :: "aid \<Rightarrow> nat \<Rightarrow> message list"
  handled :: "aid \<Rightarrow> nat \<Rightarrow> message list"

text \<open>\<open>late\<close> holds the dropped claims that other threads do not see yet, each with its worker. The last two are history: what was pushed and what was handled, per band, in order. A mailbox
  is as long as what was sent to it and not yet taken.\<close>

definition startState :: "nat \<Rightarrow> nat \<Rightarrow> (aid \<Rightarrow> val) \<Rightarrow> sched" where
  "startState nSenders nWorkers values =
     \<lparr>mailbox = \<lambda>_ _. [], claimed = \<lambda>_. False, actorValue = values, ready = \<lambda>_. [], queueMtx = False,
      shuttingDown = False, messagesProcessed = 0, promises = Map.empty,
      senders = replicate nSenders SIdle, workers = replicate nWorkers WTop, closer = CIdle, late = [],
      sent = \<lambda>_ _. [], handled = \<lambda>_ _. []\<rparr>"

section \<open>Operations\<close>

definition setSender :: "nat \<Rightarrow> sender \<Rightarrow> sched \<Rightarrow> sched" where
  "setSender t x s = s\<lparr>senders := (senders s)[t := x]\<rparr>"

definition setWorker :: "nat \<Rightarrow> worker \<Rightarrow> sched \<Rightarrow> sched" where
  "setWorker i x s = s\<lparr>workers := (workers s)[i := x]\<rparr>"

definition push :: "aid \<Rightarrow> nat \<Rightarrow> message \<Rightarrow> sched \<Rightarrow> sched" where
  "push a b m s = s\<lparr>mailbox := (mailbox s)(a := (mailbox s a)(b := mailbox s a b @ [m])),
                    sent := (sent s)(a := (sent s a)(b := sent s a b @ [m]))\<rparr>"

definition setClaim :: "aid \<Rightarrow> bool \<Rightarrow> sched \<Rightarrow> sched" where
  "setClaim a v s = s\<lparr>claimed := (claimed s)(a := v)\<rparr>"

text \<open>\<^verbatim>\<open>enqueueReady_\<close> under the mutex; \<open>wakes\<close> is what \<^verbatim>\<open>notify_one\<close> does to the workers.\<close>

definition enqueueReady :: "aid \<Rightarrow> nat \<Rightarrow> sched \<Rightarrow> sched" where
  "enqueueReady a b s = s\<lparr>ready := (ready s)(b := ready s b @ [a])\<rparr>"

definition wakes :: "worker list \<Rightarrow> worker list \<Rightarrow> bool" where
  "wakes ws ws' \<longleftrightarrow>
     (\<exists>i<length ws. ws ! i = WAsleep \<and> ws' = ws[i := WPark]) \<or> WAsleep \<notin> set ws \<and> ws' = ws"

definition wakeAll :: "worker list \<Rightarrow> worker list" where
  "wakeAll = map (\<lambda>w. if w = WAsleep then WPark else w)"

text \<open>The locked section of \<^verbatim>\<open>popReady_\<close>: the first actor of the first queue that has one.\<close>

definition popReady :: "sched \<Rightarrow> (aid \<times> (nat \<Rightarrow> aid list)) option" where
  "popReady s =
     (case ready s 0 of
        a # rest \<Rightarrow> Some (a, (ready s)(0 := rest))
      | [] \<Rightarrow>
          (case ready s 1 of
             a # rest \<Rightarrow> Some (a, (ready s)(1 := rest))
           | [] \<Rightarrow>
               (case ready s 2 of
                  a # rest \<Rightarrow> Some (a, (ready s)(2 := rest))
                | [] \<Rightarrow> None)))"

definition someReady :: "sched \<Rightarrow> bool" where
  "someReady s \<longleftrightarrow> ready s 0 \<noteq> [] \<or> ready s 1 \<noteq> [] \<or> ready s 2 \<noteq> []"

definition takeAll :: "aid \<Rightarrow> nat \<Rightarrow> sched \<Rightarrow> sched" where
  "takeAll a b s = s\<lparr>mailbox := (mailbox s)(a := (mailbox s a)(b := []))\<rparr>"

text \<open>\<^verbatim>\<open>deliverPromise\<close>: the first delivery wins.\<close>

definition deliverPromise :: "val \<Rightarrow> val \<Rightarrow> sched \<Rightarrow> sched" where
  "deliverPromise p v s =
     (case promises s p of None \<Rightarrow> s\<lparr>promises := (promises s)(p \<mapsto> v)\<rparr> | Some _ \<Rightarrow> s)"

text \<open>The end of a message's turn: its result is the actor's value and its promise's, a handler that
  raised answering nil.\<close>

definition finishMessage :: "val \<Rightarrow> aid \<Rightarrow> nat \<Rightarrow> message \<Rightarrow> val option \<Rightarrow> sched \<Rightarrow> sched" where
  "finishMessage nil a b m outcome s =
     (let r = (case outcome of Some v \<Rightarrow> v | None \<Rightarrow> nil);
          s1 = s\<lparr>actorValue := (actorValue s)(a := r)\<rparr>;
          s2 = (if kPromise m \<noteq> 0 \<and> kPromise m \<noteq> nil then deliverPromise (kPromise m) r s1 else s1)
      in s2\<lparr>messagesProcessed := messagesProcessed s2 + 1,
            handled := (handled s2)(a := (handled s2 a)(b := handled s2 a b @ [m]))\<rparr>)"

section \<open>The steps\<close>

inductive sched_step :: "val \<Rightarrow> (val \<Rightarrow> val list \<Rightarrow> val option \<Rightarrow> bool) \<Rightarrow> sched \<Rightarrow> sched \<Rightarrow> bool"
  for nil invokes where
  send_begin: "t < length (senders s) \<Longrightarrow> senders s ! t = SIdle \<Longrightarrow> b < 3 \<Longrightarrow>
    sched_step nil invokes s (setSender t (SPush a b m) s)"
| send_push: "t < length (senders s) \<Longrightarrow> senders s ! t = SPush a b m \<Longrightarrow>
    sched_step nil invokes s (setSender t (SClaim a b) (push a b m s))"
| send_claim: "t < length (senders s) \<Longrightarrow> senders s ! t = SClaim a b \<Longrightarrow> \<not> claimed s a \<Longrightarrow>
    sched_step nil invokes s (setSender t (SEnqueue a b) (setClaim a True s))"
| send_claimed: "t < length (senders s) \<Longrightarrow> senders s ! t = SClaim a b \<Longrightarrow> claimed s a \<Longrightarrow>
    sched_step nil invokes s (setSender t SIdle s)"
| send_enqueue: "t < length (senders s) \<Longrightarrow> senders s ! t = SEnqueue a b \<Longrightarrow> \<not> queueMtx s \<Longrightarrow>
    wakes (workers s) ws \<Longrightarrow>
    sched_step nil invokes s (setSender t SIdle (enqueueReady a b s)\<lparr>workers := ws\<rparr>)"
| pop: "i < length (workers s) \<Longrightarrow> workers s ! i = WTop \<Longrightarrow> \<not> queueMtx s \<Longrightarrow> popReady s = Some (a, q) \<Longrightarrow>
    sched_step nil invokes s (setWorker i (WTake a 0 []) (s\<lparr>ready := q\<rparr>))"
| pop_done: "i < length (workers s) \<Longrightarrow> workers s ! i = WTop \<Longrightarrow> \<not> queueMtx s \<Longrightarrow> popReady s = None \<Longrightarrow>
    shuttingDown s \<Longrightarrow> sched_step nil invokes s (setWorker i WDone s)"
| pop_park: "i < length (workers s) \<Longrightarrow> workers s ! i = WTop \<Longrightarrow> \<not> queueMtx s \<Longrightarrow> popReady s = None \<Longrightarrow>
    \<not> shuttingDown s \<Longrightarrow> sched_step nil invokes s (setWorker i WPark s)"
| park_go: "i < length (workers s) \<Longrightarrow> workers s ! i = WPark \<Longrightarrow> \<not> queueMtx s \<Longrightarrow> shuttingDown s \<or> someReady s \<Longrightarrow>
    sched_step nil invokes s (setWorker i WTop s)"
| park_wait: "i < length (workers s) \<Longrightarrow> workers s ! i = WPark \<Longrightarrow> \<not> queueMtx s \<Longrightarrow> \<not> shuttingDown s \<Longrightarrow>
    \<not> someReady s \<Longrightarrow> sched_step nil invokes s (setWorker i WBlocking (s\<lparr>queueMtx := True\<rparr>))"
| park_sleep: "i < length (workers s) \<Longrightarrow> workers s ! i = WBlocking \<Longrightarrow>
    sched_step nil invokes s (setWorker i WAsleep (s\<lparr>queueMtx := False\<rparr>))"
| take_band: "i < length (workers s) \<Longrightarrow> workers s ! i = WTake a b batch \<Longrightarrow> b < 3 \<Longrightarrow>
    sched_step nil invokes s (setWorker i (WTake a (b + 1) (batch @ map (Pair b) (mailbox s a b))) (takeAll a b s))"
| take_end: "i < length (workers s) \<Longrightarrow> workers s ! i = WTake a 3 batch \<Longrightarrow>
    sched_step nil invokes s (setWorker i (WRun a batch) s)"
| run_call: "i < length (workers s) \<Longrightarrow> workers s ! i = WRun a ((b, m) # batch) \<Longrightarrow>
    sched_step nil invokes s (setWorker i (WCall a (turnArgs nil (actorValue s a) m) b m batch) s)"
| run_finish: "i < length (workers s) \<Longrightarrow> workers s ! i = WCall a args b m batch \<Longrightarrow> invokes (kFn m) args r \<Longrightarrow>
    sched_step nil invokes s (setWorker i (WRun a batch) (finishMessage nil a b m r s))"
| run_end: "i < length (workers s) \<Longrightarrow> workers s ! i = WRun a [] \<Longrightarrow>
    sched_step nil invokes s (setWorker i (WRelease a) s)"
| release: "i < length (workers s) \<Longrightarrow> workers s ! i = WRelease a \<Longrightarrow>
    sched_step nil invokes s (setWorker i (WCheck a 0) (setClaim a False s))"
| release_late: "i < length (workers s) \<Longrightarrow> workers s ! i = WRelease a \<Longrightarrow>
    sched_step nil invokes s (setWorker i (WCheck a 0) (s\<lparr>late := (i, a) # late s\<rparr>))"
| become_visible: "(i, a) \<in> set (late s) \<Longrightarrow>
    sched_step nil invokes s (setClaim a False (s\<lparr>late := remove1 (i, a) (late s)\<rparr>))"
| check_pending: "i < length (workers s) \<Longrightarrow> workers s ! i = WCheck a b \<Longrightarrow> mailbox s a b \<noteq> [] \<Longrightarrow>
    sched_step nil invokes s (setWorker i (WReclaim a) s)"
| check_next: "i < length (workers s) \<Longrightarrow> workers s ! i = WCheck a b \<Longrightarrow> mailbox s a b = [] \<Longrightarrow>
    sched_step nil invokes s (setWorker i (if b < 2 then WCheck a (b + 1) else WTop) s)"
| reclaim: "i < length (workers s) \<Longrightarrow> workers s ! i = WReclaim a \<Longrightarrow> (i, a) \<notin> set (late s) \<Longrightarrow> \<not> claimed s a \<Longrightarrow>
    sched_step nil invokes s (setWorker i (WPick a 0) (setClaim a True s))"
| reclaim_lost: "i < length (workers s) \<Longrightarrow> workers s ! i = WReclaim a \<Longrightarrow> (i, a) \<notin> set (late s) \<Longrightarrow> claimed s a \<Longrightarrow>
    sched_step nil invokes s (setWorker i WTop s)"
| pick: "i < length (workers s) \<Longrightarrow> workers s ! i = WPick a b \<Longrightarrow> b = 2 \<or> mailbox s a b \<noteq> [] \<Longrightarrow>
    sched_step nil invokes s (setWorker i (WEnqueue a b) s)"
| pick_next: "i < length (workers s) \<Longrightarrow> workers s ! i = WPick a b \<Longrightarrow> b \<noteq> 2 \<Longrightarrow> mailbox s a b = [] \<Longrightarrow>
    sched_step nil invokes s (setWorker i (WPick a (b + 1)) s)"
| reenqueue: "i < length (workers s) \<Longrightarrow> workers s ! i = WEnqueue a b \<Longrightarrow> \<not> queueMtx s \<Longrightarrow>
    wakes ((workers s)[i := WTop]) ws \<Longrightarrow>
    sched_step nil invokes s (enqueueReady a b s\<lparr>workers := ws\<rparr>)"
| shut_flag: "closer s = CIdle \<Longrightarrow> sched_step nil invokes s (s\<lparr>shuttingDown := True, closer := CNotify\<rparr>)"
| shut_notify: "closer s = CNotify \<Longrightarrow>
    sched_step nil invokes s (s\<lparr>workers := wakeAll (workers s), closer := CJoin\<rparr>)"
| shut_join: "closer s = CJoin \<Longrightarrow> set (workers s) \<subseteq> {WDone} \<Longrightarrow>
    sched_step nil invokes s (s\<lparr>workers := [], closer := CDone\<rparr>)"

inductive reachable :: "val \<Rightarrow> (val \<Rightarrow> val list \<Rightarrow> val option \<Rightarrow> bool) \<Rightarrow> sched \<Rightarrow> bool"
  for nil invokes where
  reach_start: "reachable nil invokes (startState m n values)"
| reach_step: "reachable nil invokes s \<Longrightarrow> sched_step nil invokes s s' \<Longrightarrow> reachable nil invokes s'"

text \<open>The states of the runs in which no store is late, as with a sequentially consistent store or a fence after it.\<close>

inductive ordered :: "val \<Rightarrow> (val \<Rightarrow> val list \<Rightarrow> val option \<Rightarrow> bool) \<Rightarrow> sched \<Rightarrow> bool"
  for nil invokes where
  ordered_start: "ordered nil invokes (startState m n values)"
| ordered_step: "ordered nil invokes s \<Longrightarrow> sched_step nil invokes s s' \<Longrightarrow> late s' = [] \<Longrightarrow> ordered nil invokes s'"

end
