(* ===== verification/ActorSafety.thy ===== *)
theory ActorSafety
  imports Actors
begin

text \<open>
  Invariants of the actor scheduler over every interleaving of its threads: who holds an actor, that a
  message is never left behind, and the order of handling.
\<close>

section \<open>Counting\<close>

definition cnt :: "('a \<Rightarrow> bool) \<Rightarrow> 'a list \<Rightarrow> nat" where
  "cnt P xs = length (filter P xs)"

lemma cnt_simps [simp]:
  "cnt P [] = 0" "cnt P (x # xs) = (if P x then Suc (cnt P xs) else cnt P xs)" "cnt P (xs @ ys) = cnt P xs + cnt P ys"
  by (simp_all add: cnt_def)

lemma cnt_replicate [simp]: "\<not> P x \<Longrightarrow> cnt P (replicate n x) = 0"
  by (simp add: cnt_def)

lemma cnt_zero_iff: "cnt P xs = 0 \<longleftrightarrow> (\<forall>x\<in>set xs. \<not> P x)"
  by (simp add: cnt_def filter_empty_conv)

lemma cnt_update:
  "i < length xs \<Longrightarrow> cnt P (xs[i := y]) + of_bool (P (xs ! i)) = cnt P xs + of_bool (P y)"
proof (induction xs arbitrary: i)
  case (Cons x xs)
  then show ?case by (cases i) auto
qed simp

lemma cnt_remove1: "x \<in> set xs \<Longrightarrow> cnt P (remove1 x xs) + of_bool (P x) = cnt P xs"
  by (induction xs) auto

lemma cnt_one_unique: "cnt P xs \<le> 1 \<Longrightarrow> x \<in> set xs \<Longrightarrow> P x \<Longrightarrow> y \<in> set xs \<Longrightarrow> P y \<Longrightarrow> x = y"
proof (induction xs)
  case (Cons z zs)
  then show ?case by (auto simp: cnt_zero_iff split: if_splits)
qed simp

lemma cnt_cong_le: "i < length xs \<Longrightarrow> P (xs ! i) \<Longrightarrow> 1 \<le> cnt P xs"
  using cnt_zero_iff [of P xs] by (metis One_nat_def Suc_leI gr0I nth_mem)

lemma cnt_wakes:
  assumes "wakes ws ws'" "\<not> P WAsleep" "\<not> P WPark"
  shows "cnt P ws' = cnt P ws"
proof (cases "WAsleep \<in> set ws")
  case True
  then obtain i where i: "i < length ws" "ws ! i = WAsleep" "ws' = ws[i := WPark]" using assms(1) by (auto simp: wakes_def)
  then show ?thesis using cnt_update [OF i(1), of P WPark] assms(2,3) by simp
qed (use assms in \<open>auto simp: wakes_def dest: nth_mem\<close>)

lemma cnt_wakeAll: "\<not> P WAsleep \<Longrightarrow> \<not> P WPark \<Longrightarrow> cnt P (wakeAll ws) = cnt P ws"
  by (induction ws) (auto simp: wakeAll_def)

lemma set_wakes: "wakes ws ws' \<Longrightarrow> w \<noteq> WAsleep \<Longrightarrow> w \<noteq> WPark \<Longrightarrow> w \<in> set ws' \<longleftrightarrow> w \<in> set ws"
  by (auto simp: wakes_def in_set_conv_nth nth_list_update)

lemma set_wakeAll: "w \<noteq> WAsleep \<Longrightarrow> w \<noteq> WPark \<Longrightarrow> w \<in> set (wakeAll ws) \<longleftrightarrow> w \<in> set ws"
  by (auto simp: wakeAll_def)

lemma update_keeps: "x \<in> set xs \<Longrightarrow> xs ! i \<noteq> x \<Longrightarrow> x \<in> set (xs[i := y])"
  by (metis in_set_conv_nth length_list_update nth_list_update_neq)

lemma update_has: "i < length xs \<Longrightarrow> y \<in> set (xs[i := y])"
  by (rule set_update_memI)

section \<open>Who holds an actor\<close>

text \<open>The claim is one token per actor: the actor is in a ready queue, or a worker has it, or a sender
  is about to queue it, or a dropped claim is not visible yet.\<close>

fun holdsW :: "aid \<Rightarrow> worker \<Rightarrow> bool" where
  "holdsW a (WTake x b ms) \<longleftrightarrow> x = a"
| "holdsW a (WRun x ms) \<longleftrightarrow> x = a"
| "holdsW a (WCall x args b m ms) \<longleftrightarrow> x = a"
| "holdsW a (WRelease x) \<longleftrightarrow> x = a"
| "holdsW a (WPick x b) \<longleftrightarrow> x = a"
| "holdsW a (WEnqueue x b) \<longleftrightarrow> x = a"
| "holdsW a _ \<longleftrightarrow> False"

fun holdsS :: "aid \<Rightarrow> sender \<Rightarrow> bool" where
  "holdsS a (SEnqueue x b) \<longleftrightarrow> x = a"
| "holdsS a _ \<longleftrightarrow> False"

definition inReady :: "sched \<Rightarrow> aid \<Rightarrow> nat" where
  "inReady s a = cnt (\<lambda>x. x = a) (ready s 0) + cnt (\<lambda>x. x = a) (ready s 1) + cnt (\<lambda>x. x = a) (ready s 2)"

definition tokens :: "sched \<Rightarrow> aid \<Rightarrow> nat" where
  "tokens s a = inReady s a + cnt (holdsW a) (workers s) + cnt (holdsS a) (senders s) + cnt (\<lambda>p. snd p = a) (late s)"

text \<open>The bands the threads work on exist.\<close>

fun bandsW :: "worker \<Rightarrow> bool" where
  "bandsW (WTake a b ms) \<longleftrightarrow> b \<le> 3 \<and> (\<forall>(c, m)\<in>set ms. c < b)"
| "bandsW (WCheck a b) \<longleftrightarrow> b < 3"
| "bandsW (WPick a b) \<longleftrightarrow> b < 3"
| "bandsW (WEnqueue a b) \<longleftrightarrow> b < 3"
| "bandsW _ \<longleftrightarrow> True"

fun bandsS :: "sender \<Rightarrow> bool" where
  "bandsS (SPush a b m) \<longleftrightarrow> b < 3"
| "bandsS (SClaim a b) \<longleftrightarrow> b < 3"
| "bandsS (SEnqueue a b) \<longleftrightarrow> b < 3"
| "bandsS SIdle \<longleftrightarrow> True"

definition bands_ok :: "sched \<Rightarrow> bool" where
  "bands_ok s \<longleftrightarrow> (\<forall>w\<in>set (workers s). bandsW w) \<and> (\<forall>x\<in>set (senders s). bandsS x)"

definition claims_ok :: "sched \<Rightarrow> bool" where
  "claims_ok s \<longleftrightarrow> (\<forall>a. tokens s a = of_bool (claimed s a))"

lemmas step_ops = setSender_def setWorker_def push_def setClaim_def enqueueReady_def takeAll_def

lemma finish_fields [simp]:
  "ready (finishMessage nil a b m r s) = ready s" "workers (finishMessage nil a b m r s) = workers s"
  "senders (finishMessage nil a b m r s) = senders s" "claimed (finishMessage nil a b m r s) = claimed s"
  "mailbox (finishMessage nil a b m r s) = mailbox s" "late (finishMessage nil a b m r s) = late s" "sent (finishMessage nil a b m r s) = sent s"
  "handled (finishMessage nil a b m r s) = (handled s)(a := (handled s a)(b := handled s a b @ [m]))"
  by (simp_all add: finishMessage_def Let_def deliverPromise_def split: option.split)

lemma bandsW_at: "bands_ok s \<Longrightarrow> i < length (workers s) \<Longrightarrow> workers s ! i = w \<Longrightarrow> bandsW w"
  by (auto simp: bands_ok_def)

lemma bandsS_at: "bands_ok s \<Longrightarrow> t < length (senders s) \<Longrightarrow> senders s ! t = x \<Longrightarrow> bandsS x"
  by (auto simp: bands_ok_def)

lemma bands_worker:
  "bands_ok s \<Longrightarrow> workers s' = (workers s)[i := w] \<Longrightarrow> senders s' = senders s \<Longrightarrow> bandsW w \<Longrightarrow> bands_ok s'"
  by (auto simp: bands_ok_def dest!: set_update_subset_insert [THEN subsetD])

lemma bands_sender:
  "bands_ok s \<Longrightarrow> senders s' = (senders s)[t := x] \<Longrightarrow> workers s' = workers s \<Longrightarrow> bandsS x \<Longrightarrow> bands_ok s'"
  by (auto simp: bands_ok_def dest!: set_update_subset_insert [THEN subsetD])

lemma bands_wakes: "bands_ok s \<Longrightarrow> wakes (workers s) ws \<Longrightarrow> bands_ok (s\<lparr>workers := ws\<rparr>)"
  by (auto simp: bands_ok_def wakes_def dest!: set_update_subset_insert [THEN subsetD])

lemma bands_step: "sched_step nil invokes s s' \<Longrightarrow> bands_ok s \<Longrightarrow> bands_ok s'"
proof (induction rule: sched_step.induct)
  case (send_enqueue t s a b ws)
  have "bands_ok (setSender t SIdle (enqueueReady a b s))"
    by (rule bands_sender [OF send_enqueue(5), where x = SIdle and t = t]) (simp_all add: step_ops)
  then show ?case by (rule bands_wakes) (use send_enqueue(4) in \<open>simp add: step_ops\<close>)
next
  case (take_band i s a b batch)
  then show ?case
    using bandsW_at [OF take_band(4,1,2)] by (intro bands_worker [OF take_band(4)]) (fastforce simp: step_ops)+
next
  case (reenqueue i s a b ws)
  have "bands_ok (setWorker i WTop (enqueueReady a b s))"
    by (rule bands_worker [OF reenqueue(5), where w = WTop and i = i]) (simp_all add: step_ops)
  then have "bands_ok (setWorker i WTop (enqueueReady a b s)\<lparr>workers := ws\<rparr>)"
    by (rule bands_wakes) (use reenqueue(4) in \<open>simp add: step_ops\<close>)
  then show ?case by (simp add: step_ops)
next
  case (shut_notify s)
  then show ?case by (auto simp: bands_ok_def wakeAll_def)
next
  case (shut_join s)
  then show ?case by (simp add: bands_ok_def)
next
  case (shut_flag s)
  then show ?case by (simp add: bands_ok_def)
next
  case (become_visible i a s)
  then show ?case by (simp add: bands_ok_def setClaim_def)
qed (rule bands_worker bands_sender, assumption, simp add: step_ops, simp add: step_ops,
    (frule (2) bandsW_at | frule (2) bandsS_at)?, simp)+

section \<open>One token per actor\<close>

lemma popReady_tokens:
  assumes "popReady s = Some (a, q)"
  shows "inReady s x = inReady (s\<lparr>ready := q\<rparr>) x + of_bool (a = x)"
  using assms by (auto simp: popReady_def inReady_def split: list.splits)

lemma band_cases: "(b::nat) < 3 \<Longrightarrow> b = 0 \<or> b = 1 \<or> b = 2"
  by arith

lemma enqueueReady_tokens: "b < 3 \<Longrightarrow> inReady (enqueueReady a b s) x = inReady s x + of_bool (a = x)"
  by (auto simp: enqueueReady_def inReady_def dest!: band_cases)

lemma inReady_cong: "ready s' = ready s \<Longrightarrow> inReady s' x = inReady s x"
  by (simp add: inReady_def)

text \<open>The effect of a step that changes one worker, one sender, or wakes workers.\<close>

lemma tokens_worker:
  assumes "claims_ok s" "i < length (workers s)" "workers s' = (workers s)[i := w]" "senders s' = senders s" "late s' = late s"
    "\<And>x. inReady s' x + of_bool (claimed s x) + of_bool (holdsW x w) =
           inReady s x + of_bool (claimed s' x) + of_bool (holdsW x (workers s ! i))"
  shows "claims_ok s'"
  unfolding claims_ok_def
proof
  fix x
  have "inReady s x + cnt (holdsW x) (workers s) + cnt (holdsS x) (senders s) + cnt (\<lambda>p. snd p = x) (late s) = of_bool (claimed s x)"
    using assms(1) by (simp add: claims_ok_def tokens_def)
  then show "tokens s' x = of_bool (claimed s' x)"
    using cnt_update [OF assms(2), of "holdsW x" w] assms(6) [of x] unfolding tokens_def assms(3-5) by linarith
qed

lemma tokens_sender:
  assumes "claims_ok s" "t < length (senders s)" "senders s' = (senders s)[t := y]"
    "\<And>x. cnt (holdsW x) (workers s') = cnt (holdsW x) (workers s)" "late s' = late s"
    "\<And>x. inReady s' x + of_bool (claimed s x) + of_bool (holdsS x y) =
           inReady s x + of_bool (claimed s' x) + of_bool (holdsS x (senders s ! t))"
  shows "claims_ok s'"
  unfolding claims_ok_def
proof
  fix x
  have "inReady s x + cnt (holdsW x) (workers s) + cnt (holdsS x) (senders s) + cnt (\<lambda>p. snd p = x) (late s) = of_bool (claimed s x)"
    using assms(1) by (simp add: claims_ok_def tokens_def)
  then show "tokens s' x = of_bool (claimed s' x)"
    using cnt_update [OF assms(2), of "holdsS x" y] assms(6) [of x] unfolding tokens_def assms(3-5) by linarith
qed

lemma claims_same:
  "claims_ok s \<Longrightarrow> ready s' = ready s \<Longrightarrow> senders s' = senders s \<Longrightarrow> claimed s' = claimed s \<Longrightarrow> late s' = late s \<Longrightarrow>
   (\<And>x. cnt (holdsW x) (workers s') = cnt (holdsW x) (workers s)) \<Longrightarrow> claims_ok s'"
  by (simp add: claims_ok_def tokens_def inReady_def)

lemma holder_claimed:
  assumes "claims_ok s" "i < length (workers s)" "holdsW a (workers s ! i)"
  shows "claimed s a"
proof -
  have "1 \<le> tokens s a" using cnt_cong_le [of i "workers s" "holdsW a"] assms(2,3) by (simp add: tokens_def)
  then show ?thesis using assms(1) by (cases "claimed s a") (simp_all add: claims_ok_def)
qed

lemma claims_step:
  assumes "sched_step nil invokes s s'" "claims_ok s" "bands_ok s"
  shows "claims_ok s'"
  using assms
proof (induction rule: sched_step.induct)
  case (send_enqueue t s a b ws)
  then have b: "b < 3" using bandsS_at by fastforce
  show ?case
    by (rule tokens_sender [OF send_enqueue(5,1), where y = SIdle])
      (use send_enqueue(2,4) enqueueReady_tokens [OF b, of a s] in
        \<open>simp_all add: cnt_wakes setSender_def inReady_def enqueueReady_def\<close>)
next
  case (pop i s a q)
  show ?case
    by (rule tokens_worker [OF pop(5,1), where w = "WTake a 0 []"])
      (use pop popReady_tokens [OF pop(4)] in \<open>simp_all add: setWorker_def inReady_def\<close>)
next
  case (reenqueue i s a b ws)
  then have b: "b < 3" using bandsW_at by fastforce
  let ?s = "setWorker i WTop (enqueueReady a b s)"
  have "claims_ok ?s"
    by (rule tokens_worker [OF reenqueue(5,1), of _ WTop])
      (use reenqueue b enqueueReady_tokens [OF b, of a s] in \<open>simp_all add: setWorker_def inReady_def, simp_all add: enqueueReady_def\<close>)
  then show ?case by (rule claims_same) (use reenqueue(4) in \<open>simp_all add: step_ops cnt_wakes\<close>)
next
  case (shut_notify s)
  show ?case by (rule claims_same [OF shut_notify(2)]) (simp_all add: cnt_wakeAll)
next
  case (shut_join s)
  have "cnt (holdsW x) (workers s) = 0" for x unfolding cnt_zero_iff using shut_join(2) by auto
  then show ?case using claims_same [OF shut_join(3)] by simp
next
  case (release i s a)
  have "claimed s a" using holder_claimed [OF release(3,1)] release(2) by simp
  then show ?case using release(2)
    by (intro tokens_worker [OF release(3,1), where w = "WCheck a 0"]) (auto simp: step_ops inReady_def)
next
  case (release_late i s a)
  show ?case unfolding claims_ok_def
  proof
    fix x
    show "tokens (setWorker i (WCheck a 0) (s\<lparr>late := (i, a) # late s\<rparr>)) x =
        of_bool (claimed (setWorker i (WCheck a 0) (s\<lparr>late := (i, a) # late s\<rparr>)) x)"
      using release_late(2,3) cnt_update [OF release_late(1), of "holdsW x" "WCheck a 0"]
      by (auto simp: claims_ok_def tokens_def inReady_def setWorker_def dest!: spec [of _ x] split: if_splits)
  qed
next
  case (become_visible i a s)
  show ?case unfolding claims_ok_def
  proof
    fix x
    let ?s = "setClaim a False (s\<lparr>late := remove1 (i, a) (late s)\<rparr>)"
    have "cnt (\<lambda>p. snd p = x) (late ?s) + of_bool (x = a) = cnt (\<lambda>p. snd p = x) (late s)"
      using cnt_remove1 [OF become_visible(1), of "\<lambda>p. snd p = x"] by (auto simp: setClaim_def)
    moreover have "tokens s x = of_bool (claimed s x)" "tokens s x \<le> 1" using become_visible(2) by (simp_all add: claims_ok_def)
    ultimately show "tokens ?s x = of_bool (claimed ?s x)"
      by (auto simp: tokens_def inReady_def setClaim_def)
  qed
next
  case (shut_flag s)
  show ?case by (rule claims_same [OF shut_flag(2)]) simp_all
qed (rule tokens_worker tokens_sender, assumption, assumption, simp add: step_ops, simp add: step_ops, simp add: step_ops,
    force simp: step_ops inReady_def)+

section \<open>No message is left behind\<close>

text \<open>A message in a mailbox has a thread that will come for it: the holder of the claim, the sender that
  pushed it and has not tried the claim yet, or a worker that dropped the claim and has not read that
  band yet, or has found a message.\<close>

definition attended :: "sched \<Rightarrow> aid \<Rightarrow> nat \<Rightarrow> bool" where
  "attended s a b \<longleftrightarrow>
     claimed s a \<or> (\<exists>c. SClaim a c \<in> set (senders s)) \<or> (\<exists>k\<le>b. WCheck a k \<in> set (workers s)) \<or>
     WReclaim a \<in> set (workers s)"

definition none_lost :: "sched \<Rightarrow> bool" where
  "none_lost s \<longleftrightarrow> (\<forall>a b. b < 3 \<and> mailbox s a b \<noteq> [] \<longrightarrow> attended s a b)"

lemma attended_worker:
  assumes "attended s a b" "workers s' = (workers s)[i := w]" "i < length (workers s)"
    "senders s' = senders s" "claimed s a \<Longrightarrow> attended s' a b"
    "\<And>k. workers s ! i = WCheck a k \<Longrightarrow> k \<le> b \<Longrightarrow> attended s' a b"
    "workers s ! i = WReclaim a \<Longrightarrow> attended s' a b"
  shows "attended s' a b"
  using assms update_keeps [of _ "workers s" i w] unfolding attended_def by metis

lemma attended_mono:
  "attended s a b \<Longrightarrow> (claimed s a \<Longrightarrow> claimed s' a) \<Longrightarrow> set (senders s) \<subseteq> set (senders s') \<Longrightarrow>
   (\<And>w. w \<in> set (workers s) \<Longrightarrow> w \<noteq> WAsleep \<Longrightarrow> w \<noteq> WPark \<Longrightarrow> w \<in> set (workers s')) \<Longrightarrow> attended s' a b"
  unfolding attended_def by (meson subsetD worker.distinct)

text \<open>A step that changes one worker and no claim, and attends what that worker attended.\<close>

lemma none_lost_worker:
  assumes "none_lost s" "i < length (workers s)" "workers s' = (workers s)[i := w]" "senders s' = senders s"
    "\<And>a b. b < 3 \<Longrightarrow> mailbox s' a b \<noteq> [] \<Longrightarrow> mailbox s a b \<noteq> []"
    "\<And>a b. b < 3 \<Longrightarrow> mailbox s' a b \<noteq> [] \<Longrightarrow> claimed s a \<Longrightarrow> attended s' a b"
    "\<And>a b k. b < 3 \<Longrightarrow> mailbox s' a b \<noteq> [] \<Longrightarrow> workers s ! i = WCheck a k \<Longrightarrow> k \<le> b \<Longrightarrow> attended s' a b"
    "\<And>a b. b < 3 \<Longrightarrow> mailbox s' a b \<noteq> [] \<Longrightarrow> workers s ! i = WReclaim a \<Longrightarrow> attended s' a b"
  shows "none_lost s'"
  unfolding none_lost_def
proof (intro allI impI)
  fix a b
  assume b: "b < 3 \<and> mailbox s' a b \<noteq> []"
  then have "attended s a b" using assms(1,5) by (simp add: none_lost_def)
  then show "attended s' a b" by (rule attended_worker [OF _ assms(3,2,4)]) (use assms(6-8) b in auto)
qed

lemma attendedI:
  "claimed s a \<Longrightarrow> attended s a b"
  "t < length (senders s) \<Longrightarrow> senders s ! t = SClaim a c \<Longrightarrow> attended s a b"
  "i < length (workers s) \<Longrightarrow> workers s ! i = WCheck a k \<Longrightarrow> k \<le> b \<Longrightarrow> attended s a b"
  "i < length (workers s) \<Longrightarrow> workers s ! i = WReclaim a \<Longrightarrow> attended s a b"
  unfolding attended_def by (metis nth_mem)+

lemma none_lost_sender:
  assumes "none_lost s" "t < length (senders s)" "senders s' = (senders s)[t := y]" "workers s' = workers s"
    "\<And>a b. b < 3 \<Longrightarrow> mailbox s' a b \<noteq> mailbox s a b \<Longrightarrow> attended s' a b"
    "\<And>a. claimed s a \<Longrightarrow> claimed s' a" "\<And>a c. senders s ! t = SClaim a c \<Longrightarrow> claimed s' a"
  shows "none_lost s'"
  unfolding none_lost_def
proof (intro allI impI)
  fix a b
  assume b: "b < 3 \<and> mailbox s' a b \<noteq> []"
  show "attended s' a b"
  proof (cases "mailbox s' a b = mailbox s a b")
    case True
    then have "attended s a b" using assms(1) b by (simp add: none_lost_def)
    then show ?thesis
      using assms(4,6,7) update_keeps [of _ "senders s" t y] unfolding attended_def assms(3) by metis
  qed (use assms(5) b in simp)
qed

lemma none_lost_woken:
  assumes "none_lost s" "mailbox s' = mailbox s" "claimed s' = claimed s" "senders s' = senders s"
    "\<And>w. w \<in> set (workers s) \<Longrightarrow> w \<noteq> WAsleep \<Longrightarrow> w \<noteq> WPark \<Longrightarrow> w \<in> set (workers s')"
  shows "none_lost s'"
  unfolding none_lost_def
proof (intro allI impI)
  fix a b
  assume "b < 3 \<and> mailbox s' a b \<noteq> []"
  then have "attended s a b" using assms(1,2) by (simp add: none_lost_def)
  then show "attended s' a b" by (rule attended_mono) (use assms(3-) in auto)
qed

lemma none_lost_step:
  assumes "sched_step nil invokes s s'" "none_lost s" "late s = []" "late s' = []"
  shows "none_lost s'"
  using assms
proof (induction rule: sched_step.induct)
  case (send_push t s a b m)
  show ?case
    by (rule none_lost_sender [OF send_push(3,1), where y = "SClaim a b"])
      (use send_push(1,2) in \<open>auto simp: step_ops intro!: attendedI(2) [of t] split: if_splits\<close>)
next
  case (send_enqueue t s a b ws)
  have "none_lost (setSender t SIdle (enqueueReady a b s))"
    by (rule none_lost_sender [OF send_enqueue(5,1), where y = SIdle]) (use send_enqueue(2) in \<open>simp_all add: step_ops\<close>)
  then show ?case by (rule none_lost_woken) (use set_wakes [OF send_enqueue(4)] in \<open>simp_all add: step_ops\<close>)
next
  case (reenqueue i s a b ws)
  have "none_lost (setWorker i WTop (enqueueReady a b s))"
    by (rule none_lost_worker [OF reenqueue(5,1), where w = WTop]) (use reenqueue(2) in \<open>simp_all add: step_ops attendedI(1)\<close>)
  then show ?case by (rule none_lost_woken) (use set_wakes [OF reenqueue(4)] in \<open>simp_all add: step_ops\<close>)
next
  case (shut_notify s)
  show ?case by (rule none_lost_woken [OF shut_notify(2)]) (simp_all add: set_wakeAll)
next
  case (shut_join s)
  then have "w \<notin> set (workers s)" if "w \<noteq> WDone" for w using that by blast
  then show ?case using shut_join(3) by (simp add: none_lost_def attended_def)
next
  case (shut_flag s)
  show ?case by (rule none_lost_woken [OF shut_flag(2)]) simp_all
next
  case (release i s a)
  show ?case
    by (rule none_lost_worker [OF release(3,1), where w = "WCheck a 0"])
      (use release(1,2) in \<open>simp_all add: step_ops attended_def set_update_memI, blast intro: set_update_memI\<close>)
next
  case (check_next i s a b)
  have beyond: "b < 2 \<and> Suc b \<le> c" if "b \<le> c" "c < 3" "mailbox s a c \<noteq> []" for c
    using that check_next(3) by (cases "b = c") auto
  show ?case
    by (rule none_lost_worker [OF check_next(4,1), where w = "if b < 2 then WCheck a (b + 1) else WTop"])
      (use check_next(1,2) beyond in \<open>auto simp: step_ops intro: attendedI(1) attendedI(3) [of i _ _ "Suc b"]\<close>)
next
  case (send_begin t s b a m)
  show ?case
    by (rule none_lost_sender [OF send_begin(4,1), where y = "SPush a b m"]) (use send_begin(2) in \<open>simp_all add: step_ops\<close>)
next
  case (send_claim t s a b)
  show ?case
    by (rule none_lost_sender [OF send_claim(4,1), where y = "SEnqueue a b"]) (use send_claim(2) in \<open>simp_all add: step_ops\<close>)
next
  case (release_late i s a)
  then show ?case by (simp add: setWorker_def)
next
  case (become_visible i a s)
  then show ?case by simp
next
  case (send_claimed t s a b)
  show ?case
    by (rule none_lost_sender [OF send_claimed(4,1), where y = SIdle]) (use send_claimed(2,3) in \<open>auto simp: step_ops\<close>)
qed (rule none_lost_worker, assumption, assumption, simp add: step_ops, simp add: step_ops,
    simp add: step_ops split: if_splits, (fastforce simp: step_ops intro: attendedI)[],
    (fastforce simp: step_ops intro: attendedI)[], (fastforce simp: step_ops intro: attendedI)[])+

section \<open>The order of handling\<close>

text \<open>The messages of a band that a worker has taken and not handled yet.\<close>

definition ofBand :: "nat \<Rightarrow> (nat \<times> message) list \<Rightarrow> message list" where
  "ofBand b ms = map snd (filter (\<lambda>(c, m). c = b) ms)"

lemma ofBand_simps [simp]:
  "ofBand b [] = []" "ofBand b ((c, m) # ms) = (if c = b then m # ofBand b ms else ofBand b ms)"
  "ofBand b (ms @ ms') = ofBand b ms @ ofBand b ms'"
  by (simp_all add: ofBand_def)

lemma ofBand_Pair [simp]: "ofBand b (map (Pair c) ms) = (if b = c then ms else [])"
  by (induction ms) auto

lemma ofBand_below: "\<forall>(c, m)\<in>set ms. c < b \<Longrightarrow> ofBand b ms = []"
  by (induction ms) auto

fun pend :: "aid \<Rightarrow> nat \<Rightarrow> worker \<Rightarrow> message list" where
  "pend a b (WTake x k ms) = (if x = a then ofBand b ms else [])"
| "pend a b (WRun x ms) = (if x = a then ofBand b ms else [])"
| "pend a b (WCall x args c m ms) = (if x = a then ofBand b ((c, m) # ms) else [])"
| "pend a b _ = []"

definition in_order :: "sched \<Rightarrow> bool" where
  "in_order s \<longleftrightarrow>
     (\<forall>a b. b < 3 \<longrightarrow>
        (\<forall>w\<in>set (workers s). holdsW a w \<longrightarrow> sent s a b = handled s a b @ pend a b w @ mailbox s a b) \<and>
        ((\<forall>w\<in>set (workers s). \<not> holdsW a w) \<longrightarrow> sent s a b = handled s a b @ mailbox s a b))"

lemma pend_idle: "\<not> holdsW a w \<Longrightarrow> pend a b w = []"
  by (cases w) auto

lemma claims_cnt: "claims_ok s \<Longrightarrow> cnt (holdsW a) (workers s) \<le> 1"
proof -
  assume "claims_ok s"
  then have "tokens s a \<le> 1" by (simp add: claims_ok_def)
  then show ?thesis by (simp add: tokens_def)
qed

text \<open>What band \<open>b\<close> of actor \<open>a\<close> amounts to before and after worker \<open>i\<close> goes on.\<close>

lemma in_order_worker:
  assumes ok: "in_order s" "claims_ok s" "claims_ok s'" "i < length (workers s)"
    and upd: "workers s' = (workers s)[i := w]"
    and eq: "\<And>a b. b < 3 \<Longrightarrow> holdsW a (workers s ! i) \<or> holdsW a w \<Longrightarrow>
      sent s a b = handled s a b @ pend a b (workers s ! i) @ mailbox s a b \<Longrightarrow>
      sent s' a b = handled s' a b @ pend a b w @ mailbox s' a b"
    and same: "\<And>a b. b < 3 \<Longrightarrow> \<not> holdsW a (workers s ! i) \<Longrightarrow> \<not> holdsW a w \<Longrightarrow>
      sent s' a b = sent s a b \<and> handled s' a b = handled s a b \<and> mailbox s' a b = mailbox s a b"
  shows "in_order s'"
  unfolding in_order_def
proof (intro allI impI)
  fix a b :: nat
  assume b: "b < 3"
  note cnts = claims_cnt [OF ok(2), of a] claims_cnt [OF ok(3), of a] cnt_update [OF ok(4), of "holdsW a" w]
  show "(\<forall>w\<in>set (workers s'). holdsW a w \<longrightarrow> sent s' a b = handled s' a b @ pend a b w @ mailbox s' a b) \<and>
      ((\<forall>w\<in>set (workers s'). \<not> holdsW a w) \<longrightarrow> sent s' a b = handled s' a b @ mailbox s' a b)"
  proof (cases "holdsW a (workers s ! i) \<or> holdsW a w")
    case True
    have "sent s a b = handled s a b @ pend a b (workers s ! i) @ mailbox s a b"
    proof (cases "holdsW a (workers s ! i)")
      case False
      then have "cnt (holdsW a) (workers s) = 0" using cnts True by (simp add: upd)
      then show ?thesis using ok(1) b False by (simp add: in_order_def cnt_zero_iff pend_idle)
    qed (use ok(1,4) b in \<open>simp add: in_order_def\<close>)
    from eq [OF b True this] have new: "sent s' a b = handled s' a b @ pend a b w @ mailbox s' a b" .
    have "v = w" if "v \<in> set (workers s')" "holdsW a v" for v
    proof (cases "holdsW a w")
      case True
      then show ?thesis using cnt_one_unique [OF cnts(2), of v w] that update_has [OF ok(4), of w] by (simp add: upd)
    next
      case False
      then have "cnt (holdsW a) (workers s') = 0" using cnts True by (simp add: upd)
      then show ?thesis using that by (auto simp: cnt_zero_iff)
    qed
    then show ?thesis using new update_has [OF ok(4), of w] pend_idle [of a w b] by (auto simp: upd)
  next
    case False
    have members: "v \<in> set (workers s') \<longleftrightarrow> v \<in> set (workers s)" if "holdsW a v" for v
      using False that update_keeps [of v "workers s" i w] set_update_subset_insert [of "workers s" i w]
      by (auto simp: upd)
    have old: "(\<forall>w\<in>set (workers s). holdsW a w \<longrightarrow> sent s a b = handled s a b @ pend a b w @ mailbox s a b) \<and>
      ((\<forall>w\<in>set (workers s). \<not> holdsW a w) \<longrightarrow> sent s a b = handled s a b @ mailbox s a b)"
      using ok(1) b by (simp add: in_order_def)
    have kept: "sent s' a b = sent s a b" "handled s' a b = handled s a b" "mailbox s' a b = mailbox s a b"
      using same [OF b] False by simp_all
    show ?thesis unfolding kept using old members by blast
  qed
qed

lemma in_order_same:
  assumes "in_order s" "sent s' = sent s" "handled s' = handled s" "mailbox s' = mailbox s"
    "\<And>a v. holdsW a v \<Longrightarrow> v \<in> set (workers s') \<longleftrightarrow> v \<in> set (workers s)"
  shows "in_order s'"
  using assms unfolding in_order_def by metis

lemma set_update_idle:
  "\<not> holdsW a (ws ! i) \<Longrightarrow> \<not> holdsW a w \<Longrightarrow> holdsW a v \<Longrightarrow> v \<in> set (ws[i := w]) \<longleftrightarrow> v \<in> set ws"
  using update_keeps [of v ws i w] set_update_subset_insert [of ws i w] by auto

lemma holds_awake: "holdsW a v \<Longrightarrow> v \<noteq> WAsleep \<and> v \<noteq> WPark"
  by auto

lemma in_order_step:
  assumes "sched_step nil invokes s s'" "in_order s" "claims_ok s" "claims_ok s'" "bands_ok s"
  shows "in_order s'"
  using assms
proof (induction rule: sched_step.induct)
  case (send_push t s a b m)
  then show ?case by (auto simp: in_order_def step_ops)
next
  case (send_enqueue t s a b ws)
  show ?case
    by (rule in_order_same [OF send_enqueue(5)]) (use set_wakes [OF send_enqueue(4)] holds_awake in \<open>auto simp: step_ops\<close>)
next
  case (take_band i s a b batch)
  have "ofBand b batch = []" using bandsW_at [OF take_band(7,1,2)] by (simp add: ofBand_below)
  then show ?case using take_band(2)
    by (intro in_order_worker [OF take_band(4-6,1)]) (auto simp: step_ops)
next
  case (reenqueue i s a b ws)
  have "claims_ok (setWorker i WTop (enqueueReady a b s))"
    by (rule claims_same [OF reenqueue(7)]) (use cnt_wakes [OF reenqueue(4)] in \<open>simp_all add: step_ops\<close>)
  then have "in_order (setWorker i WTop (enqueueReady a b s))" using reenqueue(2)
    by (intro in_order_worker [OF reenqueue(5,6) _ reenqueue(1)]) (auto simp: step_ops)
  then show ?case
    by (rule in_order_same) (use set_wakes [OF reenqueue(4)] holds_awake in \<open>auto simp: step_ops\<close>)
next
  case (shut_notify s)
  show ?case by (rule in_order_same [OF shut_notify(2)]) (use holds_awake in \<open>auto simp: set_wakeAll\<close>)
next
  case (shut_join s)
  have "\<not> holdsW a v" if "v \<in> set (workers s)" for a v using that shut_join(2) by auto
  then show ?case using shut_join(3) by (auto simp: in_order_def)
next
  case (run_finish i s a args b m batch r)
  then show ?case by (intro in_order_worker [OF run_finish(4-6,1)]) (auto simp: setWorker_def)
qed (simp add: in_order_def step_ops; fail | rule in_order_worker, assumption, assumption, assumption, assumption,
    simp add: setWorker_def, (auto simp: step_ops split: if_splits)[], (auto simp: step_ops split: if_splits)[])+

section \<open>A sleeping worker is woken in time\<close>

definition nready :: "sched \<Rightarrow> nat" where
  "nready s = length (ready s 0) + length (ready s 1) + length (ready s 2)"

definition searching :: "worker \<Rightarrow> bool" where
  "searching w \<longleftrightarrow> w = WTop \<or> w = WPark"

text \<open>The mutex is held exactly while a worker is about to sleep, with nothing ready; and while a worker
  sleeps, there are at least as many workers on their way to the queues as actors in them. A worker
  leaves only in a shutdown.\<close>

definition wake_ok :: "sched \<Rightarrow> bool" where
  "wake_ok s \<longleftrightarrow>
     cnt (\<lambda>w. w = WBlocking) (workers s) = of_bool (queueMtx s) \<and> (queueMtx s \<longrightarrow> nready s = 0) \<and>
     (WAsleep \<in> set (workers s) \<longrightarrow> nready s \<le> cnt searching (workers s)) \<and>
     (WDone \<in> set (workers s) \<longrightarrow> shuttingDown s)"

lemma someReady_iff: "someReady s \<longleftrightarrow> nready s \<noteq> 0"
  by (auto simp: someReady_def nready_def)

lemma popReady_nready: "popReady s = Some (a, q) \<Longrightarrow> nready s = Suc (nready (s\<lparr>ready := q\<rparr>))"
  by (auto simp: popReady_def nready_def split: list.splits)

lemma popReady_None: "popReady s = None \<longleftrightarrow> nready s = 0"
  by (auto simp: popReady_def nready_def split: list.splits)

lemma enqueue_nready: "b < 3 \<Longrightarrow> nready (enqueueReady a b s) = Suc (nready s)"
  by (auto simp: enqueueReady_def nready_def dest!: band_cases)

lemma update_member: "v \<in> set (xs[i := w]) \<Longrightarrow> v \<noteq> w \<Longrightarrow> v \<in> set xs"
  using set_update_subset_insert [of xs i w] by auto

lemma wake_worker:
  assumes "wake_ok s" "i < length (workers s)" "workers s' = (workers s)[i := w]" "w \<noteq> WAsleep" "w \<noteq> WBlocking"
    "workers s ! i \<noteq> WBlocking" "queueMtx s' = queueMtx s" "shuttingDown s' = shuttingDown s" "w = WDone \<Longrightarrow> shuttingDown s"
    "nready s' \<le> nready s" "nready s' + of_bool (searching (workers s ! i)) \<le> nready s + of_bool (searching w) \<or> nready s' = 0"
  shows "wake_ok s'"
proof -
  have "nready s' \<le> cnt searching (workers s')" if "WAsleep \<in> set (workers s')"
    using assms(1,11) update_member [of WAsleep "workers s" i w] that assms(3,4) cnt_update [OF assms(2), of searching w]
    by (auto simp: wake_ok_def)
  moreover have "WDone \<in> set (workers s') \<Longrightarrow> shuttingDown s'"
    using assms(1,3,8,9) update_member [of WDone "workers s" i w] by (auto simp: wake_ok_def)
  ultimately show ?thesis
    using assms(1,3,5-7,10) cnt_update [OF assms(2), of "\<lambda>w. w = WBlocking" w] by (auto simp: wake_ok_def)
qed

lemma wake_enqueued:
  assumes "wake_ok s" "\<not> queueMtx s" "wakes (workers s) ws" "workers s' = ws" "nready s' = Suc (nready s)"
    "queueMtx s' = queueMtx s" "shuttingDown s' = shuttingDown s"
  shows "wake_ok s'"
proof (cases "WAsleep \<in> set (workers s)")
  case True
  then obtain i where i: "i < length (workers s)" "workers s ! i = WAsleep" "ws = (workers s)[i := WPark]"
    using assms(3) by (auto simp: wakes_def)
  then have "cnt searching ws = Suc (cnt searching (workers s))" "cnt (\<lambda>w. w = WBlocking) ws = cnt (\<lambda>w. w = WBlocking) (workers s)"
    using cnt_update [OF i(1), of searching WPark] cnt_update [OF i(1), of "\<lambda>w. w = WBlocking" WPark]
    by (simp_all add: searching_def)
  then show ?thesis using assms True update_member [of WDone "workers s" i WPark] i(3) by (auto simp: wake_ok_def)
next
  case False
  then have "ws = workers s" using assms(3) by (auto simp: wakes_def dest: nth_mem)
  then show ?thesis using assms False by (simp add: wake_ok_def)
qed

lemma wake_same:
  "wake_ok s \<Longrightarrow> workers s' = workers s \<Longrightarrow> ready s' = ready s \<Longrightarrow> queueMtx s' = queueMtx s \<Longrightarrow>
   (shuttingDown s \<Longrightarrow> shuttingDown s') \<Longrightarrow> wake_ok s'"
  by (auto simp: wake_ok_def nready_def)

lemma finish_flags [simp]:
  "queueMtx (finishMessage nil a b m r s) = queueMtx s" "shuttingDown (finishMessage nil a b m r s) = shuttingDown s"
  by (simp_all add: finishMessage_def Let_def deliverPromise_def split: option.split)

lemma nready_cong: "ready s' = ready s \<Longrightarrow> nready s' = nready s"
  by (simp add: nready_def)

lemma wake_step:
  assumes "sched_step nil invokes s s'" "wake_ok s" "bands_ok s"
  shows "wake_ok s'"
  using assms
proof (induction rule: sched_step.induct)
  case (send_enqueue t s a b ws)
  have "b < 3" using bandsS_at [OF send_enqueue(6,1,2)] by simp
  then have "nready (setSender t SIdle (enqueueReady a b s)\<lparr>workers := ws\<rparr>) = Suc (nready s)"
    using enqueue_nready [of b a s] by (simp add: step_ops nready_def)
  then show ?case by (rule wake_enqueued [OF send_enqueue(5,3,4), rotated]) (simp_all add: step_ops)
next
  case (reenqueue i s a b ws)
  have b: "b < 3" using bandsW_at [OF reenqueue(6,1,2)] by simp
  have "wake_ok (setWorker i WTop s)"
    by (rule wake_worker [OF reenqueue(5,1), where w = WTop]) (use reenqueue(2) in \<open>simp_all add: setWorker_def nready_def searching_def\<close>)
  then show ?case
    by (rule wake_enqueued) (use reenqueue(3,4) enqueue_nready [OF b, of a s] in \<open>simp_all add: step_ops nready_def\<close>)
next
  case (pop i s a q)
  show ?case
    by (rule wake_worker [OF pop(5,1), where w = "WTake a 0 []"])
      (use pop(2) popReady_nready [OF pop(4)] in \<open>simp_all add: setWorker_def nready_def searching_def\<close>)
next
  case (park_wait i s)
  then have "nready s = 0" by (simp add: someReady_iff)
  then show ?case using park_wait cnt_update [OF park_wait(1), of "\<lambda>w. w = WBlocking" WBlocking]
    update_member [of WDone "workers s" i WBlocking] by (auto simp: wake_ok_def setWorker_def nready_def)
next
  case (park_sleep i s)
  have held: "queueMtx s" using park_sleep(1-3) cnt_cong_le [of i "workers s" "\<lambda>w. w = WBlocking"]
    by (cases "queueMtx s") (simp_all add: wake_ok_def)
  then show ?case using park_sleep cnt_update [OF park_sleep(1), of "\<lambda>w. w = WBlocking" WAsleep]
    update_member [of WDone "workers s" i WAsleep] by (auto simp: wake_ok_def setWorker_def nready_def)
next
  case (shut_notify s)
  have "WAsleep \<notin> set (wakeAll (workers s))" by (auto simp: wakeAll_def)
  then show ?case using shut_notify cnt_wakeAll [of "\<lambda>w. w = WBlocking" "workers s"] set_wakeAll [of WDone "workers s"]
    by (auto simp: wake_ok_def nready_def)
next
  case (shut_join s)
  have "cnt (\<lambda>w. w = WBlocking) (workers s) = 0" using shut_join(2) by (auto simp: cnt_zero_iff)
  then show ?case using shut_join(3) by (auto simp: wake_ok_def)
next
  case (pop_done i s)
  show ?case
    by (rule wake_worker [OF pop_done(6,1), where w = WDone])
      (use pop_done in \<open>simp_all add: setWorker_def popReady_None nready_def\<close>)
next
  case (pop_park i s)
  show ?case
    by (rule wake_worker [OF pop_park(6,1), where w = WPark])
      (use pop_park in \<open>simp_all add: setWorker_def searching_def nready_def\<close>)
next
  case (check_next i s a b)
  show ?case
    by (rule wake_worker [OF check_next(4,1), where w = "if b < 2 then WCheck a (b + 1) else WTop"])
      (use check_next(2) in \<open>auto simp: setWorker_def searching_def nready_def split: if_splits\<close>)
qed ((rule wake_same, assumption, simp_all add: step_ops; fail) |
    (rule wake_worker, assumption, assumption, simp add: step_ops,
      simp_all add: step_ops nready_def searching_def; fail))+

section \<open>Reachable states\<close>

lemma start_ok:
  "bands_ok (startState m n values)" "claims_ok (startState m n values)" "none_lost (startState m n values)"
  "in_order (startState m n values)" "wake_ok (startState m n values)"
  by (auto simp: wake_ok_def nready_def startState_def bands_ok_def claims_ok_def tokens_def inReady_def none_lost_def in_order_def)

lemma reachable_ok:
  assumes "reachable nil invokes s"
  shows "bands_ok s" "claims_ok s" "in_order s" "wake_ok s"
proof -
  have "bands_ok s \<and> claims_ok s \<and> in_order s \<and> wake_ok s"
    using assms
  proof induction
    case (reach_step s s')
    then show ?case
      using bands_step [OF reach_step(2)] claims_step [OF reach_step(2)]
        in_order_step [OF reach_step(2)] wake_step [OF reach_step(2)] by blast
  qed (simp add: start_ok)
  then show "bands_ok s" "claims_ok s" "in_order s" "wake_ok s" by simp_all
qed

lemma ordered_reachable: "ordered nil invokes s \<Longrightarrow> reachable nil invokes s"
  by (induction rule: ordered.induct) (auto intro: reachable.intros)

lemma ordered_late: "ordered nil invokes s \<Longrightarrow> late s = []"
  by (induction rule: ordered.induct) (simp_all add: startState_def)

lemma ordered_none_lost: "ordered nil invokes s \<Longrightarrow> none_lost s"
  by (induction rule: ordered.induct) (simp_all add: start_ok none_lost_step ordered_late)

text \<open>A run of one message through one sender and one worker, from the start to rest.\<close>

definition oneMessage :: message where
  "oneMessage = \<lparr>kFn = 5, kArgs = None, kPromise = 8\<rparr>"

definition answersNine :: "val \<Rightarrow> val list \<Rightarrow> val option \<Rightarrow> bool" where
  "answersNine f args r \<longleftrightarrow> r = Some 9"

definition queuedState :: sched where
  "queuedState = (startState 1 1 (\<lambda>_. 2))\<lparr>mailbox := (\<lambda>_ _. [])(0 := (\<lambda>_. [])(1 := [oneMessage])),
     claimed := (\<lambda>_. False)(0 := True), ready := (\<lambda>_. [])(1 := [0]),
     sent := (\<lambda>_ _. [])(0 := (\<lambda>_. [])(1 := [oneMessage]))\<rparr>"

definition turnState :: sched where
  "turnState = queuedState\<lparr>mailbox := \<lambda>_ _. [], ready := \<lambda>_. [], workers := [WRun 0 [(1, oneMessage)]]\<rparr>"

definition servedState :: sched where
  "servedState = turnState\<lparr>claimed := \<lambda>_. False, actorValue := (\<lambda>_. 2)(0 := 9), messagesProcessed := 1,
     promises := [8 \<mapsto> 9], workers := [WTop], handled := (\<lambda>_ _. [])(0 := (\<lambda>_. [])(1 := [oneMessage]))\<rparr>"

lemma queued_ordered: "ordered 1 answersNine queuedState"
proof -
  let ?s0 = "startState 1 1 (\<lambda>_. 2)"
  let ?s1 = "setSender 0 (SPush 0 1 oneMessage) ?s0"
  let ?s2 = "setSender 0 (SClaim 0 1) (push 0 1 oneMessage ?s1)"
  let ?s3 = "setSender 0 (SEnqueue 0 1) (setClaim 0 True ?s2)"
  have "ordered 1 answersNine ?s1"
    by (rule ordered_step [OF ordered_start send_begin]) (simp_all add: startState_def step_ops)
  then have "ordered 1 answersNine ?s2" by (rule ordered_step [OF _ send_push]) (simp_all add: startState_def step_ops)
  then have "ordered 1 answersNine ?s3"
    by (rule ordered_step [OF _ send_claim]) (simp_all add: startState_def step_ops)
  then have "ordered 1 answersNine (setSender 0 SIdle (enqueueReady 0 1 ?s3)\<lparr>workers := [WTop]\<rparr>)"
    by (rule ordered_step [OF _ send_enqueue]) (simp_all add: startState_def step_ops wakes_def)
  then show ?thesis by (simp add: queuedState_def startState_def step_ops fun_upd_def)
qed

lemma turn_ordered: "ordered 1 answersNine turnState"
proof -
  let ?s1 = "setWorker 0 (WTake 0 0 []) (queuedState\<lparr>ready := \<lambda>_. []\<rparr>)"
  let ?s2 = "setWorker 0 (WTake 0 1 []) (takeAll 0 0 ?s1)"
  let ?s3 = "setWorker 0 (WTake 0 2 [(1, oneMessage)]) (takeAll 0 1 ?s2)"
  let ?s4 = "setWorker 0 (WTake 0 3 [(1, oneMessage)]) (takeAll 0 2 ?s3)"
  note defs = queuedState_def startState_def step_ops popReady_def
  have "ordered 1 answersNine ?s1"
    by (rule ordered_step [OF queued_ordered pop]) (simp_all add: defs fun_eq_iff)
  then have "ordered 1 answersNine ?s2" using take_band [of 0 ?s1 0 0 "[]" 1 answersNine]
    by (intro ordered_step [OF \<open>ordered 1 answersNine ?s1\<close>]) (simp_all add: defs)
  then have "ordered 1 answersNine ?s3" using take_band [of 0 ?s2 0 1 "[]" 1 answersNine]
    by (intro ordered_step [OF \<open>ordered 1 answersNine ?s2\<close>]) (simp_all add: defs numeral_2_eq_2)
  then have "ordered 1 answersNine ?s4" using take_band [of 0 ?s3 0 2 "[(1, oneMessage)]" 1 answersNine]
    by (intro ordered_step [OF \<open>ordered 1 answersNine ?s3\<close>]) (simp_all add: defs eval_nat_numeral)
  then have "ordered 1 answersNine (setWorker 0 (WRun 0 [(1, oneMessage)]) ?s4)"
    by (rule ordered_step [OF _ take_end]) (simp_all add: defs)
  moreover have "setWorker 0 (WRun 0 [(1, oneMessage)]) ?s4 = turnState" by (simp add: turnState_def defs fun_eq_iff)
  ultimately show ?thesis by simp
qed

lemma served_ordered: "ordered 1 answersNine servedState"
proof -
  let ?s1 = "setWorker 0 (WCall 0 [2] 1 oneMessage []) turnState"
  let ?s2 = "setWorker 0 (WRun 0 []) (finishMessage 1 0 1 oneMessage (Some 9) ?s1)"
  let ?s3 = "setWorker 0 (WRelease 0) ?s2"
  let ?s4 = "setWorker 0 (WCheck 0 0) (setClaim 0 False ?s3)"
  let ?s5 = "setWorker 0 (WCheck 0 1) ?s4"
  let ?s6 = "setWorker 0 (WCheck 0 2) ?s5"
  let ?s7 = "setWorker 0 WTop ?s6"
  note defs = turnState_def queuedState_def startState_def step_ops turnArgs_def oneMessage_def answersNine_def
  have "ordered 1 answersNine ?s1" using run_call [of 0 turnState 0 1 oneMessage "[]" 1 answersNine]
    by (intro ordered_step [OF turn_ordered]) (simp_all add: defs)
  then have "ordered 1 answersNine ?s2" by (rule ordered_step [OF _ run_finish]) (simp_all add: defs)
  then have "ordered 1 answersNine ?s3" by (rule ordered_step [OF _ run_end]) (simp_all add: defs)
  then have "ordered 1 answersNine ?s4" by (rule ordered_step [OF _ release]) (simp_all add: defs)
  then have "ordered 1 answersNine ?s5" using check_next [of 0 ?s4 0 0 1 answersNine]
    by (intro ordered_step [OF \<open>ordered 1 answersNine ?s4\<close>]) (simp_all add: defs)
  then have "ordered 1 answersNine ?s6" using check_next [of 0 ?s5 0 1 1 answersNine]
    by (intro ordered_step [OF \<open>ordered 1 answersNine ?s5\<close>]) (simp_all add: defs numeral_2_eq_2)
  then have "ordered 1 answersNine ?s7" using check_next [of 0 ?s6 0 2 1 answersNine]
    by (intro ordered_step [OF \<open>ordered 1 answersNine ?s6\<close>]) (simp_all add: defs)
  moreover have "?s7 = servedState"
    by (simp add: servedState_def defs finishMessage_def deliverPromise_def fun_eq_iff)
  ultimately show ?thesis by simp
qed

lemmas queued_reachable = queued_ordered [THEN ordered_reachable]
  and served_reachable = served_ordered [THEN ordered_reachable]

text \<open>A worker is inside an actor's turn: from taking its batches to dropping the claim.\<close>

fun handling :: "aid \<Rightarrow> worker \<Rightarrow> bool" where
  "handling a (WTake x b ms) \<longleftrightarrow> x = a"
| "handling a (WRun x ms) \<longleftrightarrow> x = a"
| "handling a (WCall x args b m ms) \<longleftrightarrow> x = a"
| "handling a (WRelease x) \<longleftrightarrow> x = a"
| "handling a _ \<longleftrightarrow> False"

lemma handling_holds: "handling a w \<Longrightarrow> holdsW a w"
  by (cases w) auto

lemma two_holders:
  assumes "i < length xs" "j < length xs" "i \<noteq> j" "P (xs ! i)" "P (xs ! j)"
  shows "2 \<le> cnt P xs"
proof -
  have "{i, j} \<subseteq> {k. k < length xs \<and> P (xs ! k)}" using assms by simp
  then have "card {i, j} \<le> card {k. k < length xs \<and> P (xs ! k)}" by (intro card_mono) auto
  then show ?thesis using assms(3) by (simp add: cnt_def length_filter_conv_card)
qed

text \<open>C4. The single-method invariant: in every interleaving, no two workers are ever in the turn of the same
  actor, an actor in a turn is in no ready queue, and no actor is queued twice.\<close>

theorem single_method:
  assumes "reachable nil invokes s"
  shows "\<not> (\<exists>i j. i < length (workers s) \<and> j < length (workers s) \<and> i \<noteq> j \<and>
      handling a (workers s ! i) \<and> handling a (workers s ! j)) \<and>
    (\<forall>i<length (workers s). handling a (workers s ! i) \<longrightarrow> inReady s a = 0) \<and> inReady s a \<le> 1"
proof -
  have "tokens s a \<le> 1" using reachable_ok(2) [OF assms] by (simp add: claims_ok_def)
  then have one: "inReady s a + cnt (holdsW a) (workers s) + cnt (holdsS a) (senders s) \<le> 1" by (simp add: tokens_def)
  then have "inReady s a = 0" if "i < length (workers s)" "handling a (workers s ! i)" for i
    using cnt_cong_le [OF that(1), of "holdsW a"] handling_holds [OF that(2)] by simp
  moreover have "i = j" if "i < length (workers s)" "j < length (workers s)" "handling a (workers s ! i)"
    "handling a (workers s ! j)" for i j
    using two_holders [OF that(1,2), of "holdsW a"] that(3,4) handling_holds one by fastforce
  ultimately show ?thesis using one by auto
qed

theorem single_method_witness: "inReady queuedState 0 \<le> 1 \<and> inReady queuedState 0 = 1"
  using single_method [OF queued_reachable, of 0] by (simp add: inReady_def queuedState_def)

text \<open>Every thread is at rest: no send under way, every ready queue empty, every worker idle or gone.\<close>

definition at_rest :: "sched \<Rightarrow> bool" where
  "at_rest s \<longleftrightarrow> set (senders s) \<subseteq> {SIdle} \<and> set (workers s) \<subseteq> {WTop, WPark, WBlocking, WAsleep, WDone} \<and> \<not> someReady s"

lemma rest_unheld:
  assumes "at_rest s"
  shows "cnt (holdsW a) (workers s) = 0" "cnt (holdsS a) (senders s) = 0" "inReady s a = 0"
  using assms by (auto simp: at_rest_def cnt_zero_iff inReady_def someReady_def)

text \<open>C5. No message is lost when the store that drops a claim is visible before the mailboxes are read again (as it would
  be with sequential consistency, or a fence): whenever the system is then at rest, every message ever sent
  has been handled, each band of each actor in exactly the order it was sent.\<close>

theorem nothing_lost:
  assumes "ordered nil invokes s" "at_rest s" "b < 3"
  shows "mailbox s a b = [] \<and> handled s a b = sent s a b"
proof -
  note ok = reachable_ok [OF ordered_reachable [OF assms(1)]] and rest = rest_unheld [OF assms(2), of a]
  have "tokens s a = 0" using rest ordered_late [OF assms(1)] by (simp add: tokens_def)
  then have "\<not> claimed s a" using ok(2) by (simp add: claims_ok_def)
  then have "\<not> attended s a b" using assms(2) by (auto simp: attended_def at_rest_def)
  then have empty: "mailbox s a b = []" using ordered_none_lost [OF assms(1)] assms(3) by (auto simp: none_lost_def)
  have "sent s a b = handled s a b @ mailbox s a b"
    using ok(3) assms(3) rest(1) by (simp add: in_order_def cnt_zero_iff)
  then show ?thesis using empty by simp
qed

theorem nothing_lost_witness: "handled servedState 0 1 = sent servedState 0 1 \<and> sent servedState 0 1 = [oneMessage]"
proof -
  have "at_rest servedState"
    by (simp add: at_rest_def someReady_def servedState_def turnState_def queuedState_def startState_def)
  then have "handled servedState 0 1 = sent servedState 0 1" using nothing_lost [OF served_ordered] by simp
  then show ?thesis by (simp add: servedState_def turnState_def queuedState_def)
qed

text \<open>Messages of one band are handled in the order they were sent, at any moment: what has been handled
  is the beginning of what was sent, whatever the other bands and actors do.\<close>

theorem handled_in_order:
  assumes "reachable nil invokes s" "b < 3"
  shows "\<exists>rest. sent s a b = handled s a b @ rest"
proof (cases "\<exists>w\<in>set (workers s). holdsW a w")
  case True
  then show ?thesis using reachable_ok(3) [OF assms(1)] assms(2) unfolding in_order_def by metis
qed (use reachable_ok(3) [OF assms(1)] assms(2) in \<open>auto simp: in_order_def\<close>)

theorem handled_in_order_witness: "\<exists>rest. sent servedState 0 1 = handled servedState 0 1 @ rest"
  using handled_in_order [OF served_reachable] by simp

section \<open>Progress\<close>

text \<open>A step of a thread that already has something to do: not the start of a new send, nor of the
  shutdown, nor a store that is late.\<close>

definition busy_step :: "val \<Rightarrow> (val \<Rightarrow> val list \<Rightarrow> val option \<Rightarrow> bool) \<Rightarrow> sched \<Rightarrow> sched \<Rightarrow> bool" where
  "busy_step nil invokes s s' \<longleftrightarrow>
     sched_step nil invokes s s' \<and> shuttingDown s' = shuttingDown s \<and> late s' = late s \<and>
     cnt (\<lambda>x. x = SIdle) (senders s) \<le> cnt (\<lambda>x. x = SIdle) (senders s')"

lemma wakes_exists: "\<exists>ws'. wakes ws ws'"
  unfolding wakes_def by (metis in_set_conv_nth)

lemma worker_moves:
  assumes "i < length (workers s)" "workers s ! i \<noteq> WAsleep" "workers s ! i \<noteq> WDone" "\<not> queueMtx s \<or> workers s ! i = WBlocking"
    "bandsW (workers s ! i)" "\<And>f args. \<exists>r. invokes f args r" "late s = []"
  shows "\<exists>s'. busy_step nil invokes s s'"
proof -
  have moves: "\<exists>s'. busy_step nil invokes s s'"
    if "sched_step nil invokes s s'" "senders s' = senders s" "shuttingDown s' = shuttingDown s" "late s' = late s" for s'
    using that by (auto simp: busy_step_def)
  show ?thesis
  proof (cases "workers s ! i")
    case WTop
    with assms(1,4) show ?thesis
      by (cases "popReady s"; cases "shuttingDown s")
        (auto intro!: moves intro: pop pop_done pop_park simp: setWorker_def)
  next
    case WPark
    with assms(1,4) show ?thesis
      by (cases "shuttingDown s \<or> someReady s") (auto intro!: moves intro: park_go park_wait simp: setWorker_def)
  next
    case WBlocking
    with assms(1) show ?thesis by (auto intro!: moves [OF park_sleep] simp: setWorker_def)
  next
    case (WTake a b batch)
    then show ?thesis using assms(1,5) moves [OF take_band [OF assms(1) WTake]] moves [OF take_end [OF assms(1)]]
      by (cases "b = 3") (auto simp: step_ops)
  next
    case (WRun a batch)
    then show ?thesis using assms(1) moves [OF run_end [OF assms(1)]] moves [OF run_call [OF assms(1)]]
      by (cases batch) (auto simp: setWorker_def)
  next
    case (WCall a args b m batch)
    obtain r where "invokes (kFn m) args r" using assms(6) by blast
    then show ?thesis using moves [OF run_finish [OF assms(1) WCall]] by (simp add: setWorker_def)
  next
    case (WRelease a)
    then show ?thesis using moves [OF release [OF assms(1)]] by (simp add: step_ops)
  next
    case (WCheck a b)
    then show ?thesis using moves [OF check_pending [OF assms(1) WCheck]] moves [OF check_next [OF assms(1) WCheck]]
      by (cases "mailbox s a b = []") (auto simp: setWorker_def)
  next
    case (WReclaim a)
    then show ?thesis using moves [OF reclaim [OF assms(1) WReclaim]] moves [OF reclaim_lost [OF assms(1) WReclaim]] assms(7)
      by (cases "claimed s a") (auto simp: step_ops)
  next
    case (WPick a b)
    then show ?thesis using moves [OF pick [OF assms(1) WPick]] moves [OF pick_next [OF assms(1) WPick]]
      by (cases "b = 2 \<or> mailbox s a b \<noteq> []") (auto simp: setWorker_def)
  next
    case (WEnqueue a b)
    obtain ws where "wakes ((workers s)[i := WTop]) ws" using wakes_exists by blast
    then show ?thesis using moves [OF reenqueue [OF assms(1) WEnqueue]] assms(4) WEnqueue by (simp add: enqueueReady_def)
  qed (use assms in simp_all)
qed

lemma sender_moves:
  assumes "t < length (senders s)" "(\<exists>a b. senders s ! t = SClaim a b) \<or> (\<exists>a b. senders s ! t = SEnqueue a b)" "\<not> queueMtx s"
  shows "\<exists>s'. busy_step nil invokes s s'"
proof -
  have moves: "\<exists>s'. busy_step nil invokes s s'"
    if "sched_step nil invokes s s'" "senders s' = (senders s)[t := y]" "shuttingDown s' = shuttingDown s" "late s' = late s" for s' y
    using that cnt_update [OF assms(1), of "\<lambda>x. x = SIdle" y] assms(2) by (auto simp: busy_step_def)
  from assms(2) show ?thesis
  proof (elim disjE exE)
    fix a b
    assume t: "senders s ! t = SClaim a b"
    then show ?thesis
      using moves [OF send_claim [OF assms(1) t]] moves [OF send_claimed [OF assms(1) t]]
      by (cases "claimed s a") (simp_all add: step_ops)
  next
    fix a b
    assume t: "senders s ! t = SEnqueue a b"
    obtain ws where "wakes (workers s) ws" using wakes_exists by blast
    then show ?thesis using moves [OF send_enqueue [OF assms(1) t assms(3)]] by (simp add: step_ops)
  qed
qed

text \<open>C6. No deadlock while a message waits, again when the stores are in order: as long as the scheduler is not shut down
  and has a worker, and every handler returns or raises, a message in a mailbox means that some
  thread can go on, without any new send being needed to wake it.\<close>

theorem no_deadlock:
  assumes "ordered nil invokes s" "\<not> shuttingDown s" "workers s \<noteq> []" "b < 3" "mailbox s a b \<noteq> []"
    "\<forall>f args. \<exists>r. invokes f args r"
  shows "\<exists>s'. busy_step nil invokes s s'"
proof -
  note ok = reachable_ok [OF ordered_reachable [OF assms(1)]] and late = ordered_late [OF assms(1)]
  have worker: "\<exists>s'. busy_step nil invokes s s'"
    if w: "w \<in> set (workers s)" "w \<noteq> WAsleep" "\<not> queueMtx s \<or> w = WBlocking" for w
  proof -
    obtain i where i: "i < length (workers s)" "workers s ! i = w" using w(1) by (auto simp: in_set_conv_nth)
    have "w \<noteq> WDone" using ok(4) assms(2) w(1) by (auto simp: wake_ok_def)
    then show ?thesis using worker_moves [OF i(1)] i(2) w(2,3) bandsW_at [OF ok(1) i] assms(6) late by simp
  qed
  show ?thesis
  proof (cases "queueMtx s")
    case True
    then have "WBlocking \<in> set (workers s)" using ok(4) cnt_zero_iff [of "\<lambda>w. w = WBlocking" "workers s"] by (auto simp: wake_ok_def)
    then show ?thesis using worker [of WBlocking] by simp
  next
    case free: False
    have sender: "\<exists>s'. busy_step nil invokes s s'" if "SClaim a c \<in> set (senders s) \<or> SEnqueue a c \<in> set (senders s)" for c
      using that sender_moves [OF _ _ free] by (metis in_set_conv_nth)
    have "attended s a b" using ordered_none_lost [OF assms(1)] assms(4,5) by (simp add: none_lost_def)
    then consider "claimed s a" | c where "SClaim a c \<in> set (senders s)" | k where "WCheck a k \<in> set (workers s)"
      | "WReclaim a \<in> set (workers s)" by (auto simp: attended_def)
    then show ?thesis
    proof cases
      case 1
      then have "tokens s a = 1" using ok(2) by (simp add: claims_ok_def)
      then consider "inReady s a \<noteq> 0" | "cnt (holdsW a) (workers s) \<noteq> 0" | "cnt (holdsS a) (senders s) \<noteq> 0"
        unfolding tokens_def late by fastforce
      then show ?thesis
      proof cases
        case 1
        then have ready: "nready s \<noteq> 0" by (auto simp: inReady_def nready_def)
        have "\<exists>w\<in>set (workers s). w \<noteq> WAsleep"
        proof (cases "WAsleep \<in> set (workers s)")
          case True
          then have "cnt searching (workers s) \<noteq> 0" using ok(4) ready by (auto simp: wake_ok_def)
          then show ?thesis by (auto simp: cnt_zero_iff searching_def)
        qed (use assms(3) in \<open>metis list.set_intros(1) neq_Nil_conv\<close>)
        then show ?thesis using worker free by blast
      next
        case 2
        then obtain w where "w \<in> set (workers s)" "holdsW a w" by (auto simp: cnt_zero_iff)
        then show ?thesis using worker [of w] free holds_awake [of a w] by simp
      next
        case 3
        then obtain x where x: "x \<in> set (senders s)" "holdsS a x" by (auto simp: cnt_zero_iff)
        then obtain c where "x = SEnqueue a c" by (auto elim: holdsS.elims)
        then show ?thesis using sender x(1) by blast
      qed
    qed (use sender worker free in auto)
  qed
qed

theorem no_deadlock_witness: "\<exists>s'. busy_step 1 answersNine queuedState s'"
  by (rule no_deadlock [OF queued_ordered, of 1 0])
    (simp_all add: queuedState_def startState_def oneMessage_def answersNine_def)

text \<open>The second message of a run, sent after the worker looked at the mailboxes and before its store is visible.\<close>

definition strandedState :: sched where
  "strandedState = servedState\<lparr>mailbox := (\<lambda>_ _. [])(0 := (\<lambda>_. [])(1 := [oneMessage])), workers := [WAsleep],
     sent := (\<lambda>_ _. [])(0 := (\<lambda>_. [])(1 := [oneMessage, oneMessage]))\<rparr>"

lemma stranded_reachable: "reachable 1 answersNine strandedState"
proof -
  let ?s1 = "setWorker 0 (WCall 0 [2] 1 oneMessage []) turnState"
  let ?s2 = "setWorker 0 (WRun 0 []) (finishMessage 1 0 1 oneMessage (Some 9) ?s1)"
  let ?s3 = "setWorker 0 (WRelease 0) ?s2"
  let ?s4 = "setWorker 0 (WCheck 0 0) (?s3\<lparr>late := [(0, 0)]\<rparr>)"
  let ?s5 = "setWorker 0 (WCheck 0 1) ?s4"
  let ?s6 = "setWorker 0 (WCheck 0 2) ?s5"
  let ?s7 = "setWorker 0 WTop ?s6"
  let ?s8 = "setSender 0 (SPush 0 1 oneMessage) ?s7"
  let ?s9 = "setSender 0 (SClaim 0 1) (push 0 1 oneMessage ?s8)"
  let ?s10 = "setSender 0 SIdle ?s9"
  let ?s11 = "setClaim 0 False (?s10\<lparr>late := []\<rparr>)"
  let ?s12 = "setWorker 0 WPark ?s11"
  let ?s13 = "setWorker 0 WBlocking (?s12\<lparr>queueMtx := True\<rparr>)"
  let ?s14 = "setWorker 0 WAsleep (?s13\<lparr>queueMtx := False\<rparr>)"
  note defs = turnState_def queuedState_def startState_def step_ops turnArgs_def oneMessage_def answersNine_def
    popReady_def someReady_def
  have 1: "reachable 1 answersNine ?s1" using run_call [of 0 turnState 0 1 oneMessage "[]" 1 answersNine]
    by (intro reach_step [OF ordered_reachable [OF turn_ordered]]) (simp_all add: defs)
  have 2: "reachable 1 answersNine ?s2" by (rule reach_step [OF 1 run_finish]) (simp_all add: defs)
  have 3: "reachable 1 answersNine ?s3" by (rule reach_step [OF 2 run_end]) (simp_all add: defs)
  have 4: "reachable 1 answersNine ?s4" using release_late [of 0 ?s3 0 1 answersNine]
    by (intro reach_step [OF 3]) (simp_all add: defs)
  have 5: "reachable 1 answersNine ?s5" using check_next [of 0 ?s4 0 0 1 answersNine]
    by (intro reach_step [OF 4]) (simp_all add: defs)
  have 6: "reachable 1 answersNine ?s6" using check_next [of 0 ?s5 0 1 1 answersNine]
    by (intro reach_step [OF 5]) (simp_all add: defs numeral_2_eq_2)
  have 7: "reachable 1 answersNine ?s7" using check_next [of 0 ?s6 0 2 1 answersNine]
    by (intro reach_step [OF 6]) (simp_all add: defs)
  have 8: "reachable 1 answersNine ?s8" by (rule reach_step [OF 7 send_begin]) (simp_all add: defs)
  have 9: "reachable 1 answersNine ?s9" by (rule reach_step [OF 8 send_push]) (simp_all add: defs)
  have 10: "reachable 1 answersNine ?s10" by (rule reach_step [OF 9 send_claimed]) (simp_all add: defs)
  have 11: "reachable 1 answersNine ?s11" using become_visible [of 0 0 ?s10 1 answersNine]
    by (intro reach_step [OF 10]) (simp_all add: defs)
  have 12: "reachable 1 answersNine ?s12" by (rule reach_step [OF 11 pop_park]) (simp_all add: defs)
  have 13: "reachable 1 answersNine ?s13" by (rule reach_step [OF 12 park_wait]) (simp_all add: defs)
  have 14: "reachable 1 answersNine ?s14" by (rule reach_step [OF 13 park_sleep]) (simp_all add: defs)
  moreover have "?s14 = strandedState"
    by (simp add: strandedState_def servedState_def defs finishMessage_def deliverPromise_def fun_eq_iff)
  ultimately show ?thesis by simp
qed

text \<open>C7. A message can be left behind for ever: the store that drops a claim has release order and the mailboxes are then
  read with relaxed order, so a message can be pushed after they were read and its sender still see the claim. Then the
  message lies in the mailbox of an actor nobody holds, every thread is at rest, every store is visible and no
  thread can go on until another message is sent to the actor.\<close>

theorem message_stranded:
  "\<exists>s. reachable 1 answersNine s \<and> at_rest s \<and> \<not> shuttingDown s \<and> late s = [] \<and> \<not> claimed s 0 \<and> mailbox s 0 1 \<noteq> [] \<and>
     handled s 0 1 \<noteq> sent s 0 1 \<and> (\<forall>s'. \<not> busy_step 1 answersNine s s')"
proof (intro exI conjI allI)
  note defs = strandedState_def servedState_def turnState_def queuedState_def startState_def
  show "reachable 1 answersNine strandedState" by (rule stranded_reachable)
  show "at_rest strandedState" by (simp add: at_rest_def someReady_def defs)
  show "\<not> busy_step 1 answersNine strandedState s'" for s'
    unfolding busy_step_def by (rule notI, elim conjE, erule sched_step.cases) (auto simp: defs setSender_def)
qed (simp_all add: strandedState_def servedState_def turnState_def queuedState_def startState_def oneMessage_def)

section \<open>Promises, arguments and workers\<close>

lemma promises_step: "sched_step nil invokes s s' \<Longrightarrow> promises s p = Some v \<Longrightarrow> promises s' p = Some v"
  by (induction rule: sched_step.induct)
    (auto simp: step_ops finishMessage_def deliverPromise_def Let_def split: option.split)

text \<open>A delivered promise never changes: whatever the scheduler does afterwards, a promise keeps the value
  of its first delivery.\<close>

theorem promise_stable:
  assumes "(sched_step nil invokes)\<^sup>*\<^sup>* s s'" "promises s p = Some v"
  shows "promises s' p = Some v"
  using assms by (induction rule: rtranclp_induct) (auto intro: promises_step)

theorem promise_stable_witness: "promises servedState 8 = Some 9"
  by (rule promise_stable [OF rtranclp.rtrancl_refl [of "sched_step 1 answersNine"]]) (simp add: servedState_def)

text \<open>The call of a message gets the actor's value and the arguments of its send, but at most fifteen of
  them: a send with more is accepted, and the rest are silently dropped.\<close>

theorem send_truncates:
  assumes "sendMessage nil args p = Some m" "value \<noteq> 0"
  shows "turnArgs nil value m = value # take 15 (drop 2 args) \<and>
    (length args > 17 \<longrightarrow> turnArgs nil value m \<noteq> value # drop 2 args)"
proof -
  have "turnArgs nil value m = value # take 15 (drop 2 args)"
    using assms by (auto simp: sendMessage_def newMessage_def turnArgs_def split: if_splits)
  moreover have "take 15 (drop 2 args) \<noteq> drop 2 args" if "length args > 17"
    using that by (auto dest: arg_cong [where f = length])
  ultimately show ?thesis by simp
qed

theorem send_truncates_witness:
  "turnArgs 1 2 (newMessage 1 5 (Some (replicate 16 7)) (Some 8)) \<noteq> 2 # replicate 16 7"
  using send_truncates [of 1 "3 # 5 # replicate 16 7" 8 "newMessage 1 5 (Some (replicate 16 7)) (Some 8)" 2]
  by (simp add: sendMessage_def)

text \<open>There is always at least one worker and never more than 64. Without the environment variable there
  are two less than the hardware threads, at least two and at most sixteen, except on three hardware
  threads, where there is one.\<close>

theorem workerCount_range:
  "1 \<le> configuredWorkerCount env hw \<and> configuredWorkerCount env hw \<le> 64 \<and>
   configuredWorkerCount None hw = (if hw = 3 then 1 else min 16 (max 2 (hw - 2)))"
  by (auto simp: configuredWorkerCount_def Let_def split: option.split)

section \<open>Shutdown\<close>

text \<open>C36. A shutdown can wait for ever. \<^verbatim>\<open>shutdown\<close> sets the flag and notifies without holding the mutex, so
  both can fall between a worker's test of the wait condition and its going to sleep; the notification
  is lost, the worker sleeps with the flag set, and the shutdown waits for it: no thread can move.\<close>

theorem shutdown_can_hang:
  "\<exists>s. reachable nil invokes s \<and> closer s = CJoin \<and> shuttingDown s \<and> WAsleep \<in> set (workers s) \<and>
     (\<forall>s'. \<not> sched_step nil invokes s s')"
proof -
  let ?s0 = "startState 0 1 (\<lambda>_. 0)"
  let ?s1 = "setWorker 0 WPark ?s0"
  let ?s2 = "setWorker 0 WBlocking (?s1\<lparr>queueMtx := True\<rparr>)"
  let ?s3 = "?s2\<lparr>shuttingDown := True, closer := CNotify\<rparr>"
  let ?s4 = "?s3\<lparr>workers := wakeAll (workers ?s3), closer := CJoin\<rparr>"
  let ?s5 = "setWorker 0 WAsleep (?s4\<lparr>queueMtx := False\<rparr>)"
  note defs = startState_def setWorker_def popReady_def someReady_def wakeAll_def
  have "reachable nil invokes ?s1"
    by (rule reach_step [OF reach_start pop_park]) (simp_all add: defs)
  then have "reachable nil invokes ?s2" by (rule reach_step [OF _ park_wait]) (simp_all add: defs)
  then have "reachable nil invokes ?s3" by (rule reach_step [OF _ shut_flag]) (simp add: defs)
  then have "reachable nil invokes ?s4" by (rule reach_step [OF _ shut_notify]) simp
  then have "reachable nil invokes ?s5" by (rule reach_step [OF _ park_sleep]) (simp_all add: defs)
  moreover have "\<not> sched_step nil invokes ?s5 s'" for s'
    by (rule notI, erule sched_step.cases) (auto simp: defs)
  ultimately show ?thesis by (intro exI [of _ ?s5]) (simp add: defs)
qed

end
