(* ===== verification/Json.thy ===== *)
theory Json
  imports Utf8 SmallInt
begin

text \<open>
  JSON (src/runtime/Json.cpp): the recursive-descent parser with its error messages and positions, the
  writer of the two flavours (cheshire and clojure.data.json) with all their options, and the readers
  and writers the primitives call.

  A value is a \<open>jval\<close>: what the parser builds and the writer tells apart. A map is the list of its
  entries in the order \<^verbatim>\<open>mapForEach\<close> visits them; a double is its bit pattern, with the C library's
  reading and protoClojure's printing of it as parameters; the user's key and value functions, and the
  printer of arbitrary values, are parameters too. A source is the text still buffered, what has been
  read of the current line, the line's number, and the lines a reader has still to deliver.
\<close>

section \<open>Values and errors\<close>

datatype jval =
  VNil | VTrue | VFalse
| VInt int
| VFloat "64 word"
| VStr string
| VMap "(jval \<times> jval) list"
| VSeq "jval list"
| VNamed string
| VOther string

datatype jerror = JsonSyntaxError string | StackOverflow | Thrown string string | Diverged

datatype Flavor = Cheshire | DataJson

definition errorClass :: "Flavor \<Rightarrow> string" where
  "errorClass f = (if f = Cheshire then ''IOException'' else ''Exception'')"

definition truthyJ :: "jval \<Rightarrow> bool" where
  "truthyJ v \<longleftrightarrow> v \<noteq> VNil \<and> v \<noteq> VFalse"

text \<open>\<^verbatim>\<open>mapAssocPairs\<close> on entries: a repeated key keeps its last value (src/runtime/MapOps.cpp).\<close>

fun assocPair :: "jval \<times> jval \<Rightarrow> (jval \<times> jval) list \<Rightarrow> (jval \<times> jval) list" where
  "assocPair (k, v) [] = [(k, v)]"
| "assocPair (k, v) ((k', v') # m) = (if k' = k then (k, v) # m else (k', v') # assocPair (k, v) m)"

definition mapAssocPairs :: "(jval \<times> jval) list \<Rightarrow> (jval \<times> jval) list \<Rightarrow> (jval \<times> jval) list" where
  "mapAssocPairs m kv = fold assocPair kv m"

section \<open>The source\<close>

record source =
  buf :: string
  lineText :: string
  line :: nat
  pending :: "string list"

definition stringSource :: "string \<Rightarrow> source" where
  "stringSource s = \<lparr>buf = s, lineText = [], line = 1, pending = []\<rparr>"

definition streamSource :: "string list \<Rightarrow> source" where
  "streamSource ls = \<lparr>buf = [], lineText = [], line = 1, pending = ls\<rparr>"

text \<open>\<^verbatim>\<open>refill\<close>: the next line of a reader, with the line end that reading it stripped.\<close>

definition fill :: "source \<Rightarrow> source" where
  "fill s =
     (case buf s of
        _ # _ \<Rightarrow> s
      | [] \<Rightarrow> (case pending s of
                 [] \<Rightarrow> s
               | l # ls \<Rightarrow> s\<lparr>buf := l @ [CHR 0x0A], lineText := [], pending := ls\<rparr>))"

definition peekJ :: "source \<Rightarrow> char option" where
  "peekJ s = (case buf (fill s) of [] \<Rightarrow> None | c # _ \<Rightarrow> Some c)"

definition advanceJ :: "source \<Rightarrow> source" where
  "advanceJ s = (let t = fill s in t\<lparr>buf := tl (buf t), lineText := lineText t @ take 1 (buf t)\<rparr>)"

definition newline :: "source \<Rightarrow> source" where
  "newline s = s\<lparr>line := line s + 1, lineText := []\<rparr>"

definition whereJ :: "source \<Rightarrow> string" where
  "whereJ s = ''line '' @ dec (line s) @ '', column '' @
     dec (1 + length (filter (\<lambda>c. byte c AND 0xC0 \<noteq> 0x80) (lineText s)))"

definition failJ :: "string \<Rightarrow> source \<Rightarrow> jerror + 'a" where
  "failJ what s = Inl (JsonSyntaxError (''JSON error: '' @ what @ '' at '' @ whereJ s))"

definition describeCurrent :: "source \<Rightarrow> string" where
  "describeCurrent s =
     (case peekJ s of
        None \<Rightarrow> ''end of input''
      | Some c \<Rightarrow>
          if byte c < 0x20 then ''control character '' @ dec (byte c)
          else if byte c \<ge> 0x80 then ''character beyond ASCII''
          else ''character '' @ [CHR 0x27] @ [c] @ [CHR 0x27])"

text \<open>The bytes a source has still to deliver: the measure of the loops.\<close>

definition textOf :: "source \<Rightarrow> string" where
  "textOf s = buf s @ concat (map (\<lambda>l. l @ [CHR 0x0A]) (pending s))"

lemma textOf_fill [simp]: "textOf (fill s) = textOf s"
  by (auto simp: fill_def textOf_def split: list.split)

lemma line_split: "tl (l @ [c]) @ r = tl (l @ c # r)" "l @ [c] = x # xs \<Longrightarrow> l @ c # r = y # ys \<Longrightarrow> x = y"
  by (cases l; simp)+

lemma peekJ_text: "peekJ s = (case textOf s of [] \<Rightarrow> None | c # _ \<Rightarrow> Some c)"
  by (auto simp: peekJ_def fill_def textOf_def split: list.split dest: line_split(2))

lemma textOf_advance [simp]: "textOf (advanceJ s) = tl (textOf s)"
proof -
  have "textOf (advanceJ s) = tl (textOf (fill s))"
    by (auto simp: advanceJ_def Let_def textOf_def fill_def line_split(1) split: list.split)
  then show ?thesis by simp
qed

lemma textOf_newline [simp]: "textOf (newline s) = textOf s"
  by (simp add: textOf_def newline_def)

lemma peekJ_Some_shorter: "peekJ s = Some c \<Longrightarrow> length (textOf (advanceJ s)) < length (textOf s)"
  by (simp add: peekJ_text split: list.splits)

lemma peekJ_Cons: "peekJ s = Some c \<longleftrightarrow> (\<exists>t. textOf s = c # t)"
  by (auto simp: peekJ_text split: list.splits)

lemma peekJ_None: "peekJ s = None \<longleftrightarrow> textOf s = []"
  by (auto simp: peekJ_text split: list.splits)

section \<open>The parser\<close>

datatype Keys = KStrings | KKeywords | KFn "jval \<Rightarrow> jerror + jval"

text \<open>The value function of clojure.data.json answers the value to keep, or \<open>None\<close>, itself, to drop the
  entry.\<close>

record ReadOptions =
  keys :: Keys
  valueFn :: "(jval \<Rightarrow> jval \<Rightarrow> jerror + jval option) option"

function skipWhitespaceJ :: "source \<Rightarrow> source" where
  "skipWhitespaceJ s =
     (case peekJ s of
        Some c \<Rightarrow>
          if c = CHR '' '' \<or> c = CHR 0x09 \<or> c = CHR 0x0D then skipWhitespaceJ (advanceJ s)
          else if c = CHR 0x0A then skipWhitespaceJ (newline (advanceJ s))
          else s
      | None \<Rightarrow> s)"
  by pat_completeness auto
termination
  by (relation "measure (\<lambda>s. length (textOf s))") (auto dest: peekJ_Some_shorter)

declare skipWhitespaceJ.simps [simp del]

definition moreJ :: "source \<Rightarrow> bool \<times> source" where
  "moreJ s = (let t = skipWhitespaceJ s in (peekJ t \<noteq> None, t))"

definition expect :: "char \<Rightarrow> string \<Rightarrow> source \<Rightarrow> jerror + source" where
  "expect c what s =
     (if peekJ s \<noteq> Some c then failJ (''expected '' @ what @ '', found '' @ describeCurrent s) s
      else Inr (advanceJ s))"

text \<open>The run of characters that satisfy a predicate, as the loops that read a token take it.\<close>

function scanJ :: "(char \<Rightarrow> bool) \<Rightarrow> source \<Rightarrow> string \<times> source" where
  "scanJ p s =
     (case peekJ s of
        Some c \<Rightarrow> if p c then (let (t, s') = scanJ p (advanceJ s) in (c # t, s')) else ([], s)
      | None \<Rightarrow> ([], s))"
  by pat_completeness auto
termination
  by (relation "measure (\<lambda>(p, s). length (textOf s))") (auto dest: peekJ_Some_shorter)

declare scanJ.simps [simp del]

definition quotedToken :: "string \<Rightarrow> string" where
  "quotedToken t = ''unrecognized token '' @ [CHR 0x27] @ t @ [CHR 0x27] @ '', expected a value''"

definition islower_digit :: "char \<Rightarrow> bool" where
  "islower_digit c \<longleftrightarrow> 97 \<le> byte c \<and> byte c \<le> 122 \<or> isdigit c"

text \<open>\<^verbatim>\<open>word\<close>: \<open>seen\<close> is what has matched so far.\<close>

fun wordLoop :: "string \<Rightarrow> string \<Rightarrow> source \<Rightarrow> jerror + source" where
  "wordLoop seen (p # ps) s =
     (if peekJ s \<noteq> Some p
      then let (t, s') = scanJ isalpha s in failJ (quotedToken (seen @ t)) s'
      else wordLoop (seen @ [p]) ps (advanceJ s))"
| "wordLoop seen [] s =
     (case peekJ s of
        Some c \<Rightarrow>
          if isalnum c
          then let (t, s') = scanJ islower_digit s in failJ (quotedToken (seen @ t)) s'
          else Inr s
      | None \<Rightarrow> Inr s)"

definition word :: "string \<Rightarrow> source \<Rightarrow> jerror + source" where
  "word w s = wordLoop [] w s"

definition digitAt :: "source \<Rightarrow> bool" where
  "digitAt s = (case peekJ s of Some c \<Rightarrow> isdigit c | None \<Rightarrow> False)"

definition numberInt :: "source \<Rightarrow> jerror + (string \<times> source)" where
  "numberInt s =
     (if peekJ s = Some (CHR ''0'') then
        let s1 = advanceJ s in
        if digitAt s1 then failJ ''invalid number, leading zeroes are not allowed'' s1
        else Inr (''0'', s1)
      else if digitAt s then Inr (scanJ isdigit s)
      else failJ (''invalid number, expected a digit after '' @ [CHR 0x27] @ ''-'' @ [CHR 0x27]) s)"

definition numberFraction :: "source \<Rightarrow> jerror + (string \<times> source)" where
  "numberFraction s =
     (if peekJ s = Some (CHR ''.'') then
        let s1 = advanceJ s in
        if \<not> digitAt s1 then failJ ''invalid number, expected a digit after the decimal point'' s1
        else let (t, s2) = scanJ isdigit s1 in Inr (CHR ''.'' # t, s2)
      else Inr ([], s))"

definition numberExponent :: "source \<Rightarrow> jerror + (string \<times> source)" where
  "numberExponent s =
     (if peekJ s = Some (CHR ''e'') \<or> peekJ s = Some (CHR ''E'') then
        let s1 = advanceJ s;
            (sign, s2) = (case peekJ s1 of
                            Some c \<Rightarrow> if c = CHR ''+'' \<or> c = CHR ''-'' then ([c], advanceJ s1) else ([], s1)
                          | None \<Rightarrow> ([], s1))
        in if \<not> digitAt s2 then failJ ''invalid number, expected a digit in the exponent'' s2
           else let (t, s3) = scanJ isdigit s2 in Inr (CHR ''e'' # sign @ t, s3)
      else Inr ([], s))"

text \<open>The value of the text of an integer: within 64 bits or beyond, it is exact.\<close>

definition integerOf :: "string \<Rightarrow> int" where
  "integerOf t = (case t of c # ds \<Rightarrow> if c = CHR ''-'' then - int (dec_value ds) else int (dec_value t) | [] \<Rightarrow> 0)"

definition number :: "(string \<Rightarrow> 64 word) \<Rightarrow> source \<Rightarrow> jerror + (jval \<times> source)" where
  "number strtod s0 =
     (let (minus, s) = (if peekJ s0 = Some (CHR ''-'') then (''-'', advanceJ s0) else ([], s0)) in
      bindE (numberInt s) (\<lambda>(t, s1).
      bindE (numberFraction s1) (\<lambda>(fr, s2).
      bindE (numberExponent s2) (\<lambda>(ex, s3).
        case peekJ s3 of
          Some c \<Rightarrow>
            if isalpha c \<or> c = CHR ''.'' \<or> c = CHR ''_''
            then failJ (''invalid number, unexpected '' @ describeCurrent s3) s3
            else Inr (if fr \<noteq> [] \<or> ex \<noteq> [] then VFloat (strtod (minus @ t @ fr @ ex)) else VInt (integerOf (minus @ t)), s3)
        | None \<Rightarrow>
            Inr (if fr \<noteq> [] \<or> ex \<noteq> [] then VFloat (strtod (minus @ t @ fr @ ex)) else VInt (integerOf (minus @ t)), s3)))))"

fun hexLoop :: "nat \<Rightarrow> nat \<Rightarrow> source \<Rightarrow> jerror + (nat \<times> source)" where
  "hexLoop 0 v s = Inr (v, s)"
| "hexLoop (Suc k) v s =
     (case Option.bind (peekJ s) hexValue of
        Some d \<Rightarrow> hexLoop k (v * 16 + d) (advanceJ s)
      | None \<Rightarrow> failJ (''invalid '' @ [CHR 0x5C] @ ''u escape, expected four hexadecimal digits'') s)"

definition hex4J :: "source \<Rightarrow> jerror + (nat \<times> source)" where
  "hex4J s = hexLoop 4 0 s"

definition unpaired :: string where
  "unpaired = ''unpaired surrogate in a '' @ [CHR 0x5C] @ ''u escape''"

definition unicodeEscapeJ :: "source \<Rightarrow> jerror + (string \<times> source)" where
  "unicodeEscapeJ s =
     bindE (hex4J s) (\<lambda>(cp, s1).
       if 0xD800 \<le> cp \<and> cp \<le> 0xDBFF then
         if peekJ s1 \<noteq> Some (CHR 0x5C) then failJ unpaired s1
         else let s2 = advanceJ s1 in
              if peekJ s2 \<noteq> Some (CHR ''u'') then failJ unpaired s2
              else bindE (hex4J (advanceJ s2)) (\<lambda>(lo, s3).
                     if lo < 0xDC00 \<or> lo > 0xDFFF then failJ unpaired s3
                     else Inr (appendUtf8 (0x10000 + push_bit 10 (cp - 0xD800) + (lo - 0xDC00)), s3))
       else if 0xDC00 \<le> cp \<and> cp \<le> 0xDFFF then failJ unpaired s1
       else Inr (appendUtf8 cp, s1))"

text \<open>What follows a backslash, the character itself consumed.\<close>

definition escapeJ :: "char \<Rightarrow> source \<Rightarrow> jerror + (string \<times> source)" where
  "escapeJ e s =
     (if e = CHR 0x22 then Inr ([CHR 0x22], s)
      else if e = CHR 0x5C then Inr ([CHR 0x5C], s)
      else if e = CHR ''/'' then Inr (''/'', s)
      else if e = CHR ''b'' then Inr ([CHR 0x08], s)
      else if e = CHR ''f'' then Inr ([CHR 0x0C], s)
      else if e = CHR ''n'' then Inr ([CHR 0x0A], s)
      else if e = CHR ''r'' then Inr ([CHR 0x0D], s)
      else if e = CHR ''t'' then Inr ([CHR 0x09], s)
      else if e = CHR ''u'' then unicodeEscapeJ s
      else failJ (if byte e < 0x20 \<or> byte e \<ge> 0x80 then ''invalid escape in a string''
                  else ''invalid escape '' @ [CHR 0x27, CHR 0x5C, e, CHR 0x27] @ '' in a string'') s)"

definition plain :: "char \<Rightarrow> bool" where
  "plain c \<longleftrightarrow> c \<noteq> CHR 0x22 \<and> c \<noteq> CHR 0x5C \<and> c \<noteq> CHR 0x0A"

text \<open>The contents of a string after its opening quote: the bytes buffered up to a quote, a backslash or a
  newline are copied, and whatever is neither a quote nor a newline then counts as a backslash. The
  loop runs at most once per byte left.\<close>

fun stringLoop :: "nat \<Rightarrow> string \<Rightarrow> source \<Rightarrow> jerror + (string \<times> source)" where
  "stringLoop 0 out s = Inl Diverged"
| "stringLoop (Suc k) out s =
     (let run = takeWhile plain (buf s);
          out1 = out @ run;
          s1 = s\<lparr>buf := dropWhile plain (buf s), lineText := lineText s @ run\<rparr>
      in case peekJ s1 of
           None \<Rightarrow> failJ ''unexpected end of input inside a string'' s1
         | Some c \<Rightarrow>
             let s2 = advanceJ s1 in
             if c = CHR 0x22 then Inr (out1, s2)
             else if c = CHR 0x0A then stringLoop k (out1 @ [CHR 0x0A]) (newline s2)
             else
               (case peekJ s2 of
                  None \<Rightarrow> failJ ''unexpected end of input inside a string'' s2
                | Some e \<Rightarrow> bindE (escapeJ e (advanceJ s2)) (\<lambda>(t, s3). stringLoop k (out1 @ t) s3)))"

definition stringJ :: "source \<Rightarrow> jerror + (string \<times> source)" where
  "stringJ s = stringLoop (length (textOf s) + 1) [] s"

definition makeKey :: "ReadOptions \<Rightarrow> string \<Rightarrow> jerror + jval" where
  "makeKey opts text =
     (case keys opts of
        KKeywords \<Rightarrow> Inr (VNamed (CHR '':'' # text))
      | KStrings \<Rightarrow> Inr (VStr text)
      | KFn f \<Rightarrow> f (VStr text))"

type_synonym valueParser = "source \<Rightarrow> jerror + (jval \<times> source)"

fun arrayLoop :: "nat \<Rightarrow> valueParser \<Rightarrow> jval list \<Rightarrow> valueParser" where
  "arrayLoop 0 pv items s = Inl Diverged"
| "arrayLoop (Suc k) pv items s =
     bindE (pv s) (\<lambda>(v, s1).
       let s2 = skipWhitespaceJ s1 in
       case peekJ s2 of
         Some d \<Rightarrow>
           if d = CHR '','' then arrayLoop k pv (items @ [v]) (advanceJ s2)
           else if d = CHR '']'' then Inr (VSeq (items @ [v]), advanceJ s2)
           else failJ (''expected '' @ [CHR 0x27] @ '','' @ [CHR 0x27] @ '' or '' @ [CHR 0x27] @ '']'' @ [CHR 0x27] @
                  '' in an array, found '' @ describeCurrent s2) s2
       | None \<Rightarrow> failJ (''unexpected end of input inside an array, expected '' @ [CHR 0x27] @ '','' @ [CHR 0x27] @
                  '' or '' @ [CHR 0x27] @ '']'' @ [CHR 0x27]) s2)"

definition arrayJ :: "valueParser \<Rightarrow> valueParser" where
  "arrayJ pv s =
     (let s1 = skipWhitespaceJ s in
      if peekJ s1 = Some (CHR '']'') then Inr (VSeq [], advanceJ s1)
      else arrayLoop (length (textOf s1) + 1) pv [] s1)"

text \<open>One entry of an object: the key, the colon and the value; \<open>None\<close> when the value function drops it.\<close>

definition entryJ :: "ReadOptions \<Rightarrow> valueParser \<Rightarrow> source \<Rightarrow> jerror + ((jval \<times> jval) option \<times> source)" where
  "entryJ opts pv s0 =
     (let s = skipWhitespaceJ s0 in
      if peekJ s = None then failJ ''unexpected end of input inside an object, expected a key'' s
      else if peekJ s \<noteq> Some (CHR 0x22)
      then failJ (''expected a string key in an object, found '' @ describeCurrent s) s
      else
        bindE (stringJ (advanceJ s)) (\<lambda>(text, s1).
        bindE (makeKey opts text) (\<lambda>k.
        bindE (expect (CHR '':'') ([CHR 0x27] @ '':'' @ [CHR 0x27] @ '' after an object key'') (skipWhitespaceJ s1)) (\<lambda>s2.
        bindE (pv s2) (\<lambda>(v, s3).
          case valueFn opts of
            None \<Rightarrow> Inr (Some (k, v), s3)
          | Some f \<Rightarrow> bindE (f k v) (\<lambda>r. Inr (map_option (Pair k) r, s3)))))))"

fun objectLoop :: "nat \<Rightarrow> ReadOptions \<Rightarrow> valueParser \<Rightarrow> (jval \<times> jval) list \<Rightarrow> valueParser" where
  "objectLoop 0 opts pv m s = Inl Diverged"
| "objectLoop (Suc k) opts pv m s =
     bindE (entryJ opts pv s) (\<lambda>(e, s1).
       let m1 = (case e of Some kv \<Rightarrow> mapAssocPairs m [kv] | None \<Rightarrow> m);
           s2 = skipWhitespaceJ s1
       in case peekJ s2 of
            Some d \<Rightarrow>
              if d = CHR '','' then objectLoop k opts pv m1 (advanceJ s2)
              else if d = CHR ''}'' then Inr (VMap m1, advanceJ s2)
              else failJ (''expected '' @ [CHR 0x27] @ '','' @ [CHR 0x27] @ '' or '' @ [CHR 0x27] @ ''}'' @ [CHR 0x27] @
                     '' in an object, found '' @ describeCurrent s2) s2
          | None \<Rightarrow> failJ (''unexpected end of input inside an object, expected '' @ [CHR 0x27] @ '','' @ [CHR 0x27] @
                     '' or '' @ [CHR 0x27] @ ''}'' @ [CHR 0x27]) s2)"

definition objectJ :: "ReadOptions \<Rightarrow> valueParser \<Rightarrow> valueParser" where
  "objectJ opts pv s =
     (let s1 = skipWhitespaceJ s in
      if peekJ s1 = Some (CHR ''}'') then Inr (VMap [], advanceJ s1)
      else objectLoop (length (textOf s1) + 1) opts pv [] s1)"

text \<open>A value; \<open>depth\<close> is the nesting the native stack still allows, past which \<^verbatim>\<open>checkNativeStack\<close>
  raises.\<close>

fun valueJ :: "nat \<Rightarrow> (string \<Rightarrow> 64 word) \<Rightarrow> ReadOptions \<Rightarrow> valueParser" where
  "valueJ 0 strtod opts s = Inl StackOverflow"
| "valueJ (Suc depth) strtod opts s0 =
     (let s = skipWhitespaceJ s0 in
      case peekJ s of
        None \<Rightarrow> failJ ''unexpected end of input, expected a value'' s
      | Some c \<Rightarrow>
          if c = CHR ''{'' then objectJ opts (valueJ depth strtod opts) (advanceJ s)
          else if c = CHR ''['' then arrayJ (valueJ depth strtod opts) (advanceJ s)
          else if c = CHR 0x22 then bindE (stringJ (advanceJ s)) (\<lambda>(t, s1). Inr (VStr t, s1))
          else if c = CHR ''t'' then bindE (word ''true'' s) (\<lambda>s1. Inr (VTrue, s1))
          else if c = CHR ''f'' then bindE (word ''false'' s) (\<lambda>s1. Inr (VFalse, s1))
          else if c = CHR ''n'' then bindE (word ''null'' s) (\<lambda>s1. Inr (VNil, s1))
          else if c = CHR ''-'' \<or> isdigit c then number strtod s
          else if isalpha c then let (t, s1) = scanJ isalnum s in failJ (quotedToken t) s1
          else failJ (''unexpected '' @ describeCurrent s @ '', expected a value'') s)"

datatype Trailing = Ignore | Reject

definition classedJ :: "Flavor \<Rightarrow> jerror \<Rightarrow> jerror" where
  "classedJ flavor e = (case e of JsonSyntaxError msg \<Rightarrow> Thrown (errorClass flavor) msg | _ \<Rightarrow> e)"

definition readJson ::
  "nat \<Rightarrow> (string \<Rightarrow> 64 word) \<Rightarrow> ReadOptions \<Rightarrow> Flavor \<Rightarrow> Trailing \<Rightarrow> jval option \<Rightarrow> source \<Rightarrow> jerror + (jval \<times> source)" where
  "readJson depth strtod opts flavor trailing eof s0 =
     (let (found, s) = moreJ s0;
          r = (if \<not> found
               then (case eof of
                       Some v \<Rightarrow> Inr (v, s)
                     | None \<Rightarrow> failJ ''unexpected end of input, expected a value'' s)
               else
                 bindE (valueJ depth strtod opts s) (\<lambda>(v, s1).
                   if trailing = Reject \<and> fst (moreJ s1)
                   then let s2 = snd (moreJ s1)
                        in failJ (''found extra data after the value: '' @ describeCurrent s2) s2
                   else Inr (v, s1)))
      in case r of Inl e \<Rightarrow> Inl (classedJ flavor e) | Inr x \<Rightarrow> Inr x)"

section \<open>The writer\<close>

record WriteOptions =
  flavor :: Flavor
  pretty :: bool
  escapeNonAscii :: bool
  escapeSlash :: bool
  escapeJsSeparators :: bool
  writeKeyFn :: "(jval \<Rightarrow> jerror + jval) option"

text \<open>What the writer calls: the printing of a double, whether it is finite, not a number or positive, the
  printer of any value and the name of a type.\<close>

record writeEnv =
  formatDouble :: "64 word \<Rightarrow> string"
  isFinite :: "64 word \<Rightarrow> bool"
  isNaN :: "64 word \<Rightarrow> bool"
  isPositive :: "64 word \<Rightarrow> bool"
  printText :: "jval \<Rightarrow> string"

definition hexEscape :: "WriteOptions \<Rightarrow> nat \<Rightarrow> string" where
  "hexEscape opt u =
     (let d = (if flavor opt = Cheshire then hex_upper else hex_lower)
      in [CHR 0x5C, CHR ''u'', d (u div 4096 mod 16), d (u div 256 mod 16), d (u div 16 mod 16), d (u mod 16)])"

definition newlineIndent :: "nat \<Rightarrow> string" where
  "newlineIndent depth = CHR 0x0A # replicate (2 * depth) (CHR '' '')"

definition dropNamespace :: "string \<Rightarrow> string" where
  "dropNamespace s =
     (let before = takeWhile (\<lambda>c. c \<noteq> CHR ''/'') s; after = dropWhile (\<lambda>c. c \<noteq> CHR ''/'') s
      in if before \<noteq> [] \<and> length after > 1 then tl after else s)"

definition namedText :: "WriteOptions \<Rightarrow> string \<Rightarrow> string" where
  "namedText opt spelling =
     (let s = (case spelling of c # t \<Rightarrow> if c = CHR '':'' then t else spelling | [] \<Rightarrow> [])
      in if flavor opt = DataJson then dropNamespace s else s)"

definition dropArticle :: "string \<Rightarrow> string" where
  "dropArticle t = (if take 2 t = ''a '' then drop 2 t else if take 3 t = ''an '' then drop 3 t else t)"

definition cannotWrite :: "WriteOptions \<Rightarrow> string \<Rightarrow> jerror + 'a" where
  "cannotWrite opt typename =
     Inl (if flavor opt = Cheshire
          then Thrown ''IOException'' (''Cannot JSON encode object of class: '' @ dropArticle typename)
          else Thrown ''Exception'' (''Don'' @ [CHR 0x27] @ ''t know how to write JSON of '' @ dropArticle typename))"

text \<open>The continuation bytes of a sequence of the given length, folded into the code point.\<close>

fun continued :: "nat \<Rightarrow> nat \<Rightarrow> string \<Rightarrow> nat option" where
  "continued 0 cp s = Some cp"
| "continued (Suc k) cp [] = None"
| "continued (Suc k) cp (c # s) =
     (if byte c AND 0xC0 \<noteq> 0x80 then None else continued k (push_bit 6 cp OR (byte c AND 0x3F)) s)"

text \<open>One sequence as the writer decodes it: the code point, its length and whether it was well formed.\<close>

definition writerDecode :: "char \<Rightarrow> string \<Rightarrow> nat \<times> nat \<times> bool" where
  "writerDecode c s =
     (let b = byte c;
          (len, cp) = (if 0xC2 \<le> b \<and> b \<le> 0xDF then (2, b AND 0x1F)
                       else if 0xE0 \<le> b \<and> b \<le> 0xEF then (3, b AND 0x0F)
                       else if 0xF0 \<le> b \<and> b \<le> 0xF4 then (4, b AND 0x07)
                       else (1, 0xFFFD))
      in if len = 1 then (0xFFFD, 1, False)
         else case continued (len - 1) cp s of
                Some v \<Rightarrow> (v, len, True)
              | None \<Rightarrow> (0xFFFD, 1, False))"

definition asciiText :: "WriteOptions \<Rightarrow> char \<Rightarrow> string" where
  "asciiText opt c =
     (if c = CHR 0x22 then [CHR 0x5C, CHR 0x22]
      else if c = CHR 0x5C then [CHR 0x5C, CHR 0x5C]
      else if c = CHR 0x08 then [CHR 0x5C, CHR ''b'']
      else if c = CHR 0x0C then [CHR 0x5C, CHR ''f'']
      else if c = CHR 0x0A then [CHR 0x5C, CHR ''n'']
      else if c = CHR 0x0D then [CHR 0x5C, CHR ''r'']
      else if c = CHR 0x09 then [CHR 0x5C, CHR ''t'']
      else if c = CHR ''/'' then (if escapeSlash opt then [CHR 0x5C, CHR ''/''] else ''/'')
      else if byte c < 0x20 then hexEscape opt (byte c)
      else [c])"

definition wideText :: "WriteOptions \<Rightarrow> char \<Rightarrow> string \<Rightarrow> string" where
  "wideText opt c s =
     (let (cp, len, ok) = writerDecode c s; separator = (cp = 0x2028 \<or> cp = 0x2029) in
      if escapeNonAscii opt \<or> separator \<and> escapeJsSeparators opt then
        if cp \<ge> 0x10000
        then let u = cp - 0x10000 in hexEscape opt (0xD800 + drop_bit 10 u) @ hexEscape opt (0xDC00 + (u AND 0x3FF))
        else hexEscape opt cp
      else if ok then take len (c # s)
      else [chr 0xEF, chr 0xBF, chr 0xBD])"

function stringBytes :: "WriteOptions \<Rightarrow> string \<Rightarrow> string" where
  "stringBytes opt [] = []"
| "stringBytes opt (c # s) =
     (if byte c < 0x80 then asciiText opt c @ stringBytes opt s
      else if \<not> escapeNonAscii opt \<and> \<not> escapeJsSeparators opt then c # stringBytes opt s
      else wideText opt c s @ stringBytes opt (drop (fst (snd (writerDecode c s)) - 1) s))"
  by pat_completeness auto
termination
  by (relation "measure (\<lambda>(opt, s). length s)") auto

definition stringW :: "WriteOptions \<Rightarrow> string \<Rightarrow> string" where
  "stringW opt s = CHR 0x22 # stringBytes opt s @ [CHR 0x22]"

definition keyText :: "writeEnv \<Rightarrow> WriteOptions \<Rightarrow> jval \<Rightarrow> jerror + string" where
  "keyText E opt k =
     (if k = VNil \<and> flavor opt = DataJson \<and> writeKeyFn opt = None
      then Inl (Thrown ''Exception'' ''JSON object properties may not be nil'')
      else if k = VNil \<and> writeKeyFn opt = None then Inr []
      else
        let keyword = (case k of VNamed sp \<Rightarrow> sp \<noteq> [] \<and> hd sp = CHR '':'' | _ \<Rightarrow> False);
            plainKey = Inr (case k of VNil \<Rightarrow> [] | VStr t \<Rightarrow> t | VNamed sp \<Rightarrow> namedText opt sp | _ \<Rightarrow> printText E k)
        in case writeKeyFn opt of
             Some f \<Rightarrow>
               if flavor opt = DataJson \<or> keyword
               then bindE (f k) (\<lambda>r. Inr (case r of VStr t \<Rightarrow> t | _ \<Rightarrow> printText E r))
               else plainKey
           | None \<Rightarrow> plainKey)"

text \<open>\<^verbatim>\<open>sequence\<close> and \<^verbatim>\<open>map\<close> on the texts of their elements; \<open>first\<close> as in the code.\<close>

fun joinSeq :: "WriteOptions \<Rightarrow> bool \<Rightarrow> string list \<Rightarrow> string" where
  "joinSeq opt first [] = []"
| "joinSeq opt first (t # ts) =
     (if first then if pretty opt then '' '' else [] else if pretty opt then '', '' else '','') @ t @ joinSeq opt False ts"

fun joinMap :: "WriteOptions \<Rightarrow> nat \<Rightarrow> bool \<Rightarrow> (string \<times> string) list \<Rightarrow> string" where
  "joinMap opt depth first [] = []"
| "joinMap opt depth first ((k, v) # es) =
     (if first then [] else '','') @ (if pretty opt then newlineIndent depth else []) @ stringW opt k @
     (if pretty opt then '' : '' else '':'') @ v @ joinMap opt depth False es"

fun sequenceE :: "(jerror + 'a) list \<Rightarrow> jerror + 'a list" where
  "sequenceE [] = Inr []"
| "sequenceE (m # ms) = bindE m (\<lambda>a. bindE (sequenceE ms) (\<lambda>as. Inr (a # as)))"

lemma size_entry [termination_simp]:
  "kv \<in> set m \<Longrightarrow> size (snd kv) < Suc (size_list (size_prod size size) m)" for m :: "(jval \<times> jval) list"
  by (induction m) (auto simp: less_Suc_eq_le intro: trans_le_add2)

text \<open>\<^verbatim>\<open>value\<close>; \<open>depth\<close> is the number of enclosing objects, for the indentation. The native stack allows
  \<open>stack\<close> nested calls.\<close>

fun valueW :: "writeEnv \<Rightarrow> WriteOptions \<Rightarrow> nat \<Rightarrow> nat \<Rightarrow> jval \<Rightarrow> jerror + string" where
  "valueW E opt 0 depth v = Inl StackOverflow"
| "valueW E opt (Suc stack) depth VNil = Inr ''null''"
| "valueW E opt (Suc stack) depth VTrue = Inr ''true''"
| "valueW E opt (Suc stack) depth VFalse = Inr ''false''"
| "valueW E opt (Suc stack) depth (VInt i) = Inr (int_dec i)"
| "valueW E opt (Suc stack) depth (VFloat d) =
     (if isFinite E d then Inr (formatDouble E d)
      else if flavor opt = DataJson
      then Inl (Thrown ''Exception''
             (if isNaN E d then ''JSON error: cannot write Double NaN'' else ''JSON error: cannot write infinite Double''))
      else Inr (CHR 0x22 # (if isNaN E d then ''NaN'' else if isPositive E d then ''Infinity'' else ''-Infinity'') @ [CHR 0x22]))"
| "valueW E opt (Suc stack) depth (VStr t) = Inr (stringW opt t)"
| "valueW E opt (Suc stack) depth (VMap m) =
     (if m = [] then Inr (if pretty opt then ''{ }'' else ''{}'')
      else
        bindE (sequenceE (map (\<lambda>kv. bindE (keyText E opt (fst kv)) (\<lambda>k.
                 bindE (valueW E opt stack (depth + 1) (snd kv)) (\<lambda>t. Inr (k, t)))) m)) (\<lambda>es.
          Inr (''{'' @ joinMap opt (depth + 1) True es @ (if pretty opt then newlineIndent depth else []) @ ''}'')))"
| "valueW E opt (Suc stack) depth (VSeq vs) =
     bindE (sequenceE (map (valueW E opt stack depth) vs)) (\<lambda>ts.
       Inr (''['' @ joinSeq opt True ts @ (if pretty opt then '' '' else []) @ '']''))"
| "valueW E opt (Suc stack) depth (VNamed sp) = Inr (stringW opt (namedText opt sp))"
| "valueW E opt (Suc stack) depth (VOther ty) = cannotWrite opt ty"

definition writeJson :: "writeEnv \<Rightarrow> WriteOptions \<Rightarrow> nat \<Rightarrow> jval \<Rightarrow> jerror + string" where
  "writeJson E opt stack v = valueW E opt stack 0 v"

end
