(* ===== verification/JsonTotal.thy ===== *)
theory JsonTotal
  imports Json
begin

text \<open>
  The loops of the JSON parser end: the fuel each one is given, one round per byte still to be read, is
  never used up, because every round and every value consumes a byte of the source.
\<close>

definition remaining :: "source \<Rightarrow> nat" where
  "remaining s = length (textOf s)"

text \<open>A step that ends, with an error or with fewer than \<open>n\<close> bytes left to read.\<close>

definition endsWithin :: "nat \<Rightarrow> jerror + ('a \<times> source) \<Rightarrow> bool" where
  "endsWithin n r \<longleftrightarrow> (case r of Inl e \<Rightarrow> e \<noteq> Diverged | Inr (x, s) \<Rightarrow> remaining s < n)"

named_theorems ends_rules

lemma endsWithin_simps [simp]:
  "endsWithin n (Inr (x, s)) \<longleftrightarrow> remaining s < n" "endsWithin n (failJ what s)" "endsWithin n (Inl e) \<longleftrightarrow> e \<noteq> Diverged"
  by (simp_all add: endsWithin_def failJ_def)

lemma failJ_ends [simp]: "failJ what s \<noteq> Inl Diverged" "failJ what s \<noteq> Inr x"
  by (simp_all add: failJ_def)

lemma ends_bind [ends_rules]:
  assumes "endsWithin m r" "\<And>x s. r = Inr (x, s) \<Longrightarrow> remaining s < m \<Longrightarrow> endsWithin n (f (x, s))"
  shows "endsWithin n (bindE r f)"
  using assms by (cases r) (auto simp: endsWithin_def)

lemma endsWithin_mono: "endsWithin m r \<Longrightarrow> m \<le> n \<Longrightarrow> endsWithin n r"
  by (auto simp: endsWithin_def split: sum.splits)

lemma remaining_advance: "peekJ s = Some c \<Longrightarrow> Suc (remaining (advanceJ s)) = remaining s"
  by (auto simp: remaining_def peekJ_Cons)

lemma remaining_advance_le: "remaining (advanceJ s) \<le> remaining s"
  by (simp add: remaining_def)

lemma remaining_newline [simp]: "remaining (newline s) = remaining s"
  by (simp add: remaining_def)

lemma remaining_skip: "remaining (skipWhitespaceJ s) \<le> remaining s"
proof (induction s rule: skipWhitespaceJ.induct)
  case (1 s)
  show ?case
    using 1 remaining_advance_le [of s] by (subst skipWhitespaceJ.simps) (auto split: option.split intro: order_trans)
qed

lemma remaining_scan: "remaining (snd (scanJ p s)) \<le> remaining s"
proof (induction p s rule: scanJ.induct)
  case (1 p s)
  show ?case
    using 1 remaining_advance_le [of s] by (subst scanJ.simps) (auto split: option.split prod.splits intro: order_trans)
qed

lemma remaining_scan_digit: "digitAt s \<Longrightarrow> remaining (snd (scanJ isdigit s)) < remaining s"
  using remaining_scan [of isdigit "advanceJ s"] remaining_advance [of s]
  by (subst scanJ.simps) (fastforce simp: digitAt_def split: option.splits prod.splits)

section \<open>Tokens\<close>

lemma wordLoop_ends: "wordLoop seen ps s \<noteq> Inl Diverged \<and> (wordLoop seen ps s = Inr s' \<longrightarrow> remaining s' + length ps = remaining s)"
proof (induction ps arbitrary: seen s)
  case (Cons p ps)
  show ?case using Cons [of "seen @ [p]" "advanceJ s"] remaining_advance [of s p] by (auto split: prod.split)
qed (auto split: option.split prod.split)

lemma word_ends: "w \<noteq> [] \<Longrightarrow> endsWithin (remaining s) (bindE (word w s) (\<lambda>s1. Inr (v, s1)))"
proof (cases "word w s")
  case (Inr s1)
  assume "w \<noteq> []"
  then show ?thesis using Inr wordLoop_ends [of "[]" w s s1] by (cases w) (auto simp: word_def)
qed (use wordLoop_ends [of "[]" w s] in \<open>auto simp: word_def\<close>)

lemma numberInt_ends: "endsWithin (remaining s) (numberInt s)"
  using remaining_advance [of s "CHR ''0''"] remaining_scan_digit [of s]
  by (cases "scanJ isdigit s") (auto simp: numberInt_def Let_def)

lemma numberFraction_ends: "endsWithin (Suc (remaining s)) (numberFraction s)"
  using remaining_scan [of isdigit "advanceJ s"] remaining_advance_le [of s]
  by (auto simp: numberFraction_def Let_def less_Suc_eq_le split: prod.split)

lemma numberExponent_ends: "endsWithin (Suc (remaining s)) (numberExponent s)"
proof -
  have "remaining (snd (scanJ isdigit t)) \<le> remaining s" if "t = advanceJ s \<or> t = advanceJ (advanceJ s)" for t
    using that remaining_scan [of isdigit t] remaining_advance_le [of s] remaining_advance_le [of "advanceJ s"] by auto
  from this [of "advanceJ s"] this [of "advanceJ (advanceJ s)"] show ?thesis
    by (auto simp: numberExponent_def Let_def less_Suc_eq_le split: prod.split option.split)
qed

lemma number_ends: "endsWithin (remaining s) (number strtod s)"
proof -
  define minus s0 where "minus = (if peekJ s = Some (CHR ''-'') then ''-'' else [])"
    "s0 = (if peekJ s = Some (CHR ''-'') then advanceJ s else s)"
  have start: "(if peekJ s = Some (CHR ''-'') then (''-'', advanceJ s) else ([], s)) = (minus, s0)"
    by (simp add: minus_s0_def)
  have s0: "remaining s0 \<le> remaining s" using remaining_advance_le [of s] by (simp add: minus_s0_def)
  have tail: "endsWithin (remaining s) (bindE (numberFraction s1) (\<lambda>(fr, s2). bindE (numberExponent s2) (\<lambda>(ex, s3).
      case peekJ s3 of Some c \<Rightarrow> if p c then failJ (w s3) s3 else Inr (v fr ex, s3) | None \<Rightarrow> Inr (v fr ex, s3))))"
    if "remaining s1 < remaining s0" for s1 p w and v :: "string \<Rightarrow> string \<Rightarrow> jval"
  proof (rule ends_bind [OF numberFraction_ends], unfold prod.case, rule ends_bind [OF numberExponent_ends])
    fix fr s2 ex s3
    assume "remaining s2 < Suc (remaining s1)" "remaining s3 < Suc (remaining s2)"
    then show "endsWithin (remaining s) (case (ex, s3) of (ex, s3) \<Rightarrow>
        case peekJ s3 of Some c \<Rightarrow> if p c then failJ (w s3) s3 else Inr (v fr ex, s3) | None \<Rightarrow> Inr (v fr ex, s3))"
      using that s0 by (auto split: option.split)
  qed
  show ?thesis unfolding number_def start Let_def prod.case
    by (rule ends_bind [OF numberInt_ends]) (simp add: tail)
qed

lemma hexLoop_ends: "endsWithin (Suc (remaining s)) (hexLoop k v s)"
proof (induction k arbitrary: v s)
  case (Suc k)
  show ?case using endsWithin_mono [OF Suc, of "advanceJ s" "Suc (remaining s)"] remaining_advance_le [of s] by (auto split: option.split)
qed simp

lemma unicodeEscape_ends: "endsWithin (Suc (remaining s)) (unicodeEscapeJ s)"
proof -
  have hex: "endsWithin (Suc (remaining t)) (hex4J t)" for t by (simp add: hex4J_def hexLoop_ends)
  have two: "remaining (advanceJ (advanceJ t)) \<le> remaining t" for t
    using remaining_advance_le [of "advanceJ t"] remaining_advance_le [of t] by linarith
  have pair: "endsWithin (Suc (remaining s)) (bindE (hex4J (advanceJ (advanceJ s1))) (\<lambda>(lo, s3).
      if lo < 0xDC00 \<or> lo > 0xDFFF then failJ unpaired s3 else Inr (g lo, s3)))"
    if "remaining s1 < Suc (remaining s)" for s1 and g :: "nat \<Rightarrow> string"
    using that two [of s1] by (intro ends_bind [OF hex]) auto
  show ?thesis unfolding unicodeEscapeJ_def by (rule ends_bind [OF hex]) (auto simp: Let_def pair)
qed

lemma escapeJ_ends: "endsWithin (Suc (remaining s)) (escapeJ e s)"
  using unicodeEscape_ends [of s] by (simp add: escapeJ_def)

lemma stringLoop_ends: "remaining s < k \<Longrightarrow> endsWithin (remaining s) (stringLoop k out s)"
proof (induction k arbitrary: out s)
  case (Suc k)
  define s1 where "s1 = s\<lparr>buf := dropWhile plain (buf s), lineText := lineText s @ takeWhile plain (buf s)\<rparr>"
  have "length (dropWhile plain (buf s)) \<le> length (buf s)" by (rule length_dropWhile_le)
  then have s1: "remaining s1 \<le> remaining s" by (simp add: s1_def remaining_def textOf_def)
  have step: "endsWithin (remaining s) (stringLoop k out' t)" if "remaining t < remaining s" for out' t
    using Suc.IH [of t out'] Suc.prems that endsWithin_mono [of "remaining t" _ "remaining s"] by auto
  have escape: "endsWithin (remaining s) (bindE (escapeJ e (advanceJ (advanceJ s1))) (\<lambda>(t, s3). stringLoop k (g t) s3))"
    if "peekJ s1 = Some c" "peekJ (advanceJ s1) = Some e" for c e g
    using remaining_advance [OF that(1)] remaining_advance [OF that(2)] s1
    by (intro ends_bind [OF escapeJ_ends]) (auto intro!: step)
  show ?case
    using s1 remaining_advance [of s1] escape
    by (auto simp: Let_def s1_def [symmetric] split: option.split intro!: step)
qed simp

lemma stringJ_ends: "endsWithin (remaining s) (stringJ s)"
  unfolding stringJ_def by (rule stringLoop_ends) (simp add: remaining_def)

section \<open>Values\<close>

text \<open>The functions of the user end: the parser adds no divergence of its own.\<close>

definition fnsEnd :: "ReadOptions \<Rightarrow> bool" where
  "fnsEnd opts \<longleftrightarrow>
     (case keys opts of KFn f \<Rightarrow> \<forall>k. f k \<noteq> Inl Diverged | _ \<Rightarrow> True) \<and>
     (case valueFn opts of Some f \<Rightarrow> \<forall>k v. f k v \<noteq> Inl Diverged | None \<Rightarrow> True)"

lemma makeKey_ends: "fnsEnd opts \<Longrightarrow> makeKey opts t \<noteq> Inl Diverged"
  by (auto simp: fnsEnd_def makeKey_def split: Keys.splits)

lemma ends_bind_plain:
  assumes "r \<noteq> Inl Diverged" "\<And>x. r = Inr x \<Longrightarrow> endsWithin n (f x)"
  shows "endsWithin n (bindE r f)"
  using assms by (cases r) auto

lemma arrayLoop_ends:
  assumes pv: "\<And>t. endsWithin (remaining t) (pv t)"
  shows "remaining s < k \<Longrightarrow> endsWithin (remaining s) (arrayLoop k pv items s)"
proof (induction k arbitrary: items s)
  case (Suc k)
  have "endsWithin (remaining s) (let s2 = skipWhitespaceJ s1 in case peekJ s2 of
      Some d \<Rightarrow> if d = CHR '','' then arrayLoop k pv (items @ [v]) (advanceJ s2)
        else if d = CHR '']'' then Inr (VSeq (items @ [v]), advanceJ s2) else failJ (w s2) s2 | None \<Rightarrow> failJ w' s2)"
    if "remaining s1 < remaining s" for v s1 w w'
  proof -
    have "remaining (advanceJ (skipWhitespaceJ s1)) < remaining s"
      using that remaining_skip [of s1] remaining_advance_le [of "skipWhitespaceJ s1"] by linarith
    then show ?thesis
      using Suc.IH [of "advanceJ (skipWhitespaceJ s1)" "items @ [v]"] Suc.prems endsWithin_mono
      by (fastforce simp: Let_def split: option.split)
  qed
  then show ?case by (auto intro: ends_bind [OF pv])
qed simp

lemma entryJ_ends:
  assumes pv: "\<And>t. endsWithin (remaining t) (pv t)" and fns: "fnsEnd opts"
  shows "endsWithin (remaining s) (entryJ opts pv s)"
proof -
  let ?s = "skipWhitespaceJ s"
  have kept: "endsWithin (remaining s) (case valueFn opts of None \<Rightarrow> Inr (Some (k, v), s3)
      | Some f \<Rightarrow> bindE (f k v) (\<lambda>r. Inr (map_option (Pair k) r, s3)))" if "remaining s3 < remaining s" for k v s3
    using that fns by (auto simp: fnsEnd_def split: option.splits intro!: ends_bind_plain)
  have colon: "endsWithin (remaining s) (bindE (expect (CHR '':'') w (skipWhitespaceJ s1)) (\<lambda>s2. bindE (pv s2) (\<lambda>(v, s3).
      case valueFn opts of None \<Rightarrow> Inr (Some (k, v), s3) | Some f \<Rightarrow> bindE (f k v) (\<lambda>r. Inr (map_option (Pair k) r, s3)))))"
    if "remaining s1 < remaining s" for w s1 k
  proof (rule ends_bind_plain)
    fix s2
    assume "expect (CHR '':'') w (skipWhitespaceJ s1) = Inr s2"
    then have "remaining s2 < remaining s"
      using that remaining_skip [of s1] remaining_advance_le [of "skipWhitespaceJ s1"] by (auto simp: expect_def split: if_splits)
    then show "endsWithin (remaining s) (bindE (pv s2) (\<lambda>(v, s3).
      case valueFn opts of None \<Rightarrow> Inr (Some (k, v), s3) | Some f \<Rightarrow> bindE (f k v) (\<lambda>r. Inr (map_option (Pair k) r, s3))))"
      using kept by (auto intro: ends_bind [OF pv])
  qed (simp add: expect_def)
  have "endsWithin (remaining s) (bindE (stringJ (advanceJ ?s)) (\<lambda>(text, s1). bindE (makeKey opts text) (\<lambda>k.
      bindE (expect (CHR '':'') w (skipWhitespaceJ s1)) (\<lambda>s2. bindE (pv s2) (\<lambda>(v, s3).
        case valueFn opts of None \<Rightarrow> Inr (Some (k, v), s3) | Some f \<Rightarrow> bindE (f k v) (\<lambda>r. Inr (map_option (Pair k) r, s3)))))))"
    for w
  proof (rule ends_bind [OF stringJ_ends], unfold prod.case, rule ends_bind_plain [OF makeKey_ends [OF fns]], rule colon)
    fix s1
    assume "remaining s1 < remaining (advanceJ ?s)"
    then show "remaining s1 < remaining s" using remaining_skip [of s] remaining_advance_le [of ?s] by linarith
  qed
  then show ?thesis by (simp add: entryJ_def Let_def)
qed

lemma objectLoop_ends:
  assumes pv: "\<And>t. endsWithin (remaining t) (pv t)" and fns: "fnsEnd opts"
  shows "remaining s < k \<Longrightarrow> endsWithin (remaining s) (objectLoop k opts pv m s)"
proof (induction k arbitrary: m s)
  case (Suc k)
  have "endsWithin (remaining s) (let m1 = g e; s2 = skipWhitespaceJ s1 in case peekJ s2 of
      Some d \<Rightarrow> if d = CHR '','' then objectLoop k opts pv m1 (advanceJ s2)
        else if d = CHR ''}'' then Inr (VMap m1, advanceJ s2) else failJ (w s2) s2 | None \<Rightarrow> failJ w' s2)"
    if "remaining s1 < remaining s" for e s1 w w' and g :: "(jval \<times> jval) option \<Rightarrow> (jval \<times> jval) list"
  proof -
    have "remaining (advanceJ (skipWhitespaceJ s1)) < remaining s"
      using that remaining_skip [of s1] remaining_advance_le [of "skipWhitespaceJ s1"] by linarith
    then show ?thesis
      using Suc.IH [of "advanceJ (skipWhitespaceJ s1)" "g e"] Suc.prems endsWithin_mono
      by (fastforce simp: Let_def split: option.split)
  qed
  then show ?case by (auto intro!: ends_bind [OF entryJ_ends [OF pv fns]])
qed simp

lemma valueJ_ends: "fnsEnd opts \<Longrightarrow> endsWithin (remaining s) (valueJ depth strtod opts s)"
proof (induction depth arbitrary: s)
  case (Suc depth)
  note pv = Suc.IH [OF Suc.prems]
  define t where "t = skipWhitespaceJ s"
  have t: "remaining t \<le> remaining s" by (simp add: t_def remaining_skip)
  have into: "endsWithin (remaining s) r" if "endsWithin n r" "n \<le> remaining t" for r :: "jerror + (jval \<times> source)" and n
    using that endsWithin_mono t by (meson order_trans)
  have inner: "remaining (skipWhitespaceJ (advanceJ t)) \<le> remaining t"
    using remaining_skip [of "advanceJ t"] remaining_advance_le [of t] by linarith
  have "endsWithin (remaining (skipWhitespaceJ (advanceJ t))) (arrayLoop (length (textOf (skipWhitespaceJ (advanceJ t))) + 1)
      (valueJ depth strtod opts) [] (skipWhitespaceJ (advanceJ t)))"
    by (rule arrayLoop_ends [OF pv]) (simp add: remaining_def)
  note array = into [OF this inner]
  have "endsWithin (remaining (skipWhitespaceJ (advanceJ t))) (objectLoop (length (textOf (skipWhitespaceJ (advanceJ t))) + 1)
      opts (valueJ depth strtod opts) [] (skipWhitespaceJ (advanceJ t)))"
    by (rule objectLoop_ends [OF pv Suc.prems]) (simp add: remaining_def)
  note object = into [OF this inner]
  show ?case
  proof (cases "peekJ t")
    case None
    then show ?thesis by (simp add: t_def)
  next
    case (Some c)
    then have less: "remaining (advanceJ t) < remaining s" using remaining_advance [of t c] t by simp
    have close: "remaining (advanceJ (skipWhitespaceJ (advanceJ t))) < remaining s"
      using less remaining_skip [of "advanceJ t"] remaining_advance_le [of "skipWhitespaceJ (advanceJ t)"] by linarith
    have "endsWithin (remaining s) (arrayJ (valueJ depth strtod opts) (advanceJ t))"
      using array close by (simp add: arrayJ_def Let_def del: arrayLoop.simps)
    moreover have "endsWithin (remaining s) (objectJ opts (valueJ depth strtod opts) (advanceJ t))"
      using object close by (simp add: objectJ_def Let_def del: objectLoop.simps)
    moreover have "endsWithin (remaining s) (bindE (stringJ (advanceJ t)) (\<lambda>(t, s1). Inr (VStr t, s1)))"
      using less by (intro ends_bind [OF stringJ_ends]) auto
    moreover have "endsWithin (remaining s) (bindE (word w t) (\<lambda>s1. Inr (v, s1)))" if "w \<noteq> []" for w and v :: jval
      using into [OF word_ends [OF that, of t v]] by simp
    ultimately show ?thesis using Some into [OF number_ends [of t strtod]] by (simp add: t_def [symmetric] Let_def split: prod.split)
  qed
qed simp

section \<open>Properties\<close>

text \<open>C37. Parsing ends: on any source, however malformed and however deep, the parser gives a value or an error,
  and none of its loops runs longer than the bytes of the source allow, unless a key or value function of the
  user does not return. A value it gives consumed at least one byte, so reading values off a reader one after the other
  reaches its end.\<close>

theorem json_parse_ends:
  assumes "fnsEnd opts"
  shows "valueJ depth strtod opts s \<noteq> Inl Diverged \<and>
    (valueJ depth strtod opts s = Inr (v, s') \<longrightarrow> length (textOf s') < length (textOf s))"
  using valueJ_ends [OF assms, of s depth strtod] by (auto simp: endsWithin_def remaining_def)

theorem json_parse_ends_witness:
  "valueJ 5 (\<lambda>_. 0) \<lparr>keys = KStrings, valueFn = None\<rparr> (stringSource ''[1,[2'') \<noteq> Inl Diverged"
  using json_parse_ends [of "\<lparr>keys = KStrings, valueFn = None\<rparr>" 5 "\<lambda>_. 0" "stringSource ''[1,[2''"] by (simp add: fnsEnd_def del: valueJ.simps)

end
