(* ===== verification/JsonRoundtrip.thy ===== *)
theory JsonRoundtrip
  imports Json
begin

text \<open>
  What the writer writes, the parser reads back: the round trip of JSON documents for every combination
  of the writer's options, and the behaviour of the parser on the lines of a reader.
\<close>

section \<open>Sources of a string\<close>

text \<open>The source of a whole string, with that much of it left.\<close>

definition leftOf :: "source \<Rightarrow> string \<Rightarrow> bool" where
  "leftOf s t \<longleftrightarrow> buf s = t \<and> pending s = []"

lemma left_peek [simp]: "leftOf s (c # t) \<Longrightarrow> peekJ s = Some c" "leftOf s [] \<Longrightarrow> peekJ s = None"
  by (simp_all add: leftOf_def peekJ_def fill_def)

lemma left_advance [simp, intro]: "leftOf s (c # t) \<Longrightarrow> leftOf (advanceJ s) t"
  by (simp add: leftOf_def advanceJ_def fill_def)

lemma left_newline [simp, intro]: "leftOf s t \<Longrightarrow> leftOf (newline s) t"
  by (simp add: leftOf_def newline_def)

lemma left_text: "leftOf s t \<Longrightarrow> textOf s = t"
  by (simp add: leftOf_def textOf_def)

lemma left_string: "leftOf (stringSource t) t"
  by (simp add: leftOf_def stringSource_def)

definition isBlank :: "char \<Rightarrow> bool" where
  "isBlank c \<longleftrightarrow> c = CHR '' '' \<or> c = CHR 0x09 \<or> c = CHR 0x0D \<or> c = CHR 0x0A"

definition stopsAt :: "(char \<Rightarrow> bool) \<Rightarrow> string \<Rightarrow> bool" where
  "stopsAt p t \<longleftrightarrow> (case t of [] \<Rightarrow> True | c # _ \<Rightarrow> \<not> p c)"

lemma stopsAt_simps [simp]: "stopsAt p []" "stopsAt p (c # t) \<longleftrightarrow> \<not> p c"
  by (simp_all add: stopsAt_def)

lemma left_skip:
  "leftOf s (ws @ t) \<Longrightarrow> \<forall>c\<in>set ws. isBlank c \<Longrightarrow> stopsAt isBlank t \<Longrightarrow> leftOf (skipWhitespaceJ s) t"
proof (induction ws arbitrary: s)
  case Nil
  then show ?case
    by (cases t) (simp_all add: skipWhitespaceJ.simps [of s] isBlank_def)
next
  case (Cons c ws)
  have left: "leftOf s (c # ws @ t)" using Cons.prems(1) by simp
  show ?case using Cons.IH [OF left_advance [OF left]] Cons.IH [OF left_newline [OF left_advance [OF left]]] Cons.prems left
    by (auto simp: skipWhitespaceJ.simps [of s] isBlank_def)
qed

lemma left_skip_none [simp]: "leftOf s t \<Longrightarrow> stopsAt isBlank t \<Longrightarrow> leftOf (skipWhitespaceJ s) t"
  using left_skip [of s "[]" t] by simp

lemma left_scan:
  "leftOf s (xs @ t) \<Longrightarrow> \<forall>c\<in>set xs. p c \<Longrightarrow> stopsAt p t \<Longrightarrow> \<exists>s'. scanJ p s = (xs, s') \<and> leftOf s' t"
proof (induction xs arbitrary: s)
  case Nil
  then show ?case by (cases t) (simp_all add: scanJ.simps [of p s])
next
  case (Cons c xs)
  have left: "leftOf s (c # xs @ t)" using Cons.prems(1) by simp
  then obtain s' where "scanJ p (advanceJ s) = (xs, s')" "leftOf s' t"
    using Cons.IH [of "advanceJ s"] Cons.prems(2,3) by auto
  then show ?case using left Cons.prems(2) by (simp add: scanJ.simps [of p s])
qed

section \<open>Strings\<close>

lemma loop_plain:
  assumes "leftOf s (c # t)" "plain c" "0 < k"
  shows "\<exists>s'. leftOf s' t \<and> stringLoop k out s = stringLoop k (out @ [c]) s'"
proof -
  obtain k' where k: "k = Suc k'" using assms(3) by (cases k) auto
  have "leftOf (s\<lparr>buf := t, lineText := lineText s @ [c]\<rparr>) t" using assms(1) by (simp add: leftOf_def)
  moreover have "stringLoop k out s = stringLoop k (out @ [c]) (s\<lparr>buf := t, lineText := lineText s @ [c]\<rparr>)"
    using assms(1,2) by (simp add: k leftOf_def Let_def)
  ultimately show ?thesis by blast
qed

lemma loop_plains:
  "leftOf s (xs @ t) \<Longrightarrow> \<forall>c\<in>set xs. plain c \<Longrightarrow> 0 < k \<Longrightarrow>
   \<exists>s'. leftOf s' t \<and> stringLoop k out s = stringLoop k (out @ xs) s'"
proof (induction xs arbitrary: s out)
  case (Cons c xs)
  obtain s1 where s1: "leftOf s1 (xs @ t)" "stringLoop k out s = stringLoop k (out @ [c]) s1"
    using loop_plain [of s c "xs @ t" k out] Cons.prems by auto
  moreover obtain s2 where "leftOf s2 t" "stringLoop k (out @ [c]) s1 = stringLoop k ((out @ [c]) @ xs) s2"
    using Cons.IH [OF s1(1), of "out @ [c]"] Cons.prems by auto
  ultimately show ?case by (intro exI [of _ s2]) simp
qed auto

lemma loop_escape:
  assumes "leftOf s (CHR 0x5C # e # t)" "escapeJ e (advanceJ (advanceJ s)) = Inr (u, s')"
  shows "stringLoop (Suc k) out s = stringLoop k (out @ u) s'"
proof -
  have "takeWhile plain (buf s) = []" "dropWhile plain (buf s) = buf s"
    using assms(1) by (simp_all add: leftOf_def plain_def)
  then show ?thesis
    using left_peek(1) [OF assms(1)] left_peek(1) [OF left_advance [OF assms(1)]] assms(2) by (simp add: Let_def)
qed

lemma loop_quote:
  assumes "leftOf s (CHR 0x22 # t)"
  shows "\<exists>s'. leftOf s' t \<and> stringLoop (Suc k) out s = Inr (out, s')"
proof -
  have "takeWhile plain (buf s) = []" "dropWhile plain (buf s) = buf s"
    using assms by (simp_all add: leftOf_def plain_def)
  then show ?thesis using assms left_advance [OF assms] by (auto simp: Let_def)
qed

text \<open>Four hexadecimal digits.\<close>

lemma hexLoop_digits:
  assumes "leftOf s (a # b # c # d # t)" "hexValue a = Some w" "hexValue b = Some x" "hexValue c = Some y" "hexValue d = Some z"
  shows "\<exists>s'. leftOf s' t \<and> hex4J s = Inr (((w * 16 + x) * 16 + y) * 16 + z, s')"
proof -
  note l1 = left_advance [OF assms(1)] note l2 = left_advance [OF l1] note l3 = left_advance [OF l2]
  show ?thesis using assms(2-) left_peek(1) [OF assms(1)] left_peek(1) [OF l1] left_peek(1) [OF l2] left_peek(1) [OF l3]
      left_advance [OF l3]
    by (simp add: hex4J_def numeral_eq_Suc)
qed

lemma digits_16: "u < 65536 \<Longrightarrow> ((u div 4096 mod 16 * 16 + u div 256 mod 16) * 16 + u div 16 mod 16) * 16 + u mod 16 = (u::nat)"
proof -
  assume "u < 65536"
  then have "u div 4096 mod 16 = u div 16 div 16 div 16" by (simp add: div_mult2_eq [symmetric])
  moreover have "u div 256 mod 16 = u div 16 div 16 mod 16" by (simp add: div_mult2_eq [symmetric])
  moreover have "u div 16 div 16 div 16 * 16 + u div 16 div 16 mod 16 = u div 16 div 16" by simp
  moreover have "u div 16 div 16 * 16 + u div 16 mod 16 = u div 16" by simp
  moreover have "u div 16 * 16 + u mod 16 = u" by simp
  ultimately show ?thesis by presburger
qed

lemma hex4_escape:
  assumes "leftOf s (drop 2 (hexEscape opt u) @ t)" "u < 65536"
  shows "\<exists>s'. leftOf s' t \<and> hex4J s = Inr (u, s')"
proof -
  let ?d = "if flavor opt = Cheshire then hex_upper else hex_lower"
  have d: "hexValue (?d n) = Some n" if "n < 16" for n using that by simp
  have "leftOf s (?d (u div 4096 mod 16) # ?d (u div 256 mod 16) # ?d (u div 16 mod 16) # ?d (u mod 16) # t)"
    using assms(1) by (simp add: hexEscape_def Let_def)
  from hexLoop_digits [OF this d d d d] show ?thesis unfolding digits_16 [OF assms(2)] by simp
qed

text \<open>The written text \<open>w\<close> stands for the bytes \<open>u\<close>: the loop of the parser reads it as these, whatever
  follows, with fuel to spare for what follows.\<close>

definition reads :: "string \<Rightarrow> string \<Rightarrow> bool" where
  "reads w u \<longleftrightarrow> (\<forall>s t k out. leftOf s (w @ t) \<longrightarrow> length (w @ t) < k \<longrightarrow>
     (\<exists>s' k'. leftOf s' t \<and> length t < k' \<and> stringLoop k out s = stringLoop k' (out @ u) s'))"

lemma readsI:
  assumes "\<And>s t k out. leftOf s (w @ t) \<Longrightarrow> length (w @ t) < k \<Longrightarrow>
    \<exists>s' k'. leftOf s' t \<and> length t < k' \<and> stringLoop k out s = stringLoop k' (out @ u) s'"
  shows "reads w u"
  using assms unfolding reads_def by blast

lemma readsE:
  assumes "reads w u" "leftOf s (w @ t)" "length (w @ t) < k"
  obtains s' k' where "leftOf s' t" "length t < k'" "stringLoop k out s = stringLoop k' (out @ u) s'"
  using assms unfolding reads_def by blast

lemma reads_Nil: "reads [] []"
  by (rule readsI) auto

lemma reads_append:
  assumes "reads w u" "reads w' u'"
  shows "reads (w @ w') (u @ u')"
proof (rule readsI)
  fix s t k out
  assume "leftOf s ((w @ w') @ t)" "length ((w @ w') @ t) < k"
  then obtain s1 k1 where s1: "leftOf s1 (w' @ t)" "length (w' @ t) < k1" "stringLoop k out s = stringLoop k1 (out @ u) s1"
    by (auto elim: readsE [OF assms(1), of s "w' @ t" k out])
  obtain s2 k2 where "leftOf s2 t" "length t < k2" "stringLoop k1 (out @ u) s1 = stringLoop k2 ((out @ u) @ u') s2"
    by (rule readsE [OF assms(2) s1(1,2)])
  with s1(3) show "\<exists>s' k'. leftOf s' t \<and> length t < k' \<and> stringLoop k out s = stringLoop k' (out @ u @ u') s'"
    by (intro exI [of _ s2] exI [of _ k2]) simp
qed

lemma reads_plain: "\<forall>c\<in>set w. plain c \<Longrightarrow> reads w w"
proof (rule readsI)
  fix s t k out
  assume a: "\<forall>c\<in>set w. plain c" "leftOf s (w @ t)" "length (w @ t) < k"
  then obtain s' where "leftOf s' t" "stringLoop k out s = stringLoop k (out @ w) s'"
    using loop_plains [of s w t k out] by auto
  with a(3) show "\<exists>s' k'. leftOf s' t \<and> length t < k' \<and> stringLoop k out s = stringLoop k' (out @ w) s'"
    by (intro exI [of _ s'] exI [of _ k]) simp
qed

lemma plain_wide: "0x80 \<le> byte c \<Longrightarrow> plain c"
  by (auto simp: plain_def)

lemma reads_escape:
  assumes "\<And>s t. leftOf s (e @ t) \<Longrightarrow> \<exists>s'. leftOf s' t \<and> escapeJ c s = Inr (u, s')"
  shows "reads (CHR 0x5C # c # e) u"
proof (rule readsI)
  fix s t k out
  assume left: "leftOf s ((CHR 0x5C # c # e) @ t)" and "length ((CHR 0x5C # c # e) @ t) < k"
  then obtain k' where k: "k = Suc k'" "length t < k'" by (cases k) auto
  have l: "leftOf s (CHR 0x5C # c # e @ t)" using left by simp
  then obtain s' where "leftOf s' t" "escapeJ c (advanceJ (advanceJ s)) = Inr (u, s')"
    using assms [OF left_advance [OF left_advance [OF l]]] by blast
  with loop_escape [OF l this(2), of k' out] k
  show "\<exists>s' k'. leftOf s' t \<and> length t < k' \<and> stringLoop k out s = stringLoop k' (out @ u) s'"
    by (intro exI [of _ s'] exI [of _ k']) simp
qed

lemma reads_short:
  "escapeJ c = (\<lambda>s. Inr ([d], s)) \<Longrightarrow> reads [CHR 0x5C, c] [d]"
  by (rule reads_escape [of "[]", simplified]) auto

lemma hexEscape_split: "hexEscape opt u = CHR 0x5C # CHR ''u'' # drop 2 (hexEscape opt u)"
  by (simp add: hexEscape_def Let_def)

lemma reads_hex:
  assumes "scalar cp" "cp < 0x10000"
  shows "reads (hexEscape opt cp) (appendUtf8 cp)"
proof -
  have "\<exists>s'. leftOf s' t \<and> escapeJ (CHR ''u'') s = Inr (appendUtf8 cp, s')" if left: "leftOf s (drop 2 (hexEscape opt cp) @ t)" for s t
  proof -
    obtain s' where "leftOf s' t" "hex4J s = Inr (cp, s')" using hex4_escape [OF left] assms(2) by auto
    then show ?thesis using assms(1) by (auto simp: escapeJ_def unicodeEscapeJ_def scalar_def)
  qed
  then show ?thesis by (subst hexEscape_split) (rule reads_escape)
qed

lemma reads_pair:
  assumes "0x10000 \<le> cp" "cp \<le> 0x10FFFF"
  shows "reads (hexEscape opt (0xD800 + drop_bit 10 (cp - 0x10000)) @ hexEscape opt (0xDC00 + (cp - 0x10000 AND 0x3FF)))
    (appendUtf8 cp)"
proof -
  define u hi lo where "u = cp - 0x10000" "hi = u div 1024" "lo = u mod 1024"
  have hi: "hi < 1024" using assms(2) unfolding u_hi_lo_def by (intro less_mult_imp_div_less) simp
  have lo: "lo < 1024" by (simp add: u_hi_lo_def)
  have cp: "0x10000 + push_bit 10 hi + lo = cp" using assms(1) by (simp add: u_hi_lo_def push_bit_eq_mult)
  have e: "drop_bit 10 (cp - 0x10000) = hi" "cp - 0x10000 AND 0x3FF = lo"
    using and_low_mask [of u 10] by (simp_all add: u_hi_lo_def drop_bit_eq_div mask_eq_exp_minus_1)
  let ?L = "hexEscape opt (0xDC00 + lo)"
  have "\<exists>s'. leftOf s' t \<and> escapeJ (CHR ''u'') s = Inr (appendUtf8 cp, s')"
    if left: "leftOf s ((drop 2 (hexEscape opt (0xD800 + hi)) @ ?L) @ t)" for s t
  proof -
    have L: "?L @ t = CHR 0x5C # CHR ''u'' # drop 2 ?L @ t" by (subst hexEscape_split) simp
    obtain s1 where s1: "leftOf s1 (?L @ t)" "hex4J s = Inr (0xD800 + hi, s1)"
      using hex4_escape [of s opt "0xD800 + hi" "?L @ t"] left hi by auto
    note s1 = s1 [unfolded L]
    note l2 = left_advance [OF s1(1)] note l3 = left_advance [OF l2]
    obtain s' where "leftOf s' t" "hex4J (advanceJ (advanceJ s1)) = Inr (0xDC00 + lo, s')"
      using hex4_escape [OF l3] lo by auto
    then show ?thesis
      using s1(2) left_peek(1) [OF s1(1)] left_peek(1) [OF l2] hi lo cp
      by (auto simp: escapeJ_def unicodeEscapeJ_def)
  qed
  then show ?thesis unfolding e by (subst hexEscape_split) (simp only: append_Cons, rule reads_escape)
qed

text \<open>The bytes of the writer, character by character.\<close>

lemma reads_ascii: "byte c < 0x80 \<Longrightarrow> reads (asciiText opt c) [c]"
proof -
  assume c: "byte c < 0x80"
  have short: "reads [CHR 0x5C, CHR 0x22] [CHR 0x22]" "reads [CHR 0x5C, CHR 0x5C] [CHR 0x5C]"
    "reads [CHR 0x5C, CHR ''b''] [CHR 0x08]" "reads [CHR 0x5C, CHR ''f''] [CHR 0x0C]"
    "reads [CHR 0x5C, CHR ''n''] [CHR 0x0A]" "reads [CHR 0x5C, CHR ''r''] [CHR 0x0D]"
    "reads [CHR 0x5C, CHR ''t''] [CHR 0x09]" "reads [CHR 0x5C, CHR ''/''] ''/''"
    by (rule reads_short, simp add: escapeJ_def fun_eq_iff)+
  have "reads (hexEscape opt (byte c)) [c]"
    using reads_hex [of "byte c" opt] c by (simp add: scalar_def appendUtf8_def)
  moreover have "plain c \<Longrightarrow> reads [c] [c]" using reads_plain [of "[c]"] by simp
  ultimately show ?thesis using short by (auto simp: asciiText_def plain_def)
qed

lemma continued_decodeCont: "continued k cp s = decodeCont k s cp"
  by (induction k cp s rule: continued.induct) simp_all

text \<open>On a well-formed sequence the writer's decoder agrees with the lexer's.\<close>

lemma writerDecode_scalar:
  assumes "decodeUtf8 (c # s) = Some (cp, n)" "0x80 \<le> byte c"
  shows "writerDecode c s = (cp, n, True)"
proof -
  have ok: "scalar cp" "c # s = appendUtf8 cp @ drop n (c # s)"
    using decodeUtf8_sound [OF assms(1)] by auto
  have "hd (c # s) = hd (appendUtf8 cp)" by (subst ok(2)) simp
  then have c: "c = hd (appendUtf8 cp)" by simp
  have cp: "0x80 \<le> cp" using c assms(2) by (cases "cp < 0x80") (simp_all add: appendUtf8_def byte_chr)
  have lead: "0xC2 \<le> byte c \<and> byte c \<le> 0xF4"
  proof -
    have "cp div 262144 < 5" "cp < 0x800 \<Longrightarrow> 2 \<le> cp div 64 \<and> cp div 64 < 32" "cp < 0x10000 \<Longrightarrow> cp div 4096 < 16"
      using ok(1) cp by (auto simp: scalar_def intro!: less_mult_imp_div_less)
    then show ?thesis using c cp by (auto simp: appendUtf8_arith [OF ok(1)] byte_chr)
  qed
  show ?thesis using assms lead unfolding writerDecode_def decodeUtf8_Cons
    by (auto simp: Let_def continued_decodeCont byte_simps split: if_splits option.splits)
qed

lemma wideText_reads:
  assumes "decodeUtf8 (c # s) = Some (cp, n)" "0x80 \<le> byte c"
  shows "reads (wideText opt c s) (take n (c # s))"
proof -
  obtain t where t: "scalar cp" "c # s = appendUtf8 cp @ t" "n = length (appendUtf8 cp)"
    using decodeUtf8_sound [OF assms(1)] by auto
  then have u: "take n (c # s) = appendUtf8 cp" by simp
  have wide: "\<forall>b\<in>set (appendUtf8 cp). 0x80 \<le> byte b"
  proof -
    have "\<forall>b\<in>set (tl (appendUtf8 cp)). 0x80 \<le> byte b" using appendUtf8_shape(2) [OF t(1)] by (auto simp: byte_simps)
    moreover have "hd (appendUtf8 cp) = c" using t(2) by (cases "appendUtf8 cp") auto
    ultimately show ?thesis using assms(2) by (cases "appendUtf8 cp") auto
  qed
  then have "\<forall>b\<in>set (appendUtf8 cp). plain b" using plain_wide by blast
  then have "reads (appendUtf8 cp) (appendUtf8 cp)" by (rule reads_plain)
  moreover have "cp < 0x10000 \<Longrightarrow> reads (hexEscape opt cp) (appendUtf8 cp)" using reads_hex t(1) by blast
  moreover have "0x10000 \<le> cp \<Longrightarrow> cp \<le> 0x10FFFF" using t(1) by (simp add: scalar_def)
  ultimately show ?thesis
    using reads_pair [of cp opt] unfolding wideText_def writerDecode_scalar [OF assms] u
    by (simp add: Let_def u)
qed

text \<open>The strings that survive the trip: any bytes at all, unless the writer is asked to escape beyond ASCII;
  then it decodes them, and they have to be UTF-8.\<close>

function isUtf8 :: "string \<Rightarrow> bool" where
  "isUtf8 s \<longleftrightarrow> s = [] \<or> (case decodeUtf8 s of None \<Rightarrow> False | Some (cp, n) \<Rightarrow> isUtf8 (drop n s))"
  by pat_completeness auto
termination
  by (relation "measure length") (auto dest: decodeUtf8_length_le)

declare isUtf8.simps [simp del]

lemma isUtf8_Nil [simp]: "isUtf8 []"
  by (simp add: isUtf8.simps)

lemma isUtf8_ascii [simp]: "byte c < 0x80 \<Longrightarrow> isUtf8 (c # s) \<longleftrightarrow> isUtf8 s"
  by (subst isUtf8.simps) (simp add: decodeUtf8_Cons)

definition writable :: "WriteOptions \<Rightarrow> string \<Rightarrow> bool" where
  "writable opt t \<longleftrightarrow> \<not> escapeNonAscii opt \<and> \<not> escapeJsSeparators opt \<or> isUtf8 t"

lemma stringBytes_reads_raw:
  "\<not> escapeNonAscii opt \<Longrightarrow> \<not> escapeJsSeparators opt \<Longrightarrow> reads (stringBytes opt t) t"
proof (induction t)
  case (Cons c t)
  have "0x80 \<le> byte c \<Longrightarrow> reads [c] [c]" using reads_plain [of "[c]"] plain_wide by simp
  then have "0x80 \<le> byte c \<Longrightarrow> reads ([c] @ stringBytes opt t) ([c] @ t)" using Cons by (intro reads_append) auto
  moreover have "byte c < 0x80 \<Longrightarrow> reads (asciiText opt c @ stringBytes opt t) ([c] @ t)"
    using Cons by (intro reads_append reads_ascii) auto
  ultimately show ?case using Cons.prems by simp
qed (simp add: reads_Nil)

lemma stringBytes_reads_utf8: "isUtf8 t \<Longrightarrow> reads (stringBytes opt t) t"
proof (induction t rule: isUtf8.induct)
  case (1 t)
  show ?case
  proof (cases t)
    case (Cons c s)
    from "1.prems" obtain cp n where d: "decodeUtf8 t = Some (cp, n)" "isUtf8 (drop n t)"
      using Cons isUtf8.simps [of t] by (auto split: option.splits)
    note IH = "1.IH" [OF d(1) refl d(2)]
    show ?thesis
    proof (cases "byte c < 0x80")
      case True
      then have "n = 1" using d(1) Cons by (simp add: decodeUtf8_Cons)
      then show ?thesis using IH reads_append [OF reads_ascii [OF True]] Cons True by fastforce
    next
      case False
      then have w: "writerDecode c s = (cp, n, True)" "reads (wideText opt c s) (take n (c # s))"
        using d(1) Cons by (auto intro: writerDecode_scalar wideText_reads)
      have n: "0 < n" using decodeUtf8_length_le [OF d(1)] by simp
      have "reads (wideText opt c s @ stringBytes opt (drop n t)) t"
        using reads_append [OF w(2) IH] Cons append_take_drop_id [of n t] by (simp del: append_take_drop_id)
      then show ?thesis
        using False w(1) n Cons stringBytes_reads_raw [of opt t] by (auto simp: drop_Cons')
    qed
  qed (simp add: reads_Nil)
qed

lemma stringJ_reads:
  assumes "writable opt t" "leftOf s (stringBytes opt t @ CHR 0x22 # r)"
  shows "\<exists>s'. leftOf s' r \<and> stringJ s = Inr (t, s')"
proof -
  have "reads (stringBytes opt t) t"
    using assms(1) stringBytes_reads_raw stringBytes_reads_utf8 by (auto simp: writable_def)
  moreover have "length (stringBytes opt t @ CHR 0x22 # r) < length (textOf s) + 1"
    by (simp add: left_text [OF assms(2)])
  ultimately obtain s1 k1 where s1: "leftOf s1 (CHR 0x22 # r)" "length (CHR 0x22 # r) < k1"
      "stringLoop (length (textOf s) + 1) [] s = stringLoop k1 ([] @ t) s1"
    by (rule readsE [OF _ assms(2)])
  then obtain k where k: "k1 = Suc k" by (cases k1) auto
  have "stringJ s = stringLoop (Suc k) t s1" unfolding stringJ_def s1(3) k append_Nil ..
  then show ?thesis using loop_quote [OF s1(1), of k t] by simp
qed

section \<open>Numbers and words\<close>

definition tokenTail :: "char \<Rightarrow> bool" where
  "tokenTail c \<longleftrightarrow> isalnum c \<or> c = CHR ''.'' \<or> c = CHR ''_''"

lemma dec_hd: "dec n = c # ds \<Longrightarrow> c = CHR ''0'' \<Longrightarrow> ds = []"
proof (induction n arbitrary: ds rule: dec.induct)
  case (1 n)
  show ?case
  proof (cases "n < 10")
    case False
    then obtain ds' where d: "dec (n div 10) = CHR ''0'' # ds'"
      using "1.prems" by (cases "dec (n div 10)") (auto simp: dec.simps [of n])
    then have "ds' = []" using "1.IH" False "1.prems"(2) by blast
    then have "n div 10 = 0" using d dec_value_dec [of "n div 10"] by (simp add: dec_value_def digit_value_def)
    then show ?thesis using False by simp
  qed (use "1.prems" in \<open>simp add: dec.simps [of n]\<close>)
qed

lemma numberInt_dec:
  assumes "leftOf s (dec n @ r)" "stopsAt tokenTail r"
  shows "\<exists>s'. leftOf s' r \<and> numberInt s = Inr (dec n, s')"
proof -
  obtain c ds where d: "dec n = c # ds" by (cases "dec n") simp_all
  have digits: "\<forall>x\<in>set (dec n). isdigit x" using dec_digits by blast
  have stop: "stopsAt isdigit r" using assms(2) by (cases r) (auto simp: tokenTail_def isalnum_def)
  have left: "leftOf s (c # ds @ r)" using assms(1) d by simp
  show ?thesis
  proof (cases "c = CHR ''0''")
    case True
    then have "ds = []" using dec_hd d by blast
    then have "leftOf (advanceJ s) r" using left_advance [OF left] by simp
    moreover from this have "\<not> digitAt (advanceJ s)" using stop by (cases r) (auto simp: digitAt_def)
    ultimately show ?thesis using left_peek(1) [OF left] True d \<open>ds = []\<close> by (auto simp: numberInt_def Let_def)
  next
    case False
    obtain s' where "scanJ isdigit s = (dec n, s')" "leftOf s' r" using left_scan [OF assms(1) digits stop] by auto
    then show ?thesis using left_peek(1) [OF left] False digits d by (auto simp: numberInt_def digitAt_def)
  qed
qed

lemma number_dec:
  assumes "leftOf s (int_dec i @ r)" "stopsAt tokenTail r"
  shows "\<exists>s'. leftOf s' r \<and> number strtod s = Inr (VInt i, s')"
proof -
  let ?n = "nat \<bar>i\<bar>"
  obtain c ds where d: "dec ?n = c # ds" by (cases "dec ?n") simp_all
  have c: "isdigit c" using dec_digits [of c ?n] d by simp
  then have not_minus: "c \<noteq> CHR ''-''" by (auto simp: isdigit_def)
  define minus s0 where "minus = (if i < 0 then ''-'' else [])" "s0 = (if i < 0 then advanceJ s else s)"
  have whole: "leftOf s (minus @ dec ?n @ r)" using assms(1) by (simp add: int_dec_def minus_s0_def split: if_splits)
  have s0: "leftOf s0 (dec ?n @ r)" using whole left_advance [of s "CHR ''-''" "dec ?n @ r"] by (simp add: minus_s0_def split: if_splits)
  have start: "(if peekJ s = Some (CHR ''-'') then (''-'', advanceJ s) else ([], s)) = (minus, s0)"
    using whole d not_minus by (simp add: minus_s0_def split: if_splits)
  obtain s' where s': "leftOf s' r" "numberInt s0 = Inr (dec ?n, s')" using numberInt_dec [OF s0 assms(2)] by blast
  have exact: "integerOf (minus @ dec ?n) = i" using d not_minus dec_value_dec [of ?n] by (auto simp: integerOf_def minus_s0_def)
  have "numberFraction s' = Inr ([], s')" "numberExponent s' = Inr ([], s')"
    using s'(1) assms(2)
    by (cases r; auto simp: numberFraction_def numberExponent_def tokenTail_def isalnum_def isalpha_def)+
  moreover have "\<not> (\<exists>x. peekJ s' = Some x \<and> (isalpha x \<or> x = CHR ''.'' \<or> x = CHR ''_''))"
    using s'(1) assms(2) by (cases r) (auto simp: tokenTail_def isalnum_def)
  ultimately show ?thesis unfolding number_def start using s' exact by (auto split: option.split)
qed

lemma wordLoop_reads:
  "leftOf s (ps @ r) \<Longrightarrow> stopsAt tokenTail r \<Longrightarrow> \<exists>s'. leftOf s' r \<and> wordLoop seen ps s = Inr s'"
proof (induction ps arbitrary: seen s)
  case Nil
  then show ?case by (cases r) (auto simp: tokenTail_def)
next
  case (Cons p ps)
  then have left: "leftOf s (p # ps @ r)" by simp
  show ?case using Cons.IH [OF left_advance [OF left]] Cons.prems(2) left_peek(1) [OF left] by simp
qed

section \<open>Elements and entries\<close>

text \<open>The parser \<open>pv\<close> reads the text \<open>w\<close> as the value \<open>v\<close>, after any blanks and before anything that ends a
  token.\<close>

definition readable :: "valueParser \<Rightarrow> jval \<Rightarrow> string \<Rightarrow> bool" where
  "readable pv v w \<longleftrightarrow>
     (\<exists>c u. w = c # u \<and> \<not> isBlank c \<and> c \<noteq> CHR '']'' \<and> c \<noteq> CHR ''}'') \<and>
     (\<forall>s g r. leftOf s (g @ w @ r) \<longrightarrow> (\<forall>c\<in>set g. isBlank c) \<longrightarrow> stopsAt tokenTail r \<longrightarrow>
        (\<exists>s'. leftOf s' r \<and> pv s = Inr (v, s')))"

lemma readableD:
  assumes "readable pv v w" "leftOf s (g @ w @ r)" "\<forall>c\<in>set g. isBlank c" "stopsAt tokenTail r"
  obtains s' where "leftOf s' r" "pv s = Inr (v, s')"
  using assms unfolding readable_def by blast

lemma readable_hd: "readable pv v w \<Longrightarrow> \<exists>c u. w = c # u \<and> \<not> isBlank c \<and> c \<noteq> CHR '']'' \<and> c \<noteq> CHR ''}''"
  by (simp add: readable_def)

lemma blank_tail [simp]: "isBlank c \<Longrightarrow> \<not> tokenTail c"
  by (auto simp: isBlank_def tokenTail_def isalnum_def isalpha_def isdigit_def)

lemma ends_token: "\<forall>c\<in>set g. isBlank c \<Longrightarrow> \<not> tokenTail c \<Longrightarrow> stopsAt tokenTail (g @ c # r)"
  by (cases g) auto

lemma arrayLoop_reads:
  "readable pv v w \<Longrightarrow> list_all2 (readable pv) vs ws \<Longrightarrow> length vs < k \<Longrightarrow>
   leftOf s (g @ w @ joinSeq opt False ws @ g' @ CHR '']'' # r) \<Longrightarrow>
   \<forall>c\<in>set g. isBlank c \<Longrightarrow> \<forall>c\<in>set g'. isBlank c \<Longrightarrow>
   \<exists>s'. leftOf s' r \<and> arrayLoop k pv items s = Inr (VSeq (items @ v # vs), s')"
proof (induction vs arbitrary: v w ws k s g items)
  case Nil
  then have ws: "ws = []" by simp
  obtain k' where k: "k = Suc k'" using Nil.prems(3) by (cases k) auto
  have "stopsAt tokenTail (g' @ CHR '']'' # r)" using Nil.prems(6) by (intro ends_token) (auto simp: tokenTail_def isalnum_def isalpha_def isdigit_def)
  then obtain s1 where s1: "leftOf s1 (g' @ CHR '']'' # r)" "pv s = Inr (v, s1)"
    using Nil.prems ws by (auto elim: readableD [where s = s and g = g])
  have left: "leftOf (skipWhitespaceJ s1) (CHR '']'' # r)" using left_skip [OF s1(1)] Nil.prems(6) by (simp add: isBlank_def)
  show ?case using s1(2) left_peek(1) [OF left] left_advance [OF left] by (auto simp: k)
next
  case (Cons v' vs)
  then obtain w' ws' where ws: "ws = w' # ws'" "readable pv v' w'" "list_all2 (readable pv) vs ws'" by (auto simp: list_all2_Cons1)
  obtain k' where k: "k = Suc k'" "length vs < k'" using Cons.prems(3) by (cases k) auto
  define gap where "gap = (if pretty opt then '' '' else [])"
  define rest where "rest = gap @ w' @ joinSeq opt False ws' @ g' @ CHR '']'' # r"
  have whole: "leftOf s (g @ w @ CHR '','' # rest)" using Cons.prems(4) by (simp add: ws rest_def gap_def split: if_splits)
  have "stopsAt tokenTail (CHR '','' # rest)" by (simp add: tokenTail_def isalnum_def isalpha_def isdigit_def)
  then obtain s1 where s1: "leftOf s1 (CHR '','' # rest)" "pv s = Inr (v, s1)"
    using readableD [OF Cons.prems(1) whole Cons.prems(5)] by blast
  have left: "leftOf (skipWhitespaceJ s1) (CHR '','' # rest)" using s1(1) by (simp add: isBlank_def)
  have "\<exists>s'. leftOf s' r \<and> arrayLoop k' pv (items @ [v]) (advanceJ (skipWhitespaceJ s1)) = Inr (VSeq ((items @ [v]) @ v' # vs), s')"
    using left_advance [OF left] Cons.prems(6)
    by (intro Cons.IH [OF ws(2,3) k(2), where g = gap]) (auto simp: rest_def gap_def isBlank_def)
  then show ?case using s1(2) left_peek(1) [OF left] by (simp add: k(1))
qed

lemma assocPair_fresh: "k \<notin> fst ` set m \<Longrightarrow> assocPair (k, v) m = m @ [(k, v)]"
  by (induction m) auto

lemma mapAssocPairs_fresh: "k \<notin> fst ` set m \<Longrightarrow> mapAssocPairs m [(k, v)] = m @ [(k, v)]"
  by (simp add: mapAssocPairs_def assocPair_fresh)

text \<open>The text \<open>t\<close> of a key, which the reader's options turn back into the key \<open>k\<close>, and the text of its value.\<close>

definition readableEntry :: "WriteOptions \<Rightarrow> ReadOptions \<Rightarrow> valueParser \<Rightarrow> jval \<times> jval \<Rightarrow> string \<times> string \<Rightarrow> bool" where
  "readableEntry opt opts pv kv tw \<longleftrightarrow>
     makeKey opts (fst tw) = Inr (fst kv) \<and> writable opt (fst tw) \<and> readable pv (snd kv) (snd tw)"

definition colon :: "WriteOptions \<Rightarrow> string" where
  "colon opt = (if pretty opt then '' : '' else '':'')"

lemma entryJ_reads:
  assumes "readableEntry opt opts pv kv (t, w)" "valueFn opts = None"
    "leftOf s (g @ stringW opt t @ colon opt @ w @ r)" "\<forall>c\<in>set g. isBlank c" "stopsAt tokenTail r"
  shows "\<exists>s'. leftOf s' r \<and> entryJ opts pv s = Inr (Some kv, s')"
proof -
  define g1 g2 where "g1 = (if pretty opt then '' '' else [])" "g2 = (if pretty opt then '' '' else [])"
  have g: "\<forall>c\<in>set g1. isBlank c" "\<forall>c\<in>set g2. isBlank c" by (simp_all add: g1_g2_def isBlank_def)
  define after where "after = g1 @ CHR '':'' # g2 @ w @ r"
  have c: "colon opt @ w @ r = after" by (simp add: colon_def after_def g1_g2_def)
  have key: "leftOf (skipWhitespaceJ s) (CHR 0x22 # stringBytes opt t @ CHR 0x22 # after)"
    using assms(3,4) by (intro left_skip [where ws = g]) (simp_all add: c stringW_def isBlank_def)
  obtain s1 where s1: "leftOf s1 after" "stringJ (advanceJ (skipWhitespaceJ s)) = Inr (t, s1)"
    using stringJ_reads [OF _ left_advance [OF key]] assms(1) by (auto simp: readableEntry_def)
  have col: "leftOf (skipWhitespaceJ s1) (CHR '':'' # g2 @ w @ r)"
    using left_skip [OF s1(1) [unfolded after_def] g(1)] by (simp add: isBlank_def)
  obtain s' where "leftOf s' r" "pv (advanceJ (skipWhitespaceJ s1)) = Inr (snd kv, s')"
    using assms(1) readableD [OF _ left_advance [OF col] g(2) assms(5)] by (auto simp: readableEntry_def)
  then show ?thesis
    using s1(2) assms(1,2) left_peek(1) [OF key] left_peek(1) [OF col]
    by (auto simp: entryJ_def Let_def expect_def readableEntry_def)
qed

lemma objectLoop_reads:
  "readableEntry opt opts pv kv (t, w) \<Longrightarrow> list_all2 (readableEntry opt opts pv) m es \<Longrightarrow> length m < k \<Longrightarrow>
   valueFn opts = None \<Longrightarrow> distinct (map fst (m0 @ kv # m)) \<Longrightarrow>
   leftOf s (g @ stringW opt t @ colon opt @ w @ joinMap opt lvl False es @ g' @ CHR ''}'' # r) \<Longrightarrow>
   \<forall>c\<in>set g. isBlank c \<Longrightarrow> \<forall>c\<in>set g'. isBlank c \<Longrightarrow>
   \<exists>s'. leftOf s' r \<and> objectLoop k opts pv m0 s = Inr (VMap (m0 @ kv # m), s')"
proof (induction m arbitrary: kv t w es k s g m0)
  case Nil
  then have es: "es = []" by simp
  obtain k' where k: "k = Suc k'" using Nil.prems(3) by (cases k) auto
  have "stopsAt tokenTail (g' @ CHR ''}'' # r)"
    using Nil.prems(8) by (intro ends_token) (auto simp: tokenTail_def isalnum_def isalpha_def isdigit_def)
  then obtain s1 where s1: "leftOf s1 (g' @ CHR ''}'' # r)" "entryJ opts pv s = Inr (Some kv, s1)"
    using entryJ_reads [OF Nil.prems(1,4), of s g] Nil.prems(6,7) es by auto
  have left: "leftOf (skipWhitespaceJ s1) (CHR ''}'' # r)" using left_skip [OF s1(1)] Nil.prems(8) by (simp add: isBlank_def)
  have "mapAssocPairs m0 [kv] = m0 @ [kv]" using Nil.prems(5) mapAssocPairs_fresh [of "fst kv" m0 "snd kv"] by force
  then show ?case using s1(2) left_peek(1) [OF left] left_advance [OF left] by (auto simp: k Let_def)
next
  case (Cons kv' m)
  then obtain t' w' es' where es: "es = (t', w') # es'" "readableEntry opt opts pv kv' (t', w')"
      "list_all2 (readableEntry opt opts pv) m es'"
    by (auto simp: list_all2_Cons1)
  obtain k' where k: "k = Suc k'" "length m < k'" using Cons.prems(3) by (cases k) auto
  define gap where "gap = (if pretty opt then newlineIndent lvl else [])"
  define rest where "rest = gap @ stringW opt t' @ colon opt @ w' @ joinMap opt lvl False es' @ g' @ CHR ''}'' # r"
  have whole: "leftOf s (g @ stringW opt t @ colon opt @ w @ CHR '','' # rest)"
    using Cons.prems(6) by (simp add: es rest_def gap_def colon_def split: if_splits)
  have "stopsAt tokenTail (CHR '','' # rest)" by (simp add: tokenTail_def isalnum_def isalpha_def isdigit_def)
  then obtain s1 where s1: "leftOf s1 (CHR '','' # rest)" "entryJ opts pv s = Inr (Some kv, s1)"
    using entryJ_reads [OF Cons.prems(1,4) whole Cons.prems(7)] by blast
  have left: "leftOf (skipWhitespaceJ s1) (CHR '','' # rest)" using s1(1) by (simp add: isBlank_def)
  have m0: "mapAssocPairs m0 [kv] = m0 @ [kv]" using Cons.prems(5) mapAssocPairs_fresh [of "fst kv" m0 "snd kv"] by force
  have "\<exists>s'. leftOf s' r \<and> objectLoop k' opts pv (m0 @ [kv]) (advanceJ (skipWhitespaceJ s1)) = Inr (VMap ((m0 @ [kv]) @ kv' # m), s')"
    using left_advance [OF left] Cons.prems(4,5,8)
    by (intro Cons.IH [OF es(2,3) k(2), where g = gap]) (auto simp: rest_def gap_def newlineIndent_def isBlank_def)
  then show ?case using s1(2) left_peek(1) [OF left] m0 by (simp add: k(1) Let_def)
qed

section \<open>Documents\<close>

text \<open>The keys a reader with these options gives back.\<close>

definition jsonKey :: "WriteOptions \<Rightarrow> ReadOptions \<Rightarrow> jval \<Rightarrow> bool" where
  "jsonKey opt opts k =
     (case keys opts of
        KStrings \<Rightarrow> (case k of VStr t \<Rightarrow> writable opt t | _ \<Rightarrow> False)
      | KKeywords \<Rightarrow>
          (case k of
             VNamed sp \<Rightarrow> sp \<noteq> [] \<and> hd sp = CHR '':'' \<and> writable opt (tl sp) \<and>
               (flavor opt = DataJson \<longrightarrow> dropNamespace (tl sp) = tl sp)
           | _ \<Rightarrow> False)
      | KFn f \<Rightarrow> False)"

fun jsonable :: "WriteOptions \<Rightarrow> ReadOptions \<Rightarrow> jval \<Rightarrow> bool" where
  "jsonable opt opts (VStr t) = writable opt t"
| "jsonable opt opts (VSeq vs) = list_all (jsonable opt opts) vs"
| "jsonable opt opts (VMap m) =
     (distinct (map fst m) \<and> list_all (\<lambda>kv. jsonKey opt opts (fst kv) \<and> jsonable opt opts (snd kv)) m)"
| "jsonable opt opts (VFloat d) = False"
| "jsonable opt opts (VNamed sp) = False"
| "jsonable opt opts (VOther ty) = False"
| "jsonable opt opts v = True"

text \<open>The nesting of a value: the native stack the parser needs.\<close>

fun nest :: "jval \<Rightarrow> nat" where
  "nest (VSeq vs) = Suc (foldr max (map nest vs) 0)"
| "nest (VMap m) = Suc (foldr max (map (\<lambda>kv. nest (snd kv)) m) 0)"
| "nest v = 1"

lemma foldr_max_le: "foldr max ns (0::nat) \<le> d \<longleftrightarrow> (\<forall>n\<in>set ns. n \<le> d)"
  by (induction ns) auto

lemma key_reads:
  assumes "jsonKey opt opts k" "writeKeyFn opt = None"
  shows "\<exists>t. keyText E opt k = Inr t \<and> makeKey opts t = Inr k \<and> writable opt t"
  using assms
  by (cases "keys opts"; cases k; cases "flavor opt")
    (auto simp: jsonKey_def keyText_def makeKey_def namedText_def Let_def neq_Nil_conv)

lemma sequenceE_list:
  "list_all (\<lambda>x. \<exists>y. f x = Inr y \<and> R x y) xs \<Longrightarrow> \<exists>ys. sequenceE (map f xs) = Inr ys \<and> list_all2 R xs ys"
proof (induction xs)
  case (Cons x xs)
  then obtain y ys where "f x = Inr y" "R x y" "sequenceE (map f xs) = Inr ys" "list_all2 R xs ys" by auto
  then show ?case by simp
qed simp

lemma sequence_text_length: "list_all2 (readable pv) vs ws \<Longrightarrow> length vs \<le> length (joinSeq opt first ws)"
proof (induction ws arbitrary: vs first)
  case (Cons w ws)
  then obtain v vs' where vs: "vs = v # vs'" "readable pv v w" "list_all2 (readable pv) vs' ws" by (auto simp: list_all2_Cons2)
  then show ?case using Cons.IH [OF vs(3), of False] readable_hd [OF vs(2)] by auto
qed simp

lemma object_text_length: "list_all2 P m es \<Longrightarrow> length m \<le> length (joinMap opt lvl first es)"
proof (induction es arbitrary: m first)
  case (Cons e es)
  then obtain kv m' where "m = kv # m'" "list_all2 P m' es" by (auto simp: list_all2_Cons2)
  then show ?case using Cons.IH [of m' False] by (cases e) (auto simp: stringW_def)
qed simp

lemma leaf_readable:
  assumes "w = c # u" "\<not> isBlank c" "c \<noteq> CHR '']''" "c \<noteq> CHR ''}''"
    and "\<And>s r. leftOf s (w @ r) \<Longrightarrow> stopsAt tokenTail r \<Longrightarrow> skipWhitespaceJ s = s \<Longrightarrow>
      \<exists>s'. leftOf s' r \<and> valueJ (Suc d) strtod opts s = Inr (v, s')"
  shows "readable (valueJ (Suc d) strtod opts) v w"
  unfolding readable_def
proof (intro conjI allI impI)
  fix s g r
  assume s: "leftOf s (g @ w @ r)" "\<forall>c\<in>set g. isBlank c" "stopsAt tokenTail r"
  have left: "leftOf (skipWhitespaceJ s) (w @ r)" using left_skip [OF s(1,2)] assms(1,2) by simp
  have idem: "skipWhitespaceJ (skipWhitespaceJ s) = skipWhitespaceJ s"
    using left assms(1,2) by (subst skipWhitespaceJ.simps) (auto simp: isBlank_def)
  have "valueJ (Suc d) strtod opts s = valueJ (Suc d) strtod opts (skipWhitespaceJ s)"
    unfolding valueJ.simps idem ..
  then show "\<exists>s'. leftOf s' r \<and> valueJ (Suc d) strtod opts s = Inr (v, s')"
    using assms(5) [OF left s(3) idem] by simp
qed (use assms(1-4) in blast)

lemma word_readable:
  assumes "w = c # u" "\<not> isBlank c" "c \<noteq> CHR '']''" "c \<noteq> CHR ''}''"
    and "\<And>s. peekJ s = Some c \<Longrightarrow> skipWhitespaceJ s = s \<Longrightarrow>
      valueJ (Suc d) strtod opts s = bindE (word w s) (\<lambda>s1. Inr (v, s1))"
  shows "readable (valueJ (Suc d) strtod opts) v w"
proof (rule leaf_readable [OF assms(1-4)])
  fix s r
  assume s: "leftOf s (w @ r)" "stopsAt tokenTail r" "skipWhitespaceJ s = s"
  obtain s' where s': "leftOf s' r" "word w s = Inr s'" using wordLoop_reads [OF s(1,2), of "[]"] by (auto simp: word_def)
  have "peekJ s = Some c" using s(1) assms(1) by simp
  from assms(5) [OF this s(3)] s' show "\<exists>s'. leftOf s' r \<and> valueJ (Suc d) strtod opts s = Inr (v, s')" by simp
qed

lemma words_readable:
  "readable (valueJ (Suc d) strtod opts) VNil ''null''"
  "readable (valueJ (Suc d) strtod opts) VTrue ''true''"
  "readable (valueJ (Suc d) strtod opts) VFalse ''false''"
  by (rule word_readable, simp, simp_all add: isBlank_def)+

lemma int_readable: "readable (valueJ (Suc d) strtod opts) (VInt i) (int_dec i)"
proof -
  obtain c u where w: "int_dec i = c # u" by (cases "int_dec i") (auto simp: int_dec_def split: if_splits)
  have c: "c = CHR ''-'' \<or> isdigit c"
    using w dec_digits [of c "nat i"] by (auto simp: int_dec_def split: if_splits)
  then have cs: "\<not> isBlank c" "c \<noteq> CHR '']''" "c \<noteq> CHR ''}''" "c \<noteq> CHR ''{''" "c \<noteq> CHR ''[''" "c \<noteq> CHR 0x22"
      "c \<noteq> CHR ''t''" "c \<noteq> CHR ''f''" "c \<noteq> CHR ''n''"
    by (auto simp: isBlank_def isdigit_def)
  show ?thesis
  proof (rule leaf_readable [OF w cs(1-3)])
    fix s r
    assume "leftOf s (int_dec i @ r)" "stopsAt tokenTail r" "skipWhitespaceJ s = s"
    then show "\<exists>s'. leftOf s' r \<and> valueJ (Suc d) strtod opts s = Inr (VInt i, s')"
      using number_dec [of s i r strtod] left_peek(1) [of s c "u @ r"] w c cs by auto
  qed
qed

lemma string_readable:
  assumes "writable opt t"
  shows "readable (valueJ (Suc d) strtod opts) (VStr t) (stringW opt t)"
proof (rule leaf_readable [OF stringW_def])
  fix s r
  assume "leftOf s (stringW opt t @ r)" "skipWhitespaceJ s = s"
  moreover from this(1) have "leftOf s (CHR 0x22 # stringBytes opt t @ CHR 0x22 # r)" by (simp add: stringW_def)
  ultimately show "\<exists>s'. leftOf s' r \<and> valueJ (Suc d) strtod opts s = Inr (VStr t, s')"
    using stringJ_reads [OF assms, of "advanceJ s" r] left_peek(1) [of s] by auto
qed (simp_all add: isBlank_def)

lemma sequence_readable:
  assumes "list_all2 (readable (valueJ d strtod opts)) vs ws"
  shows "readable (valueJ (Suc d) strtod opts) (VSeq vs)
    (''['' @ joinSeq opt True ws @ (if pretty opt then '' '' else []) @ '']'')"
proof (rule leaf_readable [where c = "CHR ''[''"])
  fix s r
  define gap where "gap = (if pretty opt then '' '' else [])"
  have gap: "\<forall>c\<in>set gap. isBlank c" by (simp add: gap_def isBlank_def)
  assume s: "leftOf s ((''['' @ joinSeq opt True ws @ (if pretty opt then '' '' else []) @ '']'') @ r)" "skipWhitespaceJ s = s"
  then have left: "leftOf s (CHR ''['' # joinSeq opt True ws @ gap @ CHR '']'' # r)" by (simp add: gap_def split: if_splits)
  note left1 = left_advance [OF left]
  have "\<exists>s'. leftOf s' r \<and> arrayJ (valueJ d strtod opts) (advanceJ s) = Inr (VSeq vs, s')"
  proof (cases vs)
    case Nil
    then have "leftOf (skipWhitespaceJ (advanceJ s)) (CHR '']'' # r)"
      using left1 assms gap by (intro left_skip [where ws = gap]) (auto simp: isBlank_def)
    with Nil left_advance [OF this] show ?thesis by (auto simp: arrayJ_def)
  next
    case (Cons v vs')
    then obtain w ws' where ws: "ws = w # ws'" "readable (valueJ d strtod opts) v w"
        "list_all2 (readable (valueJ d strtod opts)) vs' ws'"
      using assms by (auto simp: list_all2_Cons1)
    obtain c u where c: "w = c # u" "\<not> isBlank c" "c \<noteq> CHR '']''" using readable_hd [OF ws(2)] by auto
    let ?rest = "w @ joinSeq opt False ws' @ gap @ CHR '']'' # r"
    have first: "leftOf (skipWhitespaceJ (advanceJ s)) ?rest"
      using left1 ws(1) c gap by (intro left_skip [where ws = gap]) (auto simp: gap_def split: if_splits)
    have "length vs' < length (textOf (skipWhitespaceJ (advanceJ s))) + 1"
      using sequence_text_length [OF ws(3), of opt False] by (simp add: left_text [OF first])
    then show ?thesis
      using arrayLoop_reads [OF ws(2,3) _ _ _ gap, of _ _ "[]" opt r "[]"] first c Cons
      by (auto simp: arrayJ_def Let_def simp del: arrayLoop.simps)
  qed
  then show "\<exists>s'. leftOf s' r \<and> valueJ (Suc d) strtod opts s = Inr (VSeq vs, s')"
    using left_peek(1) [OF left] s(2) by (simp add: Let_def)
qed (simp_all add: isBlank_def)

lemma object_readable:
  assumes "list_all2 (readableEntry opt opts (valueJ d strtod opts)) m es" "m \<noteq> []" "valueFn opts = None"
    "distinct (map fst m)"
  shows "readable (valueJ (Suc d) strtod opts) (VMap m)
    (''{'' @ joinMap opt (Suc lvl) True es @ (if pretty opt then newlineIndent lvl else []) @ ''}'')"
proof (rule leaf_readable [where c = "CHR ''{''"])
  fix s r
  define gap gap' where "gap = (if pretty opt then newlineIndent (Suc lvl) else [])" "gap' = (if pretty opt then newlineIndent lvl else [])"
  have gaps: "\<forall>c\<in>set gap. isBlank c" "\<forall>c\<in>set gap'. isBlank c"
    by (auto simp: gap_gap'_def newlineIndent_def isBlank_def)
  assume s: "leftOf s ((''{'' @ joinMap opt (Suc lvl) True es @ (if pretty opt then newlineIndent lvl else []) @ ''}'') @ r)"
    "skipWhitespaceJ s = s"
  obtain kv m' t w es' where e: "m = kv # m'" "es = (t, w) # es'" "readableEntry opt opts (valueJ d strtod opts) kv (t, w)"
      "list_all2 (readableEntry opt opts (valueJ d strtod opts)) m' es'"
    using assms(1,2) by (cases m) (auto simp: list_all2_Cons1)
  define rest where "rest = stringW opt t @ colon opt @ w @ joinMap opt (Suc lvl) False es' @ gap' @ CHR ''}'' # r"
  have left: "leftOf s (CHR ''{'' # gap @ rest)"
    using s(1) by (simp add: rest_def gap_gap'_def colon_def e(2) split: if_splits)
  have hd: "\<exists>u. rest = CHR 0x22 # u" by (simp add: rest_def stringW_def)
  then have "stopsAt isBlank rest" by (auto simp: isBlank_def)
  then have first: "leftOf (skipWhitespaceJ (advanceJ s)) rest" by (rule left_skip [OF left_advance [OF left] gaps(1)])
  have "length m' < length (textOf (skipWhitespaceJ (advanceJ s))) + 1"
    using object_text_length [OF e(4), of opt "Suc lvl" False] by (simp add: left_text [OF first] rest_def)
  then have loop: "\<exists>s'. leftOf s' r \<and> objectLoop (length (textOf (skipWhitespaceJ (advanceJ s))) + 1) opts (valueJ d strtod opts) []
      (skipWhitespaceJ (advanceJ s)) = Inr (VMap ([] @ kv # m'), s')"
    using first assms(4) gaps(2) unfolding rest_def e(1)
    by (intro objectLoop_reads [OF e(3,4) _ assms(3), where g = "[]" and g' = gap' and lvl = "Suc lvl"]) simp_all
  have "peekJ (skipWhitespaceJ (advanceJ s)) \<noteq> Some (CHR ''}'')" using first hd by auto
  with loop have "\<exists>s'. leftOf s' r \<and> objectJ opts (valueJ d strtod opts) (advanceJ s) = Inr (VMap m, s')"
    by (simp add: objectJ_def Let_def e(1) del: objectLoop.simps)
  then show "\<exists>s'. leftOf s' r \<and> valueJ (Suc d) strtod opts s = Inr (VMap m, s')"
    using left_peek(1) [OF left] s(2) by (simp add: Let_def)
qed (simp_all add: isBlank_def)

lemma empty_object_readable:
  "readable (valueJ (Suc d) strtod opts) (VMap []) (if pretty opt then ''{ }'' else ''{}'')"
proof (rule leaf_readable [where c = "CHR ''{''" and u = "if pretty opt then '' }'' else ''}''"])
  fix s r
  define gap where "gap = (if pretty opt then '' '' else [])"
  have gap: "\<forall>c\<in>set gap. isBlank c" by (simp add: gap_def isBlank_def)
  assume s: "leftOf s ((if pretty opt then ''{ }'' else ''{}'') @ r)" "skipWhitespaceJ s = s"
  then have left: "leftOf s (CHR ''{'' # gap @ CHR ''}'' # r)" by (simp add: gap_def split: if_splits)
  have close: "leftOf (skipWhitespaceJ (advanceJ s)) (CHR ''}'' # r)"
    using left_skip [OF left_advance [OF left] gap] by (simp add: isBlank_def)
  then show "\<exists>s'. leftOf s' r \<and> valueJ (Suc d) strtod opts s = Inr (VMap [], s')"
    using left_peek(1) [OF left] s(2) left_advance [OF close] by (auto simp: Let_def objectJ_def)
qed (simp_all add: isBlank_def)

lemma valueW_readable:
  "jsonable opt opts v \<Longrightarrow> nest v \<le> d \<Longrightarrow> nest v \<le> st \<Longrightarrow> writeKeyFn opt = None \<Longrightarrow> valueFn opts = None \<Longrightarrow>
   \<exists>w. valueW E opt st lvl v = Inr w \<and> readable (valueJ d strtod opts) v w"
proof (induction d arbitrary: v lvl st)
  case 0
  then show ?case by (cases v) auto
next
  case (Suc d)
  let ?pv = "valueJ d strtod opts"
  obtain st' where st: "st = Suc st'" using Suc.prems(3) by (cases v; cases st) auto
  show ?case
  proof (cases v)
    case (VSeq vs)
    have "list_all (\<lambda>x. \<exists>w. valueW E opt st' lvl x = Inr w \<and> readable ?pv x w) vs"
      using Suc VSeq st by (auto simp: list_all_iff foldr_max_le)
    then obtain ws where "sequenceE (map (valueW E opt st' lvl) vs) = Inr ws" "list_all2 (readable ?pv) vs ws"
      using sequenceE_list by blast
    with VSeq st sequence_readable [OF this(2), of opt] show ?thesis by (simp del: valueJ.simps)
  next
    case (VMap m)
    define f where "f kv = bindE (keyText E opt (fst kv)) (\<lambda>k. bindE (valueW E opt st' (lvl + 1) (snd kv)) (\<lambda>t. Inr (k, t)))" for kv
    have entry: "\<exists>e. f kv = Inr e \<and> readableEntry opt opts ?pv kv e" if "kv \<in> set m" for kv
    proof -
      have kv: "jsonKey opt opts (fst kv)" "jsonable opt opts (snd kv)" "nest (snd kv) \<le> d" "nest (snd kv) \<le> st'"
        using Suc.prems(1-3) VMap that st by (auto simp: list_all_iff foldr_max_le)
      obtain t where "keyText E opt (fst kv) = Inr t" "makeKey opts t = Inr (fst kv)" "writable opt t"
        using key_reads [OF kv(1) Suc.prems(4)] by blast
      moreover obtain w where "valueW E opt st' (lvl + 1) (snd kv) = Inr w" "readable ?pv (snd kv) w"
        using Suc.IH [OF kv(2-4) Suc.prems(4,5)] by blast
      ultimately show ?thesis by (auto simp: f_def readableEntry_def)
    qed
    then obtain es where es: "sequenceE (map f m) = Inr es" "list_all2 (readableEntry opt opts ?pv) m es"
      using sequenceE_list [of f "readableEntry opt opts ?pv" m] by (auto simp: list_all_iff)
    show ?thesis
    proof (cases "m = []")
      case True
      then show ?thesis using VMap st empty_object_readable [of d strtod opts opt] by (simp del: valueJ.simps split: if_splits)
    next
      case False
      then show ?thesis
        using object_readable [OF es(2) False Suc.prems(5), of lvl] es(1) VMap Suc.prems(1) st by (simp add: f_def [abs_def] del: valueJ.simps)
    qed
  qed (use Suc.prems st words_readable int_readable string_readable in \<open>auto simp del: valueJ.simps\<close>)
qed

lemma skip_done:
  assumes "leftOf s t" "stopsAt isBlank t" 
  shows "moreJ s = (t \<noteq> [], skipWhitespaceJ s)"
  using left_skip_none [OF assms] by (cases t) (auto simp: moreJ_def)

lemma written_reads_back:
  assumes "jsonable opt opts v" "nest v \<le> depth" "nest v \<le> stack" "writeKeyFn opt = None" "valueFn opts = None"
  shows "\<exists>w s. writeJson E opt stack v = Inr w \<and>
    readJson depth strtod opts fl trailing eof (stringSource w) = Inr (v, s) \<and> textOf s = []"
proof -
  obtain w where w: "valueW E opt stack 0 v = Inr w" "readable (valueJ depth strtod opts) v w"
    using valueW_readable [OF assms] by blast
  obtain c u where c: "w = c # u" "\<not> isBlank c" using readable_hd [OF w(2)] by blast
  have left: "leftOf (stringSource w) (w @ [])" using left_string by simp
  then have skip: "moreJ (stringSource w) = (True, skipWhitespaceJ (stringSource w))"
    using skip_done [of "stringSource w" w] c by simp
  have "leftOf (skipWhitespaceJ (stringSource w)) ([] @ w @ [])" using left c by simp
  then obtain s where s: "leftOf s []" "valueJ depth strtod opts (skipWhitespaceJ (stringSource w)) = Inr (v, s)"
    by (rule readableD [OF w(2)]) simp_all
  have "\<not> fst (moreJ s)" "textOf s = []" using skip_done [OF s(1)] left_text [OF s(1)] by simp_all
  then show ?thesis using w(1) skip s(2) by (auto simp: writeJson_def readJson_def)
qed

section \<open>Properties\<close>

text \<open>C11. What the writer writes, the parser reads back: for every combination of flavour, indentation and
  escapes, but no function for keys or values, a document of nil, booleans, integers of any size, strings, arrays and
  objects (with string keys, or with keyword keys when the reader is asked for keywords) is written without error,
  and reading the text gives the same document, with nothing but the end of input after it. The native stacks of
  the writer and of the parser must allow the nesting of the document; strings are arbitrary bytes unless a
  writer option makes it decode them, in which case they are UTF-8.\<close>

theorem json_roundtrip:
  assumes "jsonable opt opts v" "nest v \<le> depth" "nest v \<le> stack" "writeKeyFn opt = None" "valueFn opts = None"
  shows "\<exists>w s. writeJson E opt stack v = Inr w \<and>
    readJson depth strtod opts fl trailing eof (stringSource w) = Inr (v, s) \<and> textOf s = []"
  by (rule written_reads_back [OF assms])

theorem json_roundtrip_witness:
  "\<exists>w s. writeJson \<lparr>formatDouble = (\<lambda>d. []), isFinite = (\<lambda>d. True), isNaN = (\<lambda>d. False), isPositive = (\<lambda>d. True),
       printText = (\<lambda>v. [])\<rparr> \<lparr>flavor = Cheshire, pretty = True, escapeNonAscii = True, escapeSlash = False, escapeJsSeparators = True,
       writeKeyFn = None\<rparr> 9 (VMap [(VNamed '':a'', VSeq [VInt (- 12), VStr [chr 0xC3, chr 0xB1, CHR 0x0A]]), (VNamed '':b'', VMap [])]) = Inr w \<and>
     readJson 9 (\<lambda>_. 0) \<lparr>keys = KKeywords, valueFn = None\<rparr> Cheshire Reject None (stringSource w) =
       Inr (VMap [(VNamed '':a'', VSeq [VInt (- 12), VStr [chr 0xC3, chr 0xB1, CHR 0x0A]]), (VNamed '':b'', VMap [])], s) \<and> textOf s = []"
proof -
  have utf8: "isUtf8 [chr 0xC3, chr 0xB1, CHR 0x0A]"
    using decodeUtf8_2 [of 3 49 "[CHR 0x0A]"] by (subst isUtf8.simps) simp
  show ?thesis
    by (rule json_roundtrip) (simp_all add: jsonKey_def writable_def utf8)
qed

end
