(* ===== verification/JsonPrims.thy ===== *)
theory JsonPrims
  imports JsonRoundtrip
begin

text \<open>
  The primitives of \<^verbatim>\<open>cheshire.core\<close> and \<^verbatim>\<open>clojure.data.json\<close> (the second half of src/runtime/Json.cpp):
  their arguments, their options and their errors, on top of the parser and the writer. A reader is the
  list of the lines its descriptor still delivers; a primitive that reads one answers the value and the
  lines left. A primitive that writes one answers the text it writes.
\<close>

section \<open>Options\<close>

text \<open>What the primitives call: the application of a value to arguments, \<open>callValueFn\<close> the one of a value function (\<open>None\<close>
  when it answers itself), whether a value is \<^verbatim>\<open>clojure.core/keyword\<close> itself, the name of a value's type, the lines of a
  reader and the check of a writer (src/runtime/IO.cpp), and what the parser and the writer need.\<close>

record primEnv = writeEnv +
  call :: "jval \<Rightarrow> jval \<Rightarrow> jerror + jval"
  callValueFn :: "jval \<Rightarrow> jval \<Rightarrow> jval \<Rightarrow> jerror + jval option"
  isKeywordFn :: "jval \<Rightarrow> bool"
  valueTypeName :: "jval \<Rightarrow> string"
  readableDescriptor :: "jval \<Rightarrow> string \<Rightarrow> jerror + string list"
  writableDescriptor :: "jval \<Rightarrow> string \<Rightarrow> jerror + unit"
  strtod :: "string \<Rightarrow> 64 word"
  nativeStack :: nat

definition arity :: "nat \<Rightarrow> string \<Rightarrow> jerror + 'a" where
  "arity n name = Inl (Thrown ''ArityException'' (''Wrong number of args ('' @ dec n @ '') passed to: '' @ name))"

definition stringArg :: "('x) primEnv_scheme \<Rightarrow> jval \<Rightarrow> string \<Rightarrow> jerror + string" where
  "stringArg E v who =
     (case v of
        VStr t \<Rightarrow> Inr t
      | _ \<Rightarrow> Inl (Thrown ''ClassCastException'' (who @ '' expects a string, got '' @ valueTypeName E v)))"

text \<open>An option of a map, and whether it is present.\<close>

definition mapOption :: "jval \<Rightarrow> string \<Rightarrow> jval \<times> bool" where
  "mapOption opts name =
     (case opts of
        VMap m \<Rightarrow> (case map_of m (VNamed name) of Some v \<Rightarrow> (v, True) | None \<Rightarrow> (VNil, False))
      | _ \<Rightarrow> (VNil, False))"

fun pairUp :: "jval list \<Rightarrow> (jval \<times> jval) list" where
  "pairUp (k # v # r) = (k, v) # pairUp r"
| "pairUp r = []"

definition pairOptions :: "jval list \<Rightarrow> nat \<Rightarrow> string \<Rightarrow> jerror + jval" where
  "pairOptions args from who =
     (if from \<ge> length args then Inr VNil
      else if (length args - from) mod 2 \<noteq> 0
      then Inl (Thrown ''IllegalArgumentException'' (who @ '': options must be keyword / value pairs''))
      else Inr (VMap (mapAssocPairs [] (pairUp (drop from args)))))"

definition setKeyFn :: "('x) primEnv_scheme \<Rightarrow> jval \<Rightarrow> ReadOptions \<Rightarrow> ReadOptions" where
  "setKeyFn E fn ro =
     (if \<not> truthyJ fn then ro
      else if fn = VTrue \<or> isKeywordFn E fn then ro\<lparr>keys := KKeywords\<rparr>
      else ro\<lparr>keys := KFn (call E fn)\<rparr>)"

definition noOptions :: ReadOptions where
  "noOptions = \<lparr>keys = KStrings, valueFn = None\<rparr>"

section \<open>Reading\<close>

definition coerceFn :: "jval list \<Rightarrow> string \<Rightarrow> (jerror + 'a) \<Rightarrow> jerror + 'a" where
  "coerceFn args who r =
     (if length args = 3 \<and> truthyJ (args ! 2)
      then Inl (Thrown ''UnsupportedOperationException'' (who @ '': array-coerce-fn is not supported (D57)'')) else r)"

definition prim_parse_string :: "('x) primEnv_scheme \<Rightarrow> jval list \<Rightarrow> jerror + jval" where
  "prim_parse_string E args =
     (let n = length args; who = ''parse-string'' in
      if n < 1 \<or> n > 3 then arity n who
      else if args ! 0 = VNil then Inr VNil
      else coerceFn args who
        (let ro = (if n \<ge> 2 then setKeyFn E (args ! 1) noOptions else noOptions) in
         bindE (stringArg E (args ! 0) who) (\<lambda>t.
         bindE (readJson (nativeStack E) (strtod E) ro Cheshire Ignore (Some VNil) (stringSource t)) (\<lambda>(v, s). Inr v))))"

definition prim_parse_stream :: "('x) primEnv_scheme \<Rightarrow> jval list \<Rightarrow> jerror + (jval \<times> string list)" where
  "prim_parse_stream E args =
     (let n = length args; who = ''parse-stream'' in
      if n < 1 \<or> n > 3 then arity n who
      else coerceFn args who
        (let ro = (if n \<ge> 2 then setKeyFn E (args ! 1) noOptions else noOptions) in
         bindE (readableDescriptor E (args ! 0) who) (\<lambda>ls.
         bindE (readJson (nativeStack E) (strtod E) ro Cheshire Ignore (Some VNil) (streamSource ls)) (\<lambda>(v, s). Inr (v, pending s)))))"

definition dataJsonReadOptions :: "('x) primEnv_scheme \<Rightarrow> jval \<Rightarrow> string \<Rightarrow> jerror + (ReadOptions \<times> jval option)" where
  "dataJsonReadOptions E opts who =
     (let ro = setKeyFn E (fst (mapOption opts '':key-fn'')) noOptions;
          vf = fst (mapOption opts '':value-fn'');
          ro1 = (if truthyJ vf then ro\<lparr>valueFn := Some (callValueFn E vf)\<rparr> else ro);
          (eofError, present) = mapOption opts '':eof-error?'';
          eofOk = (present \<and> \<not> truthyJ eofError);
          eofValue = fst (mapOption opts '':eof-value'')
      in if truthyJ (fst (mapOption opts '':bigdec''))
         then Inl (Thrown ''UnsupportedOperationException''
                (who @ '': :bigdec needs BigDecimal, which protoClojure does not have (D57)''))
         else Inr (ro1, if eofOk then Some eofValue else None))"

definition prim_read_str :: "('x) primEnv_scheme \<Rightarrow> jval list \<Rightarrow> jerror + jval" where
  "prim_read_str E args =
     (if length args < 1 then arity (length args) ''read-str''
      else bindE (pairOptions args 1 ''read-str'') (\<lambda>opts.
           bindE (dataJsonReadOptions E opts ''read-str'') (\<lambda>(ro, eof).
           bindE (stringArg E (args ! 0) ''read-str'') (\<lambda>t.
           bindE (readJson (nativeStack E) (strtod E) ro DataJson Reject eof (stringSource t)) (\<lambda>(v, s). Inr v)))))"

definition prim_read :: "('x) primEnv_scheme \<Rightarrow> jval list \<Rightarrow> jerror + (jval \<times> string list)" where
  "prim_read E args =
     (if length args < 1 then arity (length args) ''read''
      else bindE (pairOptions args 1 ''read'') (\<lambda>opts.
           bindE (dataJsonReadOptions E opts ''read'') (\<lambda>(ro, eof).
           bindE (readableDescriptor E (args ! 0) ''clojure.data.json/read'') (\<lambda>ls.
           bindE (readJson (nativeStack E) (strtod E) ro DataJson Ignore eof (streamSource ls)) (\<lambda>(v, s). Inr (v, pending s))))))"

section \<open>Writing\<close>

definition keyFnOption :: "('x) primEnv_scheme \<Rightarrow> jval \<Rightarrow> (jval \<Rightarrow> jerror + jval) option" where
  "keyFnOption E opts = (let kf = fst (mapOption opts '':key-fn'') in if truthyJ kf then Some (call E kf) else None)"

definition cheshireWriteOptions :: "('x) primEnv_scheme \<Rightarrow> jval \<Rightarrow> string \<Rightarrow> jerror + WriteOptions" where
  "cheshireWriteOptions E opts who =
     (if opts \<noteq> VNil \<and> (case opts of VMap m \<Rightarrow> False | _ \<Rightarrow> True)
      then Inl (Thrown ''ClassCastException'' (who @ '': options must be a map, got '' @ valueTypeName E opts))
      else Inr \<lparr>flavor = Cheshire, pretty = truthyJ (fst (mapOption opts '':pretty'')),
                escapeNonAscii = truthyJ (fst (mapOption opts '':escape-non-ascii'')),
                escapeSlash = False, escapeJsSeparators = False, writeKeyFn = keyFnOption E opts\<rparr>)"

definition onByDefault :: "jval \<Rightarrow> string \<Rightarrow> bool" where
  "onByDefault opts name = (let (v, present) = mapOption opts name in \<not> present \<or> truthyJ v)"

definition dataJsonWriteOptions :: "('x) primEnv_scheme \<Rightarrow> jval \<Rightarrow> WriteOptions" where
  "dataJsonWriteOptions E opts =
     \<lparr>flavor = DataJson, pretty = False, escapeNonAscii = onByDefault opts '':escape-unicode'',
      escapeSlash = onByDefault opts '':escape-slash'',
      escapeJsSeparators = onByDefault opts '':escape-js-separators'', writeKeyFn = keyFnOption E opts\<rparr>"

definition prim_generate_string :: "('x) primEnv_scheme \<Rightarrow> jval list \<Rightarrow> jerror + jval" where
  "prim_generate_string E args =
     (let n = length args in
      if n < 1 \<or> n > 2 then arity n ''generate-string''
      else bindE (cheshireWriteOptions E (if n = 2 then args ! 1 else VNil) ''generate-string'') (\<lambda>wo.
           bindE (writeJson (writeEnv.truncate E) wo (nativeStack E) (args ! 0)) (\<lambda>t. Inr (VStr t))))"

definition prim_generate_stream :: "('x) primEnv_scheme \<Rightarrow> jval list \<Rightarrow> jerror + (jval \<times> string)" where
  "prim_generate_stream E args =
     (let n = length args in
      if n < 2 \<or> n > 3 then arity n ''generate-stream''
      else bindE (writableDescriptor E (args ! 1) ''generate-stream'') (\<lambda>_.
           bindE (cheshireWriteOptions E (if n = 3 then args ! 2 else VNil) ''generate-stream'') (\<lambda>wo.
           bindE (writeJson (writeEnv.truncate E) wo (nativeStack E) (args ! 0)) (\<lambda>t. Inr (args ! 1, t)))))"

definition prim_write_str :: "('x) primEnv_scheme \<Rightarrow> jval list \<Rightarrow> jerror + jval" where
  "prim_write_str E args =
     (if length args < 1 then arity (length args) ''write-str''
      else bindE (pairOptions args 1 ''write-str'') (\<lambda>opts.
           bindE (writeJson (writeEnv.truncate E) (dataJsonWriteOptions E opts) (nativeStack E) (args ! 0)) (\<lambda>t. Inr (VStr t))))"

definition prim_write :: "('x) primEnv_scheme \<Rightarrow> jval list \<Rightarrow> jerror + (jval \<times> string)" where
  "prim_write E args =
     (if length args < 2 then arity (length args) ''write''
      else bindE (writableDescriptor E (args ! 1) ''clojure.data.json/write'') (\<lambda>_.
           bindE (pairOptions args 2 ''write'') (\<lambda>opts.
           bindE (writeJson (writeEnv.truncate E) (dataJsonWriteOptions E opts) (nativeStack E) (args ! 0)) (\<lambda>t. Inr (VNil, t)))))"

lemmas json_eval = prim_parse_stream_def prim_parse_string_def coerceFn_def noOptions_def stringArg_def readJson_def moreJ_def
  skipWhitespaceJ.simps scanJ.simps peekJ_def advanceJ_def newline_def fill_def textOf_def stringSource_def streamSource_def
  stringJ_def plain_def escapeJ_def number_def numberInt_def numberFraction_def numberExponent_def digitAt_def isdigit_def
  isalpha_def integerOf_def dec_value_def digit_value_def Let_def

section \<open>What is written is ASCII\<close>

lemma hexEscape_ascii: "\<forall>c\<in>set (hexEscape opt u). byte c < 0x80"
proof -
  have "byte (hex_upper d) < 0x80" "byte (hex_lower d) < 0x80" if "d < 16" for d
    using that by (auto simp: hex_upper_def hex_lower_def byte_chr)
  then show ?thesis by (simp add: hexEscape_def Let_def)
qed

lemma asciiText_ascii: "byte c < 0x80 \<Longrightarrow> \<forall>x\<in>set (asciiText opt c). byte x < 0x80"
  using hexEscape_ascii [of opt "byte c"] by (simp add: asciiText_def)

lemma stringBytes_ascii: "escapeNonAscii opt \<Longrightarrow> \<forall>c\<in>set (stringBytes opt t). byte c < 0x80"
proof (induction opt t rule: stringBytes.induct)
  case (2 opt c s)
  show ?case
  proof (cases "byte c < 0x80")
    case True
    then have "set (stringBytes opt (c # s)) = set (asciiText opt c) \<union> set (stringBytes opt s)" by simp
    then show ?thesis using asciiText_ascii [OF True] 2(1,4) True by blast
  next
    case False
    then have "set (stringBytes opt (c # s)) =
        set (wideText opt c s) \<union> set (stringBytes opt (drop (fst (snd (writerDecode c s)) - 1) s))"
      using 2(4) by simp
    moreover have "\<forall>x\<in>set (wideText opt c s). byte x < 0x80"
      using 2(4) hexEscape_ascii [of opt] by (cases "writerDecode c s") (simp add: wideText_def Let_def ball_Un)
    ultimately show ?thesis using 2(3,4) False by blast
  qed
qed simp

section \<open>Properties\<close>

text \<open>With non-ASCII escaped (the default of \<^verbatim>\<open>write-str\<close>), every byte the writer puts into a string is
  ASCII, whatever bytes the string has, malformed sequences included.\<close>

theorem escaped_is_ascii:
  assumes "escapeNonAscii opt"
  shows "\<forall>c\<in>set (stringW opt t). byte c < 0x80"
  using stringBytes_ascii [OF assms, of t] by (auto simp: stringW_def)

theorem escaped_is_ascii_witness:
  "list_all (\<lambda>c. byte c < 0x80)
     (stringW \<lparr>flavor = DataJson, pretty = False, escapeNonAscii = True, escapeSlash = True, escapeJsSeparators = True, writeKeyFn = None\<rparr>
       [chr 0xED, chr 0xA0, chr 0x80, chr 0xFF])"
  unfolding list_all_iff by (rule escaped_is_ascii) simp

text \<open>\<^verbatim>\<open>read-str\<close> of what \<^verbatim>\<open>write-str\<close> answers, both with their defaults, is the document again.\<close>

theorem write_str_read_str:
  assumes "jsonable (dataJsonWriteOptions E VNil) noOptions v" "nest v \<le> nativeStack E"
  shows "\<exists>t. prim_write_str E [v] = Inr (VStr t) \<and> prim_read_str E [VStr t] = Inr v"
proof -
  have "writeKeyFn (dataJsonWriteOptions E VNil) = None" "valueFn noOptions = None"
    by (simp_all add: dataJsonWriteOptions_def keyFnOption_def mapOption_def truthyJ_def noOptions_def)
  from written_reads_back [OF assms(1,2,2) this, of "writeEnv.truncate E" "strtod E" DataJson Reject None]
  obtain w s where "writeJson (writeEnv.truncate E) (dataJsonWriteOptions E VNil) (nativeStack E) v = Inr w"
      "readJson (nativeStack E) (strtod E) noOptions DataJson Reject None (stringSource w) = Inr (v, s)"
    by blast
  then show ?thesis
    by (simp add: prim_write_str_def prim_read_str_def pairOptions_def dataJsonReadOptions_def mapOption_def truthyJ_def
        setKeyFn_def stringArg_def)
qed

text \<open>A reader of these lines, and a stack of eight values.\<close>

definition readerOf :: "string list \<Rightarrow> primEnv" where
  "readerOf ls = \<lparr>formatDouble = (\<lambda>d. []), isFinite = (\<lambda>d. True), isNaN = (\<lambda>d. False), isPositive = (\<lambda>d. True),
     printText = (\<lambda>v. []), call = (\<lambda>f x. Inr x), callValueFn = (\<lambda>f k v. Inr (Some v)), isKeywordFn = (\<lambda>v. False),
     valueTypeName = (\<lambda>v. []), readableDescriptor = (\<lambda>v who. Inr ls), writableDescriptor = (\<lambda>v who. Inr ()),
     strtod = (\<lambda>t. 0), nativeStack = 8\<rparr>"

theorem write_str_read_str_witness:
  "\<exists>t. prim_write_str (readerOf []) [VMap [(VStr ''a/b'', VSeq [VTrue, VInt 7])]] = Inr (VStr t) \<and>
     prim_read_str (readerOf []) [VStr t] = Inr (VMap [(VStr ''a/b'', VSeq [VTrue, VInt 7])])"
  by (rule write_str_read_str) (simp_all add: jsonKey_def writable_def noOptions_def readerOf_def)

text \<open>\<^verbatim>\<open>parse-stream\<close> takes a whole line off the reader for one value: of two values on a line the second is
  lost, and the next call answers nil, the end.\<close>

theorem stream_loses_line:
  "prim_parse_stream (readerOf [''1 2'']) [VOther ''reader''] = Inr (VInt 1, [])
   \<and> prim_parse_stream (readerOf []) [VOther ''reader''] = Inr (VNil, [])"
  by (simp add: json_eval readerOf_def eval_nat_numeral)

text \<open>The character an escape stands for, \<^verbatim>\<open>u\<close> aside.\<close>

definition simpleEscape :: "char \<Rightarrow> char option" where
  "simpleEscape = map_of
     [(CHR ''/'', CHR ''/''), (CHR ''b'', CHR 0x08), (CHR ''f'', CHR 0x0C), (CHR ''n'', CHR 0x0A), (CHR ''r'', CHR 0x0D), (CHR ''t'', CHR 0x09)]"

lemma escape_simple:
  assumes "plain d" "d \<noteq> CHR ''u''"
  shows "simpleEscape d = Some u \<Longrightarrow> escapeJ d s = Inr ([u], s)" "simpleEscape d = None \<Longrightarrow> \<exists>e. escapeJ d s = Inl e"
  using assms by (auto simp: simpleEscape_def escapeJ_def plain_def failJ_def split: if_splits)

lemma loop_newline:
  assumes "leftOf s (CHR 0x0A # t)"
  shows "\<exists>s'. leftOf s' t \<and> stringLoop (Suc k) out s = stringLoop k (out @ [CHR 0x0A]) s'"
proof -
  have "takeWhile plain (buf s) = []" "dropWhile plain (buf s) = buf s"
    using assms by (simp_all add: leftOf_def plain_def)
  then show ?thesis using assms left_newline [OF left_advance [OF assms]] by (auto simp: Let_def)
qed

text \<open>The rest of a string with no more escapes, and the string \<open>a\<close>, newline, \<open>b\<close> read from a string.\<close>

lemma loop_to_quote:
  assumes "leftOf s (b @ CHR 0x22 # t)" "\<forall>x\<in>set b. plain x"
  shows "\<exists>s'. leftOf s' t \<and> stringLoop (Suc k) out s = Inr (out @ b, s')"
proof -
  obtain s1 where s1: "leftOf s1 (CHR 0x22 # t)" "stringLoop (Suc k) out s = stringLoop (Suc k) (out @ b) s1"
    using loop_plains [OF assms(1,2), of "Suc k" out] by auto
  then show ?thesis using loop_quote [OF s1(1), of k "out @ b"] by auto
qed

lemma two_lines_string:
  assumes "leftOf s (a @ CHR 0x0A # b @ [CHR 0x22])" "\<forall>x\<in>set (a @ b). plain x"
  shows "\<exists>s'. leftOf s' [] \<and> stringLoop (Suc (Suc k)) [] s = Inr (a @ CHR 0x0A # b, s')"
proof -
  obtain s1 where s1: "leftOf s1 (CHR 0x0A # b @ [CHR 0x22])" "stringLoop (Suc (Suc k)) [] s = stringLoop (Suc (Suc k)) a s1"
    using loop_plains [OF assms(1), of "Suc (Suc k)" "[]"] assms(2) by auto
  obtain s2 where s2: "leftOf s2 (b @ [CHR 0x22])" "stringLoop (Suc (Suc k)) a s1 = stringLoop (Suc k) (a @ [CHR 0x0A]) s2"
    using loop_newline [OF s1(1), of "Suc k" a] by auto
  show ?thesis using loop_to_quote [OF s2(1), of k "a @ [CHR 0x0A]"] assms(2) s1(2) s2(2) by auto
qed

text \<open>The same string from a reader: the first character of the second line is skipped and the next one is escaped.\<close>

lemma plain_run: "\<forall>x\<in>set a. plain x \<Longrightarrow> takeWhile plain (a @ CHR 0x0A # t) = a \<and> dropWhile plain (a @ CHR 0x0A # t) = CHR 0x0A # t"
  by (induction a) (simp_all add: plain_def)

lemma two_lines_reader:
  assumes "buf s = a @ [CHR 0x0A]" "pending s = [c # d # b @ [CHR 0x22]]" "\<forall>x\<in>set (a @ c # d # b). plain x" "d \<noteq> CHR ''u''"
  shows "simpleEscape d = Some u \<Longrightarrow>
      \<exists>s'. leftOf s' [CHR 0x0A] \<and> stringLoop (Suc (Suc (Suc k))) [] s = Inr (a @ CHR 0x0A # u # b, s')"
    and "simpleEscape d = None \<Longrightarrow> \<exists>e. stringLoop (Suc (Suc (Suc k))) [] s = Inl e"
proof -
  have c: "c \<noteq> CHR 0x22" "c \<noteq> CHR 0x0A" "plain d" using assms(3) by (simp_all add: plain_def)
  define s1 where "s1 = newline (advanceJ (s\<lparr>buf := [CHR 0x0A], lineText := lineText s @ a\<rparr>))"
  have one: "stringLoop (Suc (Suc (Suc k))) [] s = stringLoop (Suc (Suc k)) (a @ [CHR 0x0A]) s1"
    using plain_run [of a "[]"] assms(1,3) by (simp add: s1_def Let_def peekJ_def fill_def ball_Un)
  have s1: "buf s1 = []" "pending s1 = [c # d # b @ [CHR 0x22]]"
    using assms(2) by (simp_all add: s1_def newline_def advanceJ_def fill_def)
  define s2 where "s2 = advanceJ (s1\<lparr>buf := [], lineText := lineText s1\<rparr>)"
  have s2: "leftOf s2 (d # b @ [CHR 0x22, CHR 0x0A])" "peekJ (s1\<lparr>buf := [], lineText := lineText s1\<rparr>) = Some c"
    using s1 by (simp_all add: s2_def advanceJ_def fill_def leftOf_def peekJ_def)
  have two: "stringLoop (Suc (Suc k)) (a @ [CHR 0x0A]) s1 =
      bindE (escapeJ d (advanceJ s2)) (\<lambda>(t, s3). stringLoop (Suc k) ((a @ [CHR 0x0A]) @ t) s3)"
    using s1(1) s2(2) left_peek(1) [OF s2(1)] c(1,2)
    by (subst stringLoop.simps(2)) (simp add: s2_def Let_def del: stringLoop.simps)
  show "\<exists>e. stringLoop (Suc (Suc (Suc k))) [] s = Inl e" if "simpleEscape d = None"
    using escape_simple(2) [OF c(3) assms(4) that, of "advanceJ s2"] one two by auto
  assume u: "simpleEscape d = Some u"
  have "leftOf (advanceJ s2) (b @ CHR 0x22 # [CHR 0x0A])" using left_advance [OF s2(1)] by simp
  then obtain s3 where "leftOf s3 [CHR 0x0A]" "stringLoop (Suc k) (a @ [CHR 0x0A, u]) (advanceJ s2) = Inr (a @ CHR 0x0A # u # b, s3)"
    using loop_to_quote [of "advanceJ s2" b "[CHR 0x0A]" k "a @ [CHR 0x0A, u]"] assms(3) by auto
  then show "\<exists>s'. leftOf s' [CHR 0x0A] \<and> stringLoop (Suc (Suc (Suc k))) [] s = Inr (a @ CHR 0x0A # u # b, s')"
    using one two escape_simple(1) [OF c(3) assms(4) u, of "advanceJ s2"] by simp
qed

text \<open>A string over the end of a line is read differently from a reader and from a string. Where \<open>a\<close>, newline, \<open>c d b\<close>
  is the string's text (no quote, backslash or other newline), a string of it reads as itself, but from a reader
  the character \<open>c\<close> after the line end is taken for a backslash: it is dropped and \<open>d\<close> replaced by what it
  stands for as an escape, or the document refused when it is no escape.\<close>

theorem stream_newline_in_string:
  assumes "readableDescriptor E r ''parse-stream'' = Inr [CHR 0x22 # a, c # d # b @ [CHR 0x22]]"
    and "\<forall>x\<in>set (a @ c # d # b). plain x" "d \<noteq> CHR ''u''" "0 < nativeStack E"
  shows "prim_parse_string E [VStr (CHR 0x22 # a @ CHR 0x0A # c # d # b @ [CHR 0x22])] = Inr (VStr (a @ CHR 0x0A # c # d # b)) \<and>
    (case simpleEscape d of
       Some u \<Rightarrow> prim_parse_stream E [r] = Inr (VStr (a @ CHR 0x0A # u # b), [])
     | None \<Rightarrow> \<exists>e. prim_parse_stream E [r] = Inl e)"
proof
  obtain n where n: "nativeStack E = Suc n" using assms(4) by (cases "nativeStack E") auto
  let ?t = "a @ CHR 0x0A # c # d # b @ [CHR 0x22]" and ?s = "stringSource (CHR 0x22 # a @ CHR 0x0A # c # d # b @ [CHR 0x22])"
  have left: "leftOf ?s (CHR 0x22 # ?t)" by (rule left_string)
  have "skipWhitespaceJ ?s = ?s" using left by (subst skipWhitespaceJ.simps) simp
  moreover have "textOf (advanceJ ?s) = ?t" using left_text [OF left_advance [OF left]] by simp
  moreover obtain s' where "stringLoop (Suc (Suc (length ?t - 1))) [] (advanceJ ?s) = Inr (a @ CHR 0x0A # c # d # b, s')"
    using two_lines_string [of "advanceJ ?s" a "c # d # b" "length ?t - 1"] left_advance [OF left] assms(2) by auto
  ultimately show "prim_parse_string E [VStr (CHR 0x22 # a @ CHR 0x0A # c # d # b @ [CHR 0x22])] = Inr (VStr (a @ CHR 0x0A # c # d # b))"
    using left n by (simp add: prim_parse_string_def coerceFn_def stringArg_def readJson_def moreJ_def stringJ_def Let_def
        del: stringLoop.simps)
  let ?q = "streamSource [CHR 0x22 # a, c # d # b @ [CHR 0x22]]"
  have q: "peekJ ?q = Some (CHR 0x22)" "buf (advanceJ ?q) = a @ [CHR 0x0A]" "pending (advanceJ ?q) = [c # d # b @ [CHR 0x22]]"
    by (simp_all add: peekJ_def advanceJ_def fill_def streamSource_def Let_def)
  have skip: "skipWhitespaceJ ?q = ?q" using q(1) by (subst skipWhitespaceJ.simps) simp
  define k where "k = length a + length b + 3"
  have len: "length (textOf (advanceJ ?q)) + 1 = Suc (Suc (Suc k))" unfolding textOf_def q(2,3) by (simp add: k_def)
  have str: "stringJ (advanceJ ?q) = stringLoop (Suc (Suc (Suc k))) [] (advanceJ ?q)" by (simp only: stringJ_def len)
  note read = prim_parse_stream_def coerceFn_def readJson_def moreJ_def Let_def str
  show "case simpleEscape d of Some u \<Rightarrow> prim_parse_stream E [r] = Inr (VStr (a @ CHR 0x0A # u # b), [])
    | None \<Rightarrow> \<exists>e. prim_parse_stream E [r] = Inl e"
  proof (cases "simpleEscape d")
    case None
    then show ?thesis using two_lines_reader(2) [OF q(2,3) assms(2,3) None, of k] assms(1) q(1) skip n
      by (auto simp: read simp del: stringLoop.simps)
  next
    case (Some u)
    then show ?thesis using two_lines_reader(1) [OF q(2,3) assms(2,3) Some, of k] assms(1) q(1) skip n
      by (auto simp: read leftOf_def simp del: stringLoop.simps)
  qed
qed

definition twoLines :: primEnv where
  "twoLines = readerOf [CHR 0x22 # ''a'', ''nb'' @ [CHR 0x22]]"

theorem stream_newline_in_string_witness:
  "prim_parse_string twoLines [VStr (CHR 0x22 # ''a'' @ CHR 0x0A # ''nb'' @ [CHR 0x22])] = Inr (VStr (''a'' @ CHR 0x0A # ''nb'')) \<and>
   prim_parse_stream twoLines [VOther ''reader''] = Inr (VStr (''a'' @ [CHR 0x0A, CHR 0x08]), [])"
  using stream_newline_in_string [of twoLines "VOther ''reader''" "''a''" "CHR ''n''" "CHR ''b''" "[]"]
  by (simp add: twoLines_def readerOf_def plain_def simpleEscape_def)

end
