(* ===== verification/Keys.thy ===== *)
theory Keys
  imports Prelude "HOL-Library.Word" "HOL-Library.FSet"
begin

unbundle bit_operations_syntax

text \<open>
  Values as map keys (src/runtime/MapOps.cpp): \<^verbatim>\<open>keyIsIdentity\<close>, \<^verbatim>\<open>keyHash\<close> and \<^verbatim>\<open>keyEquals\<close>, the key semantics handed to
  protoCore's hashed collections, with the hash and the equality of sets (src/runtime/SetOps.cpp).

  A value is what these functions can tell of it: a word of its own (nil, a boolean, a character), a small
  integer's word, the content of a string, the bits of a double, the value of a big integer, the address
  of an object equal only to itself, the elements of a vector, of a list, of a ProtoList or of a seq object (what
  \<^verbatim>\<open>seqObjectToList\<close> realises), the entries of a map, and those of a set's map from its elements to themselves. A null
  pointer is nil. The test of the native stack raises or does nothing and is left out. What protoCore hashes
  strings and big integers to is a parameter, and so is the equality of pointers.
\<close>

section \<open>Values\<close>

datatype kval =
  KWord "64 word" | KSmall "64 word" | KString string | KDouble "64 word" | KBig int | KObject "64 word"
| KVector "kval list" | KList "kval list" | KProtoList "kval list" | KSeq "kval list"
| KMap "(kval \<times> kval) list" | KSet "(kval \<times> kval) list"

record hashes =
  stringHash :: "string \<Rightarrow> 64 word"
  bigHash :: "int \<Rightarrow> 64 word"

section \<open>Hashing\<close>

definition kSaltIdentity :: "64 word" where "kSaltIdentity = 0x9E3779B97F4A7C15"
definition kSaltInteger :: "64 word" where "kSaltInteger = 0xC2B2AE3D27D4EB4F"
definition kSaltDouble :: "64 word" where "kSaltDouble = 0x165667B19E3779F9"
definition kSaltBigInt :: "64 word" where "kSaltBigInt = 0x27D4EB2F165667C5"
definition kSaltString :: "64 word" where "kSaltString = 0xD6E8FEB86659FD93"
definition kSaltSequence :: "64 word" where "kSaltSequence = 0xA24BAED4963EE407"
definition kSaltMap :: "64 word" where "kSaltMap = 0x9FB21C651E98DF25"
definition kSaltSet :: "64 word" where "kSaltSet = 0x7C9F2D6A1B3E5F81"

definition mix :: "64 word \<Rightarrow> 64 word" where
  "mix h =
     (let x1 = (h XOR drop_bit 30 h) * 0xBF58476D1CE4E5B9;
          x2 = (x1 XOR drop_bit 27 x1) * 0x94D049BB133111EB
      in x2 XOR drop_bit 31 x2)"

definition combine :: "64 word \<Rightarrow> 64 word \<Rightarrow> 64 word" where
  "combine acc v = mix (acc XOR (v + 0x9E3779B97F4A7C15 + push_bit 6 acc + drop_bit 2 acc))"

definition sequenceHash :: "64 word list \<Rightarrow> 64 word" where
  "sequenceHash hs = foldl combine (combine kSaltSequence (of_nat (length hs))) hs"

definition mapHash :: "(64 word \<times> 64 word) list \<Rightarrow> 64 word" where
  "mapHash hs = combine (combine kSaltMap (of_nat (length hs))) (sum_list (map (\<lambda>(k, v). combine k v) hs))"

definition setHash :: "64 word list \<Rightarrow> 64 word" where
  "setHash hs = (sum_list hs XOR kSaltSet) * 0x9E3779B97F4A7C15 + of_nat (length hs)"

lemma size_pairs [termination_simp]:
  "kv \<in> set m \<Longrightarrow> size (fst kv) < Suc (size_list (size_prod size size) m)"
  "kv \<in> set m \<Longrightarrow> size (snd kv) < Suc (size_list (size_prod size size) m)" for m :: "(kval \<times> kval) list"
  by (induction m) (auto simp: less_Suc_eq_le intro: trans_le_add2)

fun keyHash :: "hashes \<Rightarrow> kval \<Rightarrow> 64 word" where
  "keyHash H (KString t) = combine kSaltString (stringHash H t)"
| "keyHash H (KWord w) = combine kSaltIdentity w"
| "keyHash H (KSmall w) = combine kSaltInteger w"
| "keyHash H (KDouble d) = combine kSaltDouble d"
| "keyHash H (KBig i) = combine kSaltBigInt (bigHash H i)"
| "keyHash H (KProtoList xs) = sequenceHash (map (keyHash H) xs)"
| "keyHash H (KVector xs) = sequenceHash (map (keyHash H) xs)"
| "keyHash H (KMap m) = mapHash (map (\<lambda>kv. (keyHash H (fst kv), keyHash H (snd kv))) m)"
| "keyHash H (KSet m) = setHash (map (\<lambda>kv. keyHash H (fst kv)) m)"
| "keyHash H (KList xs) = sequenceHash (map (keyHash H) xs)"
| "keyHash H (KSeq xs) = sequenceHash (map (keyHash H) xs)"
| "keyHash H (KObject a) = combine kSaltIdentity a"

text \<open>Whether the equality of a key is that of pointers.\<close>

fun keyIsIdentity :: "kval \<Rightarrow> bool" where
  "keyIsIdentity (KWord w) = True"
| "keyIsIdentity (KObject a) = True"
| "keyIsIdentity v = False"

section \<open>Equality\<close>

definition unrealised :: "kval \<Rightarrow> bool" where
  "unrealised v = (case v of KSeq xs \<Rightarrow> True | _ \<Rightarrow> False)"

definition realise :: "kval \<Rightarrow> kval" where
  "realise v = (case v of KSeq xs \<Rightarrow> KProtoList xs | _ \<Rightarrow> v)"

text \<open>The elements of a value that is matched element by element, the entries of a map or of a set.\<close>

definition sequential :: "kval \<Rightarrow> kval list option" where
  "sequential v = (case v of KVector xs \<Rightarrow> Some xs | KProtoList xs \<Rightarrow> Some xs | KList xs \<Rightarrow> Some xs | _ \<Rightarrow> None)"

definition mapEntries :: "kval \<Rightarrow> (kval \<times> kval) list option" where
  "mapEntries v = (case v of KMap m \<Rightarrow> Some m | _ \<Rightarrow> None)"

definition setEntries :: "kval \<Rightarrow> (kval \<times> kval) list option" where
  "setEntries v = (case v of KSet m \<Rightarrow> Some m | _ \<Rightarrow> None)"

text \<open>What \<^verbatim>\<open>hashedGet\<close> answers of these entries: the value of the one whose key is equal.\<close>

definition hashedGet :: "(kval \<Rightarrow> kval \<Rightarrow> bool) \<Rightarrow> (kval \<times> kval) list \<Rightarrow> kval \<Rightarrow> kval option" where
  "hashedGet eq m k = map_option snd (find (\<lambda>kv. eq k (fst kv)) m)"

lemma hashedGet_cong [fundef_cong]:
  assumes "m = m'" "k = k'" "\<And>kv. kv \<in> set m' \<Longrightarrow> eq k' (fst kv) = eq' k' (fst kv)"
  shows "hashedGet eq m k = hashedGet eq' m' k'"
  using assms unfolding hashedGet_def by (metis (no_types, lifting) find_cong)

lemma hashedGet_entry: "hashedGet eq m k = Some v \<Longrightarrow> \<exists>k'. (k', v) \<in> set m \<and> eq k k'"
proof -
  assume "hashedGet eq m k = Some v"
  then obtain i where "i < length m" "eq k (fst (m ! i))" "v = snd (m ! i)"
    unfolding hashedGet_def by (auto simp: find_Some_iff) (metis snd_conv)
  then show ?thesis by (intro exI [of _ "fst (m ! i)"]) (simp add: nth_mem)
qed

lemma value_sizes:
  "sequential v = Some xs \<Longrightarrow> x \<in> set xs \<Longrightarrow> size x < size v"
  "mapEntries v = Some m \<Longrightarrow> kv \<in> set m \<Longrightarrow> size (fst kv) < size v \<and> size (snd kv) < size v"
  "setEntries v = Some m \<Longrightarrow> kv \<in> set m \<Longrightarrow> size (fst kv) < size v \<and> size (snd kv) < size v"
  by (auto simp: sequential_def mapEntries_def setEntries_def less_Suc_eq_le size_pairs [unfolded less_Suc_eq_le] split: kval.splits
      dest: size_list_estimation' [OF _ order_refl])

definition stringOf :: "kval \<Rightarrow> string option" where
  "stringOf v = (case v of KString t \<Rightarrow> Some t | _ \<Rightarrow> None)"

text \<open>The comparison by tag at the end: only doubles and big integers are not unique words.\<close>

definition numberEquals :: "kval \<Rightarrow> kval \<Rightarrow> bool" where
  "numberEquals a b =
     (case a of
        KDouble d \<Rightarrow> (case b of KDouble e \<Rightarrow> d = e | _ \<Rightarrow> False)
      | KBig i \<Rightarrow> (case b of KBig j \<Rightarrow> i = j | _ \<Rightarrow> False)
      | _ \<Rightarrow> False)"

text \<open>\<^verbatim>\<open>keyEquals\<close>; \<open>same\<close> is the equality of pointers.\<close>

function keyEquals :: "(kval \<Rightarrow> kval \<Rightarrow> bool) \<Rightarrow> kval \<Rightarrow> kval \<Rightarrow> bool" where
  "keyEquals same a b =
     (if same a b then True
      else if stringOf a \<noteq> None \<or> stringOf b \<noteq> None then stringOf a \<noteq> None \<and> stringOf b \<noteq> None \<and> stringOf a = stringOf b
      else if unrealised a \<or> unrealised b then keyEquals same (realise a) (realise b)
      else if sequential a \<noteq> None \<or> sequential b \<noteq> None then
        (case (sequential a, sequential b) of
           (Some xs, Some ys) \<Rightarrow>
             length xs = length ys \<and> list_all (\<lambda>xy. keyEquals same (fst xy) (snd xy)) (zip xs ys)
         | _ \<Rightarrow> False)
      else if mapEntries a \<noteq> None \<or> mapEntries b \<noteq> None then
        (case (mapEntries a, mapEntries b) of
           (Some m, Some n) \<Rightarrow>
             length m = length n \<and>
             list_all (\<lambda>kv. case hashedGet (keyEquals same) n (fst kv) of
                             None \<Rightarrow> False
                           | Some mine \<Rightarrow> keyEquals same (snd kv) mine) m
         | _ \<Rightarrow> False)
      else if setEntries a \<noteq> None \<or> setEntries b \<noteq> None then
        (case (setEntries a, setEntries b) of
           (Some m, Some n) \<Rightarrow>
             length m = length n \<and> list_all (\<lambda>kv. hashedGet (keyEquals same) n (fst kv) \<noteq> None) m
         | _ \<Rightarrow> False)
      else numberEquals a b)"
  by pat_completeness auto
termination
proof (relation "measures [\<lambda>(same, a, b). size a + size b,
    \<lambda>(same, a, b). (if unrealised a then 1 else 0) + (if unrealised b then 1 else 0)]", goal_cases)
  case (2 same a b)
  then show ?case by (auto simp: unrealised_def realise_def split: kval.splits)
next
  case (3 same a b x y xs ys z)
  then have "fst z \<in> set xs" "snd z \<in> set ys" by (metis prod.collapse set_zip_leftD) (metis 3 prod.collapse set_zip_rightD)
  then have "size (fst z) < size a" "size (snd z) < size b"
    using 3(5,6,7) value_sizes(1) [of a xs] value_sizes(1) [of b ys] by auto
  moreover obtain x1 y1 where "z = (x1, y1)" by (cases z)
  ultimately show ?case by simp
next
  case (4 same a b x y m n kv e)
  with value_sizes(2) [of a m kv] value_sizes(2) [of b n e] show ?case by (auto intro: add_strict_mono)
next
  case (5 same a b x y m n kv v)
  then obtain k where "(k, v) \<in> set n" using hashedGet_entry by blast
  with 5 value_sizes(2) [of a m kv] value_sizes(2) [of b n "(k, v)"] show ?case by (auto intro: add_strict_mono)
next
  case (6 same a b x y m n kv e)
  with value_sizes(3) [of a m kv] value_sizes(3) [of b n e] show ?case by (auto intro: add_strict_mono)
qed simp

declare keyEquals.simps [simp del]

section \<open>Canonical forms\<close>

text \<open>What a key stands for: sequential values are their elements, maps and sets the sets of their entries.\<close>

datatype ckey =
  CWord "64 word" | CSmall "64 word" | CString string | CDouble "64 word" | CBig int | CObject "64 word"
| CSeq "ckey list" | CMap "(ckey \<times> ckey) fset" | CSet "ckey fset"

fun canon :: "kval \<Rightarrow> ckey" where
  "canon (KWord w) = CWord w"
| "canon (KSmall w) = CSmall w"
| "canon (KString t) = CString t"
| "canon (KDouble d) = CDouble d"
| "canon (KBig i) = CBig i"
| "canon (KObject a) = CObject a"
| "canon (KVector xs) = CSeq (map canon xs)"
| "canon (KList xs) = CSeq (map canon xs)"
| "canon (KProtoList xs) = CSeq (map canon xs)"
| "canon (KSeq xs) = CSeq (map canon xs)"
| "canon (KMap m) = CMap (fset_of_list (map (\<lambda>kv. (canon (fst kv), canon (snd kv))) m))"
| "canon (KSet m) = CSet (fset_of_list (map (\<lambda>kv. canon (fst kv)) m))"

text \<open>The maps and sets inside a key have no two entries with equal keys.\<close>

fun wellKeyed :: "kval \<Rightarrow> bool" where
  "wellKeyed (KVector xs) = list_all wellKeyed xs"
| "wellKeyed (KList xs) = list_all wellKeyed xs"
| "wellKeyed (KProtoList xs) = list_all wellKeyed xs"
| "wellKeyed (KSeq xs) = list_all wellKeyed xs"
| "wellKeyed (KMap m) = (distinct (map (\<lambda>kv. canon (fst kv)) m) \<and> list_all (\<lambda>kv. wellKeyed (fst kv) \<and> wellKeyed (snd kv)) m)"
| "wellKeyed (KSet m) = (distinct (map (\<lambda>kv. canon (fst kv)) m) \<and> list_all (\<lambda>kv. wellKeyed (fst kv)) m)"
| "wellKeyed v = True"

text \<open>The equality of pointers: equal pointers are the same value, and words and objects are nothing but their
  pointers.\<close>

definition pointers :: "(kval \<Rightarrow> kval \<Rightarrow> bool) \<Rightarrow> bool" where
  "pointers same \<longleftrightarrow>
     (\<forall>a b. same a b \<longrightarrow> a = b) \<and>
     (\<forall>w. same (KWord w) (KWord w) \<and> same (KSmall w) (KSmall w) \<and> same (KObject w) (KObject w))"

section \<open>Entries\<close>

lemma hashedGet_iff:
  assumes "\<And>e. e \<in> set n \<Longrightarrow> eq k (fst e) \<longleftrightarrow> g k = g (fst e)" "distinct (map (\<lambda>e. g (fst e)) n)"
  shows "hashedGet eq n k = Some v \<longleftrightarrow> (\<exists>k'. (k', v) \<in> set n \<and> g k' = g k)"
  using assms
proof (induction n)
  case (Cons e n)
  have IH: "hashedGet eq n k = Some v \<longleftrightarrow> (\<exists>k'. (k', v) \<in> set n \<and> g k' = g k)" using Cons by simp
  show ?case
  proof (cases "g k = g (fst e)")
    case True
    have "g k' \<noteq> g k" if "(k', v') \<in> set n" for k' v'
      using imageI [OF that, of "\<lambda>e. g (fst e)"] Cons.prems(2) True by (metis distinct.simps(2) fst_conv list.set_map list.simps(9))
    then have "\<not> (\<exists>k'. (k', v) \<in> set n \<and> g k' = g k)" by blast
    moreover have "hashedGet eq (e # n) k = Some (snd e)" using Cons.prems(1) True by (simp add: hashedGet_def)
    ultimately show ?thesis using True by (cases e) auto
  next
    case False
    then have "hashedGet eq (e # n) k = hashedGet eq n k" using Cons.prems(1) by (simp add: hashedGet_def)
    then show ?thesis using IH False by (cases e) auto
  qed
qed (simp add: hashedGet_def)

lemma hashedGet_None_iff:
  assumes "\<And>e. e \<in> set n \<Longrightarrow> eq k (fst e) \<longleftrightarrow> g k = g (fst e)"
  shows "hashedGet eq n k = None \<longleftrightarrow> g k \<notin> (\<lambda>e. g (fst e)) ` set n"
proof -
  have "hashedGet eq n k = None \<longleftrightarrow> (\<forall>e\<in>set n. g k \<noteq> g (fst e))"
    using assms by (auto simp: hashedGet_def find_None_iff)
  then show ?thesis by blast
qed

text \<open>Two lists of distinct things of the same length, one within the other, hold the same things.\<close>

lemma same_image:
  assumes "distinct (map f m)" "distinct (map f n)"
  shows "f ` set m = f ` set n \<longleftrightarrow> length m = length n \<and> (\<forall>x\<in>set m. f x \<in> f ` set n)"
proof -
  have card: "card (f ` set m) = length m" "card (f ` set n) = length n"
    using distinct_card [OF assms(1)] distinct_card [OF assms(2)] by simp_all
  show ?thesis
  proof
    assume "length m = length n \<and> (\<forall>x\<in>set m. f x \<in> f ` set n)"
    then show "f ` set m = f ` set n" using card by (intro card_subset_eq) auto
  qed (use card in auto)
qed

lemma fset_of_list_eq: "fset_of_list xs = fset_of_list ys \<longleftrightarrow> set xs = set ys"
  by (metis fset_of_list.rep_eq fset_inject)

lemma entries_agree:
  assumes "distinct (map (\<lambda>e. g (fst e)) m)" "distinct (map (\<lambda>e. g (fst e)) n)"
    and "\<And>kv e. kv \<in> set m \<Longrightarrow> e \<in> set n \<Longrightarrow> eq (fst kv) (fst e) \<longleftrightarrow> g (fst kv) = g (fst e)"
    and "\<And>kv e. kv \<in> set m \<Longrightarrow> e \<in> set n \<Longrightarrow> g (fst kv) = g (fst e) \<Longrightarrow> veq (snd kv) (snd e) \<longleftrightarrow> h (snd kv) = h (snd e)"
  shows "length m = length n \<and>
      list_all (\<lambda>kv. case hashedGet eq n (fst kv) of None \<Rightarrow> False | Some mine \<Rightarrow> veq (snd kv) mine) m \<longleftrightarrow>
    (\<lambda>kv. (g (fst kv), h (snd kv))) ` set m = (\<lambda>kv. (g (fst kv), h (snd kv))) ` set n"
proof -
  let ?f = "\<lambda>kv. (g (fst kv), h (snd kv))"
  have d: "distinct (map ?f m)" "distinct (map ?f n)"
    using assms(1,2) distinct_map [of fst "map ?f m"] distinct_map [of fst "map ?f n"] by (simp_all add: o_def)
  have get: "hashedGet eq n (fst kv) = Some v \<longleftrightarrow> (\<exists>k'. (k', v) \<in> set n \<and> g k' = g (fst kv))" if "kv \<in> set m" for kv v
    using hashedGet_iff [of n eq "fst kv" g v] assms(2) assms(3) [OF that] by simp
  have "(case hashedGet eq n (fst kv) of None \<Rightarrow> False | Some mine \<Rightarrow> veq (snd kv) mine) \<longleftrightarrow> ?f kv \<in> ?f ` set n"
    if kv: "kv \<in> set m" for kv
  proof -
    have "(case hashedGet eq n (fst kv) of None \<Rightarrow> False | Some mine \<Rightarrow> veq (snd kv) mine) \<longleftrightarrow>
        (\<exists>v. hashedGet eq n (fst kv) = Some v \<and> veq (snd kv) v)"
      by (auto split: option.split)
    also have "\<dots> \<longleftrightarrow> (\<exists>e\<in>set n. g (fst e) = g (fst kv) \<and> veq (snd kv) (snd e))"
      unfolding get [OF kv] by (metis fst_conv prod.collapse snd_conv)
    also have "\<dots> \<longleftrightarrow> (\<exists>e\<in>set n. ?f kv = ?f e)" using assms(4) [OF kv] by (metis (no_types, lifting) prod.inject)
    also have "\<dots> \<longleftrightarrow> ?f kv \<in> ?f ` set n" by (simp only: image_iff)
    finally show ?thesis .
  qed
  then show ?thesis unfolding same_image [OF d] by (auto simp: list_all_iff)
qed

lemma zip_agree:
  assumes "\<And>x y. (x, y) \<in> set (zip xs ys) \<Longrightarrow> eq x y \<longleftrightarrow> g x = g y"
  shows "length xs = length ys \<and> list_all (\<lambda>xy. eq (fst xy) (snd xy)) (zip xs ys) \<longleftrightarrow> map g xs = map g ys"
proof -
  have "map g xs = map g ys \<longleftrightarrow> length xs = length ys \<and> (\<forall>xy\<in>set (zip xs ys). g (fst xy) = g (snd xy))"
    by (auto simp: list_eq_iff_nth_eq set_zip) (metis fst_conv snd_conv)+
  then show ?thesis using assms by (force simp: list_all_iff)
qed

section \<open>Equality is that of the canonical forms\<close>

lemma stringOf_simps: "stringOf v = Some t \<longleftrightarrow> v = KString t"
  by (cases v) (auto simp: stringOf_def)

lemma canon_string: "canon v = CString t \<longleftrightarrow> v = KString t"
  by (cases v) auto

lemma canon_seq: "sequential v = Some xs \<Longrightarrow> canon v = CSeq (map canon xs)"
  by (cases v) (auto simp: sequential_def)

lemma canon_not_seq: "sequential v = None \<Longrightarrow> \<not> unrealised v \<Longrightarrow> canon v \<noteq> CSeq cs"
  by (cases v) (auto simp: sequential_def unrealised_def)

lemma canon_map: "mapEntries v = Some m \<longleftrightarrow> v = KMap m" "mapEntries v = None \<Longrightarrow> canon v \<noteq> CMap cs"
  by (cases v; auto simp: mapEntries_def)+

lemma canon_set: "setEntries v = Some m \<longleftrightarrow> v = KSet m" "setEntries v = None \<Longrightarrow> canon v \<noteq> CSet cs"
  by (cases v; auto simp: setEntries_def)+

lemma canon_map_differ:
  "mapEntries a = None \<or> mapEntries b = None \<Longrightarrow> mapEntries a \<noteq> None \<or> mapEntries b \<noteq> None \<Longrightarrow> canon a \<noteq> canon b"
  by (cases a; cases b; simp add: mapEntries_def)

lemma canon_set_differ:
  "setEntries a = None \<or> setEntries b = None \<Longrightarrow> setEntries a \<noteq> None \<or> setEntries b \<noteq> None \<Longrightarrow> canon a \<noteq> canon b"
  by (cases a; cases b; simp add: setEntries_def)

lemma canon_realise [simp]: "canon (realise v) = canon v" "wellKeyed (realise v) = wellKeyed v"
  by (cases v; simp add: realise_def)+

lemma wellKeyed_seq: "sequential v = Some xs \<Longrightarrow> wellKeyed v \<longleftrightarrow> (\<forall>x\<in>set xs. wellKeyed x)"
  by (cases v) (auto simp: sequential_def list_all_iff)

lemma keyEquals_canon:
  "pointers same \<Longrightarrow> wellKeyed a \<Longrightarrow> wellKeyed b \<Longrightarrow> keyEquals same a b \<longleftrightarrow> canon a = canon b"
proof (induction same a b rule: keyEquals.induct)
  case (1 same a b)
  note ptr = 1(6) [unfolded pointers_def]
  note step = keyEquals.simps [of same a b]
  consider (same) "same a b"
    | (string) "\<not> same a b" "stringOf a \<noteq> None \<or> stringOf b \<noteq> None"
    | (unrealised) "\<not> same a b" "\<not> (stringOf a \<noteq> None \<or> stringOf b \<noteq> None)" "unrealised a \<or> unrealised b"
    | (seq) "\<not> same a b" "\<not> (stringOf a \<noteq> None \<or> stringOf b \<noteq> None)" "\<not> (unrealised a \<or> unrealised b)"
        "sequential a \<noteq> None \<or> sequential b \<noteq> None"
    | (map) "\<not> same a b" "\<not> (stringOf a \<noteq> None \<or> stringOf b \<noteq> None)" "\<not> (unrealised a \<or> unrealised b)"
        "\<not> (sequential a \<noteq> None \<or> sequential b \<noteq> None)" "mapEntries a \<noteq> None \<or> mapEntries b \<noteq> None"
    | (set) "\<not> same a b" "\<not> (stringOf a \<noteq> None \<or> stringOf b \<noteq> None)" "\<not> (unrealised a \<or> unrealised b)"
        "\<not> (sequential a \<noteq> None \<or> sequential b \<noteq> None)" "\<not> (mapEntries a \<noteq> None \<or> mapEntries b \<noteq> None)"
        "setEntries a \<noteq> None \<or> setEntries b \<noteq> None"
    | (word) "\<not> same a b" "\<not> (stringOf a \<noteq> None \<or> stringOf b \<noteq> None)" "\<not> (unrealised a \<or> unrealised b)"
        "\<not> (sequential a \<noteq> None \<or> sequential b \<noteq> None)" "\<not> (mapEntries a \<noteq> None \<or> mapEntries b \<noteq> None)"
        "\<not> (setEntries a \<noteq> None \<or> setEntries b \<noteq> None)"
    by blast
  then show ?case
  proof cases
    case same
    then have "a = b" using ptr by blast
    then show ?thesis using step same by simp
  next
    case string
    then have "keyEquals same a b \<longleftrightarrow> stringOf a = stringOf b" using step by auto
    then show ?thesis using string(2) by (cases a; cases b; simp add: stringOf_def)
  next
    case unrealised
    then show ?thesis using step 1(1) 1(6-8) by simp
  next
    case seq
    show ?thesis
    proof (cases "sequential a = None \<or> sequential b = None")
      case True
      then show ?thesis using seq step canon_seq canon_not_seq by (auto split: option.split) metis+
    next
      case False
      then obtain xs ys where xy: "sequential a = Some xs" "sequential b = Some ys" by auto
      have "keyEquals same x y \<longleftrightarrow> canon x = canon y" if "(x, y) \<in> set (zip xs ys)" for x y
        using 1(2) [OF seq refl xy that] 1(6-8) that wellKeyed_seq [OF xy(1)] wellKeyed_seq [OF xy(2)]
        by (auto dest: set_zip_leftD set_zip_rightD)
      then show ?thesis
        using zip_agree [of xs ys "keyEquals same" canon] step seq xy by (simp add: canon_seq)
    qed
  next
    case map
    show ?thesis
    proof (cases "mapEntries a = None \<or> mapEntries b = None")
      case True
      then have "\<not> keyEquals same a b" using map step by (auto split: option.split)
      moreover have "canon a \<noteq> canon b" using True map(5) by (rule canon_map_differ)
      ultimately show ?thesis by blast
    next
      case False
      then obtain m n where mn: "mapEntries a = Some m" "mapEntries b = Some n" by auto
      then have ab: "a = KMap m" "b = KMap n" by (simp_all add: canon_map)
      have keys: "distinct (map (\<lambda>e. canon (fst e)) m)" "distinct (map (\<lambda>e. canon (fst e)) n)"
        and well: "\<And>e. e \<in> set m \<union> set n \<Longrightarrow> wellKeyed (fst e) \<and> wellKeyed (snd e)"
        using 1(7,8) by (auto simp: ab list_all_iff)
      have key: "keyEquals same (fst kv) (fst e) \<longleftrightarrow> canon (fst kv) = canon (fst e)" if "kv \<in> set m" "e \<in> set n" for kv e
        using 1(3) [OF map refl mn that] 1(6) well that by blast
      have val: "keyEquals same (snd kv) (snd e) \<longleftrightarrow> canon (snd kv) = canon (snd e)"
        if "kv \<in> set m" "e \<in> set n" "canon (fst kv) = canon (fst e)" for kv e
      proof -
        have "hashedGet (keyEquals same) n (fst kv) = Some (snd e)"
          using hashedGet_iff [of n "keyEquals same" "fst kv" canon "snd e"] key [OF that(1)] keys(2) that(2,3)
          by (metis prod.collapse)
        from 1(4) [OF map refl mn that(1) this] show ?thesis using 1(6) well that by blast
      qed
      have "keyEquals same a b \<longleftrightarrow> length m = length n \<and>
          list_all (\<lambda>kv. case hashedGet (keyEquals same) n (fst kv) of None \<Rightarrow> False | Some mine \<Rightarrow> keyEquals same (snd kv) mine) m"
        using step map mn by simp
      also have "\<dots> \<longleftrightarrow> (\<lambda>kv. (canon (fst kv), canon (snd kv))) ` set m = (\<lambda>kv. (canon (fst kv), canon (snd kv))) ` set n"
        by (rule entries_agree) (use keys key val in blast)+
      also have "\<dots> \<longleftrightarrow> canon a = canon b"
        unfolding ab canon.simps ckey.inject fset_of_list_eq by simp
      finally show ?thesis .
    qed
  next
    case set
    show ?thesis
    proof (cases "setEntries a = None \<or> setEntries b = None")
      case True
      then have "\<not> keyEquals same a b" using set step by (auto split: option.split)
      moreover have "canon a \<noteq> canon b" using True set(6) by (rule canon_set_differ)
      ultimately show ?thesis by blast
    next
      case False
      then obtain m n where mn: "setEntries a = Some m" "setEntries b = Some n" by auto
      then have ab: "a = KSet m" "b = KSet n" by (simp_all add: canon_set)
      have keys: "distinct (map (\<lambda>e. canon (fst e)) m)" "distinct (map (\<lambda>e. canon (fst e)) n)"
        and well: "\<And>e. e \<in> set m \<union> set n \<Longrightarrow> wellKeyed (fst e)"
        using 1(7,8) by (auto simp: ab list_all_iff)
      have key: "keyEquals same (fst kv) (fst e) \<longleftrightarrow> canon (fst kv) = canon (fst e)" if "kv \<in> set m" "e \<in> set n" for kv e
        using 1(5) [OF set refl mn that] 1(6) well that by blast
      have "hashedGet (keyEquals same) n (fst kv) \<noteq> None \<longleftrightarrow> canon (fst kv) \<in> (\<lambda>e. canon (fst e)) ` set n" if "kv \<in> set m" for kv
        using hashedGet_None_iff [where eq = "keyEquals same" and n = n and k = "fst kv" and g = canon, OF key [OF that]] by simp
      then have "keyEquals same a b \<longleftrightarrow> length m = length n \<and> (\<forall>kv\<in>List.set m. canon (fst kv) \<in> (\<lambda>e. canon (fst e)) ` List.set n)"
        using step set mn by (simp add: list_all_iff)
      also have "\<dots> \<longleftrightarrow> canon a = canon b"
        unfolding same_image [OF keys, symmetric] ab canon.simps ckey.inject fset_of_list_eq by simp
      finally show ?thesis .
    qed
  next
    case word
    then show ?thesis using step ptr
      by (cases a; cases b) (auto simp: numberEquals_def stringOf_def unrealised_def sequential_def mapEntries_def setEntries_def)
  qed
qed

section \<open>The hash agrees\<close>

lemma sum_list_distinct: "distinct (map f m) \<Longrightarrow> sum_list (map (\<lambda>x. g (f x)) m) = sum g (f ` set m)"
  for g :: "'b \<Rightarrow> 'c::comm_monoid_add"
  by (induction m) auto

lemma size_member [termination_simp]:
  "(a, b) |\<in>| m \<Longrightarrow> size a < Suc (\<Sum>x\<in>fset m. Suc (Suc (size (fst x) + size (snd x))))"
  "(a, b) |\<in>| m \<Longrightarrow> size b < Suc (\<Sum>x\<in>fset m. Suc (Suc (size (fst x) + size (snd x))))"
  "c |\<in>| s \<Longrightarrow> size c < Suc (\<Sum>x\<in>fset s. Suc (size x))" for a b c :: ckey
  using member_le_sum [of "(a, b)" "fset m" "\<lambda>x. Suc (Suc (size (fst x) + size (snd x)))"]
    member_le_sum [of c "fset s" "\<lambda>x. Suc (size x)"] by simp_all

fun canonHash :: "hashes \<Rightarrow> ckey \<Rightarrow> 64 word" where
  "canonHash H (CWord w) = combine kSaltIdentity w"
| "canonHash H (CSmall w) = combine kSaltInteger w"
| "canonHash H (CString t) = combine kSaltString (stringHash H t)"
| "canonHash H (CDouble d) = combine kSaltDouble d"
| "canonHash H (CBig i) = combine kSaltBigInt (bigHash H i)"
| "canonHash H (CObject a) = combine kSaltIdentity a"
| "canonHash H (CSeq cs) = sequenceHash (map (canonHash H) cs)"
| "canonHash H (CMap m) =
     combine (combine kSaltMap (of_nat (fcard m))) (sum (\<lambda>kv. combine (canonHash H (fst kv)) (canonHash H (snd kv))) (fset m))"
| "canonHash H (CSet s) = (sum (canonHash H) (fset s) XOR kSaltSet) * 0x9E3779B97F4A7C15 + of_nat (fcard s)"

lemma keyHash_canon: "wellKeyed a \<Longrightarrow> keyHash H a = canonHash H (canon a)"
proof (induction H a rule: keyHash.induct)
  case (8 H m)
  have well: "distinct (map (\<lambda>kv. canon (fst kv)) m)" "kv \<in> set m \<Longrightarrow> wellKeyed (fst kv) \<and> wellKeyed (snd kv)" for kv
    using 8(3) by (auto simp: list_all_iff)
  let ?f = "\<lambda>kv. (canon (fst kv), canon (snd kv))"
  have d: "distinct (map ?f m)" using well(1) distinct_map [of fst "map ?f m"] by (simp add: o_def)
  have hash: "keyHash H (fst kv) = canonHash H (canon (fst kv)) \<and> keyHash H (snd kv) = canonHash H (canon (snd kv))"
    if "kv \<in> set m" for kv using 8(1,2) well(2) that by blast
  have "sum_list (map (\<lambda>kv. combine (keyHash H (fst kv)) (keyHash H (snd kv))) m) =
      sum_list (map (\<lambda>kv. (\<lambda>c. combine (canonHash H (fst c)) (canonHash H (snd c))) (?f kv)) m)"
    using hash by (intro arg_cong [where f = sum_list] map_cong) auto
  also have "\<dots> = sum (\<lambda>c. combine (canonHash H (fst c)) (canonHash H (snd c))) (?f ` set m)"
    by (rule sum_list_distinct [OF d])
  finally have "sum_list (map (\<lambda>kv. combine (keyHash H (fst kv)) (keyHash H (snd kv))) m) =
    sum (\<lambda>c. combine (canonHash H (fst c)) (canonHash H (snd c))) (?f ` set m)" .
  moreover have "card (?f ` set m) = length m" using distinct_card [OF d] by simp
  ultimately show ?case
    by (simp add: mapHash_def o_def fcard.rep_eq fset_of_list.rep_eq image_image case_prod_unfold)
next
  case (9 H m)
  have well: "distinct (map (\<lambda>kv. canon (fst kv)) m)" "kv \<in> set m \<Longrightarrow> wellKeyed (fst kv)" for kv
    using 9(2) by (auto simp: list_all_iff)
  have "sum_list (map (\<lambda>kv. keyHash H (fst kv)) m) = sum_list (map (\<lambda>kv. canonHash H (canon (fst kv))) m)"
    using 9(1) well(2) by (intro arg_cong [where f = sum_list] map_cong) auto
  also have "\<dots> = sum (canonHash H) ((\<lambda>kv. canon (fst kv)) ` set m)" by (rule sum_list_distinct [OF well(1)])
  finally have "sum_list (map (\<lambda>kv. keyHash H (fst kv)) m) = sum (canonHash H) ((\<lambda>kv. canon (fst kv)) ` set m)" .
  moreover have "card ((\<lambda>kv. canon (fst kv)) ` set m) = length m" using distinct_card [OF well(1)] by simp
  ultimately show ?case
    by (simp add: setHash_def fcard.rep_eq fset_of_list.rep_eq)
qed (simp_all add: list_all_iff cong: map_cong)

lemma keyIsIdentity_canon: "keyIsIdentity a \<Longrightarrow> canon a = canon b \<Longrightarrow> a = b"
  by (cases a; cases b) auto

section \<open>Properties\<close>

text \<open>C38. Two keys are equal exactly when their canonical forms are: sequential values by their elements whatever they
  are stored in, maps and sets by their entries whatever their order, words and objects by their pointers, numbers of
  different types never. So the equality of keys is reflexive, symmetric and transitive, and the shortcut
  on equal pointers never changes its answer.\<close>

theorem keyEquals_iff:
  assumes "pointers same" "wellKeyed a" "wellKeyed b"
  shows "keyEquals same a b \<longleftrightarrow> canon a = canon b"
  by (rule keyEquals_canon [OF assms])

text \<open>Pointers of values that share nothing.\<close>

definition noSharing :: "kval \<Rightarrow> kval \<Rightarrow> bool" where
  "noSharing a b \<longleftrightarrow> a = b \<and> keyIsIdentity a \<or> (\<exists>w. a = KSmall w \<and> b = KSmall w)"

lemma pointers_noSharing: "pointers noSharing"
  by (auto simp: pointers_def noSharing_def)

theorem keyEquals_iff_witness:
  "keyEquals noSharing (KMap [(KSmall 1, KList [KString ''a'']), (KWord 2, KWord 2)])
     (KMap [(KWord 2, KWord 2), (KSmall 1, KVector [KString ''a''])])"
  by (subst keyEquals_iff [OF pointers_noSharing]) auto

text \<open>C24. Equal keys hash equally, whatever protoCore hashes strings and big integers to: a key is always looked
  up in the slot it was stored in. Keys whose equality is said to be that of pointers are equal only to
  themselves.\<close>

theorem keyHash_agrees:
  assumes "pointers same" "wellKeyed a" "wellKeyed b" "keyEquals same a b"
  shows "keyHash H a = keyHash H b \<and> (keyIsIdentity a \<longrightarrow> a = b)"
  using assms keyEquals_canon [OF assms(1-3)] keyHash_canon [OF assms(2)] keyHash_canon [OF assms(3)] keyIsIdentity_canon
  by metis

theorem keyHash_agrees_witness:
  "\<forall>H. keyHash H (KSet [(KSmall 1, KSmall 1), (KList [], KVector [])]) = keyHash H (KSet [(KVector [], KVector []), (KSmall 1, KSmall 1)])"
proof
  fix H
  have "keyEquals noSharing (KSet [(KSmall 1, KSmall 1), (KList [], KVector [])]) (KSet [(KVector [], KVector []), (KSmall 1, KSmall 1)])"
    using keyEquals_canon [OF pointers_noSharing] by auto
  from keyHash_agrees [OF pointers_noSharing _ _ this, of H]
  show "keyHash H (KSet [(KSmall 1, KSmall 1), (KList [], KVector [])]) = keyHash H (KSet [(KVector [], KVector []), (KSmall 1, KSmall 1)])"
    by simp
qed

end
