(* ===== verification/Maps.thy ===== *)
theory Maps
  imports Keys "HOL-Library.AList"
begin

text \<open>
  The runtime's maps and sets (src/runtime/MapOps.cpp, src/runtime/SetOps.cpp): their operations on top of protoCore's
  hashed collections, and what they promise, the map from the canonical forms of the keys.

  protoCore is not part of the repository: its collection is a parameter, a record of the functions the code
  calls, and the locale \<open>hashed_collection\<close> states what src/runtime/MapOps.h says of them. It is interpreted on
  the representation that header describes, slots of buckets under the low 54 bits of the hash, where it holds because
  equal keys hash equally. A null map is \<open>None\<close>; the rooting of intermediate maps is left out.
\<close>

section \<open>The operations\<close>

record ('a, 'm) helper =
  newMap :: 'm
  hashedPut :: "'m \<Rightarrow> 'a \<Rightarrow> 'a \<Rightarrow> 'm"
  hashedFind :: "'m \<Rightarrow> 'a \<Rightarrow> 'a option"
  hashedRemove :: "'m \<Rightarrow> 'a \<Rightarrow> 'm"
  hashedForEach :: "'m \<Rightarrow> ('a \<times> 'a) list"
  slotCount :: "'m \<Rightarrow> nat"

fun assocPairs :: "('a, 'm) helper \<Rightarrow> 'm \<Rightarrow> 'a list \<Rightarrow> 'm" where
  "assocPairs H m (k # v # kv) = assocPairs H (hashedPut H m k v) kv"
| "assocPairs H m kv = m"

definition mapAssocPairs :: "('a, 'm) helper \<Rightarrow> 'm option \<Rightarrow> 'a list \<Rightarrow> string + 'm" where
  "mapAssocPairs H base kv =
     (if length kv mod 2 \<noteq> 0 then Inl ''map: a key has no value''
      else Inr (assocPairs H (case base of Some m \<Rightarrow> m | None \<Rightarrow> newMap H) kv))"

definition mapIsEmpty :: "('a, 'm) helper \<Rightarrow> 'm option \<Rightarrow> bool" where
  "mapIsEmpty H m = (case m of None \<Rightarrow> True | Some t \<Rightarrow> slotCount H t = 0)"

definition mapDissoc :: "('a, 'm) helper \<Rightarrow> 'm option \<Rightarrow> 'a \<Rightarrow> 'm option" where
  "mapDissoc H m key =
     (if mapIsEmpty H m then m
      else case m of
             None \<Rightarrow> m
           | Some t \<Rightarrow> if hashedFind H t key = None then m else Some (hashedRemove H t key))"

text \<open>\<open>None\<close> is not found.\<close>

definition mapGet :: "('a, 'm) helper \<Rightarrow> 'm option \<Rightarrow> 'a \<Rightarrow> 'a option" where
  "mapGet H m key = (case m of None \<Rightarrow> None | Some t \<Rightarrow> hashedFind H t key)"

definition mapForEach :: "('a, 'm) helper \<Rightarrow> 'm option \<Rightarrow> ('a \<times> 'a) list" where
  "mapForEach H m = (case m of None \<Rightarrow> [] | Some t \<Rightarrow> hashedForEach H t)"

definition mapCount :: "('a, 'm) helper \<Rightarrow> 'm option \<Rightarrow> nat" where
  "mapCount H m = fold (\<lambda>_ n. n + 1) (mapForEach H m) 0"

text \<open>\<open>same\<close>: whether the two maps are one object.\<close>

definition mapEquals :: "('a, 'm) helper \<Rightarrow> bool \<Rightarrow> ('a \<Rightarrow> 'a \<Rightarrow> bool) \<Rightarrow> 'm option \<Rightarrow> 'm option \<Rightarrow> bool" where
  "mapEquals H same valueEq a b =
     (if same then True
      else let n = mapCount H a in
        if n \<noteq> mapCount H b then False
        else if n = 0 then True
        else fold (\<lambda>(key, v) equal. if \<not> equal then False
                   else case mapGet H b key of None \<Rightarrow> False | Some mine \<Rightarrow> valueEq v mine) (mapForEach H a) True)"

text \<open>Sets: a set is the map from its elements to themselves.\<close>

definition setConj :: "('a, 'm) helper \<Rightarrow> 'm option \<Rightarrow> 'a list \<Rightarrow> string + 'm" where
  "setConj H base items =
     (let kv = concat (map (\<lambda>e. if mapGet H base e \<noteq> None then [] else [e, e]) items) in
      case base of
        Some s \<Rightarrow> if kv = [] then Inr s else mapAssocPairs H base kv
      | None \<Rightarrow> mapAssocPairs H base kv)"

definition setDisj :: "('a, 'm) helper \<Rightarrow> 'm option \<Rightarrow> 'a \<Rightarrow> 'm option" where
  "setDisj H s item = (case s of None \<Rightarrow> s | Some m \<Rightarrow> mapDissoc H s item)"

definition setGet :: "('a, 'm) helper \<Rightarrow> 'm option \<Rightarrow> 'a \<Rightarrow> 'a option" where
  "setGet H s item = mapGet H s item"

definition setCount :: "('a, 'm) helper \<Rightarrow> 'm option \<Rightarrow> nat" where
  "setCount H s = mapCount H s"

definition setIsEmpty :: "('a, 'm) helper \<Rightarrow> 'm option \<Rightarrow> bool" where
  "setIsEmpty H s = mapIsEmpty H s"

definition setForEach :: "('a, 'm) helper \<Rightarrow> 'm option \<Rightarrow> 'a list" where
  "setForEach H s = map fst (mapForEach H s)"

definition setEquals :: "('a, 'm) helper \<Rightarrow> bool \<Rightarrow> 'm option \<Rightarrow> 'm option \<Rightarrow> bool" where
  "setEquals H same a b = (if same then True else mapEquals H False (\<lambda>_ _. True) a b)"

section \<open>What they promise\<close>

text \<open>The map a collection stands for: from what keys stand for to values.\<close>

definition absMap :: "('a, 'm) helper \<Rightarrow> ('a \<Rightarrow> 'c) \<Rightarrow> 'm option \<Rightarrow> 'c \<rightharpoonup> 'a" where
  "absMap H rep m = map_of (map (\<lambda>e. (rep (fst e), snd e)) (mapForEach H m))"

fun pairsOf :: "'a list \<Rightarrow> ('a \<times> 'a) list" where
  "pairsOf (k # v # kv) = (k, v) # pairsOf kv"
| "pairsOf kv = []"

definition assocAll :: "('a \<Rightarrow> 'c) \<Rightarrow> 'a list \<Rightarrow> ('c \<rightharpoonup> 'a) \<Rightarrow> 'c \<rightharpoonup> 'a" where
  "assocAll rep kv m = fold (\<lambda>(k, v) m. m(rep k \<mapsto> v)) (pairsOf kv) m"

definition okMap :: "('m \<Rightarrow> bool) \<Rightarrow> 'm option \<Rightarrow> bool" where
  "okMap ok m = (case m of None \<Rightarrow> True | Some t \<Rightarrow> ok t)"

lemma fold_all: "fold (\<lambda>e equal. if \<not> equal then False else P e) xs b \<longleftrightarrow> b \<and> list_all P xs"
  by (induction xs arbitrary: b) auto

lemma fold_count: "fold (\<lambda>_ n. n + 1) xs n = length xs + (n :: nat)"
  by (induction xs arbitrary: n) auto

lemma mapCount_length: "mapCount H m = length (mapForEach H m)"
  unfolding mapCount_def using fold_count [of "mapForEach H m" 0] by simp

locale hashed_collection =
  fixes good :: "'a \<Rightarrow> bool"
    and rep :: "'a \<Rightarrow> 'c"
    and H :: "('a, 'm) helper"
    and ok :: "'m \<Rightarrow> bool"
  assumes new_ok: "ok (newMap H)"
    and put_ok: "ok m \<Longrightarrow> good k \<Longrightarrow> ok (hashedPut H m k v)"
    and remove_ok: "ok m \<Longrightarrow> good k \<Longrightarrow> ok (hashedRemove H m k)"
    and new_find: "good k \<Longrightarrow> hashedFind H (newMap H) k = None"
    and put_find: "ok m \<Longrightarrow> good k \<Longrightarrow> good k' \<Longrightarrow>
      hashedFind H (hashedPut H m k v) k' = (if rep k' = rep k then Some v else hashedFind H m k')"
    and remove_find: "ok m \<Longrightarrow> good k \<Longrightarrow> good k' \<Longrightarrow>
      hashedFind H (hashedRemove H m k) k' = (if rep k' = rep k then None else hashedFind H m k')"
    and each_good: "ok m \<Longrightarrow> e \<in> set (hashedForEach H m) \<Longrightarrow> good (fst e)"
    and each_distinct: "ok m \<Longrightarrow> distinct (map (\<lambda>e. rep (fst e)) (hashedForEach H m))"
    and each_find: "ok m \<Longrightarrow> good k \<Longrightarrow>
      hashedFind H m k = Some v \<longleftrightarrow> (\<exists>k'. (k', v) \<in> set (hashedForEach H m) \<and> rep k' = rep k)"
    and no_slots: "ok m \<Longrightarrow> slotCount H m = 0 \<longleftrightarrow> hashedForEach H m = []"
begin

lemma abs_find: "ok m \<Longrightarrow> good k \<Longrightarrow> absMap H rep (Some m) (rep k) = hashedFind H m k"
proof -
  assume m: "ok m" "good k"
  have "absMap H rep (Some m) (rep k) = Some v \<longleftrightarrow> hashedFind H m k = Some v" for v
  proof -
    have "absMap H rep (Some m) (rep k) = Some v \<longleftrightarrow> (rep k, v) \<in> (\<lambda>e. (rep (fst e), snd e)) ` set (hashedForEach H m)"
      using each_distinct [OF m(1)] by (simp add: absMap_def mapForEach_def map_of_eq_Some_iff o_def)
    also have "\<dots> \<longleftrightarrow> (\<exists>k'. (k', v) \<in> set (hashedForEach H m) \<and> rep k' = rep k)" by force
    finally show ?thesis using each_find [OF m] by simp
  qed
  then show ?thesis by (metis option.exhaust)
qed

lemma abs_dom: "ok m \<Longrightarrow> dom (absMap H rep (Some m)) = (\<lambda>e. rep (fst e)) ` set (hashedForEach H m)"
  by (simp add: absMap_def mapForEach_def dom_map_of_conv_image_fst image_image)

text \<open>A map is known by what it answers to good keys and by its domain.\<close>

lemma abs_good: "ok m \<Longrightarrow> absMap H rep (Some m) c = Some v \<Longrightarrow> \<exists>k. good k \<and> rep k = c"
proof -
  assume m: "ok m" "absMap H rep (Some m) c = Some v"
  then have "c \<in> (\<lambda>e. rep (fst e)) ` set (hashedForEach H m)" by (simp add: abs_dom [symmetric] domI)
  then show ?thesis using each_good [OF m(1)] by blast
qed

lemma abs_eqI:
  assumes "ok m" "\<And>c v. f c = Some v \<Longrightarrow> \<exists>k. good k \<and> rep k = c" "\<And>k. good k \<Longrightarrow> hashedFind H m k = f (rep k)"
  shows "absMap H rep (Some m) = f"
proof
  fix c
  show "absMap H rep (Some m) c = f c"
  proof (cases "\<exists>k. good k \<and> rep k = c")
    case True
    then show ?thesis using abs_find [OF assms(1)] assms(3) by auto
  next
    case False
    then have "absMap H rep (Some m) c = None" "f c = None"
      using abs_good [OF assms(1)] assms(2) by (metis option.exhaust)+
    then show ?thesis by simp
  qed
qed

lemma abs_new: "absMap H rep (Some (newMap H)) = Map.empty"
  by (rule abs_eqI) (simp_all add: new_ok new_find)

lemma abs_put: "ok m \<Longrightarrow> good k \<Longrightarrow> absMap H rep (Some (hashedPut H m k v)) = (absMap H rep (Some m))(rep k \<mapsto> v)"
  by (rule abs_eqI) (auto simp: put_ok put_find abs_find dest: abs_good split: if_splits)

lemma abs_remove: "ok m \<Longrightarrow> good k \<Longrightarrow> absMap H rep (Some (hashedRemove H m k)) = (absMap H rep (Some m))(rep k := None)"
  by (rule abs_eqI) (auto simp: remove_ok remove_find abs_find dest: abs_good split: if_splits)

lemma assocPairs_refines:
  "ok m \<Longrightarrow> (\<forall>kv'\<in>set (pairsOf kv). good (fst kv')) \<Longrightarrow>
   ok (assocPairs H m kv) \<and> absMap H rep (Some (assocPairs H m kv)) = assocAll rep kv (absMap H rep (Some m))"
  by (induction kv arbitrary: m rule: pairsOf.induct) (simp_all add: assocAll_def put_ok abs_put)

lemma each_map:
  assumes "okMap ok m"
  shows "\<And>e. e \<in> set (mapForEach H m) \<Longrightarrow> good (fst e)"
    and "distinct (map (\<lambda>e. rep (fst e)) (mapForEach H m))"
    and "dom (absMap H rep m) = (\<lambda>e. rep (fst e)) ` set (mapForEach H m)"
  using assms each_good each_distinct
  by (cases m; force simp: okMap_def mapForEach_def absMap_def dom_map_of_conv_image_fst image_image)+

lemma get_refines: "okMap ok m \<Longrightarrow> good k \<Longrightarrow> mapGet H m k = absMap H rep m (rep k)"
  by (cases m) (simp_all add: okMap_def mapGet_def abs_find, simp add: absMap_def mapForEach_def)

lemma abs_entry:
  assumes "okMap ok m" "e \<in> set (mapForEach H m)"
  shows "absMap H rep m (rep (fst e)) = Some (snd e)"
  using assms each_map(2) [OF assms(1)] by (auto simp: absMap_def map_of_eq_Some_iff o_def)

lemma count_refines: "okMap ok m \<Longrightarrow> mapCount H m = card (dom (absMap H rep m))"
  using distinct_card [OF each_map(2)] each_map(3) by (simp add: mapCount_length)

lemma empty_refines: "okMap ok m \<Longrightarrow> mapIsEmpty H m \<longleftrightarrow> absMap H rep m = Map.empty"
  by (cases m) (auto simp: okMap_def mapIsEmpty_def no_slots absMap_def mapForEach_def)

lemma assoc_refines:
  assumes "okMap ok m" "length kv mod 2 = 0" "\<forall>e\<in>set (pairsOf kv). good (fst e)"
  shows "\<exists>m'. mapAssocPairs H m kv = Inr m' \<and> ok m' \<and> absMap H rep (Some m') = assocAll rep kv (absMap H rep m)"
proof (cases m)
  case None
  then have "absMap H rep m = absMap H rep (Some (newMap H))" using abs_new by (simp add: absMap_def mapForEach_def)
  with None assocPairs_refines [OF new_ok assms(3)] assms(2) show ?thesis by (simp add: mapAssocPairs_def)
next
  case (Some t)
  with assocPairs_refines [of t kv] assms show ?thesis by (simp add: mapAssocPairs_def okMap_def)
qed

lemma dissoc_refines:
  assumes "okMap ok m" "good k"
  shows "okMap ok (mapDissoc H m k) \<and> absMap H rep (mapDissoc H m k) = (absMap H rep m)(rep k := None)"
    and "mapGet H m k = None \<Longrightarrow> mapDissoc H m k = m"
proof -
  have "absMap H rep m (rep k) = None \<Longrightarrow> absMap H rep m = (absMap H rep m)(rep k := None)" by auto
  then show "okMap ok (mapDissoc H m k) \<and> absMap H rep (mapDissoc H m k) = (absMap H rep m)(rep k := None)"
    using assms empty_refines [OF assms(1)] get_refines [OF assms]
    by (cases m) (auto simp: mapDissoc_def mapGet_def okMap_def remove_ok abs_remove split: if_splits)
qed (cases m, simp_all add: mapDissoc_def mapGet_def)

lemma equals_refines:
  assumes "okMap ok a" "okMap ok b"
  shows "mapEquals H False veq a b \<longleftrightarrow>
    dom (absMap H rep a) = dom (absMap H rep b) \<and>
    (\<forall>c v w. absMap H rep a c = Some v \<longrightarrow> absMap H rep b c = Some w \<longrightarrow> veq v w)"
proof -
  let ?A = "absMap H rep a" and ?B = "absMap H rep b"
  let ?P = "\<lambda>e. case mapGet H b (fst e) of None \<Rightarrow> False | Some mine \<Rightarrow> veq (snd e) mine"
  have finite: "finite (dom ?A)" "finite (dom ?B)" using each_map(3) assms by simp_all
  have P: "?P e \<longleftrightarrow> (\<exists>w. ?B (rep (fst e)) = Some w \<and> veq (snd e) w)" if "e \<in> set (mapForEach H a)" for e
    using get_refines [OF assms(2) each_map(1) [OF assms(1) that]] by (auto split: option.split)
  have "mapEquals H False veq a b \<longleftrightarrow> mapCount H a = mapCount H b \<and> list_all ?P (mapForEach H a)"
    using fold_all [of ?P "mapForEach H a" True] mapCount_length [of H a] by (auto simp: mapEquals_def Let_def case_prod_unfold)
  also have "\<dots> \<longleftrightarrow> card (dom ?A) = card (dom ?B) \<and> (\<forall>c v. ?A c = Some v \<longrightarrow> (\<exists>w. ?B c = Some w \<and> veq v w))"
  proof -
    have "list_all ?P (mapForEach H a) \<longleftrightarrow> (\<forall>e\<in>set (mapForEach H a). \<exists>w. ?B (rep (fst e)) = Some w \<and> veq (snd e) w)"
      using P by (auto simp: list_all_iff)
    also have "\<dots> \<longleftrightarrow> (\<forall>c v. ?A c = Some v \<longrightarrow> (\<exists>w. ?B c = Some w \<and> veq v w))"
    proof
      assume all: "\<forall>e\<in>set (mapForEach H a). \<exists>w. ?B (rep (fst e)) = Some w \<and> veq (snd e) w"
      show "\<forall>c v. ?A c = Some v \<longrightarrow> (\<exists>w. ?B c = Some w \<and> veq v w)"
      proof (intro allI impI)
        fix c v
        assume A: "?A c = Some v"
        then have "c \<in> (\<lambda>e. rep (fst e)) ` set (mapForEach H a)" by (simp add: each_map(3) [OF assms(1), symmetric] domI)
        then obtain e where e: "e \<in> set (mapForEach H a)" "c = rep (fst e)" by blast
        then have "snd e = v" using A abs_entry [OF assms(1) e(1)] by simp
        then show "\<exists>w. ?B c = Some w \<and> veq v w" using all e by blast
      qed
    next
      assume "\<forall>c v. ?A c = Some v \<longrightarrow> (\<exists>w. ?B c = Some w \<and> veq v w)"
      then show "\<forall>e\<in>set (mapForEach H a). \<exists>w. ?B (rep (fst e)) = Some w \<and> veq (snd e) w" using abs_entry [OF assms(1)] by blast
    qed
    finally show ?thesis using count_refines assms by simp
  qed
  also have "\<dots> \<longleftrightarrow> dom ?A = dom ?B \<and> (\<forall>c v w. ?A c = Some v \<longrightarrow> ?B c = Some w \<longrightarrow> veq v w)"
  proof
    assume all: "card (dom ?A) = card (dom ?B) \<and> (\<forall>c v. ?A c = Some v \<longrightarrow> (\<exists>w. ?B c = Some w \<and> veq v w))"
    then have "dom ?A \<subseteq> dom ?B" by blast
    then have "dom ?A = dom ?B" using all finite(2) by (intro card_subset_eq) auto
    with all show "dom ?A = dom ?B \<and> (\<forall>c v w. ?A c = Some v \<longrightarrow> ?B c = Some w \<longrightarrow> veq v w)" by fastforce
  next
    assume all: "dom ?A = dom ?B \<and> (\<forall>c v w. ?A c = Some v \<longrightarrow> ?B c = Some w \<longrightarrow> veq v w)"
    show "card (dom ?A) = card (dom ?B) \<and> (\<forall>c v. ?A c = Some v \<longrightarrow> (\<exists>w. ?B c = Some w \<and> veq v w))"
    proof (intro conjI allI impI)
      fix c v
      assume "?A c = Some v"
      then show "\<exists>w. ?B c = Some w \<and> veq v w" using all by (metis domD domI)
    qed (use all in simp)
  qed
  finally show ?thesis .
qed

end

section \<open>Slots of buckets\<close>

text \<open>The representation src/runtime/MapOps.h describes: a key whose equality is that of pointers has a slot of its own,
  every other shares the slot of the low 54 bits of its hash with the keys that collide.\<close>

type_synonym slots = "((kval + 64 word) \<times> (kval \<times> kval) list) list"

definition slotOf :: "hashes \<Rightarrow> kval \<Rightarrow> kval + 64 word" where
  "slotOf h k = (if keyIsIdentity k then Inl k else Inr (take_bit 54 (keyHash h k)))"

definition bucketAt :: "slots \<Rightarrow> kval + 64 word \<Rightarrow> (kval \<times> kval) list" where
  "bucketAt T s = (case map_of T s of Some b \<Rightarrow> b | None \<Rightarrow> [])"

definition bucketPut :: "(kval \<Rightarrow> kval \<Rightarrow> bool) \<Rightarrow> (kval \<times> kval) list \<Rightarrow> kval \<Rightarrow> kval \<Rightarrow> (kval \<times> kval) list" where
  "bucketPut eq b k v =
     (if list_ex (\<lambda>e. eq k (fst e)) b then map (\<lambda>e. if eq k (fst e) then (fst e, v) else e) b else b @ [(k, v)])"

definition slotted :: "(kval \<Rightarrow> kval \<Rightarrow> bool) \<Rightarrow> hashes \<Rightarrow> (kval, slots) helper" where
  "slotted same h =
     \<lparr>newMap = [],
      hashedPut = (\<lambda>T k v. AList.update (slotOf h k) (bucketPut (keyEquals same) (bucketAt T (slotOf h k)) k v) T),
      hashedFind = (\<lambda>T k. hashedGet (keyEquals same) (bucketAt T (slotOf h k)) k),
      hashedRemove = (\<lambda>T k.
        let b = filter (\<lambda>e. \<not> keyEquals same k (fst e)) (bucketAt T (slotOf h k))
        in if b = [] then AList.delete (slotOf h k) T else AList.update (slotOf h k) b T),
      hashedForEach = (\<lambda>T. concat (map snd T)),
      slotCount = length\<rparr>"

definition okBucket :: "hashes \<Rightarrow> kval + 64 word \<Rightarrow> (kval \<times> kval) list \<Rightarrow> bool" where
  "okBucket h s b \<longleftrightarrow>
     distinct (map (\<lambda>e. canon (fst e)) b) \<and> (\<forall>e\<in>set b. wellKeyed (fst e) \<and> slotOf h (fst e) = s)"

definition okSlots :: "hashes \<Rightarrow> slots \<Rightarrow> bool" where
  "okSlots h T \<longleftrightarrow> distinct (map fst T) \<and> (\<forall>(s, b)\<in>set T. b \<noteq> [] \<and> okBucket h s b)"

text \<open>Equal keys have equal slots: this is where the hash has to agree with the equality.\<close>

lemma slotOf_canon: "wellKeyed a \<Longrightarrow> wellKeyed b \<Longrightarrow> canon a = canon b \<Longrightarrow> slotOf h a = slotOf h b"
proof -
  assume ab: "wellKeyed a" "wellKeyed b" "canon a = canon b"
  then have "keyHash h a = keyHash h b" by (simp add: keyHash_canon)
  moreover have "keyIsIdentity a \<or> keyIsIdentity b \<Longrightarrow> a = b"
    using ab(3) keyIsIdentity_canon [of a b] keyIsIdentity_canon [of b a] by metis
  ultimately show ?thesis by (auto simp: slotOf_def)
qed

lemma okSlots_iff:
  "okSlots h T \<longleftrightarrow> distinct (map fst T) \<and> (\<forall>s b. map_of T s = Some b \<longrightarrow> b \<noteq> [] \<and> okBucket h s b)"
proof (cases "distinct (map fst T)")
  case True
  have "(\<forall>(s, b)\<in>set T. b \<noteq> [] \<and> okBucket h s b) \<longleftrightarrow> (\<forall>s b. (s, b) \<in> set T \<longrightarrow> b \<noteq> [] \<and> okBucket h s b)" by blast
  then show ?thesis using True by (simp only: okSlots_def map_of_eq_Some_iff [OF True])
qed (simp add: okSlots_def)

lemma bucketAt_ok: "okSlots h T \<Longrightarrow> okBucket h s (bucketAt T s)"
  unfolding okSlots_iff bucketAt_def by (cases "map_of T s") (simp_all add: okBucket_def)

lemma bucketAt_update: "bucketAt (AList.update s b T) s' = (if s' = s then b else bucketAt T s')"
  by (simp add: bucketAt_def update_conv')

lemma bucketAt_delete: "bucketAt (AList.delete s T) s' = (if s' = s then [] else bucketAt T s')"
  by (simp add: bucketAt_def delete_conv')

lemma each_bucket: "okSlots h T \<Longrightarrow> e \<in> set (concat (map snd T)) \<longleftrightarrow> (\<exists>s. e \<in> set (bucketAt T s))"
proof -
  assume T: "okSlots h T"
  then have d: "distinct (map fst T)" by (simp add: okSlots_def)
  have "e \<in> set (concat (map snd T)) \<longleftrightarrow> (\<exists>s b. map_of T s = Some b \<and> e \<in> set b)"
    unfolding map_of_eq_Some_iff [OF d] by force
  also have "\<dots> \<longleftrightarrow> (\<exists>s. e \<in> set (bucketAt T s))"
  proof
    assume "\<exists>s. e \<in> set (bucketAt T s)"
    then obtain s where "e \<in> set (bucketAt T s)" by blast
    then have "map_of T s = Some (bucketAt T s) \<and> e \<in> set (bucketAt T s)" by (cases "map_of T s") (auto simp: bucketAt_def)
    then show "\<exists>s b. map_of T s = Some b \<and> e \<in> set b" by blast
  next
    assume "\<exists>s b. map_of T s = Some b \<and> e \<in> set b"
    then obtain s b where "map_of T s = Some b" "e \<in> set b" by blast
    then have "e \<in> set (bucketAt T s)" by (simp add: bucketAt_def)
    then show "\<exists>s. e \<in> set (bucketAt T s)" by blast
  qed
  finally show ?thesis .
qed

lemma bucketPut_nonempty [simp]: "bucketPut eq b k v \<noteq> []"
  by (auto simp: bucketPut_def)

lemma bucketPut_keys:
  assumes "\<And>e. e \<in> set b \<Longrightarrow> eq k (fst e) \<longleftrightarrow> g k = g (fst e)"
  shows "map (\<lambda>e. g (fst e)) (bucketPut eq b k v) =
    (if g k \<in> (\<lambda>e. g (fst e)) ` set b then map (\<lambda>e. g (fst e)) b else map (\<lambda>e. g (fst e)) b @ [g k])"
  using assms by (auto simp: bucketPut_def list_ex_iff)

lemma bucketPut_set:
  assumes "\<And>e. e \<in> set b \<Longrightarrow> eq k (fst e) \<longleftrightarrow> g k = g (fst e)"
  shows "(\<exists>e\<in>set (bucketPut eq b k v). g (fst e) = c \<and> snd e = w) \<longleftrightarrow>
    (if c = g k then w = v else \<exists>e\<in>set b. g (fst e) = c \<and> snd e = w)"
proof (cases "list_ex (\<lambda>e. eq k (fst e)) b")
  case True
  then obtain e where e: "e \<in> set b" "g (fst e) = g k" using assms by (auto simp: list_ex_iff)
  have "set (bucketPut eq b k v) = (\<lambda>e. if g k = g (fst e) then (fst e, v) else e) ` set b"
    using True assms by (auto simp: bucketPut_def intro!: image_cong)
  then have "(\<exists>e\<in>set (bucketPut eq b k v). g (fst e) = c \<and> snd e = w) \<longleftrightarrow>
      (\<exists>e\<in>set b. g (fst (if g k = g (fst e) then (fst e, v) else e)) = c \<and> snd (if g k = g (fst e) then (fst e, v) else e) = w)"
    by (simp only:) blast
  also have "\<dots> \<longleftrightarrow> (\<exists>e\<in>set b. g (fst e) = c \<and> (if g k = g (fst e) then v else snd e) = w)"
    by (rule bex_cong) auto
  also have "\<dots> \<longleftrightarrow> (if c = g k then w = v else \<exists>e\<in>set b. g (fst e) = c \<and> snd e = w)"
  proof (cases "c = g k")
    case True
    then show ?thesis using e by (auto intro!: bexI [of _ e])
  qed auto
  finally show ?thesis .
next
  case False
  then have "\<forall>e\<in>set b. g (fst e) \<noteq> g k" using assms by (auto simp: list_ex_iff)
  moreover have "bucketPut eq b k v = b @ [(k, v)]" using False by (simp add: bucketPut_def)
  ultimately show ?thesis by auto
qed

lemma bucket_eq:
  "pointers same \<Longrightarrow> okBucket h s b \<Longrightarrow> wellKeyed k \<Longrightarrow> e \<in> set b \<Longrightarrow> keyEquals same k (fst e) \<longleftrightarrow> canon k = canon (fst e)"
  using keyEquals_canon [of same k "fst e"] by (simp add: okBucket_def)

lemma bucket_get:
  assumes "pointers same" "okBucket h s b" "wellKeyed k"
  shows "hashedGet (keyEquals same) b k = Some v \<longleftrightarrow> (\<exists>e\<in>set b. canon (fst e) = canon k \<and> snd e = v)"
proof -
  have "hashedGet (keyEquals same) b k = Some v \<longleftrightarrow> (\<exists>k'. (k', v) \<in> set b \<and> canon k' = canon k)"
    using assms(2) by (intro hashedGet_iff bucket_eq [OF assms]) (simp_all add: okBucket_def)
  then show ?thesis by force
qed

lemma okSlots_update:
  "okSlots h T \<Longrightarrow> okBucket h s b \<Longrightarrow> b \<noteq> [] \<Longrightarrow> okSlots h (AList.update s b T)"
  by (auto simp: okSlots_iff distinct_update update_conv' split: if_splits)

lemma okSlots_delete: "okSlots h T \<Longrightarrow> okSlots h (AList.delete s T)"
  by (auto simp: okSlots_iff distinct_delete delete_conv' split: if_splits)

lemma okBucket_put:
  assumes "pointers same" "okBucket h s b" "wellKeyed k" "slotOf h k = s"
  shows "okBucket h s (bucketPut (keyEquals same) b k v)"
proof -
  note eq = bucket_eq [OF assms(1-3)]
  have "map (\<lambda>e. canon (fst e)) (bucketPut (keyEquals same) b k v) =
      (if canon k \<in> (\<lambda>e. canon (fst e)) ` set b then map (\<lambda>e. canon (fst e)) b else map (\<lambda>e. canon (fst e)) b @ [canon k])"
    by (rule bucketPut_keys) (rule eq)
  then have "distinct (map (\<lambda>e. canon (fst e)) (bucketPut (keyEquals same) b k v))"
    using assms(2) by (simp add: okBucket_def)
  moreover have "wellKeyed (fst e) \<and> slotOf h (fst e) = s" if "e \<in> set (bucketPut (keyEquals same) b k v)" for e
    using that assms by (auto simp: bucketPut_def okBucket_def split: if_splits)
  ultimately show ?thesis by (simp add: okBucket_def)
qed

lemma okBucket_filter: "okBucket h s b \<Longrightarrow> okBucket h s (filter P b)"
  by (simp add: okBucket_def distinct_map_filter)

lemma option_eqI: "(\<And>w. a = Some w \<longleftrightarrow> b = Some w) \<Longrightarrow> a = b"
  by (cases a; cases b) auto

lemma find_put:
  assumes "pointers same" "okBucket h s b" "wellKeyed k" "slotOf h k = s" "wellKeyed k'"
  shows "hashedGet (keyEquals same) (bucketPut (keyEquals same) b k v) k' =
    (if canon k' = canon k then Some v else hashedGet (keyEquals same) b k')"
proof (rule option_eqI)
  fix w
  have "(\<exists>e\<in>set (bucketPut (keyEquals same) b k v). canon (fst e) = canon k' \<and> snd e = w) \<longleftrightarrow>
      (if canon k' = canon k then w = v else \<exists>e\<in>set b. canon (fst e) = canon k' \<and> snd e = w)"
    by (rule bucketPut_set) (rule bucket_eq [OF assms(1-3)])
  then show "hashedGet (keyEquals same) (bucketPut (keyEquals same) b k v) k' = Some w \<longleftrightarrow>
      (if canon k' = canon k then Some v else hashedGet (keyEquals same) b k') = Some w"
    unfolding bucket_get [OF assms(1) okBucket_put [OF assms(1-4)] assms(5)] using bucket_get [OF assms(1,2,5), of w] by auto
qed

lemma find_remove:
  assumes "pointers same" "okBucket h s b" "wellKeyed k" "wellKeyed k'"
  shows "hashedGet (keyEquals same) (filter (\<lambda>e. \<not> keyEquals same k (fst e)) b) k' =
    (if canon k' = canon k then None else hashedGet (keyEquals same) b k')"
proof (rule option_eqI)
  fix w
  have "(\<exists>e\<in>set (filter (\<lambda>e. \<not> keyEquals same k (fst e)) b). canon (fst e) = canon k' \<and> snd e = w) \<longleftrightarrow>
      canon k' \<noteq> canon k \<and> (\<exists>e\<in>set b. canon (fst e) = canon k' \<and> snd e = w)"
    using bucket_eq [OF assms(1-3)] by (metis (no_types, lifting) mem_Collect_eq set_filter)
  then show "hashedGet (keyEquals same) (filter (\<lambda>e. \<not> keyEquals same k (fst e)) b) k' = Some w \<longleftrightarrow>
      (if canon k' = canon k then None else hashedGet (keyEquals same) b k') = Some w"
    unfolding bucket_get [OF assms(1) okBucket_filter [OF assms(2)] assms(4)] using bucket_get [OF assms(1,2,4), of w] by auto
qed

lemma find_empty [simp]: "hashedGet eq [] k = None"
  by (simp add: hashedGet_def)

lemma bucket_find:
  assumes "pointers same" "okSlots h T" "wellKeyed k"
  shows "hashedGet (keyEquals same) (bucketAt T (slotOf h k)) k = Some v \<longleftrightarrow>
    (\<exists>k'. (k', v) \<in> set (concat (map snd T)) \<and> canon k' = canon k)"
proof -
  have slot: "e \<in> set (bucketAt T s) \<Longrightarrow> canon (fst e) = canon k \<Longrightarrow> s = slotOf h k" for e s
    using bucketAt_ok [OF assms(2), of s] slotOf_canon [OF _ assms(3), of "fst e" h] by (auto simp: okBucket_def)
  have "hashedGet (keyEquals same) (bucketAt T (slotOf h k)) k = Some v \<longleftrightarrow>
      (\<exists>e\<in>set (bucketAt T (slotOf h k)). canon (fst e) = canon k \<and> snd e = v)"
    by (rule bucket_get [OF assms(1) bucketAt_ok [OF assms(2)] assms(3)])
  also have "\<dots> \<longleftrightarrow> (\<exists>e\<in>set (concat (map snd T)). canon (fst e) = canon k \<and> snd e = v)"
    unfolding Bex_def each_bucket [OF assms(2)] using slot by blast
  also have "\<dots> \<longleftrightarrow> (\<exists>k'. (k', v) \<in> set (concat (map snd T)) \<and> canon k' = canon k)" by (metis fst_conv prod.collapse snd_conv)
  finally show ?thesis .
qed

lemma distinct_slots: "okSlots h T \<Longrightarrow> distinct (map (\<lambda>e. canon (fst e)) (concat (map snd T)))"
proof (induction T)
  case (Cons sb T)
  obtain s b where sb: "sb = (s, b)" by (cases sb)
  have T: "okSlots h T" "okBucket h s b" "s \<notin> fst ` set T" using Cons.prems by (auto simp: okSlots_def sb)
  have "canon (fst e) \<noteq> canon (fst e')" if e: "e \<in> set b" "e' \<in> set (concat (map snd T))" for e e'
  proof
    assume c: "canon (fst e) = canon (fst e')"
    obtain s' b' where b': "(s', b') \<in> set T" "e' \<in> set b'" using e(2) by auto
    then have "okBucket h s' b'" using T(1) by (auto simp: okSlots_def)
    then have "s = s'" using slotOf_canon [OF _ _ c, of h] T(2) e(1) b'(2) by (auto simp: okBucket_def)
    then show False using T(3) b'(1) by force
  qed
  then have "(\<lambda>e. canon (fst e)) ` set b \<inter> (\<lambda>e. canon (fst e)) ` set (concat (map snd T)) = {}" by blast
  then show ?case using Cons.IH [OF T(1)] T(2) by (simp add: sb okBucket_def)
qed simp

text \<open>The pointers of a run of the program.\<close>

definition sharing :: "(kval \<Rightarrow> kval \<Rightarrow> bool) \<Rightarrow> kval \<Rightarrow> kval \<Rightarrow> bool" where
  "sharing same = (if pointers same then same else noSharing)"

lemma pointers_sharing: "pointers (sharing same)"
  by (simp add: sharing_def pointers_noSharing)

interpretation protoMap: hashed_collection wellKeyed canon "slotted (sharing same) h" "okSlots h" for same h
proof (unfold_locales, goal_cases)
  case (3 m k)
  then show ?case
    by (auto simp: slotted_def Let_def intro!: okSlots_delete okSlots_update okBucket_filter bucketAt_ok)
next
  case (5 m k k' v)
  then show ?case using slotOf_canon [of k' k h]
    by (auto simp: slotted_def bucketAt_update find_put [OF pointers_sharing bucketAt_ok])
next
  case (6 m k k')
  then show ?case using slotOf_canon [of k' k h] find_remove [OF pointers_sharing bucketAt_ok, of h m k k' same "slotOf h k"]
    by (auto simp: slotted_def Let_def bucketAt_update bucketAt_delete)
next
  case (7 m e)
  then show ?case by (force simp: slotted_def okSlots_def okBucket_def)
next
  case (8 m)
  then show ?case using distinct_slots by (simp add: slotted_def)
next
  case (9 m k v)
  then show ?case using bucket_find [OF pointers_sharing] by (simp add: slotted_def)
next
  case (10 m)
  then show ?case by (cases m) (auto simp: slotted_def okSlots_def)
qed (simp_all add: slotted_def okSlots_def [of h "[]"] bucketAt_def [of "[]"] okSlots_update okBucket_put [OF pointers_sharing bucketAt_ok])

section \<open>Sets\<close>

definition absent :: "('a, 'm) helper \<Rightarrow> 'm option \<Rightarrow> 'a list \<Rightarrow> 'a list" where
  "absent H base items = concat (map (\<lambda>e. if mapGet H base e \<noteq> None then [] else [e, e]) items)"

lemma absent_pairs: "pairsOf (absent H base items) = map (\<lambda>e. (e, e)) (filter (\<lambda>e. mapGet H base e = None) items)"
  "length (absent H base items) mod 2 = 0"
  by (induction items) (auto simp: absent_def)

lemma fold_absent:
  assumes "\<And>e. e \<in> set es \<Longrightarrow> m (rep e) = None"
  shows "dom (fold (\<lambda>(k, v) m. m(rep k \<mapsto> v)) (map (\<lambda>e. (e, e)) es) m) = dom m \<union> rep ` set es \<and>
    (\<forall>c\<in>dom m. fold (\<lambda>(k, v) m. m(rep k \<mapsto> v)) (map (\<lambda>e. (e, e)) es) m c = m c)"
  using assms
proof (induction es rule: rev_induct)
  case (snoc e es)
  define f where "f = fold (\<lambda>(k, v) m. m(rep k \<mapsto> v)) (map (\<lambda>e. (e, e)) es) m"
  have IH: "dom f = dom m \<union> rep ` set es" "\<forall>c\<in>dom m. f c = m c" "m (rep e) = None"
    using snoc unfolding f_def by (simp_all del: fun_upd_apply)
  have "fold (\<lambda>(k, v) m. m(rep k \<mapsto> v)) (map (\<lambda>e. (e, e)) (es @ [e])) m = f(rep e \<mapsto> e)"
    by (simp add: f_def del: fun_upd_apply)
  moreover have "dom (f(rep e \<mapsto> e)) = dom m \<union> rep ` set (es @ [e])" "\<forall>c\<in>dom m. (f(rep e \<mapsto> e)) c = m c"
    using IH by auto
  ultimately show ?case by (simp only:)
qed simp

section \<open>Properties\<close>

text \<open>C8. The runtime's map is the map from what its keys stand for to its values: looking a key up, counting,
  testing for emptiness, associating pairs in order and dissociating are the operations of that map, whatever
  collides in the 54 bits of the hash, and they keep the representation well formed.\<close>

theorem map_refinement:
  assumes "pointers same" "okMap (okSlots h) m" "wellKeyed k" "length kv mod 2 = 0" "\<forall>e\<in>set (pairsOf kv). wellKeyed (fst e)"
  defines "H \<equiv> slotted same h"
  shows "mapGet H m k = absMap H canon m (canon k) \<and>
    mapCount H m = card (dom (absMap H canon m)) \<and>
    (mapIsEmpty H m \<longleftrightarrow> absMap H canon m = Map.empty) \<and>
    (\<exists>m'. mapAssocPairs H m kv = Inr m' \<and> okSlots h m' \<and> absMap H canon (Some m') = assocAll canon kv (absMap H canon m)) \<and>
    okMap (okSlots h) (mapDissoc H m k) \<and> absMap H canon (mapDissoc H m k) = (absMap H canon m)(canon k := None)"
proof -
  have H: "H = slotted (sharing same) h" using assms(1) by (simp add: H_def sharing_def)
  show ?thesis
    unfolding H
    by (intro conjI protoMap.get_refines protoMap.count_refines protoMap.empty_refines protoMap.assoc_refines
        protoMap.dissoc_refines(1) [THEN conjunct1] protoMap.dissoc_refines(1) [THEN conjunct2]) (use assms(2-5) in blast)+
qed

theorem map_refinement_witness:
  "\<forall>h. \<exists>m'. mapAssocPairs (slotted noSharing h) None [KList [KSmall 1], KWord 5, KVector [KSmall 1], KWord 6] = Inr m' \<and>
     absMap (slotted noSharing h) canon (Some m') = [CSeq [CSmall 1] \<mapsto> KWord 6]"
proof
  fix h
  from map_refinement [OF pointers_noSharing, of h None "KWord 0" "[KList [KSmall 1], KWord 5, KVector [KSmall 1], KWord 6]"]
  show "\<exists>m'. mapAssocPairs (slotted noSharing h) None [KList [KSmall 1], KWord 5, KVector [KSmall 1], KWord 6] = Inr m' \<and>
     absMap (slotted noSharing h) canon (Some m') = [CSeq [CSmall 1] \<mapsto> KWord 6]"
    by (auto simp: okMap_def assocAll_def absMap_def mapForEach_def)
qed

text \<open>Two different maps are equal exactly when they hold the same keys and their values are pairwise equal,
  in whatever order and slots either stores them.\<close>

theorem mapEquals_iff:
  assumes "pointers same" "okMap (okSlots h) a" "okMap (okSlots h) b"
  defines "H \<equiv> slotted same h"
  shows "mapEquals H False valueEq a b \<longleftrightarrow>
    dom (absMap H canon a) = dom (absMap H canon b) \<and>
    (\<forall>c v w. absMap H canon a c = Some v \<longrightarrow> absMap H canon b c = Some w \<longrightarrow> valueEq v w)"
proof -
  have H: "H = slotted (sharing same) h" using assms(1) by (simp add: H_def sharing_def)
  show ?thesis unfolding H by (rule protoMap.equals_refines [OF assms(2,3)])
qed

theorem mapEquals_iff_witness:
  "\<forall>h. \<not> mapEquals (slotted noSharing h) False (=) None (Some [(slotOf h (KSmall 1), [(KSmall 1, KWord 2)])])"
proof
  fix h
  have "okMap (okSlots h) (Some [(slotOf h (KSmall 1), [(KSmall 1, KWord 2)])])"
    by (simp add: okMap_def okSlots_def okBucket_def)
  from mapEquals_iff [OF pointers_noSharing _ this, of None "(=)"]
  show "\<not> mapEquals (slotted noSharing h) False (=) None (Some [(slotOf h (KSmall 1), [(KSmall 1, KWord 2)])])"
    by (simp add: okMap_def absMap_def mapForEach_def slotted_def)
qed

text \<open>Conjoining elements gives the union, and an element that was in the set keeps its stored object.\<close>

theorem setConj_spec:
  assumes "pointers same" "okMap (okSlots h) s" "\<forall>e\<in>set items. wellKeyed e"
  defines "H \<equiv> slotted same h"
  shows "\<exists>s'. setConj H s items = Inr s' \<and> okSlots h s' \<and>
    dom (absMap H canon (Some s')) = dom (absMap H canon s) \<union> canon ` set items \<and>
    (\<forall>c\<in>dom (absMap H canon s). absMap H canon (Some s') c = absMap H canon s c)"
proof -
  have H: "H = slotted (sharing same) h" using assms(1) by (simp add: H_def sharing_def)
  have get: "mapGet H s e = absMap H canon s (canon e)" if "e \<in> set items" for e
    unfolding H by (rule protoMap.get_refines [OF assms(2)]) (use assms(3) that in blast)
  let ?new = "filter (\<lambda>e. mapGet H s e = None) items"
  have none: "absMap H canon s (canon e) = None" if "e \<in> set ?new" for e using that get [of e] by simp
  have all: "dom (absMap H canon s) \<union> canon ` set ?new = dom (absMap H canon s) \<union> canon ` set items"
    using get by (auto simp: image_iff)
  have spec: "dom (assocAll canon (absent H s items) (absMap H canon s)) = dom (absMap H canon s) \<union> canon ` set items \<and>
      (\<forall>c\<in>dom (absMap H canon s). assocAll canon (absent H s items) (absMap H canon s) c = absMap H canon s c)"
    unfolding assocAll_def absent_pairs all [symmetric] by (rule fold_absent) (rule none)
  obtain s' where s': "mapAssocPairs H s (absent H s items) = Inr s'" "okSlots h s'"
      "absMap H canon (Some s') = assocAll canon (absent H s items) (absMap H canon s)"
  proof -
    have "\<exists>s'. mapAssocPairs H s (absent H s items) = Inr s' \<and> okSlots h s' \<and>
        absMap H canon (Some s') = assocAll canon (absent H s items) (absMap H canon s)"
      unfolding H by (rule protoMap.assoc_refines [OF assms(2)]) (use assms(3) absent_pairs in \<open>auto simp: absent_pairs\<close>)
    then show thesis using that by blast
  qed
  have "setConj H s items = (case s of Some t \<Rightarrow> if absent H s items = [] then Inr t else mapAssocPairs H s (absent H s items)
      | None \<Rightarrow> mapAssocPairs H s (absent H s items))"
    unfolding setConj_def absent_def Let_def ..
  then have "setConj H s items = Inr s'" using s'(1) by (cases s) (auto simp: mapAssocPairs_def)
  then show ?thesis using s'(2) spec unfolding s'(3) [symmetric] by blast
qed

theorem setConj_spec_witness:
  "\<forall>h. \<exists>s'. setConj (slotted noSharing h) None [KSmall 1, KSmall 2, KSmall 1] = Inr s' \<and>
     dom (absMap (slotted noSharing h) canon (Some s')) = {CSmall 1, CSmall 2}"
proof
  fix h
  from setConj_spec [OF pointers_noSharing, of h None "[KSmall 1, KSmall 2, KSmall 1]"]
  show "\<exists>s'. setConj (slotted noSharing h) None [KSmall 1, KSmall 2, KSmall 1] = Inr s' \<and>
     dom (absMap (slotted noSharing h) canon (Some s')) = {CSmall 1, CSmall 2}"
    by (auto simp: okMap_def absMap_def mapForEach_def)
qed

text \<open>Of two equal elements conjoined at once, such as a list and a vector, the set stores the first but
  answers the second when it is asked for either.\<close>

theorem setConj_two_faces:
  fixes h :: hashes
  assumes "pointers same" "wellKeyed a" "wellKeyed b" "canon a = canon b"
  defines "H \<equiv> slotted same h"
  shows "\<exists>s. setConj H None [a, b] = Inr s \<and> setForEach H (Some s) = [a] \<and> setGet H (Some s) a = Some b"
proof -
  have eq: "keyEquals same b a" "keyEquals same a a" using keyEquals_canon [OF assms(1)] assms(2-4) by simp_all
  have slot: "slotOf h b = slotOf h a" using slotOf_canon [of b a h] assms(2-4) by simp
  show ?thesis
    using eq slot
    by (auto simp: setConj_def H_def mapGet_def mapAssocPairs_def slotted_def bucketAt_def bucketPut_def update_conv'
        setForEach_def mapForEach_def setGet_def hashedGet_def)
qed

theorem setConj_two_faces_witness:
  "\<forall>h. \<exists>s. setConj (slotted noSharing h) None [KList [KSmall 1], KVector [KSmall 1]] = Inr s \<and>
     setForEach (slotted noSharing h) (Some s) = [KList [KSmall 1]] \<and>
     setGet (slotted noSharing h) (Some s) (KList [KSmall 1]) = Some (KVector [KSmall 1])"
  by (intro allI setConj_two_faces [OF pointers_noSharing]) simp_all

end
