(* ===== verification/Reader.thy ===== *)
theory Reader
  imports Lexer
begin

text \<open>
  The reader (src/reader/Reader.cpp): from tokens to forms, with the reader macros, \<^verbatim>\<open>#_\<close>, the function
  literals \<^verbatim>\<open>#(...)\<close> and the expansion of syntax-quote.

  The state is the lexer, the counter of generated symbols, the function literal being read, the
  tables of the syntax-quotes being expanded and what is recorded for the debugger. A step answers a value or an
  error, and the state either way. A map or a set is the list of its entries or elements in source order, as
  \<^verbatim>\<open>SourceInfo\<close> keeps it; a named value is its spelling. Parameters: the equality of keys, the compiler of patterns, the
  resolver of symbols, the walk order of a map or set whose source order is not known, and the nesting
  the native stack allows, the argument \<open>d\<close> of what recurses. The contexts and builders that root forms are left out.
\<close>

section \<open>Forms and the state\<close>

datatype form =
  FNil | FTrue | FFalse | FInt int | FFloat cdouble | FStr string | FNamed string | FPattern string
| FList "form list" | FVec "form list" | FMap "(form \<times> form) list" | FSet "form list"

datatype readError = ReaderError string nat nat | ReadStackOverflow | ReadDiverged

record fnLiteral =
  params :: "string option list"
  restArg :: "string option"

record reader =
  lx :: lexer
  gensymId :: nat
  fnLit :: "fnLiteral option"
  gensyms :: "(string \<times> string) list list"
  noPositions :: nat
  formPos :: "(form \<times> nat \<times> nat) list"
  formLine :: nat
  formColumn :: nat

record readerEnv =
  resolver :: "(string \<Rightarrow> string) option"
  edn :: bool
  hasInfo :: bool
  recordPositions :: bool
  keyEq :: "form \<Rightarrow> form \<Rightarrow> bool"
  compilePattern :: "string \<Rightarrow> string option"
  walkMap :: "(form \<times> form) list \<Rightarrow> (form \<times> form) list"
  walkSet :: "form list \<Rightarrow> form list"
  stackMessage :: string

type_synonym 'a rd = "reader \<Rightarrow> (readError + 'a) \<times> reader"

definition retR :: "'a \<Rightarrow> 'a rd" where
  "retR a st = (Inr a, st)"

definition throwR :: "readError \<Rightarrow> 'a rd" where
  "throwR e st = (Inl e, st)"

definition bindR :: "'a rd \<Rightarrow> ('a \<Rightarrow> 'b rd) \<Rightarrow> 'b rd" where
  "bindR m f st = (case m st of (Inl e, st1) \<Rightarrow> (Inl e, st1) | (Inr a, st1) \<Rightarrow> f a st1)"

text \<open>A step whose cleanup runs on every path, as a destructor does.\<close>

definition finallyR :: "'a rd \<Rightarrow> (reader \<Rightarrow> reader) \<Rightarrow> 'a rd" where
  "finallyR m cleanup st = (let (r, st1) = m st in (r, cleanup st1))"

definition modifyR :: "(reader \<Rightarrow> reader) \<Rightarrow> unit rd" where
  "modifyR f st = (Inr (), f st)"

definition getR :: "(reader \<Rightarrow> 'a) \<Rightarrow> 'a rd" where
  "getR f st = (Inr (f st), st)"

fun mapR :: "('a \<Rightarrow> 'b rd) \<Rightarrow> 'a list \<Rightarrow> 'b list rd" where
  "mapR f [] = retR []"
| "mapR f (x # xs) = bindR (f x) (\<lambda>y. bindR (mapR f xs) (\<lambda>ys. retR (y # ys)))"

definition nextToken :: "Token rd" where
  "nextToken st = (let (t, l) = nextTok (lx st) in (Inr t, st\<lparr>lx := l\<rparr>))"

definition readerErrorAt :: "string \<Rightarrow> Token \<Rightarrow> 'a rd" where
  "readerErrorAt msg tok = throwR (ReaderError msg (tline tok) (tcolumn tok))"

text \<open>\<^verbatim>\<open>nextGensymId\<close> (src/runtime/Named.cpp).\<close>

definition nextGensymId :: "nat rd" where
  "nextGensymId st = (Inr (gensymId st + 1), st\<lparr>gensymId := gensymId st + 1\<rparr>)"

section \<open>Maps and sets\<close>

definition describeKey :: "form \<Rightarrow> string" where
  "describeKey key =
     (case key of
        FNil \<Rightarrow> ''nil'' | FTrue \<Rightarrow> ''true'' | FFalse \<Rightarrow> ''false''
      | FNamed s \<Rightarrow> s
      | FStr s \<Rightarrow> [CHR 0x22] @ s @ [CHR 0x22]
      | FInt i \<Rightarrow> int_dec i
      | _ \<Rightarrow> ''a repeated form'')"

text \<open>\<^verbatim>\<open>mapAssocPairs\<close> and \<^verbatim>\<open>setConj\<close> on the empty map and set (src/runtime/MapOps.cpp, src/runtime/SetOps.cpp).\<close>

fun assocForm :: "(form \<Rightarrow> form \<Rightarrow> bool) \<Rightarrow> form \<times> form \<Rightarrow> (form \<times> form) list \<Rightarrow> (form \<times> form) list" where
  "assocForm eq (k, v) [] = [(k, v)]"
| "assocForm eq (k, v) ((k', v') # m) = (if eq k k' then (k', v) # m else (k', v') # assocForm eq (k, v) m)"

fun entriesOf :: "form list \<Rightarrow> (form \<times> form) list" where
  "entriesOf (k # v # r) = (k, v) # entriesOf r"
| "entriesOf r = []"

definition assocForms :: "(form \<Rightarrow> form \<Rightarrow> bool) \<Rightarrow> (form \<times> form) list \<Rightarrow> (form \<times> form) list" where
  "assocForms eq kvs = fold (assocForm eq) kvs []"

text \<open>The first key that equals an earlier one.\<close>

fun repeated :: "(form \<Rightarrow> form \<Rightarrow> bool) \<Rightarrow> form list \<Rightarrow> form list \<Rightarrow> form option" where
  "repeated eq seen [] = None"
| "repeated eq seen (k # ks) = (if list_ex (\<lambda>j. eq j k) seen then Some k else repeated eq (seen @ [k]) ks)"

definition mapForm :: "readerEnv \<Rightarrow> Token \<Rightarrow> form list \<Rightarrow> form rd" where
  "mapForm E tok forms =
     (if length forms mod 2 \<noteq> 0 then readerErrorAt ''Map literal must contain an even number of forms'' tok
      else
        let m = assocForms (keyEq E) (entriesOf forms) in
        case (if length m \<noteq> length forms div 2 then repeated (keyEq E) [] (map fst (entriesOf forms)) else None) of
          Some k \<Rightarrow> readerErrorAt (''Duplicate key: '' @ describeKey k) tok
        | None \<Rightarrow> retR (FMap m))"

definition setForm :: "readerEnv \<Rightarrow> Token \<Rightarrow> form list \<Rightarrow> form rd" where
  "setForm E tok items =
     (let m = assocForms (keyEq E) (map (\<lambda>e. (e, e)) items) in
      case (if length m \<noteq> length items then repeated (keyEq E) [] items else None) of
        Some k \<Rightarrow> readerErrorAt (''Duplicate key: '' @ describeKey k) tok
      | None \<Rightarrow> retR (FSet (map fst m)))"

section \<open>Function literals\<close>

text \<open>The number after \<^verbatim>\<open>%\<close>: a message, or the index, or none when the symbol is no argument.\<close>

fun argDigits :: "nat \<Rightarrow> string \<Rightarrow> string + nat option" where
  "argDigits n [] = Inr (Some n)"
| "argDigits n (c # cs) =
     (if \<not> isdigit c then Inr None
      else let n' = n * 10 + digit_value c in
        if n' > 20 then Inl ''Arg literal must be %, %& or %integer (at most %20)'' else argDigits n' cs)"

definition argIndex :: "string \<Rightarrow> string + nat option" where
  "argIndex text =
     (if length text > 1 then
        (case argDigits 0 (tl text) of
           Inr (Some 0) \<Rightarrow> Inl ''Arg literal must be %, %& or %integer''
         | r \<Rightarrow> r)
      else Inr (Some 1))"

definition gen :: "string \<Rightarrow> string rd" where
  "gen stem = bindR nextGensymId (\<lambda>n. retR (stem @ ''__'' @ dec n @ ''#''))"

definition setLit :: "fnLiteral \<Rightarrow> unit rd" where
  "setLit lit = modifyR (\<lambda>st. st\<lparr>fnLit := Some lit\<rparr>)"

definition resizedTo :: "nat \<Rightarrow> 'a option list \<Rightarrow> 'a option list" where
  "resizedTo n ps = ps @ replicate (n - length ps) None"

definition fnLiteralArg :: "fnLiteral \<Rightarrow> string \<Rightarrow> string option rd" where
  "fnLiteralArg lit text =
     (if text = ''%&'' then
        (case restArg lit of
           Some r \<Rightarrow> retR (Some r)
         | None \<Rightarrow> bindR (gen ''rest'') (\<lambda>r. bindR (setLit (lit\<lparr>restArg := Some r\<rparr>)) (\<lambda>_. retR (Some r))))
      else
        case argIndex text of
          Inl msg \<Rightarrow> throwR (ReaderError msg 0 0)
        | Inr None \<Rightarrow> retR None
        | Inr (Some n) \<Rightarrow>
            let ps = resizedTo n (params lit) in
            (case ps ! (n - 1) of
               Some p \<Rightarrow> bindR (setLit (lit\<lparr>params := ps\<rparr>)) (\<lambda>_. retR (Some p))
             | None \<Rightarrow>
                 bindR (gen (''p'' @ dec n)) (\<lambda>p.
                 bindR (setLit (lit\<lparr>params := ps[n - 1 := Some p]\<rparr>)) (\<lambda>_. retR (Some p)))))"

text \<open>The parameters of the finished literal, those not used generated now.\<close>

fun fillParams :: "nat \<Rightarrow> string option list \<Rightarrow> form list rd" where
  "fillParams i [] = retR []"
| "fillParams i (p # ps) =
     bindR (case p of Some s \<Rightarrow> retR s | None \<Rightarrow> gen (''p'' @ dec (i + 1))) (\<lambda>s.
     bindR (fillParams (i + 1) ps) (\<lambda>fs. retR (FNamed s # fs)))"

section \<open>Syntax-quote\<close>

definition symQuote :: string where "symQuote = ''quote''"
definition symUnquote :: string where "symUnquote = ''clojure.core/unquote''"
definition symSplice :: string where "symSplice = ''clojure.core/unquote-splicing''"
definition symList :: string where "symList = ''clojure.core/list''"
definition symConcat :: string where "symConcat = ''clojure.core/concat''"
definition symSeq :: string where "symSeq = ''clojure.core/seq''"
definition symApply :: string where "symApply = ''clojure.core/apply''"

lemmas sym_defs = symQuote_def symUnquote_def symSplice_def symList_def symConcat_def symSeq_def symApply_def

text \<open>The symbol a symbol of a template stands for.\<close>

definition templateSymbol :: "readerEnv \<Rightarrow> string \<Rightarrow> string rd" where
  "templateSymbol E spelling =
     (if length spelling > 1 \<and> last spelling = CHR ''#'' \<and> CHR ''/'' \<notin> set spelling then
        bindR (getR (\<lambda>st. map_of (hd (gensyms st)) spelling)) (\<lambda>found.
          case found of
            Some s \<Rightarrow> retR s
          | None \<Rightarrow>
              bindR nextGensymId (\<lambda>n.
                let fresh = butlast spelling @ ''__'' @ dec n @ ''__auto__'' in
                bindR (modifyR (\<lambda>st. st\<lparr>gensyms := ((spelling, fresh) # hd (gensyms st)) # tl (gensyms st)\<rparr>)) (\<lambda>_.
                  retR fresh)))
      else retR (case resolver E of Some r \<Rightarrow> r spelling | None \<Rightarrow> spelling))"

text \<open>The items to splice together and the function applied to them, for what has items.\<close>

definition templateItems :: "readerEnv \<Rightarrow> form \<Rightarrow> (string option \<times> form list) option" where
  "templateItems E f =
     (case f of
        FList xs \<Rightarrow> Some (None, xs)
      | FVec xs \<Rightarrow> Some (Some ''clojure.core/vector'', xs)
      | FMap m \<Rightarrow> Some (Some ''clojure.core/hash-map'',
          concat (map (\<lambda>(k, v). [k, v]) (if hasInfo E \<and> m \<noteq> [] then m else walkMap E m)))
      | FSet xs \<Rightarrow> Some (Some ''clojure.core/hash-set'', walkSet E xs)
      | _ \<Rightarrow> None)"

definition assemble :: "string option \<Rightarrow> form list \<Rightarrow> form" where
  "assemble builder pieces =
     (let s = FList [FNamed symSeq, FList (FNamed symConcat # pieces)] in
      case builder of None \<Rightarrow> s | Some b \<Rightarrow> FList [FNamed symApply, FNamed b, s])"

text \<open>One piece of the concatenation; \<open>sq\<close> expands an item that is itself a template.\<close>

definition templatePiece :: "(form \<Rightarrow> form rd) \<Rightarrow> form \<Rightarrow> form rd" where
  "templatePiece sq item =
     (case item of
        FList [h, x] \<Rightarrow>
          if h = FNamed symSplice then retR x
          else if h = FNamed symUnquote then retR (FList [FNamed symList, x])
          else bindR (sq item) (\<lambda>q. retR (FList [FNamed symList, q]))
      | _ \<Rightarrow> bindR (sq item) (\<lambda>q. retR (FList [FNamed symList, q])))"

fun syntaxQuote :: "readerEnv \<Rightarrow> nat \<Rightarrow> Token \<Rightarrow> form \<Rightarrow> form rd" where
  "syntaxQuote E 0 tok f = throwR ReadStackOverflow"
| "syntaxQuote E (Suc d) tok f =
     (if f \<in> {FNil, FTrue, FFalse} \<or> (case f of FStr s \<Rightarrow> True | FInt i \<Rightarrow> True | FFloat x \<Rightarrow> True | _ \<Rightarrow> False) then retR f
      else
        case f of
          FNamed spelling \<Rightarrow>
            if spelling \<noteq> [] \<and> hd spelling = CHR '':'' then retR f
            else bindR (templateSymbol E spelling) (\<lambda>s. retR (FList [FNamed symQuote, FNamed s]))
        | _ \<Rightarrow>
            (case templateItems E f of
               None \<Rightarrow> retR (FList [FNamed symQuote, f])
             | Some (builder, items) \<Rightarrow>
                 if f = FList [] then retR (FList [FNamed symList])
                 else if builder = None \<and> hd items = FNamed symUnquote then
                   (if length items \<noteq> 2 then readerErrorAt ''unquote (~) takes exactly one form'' tok
                    else retR (items ! 1))
                 else if builder = None \<and> hd items = FNamed symSplice then readerErrorAt ''splice (~@) not in list'' tok
                 else
                   bindR (mapR (templatePiece (syntaxQuote E d tok)) items) (\<lambda>pieces. retR (assemble builder pieces))))"

section \<open>Reading\<close>

text \<open>\<open>rd\<close> reads a form from its first token, one level of nesting deeper.\<close>

definition readNextForm :: "(Token \<Rightarrow> form rd) \<Rightarrow> Token \<Rightarrow> form rd" where
  "readNextForm rd macroTok =
     bindR nextToken (\<lambda>next.
       if kind next = TkEndOfFile
       then readerErrorAt (''EOF while reading: '' @ lexeme macroTok @ '' must be followed by a form'') macroTok
       else rd next)"

definition readUnpositioned :: "(Token \<Rightarrow> form rd) \<Rightarrow> Token \<Rightarrow> form rd" where
  "readUnpositioned rd tok =
     bindR (modifyR (\<lambda>st. st\<lparr>noPositions := noPositions st + 1\<rparr>)) (\<lambda>_.
       finallyR (readNextForm rd tok) (\<lambda>st. st\<lparr>noPositions := noPositions st - 1\<rparr>))"

definition discardNextForm :: "(Token \<Rightarrow> form rd) \<Rightarrow> Token \<Rightarrow> unit rd" where
  "discardNextForm rd tok = bindR (readUnpositioned rd tok) (\<lambda>_. retR ())"

definition recordPosition :: "readerEnv \<Rightarrow> form \<Rightarrow> nat \<Rightarrow> nat \<Rightarrow> form rd" where
  "recordPosition E f ln col =
     bindR (modifyR (\<lambda>st. if hasInfo E \<and> recordPositions E \<and> noPositions st = 0
                          then st\<lparr>formPos := formPos st @ [(f, ln, col)]\<rparr> else st)) (\<lambda>_. retR f)"

definition emDash :: string where
  "emDash = [chr 0xE2, chr 0x80, chr 0x94]"

definition missing :: "string \<Rightarrow> string \<Rightarrow> string" where
  "missing what closer = ''unterminated '' @ what @ '' '' @ emDash @ '' missing '' @ [CHR 0x60] @ closer @ [CHR 0x60]"

definition unterminatedAt :: "TokenKind \<Rightarrow> string" where
  "unterminatedAt close =
     (if close = TkRBracket then missing ''vector'' '']'' else if close = TkRBrace then missing ''map'' ''}''
      else missing ''list'' '')'')"

text \<open>The loop of \<^verbatim>\<open>readList\<close>, which runs once per token.\<close>

fun listLoop :: "nat \<Rightarrow> (Token \<Rightarrow> form rd) \<Rightarrow> TokenKind \<Rightarrow> nat \<times> nat \<Rightarrow> string \<Rightarrow> form list \<Rightarrow> form list rd" where
  "listLoop 0 rd close open unterminated items = throwR ReadDiverged"
| "listLoop (Suc k) rd close open unterminated items =
     bindR nextToken (\<lambda>tok.
       if kind tok = TkEndOfFile then throwR (ReaderError unterminated (fst open) (snd open))
       else if kind tok = close then retR items
       else if kind tok = TkHashUnderscore then
         bindR (discardNextForm rd tok) (\<lambda>_. listLoop k rd close open unterminated items)
       else if kind tok \<in> {TkRParen, TkRBracket, TkRBrace} then
         readerErrorAt (''mismatched '' @ tokenKindName (kind tok)) tok
       else bindR (rd tok) (\<lambda>f. listLoop k rd close open unterminated (items @ [f])))"

definition unread :: "reader \<Rightarrow> nat" where
  "unread st = length (rest (cursor (lx st)))"

definition readItems :: "(Token \<Rightarrow> form rd) \<Rightarrow> TokenKind \<Rightarrow> nat \<times> nat \<Rightarrow> string \<Rightarrow> form list rd" where
  "readItems rd close open unterminated st = listLoop (unread st + 1) rd close open unterminated [] st"

definition readList :: "readerEnv \<Rightarrow> (Token \<Rightarrow> form rd) \<Rightarrow> Token \<Rightarrow> form rd" where
  "readList E rd tok =
     bindR (readItems rd TkRParen (tline tok, tcolumn tok) (unterminatedAt TkRParen)) (\<lambda>items.
       recordPosition E (FList items) (tline tok) (tcolumn tok))"

definition readVector :: "(Token \<Rightarrow> form rd) \<Rightarrow> Token \<Rightarrow> form rd" where
  "readVector rd tok =
     bindR (readItems rd TkRBracket (tline tok, tcolumn tok) (unterminatedAt TkRBracket)) (\<lambda>items. retR (FVec items))"

definition readMap :: "readerEnv \<Rightarrow> (Token \<Rightarrow> form rd) \<Rightarrow> Token \<Rightarrow> form rd" where
  "readMap E rd tok =
     bindR (readItems rd TkRBrace (tline tok, tcolumn tok) (unterminatedAt TkRBrace)) (mapForm E tok)"

definition readSet :: "readerEnv \<Rightarrow> (Token \<Rightarrow> form rd) \<Rightarrow> Token \<Rightarrow> form rd" where
  "readSet E rd tok =
     bindR (readItems rd TkRBrace (tline tok, tcolumn tok) (missing ''set'' ''}'')) (setForm E tok)"

definition readWrapped :: "(Token \<Rightarrow> form rd) \<Rightarrow> Token \<Rightarrow> string \<Rightarrow> form rd" where
  "readWrapped rd tok head = bindR (readNextForm rd tok) (\<lambda>f. retR (FList [FNamed head, f]))"

definition readFnLiteral :: "readerEnv \<Rightarrow> (Token \<Rightarrow> form rd) \<Rightarrow> Token \<Rightarrow> form rd" where
  "readFnLiteral E rd tok =
     bindR (getR fnLit) (\<lambda>lit.
       if lit \<noteq> None then readerErrorAt ''Nested #()s are not allowed'' tok
       else
         bindR (setLit \<lparr>params = [], restArg = None\<rparr>) (\<lambda>_.
         finallyR
           (bindR (readList E rd tok) (\<lambda>body.
            bindR (getR (\<lambda>st. the (fnLit st))) (\<lambda>lit.
            bindR (fillParams 0 (params lit)) (\<lambda>ps.
              let args = ps @ (case restArg lit of Some r \<Rightarrow> [FNamed ''&'', FNamed r] | None \<Rightarrow> []) in
              recordPosition E (FList [FNamed ''fn*'', FVec args, body]) (tline tok) (tcolumn tok)))))
           (\<lambda>st. st\<lparr>fnLit := None\<rparr>)))"

text \<open>The tables of the syntax-quotes are a stack, innermost first.\<close>

definition readBacktick :: "readerEnv \<Rightarrow> (Token \<Rightarrow> form rd) \<Rightarrow> nat \<Rightarrow> Token \<Rightarrow> form rd" where
  "readBacktick E rd d tok =
     bindR (readUnpositioned rd tok) (\<lambda>f.
     bindR (modifyR (\<lambda>st. st\<lparr>gensyms := [] # gensyms st\<rparr>)) (\<lambda>_.
       finallyR (syntaxQuote E d tok f) (\<lambda>st. st\<lparr>gensyms := tl (gensyms st)\<rparr>)))"

definition readSymbol :: "string \<Rightarrow> form rd" where
  "readSymbol text =
     (if text = ''nil'' then retR FNil
      else if text = ''true'' then retR FTrue
      else if text = ''false'' then retR FFalse
      else
        bindR (getR fnLit) (\<lambda>lit.
          case lit of
            Some l \<Rightarrow>
              if text \<noteq> [] \<and> hd text = CHR ''%''
              then bindR (fnLiteralArg l text) (\<lambda>p. retR (FNamed (case p of Some s \<Rightarrow> s | None \<Rightarrow> text)))
              else retR (FNamed text)
          | None \<Rightarrow> retR (FNamed text)))"

definition ednRefusal :: "Token \<Rightarrow> string option" where
  "ednRefusal tok =
     (if kind tok = TkHashLParen then Some ''No dispatch macro for: (''
      else if kind tok = TkRegex then Some (''No dispatch macro for: '' @ [CHR 0x22])
      else if kind tok \<in> {TkQuote, TkBacktick, TkTilde, TkTildeAt, TkAt}
      then Some (''EDN does not support the reader macro '' @ lexeme tok)
      else None)"

text \<open>The value of the digits of an integer token, exact beyond 64 bits too.\<close>

definition integerText :: "string \<Rightarrow> int" where
  "integerText t = (case t of c # ds \<Rightarrow> if c = CHR ''-'' then - int (dec_value ds) else int (dec_value t) | [] \<Rightarrow> 0)"

fun readFromToken :: "readerEnv \<Rightarrow> nat \<Rightarrow> Token \<Rightarrow> form rd" where
  "readFromToken E 0 tok = throwR ReadStackOverflow"
| "readFromToken E (Suc d) tok =
     (let rd = readFromToken E d in
      case (if edn E then ednRefusal tok else None) of
        Some msg \<Rightarrow> readerErrorAt msg tok
      | None \<Rightarrow>
          (case kind tok of
             TkHashUnderscore \<Rightarrow> bindR (discardNextForm rd tok) (\<lambda>_. readNextForm rd tok)
           | TkInteger \<Rightarrow> retR (FInt (if fitsLong tok then intValue tok else integerText (lexeme tok)))
           | TkFloat \<Rightarrow> retR (FFloat (doubleValue tok))
           | TkString \<Rightarrow> retR (FStr (lexeme tok))
           | TkSymbol \<Rightarrow> readSymbol (lexeme tok)
           | TkHashLParen \<Rightarrow> readFnLiteral E rd tok
           | TkLParen \<Rightarrow> readList E rd tok
           | TkAt \<Rightarrow> readWrapped rd tok ''clojure.core/deref''
           | TkQuote \<Rightarrow> readWrapped rd tok symQuote
           | TkTilde \<Rightarrow> readWrapped rd tok symUnquote
           | TkTildeAt \<Rightarrow> readWrapped rd tok symSplice
           | TkBacktick \<Rightarrow> readBacktick E rd d tok
           | TkLBracket \<Rightarrow> readVector rd tok
           | TkLBrace \<Rightarrow> readMap E rd tok
           | TkRegex \<Rightarrow>
               (case compilePattern E (lexeme tok) of
                  Some msg \<Rightarrow> readerErrorAt (''PatternSyntaxException: '' @ msg) tok
                | None \<Rightarrow> retR (FPattern (lexeme tok)))
           | TkHashLBrace \<Rightarrow> readSet E rd tok
           | TkError \<Rightarrow> readerErrorAt (lexeme tok) tok
           | TkRParen \<Rightarrow> readerErrorAt ''unexpected )'' tok
           | TkEndOfFile \<Rightarrow> readerErrorAt ''unexpected end of file'' tok
           | _ \<Rightarrow> readerErrorAt (''unsupported token: '' @ tokenKindName (kind tok)) tok))"

text \<open>The stack overflow of a form becomes a read error where reading stopped.\<close>

definition reported :: "readerEnv \<Rightarrow> 'a rd \<Rightarrow> 'a rd" where
  "reported E m st =
     (case m st of
        (Inl ReadStackOverflow, st1) \<Rightarrow>
          (Inl (ReaderError (stackMessage E) (line (cursor (lx st1))) (column (cursor (lx st1)))), st1)
      | r \<Rightarrow> r)"

fun oneLoop :: "nat \<Rightarrow> (Token \<Rightarrow> form rd) \<Rightarrow> form option rd" where
  "oneLoop 0 rd = throwR ReadDiverged"
| "oneLoop (Suc k) rd =
     bindR nextToken (\<lambda>tok.
       if kind tok = TkHashUnderscore then bindR (discardNextForm rd tok) (\<lambda>_. oneLoop k rd)
       else if kind tok = TkEndOfFile then retR None
       else
         bindR (modifyR (\<lambda>st. st\<lparr>formLine := tline tok, formColumn := tcolumn tok\<rparr>)) (\<lambda>_.
         bindR (rd tok) (\<lambda>f. retR (Some f))))"

definition readOne :: "readerEnv \<Rightarrow> nat \<Rightarrow> form option rd" where
  "readOne E d = reported E (\<lambda>st. oneLoop (unread st + 1) (readFromToken E d) st)"

fun allLoop :: "nat \<Rightarrow> (Token \<Rightarrow> form rd) \<Rightarrow> form list \<Rightarrow> form list rd" where
  "allLoop 0 rd forms = throwR ReadDiverged"
| "allLoop (Suc k) rd forms =
     bindR nextToken (\<lambda>tok.
       if kind tok = TkEndOfFile then retR forms
       else if kind tok = TkHashUnderscore then bindR (discardNextForm rd tok) (\<lambda>_. allLoop k rd forms)
       else bindR (rd tok) (\<lambda>f. allLoop k rd (forms @ [f])))"

definition readAll :: "readerEnv \<Rightarrow> nat \<Rightarrow> form list rd" where
  "readAll E d = reported E (\<lambda>st. allLoop (unread st + 1) (readFromToken E d) [] st)"

definition newReader :: "string \<Rightarrow> reader" where
  "newReader src =
     \<lparr>lx = newLexer src, gensymId = 0, fnLit = None, gensyms = [], noPositions = 0, formPos = [], formLine = 0, formColumn = 0\<rparr>"

end
