(* ===== verification/ReaderProps.thy ===== *)
theory ReaderProps
  imports Reader
begin

text \<open>
  Reading ends and leaves nothing behind: every loop of the reader has consumed a token when it goes round, and
  the function literal, the tables of the syntax-quotes and the suppression of positions are undone on every
  path, errors included.
\<close>

section \<open>Steps that end\<close>

text \<open>A step that, with fewer than \<open>n\<close> bytes left, ends with no more bytes left than before.\<close>

definition endsOn :: "nat \<Rightarrow> 'a rd \<Rightarrow> bool" where
  "endsOn n m \<longleftrightarrow> (\<forall>st. peekTok (lx st) = None \<longrightarrow> unread st < n \<longrightarrow>
     peekTok (lx (snd (m st))) = None \<and> unread (snd (m st)) \<le> unread st \<and> fst (m st) \<noteq> Inl ReadDiverged)"

named_theorems reader_ends \<open>the steps that end\<close>

lemma endsOn_mono: "endsOn n m \<Longrightarrow> k \<le> n \<Longrightarrow> endsOn k m"
  by (simp add: endsOn_def)

lemma ends_ret [reader_ends]: "endsOn n (retR a)"
  by (simp add: endsOn_def retR_def)

lemma ends_throw [reader_ends]: "e \<noteq> ReadDiverged \<Longrightarrow> endsOn n (throwR e)"
  by (simp add: endsOn_def throwR_def)

lemma ends_error [reader_ends]: "endsOn n (readerErrorAt msg tok)"
  by (simp add: readerErrorAt_def ends_throw)

lemma ends_get [reader_ends]: "endsOn n (getR f)"
  by (simp add: endsOn_def getR_def)

lemma ends_modify [reader_ends]: "(\<And>st. lx (f st) = lx st) \<Longrightarrow> endsOn n (modifyR f)"
  by (simp add: endsOn_def modifyR_def unread_def)

lemma ends_gensym [reader_ends]: "endsOn n nextGensymId"
  by (simp add: endsOn_def nextGensymId_def unread_def)

lemma ends_finally [reader_ends]: "endsOn n m \<Longrightarrow> (\<And>st. lx (f st) = lx st) \<Longrightarrow> endsOn n (finallyR m f)"
  by (simp add: endsOn_def finallyR_def unread_def case_prod_unfold Let_def)

lemma endsR_bind [reader_ends]: "endsOn n m \<Longrightarrow> (\<And>a. endsOn n (f a)) \<Longrightarrow> endsOn n (bindR m f)"
  unfolding endsOn_def bindR_def
  by (auto split: prod.split sum.split) (metis (no_types, lifting) fst_conv le_less_trans order_trans snd_conv)+

lemma ends_map [reader_ends]: "(\<And>x. endsOn n (f x)) \<Longrightarrow> endsOn n (mapR f xs)"
  by (induction xs) (auto intro: reader_ends)

text \<open>A token that is not the end of the source has consumed a byte.\<close>

lemma nextToken_state:
  assumes "peekTok (lx st) = None"
  shows "peekTok (lx (snd (nextToken st))) = None" "unread (snd (nextToken st)) \<le> unread st"
    and "nextToken st = (Inr tok, st') \<Longrightarrow> kind tok \<noteq> TkEndOfFile \<Longrightarrow> unread st' < unread st"
proof -
  have short: "unread (snd (nextToken st)) \<le> unread st - 1"
    using assms lexToken_shorter [of "prevReturnedKind (lx st)" "cursor (lx st)"]
    by (simp add: nextToken_def nextTok_def nextImpl_def unread_def case_prod_unfold Let_def)
  then show "unread (snd (nextToken st)) \<le> unread st" by simp
  show "peekTok (lx (snd (nextToken st))) = None"
    using assms by (simp add: nextToken_def nextTok_def nextImpl_def split: prod.split)
  assume t: "nextToken st = (Inr tok, st')" "kind tok \<noteq> TkEndOfFile"
  have "unread st \<noteq> 0"
    using t assms lexToken_eof [of "cursor (lx st)" "prevReturnedKind (lx st)"]
    by (auto simp: nextToken_def nextTok_def nextImpl_def unread_def split: prod.splits)
  then show "unread st' < unread st" using short t(1) by simp
qed

lemma nextToken_Inr: "\<exists>tok st'. nextToken st = (Inr tok, st')"
  by (simp add: nextToken_def split: prod.split)

lemma endsR_token:
  assumes "\<And>tok. kind tok = TkEndOfFile \<Longrightarrow> endsOn (Suc k) (f tok)" "\<And>tok. kind tok \<noteq> TkEndOfFile \<Longrightarrow> endsOn k (f tok)"
  shows "endsOn (Suc k) (bindR nextToken f)"
  unfolding endsOn_def
proof (intro allI impI)
  fix st
  assume st: "peekTok (lx st) = None" "unread st < Suc k"
  obtain tok st1 where t: "nextToken st = (Inr tok, st1)" using nextToken_Inr by blast
  have st1: "peekTok (lx st1) = None" "unread st1 \<le> unread st" using nextToken_state(1,2) [OF st(1)] t by simp_all
  have "peekTok (lx (snd (f tok st1))) = None \<and> unread (snd (f tok st1)) \<le> unread st1 \<and> fst (f tok st1) \<noteq> Inl ReadDiverged"
  proof (cases "kind tok = TkEndOfFile")
    case True
    then show ?thesis using assms(1) [of tok] st(2) st1 by (simp add: endsOn_def)
  next
    case False
    then have "unread st1 < k" using nextToken_state(3) [OF st(1) t] st(2) by simp
    then show ?thesis using assms(2) [OF False] st1 by (simp add: endsOn_def)
  qed
  then show "peekTok (lx (snd (bindR nextToken f st))) = None \<and> unread (snd (bindR nextToken f st)) \<le> unread st \<and>
      fst (bindR nextToken f st) \<noteq> Inl ReadDiverged"
    using t st1(2) by (simp add: bindR_def)
qed

lemma ends_nextToken [reader_ends]: "endsOn n nextToken"
  using nextToken_state(1,2) by (auto simp: endsOn_def nextToken_def split: prod.split)

section \<open>The operations end\<close>

lemma ends_gen [reader_ends]: "endsOn n (gen stem)"
  unfolding gen_def by (intro reader_ends)

lemma ends_setLit [reader_ends]: "endsOn n (setLit lit)"
  unfolding setLit_def by (intro reader_ends) simp

lemma ends_fnLiteralArg [reader_ends]: "endsOn n (fnLiteralArg lit text)"
  unfolding fnLiteralArg_def Let_def by (auto split: option.split sum.split intro!: reader_ends)

lemma ends_fillParams [reader_ends]: "endsOn n (fillParams i ps)"
  by (induction i ps rule: fillParams.induct) (auto split: option.split intro!: reader_ends)

lemma ends_templateSymbol [reader_ends]: "endsOn n (templateSymbol E s)"
  unfolding templateSymbol_def Let_def by (auto split: option.split intro!: reader_ends)

lemma ends_templatePiece: "(\<And>f. endsOn n (sq f)) \<Longrightarrow> endsOn n (templatePiece sq f)"
  unfolding templatePiece_def by (auto split: form.split list.split intro!: reader_ends)

lemma ends_syntaxQuote [reader_ends]: "endsOn n (syntaxQuote E d tok f)"
proof (induction d arbitrary: f)
  case (Suc d)
  show ?case
    by (auto split: form.split option.split intro!: reader_ends ends_templatePiece Suc)
qed (simp add: ends_throw)

lemma ends_mapForm [reader_ends]: "endsOn n (mapForm E tok fs)"
  unfolding mapForm_def Let_def by (auto split: option.split intro!: reader_ends)

lemma ends_setForm [reader_ends]: "endsOn n (setForm E tok fs)"
  unfolding setForm_def Let_def by (auto split: option.split intro!: reader_ends)

lemma ends_readSymbol [reader_ends]: "endsOn n (readSymbol text)"
  unfolding readSymbol_def by (auto split: option.split intro!: reader_ends)

lemma ends_recordPosition [reader_ends]: "endsOn n (recordPosition E f ln col)"
  unfolding recordPosition_def by (intro reader_ends) simp

text \<open>What reads forms, given that \<open>rd\<close> ends.\<close>

lemma ends_readNextForm: "(\<And>t. endsOn n (rd t)) \<Longrightarrow> endsOn n (readNextForm rd tok)"
  unfolding readNextForm_def by (auto intro!: reader_ends)

lemma ends_readUnpositioned: "(\<And>t. endsOn n (rd t)) \<Longrightarrow> endsOn n (readUnpositioned rd tok)"
  unfolding readUnpositioned_def by (auto intro!: reader_ends ends_readNextForm)

lemma ends_discard: "(\<And>t. endsOn n (rd t)) \<Longrightarrow> endsOn n (discardNextForm rd tok)"
  unfolding discardNextForm_def by (auto intro!: reader_ends ends_readUnpositioned)

lemma ends_listLoop: "(\<And>n t. endsOn n (rd t)) \<Longrightarrow> endsOn k (listLoop k rd close open what items)"
proof (induction k arbitrary: items)
  case 0
  then show ?case by (simp add: endsOn_def)
next
  case (Suc k)
  show ?case unfolding listLoop.simps
    by (rule endsR_token) (auto intro!: reader_ends ends_discard Suc)
qed

lemma ends_started: "(\<And>k. endsOn k (m k)) \<Longrightarrow> endsOn n (\<lambda>st. m (unread st + 1) st)"
  by (simp add: endsOn_def)

lemma ends_readItems: "(\<And>n t. endsOn n (rd t)) \<Longrightarrow> endsOn n (readItems rd close open what)"
  unfolding readItems_def [abs_def]
  by (rule ends_started [where m = "\<lambda>k. listLoop k rd close open what []"]) (rule ends_listLoop)

lemma ends_readList: "(\<And>n t. endsOn n (rd t)) \<Longrightarrow> endsOn n (readList E rd tok)"
  unfolding readList_def by (auto intro!: reader_ends ends_readItems)

lemma ends_readFnLiteral: "(\<And>n t. endsOn n (rd t)) \<Longrightarrow> endsOn n (readFnLiteral E rd tok)"
  unfolding readFnLiteral_def Let_def by (auto intro!: reader_ends ends_readList)

lemma ends_readBacktick: "(\<And>n t. endsOn n (rd t)) \<Longrightarrow> endsOn n (readBacktick E rd d tok)"
  unfolding readBacktick_def by (auto intro!: reader_ends ends_readUnpositioned)

lemma ends_readFromToken: "endsOn n (readFromToken E d tok)"
proof (induction d arbitrary: n tok)
  case (Suc d)
  note rules = reader_ends ends_discard ends_readNextForm ends_readFnLiteral ends_readList ends_readBacktick ends_readItems Suc
  have pattern: "endsOn n (case compilePattern E (lexeme tok) of
      Some msg \<Rightarrow> readerErrorAt (''PatternSyntaxException: '' @ msg) tok | None \<Rightarrow> retR (FPattern (lexeme tok)))"
    by (cases "compilePattern E (lexeme tok)") (simp_all add: reader_ends)
  have wrapped: "endsOn n (readWrapped (readFromToken E d) tok h)" for h
    unfolding readWrapped_def by (intro rules)
  have inside: "endsOn n (readVector (readFromToken E d) tok)" "endsOn n (readMap E (readFromToken E d) tok)"
      "endsOn n (readSet E (readFromToken E d) tok)"
    unfolding readVector_def readMap_def readSet_def by (intro rules)+
  show ?case
  proof (cases "if edn E then ednRefusal tok else None")
    case None
    show ?thesis unfolding readFromToken.simps Let_def None option.case
      by (cases "kind tok"; simp only: TokenKind.case; (intro pattern wrapped inside rules)?)
  qed (simp add: ends_error)
qed (simp add: ends_throw)

lemma ends_oneLoop: "endsOn k (oneLoop k (readFromToken E d))"
proof (induction k)
  case 0
  then show ?case by (simp add: endsOn_def)
next
  case (Suc k)
  show ?case unfolding oneLoop.simps
    by (rule endsR_token) (auto intro!: reader_ends ends_discard ends_readFromToken Suc)
qed

lemma ends_allLoop: "endsOn k (allLoop k (readFromToken E d) forms)"
proof (induction k arbitrary: forms)
  case 0
  then show ?case by (simp add: endsOn_def)
next
  case (Suc k)
  show ?case unfolding allLoop.simps
    by (rule endsR_token) (auto intro!: reader_ends ends_discard ends_readFromToken Suc)
qed

lemma reported_simps [simp]:
  "snd (reported E m st) = snd (m st)" "fst (reported E m st) = Inl ReadDiverged \<longleftrightarrow> fst (m st) = Inl ReadDiverged"
  "fst (reported E m st) = Inr x \<longleftrightarrow> fst (m st) = Inr x"
proof -
  obtain r s1 where m: "m st = (r, s1)" by fastforce
  show "snd (reported E m st) = snd (m st)" "fst (reported E m st) = Inl ReadDiverged \<longleftrightarrow> fst (m st) = Inl ReadDiverged"
    "fst (reported E m st) = Inr x \<longleftrightarrow> fst (m st) = Inr x"
    by (auto simp: reported_def m split: sum.split readError.split)
qed

lemma ends_reported: "endsOn n m \<Longrightarrow> endsOn n (reported E m)"
  by (simp add: endsOn_def)

text \<open>A form that was read has consumed a byte.\<close>

lemma oneLoop_consumes:
  "peekTok (lx st) = None \<Longrightarrow> oneLoop k (readFromToken E d) st = (Inr (Some f), st') \<Longrightarrow> unread st' < unread st"
proof (induction k arbitrary: st)
  case (Suc k)
  obtain tok st1 where t: "nextToken st = (Inr tok, st1)" using nextToken_Inr by blast
  have st1: "peekTok (lx st1) = None" "unread st1 \<le> unread st" using nextToken_state(1,2) [OF Suc.prems(1)] t by simp_all
  show ?case
  proof (cases "kind tok = TkHashUnderscore")
    case True
    obtain r st2 where d: "discardNextForm (readFromToken E d) tok st1 = (r, st2)" by fastforce
    have "endsOn (Suc (unread st1)) (discardNextForm (readFromToken E d) tok)" by (intro ends_discard ends_readFromToken)
    from this [unfolded endsOn_def, rule_format, OF st1(1)] d
    have st2: "peekTok (lx st2) = None" "unread st2 \<le> unread st1" by simp_all
    from Suc.prems(2) True t d have "oneLoop k (readFromToken E d) st2 = (Inr (Some f), st')"
      by (auto simp: bindR_def split: sum.splits)
    from Suc.IH [OF st2(1) this] st2(2) st1(2) show ?thesis by simp
  next
    case False
    from Suc.prems(2) False t have some: "kind tok \<noteq> TkEndOfFile" by (auto simp: bindR_def retR_def)
    define st2 where "st2 = st1\<lparr>formLine := tline tok, formColumn := tcolumn tok\<rparr>"
    obtain r st3 where d: "readFromToken E d tok st2 = (r, st3)" by fastforce
    have "peekTok (lx st2) = None" "unread st2 = unread st1" using st1(1) by (simp_all add: st2_def unread_def)
    then have "unread st3 \<le> unread st1"
      using ends_readFromToken [of "Suc (unread st2)" E d tok, unfolded endsOn_def, rule_format, of st2] d by simp
    moreover have "st' = st3" using Suc.prems(2) False some t d
      by (auto simp: bindR_def modifyR_def retR_def st2_def [symmetric] split: sum.splits)
    moreover have "unread st1 < unread st" using nextToken_state(3) [OF Suc.prems(1) t some] .
    ultimately show ?thesis by simp
  qed
qed (simp add: throwR_def)

section \<open>What is undone\<close>

text \<open>A step that leaves the tables of the syntax-quotes (seen through \<open>g\<close>), the suppression of positions and the
  presence of a function literal as they were.\<close>

definition keeps :: "((string \<times> string) list list \<Rightarrow> 'g) \<Rightarrow> 'a rd \<Rightarrow> bool" where
  "keeps g m \<longleftrightarrow> (\<forall>st. g (gensyms (snd (m st))) = g (gensyms st) \<and> noPositions (snd (m st)) = noPositions st \<and>
     (fnLit (snd (m st)) = None \<longleftrightarrow> fnLit st = None))"

named_theorems reader_keeps \<open>the steps that leave nothing behind\<close>

lemma keeps_id: "keeps id m \<Longrightarrow> keeps g m"
  by (simp add: keeps_def)

lemma keepsR_basic [reader_keeps]:
  "keeps g (retR a)" "keeps g (throwR e)" "keeps g (readerErrorAt msg tok)" "keeps g (getR f)" "keeps g nextGensymId" "keeps g nextToken"
  by (simp_all add: keeps_def retR_def throwR_def readerErrorAt_def getR_def nextGensymId_def nextToken_def case_prod_unfold Let_def)

lemma keeps_modify [reader_keeps]:
  "(\<And>st. g (gensyms (f st)) = g (gensyms st) \<and> noPositions (f st) = noPositions st \<and> (fnLit (f st) = None \<longleftrightarrow> fnLit st = None)) \<Longrightarrow>
   keeps g (modifyR f)"
  by (simp add: keeps_def modifyR_def)

lemma keepsR_bind [reader_keeps]: "keeps g m \<Longrightarrow> (\<And>a. keeps g (f a)) \<Longrightarrow> keeps g (bindR m f)"
  unfolding keeps_def bindR_def by (auto split: prod.split sum.split) (metis snd_conv)+

lemma keepsR_if: "keeps g a \<Longrightarrow> keeps g b \<Longrightarrow> keeps g (if c then a else b)"
  by simp

lemma keeps_map [reader_keeps]: "(\<And>x. keeps g (f x)) \<Longrightarrow> keeps g (mapR f xs)"
  by (induction xs) (auto intro: reader_keeps)

lemma keeps_gen [reader_keeps]: "keeps g (gen stem)"
  unfolding gen_def by (intro reader_keeps)

lemma keeps_fillParams [reader_keeps]: "keeps g (fillParams i ps)"
  by (induction i ps rule: fillParams.induct) (auto split: option.split intro!: reader_keeps)

lemma keeps_templateSymbol: "keeps tl (templateSymbol E s)"
  unfolding templateSymbol_def Let_def by (auto split: option.split intro!: reader_keeps)

lemma keeps_templatePiece: "(\<And>f. keeps g (sq f)) \<Longrightarrow> keeps g (templatePiece sq f)"
  unfolding templatePiece_def by (auto split: form.split list.split intro!: reader_keeps)

lemma keeps_syntaxQuote: "keeps tl (syntaxQuote E d tok f)"
proof (induction d arbitrary: f)
  case (Suc d)
  show ?case
    by (auto split: form.split option.split intro!: reader_keeps keeps_templatePiece keeps_templateSymbol Suc)
qed (simp add: keepsR_basic)

lemma keeps_mapForm [reader_keeps]: "keeps g (mapForm E tok fs)"
  unfolding mapForm_def Let_def by (auto split: option.split intro!: reader_keeps)

lemma keeps_setForm [reader_keeps]: "keeps g (setForm E tok fs)"
  unfolding setForm_def Let_def by (auto split: option.split intro!: reader_keeps)

lemma keeps_recordPosition [reader_keeps]: "keeps g (recordPosition E f ln col)"
  unfolding recordPosition_def by (intro reader_keeps) simp

lemma keeps_readNextForm: "(\<And>t. keeps g (rd t)) \<Longrightarrow> keeps g (readNextForm rd tok)"
  unfolding readNextForm_def by (auto intro!: reader_keeps)

lemma finally_snd [simp]: "snd (finallyR m f st) = f (snd (m st))"
  by (simp add: finallyR_def case_prod_unfold Let_def)

lemma modify_bind [simp]: "bindR (modifyR f) (\<lambda>_. m) st = m (f st)"
  by (simp add: bindR_def modifyR_def)

lemma keeps_readUnpositioned: "(\<And>t. keeps g (rd t)) \<Longrightarrow> keeps g (readUnpositioned rd tok)"
  using keeps_readNextForm [of g rd tok] by (simp add: readUnpositioned_def keeps_def)

lemma keeps_discard: "(\<And>t. keeps g (rd t)) \<Longrightarrow> keeps g (discardNextForm rd tok)"
  unfolding discardNextForm_def by (intro reader_keeps keeps_readUnpositioned)

lemma keeps_listLoop: "(\<And>t. keeps g (rd t)) \<Longrightarrow> keeps g (listLoop k rd close open what items)"
  by (induction k arbitrary: items) (auto intro!: reader_keeps keeps_discard)

lemma keeps_readItems: "(\<And>t. keeps g (rd t)) \<Longrightarrow> keeps g (readItems rd close open what)"
  using keeps_listLoop [of g rd] by (simp add: readItems_def keeps_def del: listLoop.simps)

lemma keeps_readList: "(\<And>t. keeps g (rd t)) \<Longrightarrow> keeps g (readList E rd tok)"
  unfolding readList_def by (intro reader_keeps keeps_readItems)

lemma keeps_readBacktick: "(\<And>t. keeps id (rd t)) \<Longrightarrow> keeps id (readBacktick E rd d tok)"
  unfolding readBacktick_def
proof (rule keepsR_bind [OF keeps_readUnpositioned])
  fix f
  show "keeps id (bindR (modifyR (\<lambda>st. st\<lparr>gensyms := [] # gensyms st\<rparr>)) (\<lambda>_.
      finallyR (syntaxQuote E d tok f) (\<lambda>st. st\<lparr>gensyms := tl (gensyms st)\<rparr>)))"
    using keeps_syntaxQuote [of E d tok f] by (simp add: keeps_def)
qed

lemma keeps_readFnLiteral: "(\<And>t. keeps id (rd t)) \<Longrightarrow> keeps id (readFnLiteral E rd tok)"
proof -
  assume rd: "\<And>t. keeps id (rd t)"
  have body: "keeps id (bindR (readList E rd tok) (\<lambda>body. bindR (getR (\<lambda>st. the (fnLit st))) (\<lambda>lit.
      bindR (fillParams 0 (params lit)) (\<lambda>ps. recordPosition E (h ps lit body) (tline tok) (tcolumn tok)))))" for h
    by (intro reader_keeps keeps_readList rd)
  show ?thesis
    unfolding readFnLiteral_def Let_def
    using body by (auto simp: keeps_def bindR_def [of "getR fnLit"] getR_def [of fnLit] setLit_def readerErrorAt_def throwR_def)
qed

lemma fnLiteralArg_state:
  "gensyms (snd (fnLiteralArg l t st)) = gensyms st \<and> noPositions (snd (fnLiteralArg l t st)) = noPositions st \<and>
   (fnLit st \<noteq> None \<longrightarrow> fnLit (snd (fnLiteralArg l t st)) \<noteq> None)"
  by (auto simp: fnLiteralArg_def Let_def bindR_def retR_def throwR_def gen_def nextGensymId_def setLit_def modifyR_def
      split: option.split sum.split)

lemma keeps_readSymbol [reader_keeps]: "keeps g (readSymbol t)"
proof -
  have "gensyms (snd (readSymbol t st)) = gensyms st \<and> noPositions (snd (readSymbol t st)) = noPositions st \<and>
      (fnLit (snd (readSymbol t st)) = None \<longleftrightarrow> fnLit st = None)" for st
    using fnLiteralArg_state [of _ t st]
    by (auto simp: readSymbol_def bindR_def getR_def retR_def split: option.split sum.split prod.split) (metis snd_conv option.distinct(1))+
  then show ?thesis by (simp add: keeps_def)
qed

lemma keeps_readFromToken: "keeps id (readFromToken E d tok)"
proof (induction d arbitrary: tok)
  case (Suc d)
  note rules = reader_keeps keeps_discard keeps_readNextForm keeps_readFnLiteral keeps_readList keeps_readBacktick keeps_readItems Suc
  have pattern: "keeps id (case compilePattern E (lexeme tok) of
      Some msg \<Rightarrow> readerErrorAt (''PatternSyntaxException: '' @ msg) tok | None \<Rightarrow> retR (FPattern (lexeme tok)))"
    by (cases "compilePattern E (lexeme tok)") (simp_all add: reader_keeps)
  have wrapped: "keeps id (readWrapped (readFromToken E d) tok h)" for h
    unfolding readWrapped_def by (intro rules)
  have inside: "keeps id (readVector (readFromToken E d) tok)" "keeps id (readMap E (readFromToken E d) tok)"
      "keeps id (readSet E (readFromToken E d) tok)"
    unfolding readVector_def readMap_def readSet_def by (intro rules)+
  show ?case
  proof (cases "if edn E then ednRefusal tok else None")
    case None
    show ?thesis unfolding readFromToken.simps Let_def None option.case
      by (cases "kind tok"; simp only: TokenKind.case; (intro pattern wrapped inside rules)?)
  qed (simp add: keepsR_basic)
qed (simp add: keepsR_basic)

lemma keeps_oneLoop: "keeps id (oneLoop k (readFromToken E d))"
proof (induction k)
  case (Suc k)
  have "keeps id (if kind tok = TkHashUnderscore then bindR (discardNextForm (readFromToken E d) tok) (\<lambda>_. oneLoop k (readFromToken E d))
      else if kind tok = TkEndOfFile then retR None
      else bindR (modifyR (\<lambda>st. st\<lparr>formLine := tline tok, formColumn := tcolumn tok\<rparr>)) (\<lambda>_.
        bindR (readFromToken E d tok) (\<lambda>f. retR (Some f))))" for tok
    by (intro keepsR_if reader_keeps keeps_discard keeps_readFromToken Suc) simp_all
  then show ?case unfolding oneLoop.simps by (intro keepsR_bind [OF keepsR_basic(6)])
qed (simp add: keepsR_basic)

section \<open>Properties\<close>

text \<open>Reading ends: whatever the source, reading a form, or all of them, ends with a value or an error. The
  loops take no more rounds than the source has bytes, and a form that was read has consumed at least one.\<close>

theorem reading_ends:
  assumes "peekTok (lx st) = None"
  shows "fst (readAll E d st) \<noteq> Inl ReadDiverged \<and> fst (readOne E d st) \<noteq> Inl ReadDiverged \<and>
    (fst (readOne E d st) = Inr (Some f) \<longrightarrow> unread (snd (readOne E d st)) < unread st)"
proof -
  have "endsOn (unread st + 1) (readAll E d)" "endsOn (unread st + 1) (readOne E d)"
    unfolding readAll_def readOne_def
    by (rule ends_reported, rule ends_started [of "\<lambda>k. allLoop k (readFromToken E d) []"], rule ends_allLoop)
      (rule ends_reported, rule ends_started [of "\<lambda>k. oneLoop k (readFromToken E d)"], rule ends_oneLoop)
  moreover have "fst (readOne E d st) = Inr (Some f) \<Longrightarrow> unread (snd (readOne E d st)) < unread st"
    using oneLoop_consumes [OF assms, of "unread st + 1" E d f]
    by (auto simp: readOne_def prod_eq_iff)
  ultimately show ?thesis using assms by (simp add: endsOn_def)
qed

theorem reading_ends_witness:
  "\<forall>E. fst (readAll E 9 (newReader ''(a [b'')) \<noteq> Inl ReadDiverged"
  using reading_ends [of "newReader ''(a [b''"] by (simp add: newReader_def newLexer_def)

text \<open>C31. A read leaves nothing behind, whether it answers a form or fails anywhere inside one: no function
  literal is open, the tables of the syntax-quotes are gone and positions are recorded again. So a reader
  goes on after a read error as a new one does.\<close>

theorem reading_undone:
  fixes E :: readerEnv and d :: nat
  assumes "fnLit st = None"
  defines "st' \<equiv> snd (readOne E d st)"
  shows "fnLit st' = None \<and> gensyms st' = gensyms st \<and> noPositions st' = noPositions st"
  using keeps_oneLoop [of "unread st + 1" E d] assms(1) by (simp add: st'_def readOne_def keeps_def)

theorem reading_undone_witness:
  "\<forall>E. gensyms (snd (readOne E 9 (newReader ''`(a# ~@''))) = []"
  using reading_undone [of "newReader ''`(a# ~@''"] by (simp add: newReader_def)

end
