(* ===== verification/SyntaxQuote.thy ===== *)
theory SyntaxQuote
  imports Reader
begin

text \<open>
  What a syntax-quote means. Its expansion is code; evaluated, with the functions it calls read as
  clojure.core defines them, it builds the template with its unquoted parts replaced by their values.
\<close>

section \<open>Evaluating an expansion\<close>

text \<open>The items \<^verbatim>\<open>seq\<close> walks, and its answer: nil for none.\<close>

definition seqItems :: "form \<Rightarrow> form list" where
  "seqItems v =
     (case v of FList xs \<Rightarrow> xs | FVec xs \<Rightarrow> xs | FSet xs \<Rightarrow> xs | FMap m \<Rightarrow> map (\<lambda>(k, v). FVec [k, v]) m | _ \<Rightarrow> [])"

definition seqOf :: "form \<Rightarrow> form" where
  "seqOf v = (if seqItems v = [] then FNil else FList (seqItems v))"

text \<open>\<^verbatim>\<open>vector\<close>, \<^verbatim>\<open>hash-map\<close> and \<^verbatim>\<open>hash-set\<close> applied to items.\<close>

definition build :: "(form \<Rightarrow> form \<Rightarrow> bool) \<Rightarrow> string \<Rightarrow> form list \<Rightarrow> form option" where
  "build eq b xs =
     (if b = ''clojure.core/vector'' then Some (FVec xs)
      else if b = ''clojure.core/hash-map'' then if even (length xs) then Some (FMap (assocForms eq (entriesOf xs))) else None
      else if b = ''clojure.core/hash-set'' then Some (FSet (map fst (assocForms eq (map (\<lambda>e. (e, e)) xs))))
      else None)"

text \<open>The forms an expansion is made of; any other form is the program's, evaluated by \<open>user\<close>.\<close>

fun evalForm :: "(form \<Rightarrow> form \<Rightarrow> bool) \<Rightarrow> (form \<Rightarrow> form) \<Rightarrow> form \<Rightarrow> form" where
  "evalForm eq user (FList (FNamed h # args)) =
     (if h = symQuote then (case args of [x] \<Rightarrow> x | _ \<Rightarrow> user (FList (FNamed h # args)))
      else if h = symList then FList (map (evalForm eq user) args)
      else if h = symConcat then FList (concat (map (\<lambda>a. seqItems (evalForm eq user a)) args))
      else if h = symSeq then (case args of [x] \<Rightarrow> seqOf (evalForm eq user x) | _ \<Rightarrow> user (FList (FNamed h # args)))
      else if h = symApply then
        (case args of
           [FNamed b, x] \<Rightarrow>
             (case build eq b (seqItems (evalForm eq user x)) of Some v \<Rightarrow> v | None \<Rightarrow> user (FList (FNamed h # args)))
         | _ \<Rightarrow> user (FList (FNamed h # args)))
      else user (FList (FNamed h # args)))"
| "evalForm eq user (FNamed s) = (if s \<noteq> [] \<and> hd s = CHR '':'' then FNamed s else user (FNamed s))"
| "evalForm eq user (FList xs) = user (FList xs)"
| "evalForm eq user (FVec xs) = user (FVec xs)"
| "evalForm eq user (FMap m) = user (FMap m)"
| "evalForm eq user (FSet xs) = user (FSet xs)"
| "evalForm eq user f = f"

section \<open>The template filled in\<close>

text \<open>A symbol of the template under the table of generated symbols.\<close>

definition autoGensym :: "string \<Rightarrow> bool" where
  "autoGensym s \<longleftrightarrow> length s > 1 \<and> last s = CHR ''#'' \<and> CHR ''/'' \<notin> set s"

definition symbolIn :: "readerEnv \<Rightarrow> (string \<times> string) list \<Rightarrow> string \<Rightarrow> string" where
  "symbolIn E T s =
     (if autoGensym s then the (map_of T s) else case resolver E of Some r \<Rightarrow> r s | None \<Rightarrow> s)"

definition filledPart :: "(form \<Rightarrow> form) \<Rightarrow> (form \<Rightarrow> form) \<Rightarrow> form \<Rightarrow> form list" where
  "filledPart ev fillIn item =
     (case item of
        FList [h, x] \<Rightarrow>
          if h = FNamed symSplice then seqItems (ev x) else if h = FNamed symUnquote then [ev x] else [fillIn item]
      | _ \<Rightarrow> [fillIn item])"

text \<open>The template with \<^verbatim>\<open>~x\<close> replaced by the value of x and \<^verbatim>\<open>~@x\<close> by its items, to a depth.\<close>

fun filled :: "readerEnv \<Rightarrow> (form \<Rightarrow> form) \<Rightarrow> (string \<times> string) list \<Rightarrow> nat \<Rightarrow> form \<Rightarrow> form" where
  "filled E user T 0 f = FNil"
| "filled E user T (Suc d) f =
     (let parts = \<lambda>xs. concat (map (filledPart (evalForm (keyEq E) user) (filled E user T d)) xs) in
      case f of
        FNamed s \<Rightarrow> if s \<noteq> [] \<and> hd s = CHR '':'' then f else FNamed (symbolIn E T s)
      | FList xs \<Rightarrow>
          if xs = [] then FList []
          else if hd xs = FNamed symUnquote then evalForm (keyEq E) user (xs ! 1)
          else seqOf (FList (parts xs))
      | _ \<Rightarrow>
          (case templateItems E f of
             Some (Some b, xs) \<Rightarrow> the (build (keyEq E) b (parts xs))
           | _ \<Rightarrow> f))"

text \<open>
  The templates that have a meaning: an unquote takes one form, a splice is inside something, and nothing
  is spliced into a map, whose entries could then come out odd.
\<close>

definition spliced :: "form \<Rightarrow> bool" where
  "spliced item = (case item of FList [h, x] \<Rightarrow> h = FNamed symSplice | _ \<Rightarrow> False)"

definition itemOk :: "(form \<Rightarrow> bool) \<Rightarrow> form \<Rightarrow> bool" where
  "itemOk ok item =
     (case item of
        FList [h, x] \<Rightarrow> h = FNamed symSplice \<or> h = FNamed symUnquote \<or> ok item
      | _ \<Rightarrow> ok item)"

fun templateOk :: "readerEnv \<Rightarrow> nat \<Rightarrow> form \<Rightarrow> bool" where
  "templateOk E 0 f = False"
| "templateOk E (Suc d) f =
     (case templateItems E f of
        None \<Rightarrow> True
      | Some (b, xs) \<Rightarrow>
          f = FList [] \<or> b = None \<and> hd xs = FNamed symUnquote \<and> length xs = 2 \<or>
          \<not> (b = None \<and> hd xs \<in> {FNamed symUnquote, FNamed symSplice}) \<and> list_all (itemOk (templateOk E d)) xs \<and>
          (b = Some ''clojure.core/hash-map'' \<longrightarrow> list_all (\<lambda>i. \<not> spliced i) xs))"

section \<open>Lemmas\<close>

lemma seqItems_simps [simp]: "seqItems (FList xs) = xs" "seqItems FNil = []" "seqItems (seqOf v) = seqItems v"
  by (simp_all add: seqItems_def seqOf_def)

lemma sym_distinct [simp]:
  "symQuote \<noteq> symList" "symQuote \<noteq> symConcat" "symQuote \<noteq> symSeq" "symQuote \<noteq> symApply"
  "symList \<noteq> symQuote" "symConcat \<noteq> symQuote" "symSeq \<noteq> symQuote" "symApply \<noteq> symQuote"
  "symList \<noteq> symConcat" "symList \<noteq> symSeq" "symList \<noteq> symApply" "symConcat \<noteq> symList" "symSeq \<noteq> symList" "symApply \<noteq> symList"
  "symConcat \<noteq> symSeq" "symConcat \<noteq> symApply" "symSeq \<noteq> symConcat" "symApply \<noteq> symConcat" "symSeq \<noteq> symApply" "symApply \<noteq> symSeq"
  "symSplice \<noteq> symUnquote" "symUnquote \<noteq> symSplice"
  by (simp_all add: sym_defs)

lemma eval_quote [simp]: "evalForm eq user (FList [FNamed symQuote, x]) = x"
  by simp

lemma eval_assemble:
  "evalForm eq user (assemble None pieces) = seqOf (FList (concat (map (\<lambda>p. seqItems (evalForm eq user p)) pieces)))"
  "build eq b (concat (map (\<lambda>p. seqItems (evalForm eq user p)) pieces)) = Some v \<Longrightarrow> evalForm eq user (assemble (Some b) pieces) = v"
  by (simp_all add: assemble_def Let_def)

text \<open>The tables of generated symbols only grow.\<close>

definition table :: "reader \<Rightarrow> string \<rightharpoonup> string" where
  "table st = map_of (hd (gensyms st))"

text \<open>What a step yields, whatever the table of the whole template turns out to be.\<close>

definition yields :: "'a rd \<Rightarrow> reader \<Rightarrow> ((string \<times> string) list \<Rightarrow> 'a \<Rightarrow> bool) \<Rightarrow> bool" where
  "yields m st P \<longleftrightarrow>
     (\<exists>a st'. m st = (Inr a, st') \<and> table st \<subseteq>\<^sub>m table st' \<and> (\<forall>T. table st' \<subseteq>\<^sub>m map_of T \<longrightarrow> P T a))"

lemma yields_ret: "(\<And>T. table st \<subseteq>\<^sub>m map_of T \<Longrightarrow> P T a) \<Longrightarrow> yields (retR a) st P"
  by (simp add: yields_def retR_def)

lemma yields_bind:
  assumes "yields m st P" "\<And>a st'. yields (f a) st' (\<lambda>T b. P T a \<longrightarrow> Q T b)"
  shows "yields (bindR m f) st Q"
proof -
  obtain a s1 where 1: "m st = (Inr a, s1)" "table st \<subseteq>\<^sub>m table s1" "\<And>T. table s1 \<subseteq>\<^sub>m map_of T \<Longrightarrow> P T a"
    using assms(1) by (auto simp: yields_def)
  obtain b s2 where 2: "f a s1 = (Inr b, s2)" "table s1 \<subseteq>\<^sub>m table s2" "\<And>T. table s2 \<subseteq>\<^sub>m map_of T \<Longrightarrow> P T a \<Longrightarrow> Q T b"
    using assms(2) [of a s1] by (auto simp: yields_def)
  have "Q T b" if "table s2 \<subseteq>\<^sub>m map_of T" for T
    using that 1(3) 2(3) map_le_trans [OF 2(2) that] by blast
  with 1 2 show ?thesis by (auto simp: yields_def bindR_def intro: map_le_trans)
qed

lemma yields_mapR:
  assumes "\<And>x st. x \<in> set xs \<Longrightarrow> yields (f x) st (\<lambda>T. g T x)"
  shows "yields (mapR f xs) st (\<lambda>T. list_all2 (g T) xs)"
  using assms
proof (induction xs arbitrary: st)
  case (Cons x xs)
  show ?case unfolding mapR.simps
    by (rule yields_bind [OF Cons.prems [of x]], simp, rule yields_bind [OF Cons.IH [OF Cons.prems]], simp, rule yields_ret, simp)
qed (simp add: yields_ret)

lemma templateSymbol_alt:
  "templateSymbol E sp =
     (if autoGensym sp then
        bindR (getR (\<lambda>st. map_of (hd (gensyms st)) sp)) (\<lambda>found.
          case found of
            Some s \<Rightarrow> retR s
          | None \<Rightarrow>
              bindR nextGensymId (\<lambda>n.
                let fresh = butlast sp @ ''__'' @ dec n @ ''__auto__'' in
                bindR (modifyR (\<lambda>st. st\<lparr>gensyms := ((sp, fresh) # hd (gensyms st)) # tl (gensyms st)\<rparr>)) (\<lambda>_.
                  retR fresh)))
      else retR (case resolver E of Some r \<Rightarrow> r sp | None \<Rightarrow> sp))"
  unfolding templateSymbol_def autoGensym_def ..

lemma templateSymbol_yields: "yields (templateSymbol E sp) st (\<lambda>T s. s = symbolIn E T sp)"
proof (cases "autoGensym sp")
  case True
  have known: "symbolIn E T sp = s" if "t \<subseteq>\<^sub>m map_of T" "t sp = Some s" for T s t
    using that True unfolding map_le_def symbolIn_def by (metis domI option.sel)
  show ?thesis
  proof (cases "map_of (hd (gensyms st)) sp")
    case None
    define s where "s = butlast sp @ ''__'' @ dec (gensymId st + 1) @ ''__auto__''"
    have "table st \<subseteq>\<^sub>m (table st)(sp \<mapsto> s)" using None by (auto simp: map_le_def table_def)
    with True None known [of "(table st)(sp \<mapsto> s)" _ s] show ?thesis
      by (simp add: templateSymbol_alt yields_def bindR_def getR_def nextGensymId_def modifyR_def retR_def Let_def table_def s_def)
  next
    case (Some s)
    with True known [of "table st" _ s] show ?thesis
      by (simp add: templateSymbol_alt yields_def bindR_def getR_def retR_def table_def)
  qed
next
  case False
  then show ?thesis by (auto simp: templateSymbol_alt symbolIn_def intro: yields_ret)
qed

lemma templatePiece_yields:
  assumes "itemOk ok item"
    "ok item \<Longrightarrow> yields (sq item) st (\<lambda>T q. evalForm eq user q = fillIn T item)"
  shows "yields (templatePiece sq item) st (\<lambda>T p. seqItems (evalForm eq user p) = filledPart (evalForm eq user) (fillIn T) item)"
proof -
  have listed: "yields (bindR (sq item) (\<lambda>q. retR (FList [FNamed symList, q]))) st (\<lambda>T p. seqItems (evalForm eq user p) = [fillIn T item])"
    if "ok item"
    by (rule yields_bind [OF assms(2) [OF that]], rule yields_ret, simp)
  consider (splice) x where "item = FList [FNamed symSplice, x]" | (unquote) x where "item = FList [FNamed symUnquote, x]"
    | (other) "\<And>x. item \<noteq> FList [FNamed symSplice, x]" "\<And>x. item \<noteq> FList [FNamed symUnquote, x]"
    by blast
  then show ?thesis
  proof cases
    case splice
    then show ?thesis by (auto simp: templatePiece_def filledPart_def intro!: yields_ret)
  next
    case unquote
    then show ?thesis by (auto simp: templatePiece_def filledPart_def intro!: yields_ret)
  next
    case other
    then have "templatePiece sq item = bindR (sq item) (\<lambda>q. retR (FList [FNamed symList, q]))"
      "\<And>T. filledPart (evalForm eq user) (fillIn T) item = [fillIn T item]" "ok item"
      using assms(1) unfolding itemOk_def templatePiece_def filledPart_def by (auto split: form.splits list.splits)
    then show ?thesis using listed by simp
  qed
qed

lemma parts_even:
  "list_all (\<lambda>i. \<not> spliced i) xs \<Longrightarrow> length (concat (map (filledPart ev fillIn) xs)) = length xs"
  by (induction xs) (auto simp: filledPart_def spliced_def split: form.splits list.splits if_splits)

lemma build_total:
  "b \<in> {''clojure.core/vector'', ''clojure.core/hash-set''} \<or> b = ''clojure.core/hash-map'' \<and> even (length xs) \<Longrightarrow>
     \<exists>v. build eq b xs = Some v"
  by (auto simp: build_def)

lemma flattened_even: "even (length (concat (map (\<lambda>(k, v). [k, v]) m)))"
  by (induction m) auto

lemma templateItems_shape:
  assumes "templateItems E f = Some (b, xs)"
  shows "b = None \<and> f = FList xs \<or> (\<exists>b'. b = Some b' \<and> (\<forall>ys. f \<noteq> FList ys) \<and> (\<forall>s. f \<noteq> FNamed s) \<and> f \<notin> {FNil, FTrue, FFalse} \<and>
    (b' \<in> {''clojure.core/vector'', ''clojure.core/hash-set''} \<or> b' = ''clojure.core/hash-map'' \<and> even (length xs)))"
  using assms flattened_even by (cases f) (auto simp: templateItems_def)

lemma parts_eval:
  "list_all2 (\<lambda>i p. seqItems (evalForm eq user p) = filledPart ev fillIn i) xs ps \<Longrightarrow>
     concat (map (\<lambda>p. seqItems (evalForm eq user p)) ps) = concat (map (filledPart ev fillIn) xs)"
  by (induction rule: list_all2_induct) auto

lemma syntaxQuote_yields:
  "templateOk E d f \<Longrightarrow> yields (syntaxQuote E d tok f) st (\<lambda>T q. evalForm (keyEq E) user q = filled E user T d f)"
proof (induction d arbitrary: f st)
  case (Suc d)
  let ?ev = "evalForm (keyEq E) user" and ?in = "\<lambda>T. filled E user T d"
  show ?case
  proof (cases "templateItems E f")
    case None
    then show ?thesis
      by (cases f)
        (auto simp: templateItems_def intro!: yields_ret yields_bind [OF templateSymbol_yields])
  next
    case (Some bxs)
    obtain b xs where bxs: "bxs = (b, xs)" by (cases bxs)
    note shape = templateItems_shape [OF Some [unfolded bxs]]
    consider (empty) "f = FList []" | (unquote) "b = None" "f = FList xs" "hd xs = FNamed symUnquote" "length xs = 2"
      | (items) "f \<noteq> FList []" "\<not> (b = None \<and> hd xs \<in> {FNamed symUnquote, FNamed symSplice})" "list_all (itemOk (templateOk E d)) xs"
          "b = Some ''clojure.core/hash-map'' \<longrightarrow> list_all (\<lambda>i. \<not> spliced i) xs"
      using Suc.prems Some bxs shape by auto
    then show ?thesis
    proof cases
      case empty
      then show ?thesis by (auto simp: templateItems_def intro!: yields_ret)
    next
      case unquote
      then show ?thesis by (auto simp: templateItems_def intro!: yields_ret)
    next
      case items
      have sq: "syntaxQuote E (Suc d) tok f = bindR (mapR (templatePiece (syntaxQuote E d tok)) xs) (\<lambda>ps. retR (assemble b ps))"
        using items(1,2) Some bxs shape by (cases f) (auto simp: templateItems_def)
      have built: "?ev (assemble b ps) = filled E user T (Suc d) f"
        if "list_all2 (\<lambda>i p. seqItems (?ev p) = filledPart ?ev (?in T) i) xs ps" for T ps
      proof (cases b)
        case None
        with items shape have "f = FList xs" "xs \<noteq> []" "hd xs \<noteq> FNamed symUnquote" by auto
        with None show ?thesis by (simp add: eval_assemble parts_eval [OF that] del: evalForm.simps)
      next
        case (Some b')
        let ?parts = "concat (map (filledPart ?ev (?in T)) xs)"
        have "b' \<in> {''clojure.core/vector'', ''clojure.core/hash-set''} \<or> b' = ''clojure.core/hash-map'' \<and> even (length ?parts)"
          using shape Some items(4) parts_even [of xs ?ev "?in T"] by auto
        then obtain v where v: "build (keyEq E) b' ?parts = Some v" using build_total by blast
        then have "?ev (assemble b ps) = v" unfolding Some by (intro eval_assemble(2)) (simp only: parts_eval [OF that])
        moreover have "filled E user T (Suc d) f = v"
          using \<open>templateItems E f = Some bxs\<close> bxs Some shape v by (cases f) (auto simp del: evalForm.simps)
        ultimately show ?thesis by simp
      qed
      have "yields (mapR (templatePiece (syntaxQuote E d tok)) xs) st
          (\<lambda>T. list_all2 (\<lambda>i p. seqItems (?ev p) = filledPart ?ev (?in T) i) xs)"
        using items(3) Suc.IH by (intro yields_mapR templatePiece_yields [of "templateOk E d"]) (auto simp: list_all_iff)
      then show ?thesis unfolding sq
        by (rule yields_bind, intro yields_ret impI built)
    qed
  qed
qed simp

section \<open>The expansion builds the template\<close>

text \<open>C16.
  A syntax-quote of a template whose unquotes are well placed expands, without error, to code that builds the template:
  evaluated, with \<^verbatim>\<open>quote\<close>, \<^verbatim>\<open>list\<close>, \<^verbatim>\<open>concat\<close>, \<^verbatim>\<open>seq\<close>, \<^verbatim>\<open>apply\<close> and the three constructors read as clojure.core
  defines them and everything else left to \<open>user\<close>, it is the template with each \<^verbatim>\<open>~x\<close> replaced by the value of \<open>x\<close>,
  each \<^verbatim>\<open>~@x\<close> by the items of that value, each symbol resolved, and each \<^verbatim>\<open>x#\<close> the one generated symbol the
  table of the whole template holds for it. The entries the table held before are kept.
\<close>

theorem syntaxQuote_builds:
  assumes "templateOk E d f"
  shows "\<exists>code st'. syntaxQuote E d tok f st = (Inr code, st') \<and>
           map_of (hd (gensyms st)) \<subseteq>\<^sub>m map_of (hd (gensyms st')) \<and>
           evalForm (keyEq E) user code = filled E user (hd (gensyms st')) d f"
  using syntaxQuote_yields [OF assms, of tok st user] by (auto simp: yields_def table_def)

theorem syntaxQuote_builds_witness:
  "\<forall>tok. \<exists>code st'. syntaxQuote (\<lparr>resolver = None, edn = False, hasInfo = False, recordPositions = False, keyEq = (=),
       compilePattern = (\<lambda>_. None), walkMap = id, walkSet = id, stackMessage = []\<rparr>) 2 tok
       (FList [FNamed ''f'', FList [FNamed symUnquote, FNamed ''x''], FList [FNamed symSplice, FNamed ''ys'']]) (newReader []) = (Inr code, st') \<and>
     evalForm (=) (\<lambda>f. if f = FNamed ''ys'' then FVec [FInt 1, FInt 2] else FStr ''v'') code =
       FList [FNamed ''f'', FStr ''v'', FInt 1, FInt 2]"
proof
  fix tok
  define E where "E = \<lparr>resolver = None, edn = False, hasInfo = False, recordPositions = False, keyEq = (=),
       compilePattern = (\<lambda>_. None), walkMap = id, walkSet = id, stackMessage = []\<rparr>"
  define f where "f = FList [FNamed ''f'', FList [FNamed symUnquote, FNamed ''x''], FList [FNamed symSplice, FNamed ''ys'']]"
  let ?user = "\<lambda>f. if f = FNamed ''ys'' then FVec [FInt 1, FInt 2] else FStr ''v''"
  have "templateOk E 2 f"
    by (simp add: E_def f_def numeral_2_eq_2 templateItems_def itemOk_def sym_defs)
  moreover have "filled E ?user T 2 f = FList [FNamed ''f'', FStr ''v'', FInt 1, FInt 2]" for T
    by (simp add: E_def f_def numeral_2_eq_2 filledPart_def sym_defs seqOf_def seqItems_def symbolIn_def autoGensym_def)
  ultimately show "\<exists>code st'. syntaxQuote \<lparr>resolver = None, edn = False, hasInfo = False, recordPositions = False, keyEq = (=),
       compilePattern = (\<lambda>_. None), walkMap = id, walkSet = id, stackMessage = []\<rparr> 2 tok
       (FList [FNamed ''f'', FList [FNamed symUnquote, FNamed ''x''], FList [FNamed symSplice, FNamed ''ys'']]) (newReader []) = (Inr code, st') \<and>
     evalForm (=) ?user code = FList [FNamed ''f'', FStr ''v'', FInt 1, FInt 2]"
    using syntaxQuote_builds [of E 2 f tok "newReader []" ?user] unfolding E_def f_def by fastforce
qed

end
