(* ===== verification/Names.thy ===== *)
theory Names
  imports Prelude
begin

text \<open>
  Names: how the compiler and syntax-quote read a symbol (src/compiler/Compiler.cpp, src/compiler/Eval.cpp,
  src/runtime/Macros.cpp), and the built-in exception classes (src/runtime/Exceptions.cpp). There are no
  namespaces: a qualified symbol is one string, and the functions here take it apart. The table of
  aliases, the globals and whether core.clj is loading are parameters.
\<close>

section \<open>Qualified symbols\<close>

definition isKeywordName :: "string \<Rightarrow> bool" where
  "isKeywordName s \<longleftrightarrow> s \<noteq> [] \<and> hd s = CHR '':''"

definition kCore :: string where "kCore = ''clojure.core/''"

text \<open>The name without \<^verbatim>\<open>clojure.core/\<close>, when it has that qualifier.\<close>

definition stripCoreQualifier :: "string \<Rightarrow> string option" where
  "stripCoreQualifier s =
     (if length s \<le> length kCore \<or> take (length kCore) s \<noteq> kCore then None else Some (drop (length kCore) s))"

definition isUserQualified :: "string \<Rightarrow> bool" where
  "isUserQualified s \<longleftrightarrow> length s > 5 \<and> take 5 s = ''user/''"

text \<open>The part before the first slash, and the part after it.\<close>

definition prefixOf :: "string \<Rightarrow> string" where
  "prefixOf s = takeWhile (\<lambda>c. c \<noteq> CHR ''/'') s"

definition memberOf :: "string \<Rightarrow> string" where
  "memberOf s = drop (length (prefixOf s) + 1) s"

definition isQualifiedName :: "string \<Rightarrow> bool" where
  "isQualifiedName s \<longleftrightarrow>
     \<not> (length s < 3 \<or> hd s = CHR '':'') \<and> CHR ''/'' \<in> set s \<and> 0 < length (prefixOf s) \<and>
     length (prefixOf s) + 1 < length s"

section \<open>Macros.cpp\<close>

definition isSpecialFormName :: "string \<Rightarrow> bool" where
  "isSpecialFormName s \<longleftrightarrow> s \<in> set
     [''def'', ''if'', ''do'', ''let*'', ''loop*'', ''fn*'', ''quote'', ''var'', ''recur'',
      ''throw'', ''try'', ''catch'', ''finally'', ''new'', ''set!'', ''letfn*'', ''case*'',
      ''.'', ''&'', ''monitor-enter'', ''monitor-exit'', ''import*'', ''deftype*'',
      ''reify*'', ''let'', ''loop'', ''fn'']"

definition globalKeyForSymbol :: "string \<Rightarrow> string option" where
  "globalKeyForSymbol s =
     (if s = [] \<or> hd s = CHR '':'' then None
      else Some (if length s > 5 \<and> take 5 s = ''user/'' then drop 5 s else s))"

definition isKnownNamespace :: "string \<Rightarrow> bool" where
  "isKnownNamespace ns \<longleftrightarrow> ns \<in> set
     [''clojure.core'', ''clojure.string'', ''clojure.set'', ''clojure.java.io'', ''clojure.java.shell'',
      ''clojure.edn'', ''cheshire.core'', ''clojure.data.json'']"

section \<open>Library namespaces\<close>

text \<open>The namespaces whose functions are built-ins, and those whose functions are members of an object.\<close>

definition builtinNamespaces :: "(string \<times> string list) list" where
  "builtinNamespaces =
     [(''clojure.string/'',
        [''blank?'', ''ends-with?'', ''includes?'', ''index-of'', ''join'', ''lower-case'', ''replace'',
         ''replace-first'', ''reverse'', ''split'', ''split-lines'', ''starts-with?'', ''trim'', ''triml'',
         ''trimr'', ''upper-case'']),
      (''clojure.set/'', [''union'', ''intersection'', ''difference'', ''subset?'', ''superset?'']),
      (''clojure.java.io/'', [''reader'', ''writer'', ''file'', ''copy'', ''delete-file'', ''make-parents'']),
      (''clojure.java.shell/'', [''sh''])]"

definition objectNamespaces :: "(string \<times> string list) list" where
  "objectNamespaces =
     [(''clojure.edn/'', [''read-string'']),
      (''cheshire.core/'',
        [''parse-string'', ''generate-string'', ''parse-stream'', ''generate-stream'', ''decode'', ''encode'']),
      (''clojure.data.json/'', [''read-str'', ''write-str'', ''read'', ''write''])]"

text \<open>The entry of a table that provides a name.\<close>

definition providing :: "string \<Rightarrow> string \<times> string list \<Rightarrow> bool" where
  "providing s e \<longleftrightarrow> take (length (fst e)) s = fst e \<and> drop (length (fst e)) s \<in> set (snd e)"

definition resolveAlias :: "(string \<Rightarrow> string option) \<Rightarrow> string \<Rightarrow> string" where
  "resolveAlias namespaceAlias s =
     (if CHR ''/'' \<in> set s \<and> 0 < length (prefixOf s) \<and> length (prefixOf s) + 1 < length s then
        (case namespaceAlias (prefixOf s) of
           Some ns \<Rightarrow> ns @ drop (length (prefixOf s)) s
         | None \<Rightarrow> s)
      else s)"

text \<open>The name as the compiler goes on with it, or the message of the compile error.\<close>

definition aliasLibraryNamespace :: "(string \<Rightarrow> string option) \<Rightarrow> string \<Rightarrow> string + string" where
  "aliasLibraryNamespace namespaceAlias written =
     (if written = [] \<or> hd written = CHR '':'' then Inr written
      else
        let s = resolveAlias namespaceAlias written in
        if take (length kCore) s = kCore then Inr s
        else if list_ex (providing s) objectNamespaces then Inr s
        else
          case find (providing s) builtinNamespaces of
            Some e \<Rightarrow> Inr (kCore @ drop (length (fst e)) s)
          | None \<Rightarrow>
              if CHR ''/'' \<in> set written \<and> isKnownNamespace (prefixOf s)
              then Inl (''No such var: '' @ written)
              else Inr s)"

section \<open>The built-in exception classes\<close>

text \<open>Name, package and parent of each class; its index is its id.\<close>

definition kExceptionClasses :: "(string \<times> string \<times> int) list" where
  "kExceptionClasses =
     [(''Throwable'', ''java.lang'', - 1),
      (''Exception'', ''java.lang'', 0),
      (''Error'', ''java.lang'', 0),
      (''RuntimeException'', ''java.lang'', 1),
      (''ExceptionInfo'', ''clojure.lang'', 3),
      (''ArithmeticException'', ''java.lang'', 3),
      (''ClassCastException'', ''java.lang'', 3),
      (''IllegalArgumentException'', ''java.lang'', 3),
      (''ArityException'', ''clojure.lang'', 7),
      (''NumberFormatException'', ''java.lang'', 7),
      (''IllegalStateException'', ''java.lang'', 3),
      (''IndexOutOfBoundsException'', ''java.lang'', 3),
      (''StringIndexOutOfBoundsException'', ''java.lang'', 11),
      (''NullPointerException'', ''java.lang'', 3),
      (''UnsupportedOperationException'', ''java.lang'', 3),
      (''IOException'', ''java.io'', 1),
      (''FileNotFoundException'', ''java.io'', 15),
      (''SocketException'', ''java.net'', 15),
      (''ConnectException'', ''java.net'', 17),
      (''SocketTimeoutException'', ''java.net'', 15),
      (''UnknownHostException'', ''java.net'', 15),
      (''ExecutionException'', ''java.util.concurrent'', 1),
      (''StackOverflowError'', ''java.lang'', 2),
      (''PatternSyntaxException'', ''java.util.regex'', 7)]"

fun classIdFrom :: "int \<Rightarrow> (string \<times> string \<times> int) list \<Rightarrow> string \<Rightarrow> int" where
  "classIdFrom i [] s = - 1"
| "classIdFrom i ((n, package, parent) # cs) s =
     (if s = n \<or> s = package @ ''.'' @ n then i else classIdFrom (i + 1) cs s)"

definition exceptionClassId :: "string \<Rightarrow> int" where
  "exceptionClassId s = classIdFrom 0 kExceptionClasses s"

definition exceptionClassName :: "int \<Rightarrow> string" where
  "exceptionClassName c =
     (if 0 \<le> c \<and> c < int (length kExceptionClasses) then fst (kExceptionClasses ! nat c) else ''Throwable'')"

definition classParent :: "int \<Rightarrow> int" where
  "classParent c = snd (snd (kExceptionClasses ! nat c))"

text \<open>A parent always precedes its children in the table, so the walk ends.\<close>

lemma parent_precedes:
  assumes "0 \<le> c" "c < int (length kExceptionClasses)"
  shows "classParent c < c \<and> - 1 \<le> classParent c"
proof -
  have "list_all (\<lambda>i. snd (snd (kExceptionClasses ! i)) < int i \<and> - 1 \<le> snd (snd (kExceptionClasses ! i))) [0..<length kExceptionClasses]"
    by code_simp
  then have "\<forall>i<length kExceptionClasses. snd (snd (kExceptionClasses ! i)) < int i \<and> - 1 \<le> snd (snd (kExceptionClasses ! i))"
    by (simp add: list_all_iff)
  with assms show ?thesis by (auto simp: classParent_def dest!: spec [of _ "nat c"])
qed

function exceptionClassIsA :: "int \<Rightarrow> int \<Rightarrow> bool" where
  "exceptionClassIsA cls ancestor =
     (if 0 \<le> cls \<and> cls < int (length kExceptionClasses)
      then cls = ancestor \<or> exceptionClassIsA (classParent cls) ancestor
      else False)"
  by pat_completeness auto
termination
  by (relation "measure (\<lambda>(cls, _). nat (cls + 1))") (use parent_precedes in fastforce)+

declare exceptionClassIsA.simps [simp del]

section \<open>The symbols of a syntax-quote\<close>

definition kSpecials :: "string list" where
  "kSpecials =
     [''def'', ''loop*'', ''recur'', ''if'', ''case*'', ''let*'', ''letfn*'', ''do'', ''fn*'',
      ''quote'', ''var'', ''import*'', ''.'', ''set!'', ''deftype*'', ''reify*'', ''try'',
      ''throw'', ''monitor-enter'', ''monitor-exit'', ''catch'', ''finally'', ''new'', ''&'']"

definition kCompilerForms :: "string list" where
  "kCompilerForms = [''let'', ''loop'', ''fn'', ''defn'', ''defmacro'', ''and'', ''or'', ''apply'']"

text \<open>The globals: none on a thread that runs no evaluator, else the value under each key.\<close>

definition qualifySyntaxQuoteSymbol :: "(string \<Rightarrow> 'v option) option \<Rightarrow> bool \<Rightarrow> string \<Rightarrow> string" where
  "qualifySyntaxQuoteSymbol globals coreActive s =
     (if s \<in> set kSpecials then s
      else if s = ''/'' then ''clojure.core//''
      else if CHR ''/'' \<in> set s then s
      else if CHR ''.'' \<in> set s then s
      else if exceptionClassId s \<ge> 0 \<or> s = ''Object'' then s
      else if s \<in> set kCompilerForms then kCore @ s
      else if coreActive then kCore @ s
      else
        case globals of
          None \<Rightarrow> s
        | Some g \<Rightarrow>
            if g (kCore @ s) \<noteq> None \<and> (g s = None \<or> g s = g (kCore @ s)) then kCore @ s
            else ''user/'' @ s)"

end
