(* ===== verification/CompilerState.thy ===== *)
theory CompilerState
  imports Reader Bytecode Names "HOL-Library.AList"
begin

text \<open>
  The state of the compiler (src/compiler/Compiler.h) and what its forms share: the module being built, the
  scopes of the functions being compiled with their locals and captures, and the emission of code.

  A module that is finished is in \<open>made\<close>, and its index there is the pointer a block holds. The last scope of
  \<^verbatim>\<open>scopes_\<close> is the head of \<open>scopes\<close>. Debug information is left out: it is compiled only when positions are
  recorded. What the compiler asks the runtime is a parameter, over a world a macro may change.
\<close>

section \<open>The state\<close>

datatype compileError = CompileError string | LimitError error | CompileOverflow string

record recurTarget =
  bodyStart :: nat
  recurSlots :: "nat list"
  targetDepth :: nat

record scope =
  nameToSlot :: "(string \<times> nat) list"
  nextSlot :: nat
  scopeArity :: nat
  scopeCaptures :: "(nat \<times> nat) list"
  recurStack :: "recurTarget list"
  tryDepth :: nat

record 'w comp =
  out :: BytecodeModule
  made :: "BytecodeModule list"
  scopes :: "scope list"
  freshId :: nat
  compWorld :: 'w

record 'w compEnv =
  coreNamespaceActive :: bool
  namespaceAlias :: "string \<Rightarrow> string option"
  globalMacro :: "'w \<Rightarrow> string \<Rightarrow> obj option"
  expandMacroCall :: "obj \<Rightarrow> string \<Rightarrow> form \<Rightarrow> form \<Rightarrow> 'w \<Rightarrow> (string + form) \<times> 'w"
  operatorRedefined :: "'w \<Rightarrow> string \<Rightarrow> bool"
  mapFormEntries :: "(form \<times> form) list \<Rightarrow> (form \<times> form) list"
  setElements :: "form list \<Rightarrow> form list"
  symbolObj :: "string \<Rightarrow> obj"
  namedObj :: "string \<Rightarrow> obj"
  datumObj :: "form \<Rightarrow> obj"
  doubleBits :: "cdouble \<Rightarrow> 64 word"
  printedForm :: "form \<Rightarrow> string"
  overflowMessage :: string

type_synonym ('w, 'a) cm = "'w comp \<Rightarrow> (compileError + 'a) \<times> 'w comp"

definition retC :: "'a \<Rightarrow> ('w, 'a) cm" where
  "retC a st = (Inr a, st)"

definition throwC :: "compileError \<Rightarrow> ('w, 'a) cm" where
  "throwC e st = (Inl e, st)"

definition bindC :: "('w, 'a) cm \<Rightarrow> ('a \<Rightarrow> ('w, 'b) cm) \<Rightarrow> ('w, 'b) cm" where
  "bindC m f st = (case m st of (Inl e, st1) \<Rightarrow> (Inl e, st1) | (Inr a, st1) \<Rightarrow> f a st1)"

definition thenC :: "('w, 'a) cm \<Rightarrow> ('w, 'b) cm \<Rightarrow> ('w, 'b) cm" where
  "thenC m n = bindC m (\<lambda>_. n)"

definition getC :: "('w comp \<Rightarrow> 'a) \<Rightarrow> ('w, 'a) cm" where
  "getC f st = (Inr (f st), st)"

definition modifyC :: "('w comp \<Rightarrow> 'w comp) \<Rightarrow> ('w, unit) cm" where
  "modifyC f st = (Inr (), f st)"

definition compileError :: "string \<Rightarrow> ('w, 'a) cm" where
  "compileError msg = throwC (CompileError msg)"

fun mapC :: "('a \<Rightarrow> ('w, 'b) cm) \<Rightarrow> 'a list \<Rightarrow> ('w, 'b list) cm" where
  "mapC f [] = retC []"
| "mapC f (x # xs) = bindC (f x) (\<lambda>y. bindC (mapC f xs) (\<lambda>ys. retC (y # ys)))"

fun eachC :: "('a \<Rightarrow> ('w, unit) cm) \<Rightarrow> 'a list \<Rightarrow> ('w, unit) cm" where
  "eachC f [] = retC ()"
| "eachC f (x # xs) = thenC (f x) (eachC f xs)"

definition messageOr :: "string + 'a \<Rightarrow> ('w, 'a) cm" where
  "messageOr r = (case r of Inl msg \<Rightarrow> compileError msg | Inr a \<Rightarrow> retC a)"

section \<open>Emission\<close>

definition addC :: "(BytecodeModule \<Rightarrow> nat \<times> BytecodeModule) \<Rightarrow> ('w, nat) cm" where
  "addC add st = (let (i, m) = add (out st) in (Inr i, st\<lparr>out := m\<rparr>))"

definition emitAt :: "Op \<Rightarrow> nat \<Rightarrow> ('w, nat) cm" where
  "emitAt op n st =
     (case emit op n (out st) of
        Inl e \<Rightarrow> (Inl (LimitError e), st)
      | Inr (i, m) \<Rightarrow> (Inr i, st\<lparr>out := m\<rparr>))"

definition emitC :: "Op \<Rightarrow> nat \<Rightarrow> ('w, unit) cm" where
  "emitC op n = thenC (emitAt op n) (retC ())"

definition posC :: "('w, nat) cm" where
  "posC = getC (\<lambda>st. length (code (out st)))"

definition patchC :: "nat \<Rightarrow> nat \<Rightarrow> ('w, unit) cm" where
  "patchC i n st =
     (case patchOperand i n (out st) of
        Inl e \<Rightarrow> (Inl (LimitError e), st)
      | Inr m \<Rightarrow> (Inr (), st\<lparr>out := m\<rparr>))"

text \<open>A forward jump at \<open>i\<close> lands at the current position.\<close>

definition patchHere :: "nat \<Rightarrow> ('w, unit) cm" where
  "patchHere i = bindC posC (\<lambda>end. patchC i (end - (i + 1)))"

definition emitConst :: "Op \<Rightarrow> (BytecodeModule \<Rightarrow> nat \<times> BytecodeModule) \<Rightarrow> ('w, unit) cm" where
  "emitConst op add = bindC (addC add) (\<lambda>i. emitC op i)"

definition symC :: "'w compEnv \<Rightarrow> string \<Rightarrow> BytecodeModule \<Rightarrow> nat \<times> BytecodeModule" where
  "symC E s = addSymbol (symbolObj E) s"

text \<open>A literal integer: as 64 bits when it fits, else by its digits.\<close>

definition addIntegerConst :: "int \<Rightarrow> BytecodeModule \<Rightarrow> nat \<times> BytecodeModule" where
  "addIntegerConst v = (if - (2 ^ 63) \<le> v \<and> v < 2 ^ 63 then addLong v else addBigInteger (int_dec v))"

definition emitStoreGlobal :: "'w compEnv \<Rightarrow> string \<Rightarrow> ('w, unit) cm" where
  "emitStoreGlobal E key =
     thenC (emitConst STORE_GLOBAL (symC E key))
       (if coreNamespaceActive E then emitConst STORE_GLOBAL (symC E (kCore @ key)) else retC ())"

section \<open>Scopes\<close>

definition newScope :: scope where
  "newScope = \<lparr>nameToSlot = [], nextSlot = 0, scopeArity = 0, scopeCaptures = [], recurStack = [], tryDepth = 0\<rparr>"

definition inScope :: "(scope \<Rightarrow> scope) \<Rightarrow> ('w, unit) cm" where
  "inScope f = modifyC (\<lambda>st. st\<lparr>scopes := f (hd (scopes st)) # tl (scopes st)\<rparr>)"

definition topScope :: "(scope \<Rightarrow> 'a) \<Rightarrow> ('w, 'a) cm" where
  "topScope f = getC (\<lambda>st. f (hd (scopes st)))"

definition slotOf :: "string \<Rightarrow> scope \<Rightarrow> nat option" where
  "slotOf name sc = map_of (nameToSlot sc) name"

definition setSlot :: "string \<Rightarrow> nat \<Rightarrow> scope \<Rightarrow> scope" where
  "setSlot name slot sc = sc\<lparr>nameToSlot := AList.update name slot (nameToSlot sc)\<rparr>"

definition freshSlot :: "('w, nat) cm" where
  "freshSlot = bindC (topScope nextSlot) (\<lambda>n. thenC (inScope (\<lambda>sc. sc\<lparr>nextSlot := n + 1\<rparr>)) (retC n))"

text \<open>
  \<^verbatim>\<open>resolveLocal\<close>: the slot of a local in the innermost scope. One of an outer function is captured by every
  function in between, each from the slot of the one around it.
\<close>

fun resolveIn :: "string \<Rightarrow> scope list \<Rightarrow> (nat \<times> scope list) option" where
  "resolveIn name [] = None"
| "resolveIn name (sc # outer) =
     (case slotOf name sc of
        Some slot \<Rightarrow> Some (slot, sc # outer)
      | None \<Rightarrow>
          (case resolveIn name outer of
             None \<Rightarrow> None
           | Some (source, outer') \<Rightarrow>
               let new = nextSlot sc in
               Some (new, setSlot name new (sc\<lparr>nextSlot := new + 1, scopeCaptures := scopeCaptures sc @ [(source, new)]\<rparr>) # outer')))"

definition resolveLocal :: "string \<Rightarrow> ('w, nat option) cm" where
  "resolveLocal name st =
     (case resolveIn name (scopes st) of
        None \<Rightarrow> (Inr None, st)
      | Some (slot, scs) \<Rightarrow> (Inr (Some slot), st\<lparr>scopes := scs\<rparr>))"

definition isLocalName :: "string \<Rightarrow> scope list \<Rightarrow> bool" where
  "isLocalName name scs \<longleftrightarrow> list_ex (\<lambda>sc. slotOf name sc \<noteq> None) scs"

text \<open>\<^verbatim>\<open>BindingRestore\<close>: a binding gets a fresh slot; what it shadowed is put back in reverse order.\<close>

definition bindName :: "string \<Rightarrow> ('w, nat \<times> string \<times> nat option) cm" where
  "bindName name =
     bindC (topScope (slotOf name)) (\<lambda>shadowed.
     bindC freshSlot (\<lambda>slot.
     thenC (inScope (setSlot name slot)) (retC (slot, name, shadowed))))"

definition restoreName :: "string \<times> nat option \<Rightarrow> scope \<Rightarrow> scope" where
  "restoreName saved sc =
     (case saved of
        (name, Some slot) \<Rightarrow> setSlot name slot sc
      | (name, None) \<Rightarrow> sc\<lparr>nameToSlot := AList.delete name (nameToSlot sc)\<rparr>)"

definition restoreNames :: "(string \<times> nat option) list \<Rightarrow> ('w, unit) cm" where
  "restoreNames saved = inScope (fold restoreName (rev saved))"

section \<open>Forms\<close>

definition formAt :: "form list \<Rightarrow> nat \<Rightarrow> form" where
  "formAt lst i = (if i < length lst then lst ! i else FNil)"

definition isNameForm :: "form \<Rightarrow> bool" where
  "isNameForm f \<longleftrightarrow> (case f of FNamed s \<Rightarrow> True | _ \<Rightarrow> False)"

definition nameOf :: "form \<Rightarrow> string" where
  "nameOf f = (case f of FNamed s \<Rightarrow> s | _ \<Rightarrow> [])"

definition isKeywordForm :: "form \<Rightarrow> bool" where
  "isKeywordForm f \<longleftrightarrow> isNameForm f \<and> isKeywordName (nameOf f)"

definition isListForm :: "form \<Rightarrow> bool" where
  "isListForm f \<longleftrightarrow> (case f of FList xs \<Rightarrow> True | _ \<Rightarrow> False)"

definition isVectorForm :: "form \<Rightarrow> bool" where
  "isVectorForm f \<longleftrightarrow> (case f of FVec xs \<Rightarrow> True | _ \<Rightarrow> False)"

definition isMapForm :: "form \<Rightarrow> bool" where
  "isMapForm f \<longleftrightarrow> (case f of FMap m \<Rightarrow> True | _ \<Rightarrow> False)"

definition isStringForm :: "form \<Rightarrow> bool" where
  "isStringForm f \<longleftrightarrow> (case f of FStr s \<Rightarrow> True | _ \<Rightarrow> False)"

text \<open>The elements of a list or a vector form.\<close>

definition itemsOf :: "form \<Rightarrow> form list" where
  "itemsOf f = (case f of FList xs \<Rightarrow> xs | FVec xs \<Rightarrow> xs | _ \<Rightarrow> [])"

definition entries :: "'w compEnv \<Rightarrow> form \<Rightarrow> (form \<times> form) list" where
  "entries E f = (case f of FMap m \<Rightarrow> mapFormEntries E m | _ \<Rightarrow> [])"

definition freshSymbol :: "string \<Rightarrow> ('w, form) cm" where
  "freshSymbol prefix =
     bindC (getC freshId) (\<lambda>n.
     thenC (modifyC (\<lambda>st. st\<lparr>freshId := n + 1\<rparr>)) (retC (FNamed (prefix @ dec (n + 1)))))"

end
