(* ===== verification/Destructure.thy ===== *)
theory Destructure
  imports CompilerState
begin

text \<open>
  Destructuring (\<^verbatim>\<open>Compiler::destructure\<close>): a binding form becomes the symbol/expression pairs that bind its
  parts, in order, over generated locals. The argument \<open>d\<close> is the native stack.
\<close>

definition sym :: "string \<Rightarrow> form" where
  "sym s = FNamed s"

definition call :: "string \<Rightarrow> form list \<Rightarrow> form" where
  "call f args = FList (sym f # args)"

definition amp :: form where "amp = sym ''&''"
definition asKw :: form where "asKw = sym '':as''"

definition unsupported :: "'w compEnv \<Rightarrow> form \<Rightarrow> string" where
  "unsupported E f = ''Unsupported binding form: '' @ printedForm E f"

type_synonym bindings = "(form \<times> form) list"

section \<open>Vectors\<close>

text \<open>The items of a vector pattern; \<open>dst\<close> binds a nested pattern, \<open>gseq\<close> is the seq when there is a rest.\<close>

fun destructItems ::
  "(form \<Rightarrow> form \<Rightarrow> ('w, bindings) cm) \<Rightarrow> form \<Rightarrow> form option \<Rightarrow> bool \<Rightarrow> nat \<Rightarrow> form list \<Rightarrow> ('w, bindings) cm" where
  "destructItems dst gvec gseq seenRest index [] = retC []"
| "destructItems dst gvec gseq seenRest index (b # bs) =
     (if b = amp \<or> b = asKw then
        (case bs of
           [] \<Rightarrow> compileError (''Unsupported binding form, missing binding after '' @ (if b = amp then ''&'' else '':as''))
         | target # bs' \<Rightarrow>
             if b = amp then
               if seenRest then compileError ''Unsupported binding form, only :as can follow & parameter''
               else
                 bindC (dst target (the gseq)) (\<lambda>ps.
                 bindC (destructItems dst gvec gseq True index bs') (\<lambda>qs. retC (ps @ qs)))
             else dst target gvec)
      else if seenRest then compileError ''Unsupported binding form, only :as can follow & parameter''
      else
        case gseq of
          Some s \<Rightarrow>
            bindC (freshSymbol ''first__'') (\<lambda>gfirst.
            bindC (dst b gfirst) (\<lambda>ps.
            bindC (destructItems dst gvec gseq seenRest (index + 1) bs) (\<lambda>qs.
              retC ((gfirst, call ''clojure.core/first'' [s]) # (s, call ''clojure.core/next'' [s]) # ps @ qs))))
        | None \<Rightarrow>
            bindC (dst b (call ''clojure.core/nth'' [gvec, FInt (int index), FNil])) (\<lambda>ps.
            bindC (destructItems dst gvec gseq seenRest (index + 1) bs) (\<lambda>qs. retC (ps @ qs))))"

section \<open>Maps\<close>

text \<open>The defaults of \<^verbatim>\<open>:or\<close>, by the name of the local.\<close>

fun orDefaults :: "'w compEnv \<Rightarrow> (form \<times> form) list \<Rightarrow> (string \<times> form) list \<Rightarrow> string + (string \<times> form) list" where
  "orDefaults E [] ds = Inr ds"
| "orDefaults E ((k, v) # ors) ds =
     (if \<not> isNameForm k then Inl ('':or key must be a symbol, got '' @ printedForm E k)
      else orDefaults E ors (AList.update (nameOf k) v ds))"

fun allDefaults :: "'w compEnv \<Rightarrow> (form \<times> form) list \<Rightarrow> (string \<times> form) list \<Rightarrow> string + (string \<times> form) list" where
  "allDefaults E [] ds = Inr ds"
| "allDefaults E ((k, v) # es) ds =
     (if k \<noteq> sym '':or'' then allDefaults E es ds
      else if \<not> isMapForm v then Inl ('':or must be a map, got '' @ printedForm E v)
      else case orDefaults E (entries E v) ds of Inl msg \<Rightarrow> Inl msg | Inr ds' \<Rightarrow> allDefaults E es ds')"

definition getForm :: "form \<Rightarrow> (string \<times> form) list \<Rightarrow> form \<Rightarrow> string \<Rightarrow> form" where
  "getForm gmap defaults key local =
     call ''clojure.core/get'' ([gmap, key] @ (case map_of defaults local of None \<Rightarrow> [] | Some v \<Rightarrow> [v]))"

text \<open>What \<^verbatim>\<open>:keys\<close>, \<^verbatim>\<open>:strs\<close> or \<^verbatim>\<open>:syms\<close> of a namespace binds for one of its names.\<close>

definition keyBinding ::
  "form \<Rightarrow> (string \<times> form) list \<Rightarrow> string \<Rightarrow> string \<Rightarrow> string \<Rightarrow> form \<times> form" where
  "keyBinding gmap defaults what kwNs name =
     (let spelled = (if isKeywordName name then tl name else name);
          slashed = CHR ''/'' \<in> set spelled;
          local = (if slashed then memberOf spelled else spelled);
          full = (if \<not> slashed \<and> kwNs \<noteq> [] then kwNs @ ''/'' @ spelled else spelled);
          key = (if what = ''keys'' then sym ('':'' @ full)
                 else if what = ''strs'' then FStr local
                 else call ''quote'' [sym full])
      in (sym local, getForm gmap defaults key local))"

fun keyBindings ::
  "'w compEnv \<Rightarrow> form \<Rightarrow> (string \<times> form) list \<Rightarrow> string \<Rightarrow> string \<Rightarrow> form list \<Rightarrow> string + bindings" where
  "keyBindings E gmap defaults what kwNs [] = Inr []"
| "keyBindings E gmap defaults what kwNs (s # names) =
     (if \<not> isNameForm s then Inl (unsupported E s)
      else
        case keyBindings E gmap defaults what kwNs names of
          Inl msg \<Rightarrow> Inl msg
        | Inr bs \<Rightarrow> Inr (keyBinding gmap defaults what kwNs (nameOf s) # bs))"

definition keywordEntry ::
  "'w compEnv \<Rightarrow> form \<Rightarrow> (string \<times> form) list \<Rightarrow> string \<Rightarrow> form \<Rightarrow> string + bindings" where
  "keywordEntry E gmap defaults k v =
     (let kw = tl k;
          slashed = CHR ''/'' \<in> set kw;
          what = (if slashed then memberOf kw else kw);
          kwNs = (if slashed then prefixOf kw else [])
      in
        if what \<notin> {''keys'', ''strs'', ''syms''} \<or> what = ''strs'' \<and> kwNs \<noteq> []
        then Inl (''Unsupported binding key: '' @ k)
        else if \<not> isVectorForm v then Inl (k @ '' must be followed by a vector, got '' @ printedForm E v)
        else keyBindings E gmap defaults what kwNs (itemsOf v))"

fun destructEntries ::
  "'w compEnv \<Rightarrow> (form \<Rightarrow> form \<Rightarrow> ('w, bindings) cm) \<Rightarrow> form \<Rightarrow> (string \<times> form) list \<Rightarrow> (form \<times> form) list \<Rightarrow>
     ('w, bindings) cm" where
  "destructEntries E dst gmap defaults [] = retC []"
| "destructEntries E dst gmap defaults ((k, v) # es) =
     bindC
       (if k = sym '':or'' then retC []
        else if k = asKw then
          if \<not> isNameForm v \<or> isKeywordForm v
          then compileError ('':as must be followed by a symbol, got '' @ printedForm E v)
          else retC [(v, gmap)]
        else if isKeywordForm k then messageOr (keywordEntry E gmap defaults (nameOf k) v)
        else if isNameForm k then retC [(k, getForm gmap defaults v (nameOf k))]
        else dst k (call ''clojure.core/get'' [gmap, v]))
       (\<lambda>ps. bindC (destructEntries E dst gmap defaults es) (\<lambda>qs. retC (ps @ qs)))"

section \<open>Patterns\<close>

fun destructure :: "'w compEnv \<Rightarrow> nat \<Rightarrow> form \<Rightarrow> form \<Rightarrow> ('w, bindings) cm" where
  "destructure E 0 pattern value = throwC (CompileOverflow (overflowMessage E))"
| "destructure E (Suc d) pattern value =
     (case pattern of
        FNamed s \<Rightarrow>
          if isKeywordName s then compileError (''Unsupported binding form: '' @ s) else retC [(pattern, value)]
      | FVec items \<Rightarrow>
          bindC (freshSymbol ''vec__'') (\<lambda>gvec.
          bindC (if amp \<in> set items then bindC (freshSymbol ''seq__'') (\<lambda>g. retC (Some g)) else retC None) (\<lambda>gseq.
          bindC (destructItems (destructure E d) gvec gseq False 0 items) (\<lambda>ps.
            retC ((gvec, value) #
              (case gseq of Some g \<Rightarrow> [(g, call ''clojure.core/seq'' [gvec])] | None \<Rightarrow> []) @ ps))))
      | FMap m \<Rightarrow>
          let es = mapFormEntries E m in
          bindC (freshSymbol ''map__'') (\<lambda>gmap.
          bindC (messageOr (allDefaults E es [])) (\<lambda>defaults.
          bindC (destructEntries E (destructure E d) gmap defaults es) (\<lambda>ps.
            retC ((gmap, value) # (gmap, call ''clojure.core/__destructure-map'' [gmap]) # ps))))
      | _ \<Rightarrow> compileError (unsupported E pattern))"

text \<open>A vector of bindings in pairs: none when every pattern is a symbol, else the pairs of all of them.\<close>

definition simpleName :: "form \<Rightarrow> bool" where
  "simpleName b \<longleftrightarrow> isNameForm b \<and> \<not> isKeywordForm b"

fun pairsOf :: "form list \<Rightarrow> bindings" where
  "pairsOf (b # v # r) = (b, v) # pairsOf r"
| "pairsOf r = []"

definition flatten :: "bindings \<Rightarrow> form list" where
  "flatten ps = concat (map (\<lambda>(b, v). [b, v]) ps)"

definition destructureBindings :: "'w compEnv \<Rightarrow> nat \<Rightarrow> form list \<Rightarrow> ('w, form option) cm" where
  "destructureBindings E d bs =
     (let pairs = pairsOf bs in
      if list_all (\<lambda>(b, v). simpleName b) pairs then retC None
      else bindC (mapC (\<lambda>(b, v). destructure E d b v) pairs) (\<lambda>pss. retC (Some (FVec (flatten (concat pss))))))"

end
