(* ===== verification/CompileFn.thy ===== *)
theory CompileFn
  imports Destructure
begin

text \<open>
  The bodies of functions (\<^verbatim>\<open>compileArity\<close>, \<^verbatim>\<open>compileFnBody\<close> and \<^verbatim>\<open>clearLastReads\<close> of
  src/compiler/Compiler.cpp): the parameters with their rest, keyword and destructured forms, the scope of
  the body, and the clearing of locals at their last read. \<open>cf\<close> compiles a form nested in another.
\<close>

type_synonym 'w compiler = "form \<Rightarrow> ('w, unit) cm"

definition bq :: "string \<Rightarrow> string" where
  "bq s = [CHR 0x60] @ s @ [CHR 0x60]"

section \<open>Forms in sequence\<close>

text \<open>An implicit \<^verbatim>\<open>do\<close>: nil for no forms, otherwise the value of the last.\<close>

fun compileSeq :: "'w compiler \<Rightarrow> form list \<Rightarrow> ('w, unit) cm" where
  "compileSeq cf [] = emitC PUSH_NIL 0"
| "compileSeq cf [f] = cf f"
| "compileSeq cf (f # g # fs) = thenC (cf f) (thenC (emitC POP 0) (compileSeq cf (g # fs)))"

section \<open>Parameters\<close>

text \<open>The \<^verbatim>\<open>& {...}\<close> maps that stay keyword parameters: \<^verbatim>\<open>:keys\<close> with plain symbols, \<^verbatim>\<open>:or\<close> and \<^verbatim>\<open>:as\<close>.\<close>

fun kwEntriesTaken :: "(form \<times> form) list \<Rightarrow> bool \<Rightarrow> bool" where
  "kwEntriesTaken [] keys = keys"
| "kwEntriesTaken ((k, v) # es) keys =
     (if k = sym '':keys'' then
        isVectorForm v \<and>
        list_all (\<lambda>s. isNameForm s \<and> \<not> isKeywordForm s \<and> \<not> isQualifiedName (nameOf s)) (itemsOf v) \<and>
        kwEntriesTaken es True
      else if k = sym '':or'' then isMapForm v \<and> kwEntriesTaken es keys
      else if k = sym '':as'' then isNameForm v \<and> kwEntriesTaken es keys
      else False)"

definition kwPathTakes :: "'w compEnv \<Rightarrow> form \<Rightarrow> bool" where
  "kwPathTakes E m = kwEntriesTaken (entries E m) False"

text \<open>Each destructured parameter becomes a generated symbol, with the pair that binds its form in the body.\<close>

fun rewriteParams :: "'w compEnv \<Rightarrow> bool \<Rightarrow> form list \<Rightarrow> ('w, bindings \<times> form list) cm" where
  "rewriteParams E afterAmp [] = retC ([], [])"
| "rewriteParams E afterAmp (p # ps) =
     (if \<not> isVectorForm p \<and> \<not> isMapForm p \<and> (\<not> isNameForm p \<or> isKeywordForm p)
      then compileError (unsupported E p)
      else if isVectorForm p \<or> isMapForm p \<and> \<not> (afterAmp \<and> kwPathTakes E p) then
        bindC (freshSymbol ''p__'') (\<lambda>g.
        bindC (rewriteParams E (p = amp) ps) (\<lambda>(pairs, effective). retC ((p, g) # pairs, g # effective)))
      else
        bindC (rewriteParams E (p = amp) ps) (\<lambda>(pairs, effective). retC (pairs, p # effective)))"

datatype restSpec = NoRest | RestList string | RestKeys "(string \<times> form option) list" string

text \<open>The entries of \<^verbatim>\<open>& {...}\<close>: the keys, whether \<^verbatim>\<open>:keys\<close> was there, the \<^verbatim>\<open>:or\<close> entries, the \<^verbatim>\<open>:as\<close> name.\<close>

fun kwEntries ::
  "'w compEnv \<Rightarrow> (form \<times> form) list \<Rightarrow> string list \<times> bool \<times> (form \<times> form) list \<times> string \<Rightarrow>
     string + (string list \<times> bool \<times> (form \<times> form) list \<times> string)" where
  "kwEntries E [] acc = Inr acc"
| "kwEntries E ((mk, mv) # es) (keys, saw, ors, asn) =
     (if \<not> isNameForm mk then Inl (''fn/defn: '' @ bq ''& {...}'' @ '' key must be a keyword'')
      else if nameOf mk = '':keys'' then
        if \<not> isVectorForm mv then Inl (''fn/defn: '' @ bq '':keys'' @ '' must be a vector of symbols'')
        else if \<not> list_all isNameForm (itemsOf mv) then Inl (''fn/defn: '' @ bq '':keys'' @ '' entry must be a symbol'')
        else kwEntries E es (keys @ map nameOf (itemsOf mv), True, ors, asn)
      else if nameOf mk = '':or'' then
        if \<not> isMapForm mv then Inl (''fn/defn: '' @ bq '':or'' @ '' must be a map'')
        else kwEntries E es (keys, saw, entries E mv, asn)
      else if nameOf mk = '':as'' then
        if \<not> isNameForm mv then Inl (''fn/defn: '' @ bq '':as'' @ '' binding must be a symbol'')
        else kwEntries E es (keys, saw, ors, nameOf mv)
      else Inl (''fn/defn: unsupported entry in '' @ bq ''& {...}'' @ '': '' @ nameOf mk))"

fun attachDefault :: "string \<Rightarrow> form \<Rightarrow> (string \<times> form option) list \<Rightarrow> (string \<times> form option) list option" where
  "attachDefault name v [] = None"
| "attachDefault name v ((n, d) # ds) =
     (if n = name then Some ((n, Some v) # ds) else map_option (\<lambda>r. (n, d) # r) (attachDefault name v ds))"

fun attachDefaults :: "(form \<times> form) list \<Rightarrow> (string \<times> form option) list \<Rightarrow> string + (string \<times> form option) list" where
  "attachDefaults [] ds = Inr ds"
| "attachDefaults ((k, v) # ors) ds =
     (if \<not> isNameForm k then Inl (''fn/defn: '' @ bq '':or'' @ '' key must be a symbol'')
      else
        case attachDefault (nameOf k) v ds of
          None \<Rightarrow> Inl (''fn/defn: '' @ bq '':or'' @ '' key not in :keys: '' @ nameOf k)
        | Some ds' \<Rightarrow> attachDefaults ors ds')"

definition parseRest :: "'w compEnv \<Rightarrow> form list \<Rightarrow> string + (form list \<times> restSpec)" where
  "parseRest E ps =
     (let fixed = takeWhile (\<lambda>p. p \<noteq> amp) ps in
      case drop (length fixed) ps of
        [] \<Rightarrow> Inr (fixed, NoRest)
      | [_, rp] \<Rightarrow>
          if isMapForm rp then
            (case kwEntries E (entries E rp) ([], False, [], []) of
               Inl msg \<Rightarrow> Inl msg
             | Inr (keys, saw, ors, asn) \<Rightarrow>
                 if \<not> saw then Inl (''fn/defn: '' @ bq ''& {...}'' @ '' needs at least :keys'')
                 else
                   case attachDefaults ors (map (\<lambda>k. (k, None)) keys) of
                     Inl msg \<Rightarrow> Inl msg
                   | Inr decls \<Rightarrow> Inr (fixed, RestKeys decls asn))
          else if isNameForm rp then
            if isQualifiedName (nameOf rp) then Inl (''Can't use qualified name as parameter: '' @ nameOf rp)
            else Inr (fixed, RestList (nameOf rp))
          else Inl (''fn/defn: form after '' @ bq ''&'' @ '' must be a symbol (variadic) or a '' @ bq ''{:keys [...]}'' @ '' map'')
      | _ \<Rightarrow> Inl (''fn/defn: '' @ bq ''&'' @ '' must be followed by exactly one form''))"

definition bindFixed :: "form \<Rightarrow> ('w, unit) cm" where
  "bindFixed p =
     (if \<not> isNameForm p then compileError ''fn/defn: parameter name must be a symbol''
      else if isQualifiedName (nameOf p)
      then compileError (''Can't use qualified name as parameter: '' @ nameOf p)
      else bindC freshSlot (\<lambda>slot. inScope (setSlot (nameOf p) slot)))"

definition bindKw :: "'w compEnv \<Rightarrow> string \<times> form option \<Rightarrow> ('w, nat \<times> form option) cm" where
  "bindKw E = (\<lambda>(name, dflt).
     bindC freshSlot (\<lambda>slot.
     thenC (inScope (setSlot name slot))
       (thenC (modifyC (\<lambda>st. st\<lparr>out := addKwKey name slot (namedObj E ('':'' @ name)) (out st)\<rparr>))
         (retC (slot, dflt)))))"

text \<open>The slots of the rest parameters; the keyword parameters with their defaults.\<close>

definition bindRest :: "'w compEnv \<Rightarrow> restSpec \<Rightarrow> ('w, (nat \<times> form option) list) cm" where
  "bindRest E rspec =
     (case rspec of
        NoRest \<Rightarrow> retC []
      | RestList name \<Rightarrow> bindC freshSlot (\<lambda>slot. thenC (inScope (setSlot name slot)) (retC []))
      | RestKeys decls asn \<Rightarrow>
          bindC (mapC (bindKw E) decls) (\<lambda>kws.
          thenC
            (if asn = [] then retC ()
             else bindC freshSlot (\<lambda>slot. thenC (inScope (setSlot asn slot))
                    (modifyC (\<lambda>st. st\<lparr>out := (out st)\<lparr>asSlot := Some slot\<rparr>\<rparr>))))
            (retC kws)))"

text \<open>The default of a keyword parameter, taken when the slot holds nil.\<close>

definition compileDefault :: "'w compiler \<Rightarrow> nat \<times> form option \<Rightarrow> ('w, unit) cm" where
  "compileDefault cf = (\<lambda>(slot, dflt).
     case dflt of
       None \<Rightarrow> retC ()
     | Some f \<Rightarrow>
         thenC (emitC PUSH_LOCAL slot) (thenC (emitC PUSH_NIL 0) (thenC (emitC EQ 0)
         (bindC (emitAt JUMP_IF_FALSE 0) (\<lambda>jif.
          thenC (cf f) (thenC (emitC STORE_LOCAL slot) (patchHere jif)))))))"

section \<open>Clearing locals\<close>

text \<open>The instructions with their positions; the data word of \<^verbatim>\<open>CALL_MEMBER\<close> is not one.\<close>

fun instructions :: "nat \<Rightarrow> Instr list \<Rightarrow> (nat \<times> Op \<times> nat) list" where
  "instructions i [] = []"
| "instructions i (w # ws) =
     (case instrOp w of
        None \<Rightarrow> instructions (i + 1) ws
      | Some op \<Rightarrow>
          (i, op, instrOperand w) #
          (if op = CALL_MEMBER then instructions (i + 2) (drop 1 ws) else instructions (i + 1) ws))"

definition placesOf :: "Op \<Rightarrow> nat \<Rightarrow> BytecodeModule \<Rightarrow> nat list" where
  "placesOf op slot m = map fst (filter (\<lambda>(i, o', n). o' = op \<and> n = slot) (instructions 0 (code m)))"

definition loopRanges :: "BytecodeModule \<Rightarrow> (nat \<times> nat) list" where
  "loopRanges m =
     map (\<lambda>(i, o', n). (i + 1 - n, i)) (filter (\<lambda>(i, o', n). o' = JUMP_BACK \<and> n \<le> i + 1) (instructions 0 (code m)))"

definition bannedSlot :: "BytecodeModule \<Rightarrow> nat \<Rightarrow> bool" where
  "bannedSlot m slot \<longleftrightarrow>
     placesOf STORE_CAUGHT slot m \<noteq> [] \<or> placesOf RETHROW slot m \<noteq> [] \<or>
     list_ex (\<lambda>c. clocalSlot c = slot) (captureSpecs m)"

text \<open>The read runs once per binding: every loop around it stores the slot.\<close>

definition readOnce :: "BytecodeModule \<Rightarrow> nat \<Rightarrow> nat \<Rightarrow> bool" where
  "readOnce m slot readAt \<longleftrightarrow>
     list_all (\<lambda>(from, to). readAt < from \<or> readAt > to \<or>
       list_ex (\<lambda>s. from \<le> s \<and> s \<le> to) (placesOf STORE_LOCAL slot m)) (loopRanges m)"

definition clearable :: "BytecodeModule \<Rightarrow> nat \<Rightarrow> nat \<Rightarrow> nat \<Rightarrow> nat option" where
  "clearable m fixedArity paramEnd slot =
     (case placesOf PUSH_LOCAL slot m of
        [readAt] \<Rightarrow>
          if bannedSlot m slot \<or> fixedArity \<le> slot \<and> slot < paramEnd \<or>
             paramEnd \<le> slot \<and> placesOf STORE_LOCAL slot m = []
          then None
          else if readOnce m slot readAt then Some readAt else None
      | _ \<Rightarrow> None)"

definition readSlots :: "BytecodeModule \<Rightarrow> nat list" where
  "readSlots m = remdups (map (\<lambda>(i, o', n). n) (filter (\<lambda>(i, o', n). o' = PUSH_LOCAL) (instructions 0 (code m))))"

definition clearLastReads :: "nat \<Rightarrow> nat \<Rightarrow> BytecodeModule \<Rightarrow> BytecodeModule" where
  "clearLastReads fixedArity paramEnd m =
     fold (\<lambda>i. patchOp i PUSH_LOCAL_CLEAR) (List.map_filter (clearable m fixedArity paramEnd) (readSlots m)) m"

section \<open>One arity\<close>

definition letForm :: "bindings \<Rightarrow> form list \<Rightarrow> form" where
  "letForm pairs body = FList (sym ''let'' # FVec (flatten pairs) # body)"

definition bodyModule :: "nat \<Rightarrow> restSpec \<Rightarrow> BytecodeModule" where
  "bodyModule fixedArity rspec =
     emptyModule\<lparr>arity := fixedArity, isVariadic := (case rspec of RestList _ \<Rightarrow> True | _ \<Rightarrow> False),
                 isKwBased := (case rspec of RestKeys _ _ \<Rightarrow> True | _ \<Rightarrow> False)\<rparr>"

definition pushTarget :: "recurTarget \<Rightarrow> ('w, unit) cm" where
  "pushTarget tgt = inScope (\<lambda>sc. sc\<lparr>recurStack := tgt # recurStack sc\<rparr>)"

definition popTarget :: "('w, unit) cm" where
  "popTarget = inScope (\<lambda>sc. sc\<lparr>recurStack := tl (recurStack sc)\<rparr>)"

text \<open>The locals and the captures of the scope, recorded in the module.\<close>

definition finishModule :: "scope \<Rightarrow> BytecodeModule \<Rightarrow> BytecodeModule" where
  "finishModule sc m =
     fold (\<lambda>(p, l). addCapture p l) (scopeCaptures sc) (m\<lparr>localCount := nextSlot sc - scopeArity sc\<rparr>)"

definition arityBody ::
  "'w compEnv \<Rightarrow> 'w compiler \<Rightarrow> form list \<Rightarrow> restSpec \<Rightarrow> form list \<Rightarrow> ('w, BytecodeModule) cm" where
  "arityBody E cf fixed rspec body =
     bindC (getC out) (\<lambda>outer.
     thenC (modifyC (\<lambda>st. st\<lparr>out := bodyModule (length fixed) rspec,
                             scopes := newScope\<lparr>scopeArity := length fixed\<rparr> # scopes st\<rparr>))
     (thenC (eachC bindFixed fixed)
     (bindC (bindRest E rspec) (\<lambda>kws.
      bindC (topScope nextSlot) (\<lambda>paramEnd.
      thenC (eachC (compileDefault cf) kws)
     (bindC posC (\<lambda>start.
      thenC (pushTarget \<lparr>bodyStart = start, recurSlots = [0..<length fixed], targetDepth = 0\<rparr>)
     (thenC (compileSeq cf body)
     (thenC (emitC RETURN 0)
     (bindC (topScope id) (\<lambda>sc.
      bindC (getC out) (\<lambda>m.
      thenC (modifyC (\<lambda>st. st\<lparr>out := outer, scopes := tl (scopes st)\<rparr>))
        (retC (clearLastReads (length fixed) paramEnd (finishModule sc m)))))))))))))))"

definition compileArity :: "'w compEnv \<Rightarrow> 'w compiler \<Rightarrow> form list \<Rightarrow> form list \<Rightarrow> ('w, BytecodeModule) cm" where
  "compileArity E cf ps body =
     bindC (rewriteParams E False ps) (\<lambda>(pairs, effective).
     bindC (messageOr (parseRest E effective)) (\<lambda>(fixed, rspec).
       arityBody E cf fixed rspec (if pairs = [] then body else [letForm pairs body])))"

text \<open>The parameter list of a form: the elements of a vector, or of a list.\<close>

definition paramList :: "string \<Rightarrow> form \<Rightarrow> ('w, form list) cm" where
  "paramList msg f = (if isVectorForm f \<or> isListForm f then retC (itemsOf f) else compileError msg)"

definition compileFnBody :: "'w compEnv \<Rightarrow> 'w compiler \<Rightarrow> form list \<Rightarrow> ('w, BytecodeModule) cm" where
  "compileFnBody E cf fnForm =
     (let n = length fnForm;
          raw = nameOf (formAt fnForm 0);
          bare = (case stripCoreQualifier raw of Some s \<Rightarrow> s | None \<Rightarrow> raw);
          headName = (if bare = ''fn*'' then ''fn'' else bare)
      in
        if headName \<noteq> ''fn'' \<and> headName \<noteq> ''defn''
        then compileError (''compileFnBody: head must be '' @ bq ''fn'' @ '' or '' @ bq ''defn'')
        else
          let first = (if headName = ''fn'' then 1 else 2) in
          if n \<le> first then compileError ''fn/defn: missing parameter vector''
          else
            let named = headName = ''fn'' \<and> isNameForm (formAt fnForm first);
                paramsAt = (if named then first + 1 else first)
            in
              if named \<and> n \<le> paramsAt then compileError ''fn: missing parameter vector after name''
              else
                bindC (paramList ''fn/defn: parameter list must be a vector'' (formAt fnForm paramsAt)) (\<lambda>ps.
                  compileArity E cf ps (drop (paramsAt + 1) fnForm)))"

end
