(* ===== verification/Compiler.thy ===== *)
theory Compiler
  imports CompileFn
begin

text \<open>
  The compiler proper (src/compiler/Compiler.cpp): special forms, macro calls, calls and literals. Each
  special form is a definition over \<open>cf\<close>, the compilation of a nested form, and \<open>compileForm\<close>
  ties the knot with the native stack as the argument \<open>d\<close>.
\<close>

section \<open>Blocks\<close>

text \<open>A finished module becomes a block of the one being built.\<close>

definition addBlockC :: "BytecodeModule \<Rightarrow> ('w, nat) cm" where
  "addBlockC body =
     bindC (getC (\<lambda>st. length (made st))) (\<lambda>p.
     thenC (modifyC (\<lambda>st. st\<lparr>made := made st @ [body]\<rparr>)) (addC (addBlock p)))"

definition pushCaptures :: "BytecodeModule \<Rightarrow> ('w, unit) cm" where
  "pushCaptures body = eachC (\<lambda>c. emitC PUSH_LOCAL (parentSlot c)) (captureSpecs body)"

definition compileAsThunk :: "'w compEnv \<Rightarrow> 'w compiler \<Rightarrow> form \<Rightarrow> ('w, unit) cm" where
  "compileAsThunk E cf f =
     bindC (compileArity E cf [] [f]) (\<lambda>body.
     bindC (addBlockC body) (\<lambda>i.
     thenC (emitC MAKE_FN i) (emitC CALL 0)))"

definition atTopLevel :: "'w comp \<Rightarrow> bool" where
  "atTopLevel st \<longleftrightarrow> scopes st = []"

section \<open>Functions\<close>

definition compileArityForm :: "'w compEnv \<Rightarrow> 'w compiler \<Rightarrow> form \<Rightarrow> ('w, nat \<times> BytecodeModule) cm" where
  "compileArityForm E cf f =
     (if \<not> isListForm f then compileError ''multi-arity: each arity must be a list''
      else if itemsOf f = [] then compileError ''multi-arity: arity missing params''
      else
        bindC (paramList ''multi-arity: params must be a vector'' (hd (itemsOf f))) (\<lambda>ps.
        bindC (compileArity E cf ps (tl (itemsOf f))) (\<lambda>body.
        bindC (addBlockC body) (\<lambda>i. retC (i, body)))))"

definition withoutDoc :: "form list \<Rightarrow> form list option" where
  "withoutDoc lst =
     (let skip1 = (if isStringForm (formAt lst 2) then 3 else 2);
          skip = (if skip1 < length lst - 1 \<and> isMapForm (formAt lst skip1) then skip1 + 1 else skip1)
      in if skip > 2 then Some (formAt lst 0 # formAt lst 1 # drop skip lst) else None)"

definition compileFnForm :: "'w compEnv \<Rightarrow> 'w compiler \<Rightarrow> form list \<Rightarrow> string \<Rightarrow> ('w, unit) cm" where
  "compileFnForm E cf lst headName =
     (case (if headName = ''defn'' \<and> length lst > 3 then withoutDoc lst else None) of
        Some rebuilt \<Rightarrow> cf (FList rebuilt)
      | None \<Rightarrow>
          let start = (if headName = ''fn'' then 1 else 2);
              nameForm = formAt lst 1;
              first = formAt lst start;
              multi = isListForm first \<and> itemsOf first \<noteq> [] \<and> isVectorForm (hd (itemsOf first))
          in
            if length lst \<le> start then compileError ''fn/defn: missing parameter vector''
            else if headName = ''defn'' \<and> \<not> isNameForm nameForm then compileError ''defn: name must be a symbol''
            else
              thenC
                (if \<not> multi then
                   bindC (compileFnBody E cf lst) (\<lambda>body.
                   bindC (addBlockC body) (\<lambda>i.
                   thenC (pushCaptures body) (emitC MAKE_FN i)))
                 else
                   bindC (mapC (compileArityForm E cf) (drop start lst)) (\<lambda>arities.
                   thenC (eachC (\<lambda>(i, body). pushCaptures body) arities)
                     (emitConst MAKE_FN_MULTI (addArityGroup (map fst arities)))))
                (if headName = ''defn''
                 then emitStoreGlobal E (case globalKeyForSymbol (nameOf nameForm) of Some k \<Rightarrow> k | None \<Rightarrow> [])
                 else retC ()))"

section \<open>let and loop\<close>

fun compileBindings ::
  "'w compiler \<Rightarrow> string \<Rightarrow> bindings \<Rightarrow> ('w, (nat \<times> string \<times> nat option) list) cm" where
  "compileBindings cf who [] = retC []"
| "compileBindings cf who ((nameForm, valForm) # bs) =
     (if \<not> isNameForm nameForm then compileError (who @ '': binding name must be a symbol'')
      else if isQualifiedName (nameOf nameForm)
      then compileError (''Can't let qualified name: '' @ nameOf nameForm)
      else
        thenC (cf valForm)
        (bindC (bindName (nameOf nameForm)) (\<lambda>b.
         thenC (emitC STORE_LOCAL (fst b))
        (bindC (compileBindings cf who bs) (\<lambda>r. retC (b # r))))))"

text \<open>The bindings of a \<^verbatim>\<open>let\<close> or \<^verbatim>\<open>loop\<close> form.\<close>

definition bindingItems :: "string \<Rightarrow> form list \<Rightarrow> ('w, form list) cm" where
  "bindingItems who lst =
     (if length lst < 2 then compileError (who @ '': expects bindings vector'')
      else if \<not> isVectorForm (formAt lst 1) \<and> \<not> isListForm (formAt lst 1)
      then compileError (who @ '': bindings must be a vector'')
      else if length (itemsOf (formAt lst 1)) mod 2 \<noteq> 0
      then compileError (who @ '': bindings must come in name/value pairs'')
      else retC (itemsOf (formAt lst 1)))"

definition compileLetForm :: "'w compEnv \<Rightarrow> nat \<Rightarrow> 'w compiler \<Rightarrow> form list \<Rightarrow> ('w, unit) cm" where
  "compileLetForm E d cf lst =
     bindC (getC atTopLevel) (\<lambda>top.
       if top then compileAsThunk E cf (FList lst)
       else
         bindC (bindingItems ''let'' lst) (\<lambda>items.
         bindC (destructureBindings E d items) (\<lambda>flat.
           case flat of
             Some f \<Rightarrow> cf (FList (formAt lst 0 # f # drop 2 lst))
           | None \<Rightarrow>
               bindC (compileBindings cf ''let'' (pairsOf items)) (\<lambda>bound.
               thenC (compileSeq cf (drop 2 lst)) (restoreNames (map snd bound))))))"

text \<open>A \<^verbatim>\<open>loop\<close> with patterns rebinds generated locals, destructured again in its body.\<close>

fun loopParts :: "bindings \<Rightarrow> ('w, form list \<times> form list \<times> form list) cm" where
  "loopParts [] = retC ([], [], [])"
| "loopParts ((b, v) # bs) =
     bindC (if isNameForm b then retC b else freshSymbol ''p__'') (\<lambda>g.
     bindC (loopParts bs) (\<lambda>(outer, loopBs, inner).
       retC ([g, v] @ (if isNameForm b then [] else [b, g]) @ outer, [g, g] @ loopBs,
             (if isNameForm b then [] else [b, g]) @ inner)))"

definition compileLoopForm :: "'w compEnv \<Rightarrow> 'w compiler \<Rightarrow> form list \<Rightarrow> ('w, unit) cm" where
  "compileLoopForm E cf lst =
     bindC (getC atTopLevel) (\<lambda>top.
       if top then compileAsThunk E cf (FList lst)
       else
         bindC (bindingItems ''loop'' lst) (\<lambda>items.
           if \<not> list_all (\<lambda>(b, v). simpleName b) (pairsOf items) then
             bindC (loopParts (pairsOf items)) (\<lambda>(outer, loopBs, inner).
               cf (FList [sym ''let'', FVec outer,
                 FList [formAt lst 0, FVec loopBs, FList (sym ''let'' # FVec inner # drop 2 lst)]]))
           else
             bindC (compileBindings cf ''loop'' (pairsOf items)) (\<lambda>bound.
             bindC posC (\<lambda>start.
             bindC (topScope tryDepth) (\<lambda>depth.
             thenC (pushTarget \<lparr>bodyStart = start, recurSlots = map fst bound, targetDepth = depth\<rparr>)
             (thenC (compileSeq cf (drop 2 lst))
             (thenC popTarget (restoreNames (map snd bound)))))))))"

section \<open>try\<close>

record catchClause =
  classId :: int
  className :: string
  binding :: string
  catchBody :: "form list"

definition clauseName :: "form \<Rightarrow> string" where
  "clauseName f = (case f of FList (h # r) \<Rightarrow> nameOf h | _ \<Rightarrow> [])"

definition catchOf :: "form list \<Rightarrow> string + catchClause" where
  "catchOf cl =
     (if length cl < 3 \<or> \<not> isNameForm (cl ! 1) \<or> \<not> isNameForm (cl ! 2)
      then Inl ''catch: expects (catch ClassName binding body...)''
      else
        let cls = nameOf (cl ! 1) in
        Inr \<lparr>classId = (if cls = ''Object'' \<or> cls = ''java.lang.Object'' then 0 else exceptionClassId cls),
             className = cls, binding = nameOf (cl ! 2), catchBody = drop 3 cl\<rparr>)"

text \<open>The body forms, the catch clauses and the forms of the finally clause.\<close>

fun splitTry ::
  "form list \<Rightarrow> catchClause list \<Rightarrow> form list option \<Rightarrow> form list \<Rightarrow>
     string + (form list \<times> catchClause list \<times> form list option)" where
  "splitTry body catches fin [] = Inr (body, catches, fin)"
| "splitTry body catches fin (f # fs) =
     (if fin \<noteq> None then Inl ''finally clause must be last in try expression''
      else if clauseName f = ''catch'' then
        (case catchOf (itemsOf f) of
           Inl msg \<Rightarrow> Inl msg
         | Inr c \<Rightarrow> splitTry body (catches @ [c]) fin fs)
      else if clauseName f = ''finally'' then splitTry body catches (Some (tl (itemsOf f))) fs
      else if catches \<noteq> [] then Inl ''Only catch or finally clause can follow catch in try expression''
      else splitTry (body @ [f]) catches fin fs)"

definition compileFinally :: "'w compiler \<Rightarrow> form list \<Rightarrow> ('w, unit) cm" where
  "compileFinally cf forms = eachC (\<lambda>f. thenC (cf f) (emitC POP 0)) forms"

text \<open>The receiver of a qualified name, and the type a catch clause names.\<close>

definition compileQualifiedPrefix :: "'w compEnv \<Rightarrow> string \<Rightarrow> ('w, unit) cm" where
  "compileQualifiedPrefix E name =
     bindC (resolveLocal (prefixOf name)) (\<lambda>slot.
       case slot of
         Some s \<Rightarrow> emitC PUSH_LOCAL s
       | None \<Rightarrow> emitConst PUSH_VAR (symC E (prefixOf name)))"

definition compileCatchType :: "'w compEnv \<Rightarrow> string \<Rightarrow> ('w, unit) cm" where
  "compileCatchType E qualified =
     (let name = (if isUserQualified qualified then drop 5 qualified else qualified) in
      bindC (resolveLocal name) (\<lambda>slot.
        case slot of
          Some s \<Rightarrow> emitC PUSH_LOCAL s
        | None \<Rightarrow>
            bindC (if isQualifiedName name then resolveLocal (prefixOf name) else retC None) (\<lambda>owner.
              case owner of
                Some s \<Rightarrow> thenC (emitC PUSH_LOCAL s) (emitConst GET_MEMBER (symC E (memberOf name)))
              | None \<Rightarrow> emitConst RESOLVE_CLASS (symC E name))))"

definition compileCatch :: "'w compEnv \<Rightarrow> 'w compiler \<Rightarrow> nat \<Rightarrow> catchClause \<Rightarrow> ('w, nat) cm" where
  "compileCatch E cf exSlot c =
     thenC (emitC PUSH_LOCAL exSlot)
     (thenC
       (if classId c \<ge> 0 then emitC EXC_MATCH (nat (classId c))
        else thenC (compileCatchType E (className c)) (emitConst EXC_MATCH_TYPE (symC E (className c))))
     (bindC (emitAt JUMP_IF_FALSE 0) (\<lambda>nextAt.
      bindC (topScope (slotOf (binding c))) (\<lambda>shadowed.
      thenC (inScope (setSlot (binding c) exSlot))
     (thenC (compileSeq cf (catchBody c))
     (thenC (inScope (restoreName (binding c, shadowed)))
     (bindC (emitAt JUMP 0) (\<lambda>done.
      thenC (patchHere nextAt) (retC done)))))))))"

definition compileCatches :: "'w compEnv \<Rightarrow> 'w compiler \<Rightarrow> form list \<Rightarrow> catchClause list \<Rightarrow> ('w, unit) cm" where
  "compileCatches E cf body catches =
     bindC (emitAt TRY_BEGIN 0) (\<lambda>catchBegin.
     thenC (compileSeq cf body)
     (thenC (emitC TRY_END 0)
     (bindC (emitAt JUMP 0) (\<lambda>bodyDone.
      thenC (patchHere catchBegin)
     (bindC freshSlot (\<lambda>exSlot.
      thenC (emitC STORE_CAUGHT exSlot)
     (bindC (mapC (compileCatch E cf exSlot) catches) (\<lambda>dones.
      thenC (emitC RETHROW exSlot) (eachC patchHere (bodyDone # dones))))))))))"

definition compileTry :: "'w compEnv \<Rightarrow> 'w compiler \<Rightarrow> form list \<Rightarrow> ('w, unit) cm" where
  "compileTry E cf lst =
     bindC (getC atTopLevel) (\<lambda>top.
       if top then compileAsThunk E cf (FList lst)
       else
         bindC (messageOr (splitTry [] [] None (drop 1 lst))) (\<lambda>(body, catches, fin).
         thenC (inScope (\<lambda>sc. sc\<lparr>tryDepth := tryDepth sc + 1\<rparr>))
         (let guarded = (if catches = [] then compileSeq cf body else compileCatches E cf body catches) in
          thenC
            (case fin of
               None \<Rightarrow> guarded
             | Some forms \<Rightarrow>
                 bindC (emitAt TRY_BEGIN 0) (\<lambda>finallyBegin.
                 thenC guarded
                 (thenC (emitC TRY_END 0)
                 (thenC (compileFinally cf forms)
                 (bindC (emitAt JUMP 0) (\<lambda>endAt.
                  thenC (patchHere finallyBegin)
                 (bindC freshSlot (\<lambda>fxSlot.
                  thenC (emitC STORE_CAUGHT fxSlot)
                 (thenC (compileFinally cf forms)
                 (thenC (emitC RETHROW fxSlot) (patchHere endAt)))))))))))
            (inScope (\<lambda>sc. sc\<lparr>tryDepth := tryDepth sc - 1\<rparr>)))))"

section \<open>Macros\<close>

text \<open>The macro the head of a call names, with its spelling.\<close>

definition macroForHead :: "'w compEnv \<Rightarrow> form \<Rightarrow> ('w, (obj \<times> string) option) cm" where
  "macroForHead E head =
     getC (\<lambda>st.
       case head of
         FNamed name \<Rightarrow>
           (case globalKeyForSymbol name of
              None \<Rightarrow> None
            | Some key \<Rightarrow>
                let bare = (case stripCoreQualifier key of Some b \<Rightarrow> b | None \<Rightarrow> key);
                    qualified = stripCoreQualifier key \<noteq> None \<or> key \<noteq> name
                in
                  if isSpecialFormName bare then None
                  else if \<not> qualified \<and> isLocalName key (scopes st) then None
                  else map_option (\<lambda>m. (m, name)) (globalMacro E (compWorld st) key))
       | _ \<Rightarrow> None)"

definition localEnv :: "('w, form) cm" where
  "localEnv =
     getC (\<lambda>st.
       let names = remdups (concat (map (\<lambda>sc. map fst (nameToSlot sc)) (rev (scopes st))))
       in if names = [] then FNil else FMap (map (\<lambda>n. (FNamed n, FNamed n)) names))"

definition expandC :: "'w compEnv \<Rightarrow> obj \<Rightarrow> string \<Rightarrow> form \<Rightarrow> form \<Rightarrow> ('w, form) cm" where
  "expandC E macro name f env st =
     (let (r, w) = expandMacroCall E macro name f env (compWorld st) in
      (case r of
         Inl thrown \<Rightarrow> Inl (CompileError (''Syntax error macroexpanding '' @ name @ '': '' @ thrown))
       | Inr expansion \<Rightarrow> Inr expansion,
       st\<lparr>compWorld := w\<rparr>))"

definition compileMacroCall :: "'w compEnv \<Rightarrow> 'w compiler \<Rightarrow> form \<Rightarrow> obj \<times> string \<Rightarrow> ('w, unit) cm" where
  "compileMacroCall E cf f = (\<lambda>(macro, name).
     bindC localEnv (\<lambda>env. bindC (expandC E macro name f env) cf))"

fun macroexpandTopLevel :: "'w compEnv \<Rightarrow> nat \<Rightarrow> form \<Rightarrow> ('w, form) cm" where
  "macroexpandTopLevel E 0 f = throwC (CompileOverflow (overflowMessage E))"
| "macroexpandTopLevel E (Suc d) f =
     (if \<not> isListForm f \<or> itemsOf f = [] then retC f
      else
        bindC (macroForHead E (hd (itemsOf f))) (\<lambda>macro.
          case macro of
            None \<Rightarrow> retC f
          | Some (m, name) \<Rightarrow> bindC (expandC E m name f FNil) (macroexpandTopLevel E d)))"

text \<open>A macro's function takes the hidden parameters \<^verbatim>\<open>&form\<close> and \<^verbatim>\<open>&env\<close> first.\<close>

definition withHidden :: "form \<Rightarrow> string + form" where
  "withHidden ps =
     (if isVectorForm ps then Inr (FVec (sym ''&form'' # sym ''&env'' # itemsOf ps))
      else Inl ''defmacro: parameter list must be a vector'')"

fun macroArities :: "form list \<Rightarrow> string + form list" where
  "macroArities [] = Inr []"
| "macroArities (a # as) =
     (if \<not> isListForm a \<or> itemsOf a = [] then
        if as = [] \<and> isMapForm a then Inr []
        else Inl ''defmacro: each arity must be a list ([params] body...)''
      else
        case withHidden (hd (itemsOf a)) of
          Inl msg \<Rightarrow> Inl msg
        | Inr ps \<Rightarrow>
            case macroArities as of Inl msg \<Rightarrow> Inl msg | Inr r \<Rightarrow> Inr (FList (ps # tl (itemsOf a)) # r))"

definition macroFn :: "form list \<Rightarrow> string + form" where
  "macroFn lst =
     (let skip1 = (if isStringForm (formAt lst 2) \<and> 3 < length lst then 3 else 2);
          skip = (if isMapForm (formAt lst skip1) then skip1 + 1 else skip1)
      in
        if skip \<ge> length lst then Inl ''defmacro: missing parameter vector''
        else if isVectorForm (lst ! skip) then
          (case withHidden (lst ! skip) of
             Inl msg \<Rightarrow> Inl msg
           | Inr ps \<Rightarrow> Inr (FList (sym ''fn'' # ps # drop (skip + 1) lst)))
        else case macroArities (drop skip lst) of Inl msg \<Rightarrow> Inl msg | Inr r \<Rightarrow> Inr (FList (sym ''fn'' # r)))"

definition compileDefmacro :: "'w compEnv \<Rightarrow> 'w compiler \<Rightarrow> form list \<Rightarrow> ('w, unit) cm" where
  "compileDefmacro E cf lst =
     (if length lst < 3 then compileError ''defmacro: expects (defmacro name [params] body...)''
      else
        case (if isNameForm (lst ! 1) then globalKeyForSymbol (nameOf (lst ! 1)) else None) of
          None \<Rightarrow> compileError ''defmacro: name must be a symbol''
        | Some key \<Rightarrow>
            bindC (messageOr (macroFn lst)) (\<lambda>fnForm.
            thenC (emitConst PUSH_VAR (symC E ''__macro__''))
           (thenC (cf fnForm) (thenC (emitC CALL 1) (emitStoreGlobal E key)))))"

section \<open>Small special forms\<close>

definition compileDef :: "'w compEnv \<Rightarrow> 'w compiler \<Rightarrow> form list \<Rightarrow> ('w, unit) cm" where
  "compileDef E cf lst =
     (if length lst \<noteq> 3 then compileError ''def: expects (def name expr)''
      else
        case (if isNameForm (lst ! 1) then globalKeyForSymbol (nameOf (lst ! 1)) else None) of
          None \<Rightarrow> compileError ''def: name must be a symbol''
        | Some key \<Rightarrow> thenC (cf (lst ! 2)) (emitStoreGlobal E key))"

definition literalTrue :: "form \<Rightarrow> bool" where
  "literalTrue t \<longleftrightarrow>
     (case t of FTrue \<Rightarrow> True | FStr s \<Rightarrow> True | FInt i \<Rightarrow> True | FFloat x \<Rightarrow> True | _ \<Rightarrow> isKeywordForm t)"

definition compileIf :: "'w compiler \<Rightarrow> form list \<Rightarrow> ('w, unit) cm" where
  "compileIf cf lst =
     (if length lst \<noteq> 3 \<and> length lst \<noteq> 4 then compileError ''if: expects (if test then) or (if test then else)''
      else
        let test = lst ! 1; els = (if length lst = 4 then cf (lst ! 3) else emitC PUSH_NIL 0) in
        if literalTrue test then cf (lst ! 2)
        else if test = FNil \<or> test = FFalse then els
        else
          thenC (cf test)
          (bindC (emitAt JUMP_IF_FALSE 0) (\<lambda>jif.
           thenC (cf (lst ! 2))
          (bindC (emitAt JUMP 0) (\<lambda>jmp.
           thenC (patchHere jif) (thenC els (patchHere jmp)))))))"

text \<open>The forms of \<^verbatim>\<open>and\<close> and \<^verbatim>\<open>or\<close>; the jumps out of it.\<close>

fun compileShort :: "'w compiler \<Rightarrow> Op \<Rightarrow> form list \<Rightarrow> ('w, nat list) cm" where
  "compileShort cf jump [] = retC []"
| "compileShort cf jump [f] = thenC (cf f) (retC [])"
| "compileShort cf jump (f # g # fs) =
     thenC (cf f)
     (thenC (emitC DUP 0)
     (bindC (emitAt jump 0) (\<lambda>i.
      thenC (emitC POP 0)
     (bindC (compileShort cf jump (g # fs)) (\<lambda>is. retC (i # is))))))"

definition compileAndOr :: "'w compiler \<Rightarrow> Op \<Rightarrow> Op \<Rightarrow> form list \<Rightarrow> ('w, unit) cm" where
  "compileAndOr cf unit jump forms =
     (if forms = [] then emitC unit 0
      else bindC (compileShort cf jump forms) (\<lambda>is. eachC patchHere is))"

definition compileQuote :: "'w compEnv \<Rightarrow> 'w compiler \<Rightarrow> form list \<Rightarrow> ('w, unit) cm" where
  "compileQuote E cf lst =
     (if length lst \<noteq> 2 then compileError ''quote: expects (quote form)''
      else
        case lst ! 1 of
          FNamed s \<Rightarrow> emitConst PUSH_CONST (addNamed s (namedObj E s))
        | q \<Rightarrow>
            if q \<in> {FNil, FTrue, FFalse} \<or> isStringForm q \<or> (case q of FInt i \<Rightarrow> True | FFloat x \<Rightarrow> True | _ \<Rightarrow> False)
            then cf q
            else emitConst PUSH_CONST (addDatum (datumObj E q)))"

definition compileApply :: "'w compEnv \<Rightarrow> 'w compiler \<Rightarrow> form list \<Rightarrow> ('w, unit) cm" where
  "compileApply E cf lst =
     (if length lst < 3 then compileError ''apply: expects (apply f args* coll)''
      else
        thenC (cf (lst ! 1))
        (thenC
          (if length lst = 3 then cf (lst ! 2)
           else
             thenC (emitConst PUSH_VAR (symC E ''clojure.core/list*''))
             (thenC (eachC cf (drop 2 lst)) (emitC CALL (length lst - 2))))
          (emitC CALL_APPLY 0)))"

definition compileRecur :: "'w compiler \<Rightarrow> form list \<Rightarrow> ('w, unit) cm" where
  "compileRecur cf lst =
     bindC (getC (\<lambda>st. case scopes st of [] \<Rightarrow> None | sc # _ \<Rightarrow>
       (case recurStack sc of [] \<Rightarrow> None | tgt # _ \<Rightarrow> Some (tgt, tryDepth sc)))) (\<lambda>found.
       case found of
         None \<Rightarrow> compileError ''recur: no enclosing loop in current scope''
       | Some (tgt, depth) \<Rightarrow>
           if targetDepth tgt \<noteq> depth then compileError ''Cannot recur across try''
           else if length lst - 1 \<noteq> length (recurSlots tgt) then compileError ''recur: arity mismatch with enclosing loop''
           else
             thenC (eachC cf (drop 1 lst))
             (thenC (eachC (emitC STORE_LOCAL) (rev (recurSlots tgt)))
             (bindC (emitAt JUMP_BACK 0) (\<lambda>i. patchC i (i + 1 - bodyStart tgt)))))"

section \<open>Calls\<close>

definition binOpOf :: "string \<Rightarrow> Op option" where
  "binOpOf name = map_of
     [(''+'', ADD), (''-'', SUB), (''*'', MUL), (''<'', LT), (''<='', LE), (''>'', GT), (''>='', GE), (''='', EQ)] name"

text \<open>The operator to inline: the name of one, not a local, and not redefined.\<close>

definition inlineOp :: "'w compEnv \<Rightarrow> string \<Rightarrow> bool \<Rightarrow> ('w, Op option) cm" where
  "inlineOp E headName coreQualified =
     (case binOpOf headName of
        None \<Rightarrow> retC None
      | Some op \<Rightarrow>
          if coreQualified then retC (Some op)
          else
            bindC (resolveLocal headName) (\<lambda>shadow.
              if shadow \<noteq> None then retC None
              else getC (\<lambda>st. if operatorRedefined E (compWorld st) headName then None else Some op)))"

fun foldOperands :: "'w compiler \<Rightarrow> Op \<Rightarrow> nat \<Rightarrow> form list \<Rightarrow> ('w, unit) cm" where
  "foldOperands cf op operand [] = retC ()"
| "foldOperands cf op operand (f # fs) =
     thenC (cf f) (thenC (emitC op operand) (foldOperands cf op operand fs))"

definition compileArgs :: "'w compiler \<Rightarrow> form list \<Rightarrow> ('w, unit) cm" where
  "compileArgs cf lst = eachC cf (drop 1 lst)"

text \<open>The arguments and the call; a keyword before the last argument marks trailing pairs.\<close>

definition finishCall :: "'w compiler \<Rightarrow> form list \<Rightarrow> ('w, unit) cm" where
  "finishCall cf lst =
     thenC (compileArgs cf lst)
       (emitC (if length lst \<ge> 3 \<and> isKeywordForm (formAt lst (length lst - 2)) then CALL_KW else CALL) (length lst - 1))"

definition compileNamedCall :: "'w compEnv \<Rightarrow> 'w compiler \<Rightarrow> form list \<Rightarrow> string \<Rightarrow> bool \<Rightarrow> ('w, unit) cm" where
  "compileNamedCall E cf lst headName coreQualified =
     (if coreQualified then thenC (emitConst PUSH_VAR (symC E (kCore @ headName))) (finishCall cf lst)
      else if isUserQualified headName then thenC (emitConst PUSH_VAR (symC E (drop 5 headName))) (finishCall cf lst)
      else if isKeywordName headName then thenC (cf (formAt lst 0)) (finishCall cf lst)
      else
        bindC (resolveLocal headName) (\<lambda>slot.
          case slot of
            Some s \<Rightarrow> thenC (emitC PUSH_LOCAL s) (finishCall cf lst)
          | None \<Rightarrow>
              if isQualifiedName headName then
                thenC (compileQualifiedPrefix E headName)
                (thenC (compileArgs cf lst)
                (thenC (emitC CALL_MEMBER (length lst - 1)) (emitConst NOP (symC E (memberOf headName)))))
              else thenC (emitConst PUSH_VAR (symC E headName)) (finishCall cf lst)))"

definition compileCall :: "'w compEnv \<Rightarrow> 'w compiler \<Rightarrow> form list \<Rightarrow> string \<Rightarrow> bool \<Rightarrow> ('w, unit) cm" where
  "compileCall E cf lst headName coreQualified =
     (if isNameForm (formAt lst 0) then
        bindC (inlineOp E headName coreQualified) (\<lambda>inlined.
          case inlined of
            Some op \<Rightarrow>
              if length lst \<ge> 3 \<and> (op \<in> {LT, LE, GT, GE, EQ} \<longrightarrow> length lst = 3)
              then thenC (cf (lst ! 1)) (foldOperands cf op (if coreQualified then 1 else 0) (drop 2 lst))
              else compileNamedCall E cf lst headName coreQualified
          | None \<Rightarrow> compileNamedCall E cf lst headName coreQualified)
      else thenC (cf (formAt lst 0)) (finishCall cf lst))"

section \<open>Literals and symbols\<close>

definition constantForm :: "form \<Rightarrow> bool" where
  "constantForm e \<longleftrightarrow>
     (case e of FNil \<Rightarrow> True | FTrue \<Rightarrow> True | FFalse \<Rightarrow> True | FStr s \<Rightarrow> True | FInt i \<Rightarrow> True | FFloat x \<Rightarrow> True
      | _ \<Rightarrow> isKeywordForm e)"

definition compileColl :: "'w compEnv \<Rightarrow> 'w compiler \<Rightarrow> string \<Rightarrow> form list \<Rightarrow> ('w, unit) cm" where
  "compileColl E cf builder items =
     thenC (emitConst PUSH_VAR (symC E builder)) (thenC (eachC cf items) (emitC CALL (length items)))"

definition compileSymbol :: "'w compEnv \<Rightarrow> string \<Rightarrow> ('w, unit) cm" where
  "compileSymbol E written =
     bindC (messageOr (aliasLibraryNamespace (namespaceAlias E) written)) (\<lambda>name.
     bindC (getC (\<lambda>st key. globalMacro E (compWorld st) key \<noteq> None)) (\<lambda>isMacro.
       if isKeywordName name then emitConst PUSH_CONST (addNamed name (namedObj E name))
       else
         case stripCoreQualifier name of
           Some bare \<Rightarrow>
             if isSpecialFormName bare \<or> bare = ''unquote'' \<or> bare = ''unquote-splicing''
             then compileError (''Can't take value of a special form: '' @ bare)
             else if isMacro name then compileError (''Can't take value of a macro: '' @ name)
             else emitConst PUSH_VAR (symC E name)
         | None \<Rightarrow>
             if isUserQualified name then
               if isMacro (drop 5 name) then compileError (''Can't take value of a macro: '' @ name)
               else emitConst PUSH_VAR (symC E (drop 5 name))
             else
               bindC (resolveLocal name) (\<lambda>slot.
                 case slot of
                   Some s \<Rightarrow> emitC PUSH_LOCAL s
                 | None \<Rightarrow>
                     if (case globalKeyForSymbol name of Some key \<Rightarrow> isMacro key | None \<Rightarrow> False)
                     then compileError (''Can't take value of a macro: '' @ name)
                     else if isQualifiedName name
                     then thenC (compileQualifiedPrefix E name) (emitConst GET_MEMBER (symC E (memberOf name)))
                     else emitConst PUSH_VAR (symC E name))))"

section \<open>Forms\<close>

text \<open>The name that decides a list form, and whether it was qualified with \<^verbatim>\<open>clojure.core\<close>.\<close>

definition headOf :: "'w compEnv \<Rightarrow> form \<Rightarrow> string + (string \<times> bool)" where
  "headOf E head =
     (case aliasLibraryNamespace (namespaceAlias E) (nameOf head) of
        Inl msg \<Rightarrow> Inl msg
      | Inr s \<Rightarrow>
          let bare = (case stripCoreQualifier s of Some b \<Rightarrow> b | None \<Rightarrow> s) in
          Inr (if bare = ''fn*'' then ''fn'' else bare, stripCoreQualifier s \<noteq> None))"

definition compileList :: "'w compEnv \<Rightarrow> nat \<Rightarrow> 'w compiler \<Rightarrow> form list \<Rightarrow> ('w, unit) cm" where
  "compileList E d cf lst =
     (if lst = [] then emitConst PUSH_CONST (addDatum (datumObj E (FList [])))
      else
        bindC (messageOr (headOf E (hd lst))) (\<lambda>(headName, coreQualified).
        bindC (macroForHead E (hd lst)) (\<lambda>macro.
          case macro of
            Some m \<Rightarrow> compileMacroCall E cf (FList lst) m
          | None \<Rightarrow>
              if headName = ''defmacro'' then compileDefmacro E cf lst
              else if headName = ''def'' then compileDef E cf lst
              else if headName = ''if'' then compileIf cf lst
              else if headName = ''and'' then compileAndOr cf PUSH_TRUE JUMP_IF_FALSE (tl lst)
              else if headName = ''or'' then compileAndOr cf PUSH_NIL JUMP_IF_TRUE (tl lst)
              else if headName = ''do'' then compileSeq cf (tl lst)
              else if headName = ''quote'' then compileQuote E cf lst
              else if coreQualified \<and> headName = ''unquote''
              then compileError (''unquote (~) used outside a syntax-quote ('' @ [CHR 0x60] @ '')'')
              else if coreQualified \<and> headName = ''unquote-splicing''
              then compileError (''unquote-splicing (~@) used outside a syntax-quote ('' @ [CHR 0x60] @ '')'')
              else if headName = ''fn'' \<or> headName = ''defn'' then compileFnForm E cf lst headName
              else if headName = ''let'' then compileLetForm E d cf lst
              else if headName = ''loop'' then compileLoopForm E cf lst
              else if headName = ''try'' then compileTry E cf lst
              else if headName = ''throw'' then
                if length lst \<noteq> 2 then compileError ''Too many arguments to throw, throw expects a single exception''
                else thenC (cf (lst ! 1)) (emitC THROW 0)
              else if headName = ''apply'' then compileApply E cf lst
              else if headName = ''recur'' then compileRecur cf lst
              else compileCall E cf lst headName coreQualified)))"

fun compileForm :: "'w compEnv \<Rightarrow> nat \<Rightarrow> form \<Rightarrow> ('w, unit) cm" where
  "compileForm E 0 f = throwC (CompileOverflow (overflowMessage E))"
| "compileForm E (Suc d) f =
     (case f of
        FNil \<Rightarrow> emitC PUSH_NIL 0
      | FTrue \<Rightarrow> emitC PUSH_TRUE 0
      | FFalse \<Rightarrow> emitC PUSH_FALSE 0
      | FInt v \<Rightarrow> emitConst PUSH_CONST (addIntegerConst v)
      | FFloat x \<Rightarrow> emitConst PUSH_CONST (addDouble (doubleBits E x))
      | FList lst \<Rightarrow> compileList E d (compileForm E d) lst
      | FMap m \<Rightarrow> compileColl E (compileForm E d) ''hash-map'' (flatten (mapFormEntries E m))
      | FVec items \<Rightarrow> compileColl E (compileForm E d) ''vector'' items
      | FSet xs \<Rightarrow>
          if list_all constantForm (setElements E xs) then emitConst PUSH_CONST (addDatum (datumObj E f))
          else compileColl E (compileForm E d) ''clojure.core/hash-set'' (setElements E xs)
      | FPattern p \<Rightarrow> emitConst PUSH_CONST (addDatum (datumObj E f))
      | FStr s \<Rightarrow> emitConst PUSH_CONST (addString s)
      | FNamed s \<Rightarrow> compileSymbol E s)"

section \<open>Top-level forms\<close>

definition newCompiler :: "nat \<Rightarrow> 'w \<Rightarrow> 'w comp" where
  "newCompiler n w = \<lparr>out = emptyModule, made = [], scopes = [], freshId = n, compWorld = w\<rparr>"

text \<open>The module of a top-level form that is not a \<^verbatim>\<open>do\<close> (src/compiler/Eval.cpp).\<close>

definition compileTopLevel :: "'w compEnv \<Rightarrow> nat \<Rightarrow> form \<Rightarrow> ('w, unit) cm" where
  "compileTopLevel E d f = thenC (compileForm E d f) (emitC RETURN 0)"

end
