(* ===== verification/Pieces.thy ===== *)
theory Pieces
  imports StackSafety
begin

text \<open>
  Pieces of code with one entry and one exit, and how they are put together: the depth of the operand stack,
  the handlers and the loops around every instruction, for sequences, branches, loops and tries. What is put
  together so is safe for the dispatch loop whenever the analysis \<^verbatim>\<open>computeMaxStack\<close> stays in the range of \<^verbatim>\<open>int\<close>.
\<close>

section \<open>Pieces\<close>

text \<open>At an instruction: the depth, the handlers, and the heads of the loops around it, each with its own.\<close>

type_synonym hstack = "(nat \<times> nat) list"
type_synonym heads = "(nat \<times> nat \<times> hstack) set"
type_synonym place = "nat \<times> hstack \<times> heads"

definition okEdge :: "BytecodeModule \<Rightarrow> (nat \<Rightarrow> place) \<Rightarrow> nat \<Rightarrow> nat \<Rightarrow> int \<Rightarrow> bool" where
  "okEdge M D pc j e \<longleftrightarrow>
     (case (D pc, D j) of ((d, h, ls), (d', h', ls')) \<Rightarrow>
        int d' = e \<and>
        h' = (if instrOp (code M ! pc) = Some TRY_BEGIN \<and> e = int d + 1 then h else handlersAfter M pc d h) \<and>
        ls' \<subseteq> insert (j, d', h') ls)"

text \<open>A backward jump goes to the head of a loop around it, under the same handlers, at its depth or deeper.\<close>

definition okAt :: "(modptr \<Rightarrow> nat) \<Rightarrow> BytecodeModule \<Rightarrow> (nat \<Rightarrow> place) \<Rightarrow> nat \<Rightarrow> nat \<Rightarrow> nat \<Rightarrow> bool" where
  "okAt caps M D lo hi pc \<longleftrightarrow>
     (case D pc of (d, h, ls) \<Rightarrow>
        instr_ok caps M pc d h \<and>
        (\<forall>(j, e)\<in>set (succs caps M pc (int d)).
           if instrOp (code M ! pc) = Some JUMP_BACK then \<exists>k\<le>d. (j, k, h) \<in> ls
           else lo \<le> j \<and> j \<le> hi \<and> okEdge M D pc j e))"

definition headsIn :: "(nat \<Rightarrow> place) \<Rightarrow> heads \<Rightarrow> nat \<Rightarrow> nat \<Rightarrow> nat \<Rightarrow> bool" where
  "headsIn D ls a b pc \<longleftrightarrow>
     (\<forall>(j, k, h)\<in>snd (snd (D pc)). (j, k, h) \<in> ls \<or> a \<le> j \<and> j < b \<and> fst (D j) = k \<and> fst (snd (D j)) = h)"

definition entersAs :: "(nat \<Rightarrow> place) \<Rightarrow> nat \<Rightarrow> place \<Rightarrow> bool" where
  "entersAs D a x \<longleftrightarrow>
     (case (x, D a) of ((k, hs, ls), (k', hs', ls')) \<Rightarrow> k' = k \<and> hs' = hs \<and> ls \<subseteq> ls' \<and> ls' \<subseteq> insert (a, k, hs) ls)"

definition piece :: "(modptr \<Rightarrow> nat) \<Rightarrow> BytecodeModule \<Rightarrow> nat \<Rightarrow> place \<Rightarrow> nat \<Rightarrow> place \<Rightarrow> bool" where
  "piece caps M a x b y \<longleftrightarrow>
     a \<le> b \<and>
     (\<exists>D. entersAs D a x \<and> D b = y \<and> (\<forall>pc. a \<le> pc \<and> pc < b \<longrightarrow> okAt caps M D a b pc) \<and>
        (\<forall>pc. a \<le> pc \<and> pc \<le> b \<longrightarrow> headsIn D (snd (snd x)) a b pc))"

lemma pieceI:
  assumes "a \<le> b" "entersAs D a x" "D b = y" "\<And>pc. a \<le> pc \<Longrightarrow> pc < b \<Longrightarrow> okAt caps M D a b pc"
    "\<And>pc. a \<le> pc \<Longrightarrow> pc \<le> b \<Longrightarrow> headsIn D (snd (snd x)) a b pc"
  shows "piece caps M a x b y"
  using assms unfolding piece_def by blast

lemma pieceE:
  assumes "piece caps M a x b y"
  obtains D where "a \<le> b" "entersAs D a x" "D b = y" "\<And>pc. a \<le> pc \<Longrightarrow> pc < b \<Longrightarrow> okAt caps M D a b pc"
    "\<And>pc. a \<le> pc \<Longrightarrow> pc \<le> b \<Longrightarrow> headsIn D (snd (snd x)) a b pc"
  using assms unfolding piece_def by blast

lemma piece_empty [intro]: "piece caps M a x a x"
  by (rule pieceI [where D = "\<lambda>_. x"]) (auto simp: entersAs_def headsIn_def split: prod.splits)

section \<open>Changing the places\<close>

text \<open>An instruction is judged by its own place and those of its successors.\<close>

lemma okEdge_enters:
  assumes "okEdge M D pc j e" "D' pc = D pc" "entersAs D' j (D j)"
  shows "okEdge M D' pc j e"
  using assms by (fastforce simp: okEdge_def entersAs_def split: prod.splits)

lemma okAt_cong:
  assumes "okAt caps M D lo hi pc" "D' pc = D pc" "lo' \<le> lo" "hi \<le> hi'"
    "\<And>j. lo \<le> j \<Longrightarrow> j \<le> hi \<Longrightarrow> entersAs D' j (D j)"
  shows "okAt caps M D' lo' hi' pc"
  using assms okEdge_enters [of M D pc _ _ D'] by (fastforce simp: okAt_def split: prod.splits if_splits)

lemma entersAs_refl [simp]: "entersAs D a (D a)"
  by (auto simp: entersAs_def split: prod.splits)

lemma entersAs_cong: "D' a = D a \<Longrightarrow> entersAs D' a x = entersAs D a x"
  by (simp add: entersAs_def)

section \<open>Putting pieces together\<close>

definition splice :: "nat \<Rightarrow> (nat \<Rightarrow> place) \<Rightarrow> (nat \<Rightarrow> place) \<Rightarrow> nat \<Rightarrow> place" where
  "splice b D1 D2 pc = (if pc < b then D1 pc else D2 pc)"

lemma splice_simps [simp]: "pc < b \<Longrightarrow> splice b D1 D2 pc = D1 pc" "b \<le> pc \<Longrightarrow> splice b D1 D2 pc = D2 pc"
  by (simp_all add: splice_def)

lemma piece_append:
  assumes "piece caps M a x b y" "piece caps M b y c z"
  shows "piece caps M a x c z"
proof -
  obtain D1 where 1: "a \<le> b" "entersAs D1 a x" "D1 b = y" "\<And>pc. a \<le> pc \<Longrightarrow> pc < b \<Longrightarrow> okAt caps M D1 a b pc"
    "\<And>pc. a \<le> pc \<Longrightarrow> pc \<le> b \<Longrightarrow> headsIn D1 (snd (snd x)) a b pc"
    using assms(1) by (rule pieceE) blast
  obtain D2 where 2: "b \<le> c" "entersAs D2 b y" "D2 c = z" "\<And>pc. b \<le> pc \<Longrightarrow> pc < c \<Longrightarrow> okAt caps M D2 b c pc"
    "\<And>pc. b \<le> pc \<Longrightarrow> pc \<le> c \<Longrightarrow> headsIn D2 (snd (snd y)) b c pc"
    using assms(2) by (rule pieceE) blast
  let ?D = "splice b D1 D2"
  show ?thesis
  proof (rule pieceI [where D = ?D])
    show "a \<le> c" "?D c = z" using 1(1) 2(1,3) by simp_all
    show "entersAs ?D a x"
    proof (cases "a < b")
      case True
      with 1(2) show ?thesis by (simp add: entersAs_def)
    next
      case False
      with 1 have "a = b" "entersAs D1 b x" by simp_all
      with 1(3) 2(2) show ?thesis by (fastforce simp: entersAs_def split: prod.splits)
    qed
  next
    fix pc assume pc: "a \<le> pc" "pc < c"
    show "okAt caps M ?D a c pc"
    proof (cases "pc < b")
      case True
      show ?thesis
      proof (rule okAt_cong [OF 1(4) [OF pc(1) True]])
        fix j assume "a \<le> j" "j \<le> b"
        then show "entersAs ?D j (D1 j)"
          using 1(3) 2(2) by (cases "j < b") (auto simp: entersAs_def split: prod.splits)
      qed (use True 2(1) in simp_all)
    next
      case False
      then show ?thesis
        by (intro okAt_cong [OF 2(4)]) (use pc 1(1) in \<open>auto simp: entersAs_def split: prod.splits\<close>)
    qed
  next
    fix pc assume pc: "a \<le> pc" "pc \<le> c"
    show "headsIn ?D (snd (snd x)) a c pc"
    proof (cases "pc < b")
      case True
      then show ?thesis using 1(5) [of pc] pc 2(1) by (fastforce simp: headsIn_def)
    next
      case False
      have y: "(j, k, h) \<in> snd (snd x) \<or> a \<le> j \<and> j < b \<and> fst (D1 j) = k \<and> fst (snd (D1 j)) = h"
        if "(j, k, h) \<in> snd (snd y)" for j k h
        using 1(5) [of b] 1(1,3) that by (auto simp: headsIn_def)
      have "\<forall>(j, k, h)\<in>snd (snd (D2 pc)). (j, k, h) \<in> snd (snd y) \<or> b \<le> j \<and> j < c \<and> fst (D2 j) = k \<and> fst (snd (D2 j)) = h"
        using 2(5) [of pc] pc False by (simp add: headsIn_def)
      then show ?thesis
        unfolding headsIn_def using y False 1(1) 2(1) by (auto simp: splice_def) fastforce+
    qed
  qed
qed

text \<open>One instruction that only falls through.\<close>

lemma piece_instr:
  assumes "instr_ok caps M a d h" "succs caps M a (int d) = [(a + 1, int d')]"
    "instrOp (code M ! a) \<noteq> Some JUMP_BACK" "handlersAfter M a d h = h'"
    "instrOp (code M ! a) = Some TRY_BEGIN \<longrightarrow> d' \<noteq> d + 1"
  shows "piece caps M a (d, h, ls) (a + 1) (d', h', ls)"
proof (rule pieceI [where D = "splice (a + 1) (\<lambda>_. (d, h, ls)) (\<lambda>_. (d', h', ls))"])
  fix pc assume "a \<le> pc" "pc < a + 1"
  then have "pc = a" by simp
  then show "okAt caps M (splice (a + 1) (\<lambda>_. (d, h, ls)) (\<lambda>_. (d', h', ls))) a (a + 1) pc"
    using assms by (auto simp: okAt_def okEdge_def)
qed (auto simp: entersAs_def headsIn_def splice_def)

text \<open>One that ends the path, whatever the place after it is.\<close>

lemma piece_end:
  assumes "instr_ok caps M a d h" "succs caps M a (int d) = []" "ls' \<subseteq> ls"
  shows "piece caps M a (d, h, ls) (a + 1) (d', h', ls')"
proof (rule pieceI [where D = "splice (a + 1) (\<lambda>_. (d, h, ls)) (\<lambda>_. (d', h', ls'))"])
  fix pc assume "a \<le> pc" "pc < a + 1"
  then have "pc = a" by simp
  then show "okAt caps M (splice (a + 1) (\<lambda>_. (d, h, ls)) (\<lambda>_. (d', h', ls'))) a (a + 1) pc"
    using assms by (auto simp: okAt_def)
qed (use assms(3) in \<open>auto simp: entersAs_def headsIn_def splice_def\<close>)

lemma piece_back:
  assumes "instr_ok caps M a d h" "succs caps M a (int d) = [(j, int d)]" "instrOp (code M ! a) = Some JUMP_BACK"
    "(j, k, h) \<in> ls" "k \<le> d" "ls' \<subseteq> ls"
  shows "piece caps M a (d, h, ls) (a + 1) (d', h', ls')"
proof (rule pieceI [where D = "splice (a + 1) (\<lambda>_. (d, h, ls)) (\<lambda>_. (d', h', ls'))"])
  fix pc assume "a \<le> pc" "pc < a + 1"
  then have "pc = a" by simp
  then show "okAt caps M (splice (a + 1) (\<lambda>_. (d, h, ls)) (\<lambda>_. (d', h', ls'))) a (a + 1) pc"
    using assms by (auto simp: okAt_def)
qed (use assms(6) in \<open>auto simp: entersAs_def headsIn_def splice_def\<close>)

text \<open>A jump over a piece that leaves everything as it was.\<close>

lemma okEdge_to:
  assumes "D pc = (d, h, ls)" "D j = (d', h', ls')"
    "h' = (if instrOp (code M ! pc) = Some TRY_BEGIN \<and> d' = d + 1 then h else handlersAfter M pc d h)"
    "ls' \<subseteq> insert (j, d', h') ls"
  shows "okEdge M D pc j (int d')"
  using assms by (auto simp: okEdge_def)

lemma okEdge_enter:
  assumes "D pc = (d, h, ls)" "entersAs D j (d', h', ls)"
    "h' = (if instrOp (code M ! pc) = Some TRY_BEGIN \<and> d' = d + 1 then h else handlersAfter M pc d h)"
  shows "okEdge M D pc j (int d')"
  using assms by (cases "D j") (auto simp: okEdge_def entersAs_def)

lemma headsIn_mono: "headsIn D ls a b pc \<Longrightarrow> a' \<le> a \<Longrightarrow> b \<le> b' \<Longrightarrow> headsIn D ls a' b' pc"
  by (fastforce simp: headsIn_def)

lemma headsIn_cong:
  "headsIn D ls a b pc \<Longrightarrow> D' pc = D pc \<Longrightarrow> (\<And>j. a \<le> j \<Longrightarrow> j < b \<Longrightarrow> D' j = D j) \<Longrightarrow> headsIn D' ls a b pc"
  by (fastforce simp: headsIn_def)

lemma piece_guard:
  assumes "instr_ok caps M a d h" "set (succs caps M a (int d)) = {(c, int d'), (a + 1, int d')}"
    "instrOp (code M ! a) \<notin> {Some JUMP_BACK, Some TRY_BEGIN}" "handlersAfter M a d h = h"
    and P: "piece caps M (a + 1) (d', h, ls) c (d', h, ls)"
  shows "piece caps M a (d, h, ls) c (d', h, ls)"
proof -
  obtain D1 where 1: "a + 1 \<le> c" "entersAs D1 (a + 1) (d', h, ls)" "D1 c = (d', h, ls)"
    "\<And>pc. a + 1 \<le> pc \<Longrightarrow> pc < c \<Longrightarrow> okAt caps M D1 (a + 1) c pc"
    "\<And>pc. a + 1 \<le> pc \<Longrightarrow> pc \<le> c \<Longrightarrow> headsIn D1 ls (a + 1) c pc"
    using P by (rule pieceE) simp
  define D where "D = splice (a + 1) (\<lambda>_. (d, h, ls)) D1"
  have D [simp]: "D a = (d, h, ls)" "\<And>pc. a + 1 \<le> pc \<Longrightarrow> D pc = D1 pc" by (simp_all add: D_def)
  have "okEdge M D a c (int d')" using 1(1,3) assms(3,4) by (intro okEdge_to) auto
  moreover have "okEdge M D a (a + 1) (int d')"
    using 1(2) assms(3,4) by (intro okEdge_enter [of _ _ d h ls _ d' h]) (auto simp: entersAs_def)
  ultimately have a: "okAt caps M D a c a" using assms(1-3) 1(1) by (auto simp: okAt_def)
  show ?thesis
  proof (rule pieceI [where D = D])
    fix pc assume "a \<le> pc" "pc < c"
    then consider "pc = a" | "a + 1 \<le> pc" "pc < c" by linarith
    then show "okAt caps M D a c pc"
      by cases (use a in \<open>auto intro!: okAt_cong [OF 1(4)] simp: entersAs_cong\<close>)
  next
    fix pc assume "a \<le> pc" "pc \<le> c"
    then consider "pc = a" | "a + 1 \<le> pc" "pc \<le> c" by linarith
    then show "headsIn D (snd (snd (d, h, ls))) a c pc"
      by cases (auto intro!: headsIn_mono [OF headsIn_cong [OF 1(5)]] simp: headsIn_def [of D ls a c a])
  qed (use 1(1,3) in \<open>auto simp: entersAs_def\<close>)
qed

text \<open>Two pieces, of which one ends with a jump over the other: the arms of a branch, or a body and its handler.\<close>

lemma piece_fork:
  assumes "instr_ok caps M a d h" "set (succs caps M a (int d)) = {(b + 1, int d2), (a + 1, int d1)}"
    "instrOp (code M ! a) \<noteq> Some JUMP_BACK"
    "h1 = (if instrOp (code M ! a) = Some TRY_BEGIN \<and> d1 = d + 1 then h else handlersAfter M a d h)"
    "h2 = (if instrOp (code M ! a) = Some TRY_BEGIN \<and> d2 = d + 1 then h else handlersAfter M a d h)"
    and P: "piece caps M (a + 1) (d1, h1, ls) b (d', h', ls)" "piece caps M (b + 1) (d2, h2, ls) c (d', h', ls)"
    and J: "instrOp (code M ! b) = Some JUMP" "instr_ok caps M b d' h'" "succs caps M b (int d') = [(c, int d')]"
  shows "piece caps M a (d, h, ls) c (d', h', ls)"
proof -
  obtain D1 where one: "a + 1 \<le> b" "entersAs D1 (a + 1) (d1, h1, ls)" "D1 b = (d', h', ls)"
    "\<And>pc. a + 1 \<le> pc \<Longrightarrow> pc < b \<Longrightarrow> okAt caps M D1 (a + 1) b pc"
    "\<And>pc. a + 1 \<le> pc \<Longrightarrow> pc \<le> b \<Longrightarrow> headsIn D1 ls (a + 1) b pc"
    using P(1) by (rule pieceE) simp
  obtain D2 where two: "b + 1 \<le> c" "entersAs D2 (b + 1) (d2, h2, ls)" "D2 c = (d', h', ls)"
    "\<And>pc. b + 1 \<le> pc \<Longrightarrow> pc < c \<Longrightarrow> okAt caps M D2 (b + 1) c pc"
    "\<And>pc. b + 1 \<le> pc \<Longrightarrow> pc \<le> c \<Longrightarrow> headsIn D2 ls (b + 1) c pc"
    using P(2) by (rule pieceE) simp
  define D where "D = splice (a + 1) (\<lambda>_. (d, h, ls)) (splice (b + 1) D1 D2)"
  have D [simp]: "D a = (d, h, ls)" "\<And>pc. a + 1 \<le> pc \<Longrightarrow> pc \<le> b \<Longrightarrow> D pc = D1 pc" "\<And>pc. b + 1 \<le> pc \<Longrightarrow> D pc = D2 pc"
    using one(1) by (simp_all add: D_def)
  have "okEdge M D a (b + 1) (int d2)"
    using two(2) assms(5) by (intro okEdge_enter [of _ _ d h ls _ d2 h2]) (auto simp: entersAs_def)
  moreover have "okEdge M D a (a + 1) (int d1)"
    using one(1,2) assms(4) by (intro okEdge_enter [of _ _ d h ls _ d1 h1]) (auto simp: entersAs_def)
  ultimately have a: "okAt caps M D a c a" using assms(1-3) one(1) two(1) by (auto simp: okAt_def)
  have "okEdge M D b c (int d')"
    using one(1,3) two(1,3) J(1) by (intro okEdge_to) (auto simp: handlersAfter_def)
  then have b: "okAt caps M D a c b" using J one(1,3) two(1) by (auto simp: okAt_def)
  show ?thesis
  proof (rule pieceI [where D = D])
    fix pc assume "a \<le> pc" "pc < c"
    then consider "pc = a" | "a + 1 \<le> pc" "pc < b" | "pc = b" | "b + 1 \<le> pc" "pc < c" by linarith
    then show "okAt caps M D a c pc"
    proof cases
      case 2
      then show ?thesis by (intro okAt_cong [OF one(4)]) (use 2 two(1) in \<open>auto simp: entersAs_cong\<close>)
    next
      case 4
      then show ?thesis by (intro okAt_cong [OF two(4)]) (use one(1) in \<open>auto simp: entersAs_cong\<close>)
    qed (use a b in simp_all)
  next
    fix pc assume "a \<le> pc" "pc \<le> c"
    then consider "pc = a" | "a + 1 \<le> pc" "pc \<le> b" | "b + 1 \<le> pc" "pc \<le> c" by linarith
    then have "headsIn D ls a c pc"
    proof cases
      case 2
      then show ?thesis by (intro headsIn_mono [OF headsIn_cong [OF one(5)]]) (use 2 two(1) in auto)
    next
      case 3
      then show ?thesis by (intro headsIn_mono [OF headsIn_cong [OF two(5)]]) (use one(1) in auto)
    qed (auto simp: headsIn_def)
    then show "headsIn D (snd (snd (d, h, ls))) a c pc" by simp
  qed (use one(1) two(1,3) in \<open>auto simp: entersAs_def\<close>)
qed

text \<open>The body of a loop, which its last instructions may jump back to.\<close>

lemma piece_loop:
  assumes P: "piece caps M a (k, hs, insert (a, k, hs) ls) b (k', hs', insert (a, k, hs) ls)" and "a < b"
  shows "piece caps M a (k, hs, ls) b (k', hs', ls)"
proof -
  let ?ls = "insert (a, k, hs) ls"
  obtain D1 where 1: "entersAs D1 a (k, hs, ?ls)" "D1 b = (k', hs', ?ls)"
    "\<And>pc. a \<le> pc \<Longrightarrow> pc < b \<Longrightarrow> okAt caps M D1 a b pc"
    "\<And>pc. a \<le> pc \<Longrightarrow> pc \<le> b \<Longrightarrow> headsIn D1 ?ls a b pc"
    using P by (rule pieceE) simp
  define D where "D = D1(b := (k', hs', ls))"
  have D [simp]: "D b = (k', hs', ls)" "\<And>pc. pc \<noteq> b \<Longrightarrow> D pc = D1 pc" by (simp_all add: D_def)
  have at_a: "fst (D1 a) = k" "fst (snd (D1 a)) = hs" using 1(1) by (auto simp: entersAs_def split: prod.splits)
  have edge: "okEdge M D pc j e" if "okEdge M D1 pc j e" "pc \<noteq> b" for pc j e
    using that 1(2) by (cases "j = b") (auto simp: okEdge_def split: prod.splits)
  show ?thesis
  proof (rule pieceI [where D = D])
    fix pc assume pc: "a \<le> pc" "pc < b"
    with 1(3) [OF pc] edge show "okAt caps M D a b pc" by (fastforce simp: okAt_def split: prod.splits if_splits)
  next
    fix pc assume pc: "a \<le> pc" "pc \<le> b"
    show "headsIn D (snd (snd (k, hs, ls))) a b pc"
    proof (cases "pc = b")
      case True
      then show ?thesis by (auto simp: headsIn_def)
    next
      case False
      with 1(4) [OF pc] at_a \<open>a < b\<close> show ?thesis by (fastforce simp: headsIn_def)
    qed
  qed (use \<open>a < b\<close> 1(1) in \<open>auto simp: entersAs_def split: prod.splits\<close>)
qed

section \<open>Bodies\<close>

text \<open>The code of a whole body is one piece, entered with an empty stack.\<close>

definition bodyOk :: "(modptr \<Rightarrow> nat) \<Rightarrow> BytecodeModule \<Rightarrow> bool" where
  "bodyOk caps M \<longleftrightarrow> (\<exists>y. piece caps M 0 (0, [], {}) (length (code M)) y)"

text \<open>Control flow from an instruction at a depth.\<close>

inductive path :: "(modptr \<Rightarrow> nat) \<Rightarrow> BytecodeModule \<Rightarrow> nat \<Rightarrow> int \<Rightarrow> nat \<Rightarrow> int \<Rightarrow> bool"
  for caps :: "modptr \<Rightarrow> nat" and M :: BytecodeModule and i :: nat and d :: int where
  path_refl: "path caps M i d i d"
| path_step: "path caps M i d j e \<Longrightarrow> (l, x) \<in> set (succs caps M j e) \<Longrightarrow> l < length (code M) \<Longrightarrow> 0 \<le> x \<Longrightarrow>
    path caps M i d l x"

lemma path_flows: "path caps M i d j e \<Longrightarrow> flows caps M i d \<Longrightarrow> flows caps M j e"
  by (induction rule: path.induct) (auto intro: flows_step)

lemma path_shift: "path caps M i d j e \<Longrightarrow> 0 \<le> x \<Longrightarrow> path caps M i (d + x) j (e + x)"
proof (induction rule: path.induct)
  case (path_step j e l y)
  from succs_mono [OF path_step.hyps(2), of "e + x"] path_step show ?case by (auto intro: path.path_step)
qed (rule path_refl)

lemma path_trans: "path caps M j e l x \<Longrightarrow> path caps M i d j e \<Longrightarrow> path caps M i d l x"
  by (induction rule: path.induct) (auto intro: path_step)

text \<open>A cycle that comes back deeper goes deeper without end.\<close>

lemma deeper_unbounded:
  assumes "path caps M j d j (d + x)" "0 < x" "flows caps M j d"
  shows "\<exists>e. flows caps M j e \<and> b < e"
proof -
  have p: "path caps M j d j (d + int n * x)" for n
  proof (induction n)
    case (Suc n)
    have "path caps M j (d + int n * x) j (d + x + int n * x)"
      using path_shift [OF assms(1), of "int n * x"] assms(2) by simp
    from path_trans [OF this Suc] show ?case by (simp add: algebra_simps)
  qed (simp add: path_refl)
  have "int (nat (b - d + 1)) * 1 \<le> int (nat (b - d + 1)) * x" using assms(2) by (intro mult_left_mono) auto
  then have "b < d + int (nat (b - d + 1)) * x" by linarith
  with path_flows [OF p assms(3)] show ?thesis by blast
qed

text \<open>The flow that never jumps back.\<close>

inductive forward :: "(modptr \<Rightarrow> nat) \<Rightarrow> BytecodeModule \<Rightarrow> nat \<Rightarrow> int \<Rightarrow> bool"
  for caps :: "modptr \<Rightarrow> nat" and M :: BytecodeModule where
  forward_start: "0 < length (code M) \<Longrightarrow> forward caps M 0 0"
| forward_step: "forward caps M i d \<Longrightarrow> instrOp (code M ! i) \<noteq> Some JUMP_BACK \<Longrightarrow>
    (j, e) \<in> set (succs caps M i d) \<Longrightarrow> j < length (code M) \<Longrightarrow> 0 \<le> e \<Longrightarrow> forward caps M j e"

lemma forward_flows: "forward caps M i d \<Longrightarrow> flows caps M i d"
  by (induction rule: forward.induct) (auto intro: flows.intros)

lemma forward_places:
  assumes "entersAs D 0 (0, [], {})" "\<And>pc. pc < length (code M) \<Longrightarrow> okAt caps M D 0 (length (code M)) pc"
  shows "forward caps M i d \<Longrightarrow> d = int (fst (D i)) \<and>
    (\<forall>(j, k, h)\<in>snd (snd (D i)). forward caps M j (int k) \<and> path caps M j (int k) i d)"
proof (induction rule: forward.induct)
  case forward_start
  obtain ls where "D 0 = (0, [], ls)" "ls \<subseteq> {(0, 0, [])}" using assms(1) by (auto simp: entersAs_def split: prod.splits)
  with forward.forward_start [OF forward_start] path_refl [of caps M 0 0] show ?case by force
next
  case (forward_step i d j e)
  have i: "i < length (code M)" using flows_range [OF forward_flows [OF forward_step.hyps(1)]] by simp
  obtain di hi li dj hj lj where D: "D i = (di, hi, li)" "D j = (dj, hj, lj)" by (metis prod_cases3)
  have "okEdge M D i j e"
    using assms(2) [OF i] forward_step by (auto simp: okAt_def D)
  then have e: "e = int dj" "lj \<subseteq> insert (j, dj, hj) li" by (auto simp: okEdge_def D)
  have here: "forward caps M j e" using forward_step.hyps by (rule forward.forward_step)
  have step: "path caps M a b j e" if "path caps M a b i d" for a b
    using path_step [OF that forward_step.hyps(3)] forward_step.hyps by simp
  show ?case using e here step forward_step.IH path_refl [of caps M j e] by (fastforce simp: D)
qed

text \<open>When the analysis has an answer, every backward jump is at the depth of its target: a recur in tail position.\<close>

lemma bodyOk_well_formed:
  assumes "bodyOk caps M" "computeMaxStack caps M = Some r"
  shows "\<exists>H. well_formed caps M H \<and> code_ok M"
proof -
  let ?n = "length (code M)"
  obtain D where D: "entersAs D 0 (0, [], {})" "\<And>pc. pc < ?n \<Longrightarrow> okAt caps M D 0 ?n pc"
    "\<And>pc. pc \<le> ?n \<Longrightarrow> headsIn D {} 0 ?n pc"
    using assms(1) unfolding bodyOk_def piece_def by auto
  define H where "H = (\<lambda>pc. (fst (D pc), fst (snd (D pc))))"
  have ok: "instr_ok caps M pc (fst (H pc)) (snd (H pc))" if "pc < ?n" for pc
    using D(2) [OF that] by (auto simp: okAt_def H_def split: prod.splits)
  then have ops: "\<exists>op. instrOp (code M ! pc) = Some op" if "pc < ?n" for pc
    using that by (fastforce simp: instr_ok_def Let_def split: option.splits)
  have code: "code_ok M"
  proof -
    have "instrOp w \<noteq> None \<and> (instrOp w = Some TRY_BEGIN \<longrightarrow> hasHandlers M)" if "w \<in> set (code M)" for w
    proof -
      obtain pc where "pc < ?n" "w = code M ! pc" using \<open>w \<in> set (code M)\<close> by (metis in_set_conv_nth)
      with ok [of pc] ops [of pc] show ?thesis by (auto simp: instr_ok_def Let_def)
    qed
    then show ?thesis by (simp add: code_ok_def)
  qed
  have bound: "d \<le> int r" if "flows caps M i d" for i d
    using computeMaxStack_bounds(2) [OF assms(2) _ that] code by (auto simp: code_ok_def)
  note places = forward_places [OF D(1) D(2), simplified]
  have returns: "fst (D j) = fst (D pc) \<and> fst (snd (D j)) = fst (snd (D pc)) \<and> forward caps M j d"
    if f: "forward caps M pc d" and jb: "instrOp (code M ! pc) = Some JUMP_BACK" and j: "(j, d') \<in> set (succs caps M pc d)" for pc d j d'
  proof -
    have pc: "pc < ?n" "0 \<le> d" using flows_range [OF forward_flows [OF f]] by auto
    obtain dp hp lp where P: "D pc = (dp, hp, lp)" by (metis prod_cases3)
    have d: "d = int dp" using places [OF f] by (simp add: P)
    have d': "d' = d" using j jb by (auto simp: succs_def flowOf_def Let_def split: if_splits)
    obtain k where k: "k \<le> dp" "(j, k, hp) \<in> lp" using D(2) [OF pc(1)] jb j d by (auto simp: okAt_def P)
    have head: "fst (D j) = k" "fst (snd (D j)) = hp" "j < ?n" using D(3) [of pc] pc k by (auto simp: headsIn_def P)
    have fj: "forward caps M j (int k)" "path caps M j (int k) pc d" using places [OF f] k by (auto simp: P)
    have "path caps M j (int k) j d" using path_step [OF fj(2) j] head pc d' by simp
    then have "path caps M j (int k) j (int k + (int dp - int k))" using d by simp
    then have "\<not> 0 < int dp - int k" using deeper_unbounded [OF _ _ forward_flows [OF fj(1)], of "int dp - int k" "int r"] bound by fastforce
    then have "k = dp" using k by simp
    with head fj d show ?thesis by (simp add: P)
  qed
  have flows: "flows caps M i d \<Longrightarrow> forward caps M i d" for i d
  proof (induction rule: flows.induct)
    case (flows_step i d j e)
    show ?case
    proof (cases "instrOp (code M ! i) = Some JUMP_BACK")
      case True
      then have "e = d" using flows_step.hyps(2) by (auto simp: succs_def flowOf_def Let_def split: if_splits)
      with returns [OF flows_step.IH True flows_step.hyps(2)] show ?thesis by simp
    qed (use flows_step forward_step in blast)
  qed (rule forward_start)
  have "well_formed caps M H"
    unfolding well_formed_def
  proof (intro conjI impI allI ballI)
    show "H 0 = (0, [])" using D(1) by (auto simp: H_def entersAs_def split: prod.splits)
  next
    fix pc assume pc: "pc < ?n" and fl: "flows caps M pc (int (fst (H pc)))"
    show "instr_ok caps M pc (fst (H pc)) (snd (H pc))" using ok [OF pc] .
    fix x assume x: "x \<in> set (succs caps M pc (int (fst (H pc))))"
    obtain j e where je: "x = (j, e)" by (cases x)
    have "int (fst (H j)) = e \<and> snd (H j) = (if instrOp (code M ! pc) = Some TRY_BEGIN \<and> e = int (fst (H pc)) + 1
         then snd (H pc) else handlersAfter M pc (fst (H pc)) (snd (H pc)))" if "j < ?n"
    proof (cases "instrOp (code M ! pc) = Some JUMP_BACK")
      case True
      then have "e = int (fst (H pc))" using x je by (auto simp: succs_def flowOf_def Let_def split: if_splits)
      with returns [OF flows [OF fl] True x [unfolded je]] True show ?thesis by (simp add: H_def handlersAfter_def)
    next
      case False
      with D(2) [OF pc] x je have "okEdge M D pc j e" by (auto simp: okAt_def H_def split: prod.splits)
      then show ?thesis by (auto simp: okEdge_def H_def split: prod.splits)
    qed
    then show "case x of (j, e) \<Rightarrow> j < ?n \<longrightarrow> int (fst (H j)) = e \<and> snd (H j) =
        (if instrOp (code M ! pc) = Some TRY_BEGIN \<and> e = int (fst (H pc)) + 1
         then snd (H pc) else handlersAfter M pc (fst (H pc)) (snd (H pc)))" by (simp add: je)
  qed
  with code show ?thesis by blast
qed

end
