(* ===== verification/Emission.thy ===== *)
theory Emission
  imports Compiler Pieces
begin

text \<open>
  What a step of the compiler emits: a piece of code for whatever module its output ends up in, together
  with what it leaves alone and the invariant of the compiler's state.
\<close>

section \<open>The invariant\<close>

definition pos :: "'w comp \<Rightarrow> nat" where
  "pos st = length (code (out st))"

text \<open>The slots a module names for its \<^verbatim>\<open>:keys\<close> and \<^verbatim>\<open>:as\<close>; each slot a call binds is one of the frame.\<close>

definition declared :: "BytecodeModule \<Rightarrow> nat set" where
  "declared m = klocalSlot ` set (kwKeys m) \<union> set_option (asSlot m)"

definition slotsOk :: "BytecodeModule \<Rightarrow> bool" where
  "slotsOk m \<longleftrightarrow>
     (\<forall>s\<in>declared m \<union> clocalSlot ` set (captureSpecs m). s < arity m + localCount m) \<and>
     (isVariadic m \<longrightarrow> 0 < localCount m)"

definition madeOk :: "BytecodeModule list \<Rightarrow> BytecodeModule \<Rightarrow> bool" where
  "madeOk mds m \<longleftrightarrow> slotsOk m \<and> (\<forall>caps. (\<forall>p<length mds. caps p = captureCount (mds ! p)) \<longrightarrow> bodyOk caps m)"

definition scopeOk :: "scope \<Rightarrow> bool" where
  "scopeOk sc \<longleftrightarrow>
     (\<forall>name s. slotOf name sc = Some s \<longrightarrow> s < nextSlot sc) \<and> (\<forall>(p, l)\<in>set (scopeCaptures sc). l < nextSlot sc) \<and>
     (\<forall>tgt\<in>set (recurStack sc). targetDepth tgt \<le> tryDepth sc \<and> (\<forall>s\<in>set (recurSlots tgt). s < nextSlot sc))"

text \<open>Each captured slot is one of the enclosing scope; the outermost scope captures nothing.\<close>

fun capsOk :: "scope list \<Rightarrow> bool" where
  "capsOk [] = True"
| "capsOk [sc] = (scopeCaptures sc = [])"
| "capsOk (sc # sc' # scs) = ((\<forall>(p, l)\<in>set (scopeCaptures sc). p < nextSlot sc') \<and> capsOk (sc' # scs))"

definition symbolsIn :: "BytecodeModule \<Rightarrow> bool" where
  "symbolsIn m \<longleftrightarrow> (\<forall>s i. symbolIndex m s = Some i \<longrightarrow> i < length (pool m))"

definition good :: "'w comp \<Rightarrow> bool" where
  "good st \<longleftrightarrow>
     (\<forall>sc\<in>set (scopes st). scopeOk sc) \<and> capsOk (scopes st) \<and>
     (\<forall>sc\<in>set (take 1 (scopes st)). \<forall>tgt\<in>set (recurStack sc). bodyStart tgt \<le> pos st) \<and>
     (\<forall>m\<in>set (made st). madeOk (made st) m) \<and> captureSpecs (out st) = [] \<and> symbolsIn (out st)"

definition growing :: "'a list \<Rightarrow> 'a list \<Rightarrow> bool" where
  "growing xs ys \<longleftrightarrow> (\<exists>zs. ys = xs @ zs)"

lemma growing_refl [simp]: "growing xs xs" and growing_append [simp]: "growing xs (xs @ zs)"
  by (auto simp: growing_def)

lemma growing_trans: "growing xs ys \<Longrightarrow> growing ys zs \<Longrightarrow> growing xs zs"
  by (auto simp: growing_def)

lemma growing_nth: "growing xs ys \<Longrightarrow> i < length xs \<Longrightarrow> ys ! i = xs ! i"
  by (auto simp: growing_def nth_append)

lemma growing_length: "growing xs ys \<Longrightarrow> length xs \<le> length ys"
  by (auto simp: growing_def)

text \<open>A step names only slots that exist.\<close>

definition slotIn :: "nat \<Rightarrow> 'w comp \<Rightarrow> bool" where
  "slotIn s st \<longleftrightarrow> (\<exists>sc\<in>set (take 1 (scopes st)). s < nextSlot sc)"

definition declares :: "'w comp \<Rightarrow> 'w comp \<Rightarrow> bool" where
  "declares st st' \<longleftrightarrow>
     isVariadic (out st') = isVariadic (out st) \<and>
     (\<forall>s\<in>declared (out st'). s \<in> declared (out st) \<or> slotIn s st')"

lemma declares_same [simp]:
  "isVariadic (out st') = isVariadic (out st) \<Longrightarrow> kwKeys (out st') = kwKeys (out st) \<Longrightarrow> asSlot (out st') = asSlot (out st) \<Longrightarrow>
     declares st st'"
  by (simp add: declares_def declared_def)

text \<open>What a step changes: code only at the positions \<open>X\<close>, everything else grows.\<close>

definition grows :: "nat set \<Rightarrow> 'w comp \<Rightarrow> 'w comp \<Rightarrow> bool" where
  "grows X st st' \<longleftrightarrow>
     pos st \<le> pos st' \<and> (\<forall>i<pos st. i \<notin> X \<longrightarrow> code (out st') ! i = code (out st) ! i) \<and>
     length (pool (out st)) \<le> length (pool (out st')) \<and> growing (blocks (out st)) (blocks (out st')) \<and>
     growing (arityGroups (out st)) (arityGroups (out st')) \<and> growing (made st) (made st') \<and>
     (hasHandlers (out st) \<longrightarrow> hasHandlers (out st')) \<and> arity (out st') = arity (out st) \<and> declares st st' \<and>
     list_all2 (\<lambda>sc sc'. nextSlot sc \<le> nextSlot sc') (scopes st) (scopes st')"

definition steady :: "'w comp \<Rightarrow> 'w comp \<Rightarrow> bool" where
  "steady st st' \<longleftrightarrow>
     map (\<lambda>sc. (recurStack sc, tryDepth sc, scopeArity sc)) (scopes st') =
     map (\<lambda>sc. (recurStack sc, tryDepth sc, scopeArity sc)) (scopes st)"

lemma grows_refl [simp]: "grows X st st"
  by (simp add: grows_def list_all2_refl)

lemma list_all2_le_trans:
  "list_all2 (\<lambda>sc sc'. nextSlot sc \<le> nextSlot sc') a b \<Longrightarrow> list_all2 (\<lambda>sc sc'. nextSlot sc \<le> nextSlot sc') b c \<Longrightarrow>
     list_all2 (\<lambda>sc sc'. nextSlot sc \<le> nextSlot sc') a c"
  by (erule (1) list_all2_trans [rotated]) simp

lemma declares_trans:
  assumes "declares a b" "declares b c" "list_all2 (\<lambda>sc sc'. nextSlot sc \<le> nextSlot sc') (scopes b) (scopes c)"
  shows "declares a c"
proof -
  have "slotIn s c" if "slotIn s b" for s
    using that assms(3) by (cases "scopes b") (auto simp: slotIn_def list_all2_Cons1)
  with assms(1,2) show ?thesis unfolding declares_def by metis
qed

lemma grows_trans: "grows X a b \<Longrightarrow> grows Y b c \<Longrightarrow> grows (X \<union> Y) a c"
  unfolding grows_def by (auto intro: growing_trans list_all2_le_trans declares_trans)

lemma grows_mono: "grows X a b \<Longrightarrow> X \<subseteq> Y \<Longrightarrow> grows Y a b"
  unfolding grows_def by blast

text \<open>Changes beyond the code that was there are no changes of it.\<close>

lemma grows_beyond: "grows X a b \<Longrightarrow> X \<inter> {..<pos a} = {} \<Longrightarrow> grows {} a b"
  unfolding grows_def by blast

lemma steady_refl [simp]: "steady st st" and steady_trans: "steady a b \<Longrightarrow> steady b c \<Longrightarrow> steady a c"
  by (auto simp: steady_def)

section \<open>Where the code ends up\<close>

text \<open>A module that holds at least what has been built, with enough room for the locals.\<close>

definition limits :: "BytecodeModule \<Rightarrow> (modptr \<Rightarrow> nat) \<Rightarrow> 'w comp \<Rightarrow> bool" where
  "limits M caps st \<longleftrightarrow>
     length (pool (out st)) \<le> length (pool M) \<and> growing (blocks (out st)) (blocks M) \<and>
     growing (arityGroups (out st)) (arityGroups M) \<and> (hasHandlers (out st) \<longrightarrow> hasHandlers M) \<and>
     (\<forall>sc\<in>set (take 1 (scopes st)). nextSlot sc \<le> arity M + localCount M) \<and>
     (\<forall>p<length (made st). caps p = captureCount (made st ! p))"

lemma limits_mono:
  assumes "grows X st st'" "limits M caps st'"
  shows "limits M caps st"
proof -
  have "nextSlot sc \<le> arity M + localCount M" if "sc \<in> set (take 1 (scopes st))" for sc
  proof (cases "scopes st")
    case (Cons a scs)
    then obtain b scs' where "scopes st' = b # scs'" "nextSlot a \<le> nextSlot b"
      using assms(1) by (auto simp: grows_def list_all2_Cons1)
    with assms(2) that Cons show ?thesis by (auto simp: limits_def)
  qed (use that in simp)
  moreover have "caps p = captureCount (made st ! p)" if "p < length (made st)" for p
    using assms that growing_nth [of "made st" "made st'" p] growing_length [of "made st" "made st'"]
    by (auto simp: grows_def limits_def)
  ultimately show ?thesis
    using assms unfolding grows_def limits_def by (auto intro: growing_trans)
qed

definition fits :: "BytecodeModule \<Rightarrow> nat \<Rightarrow> 'w comp \<Rightarrow> bool" where
  "fits M a st \<longleftrightarrow> pos st \<le> length (code M) \<and> (\<forall>i. a \<le> i \<and> i < pos st \<longrightarrow> code M ! i = code (out st) ! i)"

lemma fits_before:
  assumes "grows X st st'" "fits M a st'" "a \<le> b" "X \<inter> {b..<pos st} = {}"
  shows "fits M b st"
  using assms unfolding grows_def fits_def by fastforce

definition base :: "nat \<Rightarrow> hstack \<Rightarrow> bool" where
  "base k hs \<longleftrightarrow> (hs \<noteq> [] \<longrightarrow> snd (hd hs) \<le> k)"

lemma base_mono: "base k hs \<Longrightarrow> base (k + r) hs" and base_Nil [simp]: "base k []"
  and base_Cons [simp]: "base k ((t, k) # hs)"
  by (auto simp: base_def)

text \<open>The targets of \<^verbatim>\<open>recur\<close> that may be used here are heads of loops around it, under the same handlers.\<close>

definition targets :: "'w comp \<Rightarrow> nat \<Rightarrow> hstack \<Rightarrow> heads \<Rightarrow> bool" where
  "targets st k hs ls \<longleftrightarrow>
     (\<forall>sc\<in>set (take 1 (scopes st)). \<forall>tgt\<in>set (recurStack sc).
        targetDepth tgt = tryDepth sc \<longrightarrow> (\<exists>k'\<le>k. (bodyStart tgt, k', hs) \<in> ls))"

lemma targets_mono: "targets st k hs ls \<Longrightarrow> k \<le> k2 \<Longrightarrow> ls \<subseteq> ls2 \<Longrightarrow> targets st k2 hs ls2"
  unfolding targets_def by (meson order_trans subsetD)

lemma targets_steady: "steady st st' \<Longrightarrow> targets st' = targets st"
  by (cases "scopes st"; cases "scopes st'") (auto simp: steady_def targets_def fun_eq_iff)

section \<open>What is emitted\<close>

definition emitted :: "nat \<Rightarrow> nat \<Rightarrow> 'w comp \<Rightarrow> 'w comp \<Rightarrow> bool" where
  "emitted p q st st' \<longleftrightarrow>
     good st' \<and> grows {} st st' \<and> steady st st' \<and>
     (\<forall>M caps k hs ls. limits M caps st' \<longrightarrow> fits M (pos st) st' \<longrightarrow> base k hs \<longrightarrow> targets st k hs ls \<longrightarrow>
        piece caps M (pos st) (k + p, hs, ls) (pos st') (k + q, hs, ls))"

lemma emitted_refl: "good st \<Longrightarrow> emitted p p st st"
  by (auto simp: emitted_def)

lemma emitted_piece:
  assumes "emitted p q s0 s1" "grows X s1 st'" "X \<inter> {pos s0..<pos s1} = {}" "a \<le> pos s0"
    "limits M caps st'" "fits M a st'" "base k hs" "targets s0 k hs ls"
  shows "piece caps M (pos s0) (k + p, hs, ls) (pos s1) (k + q, hs, ls)"
proof -
  have "limits M caps s1" by (rule limits_mono [OF assms(2,5)])
  moreover have "fits M (pos s0) s1" by (rule fits_before [OF assms(2,6,4,3)])
  ultimately show ?thesis using assms(1,7,8) unfolding emitted_def by blast
qed

lemma emitted_trans:
  assumes "emitted p q a b" "emitted q r b c"
  shows "emitted p r a c"
proof -
  have g: "grows {} a b" "grows {} b c" "steady a b" "steady b c" "good c" using assms by (auto simp: emitted_def)
  have "piece caps M (pos a) (k + p, hs, ls) (pos c) (k + r, hs, ls)"
    if "limits M caps c" "fits M (pos a) c" "base k hs" "targets a k hs ls" for M caps k hs ls
  proof (rule piece_append)
    show "piece caps M (pos a) (k + p, hs, ls) (pos b) (k + q, hs, ls)"
      by (rule emitted_piece [OF assms(1) g(2)]) (use that in auto)
    show "piece caps M (pos b) (k + q, hs, ls) (pos c) (k + r, hs, ls)"
      by (rule emitted_piece [OF assms(2) grows_refl [of "{}"]]) (use that g in \<open>auto simp: targets_steady grows_def\<close>)
  qed
  moreover have "grows {} a c" using grows_trans [OF g(1,2)] by simp
  ultimately show ?thesis using g steady_trans unfolding emitted_def by blast
qed

lemma emitted_shift:
  assumes "emitted p q a b"
  shows "emitted (p + r) (q + r) a b"
proof -
  have "piece caps M (pos a) (k + (p + r), hs, ls) (pos b) (k + (q + r), hs, ls)"
    if "limits M caps b" "fits M (pos a) b" "base k hs" "targets a k hs ls" for M caps k hs ls
  proof -
    have "base (k + r) hs" "targets a (k + r) hs ls" using that base_mono targets_mono [of a k] by auto
    with assms that have "piece caps M (pos a) (k + r + p, hs, ls) (pos b) (k + r + q, hs, ls)"
      unfolding emitted_def by blast
    then show ?thesis by (simp add: algebra_simps)
  qed
  with assms show ?thesis by (simp add: emitted_def)
qed

section \<open>Steps\<close>

text \<open>A step that emits a piece from the depth \<open>p\<close> to the depth \<open>q\<close>, above any others.\<close>

definition emits :: "('w comp \<Rightarrow> bool) \<Rightarrow> nat \<Rightarrow> nat \<Rightarrow> ('w, 'a) cm \<Rightarrow> ('a \<Rightarrow> 'w comp \<Rightarrow> bool) \<Rightarrow> bool" where
  "emits A p q m R \<longleftrightarrow>
     (\<forall>st x st'. good st \<longrightarrow> A st \<longrightarrow> m st = (Inr x, st') \<longrightarrow> emitted p q st st' \<and> R x st')"

abbreviation anyway :: "'a \<Rightarrow> 'b \<Rightarrow> bool" where
  "anyway \<equiv> \<lambda>_ _. True"

abbreviation always :: "'a \<Rightarrow> bool" where
  "always \<equiv> \<lambda>_. True"

lemma emitsD: "emits A p q m R \<Longrightarrow> good st \<Longrightarrow> A st \<Longrightarrow> m st = (Inr x, st') \<Longrightarrow> emitted p q st st' \<and> R x st'"
  unfolding emits_def by blast

lemma emitsI: "(\<And>st x st'. good st \<Longrightarrow> A st \<Longrightarrow> m st = (Inr x, st') \<Longrightarrow> emitted p q st st' \<and> R x st') \<Longrightarrow> emits A p q m R"
  unfolding emits_def by blast

lemma emitted_good: "emitted p q st st' \<Longrightarrow> good st'" and emitted_grows: "emitted p q st st' \<Longrightarrow> grows {} st st'"
  and emitted_steady: "emitted p q st st' \<Longrightarrow> steady st st'"
  by (simp_all add: emitted_def)

lemma bindC_Inr: "bindC m f st = (Inr b, st2) \<longleftrightarrow> (\<exists>a st1. m st = (Inr a, st1) \<and> f a st1 = (Inr b, st2))"
  by (auto simp: bindC_def split: prod.splits sum.splits)

lemma thenC_Inr: "thenC m n st = (Inr b, st2) \<longleftrightarrow> (\<exists>a st1. m st = (Inr a, st1) \<and> n st1 = (Inr b, st2))"
  by (simp add: thenC_def bindC_Inr)

lemmas basic_steps = retC_def throwC_def compileError_def getC_def modifyC_def

lemma emits_ret: "emits A p p (retC a) (\<lambda>x st. x = a \<and> A st)"
  by (rule emitsI) (auto simp: retC_def emitted_refl)

lemma emits_throw: "emits A p q (throwC e) R" "emits A p q (compileError msg) R"
  by (simp_all add: emits_def throwC_def compileError_def)

lemma emits_get: "emits A p p (getC f) (\<lambda>x st. x = f st \<and> A st)"
  by (rule emitsI) (auto simp: getC_def emitted_refl)

lemma emits_bind:
  assumes "emits A p q m R" "\<And>a. emits (R a) q r (f a) S"
  shows "emits A p r (bindC m f) S"
proof (rule emitsI)
  fix st x st' assume st: "good st" "A st" "bindC m f st = (Inr x, st')"
  then obtain a s1 where s1: "m st = (Inr a, s1)" "f a s1 = (Inr x, st')" by (auto simp: bindC_Inr)
  have 1: "emitted p q st s1" "R a s1" using emitsD [OF assms(1) st(1,2) s1(1)] by auto
  have 2: "emitted q r s1 st'" "S x st'" using emitsD [OF assms(2) emitted_good [OF 1(1)] 1(2) s1(2)] by auto
  show "emitted p r st st' \<and> S x st'" using emitted_trans [OF 1(1) 2(1)] 2(2) by blast
qed

lemma emits_then: "emits A p q m R \<Longrightarrow> (\<And>a. emits (R a) q r n S) \<Longrightarrow> emits A p r (thenC m n) S"
  unfolding thenC_def by (rule emits_bind)

lemma emits_weaken: "emits A p q m R \<Longrightarrow> (\<And>st. B st \<Longrightarrow> A st) \<Longrightarrow> (\<And>x st. R x st \<Longrightarrow> S x st) \<Longrightarrow> emits B p q m S"
  unfolding emits_def by blast

lemma emits_any: "emits always p q m R \<Longrightarrow> emits A p q m anyway"
  by (erule emits_weaken) simp_all

lemma emits_shift: "emits A p q m R \<Longrightarrow> emits A (p + r) (q + r) m R"
  unfolding emits_def using emitted_shift by blast

text \<open>What holds and goes on holding as the state grows.\<close>

definition stable :: "('w comp \<Rightarrow> bool) \<Rightarrow> bool" where
  "stable P \<longleftrightarrow> (\<forall>X st st'. grows X st st' \<longrightarrow> P st \<longrightarrow> P st')"

lemma emits_frame: "emits A p q m R \<Longrightarrow> stable P \<Longrightarrow> emits (\<lambda>st. A st \<and> P st) p q m (\<lambda>x st. R x st \<and> P st)"
  unfolding emits_def stable_def using emitted_grows by blast

lemma stable_slotIn [intro]: "stable (slotIn s)"
proof -
  have "slotIn s st'" if "grows X st st'" "slotIn s st" for X and st st' :: "'w comp"
    using that by (cases "scopes st") (fastforce simp: slotIn_def grows_def list_all2_Cons1)+
  then show ?thesis unfolding stable_def by blast
qed

lemma stable_all: "(\<And>x. stable (P x)) \<Longrightarrow> stable (\<lambda>st. \<forall>x\<in>A. P x st)"
  unfolding stable_def by blast

definition inPool :: "nat \<Rightarrow> 'w comp \<Rightarrow> bool" where
  "inPool i st \<longleftrightarrow> i < length (pool (out st))"

section \<open>Single instructions\<close>

lemma emitAt_eq:
  assumes "emitAt op n st = (Inr i, st')"
  shows "i = pos st" "n \<le> kMaxOperand"
    "st' = st\<lparr>out := (out st)\<lparr>code := code (out st) @ [encodeInstr op (word_of_nat n)],
                             hasHandlers := hasHandlers (out st) \<or> op = TRY_BEGIN\<rparr>\<rparr>"
  using assms by (auto simp: emitAt_def emit_eq pos_def split: if_splits)

lemma emitAt_frame:
  assumes "good st" "emitAt op n st = (Inr i, st')"
  shows "good st'" "grows {} st st'" "steady st st'" "pos st' = pos st + 1" "i = pos st" "scopes st' = scopes st"
  using emitAt_eq [OF assms(2)] assms(1)
  by (auto simp: good_def symbolsIn_def grows_def steady_def pos_def nth_append list_all2_refl intro: le_SucI)

lemma emitAt_code:
  assumes "emitAt op n st = (Inr i, st')" "fits M (pos st) st'"
  shows "instrOp (code M ! pos st) = Some op" "instrOperand (code M ! pos st) = n" "pos st < length (code M)"
proof -
  note e = emitAt_eq [OF assms(1)]
  have "pos st' = pos st + 1" by (simp add: e(3) pos_def)
  with assms(2) have "code M ! pos st = code (out st') ! pos st" "pos st < length (code M)" by (auto simp: fits_def)
  with e(2,3) show "instrOp (code M ! pos st) = Some op" "instrOperand (code M ! pos st) = n" "pos st < length (code M)"
    by (auto simp: pos_def instr_decode)
qed

definition pushOps :: "Op set" where
  "pushOps = {PUSH_CONST, PUSH_VAR, PUSH_NIL, PUSH_TRUE, PUSH_FALSE, PUSH_LOCAL, DUP, RESOLVE_CLASS}"

definition popOps :: "Op set" where
  "popOps = {POP, STORE_LOCAL, STORE_CAUGHT}"

definition binaryOps :: "Op set" where
  "binaryOps = {ADD, SUB, MUL, LT, LE, GT, GE, EQ, CALL_APPLY}"

definition keepOps :: "Op set" where
  "keepOps = {NOP, STORE_GLOBAL}"

definition unaryOps :: "Op set" where
  "unaryOps = {EXC_MATCH, GET_MEMBER}"

definition callOps :: "Op set" where
  "callOps = {CALL, CALL_KW}"

lemmas opSets = pushOps_def popOps_def binaryOps_def keepOps_def unaryOps_def callOps_def

text \<open>What an instruction takes from the stack and what it leaves there, for those that only fall through.\<close>

definition netOf :: "Op \<Rightarrow> nat \<Rightarrow> (nat \<times> nat) option" where
  "netOf op n =
     (if op \<in> pushOps then Some (0, 1)
      else if op \<in> popOps then Some (1, 0)
      else if op \<in> binaryOps then Some (2, 1)
      else if op = EXC_MATCH_TYPE then Some (2, 1)
      else if op \<in> keepOps then Some (0, 0)
      else if op \<in> unaryOps then Some (1, 1)
      else if op \<in> callOps then Some (n + 1, 1)
      else None)"

lemma netOf_table:
  "netOf op n = Some (i, j) \<Longrightarrow>
     op \<in> pushOps \<and> i = 0 \<and> j = 1 \<or> op \<in> popOps \<and> i = 1 \<and> j = 0 \<or> op \<in> binaryOps \<and> i = 2 \<and> j = 1 \<or>
     op = EXC_MATCH_TYPE \<and> i = 2 \<and> j = 1 \<or> op \<in> keepOps \<and> i = 0 \<and> j = 0 \<or> op \<in> unaryOps \<and> i = 1 \<and> j = 1 \<or>
     op \<in> callOps \<and> i = n + 1 \<and> j = 1"
  unfolding netOf_def by (simp split: if_split_asm)

lemma netOf_cases:
  assumes "netOf op n = Some (i, j)"
  obtains "op \<in> pushOps" "i = 0" "j = 1" | "op \<in> popOps" "i = 1" "j = 0"
    | "op \<in> binaryOps" "i = 2" "j = 1" | "op = EXC_MATCH_TYPE" "i = 2" "j = 1" | "op \<in> keepOps" "i = 0" "j = 0"
    | "op \<in> unaryOps" "i = 1" "j = 1" | "op \<in> callOps" "i = n + 1" "j = 1"
  using netOf_table [OF assms] by (elim disjE conjE) (rule that; assumption)+

lemma netOf_plain:
  assumes "netOf op n = Some (i, j)"
  shows "op \<notin> {PUSH_LOCAL_CLEAR, RETHROW, CALL_MEMBER, JUMP, JUMP_BACK, TRY_BEGIN, TRY_END, MAKE_FN, MAKE_FN_MULTI}"
  using assms by (cases rule: netOf_cases) (auto simp: opSets)

lemma popsOf_net:
  assumes "netOf op n = Some (i, j)"
  shows "popsOf caps M op n \<le> i"
  using assms by (cases rule: netOf_cases) (auto simp: popsOf_def opSets)

definition operandIn :: "Op \<Rightarrow> nat \<Rightarrow> 'w comp \<Rightarrow> bool" where
  "operandIn op n st \<longleftrightarrow>
     (op \<in> {PUSH_LOCAL, STORE_LOCAL, STORE_CAUGHT, RETHROW} \<longrightarrow> slotIn n st) \<and>
     (op \<in> {EXC_MATCH_TYPE, RESOLVE_CLASS, GET_MEMBER} \<longrightarrow> inPool n st)"

lemma slot_limit: "slotIn s st \<Longrightarrow> limits M caps st \<Longrightarrow> s < arity M + localCount M"
  by (fastforce simp: slotIn_def limits_def)

lemma netOf_flow:
  assumes "netOf op n = Some (i, j)" "instrOp (code M ! a) = Some op" "instrOperand (code M ! a) = n" "i \<le> d"
  shows "succs caps M a (int d) = [(a + 1, int (d - i + j))]"
proof -
  have "flowOf caps M a (int d) = FlowFalls [] (int (d - i + j))"
    using assms(1)
  proof (cases rule: netOf_cases)
    case 1
    have "op \<in> {PUSH_CONST, PUSH_VAR, PUSH_NIL, PUSH_TRUE, PUSH_FALSE, PUSH_LOCAL, PUSH_LOCAL_CLEAR, DUP, RESOLVE_CLASS}"
      using 1(1) unfolding opSets by blast
    from flow_push [OF assms(2) this] 1(2,3) show ?thesis by simp
  next
    case 2
    have "op \<in> {POP, STORE_LOCAL, STORE_CAUGHT, EXC_MATCH_TYPE}" using 2(1) unfolding opSets by blast
    from flow_pop [OF assms(2) this] 2(2,3) assms(4) show ?thesis by simp
  next
    case 3
    have "op \<in> {CALL_APPLY, ADD, SUB, MUL, LT, LE, GT, GE, EQ}" using 3(1) unfolding opSets by blast
    from flow_binary [OF assms(2) this, of d caps] 3(2,3) assms(4) show ?thesis by (simp add: Suc_diff_Suc numeral_2_eq_2)
  next
    case 4
    then have "op \<in> {POP, STORE_LOCAL, STORE_CAUGHT, EXC_MATCH_TYPE}" by blast
    from flow_pop [OF assms(2) this, of d caps] 4(2,3) assms(4) show ?thesis by (simp add: Suc_diff_Suc numeral_2_eq_2)
  next
    case 5
    have "op \<in> {NOP, STORE_GLOBAL, EXC_MATCH, GET_MEMBER, LINE, TRY_END}" using 5(1) unfolding opSets by blast
    from flow_keep [OF assms(2) this] 5(2,3) show ?thesis by simp
  next
    case 6
    have "op \<in> {NOP, STORE_GLOBAL, EXC_MATCH, GET_MEMBER, LINE, TRY_END}" using 6(1) unfolding opSets by blast
    from flow_keep [OF assms(2) this] 6(2,3) assms(4) show ?thesis by simp
  next
    case 7
    have "op \<in> {CALL, CALL_KW, CALL_MEMBER}" using 7(1) unfolding opSets by blast
    from flow_calls [OF assms(2) this, of d caps] 7(2,3) assms(3,4) show ?thesis by (simp add: Suc_diff_Suc)
  qed
  then show ?thesis by (simp add: succs_def)
qed

lemma netOf_instr:
  assumes "netOf op n = Some (i, j)" "instrOp (code M ! a) = Some op" "instrOperand (code M ! a) = n" "base k hs"
    "op \<in> {PUSH_LOCAL, STORE_LOCAL, STORE_CAUGHT} \<longrightarrow> n < arity M + localCount M"
    "op \<in> {EXC_MATCH_TYPE, RESOLVE_CLASS, GET_MEMBER} \<longrightarrow> n < length (pool M)" "i \<le> d"
  shows "instr_ok caps M a (k + d) hs" "handlersAfter M a (k + d) hs = hs"
proof -
  note plain = netOf_plain [OF assms(1)]
  have 1: "popsOf caps M op n \<le> d" using popsOf_net [OF assms(1), of caps M] assms(7) by simp
  have "hs \<noteq> [] \<longrightarrow> snd (hd hs) \<le> k + d - popsOf caps M op n"
    using assms(4) 1 by (auto simp: base_def)
  moreover have "popsOf caps M op n \<le> k + d" using 1 by simp
  moreover have "op \<in> {PUSH_LOCAL, PUSH_LOCAL_CLEAR, STORE_LOCAL, STORE_CAUGHT, RETHROW} \<longrightarrow> n < arity M + localCount M"
    using plain assms(5) by fast
  moreover have "op \<noteq> CALL_MEMBER" "op \<noteq> JUMP_BACK" "op \<noteq> TRY_BEGIN" "op \<noteq> TRY_END" "op \<noteq> MAKE_FN" "op \<noteq> MAKE_FN_MULTI"
    using plain by fast+
  ultimately show "instr_ok caps M a (k + d) hs"
    unfolding instr_ok_def Let_def assms(2,3) option.case using assms(6) by (intro conjI) (simp_all only: simp_thms)
  have "Some op \<noteq> Some TRY_BEGIN" "Some op \<noteq> Some TRY_END" using plain by auto
  then show "handlersAfter M a (k + d) hs = hs"
    unfolding handlersAfter_def assms(2) by (simp only: if_False)
qed

lemma emits_emitAt:
  assumes "netOf op n = Some (i, j)" "i \<le> p" "\<And>st. A st \<Longrightarrow> operandIn op n st" "stable A"
  shows "emits A p (p - i + j) (emitAt op n) (\<lambda>_. A)"
proof (rule emitsI)
  fix st x st' assume st: "good st" "A st" "emitAt op n st = (Inr x, st')"
  note f = emitAt_frame [OF st(1,3)]
  have "piece caps M (pos st) (k + p, hs, ls) (pos st') (k + (p - i + j), hs, ls)"
    if M: "limits M caps st'" "fits M (pos st) st'" "base k hs" for M caps k hs ls
  proof -
    note c = emitAt_code [OF st(3) M(2)]
    have "limits M caps st" by (rule limits_mono [OF f(2) M(1)])
    then have "op \<in> {PUSH_LOCAL, STORE_LOCAL, STORE_CAUGHT} \<longrightarrow> n < arity M + localCount M"
      "op \<in> {EXC_MATCH_TYPE, RESOLVE_CLASS, GET_MEMBER} \<longrightarrow> n < length (pool M)"
      using assms(3) [OF st(2)] slot_limit [of n st M caps] by (auto simp: operandIn_def inPool_def limits_def)
    from netOf_instr [OF assms(1) c(1,2) M(3) this assms(2)] netOf_flow [OF assms(1) c(1,2), of "k + p"] assms(2)
    show ?thesis unfolding f(4)
      by (intro piece_instr) (use netOf_plain [OF assms(1)] c(1) in auto)
  qed
  moreover have "A st'" using assms(4) f(2) st(2) unfolding stable_def by blast
  ultimately show "emitted p (p - i + j) st st' \<and> A st'" using f by (auto simp: emitted_def)
qed

end
