(* ===== verification/Steps.thy ===== *)
theory Steps
  imports Emission
begin

text \<open>
  The primitive steps of the compiler: constants and blocks, slots and scopes, and the parts that touch
  nothing but the generated names.
\<close>

section \<open>Silent steps\<close>

definition silent :: "('w, 'a) cm \<Rightarrow> bool" where
  "silent m \<longleftrightarrow> (\<forall>st r st'. m st = (r, st') \<longrightarrow> (\<exists>n w. st' = st\<lparr>freshId := n, compWorld := w\<rparr>))"

lemma silentI: "(\<And>st r st'. m st = (r, st') \<Longrightarrow> \<exists>n w. st' = st\<lparr>freshId := n, compWorld := w\<rparr>) \<Longrightarrow> silent m"
  unfolding silent_def by blast

lemma silentD: "silent m \<Longrightarrow> m st = (r, st') \<Longrightarrow> \<exists>n w. st' = st\<lparr>freshId := n, compWorld := w\<rparr>"
  unfolding silent_def by blast

lemma same_again: "\<exists>n w. st = st\<lparr>freshId := n, compWorld := w\<rparr>"
  by (rule exI [of _ "freshId st"], rule exI [of _ "compWorld st"]) simp

named_theorems silent_intros

lemma silent_basic [silent_intros]: "silent (retC a)" "silent (throwC e)" "silent (compileError msg)" "silent (getC f)"
  using same_again by (auto simp: silent_def basic_steps)

lemma silent_bind [silent_intros]:
  assumes "silent m" "\<And>a. silent (f a)"
  shows "silent (bindC m f)"
proof (rule silentI)
  fix st r st' assume b: "bindC m f st = (r, st')"
  obtain r1 s1 where m: "m st = (r1, s1)" by (cases "m st")
  then obtain n w where s1: "s1 = st\<lparr>freshId := n, compWorld := w\<rparr>" using silentD [OF assms(1)] by blast
  show "\<exists>n w. st' = st\<lparr>freshId := n, compWorld := w\<rparr>"
  proof (cases r1)
    case (Inl e)
    with b m s1 show ?thesis by (auto simp: bindC_def)
  next
    case (Inr a)
    with b m have "f a s1 = (r, st')" by (simp add: bindC_def)
    from silentD [OF assms(2) this] s1 show ?thesis by auto
  qed
qed

lemma silent_then [silent_intros]: "silent m \<Longrightarrow> silent n \<Longrightarrow> silent (thenC m n)"
  unfolding thenC_def by (rule silent_bind)

lemma silent_message [silent_intros]: "silent (messageOr r)"
  by (cases r) (auto simp: messageOr_def intro: silent_intros)

lemma silent_updates:
  "\<exists>n' w. st\<lparr>freshId := n\<rparr> = st\<lparr>freshId := n', compWorld := w\<rparr>" "\<exists>n w. st\<lparr>compWorld := w'\<rparr> = st\<lparr>freshId := n, compWorld := w\<rparr>"
  by (rule exI [of _ n], rule exI [of _ "compWorld st"], simp) (rule exI [of _ "freshId st"], rule exI [of _ w'], simp)

lemma silent_fresh [silent_intros]: "silent (freshSymbol p)"
  unfolding freshSymbol_def
proof (intro silent_intros)
  fix n
  show "silent (modifyC (\<lambda>st. st\<lparr>freshId := n + 1\<rparr>))"
    using silent_updates(1) by (auto simp: silent_def modifyC_def simp del: comp.update_convs)
qed

lemma silent_mapC [silent_intros]: "(\<And>x. silent (f x)) \<Longrightarrow> silent (mapC f xs)"
  by (induction xs) (auto intro: silent_intros)

lemma silent_expand [silent_intros]: "silent (expandC E macro name f env)"
  using silent_updates(2) by (auto simp: silent_def expandC_def simp del: comp.update_convs split: prod.splits)

lemma silent_frame:
  assumes "silent m" "m st = (r, st')"
  shows "good st' = good st" "grows {} st st'" "steady st st'" "pos st' = pos st" "scopes st' = scopes st"
    "out st' = out st" "made st' = made st"
  using silentD [OF assms] by (auto simp: good_def grows_def steady_def pos_def list_all2_refl declares_def)

lemma emits_quiet: "silent m \<Longrightarrow> emits A p p m anyway"
proof (rule emitsI)
  fix st x st' assume q: "silent m" "good st" "m st = (Inr x, st')"
  note f = silent_frame [OF q(1,3)]
  have "piece caps M (pos st) (k + p, hs, ls) (pos st') (k + p, hs, ls)" for caps M k hs ls
    unfolding f(4) by (rule piece_empty)
  with f q(2) show "emitted p p st st' \<and> True" by (simp add: emitted_def)
qed

section \<open>Constants\<close>

definition extends :: "BytecodeModule \<Rightarrow> BytecodeModule \<Rightarrow> bool" where
  "extends m m' \<longleftrightarrow>
     code m' = code m \<and> arity m' = arity m \<and> hasHandlers m' = hasHandlers m \<and> captureSpecs m' = captureSpecs m \<and>
     length (pool m) \<le> length (pool m') \<and> growing (blocks m) (blocks m') \<and>
     growing (arityGroups m) (arityGroups m') \<and> (symbolsIn m \<longrightarrow> symbolsIn m') \<and>
     isVariadic m' = isVariadic m \<and> kwKeys m' = kwKeys m \<and> asSlot m' = asSlot m"

lemma extends_frame:
  assumes "good st" "extends (out st) m"
  shows "good (st\<lparr>out := m\<rparr>)" "grows {} st (st\<lparr>out := m\<rparr>)" "steady st (st\<lparr>out := m\<rparr>)" "pos (st\<lparr>out := m\<rparr>) = pos st"
  using assms by (auto simp: extends_def good_def grows_def steady_def pos_def list_all2_refl declares_def declared_def)

lemma emitted_same:
  assumes "good st'" "grows {} st st'" "steady st st'" "pos st' = pos st"
  shows "emitted p p st st'"
proof -
  have "piece caps M (pos st) (k + p, hs, ls) (pos st') (k + p, hs, ls)" for caps M k hs ls
    unfolding assms(4) by (rule piece_empty)
  with assms show ?thesis by (simp add: emitted_def)
qed

lemma findOrAdd_cases:
  assumes "findOrAdd ix k cs c = (i, ix', cs')"
  shows "length cs \<le> length cs'" "\<And>x j. ix' x = Some j \<Longrightarrow> ix x = Some j \<or> j < length cs'"
    "ix k = Some i \<or> i < length cs'"
  using assms by (auto simp: findOrAdd_def split: option.splits if_splits)

definition adder :: "(BytecodeModule \<Rightarrow> nat \<times> BytecodeModule) \<Rightarrow> bool" where
  "adder add \<longleftrightarrow> (\<forall>m. extends m (snd (add m)))"

lemma adder_consts [intro]: "adder (addLong v)" "adder (addDouble b)" "adder (addBigInteger s)" "adder (addString s)"
  "adder (addNamed s v')" "adder (addDatum v')" "adder (addArityGroup g)" "adder (addBlock p)"
  by (force simp: adder_def extends_def symbolsIn_def addLong_def addDouble_def addBigInteger_def addString_def addNamed_def
      addDatum_def addArityGroup_def addBlock_def Let_def intro: less_SucI dest: findOrAdd_cases(1) less_le_trans
      split: prod.splits option.splits)+

lemma adder_symbol [intro]: "adder (symC E s)"
proof -
  have "extends m (snd (addSymbol f s m))" for f and m
  proof (cases "symbolIndex m s")
    case None
    obtain i ix cs where r: "findOrAdd (symbolIndex m) s (pool m) (constOf CkSymbol 0 0 s (Some (f s))) = (i, ix, cs)"
      by (cases "findOrAdd (symbolIndex m) s (pool m) (constOf CkSymbol 0 0 s (Some (f s)))")
    have "j < length cs" if "symbolsIn m" "ix x = Some j" for x j
      using that findOrAdd_cases(1) [OF r] findOrAdd_cases(2) [OF r that(2)] unfolding symbolsIn_def by (meson less_le_trans)
    with None r show ?thesis using findOrAdd_cases(1) [OF r]
      by (auto simp: addSymbol_def extends_def symbolsIn_def)
  qed (simp add: addSymbol_def extends_def)
  then show ?thesis by (simp add: adder_def symC_def)
qed

lemma adder_integer [intro]: "adder (addIntegerConst v)"
  by (auto simp: addIntegerConst_def)

lemma symC_in: "symbolsIn m \<Longrightarrow> symC E s m = (i, m') \<Longrightarrow> i < length (pool m')"
  by (auto simp: symC_def addSymbol_def symbolsIn_def Let_def dest: findOrAdd_cases(3) split: option.splits prod.splits)

lemma emits_addC:
  assumes "adder add"
  shows "emits A p p (addC add) anyway"
proof (rule emitsI)
  fix st x st' assume st: "good st" "addC add st = (Inr x, st')"
  obtain i m where a: "add (out st) = (i, m)" by (cases "add (out st)")
  with assms have "extends (out st) m" by (auto simp: adder_def dest: spec [of _ "out st"])
  moreover have "st' = st\<lparr>out := m\<rparr>" using st(2) a by (simp add: addC_def)
  ultimately show "emitted p p st st' \<and> True"
    using extends_frame [OF st(1)] by (auto intro: emitted_same)
qed

lemma emits_symC: "emits A p p (addC (symC E s)) inPool"
proof (rule emitsI)
  fix st x st' assume st: "good st" "A st" "addC (symC E s) st = (Inr x, st')"
  have "emitted p p st st'" using emitsD [OF emits_addC [where A = A, OF adder_symbol] st] by blast
  moreover have "inPool x st'"
    using symC_in [of "out st" E s] st(1,3) by (auto simp: addC_def inPool_def good_def split: prod.splits)
  ultimately show "emitted p p st st' \<and> inPool x st'" by blast
qed

section \<open>Instructions with their constants\<close>

lemma stableI: "(\<And>X st st'. grows X st st' \<Longrightarrow> P st \<Longrightarrow> P st') \<Longrightarrow> stable P"
  unfolding stable_def by blast

lemma growsD:
  assumes "grows X st st'"
  shows "pos st \<le> pos st'" "length (pool (out st)) \<le> length (pool (out st'))" "growing (blocks (out st)) (blocks (out st'))"
    "growing (arityGroups (out st)) (arityGroups (out st'))" "growing (made st) (made st')" "arity (out st') = arity (out st)"
    "list_all2 (\<lambda>sc sc'. nextSlot sc \<le> nextSlot sc') (scopes st) (scopes st')"
    "i < pos st \<Longrightarrow> i \<notin> X \<Longrightarrow> code (out st') ! i = code (out st) ! i"
  using assms by (simp_all add: grows_def)

lemma stable_inPool [intro]: "stable (inPool i)"
  by (rule stableI) (auto simp: inPool_def dest: growsD(2))

lemma stable_always [intro]: "stable always" and stable_conj [intro]: "stable P \<Longrightarrow> stable Q \<Longrightarrow> stable (\<lambda>st. P st \<and> Q st)"
  unfolding stable_def by blast+

lemma emits_emitC:
  assumes "netOf op n = Some (i, j)" "i \<le> p" "\<And>st. A st \<Longrightarrow> operandIn op n st" "stable A" "q = p - i + j"
  shows "emits A p q (emitC op n) (\<lambda>_. A)"
  unfolding emitC_def assms(5)
  by (rule emits_then [OF emits_emitAt [OF assms(1-4)]]) (auto intro: emits_weaken [OF emits_ret])

lemma emits_const:
  assumes "adder add" "\<And>n. netOf op n = Some (i, j)" "i \<le> p" "op \<notin> {PUSH_LOCAL, STORE_LOCAL, STORE_CAUGHT, RETHROW}"
    "op \<in> {EXC_MATCH_TYPE, RESOLVE_CLASS, GET_MEMBER} \<Longrightarrow> \<exists>(E :: 'e compEnv) s. add = symC E s" "q = p - i + j"
  shows "emits A p q (emitConst op add) anyway"
proof (cases "op \<in> {EXC_MATCH_TYPE, RESOLVE_CLASS, GET_MEMBER}")
  case True
  from assms(5) [OF True] obtain E :: "'e compEnv" and s where E: "add = symC E s" by blast
  show ?thesis unfolding emitConst_def E
    by (intro emits_bind [OF emits_symC [of A p]] emits_weaken [OF emits_emitC [OF assms(2,3) _ stable_inPool assms(6)]])
      (use assms(4) in \<open>auto simp: operandIn_def\<close>)
next
  case False
  then show ?thesis unfolding emitConst_def
    by (intro emits_bind [OF emits_addC [OF assms(1), of A p]] emits_weaken [OF emits_emitC [OF assms(2,3) _ stable_always assms(6)]])
      (use assms(4) in \<open>auto simp: operandIn_def\<close>)
qed

section \<open>Slots and scopes\<close>

abbreviation sameShape :: "scope list \<Rightarrow> scope list \<Rightarrow> bool" where
  "sameShape scs scs' \<equiv>
     map (\<lambda>sc. (recurStack sc, tryDepth sc, scopeArity sc)) scs' = map (\<lambda>sc. (recurStack sc, tryDepth sc, scopeArity sc)) scs"

lemma slotOf_setSlot: "slotOf n (setSlot name s sc) = (if n = name then Some s else slotOf n sc)"
  by (simp add: slotOf_def setSlot_def update_conv')

lemma setSlot_fields [simp]:
  "nextSlot (setSlot name s sc) = nextSlot sc" "scopeArity (setSlot name s sc) = scopeArity sc"
  "scopeCaptures (setSlot name s sc) = scopeCaptures sc" "recurStack (setSlot name s sc) = recurStack sc"
  "tryDepth (setSlot name s sc) = tryDepth sc"
  by (simp_all add: setSlot_def)

lemma scopeOk_setSlot: "scopeOk sc \<Longrightarrow> s < nextSlot sc \<Longrightarrow> scopeOk (setSlot name s sc)"
  by (simp add: scopeOk_def slotOf_setSlot)

lemma scopeOk_wider:
  assumes "scopeOk sc" "nextSlot sc \<le> n"
  shows "\<forall>(p, l)\<in>set cs. l < n \<Longrightarrow> scopeOk (sc\<lparr>nextSlot := n, scopeCaptures := cs\<rparr>)" "scopeOk (sc\<lparr>nextSlot := n\<rparr>)"
    "\<forall>(p, l)\<in>set (scopeCaptures sc). l < n"
proof -
  show c: "\<forall>(p, l)\<in>set (scopeCaptures sc). l < n" using assms less_le_trans by (fastforce simp: scopeOk_def)
  have rest: "\<forall>name s. slotOf name sc = Some s \<longrightarrow> s < n"
    "\<forall>tgt\<in>set (recurStack sc). targetDepth tgt \<le> tryDepth sc \<and> (\<forall>s\<in>set (recurSlots tgt). s < n)"
    using assms less_le_trans by (fastforce simp: scopeOk_def)+
  with c show "scopeOk (sc\<lparr>nextSlot := n\<rparr>)" by (simp add: scopeOk_def slotOf_def)
  assume "\<forall>(p, l)\<in>set cs. l < n"
  with rest show "scopeOk (sc\<lparr>nextSlot := n, scopeCaptures := cs\<rparr>)" by (simp add: scopeOk_def slotOf_def)
qed

lemma capsOk_Cons:
  "capsOk (sc # scs) \<longleftrightarrow>
     (case scs of [] \<Rightarrow> scopeCaptures sc = [] | sc' # _ \<Rightarrow> \<forall>(p, l)\<in>set (scopeCaptures sc). p < nextSlot sc') \<and> capsOk scs"
  by (cases scs) auto

declare capsOk.simps(2,3) [simp del]

lemma resolveIn_keeps:
  assumes "resolveIn name scs = Some (slot, scs')" "\<forall>sc\<in>set scs. scopeOk sc" "capsOk scs"
  shows "(\<forall>sc\<in>set scs'. scopeOk sc) \<and> capsOk scs' \<and> (\<exists>sc r. scs' = sc # r \<and> slot < nextSlot sc) \<and>
    list_all2 (\<lambda>sc sc'. nextSlot sc \<le> nextSlot sc') scs scs' \<and> sameShape scs scs'"
  using assms
proof (induction scs arbitrary: slot scs')
  case (Cons sc scs)
  show ?case
  proof (cases "slotOf name sc")
    case (Some s)
    with Cons.prems show ?thesis by (auto simp: scopeOk_def list_all2_refl)
  next
    case None
    with Cons.prems(1) obtain source outer where o: "resolveIn name scs = Some (source, outer)"
      and eq: "slot = nextSlot sc" "scs' = setSlot name (nextSlot sc) (sc\<lparr>nextSlot := nextSlot sc + 1,
        scopeCaptures := scopeCaptures sc @ [(source, nextSlot sc)]\<rparr>) # outer"
      by (auto simp: Let_def split: option.splits)
    have IH: "\<forall>sc\<in>set outer. scopeOk sc" "capsOk outer" "list_all2 (\<lambda>sc sc'. nextSlot sc \<le> nextSlot sc') scs outer"
      "sameShape scs outer"
      using Cons.IH [OF o] Cons.prems(2,3) by (auto simp: capsOk_Cons)
    obtain sc2 r where sc2: "outer = sc2 # r" "source < nextSlot sc2"
      using Cons.IH [OF o] Cons.prems(2,3) by (auto simp: capsOk_Cons)
    then obtain sc1 r1 where sc1: "scs = sc1 # r1" "nextSlot sc1 \<le> nextSlot sc2"
      using IH(3) by (auto simp: list_all2_Cons2)
    have "scopeOk (setSlot name (nextSlot sc) (sc\<lparr>nextSlot := nextSlot sc + 1, scopeCaptures := scopeCaptures sc @ [(source, nextSlot sc)]\<rparr>))"
      using Cons.prems(2) scopeOk_wider(3) [of sc "nextSlot sc + 1"] by (intro scopeOk_setSlot scopeOk_wider) auto
    moreover have "\<forall>(p, l)\<in>set (scopeCaptures sc @ [(source, nextSlot sc)]). p < nextSlot sc2"
      using Cons.prems(3) sc1 sc2 by (auto simp: capsOk_Cons)
    ultimately show ?thesis using IH sc2 unfolding eq by (simp add: capsOk_Cons)
  qed
qed simp

lemma shape_hd:
  assumes "sameShape scs scs'"
  shows "(\<exists>sc\<in>set (take 1 scs'). tgt \<in> set (recurStack sc)) \<longleftrightarrow> (\<exists>sc\<in>set (take 1 scs). tgt \<in> set (recurStack sc))"
  using assms by (cases scs; cases scs') auto

lemma good_scopes:
  assumes "good st" "\<forall>sc\<in>set scs. scopeOk sc" "capsOk scs" "sameShape (scopes st) scs"
  shows "good (st\<lparr>scopes := scs\<rparr>)"
proof -
  have "bodyStart tgt \<le> pos st" if "sc \<in> set (take 1 scs)" "tgt \<in> set (recurStack sc)" for sc tgt
    using shape_hd [OF assms(4), of tgt] that assms(1) by (auto simp: good_def)
  with assms show ?thesis by (simp add: good_def pos_def)
qed

lemma scopes_emitted:
  assumes "good st" "\<forall>sc\<in>set scs. scopeOk sc" "capsOk scs" "sameShape (scopes st) scs"
    "list_all2 (\<lambda>sc sc'. nextSlot sc \<le> nextSlot sc') (scopes st) scs"
  shows "emitted p p st (st\<lparr>scopes := scs\<rparr>)"
proof (rule emitted_same)
  show "good (st\<lparr>scopes := scs\<rparr>)" by (rule good_scopes [OF assms(1-4)])
qed (use assms(4,5) in \<open>simp_all add: grows_def steady_def pos_def\<close>)

lemma emits_resolve: "emits A p p (resolveLocal name) (\<lambda>r st. \<forall>s. r = Some s \<longrightarrow> slotIn s st)"
proof (rule emitsI)
  fix st r st' assume st: "good st" "resolveLocal name st = (Inr r, st')"
  show "emitted p p st st' \<and> (\<forall>s. r = Some s \<longrightarrow> slotIn s st')"
  proof (cases "resolveIn name (scopes st)")
    case None
    with st show ?thesis by (simp add: resolveLocal_def emitted_refl)
  next
    case (Some x)
    then obtain slot scs where r: "resolveIn name (scopes st) = Some (slot, scs)" by (cases x) auto
    have eq: "st' = st\<lparr>scopes := scs\<rparr>" "r = Some slot" using st(2) r by (auto simp: resolveLocal_def)
    note k = resolveIn_keeps [OF r]
    have g: "\<forall>sc\<in>set (scopes st). scopeOk sc" "capsOk (scopes st)" using st(1) by (auto simp: good_def)
    with k have "emitted p p st st'" unfolding eq by (intro scopes_emitted [OF st(1)]) auto
    moreover have "slotIn slot st'" using k g unfolding eq by (auto simp: slotIn_def)
    ultimately show ?thesis by (simp add: eq)
  qed
qed

definition inside :: "'w comp \<Rightarrow> bool" where
  "inside st \<longleftrightarrow> scopes st \<noteq> []"

lemma stable_inside [intro]: "stable inside"
  by (rule stableI) (auto simp: inside_def dest: growsD(7))

lemma slotIn_inside: "slotIn s st \<Longrightarrow> inside st"
  by (auto simp: slotIn_def inside_def)

lemma slotIn_hd: "slotIn s st \<Longrightarrow> s < nextSlot (hd (scopes st))"
  by (cases "scopes st") (auto simp: slotIn_def)

lemma hd_emitted:
  assumes "good st" "scopes st = sc # scs" "scopeOk sc'" "scopeCaptures sc' = scopeCaptures sc"
    "(recurStack sc', tryDepth sc', scopeArity sc') = (recurStack sc, tryDepth sc, scopeArity sc)" "nextSlot sc \<le> nextSlot sc'"
  shows "emitted p p st (st\<lparr>scopes := sc' # scs\<rparr>)"
proof (rule scopes_emitted [OF assms(1)])
  have "capsOk (sc # scs)" using assms(1,2) by (simp add: good_def)
  then show "capsOk (sc' # scs)" unfolding capsOk_Cons assms(4) .
qed (use assms in \<open>auto simp: good_def list_all2_refl\<close>)

lemma inScope_emitted:
  assumes "good st" "inside st" "inScope f st = (Inr u, st')" "\<And>sc. scopeOk sc \<Longrightarrow> hd (scopes st) = sc \<Longrightarrow> scopeOk (f sc)"
    "\<And>sc. scopeCaptures (f sc) = scopeCaptures sc"
    "\<And>sc. (recurStack (f sc), tryDepth (f sc), scopeArity (f sc)) = (recurStack sc, tryDepth sc, scopeArity sc)"
    "\<And>sc. nextSlot sc \<le> nextSlot (f sc)"
  shows "emitted p p st st'"
proof -
  obtain sc scs where sc: "scopes st = sc # scs" using assms(2) by (cases "scopes st") (auto simp: inside_def)
  have "scopeOk (f sc)" using assms(1,4) sc by (auto simp: good_def)
  from hd_emitted [OF assms(1) sc this assms(5) _ assms(7)] assms(3,6) sc show ?thesis by (auto simp: inScope_def modifyC_def)
qed

lemma emits_setSlot: "emits (slotIn s) p p (inScope (setSlot name s)) anyway"
proof (rule emitsI)
  fix st x st' assume st: "good st" "slotIn s st" "inScope (setSlot name s) st = (Inr x, st')"
  have "emitted p p st st'"
    by (rule inScope_emitted [OF st(1) slotIn_inside [OF st(2)] st(3)])
      (use slotIn_hd [OF st(2)] in \<open>auto intro: scopeOk_setSlot\<close>)
  then show "emitted p p st st' \<and> True" by simp
qed

lemma emits_freshSlot: "emits inside p p freshSlot slotIn"
proof (rule emitsI)
  fix st x st' assume st: "good st" "inside st" "freshSlot st = (Inr x, st')"
  obtain sc scs where sc: "scopes st = sc # scs" using st(2) by (cases "scopes st") (auto simp: inside_def)
  have "x = nextSlot sc \<and> st' = st\<lparr>scopes := sc\<lparr>nextSlot := nextSlot sc + 1\<rparr> # scs\<rparr>"
    using st(3) unfolding freshSlot_def topScope_def bindC_def getC_def thenC_def retC_def inScope_def modifyC_def
    by (auto simp: sc)
  then have x: "x = nextSlot sc" and eq: "st' = st\<lparr>scopes := sc\<lparr>nextSlot := x + 1\<rparr> # scs\<rparr>" by simp_all
  have "emitted p p st st'"
    unfolding eq by (rule hd_emitted [OF st(1) sc]) (use st(1) sc x scopeOk_wider(2) [of sc "x + 1"] in \<open>auto simp: good_def\<close>)
  then show "emitted p p st st' \<and> slotIn x st'" by (simp add: eq slotIn_def)
qed

lemma emits_at: "emits A p p (topScope f) (\<lambda>x st. x = f (hd (scopes st)) \<and> A st)"
  unfolding topScope_def by (rule emits_get)

lemma slotOf_in: "good st \<Longrightarrow> inside st \<Longrightarrow> slotOf name (hd (scopes st)) = Some s \<Longrightarrow> slotIn s st"
  by (cases "scopes st") (auto simp: good_def inside_def slotIn_def scopeOk_def)

definition savedIn :: "nat option \<Rightarrow> 'w comp \<Rightarrow> bool" where
  "savedIn r st \<longleftrightarrow> inside st \<and> (\<forall>s. r = Some s \<longrightarrow> slotIn s st)"

lemma stable_savedIn [intro]: "stable (savedIn r)"
  unfolding savedIn_def stable_def using stable_slotIn stable_inside unfolding stable_def by blast

lemma emits_shadowed: "emits inside p p (topScope (slotOf name)) savedIn"
proof (rule emitsI)
  fix st x st' assume "good st" "inside st" "topScope (slotOf name) st = (Inr x, st')"
  then show "emitted p p st st' \<and> savedIn x st'"
    using slotOf_in [of st name] by (auto simp: topScope_def getC_def savedIn_def emitted_refl)
qed

lemma emits_bindName:
  "emits inside p p (bindName name) (\<lambda>b st. slotIn (fst b) st \<and> savedIn (snd (snd b)) st)"
proof -
  have 1: "emits (savedIn r) p p freshSlot (\<lambda>s st. slotIn s st \<and> savedIn r st)" for r
    using emits_frame [OF emits_freshSlot stable_savedIn [of r]] by (rule emits_weaken) (auto simp: savedIn_def)
  have 2: "emits (\<lambda>st. slotIn s st \<and> (slotIn s st \<and> savedIn r st)) p p (inScope (setSlot name s)) (\<lambda>_ st. True \<and> (slotIn s st \<and> savedIn r st))" for s r
    by (rule emits_frame [OF emits_setSlot]) blast
  have 2: "emits (\<lambda>st. slotIn s st \<and> savedIn r st) p p (inScope (setSlot name s)) (\<lambda>_ st. slotIn s st \<and> savedIn r st)" for s r
    using 2 by (rule emits_weaken) auto
  show ?thesis unfolding bindName_def
    by (rule emits_bind [OF emits_shadowed], rule emits_bind [OF 1], rule emits_then [OF 2], rule emits_weaken [OF emits_ret]) auto
qed

lemma restoreName_fields [simp]:
  "nextSlot (restoreName sv sc) = nextSlot sc" "scopeArity (restoreName sv sc) = scopeArity sc"
  "scopeCaptures (restoreName sv sc) = scopeCaptures sc" "recurStack (restoreName sv sc) = recurStack sc"
  "tryDepth (restoreName sv sc) = tryDepth sc"
  by (simp_all add: restoreName_def split: prod.splits option.splits)

lemma scopeOk_restore:
  assumes "scopeOk sc" "\<And>s. snd sv = Some s \<Longrightarrow> s < nextSlot sc"
  shows "scopeOk (restoreName sv sc)"
proof (cases "snd sv")
  case None
  have "slotOf n (sc\<lparr>nameToSlot := AList.delete (fst sv) (nameToSlot sc)\<rparr>) = Some s \<Longrightarrow> s < nextSlot sc" for n s
    using assms(1) by (auto simp: slotOf_def delete_conv' scopeOk_def split: if_splits)
  with None assms(1) show ?thesis by (cases sv) (simp add: restoreName_def scopeOk_def)
next
  case (Some s)
  with scopeOk_setSlot [OF assms(1) assms(2) [OF Some]] show ?thesis by (cases sv) (simp add: restoreName_def)
qed

lemma scopeOk_restores:
  assumes "scopeOk sc" "\<And>sv s. sv \<in> set svs \<Longrightarrow> snd sv = Some s \<Longrightarrow> s < nextSlot sc"
  shows "scopeOk (fold restoreName svs sc)"
  using assms
proof (induction svs arbitrary: sc)
  case (Cons sv svs)
  have "scopeOk (restoreName sv sc)" by (rule scopeOk_restore [OF Cons.prems(1)]) (rule Cons.prems(2) [of sv], simp_all)
  then have "scopeOk (fold restoreName svs (restoreName sv sc))"
  proof (rule Cons.IH)
    fix x s assume "x \<in> set svs" "snd x = Some s"
    with Cons.prems(2) [of x s] show "s < nextSlot (restoreName sv sc)" by simp
  qed
  then show ?case by simp
qed simp

lemma fold_restore_fields [simp]:
  "nextSlot (fold restoreName svs sc) = nextSlot sc" "scopeArity (fold restoreName svs sc) = scopeArity sc"
  "scopeCaptures (fold restoreName svs sc) = scopeCaptures sc" "recurStack (fold restoreName svs sc) = recurStack sc"
  "tryDepth (fold restoreName svs sc) = tryDepth sc"
  by (induction svs arbitrary: sc) simp_all

lemma emits_restoreNames:
  "emits (\<lambda>st. inside st \<and> (\<forall>sv\<in>set svs. savedIn (snd sv) st)) p p (restoreNames svs) anyway"
proof (rule emitsI)
  fix st x st' assume st: "good st" "inside st \<and> (\<forall>sv\<in>set svs. savedIn (snd sv) st)" "restoreNames svs st = (Inr x, st')"
  have "emitted p p st st'"
    by (rule inScope_emitted [OF st(1) _ st(3) [unfolded restoreNames_def]])
      (use st(2) in \<open>auto simp: savedIn_def dest!: slotIn_hd intro!: scopeOk_restores\<close>)
  then show "emitted p p st st' \<and> True" by simp
qed

lemma emits_restoreName: "emits (savedIn (snd sv)) p p (inScope (restoreName sv)) anyway"
proof -
  have "emits (\<lambda>st. inside st \<and> (\<forall>x\<in>set [sv]. savedIn (snd x) st)) p p (inScope (restoreName sv)) anyway"
    using emits_restoreNames [of "[sv]" p] by (simp add: restoreNames_def)
  then show ?thesis by (rule emits_weaken) (auto simp: savedIn_def)
qed

end
