(* ===== verification/Branches.thy ===== *)
theory Branches
  imports Steps
begin

text \<open>
  Jumps that are patched later: a stretch of code with jumps that are to land where the whole form ends.
  Branches, the short circuits of \<^verbatim>\<open>and\<close> and \<^verbatim>\<open>or\<close>, the clauses of a \<^verbatim>\<open>try\<close> and the defaults of keyword
  parameters are all such stretches.
\<close>

section \<open>Patching\<close>

lemma patchC_eq:
  assumes "patchC i n st = (Inr u, st')"
  obtains w where "i < pos st" "n \<le> kMaxOperand" "st' = st\<lparr>out := (out st)\<lparr>code := (code (out st))[i := w]\<rparr>\<rparr>"
    "instrOp w = instrOp (code (out st) ! i)" "instrOperand w = n"
proof -
  from assms obtain m where m: "patchOperand i n (out st) = Inr m" "st' = st\<lparr>out := m\<rparr>"
    by (auto simp: patchC_def split: sum.splits)
  have c: "i < length (code (out st))" "n \<le> kMaxOperand" using patchOperand_Inr [OF m(1)] by auto
  show ?thesis
    by (rule that [of "push_bit kOperandShift (word_of_nat n) OR (code (out st) ! i AND 0xFF)"])
      (use m patchOperand_eq [OF c] c patch_operand_word [OF c(2)] in \<open>auto simp: pos_def\<close>)
qed

lemma patchHere_eq:
  assumes "patchHere i st = (Inr u, st')"
  obtains w where "i < pos st" "st' = st\<lparr>out := (out st)\<lparr>code := (code (out st))[i := w]\<rparr>\<rparr>"
    "instrOp w = instrOp (code (out st) ! i)" "instrOperand w = pos st - (i + 1)"
proof -
  have "patchC i (pos st - (i + 1)) st = (Inr u, st')"
    using assms by (simp add: patchHere_def posC_def getC_def bindC_def pos_def)
  from patchC_eq [OF this] show ?thesis using that by blast
qed

definition patching :: "nat set \<Rightarrow> 'w comp \<Rightarrow> 'w comp \<Rightarrow> bool" where
  "patching X st st' \<longleftrightarrow>
     pos st' = pos st \<and> (\<forall>i. instrOp (code (out st') ! i) = instrOp (code (out st) ! i)) \<and> grows X st st' \<and> steady st st' \<and>
     (good st \<longrightarrow> good st') \<and> scopes st' = scopes st"

lemma patching_word:
  assumes "i < pos st" "instrOp w = instrOp (code (out st) ! i)"
  shows "patching {i} st (st\<lparr>out := (out st)\<lparr>code := (code (out st))[i := w]\<rparr>\<rparr>)"
  using assms
  by (auto simp: patching_def pos_def grows_def steady_def good_def symbolsIn_def list_all2_refl nth_list_update)

lemma patchC_patching: "patchC i n st = (Inr u, st') \<Longrightarrow>
  patching {i} st st' \<and> i < pos st \<and> instrOperand (code (out st') ! i) = n"
  by (erule patchC_eq) (auto intro: patching_word simp: pos_def)

lemma patchHere_patching: "patchHere i st = (Inr u, st') \<Longrightarrow>
  patching {i} st st' \<and> i < pos st \<and> instrOperand (code (out st') ! i) = pos st - (i + 1)"
  by (erule patchHere_eq) (auto intro: patching_word simp: pos_def)

lemma patching_refl: "patching {} st st"
  by (simp add: patching_def)

lemma patching_trans: "patching X a b \<Longrightarrow> patching Y b c \<Longrightarrow> patching (X \<union> Y) a c"
  unfolding patching_def using grows_trans steady_trans by metis

lemma patchAll:
  "eachC patchHere ds st = (Inr u, st') \<Longrightarrow>
     patching (set ds) st st' \<and> (\<forall>d\<in>set ds. instrOperand (code (out st') ! d) = pos st - (d + 1) \<and> d < pos st)"
proof (induction ds arbitrary: st)
  case Nil
  then show ?case by (simp add: retC_def patching_refl)
next
  case (Cons d ds)
  from Cons.prems obtain v s1 where s1: "patchHere d st = (Inr v, s1)" "eachC patchHere ds s1 = (Inr u, st')"
    by (auto simp: thenC_Inr)
  have p: "patching {d} st s1" "d < pos st" "instrOperand (code (out s1) ! d) = pos st - (d + 1)"
    using patchHere_patching [OF s1(1)] by auto
  have q: "patching (set ds) s1 st'" "\<forall>x\<in>set ds. instrOperand (code (out st') ! x) = pos s1 - (x + 1) \<and> x < pos s1"
    using Cons.IH [OF s1(2)] by auto
  have e: "pos s1 = pos st" using p(1) by (simp add: patching_def)
  have "instrOperand (code (out st') ! d) = pos st - (d + 1)"
  proof (cases "d \<in> set ds")
    case False
    have "grows (set ds) s1 st'" using q(1) by (simp add: patching_def)
    with False p(2,3) e show ?thesis by (simp add: growsD(8))
  qed (use q(2) e in auto)
  then show ?case using patching_trans [OF p(1) q(1)] q(2) e p(2) by auto
qed

section \<open>Stretches of code with jumps left open\<close>

text \<open>The module agrees with what was emitted from \<open>a\<close> on, except that the open jumps land at \<open>e\<close>.\<close>

definition patched :: "BytecodeModule \<Rightarrow> nat \<Rightarrow> nat list \<Rightarrow> nat \<Rightarrow> 'w comp \<Rightarrow> bool" where
  "patched M a ds e st \<longleftrightarrow>
     pos st \<le> length (code M) \<and>
     (\<forall>i. a \<le> i \<and> i < pos st \<longrightarrow>
        (if i \<in> set ds then instrOp (code M ! i) = instrOp (code (out st) ! i) \<and> instrOperand (code M ! i) = e - (i + 1) \<and> i < e
         else code M ! i = code (out st) ! i))"

lemma patched_Nil: "patched M a [] e st = fits M a st"
  by (simp add: patched_def fits_def)

lemma patched_before:
  assumes "patched M a ds e st'" "grows X st st'" "a \<le> b" "\<And>i. b \<le> i \<Longrightarrow> i < pos st \<Longrightarrow> i \<notin> X \<and> (i \<in> set ds \<longleftrightarrow> i \<in> set ds')"
  shows "patched M b ds' e st"
proof -
  have "if i \<in> set ds' then instrOp (code M ! i) = instrOp (code (out st) ! i) \<and> instrOperand (code M ! i) = e - (i + 1) \<and> i < e
        else code M ! i = code (out st) ! i" if i: "b \<le> i" "i < pos st" for i
  proof -
    have "a \<le> i" "i < pos st'" using i assms(3) growsD(1) [OF assms(2)] by auto
    with assms(1) have "if i \<in> set ds then instrOp (code M ! i) = instrOp (code (out st') ! i) \<and> instrOperand (code M ! i) = e - (i + 1) \<and> i < e
        else code M ! i = code (out st') ! i" by (simp add: patched_def)
    moreover have "code (out st') ! i = code (out st) ! i" "i \<in> set ds \<longleftrightarrow> i \<in> set ds'"
      using assms(4) [OF i] growsD(8) [OF assms(2) i(2)] by auto
    ultimately show ?thesis by simp
  qed
  moreover have "pos st \<le> length (code M)" using assms(1) growsD(1) [OF assms(2)] by (simp add: patched_def)
  ultimately show ?thesis by (simp add: patched_def)
qed

text \<open>From the depth \<open>p\<close> to the depth \<open>q\<close>, or out through an open jump at the depth \<open>r\<close>.\<close>

definition leads :: "nat \<Rightarrow> nat \<Rightarrow> nat \<Rightarrow> nat list \<Rightarrow> 'w comp \<Rightarrow> 'w comp \<Rightarrow> bool" where
  "leads p q r ds st st' \<longleftrightarrow>
     good st' \<and> grows {} st st' \<and> steady st st' \<and> (\<forall>d\<in>set ds. pos st \<le> d \<and> d < pos st') \<and>
     (\<forall>M caps k hs ls e. limits M caps st' \<longrightarrow> patched M (pos st) ds e st' \<longrightarrow> pos st' \<le> e \<longrightarrow> base k hs \<longrightarrow>
        targets st k hs ls \<longrightarrow> piece caps M (pos st') (k + q, hs, ls) e (k + r, hs, ls) \<longrightarrow>
        piece caps M (pos st) (k + p, hs, ls) e (k + r, hs, ls))"

lemma leads_piece:
  assumes "leads p q r ds s0 s1" "limits M caps s1" "patched M (pos s0) ds e s1" "pos s1 \<le> e" "base k hs"
    "targets s0 k hs ls" "piece caps M (pos s1) (k + q, hs, ls) e (k + r, hs, ls)"
  shows "piece caps M (pos s0) (k + p, hs, ls) e (k + r, hs, ls)"
  using assms unfolding leads_def by blast

lemma leads_frame:
  assumes "leads p q r ds st st'"
  shows "good st'" "grows {} st st'" "steady st st'" "d \<in> set ds \<Longrightarrow> pos st \<le> d \<and> d < pos st'"
  using assms by (auto simp: leads_def)

lemma leads_emitted:
  assumes "emitted p q s0 s1"
  shows "leads p q r [] s0 s1"
proof -
  have "piece caps M (pos s0) (k + p, hs, ls) e (k + r, hs, ls)"
    if "limits M caps s1" "fits M (pos s0) s1" "base k hs" "targets s0 k hs ls" "piece caps M (pos s1) (k + q, hs, ls) e (k + r, hs, ls)"
    for M caps k hs ls e
    using assms that piece_append unfolding emitted_def by blast
  with assms show ?thesis by (simp add: leads_def emitted_def patched_Nil)
qed

lemma leads_refl: "good st \<Longrightarrow> leads p p r [] st st"
  by (rule leads_emitted [OF emitted_refl])

lemma leads_seq:
  assumes "leads p q r ds s0 s1" "leads q q2 r ds2 s1 s2"
  shows "leads p q2 r (ds @ ds2) s0 s2"
proof -
  note f = leads_frame [OF assms(1)] and g = leads_frame [OF assms(2)]
  have le: "pos s0 \<le> pos s1" "pos s1 \<le> pos s2" using growsD(1) f(2) g(2) by blast+
  have "piece caps M (pos s0) (k + p, hs, ls) e (k + r, hs, ls)"
    if M: "limits M caps s2" "patched M (pos s0) (ds @ ds2) e s2" "pos s2 \<le> e" "base k hs" "targets s0 k hs ls"
      "piece caps M (pos s2) (k + q2, hs, ls) e (k + r, hs, ls)" for M caps k hs ls e
  proof (rule leads_piece [OF assms(1) limits_mono [OF g(2) M(1)] _ _ M(4,5)])
    show "patched M (pos s0) ds e s1" by (rule patched_before [OF M(2) g(2)]) (use g(4) in fastforce)+
    show "pos s1 \<le> e" using le M(3) by simp
    show "piece caps M (pos s1) (k + q, hs, ls) e (k + r, hs, ls)"
    proof (rule leads_piece [OF assms(2) M(1) _ M(3,4) _ M(6)])
      show "patched M (pos s1) ds2 e s2" by (rule patched_before [OF M(2) grows_refl [of "{}"] le(1)]) (use f(4) in fastforce)
      show "targets s1 k hs ls" using M(5) targets_steady [OF f(3)] by simp
    qed
  qed
  moreover have "\<forall>d\<in>set (ds @ ds2). pos s0 \<le> d \<and> d < pos s2" using f(4) g(4) le by fastforce
  moreover have "grows {} s0 s2" using grows_trans [OF f(2) g(2)] by simp
  ultimately show ?thesis using g(1) steady_trans [OF f(3) g(3)] unfolding leads_def by blast
qed

lemma leads_emit: "leads p q r ds s0 s1 \<Longrightarrow> emitted q q2 s1 s2 \<Longrightarrow> leads p q2 r ds s0 s2"
  using leads_seq [OF _ leads_emitted [of q q2 s1 s2 r], of p ds s0] by simp

lemma emit_leads: "emitted p q s0 s1 \<Longrightarrow> leads q q2 r ds s1 s2 \<Longrightarrow> leads p q2 r ds s0 s2"
  using leads_seq [OF leads_emitted [of p q s0 s1 r], of q2 ds s2] by simp

text \<open>The open jumps are patched where the code ends.\<close>

lemma leads_close:
  assumes "leads p r r ds s0 s1" "eachC patchHere ds s1 = (Inr u, s2)"
  shows "emitted p r s0 s2"
proof -
  note f = leads_frame [OF assms(1)]
  have pt: "patching (set ds) s1 s2" and ops: "\<And>d. d \<in> set ds \<Longrightarrow> instrOperand (code (out s2) ! d) = pos s1 - (d + 1) \<and> d < pos s1"
    using patchAll [OF assms(2)] by auto
  then have p: "pos s2 = pos s1" "good s2" "steady s1 s2" "grows (set ds) s1 s2"
    "\<And>i. instrOp (code (out s2) ! i) = instrOp (code (out s1) ! i)"
    using f(1) by (auto simp: patching_def)
  have g: "grows {} s0 s2"
    using grows_beyond [OF grows_trans [OF f(2) p(4)]] f(4) by fastforce
  have "piece caps M (pos s0) (k + p, hs, ls) (pos s2) (k + r, hs, ls)"
    if M: "limits M caps s2" "fits M (pos s0) s2" "base k hs" "targets s0 k hs ls" for M caps k hs ls
    unfolding p(1)
  proof (rule leads_piece [OF assms(1) limits_mono [OF p(4) M(1)] _ _ M(3,4)])
    have "code M ! i = code (out s1) ! i" if "pos s0 \<le> i" "i < pos s1" "i \<notin> set ds" for i
      using that M(2) growsD(8) [OF p(4)] p(1) by (simp add: fits_def)
    moreover have "instrOp (code M ! i) = instrOp (code (out s1) ! i) \<and> instrOperand (code M ! i) = pos s1 - (i + 1)"
      if "pos s0 \<le> i" "i < pos s1" "i \<in> set ds" for i
      using that M(2) ops [OF that(3)] p(1,5) by (simp add: fits_def)
    ultimately show "patched M (pos s0) ds (pos s1) s1" using M(2) p(1) by (simp add: patched_def fits_def)
  qed auto
  then show ?thesis using g p(2) steady_trans [OF f(3) p(3)] by (simp add: emitted_def)
qed

lemma eachC_single: "eachC f [x] = f x"
  by (auto simp: thenC_def bindC_def retC_def fun_eq_iff split: prod.splits sum.splits)

lemma leads_close1: "leads p r r [d] s0 s1 \<Longrightarrow> patchHere d s1 = (Inr u, s2) \<Longrightarrow> emitted p r s0 s2"
  by (erule leads_close) (simp only: eachC_single)

section \<open>Jumps\<close>

definition holds :: "nat \<Rightarrow> Op \<Rightarrow> nat \<Rightarrow> 'w comp \<Rightarrow> bool" where
  "holds i op n st \<longleftrightarrow> i < pos st \<and> instrOp (code (out st) ! i) = Some op \<and> instrOperand (code (out st) ! i) = n"

lemma holds_grows: "grows X st st' \<Longrightarrow> i \<notin> X \<Longrightarrow> holds i op n st \<Longrightarrow> holds i op n st'"
  using growsD(1) [of X st st'] growsD(8) [of X st st' i] by (auto simp: holds_def)

lemma holds_emitAt:
  assumes "emitAt op n st = (Inr i, st')"
  shows "holds i op n st'" "i = pos st" "pos st' = pos st + 1"
proof -
  note e = emitAt_eq [OF assms]
  have "code (out st') ! i = encodeInstr op (word_of_nat n)" using e(1,3) by (simp add: pos_def)
  then show "holds i op n st'" using e by (simp add: holds_def pos_def instr_decode)
  show "i = pos st" "pos st' = pos st + 1" using e by (simp_all add: pos_def)
qed

lemma holds_patched:
  assumes "holds i op n st" "patched M a ds e st" "a \<le> i"
  shows "instrOp (code M ! i) = Some op" "i \<notin> set ds \<Longrightarrow> instrOperand (code M ! i) = n"
    "i \<in> set ds \<Longrightarrow> instrOperand (code M ! i) = e - (i + 1) \<and> i < e" "i < length (code M)"
  using assms by (auto simp: holds_def patched_def split: if_splits)

lemma branch_at:
  assumes "instrOp (code M ! a) = Some op" "op \<in> {JUMP_IF_FALSE, JUMP_IF_TRUE}" "instrOperand (code M ! a) = c - (a + 1)" "a < c"
    "base k hs"
  shows "instr_ok caps M a (k + (p + 1)) hs" "set (succs caps M a (int (k + (p + 1)))) = {(c, int (k + p)), (a + 1, int (k + p))}"
    "handlersAfter M a (k + (p + 1)) hs = hs"
  using assms by (auto simp: instr_ok_def popsOf_def succs_def flowOf_def handlersAfter_def base_def Let_def)

lemma jump_at:
  assumes "instrOp (code M ! a) = Some JUMP" "instrOperand (code M ! a) = c - (a + 1)" "a < c" "base k hs"
  shows "instr_ok caps M a (k + p) hs" "succs caps M a (int (k + p)) = [(c, int (k + p))]"
  using assms by (auto simp: instr_ok_def popsOf_def succs_def flowOf_def base_def Let_def)

lemma leads_guard:
  assumes "good s0" "emitAt op 0 s0 = (Inr j, s1)" "op \<in> {JUMP_IF_FALSE, JUMP_IF_TRUE}"
  shows "leads (p + 1) p p [j] s0 s1"
proof -
  note f = emitAt_frame [OF assms(1,2)] and h = holds_emitAt [OF assms(2)]
  have "piece caps M (pos s0) (k + (p + 1), hs, ls) e (k + p, hs, ls)"
    if M: "patched M (pos s0) [j] e s1" "base k hs" "piece caps M (pos s1) (k + p, hs, ls) e (k + p, hs, ls)"
    for M caps k hs ls e
  proof -
    have j: "pos s0 \<le> j" using f(5) by simp
    have c: "instrOp (code M ! pos s0) = Some op" "instrOperand (code M ! pos s0) = e - (pos s0 + 1)" "pos s0 < e"
      using holds_patched [OF h(1) M(1) j] f(5) by auto
    note b = branch_at [OF c(1) assms(3) c(2,3) M(2)]
    have "instrOp (code M ! pos s0) \<notin> {Some JUMP_BACK, Some TRY_BEGIN}" using c(1) assms(3) by auto
    from piece_guard [OF b(1,2) this b(3)] M(3) f(4) show ?thesis by simp
  qed
  with f show ?thesis by (simp add: leads_def)
qed

text \<open>One arm of a branch; the other arm follows.\<close>

lemma leads_fork:
  assumes "good s0" "emitAt op 0 s0 = (Inr j, s1)" "op \<in> {JUMP_IF_FALSE, JUMP_IF_TRUE}" "emitted p q s1 s2"
    "emitAt JUMP 0 s2 = (Inr d, s3)" "patchHere j s3 = (Inr u, s4)"
  shows "leads (p + 1) p q [d] s0 s4"
proof -
  note f1 = emitAt_frame [OF assms(1,2)] and h1 = holds_emitAt [OF assms(2)]
  note e2 = emitted_good [OF assms(4)] emitted_grows [OF assms(4)] emitted_steady [OF assms(4)]
  note f3 = emitAt_frame [OF e2(1) assms(5)] and h3 = holds_emitAt [OF assms(5)]
  have p4: "patching {j} s3 s4" "instrOperand (code (out s4) ! j) = pos s3 - (j + 1)"
    using patchHere_patching [OF assms(6)] by auto
  then have f4: "pos s4 = pos s3" "good s4" "grows {j} s3 s4" "steady s3 s4"
    "\<And>i. instrOp (code (out s4) ! i) = instrOp (code (out s3) ! i)" using f3(1) by (auto simp: patching_def)
  have le: "pos s1 \<le> pos s2" by (rule growsD(1) [OF e2(2)])
  have jd: "j = pos s0" "d = pos s2" "pos s1 = pos s0 + 1" "pos s4 = pos s2 + 1" using f1(4,5) f3(4,5) f4(1) by auto
  have g14: "grows {j} s1 s4" using grows_trans [OF grows_trans [OF e2(2) f3(2)] f4(3)] by simp
  have g04: "grows {} s0 s4" by (rule grows_beyond [OF grows_trans [OF f1(2) g14]]) (simp add: jd(1))
  have "holds j op 0 s3" using holds_grows [OF grows_trans [OF e2(2) f3(2)] _ h1(1)] by simp
  then have hj: "holds j op (d - j) s4" using p4(2) f4(1,5) jd f3(4) by (simp add: holds_def)
  have hd: "holds d JUMP 0 s4" by (rule holds_grows [OF f4(3) _ h3(1)]) (use jd le in simp)
  have "piece caps M (pos s0) (k + (p + 1), hs, ls) e (k + q, hs, ls)"
    if M: "limits M caps s4" "patched M (pos s0) [d] e s4" "pos s4 \<le> e" "base k hs" "targets s0 k hs ls"
      "piece caps M (pos s4) (k + p, hs, ls) e (k + q, hs, ls)" for M caps k hs ls e
  proof -
    have cj: "instrOp (code M ! j) = Some op" "instrOperand (code M ! j) = (d + 1) - (j + 1)"
      using holds_patched [OF hj M(2)] jd le by auto
    have cd: "instrOp (code M ! d) = Some JUMP" "instrOperand (code M ! d) = e - (d + 1)" "d < e"
      using holds_patched [OF hd M(2)] jd le by auto
    have "j < d + 1" using jd le by simp
    note b = branch_at [OF cj(1) assms(3) cj(2) this M(4)] and J = jump_at [OF cd M(4)]
    have t: "targets s1 k hs ls" using M(5) targets_steady [OF f1(3)] by simp
    have ar: "piece caps M (pos s1) (k + p, hs, ls) (pos s2) (k + q, hs, ls)"
    proof -
      have "fits M (pos s1) s2"
        unfolding patched_Nil [symmetric, where e = e]
        by (rule patched_before [OF M(2) grows_trans [OF f3(2) f4(3)]]) (use jd in auto)
      moreover have "limits M caps s2" by (rule limits_mono [OF grows_trans [OF f3(2) f4(3)] M(1)])
      ultimately show ?thesis using assms(4) M(4) t unfolding emitted_def by blast
    qed
    have ne: "instrOp (code M ! j) \<noteq> Some JUMP_BACK" "instrOp (code M ! j) \<noteq> Some TRY_BEGIN" using cj(1) assms(3) by auto
    show ?thesis unfolding jd(1) [symmetric]
      by (rule piece_fork [OF b(1,2) ne(1) _ _ _ _ cd(1) J]) (use b(3) ne(2) ar M(6) jd in \<open>auto\<close>)
  qed
  moreover have "steady s0 s4" using steady_trans f1(3) e2(3) f3(3) f4(4) by blast
  ultimately show ?thesis using f4(2) g04 jd le unfolding leads_def by auto
qed

section \<open>Handlers\<close>

text \<open>Inside a \<^verbatim>\<open>try\<close> no target of \<^verbatim>\<open>recur\<close> outside it may be used.\<close>

definition shielded :: "'w comp \<Rightarrow> bool" where
  "shielded st \<longleftrightarrow> (\<forall>sc\<in>set (take 1 (scopes st)). \<forall>tgt\<in>set (recurStack sc). targetDepth tgt \<noteq> tryDepth sc)"

lemma shielded_targets: "shielded st \<Longrightarrow> targets st k hs ls"
  by (auto simp: shielded_def targets_def)

lemma shielded_steady: "steady st st' \<Longrightarrow> shielded st' = shielded st"
  by (cases "scopes st"; cases "scopes st'") (auto simp: steady_def shielded_def)

lemma tryBegin_at:
  assumes "instrOp (code M ! a) = Some TRY_BEGIN" "instrOperand (code M ! a) = c - (a + 1)" "a < c" "c < length (code M)"
    "hasHandlers M" "base k hs"
  shows "instr_ok caps M a k hs" "set (succs caps M a (int k)) = {(c, int (k + 1)), (a + 1, int k)}"
    "handlersAfter M a k hs = (c, k) # hs"
  using assms by (auto simp: instr_ok_def popsOf_def succs_def flowOf_def handlersAfter_def base_def Let_def)

lemma tryEnd_at:
  assumes "instrOp (code M ! a) = Some TRY_END" "snd h \<le> k"
  shows "piece caps M a (k, h # hs, ls) (a + 1) (k, hs, ls)"
proof (rule piece_instr)
  show "instr_ok caps M a k (h # hs)" using assms by (simp add: instr_ok_def Let_def popsOf_def)
  show "succs caps M a (int k) = [(a + 1, int k)]" using flow_keep [OF assms(1), of caps k] by (simp add: succs_def)
qed (use assms(1) in \<open>simp_all add: handlersAfter_def\<close>)

lemma emitted_between:
  assumes "emitted p q s1 s2" "grows X s2 st'" "patched M a ds e st'" "limits M caps st'" "a \<le> pos s1"
    "\<And>i. pos s1 \<le> i \<Longrightarrow> i < pos s2 \<Longrightarrow> i \<notin> X \<and> i \<notin> set ds" "base k hs" "targets s1 k hs ls"
  shows "piece caps M (pos s1) (k + p, hs, ls) (pos s2) (k + q, hs, ls)"
proof -
  have "fits M (pos s1) s2"
    unfolding patched_Nil [symmetric, where e = e] by (rule patched_before [OF assms(3,2,5)]) (use assms(6) in auto)
  moreover have "limits M caps s2" by (rule limits_mono [OF assms(2,4)])
  ultimately show ?thesis using assms(1,7,8) unfolding emitted_def by blast
qed

lemma leads_try:
  assumes "good s0" "shielded s0" "emitAt TRY_BEGIN 0 s0 = (Inr b, s1)" "emitted 0 1 s1 s2"
    "emitAt TRY_END 0 s2 = (Inr x, s3)" "emitted 1 1 s3 s4" "emitAt JUMP 0 s4 = (Inr d, s5)"
    "patchHere b s5 = (Inr u, s6)" "emitted 1 0 s6 s8" "pos s6 < pos s8"
  shows "leads 0 0 1 [d] s0 s8"
proof -
  note f1 = emitAt_frame [OF assms(1,3)] and h1 = holds_emitAt [OF assms(3)]
  note e2 = emitted_good [OF assms(4)] emitted_grows [OF assms(4)] emitted_steady [OF assms(4)]
  note f3 = emitAt_frame [OF e2(1) assms(5)] and h3 = holds_emitAt [OF assms(5)]
  note e4 = emitted_good [OF assms(6)] emitted_grows [OF assms(6)] emitted_steady [OF assms(6)]
  note f5 = emitAt_frame [OF e4(1) assms(7)] and h5 = holds_emitAt [OF assms(7)]
  note e8 = emitted_good [OF assms(9)] emitted_grows [OF assms(9)] emitted_steady [OF assms(9)]
  have p6: "patching {b} s5 s6" "instrOperand (code (out s6) ! b) = pos s5 - (b + 1)"
    using patchHere_patching [OF assms(8)] by auto
  then have f6: "pos s6 = pos s5" "good s6" "grows {b} s5 s6" "steady s5 s6"
    "\<And>i. instrOp (code (out s6) ! i) = instrOp (code (out s5) ! i)" using f5(1) by (auto simp: patching_def)
  have at: "b = pos s0" "pos s1 = pos s0 + 1" "x = pos s2" "pos s3 = pos s2 + 1" "d = pos s4" "pos s6 = pos s4 + 1"
    using f1(4,5) f3(4,5) f5(4,5) f6(1) by auto
  have le: "pos s1 \<le> pos s2" "pos s3 \<le> pos s4" using growsD(1) e2(2) e4(2) by blast+
  have g58: "grows {b} s5 s8" using grows_trans [OF f6(3) e8(2)] by simp
  have g48: "grows {b} s4 s8" using grows_trans [OF f5(2) g58] by simp
  have g38: "grows {b} s3 s8" using grows_trans [OF e4(2) g48] by simp
  have g28: "grows {b} s2 s8" using grows_trans [OF f3(2) g38] by simp
  have g18: "grows {b} s1 s8" using grows_trans [OF e2(2) g28] by simp
  have g08: "grows {} s0 s8" by (rule grows_beyond [OF grows_trans [OF f1(2) g18]]) (simp add: at(1))
  have "holds b TRY_BEGIN 0 s5"
    using holds_grows [OF grows_trans [OF e2(2) grows_trans [OF f3(2) grows_trans [OF e4(2) f5(2)]]] _ h1(1)] by simp
  then have "holds b TRY_BEGIN (d - b) s6" using p6(2) f6(1,5) at by (simp add: holds_def)
  then have hb: "holds b TRY_BEGIN (d - b) s8" by (rule holds_grows [OF e8(2), rotated]) simp
  have hx: "holds x TRY_END 0 s8" by (rule holds_grows [OF g38 _ h3(1)]) (use at le in simp)
  have hd: "holds d JUMP 0 s8" by (rule holds_grows [OF g58 _ h5(1)]) (use at le in simp)
  have hH: "hasHandlers (out s1)" using emitAt_eq [OF assms(3)] by simp
  have sh: "shielded s1" using assms(2) shielded_steady [OF f1(3)] by simp
  have "piece caps M (pos s0) (k + 0, hs, ls) e (k + 1, hs, ls)"
    if M: "limits M caps s8" "patched M (pos s0) [d] e s8" "pos s8 \<le> e" "base k hs" "targets s0 k hs ls"
      "piece caps M (pos s8) (k + 0, hs, ls) e (k + 1, hs, ls)" for M caps k hs ls e
  proof -
    have cb: "instrOp (code M ! b) = Some TRY_BEGIN" "instrOperand (code M ! b) = (d + 1) - (b + 1)"
      using holds_patched [OF hb M(2)] at le by auto
    have cx: "instrOp (code M ! x) = Some TRY_END" using holds_patched [OF hx M(2)] at le by auto
    have cd: "instrOp (code M ! d) = Some JUMP" "instrOperand (code M ! d) = e - (d + 1)" "d < e"
      using holds_patched [OF hd M(2)] at le by auto
    have "b < d + 1" "d + 1 < length (code M)" using at le assms(10) M(2) by (auto simp: patched_def)
    moreover have "hasHandlers M" using hH g18 M(1) by (simp add: grows_def limits_def)
    ultimately have B: "instr_ok caps M b k hs" "set (succs caps M b (int k)) = {(d + 1, int (k + 1)), (b + 1, int k)}"
      "handlersAfter M b k hs = (d + 1, k) # hs" using tryBegin_at [OF cb] M(4) by blast+
    note J = jump_at [OF cd M(4), of _ 1]
    have t: "targets s3 k hs ls" "targets s6 k hs ls"
      using M(5) targets_steady f1(3) e2(3) f3(3) e4(3) f5(3) f6(4) by metis+
    have body: "piece caps M (pos s1) (k + 0, (d + 1, k) # hs, ls) (pos s2) (k + 1, (d + 1, k) # hs, ls)"
      by (rule emitted_between [OF assms(4) g28 M(2,1) _ _ base_Cons shielded_targets [OF sh]]) (use at le in auto)
    have ender: "piece caps M (pos s2) (k + 1, (d + 1, k) # hs, ls) (pos s3) (k + 1, hs, ls)"
      using tryEnd_at [OF cx, of "(d + 1, k)"] at by simp
    have after: "piece caps M (pos s3) (k + 1, hs, ls) (pos s4) (k + 1, hs, ls)"
      by (rule emitted_between [OF assms(6) g48 M(2,1) _ _ M(4) t(1)]) (use at le in auto)
    have arm: "piece caps M (b + 1) (k, (d + 1, k) # hs, ls) d (k + 1, hs, ls)"
      using piece_append [OF piece_append [OF body ender] after] at by simp
    have "piece caps M (pos s6) (k + 1, hs, ls) (pos s8) (k + 0, hs, ls)"
      by (rule emitted_between [OF assms(9) grows_refl [of "{}"] M(2,1) _ _ M(4) t(2)]) (use at le in auto)
    then have handler: "piece caps M (d + 1) (k + 1, hs, ls) e (k + 1, hs, ls)"
      using piece_append M(6) at by simp
    have "instrOp (code M ! b) \<noteq> Some JUMP_BACK" using cb(1) by simp
    from piece_fork [OF B(1,2) this _ _ arm handler cd(1) J] B(3) cb(1) at(1) show ?thesis by simp
  qed
  moreover have "steady s0 s8" using steady_trans f1(3) e2(3) f3(3) e4(3) f5(3) f6(4) e8(3) by metis
  ultimately show ?thesis using e8(1) g08 at le assms(10) unfolding leads_def by auto
qed

end
