(* ===== verification/Blocks.thy ===== *)
theory Blocks
  imports Branches
begin

text \<open>
  The steps that need more than a fall through: the ends of a path, loops and \<^verbatim>\<open>recur\<close>, member calls, and the
  functions a form makes of finished bodies with the locals they capture.
\<close>

section \<open>Ends of a path\<close>

lemma emits_end:
  assumes "op \<in> {THROW, RETHROW, RETURN}" "\<And>st. A st \<Longrightarrow> op = RETHROW \<Longrightarrow> slotIn n st" "stable A"
  shows "emits A p q (emitC op n) (\<lambda>_. A)"
proof (rule emitsI)
  fix st u st' assume st: "good st" "A st" "emitC op n st = (Inr u, st')"
  obtain i where e: "emitAt op n st = (Inr i, st')" using st(3) by (auto simp: emitC_def thenC_Inr retC_def)
  note f = emitAt_frame [OF st(1) e]
  have "piece caps M (pos st) (k + p, hs, ls) (pos st') (k + q, hs, ls)"
    if M: "limits M caps st'" "fits M (pos st) st'" "base k hs" for M caps k hs ls
  proof -
    note c = emitAt_code [OF e M(2)]
    have "limits M caps st" by (rule limits_mono [OF f(2) M(1)])
    then have "op = RETHROW \<longrightarrow> n < arity M + localCount M" using assms(2) [OF st(2)] slot_limit by blast
    then have "instr_ok caps M (pos st) (k + p) hs" "succs caps M (pos st) (int (k + p)) = []"
      using c(1,2) M(3) assms(1) by (auto simp: instr_ok_def Let_def popsOf_def base_def succs_def flowOf_def)
    from piece_end [OF this, of ls ls] show ?thesis unfolding f(4) by simp
  qed
  moreover have "A st'" using assms(3) f(2) st(2) unfolding stable_def by blast
  ultimately show "emitted p q st st' \<and> A st'" using f by (simp add: emitted_def)
qed

section \<open>Loops\<close>

lemma piece_less:
  assumes "piece caps M a (d, h, ls) b (d', h', ls')" "d \<noteq> d'"
  shows "a < b"
  using assms by (cases "a = b") (auto simp: piece_def entersAs_def)

lemma good_pushTarget:
  assumes "good s0" "inside s0" "\<And>s. s \<in> set slots \<Longrightarrow> slotIn s s0"
    "pushTarget \<lparr>bodyStart = pos s0, recurSlots = slots, targetDepth = tryDepth (hd (scopes s0))\<rparr> s0 = (Inr u, s1)"
  shows "good s1"
proof -
  obtain sc scs where sc: "scopes s0 = sc # scs" using assms(2) by (cases "scopes s0") (auto simp: inside_def)
  let ?sc = "sc\<lparr>recurStack := \<lparr>bodyStart = pos s0, recurSlots = slots, targetDepth = tryDepth sc\<rparr> # recurStack sc\<rparr>"
  have s1: "s1 = s0\<lparr>scopes := ?sc # scs\<rparr>" using assms(4) sc by (simp add: pushTarget_def inScope_def modifyC_def)
  have "capsOk (sc # scs)" using assms(1) sc by (simp add: good_def)
  then have "capsOk (?sc # scs)" by (cases scs) (simp_all add: capsOk_Cons)
  moreover have "\<And>s. s \<in> set slots \<Longrightarrow> s < nextSlot sc" using assms(3) sc by (auto simp: slotIn_def)
  ultimately show ?thesis using assms(1) unfolding s1 by (auto simp: good_def sc pos_def scopeOk_def slotOf_def)
qed

lemma emitted_loop:
  assumes "good s0" "inside s0" "\<And>s. s \<in> set slots \<Longrightarrow> slotIn s s0"
    "pushTarget \<lparr>bodyStart = pos s0, recurSlots = slots, targetDepth = tryDepth (hd (scopes s0))\<rparr> s0 = (Inr u, s1)"
    "emitted 0 1 s1 s2" "popTarget s2 = (Inr v, s3)"
  shows "emitted 0 1 s0 s3"
proof -
  obtain sc scs where sc: "scopes s0 = sc # scs" using assms(2) by (cases "scopes s0") (auto simp: inside_def)
  let ?tgt = "\<lparr>bodyStart = pos s0, recurSlots = slots, targetDepth = tryDepth sc\<rparr>"
  have s1: "s1 = s0\<lparr>scopes := sc\<lparr>recurStack := ?tgt # recurStack sc\<rparr> # scs\<rparr>"
    using assms(4) sc by (simp add: pushTarget_def inScope_def modifyC_def)
  note e2 = emitted_good [OF assms(5)] emitted_grows [OF assms(5)] emitted_steady [OF assms(5)]
  obtain sc2 scs2 where sc2: "scopes s2 = sc2 # scs2" "recurStack sc2 = ?tgt # recurStack sc" "tryDepth sc2 = tryDepth sc"
    "scopeArity sc2 = scopeArity sc" "sameShape scs scs2"
    using e2(3) s1 by (cases "scopes s2") (auto simp: steady_def)
  have s3: "s3 = s2\<lparr>scopes := sc2\<lparr>recurStack := recurStack sc\<rparr> # scs2\<rparr>"
    using assms(6) sc2 by (simp add: popTarget_def inScope_def modifyC_def)
  have g01: "grows {} s0 s1" by (simp add: s1 sc grows_def pos_def list_all2_refl)
  have g23: "grows {} s2 s3" by (simp add: s3 sc2(1) grows_def pos_def list_all2_refl)
  have g03: "grows {} s0 s3" using grows_trans [OF g01 grows_trans [OF e2(2) g23]] by simp
  have ok2: "scopeOk sc2" "capsOk (sc2 # scs2)" "\<forall>x\<in>set scs2. scopeOk x" using e2(1) sc2(1) by (auto simp: good_def)
  have "scopeOk (sc2\<lparr>recurStack := recurStack sc\<rparr>)" using ok2(1) sc2(2) by (auto simp: scopeOk_def slotOf_def)
  moreover have "capsOk (sc2\<lparr>recurStack := recurStack sc\<rparr> # scs2)" using ok2(2) by (cases scs2) (simp_all add: capsOk_Cons)
  moreover have "pos s0 \<le> pos s2" using growsD(1) [OF e2(2)] by (simp add: s1 pos_def)
  moreover have "\<forall>tgt\<in>set (recurStack sc). bodyStart tgt \<le> pos s0" using assms(1) sc by (simp add: good_def)
  ultimately have good3: "good s3"
    using e2(1) ok2(3) unfolding s3 good_def by (auto simp: pos_def)
  have steady3: "steady s0 s3" using sc2 by (simp add: steady_def s3 sc)
  have "piece caps M (pos s0) (k + 0, hs, ls) (pos s3) (k + 1, hs, ls)"
    if M: "limits M caps s3" "fits M (pos s0) s3" "base k hs" "targets s0 k hs ls" for M caps k hs ls
  proof -
    have "targets s1 k hs (insert (pos s0, k, hs) ls)" using M(4) by (auto simp: targets_def s1 sc)
    moreover have "limits M caps s2" by (rule limits_mono [OF g23 M(1)])
    moreover have "fits M (pos s1) s2" using M(2) by (simp add: fits_def s3 s1 pos_def)
    ultimately have P: "piece caps M (pos s1) (k + 0, hs, insert (pos s0, k, hs) ls) (pos s2) (k + 1, hs, insert (pos s0, k, hs) ls)"
      using assms(5) M(3) unfolding emitted_def by blast
    have "pos s1 = pos s0" "pos s2 = pos s3" by (simp_all add: s1 s3 pos_def)
    with P piece_loop piece_less [OF P] show ?thesis by simp
  qed
  with good3 g03 steady3 show ?thesis by (simp add: emitted_def)
qed

lemma emitted_recur:
  assumes "good s0" "scopes s0 = sc # scs" "tgt \<in> set (recurStack sc)" "targetDepth tgt = tryDepth sc"
    "emitted 0 n s0 s1" "emitted n 0 s1 s2" "emitAt JUMP_BACK 0 s2 = (Inr i, s3)"
    "patchC i (i + 1 - bodyStart tgt) s3 = (Inr u, s4)"
  shows "emitted 0 q s0 s4"
proof -
  have e: "emitted 0 0 s0 s2" by (rule emitted_trans [OF assms(5,6)])
  note e2 = emitted_good [OF e] emitted_grows [OF e] emitted_steady [OF e]
  note f3 = emitAt_frame [OF e2(1) assms(7)] and h3 = holds_emitAt [OF assms(7)]
  have p4: "patching {i} s3 s4" "instrOperand (code (out s4) ! i) = i + 1 - bodyStart tgt"
    using patchC_patching [OF assms(8)] by auto
  then have f4: "pos s4 = pos s3" "good s4" "grows {i} s3 s4" "steady s3 s4"
    "\<And>i. instrOp (code (out s4) ! i) = instrOp (code (out s3) ! i)" using f3(1) by (auto simp: patching_def)
  have g24: "grows {i} s2 s4" using grows_trans [OF f3(2) f4(3)] by simp
  have le: "pos s0 \<le> pos s2" by (rule growsD(1) [OF e2(2)])
  have g04: "grows {} s0 s4" by (rule grows_beyond [OF grows_trans [OF e2(2) g24]]) (use f3(5) le in simp)
  have start: "bodyStart tgt \<le> pos s0" using assms(1-3) by (simp add: good_def)
  have h: "holds i JUMP_BACK (i + 1 - bodyStart tgt) s4" using h3(1) p4(2) f4(1,5) by (simp add: holds_def)
  have "piece caps M (pos s0) (k + 0, hs, ls) (pos s4) (k + q, hs, ls)"
    if M: "limits M caps s4" "fits M (pos s0) s4" "base k hs" "targets s0 k hs ls" for M caps k hs ls
  proof -
    have P: "patched M (pos s0) [] 0 s4" using M(2) by (simp add: patched_Nil)
    have i: "i = pos s2" "pos s4 = i + 1" "pos s0 \<le> i" using f3(4,5) f4(1) le by auto
    have ci: "instrOp (code M ! i) = Some JUMP_BACK" "instrOperand (code M ! i) = i + 1 - bodyStart tgt"
      using holds_patched [OF h P i(3)] by auto
    have "instr_ok caps M i k hs" using ci M(3) by (auto simp: instr_ok_def Let_def popsOf_def base_def)
    moreover have "succs caps M i (int k) = [(bodyStart tgt, int k)]"
      using ci start i(3) by (simp add: succs_def flowOf_def Let_def)
    moreover obtain k' where "k' \<le> k" "(bodyStart tgt, k', hs) \<in> ls" using M(4) assms(2-4) by (auto simp: targets_def)
    ultimately have "piece caps M i (k, hs, ls) (i + 1) (k + q, hs, ls)" using piece_back ci(1) by blast
    moreover have "piece caps M (pos s0) (k + 0, hs, ls) (pos s2) (k + 0, hs, ls)"
      by (rule emitted_between [OF e g24 P M(1) _ _ M(3,4)]) (use i in auto)
    ultimately show ?thesis using piece_append i by fastforce
  qed
  moreover have "steady s0 s4" using steady_trans e2(3) f3(3) f4(4) by metis
  ultimately show ?thesis using f4(2) g04 by (simp add: emitted_def)
qed

section \<open>Member calls\<close>

lemma emits_member:
  "emits A (n + 1) 1 (thenC (emitC CALL_MEMBER n) (emitConst NOP (symC E s))) anyway"
proof (rule emitsI)
  fix s0 u s3 assume st: "good s0" "thenC (emitC CALL_MEMBER n) (emitConst NOP (symC E s)) s0 = (Inr u, s3)"
  then obtain i s1 j s2 l where steps: "emitAt CALL_MEMBER n s0 = (Inr i, s1)" "addC (symC E s) s1 = (Inr j, s2)"
      "emitAt NOP j s2 = (Inr l, s3)"
    by (auto simp: emitC_def emitConst_def thenC_Inr bindC_Inr retC_def)
  note f1 = emitAt_frame [OF st(1) steps(1)] and h1 = holds_emitAt [OF steps(1)]
  have "emitted 1 1 s1 s2 \<and> inPool j s2"
    using emitsD [OF emits_symC [where A = always] f1(1) _ steps(2)] by simp
  then have e2: "good s2" "grows {} s1 s2" "steady s1 s2" "inPool j s2" by (auto simp: emitted_def)
  have p2: "pos s2 = pos s1"
    using steps(2) adder_symbol [of E s] by (auto simp: addC_def pos_def adder_def extends_def split: prod.splits dest: spec [of _ "out s1"])
  note f3 = emitAt_frame [OF e2(1) steps(3)] and h3 = holds_emitAt [OF steps(3)]
  have g13: "grows {} s1 s3" using grows_trans [OF e2(2) f3(2)] by simp
  have g03: "grows {} s0 s3" using grows_trans [OF f1(2) g13] by simp
  have hi: "holds i CALL_MEMBER n s3" by (rule holds_grows [OF g13 _ h1(1)]) simp
  have "piece caps M (pos s0) (k + (n + 1), hs, ls) (pos s3) (k + 1, hs, ls)"
    if M: "limits M caps s3" "fits M (pos s0) s3" "base k hs" for M caps k hs ls
  proof -
    have P: "patched M (pos s0) [] 0 s3" using M(2) by (simp add: patched_Nil)
    have at: "i = pos s0" "pos s1 = pos s0 + 1" "l = pos s0 + 1" "pos s3 = pos s0 + 2" using f1(4,5) f3(4,5) p2 by auto
    have ci: "instrOp (code M ! pos s0) = Some CALL_MEMBER" "instrOperand (code M ! pos s0) = n"
      using holds_patched [OF hi P] at(1) by auto
    have cl: "instrOp (code M ! (pos s0 + 1)) = Some NOP" "instrOperand (code M ! (pos s0 + 1)) = j" "pos s0 + 1 < length (code M)"
      using holds_patched [OF h3(1) P] at(3) by auto
    have "j < length (pool M)" using e2(4) M(1) growsD(2) [OF f3(2)] by (auto simp: inPool_def limits_def)
    then have ok: "instr_ok caps M (pos s0) (k + (n + 1)) hs"
      using ci cl M(3) by (auto simp: instr_ok_def Let_def popsOf_def base_def)
    have "succs caps M (pos s0) (int (k + (n + 1))) = [(pos s0 + 1, int (k + 1))]"
      using flow_calls [OF ci(1), of "k + (n + 1)" caps] ci(2) by (simp add: succs_def)
    from piece_instr [OF ok this] have 1: "piece caps M (pos s0) (k + (n + 1), hs, ls) (pos s0 + 1) (k + 1, hs, ls)"
      using ci(1) by (simp add: handlersAfter_def)
    have ok2: "instr_ok caps M (pos s0 + 1) (k + 1) hs"
      using cl M(3) by (auto simp: instr_ok_def Let_def popsOf_def base_def)
    have "succs caps M (pos s0 + 1) (int (k + 1)) = [(pos s0 + 1 + 1, int (k + 1))]"
      using flow_keep [OF cl(1), of caps "k + 1"] by (simp add: succs_def)
    from piece_instr [OF ok2 this] have "piece caps M (pos s0 + 1) (k + 1, hs, ls) (pos s0 + 1 + 1) (k + 1, hs, ls)"
      using cl(1) by (simp add: handlersAfter_def)
    with piece_append [OF 1] show ?thesis by (simp add: at(4))
  qed
  moreover have "steady s0 s3" using steady_trans f1(3) e2(3) f3(3) by metis
  ultimately show "emitted (n + 1) 1 s0 s3 \<and> True" using f3(1) g03 by (simp add: emitted_def)
qed

section \<open>Functions\<close>

lemma madeOk_growing: "growing mds mds' \<Longrightarrow> madeOk mds m \<Longrightarrow> madeOk mds' m"
  by (auto simp: madeOk_def growing_def nth_append)

definition bodyIn :: "BytecodeModule \<Rightarrow> 'w comp \<Rightarrow> bool" where
  "bodyIn body st \<longleftrightarrow> madeOk (made st) body \<and> (\<forall>c\<in>set (captureSpecs body). slotIn (parentSlot c) st)"

definition blockIn :: "nat \<Rightarrow> BytecodeModule \<Rightarrow> 'w comp \<Rightarrow> bool" where
  "blockIn i body st \<longleftrightarrow>
     i < length (blocks (out st)) \<and> blocks (out st) ! i < length (made st) \<and> made st ! (blocks (out st) ! i) = body \<and>
     (\<forall>c\<in>set (captureSpecs body). slotIn (parentSlot c) st)"

lemma slotIn_grows: "grows X st st' \<Longrightarrow> slotIn s st \<Longrightarrow> slotIn s st'"
  using stable_slotIn unfolding stable_def by blast

lemma stable_blockIn [intro]: "stable (blockIn i body)"
proof (rule stableI)
  fix X and st st' :: "'w comp" assume g: "grows X st st'" and b: "blockIn i body st"
  note d = growing_nth [OF growsD(3) [OF g]] growing_length [OF growsD(3) [OF g]] growing_nth [OF growsD(5) [OF g]]
    growing_length [OF growsD(5) [OF g]]
  show "blockIn i body st'"
    using b d slotIn_grows [OF g] unfolding blockIn_def by (metis less_le_trans)
qed

lemma stable_bodyIn [intro]: "stable (bodyIn body)"
proof (rule stableI)
  fix X and st st' :: "'w comp" assume g: "grows X st st'" and b: "bodyIn body st"
  then show "bodyIn body st'"
    using madeOk_growing [OF growsD(5) [OF g]] slotIn_grows [OF g] unfolding bodyIn_def by blast
qed

lemma emits_addBlock: "emits (bodyIn body) p p (addBlockC body) (\<lambda>i. blockIn i body)"
proof (rule emitsI)
  fix st i st' assume st: "good st" "bodyIn body st" "addBlockC body st = (Inr i, st')"
  have eq: "i = length (blocks (out st))" "st' = st\<lparr>made := made st @ [body], out := (out st)\<lparr>blocks := blocks (out st) @ [length (made st)]\<rparr>\<rparr>"
    using st(3) by (auto simp: addBlockC_def bindC_def getC_def thenC_def modifyC_def addC_def addBlock_def Let_def)
  have "madeOk (made st @ [body]) m" if "m \<in> set (made st @ [body])" for m
    using that st(1,2) madeOk_growing [of "made st" "made st @ [body]"] by (auto simp: good_def bodyIn_def)
  then have "good st'" using st(1) by (simp add: good_def eq(2) pos_def symbolsIn_def)
  moreover have "grows {} st st'" "steady st st'" "pos st' = pos st"
    by (simp_all add: grows_def steady_def eq(2) pos_def list_all2_refl)
  moreover have "blockIn i body st'" using st(2) by (auto simp: blockIn_def bodyIn_def eq slotIn_def nth_append)
  ultimately show "emitted p p st st' \<and> blockIn i body st'" by (blast intro: emitted_same)
qed

lemma block_caps:
  assumes "blockIn i body st" "limits M caps st"
  shows "i < length (blocks M)" "caps (blocks M ! i) = captureCount body"
  using assms growing_nth [of "blocks (out st)" "blocks M" i] growing_length [of "blocks (out st)" "blocks M"]
  by (auto simp: blockIn_def limits_def)

lemma emits_makeFn:
  "emits (blockIn i body) (p + captureCount body) (p + 1) (emitC MAKE_FN i) anyway"
proof (rule emitsI)
  fix st u st' assume st: "good st" "blockIn i body st" "emitC MAKE_FN i st = (Inr u, st')"
  obtain j where e: "emitAt MAKE_FN i st = (Inr j, st')" using st(3) by (auto simp: emitC_def thenC_Inr retC_def)
  note f = emitAt_frame [OF st(1) e]
  have "piece caps M (pos st) (k + (p + captureCount body), hs, ls) (pos st') (k + (p + 1), hs, ls)"
    if M: "limits M caps st'" "fits M (pos st) st'" "base k hs" for M caps k hs ls
  proof -
    note c = emitAt_code [OF e M(2)]
    note b = block_caps [OF st(2) limits_mono [OF f(2) M(1)]]
    have "instr_ok caps M (pos st) (k + (p + captureCount body)) hs"
      using c b M(3) by (auto simp: instr_ok_def Let_def popsOf_def base_def)
    moreover have "succs caps M (pos st) (int (k + (p + captureCount body))) = [(pos st + 1, int (k + (p + 1)))]"
      using c b by (simp add: succs_def flowOf_def Let_def)
    ultimately show ?thesis unfolding f(4) by (rule piece_instr) (use c(1) in \<open>simp_all add: handlersAfter_def\<close>)
  qed
  with f show "emitted (p + captureCount body) (p + 1) st st' \<and> True" by (simp add: emitted_def)
qed

definition capturesOf :: "(nat \<times> BytecodeModule) list \<Rightarrow> nat" where
  "capturesOf bs = sum_list (map (captureCount \<circ> snd) bs)"

lemma emits_makeFnMulti:
  "emits (\<lambda>st. \<forall>(i, body)\<in>set bs. blockIn i body st) (p + capturesOf bs) (p + 1)
     (emitConst MAKE_FN_MULTI (addArityGroup (map fst bs))) anyway"
proof (rule emitsI)
  fix st u st' assume st: "good st" "\<forall>(i, body)\<in>set bs. blockIn i body st"
    "emitConst MAKE_FN_MULTI (addArityGroup (map fst bs)) st = (Inr u, st')"
  then obtain g s1 j where a: "addC (addArityGroup (map fst bs)) st = (Inr g, s1)" and e: "emitAt MAKE_FN_MULTI g s1 = (Inr j, st')"
    by (auto simp: emitConst_def bindC_Inr emitC_def thenC_Inr retC_def)
  have eq: "g = length (arityGroups (out st))" "s1 = st\<lparr>out := (out st)\<lparr>arityGroups := arityGroups (out st) @ [map fst bs]\<rparr>\<rparr>"
    using a by (auto simp: addC_def addArityGroup_def Let_def)
  have 1: "emitted p p st s1" using emitsD [OF emits_addC [where A = always] st(1) _ a] by auto
  note e1 = emitted_good [OF 1] emitted_grows [OF 1] emitted_steady [OF 1]
  note f = emitAt_frame [OF e1(1) e]
  have p1: "pos s1 = pos st" by (simp add: eq(2) pos_def)
  have g: "grows {} st st'" using grows_trans [OF e1(2) f(2)] by simp
  have "piece caps M (pos st) (k + (p + capturesOf bs), hs, ls) (pos st') (k + (p + 1), hs, ls)"
    if M: "limits M caps st'" "fits M (pos st) st'" "base k hs" for M caps k hs ls
  proof -
    have "fits M (pos s1) st'" using M(2) p1 by simp
    note c = emitAt_code [OF e this, unfolded p1]
    have b: "i < length (blocks M)" "caps (blocks M ! i) = captureCount body" if "(i, body) \<in> set bs" for i body
      using block_caps [OF _ limits_mono [OF g M(1)]] st(2) that by blast+
    have gM: "g < length (arityGroups M)" "arityGroups M ! g = map fst bs"
      using limits_mono [OF f(2) M(1)] growing_nth [of "arityGroups (out s1)" "arityGroups M" g]
        growing_length [of "arityGroups (out s1)" "arityGroups M"] by (auto simp: limits_def eq)
    have "filter (\<lambda>b. b < length (blocks M)) (map fst bs) = map fst bs" using b(1) by (auto simp: filter_id_conv)
    then have n: "groupCaptures caps M g = capturesOf bs"
      using gM b(2) by (auto simp: groupCaptures_def capturesOf_def o_def intro!: arg_cong [of _ _ sum_list])
    have "\<forall>b\<in>set (map fst bs). b < length (blocks M)" using b(1) by auto
    then have ok: "instr_ok caps M (pos st) (k + (p + capturesOf bs)) hs"
      using c gM n M(3) by (auto simp: instr_ok_def Let_def popsOf_def base_def)
    have "succs caps M (pos st) (int (k + (p + capturesOf bs))) = [(pos st + 1, int (k + (p + 1)))]"
      using c n by (simp add: succs_def flowOf_def Let_def)
    from piece_instr [OF ok this] show ?thesis using c(1) p1 f(4) by (simp add: handlersAfter_def)
  qed
  then show "emitted (p + capturesOf bs) (p + 1) st st' \<and> True"
    using f(1,3) g steady_trans [OF e1(3)] by (simp add: emitted_def)
qed

section \<open>Clearing locals\<close>

text \<open>A read of a local that also clears it flows the same way.\<close>

definition sameFlow :: "BytecodeModule \<Rightarrow> BytecodeModule \<Rightarrow> bool" where
  "sameFlow M N \<longleftrightarrow>
     length (code N) = length (code M) \<and> pool N = pool M \<and> blocks N = blocks M \<and> arityGroups N = arityGroups M \<and>
     arity N = arity M \<and> localCount N = localCount M \<and> hasHandlers N = hasHandlers M \<and> captureSpecs N = captureSpecs M \<and>
     isVariadic N = isVariadic M \<and> kwKeys N = kwKeys M \<and> asSlot N = asSlot M \<and>
     (\<forall>i<length (code M). instrOperand (code N ! i) = instrOperand (code M ! i) \<and>
        (instrOp (code N ! i) = instrOp (code M ! i) \<or>
         instrOp (code M ! i) = Some PUSH_LOCAL \<and> instrOp (code N ! i) = Some PUSH_LOCAL_CLEAR))"

lemma sameFlow_refl: "sameFlow M M"
  by (simp add: sameFlow_def)

lemma sameFlow_instr:
  assumes "sameFlow M N" "pc < length (code M)"
  shows "instr_ok caps M pc d h \<Longrightarrow> instr_ok caps N pc d h" "succs caps N pc e = succs caps M pc e"
    "handlersAfter N pc d h = handlersAfter M pc d h"
    "instrOp (code N ! pc) = Some JUMP_BACK \<longleftrightarrow> instrOp (code M ! pc) = Some JUMP_BACK"
    "instrOp (code N ! pc) = Some TRY_BEGIN \<longleftrightarrow> instrOp (code M ! pc) = Some TRY_BEGIN"
proof -
  have f: "length (code N) = length (code M)" "pool N = pool M" "blocks N = blocks M" "arityGroups N = arityGroups M"
     "arity N = arity M" "localCount N = localCount M" "hasHandlers N = hasHandlers M"
    and o: "instrOperand (code N ! pc) = instrOperand (code M ! pc)"
    and c: "instrOp (code N ! pc) = instrOp (code M ! pc) \<or>
         instrOp (code M ! pc) = Some PUSH_LOCAL \<and> instrOp (code N ! pc) = Some PUSH_LOCAL_CLEAR"
    using assms by (auto simp: sameFlow_def)
  have word2: "instrOp (code N ! (pc + 1)) = Some NOP \<and> instrOperand (code N ! (pc + 1)) = instrOperand (code M ! (pc + 1))"
    if "pc + 1 < length (code M)" "instrOp (code M ! (pc + 1)) = Some NOP"
    using assms(1) that by (auto simp: sameFlow_def)
  have g: "groupCaptures caps N = groupCaptures caps M" using f by (simp add: groupCaptures_def fun_eq_iff)
  then have p: "popsOf caps N = popsOf caps M" using f by (simp add: popsOf_def fun_eq_iff)
  show "instr_ok caps N pc d h" if "instr_ok caps M pc d h"
    using c
  proof
    assume "instrOp (code N ! pc) = instrOp (code M ! pc)"
    with that f o p word2 show ?thesis by (auto simp: instr_ok_def Let_def split: option.splits)
  next
    assume "instrOp (code M ! pc) = Some PUSH_LOCAL \<and> instrOp (code N ! pc) = Some PUSH_LOCAL_CLEAR"
    with that f o show ?thesis by (simp add: instr_ok_def Let_def popsOf_def)
  qed
  have "flowOf caps N pc e = flowOf caps M pc e"
    using c
  proof
    assume "instrOp (code N ! pc) = instrOp (code M ! pc)"
    then show ?thesis by (simp only: flowOf_def f o g)
  next
    assume "instrOp (code M ! pc) = Some PUSH_LOCAL \<and> instrOp (code N ! pc) = Some PUSH_LOCAL_CLEAR"
    then show ?thesis by (simp add: flowOf_def Let_def)
  qed
  then show "succs caps N pc e = succs caps M pc e" by (simp add: succs_def)
  show "handlersAfter N pc d h = handlersAfter M pc d h" "instrOp (code N ! pc) = Some JUMP_BACK \<longleftrightarrow> instrOp (code M ! pc) = Some JUMP_BACK"
    "instrOp (code N ! pc) = Some TRY_BEGIN \<longleftrightarrow> instrOp (code M ! pc) = Some TRY_BEGIN"
    using c o by (auto simp: handlersAfter_def)
qed

lemma sameFlow_bodyOk:
  assumes "sameFlow M N" "bodyOk caps M"
  shows "bodyOk caps N"
proof -
  obtain D y where D: "entersAs D 0 (0, [], {})" "D (length (code M)) = y"
    "\<And>pc. pc < length (code M) \<Longrightarrow> okAt caps M D 0 (length (code M)) pc"
    "\<And>pc. pc \<le> length (code M) \<Longrightarrow> headsIn D {} 0 (length (code M)) pc"
    using assms(2) unfolding bodyOk_def piece_def by auto
  have l: "length (code N) = length (code M)" using assms(1) by (simp add: sameFlow_def)
  have "okAt caps N D 0 (length (code N)) pc" if "pc < length (code N)" for pc
  proof -
    have pc: "pc < length (code M)" using that l by simp
    note f = sameFlow_instr [OF assms(1) pc]
    have "okEdge N D pc j e = okEdge M D pc j e" for j e by (simp only: okEdge_def f(3,5))
    with D(3) [OF pc] f(1,2,4) l show ?thesis by (auto simp: okAt_def split: prod.splits)
  qed
  with D l show ?thesis unfolding bodyOk_def by (intro exI [of _ y] pieceI [where D = D]) auto
qed

lemma patchOp_sameFlow:
  assumes "sameFlow M N" "i < length (code M)" "instrOp (code M ! i) = Some PUSH_LOCAL"
  shows "sameFlow M (patchOp i PUSH_LOCAL_CLEAR N)"
proof -
  have "sameFlow M (N\<lparr>code := (code N)[i := w]\<rparr>)"
    if "instrOp w = Some PUSH_LOCAL_CLEAR" "instrOperand w = instrOperand (code N ! i)" for w
    using assms that by (auto simp: sameFlow_def nth_list_update)
  from this [OF patch_op_word] show ?thesis unfolding patchOp_def .
qed

lemma instructions_range:
  "(i, op, n) \<in> set (instructions k ws) \<Longrightarrow> k \<le> i \<and> i < k + length ws \<and> instrOp (ws ! (i - k)) = Some op"
proof (induction k ws arbitrary: i op n rule: instructions.induct)
  case (2 k w ws)
  have skip: ?case if "k + 1 \<le> i \<and> i < k + 1 + length ws \<and> instrOp (ws ! (i - (k + 1))) = Some op"
  proof -
    from that have "i = k + 1 + (i - (k + 1))" by simp
    then obtain j where "i = k + 1 + j" by blast
    with that show ?thesis by simp
  qed
  show ?case
  proof (cases "instrOp w")
    case None
    with 2(4) have "(i, op, n) \<in> set (instructions (k + 1) ws)" by simp
    from "2.IH"(1) [OF None this] skip show ?thesis by simp
  next
    case (Some o')
    from 2(4) Some consider "i = k" "op = o'" | "o' = CALL_MEMBER" "(i, op, n) \<in> set (instructions (k + 2) (drop 1 ws))"
      | "o' \<noteq> CALL_MEMBER" "(i, op, n) \<in> set (instructions (k + 1) ws)" by (auto split: if_splits)
    then show ?thesis
    proof cases
      case 1
      with Some show ?thesis by simp
    next
      case 2
      from "2.IH"(2) [OF Some 2] have a: "k + 2 \<le> i" "i < k + 2 + length (drop 1 ws)" "instrOp (drop 1 ws ! (i - (k + 2))) = Some op" by auto
      then have "i = k + 2 + (i - (k + 2))" by simp
      then obtain j where j: "i = k + 2 + j" by blast
      with a have "j < length ws - 1" "instrOp (ws ! (j + 1)) = Some op" by simp_all
      with j show ?thesis by simp
    next
      case 3
      from "2.IH"(3) [OF Some 3] skip show ?thesis by simp
    qed
  qed
qed simp

lemma clearLastReads_sameFlow: "sameFlow m (clearLastReads fixedArity paramEnd m)"
proof -
  have ok: "i < length (code m) \<and> instrOp (code m ! i) = Some PUSH_LOCAL"
    if "i \<in> set (List.map_filter (clearable m fixedArity paramEnd) ss)" for i ss
  proof -
    from that obtain s where "clearable m fixedArity paramEnd s = Some i" by (auto simp: map_filter_def)
    then have "i \<in> set (placesOf PUSH_LOCAL s m)"
      by (auto simp: clearable_def split: list.splits if_splits)
    then obtain n where "(i, PUSH_LOCAL, n) \<in> set (instructions 0 (code m))" by (auto simp: placesOf_def)
    from instructions_range [OF this] show ?thesis by simp
  qed
  have "sameFlow m (fold (\<lambda>i. patchOp i PUSH_LOCAL_CLEAR) is N)"
    if "sameFlow m N" "\<forall>i\<in>set is. i < length (code m) \<and> instrOp (code m ! i) = Some PUSH_LOCAL" for "is" N
    using that by (induction "is" arbitrary: N) (auto intro: patchOp_sameFlow)
  with ok sameFlow_refl show ?thesis unfolding clearLastReads_def by blast
qed

end
