(* ===== verification/CompileSafe.thy ===== *)
theory CompileSafe
  imports Blocks
begin

text \<open>
  What every part of the compiler emits: a piece of code that leaves one value more, whatever the form is.
  \<open>okc cf\<close> says this of the compiler of nested forms; each function that uses it keeps it.
\<close>

section \<open>Steps without a condition\<close>

abbreviation runs :: "nat \<Rightarrow> nat \<Rightarrow> ('w, 'a) cm \<Rightarrow> bool" where
  "runs p q m \<equiv> emits always p q m anyway"

definition okc :: "'w compiler \<Rightarrow> bool" where
  "okc cf \<longleftrightarrow> (\<forall>f. runs 0 1 (cf f))"

lemma runsD: "runs p q m \<Longrightarrow> good st \<Longrightarrow> m st = (Inr x, st') \<Longrightarrow> emitted p q st st'"
  unfolding emits_def by blast

lemma runsI: "(\<And>st x st'. good st \<Longrightarrow> m st = (Inr x, st') \<Longrightarrow> emitted p q st st') \<Longrightarrow> runs p q m"
  unfolding emits_def by blast

lemma runs_bind: "runs p q m \<Longrightarrow> (\<And>a. runs q r (f a)) \<Longrightarrow> runs p r (bindC m f)"
  by (rule emits_bind) (auto intro: emits_any)

lemma runs_then: "runs p q m \<Longrightarrow> runs q r n \<Longrightarrow> runs p r (thenC m n)"
  unfolding thenC_def by (rule runs_bind)

lemma runs_shift: "runs p q m \<Longrightarrow> runs (p + r) (q + r) m"
  by (rule emits_shift)

lemma runs_cf: "okc cf \<Longrightarrow> runs p (p + 1) (cf f)"
  using runs_shift [of 0 1 "cf f" p] by (simp add: okc_def add.commute)

lemma emits_cf: "okc cf \<Longrightarrow> emits A p (p + 1) (cf f) anyway"
  using runs_cf emits_any by blast

lemma emits_keep: "runs p q m \<Longrightarrow> stable A \<Longrightarrow> emits A p q m (\<lambda>_. A)"
  by (drule emits_frame, assumption) (auto elim: emits_weaken)

lemma runs_quiet: "silent m \<Longrightarrow> runs p p m"
  by (rule emits_quiet)

lemma runs_error: "runs p q (compileError msg)" "runs p q (throwC e)"
  by (rule emits_throw)+

lemma runs_ret: "runs p p (retC a)"
  by (rule runs_quiet [OF silent_basic(1)])

lemma emits_retI: "(\<And>st. A st \<Longrightarrow> R a st) \<Longrightarrow> emits A p p (retC a) R"
  by (rule emits_weaken [OF emits_ret]) auto

definition slotOps :: "Op set" where
  "slotOps = {PUSH_LOCAL, STORE_LOCAL, STORE_CAUGHT, RETHROW, EXC_MATCH_TYPE, RESOLVE_CLASS, GET_MEMBER}"

lemma runs_emitC:
  assumes "netOf op n = Some (i, j)" "i \<le> p" "op \<notin> slotOps" "q = p - i + j"
  shows "runs p q (emitC op n)"
  using emits_emitC [OF assms(1,2) _ stable_always assms(4)] assms(3) by (auto simp: operandIn_def slotOps_def)

lemma runs_slot:
  assumes "netOf op n = Some (i, j)" "i \<le> p" "op \<in> {PUSH_LOCAL, STORE_LOCAL, STORE_CAUGHT}" "q = p - i + j"
  shows "emits (slotIn n) p q (emitC op n) (\<lambda>_. slotIn n)"
  by (rule emits_emitC [OF assms(1,2) _ stable_slotIn assms(4)]) (use assms(3) in \<open>auto simp: operandIn_def\<close>)

lemmas net_simps = netOf_def opSets slotOps_def

lemma runs_push: "op \<in> {PUSH_NIL, PUSH_TRUE, PUSH_FALSE, DUP} \<Longrightarrow> runs p (p + 1) (emitC op n)"
  by (rule runs_emitC) (auto simp: net_simps)

lemma runs_pop: "runs (p + 1) p (emitC POP n)"
  by (rule runs_emitC) (auto simp: net_simps)

lemma runs_binary: "op \<in> binaryOps \<Longrightarrow> runs (p + 2) (p + 1) (emitC op n)"
  by (rule runs_emitC [where i = 2 and j = 1]) (auto simp: net_simps)

lemma runs_call: "op \<in> {CALL, CALL_KW} \<Longrightarrow> runs (p + (n + 1)) (p + 1) (emitC op n)"
  by (rule runs_emitC [where i = "n + 1" and j = 1]) (auto simp: net_simps)

lemma runs_const: "adder add \<Longrightarrow> op \<in> {PUSH_CONST, PUSH_VAR} \<Longrightarrow> runs p (p + 1) (emitConst op add)"
  by (rule emits_const [where i = 0 and j = 1]) (auto simp: net_simps)

lemma runs_symbols:
  "runs p p (emitConst STORE_GLOBAL (symC E s))" "runs (p + 1) (p + 1) (emitConst GET_MEMBER (symC E s))"
  "runs p (p + 1) (emitConst RESOLVE_CLASS (symC E s))" "runs (p + 2) (p + 1) (emitConst EXC_MATCH_TYPE (symC E s))"
  by (rule emits_const [where i = 0 and j = 0] emits_const [where i = 1 and j = 1] emits_const [where i = 0 and j = 1]
      emits_const [where i = 2 and j = 1]; auto simp: net_simps)+

lemma runs_resolve:
  assumes "\<And>s. emits (slotIn s) p q (f (Some s)) anyway" "runs p q (f None)"
  shows "runs p q (bindC (resolveLocal name) f)"
proof (rule emits_bind [OF emits_resolve])
  fix r show "emits (\<lambda>st. \<forall>s. r = Some s \<longrightarrow> slotIn s st) p q (f r) anyway"
    by (cases r) (use assms in \<open>auto intro: emits_weaken\<close>)
qed

lemma emits_pushLocal: "emits (slotIn s) p (p + 1) (emitC PUSH_LOCAL s) anyway"
  by (rule emits_weaken [OF runs_slot [where i = 0 and j = 1]]) (auto simp: net_simps)

lemma emits_after: "emits A p q m anyway \<Longrightarrow> runs q r n \<Longrightarrow> emits A p r (thenC m n) anyway"
  unfolding thenC_def by (rule emits_bind) auto

lemma runs_storeGlobal: "runs p p (emitStoreGlobal E key)"
  unfolding emitStoreGlobal_def by (auto intro: runs_then runs_symbols(1) runs_ret)

section \<open>Forms in sequence\<close>

lemma runs_each: "okc cf \<Longrightarrow> runs p (p + length fs) (eachC cf fs)"
proof (induction fs arbitrary: p)
  case (Cons f fs)
  from runs_then [OF runs_cf [OF Cons.prems, of p f] Cons.IH [OF Cons.prems, of "p + 1"]] show ?case by simp
qed (simp add: runs_ret)

lemma runs_seq: "okc cf \<Longrightarrow> runs p (p + 1) (compileSeq cf fs)"
proof (induction cf fs rule: compileSeq.induct)
  case (1 cf)
  show ?case using runs_push [of PUSH_NIL p 0] by simp
next
  case (2 cf f)
  show ?case using runs_cf [OF 2, of p f] by simp
next
  case (3 cf f g fs)
  show ?case unfolding compileSeq.simps(3)
    by (rule runs_then [OF runs_cf [OF 3(2)] runs_then [OF runs_pop 3(1) [OF 3(2)]]])
qed

lemma runs_drops: "okc cf \<Longrightarrow> runs p p (eachC (\<lambda>f. thenC (cf f) (emitC POP 0)) fs)"
  by (induction fs) (auto intro!: runs_then runs_cf runs_pop runs_ret)

lemma runs_fold: "okc cf \<Longrightarrow> op \<in> binaryOps \<Longrightarrow> runs (p + 1) (p + 1) (foldOperands cf op n fs)"
proof (induction fs)
  case (Cons f fs)
  have "runs (p + 1) (p + 2) (cf f)" using runs_cf [OF Cons.prems(1), of "p + 1" f] by simp
  from runs_then [OF this runs_then [OF runs_binary [OF Cons.prems(2)] Cons.IH [OF Cons.prems]]] show ?case by simp
qed (simp add: runs_ret)

section \<open>Patterns\<close>

lemma silent_items: "(\<And>f v. silent (dst f v)) \<Longrightarrow> silent (destructItems dst gvec gseq seen i bs)"
proof (induction dst gvec gseq seen i bs rule: destructItems.induct)
  case (2 dst gvec gseq seen i b bs)
  note IH = 2(1) [OF _ _ _ _ 2(4)] 2(2) [OF _ _ _ 2(4)] 2(3) [OF _ _ _ 2(4)]
  show ?case
  proof (cases "b = amp \<or> b = asKw")
    case True
    then show ?thesis using IH(1) 2(4) by (cases bs) (auto intro!: silent_intros)
  next
    case False
    then show ?thesis using IH(2,3) 2(4) by (cases gseq) (auto intro!: silent_intros)
  qed
qed (auto intro: silent_intros)

lemma silent_entries: "(\<And>f v. silent (dst f v)) \<Longrightarrow> silent (destructEntries E dst gmap ds es)"
  by (induction E dst gmap ds es rule: destructEntries.induct) (auto intro!: silent_intros)

lemma silent_destructure: "silent (destructure E d pat v)"
proof (induction d arbitrary: pat v)
  case (Suc d)
  then show ?case
    by (cases pat) (auto simp: Let_def intro!: silent_intros silent_items silent_entries)
qed (auto intro: silent_intros)

lemma silent_bindings: "silent (destructureBindings E d bs)"
  unfolding destructureBindings_def Let_def
  by (auto intro!: silent_intros silent_destructure split: prod.splits)

lemma silent_params: "silent (rewriteParams E after ps)"
  by (induction E after ps rule: rewriteParams.induct) (auto intro!: silent_intros split: prod.splits)

lemma silent_loopParts: "silent (loopParts bs)"
  by (induction bs rule: loopParts.induct) (auto intro!: silent_intros split: prod.splits)

lemma silent_items_of: "silent (bindingItems who lst)" "silent (paramList msg f)"
  by (auto simp: bindingItems_def paramList_def intro!: silent_intros)

end
