(* ===== verification/ArityOk.thy ===== *)
theory ArityOk
  imports CompileSafe
begin

text \<open>
  One arity of a function: its parameters get slots, the defaults and the body are pieces of the code of its
  module, and what it captures are slots of the function around it.
\<close>

section \<open>Parameters\<close>

definition roomFor :: "nat \<Rightarrow> 'w comp \<Rightarrow> bool" where
  "roomFor n st \<longleftrightarrow> (\<exists>sc scs. scopes st = sc # scs \<and> n \<le> nextSlot sc)"

lemma stable_roomFor [intro]: "stable (roomFor n)"
  by (rule stableI) (fastforce simp: roomFor_def list_all2_Cons1 dest: growsD(7))

lemma roomFor_inside: "roomFor n st \<Longrightarrow> inside st"
  by (auto simp: roomFor_def inside_def)

lemma roomFor_slot: "roomFor n st \<Longrightarrow> s < n \<Longrightarrow> slotIn s st"
  by (auto simp: roomFor_def slotIn_def)

lemma emits_freshRoom: "emits (roomFor n) p p freshSlot (\<lambda>s st. slotIn s st \<and> roomFor (n + 1) st)"
proof (rule emitsI)
  fix st s st' assume st: "good st" "roomFor n st" "freshSlot st = (Inr s, st')"
  have "roomFor (n + 1) st'"
    using st(2,3) unfolding freshSlot_def topScope_def bindC_def getC_def thenC_def retC_def inScope_def modifyC_def
    by (auto simp: roomFor_def)
  then show "emitted p p st st' \<and> slotIn s st' \<and> roomFor (n + 1) st'"
    using emitsD [OF emits_freshSlot st(1) roomFor_inside [OF st(2)] st(3)] by blast
qed

lemma emits_setIn:
  assumes "stable A"
  shows "emits (\<lambda>st. slotIn s st \<and> A st) p p (inScope (setSlot name s)) (\<lambda>_ st. slotIn s st \<and> A st)"
proof -
  have "stable (\<lambda>st. slotIn s st \<and> A st)" using assms by blast
  from emits_frame [OF emits_setSlot this] show ?thesis by (rule emits_weaken) auto
qed

lemma emits_bindFixed: "emits (roomFor n) p p (bindFixed f) (\<lambda>_. roomFor (n + 1))"
proof -
  have "emits (roomFor n) p p (bindC freshSlot (\<lambda>slot. inScope (setSlot (nameOf f) slot))) (\<lambda>_. roomFor (n + 1))"
    by (rule emits_bind [OF emits_freshRoom]) (rule emits_weaken [OF emits_setIn [OF stable_roomFor [of "n + 1"]]], auto)
  then show ?thesis unfolding bindFixed_def by (cases "isNameForm f"; cases "isQualifiedName (nameOf f)") (simp_all only: simp_thms if_True if_False emits_throw)
qed

lemma emits_fixed: "emits (roomFor n) p p (eachC bindFixed fs) (\<lambda>_. roomFor (n + length fs))"
proof (induction fs arbitrary: n)
  case (Cons f fs)
  show ?case using emits_then [OF emits_bindFixed [of n p f] Cons [of "n + 1"]] by simp
qed (auto intro: emits_retI)

text \<open>A module names a slot that exists.\<close>

lemma emits_declare:
  assumes "\<And>m. g m = m\<lparr>kwKeys := k m, asSlot := a m\<rparr>" "\<And>m. declared (g m) \<subseteq> insert slot (declared m)"
  shows "emits (slotIn slot) p p (modifyC (\<lambda>st. st\<lparr>out := g (out st)\<rparr>)) (\<lambda>_. slotIn slot)"
proof (rule emitsI)
  fix st x and st' :: "'w comp" assume st: "good st" "slotIn slot st" "modifyC (\<lambda>st. st\<lparr>out := g (out st)\<rparr>) st = (Inr x, st')"
  then have eq: "st' = st\<lparr>out := g (out st)\<rparr>" by (simp add: modifyC_def)
  have slot: "slotIn slot st'" using st(2) by (simp add: eq slotIn_def)
  then have "declares st st'" using assms(2) [of "out st"] assms(1) by (auto simp: declares_def eq)
  then have "grows {} st st'" by (simp add: grows_def eq assms(1) pos_def list_all2_refl)
  moreover have "good st'" using st(1) by (simp add: good_def eq assms(1) pos_def symbolsIn_def)
  moreover have "steady st st'" "pos st' = pos st" by (simp_all add: steady_def eq pos_def assms(1))
  ultimately show "emitted p p st st' \<and> slotIn slot st'" using slot emitted_same by blast
qed

lemma emits_bindKw: "emits inside p p (bindKw E kw) (\<lambda>k. slotIn (fst k))"
proof (cases kw)
  case (Pair name dflt)
  have 1: "emits (slotIn slot) p p (inScope (setSlot name slot)) (\<lambda>_. slotIn slot)" for slot
    using emits_setIn [OF stable_always] by (rule emits_weaken) auto
  have 2: "emits (slotIn slot) p p (modifyC (\<lambda>st. st\<lparr>out := addKwKey name slot v (out st)\<rparr>)) (\<lambda>_. slotIn slot)" for slot v
    by (rule emits_declare [where k = "\<lambda>m. kwKeys m @ [\<lparr>kname = name, klocalSlot = slot, kwObj = v\<rparr>]" and a = asSlot])
      (auto simp: addKwKey_def declared_def)
  show ?thesis unfolding bindKw_def Pair prod.case
    by (rule emits_bind [OF emits_freshSlot], rule emits_then [OF 1], rule emits_then [OF 2], rule emits_weaken [OF emits_ret]) auto
qed

lemma emits_mapC:
  assumes "\<And>x. emits A p p (f x) P" "\<And>y. stable (P y)" "stable A"
  shows "emits A p p (mapC f xs) (\<lambda>ys st. \<forall>y\<in>set ys. P y st)"
proof (induction xs)
  case Nil
  show ?case by (auto intro: emits_retI)
next
  case (Cons x xs)
  have 1: "emits A p p (f x) (\<lambda>y st. P y st \<and> A st)"
    using emits_frame [OF assms(1,3)] by (rule emits_weaken) auto
  have 2: "emits (\<lambda>st. P y st \<and> A st) p p (mapC f xs) (\<lambda>ys st. (\<forall>y\<in>set ys. P y st) \<and> P y st)" for y
    using emits_frame [OF Cons.IH assms(2) [of y]] by (rule emits_weaken) auto
  show ?case unfolding mapC.simps
    by (rule emits_bind [OF 1], rule emits_bind [OF 2], rule emits_weaken [OF emits_ret]) auto
qed

lemma stable_kw: "stable (\<lambda>st. \<forall>k\<in>set kws. slotIn (fst k) st)"
  using stable_slotIn unfolding stable_def by blast

lemma emits_bindRest: "emits inside p p (bindRest E rspec) (\<lambda>kws st. \<forall>k\<in>set kws. slotIn (fst k) st)"
proof (cases rspec)
  case NoRest
  then show ?thesis by (auto simp: bindRest_def intro: emits_retI)
next
  case (RestList name)
  have "emits inside p p (bindC freshSlot (\<lambda>slot. thenC (inScope (setSlot name slot)) (retC []))) (\<lambda>kws st. \<forall>k\<in>set kws. slotIn (fst k) st)"
    by (rule emits_bind [OF emits_freshSlot], rule emits_then [OF emits_setSlot], rule emits_weaken [OF emits_ret]) auto
  with RestList show ?thesis by (simp add: bindRest_def)
next
  case (RestKeys decls asn)
  let ?kw = "\<lambda>kws st. \<forall>k\<in>set kws. slotIn (fst k) st"
  have 1: "emits inside p p (mapC (bindKw E) decls) (\<lambda>kws st. ?kw kws st \<and> inside st)"
    using emits_frame [OF emits_mapC [OF emits_bindKw] stable_inside] by (rule emits_weaken) auto
  have s1: "emits (slotIn slot) p p (inScope (setSlot asn slot)) (\<lambda>_. slotIn slot)" for slot
    using emits_setIn [OF stable_always] by (rule emits_weaken) auto
  have s2: "emits (slotIn slot) p p (modifyC (\<lambda>st. st\<lparr>out := (out st)\<lparr>asSlot := Some slot\<rparr>\<rparr>)) anyway" for slot
    by (rule emits_weaken [OF emits_declare [where k = kwKeys and a = "\<lambda>_. Some slot"]]) (auto simp: declared_def)
  have "emits inside p p (bindC freshSlot (\<lambda>slot. thenC (inScope (setSlot asn slot))
                    (modifyC (\<lambda>st. st\<lparr>out := (out st)\<lparr>asSlot := Some slot\<rparr>\<rparr>)))) anyway"
    by (rule emits_bind [OF emits_freshSlot], rule emits_then [OF s1 s2])
  then have "emits inside p p (if asn = [] then retC ()
             else bindC freshSlot (\<lambda>slot. thenC (inScope (setSlot asn slot))
                    (modifyC (\<lambda>st. st\<lparr>out := (out st)\<lparr>asSlot := Some slot\<rparr>\<rparr>)))) anyway"
    using emits_any [OF runs_ret] by auto
  from emits_frame [OF this stable_kw]
  have 2: "emits (\<lambda>st. ?kw kws st \<and> inside st) p p (if asn = [] then retC ()
             else bindC freshSlot (\<lambda>slot. thenC (inScope (setSlot asn slot))
                    (modifyC (\<lambda>st. st\<lparr>out := (out st)\<lparr>asSlot := Some slot\<rparr>\<rparr>)))) (\<lambda>_. ?kw kws)" for kws :: "(nat \<times> form option) list"
    by (rule emits_weaken) auto
  show ?thesis unfolding RestKeys bindRest_def restSpec.case
    by (rule emits_bind [OF 1], rule emits_then [OF 2], rule emits_weaken [OF emits_ret]) auto
qed

lemma emits_bindRest_list: "emits (roomFor n) p p (bindRest E (RestList name)) (\<lambda>_. roomFor (n + 1))"
proof -
  have 1: "emits (\<lambda>st. slotIn s st \<and> roomFor (n + 1) st) p p (inScope (setSlot name s)) (\<lambda>_. roomFor (n + 1))" for s
    by (rule emits_weaken [OF emits_setIn [OF stable_roomFor [of "n + 1"]]]) auto
  show ?thesis unfolding bindRest_def restSpec.case
    by (rule emits_bind [OF emits_freshRoom], rule emits_then [OF 1], rule emits_weaken [OF emits_ret]) auto
qed

section \<open>Defaults\<close>

lemma emits_default:
  assumes "okc cf"
  shows "emits (slotIn (fst kw)) 0 0 (compileDefault cf kw) anyway"
proof (cases "snd kw")
  case None
  then show ?thesis by (cases kw) (simp add: compileDefault_def emits_any [OF runs_ret])
next
  case (Some f)
  obtain slot where kw: "kw = (slot, Some f)" using Some by (cases kw) auto
  show ?thesis
  proof (rule emitsI)
    fix s0 u s8 assume st: "good s0" "slotIn (fst kw) s0" "compileDefault cf kw s0 = (Inr u, s8)"
    from st(3) obtain a1 s1 a2 s2 a3 s3 j s4 a5 s5 a6 s6 where
      steps: "emitC PUSH_LOCAL slot s0 = (Inr a1, s1)" "emitC PUSH_NIL 0 s1 = (Inr a2, s2)" "emitC EQ 0 s2 = (Inr a3, s3)"
        "emitAt JUMP_IF_FALSE 0 s3 = (Inr j, s4)" "cf f s4 = (Inr a5, s5)" "emitC STORE_LOCAL slot s5 = (Inr a6, s6)"
        "patchHere j s6 = (Inr u, s8)"
      unfolding compileDefault_def kw prod.case option.case thenC_Inr bindC_Inr by blast
    have slot: "slotIn slot s0" using st(2) kw by simp
    have e1: "emitted 0 1 s0 s1" using emitsD [OF emits_pushLocal [of slot 0] st(1) slot steps(1)] by simp
    have e2: "emitted 1 2 s1 s2" using runsD [OF runs_push [of PUSH_NIL 1] emitted_good [OF e1] steps(2)] by (simp add: numeral_2_eq_2)
    have e3: "emitted 2 1 s2 s3" using runsD [OF runs_binary [of EQ 0] emitted_good [OF e2] steps(3)] by (simp add: binaryOps_def numeral_2_eq_2)
    have e03: "emitted 0 1 s0 s3" by (rule emitted_trans [OF emitted_trans [OF e1 e2] e3])
    have l4: "leads 1 0 0 [j] s3 s4" using leads_guard [OF emitted_good [OF e3] steps(4), of 0] by simp
    note g4 = leads_frame [OF l4]
    have e5: "emitted 0 1 s4 s5" using runsD [OF runs_cf [OF assms, of 0] g4(1) steps(5)] by simp
    have "slotIn slot s5"
      using slotIn_grows [OF emitted_grows [OF e5]] slotIn_grows [OF g4(2)] slotIn_grows [OF emitted_grows [OF e03]] slot by blast
    from emitsD [OF runs_slot [where p = 1 and q = 0 and i = 1 and j = 0] emitted_good [OF e5] this steps(6)]
    have e6: "emitted 1 0 s5 s6" by (simp add: net_simps)
    have "leads 0 0 0 [j] s0 s6" by (rule leads_emit [OF emit_leads [OF e03 l4] emitted_trans [OF e5 e6]])
    from leads_close1 [OF this steps(7)] show "emitted 0 0 s0 s8 \<and> True" by simp
  qed
qed

lemma emits_defaults:
  assumes "okc cf"
  shows "emits (\<lambda>st. \<forall>k\<in>set kws. slotIn (fst k) st) 0 0 (eachC (compileDefault cf) kws) anyway"
proof (induction kws)
  case Nil
  show ?case using emits_any [OF runs_ret] by simp
next
  case (Cons k kws)
  have 1: "emits (\<lambda>st. \<forall>k\<in>set (k # kws). slotIn (fst k) st) 0 0 (compileDefault cf k) (\<lambda>_ st. \<forall>k\<in>set kws. slotIn (fst k) st)"
    using emits_frame [OF emits_default [OF assms, of k] stable_kw [of kws]] by (rule emits_weaken) auto
  show ?case unfolding eachC.simps by (rule emits_then [OF 1 Cons.IH])
qed

section \<open>The body\<close>

lemma finishModule_eq:
  "finishModule sc m = m\<lparr>localCount := nextSlot sc - scopeArity sc,
     captureSpecs := captureSpecs m @ map (\<lambda>(p, l). \<lparr>parentSlot = p, clocalSlot = l\<rparr>) (scopeCaptures sc)\<rparr>"
proof -
  have "fold (\<lambda>(p, l). addCapture p l) cs N = N\<lparr>captureSpecs := captureSpecs N @ map (\<lambda>(p, l). \<lparr>parentSlot = p, clocalSlot = l\<rparr>) cs\<rparr>"
    for cs and N :: BytecodeModule
    by (induction cs arbitrary: N) (auto simp: addCapture_def)
  then show ?thesis by (simp add: finishModule_def)
qed

text \<open>The module around the code of a body: the defaults, then the forms with the target of \<^verbatim>\<open>recur\<close>.\<close>

lemma body_ok:
  assumes "pos t0 = 0" "scopes t0 = sc0 # scs0" "recurStack sc0 = []" "tryDepth sc0 = 0" "emitted 0 0 t0 t3"
    "pushTarget \<lparr>bodyStart = pos t3, recurSlots = slots, targetDepth = 0\<rparr> t3 = (Inr u, t4)" "emitted 0 1 t4 t5" "emitted 1 1 t5 t6"
    "limits M caps t6" "code M = code (out t6)"
  shows "bodyOk caps M"
proof -
  let ?tgt = "\<lparr>bodyStart = pos t3, recurSlots = slots, targetDepth = 0\<rparr>"
  note e3 = emitted_good [OF assms(5)] emitted_grows [OF assms(5)] emitted_steady [OF assms(5)]
  obtain sc3 scs3 where sc3: "scopes t3 = sc3 # scs3" "recurStack sc3 = []" "tryDepth sc3 = 0"
    using e3(3) assms(2-4) by (cases "scopes t3") (auto simp: steady_def)
  have t4: "t4 = t3\<lparr>scopes := sc3\<lparr>recurStack := [?tgt]\<rparr> # scs3\<rparr>"
    using assms(6) sc3 by (simp add: pushTarget_def inScope_def modifyC_def)
  have e46: "emitted 0 1 t4 t6" by (rule emitted_trans [OF assms(7,8)])
  have g34: "grows {} t3 t4" by (simp add: t4 sc3(1) grows_def pos_def list_all2_refl)
  have g36: "grows {} t3 t6" using grows_trans [OF g34 emitted_grows [OF e46]] by simp
  have P: "patched M 0 [] 0 t6" using assms(10) by (simp add: patched_Nil fits_def pos_def)
  have "piece caps M (pos t0) (0 + 0, [], {}) (pos t3) (0 + 0, [], {})"
    by (rule emitted_between [OF assms(5) g36 P assms(9)]) (use assms(2,3) in \<open>auto simp: targets_def\<close>)
  then have 1: "piece caps M 0 (0, [], {}) (pos t4) (0, [], {})" using assms(1) by (simp add: t4 pos_def)
  have "targets t4 0 [] {(pos t4, 0, [])}" by (simp add: targets_def t4 pos_def)
  then have 2: "piece caps M (pos t4) (0 + 0, [], {(pos t4, 0, [])}) (pos t6) (0 + 1, [], {(pos t4, 0, [])})"
    by (intro emitted_between [OF e46 grows_refl [of "{}"] P assms(9)]) auto
  then have "piece caps M (pos t4) (0, [], {}) (pos t6) (1, [], {})"
    using piece_loop piece_less [OF 2] by simp
  from piece_append [OF 1 this] show ?thesis using assms(10) by (auto simp: bodyOk_def pos_def)
qed

lemma emits_return: "emits A p q (emitC RETURN n) anyway"
  by (rule emits_weaken [OF emits_end [where A = always]]) auto

lemma topScope_Inr: "topScope f st = (Inr x, st') \<longleftrightarrow> x = f (hd (scopes st)) \<and> st' = st"
  and getC_Inr: "getC g st = (Inr y, st') \<longleftrightarrow> y = g st \<and> st' = st"
  and modifyC_Inr: "modifyC h st = (Inr z, st') \<longleftrightarrow> st' = h st"
  and retC_Inr: "retC c st = (Inr d, st') \<longleftrightarrow> d = c \<and> st' = st"
  and posC_Inr: "posC st = (Inr n, st') \<longleftrightarrow> n = pos st \<and> st' = st"
  by (auto simp: topScope_def getC_def modifyC_def retC_def posC_def pos_def)

lemma good_enter:
  assumes "good st"
  shows "good (st\<lparr>out := bodyModule n rspec, scopes := newScope\<lparr>scopeArity := n\<rparr> # scopes st\<rparr>)"
  using assms by (auto simp: good_def scopeOk_def newScope_def slotOf_def capsOk_Cons symbolsIn_def bodyModule_def emptyModule_def
      split: list.splits)

lemma emits_arityBody:
  assumes "okc cf"
  shows "emits always p p (arityBody E cf fixed rspec body) bodyIn"
proof (rule emitsI)
  fix s2 m s9 assume st: "good s2" "arityBody E cf fixed rspec body s2 = (Inr m, s9)"
  define t0 where "t0 = s2\<lparr>out := bodyModule (length fixed) rspec, scopes := newScope\<lparr>scopeArity := length fixed\<rparr> # scopes s2\<rparr>"
  from st(2) obtain a1 t1 kws t2 a3 t3 a4 t4 a5 t5 a6 t6 where
    t1: "eachC bindFixed fixed t0 = (Inr a1, t1)"
    and t2: "bindRest E rspec t1 = (Inr kws, t2)" and t3: "eachC (compileDefault cf) kws t2 = (Inr a3, t3)"
    and t4: "pushTarget \<lparr>bodyStart = pos t3, recurSlots = [0..<length fixed], targetDepth = 0\<rparr> t3 = (Inr a4, t4)"
    and t5: "compileSeq cf body t4 = (Inr a5, t5)" and t6: "emitC RETURN 0 t5 = (Inr a6, t6)"
    and s9: "s9 = t6\<lparr>out := out s2, scopes := tl (scopes t6)\<rparr>"
    and m: "m = clearLastReads (length fixed) (nextSlot (hd (scopes t2))) (finishModule (hd (scopes t6)) (out t6))"
    unfolding arityBody_def bindC_Inr thenC_Inr getC_Inr modifyC_Inr topScope_Inr retC_Inr posC_Inr t0_def id_def by blast
  have sc0: "scopes t0 = newScope\<lparr>scopeArity := length fixed\<rparr> # scopes s2" "pos t0 = 0" "made t0 = made s2" "arity (out t0) = length fixed"
    by (simp_all add: t0_def pos_def bodyModule_def emptyModule_def)
  have g0: "good t0" unfolding t0_def by (rule good_enter [OF st(1)])
  have "roomFor 0 t0" by (simp add: roomFor_def sc0)
  from emitsD [OF emits_fixed g0 this t1] have e1: "emitted 0 0 t0 t1" and r1: "roomFor (length fixed) t1" by auto
  from emitsD [OF emits_bindRest emitted_good [OF e1] roomFor_inside [OF r1] t2]
  have e2: "emitted 0 0 t1 t2" and k2: "\<forall>k\<in>set kws. slotIn (fst k) t2" by auto
  let ?n = "length fixed + (if isVariadic (out t0) then 1 else 0)"
  have r2: "roomFor ?n t2"
  proof (cases "isVariadic (out t0)")
    case True
    then obtain name where "rspec = RestList name" by (cases rspec) (auto simp: t0_def bodyModule_def emptyModule_def)
    with emitsD [OF emits_bindRest_list emitted_good [OF e1] r1] t2 True show ?thesis by force
  qed (use stable_roomFor r1 emitted_grows [OF e2] in \<open>auto simp: stable_def\<close>)
  from emitsD [OF emits_defaults [OF assms] emitted_good [OF e2] k2 t3] have e3: "emitted 0 0 t2 t3" by simp
  have e13: "emitted 0 0 t1 t3" by (rule emitted_trans [OF e2 e3])
  have e03: "emitted 0 0 t0 t3" by (rule emitted_trans [OF e1 e13])
  have "roomFor ?n t3"
    using stable_roomFor r2 emitted_grows [OF e3] unfolding stable_def by blast
  then obtain sc3 scs3 where sc3: "scopes t3 = sc3 # scs3" "?n \<le> nextSlot sc3" by (auto simp: roomFor_def)
  have sh3: "recurStack sc3 = []" "tryDepth sc3 = 0" "scopeArity sc3 = length fixed" "sameShape (scopes s2) scs3"
    using emitted_steady [OF e03] sc0 sc3 by (auto simp: steady_def newScope_def)
  have t4': "t4 = t3\<lparr>scopes := sc3\<lparr>recurStack := [\<lparr>bodyStart = pos t3, recurSlots = [0..<length fixed], targetDepth = 0\<rparr>]\<rparr> # scs3\<rparr>"
    using t4 sc3 sh3 by (simp add: pushTarget_def inScope_def modifyC_def)
  have g4: "good t4"
  proof -
    have "capsOk (sc3 # scs3)" using emitted_good [OF e03] sc3(1) by (simp add: good_def)
    then have "capsOk (sc3\<lparr>recurStack := [\<lparr>bodyStart = pos t3, recurSlots = [0..<length fixed], targetDepth = 0\<rparr>]\<rparr> # scs3)"
      by (cases scs3) (simp_all add: capsOk_Cons)
    then show ?thesis using emitted_good [OF e03] sc3 unfolding t4' good_def
      by (auto simp: scopeOk_def slotOf_def pos_def)
  qed
  have e5: "emitted 0 1 t4 t5" using runsD [OF runs_seq [OF assms] g4 t5] by simp
  have e6: "emitted 1 1 t5 t6" using emitsD [OF emits_return [where A = always] emitted_good [OF e5] _ t6] by simp
  have e46: "emitted 0 1 t4 t6" by (rule emitted_trans [OF e5 e6])
  have g34: "grows {} t3 t4" by (simp add: t4' sc3(1) grows_def pos_def list_all2_refl)
  have g06: "grows {} t0 t6" using grows_trans [OF emitted_grows [OF e03] grows_trans [OF g34 emitted_grows [OF e46]]] by simp
  have g6: "good t6" by (rule emitted_good [OF e46])
  obtain sc6 scs6 where sc6: "scopes t6 = sc6 # scs6" "scopeArity sc6 = length fixed" "sameShape scs3 scs6"
    using emitted_steady [OF e46] sh3(3) by (cases "scopes t6") (auto simp: steady_def t4')
  have wide: "list_all2 (\<lambda>sc sc'. nextSlot sc \<le> nextSlot sc') (scopes s2) scs6" "?n \<le> nextSlot sc6"
    using growsD(7) [OF g06] growsD(7) [OF emitted_grows [OF e46]] sc0(1) sc6(1) sc3 by (simp_all add: t4')
  have shape: "sameShape (scopes s2) scs6" using sh3(4) sc6(3) by simp
  have made: "growing (made s2) (made t6)" using growsD(5) [OF g06] sc0(3) by simp
  have s9': "s9 = t6\<lparr>out := out s2, scopes := scs6\<rparr>" using s9 sc6(1) by simp
  have caps6: "capsOk (sc6 # scs6)" using g6 sc6(1) by (simp add: good_def)
  have "bodyStart tgt \<le> pos s2" if "sc \<in> set (take 1 scs6)" "tgt \<in> set (recurStack sc)" for sc tgt
    using shape_hd [OF shape, of tgt] that st(1) by (auto simp: good_def)
  then have "good s9" using g6 st(1) caps6 sc6(1) by (simp add: good_def s9' pos_def capsOk_Cons)
  moreover have "grows {} s2 s9" "steady s2 s9" "pos s9 = pos s2"
    using wide made shape by (simp_all add: grows_def steady_def s9' pos_def)
  ultimately have e9: "emitted p p s2 s9" by (rule emitted_same)
  define M where "M = finishModule sc6 (out t6)"
  have mM: "m = clearLastReads (length fixed) (nextSlot (hd (scopes t2))) M" using m sc6(1) by (simp add: M_def)
  have flow: "sameFlow M m" unfolding mM by (rule clearLastReads_sameFlow)
  have "captureSpecs M = map (\<lambda>(p, l). \<lparr>parentSlot = p, clocalSlot = l\<rparr>) (scopeCaptures sc6)"
    using g6 by (simp add: M_def finishModule_eq good_def)
  then have "captureSpecs m = map (\<lambda>(p, l). \<lparr>parentSlot = p, clocalSlot = l\<rparr>) (scopeCaptures sc6)"
    using flow by (simp add: sameFlow_def)
  then have caps: "\<forall>c\<in>set (captureSpecs m). slotIn (parentSlot c) s9"
    using caps6 by (cases scs6) (auto simp: capsOk_Cons slotIn_def s9')
  have "slotsOk M"
  proof -
    have d: "declares t0 t6" using g06 by (simp add: grows_def)
    have "declared (out t0) = {}" by (simp add: t0_def bodyModule_def emptyModule_def declared_def)
    then have "s < nextSlot sc6" if "s \<in> declared (out t6)" for s
      using d that sc6(1) by (auto simp: declares_def slotIn_def)
    moreover have "\<forall>(p, l)\<in>set (scopeCaptures sc6). l < nextSlot sc6" using g6 sc6(1) by (simp add: good_def scopeOk_def)
    moreover have "captureSpecs (out t6) = []" using g6 by (simp add: good_def)
    ultimately show ?thesis
      using wide(2) sc6(2) d growsD(6) [OF g06] sc0(4)
      by (auto simp: slotsOk_def M_def finishModule_eq declared_def declares_def split: if_splits)
  qed
  then have "slotsOk m" using flow by (simp add: slotsOk_def declared_def sameFlow_def)
  moreover have "bodyOk caps m" if caps: "\<forall>p<length (made s9). caps p = captureCount (made s9 ! p)" for caps :: "modptr \<Rightarrow> nat"
  proof -
    have "arity (out t6) = length fixed" using growsD(6) [OF g06] sc0(4) by simp
    then have lim: "limits M caps t6"
      using caps wide(2) sc6(1,2) by (simp add: limits_def M_def finishModule_eq s9')
    have "bodyOk caps M"
      by (rule body_ok [OF sc0(2,1) _ _ e03 t4 e5 e6 lim]) (simp_all add: M_def finishModule_eq newScope_def)
    then show ?thesis by (rule sameFlow_bodyOk [OF flow])
  qed
  ultimately have "madeOk (made s9) m" by (simp add: madeOk_def)
  with caps e9 show "emitted p p s2 s9 \<and> bodyIn m s9" by (simp add: bodyIn_def)
qed

lemma emits_arity:
  assumes "okc cf"
  shows "emits always p p (compileArity E cf ps body) bodyIn"
  unfolding compileArity_def
proof (rule emits_bind [OF runs_quiet [OF silent_params]])
  fix x :: "bindings \<times> form list"
  have "emits always p p (bindC (messageOr (parseRest E effective)) (\<lambda>(fixed, rspec). arityBody E cf fixed rspec forms)) bodyIn" for effective forms
    by (rule emits_bind [OF runs_quiet [OF silent_message]]) (use emits_arityBody [OF assms] in \<open>auto split: prod.split\<close>)
  then show "emits always p p (case x of (pairs, effective) \<Rightarrow> bindC (messageOr (parseRest E effective))
      (\<lambda>(fixed, rspec). arityBody E cf fixed rspec (if pairs = [] then body else [letForm pairs body]))) bodyIn"
    by (cases x) simp
qed

end
