(* ===== verification/FormsOk.thy ===== *)
theory FormsOk
  imports ArityOk
begin

text \<open>
  The special forms: functions, \<^verbatim>\<open>let\<close> and \<^verbatim>\<open>loop\<close>, \<^verbatim>\<open>try\<close>, branches, calls and symbols each leave one value.
\<close>

section \<open>Functions\<close>

lemma stable_top [intro]: "stable atTopLevel"
  by (rule stableI) (auto simp: atTopLevel_def dest: growsD(7))

lemma runs_ifTop:
  assumes "emits atTopLevel p q m anyway" "emits inside p q n anyway"
  shows "runs p q (bindC (getC atTopLevel) (\<lambda>top. if top then m else n))"
proof (rule emits_bind [OF emits_get [where A = always]])
  fix b show "emits (\<lambda>st. b = atTopLevel st \<and> True) p q (if b then m else n) anyway"
  proof (cases b)
    case True
    with emits_weaken [OF assms(1)] show ?thesis by simp
  next
    case False
    have "emits (\<lambda>st. False = atTopLevel st \<and> True) p q n anyway"
      by (rule emits_weaken [OF assms(2)]) (simp_all add: atTopLevel_def inside_def)
    with False show ?thesis by simp
  qed
qed

lemma runs_if: "runs p q m \<Longrightarrow> runs p q n \<Longrightarrow> runs p q (if b then m else n)"
  by simp

lemma runs_option: "runs p q m \<Longrightarrow> (\<And>a. runs p q (f a)) \<Longrightarrow> runs p q (case x of None \<Rightarrow> m | Some a \<Rightarrow> f a)"
  by (cases x) auto

lemma emits_thunk:
  fixes cf :: "'w compiler"
  assumes "okc cf"
  shows "emits atTopLevel 0 1 (compileAsThunk E cf f) anyway"
proof -
  have 1: "emits atTopLevel 0 0 (compileArity E cf [] [f]) (\<lambda>body st. bodyIn body st \<and> atTopLevel st)"
    using emits_frame [OF emits_arity [OF assms] stable_top] by (rule emits_weaken) auto
  have "emits (\<lambda>st :: 'w comp. bodyIn body st \<and> atTopLevel st) 0 1 (bindC (addBlockC body) (\<lambda>i. thenC (emitC MAKE_FN i) (emitC CALL 0))) anyway" for body
  proof (cases "captureCount body = 0")
    case True
    have 2: "emits (blockIn i body) 0 1 (emitC MAKE_FN i) anyway" for i
      using emits_makeFn [of i body 0] True by simp
    have 3: "runs 1 1 (emitC CALL 0)" using runs_call [of CALL 0 0] by simp
    have "emits (bodyIn body) 0 1 (bindC (addBlockC body) (\<lambda>i. thenC (emitC MAKE_FN i) (emitC CALL 0))) anyway"
      by (rule emits_bind [OF emits_addBlock], rule emits_after [OF 2 3])
    then show ?thesis by (rule emits_weaken) auto
  next
    case False
    then obtain c where "c \<in> set (captureSpecs body)" by (cases "captureSpecs body") (auto simp: captureCount_def)
    then have "\<not> (bodyIn body st \<and> atTopLevel st)" for st :: "'w comp"
      by (auto simp: bodyIn_def atTopLevel_def slotIn_def)
    then show ?thesis unfolding emits_def by blast
  qed
  with 1 show ?thesis unfolding compileAsThunk_def by (rule emits_bind)
qed

lemma emits_captures:
  "emits (blockIn i body) p (p + captureCount body) (pushCaptures body) (\<lambda>_. blockIn i body)"
proof -
  have "emits (blockIn i body) p (p + length cs) (eachC (\<lambda>c. emitC PUSH_LOCAL (parentSlot c)) cs) (\<lambda>_. blockIn i body)"
    if "set cs \<subseteq> set (captureSpecs body)" for cs
    using that
  proof (induction cs arbitrary: p)
    case (Cons c cs)
    have "emits (blockIn i body) p (p + 1) (emitC PUSH_LOCAL (parentSlot c)) (\<lambda>_. blockIn i body)"
      by (rule emits_emitC [where i = 0 and j = 1]) (use Cons.prems in \<open>auto simp: net_simps blockIn_def operandIn_def\<close>)
    from emits_then [OF this Cons.IH [of "p + 1"]] Cons.prems show ?case by simp
  qed (auto intro: emits_retI)
  from this [of "captureSpecs body"] show ?thesis by (simp add: pushCaptures_def captureCount_def)
qed

lemma stable_blocks: "stable (\<lambda>st. \<forall>(i, body)\<in>set bs. blockIn i body st)"
  using stable_blockIn unfolding stable_def by blast

lemma emits_allCaptures:
  "emits (\<lambda>st. \<forall>(i, body)\<in>set bs. blockIn i body st) p (p + capturesOf bs) (eachC (\<lambda>(i, body). pushCaptures body) bs) anyway"
proof (induction bs arbitrary: p)
  case Nil
  show ?case using emits_any [OF runs_ret] by (simp add: capturesOf_def)
next
  case (Cons b bs)
  obtain i body where b: "b = (i, body)" by (cases b)
  have "emits (\<lambda>st. blockIn i body st \<and> (\<forall>(i, body)\<in>set bs. blockIn i body st)) p (p + captureCount body) (pushCaptures body)
     (\<lambda>_ st. blockIn i body st \<and> (\<forall>(i, body)\<in>set bs. blockIn i body st))"
    by (rule emits_frame [OF emits_captures stable_blocks])
  then have 1: "emits (\<lambda>st. \<forall>(i, body)\<in>set (b # bs). blockIn i body st) p (p + captureCount body) (pushCaptures body)
     (\<lambda>_ st. \<forall>(i, body)\<in>set bs. blockIn i body st)"
    by (rule emits_weaken) (auto simp: b)
  have 2: "capturesOf (b # bs) = captureCount body + capturesOf bs" by (simp add: capturesOf_def b)
  show ?case unfolding 2 eachC.simps add.assoc [symmetric] unfolding b prod.case [where f = "\<lambda>i. pushCaptures"]
    using emits_then [OF 1 [unfolded b] Cons.IH] by (simp add: b)
qed

lemma emits_arityForm:
  assumes "okc cf"
  shows "emits always p p (compileArityForm E cf f) (\<lambda>(i, body). blockIn i body)"
proof -
  have "emits always p p (bindC (paramList msg g) (\<lambda>ps. bindC (compileArity E cf ps forms) (\<lambda>body.
      bindC (addBlockC body) (\<lambda>i. retC (i, body))))) (\<lambda>(i, body). blockIn i body)" for msg g forms
    by (rule emits_bind [OF runs_quiet [OF silent_items_of(2)]], rule emits_bind [OF emits_arity [OF assms]],
        rule emits_bind [OF emits_addBlock], rule emits_retI) simp
  then show ?thesis unfolding compileArityForm_def by (simp add: emits_throw)
qed

lemma emits_fnBody:
  assumes "okc cf"
  shows "emits always p p (compileFnBody E cf lst) bodyIn"
proof -
  have "emits always p p (bindC (paramList msg g) (\<lambda>ps. compileArity E cf ps forms)) bodyIn" for msg g forms
    by (rule emits_bind [OF runs_quiet [OF silent_items_of(2)] emits_arity [OF assms]])
  then show ?thesis unfolding compileFnBody_def Let_def by (simp add: emits_throw)
qed

lemma runs_single:
  assumes "okc cf"
  shows "runs p (p + 1) (bindC (compileFnBody E cf lst) (\<lambda>body. bindC (addBlockC body) (\<lambda>i. thenC (pushCaptures body) (emitC MAKE_FN i))))"
  by (rule emits_bind [OF emits_fnBody [OF assms]], rule emits_bind [OF emits_addBlock], rule emits_then [OF emits_captures emits_makeFn])

lemma runs_multi:
  assumes "okc cf"
  shows "runs p (p + 1) (bindC (mapC (compileArityForm E cf) fs) (\<lambda>arities.
    thenC (eachC (\<lambda>(i, body). pushCaptures body) arities) (emitConst MAKE_FN_MULTI (addArityGroup (map fst arities)))))"
proof -
  have 1: "emits always p p (mapC (compileArityForm E cf) fs) (\<lambda>ys st. \<forall>y\<in>set ys. (case y of (i, body) \<Rightarrow> blockIn i body) st)"
    by (rule emits_mapC [OF emits_arityForm [OF assms]]) (auto split: prod.split)
  have 2: "emits (\<lambda>st. \<forall>(i, body)\<in>set bs. blockIn i body st) p (p + 1)
      (thenC (eachC (\<lambda>(i, body). pushCaptures body) bs) (emitConst MAKE_FN_MULTI (addArityGroup (map fst bs)))) anyway" for bs
  proof (rule emits_then)
    show "emits (\<lambda>st. \<forall>(i, body)\<in>set bs. blockIn i body st) p (p + capturesOf bs) (eachC (\<lambda>(i, body). pushCaptures body) bs)
        (\<lambda>_ st. \<forall>(i, body)\<in>set bs. blockIn i body st)"
      using emits_frame [OF emits_allCaptures stable_blocks] by (rule emits_weaken) auto
  qed (rule emits_makeFnMulti)
  show ?thesis by (rule emits_bind [OF 1]) (rule emits_weaken [OF 2], auto)
qed

lemma runs_fnForm:
  fixes cf :: "'w compiler"
  assumes "okc cf"
  shows "runs 0 1 (compileFnForm E cf lst headName)"
proof -
  have "runs 0 1 (thenC m (if b then emitStoreGlobal E k else retC ()))" if "runs 0 1 m" for m :: "('w, unit) cm" and b k
    by (rule runs_then [OF that]) (auto intro: runs_storeGlobal runs_ret)
  note 1 = this [OF runs_if [OF runs_single [OF assms, of 0, unfolded add_0] runs_multi [OF assms, of 0, unfolded add_0]]]
  show ?thesis unfolding compileFnForm_def Let_def
    by (intro runs_option runs_if runs_error 1 runs_cf [OF assms, of 0, unfolded add_0])
qed

section \<open>let and loop\<close>

definition boundIn :: "(nat \<times> string \<times> nat option) list \<Rightarrow> 'w comp \<Rightarrow> bool" where
  "boundIn bs st \<longleftrightarrow> inside st \<and> (\<forall>b\<in>set bs. slotIn (fst b) st \<and> savedIn (snd (snd b)) st)"

lemma stable_boundIn [intro]: "stable (boundIn bs)"
  unfolding boundIn_def stable_def
  using stable_slotIn stable_inside stable_savedIn unfolding stable_def by blast

lemma emits_bindings:
  assumes "okc cf"
  shows "emits inside 0 0 (compileBindings cf who bs) boundIn"
proof (induction bs)
  case Nil
  show ?case by (auto simp: boundIn_def intro: emits_retI)
next
  case (Cons b bs)
  obtain nf vf where b: "b = (nf, vf)" by (cases b)
  have 1: "emits inside 0 1 (cf vf) (\<lambda>_. inside)"
    by (rule emits_keep [OF runs_cf [OF assms, of 0, unfolded add_0] stable_inside])
  have 2: "emits inside 1 1 (bindName name) (\<lambda>r. boundIn [r])" for name
    using emits_frame [OF emits_bindName stable_inside] by (rule emits_weaken) (auto simp: boundIn_def)
  have 3: "emits (boundIn [r]) 1 0 (emitC STORE_LOCAL (fst r)) (\<lambda>_. boundIn [r])" for r :: "nat \<times> string \<times> nat option"
    by (rule emits_emitC [where i = 1 and j = 0]) (auto simp: net_simps operandIn_def boundIn_def)
  have 4: "emits (boundIn [r]) 0 0 (compileBindings cf who bs) (\<lambda>rs st. boundIn rs st \<and> boundIn [r] st)" for r
    using emits_frame [OF Cons.IH stable_boundIn [of "[r]"]] by (rule emits_weaken) (auto simp: boundIn_def)
  have 5: "emits inside 0 0 (thenC (cf vf) (bindC (bindName name) (\<lambda>r. thenC (emitC STORE_LOCAL (fst r))
      (bindC (compileBindings cf who bs) (\<lambda>rs. retC (r # rs)))))) boundIn" for name
    by (rule emits_then [OF 1], rule emits_bind [OF 2], rule emits_then [OF 3], rule emits_bind [OF 4], rule emits_retI)
      (auto simp: boundIn_def)
  show ?case unfolding b compileBindings.simps using 5 by (simp add: emits_throw)
qed

lemma boundIn_saved: "boundIn bs st \<Longrightarrow> inside st \<and> (\<forall>sv\<in>set (map snd bs). savedIn (snd sv) st)"
  by (auto simp: boundIn_def)

lemma runs_letForm:
  assumes "okc cf"
  shows "runs 0 1 (compileLetForm E d cf lst)"
  unfolding compileLetForm_def
proof (rule runs_ifTop [OF emits_thunk [OF assms]])
  have 1: "emits (boundIn bound) 0 1 (compileSeq cf fs) (\<lambda>_. boundIn bound)" for bound fs
    by (rule emits_keep [OF runs_seq [OF assms, of 0, unfolded add_0] stable_boundIn])
  have 2: "emits (boundIn bound) 1 1 (restoreNames (map snd bound)) anyway" for bound :: "(nat \<times> string \<times> nat option) list"
    by (rule emits_weaken [OF emits_restoreNames]) (use boundIn_saved in auto)
  have 3: "emits inside 0 1 (bindC (compileBindings cf who ps) (\<lambda>bound. thenC (compileSeq cf fs) (restoreNames (map snd bound)))) anyway" for who ps fs
    by (rule emits_bind [OF emits_bindings [OF assms]], rule emits_then [OF 1 2])
  have 6: "emits inside 0 1 (case flat of Some f \<Rightarrow> cf (g f) | None \<Rightarrow>
      bindC (compileBindings cf who ps) (\<lambda>bound. thenC (compileSeq cf fs) (restoreNames (map snd bound)))) anyway" for flat g who ps fs
    using 3 emits_cf [OF assms, of inside 0, unfolded add_0] by (cases flat) simp_all
  have q: "emits inside 0 0 (bindingItems ''let'' lst) (\<lambda>_. inside)"
    by (rule emits_keep [OF runs_quiet [OF silent_items_of(1)] stable_inside])
  have q2: "emits inside 0 0 (destructureBindings E d items) (\<lambda>_. inside)" for items
    by (rule emits_keep [OF runs_quiet [OF silent_bindings] stable_inside])
  show "emits inside 0 1 (bindC (bindingItems ''let'' lst) (\<lambda>items. bindC (destructureBindings E d items) (\<lambda>flat.
           case flat of
             Some f \<Rightarrow> cf (FList (formAt lst 0 # f # drop 2 lst))
           | None \<Rightarrow>
               bindC (compileBindings cf ''let'' (pairsOf items)) (\<lambda>bound.
               thenC (compileSeq cf (drop 2 lst)) (restoreNames (map snd bound)))))) anyway"
    by (rule emits_bind [OF q], rule emits_bind [OF q2], rule 6)
qed

lemma emits_loopBody:
  assumes "okc cf"
  shows "emits (boundIn bound) 0 1
    (bindC posC (\<lambda>start. bindC (topScope tryDepth) (\<lambda>depth.
      thenC (pushTarget \<lparr>bodyStart = start, recurSlots = map fst bound, targetDepth = depth\<rparr>)
        (thenC (compileSeq cf fs) (thenC popTarget (restoreNames (map snd bound))))))) anyway"
proof (rule emitsI)
  fix s0 u s4 assume st: "good s0" "boundIn bound s0" "bindC posC (\<lambda>start. bindC (topScope tryDepth) (\<lambda>depth.
      thenC (pushTarget \<lparr>bodyStart = start, recurSlots = map fst bound, targetDepth = depth\<rparr>)
        (thenC (compileSeq cf fs) (thenC popTarget (restoreNames (map snd bound)))))) s0 = (Inr u, s4)"
  then obtain a1 s1 a2 s2 a3 s3 where steps:
    "pushTarget \<lparr>bodyStart = pos s0, recurSlots = map fst bound, targetDepth = tryDepth (hd (scopes s0))\<rparr> s0 = (Inr a1, s1)"
    "compileSeq cf fs s1 = (Inr a2, s2)" "popTarget s2 = (Inr a3, s3)" "restoreNames (map snd bound) s3 = (Inr u, s4)"
    unfolding bindC_Inr thenC_Inr posC_Inr topScope_Inr by blast
  have b: "inside s0" "\<And>s. s \<in> set (map fst bound) \<Longrightarrow> slotIn s s0" using st(2) by (auto simp: boundIn_def)
  have g1: "good s1" by (rule good_pushTarget [OF st(1) b steps(1)])
  have e2: "emitted 0 1 s1 s2" using runsD [OF runs_seq [OF assms, of 0] g1 steps(2)] by simp
  have e3: "emitted 0 1 s0 s3" by (rule emitted_loop [OF st(1) b steps(1) e2 steps(3)])
  have "boundIn bound s3" using stable_boundIn emitted_grows [OF e3] st(2) unfolding stable_def by blast
  from boundIn_saved [OF this] have "emitted 1 1 s3 s4"
    using emitsD [OF emits_restoreNames emitted_good [OF e3] _ steps(4)] by blast
  with emitted_trans [OF e3] show "emitted 0 1 s0 s4 \<and> True" by blast
qed

lemma runs_loopForm:
  assumes "okc cf"
  shows "runs 0 1 (compileLoopForm E cf lst)"
  unfolding compileLoopForm_def
proof (rule runs_ifTop [OF emits_thunk [OF assms]])
  have q: "emits inside 0 0 (bindingItems ''loop'' lst) (\<lambda>_. inside)"
    by (rule emits_keep [OF runs_quiet [OF silent_items_of(1)] stable_inside])
  have 1: "emits inside 0 1 (bindC (loopParts bs) (\<lambda>(outer, loopBs, inner). cf (g outer loopBs inner))) anyway" for bs g
    by (rule emits_any, rule emits_bind [OF runs_quiet [OF silent_loopParts]])
      (use runs_cf [OF assms, of 0, unfolded add_0] in \<open>auto split: prod.split\<close>)
  have 2: "emits inside 0 1 (bindC (compileBindings cf who ps) (\<lambda>bound.
      bindC posC (\<lambda>start. bindC (topScope tryDepth) (\<lambda>depth.
      thenC (pushTarget \<lparr>bodyStart = start, recurSlots = map fst bound, targetDepth = depth\<rparr>)
        (thenC (compileSeq cf fs) (thenC popTarget (restoreNames (map snd bound)))))))) anyway" for who ps fs
    by (rule emits_bind [OF emits_bindings [OF assms] emits_loopBody [OF assms]])
  show "emits inside 0 1 (bindC (bindingItems ''loop'' lst) (\<lambda>items.
           if \<not> list_all (\<lambda>(b, v). simpleName b) (pairsOf items) then
             bindC (loopParts (pairsOf items)) (\<lambda>(outer, loopBs, inner).
               cf (FList [sym ''let'', FVec outer,
                 FList [formAt lst 0, FVec loopBs, FList (sym ''let'' # FVec inner # drop 2 lst)]]))
           else
             bindC (compileBindings cf ''loop'' (pairsOf items)) (\<lambda>bound.
             bindC posC (\<lambda>start.
             bindC (topScope tryDepth) (\<lambda>depth.
             thenC (pushTarget \<lparr>bodyStart = start, recurSlots = map fst bound, targetDepth = depth\<rparr>)
             (thenC (compileSeq cf (drop 2 lst))
             (thenC popTarget (restoreNames (map snd bound))))))))) anyway"
  proof (rule emits_bind [OF q])
    fix items
    show "emits inside 0 1 (if \<not> list_all (\<lambda>(b, v). simpleName b) (pairsOf items) then
             bindC (loopParts (pairsOf items)) (\<lambda>(outer, loopBs, inner).
               cf (FList [sym ''let'', FVec outer,
                 FList [formAt lst 0, FVec loopBs, FList (sym ''let'' # FVec inner # drop 2 lst)]]))
           else
             bindC (compileBindings cf ''loop'' (pairsOf items)) (\<lambda>bound.
             bindC posC (\<lambda>start.
             bindC (topScope tryDepth) (\<lambda>depth.
             thenC (pushTarget \<lparr>bodyStart = start, recurSlots = map fst bound, targetDepth = depth\<rparr>)
             (thenC (compileSeq cf (drop 2 lst))
             (thenC popTarget (restoreNames (map snd bound)))))))) anyway"
      by (cases "list_all (\<lambda>(b, v). simpleName b) (pairsOf items)") (simp_all only: simp_thms if_True if_False 1 2)
  qed
qed

end
