(* ===== verification/TryOk.thy ===== *)
theory TryOk
  imports FormsOk
begin

text \<open>
  \<^verbatim>\<open>try\<close> with its clauses: the handlers are set and dropped in pairs, a clause that matches leaves through an
  open jump, and what no clause takes is raised again.
\<close>

section \<open>Clauses\<close>

lemma bindC_retC: "bindC (retC a) f = f a"
  by (simp add: bindC_def retC_def fun_eq_iff)

lemma runs_catchType: "runs 0 1 (compileCatchType E q)"
proof -
  have 1: "emits (slotIn s) 0 1 (thenC (emitC PUSH_LOCAL s) (emitConst GET_MEMBER (symC E m))) anyway" for s m
    by (rule emits_after [OF emits_pushLocal [of s 0, unfolded add_0]]) (use runs_symbols(2) [of 0 E m] in simp)
  have 2: "runs 0 1 (bindC (if b then resolveLocal n else retC None) (\<lambda>owner.
     case owner of Some s \<Rightarrow> thenC (emitC PUSH_LOCAL s) (emitConst GET_MEMBER (symC E m))
     | None \<Rightarrow> emitConst RESOLVE_CLASS (symC E k)))" for b n m k
  proof (cases b)
    case True
    have "runs 0 1 (bindC (resolveLocal n) (\<lambda>owner. case owner of Some s \<Rightarrow> thenC (emitC PUSH_LOCAL s) (emitConst GET_MEMBER (symC E m))
     | None \<Rightarrow> emitConst RESOLVE_CLASS (symC E k)))"
      by (rule runs_resolve) (use 1 runs_symbols(3) [of 0 E k] in simp_all)
    with True show ?thesis by simp
  next
    case False
    have "runs 0 1 (bindC (retC None) (\<lambda>owner. case owner of Some s \<Rightarrow> thenC (emitC PUSH_LOCAL s) (emitConst GET_MEMBER (symC E m))
     | None \<Rightarrow> emitConst RESOLVE_CLASS (symC E k)))"
      unfolding bindC_retC option.case by (rule runs_symbols(3) [of 0, unfolded add_0])
    with False show ?thesis by simp
  qed
  show ?thesis unfolding compileCatchType_def Let_def
    by (rule runs_resolve) (simp_all only: option.case 2 emits_pushLocal [of _ 0, unfolded add_0])
qed

lemma runs_match:
  "runs 1 1 (if classId c \<ge> 0 then emitC EXC_MATCH (nat (classId c))
        else thenC (compileCatchType E (className c)) (emitConst EXC_MATCH_TYPE (symC E (className c))))"
proof (rule runs_if)
  show "runs 1 1 (emitC EXC_MATCH (nat (classId c)))"
    by (rule runs_emitC [where i = 1 and j = 1]) (auto simp: net_simps)
  have "runs 1 2 (compileCatchType E (className c))" using runs_shift [OF runs_catchType, of 1] by (simp add: numeral_2_eq_2)
  moreover have "runs 2 1 (emitConst EXC_MATCH_TYPE (symC E (className c)))" using runs_symbols(4) [of 0, unfolded add_0] .
  ultimately show "runs 1 1 (thenC (compileCatchType E (className c)) (emitConst EXC_MATCH_TYPE (symC E (className c))))"
    by (rule runs_then)
qed

text \<open>A clause binds its name to the exception's slot for its own forms.\<close>

lemma leads_catch:
  assumes "okc cf" "good s0" "slotIn x s0" "compileCatch E cf x c s0 = (Inr d, s9)"
  shows "leads 0 0 1 [d] s0 s9"
proof -
  from assms(4) obtain a1 s1 a2 s2 j s3 a4 s4 a5 s5 a6 s6 s7 a8 sh where steps:
    "emitC PUSH_LOCAL x s0 = (Inr a1, s1)"
    "(if classId c \<ge> 0 then emitC EXC_MATCH (nat (classId c))
        else thenC (compileCatchType E (className c)) (emitConst EXC_MATCH_TYPE (symC E (className c)))) s1 = (Inr a2, s2)"
    "emitAt JUMP_IF_FALSE 0 s2 = (Inr j, s3)" "sh = slotOf (binding c) (hd (scopes s3))"
    "inScope (setSlot (binding c) x) s3 = (Inr a4, s4)" "compileSeq cf (catchBody c) s4 = (Inr a5, s5)"
    "inScope (restoreName (binding c, sh)) s5 = (Inr a6, s6)" "emitAt JUMP 0 s6 = (Inr d, s7)"
    "patchHere j s7 = (Inr a8, s9)"
    unfolding compileCatch_def bindC_Inr thenC_Inr topScope_Inr retC_Inr by blast
  have e1: "emitted 0 1 s0 s1" using emitsD [OF emits_pushLocal [of x 0] assms(2,3) steps(1)] by simp
  have e2: "emitted 1 1 s1 s2" by (rule runsD [OF runs_match emitted_good [OF e1] steps(2)])
  have e02: "emitted 0 1 s0 s2" by (rule emitted_trans [OF e1 e2])
  have g2: "good s2" by (rule emitted_good [OF e02])
  note f3 = emitAt_frame [OF g2 steps(3)]
  have x3: "slotIn x s3" using slotIn_grows [OF emitted_grows [OF e02] assms(3)] slotIn_grows [OF f3(2)] by blast
  have "savedIn sh s3" using slotOf_in [OF f3(1) slotIn_inside [OF x3]] slotIn_inside [OF x3] steps(4) by (auto simp: savedIn_def)
  have e4: "emitted 0 0 s3 s4" using emitsD [OF emits_setSlot f3(1) x3 steps(5)] by simp
  have e5: "emitted 0 1 s4 s5" using runsD [OF runs_seq [OF assms(1), of 0] emitted_good [OF e4] steps(6)] by simp
  have e35: "emitted 0 1 s3 s5" by (rule emitted_trans [OF e4 e5])
  have "savedIn sh s5" using \<open>savedIn sh s3\<close> stable_savedIn emitted_grows [OF e35] unfolding stable_def by blast
  then have "emitted 1 1 s5 s6"
    using emitsD [OF emits_restoreName emitted_good [OF e35] _ steps(7)] by simp
  then have e36: "emitted 0 1 s3 s6" by (rule emitted_trans [OF e35])
  have "leads (0 + 1) 0 1 [d] s2 s9" by (rule leads_fork [OF g2 steps(3) _ e36 steps(8,9)]) simp
  with emit_leads [OF e02] show ?thesis by simp
qed

lemma leads_catches:
  assumes "okc cf"
  shows "good s0 \<Longrightarrow> slotIn x s0 \<Longrightarrow> mapC (compileCatch E cf x) cs s0 = (Inr ds, s9) \<Longrightarrow> leads 0 0 1 ds s0 s9"
proof (induction cs arbitrary: s0 ds)
  case Nil
  then show ?case by (simp add: retC_def leads_refl)
next
  case (Cons c cs)
  from Cons.prems(3) obtain d s1 r where s1: "compileCatch E cf x c s0 = (Inr d, s1)" "mapC (compileCatch E cf x) cs s1 = (Inr r, s9)"
    "ds = d # r"
    unfolding mapC.simps bindC_Inr retC_Inr by blast
  note l = leads_catch [OF assms Cons.prems(1,2) s1(1)]
  note f = leads_frame [OF l]
  from leads_seq [OF l Cons.IH [OF f(1) slotIn_grows [OF f(2) Cons.prems(2)] s1(2)]] s1(3) show ?case by simp
qed

section \<open>The whole form\<close>

lemma shielded_emitted: "emitted p q st st' \<Longrightarrow> shielded st \<Longrightarrow> shielded st'"
  using shielded_steady emitted_steady by blast

lemma pos_emitC: "emitC op n st = (Inr u, st') \<Longrightarrow> pos st' = pos st + 1"
  by (auto simp: emitC_def thenC_Inr retC_def dest: holds_emitAt(3))

lemma emits_catches:
  assumes "okc cf"
  shows "emits (\<lambda>st. inside st \<and> shielded st) 0 1 (compileCatches E cf body cs) anyway"
proof (rule emitsI)
  fix s0 u s9 assume st: "good s0" "inside s0 \<and> shielded s0" "compileCatches E cf body cs s0 = (Inr u, s9)"
  from st(3) obtain b s1 a2 s2 a3 s3 d s4 a5 s5 x s6 a7 s7 ds s8 a9 s10 where steps:
    "emitAt TRY_BEGIN 0 s0 = (Inr b, s1)" "compileSeq cf body s1 = (Inr a2, s2)" "emitC TRY_END 0 s2 = (Inr a3, s3)"
    "emitAt JUMP 0 s3 = (Inr d, s4)" "patchHere b s4 = (Inr a5, s5)" "freshSlot s5 = (Inr x, s6)"
    "emitC STORE_CAUGHT x s6 = (Inr a7, s7)" "mapC (compileCatch E cf x) cs s7 = (Inr ds, s8)"
    "emitC RETHROW x s8 = (Inr a9, s10)" "eachC patchHere (d # ds) s10 = (Inr u, s9)"
    unfolding compileCatches_def bindC_Inr thenC_Inr by blast
  from steps(3) obtain i where te: "emitAt TRY_END 0 s2 = (Inr i, s3)" by (auto simp: emitC_def thenC_Inr retC_def)
  note f1 = emitAt_frame [OF st(1) steps(1)]
  have e2: "emitted 0 1 s1 s2" using runsD [OF runs_seq [OF assms, of 0] f1(1) steps(2)] by simp
  note f3 = emitAt_frame [OF emitted_good [OF e2] te]
  note f4 = emitAt_frame [OF f3(1) steps(4)]
  have g5: "patching {b} s4 s5" using patchHere_patching [OF steps(5)] by blast
  then have f5: "good s5" "grows {b} s4 s5" using f4(1) by (simp_all add: patching_def)
  have "inside s5"
    using st(2) stable_inside f1(2) emitted_grows [OF e2] f3(2) f4(2) f5(2) unfolding stable_def by blast
  from emitsD [OF emits_freshSlot f5(1) this steps(6)] have e6: "emitted 1 1 s5 s6" and x6: "slotIn x s6" by auto
  from emitsD [OF runs_slot [where p = 1 and q = 0 and i = 1 and j = 0] emitted_good [OF e6] x6 steps(7)]
  have e7: "emitted 1 0 s6 s7" and x7: "slotIn x s7" by (auto simp: net_simps)
  have "pos s5 < pos s7" using growsD(1) [OF emitted_grows [OF e6]] pos_emitC [OF steps(7)] by simp
  from leads_try [OF st(1) _ steps(1) e2 te emitted_refl [OF f3(1)] steps(4,5) emitted_trans [OF e6 e7] this] st(2)
  have l7: "leads 0 0 1 [d] s0 s7" by simp
  have l8: "leads 0 0 1 ds s7 s8" by (rule leads_catches [OF assms emitted_good [OF e7] x7 steps(8)])
  have "slotIn x s8" by (rule slotIn_grows [OF leads_frame(2) [OF l8] x7])
  from emitsD [OF emits_end [where A = "slotIn x"] leads_frame(1) [OF l8] this steps(9)]
  have e10: "emitted 0 1 s8 s10" by blast
  from leads_close [OF leads_emit [OF leads_seq [OF l7 l8] e10]] steps(10) show "emitted 0 1 s0 s9 \<and> True" by simp
qed

lemma emits_finally:
  fixes cf :: "'w compiler"
  assumes "okc cf" "emits (\<lambda>st. inside st \<and> shielded st) 0 1 guarded anyway"
  shows "emits (\<lambda>st. inside st \<and> shielded st) 0 1
    (bindC (emitAt TRY_BEGIN 0) (\<lambda>finallyBegin. thenC guarded (thenC (emitC TRY_END 0) (thenC (compileFinally cf forms)
      (bindC (emitAt JUMP 0) (\<lambda>endAt. thenC (patchHere finallyBegin) (bindC freshSlot (\<lambda>fxSlot.
       thenC (emitC STORE_CAUGHT fxSlot) (thenC (compileFinally cf forms) (thenC (emitC RETHROW fxSlot) (patchHere endAt)))))))))))
    anyway"
proof (rule emitsI)
  fix s0 s9 :: "'w comp" and u assume st: "good s0" "inside s0 \<and> shielded s0"
  assume "(bindC (emitAt TRY_BEGIN 0) (\<lambda>finallyBegin. thenC guarded (thenC (emitC TRY_END 0) (thenC (compileFinally cf forms)
      (bindC (emitAt JUMP 0) (\<lambda>endAt. thenC (patchHere finallyBegin) (bindC freshSlot (\<lambda>fxSlot.
       thenC (emitC STORE_CAUGHT fxSlot) (thenC (compileFinally cf forms) (thenC (emitC RETHROW fxSlot) (patchHere endAt)))))))))))
       s0 = (Inr u, s9)"
  then obtain b s1 a2 s2 a3 s3 a4 s4 d s5 a6 s6 x s7 a8 s8 a9 t9 a10 s10 where steps:
    "emitAt TRY_BEGIN 0 s0 = (Inr b, s1)" "guarded s1 = (Inr a2, s2)" "emitC TRY_END 0 s2 = (Inr a3, s3)"
    "compileFinally cf forms s3 = (Inr a4, s4)" "emitAt JUMP 0 s4 = (Inr d, s5)" "patchHere b s5 = (Inr a6, s6)"
    "freshSlot s6 = (Inr x, s7)" "emitC STORE_CAUGHT x s7 = (Inr a8, s8)" "compileFinally cf forms s8 = (Inr a9, t9)"
    "emitC RETHROW x t9 = (Inr a10, s10)" "patchHere d s10 = (Inr u, s9)"
    unfolding bindC_Inr thenC_Inr by blast
  from steps(3) obtain i where te: "emitAt TRY_END 0 s2 = (Inr i, s3)" by (auto simp: emitC_def thenC_Inr retC_def)
  have drops: "runs p p (compileFinally cf forms)" for p unfolding compileFinally_def by (rule runs_drops [OF assms(1)])
  note f1 = emitAt_frame [OF st(1) steps(1)]
  have in1: "inside s1 \<and> shielded s1" using st(2) f1(6) by (simp add: inside_def shielded_def)
  have e2: "emitted 0 1 s1 s2" using emitsD [OF assms(2) f1(1) in1 steps(2)] by simp
  note f3 = emitAt_frame [OF emitted_good [OF e2] te]
  have e4: "emitted 1 1 s3 s4" by (rule runsD [OF drops f3(1) steps(4)])
  note f5 = emitAt_frame [OF emitted_good [OF e4] steps(5)]
  have "patching {b} s5 s6" using patchHere_patching [OF steps(6)] by blast
  then have f6: "good s6" "grows {b} s5 s6" using f5(1) by (simp_all add: patching_def)
  have "inside s6"
    using st(2) stable_inside f1(2) emitted_grows [OF e2] f3(2) emitted_grows [OF e4] f5(2) f6(2) unfolding stable_def by blast
  from emitsD [OF emits_freshSlot f6(1) this steps(7)] have e7: "emitted 1 1 s6 s7" and x7: "slotIn x s7" by auto
  from emitsD [OF runs_slot [where p = 1 and q = 0 and i = 1 and j = 0] emitted_good [OF e7] x7 steps(8)]
  have e8: "emitted 1 0 s7 s8" and x8: "slotIn x s8" by (auto simp: net_simps)
  have "pos s6 < pos s8" using growsD(1) [OF emitted_grows [OF e7]] pos_emitC [OF steps(8)] by simp
  from leads_try [OF st(1) _ steps(1) e2 te e4 steps(5,6) emitted_trans [OF e7 e8] this] st(2)
  have l8: "leads 0 0 1 [d] s0 s8" by simp
  have e9: "emitted 0 0 s8 t9" by (rule runsD [OF drops emitted_good [OF e8] steps(9)])
  from emitsD [OF emits_end [where A = "slotIn x"] emitted_good [OF e9] slotIn_grows [OF emitted_grows [OF e9] x8] steps(10)]
  have e10: "emitted 0 1 t9 s10" by blast
  from leads_close1 [OF leads_emit [OF l8 emitted_trans [OF e9 e10]] steps(11)] show "emitted 0 1 s0 s9 \<and> True" by simp
qed

text \<open>Inside a \<^verbatim>\<open>try\<close> the depth of its scope is one more.\<close>

lemma emits_tryDepth:
  assumes "emits (\<lambda>st. inside st \<and> shielded st) 0 1 m anyway"
  shows "emits inside 0 1 (thenC (inScope (\<lambda>sc. sc\<lparr>tryDepth := tryDepth sc + 1\<rparr>))
     (thenC m (inScope (\<lambda>sc. sc\<lparr>tryDepth := tryDepth sc - 1\<rparr>)))) anyway"
proof (rule emitsI)
  fix s0 u s3 assume st: "good s0" "inside s0" "thenC (inScope (\<lambda>sc. sc\<lparr>tryDepth := tryDepth sc + 1\<rparr>))
     (thenC m (inScope (\<lambda>sc. sc\<lparr>tryDepth := tryDepth sc - 1\<rparr>))) s0 = (Inr u, s3)"
  obtain sc scs where sc: "scopes s0 = sc # scs" using st(2) by (cases "scopes s0") (auto simp: inside_def)
  define s1 where "s1 = s0\<lparr>scopes := sc\<lparr>tryDepth := tryDepth sc + 1\<rparr> # scs\<rparr>"
  from st(3) obtain a s2 where s2: "m s1 = (Inr a, s2)" "inScope (\<lambda>sc. sc\<lparr>tryDepth := tryDepth sc - 1\<rparr>) s2 = (Inr u, s3)"
    by (auto simp: thenC_Inr inScope_def modifyC_Inr sc s1_def)
  have capsg: "capsOk (sc # scs)" "scopeOk sc" using st(1) sc by (auto simp: good_def)
  then have "capsOk (sc\<lparr>tryDepth := tryDepth sc + 1\<rparr> # scs)" by (cases scs) (simp_all add: capsOk_Cons)
  then have g1: "good s1" using st(1) sc by (auto simp: good_def s1_def pos_def scopeOk_def slotOf_def)
  have "inside s1 \<and> shielded s1" using capsg(2) by (auto simp: inside_def shielded_def s1_def scopeOk_def)
  from emitsD [OF assms g1 this s2(1)] have e2: "emitted 0 1 s1 s2" by simp
  note f2 = emitted_good [OF e2] emitted_grows [OF e2] emitted_steady [OF e2]
  obtain sc2 scs2 where sc2: "scopes s2 = sc2 # scs2" "tryDepth sc2 = tryDepth sc + 1" "recurStack sc2 = recurStack sc"
    "scopeArity sc2 = scopeArity sc" "sameShape scs scs2"
    using f2(3) by (cases "scopes s2") (auto simp: steady_def s1_def)
  have s3: "s3 = s2\<lparr>scopes := sc2\<lparr>tryDepth := tryDepth sc\<rparr> # scs2\<rparr>"
    using s2(2) sc2 by (simp add: inScope_def modifyC_def)
  have "capsOk (sc2 # scs2)" using f2(1) sc2(1) by (simp add: good_def)
  then have c3: "capsOk (sc2\<lparr>tryDepth := tryDepth sc\<rparr> # scs2)" by (cases scs2) (simp_all add: capsOk_Cons)
  have g3: "good s3"
    using f2(1) c3 sc2 capsg(2) unfolding s3 by (auto simp: good_def pos_def scopeOk_def slotOf_def)
  have g01: "grows {} s0 s1" and g23: "grows {} s2 s3"
    by (simp_all add: s1_def s3 sc sc2(1) grows_def pos_def list_all2_refl)
  have g03: "grows {} s0 s3" using grows_trans [OF g01 grows_trans [OF f2(2) g23]] by simp
  have steady: "steady s0 s3" using sc2 by (simp add: steady_def s3 sc)
  have sh: "shielded s1" using capsg(2) by (auto simp: shielded_def s1_def scopeOk_def)
  have "piece caps M (pos s0) (k + 0, hs, ls) (pos s3) (k + 1, hs, ls)"
    if M: "limits M caps s3" "fits M (pos s0) s3" "base k hs" for M caps k hs ls
  proof -
    have "limits M caps s2" by (rule limits_mono [OF g23 M(1)])
    moreover have "fits M (pos s1) s2" using M(2) by (simp add: fits_def s3 s1_def pos_def)
    ultimately have "piece caps M (pos s1) (k + 0, hs, ls) (pos s2) (k + 1, hs, ls)"
      using e2 M(3) shielded_targets [OF sh] unfolding emitted_def by blast
    then show ?thesis by (simp add: s1_def s3 pos_def)
  qed
  with g3 g03 steady show "emitted 0 1 s0 s3 \<and> True" by (simp add: emitted_def)
qed

lemma runs_try:
  assumes "okc cf"
  shows "runs 0 1 (compileTry E cf lst)"
  unfolding compileTry_def
proof (rule runs_ifTop [OF emits_thunk [OF assms]])
  have guarded: "emits (\<lambda>st. inside st \<and> shielded st) 0 1 (if cs = [] then compileSeq cf body else compileCatches E cf body cs) anyway" for cs body
    using emits_any [OF runs_seq [OF assms, of 0, unfolded add_0]] emits_catches [OF assms] by (cases "cs = []") simp_all
  have whole: "emits (\<lambda>st. inside st \<and> shielded st) 0 1
    (case fin of
       None \<Rightarrow> (if cs = [] then compileSeq cf body else compileCatches E cf body cs)
     | Some forms \<Rightarrow>
         bindC (emitAt TRY_BEGIN 0) (\<lambda>finallyBegin. thenC (if cs = [] then compileSeq cf body else compileCatches E cf body cs)
         (thenC (emitC TRY_END 0) (thenC (compileFinally cf forms)
         (bindC (emitAt JUMP 0) (\<lambda>endAt. thenC (patchHere finallyBegin) (bindC freshSlot (\<lambda>fxSlot.
           thenC (emitC STORE_CAUGHT fxSlot) (thenC (compileFinally cf forms) (thenC (emitC RETHROW fxSlot) (patchHere endAt)))))))))))
     anyway" for fin cs body
    by (cases fin) (simp_all only: option.case guarded emits_finally [OF assms guarded])
  have q: "emits inside 0 0 (messageOr (splitTry [] [] None (drop 1 lst))) (\<lambda>_. inside)"
    by (rule emits_keep [OF runs_quiet [OF silent_message] stable_inside])
  show "emits inside 0 1 (bindC (messageOr (splitTry [] [] None (drop 1 lst))) (\<lambda>(body, catches, fin).
         thenC (inScope (\<lambda>sc. sc\<lparr>tryDepth := tryDepth sc + 1\<rparr>))
         (let guarded = (if catches = [] then compileSeq cf body else compileCatches E cf body catches) in
          thenC
            (case fin of
               None \<Rightarrow> guarded
             | Some forms \<Rightarrow>
                 bindC (emitAt TRY_BEGIN 0) (\<lambda>finallyBegin.
                 thenC guarded
                 (thenC (emitC TRY_END 0)
                 (thenC (compileFinally cf forms)
                 (bindC (emitAt JUMP 0) (\<lambda>endAt.
                  thenC (patchHere finallyBegin)
                 (bindC freshSlot (\<lambda>fxSlot.
                  thenC (emitC STORE_CAUGHT fxSlot)
                 (thenC (compileFinally cf forms)
                 (thenC (emitC RETHROW fxSlot) (patchHere endAt)))))))))))
            (inScope (\<lambda>sc. sc\<lparr>tryDepth := tryDepth sc - 1\<rparr>))))) anyway"
    by (rule emits_bind [OF q]) (use emits_tryDepth [OF whole] in \<open>auto simp: Let_def split: prod.split\<close>)
qed

end
