(* ===== verification/CompilerOk.thy ===== *)
theory CompilerOk
  imports TryOk
begin

text \<open>
  The compiler as a whole: every form, whatever it is, compiles to a piece of code that leaves its value, or to
  an error; so every module it makes is safe to run once the analysis of its stack has an answer.
\<close>

section \<open>Branches\<close>

lemma runs_ifForm:
  assumes "okc cf"
  shows "runs 0 1 (compileIf cf lst)"
proof -
  note cf = runs_cf [OF assms, of 0, unfolded add_0]
  have nil: "runs 0 1 (emitC PUSH_NIL 0)" using runs_push [of PUSH_NIL 0 0] by simp
  have fork: "runs 0 1 (thenC (cf t) (bindC (emitAt JUMP_IF_FALSE 0) (\<lambda>jif. thenC (cf a)
          (bindC (emitAt JUMP 0) (\<lambda>jmp. thenC (patchHere jif) (thenC els (patchHere jmp)))))))"
    if els: "runs 0 1 els" for t a els
  proof (rule runsI)
    fix s0 u s9 assume st: "good s0" "thenC (cf t) (bindC (emitAt JUMP_IF_FALSE 0) (\<lambda>jif. thenC (cf a)
          (bindC (emitAt JUMP 0) (\<lambda>jmp. thenC (patchHere jif) (thenC els (patchHere jmp)))))) s0 = (Inr u, s9)"
    then obtain a1 s1 j s2 a3 s3 d s4 a5 s5 a6 s6 where steps:
      "cf t s0 = (Inr a1, s1)" "emitAt JUMP_IF_FALSE 0 s1 = (Inr j, s2)" "cf a s2 = (Inr a3, s3)"
      "emitAt JUMP 0 s3 = (Inr d, s4)" "patchHere j s4 = (Inr a5, s5)" "els s5 = (Inr a6, s6)" "patchHere d s6 = (Inr u, s9)"
      unfolding bindC_Inr thenC_Inr by blast
    have e1: "emitted 0 1 s0 s1" by (rule runsD [OF cf st(1) steps(1)])
    note f2 = emitAt_frame [OF emitted_good [OF e1] steps(2)]
    have e3: "emitted 0 1 s2 s3" by (rule runsD [OF cf f2(1) steps(3)])
    have "leads (0 + 1) 0 1 [d] s1 s5" by (rule leads_fork [OF emitted_good [OF e1] steps(2) _ e3 steps(4,5)]) simp
    then have l: "leads 0 0 1 [d] s0 s5" using emit_leads [OF e1] by simp
    have "emitted 0 1 s5 s6" by (rule runsD [OF els leads_frame(1) [OF l] steps(6)])
    from leads_close1 [OF leads_emit [OF l this] steps(7)] show "emitted 0 1 s0 s9" .
  qed
  show ?thesis unfolding compileIf_def Let_def by (intro runs_if runs_error cf nil fork)
qed

lemma leads_short:
  assumes "okc cf" "jump \<in> {JUMP_IF_FALSE, JUMP_IF_TRUE}"
  shows "fs \<noteq> [] \<Longrightarrow> good s0 \<Longrightarrow> compileShort cf jump fs s0 = (Inr ds, s9) \<Longrightarrow> leads 0 1 1 ds s0 s9"
proof (induction fs arbitrary: s0 ds rule: induct_list012)
  case (2 f)
  from 2(3) have "ds = []" "cf f s0 = (Inr (), s9)" by (auto simp: thenC_Inr retC_Inr)
  with leads_emitted [OF runsD [OF runs_cf [OF assms(1), of 0, unfolded add_0] 2(2)]] show ?case by blast
next
  case (3 f g fs)
  from "3.prems"(3) obtain a1 s1 a2 s2 j s3 a4 s4 r where steps:
    "cf f s0 = (Inr a1, s1)" "emitC DUP 0 s1 = (Inr a2, s2)" "emitAt jump 0 s2 = (Inr j, s3)" "emitC POP 0 s3 = (Inr a4, s4)"
    "compileShort cf jump (g # fs) s4 = (Inr r, s9)" "ds = j # r"
    unfolding compileShort.simps bindC_Inr thenC_Inr retC_Inr by blast
  have e1: "emitted 0 1 s0 s1" by (rule runsD [OF runs_cf [OF assms(1), of 0, unfolded add_0] "3.prems"(2) steps(1)])
  have "emitted 1 2 s1 s2" using runsD [OF runs_push [of DUP 1] emitted_good [OF e1] steps(2)] by (simp add: numeral_2_eq_2)
  then have e2: "emitted 0 2 s0 s2" by (rule emitted_trans [OF e1])
  have "leads (1 + 1) 1 1 [j] s2 s3" by (rule leads_guard [OF emitted_good [OF e2] steps(3) assms(2)])
  then have l3: "leads 0 1 1 [j] s0 s3" using emit_leads [OF e2] by (simp add: numeral_2_eq_2)
  have e4: "emitted 1 0 s3 s4" using runsD [OF runs_pop [of 0] leads_frame(1) [OF l3] steps(4)] by simp
  have "leads 0 1 1 r s4 s9" by (rule "3.IH"(2) [OF _ emitted_good [OF e4] steps(5)]) simp
  from leads_seq [OF leads_emit [OF l3 e4] this] steps(6) show ?case by simp
qed simp

lemma runs_andOr:
  assumes "okc cf" "jump \<in> {JUMP_IF_FALSE, JUMP_IF_TRUE}" "unit \<in> {PUSH_NIL, PUSH_TRUE}"
  shows "runs 0 1 (compileAndOr cf unit jump fs)"
proof (cases "fs = []")
  case True
  then show ?thesis using runs_push [of unit 0 0] assms(3) by (auto simp: compileAndOr_def)
next
  case False
  show ?thesis
  proof (rule runsI)
    fix s0 u s9 assume st: "good s0" "compileAndOr cf unit jump fs s0 = (Inr u, s9)"
    then obtain ds s1 where s1: "compileShort cf jump fs s0 = (Inr ds, s1)" "eachC patchHere ds s1 = (Inr u, s9)"
      using False by (auto simp: compileAndOr_def bindC_Inr)
    show "emitted 0 1 s0 s9" by (rule leads_close [OF leads_short [OF assms(1,2) False st(1) s1(1)] s1(2)])
  qed
qed

section \<open>recur\<close>

lemma emits_stores:
  "emits (\<lambda>st. \<forall>s\<in>set slots. slotIn s st) (length slots) 0 (eachC (emitC STORE_LOCAL) slots) anyway"
proof (induction slots)
  case Nil
  show ?case using emits_any [OF runs_ret] by simp
next
  case (Cons s slots)
  let ?all = "\<lambda>st :: 'a comp. \<forall>s\<in>set slots. slotIn s st"
  have stable: "stable ?all" using stable_slotIn unfolding stable_def by blast
  have "emits (slotIn s) (length slots + 1) (length slots) (emitC STORE_LOCAL s) (\<lambda>_. slotIn s)"
    by (rule runs_slot [where i = 1 and j = 0]) (auto simp: net_simps)
  from emits_frame [OF this stable]
  have "emits (\<lambda>st. \<forall>s\<in>set (s # slots). slotIn s st) (length slots + 1) (length slots) (emitC STORE_LOCAL s) (\<lambda>_. ?all)"
    by (rule emits_weaken) auto
  then have "emits (\<lambda>st. \<forall>s\<in>set (s # slots). slotIn s st) (length (s # slots)) (length slots) (emitC STORE_LOCAL s) (\<lambda>_. ?all)"
    by simp
  then show ?case unfolding eachC.simps by (rule emits_then [OF _ Cons.IH])
qed

lemma runs_recur:
  assumes "okc cf"
  shows "runs 0 1 (compileRecur cf lst)"
proof (rule runsI)
  fix s0 u s9 assume st: "good s0" "compileRecur cf lst s0 = (Inr u, s9)"
  define found where "found = (case scopes s0 of [] \<Rightarrow> None | sc # _ \<Rightarrow>
       (case recurStack sc of [] \<Rightarrow> None | tgt # _ \<Rightarrow> Some (tgt, tryDepth sc)))"
  have run: "(case found of None \<Rightarrow> compileError ''recur: no enclosing loop in current scope''
       | Some (tgt, depth) \<Rightarrow>
           if targetDepth tgt \<noteq> depth then compileError ''Cannot recur across try''
           else if length lst - 1 \<noteq> length (recurSlots tgt) then compileError ''recur: arity mismatch with enclosing loop''
           else
             thenC (eachC cf (drop 1 lst))
             (thenC (eachC (emitC STORE_LOCAL) (rev (recurSlots tgt)))
             (bindC (emitAt JUMP_BACK 0) (\<lambda>i. patchC i (i + 1 - bodyStart tgt))))) s0 = (Inr u, s9)"
    using st(2) unfolding compileRecur_def bindC_Inr getC_Inr found_def by blast
  then obtain sc scs tgt tgts where sc: "scopes s0 = sc # scs" "recurStack sc = tgt # tgts"
    by (auto simp: found_def compileError_def throwC_def split: list.splits option.splits)
  then have found: "found = Some (tgt, tryDepth sc)" by (simp add: found_def)
  have same: "targetDepth tgt = tryDepth sc" "length (drop 1 lst) = length (recurSlots tgt)"
    and rest: "thenC (eachC cf (drop 1 lst)) (thenC (eachC (emitC STORE_LOCAL) (rev (recurSlots tgt)))
             (bindC (emitAt JUMP_BACK 0) (\<lambda>i. patchC i (i + 1 - bodyStart tgt)))) s0 = (Inr u, s9)"
    using run unfolding found option.case prod.case by (auto simp: compileError_def throwC_def split: if_splits)
  from rest obtain a1 s1 a2 s2 i s3 where steps:
    "eachC cf (drop 1 lst) s0 = (Inr a1, s1)" "eachC (emitC STORE_LOCAL) (rev (recurSlots tgt)) s1 = (Inr a2, s2)"
    "emitAt JUMP_BACK 0 s2 = (Inr i, s3)" "patchC i (i + 1 - bodyStart tgt) s3 = (Inr u, s9)"
    unfolding bindC_Inr thenC_Inr by blast
  have e1: "emitted 0 (length (recurSlots tgt)) s0 s1"
    using runsD [OF runs_each [OF assms, of 0] st(1) steps(1)] same(2) by simp
  have "slotIn s s0" if "s \<in> set (recurSlots tgt)" for s
    using st(1) sc that by (auto simp: good_def scopeOk_def slotIn_def)
  then have "\<forall>s\<in>set (rev (recurSlots tgt)). slotIn s s1" using slotIn_grows [OF emitted_grows [OF e1]] by simp
  from emitsD [OF emits_stores emitted_good [OF e1] this steps(2)]
  have e2: "emitted (length (recurSlots tgt)) 0 s1 s2" by simp
  show "emitted 0 1 s0 s9" by (rule emitted_recur [OF st(1) sc(1) _ same(1) e1 e2 steps(3,4)]) (simp add: sc(2))
qed

section \<open>Calls\<close>

lemma runs_finishCall:
  assumes "okc cf"
  shows "runs 1 1 (finishCall cf lst)"
proof -
  have "runs 1 (1 + (length lst - 1)) (compileArgs cf lst)"
    using runs_each [OF assms, of 1 "drop 1 lst"] by (simp add: compileArgs_def)
  moreover have "runs (1 + (length lst - 1)) 1 (emitC op (length lst - 1))" if "op \<in> {CALL, CALL_KW}" for op
    using runs_call [OF that, of 0 "length lst - 1"] by (simp add: add.commute)
  ultimately show ?thesis unfolding finishCall_def by (intro runs_then) auto
qed

lemma runs_prefix: "runs 0 1 (compileQualifiedPrefix E name)"
  unfolding compileQualifiedPrefix_def
  by (rule runs_resolve)
    (simp_all only: option.case emits_pushLocal [of _ 0, unfolded add_0] runs_const [OF adder_symbol, of PUSH_VAR 0, unfolded add_0] insert_iff simp_thms)

lemma runs_var: "runs 0 1 (emitConst PUSH_VAR (symC E s))"
  using runs_const [OF adder_symbol, of PUSH_VAR 0] by simp

lemma runs_literal: "adder add \<Longrightarrow> runs 0 1 (emitConst PUSH_CONST add)"
  using runs_const [of add PUSH_CONST 0] by simp

lemma runs_namedCall:
  assumes "okc cf"
  shows "runs 0 1 (compileNamedCall E cf lst headName coreQualified)"
proof -
  note call = runs_finishCall [OF assms]
  have args: "runs 1 (length lst - 1 + 1) (compileArgs cf lst)"
    using runs_each [OF assms, of 1 "drop 1 lst"] by (simp add: compileArgs_def add.commute)
  have "runs 1 1 (thenC (compileArgs cf lst) (thenC (emitC CALL_MEMBER (length lst - 1)) (emitConst NOP (symC E m))))" for m
    by (rule runs_then [OF args emits_member])
  from runs_then [OF runs_prefix this]
  have member: "runs 0 1 (thenC (compileQualifiedPrefix E n) (thenC (compileArgs cf lst)
                (thenC (emitC CALL_MEMBER (length lst - 1)) (emitConst NOP (symC E m)))))" for n m .
  have local: "emits (slotIn s) 0 1 (thenC (emitC PUSH_LOCAL s) (finishCall cf lst)) anyway" for s
    by (rule emits_after [OF emits_pushLocal [of s 0, unfolded add_0] call])
  have "runs 0 1 (bindC (resolveLocal headName) (\<lambda>slot.
          case slot of
            Some s \<Rightarrow> thenC (emitC PUSH_LOCAL s) (finishCall cf lst)
          | None \<Rightarrow>
              if isQualifiedName headName then
                thenC (compileQualifiedPrefix E headName)
                (thenC (compileArgs cf lst)
                (thenC (emitC CALL_MEMBER (length lst - 1)) (emitConst NOP (symC E (memberOf headName)))))
              else thenC (emitConst PUSH_VAR (symC E headName)) (finishCall cf lst)))"
    by (rule runs_resolve) (simp_all only: option.case local runs_if member runs_then [OF runs_var call])
  then show ?thesis unfolding compileNamedCall_def
    by (intro runs_if runs_then [OF runs_var call] runs_then [OF runs_cf [OF assms, of 0, unfolded add_0] call])
qed

lemma runs_inlineOp: "runs 0 0 (inlineOp E headName coreQualified)"
proof -
  have "runs 0 0 (bindC (resolveLocal headName) (\<lambda>shadow. if shadow \<noteq> None then retC None
      else getC (\<lambda>st. if operatorRedefined E (compWorld st) headName then None else Some op)))" for op
    by (rule emits_bind [OF emits_resolve], rule emits_any [where R = anyway]) (intro runs_if runs_ret runs_quiet silent_basic)
  then show ?thesis unfolding inlineOp_def by (intro runs_option runs_if runs_ret)
qed

lemma inlined_binary: "inlineOp E headName cq st = (Inr (Some op), st') \<Longrightarrow> op \<in> binaryOps"
proof -
  assume "inlineOp E headName cq st = (Inr (Some op), st')"
  then have "binOpOf headName = Some op"
    by (auto simp: inlineOp_def retC_Inr bindC_Inr getC_Inr split: option.splits if_splits)
  then show ?thesis by (auto simp: binOpOf_def binaryOps_def split: if_splits)
qed

lemma runs_callForm:
  assumes "okc cf"
  shows "runs 0 1 (compileCall E cf lst headName coreQualified)"
proof -
  note cf = runs_cf [OF assms, of 0, unfolded add_0]
  have fold: "runs 0 1 (thenC (cf a) (foldOperands cf op n fs))" if "op \<in> binaryOps" for a op n fs
    by (rule runs_then [OF cf]) (use runs_fold [OF assms that, of 0 n fs] in simp)
  have i: "emits always 0 0 (inlineOp E headName coreQualified) (\<lambda>r _. \<forall>op. r = Some op \<longrightarrow> op \<in> binaryOps)"
  proof (rule emitsI)
    fix st x st' assume "good st" "inlineOp E headName coreQualified st = (Inr x, st')"
    then show "emitted 0 0 st st' \<and> (\<forall>op. x = Some op \<longrightarrow> op \<in> binaryOps)"
      using runsD [OF runs_inlineOp] inlined_binary by blast
  qed
  have "runs 0 1 (bindC (inlineOp E headName coreQualified) (\<lambda>inlined.
          case inlined of
            Some op \<Rightarrow>
              if length lst \<ge> 3 \<and> (op \<in> {LT, LE, GT, GE, EQ} \<longrightarrow> length lst = 3)
              then thenC (cf (lst ! 1)) (foldOperands cf op (if coreQualified then 1 else 0) (drop 2 lst))
              else compileNamedCall E cf lst headName coreQualified
          | None \<Rightarrow> compileNamedCall E cf lst headName coreQualified))"
  proof (rule emits_bind [OF i])
    fix r :: "Op option"
    show "emits (\<lambda>_. \<forall>op. r = Some op \<longrightarrow> op \<in> binaryOps) 0 1 (case r of
            Some op \<Rightarrow>
              if length lst \<ge> 3 \<and> (op \<in> {LT, LE, GT, GE, EQ} \<longrightarrow> length lst = 3)
              then thenC (cf (lst ! 1)) (foldOperands cf op (if coreQualified then 1 else 0) (drop 2 lst))
              else compileNamedCall E cf lst headName coreQualified
          | None \<Rightarrow> compileNamedCall E cf lst headName coreQualified) anyway"
    proof (cases "\<forall>op. r = Some op \<longrightarrow> op \<in> binaryOps")
      case True
      note fold' = fold [of _ "lst ! 1" "if coreQualified then 1 else 0" "drop 2 lst"]
      show ?thesis
      proof (cases r)
        case None
        then show ?thesis using emits_any [OF runs_namedCall [OF assms]] by (simp only: option.case)
      next
        case (Some op)
        with True have "op \<in> binaryOps" by blast
        then show ?thesis unfolding Some option.case
          by (intro emits_any [OF runs_if [OF fold' runs_namedCall [OF assms]]])
      qed
    next
      case False
      then show ?thesis unfolding emits_def by blast
    qed
  qed
  then show ?thesis unfolding compileCall_def by (intro runs_if runs_then [OF cf runs_finishCall [OF assms]])
qed

lemma runs_apply:
  assumes "okc cf"
  shows "runs 0 1 (compileApply E cf lst)"
proof -
  note cf = runs_cf [OF assms, of 0, unfolded add_0]
  have cf1: "runs 1 2 (cf f)" for f using runs_cf [OF assms, of 1 f] by (simp add: numeral_2_eq_2)
  have ap: "runs 2 1 (emitC CALL_APPLY 0)" 
    by (rule runs_binary [of CALL_APPLY 0 0, unfolded add_0]) (simp add: binaryOps_def)
  have var: "runs 1 2 (emitConst PUSH_VAR (symC E s))" for s
    using runs_const [OF adder_symbol, of PUSH_VAR 1 E s] by (simp add: numeral_2_eq_2)
  have args: "runs 2 (1 + (length lst - 2 + 1)) (eachC cf (drop 2 lst))"
    using runs_each [OF assms, of 2 "drop 2 lst"] by (simp add: add.commute)
  have call: "runs (1 + (length lst - 2 + 1)) 2 (emitC CALL (length lst - 2))"
    using runs_call [of CALL 1 "length lst - 2"] by (simp add: numeral_2_eq_2)
  show ?thesis unfolding compileApply_def
    by (intro runs_if runs_error runs_then [OF cf] runs_then [OF _ ap] runs_if cf1 runs_then [OF var] runs_then [OF args call])
qed

lemma runs_coll:
  assumes "okc cf"
  shows "runs 0 1 (compileColl E cf builder items)"
proof -
  have "runs 1 1 (thenC (eachC cf items) (emitC CALL (length items)))"
    using runs_then [OF runs_each [OF assms, of 1 items]] runs_call [of CALL 0 "length items"] by (simp add: add.commute)
  from runs_then [OF runs_var this] show ?thesis by (simp add: compileColl_def)
qed

section \<open>Symbols and literals\<close>

lemma runs_get: "(\<And>a. runs p q (f a)) \<Longrightarrow> runs p q (bindC (getC g) f)"
  by (rule emits_bind [OF runs_quiet [OF silent_basic(4)]])

lemma runs_message: "(\<And>a. runs p q (f a)) \<Longrightarrow> runs p q (bindC (messageOr r) f)"
  by (rule emits_bind [OF runs_quiet [OF silent_message]])

lemma runs_symbol: "runs 0 1 (compileSymbol E written)"
proof -
  have member: "runs 0 1 (thenC (compileQualifiedPrefix E n) (emitConst GET_MEMBER (symC E m)))" for n m
    by (rule runs_then [OF runs_prefix runs_symbols(2) [of 0, unfolded add_0]])
  have "runs 0 1 (bindC (resolveLocal n) (\<lambda>slot. case slot of
       Some s \<Rightarrow> emitC PUSH_LOCAL s
     | None \<Rightarrow> if b then compileError msg else if c then thenC (compileQualifiedPrefix E n) (emitConst GET_MEMBER (symC E m))
         else emitConst PUSH_VAR (symC E n)))" for n m b c msg
    by (rule runs_resolve) (simp_all only: option.case emits_pushLocal [of _ 0, unfolded add_0] runs_if runs_error member runs_var)
  then show ?thesis unfolding compileSymbol_def
    by (intro runs_message runs_get runs_if runs_option runs_error runs_literal runs_var adder_consts)
qed

lemma runs_quote:
  assumes "okc cf"
  shows "runs 0 1 (compileQuote E cf lst)"
proof -
  have "runs 0 1 (case lst ! 1 of
          FNamed s \<Rightarrow> emitConst PUSH_CONST (addNamed s (namedObj E s))
        | q \<Rightarrow> if b q then cf q else emitConst PUSH_CONST (addDatum (datumObj E q)))" for b
    by (cases "lst ! 1") (simp_all only: form.case runs_if runs_cf [OF assms, of 0, unfolded add_0] runs_literal adder_consts)
  then show ?thesis unfolding compileQuote_def by (intro runs_if runs_error)
qed

section \<open>Definitions and macros\<close>

lemma runs_def:
  assumes "okc cf"
  shows "runs 0 1 (compileDef E cf lst)"
  unfolding compileDef_def
  by (intro runs_if runs_error runs_option runs_then [OF runs_cf [OF assms, of 0, unfolded add_0] runs_storeGlobal])

lemma runs_defmacro:
  assumes "okc cf"
  shows "runs 0 1 (compileDefmacro E cf lst)"
proof -
  have "runs 2 1 (emitC CALL 1)" using runs_call [of CALL 0 1] by (simp add: numeral_2_eq_2)
  then have "runs 1 1 (thenC (cf f) (thenC (emitC CALL 1) (emitStoreGlobal E key)))" for f key
    using runs_then [OF runs_cf [OF assms, of 1 f] runs_then [OF _ runs_storeGlobal]] by (simp add: numeral_2_eq_2)
  then show ?thesis unfolding compileDefmacro_def
    by (intro runs_if runs_error runs_option runs_message runs_then [OF runs_var])
qed

lemma silent_localEnv: "silent localEnv" and silent_macro: "silent (macroForHead E head)"
  by (auto simp: localEnv_def macroForHead_def intro: silent_intros)

lemma runs_macroCall:
  assumes "okc cf"
  shows "runs 0 1 (compileMacroCall E cf f m)"
  unfolding compileMacroCall_def
  by (cases m) (simp only: prod.case,
      rule emits_bind [OF runs_quiet [OF silent_localEnv]], rule emits_bind [OF runs_quiet [OF silent_expand]],
      rule runs_cf [OF assms, of 0, unfolded add_0])

section \<open>Every form\<close>

lemma runs_list:
  assumes "okc cf"
  shows "runs 0 1 (compileList E d cf lst)"
proof -
  have throw: "runs 0 1 (thenC (cf f) (emitC THROW 0))" for f
    by (rule runs_then [OF runs_cf [OF assms, of 0, unfolded add_0]]) (rule emits_weaken [OF emits_end [where A = always]], auto)
  have "runs 0 1 (case h of (headName, coreQualified) \<Rightarrow>
        bindC (macroForHead E (hd lst)) (\<lambda>macro.
          case macro of
            Some m \<Rightarrow> compileMacroCall E cf (FList lst) m
          | None \<Rightarrow>
              if headName = ''defmacro'' then compileDefmacro E cf lst
              else if headName = ''def'' then compileDef E cf lst
              else if headName = ''if'' then compileIf cf lst
              else if headName = ''and'' then compileAndOr cf PUSH_TRUE JUMP_IF_FALSE (tl lst)
              else if headName = ''or'' then compileAndOr cf PUSH_NIL JUMP_IF_TRUE (tl lst)
              else if headName = ''do'' then compileSeq cf (tl lst)
              else if headName = ''quote'' then compileQuote E cf lst
              else if coreQualified \<and> headName = ''unquote'' then compileError m1
              else if coreQualified \<and> headName = ''unquote-splicing'' then compileError m2
              else if headName = ''fn'' \<or> headName = ''defn'' then compileFnForm E cf lst headName
              else if headName = ''let'' then compileLetForm E d cf lst
              else if headName = ''loop'' then compileLoopForm E cf lst
              else if headName = ''try'' then compileTry E cf lst
              else if headName = ''throw'' then
                if length lst \<noteq> 2 then compileError ''Too many arguments to throw, throw expects a single exception''
                else thenC (cf (lst ! 1)) (emitC THROW 0)
              else if headName = ''apply'' then compileApply E cf lst
              else if headName = ''recur'' then compileRecur cf lst
              else compileCall E cf lst headName coreQualified))" for h m1 m2
    unfolding split_beta
    by (rule emits_bind [OF runs_quiet [OF silent_macro]],
        intro runs_option runs_if runs_error throw runs_macroCall [OF assms] runs_defmacro [OF assms] runs_def [OF assms]
          runs_ifForm [OF assms] runs_andOr [OF assms] runs_seq [OF assms, of 0, unfolded add_0] runs_quote [OF assms]
          runs_fnForm [OF assms] runs_letForm [OF assms] runs_loopForm [OF assms] runs_try [OF assms] runs_apply [OF assms]
          runs_recur [OF assms] runs_callForm [OF assms])
      simp_all
  then show ?thesis unfolding compileList_def
    by (intro runs_if runs_literal adder_consts runs_message)
qed

lemma compileForm_ok: "okc (compileForm E d)"
proof (induction d)
  case 0
  show ?case by (simp add: okc_def runs_error)
next
  case (Suc d)
  have "runs 0 1 (compileForm E (Suc d) f)" for f
  proof (cases f)
    case (FSet xs)
    show ?thesis unfolding FSet compileForm.simps form.case
      by (rule runs_if [OF runs_literal [OF adder_consts(6)] runs_coll [OF Suc]])
  qed (simp_all only: compileForm.simps form.case runs_push [of _ 0 0, unfolded add_0] insert_iff simp_thms
        runs_literal adder_consts adder_integer runs_list [OF Suc] runs_coll [OF Suc] runs_symbol)
  then show ?case by (simp add: okc_def)
qed

end
