(* ===== verification/CompileRuns.thy ===== *)
theory CompileRuns
  imports CompilerOk
begin

text \<open>
  Rules that run the compiler on concrete forms: names without a namespace, the head of a list, and a function
  of one parameter. They evaluate the programs of the theory \<open>Compiled\<close>.
\<close>

section \<open>Names without a namespace\<close>

text \<open>Every name of the tables of the library namespaces has a slash.\<close>

lemma alias_plain:
  assumes "CHR ''/'' \<notin> set s"
  shows "aliasLibraryNamespace al s = Inr s"
proof -
  have no: "take (length k) s \<noteq> k" if "CHR ''/'' \<in> set k" for k using that assms set_take_subset [of "length k" s] by auto
  have tables: "list_all (\<lambda>e. CHR ''/'' \<in> set (fst e)) (objectNamespaces @ builtinNamespaces)" "CHR ''/'' \<in> set kCore"
    by code_simp+
  have "\<not> providing s e" if "e \<in> set (objectNamespaces @ builtinNamespaces)" for e
    using no [of "fst e"] tables(1) that by (auto simp: providing_def list_all_iff)
  then have "\<not> list_ex (providing s) objectNamespaces" "find (providing s) builtinNamespaces = None"
    by (auto simp: list_ex_iff find_None_iff)
  with no [OF tables(2)] assms show ?thesis by (simp add: aliasLibraryNamespace_def resolveAlias_def Let_def)
qed

lemma core_plain: "CHR ''/'' \<notin> set s \<Longrightarrow> stripCoreQualifier s = None"
  using set_take_subset [of "length kCore" s] by (auto simp: stripCoreQualifier_def kCore_def)

lemma key_plain: "CHR ''/'' \<notin> set s \<Longrightarrow> s \<noteq> [] \<Longrightarrow> hd s \<noteq> CHR '':'' \<Longrightarrow> globalKeyForSymbol s = Some s"
  using set_take_subset [of 5 s] by (auto simp: globalKeyForSymbol_def)

lemma user_plain: "CHR ''/'' \<notin> set s \<Longrightarrow> \<not> isUserQualified s"
  using set_take_subset [of 5 s] by (auto simp: isUserQualified_def)

text \<open>An environment without macros in which no operator of the core was redefined.\<close>

definition noMacros :: "'w compEnv \<Rightarrow> bool" where
  "noMacros E \<longleftrightarrow> (\<forall>w s. globalMacro E w s = None) \<and> (\<forall>w s. \<not> operatorRedefined E w s)"

lemma noMacrosD: "noMacros E \<Longrightarrow> globalMacro E w s = None" "noMacros E \<Longrightarrow> \<not> operatorRedefined E w s"
  by (simp_all add: noMacros_def)

definition plainName :: "string \<Rightarrow> bool" where
  "plainName s \<longleftrightarrow> s \<noteq> [] \<and> CHR ''/'' \<notin> set s \<and> hd s \<noteq> CHR '':''"

section \<open>The steps\<close>

lemmas run_monad = thenC_def bindC_def retC_def throwC_def getC_def modifyC_def messageOr_def

lemma run_symbol:
  assumes "plainName s" "resolveIn s (scopes st) = Some (slot, scopes st)"
  shows "compileForm E (Suc d) (FNamed s) st = emitC PUSH_LOCAL slot st"
  using assms by (simp add: compileSymbol_def alias_plain plainName_def run_monad core_plain isKeywordName_def
    user_plain key_plain resolveLocal_def)

lemma run_list:
  assumes "plainName s" "noMacros E"
  shows "compileForm E (Suc d) (FList (FNamed s # args)) st = compileList E d (compileForm E d) (FNamed s # args) st"
   "messageOr (headOf E (FNamed s)) st = (Inr (if s = ''fn*'' then ''fn'' else s, False), st)"
   "macroForHead E (FNamed s) st = (Inr None, st)"
  using assms by (auto simp: headOf_def macroForHead_def alias_plain plainName_def run_monad core_plain key_plain nameOf_def noMacros_def)

lemma run_heads:
  assumes "noMacros E"
  shows "compileForm E (Suc d) (FList (FNamed ''if'' # args)) = compileIf (compileForm E d) (FNamed ''if'' # args)"
    "compileForm E (Suc d) (FList (FNamed ''fn'' # args)) = compileFnForm E (compileForm E d) (FNamed ''fn'' # args) ''fn''"
    "compileForm E (Suc d) (FList (FNamed ''recur'' # args)) = compileRecur (compileForm E d) (FNamed ''recur'' # args)"
    "compileForm E (Suc d) (FList (FNamed ''+'' # args)) = compileCall E (compileForm E d) (FNamed ''+'' # args) ''+'' False"
  using assms by (auto simp: plainName_def compileList_def bindC_def run_list)

definition instr :: "Op \<Rightarrow> nat \<Rightarrow> Instr" where
  "instr op n = encodeInstr op (word_of_nat n)"

lemma instr_parts [simp]:
  "n \<le> kMaxOperand \<Longrightarrow> instrOp (instr op n) = Some op" "n \<le> kMaxOperand \<Longrightarrow> instrOperand (instr op n) = n"
  by (simp_all add: instr_def instr_decode)

lemma run_emitAt:
  "n \<le> kMaxOperand \<Longrightarrow> emitAt op n st = (Inr (length (code (out st))), st\<lparr>out := (out st)\<lparr>code := code (out st) @ [instr op n],
     hasHandlers := hasHandlers (out st) \<or> op = TRY_BEGIN\<rparr>\<rparr>)"
  by (simp add: emitAt_def emit_eq instr_def)

lemma instr_patch: "k \<le> kMaxOperand \<Longrightarrow> push_bit kOperandShift (word_of_nat n) OR (instr op k AND 0xFF) = instr op n"
  using order_less_trans [OF opcode_less, of 256 op] by (simp add: instr_def encodeInstr_def low_byte)

lemma run_patch:
  assumes "i < length (code (out st))" "code (out st) ! i = instr op k" "k \<le> kMaxOperand" "n \<le> kMaxOperand"
  shows "patchC i n st = (Inr (), st\<lparr>out := (out st)\<lparr>code := (code (out st))[i := instr op n]\<rparr>\<rparr>)"
  using assms by (simp add: patchC_def patchOperand_eq instr_patch)

lemma run_laws: "bindC (retC a) f = f a" "thenC (retC a) n = n" "thenC m (retC ()) = m" for m :: "('w, unit) cm"
  by (auto simp: run_monad fun_eq_iff split: sum.split prod.split)

lemma run_arity:
  assumes "plainName s" "s \<noteq> ''&''"
  shows "compileArity E cf [FNamed s] body = arityBody E cf [FNamed s] NoRest body"
proof -
  have "rewriteParams E False [FNamed s] = retC ([], [FNamed s])"
    using assms by (simp add: run_laws isVectorForm_def isMapForm_def isNameForm_def isKeywordForm_def isKeywordName_def nameOf_def plainName_def)
  moreover have "parseRest E [FNamed s] = Inr ([FNamed s], NoRest)" using assms by (simp add: parseRest_def amp_def sym_def)
  ultimately show ?thesis by (simp add: compileArity_def run_laws messageOr_def)
qed

lemma run_body:
  assumes "plainName s" "s \<noteq> ''&''"
  shows "compileFnForm E cf [FNamed ''fn'', FVec [FNamed s], f] ''fn'' =
    bindC (arityBody E cf [FNamed s] NoRest [f]) (\<lambda>m. bindC (addBlockC m) (\<lambda>i. thenC (pushCaptures m) (emitC MAKE_FN i)))"
proof -
  have "compileFnBody E cf [FNamed ''fn'', FVec [FNamed s], f] = arityBody E cf [FNamed s] NoRest [f]"
    by (simp add: compileFnBody_def run_arity [OF assms] run_laws paramList_def nameOf_def formAt_def core_plain isNameForm_def
      isVectorForm_def itemsOf_def)
  then show ?thesis by (simp add: compileFnForm_def run_laws formAt_def isListForm_def nameOf_def isNameForm_def)
qed

lemma run_arityBody:
  fixes cf :: "'w compiler"
  assumes "plainName s" "cf f st1 = (Inr (), st2)"
    "st1 = st\<lparr>out := emptyModule\<lparr>arity := 1\<rparr>, scopes := newScope\<lparr>scopeArity := 1, nextSlot := 1, nameToSlot := [(s, 0)],
      recurStack := [\<lparr>bodyStart = 0, recurSlots = [0], targetDepth = 0\<rparr>]\<rparr> # scopes st\<rparr>"
  shows "arityBody E cf [FNamed s] NoRest [f] st =
    (let m = (out st2)\<lparr>code := code (out st2) @ [instr RETURN 0]\<rparr> in
     (Inr (clearLastReads 1 1 (finishModule (hd (scopes st2)) m)), st2\<lparr>out := out st, scopes := tl (scopes st2)\<rparr>))"
  using assms(1,2)
  by (simp add: arityBody_def run_laws thenC_def bindC_def retC_def getC_def modifyC_def bindRest_def
    bindFixed_def isNameForm_def nameOf_def plainName_def isQualifiedName_def freshSlot_def topScope_def inScope_def setSlot_def
    newScope_def posC_def bodyModule_def pushTarget_def emitC_def run_emitAt kMaxOperand_def assms(3) emptyModule_def)

text \<open>A top-level function of one parameter.\<close>

lemma run_top:
  fixes w :: 'w
  assumes "noMacros E" "plainName s" "s \<noteq> ''&''" "compileForm E d f st1 = (Inr (), st2)"
    "st1 = (newCompiler n w)\<lparr>out := emptyModule\<lparr>arity := 1\<rparr>, scopes := [newScope\<lparr>scopeArity := 1, nextSlot := 1, nameToSlot := [(s, 0)],
      recurStack := [\<lparr>bodyStart = 0, recurSlots = [0], targetDepth = 0\<rparr>]\<rparr>]\<rparr>"
    "made st2 = []" "captureSpecs m = []"
    "m = clearLastReads 1 1 (finishModule (hd (scopes st2)) ((out st2)\<lparr>code := code (out st2) @ [instr RETURN 0]\<rparr>))"
  shows "\<exists>st. compileTopLevel E (Suc d) (FList [FNamed ''fn'', FVec [FNamed s], f]) (newCompiler n w) = (Inr (), st) \<and> made st = [m]"
proof -
  have b: "arityBody E (compileForm E d) [FNamed s] NoRest [f] (newCompiler n w) =
      (Inr m, st2\<lparr>out := emptyModule, scopes := tl (scopes st2)\<rparr>)"
    using run_arityBody [where cf = "compileForm E d" and ?st1.0 = st1 and st = "newCompiler n w" and E = E, OF assms(2,4)] assms(5,8) by (simp add: newCompiler_def Let_def)
  have r: "emitC op 0 s0 = (Inr (), s0\<lparr>out := (out s0)\<lparr>code := code (out s0) @ [instr op 0],
     hasHandlers := hasHandlers (out s0) \<or> op = TRY_BEGIN\<rparr>\<rparr>)" for op and s0 :: "'w comp"
    by (simp add: emitC_def run_laws bindC_def thenC_def run_emitAt retC_def)
  show ?thesis
    using assms(6,7) by (simp add: compileTopLevel_def run_heads [OF assms(1)] run_body [OF assms(2,3)] thenC_def bindC_def b
      addBlockC_def pushCaptures_def getC_def modifyC_def addC_def addBlock_def retC_def r emptyModule_def del: compileForm.simps)
qed

section \<open>A recur that is not in tail position\<close>

lemma four: "4 = Suc (Suc (Suc (Suc 0)))"
  by simp

lemma run_nontail:
  assumes "noMacros E" "st = \<lparr>out = emptyModule\<lparr>arity := 1\<rparr>, made = [], scopes = [newScope\<lparr>scopeArity := 1, nextSlot := 1, nameToSlot := [(''n'', 0)],
      recurStack := [\<lparr>bodyStart = 0, recurSlots = [0], targetDepth = 0\<rparr>]\<rparr>], freshId = i, compWorld = w\<rparr>"
  shows "compileForm E (Suc (Suc (Suc d))) (FList [FNamed ''+'', FNamed ''n'', FList [FNamed ''recur'', FNamed ''n'']]) st =
    (Inr (), st\<lparr>out := (out st)\<lparr>code := [instr PUSH_LOCAL 0, instr PUSH_LOCAL 0, instr STORE_LOCAL 0, instr JUMP_BACK 4, instr ADD 0]\<rparr>\<rparr>)"
  using assms
  by (simp add: run_heads run_symbol plainName_def newScope_def slotOf_def emptyModule_def emitC_def run_emitAt kMaxOperand_def compileCall_def
    inlineOp_def binOpOf_def isNameForm_def formAt_def run_laws compileRecur_def posC_def run_patch resolveLocal_def bindC_def getC_def retC_def thenC_def noMacrosD four del: compileForm.simps)

definition nonTail :: BytecodeModule where
  "nonTail = emptyModule\<lparr>arity := 1, code := [instr PUSH_LOCAL 0, instr PUSH_LOCAL 0, instr STORE_LOCAL 0, instr JUMP_BACK 4,
     instr ADD 0, instr RETURN 0]\<rparr>"

lemma nonTail_made:
  assumes "noMacros E"
  shows "\<exists>st. compileTopLevel E (Suc (Suc (Suc (Suc d))))
      (FList [FNamed ''fn'', FVec [FNamed ''n''], FList [FNamed ''+'', FNamed ''n'', FList [FNamed ''recur'', FNamed ''n'']]])
      (newCompiler n w) = (Inr (), st) \<and> made st = [nonTail]"
proof -
  note c = run_nontail [where d = d and i = n and w = w, OF assms refl]
  show ?thesis
    by (rule run_top [OF assms _ _ c])
      (simp_all add: plainName_def newCompiler_def newScope_def nonTail_def finishModule_def clearLastReads_def readSlots_def
        clearable_def placesOf_def kMaxOperand_def emptyModule_def List.map_filter_def)
qed

lemma nonTail_unbounded: "computeMaxStack caps nonTail = None"
proof (rule ccontr)
  assume "computeMaxStack caps nonTail \<noteq> None"
  then obtain r where r: "computeMaxStack caps nonTail = Some r" by blast
  have f: "flows caps nonTail 0 0" by (rule flows_start) (simp add: nonTail_def)
  have s: "succs caps nonTail 0 0 = [(1, 1)]" "succs caps nonTail 1 1 = [(2, 2)]" "succs caps nonTail 2 2 = [(3, 1)]" "succs caps nonTail 3 1 = [(0, 1)]"
    by (simp_all add: nonTail_def succs_def flowOf_def kMaxOperand_def)
  have l: "length (code nonTail) = 6" by (simp add: nonTail_def)
  note go = path_step [where caps = caps and M = nonTail and i = 0 and d = 0]
  have "path caps nonTail 0 0 1 1" using go [OF path_refl, of 1 1] s(1) l by simp
  from go [OF this, of 2 2] have "path caps nonTail 0 0 2 2" using s(2) l by simp
  from go [OF this, of 3 1] have "path caps nonTail 0 0 3 1" using s(3) l by simp
  from go [OF this, of 0 1] have "path caps nonTail 0 0 0 (0 + 1)" using s(4) l by simp
  from deeper_unbounded [OF this _ f, of "int r"] obtain e where "flows caps nonTail 0 e" "int r < e" by auto
  moreover have "\<And>w. w \<in> set (code nonTail) \<Longrightarrow> instrOp w \<noteq> None" by (auto simp: nonTail_def kMaxOperand_def)
  ultimately show False using computeMaxStack_bounds(2) [OF r] by fastforce
qed

lemma nonTail_overflows: "\<exists>i d. flows caps nonTail i d \<and> overflows caps nonTail i d"
proof -
  have "\<And>w. w \<in> set (code nonTail) \<Longrightarrow> instrOp w \<noteq> None" by (auto simp: nonTail_def kMaxOperand_def)
  then show ?thesis using computeMaxStack_cases [of nonTail caps] by (simp add: nonTail_unbounded)
qed

section \<open>A conditional\<close>

definition testForm :: form where
  "testForm = FList [FNamed ''if'', FNamed ''n'', FTrue, FFalse]"

definition testBody :: BytecodeModule where
  "testBody = emptyModule\<lparr>arity := 1, code := [instr PUSH_LOCAL_CLEAR 0, instr JUMP_IF_FALSE 2, instr PUSH_TRUE 0, instr JUMP 1,
     instr PUSH_FALSE 0, instr RETURN 0]\<rparr>"

lemma instr_two: "instr op (Suc (Suc 0)) = instr op 2"
  by (simp add: numeral_2_eq_2)

lemma run_test:
  assumes "noMacros E" "st = \<lparr>out = emptyModule\<lparr>arity := 1\<rparr>, made = [], scopes = [newScope\<lparr>scopeArity := 1, nextSlot := 1, nameToSlot := [(''n'', 0)],
      recurStack := [\<lparr>bodyStart = 0, recurSlots = [0], targetDepth = 0\<rparr>]\<rparr>], freshId = i, compWorld = w\<rparr>"
  shows "compileForm E (Suc (Suc d)) testForm st =
    (Inr (), st\<lparr>out := (out st)\<lparr>code := [instr PUSH_LOCAL 0, instr JUMP_IF_FALSE 2, instr PUSH_TRUE 0, instr JUMP 1, instr PUSH_FALSE 0]\<rparr>\<rparr>)"
proof -
  have c: "compileForm E (Suc d) FTrue = emitC PUSH_TRUE 0" "compileForm E (Suc d) FFalse = emitC PUSH_FALSE 0" by simp_all
  show ?thesis using assms
    by (simp add: testForm_def run_heads run_symbol c plainName_def newScope_def slotOf_def emptyModule_def emitC_def run_emitAt kMaxOperand_def
      compileIf_def literalTrue_def run_laws posC_def run_patch patchHere_def bindC_def getC_def retC_def thenC_def instr_two Let_def isKeywordForm_def isKeywordName_def isNameForm_def nameOf_def del: compileForm.simps)
qed

lemma instr_patchOp:
  assumes "i < length (code m)" "code m ! i = instr op k" "k \<le> kMaxOperand"
  shows "patchOp i op' m = m\<lparr>code := (code m)[i := instr op' k]\<rparr>"
proof -
  have m: "(0xFF :: Instr) = mask 8" by (simp add: mask_eq_exp_minus_1)
  have w: "w AND NOT 0xFF = push_bit kOperandShift (drop_bit kOperandShift w)" for w :: Instr
    unfolding kOperandShift_def m by (rule bit_eqI) (auto simp: bit_simps)
  have "unat (drop_bit kOperandShift (instr op k)) = k" using instr_parts(2) [OF assms(3), of op] by (simp add: instrOperand_def)
  then have "drop_bit kOperandShift (instr op k) = word_of_nat k" using assms(3) by (simp add: word_unat_eq_iff unat_of_nat kMaxOperand_def)
  then have "instr op k AND NOT 0xFF = push_bit kOperandShift (word_of_nat k)" by (simp only: w)
  with assms(2) show ?thesis by (simp only: patchOp_def instr_def [of op'] encodeInstr_def)
qed

lemma testBody_made:
  assumes "noMacros E"
  shows "\<exists>st. compileTopLevel E (Suc (Suc (Suc d))) (FList [FNamed ''fn'', FVec [FNamed ''n''], testForm]) (newCompiler n w) = (Inr (), st) \<and>
    made st = [testBody]"
proof -
  note c = run_test [where d = d and i = n and w = w, OF assms refl]
  show ?thesis
    by (rule run_top [OF assms _ _ c])
      (simp_all add: plainName_def newCompiler_def newScope_def testBody_def finishModule_def clearLastReads_def readSlots_def
        clearable_def placesOf_def kMaxOperand_def emptyModule_def List.map_filter_def bannedSlot_def readOnce_def loopRanges_def instr_patchOp)
qed

lemma testBody_stack: "\<exists>r. computeMaxStack caps testBody = Some r"
proof -
  have "(i, d) \<in> {(0, 0), (1, 1), (2, 0), (3, 1), (4, 0), (5, 1)}" if "flows caps testBody i d" for i d
    using that by (induction rule: flows.induct) (auto simp: succs_def flowOf_def testBody_def kMaxOperand_def)
  then have "\<not> overflows caps testBody i d" if "flows caps testBody i d" for i d
    using that by (fastforce simp: overflows_def raises_def capturesAt_def intMax_def testBody_def kMaxOperand_def)
  moreover have "\<forall>w\<in>set (code testBody). instrOp w \<noteq> None" by (auto simp: testBody_def kMaxOperand_def)
  ultimately show ?thesis using computeMaxStack_cases [of testBody caps] by (auto split: option.splits)
qed

end
