(* ===== verification/Compiled.thy ===== *)
theory Compiled
  imports CompilerOk CompileRuns StackSafety
begin

text \<open>
  What the compiler promises of its output, and two programs that it accepts although it should not.
\<close>

section \<open>Every module is safe\<close>

text \<open>
  A session compiles one top-level form after another (\<^verbatim>\<open>evalForm\<close> in src/compiler/Eval.cpp); the modules of
  the forms before it stay.
\<close>

definition nextCompiler :: "BytecodeModule list \<Rightarrow> nat \<Rightarrow> 'w \<Rightarrow> 'w comp" where
  "nextCompiler ms n w = (newCompiler n w)\<lparr>made := ms\<rparr>"

lemma nextCompiler_Nil: "nextCompiler [] n w = newCompiler n w"
  by (simp add: nextCompiler_def newCompiler_def)

lemma good_nextCompiler: "\<forall>m\<in>set ms. madeOk ms m \<Longrightarrow> good (nextCompiler ms n w)"
  by (simp add: good_def nextCompiler_def newCompiler_def emptyModule_def symbolsIn_def)

lemma topLevel_ok:
  assumes "compileTopLevel E d f (nextCompiler ms n w) = (Inr u, st)" "\<forall>m\<in>set ms. madeOk ms m"
  shows "growing ms (made st) \<and> madeOk (made st) (out st) \<and> (\<forall>m\<in>set (made st). madeOk (made st) m)"
proof -
  let ?s0 = "nextCompiler ms n w"
  from assms(1) obtain v s1 where s1: "compileForm E d f ?s0 = (Inr v, s1)" "emitC RETURN 0 s1 = (Inr u, st)"
    by (auto simp: compileTopLevel_def thenC_Inr)
  have e1: "emitted 0 1 ?s0 s1"
    by (rule runsD [OF runs_cf [OF compileForm_ok, of 0, unfolded add_0] good_nextCompiler [OF assms(2)] s1(1)])
  have e2: "emitted 1 1 s1 st" using emitsD [OF emits_return [where A = always] emitted_good [OF e1] _ s1(2)] by simp
  have e: "emitted 0 1 ?s0 st" by (rule emitted_trans [OF e1 e2])
  have new: "pos ?s0 = 0" "scopes ?s0 = []" "made ?s0 = ms" "declared (out ?s0) = {}" "\<not> isVariadic (out ?s0)"
    by (simp_all add: nextCompiler_def newCompiler_def pos_def emptyModule_def declared_def)
  have scopes: "scopes st = []" using emitted_steady [OF e] new(2) by (simp add: steady_def)
  have "bodyOk caps (out st)" if "\<forall>p<length (made st). caps p = captureCount (made st ! p)" for caps
  proof -
    have "limits (out st) caps st" using that by (simp add: limits_def scopes)
    moreover have "fits (out st) 0 st" by (simp add: fits_def pos_def)
    moreover have "targets ?s0 0 [] {}" using new(2) by (simp add: targets_def)
    ultimately have "piece caps (out st) (pos ?s0) (0 + 0, [], {}) (pos st) (0 + 1, [], {})"
      using e new(1) unfolding emitted_def by (metis base_Nil)
    then show ?thesis using new(1) by (auto simp: bodyOk_def pos_def)
  qed
  moreover have "slotsOk (out st)"
    using emitted_grows [OF e] emitted_good [OF e] new(4,5) by (auto simp: slotsOk_def grows_def declares_def slotIn_def scopes good_def)
  moreover have "growing ms (made st)" using emitted_grows [OF e] new(3) by (simp add: grows_def)
  ultimately show ?thesis using emitted_good [OF e] by (simp add: madeOk_def good_def)
qed

inductive loaded :: "'w compEnv set \<Rightarrow> BytecodeModule list \<Rightarrow> bool" for Es :: "'w compEnv set" where
  loaded_none: "loaded Es []"
| loaded_form: "loaded Es ms \<Longrightarrow> E \<in> Es \<Longrightarrow> compileTopLevel E d f (nextCompiler ms n w) = (Inr u, st) \<Longrightarrow>
    loaded Es (made st @ [out st])"

lemma loaded_ok: "loaded Es ms \<Longrightarrow> \<forall>m\<in>set ms. madeOk ms m"
proof (induction rule: loaded.induct)
  case (loaded_form ms E d f n w u st)
  have "growing (made st) (made st @ [out st])" by simp
  then show ?case using topLevel_ok [OF loaded_form.hyps(3) loaded_form.IH] madeOk_growing by fastforce
qed simp

lemma modules_ok:
  assumes "compileTopLevel E d f (newCompiler n w) = (Inr u, st)" "M = out st \<or> M \<in> set (made st)"
    "\<forall>p<length (made st). caps p = captureCount (made st ! p)"
  shows "bodyOk caps M"
  using topLevel_ok [of E d f "[]" n w u st] assms by (auto simp: nextCompiler_Nil madeOk_def)

section \<open>Properties\<close>

text \<open>C2. Compiled code never faults: whatever the compiler emits for a form, the module of the form and the
  module of every function in it, a frame that runs it with the capacity \<^verbatim>\<open>computeMaxStack\<close> answers never
  writes past its operand stack and never reads or writes outside its slots, constants and instructions.\<close>

theorem compiled_never_faults:
  fixes K :: "'h kernel"
  assumes "compileTopLevel E d f (newCompiler n w) = (Inr u, st)" "M = out st \<or> M \<in> set (made st)"
    "\<forall>p<length (made st). moduleAt K p = made st ! p"
    "computeMaxStack (\<lambda>p. captureCount (moduleAt K p)) M = Some r" "calm K nested"
    "bindFrame K M iv (newFrame M r w') = (Ok v, s)"
  shows "fst (runFrame fuel K nested M s) \<noteq> Faulted"
proof -
  have "bodyOk (\<lambda>p. captureCount (moduleAt K p)) M"
    using modules_ok [OF assms(1,2), of "\<lambda>p. captureCount (moduleAt K p)"] assms(3) by simp
  then obtain H where "well_formed (\<lambda>p. captureCount (moduleAt K p)) M H" "code_ok M"
    using bodyOk_well_formed assms(4) by blast
  from well_formed_runs [OF this assms(5,4,6)] show ?thesis .
qed

text \<open>An environment that knows nothing.\<close>

definition plainEnv :: "unit compEnv" where
  "plainEnv = \<lparr>coreNamespaceActive = False, namespaceAlias = \<lambda>_. None, globalMacro = \<lambda>_ _. None,
     expandMacroCall = \<lambda>_ _ _ _ w. (Inl [], w), operatorRedefined = \<lambda>_ _. False, mapFormEntries = \<lambda>m. m,
     setElements = \<lambda>xs. xs, symbolObj = \<lambda>_. 1, namedObj = \<lambda>_. 1, datumObj = \<lambda>_. 1, doubleBits = \<lambda>_. 0,
     printedForm = \<lambda>_. [], overflowMessage = []\<rparr>"

lemma plainEnv_plain: "noMacros plainEnv"
  by (simp add: noMacros_def plainEnv_def)

theorem compiled_never_faults_witness:
  "\<forall>K :: unit kernel. \<exists>st s r.
     compileTopLevel plainEnv (Suc (Suc (Suc 0))) (FList [FNamed ''fn'', FVec [FNamed ''n''], testForm]) (newCompiler 0 ()) = (Inr (), st) \<and>
     bindFrame (K\<lparr>moduleAt := \<lambda>p. made st ! p\<rparr>) (made st ! 0)
       \<lparr>callee = 0, callArgs = [7], captures = 0, kwVals = [], kwMap = 0\<rparr>
       (newFrame (made st ! 0) r \<lparr>heap = (), coreOperatorRedefined = 0\<rparr>) = (Ok (), s) \<and>
     fst (runFrame 10 (K\<lparr>moduleAt := \<lambda>p. made st ! p\<rparr>) (\<lambda>iv w. (Ok 0, w)) (made st ! 0) s) \<noteq> Faulted"
proof
  fix K :: "unit kernel"
  obtain st where st: "compileTopLevel plainEnv (Suc (Suc (Suc 0))) (FList [FNamed ''fn'', FVec [FNamed ''n''], testForm]) (newCompiler 0 ()) = (Inr (), st)"
    "made st = [testBody]" using testBody_made [OF plainEnv_plain] by blast
  define K' where "K' = K\<lparr>moduleAt := \<lambda>p. made st ! p\<rparr>"
  obtain r where r: "computeMaxStack (\<lambda>p. captureCount (moduleAt K' p)) testBody = Some r" using testBody_stack by blast
  have "calm K' (\<lambda>iv (w :: unit world). (Ok 0, w))" by (simp add: calm_def)
  moreover obtain s where s: "bindFrame K' testBody \<lparr>callee = 0, callArgs = [7], captures = 0, kwVals = [], kwMap = 0\<rparr>
      (newFrame testBody r \<lparr>heap = (), coreOperatorRedefined = 0\<rparr>) = (Ok (), s)"
    by (simp add: bindFrame_def kwBindings_def bindCaptures_def bindA_def retA_def testBody_def emptyModule_def setLocal_def newFrame_def
      enumerate_eq_zip)
  ultimately have "fst (runFrame 10 K' (\<lambda>iv w. (Ok 0, w)) testBody s) \<noteq> Faulted"
    using compiled_never_faults [OF st(1) _ _ r _ s] st(2) by (simp add: K'_def)
  with st s show "\<exists>st s r.
     compileTopLevel plainEnv (Suc (Suc (Suc 0))) (FList [FNamed ''fn'', FVec [FNamed ''n''], testForm]) (newCompiler 0 ()) = (Inr (), st) \<and>
     bindFrame (K\<lparr>moduleAt := \<lambda>p. made st ! p\<rparr>) (made st ! 0)
       \<lparr>callee = 0, callArgs = [7], captures = 0, kwVals = [], kwMap = 0\<rparr>
       (newFrame (made st ! 0) r \<lparr>heap = (), coreOperatorRedefined = 0\<rparr>) = (Ok (), s) \<and>
     fst (runFrame 10 (K\<lparr>moduleAt := \<lambda>p. made st ! p\<rparr>) (\<lambda>iv w. (Ok 0, w)) (made st ! 0) s) \<noteq> Faulted"
    unfolding K'_def by (metis nth_Cons_0)
qed

text \<open>A recur that is not in tail position is accepted: the function \<^verbatim>\<open>(fn [n] (+ n (recur n)))\<close> compiles,
  and the depth the stack analysis computes before running its body leaves the range of \<^verbatim>\<open>int\<close>.\<close>

theorem nontail_recur_overflows:
  assumes "noMacros E"
  shows "\<exists>st. compileTopLevel E (Suc (Suc (Suc (Suc d))))
      (FList [FNamed ''fn'', FVec [FNamed ''n''], FList [FNamed ''+'', FNamed ''n'', FList [FNamed ''recur'', FNamed ''n'']]])
      (newCompiler n w) = (Inr (), st) \<and>
    (\<forall>caps. (\<exists>i d. flows caps (made st ! 0) i d \<and> overflows caps (made st ! 0) i d) \<and>
      computeMaxStack caps (made st ! 0) = None)"
  using nonTail_made [OF assms] nonTail_overflows nonTail_unbounded by fastforce

theorem nontail_recur_overflows_witness:
  "\<exists>st caps. compileTopLevel plainEnv (Suc (Suc (Suc (Suc 0))))
      (FList [FNamed ''fn'', FVec [FNamed ''n''], FList [FNamed ''+'', FNamed ''n'', FList [FNamed ''recur'', FNamed ''n'']]])
      (newCompiler 0 ()) = (Inr (), st) \<and> computeMaxStack caps (made st ! 0) = None"
  using nontail_recur_overflows [OF plainEnv_plain] by blast

text \<open>C39. The parameter list of a function may be a list: so the first arity of \<^verbatim>\<open>(fn f ([x] x) ([x y] y))\<close> is
  taken for the parameters of one function, whose body is the rest.\<close>

theorem named_arities_misread:
  assumes "noMacros E"
  shows "compileForm E (Suc d) (FList (FNamed ''fn'' # FNamed name # FList ps # body)) =
    compileForm E (Suc d) (FList (FNamed ''fn'' # FNamed name # FVec ps # body))"
  by (simp add: run_heads [OF assms] compileFnForm_def compileFnBody_def paramList_def formAt_def nameOf_def core_plain isNameForm_def
    isListForm_def isVectorForm_def itemsOf_def Let_def del: compileForm.simps)

theorem named_arities_misread_witness:
  "compileForm plainEnv (Suc 9) (FList [FNamed ''fn'', FNamed ''f'', FList [FVec [FNamed ''x''], FNamed ''x''],
      FList [FVec [FNamed ''x'', FNamed ''y''], FNamed ''y'']]) =
    compileForm plainEnv (Suc 9) (FList [FNamed ''fn'', FNamed ''f'', FVec [FVec [FNamed ''x''], FNamed ''x''],
      FList [FVec [FNamed ''x'', FNamed ''y''], FNamed ''y'']])"
  by (rule named_arities_misread [OF plainEnv_plain])

end
