(* ===== verification/Program.thy ===== *)
theory Program
  imports Compiled
begin

text \<open>
  The compiler and the engine together: the modules of a session, the frames that run them, and every call
  they make of each other through \<^verbatim>\<open>execute\<close>.
\<close>

section \<open>Binding a frame\<close>

lemma setLocals_ok:
  "\<forall>(i, v)\<in>set bs. i < length (locals s) \<Longrightarrow>
     \<exists>s'. setLocals bs s = (Ok (), s') \<and> length (locals s') = length (locals s)"
proof (induction bs arbitrary: s)
  case (Cons b bs)
  obtain i v where b: "b = (i, v)" by (cases b)
  with Cons.prems Cons.IH [of "s\<lparr>locals := (locals s)[i := v]\<rparr>"] show ?case
    by (simp add: bindA_def setLocal_def)
qed (simp add: retA_def)

lemma zip_fst: "(i, v) \<in> set (zip xs ys) \<Longrightarrow> i \<in> set xs"
  by (simp add: set_zip_leftD)

lemma bindCaptures_ok:
  assumes "\<forall>c\<in>set (captureSpecs m). clocalSlot c < length (locals s)"
  shows "fst (bindCaptures K m caps s) \<noteq> Fault"
proof -
  have "fst (setLocals (zip (map clocalSlot (captureSpecs m)) vs) s) \<noteq> Fault" for vs
    using setLocals_ok [of "zip (map clocalSlot (captureSpecs m)) vs" s] assms by (fastforce dest: zip_fst)
  then show ?thesis
    by (auto simp: bindCaptures_def retA_def bindA_def heapA_def throwError_def raiseA_def split: option.split prod.split)
qed

lemma bindFrame_ok:
  assumes "slotsOk m" "length (callArgs iv) \<le> arity m + (if isVariadic m then 1 else 0)"
  shows "fst (bindFrame K m iv (newFrame m r w)) \<noteq> Fault"
proof -
  let ?n = "arity m + localCount m"
  have n: "length (locals (newFrame m r w)) = ?n" by (simp add: newFrame_def)
  have args: "length (callArgs iv) \<le> ?n" using assms by (auto simp: slotsOk_def split: if_splits)
  have "\<forall>(i, v)\<in>set (enumerate 0 (callArgs iv)). i < length (locals (newFrame m r w))"
    using n args by (auto simp: enumerate_eq_zip dest!: zip_fst)
  from setLocals_ok [OF this] obtain s1 where s1: "setLocals (enumerate 0 (callArgs iv)) (newFrame m r w) = (Ok (), s1)" "length (locals s1) = ?n"
    using n by auto
  have "\<forall>(i, v)\<in>set (kwBindings K m iv). i < length (locals s1)"
    using assms(1) s1(2) by (auto simp: kwBindings_def slotsOk_def declared_def split: option.splits)
  from setLocals_ok [OF this] obtain s2 where s2: "setLocals (kwBindings K m iv) s1 = (Ok (), s2)" "length (locals s2) = ?n"
    using s1(2) by auto
  have "fst (bindCaptures K m (captures iv) s2) \<noteq> Fault"
    by (rule bindCaptures_ok) (use assms(1) s2(2) in \<open>auto simp: slotsOk_def\<close>)
  then show ?thesis by (simp add: bindFrame_def bindA_def s1(1) s2(1))
qed

section \<open>Every call\<close>

lemma execute_ok:
  fixes K :: "'h kernel"
  assumes "\<And>p. bodyOk (\<lambda>q. captureCount (moduleAt K q)) (moduleAt K p)" "\<And>p. slotsOk (moduleAt K p)"
  shows "calm K (execute fuel stackOk depth K)"
proof (induction fuel arbitrary: depth)
  case (Suc fuel)
  have "fst (execute (Suc fuel) stackOk depth K iv w) \<noteq> Fault" if iv: "wellBound K iv" for iv w
  proof (cases "stackOk depth")
    case None
    let ?m = "moduleAt K (callee iv)"
    let ?caps = "\<lambda>q. captureCount (moduleAt K q)"
    show ?thesis
    proof (cases "computeMaxStack ?caps ?m")
      case (Some r)
      obtain H where H: "well_formed ?caps ?m H" "code_ok ?m" using bodyOk_well_formed [OF assms(1) Some] by blast
      have bind: "fst (bindFrame K ?m iv (newFrame ?m r w)) \<noteq> Fault"
        by (rule bindFrame_ok [OF assms(2)]) (use iv in \<open>simp add: wellBound_def Let_def\<close>)
      show ?thesis
      proof (cases "bindFrame K ?m iv (newFrame ?m r w)")
        case (Pair a s)
        have "fst (runFrame fuel K (execute fuel stackOk (depth + 1) K) ?m s) \<noteq> Faulted" if "a = Ok ()"
          using well_formed_runs [OF H Suc.IH Some, of iv w] Pair that by blast
        with None Some Pair bind show ?thesis
          by (cases a; cases "runFrame fuel K (execute fuel stackOk (depth + 1) K) ?m s"; cases "fst (runFrame fuel K (execute fuel stackOk (depth + 1) K) ?m s)")
            (simp_all add: Let_def)
      qed
    qed (simp add: None Let_def)
  qed simp
  then show ?case by (simp add: calm_def)
qed (simp add: calm_def)

section \<open>Properties\<close>

text \<open>C1. A session never faults: whatever forms were compiled, one after another, and whatever function of
  them is called with as many arguments as it binds, no frame of the call, however deep, writes past its
  operand stack or reads or writes outside its locals, constants, blocks or instructions: the call answers a
  value or an exception, or it runs on. (A call is followed up to a body whose stack analysis leaves the
  range of \<^verbatim>\<open>int\<close>, if it enters one.)\<close>

theorem session_never_faults:
  fixes K :: "'h kernel"
  assumes "loaded Es ms" "\<forall>p. moduleAt K p = (if p < length ms then ms ! p else emptyModule)" "wellBound K iv"
  shows "fst (execute fuel stackOk depth K iv w) \<noteq> Fault"
proof -
  let ?caps = "\<lambda>q. captureCount (moduleAt K q)"
  have ms: "\<forall>m\<in>set ms. slotsOk m \<and> bodyOk ?caps m"
    using loaded_ok [OF assms(1)] assms(2) by (simp add: madeOk_def)
  have none: "bodyOk ?caps emptyModule" "slotsOk emptyModule"
    using piece_empty [of ?caps emptyModule 0] by (auto simp: bodyOk_def slotsOk_def declared_def emptyModule_def)
  have "calm K (execute fuel stackOk depth K)"
    by (rule execute_ok) (use ms none assms(2) in auto)
  with assms(3) show ?thesis by (simp add: calm_def)
qed

theorem session_never_faults_witness:
  "\<forall>K :: unit kernel. \<exists>ms. length ms = 2 \<and>
     fst (execute 10 (\<lambda>_. None) 0 (K\<lparr>moduleAt := \<lambda>p. if p < length ms then ms ! p else emptyModule\<rparr>)
       \<lparr>callee = 0, callArgs = [7], captures = 0, kwVals = [], kwMap = 0\<rparr> \<lparr>heap = (), coreOperatorRedefined = 0\<rparr>) \<noteq> Fault"
proof
  fix K :: "unit kernel"
  obtain st where st: "compileTopLevel plainEnv (Suc (Suc (Suc 0))) (FList [FNamed ''fn'', FVec [FNamed ''n''], testForm]) (newCompiler 0 ()) = (Inr (), st)"
    "made st = [testBody]" using testBody_made [OF plainEnv_plain] by blast
  let ?ms = "[testBody, out st]"
  let ?K = "K\<lparr>moduleAt := \<lambda>p. if p < length ?ms then ?ms ! p else emptyModule\<rparr>"
  have "loaded {plainEnv} ?ms"
    using loaded_form [OF loaded_none, of plainEnv "{plainEnv}"] st by (fastforce simp: nextCompiler_Nil)
  then have "fst (execute 10 (\<lambda>_. None) 0 ?K \<lparr>callee = 0, callArgs = [7], captures = 0, kwVals = [], kwMap = 0\<rparr>
      \<lparr>heap = (), coreOperatorRedefined = 0\<rparr>) \<noteq> Fault"
    by (rule session_never_faults) (simp_all add: wellBound_def testBody_def emptyModule_def)
  then show "\<exists>ms. length ms = 2 \<and>
     fst (execute 10 (\<lambda>_. None) 0 (K\<lparr>moduleAt := \<lambda>p. if p < length ms then ms ! p else emptyModule\<rparr>)
       \<lparr>callee = 0, callArgs = [7], captures = 0, kwVals = [], kwMap = 0\<rparr> \<lparr>heap = (), coreOperatorRedefined = 0\<rparr>) \<noteq> Fault"
    by (intro exI [of _ ?ms]) simp
qed

end
