(* ===== verification/LazySeq.thy ===== *)
theory LazySeq
  imports Prelude SmallInt
begin

text \<open>
  Lazy sequences (src/runtime/LazySeq.cpp, src/runtime/SeqTypes.cpp): the lazy slots of one thread, their
  realisation, the native steps behind \<^verbatim>\<open>map\<close>, \<^verbatim>\<open>filter\<close>, \<^verbatim>\<open>take\<close>, \<^verbatim>\<open>range\<close>, \<^verbatim>\<open>concat\<close> and the others, and the seq
  protocol (\<^verbatim>\<open>seqOf\<close>, \<^verbatim>\<open>seqFirst\<close>, \<^verbatim>\<open>seqMore\<close>).

  A lazy seq is an address into the store of lazy slots: unrealised with its thunk, claimed while its thunk
  runs, realised with the seq it answered. Everything else a value can be is immutable and is a term. The
  collector's slots (\<^verbatim>\<open>Scope\<close>, \<^verbatim>\<open>CallerSlots\<close>, \<^verbatim>\<open>tick\<close>) do not change an answer and are left out, as is the check of
  the native stack. The functions are those of one thread; what a second thread does to a slot is the subject
  of the theory \<open>LazyRace\<close>.

  What the sequences rely on is an argument of the definitions: the call of a Clojure function, the elements
  of a map, a set or a string (and \<^verbatim>\<open>conj\<close> and \<^verbatim>\<open>nth\<close> on them), protoCore's arithmetic on doubles, the set of the
  elements \<^verbatim>\<open>distinct\<close> has seen and the two steps that other modules register. A realisation may not end, so the functions that realise
  take fuel; running out of it is an outcome of its own.
\<close>

section \<open>Values and the store\<close>

datatype StepKind =
  StMap1 | StMapN | StFilter | StTake | StTakeWhile | StDrop | StDropWhile | StIterate | StIterateNext
| StRepeat | StCycle | StRange | StRangeInf | StConcat | StPartition | StInterleave | StFor | StRepeatedly
| StDistinct | StLine | StReSeq

text \<open>\<open>VRaw\<close> is a ProtoList, which is never a Clojure value: it holds a step's collections. \<open>VStep\<close> is the
  ProtoList of a native step, its kind and the operands given.\<close>

datatype 'o sval =
  VNil | VTrue | VFalse | VInt int | VObj 'o
| VVec "'o sval list"
| VList "'o sval list"
| VCons "'o sval" "'o sval"
| VChunk "'o sval list" nat nat "'o sval" bool
| VLazy nat
| VRaw "'o sval list"
| VStep StepKind "'o sval list"

datatype 'o lexn = Classed string string | ThrownValue "'o sval"

datatype ('o, 'a) lout = Got 'a | Threw "'o lexn" | OutOfTime

datatype 'o slot = Unrealized "'o sval" | Claimed "'o sval" | Realized "'o sval"

record ('o, 'w) lstate =
  slots :: "'o slot list"
  realizing :: "nat list"
  outside :: 'w

type_synonym ('o, 'w, 'a) lact = "('o, 'w) lstate \<Rightarrow> ('o, 'a) lout \<times> ('o, 'w) lstate"

record ('o, 'w) lenv =
  callFn :: "'o sval \<Rightarrow> 'o sval list \<Rightarrow> ('o, 'w, 'o sval) lact"
  itemsOf :: "'o \<Rightarrow> 'o sval list option"
  isDouble :: "'o \<Rightarrow> bool"
  ceilLong :: "'o \<Rightarrow> int"
  bigLong :: "int \<Rightarrow> int"
  cmpDouble :: "'o sval \<Rightarrow> 'o sval \<Rightarrow> int"
  addDouble :: "'o sval \<Rightarrow> 'o sval \<Rightarrow> 'o sval"
  typeName :: "'o sval \<Rightarrow> string"
  forStop :: "'o sval"
  emptySet :: "'o sval"
  setHas :: "'o sval \<Rightarrow> 'o sval \<Rightarrow> bool"
  setPut :: "'o sval \<Rightarrow> 'o sval \<Rightarrow> 'o sval"
  conjObj :: "'o \<Rightarrow> 'o sval list \<Rightarrow> ('o, 'w, 'o sval) lact"
  nthObj :: "'o \<Rightarrow> int \<Rightarrow> 'o sval option \<Rightarrow> ('o, 'w, 'o sval) lact"
  printVal :: "'o sval \<Rightarrow> string"
  foreignStep :: "StepKind \<Rightarrow> 'o sval \<Rightarrow> 'o sval list \<Rightarrow> ('o, 'w, 'o sval) lact"
  foreignPure :: "StepKind \<Rightarrow> bool"

definition got :: "'a \<Rightarrow> ('o, 'w, 'a) lact" where
  "got a \<sigma> = (Got a, \<sigma>)"

definition andThen :: "('o, 'w, 'a) lact \<Rightarrow> ('a \<Rightarrow> ('o, 'w, 'b) lact) \<Rightarrow> ('o, 'w, 'b) lact" where
  "andThen m f \<sigma> =
     (case m \<sigma> of
        (Got a, \<sigma>') \<Rightarrow> f a \<sigma>'
      | (Threw e, \<sigma>') \<Rightarrow> (Threw e, \<sigma>')
      | (OutOfTime, \<sigma>') \<Rightarrow> (OutOfTime, \<sigma>'))"

definition throws :: "string \<Rightarrow> string \<Rightarrow> ('o, 'w, 'a) lact" where
  "throws cls msg \<sigma> = (Threw (Classed cls msg), \<sigma>)"

definition tired :: "('o, 'w, 'a) lact" where
  "tired \<sigma> = (OutOfTime, \<sigma>)"

definition truthy :: "'o sval \<Rightarrow> bool" where
  "truthy v \<longleftrightarrow> v \<noteq> VNil \<and> v \<noteq> VFalse"

section \<open>Lists, conses and chunks\<close>

datatype SeqObject = SoNone | SoLazy | SoCons | SoChunk | SoList | SoEmpty

fun seqObjectKind :: "'o sval \<Rightarrow> SeqObject" where
  "seqObjectKind (VList xs) = (if xs = [] then SoEmpty else SoList)"
| "seqObjectKind (VLazy a) = SoLazy"
| "seqObjectKind (VCons x m) = SoCons"
| "seqObjectKind (VChunk items off end m c) = SoChunk"
| "seqObjectKind v = SoNone"

abbreviation isSeqObject :: "'o sval \<Rightarrow> bool" where
  "isSeqObject v \<equiv> seqObjectKind v \<noteq> SoNone"

definition listHeadCount :: "'o sval list \<Rightarrow> nat" where
  "listHeadCount xs = (length xs - 1) mod 4 + 1"

fun seqFirst :: "'o sval \<Rightarrow> 'o sval" where
  "seqFirst (VList xs) = hd xs"
| "seqFirst (VCons x m) = x"
| "seqFirst (VChunk items off end m c) = items ! off"
| "seqFirst v = VNil"

fun seqMore :: "'o sval \<Rightarrow> 'o sval" where
  "seqMore (VList xs) = VList (tl xs)"
| "seqMore (VCons x m) = (if m = VNil then VList [] else m)"
| "seqMore (VChunk items off end m c) =
     (if off + 1 < end then VChunk items (off + 1) end m c
      else if m = VNil then VList [] else m)"
| "seqMore v = VList []"

fun isChunkedSeq :: "'o sval \<Rightarrow> bool" where
  "isChunkedSeq (VChunk items off end m c) = c"
| "isChunkedSeq v = False"

definition newLazySeq :: "'o sval \<Rightarrow> ('o, 'w, 'o sval) lact" where
  "newLazySeq thunk \<sigma> = (Got (VLazy (length (slots \<sigma>))), \<sigma>\<lparr>slots := slots \<sigma> @ [Unrealized thunk]\<rparr>)"

definition lazyStep :: "StepKind \<Rightarrow> 'o sval list \<Rightarrow> ('o, 'w, 'o sval) lact" where
  "lazyStep k ops = newLazySeq (VStep k ops)"

text \<open>The next chunk of a chunked source, and what follows it.\<close>

definition kChunk :: nat where "kChunk = 32"

definition sliceOf :: "'o sval list \<Rightarrow> nat \<Rightarrow> nat \<Rightarrow> 'o sval \<Rightarrow> 'o sval list \<times> 'o sval" where
  "sliceOf items off end rst =
     (let to = min end (off + kChunk) in
      (map (\<lambda>i. items ! i) [off..<to],
       if to < end then VChunk items to end rst True else rst))"

fun chunkSlice :: "'o sval \<Rightarrow> 'o sval list \<times> 'o sval" where
  "chunkSlice (VChunk items off end m c) = sliceOf items off end m"
| "chunkSlice v = ([], VNil)"

section \<open>Numbers\<close>

fun isNumber :: "('o, 'w) lenv \<Rightarrow> 'o sval \<Rightarrow> bool" where
  "isNumber E (VInt i) = True"
| "isNumber E (VObj x) = isDouble E x"
| "isNumber E v = False"

definition throwNotANumber :: "('o, 'w) lenv \<Rightarrow> string \<Rightarrow> 'o sval \<Rightarrow> ('o, 'w, 'a) lact" where
  "throwNotANumber E operation v =
     throws ''ClassCastException'' (operation @ '' expects a number, got '' @ typeName E v)"

definition numberCompare :: "('o, 'w) lenv \<Rightarrow> 'o sval \<Rightarrow> 'o sval \<Rightarrow> ('o, 'w, int) lact" where
  "numberCompare E a b =
     (if \<not> isNumber E a then throwNotANumber E ''<'' a
      else if \<not> isNumber E b then throwNotANumber E ''<'' b
      else case (a, b) of
             (VInt i, VInt j) \<Rightarrow> got (if i < j then - 1 else if i > j then 1 else 0)
           | _ \<Rightarrow> got (cmpDouble E a b))"

definition numberAdd :: "('o, 'w) lenv \<Rightarrow> 'o sval \<Rightarrow> 'o sval \<Rightarrow> ('o, 'w, 'o sval) lact" where
  "numberAdd E a b =
     (if \<not> isNumber E a then throwNotANumber E ''+'' a
      else if \<not> isNumber E b then throwNotANumber E ''+'' b
      else case (a, b) of
             (VInt i, VInt j) \<Rightarrow> got (VInt (i + j))
           | _ \<Rightarrow> got (addDouble E a b))"

text \<open>protoCore's \<^verbatim>\<open>asLong\<close> of an integer, itself in the range of \<^verbatim>\<open>long long\<close>.\<close>

definition asLong :: "('o, 'w) lenv \<Rightarrow> int \<Rightarrow> int" where
  "asLong E i = (if - (2 ^ 63) \<le> i \<and> i < 2 ^ 63 then i else bigLong E i)"

definition countOperand :: "('o, 'w) lenv \<Rightarrow> 'o sval \<Rightarrow> ('o, 'w, int) lact" where
  "countOperand E v =
     (case v of
        VInt i \<Rightarrow> got (asLong E i)
      | VObj x \<Rightarrow> if isDouble E x then got (ceilLong E x) else throwNotANumber E ''take'' v
      | _ \<Rightarrow> throwNotANumber E ''take'' v)"

section \<open>The seq of a value\<close>

text \<open>\<open>seqWith R\<close> is \<^verbatim>\<open>seqOf\<close> with the realisation of a lazy seq as an argument.\<close>

definition seqWith ::
    "('o, 'w) lenv \<Rightarrow> (nat \<Rightarrow> ('o, 'w, 'o sval) lact) \<Rightarrow> 'o sval \<Rightarrow> ('o, 'w, 'o sval) lact" where
  "seqWith E R v =
     (case v of
        VNil \<Rightarrow> got VNil
      | VVec items \<Rightarrow> got (if items = [] then VNil else VChunk items 0 (length items) VNil True)
      | VLazy a \<Rightarrow> R a
      | VCons x m \<Rightarrow> got v
      | VChunk items off end m c \<Rightarrow> got v
      | VList xs \<Rightarrow> got (if xs = [] then VNil else v)
      | VObj x \<Rightarrow>
          (case itemsOf E x of
             Some items \<Rightarrow> got (if items = [] then VNil else VChunk items 0 (length items) VNil False)
           | None \<Rightarrow> throws ''IllegalArgumentException''
                       (''Don't know how to create ISeq from: '' @ typeName E v))
      | _ \<Rightarrow> throws ''IllegalArgumentException''
               (''Don't know how to create ISeq from: '' @ typeName E v))"

section \<open>Walking\<close>

text \<open>A cursor: the node it is in, the position in a chunk or in the head cell of a list, and the end of
  what is read by index there.\<close>

record 'o walk =
  wnode :: "'o sval option"
  wpos :: nat
  wend :: nat

definition walkLoad :: "'o sval \<Rightarrow> 'o walk" where
  "walkLoad v =
     (case v of
        VCons x m \<Rightarrow> \<lparr>wnode = Some v, wpos = 0, wend = 0\<rparr>
      | VList xs \<Rightarrow> \<lparr>wnode = Some v, wpos = 0, wend = listHeadCount xs\<rparr>
      | VChunk items off end m c \<Rightarrow> \<lparr>wnode = Some v, wpos = off, wend = end\<rparr>
      | _ \<Rightarrow> \<lparr>wnode = None, wpos = 0, wend = 0\<rparr>)"

definition walkStart :: "('o sval \<Rightarrow> ('o, 'w, 'o sval) lact) \<Rightarrow> 'o sval \<Rightarrow> ('o, 'w, 'o walk) lact" where
  "walkStart sq coll =
     (case seqObjectKind coll of
        SoList \<Rightarrow> got (walkLoad coll)
      | SoCons \<Rightarrow> got (walkLoad coll)
      | SoChunk \<Rightarrow> got (walkLoad coll)
      | SoEmpty \<Rightarrow> got (walkLoad VNil)
      | _ \<Rightarrow> andThen (sq coll) (\<lambda>s. got (walkLoad s)))"

definition walkDone :: "'o walk \<Rightarrow> bool" where
  "walkDone w \<longleftrightarrow> wnode w = None"

definition walkFirst :: "'o walk \<Rightarrow> 'o sval" where
  "walkFirst w =
     (case wnode w of
        Some (VCons x m) \<Rightarrow> x
      | Some (VList xs) \<Rightarrow> xs ! wpos w
      | Some (VChunk items off end m c) \<Rightarrow> items ! wpos w
      | _ \<Rightarrow> VNil)"

definition walkTo :: "('o sval \<Rightarrow> ('o, 'w, 'o sval) lact) \<Rightarrow> 'o sval \<Rightarrow> ('o, 'w, 'o walk) lact" where
  "walkTo sq rst = (if rst = VNil then got (walkLoad VNil) else walkStart sq rst)"

definition walkAdvance :: "('o sval \<Rightarrow> ('o, 'w, 'o sval) lact) \<Rightarrow> 'o walk \<Rightarrow> ('o, 'w, 'o walk) lact" where
  "walkAdvance sq w =
     (case wnode w of
        Some (VCons x m) \<Rightarrow> walkTo sq m
      | Some (VList xs) \<Rightarrow>
          if wpos w + 1 < wend w then got (w\<lparr>wpos := wpos w + 1\<rparr>) else walkTo sq (VList (drop (wend w) xs))
      | Some (VChunk items off end m c) \<Rightarrow>
          if wpos w + 1 < wend w then got (w\<lparr>wpos := wpos w + 1\<rparr>) else walkTo sq m
      | _ \<Rightarrow> got w)"

definition walkRemaining :: "'o walk \<Rightarrow> 'o sval" where
  "walkRemaining w =
     (case wnode w of
        Some (VCons x m) \<Rightarrow> VCons x m
      | Some (VList xs) \<Rightarrow> if wpos w = 0 then VList xs else VList (drop (wpos w) xs)
      | Some (VChunk items off end m c) \<Rightarrow> VChunk items (wpos w) (wend w) m c
      | _ \<Rightarrow> VNil)"

definition walkCounted :: "'o walk \<Rightarrow> nat option" where
  "walkCounted w =
     (case wnode w of
        None \<Rightarrow> Some 0
      | Some (VList xs) \<Rightarrow> Some (length xs - wpos w)
      | Some (VChunk items off end m c) \<Rightarrow> if m \<noteq> VNil then None else Some (wend w - wpos w)
      | _ \<Rightarrow> None)"

text \<open>Moving on at most \<open>n\<close> elements, and past the elements a function accepts.\<close>

primrec walkDrop :: "('o sval \<Rightarrow> ('o, 'w, 'o sval) lact) \<Rightarrow> nat \<Rightarrow> 'o walk \<Rightarrow> ('o, 'w, 'o walk) lact" where
  "walkDrop sq 0 w = got w"
| "walkDrop sq (Suc n) w = (if walkDone w then got w else andThen (walkAdvance sq w) (walkDrop sq n))"

primrec walkCollect ::
    "('o sval \<Rightarrow> ('o, 'w, 'o sval) lact) \<Rightarrow> nat \<Rightarrow> 'o walk \<Rightarrow> 'o sval list \<Rightarrow> ('o, 'w, 'o sval list) lact" where
  "walkCollect sq 0 w acc = got acc"
| "walkCollect sq (Suc n) w acc =
     (if walkDone w then got acc
      else andThen (walkAdvance sq w) (\<lambda>w'. walkCollect sq n w' (acc @ [walkFirst w])))"

section \<open>The native steps\<close>

text \<open>Calling a function on each element in turn.\<close>

primrec callEach ::
    "('o, 'w) lenv \<Rightarrow> 'o sval \<Rightarrow> 'o sval list \<Rightarrow> 'o sval list \<Rightarrow> ('o, 'w, 'o sval list) lact" where
  "callEach E f [] acc = got acc"
| "callEach E f (x # xs) acc = andThen (callFn E f [x]) (\<lambda>y. callEach E f xs (acc @ [y]))"

primrec keepEach ::
    "('o, 'w) lenv \<Rightarrow> 'o sval \<Rightarrow> bool \<Rightarrow> 'o sval list \<Rightarrow> 'o sval list \<Rightarrow> ('o, 'w, 'o sval list) lact" where
  "keepEach E f negate [] acc = got acc"
| "keepEach E f negate (x # xs) acc =
     andThen (callFn E f [x]) (\<lambda>y. keepEach E f negate xs (if truthy y \<noteq> negate then acc @ [x] else acc))"

text \<open>The lazy seq after a chunk, nil when nothing follows.\<close>

definition lazyAfter :: "StepKind \<Rightarrow> 'o sval \<Rightarrow> 'o sval list \<Rightarrow> ('o, 'w, 'o sval) lact" where
  "lazyAfter k v ops = (if v = VNil then got VNil else lazyStep k ops)"

definition stepMap1 ::
    "('o, 'w) lenv \<Rightarrow> ('o sval \<Rightarrow> ('o, 'w, 'o sval) lact) \<Rightarrow> 'o sval \<Rightarrow> 'o sval \<Rightarrow> ('o, 'w, 'o sval) lact" where
  "stepMap1 E sq f coll =
     andThen (sq coll) (\<lambda>src.
       if src = VNil then got VNil
       else if isChunkedSeq src
       then let (xs, aft) = chunkSlice src in
            andThen (callEach E f xs []) (\<lambda>ys.
              andThen (lazyAfter StMap1 aft [f, aft]) (\<lambda>t. got (VChunk ys 0 (length ys) t True)))
       else andThen (callFn E f [seqFirst src]) (\<lambda>y.
              andThen (lazyStep StMap1 [f, seqMore src]) (\<lambda>t. got (VCons y t))))"

text \<open>The first elements and the rests of several collections; \<open>None\<close> when one has none.\<close>

primrec headsOf ::
    "('o sval \<Rightarrow> ('o, 'w, 'o sval) lact) \<Rightarrow> 'o sval list \<Rightarrow> 'o sval list \<Rightarrow> 'o sval list \<Rightarrow>
     ('o, 'w, ('o sval list \<times> 'o sval list) option) lact" where
  "headsOf sq [] firsts rests = got (Some (firsts, rests))"
| "headsOf sq (c # cs) firsts rests =
     andThen (sq c) (\<lambda>s.
       if s = VNil then got None
       else headsOf sq cs (firsts @ [seqFirst s]) (rests @ [seqMore s]))"

fun rawItems :: "'o sval \<Rightarrow> 'o sval list" where
  "rawItems (VRaw vs) = vs"
| "rawItems v = []"

definition stepMapN ::
    "('o, 'w) lenv \<Rightarrow> ('o sval \<Rightarrow> ('o, 'w, 'o sval) lact) \<Rightarrow> 'o sval \<Rightarrow> 'o sval \<Rightarrow> ('o, 'w, 'o sval) lact" where
  "stepMapN E sq f colls =
     andThen (headsOf sq (rawItems colls) [] []) (\<lambda>r.
       case r of
         None \<Rightarrow> got VNil
       | Some (firsts, rests) \<Rightarrow>
           andThen (callFn E f firsts) (\<lambda>y.
             andThen (lazyStep StMapN [f, VRaw rests]) (\<lambda>t. got (VCons y t))))"

primrec filterLoop ::
    "('o, 'w) lenv \<Rightarrow> ('o sval \<Rightarrow> ('o, 'w, 'o sval) lact) \<Rightarrow> nat \<Rightarrow> 'o sval \<Rightarrow> 'o sval \<Rightarrow> 'o sval \<Rightarrow>
     ('o, 'w, 'o sval) lact" where
  "filterLoop E sq 0 f neg src = tired"
| "filterLoop E sq (Suc k) f neg src =
     (if src = VNil then got VNil
      else if isChunkedSeq src
      then let (xs, aft) = chunkSlice src in
           andThen (keepEach E f (neg = VTrue) xs []) (\<lambda>out.
             if out = [] then andThen (sq aft) (filterLoop E sq k f neg)
             else andThen (lazyAfter StFilter aft [f, aft, neg]) (\<lambda>t. got (VChunk out 0 (length out) t True)))
      else andThen (callFn E f [seqFirst src]) (\<lambda>y.
             if truthy y \<noteq> (neg = VTrue)
             then andThen (lazyStep StFilter [f, seqMore src, neg]) (\<lambda>t. got (VCons (seqFirst src) t))
             else andThen (sq (seqMore src)) (filterLoop E sq k f neg)))"

definition stepFilter ::
    "('o, 'w) lenv \<Rightarrow> ('o sval \<Rightarrow> ('o, 'w, 'o sval) lact) \<Rightarrow> nat \<Rightarrow> 'o sval \<Rightarrow> 'o sval \<Rightarrow> 'o sval \<Rightarrow>
     ('o, 'w, 'o sval) lact" where
  "stepFilter E sq n f coll neg = andThen (sq coll) (filterLoop E sq n f neg)"

definition stepTake ::
    "('o, 'w) lenv \<Rightarrow> ('o sval \<Rightarrow> ('o, 'w, 'o sval) lact) \<Rightarrow> 'o sval \<Rightarrow> 'o sval \<Rightarrow> ('o, 'w, 'o sval) lact" where
  "stepTake E sq cnt coll =
     andThen (countOperand E cnt) (\<lambda>n.
       if n \<le> 0 then got VNil
       else andThen (sq coll) (\<lambda>s.
         if s = VNil then got VNil
         else if n = 1 then got (VCons (seqFirst s) VNil)
         else andThen (lazyStep StTake [VInt (n - 1), seqMore s]) (\<lambda>t. got (VCons (seqFirst s) t))))"

definition stepTakeWhile ::
    "('o, 'w) lenv \<Rightarrow> ('o sval \<Rightarrow> ('o, 'w, 'o sval) lact) \<Rightarrow> 'o sval \<Rightarrow> 'o sval \<Rightarrow> ('o, 'w, 'o sval) lact" where
  "stepTakeWhile E sq f coll =
     andThen (sq coll) (\<lambda>s.
       if s = VNil then got VNil
       else andThen (callFn E f [seqFirst s]) (\<lambda>y.
         if \<not> truthy y then got VNil
         else andThen (lazyStep StTakeWhile [f, seqMore s]) (\<lambda>t. got (VCons (seqFirst s) t))))"

text \<open>The seq of what a walk has left.\<close>

definition walkEndSeq :: "('o sval \<Rightarrow> ('o, 'w, 'o sval) lact) \<Rightarrow> 'o walk \<Rightarrow> ('o, 'w, 'o sval) lact" where
  "walkEndSeq sq w = (if walkDone w then got VNil else sq (walkRemaining w))"

definition stepDrop ::
    "('o, 'w) lenv \<Rightarrow> ('o sval \<Rightarrow> ('o, 'w, 'o sval) lact) \<Rightarrow> 'o sval \<Rightarrow> 'o sval \<Rightarrow> ('o, 'w, 'o sval) lact" where
  "stepDrop E sq cnt coll =
     andThen (countOperand E cnt) (\<lambda>n.
       andThen (walkStart sq coll) (\<lambda>w.
         andThen (walkDrop sq (nat n) w) (walkEndSeq sq)))"

primrec dropWhileLoop ::
    "('o, 'w) lenv \<Rightarrow> ('o sval \<Rightarrow> ('o, 'w, 'o sval) lact) \<Rightarrow> 'o sval \<Rightarrow> nat \<Rightarrow> 'o walk \<Rightarrow>
     ('o, 'w, 'o sval) lact" where
  "dropWhileLoop E sq f 0 w = tired"
| "dropWhileLoop E sq f (Suc k) w =
     (if walkDone w then got VNil
      else andThen (callFn E f [walkFirst w]) (\<lambda>y.
        if truthy y then andThen (walkAdvance sq w) (dropWhileLoop E sq f k)
        else walkEndSeq sq w))"

definition stepDropWhile ::
    "('o, 'w) lenv \<Rightarrow> ('o sval \<Rightarrow> ('o, 'w, 'o sval) lact) \<Rightarrow> nat \<Rightarrow> 'o sval \<Rightarrow> 'o sval \<Rightarrow>
     ('o, 'w, 'o sval) lact" where
  "stepDropWhile E sq n f coll = andThen (walkStart sq coll) (dropWhileLoop E sq f n)"

definition stepIterate :: "'o sval \<Rightarrow> 'o sval \<Rightarrow> ('o, 'w, 'o sval) lact" where
  "stepIterate f x = andThen (lazyStep StIterateNext [f, x]) (\<lambda>t. got (VCons x t))"

definition stepIterateNext :: "('o, 'w) lenv \<Rightarrow> 'o sval \<Rightarrow> 'o sval \<Rightarrow> ('o, 'w, 'o sval) lact" where
  "stepIterateNext E f x =
     andThen (callFn E f [x]) (\<lambda>y. andThen (lazyStep StIterateNext [f, y]) (\<lambda>t. got (VCons y t)))"

definition stepRepeat :: "('o, 'w) lenv \<Rightarrow> 'o sval \<Rightarrow> 'o sval \<Rightarrow> 'o sval \<Rightarrow> ('o, 'w, 'o sval) lact" where
  "stepRepeat E self x cnt =
     (if cnt = VNil then got (VCons x self)
      else andThen (countOperand E cnt) (\<lambda>n.
        if n \<le> 0 then got VNil
        else andThen (if n = 1 then got VNil else lazyStep StRepeat [x, VInt (n - 1)]) (\<lambda>t. got (VCons x t))))"

definition stepRepeatedly :: "('o, 'w) lenv \<Rightarrow> 'o sval \<Rightarrow> 'o sval \<Rightarrow> ('o, 'w, 'o sval) lact" where
  "stepRepeatedly E f cnt =
     andThen (if cnt = VNil then got (- 1) else countOperand E cnt) (\<lambda>n.
       if cnt \<noteq> VNil \<and> n \<le> 0 then got VNil
       else andThen (callFn E f []) (\<lambda>y.
         andThen (if n = 1 then got VNil
                  else lazyStep StRepeatedly [f, if n < 0 then VNil else VInt (n - 1)]) (\<lambda>t. got (VCons y t))))"

definition stepCycle :: "('o sval \<Rightarrow> ('o, 'w, 'o sval) lact) \<Rightarrow> 'o sval \<Rightarrow> 'o sval \<Rightarrow> ('o, 'w, 'o sval) lact" where
  "stepCycle sq coll turn =
     andThen (sq turn) (\<lambda>s0.
       andThen (if s0 = VNil then sq coll else got s0) (\<lambda>s.
         if s = VNil then got VNil
         else andThen (lazyStep StCycle [coll, seqMore s]) (\<lambda>t. got (VCons (seqFirst s) t))))"

text \<open>The numbers of one chunk of a finite range and the number after them: small integers, and numbers.\<close>

primrec rangeSmall :: "bool \<Rightarrow> int \<Rightarrow> int \<Rightarrow> nat \<Rightarrow> int \<Rightarrow> 'o sval list \<Rightarrow> 'o sval list \<times> 'o sval" where
  "rangeSmall up fin stp 0 x acc = (acc, VInt x)"
| "rangeSmall up fin stp (Suc k) x acc =
     (if (if up then x < fin else x > fin)
      then if \<not> small_range (x + stp) then (acc @ [VInt x], VInt (x + stp))
           else rangeSmall up fin stp k (x + stp) (acc @ [VInt x])
      else (acc, VInt x))"

primrec rangeNumbers ::
    "('o, 'w) lenv \<Rightarrow> bool \<Rightarrow> 'o sval \<Rightarrow> 'o sval \<Rightarrow> nat \<Rightarrow> 'o sval \<Rightarrow> 'o sval list \<Rightarrow>
     ('o, 'w, 'o sval list \<times> 'o sval) lact" where
  "rangeNumbers E up fin stp 0 x acc = got (acc, x)"
| "rangeNumbers E up fin stp (Suc k) x acc =
     andThen (numberCompare E x fin) (\<lambda>c.
       if (if up then c \<ge> 0 else c \<le> 0) then got (acc, x)
       else andThen (numberAdd E x stp) (\<lambda>x'. rangeNumbers E up fin stp k x' (acc @ [x])))"

fun smallInts :: "'o sval \<Rightarrow> 'o sval \<Rightarrow> 'o sval \<Rightarrow> (int \<times> int \<times> int) option" where
  "smallInts (VInt a) (VInt b) (VInt c) =
     (if small_range a \<and> small_range b \<and> small_range c then Some (a, b, c) else None)"
| "smallInts a b c = None"

definition rangeChunk ::
    "('o, 'w) lenv \<Rightarrow> bool \<Rightarrow> 'o sval \<Rightarrow> 'o sval \<Rightarrow> 'o sval \<Rightarrow> ('o, 'w, 'o sval list \<times> 'o sval) lact" where
  "rangeChunk E up x fin stp =
     (case smallInts x fin stp of
        Some (i, j, d) \<Rightarrow> got (rangeSmall up j d kChunk i [])
      | None \<Rightarrow> rangeNumbers E up fin stp kChunk x [])"

definition stepRange :: "('o, 'w) lenv \<Rightarrow> 'o sval \<Rightarrow> 'o sval \<Rightarrow> 'o sval \<Rightarrow> ('o, 'w, 'o sval) lact" where
  "stepRange E x fin stp =
     andThen (numberCompare E stp (VInt 0)) (\<lambda>sgn.
       let up = sgn > 0 in
       andThen (rangeChunk E up x fin stp) (\<lambda>(out, x').
         if out = [] then got VNil
         else andThen (numberCompare E x' fin) (\<lambda>c.
           andThen (if (if up then c < 0 else c > 0) then lazyStep StRange [x', fin, stp] else got VNil) (\<lambda>t.
             got (VChunk out 0 (length out) t True)))))"

definition stepRangeInf :: "('o, 'w) lenv \<Rightarrow> 'o sval \<Rightarrow> 'o sval \<Rightarrow> ('o, 'w, 'o sval) lact" where
  "stepRangeInf E x stp =
     andThen (numberAdd E x stp) (\<lambda>y. andThen (lazyStep StRangeInf [y, stp]) (\<lambda>t. got (VCons x t)))"

definition prependSeq :: "'o sval \<Rightarrow> 'o sval \<Rightarrow> ('o, 'w, 'o sval) lact" where
  "prependSeq s restColls =
     (if restColls = VNil \<or> restColls = VList [] then got s
      else case s of
             VChunk items off end m c \<Rightarrow>
               andThen (lazyStep StConcat [m, restColls]) (\<lambda>t. got (VChunk items off end t c))
           | VList xs \<Rightarrow>
               andThen (lazyStep StConcat [VList (tl xs), restColls]) (\<lambda>t. got (VCons (hd xs) t))
           | VCons x m \<Rightarrow>
               andThen (lazyStep StConcat [m, restColls]) (\<lambda>t. got (VCons x t))
           | _ \<Rightarrow> tired)"

primrec concatLoop ::
    "('o sval \<Rightarrow> ('o, 'w, 'o sval) lact) \<Rightarrow> nat \<Rightarrow> 'o sval \<Rightarrow> 'o sval \<Rightarrow> ('o, 'w, 'o sval) lact" where
  "concatLoop sq 0 s colls = tired"
| "concatLoop sq (Suc k) s colls =
     (if s \<noteq> VNil then prependSeq s colls
      else andThen (sq colls) (\<lambda>cs.
        if cs = VNil then got VNil
        else andThen (sq (seqFirst cs)) (\<lambda>s'. concatLoop sq k s' (seqMore cs))))"

definition stepConcat ::
    "('o sval \<Rightarrow> ('o, 'w, 'o sval) lact) \<Rightarrow> nat \<Rightarrow> 'o sval \<Rightarrow> 'o sval \<Rightarrow> ('o, 'w, 'o sval) lact" where
  "stepConcat sq n cur colls = andThen (sq cur) (\<lambda>s. concatLoop sq n s colls)"

text \<open>What \<^verbatim>\<open>seqOf\<close> answers is nil, a list, a cons or a chunk, so no other value reaches \<open>prependSeq\<close>.\<close>

text \<open>\<^verbatim>\<open>partition\<close> (mode 0), with a pad (mode 1), and \<^verbatim>\<open>partition-all\<close> (mode 2).\<close>

fun rawInt :: "'o sval \<Rightarrow> int" where
  "rawInt (VInt i) = i"
| "rawInt v = 0"

definition stepPartition ::
    "('o, 'w) lenv \<Rightarrow> ('o sval \<Rightarrow> ('o, 'w, 'o sval) lact) \<Rightarrow>
     'o sval \<Rightarrow> 'o sval \<Rightarrow> 'o sval \<Rightarrow> 'o sval \<Rightarrow> 'o sval \<Rightarrow> ('o, 'w, 'o sval) lact" where
  "stepPartition E sq amount stp pad modev coll =
     andThen (countOperand E amount) (\<lambda>n.
     andThen (countOperand E stp) (\<lambda>d.
     let mode = rawInt modev in
     andThen (sq coll) (\<lambda>s.
       if s = VNil then got VNil
       else andThen (andThen (walkStart sq s) (\<lambda>w. walkCollect sq (nat n) w [])) (\<lambda>items.
         if int (length items) < n
         then if mode = 0 \<or> (mode = 2 \<and> items = []) then got VNil
              else if mode = 1
              then andThen (andThen (walkStart sq pad) (\<lambda>w. walkCollect sq (nat n - length items) w items))
                     (\<lambda>padded. got (VCons (VList padded) VNil))
              else got (VCons (VList items) VNil)
         else andThen (andThen (walkStart sq s) (walkDrop sq (nat d))) (\<lambda>w.
           andThen (lazyAfter StPartition (walkRemaining w) [amount, stp, pad, modev, walkRemaining w]) (\<lambda>t.
             got (VCons (VList items) t)))))))"

definition stepInterleave :: "('o sval \<Rightarrow> ('o, 'w, 'o sval) lact) \<Rightarrow> 'o sval \<Rightarrow> ('o, 'w, 'o sval) lact" where
  "stepInterleave sq colls =
     (if rawItems colls = [] then got VNil
      else andThen (headsOf sq (rawItems colls) [] []) (\<lambda>r.
        case r of
          None \<Rightarrow> got VNil
        | Some (firsts, rests) \<Rightarrow>
            andThen (lazyStep StInterleave [VRaw rests]) (\<lambda>t.
              got (VChunk firsts 0 (length firsts) t False))))"

text \<open>The elements of a seqable, realising every lazy part; none for nil or an empty collection.\<close>

primrec collectLoop ::
    "('o sval \<Rightarrow> ('o, 'w, 'o sval) lact) \<Rightarrow> nat \<Rightarrow> 'o walk \<Rightarrow> 'o sval list \<Rightarrow> ('o, 'w, 'o sval list) lact" where
  "collectLoop sq 0 w acc = tired"
| "collectLoop sq (Suc k) w acc =
     (if walkDone w then got acc
      else andThen (walkAdvance sq w) (\<lambda>w'. collectLoop sq k w' (acc @ [walkFirst w])))"

definition seqToList ::
    "('o, 'w) lenv \<Rightarrow> ('o sval \<Rightarrow> ('o, 'w, 'o sval) lact) \<Rightarrow> nat \<Rightarrow> 'o sval \<Rightarrow> ('o, 'w, 'o sval list) lact" where
  "seqToList E sq n v =
     (case v of
        VNil \<Rightarrow> got []
      | VVec items \<Rightarrow> got items
      | VList xs \<Rightarrow> got xs
      | _ \<Rightarrow>
          if isSeqObject v then andThen (walkStart sq v) (\<lambda>w. collectLoop sq n w [])
          else case v of
                 VObj x \<Rightarrow>
                   (case itemsOf E x of
                      Some items \<Rightarrow> got items
                    | None \<Rightarrow> throws ''IllegalArgumentException''
                                (''Don't know how to create ISeq from: '' @ typeName E v))
               | _ \<Rightarrow> throws ''IllegalArgumentException''
                        (''Don't know how to create ISeq from: '' @ typeName E v))"

text \<open>The body of the innermost binding of a \<^verbatim>\<open>for\<close> over a chunk: the elements it answered and whether it
  stopped.\<close>

primrec forEach ::
    "('o, 'w) lenv \<Rightarrow> ('o sval \<Rightarrow> ('o, 'w, 'o sval) lact) \<Rightarrow> nat \<Rightarrow> 'o sval \<Rightarrow> 'o sval \<Rightarrow>
     'o sval list \<Rightarrow> 'o sval list \<Rightarrow> ('o, 'w, 'o sval list \<times> bool) lact" where
  "forEach E sq n body stop [] acc = got (acc, False)"
| "forEach E sq n body stop (x # xs) acc =
     andThen (callFn E body [x]) (\<lambda>r.
       if r = stop then got (acc, True)
       else andThen (seqToList E sq n r) (\<lambda>ys. forEach E sq n body stop xs (acc @ ys)))"

primrec forLoop ::
    "('o, 'w) lenv \<Rightarrow> ('o sval \<Rightarrow> ('o, 'w, 'o sval) lact) \<Rightarrow> nat \<Rightarrow> nat \<Rightarrow>
     'o sval \<Rightarrow> 'o sval \<Rightarrow> 'o sval \<Rightarrow> 'o sval \<Rightarrow> ('o, 'w, 'o sval) lact" where
  "forLoop E sq n 0 body stop inner src = tired"
| "forLoop E sq n (Suc k) body stop inner src =
     (if src = VNil then got VNil
      else if inner = VTrue \<and> isChunkedSeq src
      then let (xs, aft0) = chunkSlice src in
           andThen (forEach E sq n body stop xs []) (\<lambda>(out, stopped).
             let aft = (if stopped then VNil else aft0) in
             if out = []
             then if stopped then got VNil
                  else andThen (sq aft) (forLoop E sq n k body stop inner)
             else andThen (lazyAfter StFor aft [aft, body, stop, inner]) (\<lambda>t.
               got (VChunk out 0 (length out) t True)))
      else andThen (callFn E body [seqFirst src]) (\<lambda>r.
        if r = stop then got VNil
        else andThen (sq r) (\<lambda>s.
          if s \<noteq> VNil
          then andThen (lazyStep StFor [seqMore src, body, stop, inner]) (\<lambda>t. prependSeq s (VList [t]))
          else andThen (sq (seqMore src)) (forLoop E sq n k body stop inner))))"

definition stepFor ::
    "('o, 'w) lenv \<Rightarrow> ('o sval \<Rightarrow> ('o, 'w, 'o sval) lact) \<Rightarrow> nat \<Rightarrow>
     'o sval \<Rightarrow> 'o sval \<Rightarrow> 'o sval \<Rightarrow> 'o sval \<Rightarrow> ('o, 'w, 'o sval) lact" where
  "stepFor E sq n coll body stop inner = andThen (sq coll) (forLoop E sq n n body stop inner)"

primrec distinctLoop ::
    "('o, 'w) lenv \<Rightarrow> ('o sval \<Rightarrow> ('o, 'w, 'o sval) lact) \<Rightarrow> nat \<Rightarrow> 'o sval \<Rightarrow> 'o sval \<Rightarrow>
     ('o, 'w, 'o sval) lact" where
  "distinctLoop E sq 0 seen s = tired"
| "distinctLoop E sq (Suc k) seen s =
     (if s = VNil then got VNil
      else if \<not> setHas E seen (seqFirst s)
      then andThen (lazyStep StDistinct [seqMore s, setPut E seen (seqFirst s)]) (\<lambda>t.
             got (VCons (seqFirst s) t))
      else andThen (sq (seqMore s)) (distinctLoop E sq k seen))"

definition stepDistinct ::
    "('o, 'w) lenv \<Rightarrow> ('o sval \<Rightarrow> ('o, 'w, 'o sval) lact) \<Rightarrow> nat \<Rightarrow> 'o sval \<Rightarrow> 'o sval \<Rightarrow>
     ('o, 'w, 'o sval) lact" where
  "stepDistinct E sq n coll seen =
     andThen (sq coll) (distinctLoop E sq n (if seen = VNil then emptySet E else seen))"

section \<open>Realisation\<close>

definition opnd :: "'o sval list \<Rightarrow> nat \<Rightarrow> 'o sval" where
  "opnd ops i = (if i < length ops then ops ! i else VNil)"

definition runStep ::
    "('o, 'w) lenv \<Rightarrow> ('o sval \<Rightarrow> ('o, 'w, 'o sval) lact) \<Rightarrow> nat \<Rightarrow> 'o sval \<Rightarrow> StepKind \<Rightarrow> 'o sval list \<Rightarrow>
     ('o, 'w, 'o sval) lact" where
  "runStep E sq n self k ops =
     (let a = opnd ops 0; b = opnd ops 1; c = opnd ops 2; d = opnd ops 3; e = opnd ops 4 in
      case k of
        StMap1 \<Rightarrow> stepMap1 E sq a b
      | StMapN \<Rightarrow> stepMapN E sq a b
      | StFilter \<Rightarrow> stepFilter E sq n a b c
      | StTake \<Rightarrow> stepTake E sq a b
      | StTakeWhile \<Rightarrow> stepTakeWhile E sq a b
      | StDrop \<Rightarrow> stepDrop E sq a b
      | StDropWhile \<Rightarrow> stepDropWhile E sq n a b
      | StIterate \<Rightarrow> stepIterate a b
      | StIterateNext \<Rightarrow> stepIterateNext E a b
      | StRepeat \<Rightarrow> stepRepeat E self a b
      | StRepeatedly \<Rightarrow> stepRepeatedly E a b
      | StCycle \<Rightarrow> stepCycle sq a b
      | StRange \<Rightarrow> stepRange E a b c
      | StRangeInf \<Rightarrow> stepRangeInf E a b
      | StConcat \<Rightarrow> stepConcat sq n a b
      | StPartition \<Rightarrow> stepPartition E sq a b c d e
      | StInterleave \<Rightarrow> stepInterleave sq a
      | StFor \<Rightarrow> stepFor E sq n a b c d
      | StDistinct \<Rightarrow> stepDistinct E sq n a b
      | _ \<Rightarrow> foreignStep E k self ops)"

definition runThunk ::
    "('o, 'w) lenv \<Rightarrow> ('o sval \<Rightarrow> ('o, 'w, 'o sval) lact) \<Rightarrow> nat \<Rightarrow> 'o sval \<Rightarrow> 'o sval \<Rightarrow>
     ('o, 'w, 'o sval) lact" where
  "runThunk E sq n self thunk =
     (case thunk of
        VStep k ops \<Rightarrow> runStep E sq n self k ops
      | VRaw vs \<Rightarrow> throws ''RuntimeException'' ''lazy seq: unknown step''
      | _ \<Rightarrow> andThen (callFn E thunk []) sq)"

definition stepIsPure :: "('o, 'w) lenv \<Rightarrow> StepKind \<Rightarrow> bool" where
  "stepIsPure E k =
     (case k of
        StTake \<Rightarrow> True | StDrop \<Rightarrow> True | StIterate \<Rightarrow> True | StRepeat \<Rightarrow> True | StCycle \<Rightarrow> True
      | StRange \<Rightarrow> True | StRangeInf \<Rightarrow> True | StConcat \<Rightarrow> True | StPartition \<Rightarrow> True
      | StInterleave \<Rightarrow> True | StDistinct \<Rightarrow> True
      | StLine \<Rightarrow> foreignPure E k | StReSeq \<Rightarrow> foreignPure E k
      | _ \<Rightarrow> False)"

definition thunkIsPure :: "('o, 'w) lenv \<Rightarrow> 'o sval \<Rightarrow> bool" where
  "thunkIsPure E thunk = (case thunk of VStep k ops \<Rightarrow> stepIsPure E k | _ \<Rightarrow> False)"

text \<open>The lazy slot of protoCore: a claim, its undoing, and a publication, which only the first one wins.\<close>

definition setSlot :: "nat \<Rightarrow> 'o slot \<Rightarrow> ('o, 'w) lstate \<Rightarrow> ('o, 'w) lstate" where
  "setSlot a x \<sigma> = \<sigma>\<lparr>slots := (slots \<sigma>)[a := x]\<rparr>"

definition unclaimLazy :: "nat \<Rightarrow> ('o, 'w) lstate \<Rightarrow> ('o, 'w) lstate" where
  "unclaimLazy a \<sigma> = (case slots \<sigma> ! a of Claimed t \<Rightarrow> setSlot a (Unrealized t) \<sigma> | _ \<Rightarrow> \<sigma>)"

definition publishLazy :: "nat \<Rightarrow> 'o sval \<Rightarrow> ('o, 'w) lstate \<Rightarrow> bool \<times> ('o, 'w) lstate" where
  "publishLazy a s \<sigma> = (case slots \<sigma> ! a of Realized s' \<Rightarrow> (False, \<sigma>) | _ \<Rightarrow> (True, setSlot a (Realized s) \<sigma>))"

definition lazyValue :: "nat \<Rightarrow> ('o, 'w) lstate \<Rightarrow> 'o sval" where
  "lazyValue a \<sigma> = (case slots \<sigma> ! a of Realized s \<Rightarrow> s | _ \<Rightarrow> VNil)"

definition popRealizing :: "('o, 'w) lstate \<Rightarrow> ('o, 'w) lstate" where
  "popRealizing \<sigma> = \<sigma>\<lparr>realizing := tl (realizing \<sigma>)\<rparr>"

text \<open>A thunk that may run Clojure code: claim, run, publish; a raise leaves the slot unrealised.\<close>

definition realizeClaimed ::
    "('o, 'w) lenv \<Rightarrow> ('o sval \<Rightarrow> ('o, 'w, 'o sval) lact) \<Rightarrow> nat \<Rightarrow> nat \<Rightarrow> 'o sval \<Rightarrow> ('o, 'w, 'o sval) lact" where
  "realizeClaimed E sq n a thunk \<sigma> =
     (let \<sigma>1 = (setSlot a (Claimed thunk) \<sigma>)\<lparr>realizing := a # realizing \<sigma>\<rparr> in
      case runThunk E sq n (VLazy a) thunk \<sigma>1 of
        (Got s, \<sigma>2) \<Rightarrow>
          (let (won, \<sigma>3) = publishLazy a s (popRealizing \<sigma>2) in (Got (if won then s else lazyValue a \<sigma>3), \<sigma>3))
      | (Threw e, \<sigma>2) \<Rightarrow> (Threw e, unclaimLazy a (popRealizing \<sigma>2))
      | (OutOfTime, \<sigma>2) \<Rightarrow> (OutOfTime, \<sigma>2))"

text \<open>\<open>seqWith E (realizeLazy E n)\<close> is \<^verbatim>\<open>seqOf\<close> with fuel \<open>n\<close>.\<close>

fun realizeLazy :: "('o, 'w) lenv \<Rightarrow> nat \<Rightarrow> nat \<Rightarrow> ('o, 'w, 'o sval) lact" where
  "realizeLazy E 0 a \<sigma> = (OutOfTime, \<sigma>)"
| "realizeLazy E (Suc n) a \<sigma> =
     (if length (slots \<sigma>) \<le> a then throws ''RuntimeException'' ''lazy seq: not a lazy object'' \<sigma>
      else case slots \<sigma> ! a of
        Realized s \<Rightarrow> (Got s, \<sigma>)
      | Claimed t \<Rightarrow>
          if a \<in> set (realizing \<sigma>)
          then throws ''StackOverflowError'' ''a lazy seq was read while its own body was computing it'' \<sigma>
          else realizeLazy E n a \<sigma>
      | Unrealized t \<Rightarrow>
          if thunkIsPure E t
          then (case runThunk E (seqWith E (realizeLazy E n)) n (VLazy a) t \<sigma> of
                  (Got s, \<sigma>1) \<Rightarrow>
                    (case publishLazy a s \<sigma>1 of
                       (True, \<sigma>2) \<Rightarrow> (Got s, \<sigma>2)
                     | (False, \<sigma>2) \<Rightarrow> realizeLazy E n a \<sigma>2)
                | (Threw e, \<sigma>1) \<Rightarrow> (Threw e, \<sigma>1)
                | (OutOfTime, \<sigma>1) \<Rightarrow> (OutOfTime, \<sigma>1))
          else realizeClaimed E (seqWith E (realizeLazy E n)) n a t \<sigma>)"

abbreviation seqOf :: "('o, 'w) lenv \<Rightarrow> nat \<Rightarrow> 'o sval \<Rightarrow> ('o, 'w, 'o sval) lact" where
  "seqOf E n \<equiv> seqWith E (realizeLazy E n)"

definition lazyIsRealized :: "nat \<Rightarrow> ('o, 'w) lstate \<Rightarrow> bool" where
  "lazyIsRealized a \<sigma> = (case slots \<sigma> ! a of Realized s \<Rightarrow> True | _ \<Rightarrow> False)"

end
