(* ===== verification/LazyTyped.thy ===== *)
theory LazyTyped
  imports LazySeq "HOL-Library.Sublist"
begin

text \<open>
  What lazy seqs denote. A store typing gives every lazy slot the elements it promises, whether it promises
  to end after them, and a level; \<open>gives\<close> reads off what a value promises under a store typing. A thunk is
  well typed when the steps and functions it is made of yield the promised elements from sources of a
  lower level. The lemmas are the rules by which the code is run: from a well typed store it answers, with
  enough fuel, and leaves a well typed store that extends the first.
\<close>

section \<open>Promises\<close>

text \<open>\<open>ple xs e ys f\<close>: the promise of \<open>xs\<close> (and of the end after them, when \<open>e\<close>) is part of that of \<open>ys\<close>.\<close>

definition ple :: "'a list \<Rightarrow> bool \<Rightarrow> 'a list \<Rightarrow> bool \<Rightarrow> bool" where
  "ple xs e ys f \<longleftrightarrow> (if e then f \<and> xs = ys else prefix xs ys)"

lemma ple_simps [simp]:
  "ple xs True ys f \<longleftrightarrow> f \<and> xs = ys"
  "ple xs False ys f \<longleftrightarrow> prefix xs ys"
  by (simp_all add: ple_def)

lemma ple_Nil [simp]: "ple [] e ys True \<longleftrightarrow> (e \<longrightarrow> ys = [])"
  by (auto simp: ple_def)

lemma ple_refl [simp]: "ple xs e xs e"
  by (simp add: ple_def)

lemma ple_trans: "ple xs e ys f \<Longrightarrow> ple ys f zs g \<Longrightarrow> ple xs e zs g"
  by (cases e; cases f) (auto simp: prefix_order.order_trans)

definition stretch :: "'a list \<Rightarrow> nat \<Rightarrow> nat \<Rightarrow> 'a list" where
  "stretch items off end = map (\<lambda>i. items ! i) [off..<end]"

lemma stretch_Cons: "off < end \<Longrightarrow> stretch items off end = items ! off # stretch items (off + 1) end"
  by (simp add: stretch_def upt_conv_Cons)

lemma stretch_split: "off \<le> i \<Longrightarrow> i \<le> end \<Longrightarrow> stretch items off end = stretch items off i @ stretch items i end"
  by (metis stretch_def map_append upt_add_eq_append le_add_diff_inverse)

lemma stretch_Nil [simp]: "stretch items off end = [] \<longleftrightarrow> end \<le> off"
  by (auto simp: stretch_def)

lemma stretch_all [simp]: "stretch items 0 (length items) = items"
  by (simp add: stretch_def map_nth)

type_synonym 'o lty = "(('o sval list \<times> bool) \<times> nat) list"

abbreviation elts :: "'o lty \<Rightarrow> nat \<Rightarrow> 'o sval list" where "elts T a \<equiv> fst (fst (T ! a))"
abbreviation ends :: "'o lty \<Rightarrow> nat \<Rightarrow> bool" where "ends T a \<equiv> snd (fst (T ! a))"
abbreviation level :: "'o lty \<Rightarrow> nat \<Rightarrow> nat" where "level T a \<equiv> snd (T ! a)"

fun gives :: "('o, 'w) lenv \<Rightarrow> 'o lty \<Rightarrow> nat \<Rightarrow> 'o sval \<Rightarrow> 'o sval list \<Rightarrow> bool \<Rightarrow> bool" where
  "gives E T r VNil xs e = (xs = [])"
| "gives E T r (VVec ys) xs e = ple xs e ys True"
| "gives E T r (VList ys) xs e = ple xs e ys True"
| "gives E T r (VCons x m) xs e = (case xs of [] \<Rightarrow> \<not> e | y # ys \<Rightarrow> y = x \<and> gives E T r m ys e)"
| "gives E T r (VChunk items off end m c) xs e =
     (xs = [] \<and> \<not> e \<or>
      off < end \<and> end \<le> length items \<and>
      (\<not> e \<and> prefix xs (stretch items off end) \<or>
       (\<exists>zs. xs = stretch items off end @ zs \<and> gives E T r m zs e)))"
| "gives E T r (VLazy a) xs e =
     (xs = [] \<and> \<not> e \<or>
      a < length T \<and> ple xs e (elts T a) (ends T a) \<and> level T a \<le> r)"
| "gives E T r (VObj x) xs e = (xs = [] \<and> \<not> e \<or> (\<exists>ys. itemsOf E x = Some ys \<and> ple xs e ys True))"
| "gives E T r v xs e = (xs = [] \<and> \<not> e)"

lemma gives_trivial [simp]: "gives E T r v [] False"
  by (cases v) auto

lemma gives_part: "gives E T r v ys f \<Longrightarrow> ple xs e ys f \<Longrightarrow> gives E T r v xs e"
proof (induction v arbitrary: xs ys)
  case (VCons x m)
  show ?case
  proof (cases xs)
    case Nil
    with VCons.prems show ?thesis by (cases e) auto
  next
    case (Cons z zs)
    with VCons.prems obtain zs' where ys: "ys = z # zs'" "ple zs e zs' f" by (cases e; cases ys) auto
    with VCons.prems Cons have "z = x" "gives E T r m zs' f" by auto
    with Cons VCons.IH(2) ys show ?thesis by simp
  qed
next
  case (VChunk items off en m c)
  let ?s = "stretch items off en"
  from VChunk.prems consider "ys = []" "\<not> f" | "off < en" "en \<le> length items" "\<not> f" "prefix ys ?s"
    | zs where "off < en" "en \<le> length items" "ys = ?s @ zs" "gives E T r m zs f" by auto
  then show ?case
  proof cases
    case 1
    with VChunk.prems show ?thesis by (cases e) auto
  next
    case 2
    with VChunk.prems show ?thesis by (cases e) (auto intro: prefix_order.order_trans)
  next
    case (3 zs)
    show ?thesis
    proof (cases e)
      case True
      with 3 VChunk.prems VChunk.IH(2) [of zs] show ?thesis by auto
    next
      case False
      with VChunk.prems 3 have "prefix xs (?s @ zs)" by simp
      then have "prefix xs ?s \<or> (\<exists>us. xs = ?s @ us \<and> prefix us zs)" by (simp only: prefix_append)
      moreover have "gives E T r m us False" if "prefix us zs" for us
        using VChunk.IH(2) [OF 3(4), of us] that False by simp
      ultimately show ?thesis using False 3(1,2) by auto
    qed
  qed
next
  case (VLazy a)
  then show ?case by (cases e; cases f) (auto intro: prefix_order.order_trans)
next
  case (VObj x)
  then show ?case by (cases e; cases f) (auto intro: prefix_order.order_trans)
qed (cases e; cases f; auto intro: prefix_order.order_trans)+

lemma prefix_nth: "prefix T T' \<Longrightarrow> a < length T \<Longrightarrow> T' ! a = T ! a"
  by (auto simp: prefix_def nth_append)

lemma gives_ext: "gives E T r v xs e \<Longrightarrow> prefix T T' \<Longrightarrow> gives E T' r v xs e"
proof (induction v arbitrary: xs)
  case (VCons x m)
  then show ?case by (cases xs) auto
next
  case (VLazy a)
  then show ?case using prefix_length_le [of T T'] by (auto simp: prefix_nth)
qed auto

lemma gives_level: "gives E T r v xs e \<Longrightarrow> r \<le> r' \<Longrightarrow> gives E T r' v xs e"
proof (induction v arbitrary: xs)
  case (VCons x m)
  then show ?case by (cases xs) auto
qed auto

section \<open>The seqs the protocol answers\<close>

fun isSeqVal :: "'o sval \<Rightarrow> bool" where
  "isSeqVal VNil = True"
| "isSeqVal (VCons x m) = True"
| "isSeqVal (VChunk items off end m c) = (off < end \<and> end \<le> length items)"
| "isSeqVal (VList xs) = (xs \<noteq> [])"
| "isSeqVal v = False"

lemma gives_nil: "isSeqVal s \<Longrightarrow> gives E T r s [] True \<Longrightarrow> s = VNil"
  by (cases s) auto

lemma gives_first: "isSeqVal s \<Longrightarrow> gives E T r s (x # xs) e \<Longrightarrow> seqFirst s = x"
proof (cases s)
  case (VList ys)
  then show "isSeqVal s \<Longrightarrow> gives E T r s (x # xs) e \<Longrightarrow> ?thesis"
    by (cases e; cases ys) auto
next
  case (VChunk items off en m c)
  then show "isSeqVal s \<Longrightarrow> gives E T r s (x # xs) e \<Longrightarrow> ?thesis"
    by (auto simp: stretch_Cons)
qed auto

lemma gives_more: "isSeqVal s \<Longrightarrow> gives E T r s (x # xs) e \<Longrightarrow> gives E T r (seqMore s) xs e"
proof (cases s)
  case (VList ys)
  then show "isSeqVal s \<Longrightarrow> gives E T r s (x # xs) e \<Longrightarrow> ?thesis"
    by (cases e; cases ys) auto
next
  case (VCons y m)
  then show "isSeqVal s \<Longrightarrow> gives E T r s (x # xs) e \<Longrightarrow> ?thesis"
    by (cases e) auto
next
  case (VChunk items off en m c)
  have empty: "gives E T r (VList []) zs e" if "gives E T r VNil zs e" for zs
    using that by (cases e) auto
  assume "isSeqVal s" "gives E T r s (x # xs) e"
  moreover have "stretch items (Suc off) en = []" if "\<not> off + 1 < en" using that by simp
  ultimately show ?thesis using VChunk
    by (cases "off + 1 < en") (auto simp: stretch_Cons intro: empty)
qed auto

lemma seq_not_nil: "gives E T r s (x # xs) e \<Longrightarrow> s \<noteq> VNil"
  by auto

text \<open>A chunk and the slice of it that a chunked step takes.\<close>

lemma gives_slice:
  assumes "gives E T r (VChunk items off end m True) ys f" "off < end" "end \<le> length items"
    and "sliceOf items off end m = (xs, aft)"
  shows "xs \<noteq> []" and "(\<not> f \<and> prefix ys xs) \<or> (\<exists>zs. ys = xs @ zs \<and> gives E T r aft zs f)"
proof -
  define to where "to = min end (off + kChunk)"
  have to: "off < to" "to \<le> end" using assms(2) by (auto simp: to_def kChunk_def)
  have xs: "xs = stretch items off to" and aft: "aft = (if to < end then VChunk items to end m True else m)"
    using assms(4) by (auto simp: sliceOf_def Let_def stretch_def to_def)
  then show "xs \<noteq> []" using to by simp
  have split: "stretch items off end = xs @ stretch items to end"
    unfolding xs using to by (intro stretch_split) auto
  show "(\<not> f \<and> prefix ys xs) \<or> (\<exists>zs. ys = xs @ zs \<and> gives E T r aft zs f)"
  proof (cases "ys = [] \<and> \<not> f")
    case False
    with assms(1) have g: "(\<not> f \<and> prefix ys (stretch items off end)) \<or>
        (\<exists>zs. ys = stretch items off end @ zs \<and> gives E T r m zs f)" by auto
    show ?thesis
    proof (cases "to < end")
      case True
      then have a: "aft = VChunk items to end m True" by (simp add: aft)
      from g show ?thesis
      proof
        assume "\<not> f \<and> prefix ys (stretch items off end)"
        then show ?thesis using True assms(3) unfolding a split prefix_append by auto
      next
        assume "\<exists>zs. ys = stretch items off end @ zs \<and> gives E T r m zs f"
        then obtain zs where "ys = xs @ stretch items to end @ zs" "gives E T r m zs f"
          unfolding split by auto
        then show ?thesis using True assms(3) unfolding a by auto
      qed
    next
      case False
      then have "stretch items off end = xs" using split by simp
      with g False show ?thesis by (simp add: aft)
    qed
  qed auto
qed

lemma gives_chunk_new:
  assumes "ys \<noteq> []" and "(\<not> e \<and> prefix xs ys) \<or> (\<exists>zs. xs = ys @ zs \<and> gives E T r t zs e)"
  shows "gives E T r (VChunk ys 0 (length ys) t c) xs e"
  using assms by auto

section \<open>Well typed thunks and stores\<close>

text \<open>A function that answers \<open>g x\<close> for every element \<open>x\<close> of \<open>X\<close> and touches no lazy seq.\<close>

definition pureOn :: "('o, 'w) lenv \<Rightarrow> 'o sval \<Rightarrow> ('o sval \<Rightarrow> 'o sval) \<Rightarrow> 'o sval set \<Rightarrow> bool" where
  "pureOn E f g X \<longleftrightarrow> (\<forall>x\<in>X. \<forall>\<sigma>. callFn E f [x] \<sigma> = (Got (g x), \<sigma>))"

definition pureOnRows ::
    "('o, 'w) lenv \<Rightarrow> 'o sval \<Rightarrow> ('o sval list \<Rightarrow> 'o sval) \<Rightarrow> 'o sval list set \<Rightarrow> bool" where
  "pureOnRows E f g X \<longleftrightarrow> (\<forall>xs\<in>X. \<forall>\<sigma>. callFn E f xs \<sigma> = (Got (g xs), \<sigma>))"

definition cntIs :: "('o, 'w) lenv \<Rightarrow> 'o sval \<Rightarrow> int \<Rightarrow> bool" where
  "cntIs E c n \<longleftrightarrow> (\<forall>\<sigma>. countOperand E c \<sigma> = (Got n, \<sigma>)) \<and> n < 2 ^ 63"

lemma cntIs_int: "- (2 ^ 63) \<le> n \<Longrightarrow> n < 2 ^ 63 \<Longrightarrow> cntIs E (VInt n) n"
  by (simp add: cntIs_def countOperand_def asLong_def got_def)

lemma cntIs_pred: "cntIs E c n \<Longrightarrow> 0 < n \<Longrightarrow> cntIs E (VInt (n - 1)) (n - 1)"
  by (rule cntIs_int) (auto simp: cntIs_def)

text \<open>What the steps compute, on lists.\<close>

fun pcat :: "('a list \<times> bool) list \<Rightarrow> bool \<Rightarrow> 'a list \<times> bool" where
  "pcat [] f = ([], f)"
| "pcat ((xs, e) # r) f = (if e then (xs @ fst (pcat r f), snd (pcat r f)) else (xs, False))"

fun dedup :: "('o, 'w) lenv \<Rightarrow> 'o sval \<Rightarrow> 'o sval list \<Rightarrow> 'o sval list" where
  "dedup E seen [] = []"
| "dedup E seen (y # ys) =
     (if setHas E seen y then dedup E seen ys else y # dedup E (setPut E seen y) ys)"

definition rangeLen :: "int \<Rightarrow> int \<Rightarrow> int \<Rightarrow> nat" where
  "rangeLen i j d = nat (if d > 0 then (j - i + d - 1) div d else (i - j - d - 1) div (- d))"

definition rangeList :: "int \<Rightarrow> int \<Rightarrow> int \<Rightarrow> 'o sval list" where
  "rangeList i j d = map (\<lambda>k. VInt (i + int k * d)) [0..<rangeLen i j d]"

definition rows :: "nat \<Rightarrow> 'a list list \<Rightarrow> 'a list list" where
  "rows N yss = map (\<lambda>k. map (\<lambda>ys. ys ! k) yss) [0..<N]"

definition rowsEnd :: "nat \<Rightarrow> ('a list \<times> bool) list \<Rightarrow> bool" where
  "rowsEnd N yss \<longleftrightarrow>
     (\<exists>i<length yss. length (fst (yss ! i)) = N \<and> snd (yss ! i) \<and> (\<forall>j<i. N < length (fst (yss ! j))))"

fun partsOf :: "nat \<Rightarrow> int \<Rightarrow> int \<Rightarrow> int \<Rightarrow> 'o sval list \<Rightarrow> 'o sval list \<Rightarrow> 'o sval list" where
  "partsOf 0 n d mode pad ys = []"
| "partsOf (Suc k) n d mode pad ys =
     (if ys = [] then []
      else if int (length ys) < n
      then if mode = 0 then [] else if mode = 1 then [VList (ys @ take (nat n - length ys) pad)] else [VList ys]
      else VList (take (nat n) ys) # partsOf k n d mode pad (drop (nat d) ys))"

inductive stepOk ::
    "('o, 'w) lenv \<Rightarrow> 'o lty \<Rightarrow> nat \<Rightarrow> StepKind \<Rightarrow> 'o sval list \<Rightarrow> 'o sval list \<Rightarrow> bool \<Rightarrow> bool"
  for E T l where
  ok_none: "stepOk E T l k ops [] False"
| ok_map1: "q < l \<Longrightarrow> gives E T q b ys e \<Longrightarrow> pureOn E f g (if e then set ys else UNIV) \<Longrightarrow>
    stepOk E T l StMap1 [f, b] (map g ys) e"
| ok_mapN: "q < l \<Longrightarrow> list_all2 (\<lambda>c p. gives E T q c (fst p) (snd p)) cs yss \<Longrightarrow>
    (\<forall>p\<in>set yss. N \<le> length (fst p)) \<Longrightarrow> (e \<Longrightarrow> rowsEnd N yss) \<Longrightarrow>
    pureOnRows E f g (set (rows N (map fst yss))) \<Longrightarrow>
    stepOk E T l StMapN [f, VRaw cs] (map g (rows N (map fst yss))) e"
| ok_filter: "q < l \<Longrightarrow> gives E T q b ys e \<Longrightarrow> pureOn E f g (if e then set ys else UNIV) \<Longrightarrow>
    stepOk E T l StFilter [f, b, neg] (filter (\<lambda>x. truthy (g x) \<noteq> (neg = VTrue)) ys) e"
| ok_take: "q < l \<Longrightarrow> gives E T q b ys f \<Longrightarrow> cntIs E c n \<Longrightarrow>
    stepOk E T l StTake [c, b] (take (nat n) ys) (f \<or> nat n \<le> length ys)"
| ok_takeWhile: "q < l \<Longrightarrow> gives E T q b ys f \<Longrightarrow> pureOn E p g (set ys) \<Longrightarrow>
    stepOk E T l StTakeWhile [p, b] (takeWhile (truthy \<circ> g) ys) (f \<or> (\<exists>y\<in>set ys. \<not> truthy (g y)))"
| ok_drop: "q < l \<Longrightarrow> gives E T q b ys f \<Longrightarrow> cntIs E c n \<Longrightarrow>
    stepOk E T l StDrop [c, b] (drop (nat n) ys) f"
| ok_dropWhile: "q < l \<Longrightarrow> gives E T q b ys f \<Longrightarrow> pureOn E p g (set ys) \<Longrightarrow>
    stepOk E T l StDropWhile [p, b] (dropWhile (truthy \<circ> g) ys) f"
| ok_iterate: "pureOn E f g (range (\<lambda>i. (g ^^ i) x)) \<Longrightarrow>
    stepOk E T l StIterate [f, x] (map (\<lambda>i. (g ^^ i) x) [0..<N]) False"
| ok_iterateNext: "pureOn E f g (range (\<lambda>i. (g ^^ i) x)) \<Longrightarrow>
    stepOk E T l StIterateNext [f, x] (map (\<lambda>i. (g ^^ Suc i) x) [0..<N]) False"
| ok_repeat: "stepOk E T l StRepeat [x, VNil] (replicate N x) False"
| ok_repeatN: "cntIs E c n \<Longrightarrow> c \<noteq> VNil \<Longrightarrow> stepOk E T l StRepeat [x, c] (replicate (nat n) x) True"
| ok_repeatedly: "(\<forall>\<sigma>. callFn E f [] \<sigma> = (Got y, \<sigma>)) \<Longrightarrow> stepOk E T l StRepeatedly [f, VNil] (replicate N y) False"
| ok_repeatedlyN: "(\<forall>\<sigma>. callFn E f [] \<sigma> = (Got y, \<sigma>)) \<Longrightarrow> cntIs E c n \<Longrightarrow> c \<noteq> VNil \<Longrightarrow>
    stepOk E T l StRepeatedly [f, c] (replicate (nat n) y) True"
| ok_cycle: "q < l \<Longrightarrow> gives E T q c ys True \<Longrightarrow> gives E T q b zs True \<Longrightarrow>
    prefix xs (zs @ concat (replicate M ys)) \<Longrightarrow> stepOk E T l StCycle [c, b] xs False"
| ok_cycleEmpty: "q < l \<Longrightarrow> gives E T q c [] True \<Longrightarrow> gives E T q b [] True \<Longrightarrow>
    stepOk E T l StCycle [c, b] [] True"
| ok_range: "d \<noteq> 0 \<Longrightarrow> stepOk E T l StRange [VInt i, VInt j, VInt d] (rangeList i j d) True"
| ok_rangeInf: "stepOk E T l StRangeInf [VInt i, VInt d] (map (\<lambda>k. VInt (i + int k * d)) [0..<N]) False"
| ok_concat: "q < l \<Longrightarrow> gives E T q a ys f \<Longrightarrow> gives E T q b cs h \<Longrightarrow>
    list_all2 (\<lambda>c p. gives E T q c (fst p) (snd p)) cs zss \<Longrightarrow>
    stepOk E T l StConcat [a, b] (fst (pcat ((ys, f) # zss) h)) (snd (pcat ((ys, f) # zss) h))"
| ok_partition: "q < l \<Longrightarrow> gives E T q coll ys True \<Longrightarrow> cntIs E amt n \<Longrightarrow> cntIs E stp d \<Longrightarrow> 0 < d \<Longrightarrow>
    (mode = 1 \<Longrightarrow> gives E T q pad ps True) \<Longrightarrow> mode = 0 \<or> mode = 1 \<or> mode = 2 \<Longrightarrow>
    stepOk E T l StPartition [amt, stp, pad, VInt mode, coll] (partsOf (length ys) n d mode ps ys) True"
| ok_interleave: "q < l \<Longrightarrow> list_all2 (\<lambda>c p. gives E T q c (fst p) (snd p)) cs yss \<Longrightarrow> cs \<noteq> [] \<Longrightarrow>
    (\<forall>p\<in>set yss. N \<le> length (fst p)) \<Longrightarrow> (e \<Longrightarrow> rowsEnd N yss) \<Longrightarrow>
    stepOk E T l StInterleave [VRaw cs] (concat (rows N (map fst yss))) e"
| ok_for: "q + 2 * length ys < l \<Longrightarrow> gives E T q coll ys f \<Longrightarrow> pureOn E body g (if f then set ys else UNIV) \<Longrightarrow>
    (\<forall>y. g y \<noteq> stop \<longrightarrow> gives E T q (g y) (h y) True) \<Longrightarrow>
    stepOk E T l StFor [coll, body, stop, inner]
      (concat (map h (takeWhile (\<lambda>y. g y \<noteq> stop) ys))) (f \<or> (\<exists>y\<in>set ys. g y = stop))"
| ok_distinct: "(\<forall>s x. setPut E s x \<noteq> VNil) \<Longrightarrow> q < l \<Longrightarrow> gives E T q b ys f \<Longrightarrow>
    stepOk E T l StDistinct [b, seen] (dedup E (if seen = VNil then emptySet E else seen) ys) f"

text \<open>The thunk of a \<^verbatim>\<open>lazy-seq\<close> form: its function answers a sequence there is, or a cons onto a fresh lazy seq.\<close>

inductive fnYields :: "('o, 'w) lenv \<Rightarrow> 'o lty \<Rightarrow> nat \<Rightarrow> 'o \<Rightarrow> 'o sval list \<Rightarrow> bool \<Rightarrow> bool" for E T l where
  fn_none: "fnYields E T l f [] False"
| fn_ret: "q < l \<Longrightarrow> (\<forall>\<sigma>. callFn E (VObj f) [] \<sigma> = (Got v, \<sigma>)) \<Longrightarrow> gives E T q v xs e \<Longrightarrow> fnYields E T l f xs e"
| fn_cell: "(\<forall>\<sigma>. callFn E (VObj f) [] \<sigma> =
      (Got (VCons x (VLazy (length (slots \<sigma>)))), \<sigma>\<lparr>slots := slots \<sigma> @ [Unrealized (VObj f')]\<rparr>)) \<Longrightarrow>
    fnYields E T l f' xs e \<Longrightarrow> fnYields E T l f (x # xs) e"

fun thunkOk :: "('o, 'w) lenv \<Rightarrow> 'o lty \<Rightarrow> nat \<Rightarrow> 'o sval \<Rightarrow> 'o sval list \<Rightarrow> bool \<Rightarrow> bool" where
  "thunkOk E T l (VStep k ops) xs e = stepOk E T l k ops xs e"
| "thunkOk E T l (VObj f) xs e = fnYields E T l f xs e"
| "thunkOk E T l v xs e = (xs = [] \<and> \<not> e)"

fun slotOk :: "('o, 'w) lenv \<Rightarrow> 'o lty \<Rightarrow> 'o slot \<Rightarrow> 'o sval list \<Rightarrow> bool \<Rightarrow> nat \<Rightarrow> bool" where
  "slotOk E T (Unrealized t) xs e l = thunkOk E T l t xs e"
| "slotOk E T (Claimed t) xs e l = True"
| "slotOk E T (Realized s) xs e l = (isSeqVal s \<and> gives E T l s xs e)"

definition storeOk :: "('o, 'w) lenv \<Rightarrow> 'o lty \<Rightarrow> ('o, 'w) lstate \<Rightarrow> bool" where
  "storeOk E T \<sigma> \<longleftrightarrow>
     length T = length (slots \<sigma>) \<and>
     (\<forall>a<length T. slotOk E T (slots \<sigma> ! a) (elts T a) (ends T a) (level T a))"

lemma list_all2_gives_ext:
  "list_all2 (\<lambda>c p. gives E T q c (fst p) (snd p)) cs yss \<Longrightarrow> prefix T T' \<Longrightarrow>
   list_all2 (\<lambda>c p. gives E T' q c (fst p) (snd p)) cs yss"
  by (erule list_all2_mono) (rule gives_ext)

lemma stepOk_ext: "stepOk E T l k ops xs e \<Longrightarrow> prefix T T' \<Longrightarrow> stepOk E T' l k ops xs e"
proof (induction rule: stepOk.induct)
  case (ok_for q coll ys f body g stop h inner)
  then show ?case by (intro stepOk.ok_for [of q]) (auto intro: gives_ext)
next
  case (ok_partition q coll ys amt n stp d mode pad ps)
  then show ?case by (intro stepOk.ok_partition [of q]) (auto intro: gives_ext)
qed (blast intro: stepOk.intros gives_ext list_all2_gives_ext)+

lemma fnYields_ext: "fnYields E T l f xs e \<Longrightarrow> prefix T T' \<Longrightarrow> fnYields E T' l f xs e"
  by (induction rule: fnYields.induct) (auto intro: fnYields.intros gives_ext)

lemma thunkOk_ext: "thunkOk E T l t xs e \<Longrightarrow> prefix T T' \<Longrightarrow> thunkOk E T' l t xs e"
  by (cases t) (auto intro: stepOk_ext fnYields_ext)

lemma slotOk_ext: "slotOk E T s xs e l \<Longrightarrow> prefix T T' \<Longrightarrow> slotOk E T' s xs e l"
  by (cases s) (auto intro: thunkOk_ext gives_ext)

end
