(* ===== verification/LazyRun.thy ===== *)
theory LazyRun
  imports LazyTyped
begin

text \<open>
  Running code on a well typed store. \<open>conv F r\<close> says that the outcome is \<open>r\<close> for every large enough fuel.
  \<open>triple E r T F Q\<close> says that from any store typed by \<open>T\<close> in which no lazy seq of a level below \<open>r\<close> is
  being realised the code answers a value with \<open>Q\<close>, in a store typed by an extension of \<open>T\<close>, and claims no
  slot that was not claimed before.
\<close>

declare realizeLazy.simps [simp del]

section \<open>Enough fuel\<close>

definition conv :: "(nat \<Rightarrow> 'a) \<Rightarrow> 'a \<Rightarrow> bool" where
  "conv F r \<longleftrightarrow> (\<exists>N. \<forall>n\<ge>N. F n = r)"

lemma conv_const [simp]: "conv (\<lambda>n. r) r"
  by (simp add: conv_def)

lemma conv_constI: "(\<And>n. F n = r) \<Longrightarrow> conv F r"
  by (simp add: conv_def)

lemma conv_shift: "conv F r \<Longrightarrow> conv (\<lambda>n. F (n + d)) r"
  unfolding conv_def by (meson trans_le_add1)

lemma conv_Suc: "conv (\<lambda>n. F (Suc n)) r \<Longrightarrow> conv F r"
  unfolding conv_def by (metis Suc_le_D Suc_le_mono)

lemma conv_cong: "conv F r \<Longrightarrow> (\<And>n. F n = r \<Longrightarrow> G n = r') \<Longrightarrow> conv G r'"
  unfolding conv_def by blast

lemma conv_then: "conv F a \<Longrightarrow> conv G r \<Longrightarrow> (\<And>n. F n = a \<Longrightarrow> H n = G n) \<Longrightarrow> conv H r"
  unfolding conv_def by (metis max.bounded_iff nat_le_linear)

section \<open>Triples\<close>

definition claims :: "('o, 'w) lstate \<Rightarrow> nat set" where
  "claims \<sigma> = {a. a < length (slots \<sigma>) \<and> (\<exists>t. slots \<sigma> ! a = Claimed t)}"

definition free :: "nat \<Rightarrow> 'o lty \<Rightarrow> ('o, 'w) lstate \<Rightarrow> bool" where
  "free r T \<sigma> \<longleftrightarrow> (\<forall>a\<in>claims \<sigma>. r \<le> level T a)"

definition runsTo ::
    "('o, 'w) lenv \<Rightarrow> 'o lty \<Rightarrow> ('o, 'w) lstate \<Rightarrow> (nat \<Rightarrow> ('o, 'w, 'a) lact) \<Rightarrow> ('a \<Rightarrow> 'o lty \<Rightarrow> bool) \<Rightarrow> bool" where
  "runsTo E T \<sigma> F Q \<longleftrightarrow>
     (\<exists>x T' \<sigma>'. conv (\<lambda>n. F n \<sigma>) (Got x, \<sigma>') \<and> prefix T T' \<and> storeOk E T' \<sigma>' \<and> claims \<sigma>' = claims \<sigma> \<and> Q x T')"

definition triple ::
    "('o, 'w) lenv \<Rightarrow> nat \<Rightarrow> 'o lty \<Rightarrow> (nat \<Rightarrow> ('o, 'w, 'a) lact) \<Rightarrow> ('a \<Rightarrow> 'o lty \<Rightarrow> bool) \<Rightarrow> bool" where
  "triple E r T F Q \<longleftrightarrow> (\<forall>\<sigma>. storeOk E T \<sigma> \<and> free r T \<sigma> \<longrightarrow> runsTo E T \<sigma> F Q)"

lemma storeOk_length: "storeOk E T \<sigma> \<Longrightarrow> length T = length (slots \<sigma>)"
  by (simp add: storeOk_def)

lemma claims_less: "storeOk E T \<sigma> \<Longrightarrow> a \<in> claims \<sigma> \<Longrightarrow> a < length T"
  by (simp add: storeOk_def claims_def)

lemma free_ext:
  assumes "free r T \<sigma>" "storeOk E T \<sigma>" "prefix T T'" "claims \<sigma>' = claims \<sigma>"
  shows "free r T' \<sigma>'"
  using assms by (auto simp: free_def prefix_nth claims_less)

lemma free_le: "free r T \<sigma> \<Longrightarrow> q \<le> r \<Longrightarrow> free q T \<sigma>"
  by (force simp: free_def)

lemma triple_up: "triple E q T F Q \<Longrightarrow> q \<le> r \<Longrightarrow> triple E r T F Q"
  by (auto simp: triple_def intro: free_le)

lemma runsToI:
  "conv (\<lambda>n. F n \<sigma>) (Got x, \<sigma>') \<Longrightarrow> prefix T T' \<Longrightarrow> storeOk E T' \<sigma>' \<Longrightarrow> claims \<sigma>' = claims \<sigma> \<Longrightarrow> Q x T' \<Longrightarrow>
   runsTo E T \<sigma> F Q"
  unfolding runsTo_def by fast

lemma runsToE:
  assumes "runsTo E T \<sigma> F Q"
  obtains x T' \<sigma>' where "conv (\<lambda>n. F n \<sigma>) (Got x, \<sigma>')" "prefix T T'" "storeOk E T' \<sigma>'"
    "claims \<sigma>' = claims \<sigma>" "Q x T'"
  using assms unfolding runsTo_def by fast

lemma tripleI: "(\<And>\<sigma>. storeOk E T \<sigma> \<Longrightarrow> free r T \<sigma> \<Longrightarrow> runsTo E T \<sigma> F Q) \<Longrightarrow> triple E r T F Q"
  by (simp add: triple_def)

lemma tripleD: "triple E r T F Q \<Longrightarrow> storeOk E T \<sigma> \<Longrightarrow> free r T \<sigma> \<Longrightarrow> runsTo E T \<sigma> F Q"
  by (simp add: triple_def)

lemma triple_conseq: "triple E r T F Q \<Longrightarrow> (\<And>x T'. prefix T T' \<Longrightarrow> Q x T' \<Longrightarrow> Q' x T') \<Longrightarrow> triple E r T F Q'"
  by (rule tripleI, drule (2) tripleD, erule runsToE, rule runsToI)

lemma triple_pure:
  assumes "\<And>n \<sigma>. F n \<sigma> = (Got x, \<sigma>)" and "Q x T"
  shows "triple E r T F Q"
proof (rule tripleI)
  fix \<sigma> assume "storeOk E T \<sigma>"
  with assms show "runsTo E T \<sigma> F Q" by (intro runsToI [of F \<sigma> x \<sigma> T T]) simp_all
qed

lemma triple_got [intro]: "Q x T \<Longrightarrow> triple E r T (\<lambda>n. got x) Q"
  by (rule triple_pure) (simp_all add: got_def)

lemma triple_Suc:
  assumes "triple E r T (\<lambda>n. F (Suc n)) Q"
  shows "triple E r T F Q"
proof (rule tripleI)
  fix \<sigma> assume "storeOk E T \<sigma>" "free r T \<sigma>"
  from tripleD [OF assms this] obtain x T' \<sigma>' where *: "conv (\<lambda>n. F (Suc n) \<sigma>) (Got x, \<sigma>')" "prefix T T'"
    "storeOk E T' \<sigma>'" "claims \<sigma>' = claims \<sigma>" "Q x T'" by (rule runsToE)
  from conv_Suc [of "\<lambda>n. F n \<sigma>", OF *(1)] *(2-) show "runsTo E T \<sigma> F Q" by (rule runsToI)
qed

lemma triple_shift:
  assumes "triple E r T F Q"
  shows "triple E r T (\<lambda>n. F (n + d)) Q"
proof (rule tripleI)
  fix \<sigma> assume "storeOk E T \<sigma>" "free r T \<sigma>"
  from tripleD [OF assms this] obtain x T' \<sigma>' where *: "conv (\<lambda>n. F n \<sigma>) (Got x, \<sigma>')" "prefix T T'"
    "storeOk E T' \<sigma>'" "claims \<sigma>' = claims \<sigma>" "Q x T'" by (rule runsToE)
  from conv_shift [of "\<lambda>n. F n \<sigma>", OF *(1)] *(2-) show "runsTo E T \<sigma> (\<lambda>n. F (n + d)) Q" by (rule runsToI)
qed

lemma triple_bind:
  assumes "triple E r T F R" and "\<And>x T'. prefix T T' \<Longrightarrow> R x T' \<Longrightarrow> triple E r T' (\<lambda>n. G n x) Q"
  shows "triple E r T (\<lambda>n. andThen (F n) (G n)) Q"
proof (rule tripleI)
  fix \<sigma> assume s: "storeOk E T \<sigma>" "free r T \<sigma>"
  from tripleD [OF assms(1) this] obtain x T1 \<sigma>1 where 1: "conv (\<lambda>n. F n \<sigma>) (Got x, \<sigma>1)" "prefix T T1"
    "storeOk E T1 \<sigma>1" "claims \<sigma>1 = claims \<sigma>" "R x T1" by (rule runsToE)
  from s 1 have "free r T1 \<sigma>1" by (blast intro: free_ext)
  from tripleD [OF assms(2) [OF 1(2,5)] 1(3) this] obtain y T2 \<sigma>2
    where 2: "conv (\<lambda>n. G n x \<sigma>1) (Got y, \<sigma>2)" "prefix T1 T2" "storeOk E T2 \<sigma>2"
      "claims \<sigma>2 = claims \<sigma>1" "Q y T2" by (rule runsToE)
  have "conv (\<lambda>n. andThen (F n) (G n) \<sigma>) (Got y, \<sigma>2)"
    by (rule conv_then [OF 1(1) 2(1)]) (simp add: andThen_def)
  moreover have "prefix T T2" using 1(2) 2(2) by (rule prefix_order.order_trans)
  ultimately show "runsTo E T \<sigma> (\<lambda>n. andThen (F n) (G n)) Q"
    using 1(4) 2(3-5) by (intro runsToI [where \<sigma>' = \<sigma>2 and T' = T2]) simp_all
qed

lemma andThen_pure: "(\<And>\<sigma>. m \<sigma> = (Got x, \<sigma>)) \<Longrightarrow> andThen m G = G x"
  by (rule ext) (simp add: andThen_def)

lemma got_then [simp]: "andThen (got x) G = G x"
  by (rule andThen_pure) (simp add: got_def)

lemma call0_then: "\<forall>\<sigma>. callFn E f xs \<sigma> = (Got y, \<sigma>) \<Longrightarrow> andThen (callFn E f xs) G = G y"
  by (rule andThen_pure) simp

lemma cntIs_then: "cntIs E c n \<Longrightarrow> andThen (countOperand E c) G = G n"
  by (rule andThen_pure) (simp add: cntIs_def)

lemma triple_pure_bind:
  assumes "\<And>n \<sigma>. F n \<sigma> = (Got x, \<sigma>)" and "triple E r T (\<lambda>n. G n x) Q"
  shows "triple E r T (\<lambda>n. andThen (F n) (G n)) Q"
proof -
  have "andThen (F n) (G n) = G n x" for n by (rule ext) (simp add: andThen_def assms(1))
  with assms(2) show ?thesis by simp
qed

text \<open>A fresh lazy seq.\<close>

lemma claims_new: "claims (\<sigma>\<lparr>slots := slots \<sigma> @ [Unrealized t]\<rparr>) = claims \<sigma>"
  by (auto simp: claims_def nth_append less_Suc_eq)

lemma storeOk_new:
  assumes "storeOk E T \<sigma>" "thunkOk E T l t xs e"
  shows "storeOk E (T @ [((xs, e), l)]) (\<sigma>\<lparr>slots := slots \<sigma> @ [Unrealized t]\<rparr>)"
proof -
  let ?T = "T @ [((xs, e), l)]"
  have len: "length T = length (slots \<sigma>)" using assms(1) by (rule storeOk_length)
  have "slotOk E ?T ((slots \<sigma> @ [Unrealized t]) ! a) (elts ?T a) (ends ?T a) (level ?T a)"
    if "a < length ?T" for a
  proof (cases "a < length T")
    case True
    with assms(1) have "slotOk E T (slots \<sigma> ! a) (elts T a) (ends T a) (level T a)"
      by (simp add: storeOk_def)
    with True len show ?thesis by (simp add: nth_append slotOk_ext [of E T])
  next
    case False
    with that have "a = length T" by simp
    with len thunkOk_ext [OF assms(2), of ?T] show ?thesis by (simp add: nth_append)
  qed
  with len show ?thesis by (simp add: storeOk_def)
qed

lemma triple_new:
  assumes "thunkOk E T l t xs e"
    and "\<And>T'. prefix T T' \<Longrightarrow> gives E T' l (VLazy (length T)) xs e \<Longrightarrow> Q (VLazy (length T)) T'"
  shows "triple E r T (\<lambda>n. newLazySeq t) Q"
proof (rule tripleI)
  fix \<sigma> :: "('a, 'b) lstate" assume s: "storeOk E T \<sigma>"
  let ?T = "T @ [((xs, e), l)]" and ?\<sigma> = "\<sigma>\<lparr>slots := slots \<sigma> @ [Unrealized t]\<rparr>"
  have "Q (VLazy (length T)) ?T" by (rule assms(2)) auto
  moreover have "newLazySeq t \<sigma> = (Got (VLazy (length T)), ?\<sigma>)"
    by (simp add: newLazySeq_def storeOk_length [OF s])
  ultimately show "runsTo E T \<sigma> (\<lambda>n. newLazySeq t) Q"
    using storeOk_new [OF s assms(1)] claims_new [of \<sigma> t]
    by (intro runsToI [where T' = ?T and \<sigma>' = ?\<sigma>]) auto
qed

lemma triple_step:
  assumes "stepOk E T l k ops xs e"
    and "\<And>t T'. prefix T T' \<Longrightarrow> gives E T' l t xs e \<Longrightarrow> Q t T'"
  shows "triple E r T (\<lambda>n. lazyStep k ops) Q"
  unfolding lazyStep_def using assms by (intro triple_new) auto

text \<open>What a step answers, and the seqs it may ask for.\<close>

definition answers :: "('o, 'w) lenv \<Rightarrow> nat \<Rightarrow> 'o sval list \<Rightarrow> bool \<Rightarrow> 'o sval \<Rightarrow> 'o lty \<Rightarrow> bool" where
  "answers E l xs e s T \<longleftrightarrow> isSeqVal s \<and> gives E T l s xs e"

definition seqSound :: "('o, 'w) lenv \<Rightarrow> nat \<Rightarrow> bool" where
  "seqSound E l \<longleftrightarrow>
     (\<forall>q T v xs e. q < l \<longrightarrow> gives E T q v xs e \<longrightarrow> xs \<noteq> [] \<or> e \<longrightarrow>
        triple E l T (\<lambda>n. seqOf E n v) (answers E q xs e))"

lemma seqD:
  "seqSound E l \<Longrightarrow> q < l \<Longrightarrow> gives E T q v xs e \<Longrightarrow> xs \<noteq> [] \<or> e \<Longrightarrow>
   triple E l T (\<lambda>n. seqOf E (n + d) v) (answers E q xs e)"
  unfolding seqSound_def by (intro triple_shift) blast

lemma answersD:
  assumes "answers E q (x # xs) e s T"
  shows "s \<noteq> VNil" "seqFirst s = x" "gives E T q (seqMore s) xs e"
  using assms gives_first gives_more by (auto simp: answers_def)

lemma answers_Nil [simp]: "answers E q [] True s T \<longleftrightarrow> s = VNil"
  using gives_nil by (auto simp: answers_def)

lemma answers_VNil: "answers E q xs e VNil T \<longleftrightarrow> xs = []"
  by (simp add: answers_def)

lemma answers_VCons [simp]: "answers E q (x # xs) e (VCons x t) T \<longleftrightarrow> gives E T q t xs e"
  by (simp add: answers_def)

lemma answers_part: "answers E q ys f s T \<Longrightarrow> ple xs e ys f \<Longrightarrow> answers E q xs e s T"
  by (auto simp: answers_def intro: gives_part)

lemma answers_level: "answers E q xs e s T \<Longrightarrow> q \<le> r \<Longrightarrow> answers E r xs e s T"
  by (auto simp: answers_def intro: gives_level)

lemma answers_ext: "answers E q xs e s T \<Longrightarrow> prefix T T' \<Longrightarrow> answers E q xs e s T'"
  by (auto simp: answers_def intro: gives_ext)

lemma chunkSliceD:
  assumes "answers E q ys f s T" "isChunkedSeq s" "chunkSlice s = (xs, aft)"
  shows "xs \<noteq> []" and "(\<not> f \<and> prefix ys xs) \<or> (\<exists>zs. ys = xs @ zs \<and> gives E T q aft zs f)"
proof -
  from assms(2) obtain items off en m where "s = VChunk items off en m True" by (cases s) auto
  with assms gives_slice [of E T q items off en m ys f xs aft]
  show "xs \<noteq> []" and "(\<not> f \<and> prefix ys xs) \<or> (\<exists>zs. ys = xs @ zs \<and> gives E T q aft zs f)"
    by (auto simp: answers_def)
qed

lemma triple_call:
  "pureOn E f g X \<Longrightarrow> x \<in> X \<Longrightarrow> triple E r T (\<lambda>n. G n (g x)) Q \<Longrightarrow>
   triple E r T (\<lambda>n. andThen (callFn E f [x]) (G n)) Q"
  by (rule triple_pure_bind [where x = "g x"]) (auto simp: pureOn_def)

lemma pureOn_then: "pureOn E f g X \<Longrightarrow> x \<in> X \<Longrightarrow> andThen (callFn E f [x]) G = G (g x)"
  by (rule andThen_pure) (auto simp: pureOn_def)

lemma callEach_pure: "pureOn E f g (set xs) \<Longrightarrow> callEach E f xs acc \<sigma> = (Got (acc @ map g xs), \<sigma>)"
  by (induction xs arbitrary: acc) (auto simp: got_def andThen_def pureOn_def)

lemma keepEach_pure:
  "pureOn E f g (set xs) \<Longrightarrow>
   keepEach E f neg xs acc \<sigma> = (Got (acc @ filter (\<lambda>x. truthy (g x) \<noteq> neg) xs), \<sigma>)"
  by (induction xs arbitrary: acc) (auto simp: got_def andThen_def pureOn_def)

text \<open>The tail after a chunk: nothing when the source ends there, and else a lazy seq of what is left.\<close>

lemma triple_after:
  assumes "\<And>zs. gives E T q v zs e \<Longrightarrow> (e \<Longrightarrow> us = xs @ zs) \<Longrightarrow> stepOk E T l k ops (F zs) e" "F [] = []"
    and "ys \<noteq> []" "(\<not> e \<and> prefix us xs) \<or> (\<exists>zs. us = xs @ zs \<and> gives E T q v zs e)"
    and "\<And>xs zs. F (xs @ zs) = F xs @ F zs" "F xs = ys"
    and "\<And>us. prefix us xs \<Longrightarrow> prefix (F us) (F xs)"
  shows "triple E r T (\<lambda>n. andThen (lazyAfter k v ops) (\<lambda>t. got (VChunk ys 0 (length ys) t c)))
    (answers E l (F us) e)"
proof -
  have "\<exists>zs. gives E T q v zs e \<and> ((\<not> e \<and> prefix us xs) \<or> us = xs @ zs)"
    using assms(4)
  proof
    assume "\<not> e \<and> prefix us xs"
    then show ?thesis by (intro exI [of _ "[]"]) simp
  qed blast
  then obtain zs where zs: "gives E T q v zs e" "(\<not> e \<and> prefix us xs) \<or> us = xs @ zs" by blast
  have "triple E r T (\<lambda>n. lazyAfter k v ops) (\<lambda>t T'. gives E T' l t (F zs) e)"
  proof (cases "v = VNil")
    case True
    with zs(1) assms(2) show ?thesis by (auto simp: lazyAfter_def)
  next
    case False
    with assms(1) [OF zs(1)] zs(2) show ?thesis by (auto simp: lazyAfter_def intro: triple_step)
  qed
  then show ?thesis
  proof (rule triple_bind)
    fix t T' assume g: "gives E T' l t (F zs) e"
    have "answers E l (F us) e (VChunk ys 0 (length ys) t c) T'"
      unfolding answers_def using assms(3) zs(2) g assms(5-7) by (auto intro!: gives_chunk_new)
    then show "triple E r T' (\<lambda>n. got (VChunk ys 0 (length ys) t c)) (answers E l (F us) e)" by blast
  qed
qed

end
