(* ===== verification/LazySteps.thy ===== *)
theory LazySteps
  imports LazyRun
begin

text \<open>
  Each native step yields what its rule promises: from sources of a lower level it computes the list
  function of its name, one element or one chunk at a time.
\<close>

section \<open>map and filter\<close>

lemma pureOn_sub: "pureOn E f g X \<Longrightarrow> Y \<subseteq> X \<Longrightarrow> pureOn E f g Y"
  by (auto simp: pureOn_def)

lemma map1_sound:
  assumes "seqSound E l" "q < l" "gives E T q b ys e" "pureOn E f g (if e then set ys else UNIV)" "ys \<noteq> [] \<or> e"
  shows "triple E l T (\<lambda>n. stepMap1 E (seqOf E n) f b) (answers E l (map g ys) e)"
  unfolding stepMap1_def
proof (rule triple_bind)
  show "triple E l T (\<lambda>n. seqOf E n b) (answers E q ys e)"
    using seqD [OF assms(1-3,5), where d = 0] by simp
  fix s T' assume s: "answers E q ys e s T'"
  let ?G = "\<lambda>n. if s = VNil then got VNil
       else if isChunkedSeq s
       then let (xs, aft) = chunkSlice s in
            andThen (callEach E f xs []) (\<lambda>ys.
              andThen (lazyAfter StMap1 aft [f, aft]) (\<lambda>t. got (VChunk ys 0 (length ys) t True)))
       else andThen (callFn E f [seqFirst s]) (\<lambda>y.
              andThen (lazyStep StMap1 [f, seqMore s]) (\<lambda>t. got (VCons y t)))"
  show "triple E l T' ?G (answers E l (map g ys) e)"
  proof (cases ys)
    case Nil
    with s assms(5) show ?thesis by (auto simp: answers_VNil)
  next
    case (Cons y zs)
    with s have ne: "s \<noteq> VNil" and fst: "seqFirst s = y" and more: "gives E T' q (seqMore s) zs e"
      by (auto dest: answersD)
    show ?thesis
    proof (cases "isChunkedSeq s")
      case True
      obtain xs aft where sl: "chunkSlice s = (xs, aft)" by fastforce
      note c = chunkSliceD [OF s True sl]
      have "pureOn E f g (set xs)" using assms(4) c(2) by (auto elim: pureOn_sub)
      then have p: "callEach E f xs [] \<sigma> = (Got (map g xs), \<sigma>)" for \<sigma> by (simp add: callEach_pure)
      have "triple E l T' (\<lambda>n. andThen (lazyAfter StMap1 aft [f, aft])
          (\<lambda>t. got (VChunk (map g xs) 0 (length (map g xs)) t True))) (answers E l (map g ys) e)"
      proof (rule triple_after [where F = "map g" and q = q and xs = xs])
        fix zs assume "gives E T' q aft zs e" "e \<Longrightarrow> ys = xs @ zs"
        with assms(2,4) show "stepOk E T' l StMap1 [f, aft] (map g zs) e"
          by (intro stepOk.ok_map1) (auto elim: pureOn_sub)
      qed (use c in \<open>auto simp: map_mono_prefix\<close>)
      with ne True sl show ?thesis by (simp add: andThen_pure [OF p])
    next
      case False
      have "triple E l T' (\<lambda>n. andThen (lazyStep StMap1 [f, seqMore s]) (\<lambda>t. got (VCons (g y) t)))
        (answers E l (map g ys) e)"
      proof (rule triple_bind)
        show "triple E l T' (\<lambda>n. lazyStep StMap1 [f, seqMore s]) (\<lambda>t T'. gives E T' l t (map g zs) e)"
        proof (rule triple_step)
          have "pureOn E f g (if e then set zs else UNIV)"
            using assms(4) Cons by (auto elim: pureOn_sub)
          with assms(2) more show "stepOk E T' l StMap1 [f, seqMore s] (map g zs) e" by (rule stepOk.ok_map1)
        qed
      qed (use Cons in auto)
      with ne False fst assms(4) Cons show ?thesis
        by (auto intro!: triple_call)
    qed
  qed
qed

lemma seqOf_add_Suc: "seqOf E (Suc n + d) = seqOf E (n + Suc d)"
  by simp

lemma filterLoop_sound:
  assumes "seqSound E l" "q < l"
  shows "answers E q ys e s T \<Longrightarrow> pureOn E f g (if e then set ys else UNIV) \<Longrightarrow>
    filter (\<lambda>x. truthy (g x) \<noteq> (neg = VTrue)) ys \<noteq> [] \<or> e \<Longrightarrow>
    triple E l T (\<lambda>n. filterLoop E (seqOf E (n + d)) n f neg s)
      (answers E l (filter (\<lambda>x. truthy (g x) \<noteq> (neg = VTrue)) ys) e)"
proof (induction "length ys" arbitrary: ys s T d rule: less_induct)
  case less
  let ?P = "\<lambda>x. truthy (g x) \<noteq> (neg = VTrue)"
  show ?case
  proof (rule triple_Suc, cases ys)
    case Nil
    with less.prems have "s = VNil" by auto
    with Nil show "triple E l T (\<lambda>n. filterLoop E (seqOf E (Suc n + d)) (Suc n) f neg s)
        (answers E l (filter ?P ys) e)" by (auto simp: answers_VNil)
  next
    case (Cons y zs)
    with less.prems(1) have ne: "s \<noteq> VNil" and fst: "seqFirst s = y" and more: "gives E T q (seqMore s) zs e"
      by (auto dest: answersD)
    show "triple E l T (\<lambda>n. filterLoop E (seqOf E (Suc n + d)) (Suc n) f neg s)
        (answers E l (filter ?P ys) e)"
    proof (cases "isChunkedSeq s")
      case True
      obtain xs aft where sl: "chunkSlice s = (xs, aft)" by fastforce
      note c = chunkSliceD [OF less.prems(1) True sl]
      have "pureOn E f g (set xs)" using less.prems(2) c(2) by (auto elim: pureOn_sub)
      then have p: "keepEach E f (neg = VTrue) xs [] \<sigma> = (Got (filter ?P xs), \<sigma>)" for \<sigma>
        by (simp add: keepEach_pure)
      let ?out = "filter ?P xs"
      have "triple E l T (\<lambda>n. if ?out = [] then andThen (seqOf E (Suc (n + d)) aft) (filterLoop E (seqOf E (Suc (n + d))) n f neg)
             else andThen (lazyAfter StFilter aft [f, aft, neg]) (\<lambda>t. got (VChunk ?out 0 (length ?out) t True)))
        (answers E l (filter ?P ys) e)"
      proof (cases "?out = []")
        case True
        with c(2) less.prems(3) obtain us where us: "ys = xs @ us" "gives E T q aft us e"
          by (auto simp: prefix_def)
        with True less.prems(3) have ne': "filter ?P us \<noteq> [] \<or> e" by auto
        then have "us \<noteq> [] \<or> e" by auto
        moreover have "pureOn E f g (if e then set us else UNIV)"
          using less.prems(2) us by (auto elim: pureOn_sub)
        ultimately have "triple E l T (\<lambda>n. andThen (seqOf E (n + Suc d) aft) (filterLoop E (seqOf E (n + Suc d)) n f neg))
            (answers E l (filter ?P us) e)"
          using us(1) c(1) ne' by (intro triple_bind [OF seqD [OF assms us(2)]] less.hyps) auto
        with True us(1) show ?thesis by simp
      next
        case False
        have "triple E l T (\<lambda>n. andThen (lazyAfter StFilter aft [f, aft, neg]) (\<lambda>t. got (VChunk ?out 0 (length ?out) t True)))
          (answers E l (filter ?P ys) e)"
        proof (rule triple_after [where F = "filter ?P" and q = q and xs = xs])
          fix zs assume z: "gives E T q aft zs e" "e \<Longrightarrow> ys = xs @ zs"
          then have "pureOn E f g (if e then set zs else UNIV)"
            using less.prems(2) by (auto elim: pureOn_sub)
          with assms(2) z(1) show "stepOk E T l StFilter [f, aft, neg] (filter ?P zs) e"
            by (rule stepOk.ok_filter)
        qed (use c False in \<open>auto simp: filter_mono_prefix\<close>)
        with False show ?thesis by simp
      qed
      with ne True sl show ?thesis by (simp add: andThen_pure [OF p])
    next
      case False
      have y: "y \<in> (if e then set ys else UNIV)" using Cons by simp
      have zs: "pureOn E f g (if e then set zs else UNIV)"
        using less.prems(2) Cons by (auto elim: pureOn_sub)
      have "triple E l T (\<lambda>n. if ?P y
            then andThen (lazyStep StFilter [f, seqMore s, neg]) (\<lambda>t. got (VCons y t))
            else andThen (seqOf E (Suc (n + d)) (seqMore s)) (filterLoop E (seqOf E (Suc (n + d))) n f neg))
          (answers E l (filter ?P ys) e)"
      proof (cases "?P y")
        case True
        have "triple E l T (\<lambda>n. lazyStep StFilter [f, seqMore s, neg]) (\<lambda>t T'. gives E T' l t (filter ?P zs) e)"
          using stepOk.ok_filter [OF assms(2) more zs] by (rule triple_step)
        with True Cons show ?thesis by (auto intro!: triple_bind)
      next
        case False
        with less.prems(3) Cons have ne': "filter ?P zs \<noteq> [] \<or> e" by auto
        then have "zs \<noteq> [] \<or> e" by auto
        then have "triple E l T (\<lambda>n. andThen (seqOf E (n + Suc d) (seqMore s)) (filterLoop E (seqOf E (n + Suc d)) n f neg))
            (answers E l (filter ?P zs) e)"
          using Cons zs ne' by (intro triple_bind [OF seqD [OF assms more]] less.hyps) auto
        with False Cons show ?thesis by simp
      qed
      with ne False fst show ?thesis by (simp add: pureOn_then [OF less.prems(2) y] cong: if_cong)
    qed
  qed
qed

lemma filter_sound:
  assumes "seqSound E l" "q < l" "gives E T q b ys e" "pureOn E f g (if e then set ys else UNIV)"
    and "filter (\<lambda>x. truthy (g x) \<noteq> (neg = VTrue)) ys \<noteq> [] \<or> e"
  shows "triple E l T (\<lambda>n. stepFilter E (seqOf E n) n f b neg)
    (answers E l (filter (\<lambda>x. truthy (g x) \<noteq> (neg = VTrue)) ys) e)"
proof -
  have "ys \<noteq> [] \<or> e" using assms(5) by auto
  from seqD [OF assms(1-3) this, of 0] filterLoop_sound [OF assms(1,2), where d = 0] assms(4,5)
  show ?thesis unfolding stepFilter_def by (auto intro!: triple_bind)
qed

section \<open>take and take-while\<close>

lemma cntIs_bind: "cntIs E c n \<Longrightarrow> triple E r T (\<lambda>k. G k n) Q \<Longrightarrow> triple E r T (\<lambda>k. andThen (countOperand E c) (G k)) Q"
  by (rule triple_pure_bind [where x = n]) (auto simp: cntIs_def)

lemma take_sound:
  assumes "seqSound E l" "q < l" "gives E T q b ys f" "cntIs E c n"
    and "take (nat n) ys \<noteq> [] \<or> f \<or> nat n \<le> length ys"
  shows "triple E l T (\<lambda>k. stepTake E (seqOf E k) c b) (answers E l (take (nat n) ys) (f \<or> nat n \<le> length ys))"
proof (cases "n \<le> 0")
  case True
  with assms(4) show ?thesis unfolding stepTake_def
    by (intro cntIs_bind [of E c n]) (auto simp: answers_VNil)
next
  case False
  with assms(5) have ne: "ys \<noteq> [] \<or> f" by auto
  have "triple E l T (\<lambda>k. andThen (seqOf E k b) (\<lambda>s.
         if s = VNil then got VNil
         else if n = 1 then got (VCons (seqFirst s) VNil)
         else andThen (lazyStep StTake [VInt (n - 1), seqMore s]) (\<lambda>t. got (VCons (seqFirst s) t))))
       (answers E l (take (nat n) ys) (f \<or> nat n \<le> length ys))"
  proof (rule triple_bind)
    show "triple E l T (\<lambda>k. seqOf E k b) (answers E q ys f)"
      using seqD [OF assms(1-3) ne, of 0] by simp
    fix s T' assume s: "answers E q ys f s T'"
    show "triple E l T' (\<lambda>k. if s = VNil then got VNil
         else if n = 1 then got (VCons (seqFirst s) VNil)
         else andThen (lazyStep StTake [VInt (n - 1), seqMore s]) (\<lambda>t. got (VCons (seqFirst s) t)))
       (answers E l (take (nat n) ys) (f \<or> nat n \<le> length ys))"
    proof (cases ys)
      case Nil
      with s ne show ?thesis by (auto simp: answers_VNil)
    next
      case (Cons y zs)
      with s have s': "s \<noteq> VNil" "seqFirst s = y" "gives E T' q (seqMore s) zs f" by (auto dest: answersD)
      have n: "nat n = Suc (nat (n - 1))" using False by simp
      show ?thesis
      proof (cases "n = 1")
        case True
        with s' Cons show ?thesis by (auto simp: answers_def)
      next
        case n1: False
        have "triple E l T' (\<lambda>k. lazyStep StTake [VInt (n - 1), seqMore s])
            (\<lambda>t T''. gives E T'' l t (take (nat (n - 1)) zs) (f \<or> nat (n - 1) \<le> length zs))"
          using stepOk.ok_take [OF assms(2) s'(3) cntIs_pred [OF assms(4)]] False by (intro triple_step) auto
        with s' Cons n n1 show ?thesis by (auto intro!: triple_bind)
      qed
    qed
  qed
  with False assms(4) show ?thesis unfolding stepTake_def by (intro cntIs_bind [of E c n]) simp_all
qed

lemma takeWhile_sound:
  assumes "seqSound E l" "q < l" "gives E T q b ys f" "pureOn E p g (set ys)"
    and "takeWhile (truthy \<circ> g) ys \<noteq> [] \<or> f \<or> (\<exists>y\<in>set ys. \<not> truthy (g y))"
  shows "triple E l T (\<lambda>k. stepTakeWhile E (seqOf E k) p b)
    (answers E l (takeWhile (truthy \<circ> g) ys) (f \<or> (\<exists>y\<in>set ys. \<not> truthy (g y))))"
  unfolding stepTakeWhile_def
proof (rule triple_bind)
  have ne: "ys \<noteq> [] \<or> f" using assms(5) by auto
  show "triple E l T (\<lambda>k. seqOf E k b) (answers E q ys f)"
    using seqD [OF assms(1-3) ne, of 0] by simp
  fix s T' assume s: "answers E q ys f s T'"
  show "triple E l T' (\<lambda>k. if s = VNil then got VNil
       else andThen (callFn E p [seqFirst s]) (\<lambda>y.
         if \<not> truthy y then got VNil
         else andThen (lazyStep StTakeWhile [p, seqMore s]) (\<lambda>t. got (VCons (seqFirst s) t))))
    (answers E l (takeWhile (truthy \<circ> g) ys) (f \<or> (\<exists>y\<in>set ys. \<not> truthy (g y))))"
  proof (cases ys)
    case Nil
    with s ne show ?thesis by (auto simp: answers_VNil)
  next
    case (Cons y zs)
    with s have s': "s \<noteq> VNil" "seqFirst s = y" "gives E T' q (seqMore s) zs f" by (auto dest: answersD)
    have zs: "pureOn E p g (set zs)" using assms(4) Cons by (auto elim: pureOn_sub)
    have "triple E l T' (\<lambda>k. if \<not> truthy (g y) then got VNil
         else andThen (lazyStep StTakeWhile [p, seqMore s]) (\<lambda>t. got (VCons (seqFirst s) t)))
      (answers E l (takeWhile (truthy \<circ> g) ys) (f \<or> (\<exists>y\<in>set ys. \<not> truthy (g y))))"
    proof (cases "truthy (g y)")
      case True
      have "triple E l T' (\<lambda>k. lazyStep StTakeWhile [p, seqMore s])
          (\<lambda>t T''. gives E T'' l t (takeWhile (truthy \<circ> g) zs) (f \<or> (\<exists>y\<in>set zs. \<not> truthy (g y))))"
        using stepOk.ok_takeWhile [OF assms(2) s'(3) zs] by (rule triple_step)
      with True s' Cons show ?thesis by (auto intro!: triple_bind)
    next
      case False
      with Cons show ?thesis by (auto simp: answers_VNil)
    qed
    moreover have "y \<in> set ys" using Cons by simp
    ultimately show ?thesis using s' by (simp add: pureOn_then [OF assms(4)])
  qed
qed

section \<open>iterate, repeat, repeatedly, cycle and range\<close>

lemma iterate_list: "map (\<lambda>i. (g ^^ i) x) [0..<Suc N] = x # map (\<lambda>i. (g ^^ Suc i) x) [0..<N]"
  by (simp add: upt_conv_Cons map_Suc_upt [symmetric] del: upt_Suc)

lemma iterateNext_list:
  "map (\<lambda>i. (g ^^ Suc i) x) [0..<Suc N] = g x # map (\<lambda>i. (g ^^ Suc i) (g x)) [0..<N]"
  by (simp add: upt_conv_Cons map_Suc_upt [symmetric] funpow_swap1 del: upt_Suc)

lemma iterate_sound:
  assumes "pureOn E f g (range (\<lambda>i. (g ^^ i) x))" "0 < N"
  shows "triple E l T (\<lambda>k. stepIterate f x) (answers E l (map (\<lambda>i. (g ^^ i) x) [0..<N]) False)"
proof -
  obtain M where N: "N = Suc M" using assms(2) gr0_implies_Suc by blast
  have "triple E l T (\<lambda>k. lazyStep StIterateNext [f, x])
      (\<lambda>t T'. gives E T' l t (map (\<lambda>i. (g ^^ Suc i) x) [0..<M]) False)"
    using stepOk.ok_iterateNext [OF assms(1)] by (rule triple_step)
  then show ?thesis unfolding stepIterate_def N iterate_list by (rule triple_bind) auto
qed

lemma iterateNext_sound:
  assumes "pureOn E f g (range (\<lambda>i. (g ^^ i) x))" "0 < N"
  shows "triple E l T (\<lambda>k. stepIterateNext E f x) (answers E l (map (\<lambda>i. (g ^^ Suc i) x) [0..<N]) False)"
proof -
  obtain M where N: "N = Suc M" using assms(2) gr0_implies_Suc by blast
  have p: "pureOn E f g (range (\<lambda>i. (g ^^ i) (g x)))"
  proof (rule pureOn_sub [OF assms(1)])
    show "range (\<lambda>i. (g ^^ i) (g x)) \<subseteq> range (\<lambda>i. (g ^^ i) x)"
      by (metis (no_types, lifting) funpow_swap1 funpow.simps(2) comp_apply image_subsetI rangeI)
  qed
  have "x \<in> range (\<lambda>i. (g ^^ i) x)" by (rule range_eqI [of _ _ 0]) simp
  moreover have "triple E l T (\<lambda>k. lazyStep StIterateNext [f, g x])
      (\<lambda>t T'. gives E T' l t (map (\<lambda>i. (g ^^ Suc i) (g x)) [0..<M]) False)"
    using stepOk.ok_iterateNext [OF p] by (rule triple_step)
  ultimately show ?thesis
    unfolding stepIterateNext_def N iterateNext_list
    by (auto simp: pureOn_then [OF assms(1)] intro!: triple_bind)
qed

lemma repeat_sound:
  assumes "a < length T" "T ! a = ((replicate N x, False), l)" "0 < N"
  shows "triple E l T (\<lambda>k. stepRepeat E (VLazy a) x VNil) (answers E l (replicate N x) False)"
proof -
  obtain M where N: "N = Suc M" using assms(3) gr0_implies_Suc by blast
  have "prefix (replicate M x) (replicate N x)"
    by (simp add: N prefix_def replicate_append_same [symmetric] exI [of _ "[x]"])
  with assms have "answers E l (replicate N x) False (VCons x (VLazy a)) T" by (simp add: N)
  then show ?thesis by (auto simp: stepRepeat_def)
qed

lemma counted_tail:
  assumes "stepOk E T l k [x, VInt (n - 1)] (replicate (nat (n - 1)) y) True" "0 < n"
  shows "triple E l T (\<lambda>_. andThen (if n = 1 then got VNil else lazyStep k [x, VInt (n - 1)]) (\<lambda>t. got (VCons y t)))
    (answers E l (replicate (nat n) y) True)"
proof -
  have n: "nat n = Suc (nat (n - 1))" using assms(2) by simp
  have "triple E l T (\<lambda>_. if n = 1 then got VNil else lazyStep k [x, VInt (n - 1)])
      (\<lambda>t T'. gives E T' l t (replicate (nat (n - 1)) y) True)"
    using assms(1) by (auto intro: triple_step)
  then show ?thesis by (rule triple_bind) (auto simp: n)
qed

lemma repeatN_sound:
  assumes "cntIs E c n" "c \<noteq> VNil"
  shows "triple E l T (\<lambda>k. stepRepeat E self x c) (answers E l (replicate (nat n) x) True)"
proof (cases "n \<le> 0")
  case True
  with assms show ?thesis unfolding stepRepeat_def by (auto simp: cntIs_then)
next
  case False
  with counted_tail [OF stepOk.ok_repeatN [OF cntIs_pred [OF assms(1)]]] assms show ?thesis
    unfolding stepRepeat_def by (simp add: cntIs_then)
qed

lemma repeatedly_sound:
  assumes "\<forall>\<sigma>. callFn E f [] \<sigma> = (Got y, \<sigma>)" "0 < N"
  shows "triple E l T (\<lambda>k. stepRepeatedly E f VNil) (answers E l (replicate N y) False)"
proof -
  obtain M where N: "N = Suc M" using assms(2) gr0_implies_Suc by blast
  have "triple E l T (\<lambda>k. lazyStep StRepeatedly [f, VNil])
      (\<lambda>t T'. gives E T' l t (replicate M y) False)"
    using stepOk.ok_repeatedly [OF assms(1)] by (rule triple_step)
  then have "triple E l T (\<lambda>k. andThen (lazyStep StRepeatedly [f, VNil]) (\<lambda>t. got (VCons y t)))
      (answers E l (replicate N y) False)"
    by (rule triple_bind) (auto simp: N)
  then show ?thesis unfolding stepRepeatedly_def by (simp add: call0_then [OF assms(1)])
qed

lemma repeatedlyN_sound:
  assumes "\<forall>\<sigma>. callFn E f [] \<sigma> = (Got y, \<sigma>)" "cntIs E c n" "c \<noteq> VNil"
  shows "triple E l T (\<lambda>k. stepRepeatedly E f c) (answers E l (replicate (nat n) y) True)"
proof (cases "n \<le> 0")
  case True
  with assms show ?thesis unfolding stepRepeatedly_def by (auto simp: cntIs_then)
next
  case False
  then have "stepOk E T l StRepeatedly [f, VInt (n - 1)] (replicate (nat (n - 1)) y) True"
    by (intro stepOk.ok_repeatedlyN [OF assms(1) cntIs_pred [OF assms(2)]]) auto
  from counted_tail [OF this] False assms(2,3) show ?thesis
    unfolding stepRepeatedly_def by (cases "n = 1") (simp_all add: cntIs_then call0_then [OF assms(1)])
qed

lemma cycle_sound:
  assumes "seqSound E l" "q < l" "gives E T q c ys True" "gives E T q b zs True"
    and "prefix xs (zs @ concat (replicate M ys))" "xs \<noteq> []"
  shows "triple E l T (\<lambda>k. stepCycle (seqOf E k) c b) (answers E l xs False)"
  unfolding stepCycle_def
proof (rule triple_bind)
  show "triple E l T (\<lambda>k. seqOf E k b) (answers E q zs True)"
    using seqD [OF assms(1,2,4), of 0] by simp
  fix s0 T1 assume s0: "prefix T T1" "answers E q zs True s0 T1"
  from s0 assms(3) have c: "gives E T1 q c ys True" by (blast intro: gives_ext)
  show "triple E l T1 (\<lambda>k. andThen (if s0 = VNil then seqOf E k c else got s0) (\<lambda>s.
      if s = VNil then got VNil
      else andThen (lazyStep StCycle [c, seqMore s]) (\<lambda>t. got (VCons (seqFirst s) t))))
    (answers E l xs False)"
  proof (rule triple_bind)
    let ?R = "\<lambda>s T. \<exists>us K. us \<noteq> [] \<and> answers E q us True s T \<and> prefix xs (us @ concat (replicate K ys))"
    show "triple E l T1 (\<lambda>k. if s0 = VNil then seqOf E k c else got s0) ?R"
    proof (cases "zs = []")
      case True
      with assms(5,6) have ys: "ys \<noteq> []" and M: "M = Suc (M - 1)" by (cases M; auto)+
      then have "prefix xs (ys @ concat (replicate (M - 1) ys))"
        using assms(5) True by (metis append_Nil concat.simps(2) replicate_Suc)
      then have "triple E l T1 (\<lambda>k. seqOf E k c) ?R"
        using seqD [OF assms(1,2) c, of 0] ys by (auto elim!: triple_conseq)
      with True s0 show ?thesis by simp
    next
      case False
      with s0 have "s0 \<noteq> VNil" by (auto simp: answers_VNil)
      with s0 assms(5) False show ?thesis by auto
    qed
  next
    fix s T2 assume T2: "prefix T1 T2" and "\<exists>us K. us \<noteq> [] \<and> answers E q us True s T2 \<and> prefix xs (us @ concat (replicate K ys))"
    then obtain u us K where us: "answers E q (u # us) True s T2" "prefix xs ((u # us) @ concat (replicate K ys))"
      by (metis neq_Nil_conv)
    from us(2) assms(6) obtain vs where xs: "xs = u # vs" "prefix vs (us @ concat (replicate K ys))"
      by (cases xs) auto
    note s = answersD [OF us(1)]
    from gives_ext [OF c T2] have "stepOk E T2 l StCycle [c, seqMore s] vs False"
      using s(3) xs(2) by (rule stepOk.ok_cycle [OF assms(2)])
    then have "triple E l T2 (\<lambda>k. lazyStep StCycle [c, seqMore s]) (\<lambda>t T'. gives E T' l t vs False)"
      by (rule triple_step)
    with s xs show "triple E l T2 (\<lambda>k. if s = VNil then got VNil
      else andThen (lazyStep StCycle [c, seqMore s]) (\<lambda>t. got (VCons (seqFirst s) t))) (answers E l xs False)"
      by (auto intro!: triple_bind)
  qed
qed

lemma cycleEmpty_sound:
  assumes "seqSound E l" "q < l" "gives E T q c [] True" "gives E T q b [] True"
  shows "triple E l T (\<lambda>k. stepCycle (seqOf E k) c b) (answers E l [] True)"
  unfolding stepCycle_def
proof (rule triple_bind)
  show "triple E l T (\<lambda>k. seqOf E k b) (answers E q [] True)"
    using seqD [OF assms(1,2,4), of 0] by simp
  fix s0 T1 assume s0: "prefix T T1" "answers E q [] True s0 T1"
  from s0 assms(3) have c: "gives E T1 q c [] True" by (blast intro: gives_ext)
  then have "triple E l T1 (\<lambda>k. seqOf E k c) (answers E q [] True)"
    using seqD [OF assms(1,2) c, of 0] by simp
  then have "triple E l T1 (\<lambda>k. andThen (seqOf E k c) (\<lambda>s.
      if s = VNil then got VNil
      else andThen (lazyStep StCycle [c, seqMore s]) (\<lambda>t. got (VCons (seqFirst s) t))))
    (answers E l [] True)"
    by (rule triple_bind) auto
  with s0 show "triple E l T1 (\<lambda>k. andThen (if s0 = VNil then seqOf E k c else got s0) (\<lambda>s.
      if s = VNil then got VNil
      else andThen (lazyStep StCycle [c, seqMore s]) (\<lambda>t. got (VCons (seqFirst s) t))))
    (answers E l [] True)"
    by simp
qed

text \<open>Finite ranges: the chunk, and the rest of the list.\<close>

lemma rangeLen_pos: "d \<noteq> 0 \<Longrightarrow> 0 < rangeLen i j d \<longleftrightarrow> (if d > 0 then i < j else i > j)"
  by (auto simp: rangeLen_def pos_imp_zdiv_pos_iff)

lemma rangeLen_next:
  assumes "d \<noteq> 0" "0 < rangeLen i j d"
  shows "rangeLen i j d = Suc (rangeLen (i + d) j d)"
proof (cases "d > 0")
  case True
  then have "(j - i + d - 1) div d = (j - (i + d) + d - 1 + d) div d" by (simp add: algebra_simps)
  also have "\<dots> = (j - (i + d) + d - 1) div d + 1" using True by (simp only: div_add_self2)
  finally show ?thesis using assms True by (auto simp: rangeLen_def)
next
  case False
  then have "(i - j - d - 1) div (- d) = ((i + d) - j - d - 1 + (- d)) div (- d)" by (simp add: algebra_simps)
  also have "\<dots> = ((i + d) - j - d - 1) div (- d) + 1" using assms False by (simp only: div_add_self2)
  finally show ?thesis using assms False by (auto simp: rangeLen_def)
qed

lemma rangeList_Cons: "d \<noteq> 0 \<Longrightarrow> 0 < rangeLen i j d \<Longrightarrow> rangeList i j d = VInt i # rangeList (i + d) j d"
  by (simp add: rangeList_def rangeLen_next [of d i j] upt_conv_Cons map_Suc_upt [symmetric] algebra_simps del: upt_Suc)

lemma rangeList_Nil: "rangeLen i j d = 0 \<Longrightarrow> rangeList i j d = []"
  by (simp add: rangeList_def)

text \<open>A chunk holds a first part of the list and the number after it begins the rest.\<close>

definition rangePart :: "int \<Rightarrow> int \<Rightarrow> int \<Rightarrow> nat \<Rightarrow> 'o sval list \<Rightarrow> 'o sval list \<times> 'o sval \<Rightarrow> bool" where
  "rangePart i j d k acc r \<longleftrightarrow>
     (\<exists>out i'. r = (acc @ out, VInt i') \<and> rangeList i j d = out @ rangeList i' j d \<and>
        (0 < k \<longrightarrow> 0 < rangeLen i j d \<longrightarrow> out \<noteq> []))"

lemma rangePart_next:
  assumes "d \<noteq> 0" "0 < rangeLen i j d" "rangePart (i + d) j d k (acc @ [VInt i]) r"
  shows "rangePart i j d (Suc k) acc r"
proof -
  from assms(3) obtain out i' where "r = ((acc @ [VInt i]) @ out, VInt i')"
    "rangeList (i + d) j d = out @ rangeList i' j d" unfolding rangePart_def by blast
  then show ?thesis unfolding rangePart_def rangeList_Cons [OF assms(1,2)]
    by (intro exI [of _ "VInt i # out"] exI [of _ i']) simp
qed

lemma rangeSmall_part: "d \<noteq> 0 \<Longrightarrow> rangePart i j d k acc (rangeSmall (d > 0) j d k i acc)"
proof (induction k arbitrary: i acc)
  case 0
  then show ?case by (simp add: rangePart_def)
next
  case (Suc k)
  show ?case
  proof (cases "0 < rangeLen i j d")
    case True
    have "rangePart i j d (Suc k) acc (acc @ [VInt i], VInt (i + d))"
      using rangeList_Cons [OF Suc.prems True] by (auto simp: rangePart_def)
    moreover have "rangePart i j d (Suc k) acc (rangeSmall (d > 0) j d k (i + d) (acc @ [VInt i]))"
      by (rule rangePart_next [OF Suc.prems True Suc.IH [OF Suc.prems]])
    ultimately show ?thesis using rangeLen_pos [OF Suc.prems, of i j] True by auto
  next
    case False
    then show ?thesis using rangeLen_pos [OF Suc.prems, of i j] by (auto simp: rangePart_def)
  qed
qed

lemma compare_ints [simp]: "numberCompare E (VInt i) (VInt j) = got (if i < j then - 1 else if i > j then 1 else 0)"
  by (simp add: numberCompare_def)

lemma add_ints [simp]: "numberAdd E (VInt i) (VInt j) = got (VInt (i + j))"
  by (simp add: numberAdd_def)

lemma rangeNumbers_part:
  "d \<noteq> 0 \<Longrightarrow> \<exists>r. rangeNumbers E (d > 0) (VInt j) (VInt d) k (VInt i) acc = got r \<and> rangePart i j d k acc r"
proof (induction k arbitrary: i acc)
  case 0
  have "rangePart i j d 0 acc (acc, VInt i)" by (simp add: rangePart_def)
  then show ?case by auto
next
  case (Suc k)
  show ?case
  proof (cases "0 < rangeLen i j d")
    case True
    from Suc.IH [OF Suc.prems, of "i + d" "acc @ [VInt i]"] obtain r where
      r: "rangeNumbers E (d > 0) (VInt j) (VInt d) k (VInt (i + d)) (acc @ [VInt i]) = got r"
        "rangePart (i + d) j d k (acc @ [VInt i]) r" by blast
    have "rangeNumbers E (d > 0) (VInt j) (VInt d) (Suc k) (VInt i) acc = got r"
      using r(1) True rangeLen_pos [OF Suc.prems, of i j] by (cases "d > 0") simp_all
    with rangePart_next [OF Suc.prems True r(2)] show ?thesis by blast
  next
    case False
    then have "rangeNumbers E (d > 0) (VInt j) (VInt d) (Suc k) (VInt i) acc = got (acc, VInt i)"
      using rangeLen_pos [OF Suc.prems, of i j] by (cases "d > 0") simp_all
    moreover have "rangePart i j d (Suc k) acc (acc, VInt i)" using False by (simp add: rangePart_def)
    ultimately show ?thesis by blast
  qed
qed

lemma range_sound:
  assumes "d \<noteq> 0"
  shows "triple E l T (\<lambda>k. stepRange E (VInt i) (VInt j) (VInt d)) (answers E l (rangeList i j d) True)"
proof -
  have "\<exists>r. rangeChunk E (d > 0) (VInt i) (VInt j) (VInt d) = got r \<and> rangePart i j d kChunk [] r"
  proof (cases "small_range i \<and> small_range j \<and> small_range d")
    case True
    then have "rangeChunk E (d > 0) (VInt i) (VInt j) (VInt d) = got (rangeSmall (d > 0) j d kChunk i [])"
      by (simp add: rangeChunk_def)
    with rangeSmall_part [OF assms] show ?thesis by blast
  next
    case False
    then have "rangeChunk E (d > 0) (VInt i) (VInt j) (VInt d) = rangeNumbers E (d > 0) (VInt j) (VInt d) kChunk (VInt i) []"
      by (auto simp: rangeChunk_def)
    with rangeNumbers_part [OF assms] show ?thesis by metis
  qed
  then obtain r where r: "rangeChunk E (d > 0) (VInt i) (VInt j) (VInt d) = got r" "rangePart i j d kChunk [] r" by blast
  then obtain out i' where out: "r = (out, VInt i')" "rangeList i j d = out @ rangeList i' j d"
    "0 < rangeLen i j d \<Longrightarrow> out \<noteq> []" by (auto simp: rangePart_def kChunk_def)
  have up: "(0 < (if d < 0 then - 1 else if 0 < d then 1 else (0::int))) \<longleftrightarrow> d > 0" using assms by auto
  show ?thesis
  proof (cases "out = []")
    case True
    with out have "rangeLen i j d = 0" by auto
    with True out show ?thesis
      unfolding stepRange_def compare_ints got_then Let_def up r(1) by (auto simp: rangeList_Nil)
  next
    case False
    let ?more = "(if d > 0 then i' < j else i' > j)"
    have "triple E l T (\<lambda>k. if ?more then lazyStep StRange [VInt i', VInt j, VInt d] else got VNil)
        (\<lambda>t T'. gives E T' l t (rangeList i' j d) True)"
      using stepOk.ok_range [OF assms, of E T l i' j] rangeLen_pos [OF assms, of i' j]
      by (auto simp: rangeList_Nil intro: triple_step)
    then have "triple E l T (\<lambda>k. andThen (if ?more then lazyStep StRange [VInt i', VInt j, VInt d] else got VNil)
        (\<lambda>t. got (VChunk out 0 (length out) t True))) (answers E l (rangeList i j d) True)"
      by (rule triple_bind) (use False out in \<open>auto simp: answers_def intro!: gives_chunk_new\<close>)
    moreover have "(if d > 0 then (if i' < j then - 1 else if i' > j then 1 else (0::int)) < 0
        else (if i' < j then - 1 else if i' > j then 1 else (0::int)) > 0) \<longleftrightarrow> ?more" by auto
    ultimately show ?thesis using False
      unfolding stepRange_def compare_ints got_then Let_def up r(1) out(1) by simp
  qed
qed

lemma rangeInf_list:
  "map (\<lambda>k. VInt (i + int k * d)) [0..<Suc M] = VInt i # map (\<lambda>k. VInt ((i + d) + int k * d)) [0..<M]"
  by (simp add: upt_conv_Cons map_Suc_upt [symmetric] algebra_simps del: upt_Suc)

lemma rangeInf_sound:
  assumes "0 < N"
  shows "triple E l T (\<lambda>k. stepRangeInf E (VInt i) (VInt d))
    (answers E l (map (\<lambda>k. VInt (i + int k * d)) [0..<N]) False)"
proof -
  obtain M where N: "N = Suc M" using assms gr0_implies_Suc by blast
  from stepOk.ok_rangeInf have "triple E l T (\<lambda>k. lazyStep StRangeInf [VInt (i + d), VInt d])
      (\<lambda>t T'. gives E T' l t (map (\<lambda>k. VInt ((i + d) + int k * d)) [0..<M]) False)"
    by (rule triple_step)
  then show ?thesis unfolding N rangeInf_list stepRangeInf_def add_ints got_then by (rule triple_bind) auto
qed

end
