(* ===== verification/LazyWalks.thy ===== *)
theory LazyWalks
  imports LazySteps
begin

text \<open>
  Cursors over a seq and the steps that walk: \<^verbatim>\<open>drop\<close>, \<^verbatim>\<open>drop-while\<close>, \<^verbatim>\<open>partition\<close>, \<^verbatim>\<open>seqToList\<close>; then the steps that
  read several collections, \<^verbatim>\<open>concat\<close>, \<^verbatim>\<open>map\<close> of several, \<^verbatim>\<open>interleave\<close>, and \<^verbatim>\<open>for\<close> and \<^verbatim>\<open>distinct\<close>.
\<close>

section \<open>Cursors\<close>

definition walkOk :: "('o, 'w) lenv \<Rightarrow> nat \<Rightarrow> 'o sval list \<Rightarrow> bool \<Rightarrow> 'o walk \<Rightarrow> 'o lty \<Rightarrow> bool" where
  "walkOk E q xs e w T \<longleftrightarrow>
     (case wnode w of
        None \<Rightarrow> xs = []
      | Some (VCons x m) \<Rightarrow> gives E T q (VCons x m) xs e
      | Some (VList ys) \<Rightarrow> wpos w < wend w \<and> wend w \<le> length ys \<and> ple xs e (drop (wpos w) ys) True
      | Some (VChunk items off en m c) \<Rightarrow>
          wpos w < wend w \<and> wend w \<le> length items \<and> gives E T q (VChunk items (wpos w) (wend w) m c) xs e
      | _ \<Rightarrow> False)"

lemma walkOk_None: "wnode w = None \<Longrightarrow> walkOk E q xs e w T \<longleftrightarrow> xs = []"
  by (simp add: walkOk_def)

lemma walkLoad_nil [simp]: "walkOk E q xs e (walkLoad VNil) T \<longleftrightarrow> xs = []"
  by (simp add: walkOk_def walkLoad_def)

lemma headCount_le: "xs \<noteq> [] \<Longrightarrow> listHeadCount xs \<le> length xs"
  unfolding listHeadCount_def
  by (metis Suc_eq_plus1 Suc_le_eq Suc_pred' length_greater_0_conv mod_less_eq_dividend le_imp_less_Suc)

lemma walkLoad_ok: "answers E q xs e s T \<Longrightarrow> walkOk E q xs e (walkLoad s) T"
  using headCount_le by (cases s) (auto simp: answers_def walkOk_def walkLoad_def listHeadCount_def)

lemma walkStart_ok:
  assumes "seqSound E l" "q < l" "gives E T q v xs e" "xs \<noteq> [] \<or> e"
  shows "triple E l T (\<lambda>n. walkStart (seqOf E (n + d)) v) (walkOk E q xs e)"
proof (cases "seqObjectKind v \<in> {SoList, SoCons, SoChunk}")
  case True
  then have "isSeqVal v" using assms(3,4) by (cases v) (auto split: if_splits)
  with assms(3) have "walkOk E q xs e (walkLoad v) T" by (intro walkLoad_ok) (simp add: answers_def)
  with True show ?thesis by (auto simp: walkStart_def)
next
  case False
  show ?thesis
  proof (cases "seqObjectKind v = SoEmpty")
    case True
    then have "v = VList []" by (cases v) (auto split: if_splits)
    with assms(3) have "xs = []" by (cases e) auto
    with True show ?thesis by (auto simp: walkStart_def)
  next
    case nempty: False
    have "triple E l T (\<lambda>n. andThen (seqOf E (n + d) v) (\<lambda>s. got (walkLoad s))) (walkOk E q xs e)"
      using seqD [OF assms] by (rule triple_bind) (auto intro: walkLoad_ok)
    with False nempty show ?thesis by (cases "seqObjectKind v") (auto simp: walkStart_def)
  qed
qed

lemma walkTo_ok:
  assumes "seqSound E l" "q < l" "gives E T q v xs e" "xs \<noteq> [] \<or> e"
  shows "triple E l T (\<lambda>n. walkTo (seqOf E (n + d)) v) (walkOk E q xs e)"
  using walkStart_ok [OF assms] assms(3) by (cases "v = VNil") (auto simp: walkTo_def)

lemma walkOk_cases:
  assumes "walkOk E q xs e w T" "xs \<noteq> [] \<or> e"
  obtains "wnode w = None" "xs = []"
  | x m ys where "wnode w = Some (VCons x m)" "xs = x # ys" "gives E T q m ys e"
  | ys where "wnode w = Some (VList ys)" "wpos w < wend w" "wend w \<le> length ys" "ple xs e (drop (wpos w) ys) True"
  | items off en m c where "wnode w = Some (VChunk items off en m c)" "wpos w < wend w" "wend w \<le> length items"
      "gives E T q (VChunk items (wpos w) (wend w) m c) xs e"
proof (cases "wnode w")
  case None
  with assms that(1) show ?thesis by (simp add: walkOk_def)
next
  case (Some v)
  with assms that(2-) show ?thesis by (cases v; cases xs) (auto simp: walkOk_def)
qed

lemma walkOk_done: "walkOk E q xs e w T \<Longrightarrow> xs \<noteq> [] \<or> e \<Longrightarrow> walkDone w \<longleftrightarrow> xs = []"
  by (erule (1) walkOk_cases) (auto simp: walkDone_def)

lemma walkOk_first: "walkOk E q (x # xs) e w T \<Longrightarrow> walkFirst w = x"
proof (erule walkOk_cases)
  fix ys assume "wnode w = Some (VList ys)" "wpos w < wend w" "wend w \<le> length ys" "ple (x # xs) e (drop (wpos w) ys) True"
  then show ?thesis by (cases e) (auto simp: walkFirst_def Cons_nth_drop_Suc [symmetric])
qed (auto simp: walkFirst_def stretch_Cons)

lemma walkOk_remaining: "walkOk E q xs e w T \<Longrightarrow> gives E T q (walkRemaining w) xs e"
proof (cases "xs \<noteq> [] \<or> e")
  case True
  assume "walkOk E q xs e w T"
  from this True show ?thesis
    by (rule walkOk_cases) (auto simp: walkRemaining_def)
qed auto

lemma walkOk_advance:
  assumes "seqSound E l" "q < l" "walkOk E q (x # xs) e w T" "xs \<noteq> [] \<or> e"
  shows "triple E l T (\<lambda>n. walkAdvance (seqOf E (n + d)) w) (walkOk E q xs e)"
proof -
  have "x # xs \<noteq> [] \<or> e" by simp
  from assms(3) this show ?thesis
  proof (cases rule: walkOk_cases)
    case (2 y m ys)
    with walkTo_ok [OF assms(1,2) _ assms(4)] show ?thesis by (auto simp: walkAdvance_def)
  next
    case (3 ys)
    show ?thesis
    proof (cases "wpos w + 1 < wend w")
      case True
      with 3 have "walkOk E q xs e (w\<lparr>wpos := wpos w + 1\<rparr>) T"
        by (cases e) (auto simp: walkOk_def Cons_nth_drop_Suc [symmetric])
      with True 3 show ?thesis by (auto simp: walkAdvance_def)
    next
      case False
      with 3 have "wend w = Suc (wpos w)" by simp
      with 3 have "gives E T q (VList (drop (wend w) ys)) xs e"
        by (cases e) (auto simp: Cons_nth_drop_Suc [symmetric])
      from walkTo_ok [OF assms(1,2) this assms(4)] False 3 show ?thesis by (simp add: walkAdvance_def)
    qed
  next
    case (4 items off en m c)
    show ?thesis
    proof (cases "wpos w + 1 < wend w")
      case True
      with 4 have "walkOk E q xs e (w\<lparr>wpos := wpos w + 1\<rparr>) T"
        by (auto simp: walkOk_def stretch_Cons)
      with True 4 show ?thesis by (auto simp: walkAdvance_def)
    next
      case False
      with 4 have en: "wend w = Suc (wpos w)" by simp
      with 4 have "gives E T q m xs e \<or> (xs = [] \<and> \<not> e)" by (auto simp: stretch_def)
      with assms(4) have "gives E T q m xs e" by auto
      from walkTo_ok [OF assms(1,2) this assms(4)] False 4 show ?thesis by (simp add: walkAdvance_def)
    qed
  qed simp
qed

lemma walkDrop_ok:
  assumes "seqSound E l" "q < l"
  shows "walkOk E q xs e w T \<Longrightarrow> drop k xs \<noteq> [] \<or> e \<Longrightarrow>
    triple E l T (\<lambda>n. walkDrop (seqOf E (n + d)) k w) (walkOk E q (drop k xs) e)"
proof (induction k arbitrary: xs w T)
  case 0
  then show ?case by auto
next
  case (Suc k)
  then have ne: "xs \<noteq> [] \<or> e" by (cases xs) auto
  show ?case
  proof (cases xs)
    case Nil
    with Suc.prems ne show ?thesis by (auto simp: walkOk_done)
  next
    case (Cons y ys)
    with Suc.prems ne have "\<not> walkDone w" by (simp add: walkOk_done)
    moreover from Cons Suc.prems(2) have "ys \<noteq> [] \<or> e" by auto
    ultimately show ?thesis using Cons Suc.prems
      by (auto intro!: triple_bind [OF walkOk_advance [OF assms]] Suc.IH)
  qed
qed

lemma walkCollect_ok:
  assumes "seqSound E l" "q < l"
  shows "walkOk E q xs True w T \<Longrightarrow>
    triple E l T (\<lambda>n. walkCollect (seqOf E (n + d)) k w acc) (\<lambda>r _. r = acc @ take k xs)"
proof (induction k arbitrary: xs w T acc)
  case 0
  then show ?case by auto
next
  case (Suc k)
  show ?case
  proof (cases xs)
    case Nil
    with Suc.prems show ?thesis by (auto simp: walkOk_done)
  next
    case (Cons y ys)
    with Suc.prems have w: "\<not> walkDone w" "walkFirst w = y" by (simp_all add: walkOk_done walkOk_first)
    have "triple E l T (\<lambda>n. andThen (walkAdvance (seqOf E (n + d)) w) (\<lambda>w'. walkCollect (seqOf E (n + d)) k w' (acc @ [y])))
        (\<lambda>r _. r = acc @ take (Suc k) xs)"
    proof (rule triple_bind)
      show "triple E l T (\<lambda>n. walkAdvance (seqOf E (n + d)) w) (walkOk E q ys True)"
        using Suc.prems Cons by (intro walkOk_advance [OF assms]) auto
      fix w' T' assume "walkOk E q ys True w' T'"
      from Suc.IH [OF this, of "acc @ [y]"] Cons
      show "triple E l T' (\<lambda>n. walkCollect (seqOf E (n + d)) k w' (acc @ [y])) (\<lambda>r _. r = acc @ take (Suc k) xs)"
        by simp
    qed
    with w show ?thesis by simp
  qed
qed

lemma collectLoop_ok:
  assumes "seqSound E l" "q < l"
  shows "walkOk E q xs True w T \<Longrightarrow>
    triple E l T (\<lambda>n. collectLoop (seqOf E (n + d)) n w acc) (\<lambda>r _. r = acc @ xs)"
proof (induction xs arbitrary: w T acc d)
  case Nil
  then have "walkDone w" by (simp add: walkOk_done)
  then show ?case by (intro triple_Suc [where F = "\<lambda>n. collectLoop (seqOf E (n + d)) n w acc"]) auto
next
  case (Cons y ys)
  then have w: "\<not> walkDone w" "walkFirst w = y" by (simp_all add: walkOk_done walkOk_first)
  have "triple E l T (\<lambda>n. andThen (walkAdvance (seqOf E (n + Suc d)) w)
      (\<lambda>w'. collectLoop (seqOf E (n + Suc d)) n w' (acc @ [y]))) (\<lambda>r _. r = acc @ y # ys)"
  proof (rule triple_bind)
    show "triple E l T (\<lambda>n. walkAdvance (seqOf E (n + Suc d)) w) (walkOk E q ys True)"
      using Cons.prems by (intro walkOk_advance [OF assms]) auto
    fix w' T' assume "walkOk E q ys True w' T'"
    from Cons.IH [OF this, of "Suc d" "acc @ [y]"]
    show "triple E l T' (\<lambda>n. collectLoop (seqOf E (n + Suc d)) n w' (acc @ [y])) (\<lambda>r _. r = acc @ y # ys)" by simp
  qed
  with w show ?case by (intro triple_Suc [where F = "\<lambda>n. collectLoop (seqOf E (n + d)) n w acc"]) simp
qed

lemma seqToList_ok:
  assumes "seqSound E l" "q < l" "gives E T q v xs True"
  shows "triple E l T (\<lambda>n. seqToList E (seqOf E n) n v) (\<lambda>r _. r = xs)"
proof (cases "isSeqObject v \<and> (\<forall>ys. v \<noteq> VList ys)")
  case True
  have "triple E l T (\<lambda>n. andThen (walkStart (seqOf E n) v) (\<lambda>w. collectLoop (seqOf E n) n w [])) (\<lambda>r _. r = xs)"
  proof (rule triple_bind)
    show "triple E l T (\<lambda>n. walkStart (seqOf E n) v) (walkOk E q xs True)"
      using walkStart_ok [OF assms, of 0] by simp
  qed (use collectLoop_ok [OF assms(1,2), of xs _ _ 0 "[]"] in simp)
  with True show ?thesis by (cases v) (auto simp: seqToList_def)
next
  case False
  with assms(3) show ?thesis by (cases v) (auto simp: seqToList_def)
qed

end
