(* ===== verification/LazyColls.thy ===== *)
theory LazyColls
  imports LazyWalks
begin

text \<open>The steps that walk or read several collections.\<close>

section \<open>drop, drop-while and partition\<close>

lemma walkEndSeq_ok:
  assumes "seqSound E l" "q < l" "walkOk E q xs e w T" "xs \<noteq> [] \<or> e"
  shows "triple E l T (\<lambda>n. walkEndSeq (seqOf E (n + d)) w) (answers E q xs e)"
proof (cases "xs = []")
  case True
  with assms(3,4) show ?thesis by (auto simp: walkEndSeq_def walkOk_done)
next
  case False
  with seqD [OF assms(1,2) walkOk_remaining [OF assms(3)] assms(4)] assms(3)
  show ?thesis by (simp add: walkEndSeq_def walkOk_done)
qed

lemma drop_sound:
  assumes "seqSound E l" "q < l" "gives E T q b ys f" "cntIs E c n" "drop (nat n) ys \<noteq> [] \<or> f"
  shows "triple E l T (\<lambda>k. stepDrop E (seqOf E k) c b) (answers E l (drop (nat n) ys) f)"
proof -
  have ne: "ys \<noteq> [] \<or> f" using assms(5) by auto
  have "triple E l T (\<lambda>k. andThen (walkStart (seqOf E k) b)
      (\<lambda>w. andThen (walkDrop (seqOf E k) (nat n) w) (walkEndSeq (seqOf E k)))) (answers E q (drop (nat n) ys) f)"
  proof (rule triple_bind)
    show "triple E l T (\<lambda>k. walkStart (seqOf E k) b) (walkOk E q ys f)"
      using walkStart_ok [OF assms(1-3) ne, of 0] by simp
    fix w T' assume w: "walkOk E q ys f w T'"
    show "triple E l T' (\<lambda>k. andThen (walkDrop (seqOf E k) (nat n) w) (walkEndSeq (seqOf E k))) (answers E q (drop (nat n) ys) f)"
    proof (rule triple_bind)
      show "triple E l T' (\<lambda>k. walkDrop (seqOf E k) (nat n) w) (walkOk E q (drop (nat n) ys) f)"
        using walkDrop_ok [OF assms(1,2) w assms(5), of 0] by simp
    qed (use walkEndSeq_ok [OF assms(1,2) _ assms(5), where d = 0] in simp)
  qed
  then have "triple E l T (\<lambda>k. andThen (walkStart (seqOf E k) b)
      (\<lambda>w. andThen (walkDrop (seqOf E k) (nat n) w) (walkEndSeq (seqOf E k)))) (answers E l (drop (nat n) ys) f)"
    by (rule triple_conseq) (use assms(2) in \<open>auto intro: answers_level\<close>)
  then show ?thesis by (simp add: stepDrop_def cntIs_then [OF assms(4)])
qed

lemma dropWhileLoop_ok:
  assumes "seqSound E l" "q < l"
  shows "walkOk E q ys f w T \<Longrightarrow> pureOn E p g (set ys) \<Longrightarrow> dropWhile (truthy \<circ> g) ys \<noteq> [] \<or> f \<Longrightarrow>
    triple E l T (\<lambda>n. dropWhileLoop E (seqOf E (n + d)) p n w) (answers E q (dropWhile (truthy \<circ> g) ys) f)"
proof (induction ys arbitrary: w T d)
  case Nil
  then have "walkDone w" by (simp add: walkOk_done)
  with Nil show ?case
    by (intro triple_Suc [where F = "\<lambda>n. dropWhileLoop E (seqOf E (n + d)) p n w"]) (auto simp: answers_VNil)
next
  case (Cons y ys)
  then have w: "\<not> walkDone w" "walkFirst w = y" by (simp_all add: walkOk_done walkOk_first)
  have y: "y \<in> set (y # ys)" by simp
  have ys: "pureOn E p g (set ys)" using Cons.prems(2) by (auto elim: pureOn_sub)
  have "triple E l T (\<lambda>n. if truthy (g y) then andThen (walkAdvance (seqOf E (n + Suc d)) w) (dropWhileLoop E (seqOf E (n + Suc d)) p n)
      else walkEndSeq (seqOf E (n + Suc d)) w) (answers E q (dropWhile (truthy \<circ> g) (y # ys)) f)"
  proof (cases "truthy (g y)")
    case True
    with Cons.prems(3) have ne: "dropWhile (truthy \<circ> g) ys \<noteq> [] \<or> f" "ys \<noteq> [] \<or> f" by auto
    have "triple E l T (\<lambda>n. andThen (walkAdvance (seqOf E (n + Suc d)) w) (dropWhileLoop E (seqOf E (n + Suc d)) p n))
        (answers E q (dropWhile (truthy \<circ> g) ys) f)"
      using Cons.IH ys ne(1) by (intro triple_bind [OF walkOk_advance [OF assms Cons.prems(1) ne(2)]]) blast
    with True show ?thesis by simp
  next
    case False
    with walkEndSeq_ok [OF assms Cons.prems(1), of "Suc d"] show ?thesis by simp
  qed
  then have "triple E l T (\<lambda>n. dropWhileLoop E (seqOf E (Suc n + d)) p (Suc n) w) (answers E q (dropWhile (truthy \<circ> g) (y # ys)) f)"
    using w by (cases "truthy (g y)") (simp_all add: pureOn_then [OF Cons.prems(2) y])
  then show ?case by (rule triple_Suc [where F = "\<lambda>n. dropWhileLoop E (seqOf E (n + d)) p n w"])
qed

lemma dropWhile_sound:
  assumes "seqSound E l" "q < l" "gives E T q b ys f" "pureOn E p g (set ys)" "dropWhile (truthy \<circ> g) ys \<noteq> [] \<or> f"
  shows "triple E l T (\<lambda>k. stepDropWhile E (seqOf E k) k p b) (answers E l (dropWhile (truthy \<circ> g) ys) f)"
proof -
  have ne: "ys \<noteq> [] \<or> f" using assms(5) by auto
  have "triple E l T (\<lambda>k. stepDropWhile E (seqOf E k) k p b) (answers E q (dropWhile (truthy \<circ> g) ys) f)"
    unfolding stepDropWhile_def
  proof (rule triple_bind)
    show "triple E l T (\<lambda>k. walkStart (seqOf E k) b) (walkOk E q ys f)"
      using walkStart_ok [OF assms(1-3) ne, of 0] by simp
  qed (use dropWhileLoop_ok [OF assms(1,2) _ assms(4,5), where d = 0] in simp)
  then show ?thesis by (rule triple_conseq) (use assms(2) in \<open>auto intro: answers_level\<close>)
qed

lemma partsOf_fuel: "length ys \<le> k \<Longrightarrow> 0 < d \<Longrightarrow> partsOf k n d mode ps ys = partsOf (length ys) n d mode ps ys"
proof (induction k arbitrary: ys rule: less_induct)
  case (less k)
  show ?case
  proof (cases ys)
    case Nil
    then show ?thesis by (cases k) auto
  next
    case (Cons y zs)
    with less.prems obtain j where k: "k = Suc j" by (cases k) auto
    have "partsOf j n d mode ps (drop (nat d) ys) = partsOf (length (drop (nat d) ys)) n d mode ps (drop (nat d) ys)"
      using less.prems k by (intro less.IH) auto
    moreover have "partsOf (length zs) n d mode ps (drop (nat d) ys) = partsOf (length (drop (nat d) ys)) n d mode ps (drop (nat d) ys)"
      using less.prems k Cons by (intro less.IH) auto
    ultimately show ?thesis using k Cons by simp
  qed
qed

lemma partsOf_step:
  "ys \<noteq> [] \<Longrightarrow> 0 < d \<Longrightarrow> \<not> int (length ys) < n \<Longrightarrow>
   partsOf (length ys) n d mode ps ys =
     VList (take (nat n) ys) # partsOf (length (drop (nat d) ys)) n d mode ps (drop (nat d) ys)"
  using partsOf_fuel [of "drop (nat d) ys" "length ys - 1" d n mode ps]
  by (cases ys) auto

lemma partition_sound:
  assumes "seqSound E l" "q < l" "gives E T q coll ys True" "cntIs E amt n" "cntIs E stp d" "0 < d"
    and "mode = 1 \<Longrightarrow> gives E T q pad ps True" "mode = 0 \<or> mode = 1 \<or> mode = 2"
  shows "triple E l T (\<lambda>k. stepPartition E (seqOf E k) amt stp pad (VInt mode) coll)
    (answers E l (partsOf (length ys) n d mode ps ys) True)"
proof -
  let ?Q = "answers E l (partsOf (length ys) n d mode ps ys) True"
  have "triple E l T (\<lambda>k. andThen (seqOf E k coll) (\<lambda>s.
       if s = VNil then got VNil
       else andThen (andThen (walkStart (seqOf E k) s) (\<lambda>w. walkCollect (seqOf E k) (nat n) w [])) (\<lambda>items.
         if int (length items) < n
         then if mode = 0 \<or> (mode = 2 \<and> items = []) then got VNil
              else if mode = 1
              then andThen (andThen (walkStart (seqOf E k) pad) (\<lambda>w. walkCollect (seqOf E k) (nat n - length items) w items))
                     (\<lambda>padded. got (VCons (VList padded) VNil))
              else got (VCons (VList items) VNil)
         else andThen (andThen (walkStart (seqOf E k) s) (walkDrop (seqOf E k) (nat d))) (\<lambda>w.
           andThen (lazyAfter StPartition (walkRemaining w) [amt, stp, pad, VInt mode, walkRemaining w]) (\<lambda>t.
             got (VCons (VList items) t)))))) ?Q"
  proof (rule triple_bind)
    show "triple E l T (\<lambda>k. seqOf E k coll) (answers E q ys True)"
      using seqD [OF assms(1-3), of 0] by simp
    fix s T1 assume T1: "prefix T T1" and s: "answers E q ys True s T1"
    then have gs: "gives E T1 q s ys True" by (simp add: answers_def)
    have start: "triple E l T' (\<lambda>k. walkStart (seqOf E k) s) (walkOk E q ys True)" if "prefix T1 T'" for T'
      using walkStart_ok [OF assms(1,2) gives_ext [OF gs that], of 0] by simp
    let ?rest = "\<lambda>k items. if int (length items) < n
         then if mode = 0 \<or> (mode = 2 \<and> items = []) then got VNil
              else if mode = 1
              then andThen (andThen (walkStart (seqOf E k) pad) (\<lambda>w. walkCollect (seqOf E k) (nat n - length items) w items))
                     (\<lambda>padded. got (VCons (VList padded) VNil))
              else got (VCons (VList items) VNil)
         else andThen (andThen (walkStart (seqOf E k) s) (walkDrop (seqOf E k) (nat d))) (\<lambda>w.
           andThen (lazyAfter StPartition (walkRemaining w) [amt, stp, pad, VInt mode, walkRemaining w]) (\<lambda>t.
             got (VCons (VList items) t)))"
    show "triple E l T1 (\<lambda>k. if s = VNil then got VNil
       else andThen (andThen (walkStart (seqOf E k) s) (\<lambda>w. walkCollect (seqOf E k) (nat n) w [])) (?rest k)) ?Q"
    proof (cases "ys = []")
      case True
      with s show ?thesis by (auto simp: answers_VNil)
    next
      case ne: False
      with s have "s \<noteq> VNil" by (auto simp: answers_VNil)
      moreover have "triple E l T1 (\<lambda>k. andThen (andThen (walkStart (seqOf E k) s) (\<lambda>w. walkCollect (seqOf E k) (nat n) w [])) (?rest k)) ?Q"
      proof (rule triple_bind)
        show "triple E l T1 (\<lambda>k. andThen (walkStart (seqOf E k) s) (\<lambda>w. walkCollect (seqOf E k) (nat n) w []))
            (\<lambda>r _. r = take (nat n) ys)"
        proof (rule triple_bind [OF start])
          fix w T' assume "walkOk E q ys True w T'"
          from walkCollect_ok [OF assms(1,2) this, of 0 "nat n" "[]"]
          show "triple E l T' (\<lambda>k. walkCollect (seqOf E k) (nat n) w []) (\<lambda>r _. r = take (nat n) ys)" by simp
        qed simp
        fix items T2 assume T2: "prefix T1 T2" and items: "items = take (nat n) ys"
        have short: "int (length items) < n \<longleftrightarrow> int (length ys) < n" by (auto simp: items)
        show "triple E l T2 (\<lambda>k. ?rest k items) ?Q"
        proof (cases "int (length ys) < n")
          case True
          then have it: "items = ys" by (simp add: items)
          have pt: "partsOf (length ys) n d mode ps ys =
              (if mode = 0 then [] else if mode = 1 then [VList (ys @ take (nat n - length ys) ps)] else [VList ys])"
            using True ne by (cases "length ys") auto
          consider "mode = 0" | "mode = 1" | "mode = 2" using assms(8) by blast
          then show ?thesis
          proof cases
            case 2
            have pad: "gives E T2 q pad ps True"
              using assms(7) [OF 2] T1 T2 by (blast intro: gives_ext)
            have "triple E l T2 (\<lambda>k. andThen (walkStart (seqOf E k) pad) (\<lambda>w. walkCollect (seqOf E k) (nat n - length ys) w ys))
                (\<lambda>r _. r = ys @ take (nat n - length ys) ps)"
            proof (rule triple_bind)
              show "triple E l T2 (\<lambda>k. walkStart (seqOf E k) pad) (walkOk E q ps True)"
                using walkStart_ok [OF assms(1,2) pad, of 0] by simp
            qed (use walkCollect_ok [OF assms(1,2), where d = 0 and acc = ys] in simp)
            then have "triple E l T2 (\<lambda>k. andThen (andThen (walkStart (seqOf E k) pad)
                (\<lambda>w. walkCollect (seqOf E k) (nat n - length ys) w ys)) (\<lambda>padded. got (VCons (VList padded) VNil))) ?Q"
              by (rule triple_bind) (auto simp: pt [unfolded 2] 2)
            with True 2 it show ?thesis by simp
          qed (use True it ne pt in \<open>auto simp: answers_VNil\<close>)
        next
          case False
          have "triple E l T2 (\<lambda>k. andThen (andThen (walkStart (seqOf E k) s) (walkDrop (seqOf E k) (nat d))) (\<lambda>w.
             andThen (lazyAfter StPartition (walkRemaining w) [amt, stp, pad, VInt mode, walkRemaining w]) (\<lambda>t.
             got (VCons (VList items) t)))) ?Q"
          proof (rule triple_bind)
            show "triple E l T2 (\<lambda>k. andThen (walkStart (seqOf E k) s) (walkDrop (seqOf E k) (nat d)))
                (walkOk E q (drop (nat d) ys) True)"
              by (rule triple_bind [OF start [OF T2]]) (use walkDrop_ok [OF assms(1,2), where d = 0 and e = True] in simp)
            fix w T3 assume T3: "prefix T2 T3" and w: "walkOk E q (drop (nat d) ys) True w T3"
            let ?r = "walkRemaining w" and ?ps = "partsOf (length (drop (nat d) ys)) n d mode ps (drop (nat d) ys)"
            have gr: "gives E T3 q ?r (drop (nat d) ys) True" using walkOk_remaining [OF w] .
            have "stepOk E T3 l StPartition [amt, stp, pad, VInt mode, ?r] ?ps True"
              using assms(7) T1 T2 T3 by (intro stepOk.ok_partition [OF assms(2) gr assms(4,5,6) _ assms(8)]) (blast intro: gives_ext)
            then have "triple E l T3 (\<lambda>k. lazyAfter StPartition ?r [amt, stp, pad, VInt mode, ?r]) (\<lambda>t T'. gives E T' l t ?ps True)"
              using gr by (cases "?r = VNil") (auto simp: lazyAfter_def intro: triple_step)
            then show "triple E l T3 (\<lambda>k. andThen (lazyAfter StPartition ?r [amt, stp, pad, VInt mode, ?r]) (\<lambda>t.
                got (VCons (VList items) t))) ?Q"
              by (rule triple_bind) (use False ne assms(6) in \<open>auto simp: partsOf_step items\<close>)
          qed
          with False short show ?thesis by simp
        qed
      qed
      ultimately show ?thesis by simp
    qed
  qed
  then show ?thesis unfolding stepPartition_def
    by (simp add: cntIs_then [OF assms(4)] cntIs_then [OF assms(5)] Let_def)
qed

section \<open>concat\<close>

lemma prepend_tail:
  assumes "q < l" "gives E T q v us f" "gives E T q b cs h"
    and "list_all2 (\<lambda>c p. gives E T q c (fst p) (snd p)) cs zss"
  shows "triple E r T (\<lambda>_. lazyStep StConcat [v, b])
    (\<lambda>t T'. gives E T' l t (fst (pcat ((us, f) # zss) h)) (snd (pcat ((us, f) # zss) h)))"
  using stepOk.ok_concat [OF assms] by (rule triple_step)

lemma prependSeq_sound:
  assumes "q < l" "answers E q ys f s T" "ys \<noteq> []" "gives E T q b cs h"
    and "list_all2 (\<lambda>c p. gives E T q c (fst p) (snd p)) cs zss"
  shows "triple E r T (\<lambda>_. prependSeq s b)
    (answers E l (fst (pcat ((ys, f) # zss) h)) (snd (pcat ((ys, f) # zss) h)))"
proof (cases "b = VNil \<or> b = VList []")
  case True
  with assms(4) have "cs = []" by (cases h) auto
  with assms(5) have "zss = []" by simp
  moreover have "answers E l ys (f \<and> h) s T"
    using assms(1,2) by (auto intro!: answers_level [of E q] answers_part [OF assms(2)] simp: ple_def)
  ultimately show ?thesis using True by (cases f) (auto simp: prependSeq_def)
next
  case nb: False
  obtain y us where ys: "ys = y # us" using assms(3) by (cases ys) auto
  have cons: "triple E r T (\<lambda>_. andThen (lazyStep StConcat [v, b]) (\<lambda>t. got (VCons y t)))
      (answers E l (fst (pcat ((ys, f) # zss) h)) (snd (pcat ((ys, f) # zss) h)))"
    if "gives E T q v us f" for v
    by (rule triple_bind [OF prepend_tail [OF assms(1) that assms(4,5)]]) (auto simp: ys)
  show ?thesis
  proof (cases s)
    case (VList xs)
    with assms(2) ys obtain zs where "xs = y # zs" "ple us f zs True"
      by (cases f; cases xs) (auto simp: answers_def)
    with VList nb cons [of "VList (tl xs)"] show ?thesis by (simp add: prependSeq_def)
  next
    case (VCons x m)
    with assms(2) ys nb cons [of m] show ?thesis by (auto simp: prependSeq_def answers_def)
  next
    case (VChunk items off en m c)
    let ?s = "stretch items off en"
    have b: "off < en" "en \<le> length items" using assms(2) VChunk by (auto simp: answers_def)
    have "\<exists>us'. gives E T q m us' f \<and> ((\<not> f \<and> prefix ys ?s) \<or> ys = ?s @ us')"
      using assms(2,3) VChunk gives_trivial [of E T q m]
      by (cases "\<not> f \<and> prefix ys ?s") (auto simp: answers_def intro: exI [of _ "[]"])
    then obtain us' where us': "gives E T q m us' f" "(\<not> f \<and> prefix ys ?s) \<or> ys = ?s @ us'" by blast
    have "triple E r T (\<lambda>_. andThen (lazyStep StConcat [m, b]) (\<lambda>t. got (VChunk items off en t c)))
      (answers E l (fst (pcat ((ys, f) # zss) h)) (snd (pcat ((ys, f) # zss) h)))"
    proof (rule triple_bind [OF prepend_tail [OF assms(1) us'(1) assms(4,5)]])
      fix t T' assume "gives E T' l t (fst (pcat ((us', f) # zss) h)) (snd (pcat ((us', f) # zss) h))"
      with us'(2) b have "answers E l (fst (pcat ((ys, f) # zss) h)) (snd (pcat ((ys, f) # zss) h)) (VChunk items off en t c) T'"
        by (cases f) (auto simp: answers_def)
      then show "triple E r T' (\<lambda>_. got (VChunk items off en t c))
        (answers E l (fst (pcat ((ys, f) # zss) h)) (snd (pcat ((ys, f) # zss) h)))" by blast
    qed
    with VChunk nb show ?thesis by (simp add: prependSeq_def)
  qed (use assms(2,3) in \<open>auto simp: answers_def\<close>)
qed

lemma concatLoop_sound:
  assumes "seqSound E l" "q < l"
  shows "answers E q ys f s T \<Longrightarrow> gives E T q b cs h \<Longrightarrow>
    list_all2 (\<lambda>c p. gives E T q c (fst p) (snd p)) cs zss \<Longrightarrow>
    fst (pcat ((ys, f) # zss) h) \<noteq> [] \<or> snd (pcat ((ys, f) # zss) h) \<Longrightarrow>
    triple E l T (\<lambda>n. concatLoop (seqOf E (n + d)) n s b)
      (answers E l (fst (pcat ((ys, f) # zss) h)) (snd (pcat ((ys, f) # zss) h)))"
proof (induction zss arbitrary: ys f s T b cs d)
  case Nil
  let ?Q = "answers E l (fst (pcat [(ys, f)] h)) (snd (pcat [(ys, f)] h))"
  have cs: "cs = []" using Nil.prems(3) by simp
  have "triple E l T (\<lambda>n. concatLoop (seqOf E (n + Suc d)) (Suc n) s b) ?Q"
  proof (cases "ys = []")
    case True
    with Nil.prems have "f" "h" "s = VNil" by (auto split: if_splits)
    moreover have "triple E l T (\<lambda>n. andThen (seqOf E (n + Suc d) b) (\<lambda>cs. if cs = VNil then got VNil
        else andThen (seqOf E (n + Suc d) (seqFirst cs)) (\<lambda>s'. concatLoop (seqOf E (n + Suc d)) n s' (seqMore cs)))) (answers E l [] True)"
      using Nil.prems(2) cs \<open>h\<close> by (intro triple_bind [OF seqD [OF assms(1,2), of _ b cs h]]) auto
    ultimately show ?thesis using True by (simp cong: if_cong)
  next
    case False
    with Nil.prems have "s \<noteq> VNil" by (auto simp: answers_VNil)
    with prependSeq_sound [OF assms(2) Nil.prems(1) False Nil.prems(2,3)] show ?thesis by simp
  qed
  then show ?case by (intro triple_Suc [where F = "\<lambda>n. concatLoop (seqOf E (n + d)) n s b"]) simp
next
  case (Cons z zss)
  let ?Q = "answers E l (fst (pcat ((ys, f) # z # zss) h)) (snd (pcat ((ys, f) # z # zss) h))"
  from Cons.prems(3) obtain c cs' where cs: "cs = c # cs'" by (cases cs) auto
  have "triple E l T (\<lambda>n. concatLoop (seqOf E (n + Suc d)) (Suc n) s b) ?Q"
  proof (cases "ys = []")
    case True
    with Cons.prems have f: "f" by (auto split: if_splits)
    with True Cons.prems have s: "s = VNil" by simp
    have pc: "pcat ((ys, f) # z # zss) h = pcat (z # zss) h" using True f by simp
    have "triple E l T (\<lambda>n. andThen (seqOf E (n + Suc d) b) (\<lambda>cs. if cs = VNil then got VNil
        else andThen (seqOf E (n + Suc d) (seqFirst cs)) (\<lambda>s'. concatLoop (seqOf E (n + Suc d)) n s' (seqMore cs)))) ?Q"
    proof (rule triple_bind)
      show "triple E l T (\<lambda>n. seqOf E (n + Suc d) b) (answers E q cs h)"
        using Cons.prems(2) cs by (intro seqD [OF assms(1,2)]) auto
      fix v T1 assume T1: "prefix T T1" and "answers E q cs h v T1"
      then have v: "v \<noteq> VNil" "seqFirst v = c" "gives E T1 q (seqMore v) cs' h"
        using cs by (auto dest: answersD)
      have l2: "list_all2 (\<lambda>c p. gives E T1 q c (fst p) (snd p)) (c # cs') (z # zss)"
        using Cons.prems(3) T1 unfolding cs by (rule list_all2_gives_ext)
      have "triple E l T1 (\<lambda>n. andThen (seqOf E (n + Suc d) c) (\<lambda>s'. concatLoop (seqOf E (n + Suc d)) n s' (seqMore v))) ?Q"
      proof (rule triple_bind)
        have "fst z \<noteq> [] \<or> snd z"
          using Cons.prems(4) unfolding pc by (cases z) (auto split: if_splits)
        with l2 show "triple E l T1 (\<lambda>n. seqOf E (n + Suc d) c) (answers E q (fst z) (snd z))"
          by (intro seqD [OF assms(1,2)]) auto
        fix s' T2 assume T2: "prefix T1 T2" "answers E q (fst z) (snd z) s' T2"
        from Cons.IH [OF T2(2) gives_ext [OF v(3) T2(1)], of "Suc d"] l2 T2(1) Cons.prems(4)
        show "triple E l T2 (\<lambda>n. concatLoop (seqOf E (n + Suc d)) n s' (seqMore v)) ?Q"
          unfolding pc by (auto intro: list_all2_gives_ext)
      qed
      with v show "triple E l T1 (\<lambda>n. if v = VNil then got VNil
        else andThen (seqOf E (n + Suc d) (seqFirst v)) (\<lambda>s'. concatLoop (seqOf E (n + Suc d)) n s' (seqMore v))) ?Q"
        by simp
    qed
    with s show ?thesis by (simp cong: if_cong)
  next
    case False
    with Cons.prems have "s \<noteq> VNil" by (auto simp: answers_VNil)
    with prependSeq_sound [OF assms(2) Cons.prems(1) False Cons.prems(2,3)] show ?thesis by simp
  qed
  then show ?case by (intro triple_Suc [where F = "\<lambda>n. concatLoop (seqOf E (n + d)) n s b"]) simp
qed

lemma concat_sound:
  assumes "seqSound E l" "q < l" "gives E T q a ys f" "gives E T q b cs h"
    and "list_all2 (\<lambda>c p. gives E T q c (fst p) (snd p)) cs zss"
    and "fst (pcat ((ys, f) # zss) h) \<noteq> [] \<or> snd (pcat ((ys, f) # zss) h)"
  shows "triple E l T (\<lambda>n. stepConcat (seqOf E n) n a b)
    (answers E l (fst (pcat ((ys, f) # zss) h)) (snd (pcat ((ys, f) # zss) h)))"
  unfolding stepConcat_def
proof (rule triple_bind)
  have "ys \<noteq> [] \<or> f" using assms(6) by (auto split: if_splits)
  then show "triple E l T (\<lambda>n. seqOf E n a) (answers E q ys f)"
    using seqD [OF assms(1-3), of 0] by simp
  fix s T' assume T': "prefix T T'" and s: "answers E q ys f s T'"
  from concatLoop_sound [OF assms(1,2) s gives_ext [OF assms(4) T'] list_all2_gives_ext [OF assms(5) T'] assms(6), of 0]
  show "triple E l T' (\<lambda>n. concatLoop (seqOf E n) n s b)
      (answers E l (fst (pcat ((ys, f) # zss) h)) (snd (pcat ((ys, f) # zss) h)))" by simp
qed

section \<open>map of several collections and interleave\<close>

abbreviation givesAll :: "('o, 'w) lenv \<Rightarrow> 'o lty \<Rightarrow> nat \<Rightarrow> 'o sval list \<Rightarrow> ('o sval list \<times> bool) list \<Rightarrow> bool" where
  "givesAll E T q cs yss \<equiv> list_all2 (\<lambda>c p. gives E T q c (fst p) (snd p)) cs yss"

definition tails :: "('a list \<times> bool) list \<Rightarrow> ('a list \<times> bool) list" where
  "tails yss = map (\<lambda>p. (tl (fst p), snd p)) yss"

lemma headsOf_all:
  assumes "seqSound E l" "q < l"
  shows "givesAll E T q cs yss \<Longrightarrow> givesAll E T q rs rss \<Longrightarrow> (\<forall>p\<in>set yss. fst p \<noteq> []) \<Longrightarrow>
    triple E l T (\<lambda>n. headsOf (seqOf E n) cs fs rs)
      (\<lambda>r T'. \<exists>rests. r = Some (fs @ map (hd \<circ> fst) yss, rests) \<and> givesAll E T' q rests (rss @ tails yss))"
proof (induction cs arbitrary: yss T fs rs rss)
  case Nil
  then show ?case by (auto simp: tails_def)
next
  case (Cons c cs)
  then obtain y ys f yss' where yss: "yss = (y # ys, f) # yss'" "gives E T q c (y # ys) f" "givesAll E T q cs yss'"
    by (auto simp: list_all2_Cons1 neq_Nil_conv)
  have "triple E l T (\<lambda>n. andThen (seqOf E n c) (\<lambda>s. if s = VNil then got None
      else headsOf (seqOf E n) cs (fs @ [seqFirst s]) (rs @ [seqMore s])))
    (\<lambda>r T'. \<exists>rests. r = Some (fs @ map (hd \<circ> fst) yss, rests) \<and> givesAll E T' q rests (rss @ tails yss))"
  proof (rule triple_bind)
    show "triple E l T (\<lambda>n. seqOf E n c) (answers E q (y # ys) f)"
      using seqD [OF assms yss(2), of 0] by simp
    fix s T' assume T': "prefix T T'" and "answers E q (y # ys) f s T'"
    then have s: "s \<noteq> VNil" "seqFirst s = y" "gives E T' q (seqMore s) ys f" by (auto dest: answersD)
    have "givesAll E T' q (rs @ [seqMore s]) (rss @ [(ys, f)])"
      using list_all2_gives_ext [OF Cons.prems(2) T'] s(3) by (intro list_all2_appendI) auto
    from Cons.IH [OF list_all2_gives_ext [OF yss(3) T'] this, of "fs @ [y]"] Cons.prems(3) yss(1)
    show "triple E l T' (\<lambda>n. if s = VNil then got None
        else headsOf (seqOf E n) cs (fs @ [seqFirst s]) (rs @ [seqMore s]))
      (\<lambda>r T'. \<exists>rests. r = Some (fs @ map (hd \<circ> fst) yss, rests) \<and> givesAll E T' q rests (rss @ tails yss))"
      using s by (simp add: tails_def comp_def)
  qed
  then show ?case by (simp add: comp_def)
qed

lemma rowsEnd_Cons:
  "rowsEnd N (p # yss) \<longleftrightarrow> length (fst p) = N \<and> snd p \<or> N < length (fst p) \<and> rowsEnd N yss"
proof
  assume "rowsEnd N (p # yss)"
  then obtain i where i: "i < Suc (length yss)" "length (fst ((p # yss) ! i)) = N" "snd ((p # yss) ! i)"
    "\<forall>j<i. N < length (fst ((p # yss) ! j))" by (auto simp: rowsEnd_def)
  show "length (fst p) = N \<and> snd p \<or> N < length (fst p) \<and> rowsEnd N yss"
  proof (cases i)
    case (Suc k)
    have "\<forall>j<k. N < length (fst (yss ! j))"
    proof (intro allI impI)
      fix j assume "j < k"
      with i(4) Suc show "N < length (fst (yss ! j))" by (metis Suc_less_eq nth_Cons_Suc)
    qed
    with i Suc show ?thesis unfolding rowsEnd_def by (auto dest: spec [of _ 0])
  qed (use i in simp)
next
  assume "length (fst p) = N \<and> snd p \<or> N < length (fst p) \<and> rowsEnd N yss"
  then show "rowsEnd N (p # yss)"
  proof
    assume "N < length (fst p) \<and> rowsEnd N yss"
    then obtain i where "i < length yss" "length (fst (yss ! i)) = N" "snd (yss ! i)"
      "\<forall>j<i. N < length (fst (yss ! j))" "N < length (fst p)" by (auto simp: rowsEnd_def)
    then show ?thesis unfolding rowsEnd_def by (intro exI [of _ "Suc i"]) (auto simp: nth_Cons')
  qed (auto simp: rowsEnd_def intro: exI [of _ 0])
qed

lemma rowsEnd_Nil [simp]: "\<not> rowsEnd N []"
  by (simp add: rowsEnd_def)

lemma headsOf_none:
  assumes "seqSound E l" "q < l"
  shows "givesAll E T q cs yss \<Longrightarrow> rowsEnd 0 yss \<Longrightarrow>
    triple E l T (\<lambda>n. headsOf (seqOf E n) cs fs rs) (\<lambda>r T'. r = None)"
proof (induction cs arbitrary: yss T fs rs)
  case (Cons c cs)
  then obtain p yss' where yss: "yss = p # yss'" "gives E T q c (fst p) (snd p)" "givesAll E T q cs yss'"
    by (auto simp: list_all2_Cons1)
  with Cons.prems(2) have ne: "fst p \<noteq> [] \<or> snd p" by (auto simp: rowsEnd_Cons)
  have "triple E l T (\<lambda>n. andThen (seqOf E n c) (\<lambda>s. if s = VNil then got None
      else headsOf (seqOf E n) cs (fs @ [seqFirst s]) (rs @ [seqMore s]))) (\<lambda>r T'. r = None)"
  proof (rule triple_bind)
    show "triple E l T (\<lambda>n. seqOf E n c) (answers E q (fst p) (snd p))"
      using seqD [OF assms yss(2) ne, of 0] by simp
    fix s T' assume T': "prefix T T'" and s: "answers E q (fst p) (snd p) s T'"
    show "triple E l T' (\<lambda>n. if s = VNil then got None
        else headsOf (seqOf E n) cs (fs @ [seqFirst s]) (rs @ [seqMore s])) (\<lambda>r T'. r = None)"
    proof (cases "s = VNil")
      case False
      with s Cons.prems(2) have "rowsEnd 0 yss'" by (auto simp: yss(1) rowsEnd_Cons)
      with Cons.IH [OF list_all2_gives_ext [OF yss(3) T']] False show ?thesis by simp
    qed auto
  qed
  then show ?case by simp
qed simp

lemma nth_tl_ne: "xs \<noteq> [] \<Longrightarrow> xs ! Suc k = tl xs ! k"
  by (cases xs) auto

lemma rows_Suc:
  "(\<forall>p\<in>set yss. fst p \<noteq> []) \<Longrightarrow>
   rows (Suc N) (map fst yss) = map (hd \<circ> fst) yss # rows N (map fst (tails yss))"
  by (force simp: rows_def tails_def upt_conv_Cons map_Suc_upt [symmetric] hd_conv_nth simp del: upt_Suc intro: nth_tl_ne)

lemma rowsEnd_tails:
  "(\<forall>p\<in>set yss. fst p \<noteq> []) \<Longrightarrow> rowsEnd (Suc N) yss \<Longrightarrow> rowsEnd N (tails yss)"
  by (induction yss) (auto simp: tails_def rowsEnd_Cons)

lemma tails_length: "\<forall>p\<in>set yss. Suc N \<le> length (fst p) \<Longrightarrow> \<forall>p\<in>set (tails yss). N \<le> length (fst p)"
  by (auto simp: tails_def)

lemma mapN_sound:
  assumes "seqSound E l" "q < l" "givesAll E T q cs yss" "\<forall>p\<in>set yss. N \<le> length (fst p)" "e \<Longrightarrow> rowsEnd N yss"
    and "pureOnRows E f g (set (rows N (map fst yss)))" "N \<noteq> 0 \<or> e"
  shows "triple E l T (\<lambda>n. stepMapN E (seqOf E n) f (VRaw cs)) (answers E l (map g (rows N (map fst yss))) e)"
proof (cases N)
  case 0
  with assms(5,7) have "e" "rowsEnd 0 yss" by auto
  with 0 show ?thesis unfolding stepMapN_def rawItems.simps
    by (intro triple_bind [OF headsOf_none [OF assms(1-3)]]) (auto simp: rows_def)
next
  case (Suc M)
  with assms(4) have ne: "\<forall>p\<in>set yss. fst p \<noteq> []" by fastforce
  note rw = rows_Suc [OF ne, of M]
  show ?thesis unfolding stepMapN_def
  proof (rule triple_bind)
    show "triple E l T (\<lambda>n. headsOf (seqOf E n) (rawItems (VRaw cs)) [] [])
      (\<lambda>r T'. \<exists>rests. r = Some (map (hd \<circ> fst) yss, rests) \<and> givesAll E T' q rests (tails yss))"
      using headsOf_all [OF assms(1-3), of "[]" "[]" "[]"] ne by simp
    fix r T' assume "\<exists>rests. r = Some (map (hd \<circ> fst) yss, rests) \<and> givesAll E T' q rests (tails yss)"
    then obtain rests where r: "r = Some (map (hd \<circ> fst) yss, rests)" "givesAll E T' q rests (tails yss)" by blast
    have p: "pureOnRows E f g (set (rows M (map fst (tails yss))))"
      using assms(6) by (auto simp: Suc rw pureOnRows_def)
    have "stepOk E T' l StMapN [f, VRaw rests] (map g (rows M (map fst (tails yss)))) e"
      using tails_length assms(4) Suc rowsEnd_tails [OF ne] assms(5)
      by (intro stepOk.ok_mapN [OF assms(2) r(2) _ _ p]) auto
    then have "triple E l T' (\<lambda>n. lazyStep StMapN [f, VRaw rests])
        (\<lambda>t T''. gives E T'' l t (map g (rows M (map fst (tails yss)))) e)" by (rule triple_step)
    then have "triple E l T' (\<lambda>n. andThen (lazyStep StMapN [f, VRaw rests]) (\<lambda>t. got (VCons (g (map (hd \<circ> fst) yss)) t)))
        (answers E l (map g (rows N (map fst yss))) e)"
      by (rule triple_bind) (auto simp: Suc rw)
    moreover have "\<forall>\<sigma>. callFn E f (map (hd \<circ> fst) yss) \<sigma> = (Got (g (map (hd \<circ> fst) yss)), \<sigma>)"
      using assms(6) by (auto simp: Suc rw pureOnRows_def)
    ultimately show "triple E l T' (\<lambda>n. case r of None \<Rightarrow> got VNil | Some (firsts, rests) \<Rightarrow>
        andThen (callFn E f firsts) (\<lambda>y. andThen (lazyStep StMapN [f, VRaw rests]) (\<lambda>t. got (VCons y t))))
      (answers E l (map g (rows N (map fst yss))) e)"
      using r(1) by (simp add: call0_then)
  qed
qed

lemma interleave_sound:
  assumes "seqSound E l" "q < l" "givesAll E T q cs yss" "cs \<noteq> []" "\<forall>p\<in>set yss. N \<le> length (fst p)"
    and "e \<Longrightarrow> rowsEnd N yss" "concat (rows N (map fst yss)) \<noteq> [] \<or> e"
  shows "triple E l T (\<lambda>n. stepInterleave (seqOf E n) (VRaw cs)) (answers E l (concat (rows N (map fst yss))) e)"
proof (cases N)
  case 0
  with assms(6,7) have "e" "rowsEnd 0 yss" by (auto simp: rows_def)
  with 0 assms(4) show ?thesis unfolding stepInterleave_def rawItems.simps
    by (simp, intro triple_bind [OF headsOf_none [OF assms(1-3)]]) (auto simp: rows_def)
next
  case (Suc M)
  with assms(5) have ne: "\<forall>p\<in>set yss. fst p \<noteq> []" by fastforce
  note rw = rows_Suc [OF ne, of M]
  have "yss \<noteq> []" using assms(3,4) by auto
  let ?fs = "map (hd \<circ> fst) yss"
  have "triple E l T (\<lambda>n. andThen (headsOf (seqOf E n) cs [] []) (\<lambda>r. case r of None \<Rightarrow> got VNil
      | Some (firsts, rests) \<Rightarrow> andThen (lazyStep StInterleave [VRaw rests]) (\<lambda>t.
              got (VChunk firsts 0 (length firsts) t False))))
    (answers E l (concat (rows N (map fst yss))) e)"
  proof (rule triple_bind)
    show "triple E l T (\<lambda>n. headsOf (seqOf E n) cs [] [])
      (\<lambda>r T'. \<exists>rests. r = Some (?fs, rests) \<and> givesAll E T' q rests (tails yss))"
      using headsOf_all [OF assms(1-3), of "[]" "[]" "[]"] ne by simp
    fix r T' assume "\<exists>rests. r = Some (?fs, rests) \<and> givesAll E T' q rests (tails yss)"
    then obtain rests where r: "r = Some (?fs, rests)" "givesAll E T' q rests (tails yss)" by blast
    then have "rests \<noteq> []" using \<open>yss \<noteq> []\<close> by (auto simp: tails_def)
    then have "stepOk E T' l StInterleave [VRaw rests] (concat (rows M (map fst (tails yss)))) e"
      using tails_length assms(5) Suc rowsEnd_tails [OF ne] assms(6)
      by (intro stepOk.ok_interleave [OF assms(2) r(2)]) auto
    then have "triple E l T' (\<lambda>n. lazyStep StInterleave [VRaw rests])
        (\<lambda>t T''. gives E T'' l t (concat (rows M (map fst (tails yss)))) e)" by (rule triple_step)
    then have "triple E l T' (\<lambda>n. andThen (lazyStep StInterleave [VRaw rests]) (\<lambda>t. got (VChunk ?fs 0 (length ?fs) t False)))
        (answers E l (concat (rows N (map fst yss))) e)"
    proof (rule triple_bind)
      fix t T'' assume "gives E T'' l t (concat (rows M (map fst (tails yss)))) e"
      then have "gives E T'' l (VChunk ?fs 0 (length ?fs) t False) (concat (rows N (map fst yss))) e"
        using \<open>yss \<noteq> []\<close> by (intro gives_chunk_new) (auto simp: Suc rw)
      then show "triple E l T'' (\<lambda>n. got (VChunk ?fs 0 (length ?fs) t False)) (answers E l (concat (rows N (map fst yss))) e)"
        using \<open>yss \<noteq> []\<close> by (auto simp: answers_def)
    qed
    with r(1) show "triple E l T' (\<lambda>n. case r of None \<Rightarrow> got VNil
      | Some (firsts, rests) \<Rightarrow> andThen (lazyStep StInterleave [VRaw rests]) (\<lambda>t.
              got (VChunk firsts 0 (length firsts) t False))) (answers E l (concat (rows N (map fst yss))) e)"
      by simp
  qed
  with assms(4) show ?thesis by (simp add: stepInterleave_def)
qed

section \<open>for and distinct\<close>

lemma forEach_ok:
  assumes "seqSound E l" "q < l" "\<forall>y. g y \<noteq> stop \<longrightarrow> gives E T0 q (g y) (h y) True"
  shows "pureOn E body g (set xs) \<Longrightarrow> prefix T0 T \<Longrightarrow>
    triple E l T (\<lambda>n. forEach E (seqOf E (n + d)) (n + d) body stop xs acc)
      (\<lambda>r _. r = (acc @ concat (map h (takeWhile (\<lambda>y. g y \<noteq> stop) xs)), \<exists>y\<in>set xs. g y = stop))"
proof (induction xs arbitrary: acc T)
  case Nil
  then show ?case by auto
next
  case (Cons x xs)
  have x: "x \<in> set (x # xs)" by simp
  have p: "pureOn E body g (set xs)" using Cons.prems(1) by (auto elim: pureOn_sub)
  show ?case
  proof (cases "g x = stop")
    case True
    then show ?thesis by (auto simp: pureOn_then [OF Cons.prems(1) x])
  next
    case False
    with assms(3) have "gives E T q (g x) (h x) True" using Cons.prems(2) by (blast intro: gives_ext)
    from triple_shift [OF seqToList_ok [OF assms(1,2) this], of d]
    have "triple E l T (\<lambda>n. andThen (seqToList E (seqOf E (n + d)) (n + d) (g x))
        (\<lambda>ys. forEach E (seqOf E (n + d)) (n + d) body stop xs (acc @ ys)))
      (\<lambda>r _. r = (acc @ concat (map h (takeWhile (\<lambda>y. g y \<noteq> stop) (x # xs))), \<exists>y\<in>set (x # xs). g y = stop))"
    proof (rule triple_bind)
      fix ys T' assume "prefix T T'" "ys = h x"
      with Cons.IH [OF p, of T' "acc @ h x"] Cons.prems(2) False
      show "triple E l T' (\<lambda>n. forEach E (seqOf E (n + d)) (n + d) body stop xs (acc @ ys))
        (\<lambda>r _. r = (acc @ concat (map h (takeWhile (\<lambda>y. g y \<noteq> stop) (x # xs))), \<exists>y\<in>set (x # xs). g y = stop))"
        by (auto intro: prefix_order.order_trans)
    qed
    with False show ?thesis by (simp add: pureOn_then [OF Cons.prems(1) x])
  qed
qed

text \<open>What a \<^verbatim>\<open>for\<close> yields of a part of its source, and whether it ends there.\<close>

definition forList :: "('o sval \<Rightarrow> 'o sval) \<Rightarrow> 'o sval \<Rightarrow> ('o sval \<Rightarrow> 'o sval list) \<Rightarrow> 'o sval list \<Rightarrow> 'o sval list" where
  "forList g stop h ys = concat (map h (takeWhile (\<lambda>y. g y \<noteq> stop) ys))"

definition forEnds :: "('o sval \<Rightarrow> 'o sval) \<Rightarrow> 'o sval \<Rightarrow> 'o sval list \<Rightarrow> bool \<Rightarrow> bool" where
  "forEnds g stop ys f \<longleftrightarrow> f \<or> (\<exists>y\<in>set ys. g y = stop)"

lemma forList_simps [simp]:
  "forList g stop h [] = []"
  "forList g stop h (y # ys) = (if g y = stop then [] else h y @ forList g stop h ys)"
  by (simp_all add: forList_def)

lemma forEnds_simps [simp]:
  "forEnds g stop [] f = f"
  "forEnds g stop (y # ys) f \<longleftrightarrow> g y = stop \<or> forEnds g stop ys f"
  by (auto simp: forEnds_def)

lemma forList_append:
  "forList g stop h (xs @ ys) = forList g stop h xs @ (if \<exists>x\<in>set xs. g x = stop then [] else forList g stop h ys)"
  by (induction xs) auto

lemma forEnds_append:
  "forEnds g stop (xs @ ys) f \<longleftrightarrow> (\<exists>x\<in>set xs. g x = stop) \<or> forEnds g stop ys f"
  by (auto simp: forEnds_def)

lemma for_chunk_end:
  assumes "(\<not> f \<and> prefix ys xs) \<or> (\<exists>zs. ys = xs @ zs)" "\<exists>x\<in>set xs. g x = stop"
  shows "ple (forList g stop h ys) (forEnds g stop ys f) (forList g stop h xs) True"
  using assms(1)
proof
  assume p: "\<not> f \<and> prefix ys xs"
  then obtain zs where "xs = ys @ zs" by (auto simp: prefix_def)
  then show ?thesis using p by (cases "\<exists>y\<in>set ys. g y = stop") (auto simp: ple_def forList_append forEnds_def)
next
  assume "\<exists>zs. ys = xs @ zs"
  then show ?thesis using assms(2) by (auto simp: ple_def forList_append)
qed

lemma forLoop_sound:
  assumes "seqSound E l" "\<forall>y. g y \<noteq> stop \<longrightarrow> gives E T0 q (g y) (h y) True"
  shows "answers E q ys f s T \<Longrightarrow> prefix T0 T \<Longrightarrow> q + 2 * length ys < l \<Longrightarrow>
    pureOn E body g (if f then set ys else UNIV) \<Longrightarrow> forList g stop h ys \<noteq> [] \<or> forEnds g stop ys f \<Longrightarrow>
    triple E l T (\<lambda>n. forLoop E (seqOf E (n + d)) (n + d) n body stop inner s)
      (answers E l (forList g stop h ys) (forEnds g stop ys f))"
proof (induction "length ys" arbitrary: ys s T d rule: less_induct)
  case less
  let ?F = "forList g stop h" and ?e = "\<lambda>ys. forEnds g stop ys f"
  let ?Q = "answers E l (?F ys) (?e ys)"
  have ql: "q < l" using less.prems(3) by simp
  have gv: "gives E T' q (g y) (h y) True" if "g y \<noteq> stop" "prefix T T'" for y T'
    using assms(2) that less.prems(2) by (blast intro: gives_ext)
  have step: "stepOk E T' l' StFor [v, body, stop, inner] (?F zs) (?e zs)"
    if "gives E T' q v zs f" "prefix T T'" "q + 2 * length zs < l'" "f \<Longrightarrow> set zs \<subseteq> set ys" for v zs T' l'
    unfolding forList_def forEnds_def
  proof (rule stepOk.ok_for [OF that(3,1)])
    show "pureOn E body g (if f then set zs else UNIV)"
      using less.prems(4) that(4) by (auto elim: pureOn_sub)
  qed (use gv that(2) in blast)
  have "triple E l T (\<lambda>n. forLoop E (seqOf E (n + Suc d)) (n + Suc d) (Suc n) body stop inner s) ?Q"
  proof (cases "s = VNil")
    case True
    with less.prems(1) have "ys = []" by (simp add: answers_VNil)
    with True show ?thesis by (auto simp: answers_VNil)
  next
    case ne: False
    show ?thesis
    proof (cases "inner = VTrue \<and> isChunkedSeq s")
      case True
      obtain xs aft where sl: "chunkSlice s = (xs, aft)" by fastforce
      have ch: "isChunkedSeq s" using True by simp
      note c = chunkSliceD [OF less.prems(1) ch sl]
      have pxs: "pureOn E body g (set xs)" using less.prems(4) c(2) by (auto elim: pureOn_sub)
      have "triple E l T (\<lambda>n. andThen (forEach E (seqOf E (n + Suc d)) (n + Suc d) body stop xs []) (\<lambda>(out, stopped).
             let aft = (if stopped then VNil else aft) in
             if out = []
             then if stopped then got VNil
                  else andThen (seqOf E (n + Suc d) aft) (forLoop E (seqOf E (n + Suc d)) (n + Suc d) n body stop inner)
             else andThen (lazyAfter StFor aft [aft, body, stop, inner]) (\<lambda>t.
               got (VChunk out 0 (length out) t True)))) ?Q"
      proof (rule triple_bind)
        show "triple E l T (\<lambda>n. forEach E (seqOf E (n + Suc d)) (n + Suc d) body stop xs [])
            (\<lambda>r _. r = (?F xs, \<exists>y\<in>set xs. g y = stop))"
          using forEach_ok [OF assms(1) ql assms(2) pxs less.prems(2), of "Suc d" "[]"] by (simp add: forList_def)
        fix r T' assume T': "prefix T T'" and r: "r = (?F xs, \<exists>y\<in>set xs. g y = stop)"
        show "triple E l T' (\<lambda>n. case r of (out, stopped) \<Rightarrow>
             let aft = (if stopped then VNil else aft) in
             if out = []
             then if stopped then got VNil
                  else andThen (seqOf E (n + Suc d) aft) (forLoop E (seqOf E (n + Suc d)) (n + Suc d) n body stop inner)
             else andThen (lazyAfter StFor aft [aft, body, stop, inner]) (\<lambda>t.
               got (VChunk out 0 (length out) t True))) ?Q"
        proof (cases "\<exists>y\<in>set xs. g y = stop")
          case True
          have p: "ple (?F ys) (?e ys) (?F xs) True"
            using c(2) True by (intro for_chunk_end) auto
          have "answers E l (?F ys) (?e ys) (if ?F xs = [] then VNil else VChunk (?F xs) 0 (length (?F xs)) VNil True) T'"
            by (rule answers_part [OF _ p]) (simp add: answers_def)
          then show ?thesis using True r by (cases "?F xs = []") (auto simp: lazyAfter_def)
        next
          case ns: False
          have "\<exists>zs. gives E T' q aft zs f \<and> ((\<not> f \<and> prefix ys xs \<and> zs = []) \<or> ys = xs @ zs)"
          proof (cases "\<not> f \<and> prefix ys xs")
            case True
            then show ?thesis by (intro exI [of _ "[]"]) simp
          next
            case False
            with c(2) T' show ?thesis by (auto intro: gives_ext)
          qed
          then obtain zs where zs: "gives E T' q aft zs f" "(\<not> f \<and> prefix ys xs \<and> zs = []) \<or> ys = xs @ zs" by blast
          have split: "(\<not> ?e ys \<and> prefix (?F ys) (?F xs)) \<or> (?F ys = ?F xs @ ?F zs \<and> ?e ys = ?e zs)"
            using zs(2)
          proof
            assume p: "\<not> f \<and> prefix ys xs \<and> zs = []"
            then obtain us where "xs = ys @ us" by (auto simp: prefix_def)
            with ns p show ?thesis by (auto simp: forList_append forEnds_def)
          next
            assume "ys = xs @ zs"
            with ns show ?thesis by (auto simp: forList_append forEnds_append)
          qed
          show ?thesis
          proof (cases "?F xs = []")
            case True
            with split less.prems(5) have eq: "?F ys = ?F zs" "?e ys = ?e zs" by auto
            show ?thesis
            proof (cases "ys = xs @ zs")
              case app: True
              have nz: "zs \<noteq> [] \<or> f" using eq less.prems(5) by (cases zs) auto
              have "triple E l T' (\<lambda>n. andThen (seqOf E (n + Suc d) aft) (forLoop E (seqOf E (n + Suc d)) (n + Suc d) n body stop inner))
                  (answers E l (?F zs) (?e zs))"
              proof (rule triple_bind [OF seqD [OF assms(1) ql zs(1) nz]])
                fix v T'' assume v: "prefix T' T''" "answers E q zs f v T''"
                have "prefix T0 T''" using less.prems(2) T' v(1) by (meson prefix_order.order_trans)
                moreover have "pureOn E body g (if f then set zs else UNIV)"
                  using less.prems(4) app by (auto elim: pureOn_sub)
                ultimately show "triple E l T'' (\<lambda>n. forLoop E (seqOf E (n + Suc d)) (n + Suc d) n body stop inner v)
                    (answers E l (?F zs) (?e zs))"
                  using less.hyps [OF _ v(2), where d = "Suc d"] app c(1) less.prems(3,5) eq by simp
              qed
              with True ns r eq show ?thesis by simp
            next
              case False
              with zs(2) obtain us where us: "\<not> f" "xs = ys @ us" by (auto simp: prefix_def)
              then have "?F ys = []" using True ns by (simp add: forList_append)
              moreover have "\<not> ?e ys" using us ns by (simp add: forEnds_def)
              ultimately have "?F ys = []" "\<not> ?e ys" by blast+
              with less.prems(5) show ?thesis by simp
            qed
          next
            case False
            have "triple E l T' (\<lambda>n. lazyAfter StFor aft [aft, body, stop, inner]) (\<lambda>t T''. gives E T'' l t (?F zs) (?e zs))"
            proof (cases "aft = VNil")
              case True
              with zs(1) have "zs = []" by simp
              with True show ?thesis by (auto simp: lazyAfter_def)
            next
              case False
              have "q + 2 * length zs < l" "f \<Longrightarrow> set zs \<subseteq> set ys"
                using zs(2) less.prems(3) by auto
              with False step [OF zs(1) T'] show ?thesis by (auto simp: lazyAfter_def intro: triple_step)
            qed
            then have "triple E l T' (\<lambda>n. andThen (lazyAfter StFor aft [aft, body, stop, inner]) (\<lambda>t.
               got (VChunk (?F xs) 0 (length (?F xs)) t True))) ?Q"
            proof (rule triple_bind)
              fix t T'' assume "gives E T'' l t (?F zs) (?e zs)"
              then have "gives E T'' l (VChunk (?F xs) 0 (length (?F xs)) t True) (?F ys) (?e ys)"
                using False split by (intro gives_chunk_new) auto
              with False show "triple E l T'' (\<lambda>n. got (VChunk (?F xs) 0 (length (?F xs)) t True)) ?Q"
                by (auto simp: answers_def)
            qed
            with False ns r show ?thesis by simp
          qed
        qed
      qed
      with True ne sl show ?thesis by (simp cong: if_cong)
    next
      case nc: False
      have "ys \<noteq> []" using less.prems(1,5) ne by (cases ys; cases f) auto
      then obtain y zs where ys: "ys = y # zs" by (cases ys) auto
      with less.prems(1) have fst: "seqFirst s = y" and more: "gives E T q (seqMore s) zs f"
        by (auto dest: answersD)
      have y: "y \<in> (if f then set ys else UNIV)" using ys by simp
      have pz: "pureOn E body g (if f then set zs else UNIV)"
        using less.prems(4) ys by (auto elim: pureOn_sub)
      have "triple E l T (\<lambda>n. if g y = stop then got VNil
        else andThen (seqOf E (n + Suc d) (g y)) (\<lambda>s'.
          if s' \<noteq> VNil
          then andThen (lazyStep StFor [seqMore s, body, stop, inner]) (\<lambda>t. prependSeq s' (VList [t]))
          else andThen (seqOf E (n + Suc d) (seqMore s)) (forLoop E (seqOf E (n + Suc d)) (n + Suc d) n body stop inner))) ?Q"
      proof (cases "g y = stop")
        case True
        with ys show ?thesis by (auto simp: answers_VNil)
      next
        case ns: False
        have "triple E l T (\<lambda>n. andThen (seqOf E (n + Suc d) (g y)) (\<lambda>s'.
          if s' \<noteq> VNil
          then andThen (lazyStep StFor [seqMore s, body, stop, inner]) (\<lambda>t. prependSeq s' (VList [t]))
          else andThen (seqOf E (n + Suc d) (seqMore s)) (forLoop E (seqOf E (n + Suc d)) (n + Suc d) n body stop inner))) ?Q"
        proof (rule triple_bind [OF seqD [OF assms(1) ql gv [OF ns]]])
          fix s' T' assume T': "prefix T T'" and s': "answers E q (h y) True s' T'"
          have more': "gives E T' q (seqMore s) zs f" using more T' by (rule gives_ext)
          show "triple E l T' (\<lambda>n. if s' \<noteq> VNil
            then andThen (lazyStep StFor [seqMore s, body, stop, inner]) (\<lambda>t. prependSeq s' (VList [t]))
            else andThen (seqOf E (n + Suc d) (seqMore s)) (forLoop E (seqOf E (n + Suc d)) (n + Suc d) n body stop inner)) ?Q"
          proof (cases "s' = VNil")
            case True
            with s' have hy: "h y = []" by (simp add: answers_VNil)
            with ys ns less.prems(5) have nz: "?F zs \<noteq> [] \<or> ?e zs" by simp
            then have "zs \<noteq> [] \<or> f" by (cases zs) auto
            then have "triple E l T' (\<lambda>n. andThen (seqOf E (n + Suc d) (seqMore s)) (forLoop E (seqOf E (n + Suc d)) (n + Suc d) n body stop inner))
                (answers E l (?F zs) (?e zs))"
            proof (rule triple_bind [OF seqD [OF assms(1) ql more']])
              fix v T'' assume v: "prefix T' T''" "answers E q zs f v T''"
              have "prefix T0 T''" using less.prems(2) T' v(1) by (meson prefix_order.order_trans)
              with pz nz show "triple E l T'' (\<lambda>n. forLoop E (seqOf E (n + Suc d)) (n + Suc d) n body stop inner v)
                  (answers E l (?F zs) (?e zs))"
                using less.hyps [OF _ v(2), where d = "Suc d"] ys less.prems(3) by simp
            qed
            with True ys ns hy show ?thesis by simp
          next
            case False
            with s' have hy: "h y \<noteq> []" by auto
            let ?l = "q + 2 * length zs + 1"
            have "triple E l T' (\<lambda>n. lazyStep StFor [seqMore s, body, stop, inner]) (\<lambda>t T''. gives E T'' ?l t (?F zs) (?e zs))"
              using step [OF more' T', of ?l] ys by (auto intro: triple_step)
            then have "triple E l T' (\<lambda>n. andThen (lazyStep StFor [seqMore s, body, stop, inner]) (\<lambda>t. prependSeq s' (VList [t]))) ?Q"
            proof (rule triple_bind)
              fix t T'' assume T'': "prefix T' T''" and t: "gives E T'' ?l t (?F zs) (?e zs)"
              have "answers E ?l (h y) True s' T''"
                using answers_ext [OF s' T''] by (rule answers_level) simp
              moreover have "?l < l" using less.prems(3) ys by simp
              moreover have "gives E T'' ?l (VList [t]) [t] True" by simp
              moreover have "givesAll E T'' ?l [t] [(?F zs, ?e zs)]" using t by simp
              ultimately show "triple E l T'' (\<lambda>n. prependSeq s' (VList [t])) ?Q"
                using prependSeq_sound [of ?l l E "h y" True s' T'' "VList [t]" "[t]" True "[(?F zs, ?e zs)]"] hy ys ns
                by (cases "?e zs") auto
            qed
            with False show ?thesis by simp
          qed
        qed auto
        with ns show ?thesis by simp
      qed
      with ne nc fst show ?thesis by (auto simp: pureOn_then [OF less.prems(4) y] cong: if_cong)
    qed
  qed
  then show ?case by (intro triple_Suc [where F = "\<lambda>n. forLoop E (seqOf E (n + d)) (n + d) n body stop inner s"]) simp
qed

lemma for_sound:
  assumes "seqSound E l" "q + 2 * length ys < l" "gives E T q coll ys f" "pureOn E body g (if f then set ys else UNIV)"
    and "\<forall>y. g y \<noteq> stop \<longrightarrow> gives E T q (g y) (h y) True"
    and "concat (map h (takeWhile (\<lambda>y. g y \<noteq> stop) ys)) \<noteq> [] \<or> f \<or> (\<exists>y\<in>set ys. g y = stop)"
  shows "triple E l T (\<lambda>n. stepFor E (seqOf E n) n coll body stop inner)
    (answers E l (concat (map h (takeWhile (\<lambda>y. g y \<noteq> stop) ys))) (f \<or> (\<exists>y\<in>set ys. g y = stop)))"
  unfolding stepFor_def
proof (rule triple_bind)
  have ql: "q < l" using assms(2) by simp
  have ne: "ys \<noteq> [] \<or> f" using assms(6) by (cases ys) auto
  show "triple E l T (\<lambda>n. seqOf E n coll) (answers E q ys f)"
    using seqD [OF assms(1) ql assms(3) ne, of 0] by simp
  fix s T' assume "prefix T T'" "answers E q ys f s T'"
  then show "triple E l T' (\<lambda>n. forLoop E (seqOf E n) n n body stop inner s)
      (answers E l (concat (map h (takeWhile (\<lambda>y. g y \<noteq> stop) ys))) (f \<or> (\<exists>y\<in>set ys. g y = stop)))"
    using forLoop_sound [OF assms(1,5), of ys f s T' body 0 inner] assms(2,4,6)
    by (simp add: forList_def forEnds_def)
qed

lemma distinctLoop_sound:
  assumes "seqSound E l" "q < l" "\<forall>s x. setPut E s x \<noteq> VNil"
  shows "answers E q ys f s T \<Longrightarrow> dedup E seen ys \<noteq> [] \<or> f \<Longrightarrow>
    triple E l T (\<lambda>n. distinctLoop E (seqOf E (n + d)) n seen s) (answers E l (dedup E seen ys) f)"
proof (induction ys arbitrary: s T d)
  case Nil
  then have "s = VNil" by auto
  then show ?case
    by (intro triple_Suc [where F = "\<lambda>n. distinctLoop E (seqOf E (n + d)) n seen s"]) (auto simp: answers_VNil)
next
  case (Cons y ys)
  note s = answersD [OF Cons.prems(1)]
  have "triple E l T (\<lambda>n. if \<not> setHas E seen y
      then andThen (lazyStep StDistinct [seqMore s, setPut E seen y]) (\<lambda>t. got (VCons y t))
      else andThen (seqOf E (n + Suc d) (seqMore s)) (distinctLoop E (seqOf E (n + Suc d)) n seen))
    (answers E l (dedup E seen (y # ys)) f)"
  proof (cases "setHas E seen y")
    case False
    have "triple E l T (\<lambda>n. lazyStep StDistinct [seqMore s, setPut E seen y])
        (\<lambda>t T'. gives E T' l t (dedup E (setPut E seen y) ys) f)"
      using stepOk.ok_distinct [OF assms(3,2) s(3), of "setPut E seen y"] assms(3) by (auto intro: triple_step)
    then have "triple E l T (\<lambda>n. andThen (lazyStep StDistinct [seqMore s, setPut E seen y]) (\<lambda>t. got (VCons y t)))
        (answers E l (dedup E seen (y # ys)) f)"
      by (rule triple_bind) (use False in auto)
    with False show ?thesis by simp
  next
    case True
    with Cons.prems(2) have "dedup E seen ys \<noteq> [] \<or> f" "ys \<noteq> [] \<or> f" by auto
    then have "triple E l T (\<lambda>n. andThen (seqOf E (n + Suc d) (seqMore s)) (distinctLoop E (seqOf E (n + Suc d)) n seen))
        (answers E l (dedup E seen ys) f)"
      by (intro triple_bind [OF seqD [OF assms(1,2) s(3)]] Cons.IH) auto
    with True show ?thesis by simp
  qed
  then have "triple E l T (\<lambda>n. distinctLoop E (seqOf E (Suc n + d)) (Suc n) seen s) (answers E l (dedup E seen (y # ys)) f)"
    using s(1,2) by (cases "setHas E seen y") simp_all
  then show ?case by (rule triple_Suc [where F = "\<lambda>n. distinctLoop E (seqOf E (n + d)) n seen s"])
qed

lemma distinct_sound:
  assumes "seqSound E l" "\<forall>s x. setPut E s x \<noteq> VNil" "q < l" "gives E T q b ys f"
    and "dedup E (if seen = VNil then emptySet E else seen) ys \<noteq> [] \<or> f"
  shows "triple E l T (\<lambda>n. stepDistinct E (seqOf E n) n b seen)
    (answers E l (dedup E (if seen = VNil then emptySet E else seen) ys) f)"
  unfolding stepDistinct_def
proof (rule triple_bind)
  have ne: "ys \<noteq> [] \<or> f" using assms(5) by auto
  show "triple E l T (\<lambda>n. seqOf E n b) (answers E q ys f)"
    using seqD [OF assms(1,3,4) ne, of 0] by simp
qed (use distinctLoop_sound [OF assms(1,3,2) _ assms(5), where d = 0] in simp)

end
