(* ===== verification/LazyOk.thy ===== *)
theory LazyOk
  imports LazyColls
begin

text \<open>
  Realisation: on a well typed store a lazy seq realises to a seq that yields what the slot promises, and the
  slot keeps it. Then what reading a sequence to its end answers.
\<close>

section \<open>Thunks\<close>

lemma fn_cell_sound:
  assumes "\<forall>\<sigma>. callFn E (VObj f) [] \<sigma> =
      (Got (VCons x (VLazy (length (slots \<sigma>)))), \<sigma>\<lparr>slots := slots \<sigma> @ [Unrealized (VObj f')]\<rparr>)"
    and "fnYields E T l f' xs e"
  shows "triple E l T (\<lambda>n. andThen (callFn E (VObj f) []) (seqOf E n)) (answers E l (x # xs) e)"
proof -
  have "callFn E (VObj f) [] = andThen (newLazySeq (VObj f')) (\<lambda>t. got (VCons x t))"
    using assms(1) by (intro ext) (simp add: andThen_def newLazySeq_def got_def)
  moreover have "triple E l T (\<lambda>n. andThen (andThen (newLazySeq (VObj f')) (\<lambda>t. got (VCons x t))) (seqOf E n))
      (answers E l (x # xs) e)"
  proof (rule triple_bind)
    show "triple E l T (\<lambda>n. andThen (newLazySeq (VObj f')) (\<lambda>t. got (VCons x t)))
        (\<lambda>v T'. \<exists>t. v = VCons x t \<and> gives E T' l t xs e)"
    proof (rule triple_bind)
      show "triple E l T (\<lambda>n. newLazySeq (VObj f')) (\<lambda>t T'. gives E T' l t xs e)"
        using assms(2) by (intro triple_new) auto
    qed auto
    fix v T' assume "\<exists>t. v = VCons x t \<and> gives E T' l t xs e"
    then obtain t where "v = VCons x t" "gives E T' l t xs e" by blast
    then show "triple E l T' (\<lambda>n. seqOf E n v) (answers E l (x # xs) e)"
      by (simp add: seqWith_def triple_got)
  qed
  ultimately show ?thesis by simp
qed

lemma runThunk_fn:
  assumes "seqSound E l" "fnYields E T l f xs e" "xs \<noteq> [] \<or> e"
  shows "triple E l T (\<lambda>n. andThen (callFn E (VObj f) []) (seqOf E n)) (answers E l xs e)"
  using assms(2)
proof cases
  case (fn_ret q v)
  from seqD [OF assms(1) fn_ret(1,3) assms(3), of 0] have "triple E l T (\<lambda>n. seqOf E n v) (answers E l xs e)"
    using fn_ret(1) by (auto elim!: triple_conseq intro: answers_level)
  then show ?thesis using fn_ret(2) by (simp add: call0_then)
next
  case (fn_cell x f' ys)
  with fn_cell_sound [OF fn_cell(2,3)] show ?thesis by simp
qed (use assms(3) in simp)

lemma runStep_sound:
  assumes SQ: "seqSound E l" and ok: "stepOk E T l k ops xs e" and ne: "xs \<noteq> [] \<or> e"
    and self: "a < length T" "T ! a = ((xs, e), l)"
  shows "triple E l T (\<lambda>n. runStep E (seqOf E n) n (VLazy a) k ops) (answers E l xs e)"
  using ok
proof cases
  case ok_none
  with ne show ?thesis by simp
next
  case (ok_map1 q b ys f g)
  with ne show ?thesis by (simp add: runStep_def opnd_def map1_sound [OF SQ])
next
  case (ok_mapN q cs yss N f g)
  have "N \<noteq> 0 \<or> e" using ne ok_mapN(3) by (cases N) (auto simp: rows_def)
  with mapN_sound [OF SQ ok_mapN(4-8)] ok_mapN(1-3) show ?thesis by (simp add: runStep_def opnd_def)
next
  case (ok_filter q b ys f g neg)
  with ne show ?thesis by (simp add: runStep_def opnd_def filter_sound [OF SQ] del: not_iff)
next
  case (ok_take q b ys f c n)
  with ne show ?thesis by (simp add: runStep_def opnd_def take_sound [OF SQ])
next
  case (ok_takeWhile q b ys f p g)
  with ne takeWhile_sound [OF SQ ok_takeWhile(5-7)] show ?thesis by (simp add: runStep_def opnd_def)
next
  case (ok_drop q b ys c n)
  with ne show ?thesis by (simp add: runStep_def opnd_def drop_sound [OF SQ])
next
  case (ok_dropWhile q b ys p g)
  with ne show ?thesis by (simp add: runStep_def opnd_def dropWhile_sound [OF SQ])
next
  case (ok_iterate f g x N)
  with ne show ?thesis by (simp add: runStep_def opnd_def iterate_sound)
next
  case (ok_iterateNext f g x N)
  with ne iterateNext_sound [of E f g x N l T] show ?thesis by (simp add: runStep_def opnd_def)
next
  case (ok_repeat x N)
  with ne self repeat_sound [of a T N x l E] show ?thesis by (simp add: runStep_def opnd_def)
next
  case (ok_repeatN c n x)
  then show ?thesis by (simp add: runStep_def opnd_def repeatN_sound)
next
  case (ok_repeatedly f y N)
  with ne show ?thesis by (simp add: runStep_def opnd_def repeatedly_sound)
next
  case (ok_repeatedlyN f y c n)
  then show ?thesis by (simp add: runStep_def opnd_def repeatedlyN_sound)
next
  case (ok_cycle q c ys b zs M)
  with ne show ?thesis by (simp add: runStep_def opnd_def cycle_sound [OF SQ])
next
  case (ok_cycleEmpty q c b)
  then show ?thesis by (simp add: runStep_def opnd_def cycleEmpty_sound [OF SQ])
next
  case (ok_range d i j)
  then show ?thesis by (simp add: runStep_def opnd_def range_sound)
next
  case (ok_rangeInf i d N)
  with ne show ?thesis by (simp add: runStep_def opnd_def rangeInf_sound)
next
  case (ok_concat q c ys f b cs h zss)
  with ne concat_sound [OF SQ ok_concat(5-8)] show ?thesis by (simp add: runStep_def opnd_def)
next
  case (ok_partition q coll ys amt n stp d mode pad ps)
  then show ?thesis by (simp add: runStep_def opnd_def partition_sound [OF SQ])
next
  case (ok_interleave q cs yss N)
  with ne show ?thesis by (simp add: runStep_def opnd_def interleave_sound [OF SQ])
next
  case (ok_for q ys coll f body g stop h inner)
  with ne for_sound [OF SQ ok_for(5-8)] show ?thesis by (simp add: runStep_def opnd_def)
next
  case (ok_distinct q b ys seen)
  with ne show ?thesis by (simp add: runStep_def opnd_def distinct_sound [OF SQ])
qed

lemma runThunk_sound:
  assumes "seqSound E l" "thunkOk E T l t xs e" "xs \<noteq> [] \<or> e" "a < length T" "T ! a = ((xs, e), l)"
  shows "triple E l T (\<lambda>n. runThunk E (seqOf E n) n (VLazy a) t) (answers E l xs e)"
proof (cases t)
  case (VObj f)
  with assms(1-3) show ?thesis by (simp add: runThunk_def runThunk_fn)
next
  case (VStep k ops)
  with assms show ?thesis by (simp add: runThunk_def runStep_sound)
qed (use assms(2,3) in simp_all)

section \<open>Slots\<close>

lemma nth_updated: "j < length xs \<Longrightarrow> xs[i := x] ! j = (if i = j then x else xs ! j)"
  by (cases "i = j") auto

lemma storeOk_setSlot:
  assumes "storeOk E T \<sigma>" "slotOk E T x (elts T a) (ends T a) (level T a)"
  shows "storeOk E T (setSlot a x \<sigma>)"
  using assms by (auto simp: storeOk_def setSlot_def nth_updated)

lemma storeOk_realizing [simp]: "storeOk E T (\<sigma>\<lparr>realizing := rs\<rparr>) \<longleftrightarrow> storeOk E T \<sigma>"
  by (simp add: storeOk_def)

lemma claims_realizing [simp]: "claims (\<sigma>\<lparr>realizing := rs\<rparr>) = claims \<sigma>"
  by (simp add: claims_def)

lemma claims_claim: "a < length (slots \<sigma>) \<Longrightarrow> claims (setSlot a (Claimed t) \<sigma>) = insert a (claims \<sigma>)"
  by (auto simp: claims_def setSlot_def nth_updated)

lemma claims_publish: "claims (setSlot a (Realized s) \<sigma>) = claims \<sigma> - {a}"
  by (auto simp: claims_def setSlot_def nth_updated split: if_splits)

lemma not_claimed: "slots \<sigma> ! a = Unrealized t \<Longrightarrow> a \<notin> claims \<sigma>"
  by (simp add: claims_def)

lemma realize_pure:
  assumes "storeOk E T \<sigma>" "free l T \<sigma>" "a < length T" "level T a = l" "slots \<sigma> ! a = Unrealized t" "thunkIsPure E t"
    and "triple E l T (\<lambda>n. runThunk E (seqOf E n) n (VLazy a) t) (answers E l (elts T a) (ends T a))"
  shows "runsTo E T \<sigma> (\<lambda>n. realizeLazy E (Suc n) a) (answers E l (elts T a) (ends T a))"
proof -
  from tripleD [OF assms(7,1,2)] obtain s T1 \<sigma>1 where
    r: "conv (\<lambda>n. runThunk E (seqOf E n) n (VLazy a) t \<sigma>) (Got s, \<sigma>1)" "prefix T T1" "storeOk E T1 \<sigma>1"
      "claims \<sigma>1 = claims \<sigma>" "answers E l (elts T a) (ends T a) s T1" by (rule runsToE)
  have a: "a < length (slots \<sigma>)" "a < length (slots \<sigma>1)" "a < length T1" "T1 ! a = T ! a"
    using assms(1,3) r(2,3) prefix_length_le [OF r(2)] by (auto simp: prefix_nth storeOk_length)
  have nc: "slots \<sigma>1 ! a \<noteq> Claimed t'" for t'
  proof
    assume "slots \<sigma>1 ! a = Claimed t'"
    with a(2) r(4) have "a \<in> claims \<sigma>" by (auto simp: claims_def)
    with assms(5) show False by (simp add: claims_def)
  qed
  show ?thesis
  proof (cases "slots \<sigma>1 ! a")
    case (Realized s')
    then have "answers E l (elts T a) (ends T a) s' T1"
      using r(3) a(3,4) assms(4) by (fastforce simp: storeOk_def answers_def)
    moreover have "conv (\<lambda>n. realizeLazy E n a \<sigma>1) (Got s', \<sigma>1)"
      using a(2) Realized by (intro conv_Suc [OF conv_constI]) (simp add: realizeLazy.simps)
    then have "conv (\<lambda>n. realizeLazy E (Suc n) a \<sigma>) (Got s', \<sigma>1)"
      by (rule conv_then [OF r(1)]) (use a(1) assms(5,6) Realized in \<open>simp add: realizeLazy.simps publishLazy_def\<close>)
    ultimately show ?thesis using r(2-4) by (intro runsToI)
  next
    case (Unrealized t')
    let ?\<sigma> = "setSlot a (Realized s) \<sigma>1"
    have "conv (\<lambda>n. realizeLazy E (Suc n) a \<sigma>) (Got s, ?\<sigma>)"
      by (rule conv_cong [OF r(1)]) (use a(1) assms(5,6) Unrealized in \<open>simp add: realizeLazy.simps publishLazy_def\<close>)
    moreover have "storeOk E T1 ?\<sigma>"
      using r(3,5) a(4) assms(4) by (intro storeOk_setSlot) (auto simp: answers_def)
    moreover have "claims ?\<sigma> = claims \<sigma>"
      using r(4) not_claimed [OF assms(5)] by (simp add: claims_publish)
    ultimately show ?thesis using r(2,5) by (intro runsToI)
  qed (use nc in blast)
qed

lemma realize_claimed:
  assumes "storeOk E T \<sigma>" "free l T \<sigma>" "a < length T" "level T a = l" "slots \<sigma> ! a = Unrealized t" "\<not> thunkIsPure E t"
    and "triple E l T (\<lambda>n. runThunk E (seqOf E n) n (VLazy a) t) (answers E l (elts T a) (ends T a))"
  shows "runsTo E T \<sigma> (\<lambda>n. realizeLazy E (Suc n) a) (answers E l (elts T a) (ends T a))"
proof -
  let ?\<sigma>1 = "(setSlot a (Claimed t) \<sigma>)\<lparr>realizing := a # realizing \<sigma>\<rparr>"
  have a: "a < length (slots \<sigma>)" using assms(1,3) by (simp add: storeOk_length)
  have c1: "claims ?\<sigma>1 = insert a (claims \<sigma>)" using a by (simp add: claims_claim)
  have s1: "storeOk E T ?\<sigma>1" using assms(1) by (simp add: storeOk_setSlot)
  have f1: "free l T ?\<sigma>1" using assms(2,4) unfolding free_def c1 by auto
  from tripleD [OF assms(7) s1 f1] obtain s T2 \<sigma>2 where
    r: "conv (\<lambda>n. runThunk E (seqOf E n) n (VLazy a) t ?\<sigma>1) (Got s, \<sigma>2)" "prefix T T2" "storeOk E T2 \<sigma>2"
      "claims \<sigma>2 = claims ?\<sigma>1" "answers E l (elts T a) (ends T a) s T2" by (rule runsToE)
  have a2: "T2 ! a = T ! a" using assms(3) r(2) by (simp add: prefix_nth)
  from r(4) c1 obtain t' where t': "slots \<sigma>2 ! a = Claimed t'" by (auto simp: claims_def)
  let ?\<sigma>3 = "setSlot a (Realized s) (popRealizing \<sigma>2)"
  have "conv (\<lambda>n. realizeLazy E (Suc n) a \<sigma>) (Got s, ?\<sigma>3)"
    by (rule conv_cong [OF r(1)])
      (use a assms(5,6) t' in \<open>simp add: realizeLazy.simps realizeClaimed_def publishLazy_def popRealizing_def\<close>)
  moreover have "storeOk E T2 ?\<sigma>3"
    using r(3,5) a2 assms(4) by (intro storeOk_setSlot) (auto simp: answers_def popRealizing_def)
  moreover have "claims ?\<sigma>3 = claims \<sigma>"
    using r(4) c1 not_claimed [OF assms(5)] by (simp add: claims_publish popRealizing_def)
  ultimately show ?thesis using r(2,5) by (intro runsToI)
qed

lemma realize_at:
  assumes "seqSound E l" "a < length T" "level T a = l" "elts T a \<noteq> [] \<or> ends T a"
  shows "triple E (Suc l) T (\<lambda>n. realizeLazy E n a) (answers E l (elts T a) (ends T a))"
proof (rule triple_Suc, rule tripleI)
  fix \<sigma> :: "('a, 'b) lstate" assume s: "storeOk E T \<sigma>" and f: "free (Suc l) T \<sigma>"
  have f': "free l T \<sigma>" using f by (rule free_le) simp
  have a: "a < length (slots \<sigma>)" using assms(2) s by (simp add: storeOk_length)
  have ok: "slotOk E T (slots \<sigma> ! a) (elts T a) (ends T a) l"
    using s assms(2,3) by (auto simp: storeOk_def)
  show "runsTo E T \<sigma> (\<lambda>n. realizeLazy E (Suc n) a) (answers E l (elts T a) (ends T a))"
  proof (cases "slots \<sigma> ! a")
    case (Realized v)
    with a ok s show ?thesis
      by (intro runsToI [where \<sigma>' = \<sigma> and T' = T]) (auto simp: answers_def realizeLazy.simps intro: conv_constI)
  next
    case (Claimed t)
    with a have "a \<in> claims \<sigma>" by (simp add: claims_def)
    with f assms(3) show ?thesis by (auto simp: free_def)
  next
    case (Unrealized t)
    have "T ! a = ((elts T a, ends T a), l)" using assms(3) by (simp add: prod_eq_iff)
    with Unrealized ok have "triple E l T (\<lambda>n. runThunk E (seqOf E n) n (VLazy a) t) (answers E l (elts T a) (ends T a))"
      by (intro runThunk_sound [OF assms(1) _ assms(4,2)]) auto
    with s f' assms(2,3) Unrealized show ?thesis
      by (cases "thunkIsPure E t") (auto intro: realize_pure realize_claimed)
  qed
qed

theorem seqSound_all: "seqSound E l"
proof (induction l rule: less_induct)
  case (less l)
  have "triple E l T (\<lambda>n. seqOf E n v) (answers E q xs e)"
    if "q < l" "gives E T q v xs e" "xs \<noteq> [] \<or> e" for q T v xs e
  proof (cases v)
    case (VLazy a)
    with that have a: "a < length T" "ple xs e (elts T a) (ends T a)" "level T a \<le> q" by auto
    then have "elts T a \<noteq> [] \<or> ends T a" using that(3) by (cases e) auto
    from realize_at [OF less.IH _ refl this] a(1,3) that(1)
    have "triple E (Suc (level T a)) T (\<lambda>n. realizeLazy E n a) (answers E (level T a) (elts T a) (ends T a))" by simp
    then have "triple E l T (\<lambda>n. realizeLazy E n a) (answers E (level T a) (elts T a) (ends T a))"
      by (rule triple_up) (use a(3) that(1) in simp)
    then have "triple E l T (\<lambda>n. realizeLazy E n a) (answers E q xs e)"
      using a by (auto elim!: triple_conseq intro: answers_level answers_part)
    with VLazy show ?thesis by (simp add: seqWith_def)
  next
    case (VObj x)
    with that obtain ys where "itemsOf E x = Some ys" "ple xs e ys True" by auto
    with VObj that show ?thesis by (cases e) (auto simp: seqWith_def answers_def triple_got)
  next
    case (VVec ys)
    with that show ?thesis by (cases e) (auto simp: seqWith_def answers_def triple_got)
  next
    case (VList ys)
    with that show ?thesis by (cases e) (auto simp: seqWith_def answers_def triple_got)
  next
    case (VCons x m)
    with that show ?thesis by (auto simp: seqWith_def answers_def triple_got)
  next
    case (VChunk items off en m c)
    with that show ?thesis by (auto simp: seqWith_def answers_def triple_got)
  qed (use that in \<open>auto simp: seqWith_def answers_def triple_got\<close>)
  then show ?case by (simp add: seqSound_def)
qed

end
