(* ===== verification/SeqPrims.thy ===== *)
theory SeqPrims
  imports LazySeq
begin

text \<open>
  The sequence functions of the language: the direct reads of src/runtime/LazySeq.cpp (\<^verbatim>\<open>tryFirst\<close> to \<^verbatim>\<open>tryCons\<close>), the
  functions of src/runtime/Primitives.cpp that read a sequence (\<^verbatim>\<open>first\<close>, \<^verbatim>\<open>rest\<close>, \<^verbatim>\<open>count\<close>, \<^verbatim>\<open>nth\<close>, \<^verbatim>\<open>reduce\<close>, ...), the
  virtual machine's direct calls of them (\<^verbatim>\<open>fastPrimitiveCall\<close>), and the functions that make a lazy seq (\<^verbatim>\<open>map\<close>,
  \<^verbatim>\<open>filter\<close>, \<^verbatim>\<open>range\<close>, ...) with their checks of arguments.
\<close>

section \<open>Direct reads\<close>

text \<open>\<open>None\<close> where the C++ functions answer \<^verbatim>\<open>false\<close> and leave the value to the general path.\<close>

fun tryFirst :: "'o sval \<Rightarrow> 'o sval option" where
  "tryFirst VNil = Some VNil"
| "tryFirst (VVec items) = Some (if items = [] then VNil else hd items)"
| "tryFirst (VList xs) = Some (if xs = [] then VNil else hd xs)"
| "tryFirst (VCons x m) = Some x"
| "tryFirst (VChunk items off end m c) = Some (items ! off)"
| "tryFirst v = None"

fun tryRest :: "'o sval \<Rightarrow> 'o sval option" where
  "tryRest VNil = Some (VList [])"
| "tryRest (VVec items) =
     Some (if length items \<le> 1 then VList [] else VChunk items 1 (length items) VNil True)"
| "tryRest (VList xs) = Some (if xs = [] then VList xs else VList (tl xs))"
| "tryRest (VCons x m) = Some (seqMore (VCons x m))"
| "tryRest (VChunk items off end m c) = Some (seqMore (VChunk items off end m c))"
| "tryRest v = None"

fun trySeq :: "'o sval \<Rightarrow> 'o sval option" where
  "trySeq VNil = Some VNil"
| "trySeq (VVec items) = Some (if items = [] then VNil else VChunk items 0 (length items) VNil True)"
| "trySeq (VCons x m) = Some (VCons x m)"
| "trySeq (VChunk items off end m c) = Some (VChunk items off end m c)"
| "trySeq (VList xs) = Some (if xs = [] then VNil else VList xs)"
| "trySeq v = None"

fun tryNext :: "'o sval \<Rightarrow> 'o sval option" where
  "tryNext VNil = Some VNil"
| "tryNext (VVec items) =
     Some (if length items \<le> 1 then VNil else VChunk items 1 (length items) VNil True)"
| "tryNext (VList xs) = Some (if length xs \<le> 1 then VNil else VList (tl xs))"
| "tryNext (VCons x m) = trySeq m"
| "tryNext (VChunk items off end m c) =
     (if off + 1 < end then Some (VChunk items (off + 1) end m c) else trySeq m)"
| "tryNext v = None"

fun tryEmpty :: "'o sval \<Rightarrow> bool option" where
  "tryEmpty VNil = Some True"
| "tryEmpty (VVec items) = Some (items = [])"
| "tryEmpty (VList xs) = Some (xs = [])"
| "tryEmpty (VCons x m) = Some False"
| "tryEmpty (VChunk items off end m c) = Some False"
| "tryEmpty v = None"

fun tryCount :: "nat \<Rightarrow> 'o sval \<Rightarrow> nat option" where
  "tryCount n VNil = Some n"
| "tryCount n (VVec items) = Some (n + length items)"
| "tryCount n (VList xs) = Some (n + length xs)"
| "tryCount n (VCons x m) = tryCount (n + 1) m"
| "tryCount n (VChunk items off end m c) = tryCount (n + (end - off)) m"
| "tryCount n v = None"

definition tryCons :: "'o sval \<Rightarrow> 'o sval \<Rightarrow> 'o sval option" where
  "tryCons x coll =
     (if coll = VNil then Some (VList [x])
      else if isSeqObject coll then Some (VCons x coll) else None)"

section \<open>Reading a sequence\<close>

definition throwError :: "string \<Rightarrow> ('o, 'w, 'a) lact" where
  "throwError msg = throws ''RuntimeException'' msg"

definition arity :: "nat \<Rightarrow> string \<Rightarrow> ('o, 'w, 'a) lact" where
  "arity n name =
     throws ''ArityException'' (''Wrong number of args ('' @ dec n @ '') passed to: '' @ name)"

definition notSeqable :: "('o, 'w) lenv \<Rightarrow> 'o sval \<Rightarrow> ('o, 'w, 'a) lact" where
  "notSeqable E v =
     throws ''IllegalArgumentException'' (''Don't know how to create ISeq from: '' @ typeName E v)"

text \<open>The elements of a value as a list, realised to its end.\<close>

definition asSeq :: "('o, 'w) lenv \<Rightarrow> nat \<Rightarrow> 'o sval \<Rightarrow> ('o, 'w, 'o sval list) lact" where
  "asSeq E n v =
     (case v of
        VNil \<Rightarrow> got []
      | VVec items \<Rightarrow> got items
      | VObj x \<Rightarrow> (case itemsOf E x of Some items \<Rightarrow> got items | None \<Rightarrow> notSeqable E v)
      | _ \<Rightarrow> if isSeqObject v then seqToList E (seqOf E n) n v else notSeqable E v)"

fun prim_first :: "('o, 'w) lenv \<Rightarrow> nat \<Rightarrow> 'o sval list \<Rightarrow> ('o, 'w, 'o sval) lact" where
  "prim_first E n [v] =
     (case tryFirst v of
        Some r \<Rightarrow> got r
      | None \<Rightarrow> andThen (seqOf E n v) (\<lambda>s. got (if s = VNil then VNil else seqFirst s)))"
| "prim_first E n args = throwError ''first: expects 1 arg''"

fun prim_rest :: "('o, 'w) lenv \<Rightarrow> nat \<Rightarrow> 'o sval list \<Rightarrow> ('o, 'w, 'o sval) lact" where
  "prim_rest E n [v] =
     (case tryRest v of
        Some r \<Rightarrow> got r
      | None \<Rightarrow> andThen (seqOf E n v) (\<lambda>s. got (if s = VNil then VList [] else seqMore s)))"
| "prim_rest E n args = throwError ''rest: expects 1 arg''"

fun prim_next :: "('o, 'w) lenv \<Rightarrow> nat \<Rightarrow> 'o sval list \<Rightarrow> ('o, 'w, 'o sval) lact" where
  "prim_next E n [v] =
     (case tryNext v of
        Some r \<Rightarrow> got r
      | None \<Rightarrow> andThen (seqOf E n v) (\<lambda>s. if s = VNil then got VNil else seqOf E n (seqMore s)))"
| "prim_next E n args = arity (length args) ''next''"

fun prim_seq :: "('o, 'w) lenv \<Rightarrow> nat \<Rightarrow> 'o sval list \<Rightarrow> ('o, 'w, 'o sval) lact" where
  "prim_seq E n [v] = seqOf E n v"
| "prim_seq E n args = throwError ''seq: expects 1 arg''"

fun prim_cons :: "('o, 'w) lenv \<Rightarrow> nat \<Rightarrow> 'o sval list \<Rightarrow> ('o, 'w, 'o sval) lact" where
  "prim_cons E n [x, coll] =
     (case tryCons x coll of
        Some r \<Rightarrow> got r
      | None \<Rightarrow> andThen (seqOf E n coll) (\<lambda>s. got (if s = VNil then VList [x] else VCons x s)))"
| "prim_cons E n args = throwError ''cons: expects (cons x coll)''"

definition vbool :: "bool \<Rightarrow> 'o sval" where
  "vbool b = (if b then VTrue else VFalse)"

text \<open>The count of a seq that cannot be read directly: walked, and added up where the rest is counted.\<close>

primrec countLoop :: "('o sval \<Rightarrow> ('o, 'w, 'o sval) lact) \<Rightarrow> nat \<Rightarrow> 'o walk \<Rightarrow> nat \<Rightarrow> ('o, 'w, nat) lact" where
  "countLoop sq 0 w n = tired"
| "countLoop sq (Suc k) w n =
     (if walkDone w then got n
      else case walkCounted w of
             Some c \<Rightarrow> got (n + c)
           | None \<Rightarrow> andThen (walkAdvance sq w) (\<lambda>w'. countLoop sq k w' (n + 1)))"

fun prim_count :: "('o, 'w) lenv \<Rightarrow> nat \<Rightarrow> 'o sval list \<Rightarrow> ('o, 'w, 'o sval) lact" where
  "prim_count E n [v] =
     (if v = VNil then got (VInt 0)
      else if isSeqObject v
      then case tryCount 0 v of
             Some c \<Rightarrow> got (VInt (int c))
           | None \<Rightarrow> andThen (andThen (walkStart (seqOf E n) v) (\<lambda>w. countLoop (seqOf E n) n w 0))
                        (\<lambda>c. got (VInt (int c)))
      else andThen (asSeq E n v) (\<lambda>items. got (VInt (int (length items)))))"
| "prim_count E n args = throwError ''count: expects 1 arg''"

fun prim_empty_p :: "('o, 'w) lenv \<Rightarrow> nat \<Rightarrow> 'o sval list \<Rightarrow> ('o, 'w, 'o sval) lact" where
  "prim_empty_p E n [v] =
     (case tryEmpty v of
        Some e \<Rightarrow> got (vbool e)
      | None \<Rightarrow>
          if isSeqObject v then andThen (seqOf E n v) (\<lambda>s. got (vbool (s = VNil)))
          else andThen (asSeq E n v) (\<lambda>items. got (vbool (items = []))))"
| "prim_empty_p E n args = throwError ''empty?: expects 1 arg''"

fun prim_second :: "('o, 'w) lenv \<Rightarrow> nat \<Rightarrow> 'o sval list \<Rightarrow> ('o, 'w, 'o sval) lact" where
  "prim_second E n [v] =
     (if isSeqObject v
      then andThen (walkStart (seqOf E n) v) (\<lambda>w.
             andThen (if walkDone w then got w else walkAdvance (seqOf E n) w) (\<lambda>w'.
               got (if walkDone w' then VNil else walkFirst w')))
      else andThen (asSeq E n v) (\<lambda>items. got (if length items < 2 then VNil else items ! 1)))"
| "prim_second E n args = arity (length args) ''second''"

primrec lastLoop :: "('o sval \<Rightarrow> ('o, 'w, 'o sval) lact) \<Rightarrow> nat \<Rightarrow> 'o walk \<Rightarrow> 'o sval \<Rightarrow> ('o, 'w, 'o sval) lact" where
  "lastLoop sq 0 w x = tired"
| "lastLoop sq (Suc k) w x =
     (if walkDone w then got x else andThen (walkAdvance sq w) (\<lambda>w'. lastLoop sq k w' (walkFirst w)))"

fun prim_last :: "('o, 'w) lenv \<Rightarrow> nat \<Rightarrow> 'o sval list \<Rightarrow> ('o, 'w, 'o sval) lact" where
  "prim_last E n [v] =
     (if isSeqObject v then andThen (walkStart (seqOf E n) v) (\<lambda>w. lastLoop (seqOf E n) n w VNil)
      else andThen (asSeq E n v) (\<lambda>items. got (if items = [] then VNil else last items)))"
| "prim_last E n args = arity (length args) ''last''"

text \<open>The index of \<^verbatim>\<open>nth\<close>: an integer, saturated to the range of \<^verbatim>\<open>long long\<close>.\<close>

definition indexArg :: "('o, 'w) lenv \<Rightarrow> string \<Rightarrow> 'o sval \<Rightarrow> ('o, 'w, int) lact" where
  "indexArg E name v =
     (case v of
        VInt i \<Rightarrow> got (if i > 2 ^ 63 - 1 then 2 ^ 63 - 1 else if i < - (2 ^ 63) then - (2 ^ 63) else i)
      | _ \<Rightarrow> throws ''ClassCastException'' (name @ '' expects an integer, got '' @ typeName E v))"

definition throwNthOutOfBounds :: "('o, 'w) lenv \<Rightarrow> 'o sval \<Rightarrow> int \<Rightarrow> ('o, 'w, 'a) lact" where
  "throwNthOutOfBounds E i cnt =
     throws ''IndexOutOfBoundsException''
       (''nth index '' @ printVal E i @ '' is out of bounds (count '' @ int_dec cnt @ '')'')"

definition orElse :: "'a option \<Rightarrow> ('o, 'w, 'a) lact \<Rightarrow> ('o, 'w, 'a) lact" where
  "orElse d m = (case d of Some x \<Rightarrow> got x | None \<Rightarrow> m)"

primrec nthLoop ::
    "('o, 'w) lenv \<Rightarrow> ('o sval \<Rightarrow> ('o, 'w, 'o sval) lact) \<Rightarrow> 'o sval \<Rightarrow> 'o sval option \<Rightarrow> nat \<Rightarrow> nat \<Rightarrow> 'o walk \<Rightarrow>
     ('o, 'w, 'o sval) lact" where
  "nthLoop E sq i d 0 k w = (if walkDone w then orElse d (throwNthOutOfBounds E i (int k)) else got (walkFirst w))"
| "nthLoop E sq i d (Suc j) k w =
     (if walkDone w then orElse d (throwNthOutOfBounds E i (int k))
      else andThen (walkAdvance sq w) (nthLoop E sq i d j (k + 1)))"

definition nthOf ::
    "('o, 'w) lenv \<Rightarrow> nat \<Rightarrow> 'o sval \<Rightarrow> 'o sval \<Rightarrow> 'o sval option \<Rightarrow> ('o, 'w, 'o sval) lact" where
  "nthOf E n coll i d =
     andThen (indexArg E ''nth'' i) (\<lambda>idx.
       if coll = VNil then got (case d of Some x \<Rightarrow> x | None \<Rightarrow> VNil)
       else if isSeqObject coll
       then if idx < 0
            then orElse d (throwNthOutOfBounds E i (case coll of VList xs \<Rightarrow> int (length xs) | _ \<Rightarrow> 0))
            else andThen (walkStart (seqOf E n) coll) (nthLoop E (seqOf E n) i d (nat idx) 0)
       else case coll of
              VVec items \<Rightarrow>
                if idx < 0 \<or> idx \<ge> int (length items) then orElse d (throwNthOutOfBounds E i (int (length items)))
                else got (items ! nat idx)
            | VObj x \<Rightarrow> nthObj E x idx d
            | _ \<Rightarrow> throws ''UnsupportedOperationException'' (''nth not supported on '' @ typeName E coll))"

fun prim_nth :: "('o, 'w) lenv \<Rightarrow> nat \<Rightarrow> 'o sval list \<Rightarrow> ('o, 'w, 'o sval) lact" where
  "prim_nth E n [coll, i] = nthOf E n coll i None"
| "prim_nth E n [coll, i, d] = nthOf E n coll i (Some d)"
| "prim_nth E n args = throwError ''nth: expects (nth coll i) or (nth coll i nf)''"

fun prim_conj :: "('o, 'w) lenv \<Rightarrow> nat \<Rightarrow> 'o sval list \<Rightarrow> ('o, 'w, 'o sval) lact" where
  "prim_conj E n [] = got (VVec [])"
| "prim_conj E n [coll] = got coll"
| "prim_conj E n (coll # xs) =
     (case coll of
        VObj x \<Rightarrow> conjObj E x xs
      | VVec items \<Rightarrow> got (VVec (items @ xs))
      | VNil \<Rightarrow> got (VList (rev xs))
      | VList ys \<Rightarrow> got (VList (rev xs @ ys))
      | _ \<Rightarrow>
          if isSeqObject coll then got (foldl (\<lambda>s x. VCons x s) coll xs)
          else throws ''ClassCastException'' (''conj expects a collection, got '' @ typeName E coll))"

section \<open>reduce\<close>

primrec callFold :: "('o, 'w) lenv \<Rightarrow> 'o sval \<Rightarrow> 'o sval \<Rightarrow> 'o sval list \<Rightarrow> ('o, 'w, 'o sval) lact" where
  "callFold E f acc [] = got acc"
| "callFold E f acc (x # xs) = andThen (callFn E f [acc, x]) (\<lambda>a. callFold E f a xs)"

text \<open>A list, along its cells: the elements of the head cell from index \<open>i\<close>, then the cells after it.\<close>

function reduceCells :: "('o, 'w) lenv \<Rightarrow> 'o sval \<Rightarrow> 'o sval list \<Rightarrow> nat \<Rightarrow> 'o sval \<Rightarrow> ('o, 'w, 'o sval) lact" where
  "reduceCells E f p i acc =
     (if p = [] then got acc
      else let h = listHeadCount p in
           andThen (callFold E f acc (map (\<lambda>j. p ! j) [i..<h])) (reduceCells E f (drop h p) 0))"
  by auto

termination
  by (relation "measure (\<lambda>(E, f, p, i, acc). length p)") (auto simp: listHeadCount_def)

declare reduceCells.simps [simp del]

primrec reduceLoop ::
    "('o, 'w) lenv \<Rightarrow> ('o sval \<Rightarrow> ('o, 'w, 'o sval) lact) \<Rightarrow> 'o sval \<Rightarrow> nat \<Rightarrow> 'o walk \<Rightarrow> 'o sval \<Rightarrow>
     ('o, 'w, 'o sval) lact" where
  "reduceLoop E sq f 0 w acc = tired"
| "reduceLoop E sq f (Suc k) w acc =
     (if walkDone w then got acc
      else andThen (callFn E f [acc, walkFirst w]) (\<lambda>a.
             andThen (walkAdvance sq w) (\<lambda>w'. reduceLoop E sq f k w' a)))"

definition reduceOf ::
    "('o, 'w) lenv \<Rightarrow> nat \<Rightarrow> 'o sval \<Rightarrow> 'o sval option \<Rightarrow> 'o sval \<Rightarrow> ('o, 'w, 'o sval) lact" where
  "reduceOf E n f init coll =
     (case coll of
        VList xs \<Rightarrow>
          (case init of
             Some a \<Rightarrow> reduceCells E f xs 0 a
           | None \<Rightarrow> if xs = [] then callFn E f [] else reduceCells E f xs 1 (hd xs))
      | _ \<Rightarrow>
          if isSeqObject coll
          then andThen (walkStart (seqOf E n) coll) (\<lambda>w.
                 case init of
                   Some a \<Rightarrow> reduceLoop E (seqOf E n) f n w a
                 | None \<Rightarrow>
                     if walkDone w then callFn E f []
                     else andThen (walkAdvance (seqOf E n) w) (\<lambda>w'. reduceLoop E (seqOf E n) f n w' (walkFirst w)))
          else andThen (asSeq E n coll) (\<lambda>items.
                 case init of
                   Some a \<Rightarrow> callFold E f a items
                 | None \<Rightarrow> if items = [] then callFn E f [] else callFold E f (hd items) (tl items)))"

fun prim_reduce :: "('o, 'w) lenv \<Rightarrow> nat \<Rightarrow> 'o sval list \<Rightarrow> ('o, 'w, 'o sval) lact" where
  "prim_reduce E n [f, coll] = reduceOf E n f None coll"
| "prim_reduce E n [f, init, coll] = reduceOf E n f (Some init) coll"
| "prim_reduce E n args = throwError ''reduce: expects (reduce f coll) or (reduce f init coll)''"

section \<open>Calls without a call\<close>

text \<open>The primitives the virtual machine answers itself, and what a call of them runs.\<close>

datatype prim = PInc | PDec | PPlus | PFirst | PRest | PNext | PSeq | PEmpty | PCount | PCons | PConj | PNth

fun isSmallInt :: "'o sval \<Rightarrow> bool" where
  "isSmallInt (VInt i) = small_range i"
| "isSmallInt v = False"

fun intOf :: "'o sval \<Rightarrow> int" where
  "intOf (VInt i) = i"
| "intOf v = 0"

definition smallResult :: "int \<Rightarrow> 'o sval option" where
  "smallResult n = (if small_range n then Some (VInt n) else None)"

definition fastIndexed :: "'o sval \<Rightarrow> 'o sval \<Rightarrow> 'o sval option" where
  "fastIndexed coll i =
     (if \<not> isSmallInt i then None
      else case coll of
             VVec items \<Rightarrow>
               if intOf i < 0 \<or> intOf i \<ge> int (length items) then None else Some (items ! nat (intOf i))
           | VList xs \<Rightarrow>
               if xs = [] \<or> intOf i < 0 \<or> intOf i \<ge> int (length xs) then None else Some (xs ! nat (intOf i))
           | _ \<Rightarrow> None)"

definition fastUnary :: "prim \<Rightarrow> 'o sval \<Rightarrow> bool \<Rightarrow> 'o sval option" where
  "fastUnary fn v mayAllocate =
     (case fn of
        PInc \<Rightarrow> if isSmallInt v then smallResult (intOf v + 1) else None
      | PDec \<Rightarrow> if isSmallInt v then smallResult (intOf v - 1) else None
      | PFirst \<Rightarrow> tryFirst v
      | PRest \<Rightarrow> if mayAllocate then tryRest v else None
      | PNext \<Rightarrow> if mayAllocate then tryNext v else None
      | PSeq \<Rightarrow> if mayAllocate then trySeq v else None
      | PEmpty \<Rightarrow> map_option vbool (tryEmpty v)
      | PCount \<Rightarrow>
          if (\<forall>items. v \<noteq> VVec items) \<and> v \<noteq> VNil \<and> \<not> isSeqObject v then None
          else map_option (\<lambda>c. VInt (int c)) (tryCount 0 v)
      | _ \<Rightarrow> None)"

definition fastBinary :: "prim \<Rightarrow> 'o sval \<Rightarrow> 'o sval \<Rightarrow> bool \<Rightarrow> 'o sval option" where
  "fastBinary fn a b mayAllocate =
     (case fn of
        PNth \<Rightarrow> fastIndexed a b
      | PCons \<Rightarrow> if mayAllocate then tryCons a b else None
      | PConj \<Rightarrow>
          if \<not> mayAllocate then None
          else (case a of
                  VNil \<Rightarrow> Some (VList [b])
                | VList xs \<Rightarrow> Some (VList (b # xs))
                | VVec items \<Rightarrow> Some (VVec (items @ [b]))
                | _ \<Rightarrow> None)
      | PPlus \<Rightarrow> if isSmallInt a \<and> isSmallInt b then smallResult (intOf a + intOf b) else None
      | _ \<Rightarrow> None)"

fun fastPrimitiveCall :: "prim \<Rightarrow> 'o sval list \<Rightarrow> bool \<Rightarrow> 'o sval option" where
  "fastPrimitiveCall fn [v] mayAllocate = fastUnary fn v mayAllocate"
| "fastPrimitiveCall fn [a, b] mayAllocate = fastBinary fn a b mayAllocate"
| "fastPrimitiveCall fn args mayAllocate = None"

text \<open>Arithmetic on numbers: \<^verbatim>\<open>inc\<close>, \<^verbatim>\<open>dec\<close> and \<^verbatim>\<open>+\<close>.\<close>

definition addNumbers :: "('o, 'w) lenv \<Rightarrow> 'o sval \<Rightarrow> 'o sval \<Rightarrow> 'o sval" where
  "addNumbers E a b = (case (a, b) of (VInt i, VInt j) \<Rightarrow> VInt (i + j) | _ \<Rightarrow> addDouble E a b)"

primrec checkNumbers :: "('o, 'w) lenv \<Rightarrow> string \<Rightarrow> 'o sval list \<Rightarrow> ('o, 'w, unit) lact" where
  "checkNumbers E name [] = got ()"
| "checkNumbers E name (x # xs) = (if isNumber E x then checkNumbers E name xs else throwNotANumber E name x)"

definition prim_inc :: "('o, 'w) lenv \<Rightarrow> 'o sval list \<Rightarrow> ('o, 'w, 'o sval) lact" where
  "prim_inc E args =
     (case args of
        [x] \<Rightarrow> if isNumber E x then got (addNumbers E x (VInt 1)) else throwNotANumber E ''inc'' x
      | _ \<Rightarrow> throwError ''inc: expects 1 arg'')"

definition prim_dec :: "('o, 'w) lenv \<Rightarrow> 'o sval list \<Rightarrow> ('o, 'w, 'o sval) lact" where
  "prim_dec E args =
     (case args of
        [x] \<Rightarrow> if isNumber E x then got (addNumbers E x (VInt (- 1))) else throwNotANumber E ''dec'' x
      | _ \<Rightarrow> throwError ''dec: expects 1 arg'')"

definition prim_plus :: "('o, 'w) lenv \<Rightarrow> 'o sval list \<Rightarrow> ('o, 'w, 'o sval) lact" where
  "prim_plus E args =
     andThen (checkNumbers E ''+'' args) (\<lambda>_.
       got (case args of [] \<Rightarrow> VInt 0 | x # xs \<Rightarrow> foldl (addNumbers E) x xs))"

definition callPrim :: "('o, 'w) lenv \<Rightarrow> nat \<Rightarrow> prim \<Rightarrow> 'o sval list \<Rightarrow> ('o, 'w, 'o sval) lact" where
  "callPrim E n fn args =
     (case fn of
        PInc \<Rightarrow> prim_inc E args
      | PDec \<Rightarrow> prim_dec E args
      | PPlus \<Rightarrow> prim_plus E args
      | PFirst \<Rightarrow> prim_first E n args
      | PRest \<Rightarrow> prim_rest E n args
      | PNext \<Rightarrow> prim_next E n args
      | PSeq \<Rightarrow> prim_seq E n args
      | PEmpty \<Rightarrow> prim_empty_p E n args
      | PCount \<Rightarrow> prim_count E n args
      | PCons \<Rightarrow> prim_cons E n args
      | PConj \<Rightarrow> prim_conj E n args
      | PNth \<Rightarrow> prim_nth E n args)"

section \<open>Making a lazy seq\<close>

definition requireNumber :: "('o, 'w) lenv \<Rightarrow> 'o sval \<Rightarrow> string \<Rightarrow> ('o, 'w, unit) lact" where
  "requireNumber E v name = (if isNumber E v then got () else throwNotANumber E name v)"

definition unsupported :: "string \<Rightarrow> ('o, 'w, 'a) lact" where
  "unsupported msg = throws ''UnsupportedOperationException'' msg"

fun isListTag :: "'o sval \<Rightarrow> bool" where
  "isListTag (VRaw vs) = True"
| "isListTag (VStep k ops) = True"
| "isListTag v = False"

definition prim_lazy_seq_fn :: "'o sval list \<Rightarrow> ('o, 'w, 'o sval) lact" where
  "prim_lazy_seq_fn args =
     (case args of
        [f] \<Rightarrow> if isListTag f then throws ''ClassCastException'' ''__lazy-seq expects a fn of no arguments''
               else newLazySeq f
      | _ \<Rightarrow> arity (length args) ''lazy-seq'')"

definition prim_map :: "'o sval list \<Rightarrow> ('o, 'w, 'o sval) lact" where
  "prim_map args =
     (case args of
        [] \<Rightarrow> arity 0 ''map''
      | [f] \<Rightarrow> unsupported ''map: the transducer arity (map f) is not supported (D49)''
      | [f, coll] \<Rightarrow> lazyStep StMap1 [f, coll]
      | f # colls \<Rightarrow> lazyStep StMapN [f, VRaw colls])"

definition prim_filter :: "'o sval list \<Rightarrow> ('o, 'w, 'o sval) lact" where
  "prim_filter args =
     (case args of [f, coll] \<Rightarrow> lazyStep StFilter [f, coll, VFalse] | _ \<Rightarrow> arity (length args) ''filter'')"

definition prim_remove :: "'o sval list \<Rightarrow> ('o, 'w, 'o sval) lact" where
  "prim_remove args =
     (case args of [f, coll] \<Rightarrow> lazyStep StFilter [f, coll, VTrue] | _ \<Rightarrow> arity (length args) ''remove'')"

definition prim_take :: "('o, 'w) lenv \<Rightarrow> 'o sval list \<Rightarrow> ('o, 'w, 'o sval) lact" where
  "prim_take E args =
     (case args of
        [n, coll] \<Rightarrow> andThen (requireNumber E n ''take'') (\<lambda>_. lazyStep StTake [n, coll])
      | _ \<Rightarrow> arity (length args) ''take'')"

definition prim_take_while :: "'o sval list \<Rightarrow> ('o, 'w, 'o sval) lact" where
  "prim_take_while args =
     (case args of [f, coll] \<Rightarrow> lazyStep StTakeWhile [f, coll] | _ \<Rightarrow> arity (length args) ''take-while'')"

definition prim_drop :: "('o, 'w) lenv \<Rightarrow> 'o sval list \<Rightarrow> ('o, 'w, 'o sval) lact" where
  "prim_drop E args =
     (case args of
        [n, coll] \<Rightarrow> andThen (requireNumber E n ''drop'') (\<lambda>_. lazyStep StDrop [n, coll])
      | _ \<Rightarrow> arity (length args) ''drop'')"

definition prim_drop_while :: "'o sval list \<Rightarrow> ('o, 'w, 'o sval) lact" where
  "prim_drop_while args =
     (case args of [f, coll] \<Rightarrow> lazyStep StDropWhile [f, coll] | _ \<Rightarrow> arity (length args) ''drop-while'')"

definition prim_iterate :: "'o sval list \<Rightarrow> ('o, 'w, 'o sval) lact" where
  "prim_iterate args =
     (case args of [f, x] \<Rightarrow> lazyStep StIterate [f, x] | _ \<Rightarrow> arity (length args) ''iterate'')"

definition prim_repeat :: "('o, 'w) lenv \<Rightarrow> 'o sval list \<Rightarrow> ('o, 'w, 'o sval) lact" where
  "prim_repeat E args =
     (case args of
        [x] \<Rightarrow> lazyStep StRepeat [x, VNil]
      | [n, x] \<Rightarrow> andThen (requireNumber E n ''repeat'') (\<lambda>_. lazyStep StRepeat [x, n])
      | _ \<Rightarrow> arity (length args) ''repeat'')"

definition prim_repeatedly :: "('o, 'w) lenv \<Rightarrow> 'o sval list \<Rightarrow> ('o, 'w, 'o sval) lact" where
  "prim_repeatedly E args =
     (case args of
        [f] \<Rightarrow> lazyStep StRepeatedly [f, VNil]
      | [n, f] \<Rightarrow> andThen (requireNumber E n ''repeatedly'') (\<lambda>_. lazyStep StRepeatedly [f, n])
      | _ \<Rightarrow> arity (length args) ''repeatedly'')"

definition prim_cycle :: "'o sval list \<Rightarrow> ('o, 'w, 'o sval) lact" where
  "prim_cycle args = (case args of [coll] \<Rightarrow> lazyStep StCycle [coll, VNil] | _ \<Rightarrow> arity (length args) ''cycle'')"

definition rangeOf :: "('o, 'w) lenv \<Rightarrow> 'o sval \<Rightarrow> 'o sval \<Rightarrow> 'o sval \<Rightarrow> ('o, 'w, 'o sval) lact" where
  "rangeOf E start fin stp =
     andThen (requireNumber E start ''range'') (\<lambda>_.
     andThen (requireNumber E fin ''range'') (\<lambda>_.
     andThen (requireNumber E stp ''range'') (\<lambda>_.
     andThen (numberCompare E stp (VInt 0)) (\<lambda>z.
       if z = 0
       then andThen (numberCompare E start fin) (\<lambda>c.
              if c = 0 then got (VList []) else lazyStep StRepeat [start, VNil])
       else lazyStep StRange [start, fin, stp]))))"

definition prim_range :: "('o, 'w) lenv \<Rightarrow> 'o sval list \<Rightarrow> ('o, 'w, 'o sval) lact" where
  "prim_range E args =
     (case args of
        [] \<Rightarrow> lazyStep StRangeInf [VInt 0, VInt 1]
      | [fin] \<Rightarrow> rangeOf E (VInt 0) fin (VInt 1)
      | [start, fin] \<Rightarrow> rangeOf E start fin (VInt 1)
      | [start, fin, stp] \<Rightarrow> rangeOf E start fin stp
      | _ \<Rightarrow> arity (length args) ''range'')"

definition prim_mapcat :: "'o sval list \<Rightarrow> ('o, 'w, 'o sval) lact" where
  "prim_mapcat args =
     (case args of
        [] \<Rightarrow> arity 0 ''mapcat''
      | [f] \<Rightarrow> unsupported ''mapcat: the transducer arity (mapcat f) is not supported (D49)''
      | [f, coll] \<Rightarrow> andThen (lazyStep StMap1 [f, coll]) (\<lambda>t. lazyStep StConcat [VNil, t])
      | f # colls \<Rightarrow> andThen (lazyStep StMapN [f, VRaw colls]) (\<lambda>t. lazyStep StConcat [VNil, t]))"

definition partitionPrim :: "('o, 'w) lenv \<Rightarrow> bool \<Rightarrow> 'o sval list \<Rightarrow> ('o, 'w, 'o sval) lact" where
  "partitionPrim E all args =
     (let name = (if all then ''partition-all'' else ''partition'');
          make = (\<lambda>amt stp pad mode coll.
                    andThen (requireNumber E amt name) (\<lambda>_.
                    andThen (requireNumber E stp name) (\<lambda>_.
                      lazyStep StPartition [amt, stp, pad, VInt mode, coll]))) in
      case args of
        [amt] \<Rightarrow> unsupported (name @ '': the transducer arity is not supported (D49)'')
      | [amt, coll] \<Rightarrow> make amt amt VNil (if all then 2 else 0) coll
      | [amt, stp, coll] \<Rightarrow> make amt stp VNil (if all then 2 else 0) coll
      | [amt, stp, pad, coll] \<Rightarrow> if all then arity 4 name else make amt stp pad 1 coll
      | _ \<Rightarrow> arity (length args) name)"

definition prim_interleave :: "'o sval list \<Rightarrow> ('o, 'w, 'o sval) lact" where
  "prim_interleave args =
     (case args of
        [] \<Rightarrow> got (VList [])
      | [coll] \<Rightarrow> lazyStep StConcat [coll, VNil]
      | _ \<Rightarrow> lazyStep StInterleave [VRaw args])"

definition prim_distinct :: "'o sval list \<Rightarrow> ('o, 'w, 'o sval) lact" where
  "prim_distinct args =
     (case args of [coll] \<Rightarrow> lazyStep StDistinct [coll, VNil] | _ \<Rightarrow> arity (length args) ''distinct'')"

definition prim_for_step :: "('o, 'w) lenv \<Rightarrow> 'o sval list \<Rightarrow> ('o, 'w, 'o sval) lact" where
  "prim_for_step E args =
     (case args of
        [coll, f] \<Rightarrow> lazyStep StFor [coll, f, forStop E, VFalse]
      | [coll, f, inner] \<Rightarrow> lazyStep StFor [coll, f, forStop E, vbool (truthy inner)]
      | _ \<Rightarrow> arity (length args) ''__for-step'')"

section \<open>Running a seq for its effects\<close>

primrec walkAllLoop :: "('o sval \<Rightarrow> ('o, 'w, 'o sval) lact) \<Rightarrow> nat \<Rightarrow> int \<Rightarrow> 'o walk \<Rightarrow> ('o, 'w, unit) lact" where
  "walkAllLoop sq 0 limit w = tired"
| "walkAllLoop sq (Suc k) limit w =
     (if walkDone w \<or> limit = 0 then got ()
      else andThen (walkAdvance sq w) (walkAllLoop sq k (limit - 1)))"

definition walkAll :: "('o, 'w) lenv \<Rightarrow> nat \<Rightarrow> 'o sval \<Rightarrow> int \<Rightarrow> ('o, 'w, unit) lact" where
  "walkAll E n coll limit = andThen (walkStart (seqOf E n) coll) (walkAllLoop (seqOf E n) n limit)"

definition prim_dorun :: "('o, 'w) lenv \<Rightarrow> nat \<Rightarrow> 'o sval list \<Rightarrow> ('o, 'w, 'o sval) lact" where
  "prim_dorun E n args =
     (case args of
        [coll] \<Rightarrow> andThen (walkAll E n coll (- 1)) (\<lambda>_. got VNil)
      | [cnt, coll] \<Rightarrow>
          andThen (requireNumber E cnt ''dorun'') (\<lambda>_. andThen (countOperand E cnt) (\<lambda>c.
            andThen (walkAll E n coll c) (\<lambda>_. got VNil)))
      | _ \<Rightarrow> arity (length args) ''dorun'')"

definition prim_doall :: "('o, 'w) lenv \<Rightarrow> nat \<Rightarrow> 'o sval list \<Rightarrow> ('o, 'w, 'o sval) lact" where
  "prim_doall E n args =
     (case args of
        [coll] \<Rightarrow> andThen (walkAll E n coll (- 1)) (\<lambda>_. got coll)
      | [cnt, coll] \<Rightarrow>
          andThen (requireNumber E cnt ''doall'') (\<lambda>_. andThen (countOperand E cnt) (\<lambda>c.
            andThen (walkAll E n coll c) (\<lambda>_. got coll)))
      | _ \<Rightarrow> arity (length args) ''doall'')"

primrec runLoop ::
    "('o, 'w) lenv \<Rightarrow> ('o sval \<Rightarrow> ('o, 'w, 'o sval) lact) \<Rightarrow> 'o sval \<Rightarrow> nat \<Rightarrow> 'o walk \<Rightarrow> ('o, 'w, unit) lact" where
  "runLoop E sq f 0 w = tired"
| "runLoop E sq f (Suc k) w =
     (if walkDone w then got ()
      else andThen (callFn E f [walkFirst w]) (\<lambda>_. andThen (walkAdvance sq w) (runLoop E sq f k)))"

definition prim_run_bang :: "('o, 'w) lenv \<Rightarrow> nat \<Rightarrow> 'o sval list \<Rightarrow> ('o, 'w, 'o sval) lact" where
  "prim_run_bang E n args =
     (case args of
        [f, coll] \<Rightarrow>
          andThen (andThen (walkStart (seqOf E n) coll) (runLoop E (seqOf E n) f n)) (\<lambda>_. got VNil)
      | _ \<Rightarrow> arity (length args) ''run!'')"

definition prim_chunked_seq_p :: "'o sval list \<Rightarrow> ('o, 'w, 'o sval) lact" where
  "prim_chunked_seq_p args =
     (case args of [v] \<Rightarrow> got (vbool (isChunkedSeq v)) | _ \<Rightarrow> arity (length args) ''chunked-seq?'')"

end
