(* ===== verification/LazyReads.thy ===== *)
theory LazyReads
  imports LazyOk SeqPrims
begin

text \<open>
  What the functions that read a sequence answer on a well typed store: \<^verbatim>\<open>first\<close>, \<^verbatim>\<open>count\<close>, \<^verbatim>\<open>last\<close>, \<^verbatim>\<open>nth\<close> and \<^verbatim>\<open>reduce\<close>
  depend on the elements a value promises, not on how it holds them.
\<close>

declare realizeLazy.simps [simp del]

section \<open>Outcomes\<close>

lemma triple_end:
  assumes "triple E r T F (\<lambda>x _. x = y)" "storeOk E T \<sigma>" "free r T \<sigma>"
  shows "\<exists>N \<sigma>'. \<forall>n\<ge>N. F n \<sigma> = (Got y, \<sigma>')"
proof -
  from tripleD [OF assms] obtain x T' \<sigma>' where "conv (\<lambda>n. F n \<sigma>) (Got x, \<sigma>')" "x = y" by (rule runsToE)
  then show ?thesis unfolding conv_def by blast
qed

lemma triple_map: "triple E r T F Q \<Longrightarrow> (\<And>x T'. Q x T' \<Longrightarrow> h x = y) \<Longrightarrow>
  triple E r T (\<lambda>n. andThen (F n) (\<lambda>x. got (h x))) (\<lambda>r _. r = y)"
  by (erule triple_bind) (auto intro: triple_got)

text \<open>A store with no promise: whatever is in it, code that uses nothing of it may run.\<close>

definition seqsOk :: "('o, 'w) lstate \<Rightarrow> bool" where
  "seqsOk \<sigma> \<longleftrightarrow> (\<forall>a<length (slots \<sigma>). case slots \<sigma> ! a of Realized s \<Rightarrow> isSeqVal s | _ \<Rightarrow> True)"

definition blankTyping :: "('o, 'w) lstate \<Rightarrow> nat \<Rightarrow> 'o lty" where
  "blankTyping \<sigma> r = replicate (length (slots \<sigma>)) (([], False), r)"

lemma thunkOk_blank: "thunkOk E T l t [] False"
  by (cases t) (auto intro: stepOk.ok_none fnYields.fn_none)

lemma storeOk_blank:
  assumes "seqsOk \<sigma>"
  shows "storeOk E (blankTyping \<sigma> r) \<sigma>" and "free r (blankTyping \<sigma> r) \<sigma>"
proof -
  have "slotOk E (blankTyping \<sigma> r) (slots \<sigma> ! a) [] False r" if "a < length (slots \<sigma>)" for a
    using assms that by (cases "slots \<sigma> ! a") (auto simp: seqsOk_def thunkOk_blank)
  then show "storeOk E (blankTyping \<sigma> r) \<sigma>" by (simp add: storeOk_def blankTyping_def)
  show "free r (blankTyping \<sigma> r) \<sigma>" by (auto simp: free_def claims_def blankTyping_def)
qed

section \<open>Reading\<close>

lemma asSeq_ok: "gives E T q v ys True \<Longrightarrow> \<not> isSeqObject v \<Longrightarrow> asSeq E n v = got ys"
  by (cases v) (auto simp: asSeq_def split: if_splits)

lemma tryFirst_ok: "gives E T q v (x # xs) e \<Longrightarrow> tryFirst v = Some r \<Longrightarrow> r = x"
proof (cases v)
  case (VVec ys)
  then show "gives E T q v (x # xs) e \<Longrightarrow> tryFirst v = Some r \<Longrightarrow> r = x" by (cases e; cases ys) auto
next
  case (VList ys)
  then show "gives E T q v (x # xs) e \<Longrightarrow> tryFirst v = Some r \<Longrightarrow> r = x" by (cases e; cases ys) auto
next
  case (VChunk items off en m c)
  then show "gives E T q v (x # xs) e \<Longrightarrow> tryFirst v = Some r \<Longrightarrow> r = x" by (auto simp: stretch_Cons)
qed auto

lemma first_ok:
  assumes "gives E T q v (x # xs) e"
  shows "triple E (Suc q) T (\<lambda>n. prim_first E n [v]) (\<lambda>r _. r = x)"
proof (cases "tryFirst v")
  case None
  have "triple E (Suc q) T (\<lambda>n. andThen (seqOf E n v) (\<lambda>s. got (if s = VNil then VNil else seqFirst s))) (\<lambda>r _. r = x)"
    using seqD [OF seqSound_all, of q "Suc q" E T v "x # xs" e 0] assms
    by (intro triple_map [where Q = "answers E q (x # xs) e"]) (auto dest: answersD)
  with None show ?thesis by simp
next
  case (Some r)
  with tryFirst_ok [OF assms] show ?thesis by (auto intro: triple_got)
qed

lemma tryCount_ok: "gives E T q v ys True \<Longrightarrow> tryCount k v = Some c \<Longrightarrow> c = k + length ys"
proof (induction k v arbitrary: ys c rule: tryCount.induct)
  case (4 k x m)
  then show ?case by (cases ys) auto
next
  case (5 k items off en m ch)
  then obtain zs where "off < en" "en \<le> length items" "ys = stretch items off en @ zs" "gives E T q m zs True" by auto
  moreover have "c = (k + (en - off)) + length zs"
    using "5.IH" [of zs c] "5.prems"(2) calculation(4) by simp
  ultimately show ?case by (simp add: stretch_def)
qed auto

lemma walkCounted_ok: "walkOk E q ys True w T \<Longrightarrow> walkCounted w = Some c \<Longrightarrow> c = length ys"
  by (erule walkOk_cases) (auto simp: walkCounted_def stretch_def split: if_splits)

lemma countLoop_ok:
  assumes "seqSound E l" "q < l"
  shows "walkOk E q ys True w T \<Longrightarrow> triple E l T (\<lambda>n. countLoop (seqOf E (n + d)) n w k) (\<lambda>r _. r = k + length ys)"
proof (induction ys arbitrary: w T k d)
  case Nil
  then have "walkDone w" by (simp add: walkOk_done)
  then show ?case by (intro triple_Suc [where F = "\<lambda>n. countLoop (seqOf E (n + d)) n w k"]) auto
next
  case (Cons y ys)
  then have w: "\<not> walkDone w" by (simp add: walkOk_done)
  have "triple E l T (\<lambda>n. countLoop (seqOf E (n + Suc d)) (Suc n) w k) (\<lambda>r _. r = k + length (y # ys))"
  proof (cases "walkCounted w")
    case None
    have "triple E l T (\<lambda>n. andThen (walkAdvance (seqOf E (n + Suc d)) w) (\<lambda>w'. countLoop (seqOf E (n + Suc d)) n w' (k + 1)))
        (\<lambda>r _. r = k + length (y # ys))"
    proof (rule triple_bind [OF walkOk_advance [OF assms Cons.prems]])
      fix w' T' assume "walkOk E q ys True w' T'"
      from Cons.IH [OF this, of "Suc d" "k + 1"]
      show "triple E l T' (\<lambda>n. countLoop (seqOf E (n + Suc d)) n w' (k + 1)) (\<lambda>r _. r = k + length (y # ys))" by simp
    qed simp
    with None w show ?thesis by simp
  next
    case (Some c)
    with walkCounted_ok [OF Cons.prems] w show ?thesis by auto
  qed
  then show ?case by (intro triple_Suc [where F = "\<lambda>n. countLoop (seqOf E (n + d)) n w k"]) simp
qed

lemma walk_bind:
  assumes "gives E T q v ys e" "ys \<noteq> [] \<or> e" "\<And>w T'. prefix T T' \<Longrightarrow> walkOk E q ys e w T' \<Longrightarrow> triple E (Suc q) T' (\<lambda>n. G n w) Q"
  shows "triple E (Suc q) T (\<lambda>n. andThen (walkStart (seqOf E n) v) (G n)) Q"
proof (rule triple_bind)
  show "triple E (Suc q) T (\<lambda>n. walkStart (seqOf E n) v) (walkOk E q ys e)"
    using walkStart_ok [OF seqSound_all _ assms(1,2), of "Suc q" 0] by simp
qed (rule assms(3))

lemma count_ok:
  assumes "gives E T q v ys True"
  shows "triple E (Suc q) T (\<lambda>n. prim_count E n [v]) (\<lambda>r _. r = VInt (int (length ys)))"
proof (cases "isSeqObject v")
  case True
  then have "v \<noteq> VNil" by auto
  show ?thesis
  proof (cases "tryCount 0 v")
    case None
    have "triple E (Suc q) T (\<lambda>n. andThen (andThen (walkStart (seqOf E n) v) (\<lambda>w. countLoop (seqOf E n) n w 0))
        (\<lambda>c. got (VInt (int c)))) (\<lambda>r _. r = VInt (int (length ys)))"
    proof (rule triple_map [where Q = "\<lambda>r _. r = length ys"])
      show "triple E (Suc q) T (\<lambda>n. andThen (walkStart (seqOf E n) v) (\<lambda>w. countLoop (seqOf E n) n w 0)) (\<lambda>r _. r = length ys)"
        using countLoop_ok [OF seqSound_all, where q = q and l = "Suc q" and d = 0 and k = 0]
        by (intro walk_bind [OF assms]) auto
    qed simp
    with None True \<open>v \<noteq> VNil\<close> show ?thesis by simp
  next
    case (Some c)
    with tryCount_ok [OF assms Some] True \<open>v \<noteq> VNil\<close> show ?thesis by (auto intro: triple_got)
  qed
next
  case False
  with assms asSeq_ok [OF assms False] show ?thesis by (cases "v = VNil") (auto intro: triple_got)
qed

lemma nthLoop_ok:
  assumes "seqSound E l" "q < l"
  shows "walkOk E q ys e w T \<Longrightarrow> j < length ys \<Longrightarrow>
    triple E l T (\<lambda>n. nthLoop E (seqOf E n) i d j k w) (\<lambda>r _. r = ys ! j)"
proof (induction j arbitrary: ys w T k)
  case 0
  then obtain y zs where "ys = y # zs" by (cases ys) auto
  with 0 show ?case by (auto simp: walkOk_done walkOk_first intro: triple_got)
next
  case (Suc j)
  then obtain y zs where ys: "ys = y # zs" "j < length zs" by (cases ys) auto
  with Suc.prems have w: "\<not> walkDone w" by (simp add: walkOk_done)
  have "triple E l T (\<lambda>n. andThen (walkAdvance (seqOf E n) w) (nthLoop E (seqOf E n) i d j (k + 1))) (\<lambda>r _. r = ys ! Suc j)"
  proof (rule triple_bind)
    show "triple E l T (\<lambda>n. walkAdvance (seqOf E n) w) (walkOk E q zs e)"
      using walkOk_advance [OF assms, of y zs e w T 0] Suc.prems ys by (cases zs) auto
    fix w' T' assume "walkOk E q zs e w' T'"
    from Suc.IH [OF this ys(2)] ys(1)
    show "triple E l T' (\<lambda>n. nthLoop E (seqOf E n) i d j (k + 1) w') (\<lambda>r _. r = ys ! Suc j)" by simp
  qed
  with w show ?case by simp
qed

lemma nth_ok:
  assumes "gives E T q v ys e" "i < length ys" "int i < 2 ^ 63" "\<forall>x. v \<noteq> VObj x"
  shows "triple E (Suc q) T (\<lambda>n. nthOf E n v (VInt (int i)) d) (\<lambda>r _. r = ys ! i)"
proof -
  have idx: "indexArg E ''nth'' (VInt (int i)) = got (int i)"
    using assms(3) by (simp add: indexArg_def)
  have "v \<noteq> VNil" using assms(1,2) by auto
  show ?thesis
  proof (cases "isSeqObject v")
    case True
    have "triple E (Suc q) T (\<lambda>n. andThen (walkStart (seqOf E n) v) (nthLoop E (seqOf E n) (VInt (int i)) d i 0)) (\<lambda>r _. r = ys ! i)"
      using assms(2) nthLoop_ok [OF seqSound_all, of q "Suc q"]
      by (intro walk_bind [OF assms(1)]) auto
    with True \<open>v \<noteq> VNil\<close> show ?thesis by (simp add: nthOf_def idx)
  next
    case False
    with assms(1,2,4) obtain zs where "v = VVec zs" "ple ys e zs True" by (cases v) (auto split: if_splits)
    then have "i < length zs" "zs ! i = ys ! i" using assms(2) by (cases e; auto simp: prefix_def nth_append)+
    with \<open>v = VVec zs\<close> show ?thesis by (auto simp: nthOf_def idx intro: triple_got)
  qed
qed

section \<open>reduce\<close>

definition pureOn2 :: "('o, 'w) lenv \<Rightarrow> 'o sval \<Rightarrow> ('o sval \<Rightarrow> 'o sval \<Rightarrow> 'o sval) \<Rightarrow> bool" where
  "pureOn2 E f g \<longleftrightarrow> (\<forall>a x \<sigma>. callFn E f [a, x] \<sigma> = (Got (g a x), \<sigma>))"

lemma pureOn2_then: "pureOn2 E f g \<Longrightarrow> andThen (callFn E f [a, x]) G = G (g a x)"
  by (rule andThen_pure) (simp add: pureOn2_def)

lemma callFold_pure: "pureOn2 E f g \<Longrightarrow> callFold E f a xs = got (foldl g a xs)"
  by (induction xs arbitrary: a) (auto simp: pureOn2_then)

lemma reduceCells_pure:
  "pureOn2 E f g \<Longrightarrow> i \<le> listHeadCount p \<or> p = [] \<Longrightarrow> reduceCells E f p i a = got (foldl g a (drop i p))"
proof (induction "length p" arbitrary: p i a rule: less_induct)
  case less
  show ?case
  proof (cases "p = []")
    case True
    then show ?thesis by (simp add: reduceCells.simps)
  next
    case False
    let ?h = "listHeadCount p"
    have h: "0 < ?h" "?h \<le> length p" "i \<le> ?h"
      using False headCount_le less.prems(2) by (auto simp: listHeadCount_def)
    have "reduceCells E f (drop ?h p) 0 a' = got (foldl g a' (drop ?h p))" for a'
      using less.hyps [of "drop ?h p" 0] less.prems(1) h False by simp
    moreover have "drop i p = map (\<lambda>j. p ! j) [i..<?h] @ drop ?h p"
      using h by (intro nth_equalityI) (auto simp: nth_append add.commute)
    ultimately show ?thesis using False less.prems(1)
      by (simp add: reduceCells.simps [of E f p] Let_def callFold_pure)
  qed
qed

lemma reduceLoop_ok:
  assumes "seqSound E l" "q < l" "pureOn2 E f g"
  shows "walkOk E q ys True w T \<Longrightarrow> triple E l T (\<lambda>n. reduceLoop E (seqOf E (n + d)) f n w a) (\<lambda>r _. r = foldl g a ys)"
proof (induction ys arbitrary: w T a d)
  case Nil
  then have "walkDone w" by (simp add: walkOk_done)
  then show ?case by (intro triple_Suc [where F = "\<lambda>n. reduceLoop E (seqOf E (n + d)) f n w a"]) auto
next
  case (Cons y ys)
  then have w: "\<not> walkDone w" "walkFirst w = y" by (simp_all add: walkOk_done walkOk_first)
  have "triple E l T (\<lambda>n. andThen (walkAdvance (seqOf E (n + Suc d)) w) (\<lambda>w'. reduceLoop E (seqOf E (n + Suc d)) f n w' (g a y)))
      (\<lambda>r _. r = foldl g a (y # ys))"
  proof (rule triple_bind [OF walkOk_advance [OF assms(1,2) Cons.prems]])
    fix w' T' assume "walkOk E q ys True w' T'"
    from Cons.IH [OF this, of "Suc d" "g a y"]
    show "triple E l T' (\<lambda>n. reduceLoop E (seqOf E (n + Suc d)) f n w' (g a y)) (\<lambda>r _. r = foldl g a (y # ys))" by simp
  qed simp
  with w show ?case
    by (intro triple_Suc [where F = "\<lambda>n. reduceLoop E (seqOf E (n + d)) f n w a"]) (simp add: pureOn2_then [OF assms(3)])
qed

lemma reduce_ok:
  assumes "gives E T q v ys True" "pureOn2 E f g"
  shows "triple E (Suc q) T (\<lambda>n. prim_reduce E n [f, a, v]) (\<lambda>r _. r = foldl g a ys)"
proof (cases "isSeqObject v \<and> (\<forall>xs. v \<noteq> VList xs)")
  case True
  have "triple E (Suc q) T (\<lambda>n. andThen (walkStart (seqOf E n) v) (\<lambda>w. reduceLoop E (seqOf E n) f n w a)) (\<lambda>r _. r = foldl g a ys)"
    using reduceLoop_ok [OF seqSound_all, where q = q and l = "Suc q" and d = 0] assms(2)
    by (intro walk_bind [OF assms(1)]) auto
  with True show ?thesis by (cases v) (auto simp: reduceOf_def)
next
  case False
  show ?thesis
  proof (cases "\<exists>xs. v = VList xs")
    case True
    with assms(1) have "v = VList ys" by auto
    with reduceCells_pure [OF assms(2), of 0 ys a] show ?thesis by (auto simp: reduceOf_def intro: triple_got)
  next
    case nl: False
    with False have "\<not> isSeqObject v" by blast
    with asSeq_ok [OF assms(1) this] nl show ?thesis
      by (cases v) (auto simp: reduceOf_def callFold_pure [OF assms(2)] intro: triple_got)
  qed
qed

end
