(* ===== verification/LazyKeeps.thy ===== *)
theory LazyKeeps
  imports LazySeq
begin

text \<open>
  What no code does to a lazy slot, whatever the functions it calls do, as long as they go through the same
  protocol: a realised seq stays what it is, and a seq that is being realised stays claimed until its own
  realisation is over. So a seq is realised once, and one whose thunk raised is unrealised again.
\<close>

definition keeps :: "('o, 'w) lstate \<Rightarrow> ('o, 'w) lstate \<Rightarrow> bool" where
  "keeps \<sigma> \<sigma>' \<longleftrightarrow>
     length (slots \<sigma>) \<le> length (slots \<sigma>') \<and>
     (\<forall>a<length (slots \<sigma>). (\<forall>t. slots \<sigma> ! a \<noteq> Unrealized t) \<longrightarrow> slots \<sigma>' ! a = slots \<sigma> ! a)"

definition keepsA :: "('o, 'w, 'a) lact \<Rightarrow> bool" where
  "keepsA m \<longleftrightarrow> (\<forall>\<sigma>. keeps \<sigma> (snd (m \<sigma>)))"

definition envKeeps :: "('o, 'w) lenv \<Rightarrow> bool" where
  "envKeeps E \<longleftrightarrow> (\<forall>f args. keepsA (callFn E f args)) \<and> (\<forall>k self ops. keepsA (foreignStep E k self ops))"

named_theorems keeps_rules \<open>code that keeps the slots\<close>

lemma keeps_refl [simp]: "keeps \<sigma> \<sigma>"
  by (simp add: keeps_def)

lemma keeps_trans: "keeps \<sigma> \<sigma>1 \<Longrightarrow> keeps \<sigma>1 \<sigma>2 \<Longrightarrow> keeps \<sigma> \<sigma>2"
  by (simp add: keeps_def)

lemma keepsA_run: "keepsA m \<Longrightarrow> m \<sigma> = (r, \<sigma>') \<Longrightarrow> keeps \<sigma> \<sigma>'"
  unfolding keepsA_def by (metis snd_conv)

lemma keepsA_got [keeps_rules]: "keepsA (got x)"
  by (simp add: keepsA_def got_def)

lemma keepsA_throws [keeps_rules]: "keepsA (throws c m)"
  by (simp add: keepsA_def throws_def)

lemma keepsA_tired [keeps_rules]: "keepsA tired"
  by (simp add: keepsA_def tired_def)

lemma keepsA_then [keeps_rules]: "keepsA m \<Longrightarrow> (\<And>x. keepsA (f x)) \<Longrightarrow> keepsA (andThen m f)"
  unfolding keepsA_def andThen_def
  by (auto split: prod.split lout.split) (metis keeps_trans snd_conv)+

lemma keepsA_if [keeps_rules]: "keepsA m \<Longrightarrow> keepsA m' \<Longrightarrow> keepsA (if b then m else m')"
  by simp

lemma keepsA_new [keeps_rules]: "keepsA (newLazySeq t)"
  by (auto simp: keepsA_def keeps_def newLazySeq_def nth_append)

lemma keepsA_step [keeps_rules]: "keepsA (lazyStep k ops)"
  by (simp add: lazyStep_def keepsA_new)

lemma keepsA_after [keeps_rules]: "keepsA (lazyAfter k v ops)"
  by (simp add: lazyAfter_def keepsA_got keepsA_step)

lemma keepsA_notNumber [keeps_rules]: "keepsA (throwNotANumber E n v)"
  by (simp add: throwNotANumber_def keepsA_throws)

lemma keepsA_compare [keeps_rules]: "keepsA (numberCompare E a b)"
  by (auto simp: numberCompare_def split: sval.split intro!: keeps_rules)

lemma keepsA_add [keeps_rules]: "keepsA (numberAdd E a b)"
  by (auto simp: numberAdd_def split: sval.split intro!: keeps_rules)

lemma keepsA_count [keeps_rules]: "keepsA (countOperand E v)"
  by (auto simp: countOperand_def split: sval.split intro!: keeps_rules)

lemma keepsA_seqWith [keeps_rules]: "(\<And>a. keepsA (R a)) \<Longrightarrow> keepsA (seqWith E R v)"
  by (auto simp: seqWith_def split: sval.split option.split intro!: keeps_rules)

lemma keepsA_walkStart [keeps_rules]: "(\<And>v. keepsA (sq v)) \<Longrightarrow> keepsA (walkStart sq v)"
  by (auto simp: walkStart_def split: SeqObject.split intro!: keeps_rules)

lemma keepsA_walkTo [keeps_rules]: "(\<And>v. keepsA (sq v)) \<Longrightarrow> keepsA (walkTo sq v)"
  by (auto simp: walkTo_def intro!: keeps_rules)

lemma keepsA_walkAdvance [keeps_rules]: "(\<And>v. keepsA (sq v)) \<Longrightarrow> keepsA (walkAdvance sq w)"
  by (auto simp: walkAdvance_def split: option.split sval.split intro!: keeps_rules)

lemma keepsA_walkDrop [keeps_rules]: "(\<And>v. keepsA (sq v)) \<Longrightarrow> keepsA (walkDrop sq k w)"
  by (induction k arbitrary: w) (auto intro!: keeps_rules)

lemma keepsA_walkCollect [keeps_rules]: "(\<And>v. keepsA (sq v)) \<Longrightarrow> keepsA (walkCollect sq k w acc)"
  by (induction k arbitrary: w acc) (auto intro!: keeps_rules)

lemma keepsA_collect [keeps_rules]: "(\<And>v. keepsA (sq v)) \<Longrightarrow> keepsA (collectLoop sq k w acc)"
  by (induction k arbitrary: w acc) (auto intro!: keeps_rules)

lemma keepsA_toList [keeps_rules]: "(\<And>v. keepsA (sq v)) \<Longrightarrow> keepsA (seqToList E sq k v)"
  by (auto simp: seqToList_def split: sval.split option.split intro!: keeps_rules)

lemma keepsA_call [keeps_rules]: "envKeeps E \<Longrightarrow> keepsA (callFn E f args)"
  by (simp add: envKeeps_def)

lemma keepsA_callEach [keeps_rules]: "envKeeps E \<Longrightarrow> keepsA (callEach E f xs acc)"
  by (induction xs arbitrary: acc) (auto intro!: keeps_rules)

lemma keepsA_keepEach [keeps_rules]: "envKeeps E \<Longrightarrow> keepsA (keepEach E f neg xs acc)"
  by (induction xs arbitrary: acc) (auto intro!: keeps_rules)

lemma keepsA_heads [keeps_rules]: "(\<And>v. keepsA (sq v)) \<Longrightarrow> keepsA (headsOf sq cs fs rs)"
  by (induction cs arbitrary: fs rs) (auto intro!: keeps_rules)

lemma keepsA_filterLoop [keeps_rules]:
  "envKeeps E \<Longrightarrow> (\<And>v. keepsA (sq v)) \<Longrightarrow> keepsA (filterLoop E sq k f neg s)"
  by (induction k arbitrary: s) (auto simp: Let_def split: prod.split intro!: keeps_rules)

lemma keepsA_endSeq [keeps_rules]: "(\<And>v. keepsA (sq v)) \<Longrightarrow> keepsA (walkEndSeq sq w)"
  by (auto simp: walkEndSeq_def intro!: keeps_rules)

lemma keepsA_dropWhile [keeps_rules]:
  "envKeeps E \<Longrightarrow> (\<And>v. keepsA (sq v)) \<Longrightarrow> keepsA (dropWhileLoop E sq f k w)"
  by (induction k arbitrary: w) (auto intro!: keeps_rules)

lemma keepsA_rangeNumbers [keeps_rules]: "keepsA (rangeNumbers E up fin stp k x acc)"
  by (induction k arbitrary: x acc) (auto intro!: keeps_rules)

lemma keepsA_rangeChunk [keeps_rules]: "keepsA (rangeChunk E up x fin stp)"
  by (auto simp: rangeChunk_def split: option.split intro!: keeps_rules)

lemma keepsA_prepend [keeps_rules]: "keepsA (prependSeq s cs)"
  by (auto simp: prependSeq_def split: sval.split intro!: keeps_rules)

lemma keepsA_concatLoop [keeps_rules]: "(\<And>v. keepsA (sq v)) \<Longrightarrow> keepsA (concatLoop sq k s cs)"
  by (induction k arbitrary: s cs) (auto intro!: keeps_rules)

lemma keepsA_forEach [keeps_rules]:
  "envKeeps E \<Longrightarrow> (\<And>v. keepsA (sq v)) \<Longrightarrow> keepsA (forEach E sq n body stop xs acc)"
  by (induction xs arbitrary: acc) (auto intro!: keeps_rules)

lemma keepsA_forLoop [keeps_rules]:
  "envKeeps E \<Longrightarrow> (\<And>v. keepsA (sq v)) \<Longrightarrow> keepsA (forLoop E sq n k body stop inner s)"
  by (induction k arbitrary: s) (auto simp: Let_def split: prod.split intro!: keeps_rules)

lemma keepsA_distinctLoop [keeps_rules]: "(\<And>v. keepsA (sq v)) \<Longrightarrow> keepsA (distinctLoop E sq k seen s)"
  by (induction k arbitrary: seen s) (auto intro!: keeps_rules)

lemmas step_defs = stepMap1_def stepMapN_def stepFilter_def stepTake_def stepTakeWhile_def stepDrop_def
  stepDropWhile_def stepIterate_def stepIterateNext_def stepRepeat_def stepRepeatedly_def stepCycle_def
  stepRange_def stepRangeInf_def stepConcat_def stepPartition_def stepInterleave_def stepFor_def stepDistinct_def

lemma keepsA_runStep [keeps_rules]:
  assumes "envKeeps E" "\<And>v. keepsA (sq v)"
  shows "keepsA (runStep E sq n self k ops)"
  using assms
  by (cases k)
    (auto simp: runStep_def step_defs Let_def envKeeps_def [of E] split: prod.split option.split
      intro!: keeps_rules)

lemma keepsA_runThunk [keeps_rules]:
  assumes "envKeeps E" "\<And>v. keepsA (sq v)"
  shows "keepsA (runThunk E sq n self t)"
  using assms by (cases t) (auto simp: runThunk_def intro!: keeps_rules)

section \<open>Realisation\<close>

lemma keepsD:
  assumes "keeps \<sigma> \<sigma>'" "a < length (slots \<sigma>)" "\<And>t. slots \<sigma> ! a \<noteq> Unrealized t"
  shows "a < length (slots \<sigma>')" and "slots \<sigma>' ! a = slots \<sigma> ! a"
  using assms by (auto simp: keeps_def)

lemma keeps_set:
  assumes "keeps (setSlot a x \<sigma>) \<sigma>'" "slots \<sigma> ! a = Unrealized t"
  shows "keeps \<sigma> \<sigma>'"
  using assms by (auto simp: keeps_def setSlot_def) (metis nth_list_update_neq)

lemma keeps_update: "(\<And>b. b \<noteq> a \<Longrightarrow> slots \<sigma>' ! b = slots \<sigma> ! b) \<Longrightarrow> length (slots \<sigma>') = length (slots \<sigma>) \<Longrightarrow>
  slots \<sigma>0 ! a = Unrealized t \<Longrightarrow> keeps \<sigma>0 \<sigma> \<Longrightarrow> keeps \<sigma>0 \<sigma>'"
  by (auto simp: keeps_def) metis

text \<open>A claimed slot is the realiser's own until it publishes or gives the claim back.\<close>

lemma claimed_run:
  assumes "envKeeps E" "\<And>v. keepsA (sq v)" "a < length (slots \<sigma>)" "slots \<sigma> ! a = Unrealized t"
    and "runThunk E sq n (VLazy a) t ((setSlot a (Claimed t) \<sigma>)\<lparr>realizing := a # realizing \<sigma>\<rparr>) = (r, \<sigma>2)"
  shows "keeps \<sigma> \<sigma>2" "a < length (slots \<sigma>2)" "slots \<sigma>2 ! a = Claimed t"
proof -
  let ?\<sigma>1 = "(setSlot a (Claimed t) \<sigma>)\<lparr>realizing := a # realizing \<sigma>\<rparr>"
  have k: "keeps ?\<sigma>1 \<sigma>2"
    by (rule keepsA_run [OF keepsA_runThunk [OF assms(1,2)] assms(5)])
  have "a < length (slots ?\<sigma>1)" "slots ?\<sigma>1 ! a = Claimed t" using assms(3) by (simp_all add: setSlot_def)
  with keepsD [OF k] show "a < length (slots \<sigma>2)" "slots \<sigma>2 ! a = Claimed t" by auto
  from k have "keeps (setSlot a (Claimed t) \<sigma>) \<sigma>2" by (simp add: keeps_def)
  then show "keeps \<sigma> \<sigma>2" using assms(4) by (rule keeps_set)
qed

lemma keeps_claimed:
  assumes "envKeeps E" "\<And>v. keepsA (sq v)" "a < length (slots \<sigma>)" "slots \<sigma> ! a = Unrealized t"
  shows "keeps \<sigma> (snd (realizeClaimed E sq n a t \<sigma>))"
proof -
  let ?\<sigma>1 = "(setSlot a (Claimed t) \<sigma>)\<lparr>realizing := a # realizing \<sigma>\<rparr>"
  obtain r \<sigma>2 where run: "runThunk E sq n (VLazy a) t ?\<sigma>1 = (r, \<sigma>2)" by fastforce
  note c = claimed_run [OF assms run]
  show ?thesis
  proof (cases r)
    case (Got s)
    have "keeps \<sigma> (setSlot a (Realized s) (popRealizing \<sigma>2))"
      by (rule keeps_update [of a _ \<sigma>2 \<sigma> t]) (use assms(4) c(1) in \<open>auto simp: setSlot_def popRealizing_def\<close>)
    with run c Got show ?thesis
      by (simp add: realizeClaimed_def publishLazy_def popRealizing_def)
  next
    case (Threw e)
    have "keeps \<sigma> (setSlot a (Unrealized t) (popRealizing \<sigma>2))"
      by (rule keeps_update [of a _ \<sigma>2 \<sigma> t]) (use assms(4) c(1) in \<open>auto simp: setSlot_def popRealizing_def\<close>)
    with run c Threw show ?thesis
      by (simp add: realizeClaimed_def unclaimLazy_def popRealizing_def)
  next
    case OutOfTime
    with run c show ?thesis by (simp add: realizeClaimed_def)
  qed
qed

lemma keeps_realize:
  assumes "envKeeps E"
  shows "keepsA (realizeLazy E n a)"
proof (induction n arbitrary: a)
  case 0
  then show ?case by (simp add: keepsA_def)
next
  case (Suc n)
  have sq: "keepsA (seqOf E n v)" for v using Suc by (rule keepsA_seqWith)
  show ?case unfolding keepsA_def
  proof
    fix \<sigma>
    show "keeps \<sigma> (snd (realizeLazy E (Suc n) a \<sigma>))"
    proof (cases "length (slots \<sigma>) \<le> a")
      case False
      then have a: "a < length (slots \<sigma>)" by simp
      show ?thesis
      proof (cases "slots \<sigma> ! a")
        case (Unrealized t)
        show ?thesis
        proof (cases "thunkIsPure E t")
          case True
          obtain r \<sigma>1 where run: "runThunk E (seqOf E n) n (VLazy a) t \<sigma> = (r, \<sigma>1)" by fastforce
          have k: "keeps \<sigma> \<sigma>1" by (rule keepsA_run [OF keepsA_runThunk [OF assms sq] run])
          show ?thesis
          proof (cases r)
            case (Got s)
            show ?thesis
            proof (cases "\<exists>s'. slots \<sigma>1 ! a = Realized s'")
              case True
              then have "keeps \<sigma> (snd (realizeLazy E n a \<sigma>1))"
                using keeps_trans [OF k] Suc by (auto simp: keepsA_def)
              with True False Unrealized \<open>thunkIsPure E t\<close> run Got show ?thesis
                by (auto simp: publishLazy_def)
            next
              case nr: False
              have "keeps \<sigma> (setSlot a (Realized s) \<sigma>1)"
                by (rule keeps_update [of a _ \<sigma>1 \<sigma> t]) (use Unrealized k in \<open>auto simp: setSlot_def\<close>)
              with nr False Unrealized \<open>thunkIsPure E t\<close> run Got show ?thesis
                by (cases "slots \<sigma>1 ! a") (auto simp: publishLazy_def)
            qed
          qed (use k False Unrealized True run in simp_all)
        next
          case np: False
          with False Unrealized keeps_claimed [OF assms sq a Unrealized] show ?thesis by simp
        qed
      next
        case (Claimed t)
        with False Suc show ?thesis by (auto simp: keepsA_def throws_def)
      qed (use False in simp)
    qed (simp add: throws_def)
  qed
qed

lemma realize_realized:
  assumes "envKeeps E" "realizeLazy E n a \<sigma> = (Got s, \<sigma>')"
  shows "a < length (slots \<sigma>') \<and> slots \<sigma>' ! a = Realized s"
  using assms(2)
proof (induction n arbitrary: \<sigma>)
  case (Suc n)
  have sq: "keepsA (seqOf E n v)" for v using keeps_realize [OF assms(1)] by (rule keepsA_seqWith)
  have a: "a < length (slots \<sigma>)"
    using Suc.prems by (cases "length (slots \<sigma>) \<le> a") (auto simp: throws_def)
  show ?case
  proof (cases "slots \<sigma> ! a")
    case (Unrealized t)
    show ?thesis
    proof (cases "thunkIsPure E t")
      case True
      obtain r \<sigma>1 where run: "runThunk E (seqOf E n) n (VLazy a) t \<sigma> = (r, \<sigma>1)" by fastforce
      have "keeps \<sigma> \<sigma>1" by (rule keepsA_run [OF keepsA_runThunk [OF assms(1) sq] run])
      then have a1: "a < length (slots \<sigma>1)" using a by (simp add: keeps_def)
      from True Unrealized a run Suc.prems obtain s1 where r: "r = Got s1" by (cases r) auto
      show ?thesis
        using Suc.prems Suc.IH [of \<sigma>1] a a1 Unrealized True run r
        by (auto simp: publishLazy_def setSlot_def split: slot.splits)
    next
      case False
      let ?\<sigma>1 = "(setSlot a (Claimed t) \<sigma>)\<lparr>realizing := a # realizing \<sigma>\<rparr>"
      obtain r \<sigma>2 where run: "runThunk E (seqOf E n) n (VLazy a) t ?\<sigma>1 = (r, \<sigma>2)" by fastforce
      note c = claimed_run [OF assms(1) sq a Unrealized run]
      show ?thesis
        using Suc.prems a Unrealized False run c
        by (cases r) (auto simp: realizeClaimed_def publishLazy_def popRealizing_def setSlot_def)
    qed
  next
    case (Claimed t)
    with a Suc show ?thesis by (auto simp: throws_def split: if_splits)
  next
    case (Realized v)
    with a Suc.prems show ?thesis by simp
  qed
qed simp

lemma raised_unrealized:
  assumes "envKeeps E" "a < length (slots \<sigma>)" "slots \<sigma> ! a = Unrealized t" "\<not> thunkIsPure E t"
    and "realizeLazy E n a \<sigma> = (Threw e, \<sigma>')"
  shows "slots \<sigma>' ! a = Unrealized t"
proof (cases n)
  case (Suc m)
  have sq: "keepsA (seqOf E m v)" for v using keeps_realize [OF assms(1)] by (rule keepsA_seqWith)
  let ?\<sigma>1 = "(setSlot a (Claimed t) \<sigma>)\<lparr>realizing := a # realizing \<sigma>\<rparr>"
  obtain r \<sigma>2 where run: "runThunk E (seqOf E m) m (VLazy a) t ?\<sigma>1 = (r, \<sigma>2)" by fastforce
  note c = claimed_run [OF assms(1) sq assms(2,3) run]
  show ?thesis
    using assms(2-5) Suc run c
    by (cases r) (auto simp: realizeClaimed_def unclaimLazy_def publishLazy_def popRealizing_def setSlot_def)
qed (use assms(5) in simp)

end
