(* ===== verification/LazyPrograms.thy ===== *)
theory LazyPrograms
  imports LazyKeeps
begin

text \<open>
  Clojure functions as programs: whatever a function does to lazy seqs, it does by reading a sequence, making a lazy seq,
  asking whether one is realised, calling functions, changing the rest of the world, catching and raising.
  An environment whose functions and foreign steps are any such programs, calling each other to a given depth,
  keeps the slots of the lazy seqs, so the laws of \<^verbatim>\<open>LazyKeeps\<close> hold of it with no condition.
\<close>

datatype ('o, 'w) program =
  Answer "'o sval"
| Raise "'o lexn"
| ReadSeq "'o sval" "'o sval \<Rightarrow> ('o, 'w) program"
| Delay "'o sval" "'o sval \<Rightarrow> ('o, 'w) program"
| AskRealized nat "bool \<Rightarrow> ('o, 'w) program"
| CallThen "'o sval" "'o sval list" "'o sval \<Rightarrow> ('o, 'w) program"
| TryThen "('o, 'w) program" "'o lexn \<Rightarrow> ('o, 'w) program" "'o sval \<Rightarrow> ('o, 'w) program"
| World "'w \<Rightarrow> 'w" "'w \<Rightarrow> ('o, 'w) program"

primrec runProgram :: "('o, 'w) lenv \<Rightarrow> nat \<Rightarrow> ('o, 'w) program \<Rightarrow> ('o, 'w, 'o sval) lact" where
  "runProgram E n (Answer v) = got v"
| "runProgram E n (Raise e) = (\<lambda>\<sigma>. (Threw e, \<sigma>))"
| "runProgram E n (ReadSeq v k) = andThen (seqOf E n v) (\<lambda>s. runProgram E n (k s))"
| "runProgram E n (Delay t k) = andThen (newLazySeq t) (\<lambda>s. runProgram E n (k s))"
| "runProgram E n (AskRealized a k) = (\<lambda>\<sigma>. runProgram E n (k (lazyIsRealized a \<sigma>)) \<sigma>)"
| "runProgram E n (CallThen f args k) = andThen (callFn E f args) (\<lambda>r. runProgram E n (k r))"
| "runProgram E n (TryThen p h k) = (\<lambda>\<sigma>.
     case runProgram E n p \<sigma> of
       (Got v, \<sigma>') \<Rightarrow> runProgram E n (k v) \<sigma>'
     | (Threw e, \<sigma>') \<Rightarrow> runProgram E n (h e) \<sigma>'
     | (OutOfTime, \<sigma>') \<Rightarrow> (OutOfTime, \<sigma>'))"
| "runProgram E n (World f k) = (\<lambda>\<sigma>. runProgram E n (k (outside \<sigma>)) (\<sigma>\<lparr>outside := f (outside \<sigma>)\<rparr>))"

text \<open>The functions and foreign steps of \<open>P\<close>, with \<open>d\<close> nested calls.\<close>

record ('o, 'w) programs =
  bodyOf :: "'o sval \<Rightarrow> 'o sval list \<Rightarrow> ('o, 'w) program"
  stepOf :: "StepKind \<Rightarrow> 'o sval \<Rightarrow> 'o sval list \<Rightarrow> ('o, 'w) program"

primrec programEnv :: "('o, 'w) lenv \<Rightarrow> ('o, 'w) programs \<Rightarrow> nat \<Rightarrow> ('o, 'w) lenv" where
  "programEnv B P 0 = B\<lparr>callFn := \<lambda>f args. tired, foreignStep := \<lambda>k self ops. tired\<rparr>"
| "programEnv B P (Suc d) =
     B\<lparr>callFn := \<lambda>f args. runProgram (programEnv B P d) d (bodyOf P f args),
       foreignStep := \<lambda>k self ops. runProgram (programEnv B P d) d (stepOf P k self ops)\<rparr>"

lemma keepsA_fields: "keeps (\<sigma>\<lparr>outside := w\<rparr>) \<sigma>' \<longleftrightarrow> keeps \<sigma> \<sigma>'"
  by (simp add: keeps_def)

lemma program_keeps:
  assumes "envKeeps E"
  shows "keepsA (runProgram E n p)"
proof (induction p)
  case (Raise e)
  then show ?case by (simp add: keepsA_def)
next
  case (TryThen p h k)
  show ?case unfolding keepsA_def
  proof
    fix \<sigma>
    obtain r \<sigma>' where r: "runProgram E n p \<sigma> = (r, \<sigma>')" by fastforce
    have k: "keeps \<sigma> \<sigma>'" by (rule keepsA_run [OF TryThen(1) r])
    have "keepsA (runProgram E n (k v))" "keepsA (runProgram E n (h e))" for v e using TryThen(2,3) by blast+
    then show "keeps \<sigma> (snd (runProgram E n (TryThen p h k) \<sigma>))"
      using keeps_trans [OF k] k r by (cases r) (simp_all add: keepsA_def)
  qed
next
  case (AskRealized a k)
  have "keepsA (runProgram E n (k b))" for b using AskRealized by blast
  then show ?case by (simp add: keepsA_def)
next
  case (World f k)
  have "keepsA (runProgram E n (k w))" for w using World by blast
  then show ?case by (simp add: keepsA_def) (metis keepsA_fields)
qed (use keeps_realize [OF assms] in \<open>auto intro!: keeps_rules simp: assms\<close>)

theorem programs_keep: "envKeeps (programEnv B P d)"
proof (induction d)
  case (Suc d)
  then show ?case by (simp add: envKeeps_def program_keeps)
qed (simp add: envKeeps_def keepsA_tired)

end
