(* ===== verification/LazyProps.thy ===== *)
theory LazyProps
  imports LazyReads LazyPrograms
begin

text \<open>
  The properties of the lazy sequences. Each comes with a witness over \<open>sampleEnv\<close>, whose functions are an
  increment, a test for odd numbers, a sum of two numbers and one that raises.
\<close>

declare realizeLazy.simps [simp del]

section \<open>A sample environment\<close>

definition sampleInc :: "nat sval \<Rightarrow> nat sval" where
  "sampleInc v = (case v of VInt i \<Rightarrow> VInt (i + 1) | _ \<Rightarrow> v)"

definition sampleOdd :: "nat sval \<Rightarrow> nat sval" where
  "sampleOdd v = (case v of VInt i \<Rightarrow> if i mod 2 = 1 then VTrue else VFalse | _ \<Rightarrow> VFalse)"

definition sampleSum :: "nat sval \<Rightarrow> nat sval \<Rightarrow> nat sval" where
  "sampleSum v w = (case (v, w) of (VInt i, VInt j) \<Rightarrow> VInt (i + j) | _ \<Rightarrow> v)"

definition sampleCall :: "nat sval \<Rightarrow> nat sval list \<Rightarrow> (nat, unit, nat sval) lact" where
  "sampleCall f args \<sigma> =
     (if f = VObj 0 \<and> length args = 1 then (Got (sampleInc (hd args)), \<sigma>)
      else if f = VObj 1 \<and> length args = 1 then (Got (sampleOdd (hd args)), \<sigma>)
      else if f = VObj 2 \<and> length args = 2 then (Got (sampleSum (hd args) (hd (tl args))), \<sigma>)
      else throws ''RuntimeException'' ''boom'' \<sigma>)"

definition sampleEnv :: "(nat, unit) lenv" where
  "sampleEnv =
     \<lparr>callFn = sampleCall, itemsOf = (\<lambda>_. None), isDouble = (\<lambda>_. False), ceilLong = (\<lambda>_. 0), bigLong = (\<lambda>i. i),
      cmpDouble = (\<lambda>_ _. 0), addDouble = (\<lambda>v _. v), typeName = (\<lambda>_. ''value''), forStop = VObj 9,
      emptySet = VVec [], setHas = (\<lambda>s x. case s of VVec xs \<Rightarrow> x \<in> set xs | _ \<Rightarrow> False),
      setPut = (\<lambda>s x. case s of VVec xs \<Rightarrow> VVec (x # xs) | _ \<Rightarrow> VVec [x]),
      conjObj = (\<lambda>_ _. got VNil), nthObj = (\<lambda>_ _ _. got VNil), printVal = (\<lambda>_. ''value''),
      foreignStep = (\<lambda>_ _ _. got VNil), foreignPure = (\<lambda>_. True)\<rparr>"

lemma sample_pure:
  "pureOn sampleEnv (VObj 0) sampleInc X" "pureOn sampleEnv (VObj 1) sampleOdd X"
  "pureOn2 sampleEnv (VObj 2) sampleSum"
  by (simp_all add: pureOn_def pureOn2_def sampleEnv_def sampleCall_def)

text \<open>One lazy seq, the range from 0 to 3, and a store with nothing in it.\<close>

definition sampleStore :: "(nat, unit) lstate" where
  "sampleStore = \<lparr>slots = [Unrealized (VStep StRange [VInt 0, VInt 3, VInt 1])], realizing = [], outside = ()\<rparr>"

definition emptyStore :: "(nat, unit) lstate" where
  "emptyStore = \<lparr>slots = [], realizing = [], outside = ()\<rparr>"

definition sampleTyping :: "nat lty" where
  "sampleTyping = [((rangeList 0 3 1, True), 0)]"

lemma sample_store: "storeOk sampleEnv sampleTyping sampleStore" "free r sampleTyping sampleStore"
  by (auto simp: storeOk_def sampleTyping_def sampleStore_def free_def claims_def intro: stepOk.ok_range)

lemma sample_range: "rangeList 0 3 1 = [VInt 0, VInt 1, VInt 2]"
  by (simp add: rangeList_def rangeLen_def upt_rec numeral_eq_Suc)

lemma sample_gives: "gives sampleEnv sampleTyping 0 (VLazy 0) [VInt 0, VInt 1, VInt 2] True"
  by (simp add: sampleTyping_def sample_range)

section \<open>Realisation\<close>

text \<open>C9. A lazy seq whose thunk is well typed is realised, with enough fuel, to a seq that holds the elements promised
  of it, and the store it leaves is well typed for every lazy seq there was and there is new.\<close>

theorem realizes_as_promised:
  assumes "storeOk E T \<sigma>" "free (Suc (level T a)) T \<sigma>" "a < length T" "elts T a \<noteq> [] \<or> ends T a"
  shows "\<exists>N s T' \<sigma>'. (\<forall>n\<ge>N. realizeLazy E n a \<sigma> = (Got s, \<sigma>')) \<and> prefix T T' \<and> storeOk E T' \<sigma>' \<and>
    isSeqVal s \<and> gives E T' (level T a) s (elts T a) (ends T a)"
proof -
  from tripleD [OF realize_at [OF seqSound_all assms(3) refl assms(4)] assms(1,2)] obtain s T' \<sigma>'
    where "conv (\<lambda>n. realizeLazy E n a \<sigma>) (Got s, \<sigma>')" "prefix T T'" "storeOk E T' \<sigma>'"
      "answers E (level T a) (elts T a) (ends T a) s T'" by (rule runsToE)
  then show ?thesis unfolding conv_def answers_def by blast
qed

theorem realizes_as_promised_witness:
  "\<exists>N s T' \<sigma>'. (\<forall>n\<ge>N. realizeLazy sampleEnv n 0 sampleStore = (Got s, \<sigma>')) \<and> prefix sampleTyping T' \<and>
    storeOk sampleEnv T' \<sigma>' \<and> isSeqVal s \<and> gives sampleEnv T' 0 s [VInt 0, VInt 1, VInt 2] True"
  using realizes_as_promised [OF sample_store(1) sample_store(2), of 0]
  by (simp add: sampleTyping_def sample_range)

text \<open>C17. A lazy seq is computed once: after a realisation has answered, whatever program runs (it may read any sequences,
  this one among them, make lazy seqs, call functions, which are programs too, to any depth, raise and
  catch), a read of it answers the same seq and changes nothing.\<close>

theorem realized_once:
  assumes "realizeLazy (programEnv B P d) n a \<sigma> = (Got s, \<sigma>1)" "runProgram (programEnv B P d) m p \<sigma>1 = (r, \<sigma>2)"
  shows "realizeLazy (programEnv B P d) (Suc k) a \<sigma>2 = (Got s, \<sigma>2)"
proof -
  from realize_realized [OF programs_keep assms(1)] have "a < length (slots \<sigma>1)" "slots \<sigma>1 ! a = Realized s" by auto
  with keepsD [OF keepsA_run [OF program_keeps [OF programs_keep] assms(2)]]
  have "a < length (slots \<sigma>2)" "slots \<sigma>2 ! a = Realized s" by auto
  then show ?thesis by (simp add: realizeLazy.simps)
qed

text \<open>Three lazy seqs, the last with a function that reads the second and then raises; and a program that catches what the
  third raises and reads the first again.\<close>

definition samplePrograms :: "(nat, unit) programs" where
  "samplePrograms =
     \<lparr>bodyOf = (\<lambda>f args. ReadSeq (VLazy 1) (\<lambda>s. Raise (Classed ''RuntimeException'' ''boom''))),
      stepOf = (\<lambda>k self ops. Answer VNil)\<rparr>"

definition sampleSlots :: "(nat, unit) lstate" where
  "sampleSlots =
     \<lparr>slots = [Unrealized (VStep StRange [VInt 0, VInt 3, VInt 1]), Unrealized (VStep StRange [VInt 5, VInt 6, VInt 1]),
        Unrealized (VObj 3)], realizing = [], outside = ()\<rparr>"

definition sampleProgram :: "(nat, unit) program" where
  "sampleProgram = TryThen (ReadSeq (VLazy 2) Answer) (\<lambda>e. ReadSeq (VLazy 0) Answer) Answer"

abbreviation "sampleMachine \<equiv> programEnv sampleEnv samplePrograms 2"
abbreviation "rangeSlot a b c \<equiv> Realized (VChunk [VInt a, VInt b, VInt c] 0 3 VNil True)"
abbreviation "oneSlot a \<equiv> Realized (VChunk [VInt a] 0 1 VNil True)"

lemma sample_realize:
  "realizeLazy sampleMachine 3 0 sampleSlots = (Got (VChunk [VInt 0, VInt 1, VInt 2] 0 3 VNil True),
     sampleSlots\<lparr>slots := (slots sampleSlots)[0 := rangeSlot 0 1 2]\<rparr>)"
  by code_simp

lemma sample_program:
  "runProgram sampleMachine 3 sampleProgram (sampleSlots\<lparr>slots := (slots sampleSlots)[0 := rangeSlot 0 1 2]\<rparr>) =
     (Got (VChunk [VInt 0, VInt 1, VInt 2] 0 3 VNil True),
      sampleSlots\<lparr>slots := (slots sampleSlots)[0 := rangeSlot 0 1 2, 1 := oneSlot 5]\<rparr>)"
  by code_simp

theorem realized_once_witness:
  "realizeLazy sampleMachine 1 0 (sampleSlots\<lparr>slots := (slots sampleSlots)[0 := rangeSlot 0 1 2, 1 := oneSlot 5]\<rparr>) =
     (Got (VChunk [VInt 0, VInt 1, VInt 2] 0 3 VNil True),
      sampleSlots\<lparr>slots := (slots sampleSlots)[0 := rangeSlot 0 1 2, 1 := oneSlot 5]\<rparr>)"
  using realized_once [OF sample_realize sample_program, of 0] by simp

text \<open>C32. A thunk that may run Clojure code and raises, whatever its functions did before, leaves its lazy seq
  unrealised, with the same thunk and no claim on it, so that the next reader claims it and runs it again. (The thunks of
  the native steps that run no code are never claimed.)\<close>

theorem raise_leaves_unrealized:
  assumes "a < length (slots \<sigma>)" "slots \<sigma> ! a = Unrealized t" "\<not> thunkIsPure (programEnv B P d) t"
    and "realizeLazy (programEnv B P d) n a \<sigma> = (Threw e, \<sigma>')"
  shows "slots \<sigma>' ! a = Unrealized t \<and>
    realizeLazy (programEnv B P d) (Suc m) a \<sigma>' =
      realizeClaimed (programEnv B P d) (seqOf (programEnv B P d) m) m a t \<sigma>'"
proof -
  have "slots \<sigma>' ! a = Unrealized t" by (rule raised_unrealized [OF programs_keep assms])
  moreover have "length (slots \<sigma>) \<le> length (slots \<sigma>')"
    using keepsA_run [OF keeps_realize [OF programs_keep] assms(4)] by (simp add: keeps_def)
  ultimately show ?thesis using assms(1,3) by (simp add: realizeLazy.simps)
qed

lemma sample_raise:
  "realizeLazy sampleMachine 3 2 sampleSlots = (Threw (Classed ''RuntimeException'' ''boom''),
     sampleSlots\<lparr>slots := (slots sampleSlots)[1 := oneSlot 5]\<rparr>)"
  by code_simp

theorem raise_leaves_unrealized_witness:
  "realizeLazy sampleMachine 3 2 sampleSlots = (Threw (Classed ''RuntimeException'' ''boom''),
     sampleSlots\<lparr>slots := (slots sampleSlots)[1 := oneSlot 5]\<rparr>) \<and>
   slots (sampleSlots\<lparr>slots := (slots sampleSlots)[1 := oneSlot 5]\<rparr>) ! 2 = Unrealized (VObj 3)"
  using raise_leaves_unrealized [OF _ _ _ sample_raise, of "VObj 3" 0] sample_raise
  by (simp add: sampleSlots_def thunkIsPure_def)

section \<open>Reading\<close>

text \<open>C18. \<^verbatim>\<open>count\<close>, \<^verbatim>\<open>first\<close> and \<^verbatim>\<open>nth\<close> of a value that promises \<open>ys\<close> answer their number, the first and the one at each
  index, whatever holds them: a vector, a list, conses, chunks, a lazy seq or a mix of these.\<close>

theorem reads_promised:
  assumes "storeOk E T \<sigma>" "free (Suc q) T \<sigma>" "gives E T q v ys True" "\<forall>x. v \<noteq> VObj x"
    and "i < length ys" "int i < 2 ^ 63"
  shows "\<exists>N \<sigma>1 \<sigma>2 \<sigma>3. \<forall>n\<ge>N. prim_count E n [v] \<sigma> = (Got (VInt (int (length ys))), \<sigma>1) \<and>
    prim_first E n [v] \<sigma> = (Got (hd ys), \<sigma>2) \<and> prim_nth E n [v, VInt (int i)] \<sigma> = (Got (ys ! i), \<sigma>3)"
proof -
  from assms(5) obtain x xs where ys: "ys = x # xs" by (cases ys) auto
  obtain N1 \<sigma>1 where 1: "\<And>n. N1 \<le> n \<Longrightarrow> prim_count E n [v] \<sigma> = (Got (VInt (int (length ys))), \<sigma>1)"
    using triple_end [OF count_ok [OF assms(3)] assms(1,2)] by blast
  obtain N2 \<sigma>2 where 2: "\<And>n. N2 \<le> n \<Longrightarrow> prim_first E n [v] \<sigma> = (Got x, \<sigma>2)"
    using triple_end [OF first_ok [OF assms(3) [unfolded ys]] assms(1,2)] by blast
  obtain N3 \<sigma>3 where 3: "\<And>n. N3 \<le> n \<Longrightarrow> nthOf E n v (VInt (int i)) None \<sigma> = (Got (ys ! i), \<sigma>3)"
    using triple_end [OF nth_ok [OF assms(3,5,6,4)] assms(1,2)] by blast
  show ?thesis
    by (intro exI [of _ "N1 + N2 + N3"] exI [of _ \<sigma>1] exI [of _ \<sigma>2] exI [of _ \<sigma>3]) (simp add: 1 2 3 ys del: prim_count.simps prim_first.simps)
qed

theorem reads_promised_witness:
  "\<exists>N \<sigma>1 \<sigma>2 \<sigma>3. \<forall>n\<ge>N. prim_count sampleEnv n [VLazy 0] sampleStore = (Got (VInt 3), \<sigma>1) \<and>
    prim_first sampleEnv n [VLazy 0] sampleStore = (Got (VInt 0), \<sigma>2) \<and>
    prim_nth sampleEnv n [VLazy 0, VInt 2] sampleStore = (Got (VInt 2), \<sigma>3)"
  using reads_promised [OF sample_store sample_gives, of 2] by simp

text \<open>C33. \<^verbatim>\<open>reduce\<close> with an initial value is the left fold of the promised elements, whatever holds them: its loops along
  the cells of a list, along a walk and over a vector compute the same.\<close>

theorem reduce_folds:
  assumes "storeOk E T \<sigma>" "free (Suc q) T \<sigma>" "gives E T q v ys True" "pureOn2 E f g"
  shows "\<exists>N \<sigma>'. \<forall>n\<ge>N. prim_reduce E n [f, a, v] \<sigma> = (Got (foldl g a ys), \<sigma>')"
  by (rule triple_end [OF reduce_ok [OF assms(3,4)] assms(1,2)])

theorem reduce_folds_witness:
  "\<exists>N \<sigma>'. \<forall>n\<ge>N. prim_reduce sampleEnv n [VObj 2, VInt 10, VLazy 0] sampleStore = (Got (VInt 13), \<sigma>')"
  using reduce_folds [OF sample_store sample_gives sample_pure(3), of "VInt 10"] by (simp add: sampleSum_def)

lemma list_nth_walk:
  "wnode w = Some (VList ys) \<Longrightarrow> wpos w < wend w \<Longrightarrow> wend w = listHeadCount ys \<Longrightarrow> wpos w + j < length ys \<Longrightarrow>
   nthLoop E sq i d j k w = got (ys ! (wpos w + j))"
proof (induction j arbitrary: w ys k)
  case 0
  then show ?case by (simp add: walkDone_def walkFirst_def)
next
  case (Suc j)
  show ?case
  proof (cases "wpos w + 1 < wend w")
    case True
    with Suc.prems Suc.IH [of "w\<lparr>wpos := wpos w + 1\<rparr>" ys "k + 1"] show ?thesis
      by (simp add: walkDone_def walkAdvance_def)
  next
    case False
    let ?ys = "drop (wend w) ys"
    have e: "wend w = wpos w + 1" using False Suc.prems(2) by simp
    have ne: "?ys \<noteq> []" using Suc.prems(4) e by simp
    have "walkAdvance sq w = got (walkLoad (VList ?ys))"
      using Suc.prems(1) False ne by (simp add: walkAdvance_def walkTo_def walkStart_def)
    moreover have "nthLoop E sq i d j (k + 1) (walkLoad (VList ?ys)) = got (?ys ! (0 + j))"
      using Suc.prems(4) e Suc.IH [of "walkLoad (VList ?ys)" ?ys "k + 1"]
      by (simp add: walkLoad_def listHeadCount_def)
    ultimately show ?thesis using Suc.prems(1,4) e by (simp add: walkDone_def add.assoc)
  qed
qed

lemma fast_nth:
  assumes "fastIndexed coll i = Some r"
  shows "nthOf E n coll i d = got r"
proof -
  obtain k where k: "i = VInt k" "small_range k" "0 \<le> k" using assms by (cases i; cases coll) (auto simp: fastIndexed_def split: if_splits)
  then have idx: "indexArg E ''nth'' i = got k" by (auto simp: indexArg_def small_range_def)
  from assms k consider xs where "coll = VVec xs" "nat k < length xs" "r = xs ! nat k"
    | xs where "coll = VList xs" "nat k < length xs" "r = xs ! nat k"
    by (cases coll) (auto simp: fastIndexed_def split: if_splits)
  then show ?thesis
  proof cases
    case (1 xs)
    moreover have "k < int (length xs)" using 1(2) k(3) by linarith
    ultimately show ?thesis using k idx by (simp add: nthOf_def)
  next
    case (2 xs)
    then have "nthLoop E (seqOf E n) i d (nat k) 0 (walkLoad (VList xs)) = got r"
      using list_nth_walk [of "walkLoad (VList xs)" xs "nat k"] by (simp add: walkLoad_def listHeadCount_def)
    moreover have "xs \<noteq> []" using 2(2) by auto
    ultimately show ?thesis using 2 k idx by (simp add: nthOf_def walkStart_def)
  qed
qed

lemma fast_seq: "trySeq v = Some r \<Longrightarrow> seqOf E n v = got r"
  by (cases v) (auto simp: seqWith_def)

lemma fast_small: "smallResult k = Some r \<Longrightarrow> r = VInt k"
  by (simp add: smallResult_def split: if_splits)

lemma small_int: "isSmallInt v \<Longrightarrow> v = VInt (intOf v)"
  by (cases v) auto

lemma fast_unary:
  assumes "fastUnary fn v may = Some r"
  shows "callPrim E n fn [v] = got r"
proof (cases fn)
  case PInc
  with assms have "isSmallInt v" "r = VInt (intOf v + 1)" by (auto simp: fastUnary_def split: if_splits dest: fast_small)
  with PInc show ?thesis by (cases v) (auto simp: callPrim_def prim_inc_def addNumbers_def)
next
  case PDec
  with assms have "isSmallInt v" "r = VInt (intOf v - 1)" by (auto simp: fastUnary_def split: if_splits dest: fast_small)
  with PDec show ?thesis by (cases v) (auto simp: callPrim_def prim_dec_def addNumbers_def)
next
  case PSeq
  with assms show ?thesis by (auto simp: fastUnary_def callPrim_def fast_seq split: if_splits)
next
  case PCount
  with assms show ?thesis by (cases v) (auto simp: fastUnary_def callPrim_def asSeq_def split: if_splits)
qed (use assms in \<open>auto simp: fastUnary_def callPrim_def split: if_splits\<close>)

lemma fast_binary:
  assumes "fastBinary fn a b may = Some r"
  shows "callPrim E n fn [a, b] = got r"
proof (cases fn)
  case PNth
  with assms show ?thesis by (simp add: fastBinary_def callPrim_def fast_nth)
next
  case PPlus
  with assms have "isSmallInt a" "isSmallInt b" "r = VInt (intOf a + intOf b)"
    by (auto simp: fastBinary_def split: if_splits dest: fast_small)
  with PPlus show ?thesis by (cases a; cases b) (auto simp: callPrim_def prim_plus_def addNumbers_def)
next
  case PConj
  with assms show ?thesis by (cases a) (auto simp: fastBinary_def callPrim_def split: if_splits)
qed (use assms in \<open>auto simp: fastBinary_def callPrim_def split: if_splits\<close>)

text \<open>C20. The direct calls of the virtual machine agree with the functions they stand for: when \<^verbatim>\<open>fastPrimitiveCall\<close>
  answers a value, a call of the primitive with these arguments answers the same, and changes nothing.\<close>

theorem fast_call_agrees:
  assumes "fastPrimitiveCall fn args mayAllocate = Some r"
  shows "callPrim E n fn args \<sigma> = (Got r, \<sigma>)"
proof -
  from assms consider v where "args = [v]" | a b where "args = [a, b]"
    by (cases "(fn, args, mayAllocate)" rule: fastPrimitiveCall.cases) auto
  then have "callPrim E n fn args = got r" using assms by cases (auto simp: fast_unary fast_binary)
  then show ?thesis by (simp add: got_def)
qed

theorem fast_call_agrees_witness:
  "callPrim sampleEnv 0 PNth [VList [VInt 1, VInt 2, VInt 3, VInt 4, VInt 5, VInt 6], VInt 5] emptyStore = (Got (VInt 6), emptyStore)"
  by (rule fast_call_agrees [where mayAllocate = False]) (simp add: fastBinary_def fastIndexed_def small_range_def)

section \<open>Pipelines\<close>

lemma asSeq_lazy: "gives E T q (VLazy a) xs True \<Longrightarrow> triple E (Suc q) T (\<lambda>n. asSeq E n (VLazy a)) (\<lambda>r _. r = xs)"
  using seqToList_ok [OF seqSound_all lessI] by (simp add: asSeq_def del: gives.simps)

text \<open>C21. \<^verbatim>\<open>range\<close> over integers, read to its end, is the arithmetic progression, on the path of small integers
  and on the one of wide ones alike.\<close>

theorem range_reads:
  assumes "seqsOk \<sigma>" "d \<noteq> 0"
  shows "\<exists>N \<sigma>'. \<forall>n\<ge>N. andThen (prim_range E [VInt i, VInt j, VInt d]) (asSeq E n) \<sigma> = (Got (rangeList i j d), \<sigma>')"
proof -
  have *: "triple E 1 T (\<lambda>n. andThen (lazyStep StRange [VInt i, VInt j, VInt d]) (asSeq E n)) (\<lambda>r _. r = rangeList i j d)" for T
  proof (rule triple_bind)
    show "triple E 1 T (\<lambda>n. lazyStep StRange [VInt i, VInt j, VInt d]) (\<lambda>t T'. gives E T' 0 t (rangeList i j d) True \<and> (\<exists>a. t = VLazy a))"
      using assms(2) unfolding lazyStep_def by (intro triple_new) (auto intro: stepOk.ok_range)
    fix t T' assume "gives E T' 0 t (rangeList i j d) True \<and> (\<exists>a. t = VLazy a)"
    then show "triple E 1 T' (\<lambda>n. asSeq E n t) (\<lambda>r _. r = rangeList i j d)"
      using asSeq_lazy [of E T' 0] by auto
  qed
  have "prim_range E [VInt i, VInt j, VInt d] = lazyStep StRange [VInt i, VInt j, VInt d]"
    using assms(2) by (simp add: prim_range_def rangeOf_def requireNumber_def numberCompare_def)
  then show ?thesis
    using triple_end [OF * storeOk_blank(1) [OF assms(1)] storeOk_blank(2) [OF assms(1)]] by simp
qed

theorem range_reads_witness:
  "\<exists>N \<sigma>'. \<forall>n\<ge>N. andThen (prim_range sampleEnv [VInt 0, VInt 3, VInt 1]) (asSeq sampleEnv n) emptyStore =
     (Got [VInt 0, VInt 1, VInt 2], \<sigma>')"
  using range_reads [of emptyStore 1 sampleEnv 0 3] by (simp add: seqsOk_def emptyStore_def sample_range)

definition pipeline ::
    "('o, 'w) lenv \<Rightarrow> nat \<Rightarrow> 'o sval \<Rightarrow> 'o sval \<Rightarrow> 'o sval \<Rightarrow> 'o sval \<Rightarrow> 'o sval \<Rightarrow> ('o, 'w, 'o sval list) lact" where
  "pipeline E k n p f h x =
     andThen (prim_iterate [h, x]) (\<lambda>s1. andThen (prim_map [f, s1]) (\<lambda>s2. andThen (prim_filter [p, s2]) (\<lambda>s3.
       andThen (prim_take E [n, s3]) (asSeq E k))))"

lemma filter_step: "q < l \<Longrightarrow> gives E T q b ys False \<Longrightarrow> pureOn E f g UNIV \<Longrightarrow>
  stepOk E T l StFilter [f, b, VFalse] (filter (truthy \<circ> g) ys) False"
  using stepOk.ok_filter [of q l E T b ys False f g VFalse] by (simp add: comp_def)

lemma step_then:
  assumes "stepOk E T l k ops xs e"
    and "\<And>a T'. prefix T T' \<Longrightarrow> gives E T' l (VLazy a) xs e \<Longrightarrow> triple E r T' (\<lambda>n. G n (VLazy a)) Q"
  shows "triple E r T (\<lambda>n. andThen (lazyStep k ops) (G n)) Q"
proof (rule triple_bind)
  show "triple E r T (\<lambda>n. lazyStep k ops) (\<lambda>t T'. \<exists>a. t = VLazy a \<and> gives E T' l (VLazy a) xs e)"
    unfolding lazyStep_def using assms(1) by (intro triple_new) auto
qed (use assms(2) in blast)

text \<open>C15. An infinite pipeline, \<^verbatim>\<open>(take n (filter p (map f (iterate h x))))\<close>, read to its end answers the first
  \<open>n\<close> elements that pass, as soon as the first \<open>N\<close> iterates hold that many: though the source has no end, the reading
  does.\<close>

theorem pipeline_reads:
  assumes "seqsOk \<sigma>" "pureOn E h g UNIV" "pureOn E f u UNIV" "pureOn E p q UNIV" "0 \<le> n" "n < 2 ^ 63"
    and "ys = filter (truthy \<circ> q) (map u (map (\<lambda>i. (g ^^ i) x) [0..<N]))" "nat n \<le> length ys"
  shows "\<exists>K \<sigma>'. \<forall>k\<ge>K. pipeline E k (VInt n) p f h x \<sigma> = (Got (take (nat n) ys), \<sigma>')"
proof -
  let ?it = "map (\<lambda>i. (g ^^ i) x) [0..<N]"
  have n: "cntIs E (VInt n) n" using assms(5,6) by (intro cntIs_int) auto
  have "triple E 4 T (\<lambda>k. pipeline E k (VInt n) p f h x) (\<lambda>r _. r = take (nat n) ys)" for T
    unfolding pipeline_def prim_iterate_def prim_map_def prim_filter_def prim_take_def requireNumber_def
  proof (simp, rule step_then)
    show "stepOk E T 0 StIterate [h, x] ?it False" using assms(2) by (intro stepOk.ok_iterate) (simp add: pureOn_def)
    fix a T' assume "gives E T' 0 (VLazy a) ?it False"
    then have "stepOk E T' 1 StMap1 [f, VLazy a] (map u ?it) False" using assms(3) by (intro stepOk.ok_map1 [of 0]) auto
    then show "triple E 4 T' (\<lambda>k. andThen (lazyStep StMap1 [f, VLazy a]) (\<lambda>s2.
      andThen (lazyStep StFilter [p, s2, VFalse]) (\<lambda>s3. andThen (lazyStep StTake [VInt n, s3]) (asSeq E k)))) (\<lambda>r _. r = take (nat n) ys)"
    proof (rule step_then)
      fix b T2 assume "gives E T2 1 (VLazy b) (map u ?it) False"
      then have "stepOk E T2 2 StFilter [p, VLazy b, VFalse] (filter (truthy \<circ> q) (map u ?it)) False"
        using assms(4) by (intro filter_step [of 1]) auto
      then show "triple E 4 T2 (\<lambda>k. andThen (lazyStep StFilter [p, VLazy b, VFalse]) (\<lambda>s3. andThen (lazyStep StTake [VInt n, s3]) (asSeq E k))) (\<lambda>r _. r = take (nat n) ys)"
      proof (rule step_then)
        fix c T3 assume "gives E T3 2 (VLazy c) (filter (truthy \<circ> q) (map u ?it)) False"
        then have "gives E T3 2 (VLazy c) ys False" by (simp only: assms(7))
        then have "stepOk E T3 3 StTake [VInt n, VLazy c] (take (nat n) ys) (False \<or> nat n \<le> length ys)"
          using n by (intro stepOk.ok_take [of 2]) auto
        then show "triple E 4 T3 (\<lambda>k. andThen (lazyStep StTake [VInt n, VLazy c]) (asSeq E k)) (\<lambda>r _. r = take (nat n) ys)"
        proof (rule step_then)
          fix d T4 assume "gives E T4 3 (VLazy d) (take (nat n) ys) (False \<or> nat n \<le> length ys)"
          then show "triple E 4 T4 (\<lambda>k. asSeq E k (VLazy d)) (\<lambda>r _. r = take (nat n) ys)"
            using assms(8) asSeq_lazy [of E T4 3 d] by simp
        qed
      qed
    qed
  qed
  from triple_end [OF this storeOk_blank(1) [OF assms(1)] storeOk_blank(2) [OF assms(1)]] show ?thesis .
qed

theorem pipeline_reads_witness:
  "\<exists>K \<sigma>'. \<forall>k\<ge>K. pipeline sampleEnv k (VInt 2) (VObj 1) (VObj 0) (VObj 0) (VInt 0) emptyStore =
     (Got [VInt 1, VInt 3], \<sigma>')"
  using pipeline_reads [OF _ sample_pure(1) sample_pure(1) sample_pure(2), of emptyStore 2 _ "VInt 0" 4]
  by (simp add: seqsOk_def emptyStore_def sampleInc_def sampleOdd_def truthy_def numeral_eq_Suc upt_rec)

section \<open>Running for effects\<close>

lemma walkAll_negative: "limit < 0 \<Longrightarrow> limit' < 0 \<Longrightarrow> walkAllLoop sq k limit w = walkAllLoop sq k limit' w"
proof (induction k arbitrary: limit limit' w)
  case (Suc k)
  then have "walkAllLoop sq k (limit - 1) = walkAllLoop sq k (limit' - 1)" by - (rule ext, rule Suc.IH, simp_all)
  with Suc.prems show ?case by simp
qed simp

text \<open>C40. \<^verbatim>\<open>(dorun n coll)\<close> and \<^verbatim>\<open>(doall n coll)\<close> with a negative count walk the whole sequence, as the calls without a
  count do, since these pass \<open>-1\<close> for "no limit".\<close>

theorem negative_dorun_walks_all:
  assumes "- (2 ^ 63) \<le> c" "c < 0"
  shows "prim_dorun E n [VInt c, coll] = prim_dorun E n [coll] \<and> prim_doall E n [VInt c, coll] = prim_doall E n [coll]"
proof -
  have "walkAllLoop (seqOf E n) n c = walkAllLoop (seqOf E n) n (- 1)"
    by (rule ext, rule walkAll_negative) (use assms(2) in simp_all)
  then show ?thesis using assms
    by (simp add: prim_dorun_def prim_doall_def walkAll_def requireNumber_def countOperand_def asLong_def)
qed

theorem negative_dorun_walks_all_witness:
  "\<forall>n. prim_dorun sampleEnv n [VInt (- 3), VLazy 0] = prim_dorun sampleEnv n [VLazy 0] \<and>
     prim_doall sampleEnv n [VInt (- 3), VLazy 0] = prim_doall sampleEnv n [VLazy 0]"
  by (intro allI negative_dorun_walks_all) simp_all

end
