(* ===== verification/LazyRace.thy ===== *)
theory LazyRace
  imports LazySeq "HOL-Library.Multiset"
begin

text \<open>
  Several threads realising lazy seqs (\<^verbatim>\<open>realizeLazy\<close>, src/runtime/LazySeq.cpp, as seen from outside): each thread has the
  stack of the lazy seqs it is reading, and the slots of protoCore are claimed, published and given back by
  atomic operations. What a thunk computes is left open: it may answer any seq, raise, or read another lazy
  seq first. \<open>rfinished\<close> logs the thunks that answered while claimed, \<open>ranswers\<close> what each read answered.
\<close>

section \<open>The steps\<close>

datatype 'v cell = Untouched | Taken | Done 'v

text \<open>A read of a lazy seq: at the head of the loop, running a thunk it has claimed, or running a pure one.\<close>

datatype frame = Reads nat | Owns nat | Computes nat

record 'v race =
  rcells :: "'v cell list"
  rstacks :: "frame list list"
  ranswers :: "(nat \<times> 'v) list"
  rfinished :: "nat list"

definition setCell :: "nat \<Rightarrow> 'v cell \<Rightarrow> 'v race \<Rightarrow> 'v race" where
  "setCell a c S = S\<lparr>rcells := (rcells S)[a := c]\<rparr>"

definition setStack :: "nat \<Rightarrow> frame list \<Rightarrow> 'v race \<Rightarrow> 'v race" where
  "setStack i fs S = S\<lparr>rstacks := (rstacks S)[i := fs]\<rparr>"

definition answer :: "nat \<Rightarrow> 'v \<Rightarrow> 'v race \<Rightarrow> 'v race" where
  "answer a v S = S\<lparr>ranswers := (a, v) # ranswers S\<rparr>"

text \<open>\<^verbatim>\<open>publishLazy\<close> with what follows it in \<^verbatim>\<open>realizeLazy\<close>: the first publication wins; after a claimed run the loser
  answers the value there is, after a pure run it goes round the loop.\<close>

definition publishOwned :: "nat \<Rightarrow> frame list \<Rightarrow> nat \<Rightarrow> 'v \<Rightarrow> 'v race \<Rightarrow> 'v race" where
  "publishOwned i fs a v S =
     (let S' = setStack i fs S\<lparr>rfinished := a # rfinished S\<rparr> in
      case rcells S ! a of Done w \<Rightarrow> answer a w S' | _ \<Rightarrow> answer a v (setCell a (Done v) S'))"

definition publishComputed :: "nat \<Rightarrow> frame list \<Rightarrow> nat \<Rightarrow> 'v \<Rightarrow> 'v race \<Rightarrow> 'v race" where
  "publishComputed i fs a v S =
     (case rcells S ! a of
        Done w \<Rightarrow> setStack i (Reads a # fs) S
      | _ \<Rightarrow> answer a v (setCell a (Done v) (setStack i fs S)))"

definition unclaim :: "nat \<Rightarrow> 'v race \<Rightarrow> 'v race" where
  "unclaim a S = (if rcells S ! a = Taken then setCell a Untouched S else S)"

definition owned :: "frame list \<Rightarrow> nat set" where
  "owned fs = {a. Owns a \<in> set fs}"

text \<open>One step of thread \<open>i\<close>; \<open>impure\<close> are the lazy seqs whose thunk may run Clojure code.\<close>

inductive rstep :: "nat set \<Rightarrow> 'v race \<Rightarrow> 'v race \<Rightarrow> bool" for impure where
  begin_read: "i < length (rstacks S) \<Longrightarrow> a < length (rcells S) \<Longrightarrow>
    rstacks S ! i = fs \<Longrightarrow> (\<forall>b gs. fs \<noteq> Reads b # gs) \<Longrightarrow>
    rstep impure S (setStack i (Reads a # fs) S)"
| find_realized: "i < length (rstacks S) \<Longrightarrow> rstacks S ! i = Reads a # fs \<Longrightarrow> rcells S ! a = Done v \<Longrightarrow>
    rstep impure S (answer a v (setStack i fs S))"
| find_own: "i < length (rstacks S) \<Longrightarrow> rstacks S ! i = Reads a # fs \<Longrightarrow> rcells S ! a = Taken \<Longrightarrow> a \<in> owned fs \<Longrightarrow>
    rstep impure S (setStack i fs S)"
| wait: "i < length (rstacks S) \<Longrightarrow> rstacks S ! i = Reads a # fs \<Longrightarrow> rcells S ! a = Taken \<Longrightarrow> a \<notin> owned fs \<Longrightarrow>
    rstep impure S S"
| claim: "i < length (rstacks S) \<Longrightarrow> rstacks S ! i = Reads a # fs \<Longrightarrow> rcells S ! a = Untouched \<Longrightarrow> a \<in> impure \<Longrightarrow>
    rstep impure S (setCell a Taken (setStack i (Owns a # fs) S))"
| compute: "i < length (rstacks S) \<Longrightarrow> rstacks S ! i = Reads a # fs \<Longrightarrow> rcells S ! a = Untouched \<Longrightarrow> a \<notin> impure \<Longrightarrow>
    rstep impure S (setStack i (Computes a # fs) S)"
| owner_answers: "i < length (rstacks S) \<Longrightarrow> rstacks S ! i = Owns a # fs \<Longrightarrow>
    rstep impure S (publishOwned i fs a v S)"
| owner_raises: "i < length (rstacks S) \<Longrightarrow> rstacks S ! i = Owns a # fs \<Longrightarrow>
    rstep impure S (unclaim a (setStack i fs S))"
| pure_answers: "i < length (rstacks S) \<Longrightarrow> rstacks S ! i = Computes a # fs \<Longrightarrow>
    rstep impure S (publishComputed i fs a v S)"
| pure_raises: "i < length (rstacks S) \<Longrightarrow> rstacks S ! i = Computes a # fs \<Longrightarrow>
    rstep impure S (setStack i fs S)"

definition raceStart :: "nat \<Rightarrow> nat \<Rightarrow> 'v race" where
  "raceStart n threads =
     \<lparr>rcells = replicate n Untouched, rstacks = replicate threads [], ranswers = [], rfinished = []\<rparr>"

inductive reachable :: "nat set \<Rightarrow> 'v race \<Rightarrow> bool" for impure where
  start: "reachable impure (raceStart n threads)"
| run: "reachable impure S \<Longrightarrow> rstep impure S S' \<Longrightarrow> reachable impure S'"

section \<open>The invariant\<close>

text \<open>A slot is claimed exactly when one frame of all the threads owns it; only impure thunks are claimed, and only pure
  ones are computed without a claim; an answer is the published value; a claimed run that ended has published.\<close>

definition frames :: "'v race \<Rightarrow> frame multiset" where
  "frames S = (\<Sum>fs\<in>#mset (rstacks S). mset fs)"

fun frameSlot :: "frame \<Rightarrow> nat" where
  "frameSlot (Reads a) = a"
| "frameSlot (Owns a) = a"
| "frameSlot (Computes a) = a"

definition claimsOk :: "nat set \<Rightarrow> frame multiset \<Rightarrow> 'v cell list \<Rightarrow> bool" where
  "claimsOk impure F C \<longleftrightarrow>
     (\<forall>f. f \<in># F \<longrightarrow> frameSlot f < length C) \<and>
     (\<forall>a<length C. count F (Owns a) = (if C ! a = Taken then 1 else 0)) \<and>
     (\<forall>a. Computes a \<in># F \<longrightarrow> a \<notin> impure) \<and>
     (\<forall>a<length C. C ! a = Taken \<longrightarrow> a \<in> impure)"

definition logOk :: "nat set \<Rightarrow> 'v cell list \<Rightarrow> (nat \<times> 'v) list \<Rightarrow> nat list \<Rightarrow> bool" where
  "logOk impure C A D \<longleftrightarrow>
     (\<forall>a v. (a, v) \<in> set A \<longrightarrow> a < length C \<and> C ! a = Done v) \<and>
     (\<forall>a\<in>set D. a < length C \<and> (\<exists>v. C ! a = Done v)) \<and> distinct D"

definition raceOk :: "nat set \<Rightarrow> 'v race \<Rightarrow> bool" where
  "raceOk impure S \<longleftrightarrow> claimsOk impure (frames S) (rcells S) \<and> logOk impure (rcells S) (ranswers S) (rfinished S)"

lemma frames_split:
  assumes "i < length (rstacks S)"
  obtains R where "frames S = mset (rstacks S ! i) + R" "\<And>fs. frames (setStack i fs S) = mset fs + R"
proof -
  let ?R = "(\<Sum>fs\<in>#mset (rstacks S) - {#rstacks S ! i#}. mset fs)"
  have m: "rstacks S ! i \<in># mset (rstacks S)" using assms by simp
  have "frames S = mset (rstacks S ! i) + ?R"
    unfolding frames_def using m by (metis image_mset_add_mset insert_DiffM sum_mset.add_mset)
  moreover have "frames (setStack i fs S) = mset fs + ?R" for fs
    using assms by (simp add: frames_def setStack_def mset_update)
  ultimately show ?thesis by (rule that)
qed

lemma frames_top:
  assumes "i < length (rstacks S)" "rstacks S ! i = f # fs"
  obtains R where "frames S = add_mset f (mset fs + R)" "\<And>gs. frames (setStack i gs S) = mset gs + R"
  using frames_split [OF assms(1)] assms(2) by (metis mset.simps(2) union_mset_add_mset_left)

lemma race_simps [simp]:
  "rcells (setStack i fs S) = rcells S" "ranswers (setStack i fs S) = ranswers S" "rfinished (setStack i fs S) = rfinished S"
  "rcells (setCell a c S) = (rcells S)[a := c]" "ranswers (setCell a c S) = ranswers S" "rfinished (setCell a c S) = rfinished S"
  "frames (setCell a c S) = frames S" "frames (answer a v S) = frames S" "frames (S\<lparr>rfinished := D\<rparr>) = frames S"
  "rcells (answer a v S) = rcells S" "ranswers (answer a v S) = (a, v) # ranswers S" "rfinished (answer a v S) = rfinished S"
  by (simp_all add: setStack_def setCell_def answer_def frames_def)

lemma nth_update: "C[a := c] ! b = (if b = a \<and> a < length C then c else C ! b)"
  by (cases "a < length C") (auto simp: nth_list_update list_update_beyond)

lemma claims_pop: "claimsOk I (add_mset f R) C \<Longrightarrow> (\<forall>a. f \<noteq> Owns a) \<Longrightarrow> claimsOk I R C"
  unfolding claimsOk_def by (metis add_mset_remove_trivial count_add_mset insert_iff set_mset_add_mset_insert)

lemma claims_push: "claimsOk I R C \<Longrightarrow> frameSlot f < length C \<Longrightarrow> (\<forall>a. f \<noteq> Owns a) \<Longrightarrow>
  (\<forall>a. f = Computes a \<longrightarrow> a \<notin> I) \<Longrightarrow> claimsOk I (add_mset f R) C"
  unfolding claimsOk_def by auto

lemma claims_own: "claimsOk I R C \<Longrightarrow> a < length C \<Longrightarrow> C ! a = Untouched \<Longrightarrow> a \<in> I \<Longrightarrow>
  claimsOk I (add_mset (Owns a) R) (C[a := Taken])"
  unfolding claimsOk_def by (auto simp: nth_update)

lemma claims_release: "claimsOk I (add_mset (Owns a) R) C \<Longrightarrow> c \<noteq> Taken \<Longrightarrow> claimsOk I R (C[a := c])"
  unfolding claimsOk_def by (auto simp: nth_update not_in_iff split: if_splits)

lemma claims_taken: "claimsOk I (add_mset (Owns a) R) C \<Longrightarrow> a < length C \<and> C ! a = Taken"
  unfolding claimsOk_def by (auto split: if_splits)

lemma claims_done: "claimsOk I R C \<Longrightarrow> C ! a \<noteq> Taken \<Longrightarrow> c \<noteq> Taken \<Longrightarrow> claimsOk I R (C[a := c])"
  unfolding claimsOk_def by (auto simp: nth_update)

lemma log_answer: "logOk I C A D \<Longrightarrow> a < length C \<Longrightarrow> C ! a = Done v \<Longrightarrow> logOk I C ((a, v) # A) D"
  unfolding logOk_def by auto

lemma log_cell: "logOk I C A D \<Longrightarrow> (\<forall>v. C ! a \<noteq> Done v) \<Longrightarrow> logOk I (C[a := c]) A D"
  unfolding logOk_def by (auto simp: nth_update)

lemma log_finish: "logOk I C A D \<Longrightarrow> a < length C \<Longrightarrow> (\<forall>v. C ! a \<noteq> Done v) \<Longrightarrow> logOk I (C[a := Done v]) A (a # D)"
  unfolding logOk_def by (auto simp: nth_update)

theorem raceOk_step: "rstep impure S S' \<Longrightarrow> raceOk impure S \<Longrightarrow> raceOk impure S'"
proof (induction rule: rstep.induct)
  case (begin_read i S a fs)
  then obtain R where R: "frames S = mset fs + R" "\<And>gs. frames (setStack i gs S) = mset gs + R"
    by (metis frames_split)
  with begin_read show ?case by (simp add: raceOk_def claims_push)
next
  case (find_realized i S a fs v)
  obtain R where R: "frames S = add_mset (Reads a) (mset fs + R)" "\<And>gs. frames (setStack i gs S) = mset gs + R"
    using frames_top [OF find_realized.hyps(1,2)] by auto
  from find_realized R have "a < length (rcells S)" by (auto simp: raceOk_def claimsOk_def)
  with find_realized R show ?case by (auto simp: raceOk_def log_answer dest: claims_pop)
next
  case (find_own i S a fs)
  obtain R where R: "frames S = add_mset (Reads a) (mset fs + R)" "\<And>gs. frames (setStack i gs S) = mset gs + R"
    using frames_top [OF find_own.hyps(1,2)] by auto
  with find_own R show ?case by (auto simp: raceOk_def dest: claims_pop)
next
  case (claim i S a fs)
  obtain R where R: "frames S = add_mset (Reads a) (mset fs + R)" "\<And>gs. frames (setStack i gs S) = mset gs + R"
    using frames_top [OF claim.hyps(1,2)] by auto
  from claim R have "a < length (rcells S)" by (auto simp: raceOk_def claimsOk_def)
  with claim R show ?case by (auto simp: raceOk_def claims_own log_cell dest: claims_pop)
next
  case (compute i S a fs)
  obtain R where R: "frames S = add_mset (Reads a) (mset fs + R)" "\<And>gs. frames (setStack i gs S) = mset gs + R"
    using frames_top [OF compute.hyps(1,2)] by auto
  from compute R have "a < length (rcells S)" by (auto simp: raceOk_def claimsOk_def)
  with compute R show ?case by (auto simp: raceOk_def claims_push dest: claims_pop)
next
  case (owner_answers i S a fs v)
  obtain R where R: "frames S = add_mset (Owns a) (mset fs + R)" "\<And>gs. frames (setStack i gs S) = mset gs + R"
    using frames_top [OF owner_answers.hyps(1,2)] by auto
  from owner_answers R claims_taken have "a < length (rcells S)" "rcells S ! a = Taken" unfolding raceOk_def by metis+
  with owner_answers R show ?case
    by (simp add: raceOk_def publishOwned_def Let_def claims_release nth_update log_answer log_finish)
next
  case (owner_raises i S a fs)
  obtain R where R: "frames S = add_mset (Owns a) (mset fs + R)" "\<And>gs. frames (setStack i gs S) = mset gs + R"
    using frames_top [OF owner_raises.hyps(1,2)] by auto
  from owner_raises R claims_taken have "a < length (rcells S)" "rcells S ! a = Taken" unfolding raceOk_def by metis+
  with owner_raises R show ?case by (auto simp: raceOk_def unclaim_def claims_release log_cell)
next
  case (pure_answers i S a fs v)
  obtain R where R: "frames S = add_mset (Computes a) (mset fs + R)" "\<And>gs. frames (setStack i gs S) = mset gs + R"
    using frames_top [OF pure_answers.hyps(1,2)] by auto
  from pure_answers R have a: "a < length (rcells S)" "a \<notin> impure" by (auto simp: raceOk_def claimsOk_def)
  then have "rcells S ! a \<noteq> Taken" using pure_answers by (auto simp: raceOk_def claimsOk_def)
  with a pure_answers R show ?case
    by (cases "rcells S ! a")
      (auto simp: raceOk_def publishComputed_def claims_push claims_done log_cell nth_update intro!: log_answer dest: claims_pop)
next
  case (pure_raises i S a fs)
  obtain R where R: "frames S = add_mset (Computes a) (mset fs + R)" "\<And>gs. frames (setStack i gs S) = mset gs + R"
    using frames_top [OF pure_raises.hyps(1,2)] by auto
  with pure_raises R show ?case by (auto simp: raceOk_def dest: claims_pop)
qed

lemma raceOk_start: "raceOk impure (raceStart n threads)"
proof -
  have "frames (raceStart n threads :: 'a race) = {#}" by (simp add: raceStart_def frames_def)
  then show ?thesis by (auto simp: raceOk_def claimsOk_def logOk_def raceStart_def)
qed

lemma reachable_raceOk: "reachable impure S \<Longrightarrow> raceOk impure S"
  by (induction rule: reachable.induct) (auto intro: raceOk_start raceOk_step)

section \<open>One value, computed once\<close>

lemma distinct_count: "distinct xs \<Longrightarrow> count_list xs x \<le> 1"
  by (induction xs) (auto simp: count_notin)

text \<open>C12. Whatever the interleaving of the threads that realise lazy seqs, every read of one answers the same value, the one
  published, and a thunk that may run Clojure code answers at most once.\<close>

theorem one_value:
  assumes "reachable impure S"
  shows "((a, v) \<in> set (ranswers S) \<longrightarrow> rcells S ! a = Done v) \<and>
    ((a, v) \<in> set (ranswers S) \<longrightarrow> (a, w) \<in> set (ranswers S) \<longrightarrow> v = w) \<and> count_list (rfinished S) a \<le> 1"
proof -
  have "logOk impure (rcells S) (ranswers S) (rfinished S)" using reachable_raceOk [OF assms] by (simp add: raceOk_def)
  moreover from this have "count_list (rfinished S) a \<le> 1"
    unfolding logOk_def by (blast intro: distinct_count)
  ultimately show ?thesis unfolding logOk_def by (metis cell.inject)
qed

text \<open>Two threads read one lazy seq; the first claims it, the second waits and finds what the first published.\<close>

definition raceEnd :: "nat race" where
  "raceEnd = \<lparr>rcells = [Done 5], rstacks = [[], []], ranswers = [(0, 5), (0, 5)], rfinished = [0]\<rparr>"

lemma raceEnd_reachable: "reachable {0} raceEnd"
proof -
  let ?S = "\<lambda>c f g A D. \<lparr>rcells = [c], rstacks = [f, g], ranswers = A, rfinished = D\<rparr> :: nat race"
  have "reachable {0} (?S Untouched [] [] [] [])"
    using reachable.start [of "{0}" 1 2] by (simp add: raceStart_def numeral_2_eq_2)
  then have "reachable {0} (?S Untouched [Reads 0] [] [] [])"
    by (rule reachable.run) (use rstep.begin_read [of 0 "?S Untouched [] [] [] []" 0 "[]"] in \<open>simp add: setStack_def\<close>)
  then have "reachable {0} (?S Untouched [Reads 0] [Reads 0] [] [])"
    by (rule reachable.run)
      (use rstep.begin_read [of 1 "?S Untouched [Reads 0] [] [] []" 0 "[]"] in \<open>simp add: setStack_def\<close>)
  then have "reachable {0} (?S Taken [Owns 0] [Reads 0] [] [])"
    by (rule reachable.run)
      (use rstep.claim [of 0 "?S Untouched [Reads 0] [Reads 0] [] []" 0 "[]" "{0}"] in \<open>simp add: setStack_def setCell_def\<close>)
  then have "reachable {0} (?S (Done 5) [] [Reads 0] [(0, 5)] [0])"
    by (rule reachable.run)
      (use rstep.owner_answers [of 0 "?S Taken [Owns 0] [Reads 0] [] []" 0 "[]" "{0}" 5] in
        \<open>simp add: setStack_def setCell_def publishOwned_def answer_def\<close>)
  then show ?thesis
    by (rule reachable.run)
      (use rstep.find_realized [of 1 "?S (Done 5) [] [Reads 0] [(0, 5)] [0]" 0 "[]" 5 "{0}"] in
        \<open>simp add: raceEnd_def setStack_def answer_def\<close>)
qed

theorem one_value_witness: "rcells raceEnd ! 0 = Done 5 \<and> count_list (rfinished raceEnd) 0 \<le> 1"
  using one_value [OF raceEnd_reachable, of 0 5] by (simp add: raceEnd_def)

end
