(* ===== verification/Numbers.thy ===== *)
theory Numbers
  imports SeqPrims LazyRun "HOL-Library.Signed_Division"
begin

text \<open>
  The functions on numbers: \<^verbatim>\<open>- * /\<close> and the comparison chains of src/runtime/Primitives.cpp, \<^verbatim>\<open>quot\<close>, \<^verbatim>\<open>rem\<close>, \<^verbatim>\<open>mod\<close>,
  \<^verbatim>\<open>max\<close>, \<^verbatim>\<open>min\<close>, \<^verbatim>\<open>==\<close> and the predicates of src/runtime/CorePrims.cpp. Integers are exact at every size; the
  operations on doubles are an argument of the definitions.
\<close>

record 'o floats =
  isNaN :: "'o sval \<Rightarrow> bool"
  isZero :: "'o sval \<Rightarrow> bool"
  isBelowZero :: "'o sval \<Rightarrow> bool"
  dblLess :: "'o sval \<Rightarrow> 'o sval \<Rightarrow> bool"
  dblLessEq :: "'o sval \<Rightarrow> 'o sval \<Rightarrow> bool"
  dblNeg :: "'o sval \<Rightarrow> 'o sval"
  dblAdd :: "'o sval \<Rightarrow> 'o sval \<Rightarrow> 'o sval"
  dblSub :: "'o sval \<Rightarrow> 'o sval \<Rightarrow> 'o sval"
  dblMul :: "'o sval \<Rightarrow> 'o sval \<Rightarrow> 'o sval"
  dblDiv :: "'o sval \<Rightarrow> 'o sval \<Rightarrow> 'o sval"
  dblTruncDiv :: "'o sval \<Rightarrow> 'o sval \<Rightarrow> 'o sval"
  dblFmod :: "'o sval \<Rightarrow> 'o sval \<Rightarrow> 'o sval"

text \<open>A number that is not an integer is a double.\<close>

fun isInteger :: "'o sval \<Rightarrow> bool" where
  "isInteger (VInt i) = True"
| "isInteger v = False"

abbreviation isFloat :: "('o, 'w) lenv \<Rightarrow> 'o sval \<Rightarrow> bool" where
  "isFloat E v \<equiv> isNumber E v \<and> \<not> isInteger v"

section \<open>Arithmetic\<close>

definition divideByZero :: "('o, 'w, 'a) lact" where
  "divideByZero = throws ''ArithmeticException'' ''Divide by zero''"

definition subNumbers :: "'o floats \<Rightarrow> 'o sval \<Rightarrow> 'o sval \<Rightarrow> 'o sval" where
  "subNumbers N a b = (case (a, b) of (VInt i, VInt j) \<Rightarrow> VInt (i - j) | _ \<Rightarrow> dblSub N a b)"

definition mulNumbers :: "'o floats \<Rightarrow> 'o sval \<Rightarrow> 'o sval \<Rightarrow> 'o sval" where
  "mulNumbers N a b = (case (a, b) of (VInt i, VInt j) \<Rightarrow> VInt (i * j) | _ \<Rightarrow> dblMul N a b)"

text \<open>protoCore's division of integers truncates, and raises on zero.\<close>

definition divInts :: "'o sval \<Rightarrow> 'o sval \<Rightarrow> ('o, 'w, 'o sval) lact" where
  "divInts a b =
     (if intOf b = 0 then divideByZero else got (VInt (intOf a sdiv intOf b)))"

primrec divFold :: "'o sval \<Rightarrow> 'o sval list \<Rightarrow> ('o, 'w, 'o sval) lact" where
  "divFold acc [] = got acc"
| "divFold acc (x # xs) = andThen (divInts acc x) (\<lambda>a. divFold a xs)"

definition prim_minus :: "('o, 'w) lenv \<Rightarrow> 'o floats \<Rightarrow> 'o sval list \<Rightarrow> ('o, 'w, 'o sval) lact" where
  "prim_minus E N args =
     (if args = [] then throwError ''- : needs at least one arg''
      else andThen (checkNumbers E ''-'' args) (\<lambda>_.
        got (case args of
               [x] \<Rightarrow> if isInteger x then VInt (0 - intOf x) else dblNeg N x
             | x # xs \<Rightarrow> foldl (subNumbers N) x xs
             | [] \<Rightarrow> VNil)))"

definition prim_mul :: "('o, 'w) lenv \<Rightarrow> 'o floats \<Rightarrow> 'o sval list \<Rightarrow> ('o, 'w, 'o sval) lact" where
  "prim_mul E N args =
     andThen (checkNumbers E ''*'' args) (\<lambda>_.
       got (case args of [] \<Rightarrow> VInt 1 | x # xs \<Rightarrow> foldl (mulNumbers N) x xs))"

definition prim_div :: "('o, 'w) lenv \<Rightarrow> 'o floats \<Rightarrow> 'o sval list \<Rightarrow> ('o, 'w, 'o sval) lact" where
  "prim_div E N args =
     (if args = [] then throwError ''/: needs at least one arg''
      else andThen (checkNumbers E ''/'' args) (\<lambda>_.
        if list_ex (\<lambda>x. \<not> isInteger x) args
        then got (case args of [x] \<Rightarrow> dblDiv N (VInt 1) x | x # xs \<Rightarrow> foldl (dblDiv N) x xs | [] \<Rightarrow> VNil)
        else (case args of [x] \<Rightarrow> divInts (VInt 1) x | x # xs \<Rightarrow> divFold x xs | [] \<Rightarrow> got VNil)))"

section \<open>Comparison chains\<close>

datatype relation = Lt | Le | Gt | Ge

definition relName :: "relation \<Rightarrow> string" where
  "relName r = (case r of Lt \<Rightarrow> ''<'' | Le \<Rightarrow> ''<='' | Gt \<Rightarrow> ''>'' | Ge \<Rightarrow> ''>='')"

definition holdsForDoubles :: "'o floats \<Rightarrow> relation \<Rightarrow> 'o sval \<Rightarrow> 'o sval \<Rightarrow> bool" where
  "holdsForDoubles N r a b =
     (case r of Lt \<Rightarrow> dblLess N a b | Le \<Rightarrow> dblLessEq N a b | Gt \<Rightarrow> dblLess N b a | Ge \<Rightarrow> dblLessEq N b a)"

definition holdsForSign :: "relation \<Rightarrow> int \<Rightarrow> bool" where
  "holdsForSign r sign = (case r of Lt \<Rightarrow> sign < 0 | Le \<Rightarrow> sign \<le> 0 | Gt \<Rightarrow> sign > 0 | Ge \<Rightarrow> sign \<ge> 0)"

definition compareIntegers :: "int \<Rightarrow> int \<Rightarrow> int" where
  "compareIntegers x y = (if x > y then 1 else 0) - (if x < y then 1 else 0)"

primrec chainFrom ::
    "('o, 'w) lenv \<Rightarrow> 'o floats \<Rightarrow> relation \<Rightarrow> 'o sval \<Rightarrow> 'o sval list \<Rightarrow> ('o, 'w, 'o sval) lact" where
  "chainFrom E N r prev [] = got VTrue"
| "chainFrom E N r prev (x # xs) =
     (if \<not> isNumber E x then throwNotANumber E (relName r) x
      else if (if isInteger prev \<and> isInteger x then holdsForSign r (compareIntegers (intOf prev) (intOf x))
               else holdsForDoubles N r prev x)
      then chainFrom E N r x xs
      else got VFalse)"

definition monotonicChain ::
    "('o, 'w) lenv \<Rightarrow> 'o floats \<Rightarrow> relation \<Rightarrow> 'o sval list \<Rightarrow> ('o, 'w, 'o sval) lact" where
  "monotonicChain E N r args =
     (case args of
        x # y # xs \<Rightarrow> if isNumber E x then chainFrom E N r x (y # xs) else throwNotANumber E (relName r) x
      | _ \<Rightarrow> got VTrue)"

section \<open>quot, rem and mod\<close>

datatype DivKind = DQuot | DRem | DMod

text \<open>The sign of a remainder is corrected for \<^verbatim>\<open>mod\<close> when it is not that of the divisor.\<close>

definition intDivision ::
    "('o, 'w) lenv \<Rightarrow> 'o floats \<Rightarrow> DivKind \<Rightarrow> string \<Rightarrow> 'o sval list \<Rightarrow> ('o, 'w, 'o sval) lact" where
  "intDivision E N kind name args =
     (case args of
        [a, b] \<Rightarrow>
          if \<not> isNumber E a then throwNotANumber E name a
          else if \<not> isNumber E b then throwNotANumber E name b
          else if \<not> isInteger a \<or> \<not> isInteger b
          then if isZero N b then divideByZero
               else if kind = DQuot then got (dblTruncDiv N a b)
               else let r = dblFmod N a b in
                    got (if kind = DMod \<and> \<not> isZero N r \<and> isBelowZero N r \<noteq> isBelowZero N b then dblAdd N r b else r)
          else if isSmallInt a \<and> isSmallInt b
          then let x = intOf a; y = intOf b in
               if y = 0 then divideByZero
               else if kind = DQuot then got (VInt (x sdiv y))
               else let r = x smod y in
                    got (VInt (if kind = DMod \<and> r \<noteq> 0 \<and> (r < 0) \<noteq> (y < 0) then r + y else r))
          else andThen (divInts a b) (\<lambda>q.
                 if kind = DQuot then got q
                 else let r = intOf a - intOf q * intOf b in
                      got (VInt (if kind = DMod \<and> compareIntegers r 0 \<noteq> 0 \<and>
                                    (compareIntegers r 0 < 0) \<noteq> (compareIntegers (intOf b) 0 < 0)
                                 then r + intOf b else r)))
      | _ \<Rightarrow> arity (length args) name)"

definition prim_quot :: "('o, 'w) lenv \<Rightarrow> 'o floats \<Rightarrow> 'o sval list \<Rightarrow> ('o, 'w, 'o sval) lact" where
  "prim_quot E N args = intDivision E N DQuot ''quot'' args"

definition prim_rem :: "('o, 'w) lenv \<Rightarrow> 'o floats \<Rightarrow> 'o sval list \<Rightarrow> ('o, 'w, 'o sval) lact" where
  "prim_rem E N args = intDivision E N DRem ''rem'' args"

definition prim_mod :: "('o, 'w) lenv \<Rightarrow> 'o floats \<Rightarrow> 'o sval list \<Rightarrow> ('o, 'w, 'o sval) lact" where
  "prim_mod E N args = intDivision E N DMod ''mod'' args"

section \<open>max, min and ==\<close>

primrec extremumFrom ::
    "('o, 'w) lenv \<Rightarrow> 'o floats \<Rightarrow> bool \<Rightarrow> string \<Rightarrow> 'o sval \<Rightarrow> 'o sval list \<Rightarrow> ('o, 'w, 'o sval) lact" where
  "extremumFrom E N wantMax name best [] = got best"
| "extremumFrom E N wantMax name best (x # xs) =
     (if \<not> isNumber E x then throwNotANumber E name x
      else if \<not> isInteger x \<and> isNaN N x then got x
      else andThen (numberCompare E x best) (\<lambda>c.
             extremumFrom E N wantMax name (if (if wantMax then c > 0 else c < 0) then x else best) xs))"

definition extremum ::
    "('o, 'w) lenv \<Rightarrow> 'o floats \<Rightarrow> bool \<Rightarrow> string \<Rightarrow> 'o sval list \<Rightarrow> ('o, 'w, 'o sval) lact" where
  "extremum E N wantMax name args =
     (case args of
        [] \<Rightarrow> arity 0 name
      | x # xs \<Rightarrow> if \<not> isNumber E x then throwNotANumber E name x else extremumFrom E N wantMax name x xs)"

definition prim_max :: "('o, 'w) lenv \<Rightarrow> 'o floats \<Rightarrow> 'o sval list \<Rightarrow> ('o, 'w, 'o sval) lact" where
  "prim_max E N args = extremum E N True ''max'' args"

definition prim_min :: "('o, 'w) lenv \<Rightarrow> 'o floats \<Rightarrow> 'o sval list \<Rightarrow> ('o, 'w, 'o sval) lact" where
  "prim_min E N args = extremum E N False ''min'' args"

primrec equalFrom ::
    "('o, 'w) lenv \<Rightarrow> 'o floats \<Rightarrow> 'o sval \<Rightarrow> 'o sval list \<Rightarrow> ('o, 'w, 'o sval) lact" where
  "equalFrom E N a [] = got VTrue"
| "equalFrom E N a (b # xs) =
     (if (\<not> isInteger a \<and> isNaN N a) \<or> (\<not> isInteger b \<and> isNaN N b) then got VFalse
      else andThen (numberCompare E a b) (\<lambda>c. if c \<noteq> 0 then got VFalse else equalFrom E N b xs))"

definition prim_num_eq :: "('o, 'w) lenv \<Rightarrow> 'o floats \<Rightarrow> 'o sval list \<Rightarrow> ('o, 'w, 'o sval) lact" where
  "prim_num_eq E N args =
     (case args of
        [] \<Rightarrow> arity 0 ''==''
      | x # xs \<Rightarrow> andThen (checkNumbers E ''=='' args) (\<lambda>_. equalFrom E N x xs))"

fun prim_number_p :: "('o, 'w) lenv \<Rightarrow> 'o sval list \<Rightarrow> ('o, 'w, 'o sval) lact" where
  "prim_number_p E [v] = got (vbool (isNumber E v))"
| "prim_number_p E args = arity (length args) ''number?''"

fun prim_integer_p :: "('o, 'w) lenv \<Rightarrow> 'o sval list \<Rightarrow> ('o, 'w, 'o sval) lact" where
  "prim_integer_p E [v] = got (vbool (v \<noteq> VNil \<and> isNumber E v \<and> isInteger v))"
| "prim_integer_p E args = arity (length args) ''integer?''"

fun prim_float_p :: "('o, 'w) lenv \<Rightarrow> 'o sval list \<Rightarrow> ('o, 'w, 'o sval) lact" where
  "prim_float_p E [v] = got (vbool (v \<noteq> VNil \<and> isFloat E v))"
| "prim_float_p E args = arity (length args) ''float?''"

section \<open>Integers\<close>

lemma andThen_throws: "andThen (throws c m) f = throws c m"
  by (rule ext) (simp add: andThen_def throws_def)

lemma checkNumbers_ints [simp]: "checkNumbers E name (map VInt is) = got ()"
  by (induction "is") simp_all

lemma sdiv_smod: "(b :: int) \<noteq> 0 \<Longrightarrow> a - (a sdiv b) * b = a smod b"
  by (simp add: minus_sdiv_mult_eq_smod)

lemma smod_small: "(b :: int) \<noteq> 0 \<Longrightarrow> \<bar>a smod b\<bar> < \<bar>b\<bar>"
  by (simp add: smod_int_alt_def abs_mult abs_sgn_eq)

lemma smod_to_mod:
  assumes "(b :: int) \<noteq> 0"
  shows "(if a smod b \<noteq> 0 \<and> (a smod b < 0) \<noteq> (b < 0) then a smod b + b else a smod b) = a mod b"
proof -
  let ?r = "a smod b"
  have "a mod b = (b * (a sdiv b) + ?r) mod b" by (simp only: mult_sdiv_smod_eq)
  then have m: "a mod b = ?r mod b" by simp
  have r: "\<bar>?r\<bar> < \<bar>b\<bar>" using assms by (rule smod_small)
  show ?thesis
  proof (cases "?r \<noteq> 0 \<and> (?r < 0) \<noteq> (b < 0)")
    case True
    have "(?r + b) mod b = ?r + b"
    proof (cases "b < 0")
      case neg: True
      with True have "0 < ?r" by simp
      with neg r show ?thesis by (intro mod_neg_neg_trivial) linarith+
    next
      case False
      have "?r < 0" using True False by blast
      moreover have "0 < b" using False assms by simp
      ultimately show ?thesis using r by (intro mod_pos_pos_trivial) linarith+
    qed
    with True m show ?thesis by simp
  next
    case False
    have "?r mod b = ?r"
    proof (cases "b < 0")
      case neg: True
      then have "?r \<le> 0" using False by linarith
      with neg r show ?thesis by (intro mod_neg_neg_trivial) linarith+
    next
      case pos: False
      then have "0 \<le> ?r" using False by linarith
      with pos assms r show ?thesis by (intro mod_pos_pos_trivial) linarith+
    qed
    with False m show ?thesis by (simp only: if_False)
  qed
qed

lemma compareIntegers_simps [simp]:
  "compareIntegers x y = 0 \<longleftrightarrow> x = y" "compareIntegers x y < 0 \<longleftrightarrow> x < y" "compareIntegers x y \<le> 0 \<longleftrightarrow> x \<le> y"
  "compareIntegers x y > 0 \<longleftrightarrow> x > y" "compareIntegers x y \<ge> 0 \<longleftrightarrow> x \<ge> y"
  by (auto simp: compareIntegers_def)

lemma intDivision_ints:
  "intDivision E N kind name [VInt a, VInt b] =
     (if b = 0 then divideByZero
      else got (VInt (case kind of DQuot \<Rightarrow> a sdiv b | DRem \<Rightarrow> a smod b | DMod \<Rightarrow> a mod b)))"
proof (cases "b = 0")
  case True
  then show ?thesis by (simp add: intDivision_def divInts_def divideByZero_def andThen_throws)
next
  case False
  note r = sdiv_smod [OF False, of a]
  have "a = a sdiv b * b \<longleftrightarrow> a smod b = 0" "a < a sdiv b * b \<longleftrightarrow> a smod b < 0" using r by linarith+
  then show ?thesis using False r smod_to_mod [OF False, of a]
    by (cases kind) (auto simp: intDivision_def divInts_def Let_def)
qed

text \<open>C25. On integers of any size, by the inline arithmetic of small ones and by protoCore's of large ones alike, \<^verbatim>\<open>quot\<close>
  truncates toward zero, \<^verbatim>\<open>rem\<close> is the rest with the sign of the dividend and \<^verbatim>\<open>mod\<close> the rest with the sign of
  the divisor; a zero divisor raises.\<close>

theorem division_exact:
  "prim_quot E N [VInt a, VInt b] = (if b = 0 then divideByZero else got (VInt (sgn a * sgn b * (\<bar>a\<bar> div \<bar>b\<bar>)))) \<and>
   prim_rem E N [VInt a, VInt b] = (if b = 0 then divideByZero else got (VInt (sgn a * (\<bar>a\<bar> mod \<bar>b\<bar>)))) \<and>
   prim_mod E N [VInt a, VInt b] = (if b = 0 then divideByZero else got (VInt (a mod b)))"
  by (simp add: prim_quot_def prim_rem_def prim_mod_def intDivision_ints signed_divide_int_def smod_int_alt_def)

section \<open>Chains\<close>

definition relInt :: "relation \<Rightarrow> int \<Rightarrow> int \<Rightarrow> bool" where
  "relInt r x y = (case r of Lt \<Rightarrow> x < y | Le \<Rightarrow> x \<le> y | Gt \<Rightarrow> x > y | Ge \<Rightarrow> x \<ge> y)"

lemma chain_ints: "chainFrom E N r (VInt x) (map VInt ys) = got (vbool (successively (relInt r) (x # ys)))"
  by (induction ys arbitrary: x)
    (auto simp: vbool_def relInt_def holdsForSign_def split: relation.split)

lemma chain_prefix:
  "successively (relInt r) (x # ys) \<Longrightarrow> chainFrom E N r (VInt x) (map VInt ys @ zs) = chainFrom E N r (VInt (last (x # ys))) zs"
  by (induction ys arbitrary: x) (auto simp: relInt_def holdsForSign_def split: relation.split)

lemma relInt_trans: "transp (relInt r)"
  by (cases r) (auto simp: relInt_def intro!: transpI)

text \<open>A chain of comparisons of integers is true exactly when every two of its arguments, in their order, are in
  the relation, whatever their size; and it stops at the first pair that fails, so what follows it is not
  looked at, not even to raise for a value that is no number.\<close>

theorem chain_holds:
  "monotonicChain E N r (map VInt xs) = got (vbool (sorted_wrt (relInt r) xs)) \<and>
   (xs \<noteq> [] \<longrightarrow> \<not> relInt r (last xs) y \<longrightarrow> sorted_wrt (relInt r) xs \<longrightarrow>
      monotonicChain E N r (map VInt (xs @ [y]) @ zs) = got VFalse)"
proof (intro conjI impI)
  have s: "sorted_wrt (relInt r) xs \<longleftrightarrow> successively (relInt r) xs" by (rule successively_conv_sorted_wrt [OF relInt_trans, symmetric])
  show "monotonicChain E N r (map VInt xs) = got (vbool (sorted_wrt (relInt r) xs))"
    unfolding s using chain_ints [of E N r "hd xs" "tl xs"]
    by (auto simp: monotonicChain_def vbool_def split: list.splits)
  assume "xs \<noteq> []" "\<not> relInt r (last xs) y" "sorted_wrt (relInt r) xs"
  then obtain x ys where xs: "xs = x # ys" and c: "successively (relInt r) (x # ys)" unfolding s by (cases xs) auto
  have "monotonicChain E N r (map VInt (xs @ [y]) @ zs) = chainFrom E N r (VInt x) (map VInt ys @ VInt y # zs)"
    by (cases ys) (simp_all add: xs monotonicChain_def)
  also have "\<dots> = got VFalse"
    using chain_prefix [OF c, of E N "VInt y # zs"] \<open>\<not> relInt r (last xs) y\<close>
    by (auto simp: xs relInt_def holdsForSign_def split: relation.splits)
  finally show "monotonicChain E N r (map VInt (xs @ [y]) @ zs) = got VFalse" .
qed

end
