(* ===== verification/CorePrims.thy ===== *)
theory CorePrims
  imports Numbers "HOL-Library.Word"
begin

text \<open>
  The functions of src/runtime/CorePrims.cpp beside those on numbers: \<^verbatim>\<open>compare\<close>, \<^verbatim>\<open>sort\<close> and \<^verbatim>\<open>sort-by\<close>, \<^verbatim>\<open>frequencies\<close>,
  \<^verbatim>\<open>split-lines\<close>, \<^verbatim>\<open>require\<close>, the \<^verbatim>\<open>parse-*\<close> functions, \<^verbatim>\<open>bigint\<close>, \<^verbatim>\<open>hash\<close>, \<^verbatim>\<open>peek\<close> and \<^verbatim>\<open>pop\<close>. The text of a string, the
  spelling of a keyword or symbol, the equality of pointers, map keys, maps, the namespaces and the formatting of
  doubles are an argument of the definitions.
\<close>

record ('o, 'w) things =
  textOf :: "'o sval \<Rightarrow> string option"
  spelling :: "'o sval \<Rightarrow> string option"
  samePtr :: "'o sval \<Rightarrow> 'o sval \<Rightarrow> bool"
  keyEq :: "'o sval \<Rightarrow> 'o sval \<Rightarrow> bool"
  keyHashOf :: "'o sval \<Rightarrow> 64 word"
  mapOf :: "('o sval \<times> 'o sval) list \<Rightarrow> 'o sval"
  stringVal :: "string \<Rightarrow> 'o sval"
  knownNs :: "string \<Rightarrow> bool"
  addAlias :: "string \<Rightarrow> string \<Rightarrow> 'w \<Rightarrow> 'w"
  doubleText :: "'o sval \<Rightarrow> string"
  isFinite :: "'o sval \<Rightarrow> bool"
  strtod :: "string \<Rightarrow> 'o sval"
  nanVal :: "'o sval"
  infVal :: "bool \<Rightarrow> 'o sval"

section \<open>compare\<close>

text \<open>\<^verbatim>\<open>std::string::compare\<close>, by bytes; its sign.\<close>

fun compareBytes :: "string \<Rightarrow> string \<Rightarrow> int" where
  "compareBytes [] [] = 0"
| "compareBytes [] (d # ds) = - 1"
| "compareBytes (c # cs) [] = 1"
| "compareBytes (c # cs) (d # ds) =
     (if (of_char c :: nat) < of_char d then - 1 else if (of_char c :: nat) > of_char d then 1 else compareBytes cs ds)"

definition notComparable :: "('o, 'w) lenv \<Rightarrow> 'o sval \<Rightarrow> 'o sval \<Rightarrow> ('o, 'w, 'a) lact" where
  "notComparable E a b =
     throws ''ClassCastException'' (''compare: '' @ typeName E a @ '' cannot be compared with '' @ typeName E b)"

definition isBool :: "'o sval \<Rightarrow> bool" where
  "isBool v \<longleftrightarrow> v = VTrue \<or> v = VFalse"

definition isKeywordText :: "string \<Rightarrow> bool" where
  "isKeywordText s \<longleftrightarrow> s \<noteq> [] \<and> hd s = CHR '':''"

fun vectorItems :: "'o sval \<Rightarrow> 'o sval list option" where
  "vectorItems (VVec xs) = Some xs"
| "vectorItems v = None"

lemma vectorItems_size: "vectorItems v = Some xs \<Longrightarrow> size_list size xs < size v"
  by (cases v) auto

function (sequential) compareValues ::
    "('o, 'w) lenv \<Rightarrow> ('o, 'w) things \<Rightarrow> 'o sval \<Rightarrow> 'o sval \<Rightarrow> ('o, 'w, int) lact"
  and compareItems ::
    "('o, 'w) lenv \<Rightarrow> ('o, 'w) things \<Rightarrow> 'o sval list \<Rightarrow> 'o sval list \<Rightarrow> ('o, 'w, int) lact" where
  "compareValues E X a b =
     (if samePtr X a b then got 0
      else if a = VNil then got (- 1)
      else if b = VNil then got 1
      else if isNumber E a \<and> isNumber E b then numberCompare E a b
      else if textOf X a \<noteq> None \<and> textOf X b \<noteq> None
      then got (compareBytes (the (textOf X a)) (the (textOf X b)))
      else if isBool a \<and> isBool b then got (if a = VFalse then - 1 else 1)
      else if spelling X a \<noteq> None \<and> spelling X b \<noteq> None
      then if isKeywordText (the (spelling X a)) \<noteq> isKeywordText (the (spelling X b)) then notComparable E a b
           else got (compareBytes (the (spelling X a)) (the (spelling X b)))
      else case vectorItems a of
             None \<Rightarrow> notComparable E a b
           | Some xs \<Rightarrow>
               (case vectorItems b of
                  None \<Rightarrow> notComparable E a b
                | Some ys \<Rightarrow>
                    if length xs \<noteq> length ys then got (if length xs < length ys then - 1 else 1)
                    else compareItems E X xs ys))"
| "compareItems E X (x # xs) (y # ys) =
     andThen (compareValues E X x y) (\<lambda>c. if c \<noteq> 0 then got c else compareItems E X xs ys)"
| "compareItems E X xs ys = got 0"
  by pat_completeness auto

termination
  by (relation "measure (\<lambda>x. case x of Inl (E, X, a, b) \<Rightarrow> size a | Inr (E, X, xs, ys) \<Rightarrow> size_list size xs)")
    (auto simp: vectorItems_size)

declare compareValues.simps [simp del]

definition prim_compare :: "('o, 'w) lenv \<Rightarrow> ('o, 'w) things \<Rightarrow> 'o sval list \<Rightarrow> ('o, 'w, 'o sval) lact" where
  "prim_compare E X args =
     (case args of
        [a, b] \<Rightarrow> andThen (compareValues E X a b) (\<lambda>c. got (VInt c))
      | _ \<Rightarrow> arity (length args) ''compare'')"

section \<open>sort\<close>

definition callComparator ::
    "('o, 'w) lenv \<Rightarrow> ('o, 'w) things \<Rightarrow> 'o sval \<Rightarrow> 'o sval \<Rightarrow> 'o sval \<Rightarrow> ('o, 'w, int) lact" where
  "callComparator E X cmp x y =
     (if cmp = VNil then compareValues E X x y
      else andThen (callFn E cmp [x, y]) (\<lambda>r.
        if r = VTrue then got (- 1)
        else if r = VNil \<or> r = VFalse
        then andThen (callFn E cmp [y, x]) (\<lambda>r'. got (if truthy r' then 1 else 0))
        else if \<not> isNumber E r then throwNotANumber E ''sort comparator'' r
        else numberCompare E r (VInt 0)))"

text \<open>\<^verbatim>\<open>std::stable_sort\<close> with a comparison that runs code. The standard leaves open which pairs are compared; here it
  is those of an insertion sort, which is stable.\<close>

primrec insertStable :: "('a \<Rightarrow> 'a \<Rightarrow> ('o, 'w, bool) lact) \<Rightarrow> 'a \<Rightarrow> 'a list \<Rightarrow> ('o, 'w, 'a list) lact" where
  "insertStable before x [] = got [x]"
| "insertStable before x (y # ys) =
     andThen (before y x) (\<lambda>b.
       if b then andThen (insertStable before x ys) (\<lambda>zs. got (y # zs)) else got (x # y # ys))"

primrec stableSort :: "('a \<Rightarrow> 'a \<Rightarrow> ('o, 'w, bool) lact) \<Rightarrow> 'a list \<Rightarrow> ('o, 'w, 'a list) lact" where
  "stableSort before [] = got []"
| "stableSort before (x # xs) = andThen (stableSort before xs) (insertStable before x)"

definition sortedList ::
    "('o, 'w) lenv \<Rightarrow> ('o, 'w) things \<Rightarrow> nat \<Rightarrow> 'o sval \<Rightarrow> 'o sval \<Rightarrow> 'o sval \<Rightarrow> ('o, 'w, 'o sval) lact" where
  "sortedList E X n keyfn cmp coll =
     andThen (seqToList E (seqOf E n) n coll) (\<lambda>elems.
       if elems = [] then got (VList [])
       else andThen (if keyfn \<noteq> VNil then callEach E keyfn elems [] else got elems) (\<lambda>keys.
         andThen (stableSort (\<lambda>p q. andThen (callComparator E X cmp (fst p) (fst q)) (\<lambda>c. got (c < 0))) (zip keys elems))
           (\<lambda>sorted. got (VList (map snd sorted)))))"

definition prim_sort :: "('o, 'w) lenv \<Rightarrow> ('o, 'w) things \<Rightarrow> nat \<Rightarrow> 'o sval list \<Rightarrow> ('o, 'w, 'o sval) lact" where
  "prim_sort E X n args =
     (case args of
        [coll] \<Rightarrow> sortedList E X n VNil VNil coll
      | [cmp, coll] \<Rightarrow> sortedList E X n VNil cmp coll
      | _ \<Rightarrow> arity (length args) ''sort'')"

definition prim_sort_by :: "('o, 'w) lenv \<Rightarrow> ('o, 'w) things \<Rightarrow> nat \<Rightarrow> 'o sval list \<Rightarrow> ('o, 'w, 'o sval) lact" where
  "prim_sort_by E X n args =
     (case args of
        [keyfn, coll] \<Rightarrow> sortedList E X n keyfn VNil coll
      | [keyfn, cmp, coll] \<Rightarrow> sortedList E X n keyfn cmp coll
      | _ \<Rightarrow> arity (length args) ''sort-by'')"

section \<open>frequencies\<close>

text \<open>The hash table of the counts, with its keys in the order they were first met.\<close>

fun countOne :: "('a \<Rightarrow> 'a \<Rightarrow> bool) \<Rightarrow> 'a \<Rightarrow> ('a \<times> nat) list \<Rightarrow> ('a \<times> nat) list" where
  "countOne eq x [] = [(x, 1)]"
| "countOne eq x ((k, c) # t) = (if eq k x then (k, c + 1) # t else (k, c) # countOne eq x t)"

primrec freqLoop ::
    "('o, 'w) things \<Rightarrow> ('o sval \<Rightarrow> ('o, 'w, 'o sval) lact) \<Rightarrow> nat \<Rightarrow> 'o walk \<Rightarrow> ('o sval \<times> nat) list \<Rightarrow>
     ('o, 'w, ('o sval \<times> nat) list) lact" where
  "freqLoop X sq 0 w counts = tired"
| "freqLoop X sq (Suc k) w counts =
     (if walkDone w then got counts
      else andThen (walkAdvance sq w) (\<lambda>w'. freqLoop X sq k w' (countOne (keyEq X) (walkFirst w) counts)))"

definition prim_frequencies :: "('o, 'w) lenv \<Rightarrow> ('o, 'w) things \<Rightarrow> nat \<Rightarrow> 'o sval list \<Rightarrow> ('o, 'w, 'o sval) lact" where
  "prim_frequencies E X n args =
     (case args of
        [coll] \<Rightarrow>
          andThen (andThen (walkStart (seqOf E n) coll) (\<lambda>w. freqLoop X (seqOf E n) n w [])) (\<lambda>counts.
            got (mapOf X (map (\<lambda>kc. (fst kc, VInt (int (snd kc)))) counts)))
      | _ \<Rightarrow> arity (length args) ''frequencies'')"

section \<open>split-lines\<close>

definition stripCR :: "string \<Rightarrow> string" where
  "stripCR s = (if s \<noteq> [] \<and> last s = CHR 0x0D then butlast s else s)"

fun linesFrom :: "string \<Rightarrow> string \<Rightarrow> string list" where
  "linesFrom cur [] = [cur]"
| "linesFrom cur (c # cs) = (if c = CHR 0x0A then stripCR cur # linesFrom [] cs else linesFrom (cur @ [c]) cs)"

function dropEmptyLines :: "string list \<Rightarrow> string list" where
  "dropEmptyLines ls = (if 1 < length ls \<and> last ls = [] then dropEmptyLines (butlast ls) else ls)"
  by auto
termination by (relation "measure length") auto

declare dropEmptyLines.simps [simp del]

definition splitLines :: "string \<Rightarrow> string list" where
  "splitLines s =
     (let ls = dropEmptyLines (linesFrom [] s) in
      if length ls = 1 \<and> hd ls = [] \<and> s \<noteq> [] then [] else ls)"

definition prim_split_lines :: "('o, 'w) lenv \<Rightarrow> ('o, 'w) things \<Rightarrow> 'o sval list \<Rightarrow> ('o, 'w, 'o sval) lact" where
  "prim_split_lines E X args =
     (case args of
        [v] \<Rightarrow> (case textOf X v of
                  None \<Rightarrow> throws ''ClassCastException'' (''split-lines expects a string, got '' @ typeName E v)
                | Some s \<Rightarrow> got (VVec (map (stringVal X) (splitLines s))))
      | _ \<Rightarrow> arity (length args) ''split-lines'')"

section \<open>Text to numbers\<close>

definition parseArg :: "('o, 'w) lenv \<Rightarrow> ('o, 'w) things \<Rightarrow> string \<Rightarrow> 'o sval list \<Rightarrow> ('o, 'w, string) lact" where
  "parseArg E X who args =
     (case args of
        [v] \<Rightarrow> (case textOf X v of
                  None \<Rightarrow> throws ''IllegalArgumentException'' (''Expected string, got '' @ typeName E v)
                | Some s \<Rightarrow> got s)
      | _ \<Rightarrow> arity (length args) who)"

definition isSign :: "char \<Rightarrow> bool" where
  "isSign c \<longleftrightarrow> c = CHR ''+'' \<or> c = CHR ''-''"

definition unsigned :: "string \<Rightarrow> string" where
  "unsigned s = (if s \<noteq> [] \<and> isSign (hd s) then tl s else s)"

definition decimalInt :: "string \<Rightarrow> int" where
  "decimalInt s = (if s \<noteq> [] \<and> hd s = CHR ''-'' then - int (dec_value (unsigned s)) else int (dec_value (unsigned s)))"

text \<open>\<^verbatim>\<open>std::from_chars\<close> refuses what is beyond 64 bits.\<close>

definition parseLong :: "string \<Rightarrow> int option" where
  "parseLong s =
     (if unsigned s = [] \<or> \<not> list_all isdigit (unsigned s) then None
      else if - (2 ^ 63) \<le> decimalInt s \<and> decimalInt s < 2 ^ 63 then Some (decimalInt s)
      else None)"

definition prim_parse_long :: "('o, 'w) lenv \<Rightarrow> ('o, 'w) things \<Rightarrow> 'o sval list \<Rightarrow> ('o, 'w, 'o sval) lact" where
  "prim_parse_long E X args =
     andThen (parseArg E X ''parse-long'' args) (\<lambda>s. got (case parseLong s of None \<Rightarrow> VNil | Some i \<Rightarrow> VInt i))"

definition trimSpaces :: "string \<Rightarrow> string" where
  "trimSpaces s =
     (let space = (\<lambda>c. byte c \<le> 32 \<or> 128 \<le> byte c) in
      rev (dropWhile space (rev (dropWhile space s))))"

text \<open>Digits, an optional fraction, an optional exponent; at least one digit before or after the point. What is
  left after each part.\<close>

definition afterDigits :: "string \<Rightarrow> nat \<times> string" where
  "afterDigits s = (length (takeWhile isdigit s), dropWhile isdigit s)"

definition isDoubleText :: "string \<Rightarrow> bool" where
  "isDoubleText s =
     (let (n, r) = afterDigits s;
          (m, r) = (if r \<noteq> [] \<and> hd r = CHR ''.'' then afterDigits (tl r) else (0, r)) in
      if n + m = 0 then False
      else if r \<noteq> [] \<and> (hd r = CHR ''e'' \<or> hd r = CHR ''E'')
      then (let (k, r) = afterDigits (unsigned (tl r)) in k \<noteq> 0 \<and> r = [])
      else r = [])"

definition prim_parse_double :: "('o, 'w) lenv \<Rightarrow> ('o, 'w) things \<Rightarrow> 'o floats \<Rightarrow> 'o sval list \<Rightarrow> ('o, 'w, 'o sval) lact" where
  "prim_parse_double E X N args =
     andThen (parseArg E X ''parse-double'' args) (\<lambda>s0.
       let s = trimSpaces s0;
           neg = (s \<noteq> [] \<and> hd s = CHR ''-'');
           body = unsigned s in
       got (if body = ''NaN'' then nanVal X
            else if body = ''Infinity'' then infVal X neg
            else if isDoubleText body then (if neg then dblNeg N (strtod X body) else strtod X body)
            else VNil))"

definition prim_parse_boolean :: "('o, 'w) lenv \<Rightarrow> ('o, 'w) things \<Rightarrow> 'o sval list \<Rightarrow> ('o, 'w, 'o sval) lact" where
  "prim_parse_boolean E X args =
     andThen (parseArg E X ''parse-boolean'' args) (\<lambda>s.
       got (if s = ''true'' then VTrue else if s = ''false'' then VFalse else VNil))"

text \<open>The whole digits of a double's decimal text \<^verbatim>\<open>[-]digits.digits[E[-]digits]\<close>.\<close>

definition exponentOf :: "string \<Rightarrow> int" where
  "exponentOf t = (let r = dropWhile (\<lambda>c. c \<noteq> CHR ''E'') t in if r = [] then 0 else decimalInt (tl r))"

definition mantissaOf :: "string \<Rightarrow> string" where
  "mantissaOf t = takeWhile (\<lambda>c. c \<noteq> CHR ''E'') t"

definition wholeDigits :: "string \<Rightarrow> string" where
  "wholeDigits t =
     (let m = mantissaOf t;
          digits = filter (\<lambda>c. c \<noteq> CHR ''.'') m;
          dot = (if CHR ''.'' \<in> set m then int (length (takeWhile (\<lambda>c. c \<noteq> CHR ''.'') m)) else 0) + exponentOf t in
      if dot \<le> 0 then []
      else take (nat dot) digits @ replicate (nat dot - length digits) (CHR ''0''))"

definition bigintOfDouble :: "string \<Rightarrow> int" where
  "bigintOfDouble t =
     (let neg = (t \<noteq> [] \<and> hd t = CHR ''-'');
          v = int (dec_value (wholeDigits (if neg then tl t else t)))
      in if neg then - v else v)"

definition prim_bigint :: "('o, 'w) lenv \<Rightarrow> ('o, 'w) things \<Rightarrow> 'o sval list \<Rightarrow> ('o, 'w, 'o sval) lact" where
  "prim_bigint E X args =
     (case args of
        [v] \<Rightarrow>
          if isInteger v then got v
          else if isFloat E v
          then if \<not> isFinite X v then throws ''NumberFormatException'' ''Infinite or NaN''
               else got (VInt (bigintOfDouble (doubleText X v)))
          else (case textOf X v of
                  Some s \<Rightarrow>
                    if unsigned s = [] \<or> \<not> list_all isdigit (unsigned s)
                    then throws ''NumberFormatException'' (''For input string: '' @ [CHR 0x22] @ s @ [CHR 0x22])
                    else got (VInt (decimalInt s))
                | None \<Rightarrow>
                    throws ''ClassCastException'' (''bigint expects a number or a string, got '' @ typeName E v))
      | _ \<Rightarrow> arity (length args) ''bigint'')"

section \<open>require\<close>

definition symbolText :: "('o, 'w) things \<Rightarrow> 'o sval \<Rightarrow> string" where
  "symbolText X v = (case spelling X v of None \<Rightarrow> [] | Some s \<Rightarrow> s)"

definition cannotLocate :: "string \<Rightarrow> ('o, 'w, 'a) lact" where
  "cannotLocate ns =
     (let path = map (\<lambda>c. if c = CHR ''.'' then CHR ''/'' else if c = CHR ''-'' then CHR ''_'' else c) ns in
      throws ''FileNotFoundException''
        (''Could not locate '' @ path @ ''__init.class, '' @ path @ ''.clj or '' @ path @
         ''.cljc on classpath. (protoClojure provides clojure.core, clojure.string, '' @
         ''clojure.set, clojure.java.io, clojure.java.shell, clojure.edn, cheshire.core '' @
         ''and clojure.data.json; D52)''))"

definition recordAlias :: "('o, 'w) things \<Rightarrow> string \<Rightarrow> string \<Rightarrow> ('o, 'w, unit) lact" where
  "recordAlias X alias ns \<sigma> = (Got (), \<sigma>\<lparr>outside := addAlias X alias ns (outside \<sigma>)\<rparr>)"

fun requireOptions :: "('o, 'w) things \<Rightarrow> string \<Rightarrow> 'o sval list \<Rightarrow> ('o, 'w, unit) lact" where
  "requireOptions X ns (k # v # r) =
     (let opt = symbolText X k in
      if opt = '':as'' \<or> opt = '':as-alias''
      then let alias = symbolText X v in
           if alias = [] \<or> isKeywordText alias then throws ''IllegalArgumentException'' ''require: :as takes a symbol''
           else andThen (recordAlias X alias ns) (\<lambda>_. requireOptions X ns r)
      else if opt \<noteq> '':refer'' \<and> opt \<noteq> '':rename''
      then throws ''IllegalArgumentException'' (''require: unsupported option '' @ opt)
      else requireOptions X ns r)"
| "requireOptions X ns r = got ()"

definition requireSpec :: "('o, 'w) lenv \<Rightarrow> ('o, 'w) things \<Rightarrow> nat \<Rightarrow> 'o sval \<Rightarrow> ('o, 'w, unit) lact" where
  "requireSpec E X n spec =
     (let ns = symbolText X spec in
      if ns \<noteq> []
      then if isKeywordText ns then got () else if \<not> knownNs X ns then cannotLocate ns else got ()
      else andThen (if vectorItems spec \<noteq> None \<or> isSeqObject spec then seqToList E (seqOf E n) n spec else got []) (\<lambda>parts.
        if parts = []
        then throws ''IllegalArgumentException''
               (''require: a spec is a symbol or [namespace & options], got '' @ typeName E spec)
        else let ns = symbolText X (hd parts) in
             if ns = [] \<or> isKeywordText ns
             then throws ''IllegalArgumentException'' ''require: a spec starts with a namespace symbol''
             else if \<not> knownNs X ns then cannotLocate ns
             else requireOptions X ns (tl parts)))"

fun prim_require :: "('o, 'w) lenv \<Rightarrow> ('o, 'w) things \<Rightarrow> nat \<Rightarrow> 'o sval list \<Rightarrow> ('o, 'w, 'o sval) lact" where
  "prim_require E X n [] = got VNil"
| "prim_require E X n (spec # specs) = andThen (requireSpec E X n spec) (\<lambda>_. prim_require E X n specs)"

section \<open>hash, peek and pop\<close>

definition hashInt :: "64 word \<Rightarrow> int" where
  "hashInt h = int (unat h mod 2 ^ 32) - (if bit h 31 then 2 ^ 32 else 0)"

definition prim_hash :: "('o, 'w) things \<Rightarrow> 'o sval list \<Rightarrow> ('o, 'w, 'o sval) lact" where
  "prim_hash X args = (case args of [v] \<Rightarrow> got (VInt (hashInt (keyHashOf X v))) | _ \<Rightarrow> arity (length args) ''hash'')"

definition prim_peek :: "('o, 'w) lenv \<Rightarrow> 'o sval list \<Rightarrow> ('o, 'w, 'o sval) lact" where
  "prim_peek E args =
     (case args of
        [v] \<Rightarrow> (case v of
                  VNil \<Rightarrow> got VNil
                | VVec xs \<Rightarrow> got (if xs = [] then VNil else last xs)
                | VList xs \<Rightarrow> got (if xs = [] then VNil else hd xs)
                | _ \<Rightarrow> throws ''ClassCastException'' (''peek expects a vector or a list, got '' @ typeName E v))
      | _ \<Rightarrow> arity (length args) ''peek'')"

definition prim_pop :: "('o, 'w) lenv \<Rightarrow> 'o sval list \<Rightarrow> ('o, 'w, 'o sval) lact" where
  "prim_pop E args =
     (case args of
        [v] \<Rightarrow> (case v of
                  VNil \<Rightarrow> got VNil
                | VVec xs \<Rightarrow> if xs = [] then throws ''IllegalStateException'' ''Can't pop empty vector'' else got (VVec (butlast xs))
                | VList xs \<Rightarrow> if xs = [] then throws ''IllegalStateException'' ''Can't pop empty list'' else got (VList (tl xs))
                | _ \<Rightarrow> throws ''ClassCastException'' (''pop expects a vector or a list, got '' @ typeName E v))
      | _ \<Rightarrow> arity (length args) ''pop'')"

end
