(* ===== verification/CoreProps.thy ===== *)
theory CoreProps
  imports CorePrims LazyProps "HOL-Library.Multiset"
begin

text \<open>
  The properties of the functions of CorePrims: \<^verbatim>\<open>compare\<close> is antisymmetric, \<^verbatim>\<open>sort\<close> is a stable sort, \<^verbatim>\<open>frequencies\<close> counts,
  \<^verbatim>\<open>split-lines\<close> undoes the joining of lines, \<^verbatim>\<open>parse-long\<close> reads what is printed.
\<close>

declare realizeLazy.simps [simp del]

section \<open>compare\<close>

text \<open>What the order needs of its parameters: a pointer is equal to itself for the values that are words, and doubles
  compare in opposite ways round.\<close>

definition orderly :: "('o, 'w) lenv \<Rightarrow> ('o, 'w) things \<Rightarrow> bool" where
  "orderly E X \<longleftrightarrow>
     (\<forall>a b. samePtr X a b = samePtr X b a) \<and> samePtr X VNil VNil \<and> samePtr X VTrue VTrue \<and> samePtr X VFalse VFalse \<and>
     (\<forall>a b. cmpDouble E b a = - cmpDouble E a b)"

text \<open>Two runs answer opposite signs, or both raise.\<close>

definition opposite :: "('o, 'w, int) lact \<Rightarrow> ('o, 'w, int) lact \<Rightarrow> bool" where
  "opposite m m' \<longleftrightarrow> (\<exists>c. m = got c \<and> m' = got (- c)) \<or> (\<exists>k t k' t'. m = throws k t \<and> m' = throws k' t')"

lemma opposite_got [intro]: "d = - c \<Longrightarrow> opposite (got c) (got d)"
  by (auto simp: opposite_def)

lemma opposite_throws [intro]: "opposite (throws k t) (throws k' t')"
  by (auto simp: opposite_def)

lemma compareBytes_opposite: "compareBytes s t = - compareBytes t s"
  by (induction s t rule: compareBytes.induct) auto

lemma opposite_cases:
  assumes "opposite m m'"
  obtains c where "m = got c" "m' = got (- c)" | k t k' t' where "m = throws k t" "m' = throws k' t'"
  using assms unfolding opposite_def by blast

lemma opposite_then: "opposite m m' \<Longrightarrow> (\<And>c. opposite (f c) (f' (- c))) \<Longrightarrow> opposite (andThen m f) (andThen m' f')"
  by (erule opposite_cases) (auto simp: andThen_throws)

lemma orderlyD:
  assumes "orderly E X"
  shows "samePtr X a b = samePtr X b a" "samePtr X VNil VNil" "samePtr X VTrue VTrue" "samePtr X VFalse VFalse"
    "cmpDouble E b a = - cmpDouble E a b"
  using assms unfolding orderly_def by blast+

lemma opposite_number:
  "orderly E X \<Longrightarrow> isNumber E a \<Longrightarrow> isNumber E b \<Longrightarrow> opposite (numberCompare E a b) (numberCompare E b a)"
  using orderlyD(5) [of E X b a] by (cases a; cases b) (auto simp: numberCompare_def)

lemma opposite_not: "opposite (notComparable E a b) (notComparable E b a)"
  by (auto simp: notComparable_def)

lemma compare_named:
  assumes "\<not> samePtr X a b" "a \<noteq> VNil" "b \<noteq> VNil" "\<not> (isNumber E a \<and> isNumber E b)"
    "\<not> (textOf X a \<noteq> None \<and> textOf X b \<noteq> None)" "\<not> (isBool a \<and> isBool b)"
  shows "compareValues E X a b =
    (if spelling X a \<noteq> None \<and> spelling X b \<noteq> None
     then if isKeywordText (the (spelling X a)) \<noteq> isKeywordText (the (spelling X b)) then notComparable E a b
          else got (compareBytes (the (spelling X a)) (the (spelling X b)))
     else case vectorItems a of
            None \<Rightarrow> notComparable E a b
          | Some xs \<Rightarrow>
              (case vectorItems b of
                 None \<Rightarrow> notComparable E a b
               | Some ys \<Rightarrow>
                   if length xs \<noteq> length ys then got (if length xs < length ys then - 1 else 1)
                   else compareItems E X xs ys))"
  by (subst compareValues.simps(1)) (simp only: assms if_False)

lemma compare_opposite:
  "orderly E X \<Longrightarrow> opposite (compareValues E X a b) (compareValues E X b a)"
  "orderly E X \<Longrightarrow> length xs = length ys \<Longrightarrow> opposite (compareItems E X xs ys) (compareItems E X ys xs)"
proof (induction E X a b and E X xs ys rule: compareValues_compareItems.induct)
  case (1 E X a b)
  note o = 1(2)
  note same = orderlyD(1) [OF o, of b a] orderlyD(2-4) [OF o]
  note defs = compareValues.simps(1) [of E X a b] compareValues.simps(1) [of E X b a]
  consider (same) "samePtr X a b" | (nil) "\<not> samePtr X a b" "a = VNil \<or> b = VNil"
    | (numbers) "\<not> samePtr X a b" "a \<noteq> VNil" "b \<noteq> VNil" "isNumber E a" "isNumber E b"
    | (other) "\<not> samePtr X a b" "a \<noteq> VNil" "b \<noteq> VNil" "\<not> (isNumber E a \<and> isNumber E b)"
    by blast
  then show ?case
  proof cases
    case same
    then show ?thesis using defs orderlyD(1) [OF o, of b a] by auto
  next
    case nil
    then have "\<not> samePtr X b a" "\<not> (a = VNil \<and> b = VNil)" using same(1,2) by metis+
    then show ?thesis
    proof (cases "a = VNil")
      case True
      then show ?thesis using nil \<open>\<not> samePtr X b a\<close> \<open>\<not> (a = VNil \<and> b = VNil)\<close> by (simp add: compareValues.simps opposite_got)
    next
      case False
      then show ?thesis using nil \<open>\<not> samePtr X b a\<close> by (simp add: compareValues.simps opposite_got)
    qed
  next
    case numbers
    then have "\<not> samePtr X b a" using same(1) by blast
    with numbers show ?thesis using defs opposite_number [OF o] by simp
  next
    case other
    then have "\<not> samePtr X b a" using same(1) by blast
    note low = other this same(2-4)
    show ?thesis
    proof (cases "textOf X a \<noteq> None \<and> textOf X b \<noteq> None")
      case True
      then show ?thesis using defs low compareBytes_opposite [of "the (textOf X b)" "the (textOf X a)"] by auto
    next
      case tx: False
      show ?thesis
      proof (cases "isBool a \<and> isBool b")
        case True
        then have "a = VFalse \<and> b = VTrue \<or> a = VTrue \<and> b = VFalse" using low by (auto simp: isBool_def)
        then show ?thesis using defs low tx by (auto simp: isBool_def)
      next
        case bool: False
        have sw: "\<not> samePtr X b a" "\<not> (isNumber E b \<and> isNumber E a)"
          "\<not> (textOf X b \<noteq> None \<and> textOf X a \<noteq> None)" "\<not> (isBool b \<and> isBool a)"
          using low tx bool by blast+
        note e = compare_named [OF other tx bool] compare_named [OF sw(1) other(3,2) sw(2-4)]
        have ih: "opposite (compareItems E X xs ys) (compareItems E X ys xs)"
          if "vectorItems a = Some xs" "vectorItems b = Some ys" "length xs = length ys" "spelling X a = None \<or> spelling X b = None"
          for xs ys using 1 low tx bool that by auto
        show ?thesis
          unfolding e using compareBytes_opposite [of "the (spelling X b)" "the (spelling X a)"] opposite_not [of E a b] ih
          by (auto split: option.split)
      qed
    qed
  qed
next
  case (2 E X x xs y ys)
  then show ?case by (auto intro!: opposite_then)
qed auto

text \<open>C26. \<^verbatim>\<open>compare\<close> is antisymmetric on all values: turned round it answers the opposite sign, and it raises for a pair
  exactly when it raises for the pair turned round, however deep in nested vectors.\<close>

theorem compare_antisymmetric:
  assumes "orderly E X"
  shows "(\<exists>c. compareValues E X a b = got c \<and> compareValues E X b a = got (- c)) \<or>
    (\<exists>k t k' t'. compareValues E X a b = throws k t \<and> compareValues E X b a = throws k' t')"
  using compare_opposite(1) [OF assms, of a b] by (simp add: opposite_def)

section \<open>sort\<close>

definition strictWeak :: "('a \<Rightarrow> 'a \<Rightarrow> bool) \<Rightarrow> 'a set \<Rightarrow> bool" where
  "strictWeak lt A \<longleftrightarrow>
     (\<forall>x\<in>A. \<forall>y\<in>A. lt x y \<longrightarrow> \<not> lt y x) \<and> (\<forall>x\<in>A. \<forall>y\<in>A. \<forall>z\<in>A. \<not> lt x y \<longrightarrow> \<not> lt y z \<longrightarrow> \<not> lt x z)"

primrec insertPure :: "('a \<Rightarrow> 'a \<Rightarrow> bool) \<Rightarrow> 'a \<Rightarrow> 'a list \<Rightarrow> 'a list" where
  "insertPure lt x [] = [x]"
| "insertPure lt x (y # ys) = (if lt y x then y # insertPure lt x ys else x # y # ys)"

definition sortPure :: "('a \<Rightarrow> 'a \<Rightarrow> bool) \<Rightarrow> 'a list \<Rightarrow> 'a list" where
  "sortPure lt xs = foldr (insertPure lt) xs []"

lemma insertPure_mset [simp]: "mset (insertPure lt x ys) = add_mset x (mset ys)"
  by (induction ys) auto

lemma sortPure_simps [simp]: "sortPure lt [] = []" "sortPure lt (x # xs) = insertPure lt x (sortPure lt xs)"
  by (simp_all add: sortPure_def)

lemma sortPure_mset [simp]: "mset (sortPure lt xs) = mset xs"
  by (induction xs) auto

lemma sortPure_set [simp]: "set (sortPure lt xs) = set xs"
  by (metis set_mset_mset sortPure_mset)

lemma insertPure_set [simp]: "set (insertPure lt x ys) = insert x (set ys)"
  by (metis insertPure_mset set_mset_add_mset_insert set_mset_mset)

lemma stable_insert:
  "(\<And>y. y \<in> set ys \<Longrightarrow> before y x = got (lt y x)) \<Longrightarrow> insertStable before x ys = got (insertPure lt x ys)"
  by (induction ys) auto

lemma stable_sort:
  "(\<And>x y. x \<in> set xs \<Longrightarrow> y \<in> set xs \<Longrightarrow> before x y = got (lt x y)) \<Longrightarrow> stableSort before xs = got (sortPure lt xs)"
  by (induction xs) (auto intro!: stable_insert)

lemma strictWeakD:
  assumes "strictWeak lt A" "x \<in> A" "y \<in> A"
  shows "lt x y \<Longrightarrow> \<not> lt y x" and "z \<in> A \<Longrightarrow> \<not> lt x y \<Longrightarrow> \<not> lt y z \<Longrightarrow> \<not> lt x z"
  using assms unfolding strictWeak_def by blast+

lemma strictWeak_mono: "strictWeak lt A \<Longrightarrow> B \<subseteq> A \<Longrightarrow> strictWeak lt B"
  unfolding strictWeak_def by blast

lemma insert_sorted_wrt:
  assumes "strictWeak lt (insert x (set ys))" "sorted_wrt (\<lambda>a b. \<not> lt b a) ys"
  shows "sorted_wrt (\<lambda>a b. \<not> lt b a) (insertPure lt x ys)"
  using assms
proof (induction ys)
  case (Cons y ys)
  have sw: "strictWeak lt (insert x (set ys))" using Cons.prems(1) by (rule strictWeak_mono) auto
  have ys: "\<not> lt z y" if "z \<in> set ys" for z using Cons.prems(2) that by simp
  have "\<not> lt z x" if "\<not> lt y x" "z \<in> set ys" for z
    using strictWeakD(2) [OF Cons.prems(1), of z y x] ys that by simp
  moreover have "lt y x \<Longrightarrow> \<not> lt x y" using strictWeakD(1) [OF Cons.prems(1), of y x] by simp
  ultimately show ?case using Cons.IH [OF sw] Cons.prems(2) ys by auto
qed simp

lemma insert_stable:
  assumes "strictWeak lt (insert p (insert x (set ys)))"
  shows "filter (\<lambda>y. \<not> lt p y \<and> \<not> lt y p) (insertPure lt x ys) = filter (\<lambda>y. \<not> lt p y \<and> \<not> lt y p) (x # ys)"
  using assms
proof (induction ys)
  case (Cons y ys)
  have sw: "strictWeak lt (insert p (insert x (set ys)))" using Cons.prems by (rule strictWeak_mono) auto
  have "\<not> lt y p \<Longrightarrow> \<not> lt p x \<Longrightarrow> \<not> lt y x" using strictWeakD(2) [OF Cons.prems, of y p x] by simp
  with Cons.IH [OF sw] show ?case by auto
qed simp

lemma sortPure_ok:
  assumes "strictWeak lt (set xs)"
  shows "sorted_wrt (\<lambda>a b. \<not> lt b a) (sortPure lt xs)"
    and "p \<in> set xs \<Longrightarrow> filter (\<lambda>y. \<not> lt p y \<and> \<not> lt y p) (sortPure lt xs) = filter (\<lambda>y. \<not> lt p y \<and> \<not> lt y p) xs"
proof -
  show "sorted_wrt (\<lambda>a b. \<not> lt b a) (sortPure lt xs)"
    using assms
  proof (induction xs)
    case (Cons x xs)
    have "strictWeak lt (set xs)" using Cons.prems by (rule strictWeak_mono) auto
    with Cons show ?case by (auto intro!: insert_sorted_wrt)
  qed simp
  have "strictWeak lt (insert p (set ys)) \<Longrightarrow>
    filter (\<lambda>y. \<not> lt p y \<and> \<not> lt y p) (sortPure lt ys) = filter (\<lambda>y. \<not> lt p y \<and> \<not> lt y p) ys" for ys
  proof (induction ys)
    case (Cons y ys)
    have "strictWeak lt (insert p (set ys))" using Cons.prems by (rule strictWeak_mono) auto
    with Cons insert_stable [of lt p y "sortPure lt ys"] show ?case by (simp add: insert_commute)
  qed simp
  then show "p \<in> set xs \<Longrightarrow> filter (\<lambda>y. \<not> lt p y \<and> \<not> lt y p) (sortPure lt xs) = filter (\<lambda>y. \<not> lt p y \<and> \<not> lt y p) xs"
    using assms by (simp add: insert_absorb)
qed

lemma strictWeak_map: "strictWeak lt (f ` A) \<Longrightarrow> strictWeak (\<lambda>p q. lt (f p) (f q)) A"
  unfolding strictWeak_def by blast

lemma callEach_keys: "pureOn E f g (set xs) \<Longrightarrow> callEach E f xs [] = got (map g xs)"
  by (rule ext) (simp add: callEach_pure got_def)

text \<open>Sorting by keys: the pairs of a key and its element.\<close>

lemma sortedList_ok:
  assumes "gives E T q coll xs True" "keyfn \<noteq> VNil \<and> pureOn E keyfn k (set xs) \<or> keyfn = VNil \<and> (\<forall>x. k x = x)"
    and "\<And>x y. x \<in> set xs \<Longrightarrow> y \<in> set xs \<Longrightarrow> callComparator E X cmp (k x) (k y) = got (g (k x) (k y))"
  shows "triple E (Suc q) T (\<lambda>n. sortedList E X n keyfn cmp coll)
    (\<lambda>r _. r = VList (map snd (sortPure (\<lambda>p q. g (fst p) (fst q) < 0) (map (\<lambda>x. (k x, x)) xs))))"
proof -
  have keys: "(if keyfn \<noteq> VNil then callEach E keyfn xs [] else got xs) = got (map k xs)"
    using assms(2) callEach_keys [of E keyfn k xs] by (auto simp: map_idI)
  have sort: "stableSort (\<lambda>p q. andThen (callComparator E X cmp (fst p) (fst q)) (\<lambda>c. got (c < 0))) (map (\<lambda>x. (k x, x)) xs) =
      got (sortPure (\<lambda>p q. g (fst p) (fst q) < 0) (map (\<lambda>x. (k x, x)) xs))"
    using assms(3) by (intro stable_sort) auto
  have zip: "zip (map k xs) xs = map (\<lambda>x. (k x, x)) xs" by (simp add: zip_map1 zip_same_conv_map)
  show ?thesis
    unfolding sortedList_def
  proof (rule triple_bind [OF seqToList_ok [OF seqSound_all lessI assms(1)]])
    fix ys T' assume "ys = xs"
    then show "triple E (Suc q) T' (\<lambda>n. if ys = [] then got (VList [])
        else andThen (if keyfn \<noteq> VNil then callEach E keyfn ys [] else got ys) (\<lambda>keys.
          andThen (stableSort (\<lambda>p q. andThen (callComparator E X cmp (fst p) (fst q)) (\<lambda>c. got (c < 0))) (zip keys ys))
            (\<lambda>sorted. got (VList (map snd sorted)))))
      (\<lambda>r _. r = VList (map snd (sortPure (\<lambda>p q. g (fst p) (fst q) < 0) (map (\<lambda>x. (k x, x)) xs))))"
      unfolding \<open>ys = xs\<close> keys by (cases "xs = []") (simp_all add: zip sort triple_got)
  qed
qed

lemma map_snd_sorted:
  "sorted_wrt (\<lambda>p q. \<not> h (fst q) (fst p)) ps \<Longrightarrow> (\<forall>p\<in>set ps. fst p = k (snd p)) \<Longrightarrow>
   sorted_wrt (\<lambda>x y. \<not> h (k y) (k x)) (map snd ps)"
  by (induction ps) auto

text \<open>C22. \<^verbatim>\<open>sort-by\<close> answers a list of the same elements, in the order of their keys, and leaves elements with equivalent keys
  in the order they had, for any comparator that answers a strict weak order on the keys; whatever the sequence
  is held in.\<close>

theorem sort_by_stable:
  assumes "storeOk E T \<sigma>" "free (Suc q) T \<sigma>" "gives E T q coll xs True"
    and "keyfn \<noteq> VNil" "pureOn E keyfn k (set xs)"
    and "\<forall>x\<in>set xs. \<forall>y\<in>set xs. callComparator E X cmp (k x) (k y) = got (g (k x) (k y))"
    and "strictWeak (\<lambda>a b. g a b < 0) (k ` set xs)"
  shows "\<exists>ys N \<sigma>'. (\<forall>n\<ge>N. prim_sort_by E X n [keyfn, cmp, coll] \<sigma> = (Got (VList ys), \<sigma>')) \<and> mset ys = mset xs \<and>
    sorted_wrt (\<lambda>x y. \<not> g (k y) (k x) < 0) ys \<and>
    (\<forall>x\<in>set xs. filter (\<lambda>y. \<not> g (k x) (k y) < 0 \<and> \<not> g (k y) (k x) < 0) ys =
                 filter (\<lambda>y. \<not> g (k x) (k y) < 0 \<and> \<not> g (k y) (k x) < 0) xs)"
proof -
  let ?ps = "map (\<lambda>x. (k x, x)) xs" and ?lt = "\<lambda>p q. g (fst p) (fst q) < 0"
  let ?s = "sortPure ?lt ?ps" and ?eq = "\<lambda>x y. \<not> g (k x) (k y) < 0 \<and> \<not> g (k y) (k x) < 0"
  have sw: "strictWeak ?lt (set ?ps)"
    using strictWeak_map [of "\<lambda>a b. g a b < 0" fst "set ?ps"] assms(7) by (simp add: image_image)
  have fs: "\<forall>p\<in>set ?s. fst p = k (snd p)" by auto
  obtain N \<sigma>' where "\<forall>n\<ge>N. sortedList E X n keyfn cmp coll \<sigma> = (Got (VList (map snd ?s)), \<sigma>')"
    using triple_end [OF sortedList_ok [OF assms(3), of keyfn k X cmp g] assms(1,2)] assms(4-6) by blast
  moreover have "mset (map snd ?s) = mset xs"
  proof -
    have "mset (map snd ?s) = mset (map snd ?ps)" by (simp only: mset_map sortPure_mset)
    then show ?thesis by (simp add: o_def)
  qed
  moreover have "sorted_wrt (\<lambda>x y. \<not> g (k y) (k x) < 0) (map snd ?s)"
    by (rule map_snd_sorted [where h = "\<lambda>a b. g a b < 0", OF sortPure_ok(1) [OF sw] fs])
  moreover have "filter (?eq x) (map snd ?s) = filter (?eq x) xs" if "x \<in> set xs" for x
  proof -
    have "filter (?eq x) (map snd ?s) = map snd (filter (\<lambda>p. ?eq x (snd p)) ?s)" by (simp add: filter_map o_def)
    also have "filter (\<lambda>p. ?eq x (snd p)) ?s = filter (\<lambda>p. \<not> ?lt (k x, x) p \<and> \<not> ?lt p (k x, x)) ?s"
      using fs by (intro filter_cong) auto
    also have "\<dots> = filter (\<lambda>p. \<not> ?lt (k x, x) p \<and> \<not> ?lt p (k x, x)) ?ps"
      using sortPure_ok(2) [OF sw, of "(k x, x)"] that by simp
    also have "map snd \<dots> = filter (?eq x) xs" by (simp add: filter_map o_def)
    finally show ?thesis .
  qed
  ultimately show ?thesis unfolding prim_sort_by_def by (intro exI [of _ "map snd ?s"] exI [of _ N] exI [of _ \<sigma>']) simp
qed

definition sampleThings :: "(nat, unit) things" where
  "sampleThings =
     \<lparr>textOf = (\<lambda>_. None), spelling = (\<lambda>_. None), samePtr = (=), keyEq = (=), keyHashOf = (\<lambda>_. 0),
      mapOf = (\<lambda>kvs. VVec (concat (map (\<lambda>kv. [fst kv, snd kv]) kvs))), stringVal = (\<lambda>_. VNil), knownNs = (\<lambda>_. False),
      addAlias = (\<lambda>_ _ w. w), doubleText = (\<lambda>_. []), isFinite = (\<lambda>_. True), strtod = (\<lambda>_. VNil), nanVal = VNil,
      infVal = (\<lambda>_. VNil)\<rparr>"

definition boolOrder :: "nat sval \<Rightarrow> nat sval \<Rightarrow> int" where
  "boolOrder a b = (if a = b then 0 else if a = VFalse then - 1 else 1)"

lemma sample_order:
  "callComparator sampleEnv sampleThings VNil (sampleOdd (VInt i)) (sampleOdd (VInt j)) =
     got (boolOrder (sampleOdd (VInt i)) (sampleOdd (VInt j)))"
  by (auto simp: callComparator_def compareValues.simps sampleThings_def boolOrder_def sampleOdd_def isBool_def)

theorem sort_by_stable_witness:
  "\<exists>ys N \<sigma>'. (\<forall>n\<ge>N. prim_sort_by sampleEnv sampleThings n [VObj 1, VNil, VLazy 0] sampleStore = (Got (VList ys), \<sigma>')) \<and>
     mset ys = {#VInt 0, VInt 1, VInt 2#}"
proof -
  have sw: "strictWeak (\<lambda>a b. boolOrder a b < 0) (sampleOdd ` set [VInt 0, VInt 1, VInt 2])"
    by (auto simp: strictWeak_def boolOrder_def sampleOdd_def)
  from sort_by_stable [OF sample_store sample_gives _ sample_pure(2) _ sw, of sampleThings VNil]
  show ?thesis by (simp add: sample_order) blast
qed

lemma sample_orderly: "orderly sampleEnv sampleThings"
  by (auto simp: orderly_def sampleEnv_def sampleThings_def)

theorem compare_antisymmetric_witness:
  "compareValues sampleEnv sampleThings (VVec [VInt 1, VVec [VTrue]]) (VVec [VInt 1, VVec [VFalse]]) = got 1"
proof -
  have "compareValues sampleEnv sampleThings (VVec [VInt 1, VVec [VFalse]]) (VVec [VInt 1, VVec [VTrue]]) = got (- 1)"
    by (simp add: compareValues.simps sampleThings_def isBool_def)
  then show ?thesis
    using compare_antisymmetric [OF sample_orderly, of "VVec [VInt 1, VVec [VFalse]]" "VVec [VInt 1, VVec [VTrue]]"]
    by (auto simp: got_def throws_def fun_eq_iff)
qed

section \<open>frequencies\<close>

lemma countOne_filter:
  assumes "equivp eq"
  shows "map snd (filter (\<lambda>kc. eq (fst kc) z) (countOne eq x t)) =
    (let l = map snd (filter (\<lambda>kc. eq (fst kc) z) t) in
     if eq x z then (case l of [] \<Rightarrow> [1] | c # r \<Rightarrow> (c + 1) # r) else l)"
proof (induction t)
  case (Cons kc t)
  have "eq (fst kc) x \<Longrightarrow> eq (fst kc) z \<longleftrightarrow> eq x z" using assms by (metis equivp_def)
  moreover have "\<not> eq (fst kc) x \<Longrightarrow> eq (fst kc) z \<Longrightarrow> \<not> eq x z" using assms by (metis equivp_def)
  ultimately show ?case using Cons by (cases kc) (auto simp: Let_def)
qed simp

text \<open>The table after the elements \<open>ys\<close>: one entry for each class of equal elements, with how many there were.\<close>

definition tableOf :: "('a \<Rightarrow> 'a \<Rightarrow> bool) \<Rightarrow> 'a list \<Rightarrow> ('a \<times> nat) list" where
  "tableOf eq ys = foldl (\<lambda>t y. countOne eq y t) [] ys"

lemma tableOf_counts:
  assumes "equivp eq"
  shows "map snd (filter (\<lambda>kc. eq (fst kc) z) (tableOf eq ys)) =
    (if \<exists>y\<in>set ys. eq y z then [length (filter (\<lambda>y. eq y z) ys)] else [])"
proof (induction ys rule: rev_induct)
  case (snoc y ys)
  have "filter (\<lambda>y. eq y z) ys = []" if "\<not> (\<exists>y\<in>set ys. eq y z)" using that by (simp add: filter_empty_conv)
  with snoc show ?case by (auto simp: tableOf_def countOne_filter [OF assms] Let_def)
qed (simp add: tableOf_def)

lemma freqLoop_ok:
  assumes "seqSound E l" "q < l"
  shows "walkOk E q ys True w T \<Longrightarrow>
    triple E l T (\<lambda>n. freqLoop X (seqOf E (n + d)) n w t) (\<lambda>r _. r = foldl (\<lambda>t y. countOne (keyEq X) y t) t ys)"
proof (induction ys arbitrary: w T t d)
  case Nil
  then have "walkDone w" by (simp add: walkOk_done)
  then show ?case by (intro triple_Suc [where F = "\<lambda>n. freqLoop X (seqOf E (n + d)) n w t"]) auto
next
  case (Cons y ys)
  then have w: "\<not> walkDone w" "walkFirst w = y" by (simp_all add: walkOk_done walkOk_first)
  have "triple E l T (\<lambda>n. andThen (walkAdvance (seqOf E (n + Suc d)) w)
      (\<lambda>w'. freqLoop X (seqOf E (n + Suc d)) n w' (countOne (keyEq X) y t)))
    (\<lambda>r _. r = foldl (\<lambda>t y. countOne (keyEq X) y t) t (y # ys))"
  proof (rule triple_bind [OF walkOk_advance [OF assms Cons.prems]])
    fix w' T' assume "walkOk E q ys True w' T'"
    from Cons.IH [OF this, of "Suc d" "countOne (keyEq X) y t"]
    show "triple E l T' (\<lambda>n. freqLoop X (seqOf E (n + Suc d)) n w' (countOne (keyEq X) y t))
      (\<lambda>r _. r = foldl (\<lambda>t y. countOne (keyEq X) y t) t (y # ys))" by simp
  qed simp
  with w show ?case by (intro triple_Suc [where F = "\<lambda>n. freqLoop X (seqOf E (n + d)) n w t"]) simp
qed

text \<open>C27. \<^verbatim>\<open>frequencies\<close> answers the map of a table in which every element of the sequence is equal, as map keys are, to
  exactly one key, whose value is the number of the elements that are equal to it, and no other keys are.\<close>

theorem frequencies_count:
  assumes "storeOk E T \<sigma>" "free (Suc q) T \<sigma>" "gives E T q coll ys True" "equivp (keyEq X)"
  shows "\<exists>table N \<sigma>'. (\<forall>n\<ge>N. prim_frequencies E X n [coll] \<sigma> = (Got (mapOf X (map (\<lambda>kc. (fst kc, VInt (int (snd kc)))) table)), \<sigma>')) \<and>
    (\<forall>z. map snd (filter (\<lambda>kc. keyEq X (fst kc) z) table) =
       (if \<exists>y\<in>set ys. keyEq X y z then [length (filter (\<lambda>y. keyEq X y z) ys)] else []))"
proof -
  let ?t = "tableOf (keyEq X) ys"
  have "triple E (Suc q) T (\<lambda>n. andThen (andThen (walkStart (seqOf E n) coll) (\<lambda>w. freqLoop X (seqOf E n) n w []))
      (\<lambda>counts. got (mapOf X (map (\<lambda>kc. (fst kc, VInt (int (snd kc)))) counts))))
    (\<lambda>r _. r = mapOf X (map (\<lambda>kc. (fst kc, VInt (int (snd kc)))) ?t))"
  proof (rule triple_map [where Q = "\<lambda>r _. r = ?t"])
    show "triple E (Suc q) T (\<lambda>n. andThen (walkStart (seqOf E n) coll) (\<lambda>w. freqLoop X (seqOf E n) n w [])) (\<lambda>r _. r = ?t)"
      using freqLoop_ok [OF seqSound_all, where q = q and l = "Suc q" and d = 0 and t = "[]" and X = X]
      by (intro walk_bind [OF assms(3)]) (auto simp: tableOf_def)
  qed simp
  from triple_end [OF this assms(1,2)] tableOf_counts [OF assms(4)] show ?thesis
    unfolding prim_frequencies_def by (intro exI [of _ ?t]) simp
qed

theorem frequencies_count_witness:
  "\<exists>table N \<sigma>'. (\<forall>n\<ge>N. prim_frequencies sampleEnv sampleThings n [VLazy 0] sampleStore =
      (Got (mapOf sampleThings (map (\<lambda>kc. (fst kc, VInt (int (snd kc)))) table)), \<sigma>')) \<and>
    map snd (filter (\<lambda>kc. fst kc = VInt 1) table) = [1]"
proof -
  have "equivp (keyEq sampleThings)" by (simp add: sampleThings_def identity_equivp)
  note freq = frequencies_count [OF sample_store sample_gives this]
  obtain table N \<sigma>' where t: "(\<forall>n\<ge>N. prim_frequencies sampleEnv sampleThings n [VLazy 0] sampleStore =
        (Got (mapOf sampleThings (map (\<lambda>kc. (fst kc, VInt (int (snd kc)))) table)), \<sigma>')) \<and>
      (\<forall>z. map snd (filter (\<lambda>kc. keyEq sampleThings (fst kc) z) table) =
        (if \<exists>y\<in>set [VInt 0, VInt 1, VInt 2]. keyEq sampleThings y z
         then [length (filter (\<lambda>y. keyEq sampleThings y z) [VInt 0, VInt 1, VInt 2])] else []))"
    using freq by (elim exE) (rule that)
  from spec [OF conjunct2 [OF t], of "VInt 1"] have "map snd (filter (\<lambda>kc. fst kc = VInt 1) table) = [1]"
    by (simp add: sampleThings_def)
  with conjunct1 [OF t] show ?thesis by (intro exI conjI)
qed

section \<open>Text\<close>

lemma linesFrom_line: "CHR 0x0A \<notin> set l \<Longrightarrow> linesFrom cur (l @ CHR 0x0A # r) = stripCR (cur @ l) # linesFrom [] r"
  by (induction l arbitrary: cur) auto

lemma linesFrom_last: "CHR 0x0A \<notin> set l \<Longrightarrow> linesFrom cur l = [cur @ l]"
  by (induction l arbitrary: cur) auto

fun joinLines :: "string \<Rightarrow> string list \<Rightarrow> string" where
  "joinLines sep [] = []"
| "joinLines sep [l] = l"
| "joinLines sep (l # ls) = l @ sep @ joinLines sep ls"

definition plainLine :: "string \<Rightarrow> bool" where
  "plainLine l \<longleftrightarrow> CHR 0x0A \<notin> set l \<and> (l \<noteq> [] \<longrightarrow> last l \<noteq> CHR 0x0D)"

lemma stripCR_plain: "plainLine l \<Longrightarrow> stripCR l = l" "stripCR (l @ [CHR 0x0D]) = l"
  by (auto simp: plainLine_def stripCR_def)

lemma linesFrom_join:
  assumes "sep = [CHR 0x0A] \<or> sep = [CHR 0x0D, CHR 0x0A]"
  shows "ls \<noteq> [] \<Longrightarrow> \<forall>l\<in>set ls. plainLine l \<Longrightarrow> linesFrom [] (joinLines sep ls) = ls"
proof (induction ls rule: induct_list012)
  case (2 l)
  then show ?case by (simp add: linesFrom_last plainLine_def)
next
  case (3 l l' ls)
  let ?r = "joinLines sep (l' # ls)"
  have l: "plainLine l" and IH: "linesFrom [] ?r = l' # ls" using 3 by simp_all
  then have nl: "CHR 0x0A \<notin> set l" "CHR 0x0A \<notin> set (l @ [CHR 0x0D])" by (auto simp: plainLine_def)
  from assms have "linesFrom [] (l @ sep @ ?r) = l # linesFrom [] ?r"
  proof
    assume "sep = [CHR 0x0A]"
    with linesFrom_line [OF nl(1), of "[]" ?r] stripCR_plain(1) [OF l] show ?thesis by simp
  next
    assume "sep = [CHR 0x0D, CHR 0x0A]"
    with linesFrom_line [OF nl(2), of "[]" ?r] stripCR_plain(2) [of l] show ?thesis by simp
  qed
  with IH show ?case by simp
qed simp

text \<open>\<^verbatim>\<open>split-lines\<close> of lines joined by newlines, or by carriage returns and newlines, gives the lines back, when none
  holds a newline or ends in a carriage return and the last is not empty.\<close>

theorem split_lines_joined:
  assumes "sep = [CHR 0x0A] \<or> sep = [CHR 0x0D, CHR 0x0A]" "ls \<noteq> []" "\<forall>l\<in>set ls. plainLine l" "last ls \<noteq> []"
  shows "splitLines (joinLines sep ls) = ls"
proof -
  have "dropEmptyLines ls = ls" using assms(4) by (subst dropEmptyLines.simps) simp
  moreover have "\<not> (length ls = 1 \<and> hd ls = [])" using assms(4) by (cases ls) auto
  ultimately show ?thesis using linesFrom_join [OF assms(1-3)] by (auto simp: splitLines_def)
qed

theorem split_lines_joined_witness: "splitLines (joinLines [CHR 0x0D, CHR 0x0A] [''a'', [], ''bc'']) = [''a'', [], ''bc'']"
  by (rule split_lines_joined) (auto simp: plainLine_def)

lemma int_dec_parts:
  "unsigned (int_dec i) = dec (nat \<bar>i\<bar>)" "decimalInt (int_dec i) = i"
proof -
  have d: "isdigit (hd (dec n))" for n using dec_digits [of "hd (dec n)" n] by simp
  moreover have "\<not> isdigit (CHR ''+'')" "\<not> isdigit (CHR ''-'')" by (simp_all add: isdigit_def)
  ultimately have s: "\<not> isSign (hd (dec n))" for n unfolding isSign_def by metis
  then have "hd (dec n) \<noteq> CHR ''-''" for n by (auto simp: isSign_def)
  moreover have "unsigned (dec n) = dec n" for n using s by (simp add: unsigned_def)
  moreover have "unsigned (CHR ''-'' # t) = t" for t by (simp add: unsigned_def isSign_def)
  ultimately show "unsigned (int_dec i) = dec (nat \<bar>i\<bar>)" "decimalInt (int_dec i) = i"
    by (simp_all add: int_dec_def decimalInt_def)
qed

text \<open>\<^verbatim>\<open>parse-double\<close> takes every byte beyond ASCII around its text for a space, since it compares plain characters.\<close>

lemma high_bytes_trimmed: "\<forall>c\<in>set p. 128 \<le> byte c \<Longrightarrow> trimSpaces (p @ s) = trimSpaces s"
  by (induction p) (auto simp: trimSpaces_def)

text \<open>\<^verbatim>\<open>parse-long\<close> of the decimal text of an integer is the integer when it fits 64 bits and nil when it does not.\<close>

theorem parse_long_printed:
  "parseLong (int_dec i) = (if - (2 ^ 63) \<le> i \<and> i < 2 ^ 63 then Some i else None)"
  by (auto simp: parseLong_def int_dec_parts list_all_iff dest: dec_digits)

end
