(* ===== verification/Atoms.thy ===== *)
theory Atoms
  imports Prelude "HOL-Library.AList"
begin

text \<open>
  Atoms (src/runtime/Primitives.cpp): \<^verbatim>\<open>swap!\<close>, \<^verbatim>\<open>reset!\<close>, \<^verbatim>\<open>compare-and-set!\<close>, \<^verbatim>\<open>add-watch\<close> and \<^verbatim>\<open>remove-watch\<close> as interleaved
  steps of any number of calls on one atom. Each call is one entry of the list of calls, at the grain of one read or
  one compare-and-set of protoCore; calls of one thread are calls of which one starts after the other
  returned. Values are pointers. A function of \<^verbatim>\<open>swap!\<close> answers any of its outcomes or raises (\<open>None\<close>); what a watch does is
  not followed, since whatever it raises is swallowed. The map of watches is compared by pointer: a version number.
\<close>

section \<open>The calls\<close>

datatype ('v, 'f) call = Swap 'f | Reset 'v | CompareAndSet 'v 'v | AddWatch nat 'f | RemoveWatch nat

datatype ('v, 'f) pc =
  Looping
| Calling 'v
| Trying 'v 'v
| Won 'v 'v
| Firing "(nat \<times> 'f) list" 'v 'v
| WatchTrying nat "(nat \<times> 'f) list"
| Returned bool
| Raised

record ('v, 'f) atom =
  content :: 'v
  watchMap :: "(nat \<times> 'f) list"
  watchVersion :: nat
  pcs :: "('v, 'f) pc list"
  writes :: "(nat \<times> 'v \<times> 'v) list"
  heard :: "(nat \<times> nat \<times> 'v \<times> 'v) list"

definition goto :: "nat \<Rightarrow> ('v, 'f) pc \<Rightarrow> ('v, 'f) atom \<Rightarrow> ('v, 'f) atom" where
  "goto i p S = S\<lparr>pcs := (pcs S)[i := p]\<rparr>"

text \<open>\<^verbatim>\<open>setAttributeIfEqual\<close> on the value, and what a call does when it fails: \<^verbatim>\<open>compare-and-set!\<close> answers false, the others
  try again.\<close>

definition trySet :: "('v, 'f) call \<Rightarrow> nat \<Rightarrow> 'v \<Rightarrow> 'v \<Rightarrow> ('v, 'f) atom \<Rightarrow> ('v, 'f) atom" where
  "trySet c i old neu S =
     (if content S = old
      then goto i (Won old neu) (S\<lparr>content := neu, writes := writes S @ [(i, old, neu)]\<rparr>)
      else goto i (case c of CompareAndSet e v \<Rightarrow> Returned False | _ \<Rightarrow> Looping) S)"

definition trySetWatches :: "nat \<Rightarrow> nat \<Rightarrow> (nat \<times> 'f) list \<Rightarrow> ('v, 'f) atom \<Rightarrow> ('v, 'f) atom" where
  "trySetWatches i ver m S =
     (if watchVersion S = ver then goto i (Returned True) (S\<lparr>watchMap := m, watchVersion := ver + 1\<rparr>)
      else goto i Looping S)"

inductive astep ::
    "('f \<Rightarrow> 'v \<Rightarrow> 'v option \<Rightarrow> bool) \<Rightarrow> ('v, 'f) call list \<Rightarrow> ('v, 'f) atom \<Rightarrow> ('v, 'f) atom \<Rightarrow> bool" for outcome calls where
  swap_read: "i < length calls \<Longrightarrow> pcs S ! i = Looping \<Longrightarrow> calls ! i = Swap f \<Longrightarrow>
    astep outcome calls S (goto i (Calling (content S)) S)"
| swap_called: "i < length calls \<Longrightarrow> pcs S ! i = Calling old \<Longrightarrow> calls ! i = Swap f \<Longrightarrow> outcome f old (Some neu) \<Longrightarrow>
    astep outcome calls S (goto i (Trying old neu) S)"
| swap_raised: "i < length calls \<Longrightarrow> pcs S ! i = Calling old \<Longrightarrow> calls ! i = Swap f \<Longrightarrow> outcome f old None \<Longrightarrow>
    astep outcome calls S (goto i Raised S)"
| reset_read: "i < length calls \<Longrightarrow> pcs S ! i = Looping \<Longrightarrow> calls ! i = Reset v \<Longrightarrow>
    astep outcome calls S (goto i (Trying (content S) v) S)"
| cas_start: "i < length calls \<Longrightarrow> pcs S ! i = Looping \<Longrightarrow> calls ! i = CompareAndSet e v \<Longrightarrow>
    astep outcome calls S (goto i (Trying e v) S)"
| try_set: "i < length calls \<Longrightarrow> pcs S ! i = Trying old neu \<Longrightarrow>
    astep outcome calls S (trySet (calls ! i) i old neu S)"
| fire: "i < length calls \<Longrightarrow> pcs S ! i = Won old neu \<Longrightarrow>
    astep outcome calls S (goto i (Firing (watchMap S) old neu) S)"
| notify: "i < length calls \<Longrightarrow> pcs S ! i = Firing ((k, g) # ws) old neu \<Longrightarrow>
    astep outcome calls S (goto i (Firing ws old neu) (S\<lparr>heard := heard S @ [(i, k, old, neu)]\<rparr>))"
| fired: "i < length calls \<Longrightarrow> pcs S ! i = Firing [] old neu \<Longrightarrow>
    astep outcome calls S (goto i (Returned True) S)"
| watch_read: "i < length calls \<Longrightarrow> pcs S ! i = Looping \<Longrightarrow> calls ! i = AddWatch k g \<Longrightarrow>
    astep outcome calls S (goto i (WatchTrying (watchVersion S) (AList.update k g (watchMap S))) S)"
| unwatch_absent: "i < length calls \<Longrightarrow> pcs S ! i = Looping \<Longrightarrow> calls ! i = RemoveWatch k \<Longrightarrow> k \<notin> fst ` set (watchMap S) \<Longrightarrow>
    astep outcome calls S (goto i (Returned True) S)"
| unwatch_read: "i < length calls \<Longrightarrow> pcs S ! i = Looping \<Longrightarrow> calls ! i = RemoveWatch k \<Longrightarrow> k \<in> fst ` set (watchMap S) \<Longrightarrow>
    astep outcome calls S (goto i (WatchTrying (watchVersion S) (AList.delete k (watchMap S))) S)"
| try_watches: "i < length calls \<Longrightarrow> pcs S ! i = WatchTrying ver m \<Longrightarrow>
    astep outcome calls S (trySetWatches i ver m S)"

definition atomStart :: "'v \<Rightarrow> nat \<Rightarrow> ('v, 'f) atom" where
  "atomStart v n = \<lparr>content = v, watchMap = [], watchVersion = 0, pcs = replicate n Looping, writes = [], heard = []\<rparr>"

inductive areach ::
    "('f \<Rightarrow> 'v \<Rightarrow> 'v option \<Rightarrow> bool) \<Rightarrow> ('v, 'f) call list \<Rightarrow> 'v \<Rightarrow> ('v, 'f) atom \<Rightarrow> bool" for outcome calls v where
  atom_start: "areach outcome calls v (atomStart v (length calls))"
| atom_step: "areach outcome calls v S \<Longrightarrow> astep outcome calls S S' \<Longrightarrow> areach outcome calls v S'"

section \<open>The writes are a line\<close>

fun linked :: "'v \<Rightarrow> (nat \<times> 'v \<times> 'v) list \<Rightarrow> 'v \<Rightarrow> bool" where
  "linked v [] w = (v = w)"
| "linked v ((i, a, b) # r) w = (a = v \<and> linked b r w)"

lemma linked_snoc [simp]: "linked v (ws @ [(i, a, b)]) w \<longleftrightarrow> linked v ws a \<and> b = w"
  by (induction v ws w rule: linked.induct) auto

text \<open>What a write of a call is.\<close>

fun effectOf :: "('f \<Rightarrow> 'v \<Rightarrow> 'v option \<Rightarrow> bool) \<Rightarrow> ('v, 'f) call \<Rightarrow> 'v \<Rightarrow> 'v \<Rightarrow> bool" where
  "effectOf outcome (Swap f) a b = outcome f a (Some b)"
| "effectOf outcome (Reset v) a b = (b = v)"
| "effectOf outcome (CompareAndSet e v) a b = (a = e \<and> b = v)"
| "effectOf outcome c a b = False"

text \<open>What a call has written so far, from its place in its code.\<close>

fun wrote :: "('v, 'f) pc \<Rightarrow> ('v \<times> 'v) option" where
  "wrote (Won a b) = Some (a, b)"
| "wrote (Firing ws a b) = Some (a, b)"
| "wrote p = None"

fun pcOk :: "('f \<Rightarrow> 'v \<Rightarrow> 'v option \<Rightarrow> bool) \<Rightarrow> ('v, 'f) call \<Rightarrow> bool \<Rightarrow> ('v, 'f) pc \<Rightarrow> bool" where
  "pcOk outcome c w (Trying a b) = (effectOf outcome c a b \<and> \<not> w)"
| "pcOk outcome c w (Won a b) = w"
| "pcOk outcome c w (Firing ws a b) = w"
| "pcOk outcome c w (Returned r) = (case c of Swap f \<Rightarrow> r \<and> w | Reset v \<Rightarrow> r \<and> w | CompareAndSet e v \<Rightarrow> w = r | _ \<Rightarrow> \<not> w)"
| "pcOk outcome c w (WatchTrying n m) = (\<not> w \<and> (case c of AddWatch k g \<Rightarrow> True | RemoveWatch k \<Rightarrow> True | _ \<Rightarrow> False))"
| "pcOk outcome c w p = (\<not> w)"

definition written :: "(nat \<times> 'v \<times> 'v) list \<Rightarrow> nat \<Rightarrow> bool" where
  "written ws i \<longleftrightarrow> i \<in> fst ` set ws"

definition atomOk ::
    "('f \<Rightarrow> 'v \<Rightarrow> 'v option \<Rightarrow> bool) \<Rightarrow> ('v, 'f) call list \<Rightarrow> 'v \<Rightarrow> ('v, 'f) atom \<Rightarrow> bool" where
  "atomOk outcome calls v S \<longleftrightarrow>
     length (pcs S) = length calls \<and> linked v (writes S) (content S) \<and> distinct (map fst (writes S)) \<and>
     (\<forall>(i, a, b)\<in>set (writes S). i < length calls \<and> effectOf outcome (calls ! i) a b) \<and>
     (\<forall>i<length calls. pcOk outcome (calls ! i) (written (writes S) i) (pcs S ! i) \<and>
        (\<forall>a b. wrote (pcs S ! i) = Some (a, b) \<longrightarrow> (i, a, b) \<in> set (writes S)))"

text \<open>Moving a call to another place that is as good.\<close>

lemma goto_ok:
  assumes "atomOk outcome calls v S" "i < length calls"
    and "pcOk outcome (calls ! i) (written (writes S) i) p" "\<And>a b. wrote p = Some (a, b) \<Longrightarrow> (i, a, b) \<in> set (writes S)"
  shows "atomOk outcome calls v (goto i p S)"
  using assms by (auto simp: atomOk_def goto_def nth_list_update)

lemma atomOkD:
  assumes "atomOk outcome calls v S" "i < length calls"
  shows "pcOk outcome (calls ! i) (written (writes S) i) (pcs S ! i)"
    and "wrote (pcs S ! i) = Some (a, b) \<Longrightarrow> (i, a, b) \<in> set (writes S)"
  using assms by (auto simp: atomOk_def)

lemma written_effect:
  assumes "atomOk outcome calls v S" "written (writes S) i"
  shows "i < length calls" "\<exists>a b. effectOf outcome (calls ! i) a b"
proof -
  from assms(2) obtain a b where "(i, a, b) \<in> set (writes S)" by (auto simp: written_def)
  with assms(1) have "i < length calls \<and> effectOf outcome (calls ! i) a b" unfolding atomOk_def by fast
  then show "i < length calls" "\<exists>a b. effectOf outcome (calls ! i) a b" by blast+
qed

lemma written_snoc [simp]: "written (ws @ [(j, a, b)]) i \<longleftrightarrow> written ws i \<or> i = j"
  by (auto simp: written_def)

lemma set_ok:
  assumes "atomOk outcome calls v S" "i < length calls" "pcs S ! i = Trying old neu" "content S = old"
  shows "atomOk outcome calls v (goto i (Won old neu) (S\<lparr>content := neu, writes := writes S @ [(i, old, neu)]\<rparr>))"
proof -
  have "effectOf outcome (calls ! i) old neu" "\<not> written (writes S) i"
    using atomOkD(1) [OF assms(1,2)] assms(3) by simp_all
  moreover from this(2) have "i \<notin> set (map fst (writes S))" by (auto simp: written_def)
  ultimately show ?thesis using assms by (auto simp: atomOk_def goto_def nth_list_update)
qed

lemma trySet_ok:
  assumes "atomOk outcome calls v S" "i < length calls" "pcs S ! i = Trying old neu"
  shows "atomOk outcome calls v (trySet (calls ! i) i old neu S)"
proof (cases "content S = old")
  case True
  with set_ok [OF assms] show ?thesis by (simp add: trySet_def)
next
  case False
  with atomOkD(1) [OF assms(1,2)] assms show ?thesis
    by (auto simp: trySet_def intro!: goto_ok split: call.split)
qed

lemma ok_fields [simp]:
  "atomOk outcome calls v (S\<lparr>heard := h\<rparr>) = atomOk outcome calls v S"
  "atomOk outcome calls v (S\<lparr>watchMap := m, watchVersion := n\<rparr>) = atomOk outcome calls v S"
  "pcs (S\<lparr>heard := h\<rparr>) = pcs S" "writes (S\<lparr>heard := h\<rparr>) = writes S"
  by (simp_all add: atomOk_def)

theorem atomOk_step: "astep outcome calls S S' \<Longrightarrow> atomOk outcome calls v S \<Longrightarrow> atomOk outcome calls v S'"
proof (induction rule: astep.induct)
  case (try_set i S old neu)
  then show ?case by (intro trySet_ok)
next
  case (try_watches i S ver m)
  then show ?case using atomOkD(1) [OF try_watches(3,1)]
    by (auto simp: trySetWatches_def intro!: goto_ok split: call.splits)
next
  case (fire i S old neu)
  then show ?case using atomOkD [OF fire(3,1)] by (auto intro!: goto_ok)
next
  case (notify i S k g ws old neu)
  then show ?case using atomOkD [OF notify(3,1)] by (auto intro!: goto_ok)
next
  case (fired i S old neu)
  then have "written (writes S) i" using atomOkD(1) [OF fired(3,1)] by simp
  with written_effect(2) [OF fired(3) this] fired show ?case by (auto intro!: goto_ok split: call.split)
qed (auto intro!: goto_ok dest: atomOkD(1))

lemma atomOk_start: "atomOk outcome calls v (atomStart v (length calls))"
  by (auto simp: atomOk_def atomStart_def written_def)

lemma areach_ok: "areach outcome calls v S \<Longrightarrow> atomOk outcome calls v S"
  by (induction rule: areach.induct) (auto intro: atomOk_start atomOk_step)

section \<open>Runs by a schedule\<close>

text \<open>The step a call takes next, when its functions are functions; a schedule is the list of the calls that step.\<close>

definition advance :: "('f \<Rightarrow> 'v \<Rightarrow> 'v option) \<Rightarrow> ('v, 'f) call list \<Rightarrow> ('v, 'f) atom \<Rightarrow> nat \<Rightarrow> ('v, 'f) atom" where
  "advance fn calls S i =
     (if length calls \<le> i then S
      else case pcs S ! i of
        Looping \<Rightarrow>
          (case calls ! i of
             Swap f \<Rightarrow> goto i (Calling (content S)) S
           | Reset v \<Rightarrow> goto i (Trying (content S) v) S
           | CompareAndSet e v \<Rightarrow> goto i (Trying e v) S
           | AddWatch k g \<Rightarrow> goto i (WatchTrying (watchVersion S) (AList.update k g (watchMap S))) S
           | RemoveWatch k \<Rightarrow>
               if k \<in> fst ` set (watchMap S) then goto i (WatchTrying (watchVersion S) (AList.delete k (watchMap S))) S
               else goto i (Returned True) S)
      | Calling old \<Rightarrow>
          (case calls ! i of
             Swap f \<Rightarrow> goto i (case fn f old of None \<Rightarrow> Raised | Some neu \<Rightarrow> Trying old neu) S
           | _ \<Rightarrow> S)
      | Trying old neu \<Rightarrow> trySet (calls ! i) i old neu S
      | Won old neu \<Rightarrow> goto i (Firing (watchMap S) old neu) S
      | Firing ws old neu \<Rightarrow>
          (case ws of
             [] \<Rightarrow> goto i (Returned True) S
           | (k, g) # r \<Rightarrow> goto i (Firing r old neu) (S\<lparr>heard := heard S @ [(i, k, old, neu)]\<rparr>))
      | WatchTrying ver m \<Rightarrow> trySetWatches i ver m S
      | _ \<Rightarrow> S)"

lemma advance_step: "advance fn calls S i = S \<or> astep (\<lambda>f a r. r = fn f a) calls S (advance fn calls S i)"
proof (cases "i < length calls")
  case True
  then show ?thesis
    by (cases "pcs S ! i")
      (auto simp: advance_def split: call.split option.split list.split prod.split intro: astep.intros)
qed (simp add: advance_def)

lemma schedule_reachable: "areach (\<lambda>f a r. r = fn f a) calls v (foldl (advance fn calls) (atomStart v (length calls)) is)"
proof (induction "is" rule: rev_induct)
  case (snoc i "is")
  then show ?case
    using advance_step [of fn calls "foldl (advance fn calls) (atomStart v (length calls)) is" i]
    by (auto intro: areach.atom_step)
qed (simp add: areach.atom_start)

section \<open>Properties\<close>

lemma reached_line:
  assumes "areach outcome calls v S"
  shows "linked v (writes S) (content S) \<and> distinct (map fst (writes S)) \<and>
    (\<forall>(i, a, b)\<in>set (writes S). i < length calls \<and> effectOf outcome (calls ! i) a b) \<and>
    (\<forall>i<length calls. (\<forall>f. calls ! i = Swap f \<longrightarrow> pcs S ! i = Returned True \<longrightarrow> written (writes S) i) \<and>
       (\<forall>w. calls ! i = Reset w \<longrightarrow> pcs S ! i = Returned True \<longrightarrow> written (writes S) i) \<and>
       (pcs S ! i = Raised \<or> pcs S ! i = Returned False \<longrightarrow> \<not> written (writes S) i))"
proof -
  note ok = areach_ok [OF assms]
  have "pcOk outcome (calls ! i) (written (writes S) i) (pcs S ! i)" if "i < length calls" for i
    by (rule atomOkD(1) [OF ok that])
  then show ?thesis using ok by (fastforce simp: atomOk_def split: call.splits)
qed

text \<open>C23. The writes of an atom are a line from its first value to its present one, whatever the interleaving of the calls:
  each write replaced the value the one before it left, and is what its call makes of that value; no call
  writes twice, a \<^verbatim>\<open>swap!\<close> or \<^verbatim>\<open>reset!\<close> that returned has written, and a call that raised or answered false has not.\<close>

theorem atom_linear:
  assumes "areach outcome calls v S"
  shows "linked v (writes S) (content S) \<and> distinct (map fst (writes S)) \<and>
    (\<forall>(i, a, b)\<in>set (writes S). i < length calls \<and> effectOf outcome (calls ! i) a b) \<and>
    (\<forall>i<length calls. (\<forall>f. calls ! i = Swap f \<longrightarrow> pcs S ! i = Returned True \<longrightarrow> written (writes S) i) \<and>
       (\<forall>w. calls ! i = Reset w \<longrightarrow> pcs S ! i = Returned True \<longrightarrow> written (writes S) i) \<and>
       (pcs S ! i = Raised \<or> pcs S ! i = Returned False \<longrightarrow> \<not> written (writes S) i))"
  using reached_line [OF assms] .

text \<open>A counter: every call adds one.\<close>

definition addOne :: "unit \<Rightarrow> int \<Rightarrow> int option \<Rightarrow> bool" where
  "addOne f a r \<longleftrightarrow> r = Some (a + 1)"

lemma linked_count: "linked v ws w \<Longrightarrow> \<forall>(i, a, b)\<in>set ws. b = a + 1 \<Longrightarrow> w = v + int (length ws)"
  by (induction v ws w rule: linked.induct) auto

text \<open>C13. No update is lost: when any number of \<^verbatim>\<open>(swap! a inc)\<close>, of any threads and in any interleaving, have returned,
  the atom holds its first value plus their number.\<close>

theorem counter_exact:
  assumes "areach addOne (replicate n (Swap ())) v S" "\<forall>i<n. pcs S ! i = Returned True"
  shows "content S = v + int n"
proof -
  note line = reached_line [OF assms(1)]
  have "fst ` set (writes S) = {..<n}"
    using line assms(2) by (fastforce simp: written_def)
  moreover have "card (fst ` set (writes S)) = length (writes S)" using line distinct_card by fastforce
  ultimately have "length (writes S) = n" by simp
  moreover have "\<forall>(i, a, b)\<in>set (writes S). b = a + 1" using line by (force simp: addOne_def)
  ultimately show ?thesis using linked_count [of v "writes S" "content S"] line by simp
qed

text \<open>Two calls that race: the first to try wins, the second has to read again.\<close>

definition race2 :: "(int, unit) atom" where
  "race2 = foldl (advance (\<lambda>f a. Some (a + 1)) [Swap (), Swap ()]) (atomStart 5 2) [0, 1, 0, 1, 0, 1, 0, 0, 1, 1, 1, 1, 1]"

lemma race2_reachable: "areach addOne (replicate 2 (Swap ())) 5 race2"
proof -
  have "addOne = (\<lambda>f a r. r = Some (a + 1))" by (simp add: addOne_def fun_eq_iff)
  moreover have "replicate 2 (Swap ()) = [Swap (), Swap () :: (int, unit) call]" "length [Swap (), Swap () :: (int, unit) call] = 2"
    by (simp_all add: numeral_2_eq_2)
  ultimately show ?thesis
    using schedule_reachable [of "\<lambda>f a. Some (a + 1)" "[Swap (), Swap ()]" "5 :: int" "[0, 1, 0, 1, 0, 1, 0, 0, 1, 1, 1, 1, 1]"]
    by (simp only: race2_def)
qed

lemma race2_end: "pcs race2 = [Returned True, Returned True]" "writes race2 = [(0, 5, 6), (1, 6, 7)]" "content race2 = 7"
  by (simp_all add: race2_def atomStart_def advance_def goto_def trySet_def numeral_2_eq_2)

theorem atom_linear_witness: "linked 5 (writes race2) 7 \<and> written (writes race2) 1"
  using atom_linear [OF race2_reachable] by (simp add: race2_end nth_Cons' written_def)

theorem counter_exact_witness: "content race2 = 5 + int 2"
  by (rule counter_exact [OF race2_reachable]) (simp add: race2_end less_Suc_eq numeral_2_eq_2)

end
