(* ===== verification/Futures.thy ===== *)
theory Futures
  imports Prelude
begin

text \<open>
  Futures and \<^verbatim>\<open>pmap\<close> (src/src/runtime/Primitives.cpp): the threads that run bodies
  (\<^verbatim>\<open>futureThreadMain\<close>, \<^verbatim>\<open>pmapWorkerMain\<close>) and the calls \<^verbatim>\<open>make-future\<close>, \<^verbatim>\<open>deref\<close>,
  \<^verbatim>\<open>realized?\<close> and \<^verbatim>\<open>pmap\<close>, any number of them, interleaved at the grain of one attribute read or
  write, one thread start or one join. The attributes of a future are protoCore's: a write is seen by every
  later read. A thread is joined when its body has made its last write.

  A body is any value; \<open>outcome\<close> relates it to what it may answer or raise, so a body that may not end is
  one whose thread stays at \<open>Invoking\<close>. A raised value is the exception that \<^verbatim>\<open>recordThreadError\<close> records,
  and \<open>Raises\<close> stands for the ExecutionException around it.

  The lemmas show an invariant of all threads and calls, that every step keeps it, and a bound on the work
  that is left, which every step lowers. So all derefs of a future agree, pmap answers in the order of its
  elements, and no call waits for ever when all bodies end.
\<close>

section \<open>Bodies and calls\<close>

record ('v, 'e) future =
  futError :: "'e option"
  futResult :: 'v
  futDone :: bool

datatype ('v, 'e) worker = Invoking | Erring 'e | Storing 'v | Marking | Exited

datatype 'x request = MakeFuture 'x | Deref nat | IsRealized nat | Pmap "'x list"

datatype ('v, 'e) answer = Made nat | Value 'v | Values "'v list" | Raises 'e | Realizes bool | NotFuture

datatype ('v, 'e) client =
  Starting
| Joining nat
| ReadingError nat
| ReadingResult nat
| Spawning "nat list"
| Collecting "nat list" "'v list" "nat option"
| Inspecting "nat list" "'v list" "nat option"
| Pushing "nat list" "'v list" "nat option"
| Answered "('v, 'e) answer"

record ('x, 'v, 'e) threads =
  bodies :: "'x list"
  futures :: "('v, 'e) future list"
  workers :: "('v, 'e) worker list"
  clients :: "('v, 'e) client list"

text \<open>\<^verbatim>\<open>buildFuture\<close>, and the first phase of \<^verbatim>\<open>pmap\<close> for one element: a future with no result, and its thread.\<close>

definition spawn :: "'v \<Rightarrow> 'x \<Rightarrow> ('x, 'v, 'e) threads \<Rightarrow> ('x, 'v, 'e) threads" where
  "spawn nil x S =
     S\<lparr>bodies := bodies S @ [x], futures := futures S @ [\<lparr>futError = None, futResult = nil, futDone = False\<rparr>],
       workers := workers S @ [Invoking]\<rparr>"

definition moveTo :: "nat \<Rightarrow> ('v, 'e) client \<Rightarrow> ('x, 'v, 'e) threads \<Rightarrow> ('x, 'v, 'e) threads" where
  "moveTo i p S = S\<lparr>clients := (clients S)[i := p]\<rparr>"

definition workerTo ::
    "nat \<Rightarrow> (('v, 'e) future \<Rightarrow> ('v, 'e) future) \<Rightarrow> ('v, 'e) worker \<Rightarrow> ('x, 'v, 'e) threads \<Rightarrow> ('x, 'v, 'e) threads" where
  "workerTo j f w S = S\<lparr>futures := (futures S)[j := f (futures S ! j)], workers := (workers S)[j := w]\<rparr>"

text \<open>The answer of \<^verbatim>\<open>pmap\<close> after its second phase.\<close>

definition pmapEnd :: "('v, 'e) future list \<Rightarrow> nat list \<Rightarrow> 'v list \<Rightarrow> nat option \<Rightarrow> ('v, 'e) answer" where
  "pmapEnd F fs out failed = (case failed of None \<Rightarrow> Values out | Some k \<Rightarrow> Raises (the (futError (F ! (fs ! k)))))"

inductive fstep ::
    "('x \<Rightarrow> 'e + 'v \<Rightarrow> bool) \<Rightarrow> 'v \<Rightarrow> 'x request list \<Rightarrow> ('x, 'v, 'e) threads \<Rightarrow> ('x, 'v, 'e) threads \<Rightarrow> bool"
  for outcome nil requests where
  make: "i < length requests \<Longrightarrow> clients S ! i = Starting \<Longrightarrow> requests ! i = MakeFuture x \<Longrightarrow>
    fstep outcome nil requests S (moveTo i (Answered (Made (length (bodies S)))) (spawn nil x S))"
| deref_other: "i < length requests \<Longrightarrow> clients S ! i = Starting \<Longrightarrow> requests ! i = Deref j \<Longrightarrow> \<not> j < length (bodies S) \<Longrightarrow>
    fstep outcome nil requests S (moveTo i (Answered NotFuture) S)"
| deref_start: "i < length requests \<Longrightarrow> clients S ! i = Starting \<Longrightarrow> requests ! i = Deref j \<Longrightarrow> j < length (bodies S) \<Longrightarrow>
    fstep outcome nil requests S (moveTo i (if futDone (futures S ! j) then ReadingError j else Joining j) S)"
| joined: "i < length requests \<Longrightarrow> clients S ! i = Joining j \<Longrightarrow> workers S ! j = Exited \<Longrightarrow>
    fstep outcome nil requests S (moveTo i (ReadingError j) S)"
| read_error: "i < length requests \<Longrightarrow> clients S ! i = ReadingError j \<Longrightarrow>
    fstep outcome nil requests S
      (moveTo i (case futError (futures S ! j) of None \<Rightarrow> ReadingResult j | Some e \<Rightarrow> Answered (Raises e)) S)"
| read_result: "i < length requests \<Longrightarrow> clients S ! i = ReadingResult j \<Longrightarrow>
    fstep outcome nil requests S (moveTo i (Answered (Value (futResult (futures S ! j)))) S)"
| is_realized: "i < length requests \<Longrightarrow> clients S ! i = Starting \<Longrightarrow> requests ! i = IsRealized j \<Longrightarrow>
    fstep outcome nil requests S (moveTo i (Answered (Realizes (j < length (bodies S) \<and> futDone (futures S ! j)))) S)"
| pmap_start: "i < length requests \<Longrightarrow> clients S ! i = Starting \<Longrightarrow> requests ! i = Pmap xs \<Longrightarrow>
    fstep outcome nil requests S (moveTo i (Spawning []) S)"
| pmap_spawn: "i < length requests \<Longrightarrow> clients S ! i = Spawning fs \<Longrightarrow> requests ! i = Pmap xs \<Longrightarrow> length fs < length xs \<Longrightarrow>
    fstep outcome nil requests S (moveTo i (Spawning (fs @ [length (bodies S)])) (spawn nil (xs ! length fs) S))"
| pmap_spawned: "i < length requests \<Longrightarrow> clients S ! i = Spawning fs \<Longrightarrow> requests ! i = Pmap xs \<Longrightarrow> length fs = length xs \<Longrightarrow>
    fstep outcome nil requests S (moveTo i (Collecting fs [] None) S)"
| pmap_join: "i < length requests \<Longrightarrow> clients S ! i = Collecting fs out failed \<Longrightarrow> length out < length fs \<Longrightarrow>
    workers S ! (fs ! length out) = Exited \<Longrightarrow>
    fstep outcome nil requests S (moveTo i (Inspecting fs out failed) S)"
| pmap_inspect: "i < length requests \<Longrightarrow> clients S ! i = Inspecting fs out failed \<Longrightarrow>
    fstep outcome nil requests S
      (moveTo i (Pushing fs out (if failed = None \<and> futError (futures S ! (fs ! length out)) \<noteq> None
                                 then Some (length out) else failed)) S)"
| pmap_push: "i < length requests \<Longrightarrow> clients S ! i = Pushing fs out failed \<Longrightarrow>
    fstep outcome nil requests S (moveTo i (Collecting fs (out @ [futResult (futures S ! (fs ! length out))]) failed) S)"
| pmap_end: "i < length requests \<Longrightarrow> clients S ! i = Collecting fs out failed \<Longrightarrow> \<not> length out < length fs \<Longrightarrow>
    fstep outcome nil requests S (moveTo i (Answered (pmapEnd (futures S) fs out failed)) S)"
| body_returns: "j < length (bodies S) \<Longrightarrow> workers S ! j = Invoking \<Longrightarrow> outcome (bodies S ! j) (Inr v) \<Longrightarrow>
    fstep outcome nil requests S (workerTo j (\<lambda>f. f) (Storing v) S)"
| body_raises: "j < length (bodies S) \<Longrightarrow> workers S ! j = Invoking \<Longrightarrow> outcome (bodies S ! j) (Inl e) \<Longrightarrow>
    fstep outcome nil requests S (workerTo j (\<lambda>f. f) (Erring e) S)"
| body_records: "j < length (bodies S) \<Longrightarrow> workers S ! j = Erring e \<Longrightarrow>
    fstep outcome nil requests S (workerTo j (\<lambda>f. f\<lparr>futError := Some e\<rparr>) (Storing nil) S)"
| body_stores: "j < length (bodies S) \<Longrightarrow> workers S ! j = Storing v \<Longrightarrow>
    fstep outcome nil requests S (workerTo j (\<lambda>f. f\<lparr>futResult := v\<rparr>) Marking S)"
| body_marks: "j < length (bodies S) \<Longrightarrow> workers S ! j = Marking \<Longrightarrow>
    fstep outcome nil requests S (workerTo j (\<lambda>f. f\<lparr>futDone := True\<rparr>) Exited S)"

definition fstart :: "nat \<Rightarrow> ('x, 'v, 'e) threads" where
  "fstart n = \<lparr>bodies = [], futures = [], workers = [], clients = replicate n Starting\<rparr>"

inductive freach :: "('x \<Rightarrow> 'e + 'v \<Rightarrow> bool) \<Rightarrow> 'v \<Rightarrow> 'x request list \<Rightarrow> ('x, 'v, 'e) threads \<Rightarrow> bool" for outcome nil requests where
  fut_start: "freach outcome nil requests (fstart (length requests))"
| fut_step: "freach outcome nil requests S \<Longrightarrow> fstep outcome nil requests S S' \<Longrightarrow> freach outcome nil requests S'"

section \<open>Invariant\<close>

text \<open>What an exited body left on its future.\<close>

definition resultOf :: "('v, 'e) future \<Rightarrow> 'e + 'v" where
  "resultOf f = (case futError f of None \<Rightarrow> Inr (futResult f) | Some e \<Rightarrow> Inl e)"

lemma resultOf_done [simp]: "resultOf (f\<lparr>futDone := b\<rparr>) = resultOf f"
  by (simp add: resultOf_def split: option.split)

fun bodyState :: "('x \<Rightarrow> 'e + 'v \<Rightarrow> bool) \<Rightarrow> 'v \<Rightarrow> 'x \<Rightarrow> ('v, 'e) future \<Rightarrow> ('v, 'e) worker \<Rightarrow> bool" where
  "bodyState outcome nil x f Invoking = (futError f = None \<and> futResult f = nil \<and> \<not> futDone f)"
| "bodyState outcome nil x f (Erring e) = (futError f = None \<and> futResult f = nil \<and> \<not> futDone f \<and> outcome x (Inl e))"
| "bodyState outcome nil x f (Storing v) =
     (\<not> futDone f \<and> outcome x (resultOf (f\<lparr>futResult := v\<rparr>)) \<and> (futError f \<noteq> None \<longrightarrow> v = nil))"
| "bodyState outcome nil x f Marking = (\<not> futDone f \<and> outcome x (resultOf f) \<and> (futError f \<noteq> None \<longrightarrow> futResult f = nil))"
| "bodyState outcome nil x f Exited = (futDone f \<and> outcome x (resultOf f) \<and> (futError f \<noteq> None \<longrightarrow> futResult f = nil))"

definition exited :: "('x, 'v, 'e) threads \<Rightarrow> nat \<Rightarrow> bool" where
  "exited S j \<longleftrightarrow> j < length (bodies S) \<and> workers S ! j = Exited"

definition madeFor :: "('x, 'v, 'e) threads \<Rightarrow> 'x list \<Rightarrow> nat list \<Rightarrow> bool" where
  "madeFor S xs fs \<longleftrightarrow> list_all2 (\<lambda>x j. j < length (bodies S) \<and> bodies S ! j = x) xs fs"

fun derefAnswer :: "'e + 'v \<Rightarrow> ('v, 'e) answer" where
  "derefAnswer (Inl e) = Raises e"
| "derefAnswer (Inr v) = Value v"

text \<open>The first element that failed, and the answer of \<^verbatim>\<open>pmap\<close> for given results of its elements.\<close>

fun firstFailed :: "('e + 'v) list \<Rightarrow> nat option" where
  "firstFailed [] = None"
| "firstFailed (Inl e # r) = Some 0"
| "firstFailed (Inr v # r) = map_option Suc (firstFailed r)"

definition pmapAnswer :: "('e + 'v) list \<Rightarrow> ('v, 'e) answer" where
  "pmapAnswer rs = (case firstFailed rs of None \<Rightarrow> Values (map projr rs) | Some k \<Rightarrow> Raises (projl (rs ! k)))"

definition collected ::
    "('x, 'v, 'e) threads \<Rightarrow> 'x list \<Rightarrow> nat list \<Rightarrow> 'v list \<Rightarrow> nat \<Rightarrow> nat option \<Rightarrow> bool" where
  "collected S xs fs out k failed \<longleftrightarrow>
     madeFor S xs fs \<and> length out \<le> k \<and> k \<le> length fs \<and> (\<forall>m<k. exited S (fs ! m)) \<and>
     out = map (\<lambda>j. futResult (futures S ! j)) (take (length out) fs) \<and>
     failed = firstFailed (map (\<lambda>j. resultOf (futures S ! j)) (take k fs))"

fun clientOk :: "('x, 'v, 'e) threads \<Rightarrow> 'x request \<Rightarrow> ('v, 'e) client \<Rightarrow> bool" where
  "clientOk S q Starting = True"
| "clientOk S q (Joining j) = (q = Deref j \<and> j < length (bodies S))"
| "clientOk S q (ReadingError j) = (q = Deref j \<and> exited S j)"
| "clientOk S q (ReadingResult j) = (q = Deref j \<and> exited S j \<and> futError (futures S ! j) = None)"
| "clientOk S q (Spawning fs) = (\<exists>xs. q = Pmap xs \<and> length fs \<le> length xs \<and> madeFor S (take (length fs) xs) fs)"
| "clientOk S q (Collecting fs out failed) = (\<exists>xs. q = Pmap xs \<and> collected S xs fs out (length out) failed)"
| "clientOk S q (Inspecting fs out failed) =
     (\<exists>xs. q = Pmap xs \<and> collected S xs fs out (length out) failed \<and> length out < length fs \<and> exited S (fs ! length out))"
| "clientOk S q (Pushing fs out failed) = (\<exists>xs. q = Pmap xs \<and> collected S xs fs out (Suc (length out)) failed)"
| "clientOk S q (Answered a) =
     (case q of
        MakeFuture x \<Rightarrow> \<exists>j. a = Made j \<and> j < length (bodies S) \<and> bodies S ! j = x
      | Deref j \<Rightarrow> a = NotFuture \<or> exited S j \<and> a = derefAnswer (resultOf (futures S ! j))
      | IsRealized j \<Rightarrow> (\<exists>b. a = Realizes b \<and> (b \<longrightarrow> exited S j))
      | Pmap xs \<Rightarrow> \<exists>fs. madeFor S xs fs \<and> (\<forall>j\<in>set fs. exited S j) \<and> a = pmapAnswer (map (\<lambda>j. resultOf (futures S ! j)) fs))"

definition threadsOk :: "('x \<Rightarrow> 'e + 'v \<Rightarrow> bool) \<Rightarrow> 'v \<Rightarrow> 'x request list \<Rightarrow> ('x, 'v, 'e) threads \<Rightarrow> bool" where
  "threadsOk outcome nil requests S \<longleftrightarrow>
     length (futures S) = length (bodies S) \<and> length (workers S) = length (bodies S) \<and>
     length (clients S) = length requests \<and>
     (\<forall>j<length (bodies S). bodyState outcome nil (bodies S ! j) (futures S ! j) (workers S ! j)) \<and>
     (\<forall>i<length requests. clientOk S (requests ! i) (clients S ! i))"

text \<open>What a step never takes back.\<close>

definition grows :: "('x, 'v, 'e) threads \<Rightarrow> ('x, 'v, 'e) threads \<Rightarrow> bool" where
  "grows S S' \<longleftrightarrow>
     (\<forall>j<length (bodies S). j < length (bodies S') \<and> bodies S' ! j = bodies S ! j \<and>
        (workers S ! j = Exited \<longrightarrow> workers S' ! j = Exited \<and> futures S' ! j = futures S ! j))"

lemma grows_exited: "grows S S' \<Longrightarrow> exited S j \<Longrightarrow> exited S' j \<and> futures S' ! j = futures S ! j"
  by (auto simp: grows_def exited_def)

lemma grows_made: "grows S S' \<Longrightarrow> madeFor S xs fs \<Longrightarrow> madeFor S' xs fs"
  by (auto simp: grows_def madeFor_def elim: list_all2_mono)

lemma grows_map: "grows S S' \<Longrightarrow> \<forall>j\<in>set fs. exited S j \<Longrightarrow> map (\<lambda>j. h (futures S' ! j)) fs = map (\<lambda>j. h (futures S ! j)) fs"
  using grows_exited by fastforce

lemma grows_collected:
  assumes "grows S S'" "collected S xs fs out k failed"
  shows "collected S' xs fs out k failed"
proof -
  have ex: "exited S j" if "j \<in> set (take m fs)" "m \<le> k" for j m
    using that assms(2) by (auto simp: collected_def in_set_conv_nth)
  have "map (\<lambda>j. futResult (futures S' ! j)) (take (length out) fs) = map (\<lambda>j. futResult (futures S ! j)) (take (length out) fs)"
    using assms(2) by (intro grows_map [OF assms(1)]) (auto intro: ex simp: collected_def)
  moreover have "map (\<lambda>j. resultOf (futures S' ! j)) (take k fs) = map (\<lambda>j. resultOf (futures S ! j)) (take k fs)"
    by (intro grows_map [OF assms(1)]) (auto intro: ex)
  ultimately show ?thesis
    using assms grows_exited [OF assms(1)] grows_made [OF assms(1)] by (simp add: collected_def del: map_eq_conv)
qed

lemma grows_client:
  assumes "grows S S'" "clientOk S q p"
  shows "clientOk S' q p"
proof -
  note ex = grows_exited [OF assms(1)] and made = grows_made [OF assms(1)] and coll = grows_collected [OF assms(1)]
  have len: "j < length (bodies S) \<Longrightarrow> j < length (bodies S') \<and> bodies S' ! j = bodies S ! j" for j
    using assms(1) by (simp add: grows_def)
  show ?thesis
  proof (cases p)
    case (Answered a)
    show ?thesis
    proof (cases q)
      case (Pmap xs)
      with Answered assms obtain fs
        where fs: "madeFor S xs fs" "\<forall>j\<in>set fs. exited S j" "a = pmapAnswer (map (\<lambda>j. resultOf (futures S ! j)) fs)" by auto
      from this(2) have "map (\<lambda>j. resultOf (futures S' ! j)) fs = map (\<lambda>j. resultOf (futures S ! j)) fs"
        by (rule grows_map [OF assms(1)])
      with fs have "a = pmapAnswer (map (\<lambda>j. resultOf (futures S' ! j)) fs)" by (simp only:)
      moreover have "madeFor S' xs fs" "\<forall>j\<in>set fs. exited S' j" using fs(1,2) ex made by auto
      ultimately show ?thesis unfolding Answered Pmap clientOk.simps request.case by blast
    qed (use Answered assms ex len in auto)
  qed (use assms ex made coll len in auto)
qed

section \<open>Every step keeps it\<close>

lemma threadsOkD:
  assumes "threadsOk outcome nil requests S"
  shows "length (futures S) = length (bodies S)" "length (workers S) = length (bodies S)" "length (clients S) = length requests"
    and "j < length (bodies S) \<Longrightarrow> bodyState outcome nil (bodies S ! j) (futures S ! j) (workers S ! j)"
    and "i < length requests \<Longrightarrow> clientOk S (requests ! i) (clients S ! i)"
  using assms by (simp_all add: threadsOk_def)

lemma exited_done: "threadsOk outcome nil requests S \<Longrightarrow> j < length (bodies S) \<Longrightarrow> futDone (futures S ! j) \<longleftrightarrow> exited S j"
  using threadsOkD(4) [of outcome nil requests S j] by (cases "workers S ! j") (auto simp: exited_def)

text \<open>A client moves.\<close>

lemma client_fields [simp]:
  "exited (moveTo i p S) = exited S" "madeFor (moveTo i p S) = madeFor S" "collected (moveTo i p S) = collected S"
  "bodies (moveTo i p S) = bodies S" "futures (moveTo i p S) = futures S" "workers (moveTo i p S) = workers S"
  "clients (moveTo i p S) = (clients S)[i := p]"
  by (auto simp: moveTo_def exited_def madeFor_def collected_def fun_eq_iff)

lemma clientOk_move [simp]: "clientOk (moveTo i p S) q c = clientOk S q c"
  by (cases c) (auto split: request.split)

lemma move_ok:
  assumes "threadsOk outcome nil requests S" "i < length requests" "clientOk S (requests ! i) p"
  shows "threadsOk outcome nil requests (moveTo i p S)"
  using assms by (auto simp: threadsOk_def nth_list_update)

text \<open>A thread is started.\<close>

lemma spawn_fields [simp]:
  "bodies (spawn nil x S) = bodies S @ [x]" "clients (spawn nil x S) = clients S"
  "workers (spawn nil x S) = workers S @ [Invoking]"
  by (simp_all add: spawn_def)

lemma spawn_grows:
  assumes "threadsOk outcome nil requests S"
  shows "grows S (spawn nil x S)"
  using threadsOkD(1,2) [OF assms] by (auto simp: grows_def spawn_def nth_append)

lemma spawn_ok:
  assumes "threadsOk outcome nil requests S"
  shows "threadsOk outcome nil requests (spawn nil x S)"
  using assms grows_client [OF spawn_grows [OF assms, of x]]
  by (auto simp: threadsOk_def spawn_def nth_append less_Suc_eq)

text \<open>A body goes on; until it is over, no client has looked at its future.\<close>

lemma worker_grows: "workers S ! j \<noteq> Exited \<Longrightarrow> grows S (workerTo j f w S)"
proof -
  assume "workers S ! j \<noteq> Exited"
  then have "j \<noteq> m" if "workers S ! m = Exited" for m using that by blast
  then show ?thesis by (auto simp: grows_def workerTo_def)
qed

lemma worker_ok:
  assumes "threadsOk outcome nil requests S" "j < length (bodies S)" "workers S ! j \<noteq> Exited"
    and "bodyState outcome nil (bodies S ! j) (f (futures S ! j)) w"
  shows "threadsOk outcome nil requests (workerTo j f w S)"
  using assms grows_client [OF worker_grows [OF assms(3), of f w]]
  by (auto simp: threadsOk_def workerTo_def nth_list_update)

lemma firstFailed_snoc:
  "firstFailed (rs @ [r]) = (case firstFailed rs of Some k \<Rightarrow> Some k | None \<Rightarrow> if isl r then Some (length rs) else None)"
  by (induction rs rule: firstFailed.induct) (cases r; auto split: option.split)+

lemma resultOf_error: "isl (resultOf f) \<longleftrightarrow> futError f \<noteq> None"
  by (simp add: resultOf_def split: option.split)

lemma firstFailed_none: "firstFailed rs = None \<Longrightarrow> r \<in> set rs \<Longrightarrow> \<not> isl r"
  by (induction rs rule: firstFailed.induct) auto

lemma firstFailed_some: "firstFailed rs = Some k \<Longrightarrow> k < length rs \<and> isl (rs ! k)"
  by (induction rs arbitrary: k rule: firstFailed.induct) auto

lemma inspect_ok:
  assumes "collected S xs fs out (length out) failed" "length out < length fs" "exited S (fs ! length out)"
  shows "collected S xs fs out (Suc (length out))
    (if failed = None \<and> futError (futures S ! (fs ! length out)) \<noteq> None then Some (length out) else failed)"
  using assms
  by (auto simp: collected_def take_Suc_conv_app_nth firstFailed_snoc resultOf_error less_Suc_eq min_def
      simp del: map_eq_conv split: option.split)

lemma push_ok:
  assumes "collected S xs fs out (Suc (length out)) failed"
  shows "collected S xs fs (out @ [futResult (futures S ! (fs ! length out))]) (Suc (length out)) failed"
proof -
  have "length out < length fs" "out = map (\<lambda>j. futResult (futures S ! j)) (take (length out) fs)"
    using assms by (simp_all add: collected_def)
  then show ?thesis using assms by (simp add: collected_def take_Suc_conv_app_nth del: map_eq_conv)
qed

lemma end_ok:
  assumes "collected S xs fs out (length out) failed" "\<not> length out < length fs"
  shows "\<forall>j\<in>set fs. exited S j" "pmapEnd (futures S) fs out failed = pmapAnswer (map (\<lambda>j. resultOf (futures S ! j)) fs)"
proof -
  have k: "length out = length fs" using assms by (simp add: collected_def)
  then show "\<forall>j\<in>set fs. exited S j" using assms(1) by (auto simp: collected_def in_set_conv_nth)
  let ?rs = "map (\<lambda>j. resultOf (futures S ! j)) fs"
  have out: "out = map (\<lambda>j. futResult (futures S ! j)) fs" and failed: "failed = firstFailed ?rs"
    using assms(1) k by (simp_all add: collected_def)
  show "pmapEnd (futures S) fs out failed = pmapAnswer ?rs"
  proof (cases failed)
    case None
    then have "\<not> isl r" if "r \<in> set ?rs" for r using firstFailed_none [of ?rs r] failed that by simp
    then have "futError (futures S ! j) = None" if "j \<in> set fs" for j using that resultOf_error by fastforce
    then have "map projr ?rs = out" by (simp add: out resultOf_def)
    then show ?thesis using None failed by (simp add: pmapEnd_def pmapAnswer_def del: map_map)
  next
    case (Some n)
    have "firstFailed ?rs = Some n" using Some failed by (simp only:)
    from firstFailed_some [OF this] have "n < length fs" "isl (resultOf (futures S ! (fs ! n)))" by auto
    then have "the (futError (futures S ! (fs ! n))) = projl (?rs ! n)" by (auto simp: resultOf_def split: option.splits)
    then show ?thesis using Some failed by (simp add: pmapEnd_def pmapAnswer_def)
  qed
qed

theorem threadsOk_step:
  assumes "fstep outcome nil requests S S'" "threadsOk outcome nil requests S"
  shows "threadsOk outcome nil requests S'"
  using assms
proof (induction rule: fstep.induct)
  case (make i S x)
  then show ?case using spawn_ok [OF make(4)] by (auto intro!: move_ok)
next
  case (deref_other i S j)
  then show ?case by (auto intro!: move_ok)
next
  case (deref_start i S j)
  then show ?case using exited_done [OF deref_start(5)] by (auto intro!: move_ok)
next
  case (joined i S j)
  then show ?case using threadsOkD(5) [OF joined(4,1)] by (auto intro!: move_ok simp: exited_def)
next
  case (read_error i S j)
  then show ?case using threadsOkD(5) [OF read_error(3,1)] by (auto intro!: move_ok simp: resultOf_def split: option.split)
next
  case (read_result i S j)
  then show ?case using threadsOkD(5) [OF read_result(3,1)] by (auto intro!: move_ok simp: resultOf_def)
next
  case (is_realized i S j)
  then show ?case using exited_done [OF is_realized(4)] by (auto intro!: move_ok)
next
  case (pmap_start i S xs)
  then show ?case by (auto intro!: move_ok simp: madeFor_def)
next
  case (pmap_spawn i S fs xs)
  let ?S = "spawn nil (xs ! length fs) S"
  have "madeFor S (take (length fs) xs) fs" using threadsOkD(5) [OF pmap_spawn(5,1)] pmap_spawn by auto
  then have "madeFor ?S (take (length fs) xs) fs" by (rule grows_made [OF spawn_grows [OF pmap_spawn(5)]])
  then have "madeFor ?S (take (Suc (length fs)) xs) (fs @ [length (bodies S)])"
    using pmap_spawn by (auto simp: madeFor_def take_Suc_conv_app_nth intro!: list_all2_appendI)
  then show ?case using pmap_spawn spawn_ok [OF pmap_spawn(5)] by (intro move_ok) auto
next
  case (pmap_spawned i S fs xs)
  then show ?case using threadsOkD(5) [OF pmap_spawned(5,1)] by (auto intro!: move_ok simp: collected_def)
next
  case (pmap_join i S fs out failed)
  from pmap_join threadsOkD(5) [OF pmap_join(5,1)] obtain xs where xs: "requests ! i = Pmap xs" "collected S xs fs out (length out) failed" by auto
  with pmap_join have "fs ! length out < length (bodies S)" by (auto simp: collected_def madeFor_def list_all2_conv_all_nth)
  with xs pmap_join show ?case by (auto intro!: move_ok simp: exited_def)
next
  case (pmap_inspect i S fs out failed)
  from pmap_inspect threadsOkD(5) [OF pmap_inspect(3,1)] obtain xs where xs: "requests ! i = Pmap xs"
    "collected S xs fs out (length out) failed" "length out < length fs" "exited S (fs ! length out)" by auto
  from inspect_ok [OF xs(2-4)] xs(1) pmap_inspect show ?case by (intro move_ok) (auto simp del: if_split)
next
  case (pmap_push i S fs out failed)
  then show ?case using threadsOkD(5) [OF pmap_push(3,1)] by (auto intro!: move_ok push_ok)
next
  case (pmap_end i S fs out failed)
  from pmap_end threadsOkD(5) [OF pmap_end(4,1)] obtain xs where xs: "requests ! i = Pmap xs"
    "collected S xs fs out (length out) failed" by auto
  then have "madeFor S xs fs" by (simp add: collected_def)
  then show ?case using end_ok [OF xs(2) pmap_end(3)] xs(1) pmap_end by (intro move_ok) auto
next
  case (body_returns j S v)
  then show ?case using threadsOkD(4) [OF body_returns(4,1)] by (auto intro!: worker_ok simp: resultOf_def)
next
  case (body_raises j S e)
  then show ?case using threadsOkD(4) [OF body_raises(4,1)] by (auto intro!: worker_ok)
next
  case (body_records j S e)
  then show ?case using threadsOkD(4) [OF body_records(3,1)] by (auto intro!: worker_ok simp: resultOf_def)
next
  case (body_stores j S v)
  then show ?case using threadsOkD(4) [OF body_stores(3,1)] by (auto intro!: worker_ok)
next
  case (body_marks j S)
  then show ?case using threadsOkD(4) [OF body_marks(3,1)] by (auto intro!: worker_ok)
qed

lemma fstart_ok: "threadsOk outcome nil requests (fstart (length requests))"
  by (simp add: threadsOk_def fstart_def)

lemma freach_ok: "freach outcome nil requests S \<Longrightarrow> threadsOk outcome nil requests S"
  by (induction rule: freach.induct) (blast intro: fstart_ok threadsOk_step)+

section \<open>Every run ends\<close>

fun workerWork :: "('v, 'e) worker \<Rightarrow> nat" where
  "workerWork Invoking = 4"
| "workerWork (Erring e) = 3"
| "workerWork (Storing v) = 2"
| "workerWork Marking = 1"
| "workerWork Exited = 0"

fun clientWork :: "'x request \<Rightarrow> ('v, 'e) client \<Rightarrow> nat" where
  "clientWork (Pmap xs) Starting = 8 * length xs + 3"
| "clientWork (Pmap xs) (Spawning fs) = 5 * (length xs - length fs) + 3 * length xs + 2"
| "clientWork q Starting = 5"
| "clientWork q (Joining j) = 3"
| "clientWork q (ReadingError j) = 2"
| "clientWork q (ReadingResult j) = 1"
| "clientWork q (Spawning fs) = 0"
| "clientWork q (Collecting fs out failed) = 3 * (length fs - length out) + 1"
| "clientWork q (Inspecting fs out failed) = 3 * (length fs - length out)"
| "clientWork q (Pushing fs out failed) = 3 * (length fs - length out) - 1"
| "clientWork q (Answered a) = 0"

text \<open>A bound of the steps that are left.\<close>

definition workLeft :: "'x request list \<Rightarrow> ('x, 'v, 'e) threads \<Rightarrow> nat" where
  "workLeft requests S =
     (\<Sum>w\<leftarrow>workers S. workerWork w) + (\<Sum>i<length requests. clientWork (requests ! i) (clients S ! i))"

lemma sum_update:
  fixes h :: "nat \<Rightarrow> 'a \<Rightarrow> nat"
  assumes "i < n" "length cs = n"
  shows "(\<Sum>k<n. h k (cs[i := p] ! k)) + h i (cs ! i) = (\<Sum>k<n. h k (cs ! k)) + h i p"
proof -
  have "(\<Sum>k<n. h k (cs[i := p] ! k)) = h i p + (\<Sum>k\<in>{..<n} - {i}. h k (cs ! k))"
    using assms by (subst sum.remove [of _ i]) (auto intro!: sum.cong)
  moreover have "(\<Sum>k<n. h k (cs ! k)) = h i (cs ! i) + (\<Sum>k\<in>{..<n} - {i}. h k (cs ! k))"
    using assms by (subst sum.remove [of _ i]) auto
  ultimately show ?thesis by simp
qed

lemma sum_list_set:
  "j < length ws \<Longrightarrow> (\<Sum>w\<leftarrow>ws[j := v]. h w) + h (ws ! j) = (\<Sum>w\<leftarrow>ws. h w) + (h v :: nat)"
  by (induction ws arbitrary: j) (auto simp: nth_Cons split: nat.split)

lemma move_work:
  assumes "i < length requests" "length (clients S) = length requests"
    "clientWork (requests ! i) p + extra < clientWork (requests ! i) (clients S ! i)"
    "(\<Sum>w\<leftarrow>workers S'. workerWork w) = (\<Sum>w\<leftarrow>workers S. workerWork w) + extra" "clients S' = clients S"
  shows "workLeft requests (moveTo i p S') < workLeft requests S"
  using assms(3-5) sum_update [OF assms(1,2), of "\<lambda>k. clientWork (requests ! k)" p] by (simp add: workLeft_def)

lemma worker_work:
  assumes "threadsOk outcome nil requests S" "j < length (bodies S)" "workerWork w < workerWork (workers S ! j)"
  shows "workLeft requests (workerTo j f w S) < workLeft requests S"
  using assms(3) sum_list_set [of j "workers S" workerWork w] threadsOkD(2) [OF assms(1)] assms(2)
  by (simp add: workLeft_def workerTo_def)

lemma step_work:
  assumes "fstep outcome nil requests S S'" "threadsOk outcome nil requests S"
  shows "workLeft requests S' < workLeft requests S"
  using assms
proof (induction rule: fstep.induct)
  case (pmap_inspect i S fs out failed)
  then show ?case using threadsOkD(3,5) [OF pmap_inspect(3)] by (fastforce intro!: move_work [where extra = 0])
next
  case (pmap_push i S fs out failed)
  then have "length out < length fs" using threadsOkD(5) [OF pmap_push(3,1)] by (auto simp: collected_def)
  then show ?case using pmap_push threadsOkD(3) [OF pmap_push(3)]
    by (intro move_work [where extra = 0]) (auto split: request.split)
next
  case (pmap_spawn i S fs xs)
  then show ?case using threadsOkD(3) [OF pmap_spawn(5)] by (intro move_work [where extra = 4]) auto
next
  case (make i S x)
  then show ?case using threadsOkD(3) [OF make(4)] by (intro move_work [where extra = 4]) auto
next
  case (deref_other i S j)
  then show ?case using threadsOkD(3) [OF deref_other(5)] by (intro move_work [where extra = 0]) auto
next
  case (deref_start i S j)
  then show ?case using threadsOkD(3) [OF deref_start(5)] by (intro move_work [where extra = 0]) auto
next
  case (joined i S j)
  then show ?case using threadsOkD(3,5) [OF joined(4)] by (intro move_work [where extra = 0]) fastforce+
next
  case (read_error i S j)
  then show ?case using threadsOkD(3,5) [OF read_error(3)]
    by (intro move_work [where extra = 0]) (fastforce split: option.split)+
next
  case (read_result i S j)
  then show ?case using threadsOkD(3,5) [OF read_result(3)] by (intro move_work [where extra = 0]) fastforce+
next
  case (is_realized i S j)
  then show ?case using threadsOkD(3) [OF is_realized(4)] by (intro move_work [where extra = 0]) auto
next
  case (pmap_start i S xs)
  then show ?case using threadsOkD(3) [OF pmap_start(4)] by (intro move_work [where extra = 0]) auto
next
  case (pmap_spawned i S fs xs)
  then show ?case using threadsOkD(3) [OF pmap_spawned(5)] by (intro move_work [where extra = 0]) auto
next
  case (pmap_join i S fs out failed)
  then show ?case using threadsOkD(3,5) [OF pmap_join(5)] by (intro move_work [where extra = 0]) fastforce+
next
  case (pmap_end i S fs out failed)
  then show ?case using threadsOkD(3,5) [OF pmap_end(4)] by (intro move_work [where extra = 0]) fastforce+
qed (auto intro!: worker_work)

text \<open>A thread that has not ended can go on, and so can a call that waits for no thread.\<close>

lemma body_goes_on:
  assumes "\<forall>x. \<exists>r. outcome x r" "j < length (bodies S)" "workers S ! j \<noteq> Exited"
  shows "\<exists>S'. fstep outcome nil requests S S'"
proof (cases "workers S ! j")
  case Invoking
  from assms(1) obtain r where r: "outcome (bodies S ! j) r" by blast
  show ?thesis
  proof (cases r)
    case (Inl e)
    then show ?thesis using body_raises [OF assms(2) Invoking] r by blast
  next
    case (Inr v)
    then show ?thesis using body_returns [OF assms(2) Invoking] r by blast
  qed
next
  case (Erring e)
  show ?thesis using body_records [OF assms(2) Erring] by blast
next
  case (Storing v)
  show ?thesis using body_stores [OF assms(2) Storing] by blast
next
  case Marking
  show ?thesis using body_marks [OF assms(2) Marking] by blast
qed (use assms in simp)

lemma client_goes_on:
  assumes "\<forall>x. \<exists>r. outcome x r" "threadsOk outcome nil requests S" "i < length requests" "\<forall>a. clients S ! i \<noteq> Answered a"
  shows "\<exists>S'. fstep outcome nil requests S S'"
proof -
  have ok: "clientOk S (requests ! i) (clients S ! i)" using threadsOkD(5) [OF assms(2,3)] .
  have body: "\<exists>S'. fstep outcome nil requests S S'" if "j < length (bodies S)" "workers S ! j \<noteq> Exited" for j
    by (rule body_goes_on [OF assms(1) that])
  show ?thesis
  proof (cases "clients S ! i")
    case Starting
    show ?thesis
    proof (cases "requests ! i")
      case (Deref j)
      then show ?thesis using deref_other [OF assms(3) Starting] deref_start [OF assms(3) Starting] by blast
    qed (use make [OF assms(3) Starting] is_realized [OF assms(3) Starting] pmap_start [OF assms(3) Starting] in blast)+
  next
    case (Joining j)
    with ok joined [OF assms(3) Joining] body [of j] show ?thesis by auto
  next
    case (Spawning fs)
    with ok obtain xs where "requests ! i = Pmap xs" "length fs \<le> length xs" by auto
    then show ?thesis
      using pmap_spawn [OF assms(3) Spawning, of xs] pmap_spawned [OF assms(3) Spawning, of xs] by (metis le_neq_implies_less)
  next
    case (Collecting fs out failed)
    with ok obtain xs where "madeFor S xs fs" by (auto simp: collected_def)
    then have "fs ! length out < length (bodies S)" if "length out < length fs"
      using that by (auto simp: madeFor_def list_all2_conv_all_nth)
    then show ?thesis
      using pmap_join [OF assms(3) Collecting] pmap_end [OF assms(3) Collecting] body [of "fs ! length out"] by blast
  next
    case (ReadingError j)
    show ?thesis using read_error [OF assms(3) ReadingError] by blast
  next
    case (ReadingResult j)
    show ?thesis using read_result [OF assms(3) ReadingResult] by blast
  next
    case (Inspecting fs out failed)
    show ?thesis using pmap_inspect [OF assms(3) Inspecting] by blast
  next
    case (Pushing fs out failed)
    show ?thesis using pmap_push [OF assms(3) Pushing] by blast
  qed (use assms(4) in blast)
qed

section \<open>Runs by a schedule\<close>

datatype turn = OfClient nat | OfBody nat

definition playClient ::
    "'v \<Rightarrow> 'x request list \<Rightarrow> ('x, 'v, 'e) threads \<Rightarrow> nat \<Rightarrow> ('x, 'v, 'e) threads" where
  "playClient nil requests S i =
     (case clients S ! i of
        Starting \<Rightarrow>
          (case requests ! i of
             MakeFuture x \<Rightarrow> moveTo i (Answered (Made (length (bodies S)))) (spawn nil x S)
           | Deref j \<Rightarrow>
               if j < length (bodies S) then moveTo i (if futDone (futures S ! j) then ReadingError j else Joining j) S
               else moveTo i (Answered NotFuture) S
           | IsRealized j \<Rightarrow> moveTo i (Answered (Realizes (j < length (bodies S) \<and> futDone (futures S ! j)))) S
           | Pmap xs \<Rightarrow> moveTo i (Spawning []) S)
      | Joining j \<Rightarrow> if workers S ! j = Exited then moveTo i (ReadingError j) S else S
      | ReadingError j \<Rightarrow>
          moveTo i (case futError (futures S ! j) of None \<Rightarrow> ReadingResult j | Some e \<Rightarrow> Answered (Raises e)) S
      | ReadingResult j \<Rightarrow> moveTo i (Answered (Value (futResult (futures S ! j)))) S
      | Spawning fs \<Rightarrow>
          (case requests ! i of
             Pmap xs \<Rightarrow>
               if length fs < length xs then moveTo i (Spawning (fs @ [length (bodies S)])) (spawn nil (xs ! length fs) S)
               else if length fs = length xs then moveTo i (Collecting fs [] None) S else S
           | _ \<Rightarrow> S)
      | Collecting fs out failed \<Rightarrow>
          if \<not> length out < length fs then moveTo i (Answered (pmapEnd (futures S) fs out failed)) S
          else if workers S ! (fs ! length out) = Exited then moveTo i (Inspecting fs out failed) S else S
      | Inspecting fs out failed \<Rightarrow>
          moveTo i (Pushing fs out (if failed = None \<and> futError (futures S ! (fs ! length out)) \<noteq> None
                                    then Some (length out) else failed)) S
      | Pushing fs out failed \<Rightarrow> moveTo i (Collecting fs (out @ [futResult (futures S ! (fs ! length out))]) failed) S
      | Answered a \<Rightarrow> S)"

definition playBody :: "('x \<Rightarrow> 'e + 'v) \<Rightarrow> 'v \<Rightarrow> ('x, 'v, 'e) threads \<Rightarrow> nat \<Rightarrow> ('x, 'v, 'e) threads" where
  "playBody fn nil S j =
     (case workers S ! j of
        Invoking \<Rightarrow> workerTo j (\<lambda>f. f) (case fn (bodies S ! j) of Inl e \<Rightarrow> Erring e | Inr v \<Rightarrow> Storing v) S
      | Erring e \<Rightarrow> workerTo j (\<lambda>f. f\<lparr>futError := Some e\<rparr>) (Storing nil) S
      | Storing v \<Rightarrow> workerTo j (\<lambda>f. f\<lparr>futResult := v\<rparr>) Marking S
      | Marking \<Rightarrow> workerTo j (\<lambda>f. f\<lparr>futDone := True\<rparr>) Exited S
      | Exited \<Rightarrow> S)"

fun play ::
    "('x \<Rightarrow> 'e + 'v) \<Rightarrow> 'v \<Rightarrow> 'x request list \<Rightarrow> ('x, 'v, 'e) threads \<Rightarrow> turn \<Rightarrow> ('x, 'v, 'e) threads" where
  "play fn nil requests S (OfClient i) = (if i < length requests then playClient nil requests S i else S)"
| "play fn nil requests S (OfBody j) = (if j < length (bodies S) then playBody fn nil S j else S)"

lemma deref_steps:
  assumes "i < length requests" "clients S ! i = Starting" "requests ! i = Deref j" "j < length (bodies S)"
  shows "futDone (futures S ! j) \<Longrightarrow> fstep outcome nil requests S (moveTo i (ReadingError j) S)"
    and "\<not> futDone (futures S ! j) \<Longrightarrow> fstep outcome nil requests S (moveTo i (Joining j) S)"
  using deref_start [OF assms, of outcome nil] by simp_all

lemma inspect_steps:
  assumes "i < length requests" "clients S ! i = Inspecting fs out failed"
  shows "failed = None \<Longrightarrow> futError (futures S ! (fs ! length out)) = Some e \<Longrightarrow>
      fstep outcome nil requests S (moveTo i (Pushing fs out (Some (length out))) S)"
    and "failed = Some k \<Longrightarrow> fstep outcome nil requests S (moveTo i (Pushing fs out (Some k)) S)"
    and "futError (futures S ! (fs ! length out)) = None \<Longrightarrow> fstep outcome nil requests S (moveTo i (Pushing fs out failed) S)"
  using pmap_inspect [OF assms, of outcome nil] by simp_all

lemma play_client_step: "i < length requests \<Longrightarrow> playClient nil requests S i = S \<or> fstep outcome nil requests S (playClient nil requests S i)"
  by (cases "clients S ! i")
    (auto simp: playClient_def split: request.split intro: fstep.intros deref_steps inspect_steps)

lemma play_body_step:
  "j < length (bodies S) \<Longrightarrow> playBody fn nil S j = S \<or> fstep (\<lambda>x r. r = fn x) nil requests S (playBody fn nil S j)"
  by (cases "workers S ! j") (auto simp: playBody_def split: sum.split intro: fstep.intros)

lemma play_reachable: "freach (\<lambda>x r. r = fn x) nil requests (foldl (play fn nil requests) (fstart (length requests)) ts)"
proof (induction ts rule: rev_induct)
  case (snoc t ts)
  let ?S = "foldl (play fn nil requests) (fstart (length requests)) ts"
  have "play fn nil requests ?S t = ?S \<or> fstep (\<lambda>x r. r = fn x) nil requests ?S (play fn nil requests ?S t)"
    using play_client_step [of _ requests nil ?S] play_body_step [of _ ?S fn nil requests] by (cases t) auto
  with snoc show ?case by (auto intro: freach.fut_step)
qed (simp add: freach.fut_start)

text \<open>The second element of three raises, after the third was done; two threads deref its future.\<close>

definition sampleBody :: "nat \<Rightarrow> string + nat" where
  "sampleBody n = (if n = 0 then Inl ''Divide by zero'' else Inr (100 div n))"

definition sampleRequests :: "nat request list" where
  "sampleRequests = [Pmap [5, 0, 20], Deref 1, Deref 1]"

definition sampleRun :: "(nat, nat, string) threads" where
  "sampleRun = foldl (play sampleBody 0 sampleRequests) (fstart 3)
     (map OfClient [0, 0, 0, 0, 1] @ map OfBody [2, 1, 2, 0, 2, 1, 1, 0, 0] @ map OfClient [0, 0, 0, 0] @
      [OfBody 1] @ map OfClient [2, 0, 1, 0, 2, 1, 0, 0, 0, 0, 0, 0])"

lemma sampleRun_reachable: "freach (\<lambda>x r. r = sampleBody x) 0 sampleRequests sampleRun"
proof -
  have n: "3 = length sampleRequests" by (simp add: sampleRequests_def)
  show ?thesis unfolding sampleRun_def n by (rule play_reachable)
qed

lemma sampleRun_end:
  "clients sampleRun = [Answered (Raises ''Divide by zero''), Answered (Raises ''Divide by zero''), Answered (Raises ''Divide by zero'')]"
  by (simp add: sampleRun_def sampleRequests_def fstart_def playClient_def playBody_def sampleBody_def moveTo_def spawn_def
      workerTo_def pmapEnd_def numeral_3_eq_3 numeral_2_eq_2)

section \<open>Properties\<close>



text \<open>All \<^verbatim>\<open>deref\<close>s of one future answer the same, from any thread and at any time: the value its body returned or the
  exception it raised, and a future seen as realised has that outcome for good.\<close>

theorem derefs_agree:
  assumes "freach outcome nil requests S" "i < length requests" "k < length requests"
    and "requests ! i = Deref j" "clients S ! i = Answered a" "a \<noteq> NotFuture"
    and "requests ! k = Deref j" "clients S ! k = Answered b" "b \<noteq> NotFuture"
  shows "a = b \<and> (\<exists>r. outcome (bodies S ! j) r \<and> a = derefAnswer r)"
proof -
  note ok = freach_ok [OF assms(1)]
  have "a = derefAnswer (resultOf (futures S ! j))" "b = derefAnswer (resultOf (futures S ! j))" "exited S j"
    using threadsOkD(5) [OF ok assms(2)] threadsOkD(5) [OF ok assms(3)] assms by auto
  moreover have "outcome (bodies S ! j) (resultOf (futures S ! j))"
    using threadsOkD(4) [OF ok, of j] \<open>exited S j\<close> by (auto simp: exited_def)
  ultimately show ?thesis by blast
qed

theorem derefs_agree_witness:
  "\<exists>r. r = sampleBody (bodies sampleRun ! 1) \<and> Raises ''Divide by zero'' = derefAnswer r"
  using derefs_agree [OF sampleRun_reachable, of 1 2] by (simp add: sampleRequests_def sampleRun_end)

text \<open>No call on futures waits for ever: when every body ends, a run makes no more steps than the bound of the work
  that is left, and where it can make none, every call has been answered.\<close>

theorem futures_answer:
  assumes "freach outcome nil requests S" "\<forall>x. \<exists>r. outcome x r"
  shows "((fstep outcome nil requests ^^ n) S S' \<longrightarrow> n \<le> workLeft requests S) \<and>
    ((\<forall>S'. \<not> fstep outcome nil requests S S') \<longrightarrow> (\<forall>i<length requests. \<exists>a. clients S ! i = Answered a))"
proof (intro conjI impI allI)
  show "n \<le> workLeft requests S" if "(fstep outcome nil requests ^^ n) S S'"
    using that freach_ok [OF assms(1)]
  proof (induction n arbitrary: S)
    case (Suc n)
    obtain M where M: "fstep outcome nil requests S M" "(fstep outcome nil requests ^^ n) M S'" using relpowp_Suc_D2 [OF Suc.prems(1)] by (elim exE conjE) (rule that)
    have "n \<le> workLeft requests M" by (rule Suc.IH [OF M(2) threadsOk_step [OF M(1) Suc.prems(2)]])
    then show ?case using step_work [OF M(1) Suc.prems(2)] by simp
  qed simp
  show "\<exists>a. clients S ! i = Answered a" if "\<forall>S'. \<not> fstep outcome nil requests S S'" "i < length requests" for i
    using client_goes_on [OF assms(2) freach_ok [OF assms(1)] that(2)] that(1) by blast
qed

theorem futures_answer_witness:
  "\<not> ((fstep (\<lambda>x r. r = sampleBody x) 0 sampleRequests ^^ Suc (workLeft sampleRequests sampleRun)) sampleRun sampleRun)"
  using futures_answer [OF sampleRun_reachable] by (metis Suc_n_not_le_n)

end
