(* ===== verification/Spec2Isabelle.thy ===== *)
theory Spec2Isabelle
  imports Lexer Engine ActorSafety JsonTotal JsonPrims Maps ReaderProps SyntaxQuote Program LazyProps LazyRace CoreProps Atoms
    Futures
begin

text \<open>
  A verification development of protoClojure, a Clojure on the object kernel protoCore. The program reads text
  into values (src/src/reader), compiles each form to a bytecode module (src/src/compiler), runs modules on
  a stack machine and offers the functions of the language (src/src/runtime). protoCore, PCRE2 and protoIO are other
  projects: what the code uses of them is an argument of the definitions (a record of functions, or single
  ones), and what it relies on is a named hypothesis or the assumption of a locale.

  \<^bold>\<open>From text to forms.\<close> \<open>Utf8\<close>, \<open>UnicodeLetters\<close> and \<open>Lexer\<close> model Lexer.cpp: a cursor, one function per
  \<^verbatim>\<open>lex...\<close> member, \<open>nextTok\<close> and \<open>peekTok\<close>. \<open>Reader\<close> models Reader.cpp over it: every reader macro, the
  function literals and syntax-quote with their generated names. \<open>ReaderProps\<close> shows that each loop consumes
  tokens and that what a form sets is undone on every path; \<open>SyntaxQuote\<close> evaluates what a syntax-quote expands
  to and finds the template filled in.

  \<^bold>\<open>From forms to code.\<close> \<open>Names\<close> is how a symbol is read; \<open>Bytecode\<close> is Opcodes.h and BytecodeModule.cpp
  (instruction words, the constant pool, the analysis \<^verbatim>\<open>computeMaxStack\<close>). \<open>CompilerState\<close>,
  \<open>Destructure\<close>, \<open>CompileFn\<close> and \<open>Compiler\<close> are Compiler.cpp, one definition per special form over the
  compilation \<open>cf\<close> of a nested form; a compiler action takes the compiler's state and answers a value or a
  CompileError with the state. \<open>compileTopLevel\<close> is what Eval.cpp does with one form.

  \<^bold>\<open>Running code.\<close> \<open>SmallInt\<close>, \<open>VM\<close> and \<open>Dispatch\<close> are ExecutionEngine.cpp: the tagged integers, the
  dispatch of a call, one action per group of opcodes, the loop of a frame with its exception handlers
  (\<open>runFrame\<close>) and \<open>execute\<close>. An action that would read or write outside the frame's slots is a
  \<open>Fault\<close>, which the C++ has no branch for. \<open>StackEffects\<close> and \<open>StackSafety\<close> prove that bodies a
  bytecode verifier would accept never fault; \<open>Pieces\<close> says how pieces of code are put together;
  \<open>Emission\<close>, \<open>Steps\<close>, \<open>Branches\<close>, \<open>Blocks\<close>, \<open>CompileSafe\<close>, \<open>ArityOk\<close>, \<open>FormsOk\<close>, \<open>TryOk\<close> and \<open>CompilerOk\<close> prove,
  part by part, that the compiler emits only such pieces. \<open>Compiled\<close> (one frame) and \<open>Program\<close> (a session with all
  its calls) join the two halves. \<open>CompileRuns\<close> evaluates the compiler on small forms. \<open>Engine\<close> holds arities,
  rethrow and the set of redefined operators.

  \<^bold>\<open>Values.\<close> \<open>Keys\<close> and \<open>Maps\<close> are MapOps.cpp and SetOps.cpp: the hash and the equality of keys, and maps and sets on
  protoCore's hashed collections, whose contract is the locale \<open>hashed_collection\<close>, interpreted on the slots
  and buckets that MapOps.h describes. \<open>Numbers\<close> and \<open>CorePrims\<close> (with \<open>CoreProps\<close>) are the functions on numbers,
  \<^verbatim>\<open>compare\<close>, \<^verbatim>\<open>sort\<close>, \<^verbatim>\<open>frequencies\<close> and the others of CorePrims.cpp. \<open>Json\<close>, \<open>JsonPrims\<close>, \<open>JsonTotal\<close>
  and \<open>JsonRoundtrip\<close> are Json.cpp.

  \<^bold>\<open>Sequences.\<close> \<open>LazySeq\<close> is LazySeq.cpp and SeqTypes.cpp for one thread: the slots of lazy seqs, their
  realisation and the native steps; \<open>SeqPrims\<close> the functions that make and read sequences. \<open>LazyTyped\<close> gives
  each lazy seq the elements it promises (the specification), and \<open>LazyRun\<close>, \<open>LazySteps\<close>, \<open>LazyWalks\<close>,
  \<open>LazyColls\<close>, \<open>LazyOk\<close> and \<open>LazyReads\<close> show that the code delivers them. \<open>LazyKeeps\<close> and \<open>LazyPrograms\<close> say what no
  program can do to a slot; \<open>LazyProps\<close> holds the properties. \<open>LazyRace\<close> is the protocol of several threads.

  \<^bold>\<open>Threads.\<close> \<open>Actors\<close> with \<open>ActorSafety\<close> (ActorScheduler.cpp), \<open>Atoms\<close>, \<open>Futures\<close> (both Primitives.cpp) and \<open>LazyRace\<close>
  are step relations over all threads, at the grain of one atomic access or one locked section, with invariants
  by induction over reachable states. The memory model is that of one order of all accesses, except where the code asks
  for less on the path of a property: the release store that drops the claim of an actor may become visible after
  the worker's own later reads (\<open>late\<close>). \<open>message_stranded\<close> shows what this can do; the runs without it
  are \<open>ordered\<close>.

  \<^bold>\<open>Fuel and bounds.\<close> Where a loop may run for ever because it calls functions of the program, the definition
  takes fuel: \<open>runFrame\<close> and \<open>execute\<close> (a run cut off is \<open>NoFuel\<close>, and safety is proved for every fuel),
  \<open>realizeLazy\<close> and the walks (each property that a read answers says so for all large enough fuel). The reader, the
  compiler, the JSON parser and writer recurse to the depth their native stack allows, an argument; one level
  more raises the StackOverflowError of the code. The rounds of the JSON loops are bounded by the bytes of the source,
  which \<open>JsonTotal\<close> shows to be enough. Machine integers have their width: instruction words 32 bits, tagged values 64,
  hashes 64; the depths of \<^verbatim>\<open>computeMaxStack\<close> stay within \<^verbatim>\<open>int\<close> or the analysis has no result, for C++ leaves
  the overflow undefined. Lines, columns and lengths are unbounded.

  \<^bold>\<open>Interfaces.\<close> Two locales: \<open>hashed_collection\<close> (above) and \<open>const_kind\<close>, what the seven kinds of constants of a
  module share: adding finds or appends, keeps the others and is repeatable; it is interpreted on each kind.

  \<^bold>\<open>What modelling showed.\<close> Theorems that pin defects: \<open>message_stranded\<close> and \<open>shutdown_can_hang\<close> (a message left for ever; a
  shutdown that waits for ever), \<open>named_arities_misread\<close> (the arities of a named function taken as one
  body), \<open>nontail_recur_overflows\<close> (a recur outside tail position drives the stack analysis out of \<^verbatim>\<open>int\<close>),
  \<open>negative_dorun_walks_all\<close> (a negative count walks everything), \<open>stream_newline_in_string\<close> (a JSON string over a
  line end misread from a reader).

  \<^bold>\<open>Not modelled.\<close> Exceptions as objects (an exception is its class and message, or a pointer); the interning of
  names; the collector and all rooting of values for it; the debugger (DapServer.cpp, DebugHook.cpp) and the code compiled only for
  it; input and output (IO.cpp binds protoIO); strings, printing and regular expressions, which are calls of protoCore and PCRE2;
  the search and loading of libraries, the command line and the REPL.
\<close>

end
